(* ===== verification/Prelude.thy ===== *)
theory Prelude
  imports Main "HOL-Library.Word"
begin

text \<open>
  Shared vocabulary of the development: Python exceptions as values, Python list indexing and
  slicing, insertion-ordered dictionaries (\<open>dict\<close> and \<open>OrderedDict\<close>), sets held as duplicate-free
  lists, and the sums over dictionaries the byte budgets are stated with.
\<close>

section \<open>Exceptions\<close>

text \<open>
  One constructor per exception class the modelled code raises. The string is the constant part of
  the message, so that two raise sites of one function stay distinguishable.
\<close>

datatype py_error =
    ValueError string
  | KeyError string
  | IndexError string
  | RuntimeError string
  | ZeroDivisionError string
  | StructError string
  | AttributeError string
  | LocalError string
  | OverflowError string
  | OSError string
  | TypeError string
  | SqlError string string

type_synonym 'a res = "py_error + 'a"

text \<open>Sequencing of two steps that may raise.\<close>

definition bindR :: "'a res \<Rightarrow> ('a \<Rightarrow> 'b res) \<Rightarrow> 'b res" where
  "bindR r f = (case r of Inl e \<Rightarrow> Inl e | Inr x \<Rightarrow> f x)"

text \<open>A guard that raises: \<open>if c: raise e\<close>.\<close>

definition raise_if :: "bool \<Rightarrow> py_error \<Rightarrow> unit res" where
  "raise_if c e = (if c then Inl e else Inr ())"

named_theorems res_simps \<open>rewriting of results that may raise\<close>

lemma bindR_simps [simp, res_simps]:
  "bindR (Inl e) f = Inl e"
  "bindR (Inr x) f = f x"
  by (simp_all add: bindR_def)

lemma raise_if_simps [simp, res_simps]:
  "raise_if True e = Inl e"
  "raise_if False e = Inr ()"
  by (simp_all add: raise_if_def)

lemma bindR_eq_Inr [res_simps]:
  "bindR r f = Inr y \<longleftrightarrow> (\<exists>x. r = Inr x \<and> f x = Inr y)"
  by (cases r) auto

lemma raise_if_eq_Inr [res_simps]:
  "raise_if c e = Inr u \<longleftrightarrow> \<not> c"
  by (simp add: raise_if_def)

lemma bindR_raise_if [res_simps]:
  "bindR (raise_if c e) f = (if c then Inl e else f ())"
  by (simp add: raise_if_def)

lemma bindR_assoc: "bindR (bindR r f) g = bindR r (\<lambda>x. bindR (f x) g)"
  by (cases r) auto

text \<open>Mapping a raising function over a list, left to right, stopping at the first exception.\<close>

fun mapR :: "('a \<Rightarrow> 'b res) \<Rightarrow> 'a list \<Rightarrow> 'b list res" where
  "mapR f [] = Inr []"
| "mapR f (x # xs) = bindR (f x) (\<lambda>y. bindR (mapR f xs) (\<lambda>ys. Inr (y # ys)))"

lemma mapR_Inr:
  "mapR f xs = Inr ys \<Longrightarrow> length ys = length xs \<and> (\<forall>i < length xs. f (xs ! i) = Inr (ys ! i))"
proof (induction xs arbitrary: ys)
  case Nil
  then show ?case by simp
next
  case (Cons x xs)
  then obtain z zs where "f x = Inr z" "mapR f xs = Inr zs" "ys = z # zs"
    by (auto simp: bindR_eq_Inr)
  with Cons.IH [of zs] show ?case by (auto simp: nth_Cons split: nat.splits)
qed

lemma mapR_total:
  "(\<And>x. x \<in> set xs \<Longrightarrow> f x = Inr (g x)) \<Longrightarrow> mapR f xs = Inr (map g xs)"
  by (induction xs) auto

section \<open>Stateful steps that may raise\<close>

text \<open>
  A method of a mutable object takes the state to a result and the state it leaves. A raise keeps the
  state the object had at that moment, which is what a caller that catches the exception sees.
\<close>

type_synonym ('s, 'a) act = "'s \<Rightarrow> 'a res \<times> 's"

definition retA :: "'a \<Rightarrow> ('s, 'a) act" where
  "retA x s = (Inr x, s)"

definition raiseA :: "py_error \<Rightarrow> ('s, 'a) act" where
  "raiseA e s = (Inl e, s)"

definition liftA :: "('s \<Rightarrow> 'a res) \<Rightarrow> ('s, 'a) act" where
  "liftA f s = (f s, s)"

definition modA :: "('s \<Rightarrow> 's) \<Rightarrow> ('s, unit) act" where
  "modA f s = (Inr (), f s)"

definition bindA :: "('s, 'a) act \<Rightarrow> ('a \<Rightarrow> ('s, 'b) act) \<Rightarrow> ('s, 'b) act" where
  "bindA m f s = (case m s of (Inl e, s') \<Rightarrow> (Inl e, s') | (Inr x, s') \<Rightarrow> f x s')"

text \<open>A method body that needs the state it runs in: \<open>withA (\<lambda>s. m)\<close> runs \<open>m\<close> built from \<open>s\<close>.\<close>

definition withA :: "('s \<Rightarrow> ('s, 'a) act) \<Rightarrow> ('s, 'a) act" where
  "withA f s = f s s"

text \<open>\<open>try: m except E: h\<close> for the exceptions \<open>P\<close> selects, and \<open>try: m finally: f\<close> for a clean-up
  that cannot raise.\<close>

definition catchA :: "(py_error \<Rightarrow> bool) \<Rightarrow> ('s, 'a) act \<Rightarrow> (py_error \<Rightarrow> ('s, 'a) act) \<Rightarrow> ('s, 'a) act" where
  "catchA P m h s = (case m s of (Inl e, s') \<Rightarrow> if P e then h e s' else (Inl e, s') | (Inr x, s') \<Rightarrow> (Inr x, s'))"

definition finallyA :: "('s, 'a) act \<Rightarrow> ('s \<Rightarrow> 's) \<Rightarrow> ('s, 'a) act" where
  "finallyA m f s = (case m s of (r, s') \<Rightarrow> (r, f s'))"

definition is_value_error :: "py_error \<Rightarrow> bool" where
  "is_value_error e = (case e of ValueError _ \<Rightarrow> True | _ \<Rightarrow> False)"

text \<open>Running a step of a component held in a field of the state.\<close>

definition zoomA :: "('s \<Rightarrow> 't) \<Rightarrow> ('t \<Rightarrow> 's \<Rightarrow> 's) \<Rightarrow> ('t, 'a) act \<Rightarrow> ('s, 'a) act" where
  "zoomA get put m s = (case m (get s) of (r, t) \<Rightarrow> (r, put t s))"

fun mapA :: "('x \<Rightarrow> ('s, 'a) act) \<Rightarrow> 'x list \<Rightarrow> ('s, 'a list) act" where
  "mapA f [] = retA []"
| "mapA f (x # xs) = bindA (f x) (\<lambda>y. bindA (mapA f xs) (\<lambda>ys. retA (y # ys)))"

named_theorems act_simps \<open>running stateful steps\<close>

lemma act_run [act_simps]:
  "retA x s = (Inr x, s)"
  "raiseA e s = (Inl e, s)"
  "liftA f s = (f s, s)"
  "modA g s = (Inr (), g s)"
  "withA h s = h s s"
  by (simp_all add: retA_def raiseA_def liftA_def modA_def withA_def)

lemma bindA_run [act_simps]:
  "bindA m f s = (case m s of (r, s') \<Rightarrow> (case r of Inl e \<Rightarrow> (Inl e, s') | Inr x \<Rightarrow> f x s'))"
  by (simp add: bindA_def split: prod.splits sum.splits)

lemma bindA_Inr:
  "bindA m f s = (Inr y, t) \<longleftrightarrow> (\<exists>x u. m s = (Inr x, u) \<and> f x u = (Inr y, t))"
  by (auto simp: bindA_def split: prod.splits sum.splits)

lemma bindA_Inl:
  "bindA m f s = (Inl e, t) \<longleftrightarrow>
     m s = (Inl e, t) \<or> (\<exists>x u. m s = (Inr x, u) \<and> f x u = (Inl e, t))"
  by (auto simp: bindA_def split: prod.splits sum.splits)

lemma snd_bindA_retA: "snd (bindA m (\<lambda>x. retA (f x)) s) = snd (m s)"
  by (simp add: act_simps split: prod.splits sum.splits)

text \<open>Steps that keep a field, and steps that keep an invariant, compose.\<close>

definition keepsA :: "('s \<Rightarrow> 'b) \<Rightarrow> ('s, 'a) act \<Rightarrow> bool" where
  "keepsA f m = (\<forall>s. f (snd (m s)) = f s)"

named_theorems keeps_intros \<open>closure rules of keepsA\<close>

lemma keepsA_D: "keepsA f m \<Longrightarrow> f (snd (m s)) = f s"
  by (simp add: keepsA_def)

lemma keepsA_base [keeps_intros]:
  "keepsA f (retA x)" "keepsA f (raiseA e)" "keepsA f (liftA h)"
  by (simp_all add: keepsA_def act_simps)

lemma keepsA_modA [keeps_intros]: "(\<And>s. f (g s) = f s) \<Longrightarrow> keepsA f (modA g)"
  by (simp add: keepsA_def act_simps)

lemma keepsA_bindA [keeps_intros]:
  assumes "keepsA f m" and "\<And>x. keepsA f (k x)"
  shows "keepsA f (bindA m k)"
proof -
  have "f (snd (bindA m k s)) = f s" for s
    using assms(1) [THEN keepsA_D, of s] assms(2) [THEN keepsA_D]
    by (cases "m s") (auto simp: act_simps split: sum.splits)
  then show ?thesis by (simp add: keepsA_def)
qed

lemma keepsA_withA [keeps_intros]: "(\<And>s. keepsA f (k s)) \<Longrightarrow> keepsA f (withA k)"
  by (simp add: keepsA_def act_simps)

lemma keepsA_if [keeps_intros]: "keepsA f a \<Longrightarrow> keepsA f b \<Longrightarrow> keepsA f (if c then a else b)"
  by simp

lemma keepsA_option [keeps_intros]:
  "keepsA f a \<Longrightarrow> (\<And>x. keepsA f (b x)) \<Longrightarrow> keepsA f (case y of None \<Rightarrow> a | Some x \<Rightarrow> b x)"
  by (cases y) auto

lemma keepsA_prod [keeps_intros]:
  "(\<And>x z. keepsA f (b x z)) \<Longrightarrow> keepsA f (case y of (x, z) \<Rightarrow> b x z)"
  by (cases y) auto

lemma keepsA_sum [keeps_intros]:
  "(\<And>x. keepsA f (a x)) \<Longrightarrow> (\<And>x. keepsA f (b x)) \<Longrightarrow> keepsA f (case y of Inl x \<Rightarrow> a x | Inr x \<Rightarrow> b x)"
  by (cases y) auto

lemma keepsA_list [keeps_intros]:
  "keepsA f a \<Longrightarrow> (\<And>x xs. keepsA f (b x xs)) \<Longrightarrow> keepsA f (case y of [] \<Rightarrow> a | x # xs \<Rightarrow> b x xs)"
  by (cases y) auto

lemma keepsA_let [keeps_intros]: "(\<And>x. keepsA f (b x)) \<Longrightarrow> keepsA f (let x = e in b x)"
  by simp

lemma keepsA_catch [keeps_intros]:
  assumes "keepsA f m" and "\<And>e. keepsA f (h e)" shows "keepsA f (catchA P m h)"
proof -
  have "f (snd (catchA P m h s)) = f s" for s
    using assms(1) [THEN keepsA_D, of s] assms(2) [THEN keepsA_D]
    by (cases "m s") (auto simp: catchA_def split: sum.splits)
  then show ?thesis by (simp add: keepsA_def)
qed

lemma keepsA_finally [keeps_intros]:
  assumes "keepsA f m" and "\<And>s. f (g s) = f s" shows "keepsA f (finallyA m g)"
  using assms by (simp add: keepsA_def finallyA_def split: prod.splits) (metis snd_conv)

lemma keepsA_zoom [keeps_intros]: "(\<And>t s. f (put t s) = f s) \<Longrightarrow> keepsA f (zoomA get put m)"
  by (simp add: keepsA_def zoomA_def split: prod.splits)

lemma keepsA_mapA [keeps_intros]: "(\<And>x. keepsA f (g x)) \<Longrightarrow> keepsA f (mapA g xs)"
  by (induction xs) (auto intro!: keeps_intros)

lemma keepsA_of: "keepsA f m \<Longrightarrow> (\<And>s t. f s = f t \<Longrightarrow> g s = g t) \<Longrightarrow> keepsA g m"
  unfolding keepsA_def by blast

text \<open>Steps that relate the states before and after by a reflexive, transitive relation.\<close>

definition stepsA :: "('s \<Rightarrow> 's \<Rightarrow> bool) \<Rightarrow> ('s, 'a) act \<Rightarrow> bool" where
  "stepsA R m \<longleftrightarrow> (\<forall>s. R s (snd (m s)))"

lemma stepsA_D: "stepsA R m \<Longrightarrow> R s (snd (m s))"
  by (simp add: stepsA_def)

lemma stepsA_base:
  assumes "reflp R"
  shows "stepsA R (retA x)" "stepsA R (raiseA e)" "stepsA R (liftA h)"
  using assms by (simp_all add: stepsA_def act_run reflp_def)

lemma stepsA_flat:
  "(\<And>s. R s (g s)) \<Longrightarrow> stepsA R (modA g)"
  "(\<And>s. stepsA R (w s)) \<Longrightarrow> stepsA R (withA w)"
  "stepsA R a \<Longrightarrow> stepsA R b \<Longrightarrow> stepsA R (if c then a else b)"
  "stepsA R a \<Longrightarrow> (\<And>x. stepsA R (f x)) \<Longrightarrow> stepsA R (case y of None \<Rightarrow> a | Some x \<Rightarrow> f x)"
  "(\<And>u v. stepsA R (p u v)) \<Longrightarrow> stepsA R (case z of (u, v) \<Rightarrow> p u v)"
  "stepsA R a \<Longrightarrow> (\<And>x xs. stepsA R (l x xs)) \<Longrightarrow> stepsA R (case zs of [] \<Rightarrow> a | x # xs \<Rightarrow> l x xs)"
  "(\<And>x. stepsA R (t x)) \<Longrightarrow> stepsA R (let x = e in t x)"
  by (auto simp: stepsA_def act_run split: option.split prod.split list.split)

lemma stepsA_bind:
  assumes "transp R" "stepsA R m" "\<And>x. stepsA R (k x)" shows "stepsA R (bindA m k)"
proof -
  have "R s (snd (bindA m k s))" for s
  proof -
    obtain r t where m: "m s = (r, t)" by force
    then have "R s t" using assms(2) [THEN stepsA_D, of s] by simp
    moreover have "R s (snd (k x t))" for x
      using transpD [OF assms(1) \<open>R s t\<close> assms(3) [THEN stepsA_D]] .
    ultimately show ?thesis using m by (cases r) (simp_all add: act_simps)
  qed
  then show ?thesis by (simp add: stepsA_def)
qed

lemma stepsA_catch:
  assumes "transp R" "stepsA R m" "\<And>e. stepsA R (h e)" shows "stepsA R (catchA P m h)"
proof -
  have "R s (snd (catchA P m h s))" for s
  proof -
    obtain r t where m: "m s = (r, t)" by force
    then have "R s t" using assms(2) [THEN stepsA_D, of s] by simp
    moreover have "R s (snd (h x t))" for x
      using transpD [OF assms(1) \<open>R s t\<close> assms(3) [THEN stepsA_D]] .
    ultimately show ?thesis using m by (cases r) (simp_all add: catchA_def)
  qed
  then show ?thesis by (simp add: stepsA_def)
qed

lemma stepsA_finally:
  assumes "transp R" "stepsA R m" "\<And>s. R s (f s)" shows "stepsA R (finallyA m f)"
proof -
  have "R s (snd (finallyA m f s))" for s
    using assms(2) [THEN stepsA_D, of s] assms(3) [of "snd (m s)"] transpD [OF assms(1)]
    by (cases "m s") (auto simp: finallyA_def)
  then show ?thesis by (simp add: stepsA_def)
qed

lemma stepsA_mapA:
  "reflp R \<Longrightarrow> transp R \<Longrightarrow> (\<And>x. stepsA R (g x)) \<Longrightarrow> stepsA R (mapA g xs)"
  by (induction xs) (auto intro!: stepsA_bind stepsA_base)

text \<open>What holds whenever a step returns: only the last step of a sequence matters.\<close>

definition ensuresA :: "('a \<Rightarrow> 's \<Rightarrow> bool) \<Rightarrow> ('s, 'a) act \<Rightarrow> bool" where
  "ensuresA P m \<longleftrightarrow> (\<forall>s x t. m s = (Inr x, t) \<longrightarrow> P x t)"

named_theorems ensures_intros \<open>closure rules of ensuresA\<close>

lemma ensuresA_D: "ensuresA P m \<Longrightarrow> m s = (Inr x, t) \<Longrightarrow> P x t"
  by (simp add: ensuresA_def)

lemma ensuresA_rules [ensures_intros]:
  "(\<And>s. P x s) \<Longrightarrow> ensuresA P (retA x)" "ensuresA P (raiseA e)"
  "(\<And>x. ensuresA P (k x)) \<Longrightarrow> ensuresA P (bindA m k)"
  "(\<And>s. ensuresA P (h s)) \<Longrightarrow> ensuresA P (withA h)"
  "ensuresA P a \<Longrightarrow> ensuresA P b \<Longrightarrow> ensuresA P (if c then a else b)"
  "ensuresA P a \<Longrightarrow> (\<And>x. ensuresA P (f x)) \<Longrightarrow> ensuresA P (case y of None \<Rightarrow> a | Some x \<Rightarrow> f x)"
  "(\<And>u v. ensuresA P (g u v)) \<Longrightarrow> ensuresA P (case z of (u, v) \<Rightarrow> g u v)"
  by (auto simp: ensuresA_def act_run bindA_Inr split: option.split prod.split)

text \<open>Running a list of operations, each of which may raise; a raise does not stop the caller.\<close>

fun run_ops :: "('op \<Rightarrow> ('s, 'r) act) \<Rightarrow> 'op list \<Rightarrow> 's \<Rightarrow> 's" where
  "run_ops step [] s = s"
| "run_ops step (x # xs) s = run_ops step xs (snd (step x s))"

lemma run_ops_inv:
  assumes "\<And>x s. x \<in> set xs \<Longrightarrow> I s \<Longrightarrow> I (snd (step x s))" and "I s"
  shows "I (run_ops step xs s)"
  using assms by (induction xs arbitrary: s) auto

text \<open>
  The contract of a cache bounded in entries: its invariant survives every operation, bounds the
  count, and no operation changes the capacity. \<open>bounded_store\<close> adds a byte budget.
\<close>

locale bounded_count =
  fixes step :: "'op \<Rightarrow> ('s, 'r) act"
    and ok :: "'s \<Rightarrow> bool"
    and count cap :: "'s \<Rightarrow> int"
  assumes step_ok: "ok s \<Longrightarrow> ok (snd (step x s))"
    and ok_count: "ok s \<Longrightarrow> count s \<le> cap s"
    and step_cap: "cap (snd (step x s)) = cap s"
begin

lemma run_ok: "ok s \<Longrightarrow> ok (run_ops step xs s)"
  by (rule run_ops_inv) (auto intro: step_ok)

lemma run_cap: "cap (run_ops step xs s) = cap s"
  by (induction xs arbitrary: s) (simp_all add: step_cap)

lemma run_count: "ok s \<Longrightarrow> count (run_ops step xs s) \<le> cap s"
  using run_ok [THEN ok_count] by (simp add: run_cap)

end

locale bounded_store = bounded_count step ok count cap
  for step :: "'op \<Rightarrow> ('s, 'r) act" and ok :: "'s \<Rightarrow> bool" and count cap :: "'s \<Rightarrow> int" +
  fixes used budget :: "'s \<Rightarrow> int"
  assumes ok_used: "ok s \<Longrightarrow> used s \<le> budget s"
    and step_budget: "budget (snd (step x s)) = budget s"
begin

lemma run_budget: "budget (run_ops step xs s) = budget s"
  by (induction xs arbitrary: s) (simp_all add: step_budget)

lemma run_used: "ok s \<Longrightarrow> used (run_ops step xs s) \<le> budget s"
  using run_ok [THEN ok_used] by (simp add: run_budget)

end

section \<open>Python lists\<close>

text \<open>\<open>xs[i]\<close> with Python's negative indices; out of range raises.\<close>

definition py_pos :: "nat \<Rightarrow> int \<Rightarrow> nat option" where
  "py_pos len i =
     (if int len \<le> i \<or> i < - int len then None else Some (nat (if 0 \<le> i then i else int len + i)))"

definition py_nth :: "'a list \<Rightarrow> int \<Rightarrow> 'a res" where
  "py_nth xs i = (case py_pos (length xs) i of
     None \<Rightarrow> Inl (IndexError ''list index out of range'') | Some p \<Rightarrow> Inr (xs ! p))"

text \<open>\<open>xs[a:b]\<close>: bounds are clamped, a negative bound counts from the end.\<close>

definition py_bound :: "int \<Rightarrow> int \<Rightarrow> int" where
  "py_bound n i = (if i < 0 then max 0 (n + i) else min i n)"

definition py_slice :: "'a list \<Rightarrow> int \<Rightarrow> int \<Rightarrow> 'a list" where
  "py_slice xs a b =
     (let n = int (length xs); lo = py_bound n a; hi = py_bound n b
      in take (nat (hi - lo)) (drop (nat lo) xs))"

lemma py_slice_nonneg:
  "0 \<le> a \<Longrightarrow> 0 \<le> b \<Longrightarrow> py_slice xs a b = take (nat b - nat a) (drop (nat a) xs)"
  by (cases "nat a \<le> length xs"; cases "nat b \<le> length xs")
     (auto simp: py_slice_def py_bound_def Let_def min_def nat_diff_distrib')

lemma length_py_slice:
  "0 \<le> a \<Longrightarrow> a \<le> b \<Longrightarrow> b \<le> int (length xs) \<Longrightarrow> int (length (py_slice xs a b)) = b - a"
  by (simp add: py_slice_nonneg)

lemma py_nth_nonneg:
  "0 \<le> i \<Longrightarrow> i < int (length xs) \<Longrightarrow> py_nth xs i = Inr (xs ! nat i)"
  by (simp add: py_nth_def py_pos_def)

lemma py_nth_Inr:
  "py_nth xs i = Inr x \<Longrightarrow> x \<in> set xs"
  by (auto simp: py_nth_def py_pos_def split: if_splits)

text \<open>\<open>xs.remove(x)\<close> and \<open>xs.pop(0)\<close>.\<close>

definition py_remove :: "'a \<Rightarrow> 'a list \<Rightarrow> 'a list res" where
  "py_remove x xs = (if x \<in> set xs then Inr (remove1 x xs)
                     else Inl (ValueError ''list.remove(x): x not in list''))"

definition py_pop0 :: "'a list \<Rightarrow> ('a \<times> 'a list) res" where
  "py_pop0 xs = (case xs of [] \<Rightarrow> Inl (IndexError ''pop from empty list'') | x # r \<Rightarrow> Inr (x, r))"

lemma set_drop_distinct: "distinct xs \<Longrightarrow> set (drop i xs) = set xs - set (take i xs)"
proof -
  assume d: "distinct xs"
  have "set xs = set (take i xs) \<union> set (drop i xs)" by (metis append_take_drop_id set_append)
  moreover have "set (take i xs) \<inter> set (drop i xs) = {}"
    using set_take_disj_set_drop_if_distinct [OF d, of i i] by simp
  ultimately show ?thesis by blast
qed

text \<open>First match of a list.\<close>

lemma find_filter: "List.find P xs = (case filter P xs of [] \<Rightarrow> None | x # _ \<Rightarrow> Some x)"
  by (induction xs) auto

lemma find_SomeD: "List.find P xs = Some x \<Longrightarrow> P x \<and> x \<in> set xs"
  by (induction xs) (auto split: if_splits)

lemma filter_not_in_take:
  assumes "distinct (map f xs)"
  shows "filter (\<lambda>x. f x \<notin> f ` set (take j xs)) xs = drop j xs"
proof -
  let ?P = "\<lambda>x. f x \<notin> f ` set (take j xs)"
  have "distinct (map f (take j xs) @ map f (drop j xs))"
    using assms by (simp flip: map_append)
  then have "filter ?P (drop j xs) = drop j xs" by (intro filter_True) auto
  moreover have "filter ?P (take j xs) = []" by (simp add: filter_empty_conv)
  ultimately have "filter ?P (take j xs @ drop j xs) = drop j xs" by (simp only: filter_append append_Nil)
  then show ?thesis by simp
qed

section \<open>Floor division\<close>

lemma le_int_div_iff: "0 < b \<Longrightarrow> k \<le> a div b \<longleftrightarrow> k * b \<le> (a::int)"
proof
  assume b: "0 < b" and k: "k \<le> a div b"
  have "k * b \<le> a div b * b" using b k by (simp add: mult_right_mono)
  also have "\<dots> = a - a mod b" by (simp add: minus_mod_eq_div_mult)
  also have "\<dots> \<le> a" using b by simp
  finally show "k * b \<le> a" .
next
  assume b: "0 < b" and "k * b \<le> a"
  from this(2) have "k * b div b \<le> a div b" using b by (rule zdiv_mono1)
  with b show "k \<le> a div b" by simp
qed

lemma int_div_less_iff: "0 < b \<Longrightarrow> a div b < k \<longleftrightarrow> (a::int) < k * b"
  using le_int_div_iff [of b k a] by linarith

lemma int_div_mult_le: "0 < b \<Longrightarrow> a div b * b \<le> (a::int)"
  using le_int_div_iff [of b "a div b" a] by simp

section \<open>Insertion-ordered dictionaries\<close>

text \<open>
  A \<open>dict\<close> or \<open>OrderedDict\<close> is the list of its items in iteration order, with distinct keys.
  Assigning to a present key keeps its place, a new key goes to the end, as in Python.
\<close>

type_synonym ('k, 'v) odict = "('k \<times> 'v) list"

definition od_keys :: "('k, 'v) odict \<Rightarrow> 'k list" where
  "od_keys d = map fst d"

definition od_ok :: "('k, 'v) odict \<Rightarrow> bool" where
  "od_ok d = distinct (od_keys d)"

definition od_get :: "('k, 'v) odict \<Rightarrow> 'k \<Rightarrow> 'v option" where
  "od_get d k = map_of d k"

fun od_put :: "'k \<Rightarrow> 'v \<Rightarrow> ('k, 'v) odict \<Rightarrow> ('k, 'v) odict" where
  "od_put k v [] = [(k, v)]"
| "od_put k v ((k', v') # d) = (if k' = k then (k, v) # d else (k', v') # od_put k v d)"

definition od_del :: "'k \<Rightarrow> ('k, 'v) odict \<Rightarrow> ('k, 'v) odict" where
  "od_del k d = filter (\<lambda>p. fst p \<noteq> k) d"

text \<open>\<open>OrderedDict.move_to_end(k)\<close>; a missing key raises \<open>KeyError\<close>.\<close>

definition od_to_end :: "'k \<Rightarrow> ('k, 'v) odict \<Rightarrow> ('k, 'v) odict res" where
  "od_to_end k d = (case od_get d k of None \<Rightarrow> Inl (KeyError ''move_to_end'')
                    | Some v \<Rightarrow> Inr (od_del k d @ [(k, v)]))"

text \<open>\<open>del d[k]\<close>; a missing key raises.\<close>

definition od_delR :: "'k \<Rightarrow> ('k, 'v) odict \<Rightarrow> ('k, 'v) odict res" where
  "od_delR k d = (case od_get d k of None \<Rightarrow> Inl (KeyError ''del'') | Some _ \<Rightarrow> Inr (od_del k d))"

text \<open>The sum of a numeric field over the values of a dictionary.\<close>

definition od_sum :: "('v \<Rightarrow> int) \<Rightarrow> ('k, 'v) odict \<Rightarrow> int" where
  "od_sum f d = (\<Sum>p\<leftarrow>d. f (snd p))"

named_theorems od_simps \<open>rewriting of ordered dictionaries\<close>

lemma od_get_Nil [simp]: "od_get [] k = None"
  by (simp add: od_get_def)

lemma od_get_Cons: "od_get ((k', v) # d) k = (if k' = k then Some v else od_get d k)"
  by (simp add: od_get_def)

lemma od_keys_Nil [simp]: "od_keys [] = []"
  by (simp add: od_keys_def)

lemma od_keys_Cons [simp]: "od_keys ((k, v) # d) = k # od_keys d"
  by (simp add: od_keys_def)

lemma od_get_None [od_simps]: "od_get d k = None \<longleftrightarrow> k \<notin> set (od_keys d)"
  by (simp add: od_get_def od_keys_def map_of_eq_None_iff)

lemma od_get_Some_in: "od_get d k = Some v \<Longrightarrow> (k, v) \<in> set d"
  by (simp add: od_get_def map_of_SomeD)

lemma od_get_key: "od_get d k = Some v \<Longrightarrow> k \<in> set (od_keys d)"
  by (metis od_get_None option.distinct(1))

lemma od_ok_get_iff: "od_ok d \<Longrightarrow> od_get d k = Some v \<longleftrightarrow> (k, v) \<in> set d"
  by (simp add: od_ok_def od_get_def od_keys_def)

lemma od_get_put [od_simps]: "od_get (od_put k v d) k' = (if k' = k then Some v else od_get d k')"
  by (induction d) (auto simp: od_get_Cons)

lemma od_keys_put [od_simps]:
  "od_keys (od_put k v d) = (if k \<in> set (od_keys d) then od_keys d else od_keys d @ [k])"
  by (induction d) auto

lemma od_ok_put: "od_ok d \<Longrightarrow> od_ok (od_put k v d)"
  by (simp add: od_ok_def od_keys_put)

lemma od_get_del [od_simps]: "od_get (od_del k d) k' = (if k' = k then None else od_get d k')"
  by (induction d) (auto simp: od_del_def od_get_Cons)

lemma od_keys_del [od_simps]: "od_keys (od_del k d) = filter (\<lambda>x. x \<noteq> k) (od_keys d)"
  by (simp add: od_keys_def od_del_def filter_map comp_def)

lemma od_ok_del: "od_ok d \<Longrightarrow> od_ok (od_del k d)"
  by (simp add: od_ok_def od_keys_del)

lemma od_del_absent: "k \<notin> set (od_keys d) \<Longrightarrow> od_del k d = d"
  by (induction d) (auto simp: od_del_def od_keys_def)

lemma od_get_append:
  "od_get (d @ e) k = (case od_get d k of None \<Rightarrow> od_get e k | Some v \<Rightarrow> Some v)"
  by (simp add: od_get_def map_add_def split: option.splits)

lemma od_keys_append: "od_keys (d @ e) = od_keys d @ od_keys e"
  by (simp add: od_keys_def)

lemma od_to_end_get: "od_to_end k d = Inr d' \<Longrightarrow> od_get d' k' = od_get d k'"
  by (auto simp: od_to_end_def od_get_append od_get_del od_get_Cons split: option.splits)

lemma od_to_end_keys:
  "od_to_end k d = Inr d' \<Longrightarrow> od_keys d' = filter (\<lambda>x. x \<noteq> k) (od_keys d) @ [k]"
  by (auto simp: od_to_end_def od_keys_append od_keys_del od_keys_Cons split: option.splits)

lemma od_to_end_ok: "od_to_end k d = Inr d' \<Longrightarrow> od_ok d \<Longrightarrow> od_ok d'"
  by (simp add: od_ok_def od_to_end_keys)

lemma od_to_end_ex: "k \<in> set (od_keys d) \<Longrightarrow> \<exists>d'. od_to_end k d = Inr d'"
  by (cases "od_get d k") (auto simp: od_to_end_def od_get_None)

lemma od_sum_Nil [simp]: "od_sum f [] = 0"
  by (simp add: od_sum_def)

lemma od_sum_Cons [simp]: "od_sum f ((k, v) # d) = f v + od_sum f d"
  by (simp add: od_sum_def)

lemma od_sum_append [simp]: "od_sum f (d @ e) = od_sum f d + od_sum f e"
  by (simp add: od_sum_def)

lemma od_sum_del:
  "od_ok d \<Longrightarrow> od_sum f (od_del k d) = od_sum f d - (case od_get d k of None \<Rightarrow> 0 | Some v \<Rightarrow> f v)"
proof (induction d)
  case Nil
  then show ?case by (simp add: od_del_def)
next
  case (Cons p d)
  obtain k' v where p: "p = (k', v)" by force
  have ok: "od_ok d" and fresh: "k' \<notin> set (od_keys d)"
    using Cons.prems by (simp_all add: p od_ok_def od_keys_def)
  show ?case
  proof (cases "k' = k")
    case True
    with fresh have "od_del k d = d" by (simp add: od_del_absent)
    then show ?thesis using True by (simp add: p od_del_def od_get_Cons)
  next
    case False
    then have "od_del k (p # d) = p # od_del k d" by (simp add: p od_del_def)
    with Cons.IH [OF ok] False show ?thesis by (simp add: p od_get_Cons)
  qed
qed

lemma od_sum_put:
  "od_ok d \<Longrightarrow> od_sum f (od_put k v d) =
     od_sum f d - (case od_get d k of None \<Rightarrow> 0 | Some w \<Rightarrow> f w) + f v"
  by (induction d) (auto simp: od_get_Cons od_ok_def od_keys_def)

lemma od_sum_to_end: "od_ok d \<Longrightarrow> od_to_end k d = Inr d' \<Longrightarrow> od_sum f d' = od_sum f d"
  by (auto simp: od_to_end_def od_sum_del split: option.splits)

lemma length_od_keys [simp]: "length (od_keys d) = length d"
  by (simp add: od_keys_def)

lemma length_od_put:
  "length (od_put k v d) = (if k \<in> set (od_keys d) then length d else Suc (length d))"
  by (metis length_append_singleton length_od_keys od_keys_put)

lemma length_od_del_le: "length (od_del k d) \<le> length d"
  by (simp add: od_del_def)

lemma length_filter_neq:
  "distinct xs \<Longrightarrow> k \<in> set xs \<Longrightarrow> Suc (length (filter (\<lambda>x. x \<noteq> k) xs)) = length xs"
proof (induction xs)
  case Nil
  then show ?case by simp
next
  case (Cons x xs)
  show ?case
  proof (cases "x = k")
    case True
    with Cons.prems have "filter (\<lambda>x. x \<noteq> k) xs = xs" by (auto intro: filter_True)
    with True show ?thesis by simp
  next
    case False
    with Cons show ?thesis by simp
  qed
qed

lemma length_od_del:
  "od_ok d \<Longrightarrow> k \<in> set (od_keys d) \<Longrightarrow> Suc (length (od_del k d)) = length d"
  using length_filter_neq [of "od_keys d" k] od_keys_del [of k d] length_od_keys [of "od_del k d"]
  by (simp add: od_ok_def)

lemma length_od_to_end: "od_ok d \<Longrightarrow> od_to_end k d = Inr d' \<Longrightarrow> length d' = length d"
proof -
  assume ok: "od_ok d" and e: "od_to_end k d = Inr d'"
  then obtain v where v: "od_get d k = Some v" and d': "d' = od_del k d @ [(k, v)]"
    by (auto simp: od_to_end_def split: option.splits)
  from v have "k \<in> set (od_keys d)" by (rule od_get_key)
  with ok d' show ?thesis using length_od_del by fastforce
qed

text \<open>Deleting several keys at once.\<close>

lemma od_filter_Cons:
  "filter (\<lambda>p. fst p \<notin> set (k # ks)) d = filter (\<lambda>p. fst p \<notin> set ks) (od_del k d)"
  by (simp add: od_del_def conj_commute)

lemma od_sum_filter:
  "od_ok d \<Longrightarrow> distinct ks \<Longrightarrow> od_sum f (filter (\<lambda>p. fst p \<notin> set ks) d) =
     od_sum f d - (\<Sum>k\<leftarrow>ks. case od_get d k of None \<Rightarrow> 0 | Some v \<Rightarrow> f v)"
proof (induction ks arbitrary: d)
  case Nil
  then show ?case by simp
next
  case (Cons k ks)
  have "map (\<lambda>j. case od_get (od_del k d) j of None \<Rightarrow> 0 | Some v \<Rightarrow> f v) ks
      = map (\<lambda>j. case od_get d j of None \<Rightarrow> 0 | Some v \<Rightarrow> f v) ks"
    using Cons.prems by (auto simp: od_get_del)
  then show ?case
    using Cons.IH [of "od_del k d"] Cons.prems
    by (simp only: od_filter_Cons od_ok_del distinct.simps od_sum_del) simp
qed

lemma length_filter_keys:
  "od_ok d \<Longrightarrow> distinct ks \<Longrightarrow> set ks \<subseteq> set (od_keys d) \<Longrightarrow>
     int (length (filter (\<lambda>p. fst p \<notin> set ks) d)) = int (length d) - int (length ks)"
proof (induction ks arbitrary: d)
  case Nil
  then show ?case by simp
next
  case (Cons k ks)
  have "set ks \<subseteq> set (od_keys (od_del k d))" using Cons.prems by (auto simp: od_keys_del)
  then show ?case
    using Cons.IH [of "od_del k d"] Cons.prems length_od_del [of d k]
    by (simp only: od_filter_Cons od_ok_del distinct.simps) simp
qed

lemma od_get_filter_keys:
  "od_get (filter (\<lambda>p. P (fst p)) d) k = (if P k then od_get d k else None)"
  by (induction d) (auto simp: od_get_Cons)

lemma od_get_filter_notin:
  "od_get (filter (\<lambda>p. fst p \<notin> S) d) k = (if k \<in> S then None else od_get d k)"
  using od_get_filter_keys [of "\<lambda>k. k \<notin> S" d k] by simp

lemma od_ok_filter: "od_ok d \<Longrightarrow> od_ok (filter P d)"
  by (simp add: od_ok_def od_keys_def distinct_map_filter)

lemma set_keys_filter_notin: "set (od_keys (filter (\<lambda>p. fst p \<notin> S) d)) = set (od_keys d) - S"
  by (auto simp: od_keys_def)

lemma od_keys_filter_keys: "od_keys (filter (\<lambda>p. P (fst p)) d) = filter P (od_keys d)"
  by (simp add: od_keys_def filter_map comp_def)

section \<open>Sets held as duplicate-free lists\<close>

text \<open>
  The code iterates over Python sets, whose order is unspecified. A set is held as a duplicate-free
  list, one admissible iteration order; theorems speak of \<open>set\<close> of the list only.
\<close>

definition ls_add :: "'a \<Rightarrow> 'a list \<Rightarrow> 'a list" where
  "ls_add x xs = (if x \<in> set xs then xs else xs @ [x])"

definition ls_del :: "'a \<Rightarrow> 'a list \<Rightarrow> 'a list" where
  "ls_del x xs = filter (\<lambda>y. y \<noteq> x) xs"

definition ls_union :: "'a list \<Rightarrow> 'a list \<Rightarrow> 'a list" where
  "ls_union xs ys = fold ls_add ys xs"

definition ls_of :: "'a list \<Rightarrow> 'a list" where
  "ls_of xs = ls_union [] xs"

lemma set_ls_add [simp]: "set (ls_add x xs) = insert x (set xs)"
  by (auto simp: ls_add_def)

lemma distinct_ls_add [simp]: "distinct xs \<Longrightarrow> distinct (ls_add x xs)"
  by (simp add: ls_add_def)

lemma set_ls_del [simp]: "set (ls_del x xs) = set xs - {x}"
  by (auto simp: ls_del_def)

lemma distinct_ls_del [simp]: "distinct xs \<Longrightarrow> distinct (ls_del x xs)"
  by (simp add: ls_del_def)

lemma set_ls_union [simp]: "set (ls_union xs ys) = set xs \<union> set ys"
  by (induction ys arbitrary: xs) (auto simp: ls_union_def)

lemma distinct_ls_union [simp]: "distinct xs \<Longrightarrow> distinct (ls_union xs ys)"
  by (induction ys arbitrary: xs) (auto simp: ls_union_def)

lemma set_ls_of [simp]: "set (ls_of xs) = set xs"
  by (simp add: ls_of_def)

lemma distinct_ls_of [simp]: "distinct (ls_of xs)"
  by (simp add: ls_of_def)

section \<open>The interface of an ordered dictionary\<close>

text \<open>
  The recency lists of the parking components use a dictionary only through these operations.
  The locale states what they rely on; its lemmas are used wherever an operation moves a key.
\<close>

locale ordered_dict =
  fixes get :: "'d \<Rightarrow> 'k \<Rightarrow> 'v option"
    and put :: "'k \<Rightarrow> 'v \<Rightarrow> 'd \<Rightarrow> 'd"
    and del :: "'k \<Rightarrow> 'd \<Rightarrow> 'd"
    and to_end :: "'k \<Rightarrow> 'd \<Rightarrow> 'd res"
    and keys :: "'d \<Rightarrow> 'k list"
    and inv :: "'d \<Rightarrow> bool"
  assumes get_None: "get d k = None \<longleftrightarrow> k \<notin> set (keys d)"
    and keys_distinct: "inv d \<Longrightarrow> distinct (keys d)"
    and get_put: "get (put k v d) k' = (if k' = k then Some v else get d k')"
    and get_del: "get (del k d) k' = (if k' = k then None else get d k')"
    and keys_put: "keys (put k v d) = (if k \<in> set (keys d) then keys d else keys d @ [k])"
    and keys_del: "keys (del k d) = filter (\<lambda>x. x \<noteq> k) (keys d)"
    and get_to_end: "to_end k d = Inr d' \<Longrightarrow> get d' k' = get d k'"
    and keys_to_end: "to_end k d = Inr d' \<Longrightarrow> keys d' = filter (\<lambda>x. x \<noteq> k) (keys d) @ [k]"
    and to_end_ok: "k \<in> set (keys d) \<Longrightarrow> \<exists>d'. to_end k d = Inr d'"
    and inv_put: "inv d \<Longrightarrow> inv (put k v d)"
    and inv_del: "inv d \<Longrightarrow> inv (del k d)"
    and inv_to_end: "inv d \<Longrightarrow> to_end k d = Inr d' \<Longrightarrow> inv d'"
begin

lemma get_key: "get d k = Some v \<Longrightarrow> k \<in> set (keys d)"
  by (metis get_None option.distinct(1))

lemma key_get: "k \<in> set (keys d) \<Longrightarrow> \<exists>v. get d k = Some v"
  by (metis get_None option.exhaust)

lemma set_keys_to_end:
  assumes "to_end k d = Inr d'" and "k \<in> set (keys d)"
  shows "set (keys d') = set (keys d)"
  using assms(2) by (auto simp: keys_to_end [OF assms(1)])

lemma put_fresh_last: "k \<notin> set (keys d) \<Longrightarrow> last (keys (put k v d)) = k"
  by (simp add: keys_put)

lemma to_end_last: "to_end k d = Inr d' \<Longrightarrow> last (keys d') = k"
  by (simp add: keys_to_end)

text \<open>Touching a key keeps the relative order of all the others.\<close>

lemma to_end_others:
  "to_end k d = Inr d' \<Longrightarrow> filter (\<lambda>x. x \<noteq> k) (keys d') = filter (\<lambda>x. x \<noteq> k) (keys d)"
  by (simp add: keys_to_end)

end

interpretation od: ordered_dict od_get od_put od_del od_to_end od_keys od_ok
  by unfold_locales
     (simp_all add: od_get_None od_get_put od_get_del od_keys_put od_keys_del
        od_to_end_get od_to_end_keys od_to_end_ex od_ok_put od_ok_del od_to_end_ok,
      simp add: od_ok_def)

end
