(* ===== verification/Kv_Layout.thy ===== *)
theory Kv_Layout
  imports Prelude
begin

text \<open>
  The byte model of a hybrid KV cache (\<open>vllm/flashnext/kvoffload/layout.py\<close>) and the token
  accounting of a second turn (the module functions of \<open>kvoffload/index.py\<close>). Python integers are
  unbounded, so sizes are \<open>int\<close>; a dtype that is not in the table raises \<open>KeyError\<close>.
\<close>

section \<open>Data types and page sizes\<close>

definition DTYPE_BYTES :: "(string, int) odict" where
  "DTYPE_BYTES = [(''float16'', 2), (''bfloat16'', 2), (''float32'', 4), (''int8'', 1), (''uint8'', 1)]"

definition dtype_bytes :: "string \<Rightarrow> int res" where
  "dtype_bytes d = (case od_get DTYPE_BYTES d of None \<Rightarrow> Inl (KeyError d) | Some n \<Rightarrow> Inr n)"

definition cdiv :: "int \<Rightarrow> int \<Rightarrow> int" where
  "cdiv a b = (a + b - 1) div b"

definition gdn_state_bytes ::
    "int \<Rightarrow> int \<Rightarrow> int \<Rightarrow> int \<Rightarrow> int \<Rightarrow> string \<Rightarrow> string \<Rightarrow> int res" where
  "gdn_state_bytes num_k_heads num_v_heads head_k_dim head_v_dim conv_kernel conv_dtype ssm_dtype =
     (let conv_dim = head_k_dim * num_k_heads * 2 + head_v_dim * num_v_heads;
          conv_tokens = (conv_kernel - 1) * conv_dim
      in bindR (dtype_bytes conv_dtype) (\<lambda>cb.
         bindR (dtype_bytes ssm_dtype) (\<lambda>sb.
           Inr (conv_tokens * cb + num_v_heads * head_v_dim * head_k_dim * sb))))"

definition attn_bytes_per_token_per_layer :: "int \<Rightarrow> int \<Rightarrow> string \<Rightarrow> int res" where
  "attn_bytes_per_token_per_layer num_kv_heads head_dim kv_dtype =
     bindR (dtype_bytes kv_dtype) (\<lambda>b. Inr (num_kv_heads * head_dim * 2 * b))"

definition scaled_attention_block_size :: "int \<Rightarrow> int \<Rightarrow> int \<Rightarrow> int res" where
  "scaled_attention_block_size mamba_page_bytes attn_bytes kernel_block_alignment =
     (if mamba_page_bytes \<le> 0 \<or> attn_bytes \<le> 0
      then Inl (ValueError ''page sizes must be positive'')
      else if kernel_block_alignment \<le> 0 then Inl (ValueError ''alignment must be positive'')
      else let stride = kernel_block_alignment * attn_bytes
           in Inr (kernel_block_alignment * cdiv mamba_page_bytes stride))"

definition checkpoint_boundary :: "int \<Rightarrow> int \<Rightarrow> bool \<Rightarrow> int res" where
  "checkpoint_boundary num_tokens block_size drop_eagle =
     (if num_tokens < 0 \<or> block_size \<le> 0
      then Inl (ValueError ''num_tokens and block_size must be non-negative / positive'')
      else if drop_eagle
      then Inr (max ((num_tokens div block_size) * block_size - block_size) 0)
      else Inr (max (((num_tokens - 1) div block_size) * block_size) 0))"

section \<open>The Ornith text tower\<close>

record ornith_layout =
  ol_full_attention_layers :: int
  ol_linear_attention_layers :: int
  ol_num_kv_heads :: int
  ol_head_dim :: int
  ol_kv_dtype :: string
  ol_num_k_heads :: int
  ol_num_v_heads :: int
  ol_head_k_dim :: int
  ol_head_v_dim :: int
  ol_conv_kernel :: int
  ol_conv_dtype :: string
  ol_ssm_dtype :: string
  ol_kernel_block_alignment :: int

definition ornith_default :: ornith_layout where
  "ornith_default = \<lparr>
     ol_full_attention_layers = 10, ol_linear_attention_layers = 30, ol_num_kv_heads = 2,
     ol_head_dim = 256, ol_kv_dtype = ''float16'', ol_num_k_heads = 16, ol_num_v_heads = 32,
     ol_head_k_dim = 128, ol_head_v_dim = 128, ol_conv_kernel = 4, ol_conv_dtype = ''float16'',
     ol_ssm_dtype = ''float32'', ol_kernel_block_alignment = 64\<rparr>"

definition ol_attn_bytes_per_token_per_layer :: "ornith_layout \<Rightarrow> int res" where
  "ol_attn_bytes_per_token_per_layer L =
     attn_bytes_per_token_per_layer (ol_num_kv_heads L) (ol_head_dim L) (ol_kv_dtype L)"

definition ol_attn_bytes_per_token :: "ornith_layout \<Rightarrow> int res" where
  "ol_attn_bytes_per_token L =
     bindR (ol_attn_bytes_per_token_per_layer L) (\<lambda>b. Inr (ol_full_attention_layers L * b))"

definition ol_conv_dim :: "ornith_layout \<Rightarrow> int" where
  "ol_conv_dim L = ol_head_k_dim L * ol_num_k_heads L * 2 + ol_head_v_dim L * ol_num_v_heads L"

definition ol_gdn_state_bytes_per_layer :: "ornith_layout \<Rightarrow> int res" where
  "ol_gdn_state_bytes_per_layer L =
     gdn_state_bytes (ol_num_k_heads L) (ol_num_v_heads L) (ol_head_k_dim L) (ol_head_v_dim L)
       (ol_conv_kernel L) (ol_conv_dtype L) (ol_ssm_dtype L)"

definition ol_gdn_snapshot_bytes :: "ornith_layout \<Rightarrow> int res" where
  "ol_gdn_snapshot_bytes L =
     bindR (ol_gdn_state_bytes_per_layer L) (\<lambda>b. Inr (ol_linear_attention_layers L * b))"

definition ol_scaled_block_size :: "ornith_layout \<Rightarrow> int res" where
  "ol_scaled_block_size L =
     bindR (ol_gdn_state_bytes_per_layer L) (\<lambda>page.
     bindR (ol_attn_bytes_per_token_per_layer L) (\<lambda>b.
       scaled_attention_block_size page b (ol_kernel_block_alignment L)))"

definition ol_padded_page_bytes :: "ornith_layout \<Rightarrow> int \<Rightarrow> int res" where
  "ol_padded_page_bytes L block_size =
     bindR (ol_attn_bytes_per_token_per_layer L) (\<lambda>b. Inr (block_size * b))"

definition full_attn_bytes :: "ornith_layout \<Rightarrow> int \<Rightarrow> int res" where
  "full_attn_bytes L num_tokens = bindR (ol_attn_bytes_per_token L) (\<lambda>b. Inr (num_tokens * b))"

definition upstream_pool_bytes :: "ornith_layout \<Rightarrow> int \<Rightarrow> int \<Rightarrow> int \<Rightarrow> int res" where
  "upstream_pool_bytes L num_tokens block_size conversations =
     (if conversations < 0 then Inl (ValueError ''conversations must be non-negative'')
      else bindR (checkpoint_boundary num_tokens block_size False) (\<lambda>boundary.
        let blocks = boundary div block_size
        in bindR (full_attn_bytes L boundary) (\<lambda>full.
           bindR (ol_padded_page_bytes L block_size) (\<lambda>page.
             Inr (conversations * (full + blocks * (ol_linear_attention_layers L * page)))))))"

section \<open>The Flash-Next text tower\<close>

definition INT8_SPEC_BYTES_PER_LAYER_TOKEN :: int where
  "INT8_SPEC_BYTES_PER_LAYER_TOKEN = 1040"

definition PLE_STATE_ROWS :: int where "PLE_STATE_ROWS = 9"

definition PLE_STATE_WIDTH :: int where "PLE_STATE_WIDTH = 10240"

record flashnext_layout =
  fl_full_attention_layers :: int
  fl_linear_attention_layers :: int
  fl_num_kv_heads :: int
  fl_head_dim :: int
  fl_kv_dtype :: string
  fl_num_k_heads :: int
  fl_num_v_heads :: int
  fl_head_k_dim :: int
  fl_head_v_dim :: int
  fl_conv_kernel :: int
  fl_conv_dtype :: string
  fl_ssm_dtype :: string
  fl_mtp_layers :: int
  fl_ple_rows :: int
  fl_ple_width :: int
  fl_ple_dtype :: string

definition flashnext_default :: flashnext_layout where
  "flashnext_default = \<lparr>
     fl_full_attention_layers = 12, fl_linear_attention_layers = 36, fl_num_kv_heads = 2,
     fl_head_dim = 256, fl_kv_dtype = ''bfloat16'', fl_num_k_heads = 16, fl_num_v_heads = 48,
     fl_head_k_dim = 128, fl_head_v_dim = 128, fl_conv_kernel = 4, fl_conv_dtype = ''bfloat16'',
     fl_ssm_dtype = ''float32'', fl_mtp_layers = 1, fl_ple_rows = PLE_STATE_ROWS,
     fl_ple_width = PLE_STATE_WIDTH, fl_ple_dtype = ''bfloat16''\<rparr>"

definition fl_attn_bytes_per_token_per_layer :: "flashnext_layout \<Rightarrow> int res" where
  "fl_attn_bytes_per_token_per_layer L =
     attn_bytes_per_token_per_layer (fl_num_kv_heads L) (fl_head_dim L) (fl_kv_dtype L)"

definition fl_attn_bytes_per_token :: "flashnext_layout \<Rightarrow> int res" where
  "fl_attn_bytes_per_token L =
     bindR (fl_attn_bytes_per_token_per_layer L) (\<lambda>b. Inr (fl_full_attention_layers L * b))"

definition fl_mtp_bytes_per_token :: "flashnext_layout \<Rightarrow> int res" where
  "fl_mtp_bytes_per_token L =
     bindR (fl_attn_bytes_per_token_per_layer L) (\<lambda>b. Inr (fl_mtp_layers L * b))"

definition fl_gdn_state_bytes_per_layer :: "flashnext_layout \<Rightarrow> int res" where
  "fl_gdn_state_bytes_per_layer L =
     gdn_state_bytes (fl_num_k_heads L) (fl_num_v_heads L) (fl_head_k_dim L) (fl_head_v_dim L)
       (fl_conv_kernel L) (fl_conv_dtype L) (fl_ssm_dtype L)"

definition fl_gdn_snapshot_bytes :: "flashnext_layout \<Rightarrow> int res" where
  "fl_gdn_snapshot_bytes L =
     bindR (fl_gdn_state_bytes_per_layer L) (\<lambda>b. Inr (fl_linear_attention_layers L * b))"

definition fl_ple_state_bytes :: "flashnext_layout \<Rightarrow> int res" where
  "fl_ple_state_bytes L =
     bindR (dtype_bytes (fl_ple_dtype L)) (\<lambda>b. Inr (fl_ple_rows L * fl_ple_width L * b))"

definition fl_conversation_bytes :: "flashnext_layout \<Rightarrow> int \<Rightarrow> int res" where
  "fl_conversation_bytes L num_tokens =
     (if num_tokens < 0 then Inl (ValueError ''num_tokens must be non-negative'')
      else bindR (fl_attn_bytes_per_token L) (\<lambda>a.
           bindR (fl_mtp_bytes_per_token L) (\<lambda>m.
           bindR (fl_gdn_snapshot_bytes L) (\<lambda>g.
           bindR (fl_ple_state_bytes L) (\<lambda>p.
             Inr (num_tokens * (a + m) + g + p))))))"

definition fl_int8_conversation_bytes :: "flashnext_layout \<Rightarrow> int \<Rightarrow> int res" where
  "fl_int8_conversation_bytes L num_tokens =
     (if num_tokens < 0 then Inl (ValueError ''num_tokens must be non-negative'')
      else let per_token = (fl_full_attention_layers L + fl_mtp_layers L)
                             * INT8_SPEC_BYTES_PER_LAYER_TOKEN
           in bindR (fl_gdn_snapshot_bytes L) (\<lambda>g.
              bindR (fl_ple_state_bytes L) (\<lambda>p. Inr (num_tokens * per_token + g + p))))"

definition fl_parked_with_one_checkpoint_each ::
    "flashnext_layout \<Rightarrow> int \<Rightarrow> int \<Rightarrow> bool \<Rightarrow> int res" where
  "fl_parked_with_one_checkpoint_each L conversations num_tokens int8 =
     (if conversations < 0 then Inl (ValueError ''conversations must be non-negative'')
      else bindR (if int8 then fl_int8_conversation_bytes L num_tokens
                  else fl_conversation_bytes L num_tokens) (\<lambda>one.
           bindR (fl_gdn_snapshot_bytes L) (\<lambda>g. Inr (conversations * (one + g)))))"

section \<open>Host reserve and turn accounting\<close>

definition HOST_RESERVE_BYTES :: int where
  "HOST_RESERVE_BYTES = 5 * 2 ^ 29"

definition host_has_reserve :: "int \<Rightarrow> int \<Rightarrow> bool res" where
  "host_has_reserve mem_available reserve =
     (if mem_available < 0 \<or> reserve < 0
      then Inl (ValueError ''memory counts must be non-negative'')
      else Inr (mem_available \<ge> reserve))"

definition replay_tokens :: "int \<Rightarrow> int \<Rightarrow> int res" where
  "replay_tokens prev_total cache_n =
     (if prev_total < 0 \<or> cache_n < 0 then Inl (ValueError ''token counts must be non-negative'')
      else Inr (max 0 (prev_total - 1 - cache_n)))"

record turn2 =
  t2_end :: int
  t2_prompt :: int
  t2_host :: int
  t2_computed :: int
  t2_replay :: int
  t2_u2 :: int

definition turn2_accounting :: "int \<Rightarrow> int \<Rightarrow> int \<Rightarrow> turn2 res" where
  "turn2_accounting p1 r1 u2 =
     (if min (min p1 r1) u2 < 0 then Inl (ValueError ''token counts must be non-negative'')
      else if r1 < 1 then Inl (ValueError ''a reply has at least one sampled token'')
      else let e = p1 + r1 - 1; prompt = p1 + r1 + u2
           in bindR (replay_tokens (p1 + r1) e) (\<lambda>rp.
              Inr \<lparr>t2_end = e, t2_prompt = prompt, t2_host = e, t2_computed = prompt - e,
                    t2_replay = rp, t2_u2 = u2\<rparr>))"

section \<open>Facts about the sizes\<close>

lemma dtype_bytes_pos: "dtype_bytes d = Inr n \<Longrightarrow> 0 < n"
  by (auto simp: dtype_bytes_def DTYPE_BYTES_def od_get_def split: if_splits option.splits)

text \<open>\<open>cdiv a b\<close> is the least number of steps of size \<open>b\<close> that reach \<open>a\<close>.\<close>

lemma cdiv_le_iff: "0 < b \<Longrightarrow> cdiv a b \<le> k \<longleftrightarrow> a \<le> k * (b::int)"
proof -
  assume b: "0 < b"
  have "cdiv a b \<le> k \<longleftrightarrow> a + b - 1 < (k + 1) * b"
    unfolding cdiv_def using int_div_less_iff [OF b, of "a + b - 1" "k + 1"] by linarith
  then show ?thesis by (simp add: distrib_right) linarith
qed

lemma cdiv_covers: "0 < b \<Longrightarrow> a \<le> cdiv a b * (b::int)"
  using cdiv_le_iff [of b a "cdiv a b"] by simp

lemma cdiv_pos: "0 < b \<Longrightarrow> 0 < a \<Longrightarrow> 0 < cdiv a (b::int)"
  using cdiv_le_iff [of b a 0] by (simp add: not_le [symmetric])

lemma scaled_block_Inr:
  "scaled_attention_block_size page b al = Inr B \<longleftrightarrow>
     0 < page \<and> 0 < b \<and> 0 < al \<and> B = al * cdiv page (al * b)"
  by (auto simp: scaled_attention_block_size_def Let_def)

lemma scaled_block_covers:
  assumes "scaled_attention_block_size page b al = Inr B"
  shows "page \<le> B * b" and "al dvd B" and "0 < B"
proof -
  from assms have pos: "0 < page" "0 < b" "0 < al" and B: "B = al * cdiv page (al * b)"
    by (simp_all add: scaled_block_Inr)
  from pos have st: "0 < al * b" by simp
  show "page \<le> B * b" using cdiv_covers [OF st, of page] by (simp add: B ac_simps)
  show "al dvd B" by (simp add: B)
  show "0 < B" using cdiv_pos [OF st pos(1)] pos(3) by (simp add: B)
qed

lemma scaled_block_least:
  assumes "scaled_attention_block_size page b al = Inr B" and "al dvd C" and "page \<le> C * b"
  shows "B \<le> C"
proof -
  from assms(1) have pos: "0 < page" "0 < b" "0 < al" and B: "B = al * cdiv page (al * b)"
    by (simp_all add: scaled_block_Inr)
  from assms(2) obtain k where C: "C = al * k" by (rule dvdE)
  have "page \<le> k * (al * b)" using assms(3) by (simp add: C ac_simps)
  then have "cdiv page (al * b) \<le> k" using pos by (simp add: cdiv_le_iff)
  with pos show ?thesis by (simp add: B C)
qed

lemma checkpoint_boundary_False:
  "checkpoint_boundary n b False = Inr c \<longleftrightarrow> 0 \<le> n \<and> 0 < b \<and> c = max ((n - 1) div b * b) 0"
  by (auto simp: checkpoint_boundary_def)

lemma checkpoint_boundary_multiple:
  "checkpoint_boundary n b e = Inr c \<Longrightarrow> b dvd c \<and> 0 \<le> c"
  by (auto simp: checkpoint_boundary_def max_def split: if_splits)

lemma checkpoint_boundary_below:
  assumes "checkpoint_boundary n b False = Inr c" and "0 < n"
  shows "c < n"
proof -
  from assms(1) have b: "0 < b" and c: "c = max ((n - 1) div b * b) 0"
    by (simp_all add: checkpoint_boundary_False)
  have "(n - 1) div b * b \<le> n - 1" using b by (rule int_div_mult_le)
  with c assms(2) show ?thesis by linarith
qed

lemma checkpoint_boundary_greatest:
  assumes "checkpoint_boundary n b False = Inr c" and "b dvd m" and "m < n"
  shows "m \<le> c"
proof -
  from assms(1) have b: "0 < b" and c: "c = max ((n - 1) div b * b) 0"
    by (simp_all add: checkpoint_boundary_False)
  from assms(2) obtain k where m: "m = b * k" by (rule dvdE)
  from assms(3) have "k * b \<le> n - 1" by (simp add: m ac_simps)
  then have "k \<le> (n - 1) div b" using b by (simp add: le_int_div_iff)
  then have "m \<le> (n - 1) div b * b" using b by (simp add: m mult.commute)
  with c show ?thesis by linarith
qed

lemma pool_covers_snapshots:
  assumes B: "ol_scaled_block_size L = Inr B" and g: "ol_gdn_snapshot_bytes L = Inr g"
    and pool: "upstream_pool_bytes L n B c = Inr tot"
    and layers: "0 \<le> ol_linear_attention_layers L" and long: "B < n"
  shows "\<exists>cp kv. checkpoint_boundary n B False = Inr cp \<and> full_attn_bytes L cp = Inr kv
           \<and> c * (kv + g) \<le> tot"
proof -
  obtain page b where page: "ol_gdn_state_bytes_per_layer L = Inr page"
    and b: "ol_attn_bytes_per_token_per_layer L = Inr b"
    and sc: "scaled_attention_block_size page b (ol_kernel_block_alignment L) = Inr B"
    using B by (auto simp: ol_scaled_block_size_def bindR_eq_Inr)
  note cov = scaled_block_covers [OF sc]
  have c0: "0 \<le> c" and cp: "checkpoint_boundary n B False = Inr (max ((n - 1) div B * B) 0)"
    using pool long cov(3) by (auto simp: upstream_pool_bytes_def checkpoint_boundary_def split: if_splits)
  define cp where "cp = max ((n - 1) div B * B) 0"
  have "1 \<le> (n - 1) div B" using long cov(3) by (simp add: le_int_div_iff)
  moreover from this have "0 \<le> (n - 1) div B * B" using cov(3) by simp
  ultimately have blocks: "1 \<le> cp div B" using cov(3) by (simp add: cp_def max_absorb1)
  have g': "g = ol_linear_attention_layers L * page" using g page by (simp add: ol_gdn_snapshot_bytes_def)
  have tot: "tot = c * (cp * (ol_full_attention_layers L * b)
      + cp div B * (ol_linear_attention_layers L * (B * b)))"
    using pool c0 cp b by (auto simp: upstream_pool_bytes_def full_attn_bytes_def
        ol_attn_bytes_per_token_def ol_padded_page_bytes_def Let_def cp_def [symmetric])
  have "g \<le> ol_linear_attention_layers L * (B * b)"
    unfolding g' using cov(1) layers by (simp add: mult_left_mono)
  also have "\<dots> \<le> cp div B * (ol_linear_attention_layers L * (B * b))"
  proof -
    have "0 < page" using sc by (simp add: scaled_block_Inr)
    then have "0 \<le> B * b" using cov(1) by linarith
    then have "0 \<le> ol_linear_attention_layers L * (B * b)" using layers by simp
    with blocks show ?thesis by (simp add: mult_le_cancel_right1)
  qed
  finally have "c * (cp * (ol_full_attention_layers L * b) + g) \<le> tot"
    unfolding tot using c0 by (intro mult_left_mono add_left_mono) auto
  moreover have "full_attn_bytes L cp = Inr (cp * (ol_full_attention_layers L * b))"
    by (simp add: full_attn_bytes_def ol_attn_bytes_per_token_def b)
  ultimately show ?thesis using cp by (auto simp: cp_def)
qed

section \<open>Properties\<close>

text \<open>The attention block chosen for a hybrid cache is a positive multiple of the kernel alignment,
  its attention page covers one recurrent-state page, and no smaller multiple does.\<close>

lemma scaled_block_is_least_cover:
  assumes "scaled_attention_block_size page b al = Inr B"
  shows "0 < B \<and> al dvd B \<and> page \<le> B * b \<and> (\<forall>C. al dvd C \<and> page \<le> C * b \<longrightarrow> B \<le> C)"
  using scaled_block_covers [OF assms] scaled_block_least [OF assms] by blast

text \<open>The Ornith configuration lands at 1088 tokens, as the module's docstring says.\<close>

lemma scaled_block_is_least_cover_witness:
  "scaled_attention_block_size 2146304 2048 64 = Inr 1088
   \<and> ol_scaled_block_size ornith_default = Inr 1088
   \<and> (2146304::int) \<le> 1088 * 2048 \<and> \<not> (\<exists>C. 64 dvd C \<and> (2146304::int) \<le> C * 2048 \<and> C < 1088)"
proof -
  have h: "scaled_attention_block_size 2146304 2048 64 = Inr 1088"
    by (simp add: scaled_attention_block_size_def cdiv_def)
  have "ol_scaled_block_size ornith_default = Inr 1088"
    by (simp add: ol_scaled_block_size_def ol_gdn_state_bytes_per_layer_def gdn_state_bytes_def
        ol_attn_bytes_per_token_per_layer_def attn_bytes_per_token_per_layer_def dtype_bytes_def
        DTYPE_BYTES_def od_get_def ornith_default_def scaled_attention_block_size_def cdiv_def)
  with h scaled_block_is_least_cover [OF h] show ?thesis by (force simp: linorder_not_less)
qed

text \<open>Without EAGLE the reusable checkpoint of a non-empty prompt is the greatest whole number of
  blocks strictly below the prompt length: the last token is always left to compute.\<close>

lemma checkpoint_is_greatest_block_below:
  assumes "checkpoint_boundary n b False = Inr c" and "0 < n"
  shows "0 \<le> c \<and> c < n \<and> b dvd c \<and> (\<forall>m. b dvd m \<and> m < n \<longrightarrow> m \<le> c)"
  using checkpoint_boundary_multiple [OF assms(1)] checkpoint_boundary_below [OF assms]
    checkpoint_boundary_greatest [OF assms(1)] by blast

lemma checkpoint_is_greatest_block_below_example:
  "checkpoint_boundary 2176 1088 False = Inr 1088
   \<and> (0::int) \<le> 1088 \<and> \<not> (\<exists>m. 1088 dvd m \<and> m < (2176::int) \<and> 1088 < m)"
proof -
  have h: "checkpoint_boundary 2176 1088 False = Inr 1088" "(0::int) < 2176"
    by (simp_all add: checkpoint_boundary_def)
  show ?thesis using h(1) checkpoint_is_greatest_block_below [OF h] by (force simp: linorder_not_less)
qed

text \<open>With the scaled block size, the pool sized for the upstream connector covers, for every
  parked conversation longer than a block, its attention KV up to the checkpoint and one full
  recurrent-state snapshot, which is the minimum a resume needs.\<close>

lemma pool_covers_kv_and_snapshot:
  assumes "ol_scaled_block_size L = Inr B" and "ol_gdn_snapshot_bytes L = Inr g"
    and "upstream_pool_bytes L n B c = Inr tot"
    and "0 \<le> ol_linear_attention_layers L" and "B < n"
  shows "\<exists>cp kv. checkpoint_boundary n B False = Inr cp \<and> full_attn_bytes L cp = Inr kv
           \<and> c * (kv + g) \<le> tot"
  using assms by (rule pool_covers_snapshots)

lemma pool_covers_kv_and_snapshot_example:
  "\<exists>tot cp kv. upstream_pool_bytes ornith_default 2000 1088 4 = Inr tot
     \<and> checkpoint_boundary 2000 1088 False = Inr cp
     \<and> full_attn_bytes ornith_default cp = Inr kv \<and> 4 * (kv + 64389120) \<le> tot"
proof -
  have h: "ol_scaled_block_size ornith_default = Inr 1088"
    "ol_gdn_snapshot_bytes ornith_default = Inr 64389120"
    "\<exists>tot. upstream_pool_bytes ornith_default 2000 1088 4 = Inr tot"
    "0 \<le> ol_linear_attention_layers ornith_default"
    by (simp_all add: ol_scaled_block_size_def ol_gdn_state_bytes_per_layer_def gdn_state_bytes_def
        ol_attn_bytes_per_token_per_layer_def attn_bytes_per_token_per_layer_def dtype_bytes_def
        DTYPE_BYTES_def od_get_def ornith_default_def scaled_attention_block_size_def cdiv_def
        ol_gdn_snapshot_bytes_def upstream_pool_bytes_def checkpoint_boundary_def full_attn_bytes_def
        ol_attn_bytes_per_token_def ol_padded_page_bytes_def)
  from h(3) obtain tot where t: "upstream_pool_bytes ornith_default 2000 1088 4 = Inr tot" by blast
  show ?thesis using t pool_covers_kv_and_snapshot [OF h(1,2) t h(4)] by fastforce
qed

text \<open>A second turn of a conversation resumes at the end of the fed tokens: the parked end is a
  strict prefix of the new prompt, nothing is replayed, and the engine computes the new user tokens
  plus the one sampled token that was never fed.\<close>

lemma turn2_replays_nothing:
  assumes "turn2_accounting p1 r1 u2 = Inr t"
  shows "t2_replay t = 0 \<and> t2_computed t = u2 + 1 \<and> 0 \<le> t2_end t \<and> t2_end t < t2_prompt t
       \<and> t2_host t + t2_computed t = t2_prompt t"
  using assms by (auto simp: turn2_accounting_def replay_tokens_def Let_def split: if_splits)

lemma turn2_replays_nothing_example:
  "\<exists>t. turn2_accounting 1000 64 20 = Inr t \<and> t2_replay t = 0 \<and> t2_computed t = 21"
proof -
  obtain t where h: "turn2_accounting 1000 64 20 = Inr t"
    by (simp add: turn2_accounting_def replay_tokens_def)
  show ?thesis using h turn2_replays_nothing [OF h] by auto
qed

end
