(* ===== verification/Kv_Park.thy ===== *)
theory Kv_Park
  imports Prelude
begin

text \<open>
  The slot park of \<open>vllm/flashnext/kvoffload/park.py\<close>: complete snapshots (full-attention KV and the
  recurrent state) under a slot count and a byte budget, oldest evicted first. A slot's key is a
  Python string, modelled as \<open>string\<close>.
\<close>

section \<open>Pieces of a snapshot\<close>

definition REQUIRED_KINDS :: "string list" where
  "REQUIRED_KINDS = [''full_attention'', ''gdn'']"

definition missing_kinds :: "string set \<Rightarrow> string list" where
  "missing_kinds present = filter (\<lambda>k. k \<notin> present) REQUIRED_KINDS"

definition resume_tokens :: "bool \<Rightarrow> bool \<Rightarrow> int \<Rightarrow> int \<Rightarrow> int res" where
  "resume_tokens has_full_attn has_gdn boundary num_tokens =
     (if num_tokens < 0 \<or> boundary < 0 then Inl (ValueError ''token counts must be non-negative'')
      else if boundary > num_tokens then Inl (ValueError ''boundary cannot pass the prompt'')
      else if boundary = 0 \<or> \<not> has_full_attn \<or> \<not> has_gdn then Inr 0
      else Inr boundary)"

definition prefill_tokens :: "bool \<Rightarrow> bool \<Rightarrow> int \<Rightarrow> int \<Rightarrow> int res" where
  "prefill_tokens has_full_attn has_gdn boundary num_tokens =
     bindR (resume_tokens has_full_attn has_gdn boundary num_tokens) (\<lambda>r. Inr (num_tokens - r))"

record slot =
  sl_key :: string
  sl_boundary :: int
  sl_kv_bytes :: int
  sl_gdn_bytes :: int

definition slot_nbytes :: "slot \<Rightarrow> int" where
  "slot_nbytes s = sl_kv_bytes s + sl_gdn_bytes s"

definition slot_complete :: "slot \<Rightarrow> bool" where
  "slot_complete s = (sl_kv_bytes s > 0 \<and> sl_gdn_bytes s > 0)"

record hit =
  ht_key :: string
  ht_boundary :: int
  ht_resume :: int
  ht_prefill :: int
  ht_nbytes :: int

section \<open>The park and its operations\<close>

record park =
  pk_slots :: int
  pk_budget :: int
  pk_order :: "string list"
  pk_entries :: "(string, slot) odict"

definition park_init :: "int \<Rightarrow> int \<Rightarrow> park res" where
  "park_init slots budget_bytes =
     (if slots \<le> 0 then Inl (ValueError ''slots must be positive'')
      else if budget_bytes \<le> 0 then Inl (ValueError ''budget_bytes must be positive'')
      else Inr \<lparr>pk_slots = slots, pk_budget = budget_bytes, pk_order = [], pk_entries = []\<rparr>)"

definition park_len :: "park \<Rightarrow> int" where
  "park_len p = int (length (pk_order p))"

definition park_used_bytes :: "park \<Rightarrow> int" where
  "park_used_bytes p = od_sum slot_nbytes (pk_entries p)"

definition evict_oldest :: "(park, unit) act" where
  "evict_oldest =
     bindA (liftA (\<lambda>p. py_pop0 (pk_order p))) (\<lambda>(oldest, rest).
     bindA (modA (\<lambda>p. p\<lparr>pk_order := rest\<rparr>)) (\<lambda>_.
     bindA (liftA (\<lambda>p. od_delR oldest (pk_entries p))) (\<lambda>es.
       modA (\<lambda>p. p\<lparr>pk_entries := es\<rparr>))))"

text \<open>The guard of the eviction loop of \<open>store\<close>, for a slot of \<open>n\<close> bytes.\<close>

definition must_evict :: "int \<Rightarrow> park \<Rightarrow> bool" where
  "must_evict n p =
     (pk_order p \<noteq> [] \<and> (park_len p \<ge> pk_slots p \<or> park_used_bytes p + n > pk_budget p))"

lemma evict_oldest_order:
  "evict_oldest p = (Inr (), q) \<Longrightarrow> length (pk_order q) < length (pk_order p)"
  by (auto simp: evict_oldest_def act_simps py_pop0_def od_delR_def
      split: list.splits option.splits sum.splits prod.splits)

function evict_loop :: "int \<Rightarrow> (park, unit) act" where
  "evict_loop n p =
     (if must_evict n p
      then (case evict_oldest p of (Inl e, q) \<Rightarrow> (Inl e, q) | (Inr _, q) \<Rightarrow> evict_loop n q)
      else (Inr (), p))"
  by pat_completeness auto
termination
  by (relation "measure (\<lambda>(n, p). length (pk_order p))") (auto dest!: evict_oldest_order [OF sym])

declare evict_loop.simps [simp del]

definition park_store :: "string \<Rightarrow> int \<Rightarrow> int \<Rightarrow> int \<Rightarrow> (park, slot) act" where
  "park_store key boundary kv_bytes gdn_bytes =
     bindA (liftA (\<lambda>p.
        bindR (raise_if (key = []) (ValueError ''key must be non-empty'')) (\<lambda>_.
        bindR (raise_if (boundary \<le> 0) (ValueError ''boundary must be positive'')) (\<lambda>_.
        bindR (raise_if (kv_bytes \<le> 0 \<or> gdn_bytes \<le> 0)
                 (ValueError ''a parked conversation needs full-attention KV and GDN state'')) (\<lambda>_.
        let s = \<lparr>sl_key = key, sl_boundary = boundary, sl_kv_bytes = kv_bytes,
                 sl_gdn_bytes = gdn_bytes\<rparr>
        in bindR (raise_if (slot_nbytes s > pk_budget p) (ValueError ''snapshot exceeds park budget''))
             (\<lambda>_. Inr s)))))) (\<lambda>s.
     bindA (withA (\<lambda>p.
        if key \<in> set (od_keys (pk_entries p))
        then bindA (liftA (\<lambda>p. py_remove key (pk_order p))) (\<lambda>order.
             bindA (modA (\<lambda>p. p\<lparr>pk_order := order\<rparr>)) (\<lambda>_.
               modA (\<lambda>p. p\<lparr>pk_entries := od_del key (pk_entries p)\<rparr>)))
        else retA ())) (\<lambda>_.
     bindA (evict_loop (slot_nbytes s)) (\<lambda>_.
     bindA (modA (\<lambda>p. p\<lparr>pk_entries := od_put key s (pk_entries p)\<rparr>)) (\<lambda>_.
     bindA (modA (\<lambda>p. p\<lparr>pk_order := pk_order p @ [key]\<rparr>)) (\<lambda>_.
       retA s)))))"

definition park_lookup :: "string \<Rightarrow> int \<Rightarrow> (park, hit option) act" where
  "park_lookup key num_tokens =
     withA (\<lambda>p. case od_get (pk_entries p) key of
       None \<Rightarrow> retA None
     | Some s \<Rightarrow>
         if \<not> slot_complete s then retA None
         else bindA (liftA (\<lambda>_. resume_tokens True True (sl_boundary s) num_tokens)) (\<lambda>resume.
              if resume = 0 then retA None
              else bindA (liftA (\<lambda>p. py_remove key (pk_order p))) (\<lambda>order.
                   bindA (modA (\<lambda>p. p\<lparr>pk_order := order @ [key]\<rparr>)) (\<lambda>_.
                     retA (Some \<lparr>ht_key = key, ht_boundary = sl_boundary s, ht_resume = resume,
                                 ht_prefill = num_tokens - resume, ht_nbytes = slot_nbytes s\<rparr>)))))"

section \<open>The invariant\<close>

definition slots_ok :: "park \<Rightarrow> bool" where
  "slots_ok p = (\<forall>k s. od_get (pk_entries p) k = Some s \<longrightarrow>
     sl_key s = k \<and> slot_complete s \<and> 0 < sl_boundary s)"

definition park_wf :: "park \<Rightarrow> bool" where
  "park_wf p = (distinct (pk_order p) \<and> od_ok (pk_entries p)
     \<and> set (pk_order p) = set (od_keys (pk_entries p)) \<and> slots_ok p
     \<and> 0 < pk_slots p \<and> 0 < pk_budget p)"

definition park_ok :: "park \<Rightarrow> bool" where
  "park_ok p = (park_wf p \<and> park_len p \<le> pk_slots p \<and> park_used_bytes p \<le> pk_budget p)"

lemma evict_oldest_wf:
  assumes wf: "park_wf p" and ne: "pk_order p = k # ks"
  shows "evict_oldest p = (Inr (), p\<lparr>pk_order := ks, pk_entries := od_del k (pk_entries p)\<rparr>)"
    and "park_wf (p\<lparr>pk_order := ks, pk_entries := od_del k (pk_entries p)\<rparr>)"
proof -
  from wf ne have k: "k \<in> set (od_keys (pk_entries p))" and d: "distinct (k # ks)"
    by (auto simp: park_wf_def)
  then obtain s where s: "od_get (pk_entries p) k = Some s" using od.key_get by metis
  show "evict_oldest p = (Inr (), p\<lparr>pk_order := ks, pk_entries := od_del k (pk_entries p)\<rparr>)"
    by (simp add: evict_oldest_def act_simps py_pop0_def od_delR_def ne s)
  show "park_wf (p\<lparr>pk_order := ks, pk_entries := od_del k (pk_entries p)\<rparr>)"
    using wf ne by (auto simp: park_wf_def slots_ok_def od_ok_del od_keys_del od_get_del)
qed

lemma park_len_le_used:
  assumes "park_wf p" shows "0 \<le> park_used_bytes p"
proof -
  have "0 \<le> slot_nbytes (snd x)" if x: "x \<in> set (pk_entries p)" for x
  proof -
    from assms x have "od_get (pk_entries p) (fst x) = Some (snd x)"
      by (simp add: park_wf_def od_ok_get_iff)
    then have "slot_complete (snd x)" using assms by (auto simp: park_wf_def slots_ok_def)
    then show ?thesis by (simp add: slot_complete_def slot_nbytes_def)
  qed
  then show ?thesis by (auto simp: park_used_bytes_def od_sum_def intro!: sum_list_nonneg)
qed

lemma empty_order_unused: "park_wf p \<Longrightarrow> pk_order p = [] \<Longrightarrow> park_used_bytes p = 0"
  by (simp add: park_wf_def park_used_bytes_def od_keys_def od_sum_def)

text \<open>
  What the loop computes: the park without its \<open>i\<close> oldest slots, for the least \<open>i\<close> that leaves room.
\<close>

definition drop_oldest :: "nat \<Rightarrow> park \<Rightarrow> park" where
  "drop_oldest i p = p\<lparr>pk_order := drop i (pk_order p),
     pk_entries := filter (\<lambda>e. fst e \<notin> set (take i (pk_order p))) (pk_entries p)\<rparr>"

lemma drop_oldest_0 [simp]: "drop_oldest 0 p = p"
  by (simp add: drop_oldest_def)

lemma drop_oldest_fields [simp]:
  "pk_slots (drop_oldest i p) = pk_slots p" "pk_budget (drop_oldest i p) = pk_budget p"
  "pk_order (drop_oldest i p) = drop i (pk_order p)"
  by (simp_all add: drop_oldest_def)

lemma drop_oldest_Suc:
  "pk_order p = k # ks \<Longrightarrow>
     drop_oldest i (p\<lparr>pk_order := ks, pk_entries := od_del k (pk_entries p)\<rparr>) = drop_oldest (Suc i) p"
  by (simp add: drop_oldest_def od_del_def conj_commute)

lemma drop_oldest_get:
  "od_get (pk_entries (drop_oldest i p)) k =
     (if k \<in> set (take i (pk_order p)) then None else od_get (pk_entries p) k)"
  by (simp add: drop_oldest_def od_get_filter_notin)

lemma drop_oldest_wf: "park_wf p \<Longrightarrow> park_wf (drop_oldest i p)"
proof -
  assume wf: "park_wf p"
  have "set (drop i (pk_order p)) = set (pk_order p) - set (take i (pk_order p))"
    using wf by (intro set_drop_distinct) (simp add: park_wf_def)
  then show ?thesis
    using wf by (auto simp: park_wf_def slots_ok_def drop_oldest_get od_ok_def drop_oldest_def
        set_keys_filter_notin od_get_filter_notin od_ok_filter [unfolded od_ok_def])
qed

text \<open>
  The eviction loop never raises on a well-formed park; it evicts the oldest slots, and no more of
  them than its guard asks for.
\<close>

lemma evict_loop_spec:
  assumes "park_wf p"
  shows "\<exists>m. evict_loop n p = (Inr (), drop_oldest m p) \<and> \<not> must_evict n (drop_oldest m p)
           \<and> (\<forall>i < m. must_evict n (drop_oldest i p))"
  using assms
proof (induction n p rule: evict_loop.induct)
  case (1 n p)
  show ?case
  proof (cases "must_evict n p")
    case False
    then show ?thesis by (intro exI [of _ 0]) (simp add: evict_loop.simps [of n p])
  next
    case True
    then obtain k ks where ne: "pk_order p = k # ks" by (auto simp: must_evict_def neq_Nil_conv)
    define q where "q = p\<lparr>pk_order := ks, pk_entries := od_del k (pk_entries p)\<rparr>"
    have step: "evict_oldest p = (Inr (), q)" and wf: "park_wf q"
      using evict_oldest_wf [OF "1.prems" ne] by (simp_all add: q_def)
    from "1.IH" [OF True step [symmetric] refl wf] obtain m where
      m: "evict_loop n q = (Inr (), drop_oldest m q)" "\<not> must_evict n (drop_oldest m q)"
         "\<forall>i < m. must_evict n (drop_oldest i q)" by blast
    have drop: "drop_oldest i q = drop_oldest (Suc i) p" for i
      unfolding q_def by (rule drop_oldest_Suc [OF ne])
    have "\<forall>i < Suc m. must_evict n (drop_oldest i p)"
      using m(3) True by (auto simp: drop less_Suc_eq_0_disj)
    with m(1,2) True step show ?thesis
      by (intro exI [of _ "Suc m"]) (simp add: evict_loop.simps [of n p] drop)
  qed
qed

lemma not_must_evict_room:
  assumes "park_wf p" and "n \<le> pk_budget p" and "\<not> must_evict n p"
  shows "park_len p < pk_slots p" and "park_used_bytes p + n \<le> pk_budget p"
  using assms empty_order_unused [of p]
  by (cases "pk_order p = []"; auto simp: must_evict_def park_len_def park_wf_def)+

section \<open>Storing and looking up\<close>

definition store_args_ok :: "park \<Rightarrow> string \<Rightarrow> int \<Rightarrow> int \<Rightarrow> int \<Rightarrow> bool" where
  "store_args_ok p key boundary kv gdn =
     (key \<noteq> [] \<and> 0 < boundary \<and> 0 < kv \<and> 0 < gdn \<and> kv + gdn \<le> pk_budget p)"

text \<open>The park after forgetting an older slot of the same key.\<close>

definition forget :: "string \<Rightarrow> park \<Rightarrow> park" where
  "forget key p = p\<lparr>pk_order := remove1 key (pk_order p), pk_entries := od_del key (pk_entries p)\<rparr>"

lemma forget_wf: "park_wf p \<Longrightarrow> park_wf (forget key p)"
  by (auto simp: park_wf_def forget_def slots_ok_def od_ok_del od_keys_del od_get_del)

lemma forget_absent: "park_wf p \<Longrightarrow> key \<notin> set (od_keys (pk_entries p)) \<Longrightarrow> forget key p = p"
  by (simp add: forget_def park_wf_def od_del_absent remove1_idem)

lemma park_store_refused:
  "\<not> store_args_ok p key boundary kv gdn \<Longrightarrow>
     \<exists>msg. park_store key boundary kv gdn p = (Inl (ValueError msg), p)"
  by (auto simp: park_store_def act_simps bindR_raise_if store_args_ok_def Let_def slot_nbytes_def)

lemma park_store_run:
  assumes wf: "park_wf p" and ok: "store_args_ok p key boundary kv gdn"
  defines "s \<equiv> \<lparr>sl_key = key, sl_boundary = boundary, sl_kv_bytes = kv, sl_gdn_bytes = gdn\<rparr>"
  shows "\<exists>m q. q = drop_oldest m (forget key p)
      \<and> park_store key boundary kv gdn p =
          (Inr s, q\<lparr>pk_order := pk_order q @ [key], pk_entries := od_put key s (pk_entries q)\<rparr>)
      \<and> \<not> must_evict (kv + gdn) q
      \<and> (\<forall>i < m. must_evict (kv + gdn) (drop_oldest i (forget key p)))"
proof -
  have n: "slot_nbytes s = kv + gdn" by (simp add: s_def slot_nbytes_def)
  obtain m where m: "evict_loop (kv + gdn) (forget key p) = (Inr (), drop_oldest m (forget key p))"
      "\<not> must_evict (kv + gdn) (drop_oldest m (forget key p))"
      "\<forall>i < m. must_evict (kv + gdn) (drop_oldest i (forget key p))"
    using evict_loop_spec [OF forget_wf [OF wf]] by blast
  have mem: "key \<in> set (od_keys (pk_entries p)) \<longleftrightarrow> key \<in> set (pk_order p)"
    using wf by (simp add: park_wf_def)
  have "park_store key boundary kv gdn p =
      (Inr s, (drop_oldest m (forget key p))
         \<lparr>pk_order := pk_order (drop_oldest m (forget key p)) @ [key],
          pk_entries := od_put key s (pk_entries (drop_oldest m (forget key p)))\<rparr>)"
  proof (cases "key \<in> set (od_keys (pk_entries p))")
    case True
    then show ?thesis
      using ok m(1) by (simp add: park_store_def act_simps bindR_raise_if store_args_ok_def Let_def
          n [unfolded s_def] s_def py_remove_def mem [THEN iffD1] forget_def)
  next
    case False
    then show ?thesis
      using ok m(1) forget_absent [OF wf False]
      by (simp add: park_store_def act_simps bindR_raise_if store_args_ok_def Let_def
          n [unfolded s_def] s_def)
  qed
  with m(2,3) show ?thesis by blast
qed

lemma forgotten_absent:
  "park_wf p \<Longrightarrow> key \<notin> set (pk_order (drop_oldest m (forget key p)))
     \<and> key \<notin> set (od_keys (pk_entries (drop_oldest m (forget key p))))"
proof -
  assume wf: "park_wf p"
  have "key \<notin> set (pk_order (forget key p))" using wf by (simp add: park_wf_def forget_def)
  then have "key \<notin> set (pk_order (drop_oldest m (forget key p)))" by (auto dest: in_set_dropD)
  moreover have "park_wf (drop_oldest m (forget key p))" by (intro drop_oldest_wf forget_wf wf)
  ultimately show ?thesis by (simp add: park_wf_def)
qed

lemma park_store_ok:
  assumes "park_wf p" and "store_args_ok p key boundary kv gdn"
  shows "park_ok (snd (park_store key boundary kv gdn p))"
proof -
  let ?s = "\<lparr>sl_key = key, sl_boundary = boundary, sl_kv_bytes = kv, sl_gdn_bytes = gdn\<rparr>"
  obtain m q where q: "q = drop_oldest m (forget key p)" and
    run: "park_store key boundary kv gdn p =
          (Inr ?s, q\<lparr>pk_order := pk_order q @ [key], pk_entries := od_put key ?s (pk_entries q)\<rparr>)" and
    stop: "\<not> must_evict (kv + gdn) q"
    using park_store_run [OF assms] by blast
  have wf: "park_wf q" unfolding q by (intro drop_oldest_wf forget_wf assms(1))
  have budget: "pk_budget q = pk_budget p" "pk_slots q = pk_slots p" by (simp_all add: q forget_def)
  have fresh: "key \<notin> set (pk_order q)" "key \<notin> set (od_keys (pk_entries q))"
    using forgotten_absent [OF assms(1)] by (simp_all add: q)
  then have none: "od_get (pk_entries q) key = None" by (simp add: od_get_None)
  from assms(2) have fits: "kv + gdn \<le> pk_budget q" by (simp add: store_args_ok_def budget)
  note room = not_must_evict_room [OF wf fits stop]
  have "od_ok (pk_entries q)" using wf by (simp add: park_wf_def)
  then show ?thesis
    using wf fresh room assms(2) none
    by (auto simp: run park_ok_def park_wf_def slots_ok_def od_ok_put od_keys_put od_get_put
        park_len_def park_used_bytes_def od_sum_put slot_nbytes_def slot_complete_def store_args_ok_def)
qed

lemma park_lookup_ok:
  "park_ok p \<Longrightarrow> park_ok (snd (park_lookup key n p))"
  by (auto simp: park_lookup_def act_simps py_remove_def park_ok_def park_wf_def slots_ok_def
      park_len_def park_used_bytes_def length_remove1 od_get_None dest!: od_get_key
      split: option.splits sum.splits)

lemma park_lookup_run:
  assumes wf: "park_wf p" and s: "od_get (pk_entries p) key = Some s"
    and n: "sl_boundary s \<le> n"
  shows "park_lookup key n p =
     (Inr (Some \<lparr>ht_key = key, ht_boundary = sl_boundary s, ht_resume = sl_boundary s,
                 ht_prefill = n - sl_boundary s, ht_nbytes = slot_nbytes s\<rparr>),
      p\<lparr>pk_order := remove1 key (pk_order p) @ [key]\<rparr>)"
proof -
  have c: "slot_complete s" "0 < sl_boundary s" using wf s by (auto simp: park_wf_def slots_ok_def)
  have "key \<in> set (pk_order p)" using wf od_get_key [OF s] by (simp add: park_wf_def)
  then show ?thesis
    using c n s by (simp add: park_lookup_def act_simps resume_tokens_def py_remove_def)
qed

text \<open>The public operations as one step function; the park keeps its bounds under any sequence.\<close>

datatype park_op = PStore string int int int | PLookup string int

datatype park_result = PSlot slot | PHit "hit option"

fun park_step :: "park_op \<Rightarrow> (park, park_result) act" where
  "park_step (PStore key boundary kv gdn) =
     bindA (park_store key boundary kv gdn) (\<lambda>s. retA (PSlot s))"
| "park_step (PLookup key n) = bindA (park_lookup key n) (\<lambda>h. retA (PHit h))"

lemma park_step_ok: "park_ok p \<Longrightarrow> park_ok (snd (park_step x p))"
proof (cases x)
  case (PStore key boundary kv gdn)
  assume ok: "park_ok p"
  show ?thesis
  proof (cases "store_args_ok p key boundary kv gdn")
    case True
    then show ?thesis using ok by (simp add: PStore snd_bindA_retA park_store_ok park_ok_def [of p])
  next
    case False
    from park_store_refused [OF this] obtain msg where
      "park_store key boundary kv gdn p = (Inl (ValueError msg), p)" by blast
    then show ?thesis using ok by (simp add: PStore snd_bindA_retA)
  qed
next
  case (PLookup key n)
  assume "park_ok p"
  then show ?thesis by (simp add: PLookup snd_bindA_retA park_lookup_ok)
qed

lemma evict_oldest_keeps:
  "keepsA pk_slots evict_oldest" "keepsA pk_budget evict_oldest"
  by (simp_all add: evict_oldest_def keeps_intros)

lemma evict_loop_keeps: "keepsA pk_slots (evict_loop n)" "keepsA pk_budget (evict_loop n)"
proof -
  have "pk_slots (snd (evict_loop n p)) = pk_slots p \<and> pk_budget (snd (evict_loop n p)) = pk_budget p" for p
  proof (induction n p rule: evict_loop.induct)
    case (1 n p)
    show ?case
      using "1.IH" evict_oldest_keeps [THEN keepsA_D, of p]
      by (auto simp: evict_loop.simps [of n p] split: prod.splits sum.splits)
  qed
  then show "keepsA pk_slots (evict_loop n)" "keepsA pk_budget (evict_loop n)"
    by (simp_all add: keepsA_def)
qed

lemma park_step_keeps: "keepsA pk_slots (park_step x)" "keepsA pk_budget (park_step x)"
  by (cases x; simp add: park_store_def park_lookup_def evict_loop_keeps keeps_intros)+

lemmas park_step_frame = park_step_keeps [THEN keepsA_D]

interpretation park_cache: bounded_store park_step park_ok park_len pk_slots park_used_bytes pk_budget
  by unfold_locales (simp_all add: park_step_ok park_step_frame, simp_all add: park_ok_def)

lemma park_init_ok: "park_init slots budget = Inr p \<Longrightarrow>
  park_ok p \<and> pk_slots p = slots \<and> pk_budget p = budget"
  by (auto simp: park_init_def park_ok_def park_wf_def slots_ok_def park_len_def park_used_bytes_def
      od_ok_def split: if_splits)

section \<open>Properties\<close>

text \<open>C1. A park never holds more slots than it was created with, nor more bytes than its budget,
  whatever sequence of stores and lookups, refused ones included, runs on it.\<close>

theorem park_stays_bounded:
  assumes "park_init slots budget = Inr p"
  shows "park_len (run_ops park_step ops p) \<le> slots
       \<and> park_used_bytes (run_ops park_step ops p) \<le> budget"
  using park_init_ok [OF assms] park_cache.run_count [of p ops] park_cache.run_used [of p ops] by simp

theorem park_stays_bounded_witness:
  "let p = \<lparr>pk_slots = 1, pk_budget = 10, pk_order = [], pk_entries = []\<rparr>;
       ops = [PStore ''A'' 4 3 2, PStore ''B'' 4 6 3, PLookup ''A'' 9]
   in park_init 1 10 = Inr p \<and> park_len (run_ops park_step ops p) \<le> 1
      \<and> park_used_bytes (run_ops park_step ops p) \<le> 10"
proof -
  have h: "park_init 1 10 = Inr \<lparr>pk_slots = 1, pk_budget = 10, pk_order = [], pk_entries = []\<rparr>"
    by (simp add: park_init_def)
  show ?thesis unfolding Let_def using h park_stays_bounded [OF h] by blast
qed

text \<open>
  Room for one more slot, said without the loop's guard: the slots named by \<open>ks\<close> and one more stay
  within the slot count, and their bytes (looked up one by one) with \<open>n\<close> more within the budget.
\<close>

definition bytes_kept :: "park \<Rightarrow> string list \<Rightarrow> int" where
  "bytes_kept p ks =
     (\<Sum>k\<leftarrow>ks. case od_get (pk_entries p) k of None \<Rightarrow> 0 | Some s \<Rightarrow> sl_kv_bytes s + sl_gdn_bytes s)"

definition room_beside :: "park \<Rightarrow> int \<Rightarrow> string list \<Rightarrow> bool" where
  "room_beside p n ks = (int (length ks) + 1 \<le> pk_slots p \<and> bytes_kept p ks + n \<le> pk_budget p)"

lemma bytes_kept_cong:
  "(\<And>k. k \<in> set ks \<Longrightarrow> od_get (pk_entries p) k = od_get (pk_entries q) k) \<Longrightarrow> bytes_kept p ks = bytes_kept q ks"
  unfolding bytes_kept_def by (intro arg_cong [of _ _ sum_list] map_cong) simp_all

lemma used_is_bytes_kept:
  assumes "park_wf p" shows "park_used_bytes p = bytes_kept p (pk_order p)"
proof -
  from assms have d: "distinct (pk_order p)" and ok: "od_ok (pk_entries p)"
    and keys: "set (pk_order p) = set (od_keys (pk_entries p))" by (simp_all add: park_wf_def)
  have none: "filter (\<lambda>e. fst e \<notin> set (pk_order p)) (pk_entries p) = []"
    by (auto simp: filter_empty_conv keys od_keys_def)
  have eq: "slot_nbytes = (\<lambda>s. sl_kv_bytes s + sl_gdn_bytes s)" by (simp add: fun_eq_iff slot_nbytes_def)
  show ?thesis
    using od_sum_filter [OF ok d, of "\<lambda>s. sl_kv_bytes s + sl_gdn_bytes s"]
    unfolding park_used_bytes_def bytes_kept_def eq by (simp add: none)
qed

lemma dropped_bytes:
  assumes wf: "park_wf p"
  shows "park_used_bytes (drop_oldest i (forget key p)) = bytes_kept p (drop i (remove1 key (pk_order p)))"
proof -
  let ?q = "drop_oldest i (forget key p)"
  have d: "distinct (remove1 key (pk_order p))" and nk: "key \<notin> set (remove1 key (pk_order p))"
    using wf by (simp_all add: park_wf_def)
  have "park_used_bytes ?q = bytes_kept ?q (drop i (remove1 key (pk_order p)))"
    using used_is_bytes_kept [OF drop_oldest_wf [OF forget_wf [OF wf]], of i key] by (simp add: forget_def)
  also have "\<dots> = bytes_kept p (drop i (remove1 key (pk_order p)))"
    using nk set_drop_distinct [OF d, of i]
    by (intro bytes_kept_cong) (auto simp: drop_oldest_get forget_def od_get_del dest: in_set_dropD)
  finally show ?thesis .
qed

text \<open>C2. A store that passes its argument checks evicts exactly the shortest prefix of the recency
  order (without the stored key) after which the new slot fits: with \<open>m\<close> slots evicted the slots kept
  and the new one are within the slot count and their bytes within the budget, with fewer they are
  not. It keeps every other slot as it was, puts the new slot at the recent end, and never raises.\<close>

theorem park_store_evicts_least_recent:
  assumes "park_wf p" and "store_args_ok p key boundary kv gdn"
  shows "\<exists>m q. park_store key boundary kv gdn p =
            (Inr \<lparr>sl_key = key, sl_boundary = boundary, sl_kv_bytes = kv, sl_gdn_bytes = gdn\<rparr>, q)
      \<and> pk_order q = drop m (remove1 key (pk_order p)) @ [key]
      \<and> od_get (pk_entries q) key =
            Some \<lparr>sl_key = key, sl_boundary = boundary, sl_kv_bytes = kv, sl_gdn_bytes = gdn\<rparr>
      \<and> (\<forall>k. k \<noteq> key \<longrightarrow> od_get (pk_entries q) k =
            (if k \<in> set (take m (remove1 key (pk_order p))) then None else od_get (pk_entries p) k))
      \<and> m \<le> length (remove1 key (pk_order p))
      \<and> room_beside p (kv + gdn) (drop m (remove1 key (pk_order p)))
      \<and> (\<forall>i < m. \<not> room_beside p (kv + gdn) (drop i (remove1 key (pk_order p))))"
proof -
  let ?rest = "remove1 key (pk_order p)" and ?s = "\<lparr>sl_key = key, sl_boundary = boundary, sl_kv_bytes = kv, sl_gdn_bytes = gdn\<rparr>"
  have forget: "pk_order (forget key p) = ?rest" "pk_slots (forget key p) = pk_slots p"
    "pk_budget (forget key p) = pk_budget p"
    "\<And>k. od_get (pk_entries (forget key p)) k = (if k = key then None else od_get (pk_entries p) k)"
    by (simp_all add: forget_def od_get_del)
  from park_store_run [OF assms] obtain m where run: "park_store key boundary kv gdn p = (Inr ?s,
        (drop_oldest m (forget key p))\<lparr>pk_order := drop m ?rest @ [key],
           pk_entries := od_put key ?s (pk_entries (drop_oldest m (forget key p)))\<rparr>)"
    and stop: "\<not> must_evict (kv + gdn) (drop_oldest m (forget key p))"
    and more: "\<forall>i < m. must_evict (kv + gdn) (drop_oldest i (forget key p))"
    by (auto simp: forget)
  have wf: "park_wf (drop_oldest m (forget key p))" by (intro drop_oldest_wf forget_wf assms(1))
  have le: "m \<le> length ?rest"
    using more [rule_format, of "m - 1"] by (cases m) (auto simp: must_evict_def forget)
  have "room_beside p (kv + gdn) (drop m ?rest)"
    using not_must_evict_room [OF wf _ stop] assms(2)
    by (simp add: room_beside_def dropped_bytes [OF assms(1)] park_len_def forget store_args_ok_def)
  moreover have "\<not> room_beside p (kv + gdn) (drop i ?rest)" if "i < m" for i
    using more that
    by (auto simp: room_beside_def dropped_bytes [OF assms(1)] must_evict_def park_len_def forget)
  ultimately show ?thesis
    using le run
    by (intro exI [of _ m] exI [of _ "snd (park_store key boundary kv gdn p)"])
       (simp add: drop_oldest_get forget od_get_put)
qed

theorem park_store_evicts_least_recent_witness:
  "let p = snd (park_store ''B'' 4 3 2 (snd (park_store ''A'' 4 3 2
             \<lparr>pk_slots = 2, pk_budget = 10, pk_order = [], pk_entries = []\<rparr>)))
   in park_wf p \<and> store_args_ok p ''C'' 4 1 1
      \<and> (\<exists>m q. park_store ''C'' 4 1 1 p =
            (Inr \<lparr>sl_key = ''C'', sl_boundary = 4, sl_kv_bytes = 1, sl_gdn_bytes = 1\<rparr>, q)
          \<and> pk_order q = drop m (remove1 ''C'' (pk_order p)) @ [''C''])"
proof -
  let ?pa = "\<lparr>pk_slots = 2, pk_budget = 10, pk_order = [], pk_entries = []\<rparr> :: park"
  let ?pb = "snd (park_store ''A'' 4 3 2 ?pa)"
  let ?p = "snd (park_store ''B'' 4 3 2 ?pb)"
  have ok0: "park_ok ?pa" using park_init_ok [of 2 10 ?pa] by (simp add: park_init_def)
  have ok1: "park_ok ?pb" using park_step_ok [OF ok0, of "PStore ''A'' 4 3 2"]
    by (simp add: snd_bindA_retA)
  have ok: "park_ok ?p" using park_step_ok [OF ok1, of "PStore ''B'' 4 3 2"]
    by (simp add: snd_bindA_retA)
  have "pk_budget ?p = 10"
    using park_step_frame(2) [of "PStore ''B'' 4 3 2" ?pb] park_step_frame(2) [of "PStore ''A'' 4 3 2" ?pa]
    by (simp add: snd_bindA_retA)
  then have h: "park_wf ?p" "store_args_ok ?p ''C'' 4 1 1"
    using ok by (simp_all add: store_args_ok_def park_ok_def)
  show ?thesis unfolding Let_def using h park_store_evicts_least_recent [OF h] by blast
qed

text \<open>A stored snapshot is found by the next lookup of its key: for a prompt at least as long as
  the boundary, the hit resumes exactly the boundary and leaves the rest of the prompt to prefill.\<close>

lemma park_store_then_lookup:
  assumes "park_wf p" and "store_args_ok p key boundary kv gdn" and "boundary \<le> n"
  shows "fst (park_lookup key n (snd (park_store key boundary kv gdn p))) =
     Inr (Some \<lparr>ht_key = key, ht_boundary = boundary, ht_resume = boundary,
                ht_prefill = n - boundary, ht_nbytes = kv + gdn\<rparr>)"
proof -
  let ?q = "snd (park_store key boundary kv gdn p)"
  from park_store_run [OF assms(1,2)] obtain m q where "park_store key boundary kv gdn p =
     (Inr \<lparr>sl_key = key, sl_boundary = boundary, sl_kv_bytes = kv, sl_gdn_bytes = gdn\<rparr>, q\<lparr>pk_order := pk_order q @ [key], pk_entries := od_put key
       \<lparr>sl_key = key, sl_boundary = boundary, sl_kv_bytes = kv, sl_gdn_bytes = gdn\<rparr> (pk_entries q)\<rparr>)"
    by blast
  then have "od_get (pk_entries ?q) key =
      Some \<lparr>sl_key = key, sl_boundary = boundary, sl_kv_bytes = kv, sl_gdn_bytes = gdn\<rparr>"
    by (simp add: od_get_put)
  moreover have "park_wf ?q" using park_store_ok [OF assms(1,2)] by (simp add: park_ok_def)
  ultimately show ?thesis using assms(3) by (simp add: park_lookup_run slot_nbytes_def)
qed

lemma park_store_then_lookup_witness:
  "fst (park_lookup ''A'' 1200 (snd (park_store ''A'' 1000 400 50
      \<lparr>pk_slots = 4, pk_budget = 1000, pk_order = [], pk_entries = []\<rparr>))) =
     Inr (Some \<lparr>ht_key = ''A'', ht_boundary = 1000, ht_resume = 1000, ht_prefill = 200, ht_nbytes = 450\<rparr>)"
proof -
  let ?p = "\<lparr>pk_slots = 4, pk_budget = 1000, pk_order = [], pk_entries = []\<rparr> :: park"
  have h: "park_wf ?p" "store_args_ok ?p ''A'' 1000 400 50" "(1000::int) \<le> 1200"
    by (simp_all add: park_wf_def slots_ok_def od_ok_def store_args_ok_def)
  show ?thesis using park_store_then_lookup [OF h] by simp
qed

end
