(* ===== verification/Park_Index.thy ===== *)
theory Park_Index
  imports Prelude
begin

text \<open>
  The exact-tail conversation index, \<open>vllm/flashnext/kvoffload/index.py\<close>. Tail records are mutable
  objects that three structures share, and the code compares them by identity, so the model has an
  object table: a reference is a position in \<open>pi_objs\<close>, allocation appends, \<open>is\<close> is equality of
  references. Every reference in the state is in range (\<open>pi_wf\<close>).
\<close>

section \<open>Records and state\<close>

type_synonym bytes = "8 word list"
type_synonym tail_key = "bytes option \<times> int list"
type_synonym rid = nat

record tail_record =
  tr_key :: tail_key
  tr_conv :: bytes
  tr_end :: int
  tr_full_keys :: "bytes list"
  tr_tail_only :: "bytes list"
  tr_slots :: "(int, int) odict"
  tr_nbytes :: int
  tr_pinned :: int

definition parent_hash :: "tail_record \<Rightarrow> bytes option" where
  "parent_hash r = fst (tr_key r)"

definition tail_ids :: "tail_record \<Rightarrow> int list" where
  "tail_ids r = snd (tr_key r)"

text \<open>\<open>ce_full_keys\<close> is a Python set, held as a duplicate-free list.\<close>

record conv_entry =
  ce_conv :: bytes
  ce_records :: "rid list"
  ce_full_keys :: "bytes list"
  ce_nbytes :: int

record park_index =
  pi_slots :: int
  pi_budget :: int
  pi_block :: int
  pi_by_tail :: "tail_key \<Rightarrow> rid option"
  pi_by_parent :: "bytes option \<Rightarrow> rid list option"
  pi_by_conv :: "(bytes, conv_entry) odict"
  pi_running :: "bytes set"
  pi_objs :: "tail_record list"

record store_result =
  sr_record :: rid
  sr_evicted :: "bytes list"
  sr_released :: "bytes list"

record store_args =
  sa_conv :: bytes
  sa_parent :: "bytes option"
  sa_tail :: "int list"
  sa_end :: int
  sa_full :: "bytes list"
  sa_nbytes :: int
  sa_tail_only :: "bytes list"
  sa_slots :: "(int, int) odict option"

definition index_init :: "int \<Rightarrow> int \<Rightarrow> int \<Rightarrow> park_index res" where
  "index_init slots budget_bytes block_size =
     bindR (raise_if (slots \<le> 0) (ValueError ''slots must be positive'')) (\<lambda>_.
     bindR (raise_if (budget_bytes \<le> 0) (ValueError ''budget_bytes must be positive'')) (\<lambda>_.
     bindR (raise_if (block_size \<le> 0) (ValueError ''block_size must be positive'')) (\<lambda>_.
       Inr \<lparr>pi_slots = slots, pi_budget = budget_bytes, pi_block = block_size,
             pi_by_tail = (\<lambda>_. None), pi_by_parent = (\<lambda>_. None), pi_by_conv = [],
             pi_running = {}, pi_objs = []\<rparr>)))"

definition obj :: "park_index \<Rightarrow> rid \<Rightarrow> tail_record" where
  "obj ix r = pi_objs ix ! r"

definition index_len :: "park_index \<Rightarrow> int" where
  "index_len ix = int (length (pi_by_conv ix))"

definition index_used_bytes :: "park_index \<Rightarrow> int" where
  "index_used_bytes ix = od_sum ce_nbytes (pi_by_conv ix)"

definition entry_pinned :: "park_index \<Rightarrow> conv_entry \<Rightarrow> bool" where
  "entry_pinned ix e = list_ex (\<lambda>r. tr_pinned (obj ix r) > 0) (ce_records e)"

section \<open>Pins, running marks, keys\<close>

definition set_running :: "bytes \<Rightarrow> bool \<Rightarrow> (park_index, unit) act" where
  "set_running c running =
     modA (\<lambda>ix. if running then ix\<lparr>pi_running := insert c (pi_running ix)\<rparr>
                else ix\<lparr>pi_running := pi_running ix - {c}\<rparr>)"

definition add_pin :: "rid \<Rightarrow> int \<Rightarrow> park_index \<Rightarrow> park_index" where
  "add_pin r d ix = ix\<lparr>pi_objs := (pi_objs ix)[r := (obj ix r)\<lparr>tr_pinned := tr_pinned (obj ix r) + d\<rparr>]\<rparr>"

definition pin :: "rid \<Rightarrow> (park_index, unit) act" where
  "pin r = modA (add_pin r 1)"

definition unpin :: "rid \<Rightarrow> (park_index, unit) act" where
  "unpin r = withA (\<lambda>ix.
     if tr_pinned (obj ix r) \<le> 0 then raiseA (ValueError ''tail record is not pinned'')
     else modA (add_pin r (- 1)))"

definition keys_of :: "park_index \<Rightarrow> bytes \<Rightarrow> bytes set" where
  "keys_of ix c = (case od_get (pi_by_conv ix) c of None \<Rightarrow> {} | Some e \<Rightarrow> set (ce_full_keys e))"

section \<open>Unlinking and dropping\<close>

definition unlink_record :: "rid \<Rightarrow> park_index \<Rightarrow> park_index" where
  "unlink_record r ix =
     (let ix1 = ix\<lparr>pi_by_tail := (pi_by_tail ix)(tr_key (obj ix r) := None)\<rparr>;
          p = parent_hash (obj ix r)
      in case pi_by_parent ix1 p of
           None \<Rightarrow> ix1
         | Some bucket \<Rightarrow>
             if bucket = [] then ix1
             else let rest = filter (\<lambda>q. q \<noteq> r) bucket
                  in ix1\<lparr>pi_by_parent := (pi_by_parent ix1)(p := (if rest = [] then None else Some rest))\<rparr>)"

definition unlink_all :: "rid list \<Rightarrow> park_index \<Rightarrow> park_index" where
  "unlink_all rs ix = fold unlink_record rs ix"

definition drop_conv :: "bytes \<Rightarrow> (park_index, bytes list) act" where
  "drop_conv c = withA (\<lambda>ix.
     case od_get (pi_by_conv ix) c of
       None \<Rightarrow> raiseA (KeyError ''by_conv'')
     | Some e \<Rightarrow>
         bindA (modA (\<lambda>ix. ix\<lparr>pi_by_conv := od_del c (pi_by_conv ix)\<rparr>)) (\<lambda>_.
         bindA (modA (unlink_all (ce_records e))) (\<lambda>_.
         bindA (modA (\<lambda>ix. ix\<lparr>pi_running := pi_running ix - {c}\<rparr>)) (\<lambda>_.
           retA (ce_full_keys e)))))"

fun drop_convs :: "bytes list \<Rightarrow> (park_index, bytes list) act" where
  "drop_convs [] = retA []"
| "drop_convs (c # cs) = bindA (drop_conv c) (\<lambda>ks. bindA (drop_convs cs) (\<lambda>rest. retA (ks @ rest)))"

section \<open>Planning an eviction\<close>

definition eligible :: "park_index \<Rightarrow> bytes \<Rightarrow> bytes set \<Rightarrow> bytes \<times> conv_entry \<Rightarrow> bool" where
  "eligible ix incoming chosen_ids = (\<lambda>(c, e).
     \<not> (c = incoming \<or> c \<in> chosen_ids \<or> c \<in> pi_running ix \<or> entry_pinned ix e))"

definition next_victim :: "park_index \<Rightarrow> bytes \<Rightarrow> bytes set \<Rightarrow> (bytes \<times> int) option" where
  "next_victim ix incoming chosen_ids =
     (case List.find (eligible ix incoming chosen_ids) (pi_by_conv ix) of
        None \<Rightarrow> None | Some (c, e) \<Rightarrow> Some (c, ce_nbytes e))"

lemma next_victim_fresh:
  "next_victim ix inc ids = Some (c, n) \<Longrightarrow> c \<in> set (od_keys (pi_by_conv ix)) \<and> c \<notin> ids"
  by (force simp: next_victim_def eligible_def od_keys_def split: option.splits dest: find_SomeD)

text \<open>The \<open>while\<close> loop of \<open>_plan_victims\<close>; \<open>chosen_ids\<close> is the set of the first components of \<open>chosen\<close>.\<close>

function plan_loop ::
    "park_index \<Rightarrow> bytes \<Rightarrow> int \<Rightarrow> int \<Rightarrow> int \<Rightarrow> (bytes \<times> int) list \<Rightarrow> (bytes \<times> int) list res" where
  "plan_loop ix incoming n conv_count others chosen =
     (if conv_count > pi_slots ix \<or> others + n > pi_budget ix
      then (case next_victim ix incoming (set (map fst chosen)) of
              None \<Rightarrow> Inl (ValueError ''park cannot fit this conversation without evicting a pinned or running one'')
            | Some v \<Rightarrow> plan_loop ix incoming n (conv_count - 1) (others - snd v) (chosen @ [v]))
      else Inr chosen)"
  by pat_completeness auto
termination
proof (relation "measure (\<lambda>(ix, _, _, _, _, chosen).
    card (set (od_keys (pi_by_conv ix)) - set (map fst chosen)))", simp, goal_cases)
  case (1 ix incoming n conv_count others chosen v)
  then have v: "fst v \<in> set (od_keys (pi_by_conv ix))" "fst v \<notin> set (map fst chosen)"
    using next_victim_fresh [of ix incoming "set (map fst chosen)" "fst v" "snd v"] by auto
  then have "set (od_keys (pi_by_conv ix)) - set (map fst (chosen @ [v]))
      \<subset> set (od_keys (pi_by_conv ix)) - set (map fst chosen)" by auto
  then show ?case by (simp add: psubset_card_mono)
qed

declare plan_loop.simps [simp del]

definition plan_victims :: "park_index \<Rightarrow> bytes \<Rightarrow> int \<Rightarrow> bool \<Rightarrow> (bytes \<times> int) list res" where
  "plan_victims ix incoming n is_new =
     (let conv_count = index_len ix + (if is_new then 1 else 0);
          others = index_used_bytes ix - (if \<not> is_new then
             (case od_get (pi_by_conv ix) incoming of None \<Rightarrow> 0 | Some e \<Rightarrow> ce_nbytes e) else 0)
      in plan_loop ix incoming n conv_count others [])"

definition evict_until :: "bytes \<Rightarrow> int \<Rightarrow> bool \<Rightarrow> (park_index, bytes list \<times> bytes list) act" where
  "evict_until incoming n is_new =
     bindA (liftA (\<lambda>ix. plan_victims ix incoming n is_new)) (\<lambda>victims.
     bindA (drop_convs (map fst victims)) (\<lambda>released. retA (map fst victims, released)))"

section \<open>Storing a tail\<close>

definition check_tail :: "park_index \<Rightarrow> store_args \<Rightarrow> unit res" where
  "check_tail ix a =
     bindR (raise_if (int (length (sa_tail a)) \<ge> pi_block ix)
              (ValueError ''tail_ids must be shorter than a block'')) (\<lambda>_.
     bindR (raise_if (sa_end a \<le> 0 \<or> sa_nbytes a \<le> 0) (ValueError ''end and nbytes must be positive'')) (\<lambda>_.
     bindR (raise_if (sa_nbytes a > pi_budget ix) (ValueError ''conversation exceeds park budget'')) (\<lambda>_.
     let prefix = sa_end a - int (length (sa_tail a)) in
     bindR (raise_if (prefix < 0 \<or> prefix mod pi_block ix \<noteq> 0)
              (ValueError ''tail must start on a block boundary'')) (\<lambda>_.
     bindR (raise_if (sa_parent a = None \<and> prefix \<noteq> 0)
              (ValueError ''a tail with no parent hash starts at token 0'')) (\<lambda>_.
     bindR (raise_if (sa_parent a \<noteq> None \<and> prefix = 0)
              (ValueError ''a block-aligned parent requires a parent hash'')) (\<lambda>_.
       raise_if (prefix \<noteq> 0 \<and> sa_full a = []) (ValueError ''a non-empty prefix needs its full-block keys'')))))))"

definition sa_key :: "store_args \<Rightarrow> tail_key" where
  "sa_key a = (sa_parent a, sa_tail a)"

definition check_owner :: "park_index \<Rightarrow> store_args \<Rightarrow> unit res" where
  "check_owner ix a =
     (case pi_by_tail ix (sa_key a) of
        None \<Rightarrow> Inr ()
      | Some r \<Rightarrow> raise_if (tr_conv (obj ix r) \<noteq> sa_conv a)
                   (ValueError ''tail key already belongs to another conversation''))"

definition new_record :: "store_args \<Rightarrow> tail_record" where
  "new_record a = \<lparr>tr_key = sa_key a, tr_conv = sa_conv a, tr_end = sa_end a, tr_full_keys = sa_full a,
     tr_tail_only = sa_tail_only a,
     tr_slots = (case sa_slots a of None \<Rightarrow> [] | Some d \<Rightarrow> d), tr_nbytes = sa_nbytes a, tr_pinned = 0\<rparr>"

text \<open>\<open>entry = self.by_conv.get(conv_id)\<close>, created at the recent end or moved there.\<close>

definition touch_entry :: "bytes \<Rightarrow> (park_index, conv_entry) act" where
  "touch_entry c = withA (\<lambda>ix.
     case od_get (pi_by_conv ix) c of
       None \<Rightarrow> (let e = \<lparr>ce_conv = c, ce_records = [], ce_full_keys = [], ce_nbytes = 0\<rparr>
                in bindA (modA (\<lambda>ix. ix\<lparr>pi_by_conv := od_put c e (pi_by_conv ix)\<rparr>)) (\<lambda>_. retA e))
     | Some e \<Rightarrow> bindA (liftA (\<lambda>ix. od_to_end c (pi_by_conv ix))) (\<lambda>d.
                  bindA (modA (\<lambda>ix. ix\<lparr>pi_by_conv := d\<rparr>)) (\<lambda>_. retA e)))"

definition link_record :: "store_args \<Rightarrow> conv_entry \<Rightarrow> bytes list \<Rightarrow> park_index \<Rightarrow> park_index" where
  "link_record a e new_keys ix =
     (let r = length (pi_objs ix); p = sa_parent a
      in ix\<lparr>pi_objs := pi_objs ix @ [new_record a],
            pi_by_conv := od_put (sa_conv a)
              (e\<lparr>ce_records := r # ce_records e, ce_full_keys := new_keys, ce_nbytes := sa_nbytes a\<rparr>)
              (pi_by_conv ix),
            pi_by_tail := (pi_by_tail ix)(sa_key a := Some r),
            pi_by_parent := (pi_by_parent ix)(p := Some
              ((case pi_by_parent ix p of None \<Rightarrow> [] | Some rs \<Rightarrow> rs) @ [r]))\<rparr>)"

definition store :: "store_args \<Rightarrow> (park_index, store_result) act" where
  "store a =
     bindA (liftA (\<lambda>ix. check_tail ix a)) (\<lambda>_.
     bindA (liftA (\<lambda>ix. check_owner ix a)) (\<lambda>_.
     withA (\<lambda>ix0. let is_new = sa_conv a \<notin> set (od_keys (pi_by_conv ix0)) in
     bindA (evict_until (sa_conv a) (sa_nbytes a) is_new) (\<lambda>(evicted, released).
     bindA (touch_entry (sa_conv a)) (\<lambda>e.
     let new_keys = ls_union (ls_of (sa_full a)) (sa_tail_only a);
         superseded = filter (\<lambda>k. k \<notin> set new_keys) (ce_full_keys e) in
     bindA (modA (unlink_all (ce_records e))) (\<lambda>_.
     withA (\<lambda>ix. let r = length (pi_objs ix) in
     bindA (modA (link_record a e new_keys)) (\<lambda>_.
       retA \<lparr>sr_record = r, sr_evicted = evicted, sr_released = released @ superseded\<rparr>))))))))"

section \<open>Lookups\<close>

definition touch_conv :: "bytes \<Rightarrow> (park_index, unit) act" where
  "touch_conv c = bindA (liftA (\<lambda>ix. od_to_end c (pi_by_conv ix))) (\<lambda>d.
     modA (\<lambda>ix. ix\<lparr>pi_by_conv := d\<rparr>))"

definition lookup_key :: "bytes option \<Rightarrow> int list \<Rightarrow> int \<Rightarrow> (park_index, rid option) act" where
  "lookup_key parent tail prompt_len = withA (\<lambda>ix.
     case pi_by_tail ix (parent, tail) of
       None \<Rightarrow> retA None
     | Some r \<Rightarrow>
         if tr_end (obj ix r) \<le> 0 \<or> tr_end (obj ix r) \<ge> prompt_len then retA None
         else bindA (touch_conv (tr_conv (obj ix r))) (\<lambda>_. retA (Some r)))"

text \<open>One bucket of \<open>find\<close>: the record with the larger end wins, the earlier one on a tie.\<close>

definition tail_matches :: "park_index \<Rightarrow> int list \<Rightarrow> int \<Rightarrow> int \<Rightarrow> rid \<Rightarrow> bool" where
  "tail_matches ix token_ids prompt_len prefix r =
     (let tail = tail_ids (obj ix r); e = prefix + int (length tail)
      in \<not> (tr_end (obj ix r) \<noteq> e \<or> e \<ge> prompt_len \<or> e \<le> 0) \<and> py_slice token_ids prefix e = tail)"

fun scan_bucket :: "park_index \<Rightarrow> int list \<Rightarrow> int \<Rightarrow> int \<Rightarrow> rid list \<Rightarrow> rid option \<Rightarrow> rid option" where
  "scan_bucket ix token_ids prompt_len prefix [] best = best"
| "scan_bucket ix token_ids prompt_len prefix (r # rs) best =
     scan_bucket ix token_ids prompt_len prefix rs
       (if \<not> tail_matches ix token_ids prompt_len prefix r then best
        else (case best of None \<Rightarrow> Some r
              | Some b \<Rightarrow> if tr_end (obj ix r) > tr_end (obj ix b) then Some r else best))"

definition bucket :: "park_index \<Rightarrow> bytes list \<Rightarrow> nat \<Rightarrow> rid list" where
  "bucket ix block_hashes k =
     (let parent = (if k = 0 then None else Some (block_hashes ! (k - 1)))
      in case pi_by_parent ix parent of None \<Rightarrow> [] | Some rs \<Rightarrow> rs)"

fun find_loop :: "park_index \<Rightarrow> int list \<Rightarrow> bytes list \<Rightarrow> int \<Rightarrow> nat \<Rightarrow> rid option \<Rightarrow> rid option" where
  "find_loop ix token_ids block_hashes prompt_len k best =
     (let prefix = int k * pi_block ix;
          best' = scan_bucket ix token_ids prompt_len prefix (bucket ix block_hashes k) best
      in if (case best' of None \<Rightarrow> False | Some b \<Rightarrow> tr_end (obj ix b) \<ge> prefix) then best'
         else (case k of 0 \<Rightarrow> best' | Suc j \<Rightarrow> find_loop ix token_ids block_hashes prompt_len j best'))"

declare find_loop.simps [simp del]

definition index_find :: "int list \<Rightarrow> bytes list \<Rightarrow> int \<Rightarrow> (park_index, rid option) act" where
  "index_find token_ids block_hashes prompt_len =
     bindA (liftA (\<lambda>_. bindR (raise_if (prompt_len < 0) (ValueError ''prompt_len must be non-negative'')) (\<lambda>_.
        raise_if (prompt_len > int (length token_ids)) (ValueError ''prompt_len cannot pass token_ids'')))) (\<lambda>_.
     withA (\<lambda>ix.
       let last_k = min (int (length block_hashes)) (prompt_len div pi_block ix)
       in case find_loop ix token_ids block_hashes prompt_len (nat last_k) None of
            None \<Rightarrow> retA None
          | Some r \<Rightarrow> bindA (touch_conv (tr_conv (obj ix r))) (\<lambda>_. retA (Some r))))"

section \<open>Discarding a tail whose store failed\<close>

definition discard :: "tail_key \<Rightarrow> (park_index, unit) act" where
  "discard key = withA (\<lambda>ix.
     case pi_by_tail ix key of
       None \<Rightarrow> retA ()
     | Some r \<Rightarrow>
         if tr_pinned (obj ix r) > 0 then raiseA (ValueError ''cannot discard a pinned tail'')
         else let c = tr_conv (obj ix r); entry = od_get (pi_by_conv ix) c in
              bindA (modA (unlink_record r)) (\<lambda>_.
                case entry of
                  None \<Rightarrow> retA ()
                | Some e \<Rightarrow>
                    let rs = filter (\<lambda>q. q \<noteq> r) (ce_records e) in
                    if rs = [] then modA (\<lambda>ix. ix\<lparr>pi_by_conv := od_del c (pi_by_conv ix)\<rparr>)
                    else let kept = fold (\<lambda>q ks. ls_union (ls_union ks (tr_full_keys (obj ix q)))
                                                        (tr_tail_only (obj ix q))) rs [];
                             tot = (\<Sum>q\<leftarrow>rs. tr_nbytes (obj ix q))
                         in modA (\<lambda>ix. ix\<lparr>pi_by_conv := od_put c
                              (e\<lparr>ce_records := rs, ce_full_keys := kept, ce_nbytes := tot\<rparr>) (pi_by_conv ix)\<rparr>)))"

end
