(* ===== verification/Park_Index_Inv.thy ===== *)
theory Park_Index_Inv
  imports Park_Index
begin

text \<open>
  The invariant of the conversation index and what each operation of \<open>Park_Index\<close> does to it: which
  tails stay findable, which conversations an eviction takes, and why no operation raises anything
  but its documented errors.
\<close>

section \<open>Linked records and the invariant\<close>

text \<open>A record is linked while the bucket of its parent hash holds it: these are the tails \<open>find\<close> can hit.\<close>

definition linked :: "park_index \<Rightarrow> rid \<Rightarrow> bool" where
  "linked ix r = (case pi_by_parent ix (parent_hash (obj ix r)) of None \<Rightarrow> False | Some rs \<Rightarrow> r \<in> set rs)"

definition tail_wf :: "int \<Rightarrow> tail_record \<Rightarrow> bool" where
  "tail_wf block t = (0 < tr_end t \<and> int (length (tail_ids t)) < block
     \<and> int (length (tail_ids t)) \<le> tr_end t \<and> (tr_end t - int (length (tail_ids t))) mod block = 0
     \<and> (parent_hash t = None \<longleftrightarrow> tr_end t = int (length (tail_ids t))))"

definition buckets_ok :: "park_index \<Rightarrow> bool" where
  "buckets_ok ix = (\<forall>p rs. pi_by_parent ix p = Some rs \<longrightarrow>
     rs \<noteq> [] \<and> (\<forall>r \<in> set rs. r < length (pi_objs ix) \<and> parent_hash (obj ix r) = p))"

definition links_ok :: "park_index \<Rightarrow> bool" where
  "links_ok ix = ((\<forall>r. linked ix r \<longrightarrow> tail_wf (pi_block ix) (obj ix r))
     \<and> (\<forall>r q. linked ix r \<longrightarrow> linked ix q \<longrightarrow> tr_conv (obj ix r) = tr_conv (obj ix q) \<longrightarrow> r = q)
     \<and> (\<forall>k r. pi_by_tail ix k = Some r \<longrightarrow> tr_key (obj ix r) = k \<and> linked ix r))"

definition convs_ok :: "park_index \<Rightarrow> bool" where
  "convs_ok ix = (od_ok (pi_by_conv ix) \<and> (\<forall>c e. od_get (pi_by_conv ix) c = Some e \<longrightarrow>
     ce_conv e = c \<and> (\<forall>r \<in> set (ce_records e). r < length (pi_objs ix) \<and> tr_conv (obj ix r) = c)))"

definition owned_ok :: "park_index \<Rightarrow> bool" where
  "owned_ok ix = (\<forall>r. linked ix r \<longrightarrow>
     (\<exists>e. od_get (pi_by_conv ix) (tr_conv (obj ix r)) = Some e \<and> r \<in> set (ce_records e)))"

definition index_wf :: "park_index \<Rightarrow> bool" where
  "index_wf ix = (0 < pi_slots ix \<and> 0 < pi_budget ix \<and> 0 < pi_block ix
     \<and> buckets_ok ix \<and> links_ok ix \<and> convs_ok ix \<and> owned_ok ix)"

lemmas wf_defs = index_wf_def buckets_ok_def links_ok_def convs_ok_def owned_ok_def

subsection \<open>Unlinking\<close>

lemma unlink_frame [simp]:
  "pi_by_conv (unlink_record r ix) = pi_by_conv ix" "pi_objs (unlink_record r ix) = pi_objs ix"
  "pi_running (unlink_record r ix) = pi_running ix" "pi_slots (unlink_record r ix) = pi_slots ix"
  "pi_budget (unlink_record r ix) = pi_budget ix" "pi_block (unlink_record r ix) = pi_block ix"
  "obj (unlink_record r ix) q = obj ix q"
  by (auto simp: unlink_record_def Let_def obj_def split: option.splits)

lemma unlink_by_tail [simp]:
  "pi_by_tail (unlink_record r ix) = (pi_by_tail ix)(tr_key (obj ix r) := None)"
  by (auto simp: unlink_record_def Let_def split: option.splits)

lemma unlink_by_parent:
  "pi_by_parent (unlink_record r ix) p =
     (if p = parent_hash (obj ix r)
      then (case pi_by_parent ix p of None \<Rightarrow> None
            | Some rs \<Rightarrow> if rs = [] then Some [] else
                if filter (\<lambda>q. q \<noteq> r) rs = [] then None else Some (filter (\<lambda>q. q \<noteq> r) rs))
      else pi_by_parent ix p)"
  by (auto simp: unlink_record_def Let_def split: option.splits)

lemma unlink_linked:
  "linked (unlink_record r ix) q \<longleftrightarrow> linked ix q \<and> q \<noteq> r"
proof (cases "parent_hash (obj ix q) = parent_hash (obj ix r)")
  case True
  then show ?thesis
    by (auto simp: linked_def unlink_by_parent filter_empty_conv split: option.splits)
next
  case False
  then show ?thesis by (auto simp: linked_def unlink_by_parent)
qed

lemma unlink_buckets: "buckets_ok ix \<Longrightarrow> buckets_ok (unlink_record r ix)"
  unfolding buckets_ok_def
  by (auto simp: unlink_by_parent split: if_splits option.splits)

lemma unlink_links: "links_ok ix \<Longrightarrow> links_ok (unlink_record r ix)"
  unfolding links_ok_def by (auto simp: unlink_linked)

lemma unlink_convs: "convs_ok (unlink_record r ix) = convs_ok ix"
  by (simp add: convs_ok_def)

lemma unlink_all_simps [simp]:
  "unlink_all [] ix = ix" "unlink_all (r # rs) ix = unlink_all rs (unlink_record r ix)"
  by (simp_all add: unlink_all_def)

lemma unlink_all_frame [simp]:
  "pi_by_conv (unlink_all rs ix) = pi_by_conv ix" "pi_objs (unlink_all rs ix) = pi_objs ix"
  "pi_running (unlink_all rs ix) = pi_running ix" "pi_slots (unlink_all rs ix) = pi_slots ix"
  "pi_budget (unlink_all rs ix) = pi_budget ix" "pi_block (unlink_all rs ix) = pi_block ix"
  "obj (unlink_all rs ix) q = obj ix q"
  by (induction rs arbitrary: ix) simp_all

lemma unlink_all_linked: "linked (unlink_all rs ix) q \<longleftrightarrow> linked ix q \<and> q \<notin> set rs"
  by (induction rs arbitrary: ix) (auto simp: unlink_linked)

lemma unlink_all_buckets: "buckets_ok ix \<Longrightarrow> buckets_ok (unlink_all rs ix)"
  by (induction rs arbitrary: ix) (simp_all add: unlink_buckets)

lemma unlink_all_links: "links_ok ix \<Longrightarrow> links_ok (unlink_all rs ix)"
  by (induction rs arbitrary: ix) (simp_all add: unlink_links)

lemma unlink_all_by_tail:
  "pi_by_tail (unlink_all rs ix) k =
     (if k \<in> (\<lambda>r. tr_key (obj ix r)) ` set rs then None else pi_by_tail ix k)"
  by (induction rs arbitrary: ix) auto

lemma buckets_okD:
  "buckets_ok ix \<Longrightarrow> pi_by_parent ix p = Some rs \<Longrightarrow> r \<in> set rs \<Longrightarrow>
     r < length (pi_objs ix) \<and> parent_hash (obj ix r) = p"
  by (simp add: buckets_ok_def)

lemma links_okD:
  "links_ok ix \<Longrightarrow> pi_by_tail ix k = Some r \<Longrightarrow> tr_key (obj ix r) = k \<and> linked ix r"
  unfolding links_ok_def by blast

lemma linked_in_range: "buckets_ok ix \<Longrightarrow> linked ix r \<Longrightarrow> r < length (pi_objs ix)"
  by (auto simp: linked_def buckets_ok_def split: option.splits)

text \<open>Only \<open>pi_by_parent\<close> and the object table decide what is linked.\<close>

lemma linked_cong:
  "pi_by_parent ix' = pi_by_parent ix \<Longrightarrow> pi_objs ix' = pi_objs ix \<Longrightarrow> linked ix' = linked ix"
  by (rule ext) (simp add: linked_def obj_def)

subsection \<open>Dropping conversations\<close>

definition dropped :: "bytes \<Rightarrow> conv_entry \<Rightarrow> park_index \<Rightarrow> park_index" where
  "dropped c e ix = (unlink_all (ce_records e) (ix\<lparr>pi_by_conv := od_del c (pi_by_conv ix)\<rparr>))
     \<lparr>pi_running := pi_running ix - {c}\<rparr>"

lemma drop_conv_run:
  "od_get (pi_by_conv ix) c = Some e \<Longrightarrow> drop_conv c ix = (Inr (ce_full_keys e), dropped c e ix)"
  by (simp add: drop_conv_def act_simps dropped_def)

lemma dropped_frame [simp]:
  "pi_by_conv (dropped c e ix) = od_del c (pi_by_conv ix)" "pi_objs (dropped c e ix) = pi_objs ix"
  "pi_running (dropped c e ix) = pi_running ix - {c}" "pi_slots (dropped c e ix) = pi_slots ix"
  "pi_budget (dropped c e ix) = pi_budget ix" "pi_block (dropped c e ix) = pi_block ix"
  "obj (dropped c e ix) q = obj ix q"
proof -
  have o: "obj (ix'\<lparr>pi_running := s\<rparr>) q = obj ix' q" "obj (ix'\<lparr>pi_by_conv := d\<rparr>) q = obj ix' q"
    for ix' :: park_index and s d by (simp_all add: obj_def)
  show "obj (dropped c e ix) q = obj ix q" by (simp add: dropped_def o)
qed (simp_all add: dropped_def)

lemma dropped_linked: "linked (dropped c e ix) q \<longleftrightarrow> linked ix q \<and> q \<notin> set (ce_records e)"
proof -
  let ?d = "unlink_all (ce_records e) (ix\<lparr>pi_by_conv := od_del c (pi_by_conv ix)\<rparr>)"
  have "linked (dropped c e ix) = linked ?d" unfolding dropped_def by (rule linked_cong) simp_all
  moreover have "linked (ix\<lparr>pi_by_conv := od_del c (pi_by_conv ix)\<rparr>) = linked ix"
    by (rule linked_cong) simp_all
  ultimately show ?thesis by (simp add: unlink_all_linked)
qed

lemma dropped_by_tail: "pi_by_tail (dropped c e ix) k = Some r \<Longrightarrow> pi_by_tail ix k = Some r"
  by (auto simp: dropped_def unlink_all_by_tail split: if_splits)

lemma buckets_cong:
  "pi_by_parent ix' = pi_by_parent ix \<Longrightarrow> pi_objs ix' = pi_objs ix \<Longrightarrow> buckets_ok ix' = buckets_ok ix"
  by (simp add: buckets_ok_def obj_def)

lemma links_cong:
  "pi_by_parent ix' = pi_by_parent ix \<Longrightarrow> pi_objs ix' = pi_objs ix \<Longrightarrow> pi_by_tail ix' = pi_by_tail ix
     \<Longrightarrow> pi_block ix' = pi_block ix \<Longrightarrow> links_ok ix' = links_ok ix"
  using linked_cong [of ix' ix] by (simp add: links_ok_def obj_def)

lemma dropped_wf:
  assumes wf: "index_wf ix" and e: "od_get (pi_by_conv ix) c = Some e"
  shows "index_wf (dropped c e ix)"
    and "linked (dropped c e ix) q \<longleftrightarrow> linked ix q \<and> tr_conv (obj ix q) \<noteq> c"
proof -
  let ?i = "ix\<lparr>pi_by_conv := od_del c (pi_by_conv ix)\<rparr>"
  have parts: "convs_ok ix" "owned_ok ix" using wf by (simp_all add: index_wf_def)
  have own: "q \<in> set (ce_records e) \<longleftrightarrow> tr_conv (obj ix q) = c" if q: "linked ix q" for q
  proof
    assume "q \<in> set (ce_records e)"
    then show "tr_conv (obj ix q) = c" using parts(1) e by (simp add: convs_ok_def)
  next
    assume "tr_conv (obj ix q) = c"
    then show "q \<in> set (ce_records e)" using parts(2) e q by (auto simp: owned_ok_def)
  qed
  then show l: "linked (dropped c e ix) q \<longleftrightarrow> linked ix q \<and> tr_conv (obj ix q) \<noteq> c" for q
    by (auto simp: dropped_linked)
  have "buckets_ok (unlink_all (ce_records e) ?i)"
    using wf by (intro unlink_all_buckets) (simp add: index_wf_def buckets_cong [of ?i ix])
  then have b: "buckets_ok (dropped c e ix)"
    using buckets_cong [of "dropped c e ix" "unlink_all (ce_records e) ?i"] by (simp add: dropped_def)
  have "links_ok (unlink_all (ce_records e) ?i)"
    using wf by (intro unlink_all_links) (simp add: index_wf_def links_cong [of ?i ix])
  then have ls: "links_ok (dropped c e ix)"
    using links_cong [of "dropped c e ix" "unlink_all (ce_records e) ?i"] by (simp add: dropped_def)
  have cs: "convs_ok (dropped c e ix)"
    using parts(1) by (simp add: convs_ok_def od_ok_del od_get_del)
  have "owned_ok (dropped c e ix)"
    using parts(2) by (simp add: owned_ok_def l od_get_del)
  with b ls cs wf show "index_wf (dropped c e ix)" by (simp add: index_wf_def)
qed

text \<open>The index after dropping the conversations \<open>cs\<close>, seen through its observers.\<close>

definition dropped_view :: "bytes list \<Rightarrow> park_index \<Rightarrow> park_index \<Rightarrow> bool" where
  "dropped_view cs ix ix' = (index_wf ix' \<and> pi_objs ix' = pi_objs ix
     \<and> pi_by_conv ix' = filter (\<lambda>p. fst p \<notin> set cs) (pi_by_conv ix)
     \<and> pi_running ix' = pi_running ix - set cs
     \<and> (\<forall>q. linked ix' q \<longleftrightarrow> linked ix q \<and> tr_conv (obj ix q) \<notin> set cs)
     \<and> (\<forall>k r. pi_by_tail ix' k = Some r \<longrightarrow> pi_by_tail ix k = Some r)
     \<and> pi_slots ix' = pi_slots ix \<and> pi_budget ix' = pi_budget ix \<and> pi_block ix' = pi_block ix)"

definition full_keys_of :: "park_index \<Rightarrow> bytes \<Rightarrow> bytes list" where
  "full_keys_of ix c = (case od_get (pi_by_conv ix) c of None \<Rightarrow> [] | Some e \<Rightarrow> ce_full_keys e)"

lemma drop_convs_run:
  assumes "index_wf ix" and "distinct cs" and "set cs \<subseteq> set (od_keys (pi_by_conv ix))"
  shows "\<exists>ix'. drop_convs cs ix = (Inr (concat (map (full_keys_of ix) cs)), ix') \<and> dropped_view cs ix ix'"
  using assms
proof (induction cs arbitrary: ix)
  case Nil
  then show ?case by (simp add: act_simps dropped_view_def)
next
  case (Cons c cs)
  from Cons.prems(3) obtain e where e: "od_get (pi_by_conv ix) c = Some e"
    using od.key_get by force
  let ?i = "dropped c e ix"
  have "set cs \<subseteq> set (od_keys (pi_by_conv ?i))"
    using Cons.prems(2,3) by (auto simp: od_keys_del)
  with Cons.IH [OF dropped_wf(1) [OF Cons.prems(1) e]] Cons.prems(2) obtain ix' where
    run: "drop_convs cs ?i = (Inr (concat (map (full_keys_of ?i) cs)), ix')" and
    view: "dropped_view cs ?i ix'" by auto
  have "map (full_keys_of ?i) cs = map (full_keys_of ix) cs"
    using Cons.prems(2) by (auto simp: full_keys_of_def od_get_del)
  with run e have "drop_convs (c # cs) ix = (Inr (concat (map (full_keys_of ix) (c # cs))), ix')"
    by (simp add: act_simps drop_conv_run full_keys_of_def)
  moreover have "dropped_view (c # cs) ix ix'"
    using view dropped_wf(2) [OF Cons.prems(1) e] dropped_by_tail [of c e ix]
    by (auto simp: dropped_view_def od_del_def obj_def)
  ultimately show ?case by blast
qed

subsection \<open>The eviction plan\<close>

text \<open>The conversations an eviction may take, oldest first, with their bytes.\<close>

definition candidates :: "park_index \<Rightarrow> bytes \<Rightarrow> (bytes \<times> int) list" where
  "candidates ix incoming = map (\<lambda>(c, e). (c, ce_nbytes e)) (filter (eligible ix incoming {}) (pi_by_conv ix))"

text \<open>The guard of the planning loop after taking the first \<open>j\<close> candidates.\<close>

definition overfull :: "park_index \<Rightarrow> bytes \<Rightarrow> int \<Rightarrow> int \<Rightarrow> int \<Rightarrow> nat \<Rightarrow> bool" where
  "overfull ix incoming n conv_count others j =
     (conv_count - int j > pi_slots ix
      \<or> others - (\<Sum>v\<leftarrow>take j (candidates ix incoming). snd v) + n > pi_budget ix)"

lemma candidates_distinct: "od_ok (pi_by_conv ix) \<Longrightarrow> distinct (map fst (candidates ix inc))"
proof -
  assume "od_ok (pi_by_conv ix)"
  then have "distinct (map fst (filter (eligible ix inc {}) (pi_by_conv ix)))"
    by (simp add: od_ok_def od_keys_def distinct_map_filter)
  then show ?thesis by (simp add: candidates_def comp_def case_prod_unfold)
qed

lemma candidates_in: "(c, n) \<in> set (candidates ix inc) \<Longrightarrow> od_ok (pi_by_conv ix) \<Longrightarrow>
   \<exists>e. od_get (pi_by_conv ix) c = Some e \<and> n = ce_nbytes e \<and> c \<noteq> inc \<and> c \<notin> pi_running ix
     \<and> \<not> entry_pinned ix e"
  by (auto simp: candidates_def eligible_def od_ok_get_iff)

lemma next_victim_candidates:
  assumes ok: "od_ok (pi_by_conv ix)"
  shows "next_victim ix inc (set (map fst (take j (candidates ix inc)))) =
     (if j < length (candidates ix inc) then Some (candidates ix inc ! j) else None)"
proof -
  let ?cs = "candidates ix inc" and ?v = "\<lambda>(c, e). (c, ce_nbytes e)"
  let ?el = "filter (eligible ix inc {}) (pi_by_conv ix)"
  have cs: "?cs = map ?v ?el" by (simp add: candidates_def)
  have "filter (eligible ix inc (set (map fst (take j ?cs)))) (pi_by_conv ix)
      = filter (\<lambda>p. fst p \<notin> set (map fst (take j ?cs))) ?el"
  proof -
    have "eligible ix inc I = (\<lambda>p. eligible ix inc {} p \<and> fst p \<notin> I)" for I
      by (auto simp: eligible_def fun_eq_iff)
    from this [of "set (map fst (take j ?cs))"] show ?thesis by (simp add: filter_filter conj_commute)
  qed
  also have "\<dots> = drop j ?el"
  proof -
    have d: "distinct (map fst ?el)"
      using candidates_distinct [OF ok, of inc] by (simp add: cs comp_def case_prod_unfold)
    have t: "set (map fst (take j ?cs)) = fst ` set (take j ?el)"
      by (force simp: cs take_map comp_def case_prod_unfold)
    have "filter (\<lambda>p. fst p \<notin> fst ` set (take j ?el)) ?el = drop j ?el"
      using d by (rule filter_not_in_take)
    then show ?thesis by (simp only: t)
  qed
  finally have f: "filter (eligible ix inc (set (map fst (take j ?cs)))) (pi_by_conv ix) = drop j ?el" .
  show ?thesis
  proof (cases "j < length ?el")
    case True
    then have "drop j ?el = ?el ! j # drop (Suc j) ?el" by (rule Cons_nth_drop_Suc [symmetric])
    then show ?thesis unfolding next_victim_def find_filter f using True
      by (simp add: cs case_prod_unfold)
  next
    case False
    then show ?thesis unfolding next_victim_def find_filter f by (simp add: cs)
  qed
qed

text \<open>
  The plan is the shortest prefix of the candidates that makes room; it is refused exactly when even
  all of them are not enough.
\<close>

lemma plan_loop_spec:
  fixes n conv_count others :: int
  assumes ok: "od_ok (pi_by_conv ix)"
    and "k \<le> length (candidates ix inc)"
  defines "over \<equiv> overfull ix inc n conv_count others"
  shows "case plan_loop ix inc n (conv_count - int k)
           (others - (\<Sum>v\<leftarrow>take k (candidates ix inc). snd v)) (take k (candidates ix inc)) of
       Inr vs \<Rightarrow> \<exists>m \<ge> k. m \<le> length (candidates ix inc) \<and> vs = take m (candidates ix inc) \<and> \<not> over m
                  \<and> (\<forall>i. k \<le> i \<and> i < m \<longrightarrow> over i)
     | Inl e \<Rightarrow> \<forall>i. k \<le> i \<and> i \<le> length (candidates ix inc) \<longrightarrow> over i"
  using assms(2)
proof (induction "length (candidates ix inc) - k" arbitrary: k)
  case 0
  then have k: "k = length (candidates ix inc)" by simp
  show ?case
    using next_victim_candidates [OF ok, of inc k]
    by (auto simp: plan_loop.simps [of ix inc] over_def overfull_def k)
next
  case (Suc d)
  then have k: "k < length (candidates ix inc)" by simp
  let ?cs = "candidates ix inc"
  have next_s: "take (Suc k) ?cs = take k ?cs @ [?cs ! k]" using k by (rule take_Suc_conv_app_nth)
  have IH: "case plan_loop ix inc n (conv_count - int (Suc k))
           (others - (\<Sum>v\<leftarrow>take (Suc k) ?cs. snd v)) (take (Suc k) ?cs) of
       Inr vs \<Rightarrow> \<exists>m \<ge> Suc k. m \<le> length ?cs \<and> vs = take m ?cs \<and> \<not> over m
                  \<and> (\<forall>i. Suc k \<le> i \<and> i < m \<longrightarrow> over i)
     | Inl e \<Rightarrow> \<forall>i. Suc k \<le> i \<and> i \<le> length ?cs \<longrightarrow> over i"
    using Suc.hyps(2) k by (intro Suc.hyps(1)) auto
  show ?case
  proof (cases "over k")
    case True
    let ?p = "plan_loop ix inc n (conv_count - int (Suc k))
       (others - (\<Sum>v\<leftarrow>take (Suc k) ?cs. snd v)) (take (Suc k) ?cs)"
    have "plan_loop ix inc n (conv_count - int k) (others - (\<Sum>v\<leftarrow>take k ?cs. snd v)) (take k ?cs) = ?p"
      using True next_victim_candidates [OF ok, of inc k] k
      by (subst plan_loop.simps) (simp add: over_def overfull_def next_s algebra_simps)
    moreover have first: "over i" if "k \<le> i" "Suc k \<le> i \<longrightarrow> over i" for i
      using that True by (cases "i = k") auto
    moreover have "case ?p of
       Inr vs \<Rightarrow> \<exists>m \<ge> k. m \<le> length ?cs \<and> vs = take m ?cs \<and> \<not> over m \<and> (\<forall>i. k \<le> i \<and> i < m \<longrightarrow> over i)
     | Inl e \<Rightarrow> \<forall>i. k \<le> i \<and> i \<le> length ?cs \<longrightarrow> over i"
    proof (cases ?p)
      case (Inl e)
      with IH have "\<forall>i. Suc k \<le> i \<and> i \<le> length ?cs \<longrightarrow> over i" by simp
      then have "\<forall>i. k \<le> i \<and> i \<le> length ?cs \<longrightarrow> over i" using first by blast
      with Inl show ?thesis by simp
    next
      case (Inr vs)
      with IH obtain m where m: "m \<ge> Suc k" "m \<le> length ?cs" "vs = take m ?cs" "\<not> over m"
        "\<forall>i. Suc k \<le> i \<and> i < m \<longrightarrow> over i" by auto
      then have "\<forall>i. k \<le> i \<and> i < m \<longrightarrow> over i" using first by blast
      with Inr m show ?thesis by (auto intro!: exI [of _ m])
    qed
    ultimately show ?thesis by simp
  next
    case False
    then show ?thesis using k
      by (subst plan_loop.simps) (auto simp: over_def overfull_def)
  qed
qed

subsection \<open>Storing\<close>

lemma check_tail_Inr:
  "check_tail ix a = Inr u \<longleftrightarrow>
     int (length (sa_tail a)) < pi_block ix \<and> 0 < sa_end a \<and> 0 < sa_nbytes a \<and> sa_nbytes a \<le> pi_budget ix
     \<and> (let prefix = sa_end a - int (length (sa_tail a)) in
          0 \<le> prefix \<and> prefix mod pi_block ix = 0 \<and> (sa_parent a = None \<longleftrightarrow> prefix = 0)
          \<and> (prefix \<noteq> 0 \<longrightarrow> sa_full a \<noteq> []))"
  by (auto simp: check_tail_def bindR_raise_if raise_if_eq_Inr Let_def)

lemma new_record_wf: "check_tail ix a = Inr () \<Longrightarrow> tail_wf (pi_block ix) (new_record a)"
  by (auto simp: check_tail_Inr tail_wf_def new_record_def tail_ids_def parent_hash_def sa_key_def Let_def)

definition entry_or_new :: "park_index \<Rightarrow> bytes \<Rightarrow> conv_entry" where
  "entry_or_new ix c = (case od_get (pi_by_conv ix) c of
     None \<Rightarrow> \<lparr>ce_conv = c, ce_records = [], ce_full_keys = [], ce_nbytes = 0\<rparr> | Some e \<Rightarrow> e)"

lemma od_put_absent: "k \<notin> set (od_keys d) \<Longrightarrow> od_put k v d = d @ [(k, v)]"
  by (induction d) auto

lemma od_put_snoc: "k \<notin> set (od_keys d) \<Longrightarrow> od_put k v (d @ [(k, w)]) = d @ [(k, v)]"
  by (induction d) auto

lemma touch_entry_run:
  "touch_entry c ix = (Inr (entry_or_new ix c),
     ix\<lparr>pi_by_conv := od_del c (pi_by_conv ix) @ [(c, entry_or_new ix c)]\<rparr>)"
proof (cases "od_get (pi_by_conv ix) c")
  case None
  then have "c \<notin> set (od_keys (pi_by_conv ix))" by (simp add: od_get_None)
  then show ?thesis using None
    by (simp add: touch_entry_def act_simps entry_or_new_def od_put_absent od_del_absent Let_def)
next
  case (Some e)
  then show ?thesis by (simp add: touch_entry_def act_simps entry_or_new_def od_to_end_def)
qed

lemma link_record_frame [simp]:
  "pi_objs (link_record a e ks ix) = pi_objs ix @ [new_record a]"
  "pi_slots (link_record a e ks ix) = pi_slots ix" "pi_budget (link_record a e ks ix) = pi_budget ix"
  "pi_block (link_record a e ks ix) = pi_block ix" "pi_running (link_record a e ks ix) = pi_running ix"
  "pi_by_tail (link_record a e ks ix) = (pi_by_tail ix)(sa_key a := Some (length (pi_objs ix)))"
  "pi_by_conv (link_record a e ks ix) = od_put (sa_conv a)
     (e\<lparr>ce_records := length (pi_objs ix) # ce_records e, ce_full_keys := ks, ce_nbytes := sa_nbytes a\<rparr>)
     (pi_by_conv ix)"
  by (simp_all add: link_record_def Let_def)

lemma link_record_by_parent:
  "pi_by_parent (link_record a e ks ix) p = (if p = sa_parent a
     then Some ((case pi_by_parent ix p of None \<Rightarrow> [] | Some rs \<Rightarrow> rs) @ [length (pi_objs ix)])
     else pi_by_parent ix p)"
  by (simp add: link_record_def Let_def)

lemma obj_link_old: "q < length (pi_objs ix) \<Longrightarrow> obj (link_record a e ks ix) q = obj ix q"
  by (simp add: obj_def nth_append)

lemma obj_link_new: "obj (link_record a e ks ix) (length (pi_objs ix)) = new_record a"
  by (simp add: obj_def)

lemma parent_new_record [simp]: "parent_hash (new_record a) = sa_parent a"
  "tr_key (new_record a) = sa_key a" "tr_conv (new_record a) = sa_conv a"
  "tr_end (new_record a) = sa_end a" "tail_ids (new_record a) = sa_tail a"
  "tr_pinned (new_record a) = 0"
  by (simp_all add: new_record_def parent_hash_def sa_key_def tail_ids_def)

lemma link_record_linked:
  assumes b: "buckets_ok ix"
  shows "linked (link_record a e ks ix) q \<longleftrightarrow> q = length (pi_objs ix) \<or> linked ix q"
proof -
  consider "q = length (pi_objs ix)" | "q < length (pi_objs ix)" | "length (pi_objs ix) < q" by linarith
  then show ?thesis
  proof cases
    case 1
    then show ?thesis by (simp add: linked_def obj_link_new link_record_by_parent)
  next
    case 2
    then show ?thesis
      by (auto simp: linked_def obj_link_old link_record_by_parent split: option.splits)
  next
    case 3
    have "q \<notin> set rs" if "pi_by_parent ix p = Some rs" for p rs
      using buckets_okD [OF b that, of q] 3 by auto
    then show ?thesis using 3
      by (auto simp: linked_def link_record_by_parent split: option.splits)
  qed
qed

lemma link_record_buckets:
  assumes "buckets_ok ix" shows "buckets_ok (link_record a e ks ix)"
  unfolding buckets_ok_def
proof (intro allI impI)
  fix p rs assume rs: "pi_by_parent (link_record a e ks ix) p = Some rs"
  have old: "r < length (pi_objs ix) \<and> parent_hash (obj (link_record a e ks ix) r) = p"
    if "pi_by_parent ix p = Some qs" "r \<in> set qs" for qs r
    using buckets_okD [OF assms that] by (simp add: obj_link_old)
  have ne: "rs \<noteq> []" using rs assms by (auto simp: link_record_by_parent buckets_ok_def split: if_splits)
  have "\<forall>r \<in> set rs. r < Suc (length (pi_objs ix)) \<and> parent_hash (obj (link_record a e ks ix) r) = p"
  proof
    fix r assume "r \<in> set rs"
    with rs consider "r = length (pi_objs ix)" "p = sa_parent a"
      | qs where "pi_by_parent ix p = Some qs" "r \<in> set qs"
      by (auto simp: link_record_by_parent split: if_splits option.splits)
    then show "r < Suc (length (pi_objs ix)) \<and> parent_hash (obj (link_record a e ks ix) r) = p"
    proof cases
      case 1
      then show ?thesis by (simp add: obj_link_new)
    next
      case 2
      then show ?thesis using old [of qs r] by simp
    qed
  qed
  with ne show "rs \<noteq> [] \<and> (\<forall>r \<in> set rs. r < length (pi_objs (link_record a e ks ix))
      \<and> parent_hash (obj (link_record a e ks ix) r) = p)" by simp
qed

text \<open>What a successful store leaves: \<open>cs\<close> are the evicted conversations.\<close>

definition stored_view :: "store_args \<Rightarrow> bytes list \<Rightarrow> park_index \<Rightarrow> park_index \<Rightarrow> bool" where
  "stored_view a cs ix ix' = (index_wf ix' \<and> pi_objs ix' = pi_objs ix @ [new_record a]
     \<and> pi_by_conv ix' = filter (\<lambda>p. fst p \<notin> insert (sa_conv a) (set cs)) (pi_by_conv ix)
         @ [(sa_conv a, \<lparr>ce_conv = sa_conv a,
              ce_records = length (pi_objs ix) # ce_records (entry_or_new ix (sa_conv a)),
              ce_full_keys = ls_union (ls_of (sa_full a)) (sa_tail_only a), ce_nbytes = sa_nbytes a\<rparr>)]
     \<and> pi_running ix' = pi_running ix - set cs
     \<and> (\<forall>q. linked ix' q \<longleftrightarrow> q = length (pi_objs ix)
            \<or> linked ix q \<and> tr_conv (obj ix q) \<notin> insert (sa_conv a) (set cs))
     \<and> pi_by_tail ix' (sa_key a) = Some (length (pi_objs ix))
     \<and> pi_slots ix' = pi_slots ix \<and> pi_budget ix' = pi_budget ix \<and> pi_block ix' = pi_block ix)"

definition stored_index :: "store_args \<Rightarrow> park_index \<Rightarrow> park_index" where
  "stored_index a ix =
     (let e = entry_or_new ix (sa_conv a)
      in link_record a e (ls_union (ls_of (sa_full a)) (sa_tail_only a))
           (unlink_all (ce_records e)
              (ix\<lparr>pi_by_conv := od_del (sa_conv a) (pi_by_conv ix) @ [(sa_conv a, e)]\<rparr>)))"

lemma stored_index_view:
  assumes wf: "index_wf ix" and check: "check_tail ix a = Inr ()"
    and owner: "\<And>r. pi_by_tail ix (sa_key a) = Some r \<Longrightarrow> tr_conv (obj ix r) = sa_conv a"
  shows "stored_view a [] ix (stored_index a ix)"
proof -
  let ?c = "sa_conv a" and ?e = "entry_or_new ix (sa_conv a)" and ?n = "length (pi_objs ix)"
  define i2 where "i2 = ix\<lparr>pi_by_conv := od_del ?c (pi_by_conv ix) @ [(?c, ?e)]\<rparr>"
  define i3 where "i3 = unlink_all (ce_records ?e) i2"
  define i4 where "i4 = stored_index a ix"
  have parts: "buckets_ok ix" "links_ok ix" "convs_ok ix" "owned_ok ix" using wf by (simp_all add: index_wf_def)
  have i4: "i4 = link_record a ?e (ls_union (ls_of (sa_full a)) (sa_tail_only a)) i3"
    by (simp add: i4_def stored_index_def Let_def i3_def i2_def)
  have o2: "obj i2 q = obj ix q" for q by (simp add: i2_def obj_def)
  have l2: "linked i2 = linked ix" by (rule linked_cong) (simp_all add: i2_def)
  have frame3: "pi_objs i3 = pi_objs ix" "pi_block i3 = pi_block ix" "obj i3 q = obj ix q" for q
    by (simp_all add: i3_def o2) (simp_all add: i2_def)
  have recs: "tr_conv (obj ix r) = ?c" "r < ?n" if "r \<in> set (ce_records ?e)" for r
    using parts(3) that by (auto simp: convs_ok_def entry_or_new_def split: option.splits)
  have own: "r \<in> set (ce_records ?e)" if "linked ix r" "tr_conv (obj ix r) = ?c" for r
    using parts(4) that by (force simp: owned_ok_def entry_or_new_def)
  have l3: "linked i3 q \<longleftrightarrow> linked ix q \<and> tr_conv (obj ix q) \<noteq> ?c" for q
    using recs own by (auto simp: i3_def unlink_all_linked l2)
  have b3: "buckets_ok i3"
  proof -
    have "buckets_ok i2 = buckets_ok ix" by (rule buckets_cong) (simp_all add: i2_def)
    with parts(1) show ?thesis by (simp add: i3_def unlink_all_buckets)
  qed
  have k3: "links_ok i3"
  proof -
    have "links_ok i2 = links_ok ix" by (rule links_cong) (simp_all add: i2_def)
    with parts(2) show ?thesis by (simp add: i3_def unlink_all_links)
  qed
  have t3: "pi_by_tail i3 (sa_key a) = None"
  proof (rule ccontr)
    assume "pi_by_tail i3 (sa_key a) \<noteq> None"
    then obtain r where r: "pi_by_tail i3 (sa_key a) = Some r" by blast
    then have "pi_by_tail ix (sa_key a) = Some r"
      by (auto simp: i3_def i2_def unlink_all_by_tail split: if_splits)
    then have "tr_conv (obj ix r) = ?c" by (rule owner)
    moreover have "linked i3 r" using links_okD [OF k3 r] by simp
    ultimately show False by (simp add: l3)
  qed
  have l4: "linked i4 q \<longleftrightarrow> q = ?n \<or> linked ix q \<and> tr_conv (obj ix q) \<noteq> ?c" for q
    using link_record_linked [OF b3] by (simp add: i4 frame3 l3)
  have o4: "obj i4 q = (if q = ?n then new_record a else obj ix q)" if "q \<le> ?n" for q
    using that obj_link_old [of q i3] obj_link_new [of a ?e _ i3] by (auto simp: i4 frame3)
  have range: "q < ?n" if "linked ix q" for q using parts(1) that by (rule linked_in_range)
  have conv4: "pi_by_conv i4 = od_del ?c (pi_by_conv ix) @ [(?c, \<lparr>ce_conv = ?c, ce_records = ?n # ce_records ?e,
      ce_full_keys = ls_union (ls_of (sa_full a)) (sa_tail_only a), ce_nbytes = sa_nbytes a\<rparr>)]"
  proof -
    have "ce_conv ?e = ?c" using parts(3) by (auto simp: convs_ok_def entry_or_new_def split: option.splits)
    then have "?e\<lparr>ce_records := ?n # ce_records ?e, ce_full_keys := ks, ce_nbytes := n\<rparr>
        = \<lparr>ce_conv = ?c, ce_records = ?n # ce_records ?e, ce_full_keys = ks, ce_nbytes = n\<rparr>" for ks n
      by (cases ?e) simp
    then show ?thesis by (simp add: i4 i3_def od_put_snoc od_keys_del frame3 i2_def)
  qed
  have get4: "od_get (pi_by_conv i4) c = (if c = ?c then Some \<lparr>ce_conv = ?c, ce_records = ?n # ce_records ?e,
      ce_full_keys = ls_union (ls_of (sa_full a)) (sa_tail_only a), ce_nbytes = sa_nbytes a\<rparr>
      else od_get (pi_by_conv ix) c)" for c
    by (auto simp: conv4 od_get_append od_get_del od_get_Cons split: option.splits)
  have objs4: "pi_objs i4 = pi_objs ix @ [new_record a]" by (simp add: i4 frame3)
  have b4: "buckets_ok i4" unfolding i4 by (rule link_record_buckets [OF b3])
  have block4: "pi_block i4 = pi_block ix" by (simp add: i4 frame3)
  have links4: "links_ok i4"
    unfolding links_ok_def
  proof (intro conjI allI impI)
    show "tail_wf (pi_block i4) (obj i4 r)" if "linked i4 r" for r
      using that parts(2) new_record_wf [OF check] range [of r]
      by (auto simp: l4 o4 links_ok_def block4)
    show "r = q" if "linked i4 r" "linked i4 q" "tr_conv (obj i4 r) = tr_conv (obj i4 q)" for r q
      using that parts(2) range [of r] range [of q] by (auto simp: l4 o4 links_ok_def)
    show "tr_key (obj i4 r) = k" "linked i4 r" if k: "pi_by_tail i4 k = Some r" for k r
    proof -
      have "r = ?n \<and> k = sa_key a \<or> k \<noteq> sa_key a \<and> pi_by_tail i3 k = Some r"
        using k by (auto simp: i4 frame3 split: if_splits)
      moreover have "tr_key (obj ix r) = k \<and> linked i3 r" if "pi_by_tail i3 k = Some r"
        using links_okD [OF k3 that] by (simp add: frame3)
      ultimately show "tr_key (obj i4 r) = k" "linked i4 r"
        using range [of r] by (auto simp: l4 l3 o4)
    qed
  qed
  have convs4: "convs_ok i4"
    unfolding convs_ok_def
  proof (intro conjI allI impI)
    show "od_ok (pi_by_conv i4)"
      using parts(3) by (simp add: conv4 convs_ok_def od_ok_def od_keys_append od_keys_del)
    fix c e assume c: "od_get (pi_by_conv i4) c = Some e"
    have old: "ce_conv e = c \<and> (\<forall>r \<in> set (ce_records e). r < ?n \<and> tr_conv (obj ix r) = c)"
      if "od_get (pi_by_conv ix) c = Some e" using parts(3) that by (simp add: convs_ok_def)
    show "ce_conv e = c" using c old by (auto simp: get4 split: if_splits)
    show "\<forall>r \<in> set (ce_records e). r < length (pi_objs i4) \<and> tr_conv (obj i4 r) = c"
    proof
      fix r assume r: "r \<in> set (ce_records e)"
      show "r < length (pi_objs i4) \<and> tr_conv (obj i4 r) = c"
      proof (cases "c = ?c")
        case True
        then have "r = ?n \<or> r \<in> set (ce_records ?e)" using c r by (auto simp: get4)
        then show ?thesis using recs [of r] True by (auto simp: objs4 o4)
      next
        case False
        then show ?thesis using c r old by (auto simp: get4 objs4 o4)
      qed
    qed
  qed
  have owned4: "owned_ok i4"
    unfolding owned_ok_def
  proof (intro allI impI)
    fix r assume r: "linked i4 r"
    show "\<exists>e. od_get (pi_by_conv i4) (tr_conv (obj i4 r)) = Some e \<and> r \<in> set (ce_records e)"
    proof (cases "r = ?n")
      case True
      then show ?thesis by (simp add: o4 get4)
    next
      case False
      with r have "linked ix r" "tr_conv (obj ix r) \<noteq> ?c" by (auto simp: l4)
      moreover from this range [of r] have "obj i4 r = obj ix r" by (simp add: o4)
      ultimately show ?thesis using parts(4) by (simp add: owned_ok_def get4)
    qed
  qed
  have pos: "0 < pi_slots i4" "0 < pi_budget i4" "0 < pi_block i4"
    using wf by (simp_all add: i4 i3_def i2_def index_wf_def)
  have del: "od_del ?c (pi_by_conv ix) = filter (\<lambda>p. fst p \<noteq> ?c) (pi_by_conv ix)" by (simp add: od_del_def)
  show ?thesis
    unfolding stored_view_def i4_def [symmetric]
    using pos b4 links4 convs4 owned4
    by (simp add: index_wf_def objs4 l4 conv4 del) (simp add: i4 i3_def i2_def)
qed

lemma set_full_keys_of: "set (full_keys_of ix c) = keys_of ix c"
  by (simp add: full_keys_of_def keys_of_def split: option.splits)

lemma set_entry_keys: "set (ce_full_keys (entry_or_new ix c)) = keys_of ix c"
  by (simp add: entry_or_new_def keys_of_def split: option.splits)

definition store_plan :: "park_index \<Rightarrow> store_args \<Rightarrow> (bytes \<times> int) list res" where
  "store_plan ix a = plan_victims ix (sa_conv a) (sa_nbytes a) (sa_conv a \<notin> set (od_keys (pi_by_conv ix)))"

text \<open>Bytes of the other conversations, and the count the planner starts from.\<close>

definition plan_others :: "park_index \<Rightarrow> store_args \<Rightarrow> int" where
  "plan_others ix a = index_used_bytes ix
     - (case od_get (pi_by_conv ix) (sa_conv a) of None \<Rightarrow> 0 | Some e \<Rightarrow> ce_nbytes e)"

definition plan_count :: "park_index \<Rightarrow> store_args \<Rightarrow> int" where
  "plan_count ix a = index_len ix + (if sa_conv a \<notin> set (od_keys (pi_by_conv ix)) then 1 else 0)"

definition plan_over :: "park_index \<Rightarrow> store_args \<Rightarrow> nat \<Rightarrow> bool" where
  "plan_over ix a = overfull ix (sa_conv a) (sa_nbytes a) (plan_count ix a) (plan_others ix a)"

lemma store_plan_spec:
  assumes ok: "od_ok (pi_by_conv ix)"
  shows "case store_plan ix a of
       Inr vs \<Rightarrow> \<exists>m \<le> length (candidates ix (sa_conv a)). vs = take m (candidates ix (sa_conv a))
                  \<and> \<not> plan_over ix a m \<and> (\<forall>i < m. plan_over ix a i)
     | Inl e \<Rightarrow> \<forall>i \<le> length (candidates ix (sa_conv a)). plan_over ix a i"
proof -
  have "plan_others ix a = index_used_bytes ix - (if \<not> (sa_conv a \<notin> set (od_keys (pi_by_conv ix))) then
      (case od_get (pi_by_conv ix) (sa_conv a) of None \<Rightarrow> 0 | Some e \<Rightarrow> ce_nbytes e) else 0)"
    by (auto simp: plan_others_def od_get_None split: option.splits dest: od_get_key)
  then have "store_plan ix a =
      plan_loop ix (sa_conv a) (sa_nbytes a) (plan_count ix a) (plan_others ix a) []"
    by (simp add: store_plan_def plan_victims_def plan_count_def Let_def)
  then show ?thesis
    using plan_loop_spec [OF ok, of 0 "sa_conv a" "sa_nbytes a" "plan_count ix a" "plan_others ix a"]
    by (auto simp: plan_over_def split: sum.splits)
qed

lemma plan_keys:
  assumes ok: "od_ok (pi_by_conv ix)" and plan: "store_plan ix a = Inr vs"
  shows "distinct (map fst vs)" and "set (map fst vs) \<subseteq> set (od_keys (pi_by_conv ix))"
    and "\<And>c n. (c, n) \<in> set vs \<Longrightarrow> \<exists>e. od_get (pi_by_conv ix) c = Some e \<and> n = ce_nbytes e
          \<and> c \<noteq> sa_conv a \<and> c \<notin> pi_running ix \<and> \<not> entry_pinned ix e"
proof -
  obtain m where vs: "vs = take m (candidates ix (sa_conv a))"
    using store_plan_spec [OF ok, of a] plan by auto
  show "distinct (map fst vs)"
    using candidates_distinct [OF ok, of "sa_conv a"] by (simp add: vs take_map [symmetric])
  show in_vs: "\<exists>e. od_get (pi_by_conv ix) c = Some e \<and> n = ce_nbytes e
          \<and> c \<noteq> sa_conv a \<and> c \<notin> pi_running ix \<and> \<not> entry_pinned ix e" if "(c, n) \<in> set vs" for c n
    using that candidates_in [OF _ ok, of c n "sa_conv a"] by (auto simp: vs dest: in_set_takeD)
  show "set (map fst vs) \<subseteq> set (od_keys (pi_by_conv ix))"
    using in_vs by (force dest: od_get_key)
qed

lemma store_raises:
  "check_tail ix a = Inl e \<Longrightarrow> store a ix = (Inl e, ix)"
  "check_tail ix a = Inr () \<Longrightarrow> check_owner ix a = Inl e \<Longrightarrow> store a ix = (Inl e, ix)"
  "check_tail ix a = Inr () \<Longrightarrow> check_owner ix a = Inr () \<Longrightarrow> store_plan ix a = Inl e
     \<Longrightarrow> store a ix = (Inl e, ix)"
  by (simp_all add: store_def act_simps evict_until_def store_plan_def)

lemma store_run:
  assumes wf: "index_wf ix" and check: "check_tail ix a = Inr ()" and own: "check_owner ix a = Inr ()"
    and plan: "store_plan ix a = Inr vs"
  shows "\<exists>ix' rel. store a ix = (Inr \<lparr>sr_record = length (pi_objs ix), sr_evicted = map fst vs,
             sr_released = rel\<rparr>, ix') \<and> stored_view a (map fst vs) ix ix'
           \<and> set rel = (\<Union>c \<in> set (map fst vs). keys_of ix c)
               \<union> (keys_of ix (sa_conv a) - (set (sa_full a) \<union> set (sa_tail_only a)))"
proof -
  let ?c = "sa_conv a" and ?cs = "map fst vs"
  have ok: "od_ok (pi_by_conv ix)" using wf by (simp add: index_wf_def convs_ok_def)
  note keys = plan_keys [OF ok plan]
  have c: "?c \<notin> set ?cs" using keys(3) by force
  obtain i1 where run: "drop_convs ?cs ix = (Inr (concat (map (full_keys_of ix) ?cs)), i1)"
    and view: "dropped_view ?cs ix i1" using drop_convs_run [OF wf keys(1,2)] by blast
  have wf1: "index_wf i1" and objs1: "pi_objs i1 = pi_objs ix" and tails1:
    "\<And>k r. pi_by_tail i1 k = Some r \<Longrightarrow> pi_by_tail ix k = Some r" and
    conv1: "pi_by_conv i1 = filter (\<lambda>p. fst p \<notin> set ?cs) (pi_by_conv ix)"
    using view unfolding dropped_view_def by blast+
  have block1: "pi_block i1 = pi_block ix" "pi_budget i1 = pi_budget ix"
    using view by (simp_all add: dropped_view_def)
  have check1: "check_tail i1 a = Inr ()" using check by (simp add: check_tail_def block1)
  have o1: "obj i1 r = obj ix r" for r by (simp add: obj_def objs1)
  have "tr_conv (obj i1 r) = ?c" if "pi_by_tail i1 (sa_key a) = Some r" for r
    using own tails1 [OF that] by (simp add: check_owner_def o1 raise_if_def split: if_splits)
  from stored_index_view [OF wf1 check1 this] have sv: "stored_view a [] i1 (stored_index a i1)" .
  have e1: "entry_or_new i1 ?c = entry_or_new ix ?c"
    using c by (simp add: entry_or_new_def conv1 od_get_filter_notin)
  have view': "stored_view a ?cs ix (stored_index a i1)"
    using sv view by (auto simp: stored_view_def dropped_view_def obj_def e1 conj_commute)
  let ?new = "ls_union (ls_of (sa_full a)) (sa_tail_only a)"
  let ?rel = "concat (map (full_keys_of ix) ?cs)
     @ filter (\<lambda>k. k \<notin> set ?new) (ce_full_keys (entry_or_new i1 ?c))"
  have st: "store a ix = (Inr \<lparr>sr_record = length (pi_objs ix), sr_evicted = ?cs, sr_released = ?rel\<rparr>,
      stored_index a i1)"
    using check own plan run
    by (simp add: store_def act_simps evict_until_def store_plan_def touch_entry_run Let_def
        stored_index_def objs1)
  have "set ?rel = (\<Union>c \<in> set ?cs. keys_of ix c)
     \<union> (keys_of ix ?c - (set (sa_full a) \<union> set (sa_tail_only a)))"
    by (auto simp: e1 set_full_keys_of set_entry_keys)
  with st view' show ?thesis by blast
qed

text \<open>The bounds after a store do not depend on the bounds before it.\<close>

lemma store_bounds:
  assumes wf: "index_wf ix" and plan: "store_plan ix a = Inr vs"
    and view: "stored_view a (map fst vs) ix ix'"
  shows "index_len ix' \<le> pi_slots ix" and "index_used_bytes ix' \<le> pi_budget ix"
proof -
  let ?c = "sa_conv a" and ?cs = "map fst vs" and ?d = "pi_by_conv ix"
  have ok: "od_ok ?d" using wf by (simp add: index_wf_def convs_ok_def)
  note keys = plan_keys [OF ok plan]
  have c: "?c \<notin> set ?cs" using keys(3) by force
  obtain m where vs: "vs = take m (candidates ix ?c)" "m \<le> length (candidates ix ?c)" and fits: "\<not> plan_over ix a m"
    using store_plan_spec [OF ok, of a] plan by auto
  have len: "length vs = m" using vs by simp
  define f where "f = filter (\<lambda>p. fst p \<notin> set ?cs) ?d"
  have okf: "od_ok f"
    using ok by (simp add: f_def od_ok_filter)
  have getf: "od_get f ?c = od_get ?d ?c"
    using c by (simp add: f_def od_get_filter_notin)
  have del: "filter (\<lambda>p. fst p \<notin> insert ?c (set ?cs)) ?d = od_del ?c f"
    by (simp add: f_def od_del_def conj_commute)
  obtain e where e: "ce_nbytes e = sa_nbytes a" and conv': "pi_by_conv ix' = od_del ?c f @ [(?c, e)]"
    using view unfolding stored_view_def del by (metis conv_entry.select_convs(4))
  have sumf: "od_sum ce_nbytes f = index_used_bytes ix - (\<Sum>v\<leftarrow>vs. snd v)"
  proof -
    have "(case od_get ?d (fst v) of None \<Rightarrow> 0 | Some e \<Rightarrow> ce_nbytes e) = snd v" if "v \<in> set vs" for v
      using keys(3) [of "fst v" "snd v"] that by auto
    then have "map (\<lambda>k. case od_get ?d k of None \<Rightarrow> 0 | Some v \<Rightarrow> ce_nbytes v) ?cs = map snd vs" by simp
    then show ?thesis using od_sum_filter [OF ok keys(1), of ce_nbytes]
      by (simp only: f_def index_used_bytes_def)
  qed
  have "index_used_bytes ix' = plan_others ix a - (\<Sum>v\<leftarrow>vs. snd v) + sa_nbytes a"
    using od_sum_del [OF okf, of ce_nbytes ?c]
    by (simp add: index_used_bytes_def [of ix'] conv' e getf plan_others_def sumf)
  with fits show "index_used_bytes ix' \<le> pi_budget ix"
    by (simp add: plan_over_def overfull_def vs(1))
  have lf: "int (length f) = index_len ix - int m"
    using length_filter_keys [OF ok keys(1,2)] by (simp add: f_def index_len_def len)
  have "index_len ix' = plan_count ix a - int m"
  proof (cases "?c \<in> set (od_keys ?d)")
    case True
    then have "?c \<in> set (od_keys f)" using c
      by (simp add: f_def set_keys_filter_notin)
    with True show ?thesis using length_od_del [OF okf, of ?c] lf
      by (simp add: index_len_def [of ix'] conv' plan_count_def)
  next
    case False
    then have "od_del ?c f = f"
      by (intro od_del_absent) (simp add: f_def set_keys_filter_notin)
    with False show ?thesis using lf
      by (simp add: index_len_def [of ix'] conv' plan_count_def)
  qed
  with fits show "index_len ix' \<le> pi_slots ix" by (simp add: plan_over_def overfull_def)
qed

end
