(* ===== verification/Park_Index_Thms.thy ===== *)
theory Park_Index_Thms
  imports Park_Index_Inv
begin

text \<open>
  Lookups of the conversation index against their declarative specification, the remaining
  operations, the runs of all of them, and the properties of the index.
\<close>

section \<open>Pins and running marks\<close>

lemma add_pin_frame [simp]:
  "pi_by_conv (add_pin r d ix) = pi_by_conv ix" "pi_by_parent (add_pin r d ix) = pi_by_parent ix"
  "pi_by_tail (add_pin r d ix) = pi_by_tail ix" "pi_slots (add_pin r d ix) = pi_slots ix"
  "pi_budget (add_pin r d ix) = pi_budget ix" "pi_block (add_pin r d ix) = pi_block ix"
  "pi_running (add_pin r d ix) = pi_running ix" "length (pi_objs (add_pin r d ix)) = length (pi_objs ix)"
  by (simp_all add: add_pin_def)

lemma obj_add_pin:
  "obj (add_pin r d ix) q =
     (if q = r \<and> r < length (pi_objs ix) then (obj ix r)\<lparr>tr_pinned := tr_pinned (obj ix r) + d\<rparr>
      else obj ix q)"
  by (cases "r < length (pi_objs ix)")
     (simp_all add: add_pin_def obj_def nth_list_update list_update_beyond)

lemma obj_add_pin_fields [simp]:
  "tr_key (obj (add_pin r d ix) q) = tr_key (obj ix q)"
  "tr_conv (obj (add_pin r d ix) q) = tr_conv (obj ix q)"
  "tr_end (obj (add_pin r d ix) q) = tr_end (obj ix q)"
  "parent_hash (obj (add_pin r d ix) q) = parent_hash (obj ix q)"
  "tail_ids (obj (add_pin r d ix) q) = tail_ids (obj ix q)"
  by (simp_all add: obj_add_pin parent_hash_def tail_ids_def)

lemma linked_add_pin [simp]: "linked (add_pin r d ix) q = linked ix q"
  by (simp add: linked_def)

lemma add_pin_wf [simp]: "index_wf (add_pin r d ix) = index_wf ix"
  by (simp add: wf_defs tail_wf_def)

lemma running_wf [simp]: "index_wf (ix\<lparr>pi_running := s\<rparr>) = index_wf ix"
  using linked_cong [of "ix\<lparr>pi_running := s\<rparr>" ix] by (simp add: wf_defs obj_def)

section \<open>Touching a conversation\<close>

lemma touch_conv_run:
  assumes wf: "index_wf ix" and c: "c \<in> set (od_keys (pi_by_conv ix))"
  shows "\<exists>d. touch_conv c ix = (Inr (), ix\<lparr>pi_by_conv := d\<rparr>) \<and> od_to_end c (pi_by_conv ix) = Inr d"
  using od.to_end_ok [OF c] by (auto simp: touch_conv_def act_simps)

lemma touch_wf:
  assumes wf: "index_wf ix" and d: "od_to_end c (pi_by_conv ix) = Inr d"
  shows "index_wf (ix\<lparr>pi_by_conv := d\<rparr>)" and "index_len (ix\<lparr>pi_by_conv := d\<rparr>) = index_len ix"
    and "index_used_bytes (ix\<lparr>pi_by_conv := d\<rparr>) = index_used_bytes ix"
proof -
  let ?i = "ix\<lparr>pi_by_conv := d\<rparr>"
  have ok: "od_ok (pi_by_conv ix)" using wf by (simp add: index_wf_def convs_ok_def)
  have l: "linked ?i = linked ix" by (rule linked_cong) simp_all
  have o: "obj ?i q = obj ix q" for q by (simp add: obj_def)
  show "index_wf ?i"
    using wf od_to_end_ok [OF d ok] by (simp add: wf_defs l o od_to_end_get [OF d])
  show "index_len ?i = index_len ix" using length_od_to_end [OF ok d] by (simp add: index_len_def)
  show "index_used_bytes ?i = index_used_bytes ix"
    using od_sum_to_end [OF ok d] by (simp add: index_used_bytes_def)
qed

lemma owned_key: "index_wf ix \<Longrightarrow> linked ix r \<Longrightarrow> tr_conv (obj ix r) \<in> set (od_keys (pi_by_conv ix))"
  unfolding index_wf_def owned_ok_def by (metis od_get_key)

section \<open>find\<close>

text \<open>
  The specification of a hit, independent of the search: the record's tail sits on some block
  boundary \<open>k * block\<close> whose hash is the record's parent, its tokens are the prompt's tokens there,
  and it ends strictly inside the prompt.
\<close>

definition parent_at :: "bytes list \<Rightarrow> nat \<Rightarrow> bytes option" where
  "parent_at hashes k = (if k = 0 then None else Some (hashes ! (k - 1)))"

definition strict_tail :: "park_index \<Rightarrow> int list \<Rightarrow> bytes list \<Rightarrow> int \<Rightarrow> rid \<Rightarrow> bool" where
  "strict_tail ix token_ids hashes n r = (\<exists>k \<le> length hashes.
     parent_hash (obj ix r) = parent_at hashes k
     \<and> tr_end (obj ix r) = int k * pi_block ix + int (length (tail_ids (obj ix r)))
     \<and> 0 < tr_end (obj ix r) \<and> tr_end (obj ix r) < n
     \<and> py_slice token_ids (int k * pi_block ix) (tr_end (obj ix r)) = tail_ids (obj ix r))"

lemma bucket_linked:
  assumes b: "buckets_ok ix"
  shows "r \<in> set (bucket ix hashes k) \<longleftrightarrow> linked ix r \<and> parent_hash (obj ix r) = parent_at hashes k"
proof (cases "pi_by_parent ix (parent_at hashes k)")
  case None
  then show ?thesis by (auto simp: bucket_def Let_def parent_at_def [symmetric] linked_def)
next
  case (Some rs)
  then have "bucket ix hashes k = rs" by (simp add: bucket_def Let_def parent_at_def [symmetric])
  then show ?thesis using buckets_okD [OF b Some, of r] Some by (auto simp: linked_def)
qed

lemma tail_matches_iff:
  "tail_matches ix ids n prefix r \<longleftrightarrow>
     tr_end (obj ix r) = prefix + int (length (tail_ids (obj ix r)))
     \<and> 0 < tr_end (obj ix r) \<and> tr_end (obj ix r) < n
     \<and> py_slice ids prefix (tr_end (obj ix r)) = tail_ids (obj ix r)"
  by (auto simp: tail_matches_def Let_def)

lemma scan_bucket_spec:
  "case scan_bucket ix ids n prefix rs best of
     None \<Rightarrow> best = None \<and> (\<forall>r \<in> set rs. \<not> tail_matches ix ids n prefix r)
   | Some x \<Rightarrow> (best = Some x \<or> x \<in> set rs \<and> tail_matches ix ids n prefix x)
       \<and> (\<forall>b. best = Some b \<longrightarrow> tr_end (obj ix b) \<le> tr_end (obj ix x))
       \<and> (\<forall>r \<in> set rs. tail_matches ix ids n prefix r \<longrightarrow> tr_end (obj ix r) \<le> tr_end (obj ix x))"
proof (induction rs arbitrary: best)
  case Nil
  then show ?case by (simp split: option.splits)
next
  case (Cons r rs)
  show ?case
    using Cons.IH [where best = "if \<not> tail_matches ix ids n prefix r then best
        else (case best of None \<Rightarrow> Some r
              | Some b \<Rightarrow> if tr_end (obj ix r) > tr_end (obj ix b) then Some r else best)"]
    by (auto split: option.splits if_splits)
qed

text \<open>A match of a linked record lies inside its block, so matches at a higher block end later.\<close>

lemma match_in_block:
  assumes "index_wf ix" and "linked ix r" and "tail_matches ix ids n (int k * pi_block ix) r"
  shows "int k * pi_block ix \<le> tr_end (obj ix r)" and "tr_end (obj ix r) < (int k + 1) * pi_block ix"
proof -
  have "tail_wf (pi_block ix) (obj ix r)" using assms(1,2) by (simp add: index_wf_def links_ok_def)
  then show "int k * pi_block ix \<le> tr_end (obj ix r)" "tr_end (obj ix r) < (int k + 1) * pi_block ix"
    using assms(3) by (auto simp: tail_matches_iff tail_wf_def algebra_simps)
qed

lemma find_loop_spec:
  assumes wf: "index_wf ix"
  shows "case find_loop ix ids hashes n k None of
     None \<Rightarrow> \<forall>j \<le> k. \<forall>r \<in> set (bucket ix hashes j). \<not> tail_matches ix ids n (int j * pi_block ix) r
   | Some x \<Rightarrow> (\<exists>j \<le> k. x \<in> set (bucket ix hashes j) \<and> tail_matches ix ids n (int j * pi_block ix) x)
       \<and> (\<forall>j \<le> k. \<forall>r \<in> set (bucket ix hashes j). tail_matches ix ids n (int j * pi_block ix) r
             \<longrightarrow> tr_end (obj ix r) \<le> tr_end (obj ix x))"
proof (induction k)
  case 0
  show ?case
    using scan_bucket_spec [where ix = ix and ids = ids and n = n and prefix = 0
        and rs = "bucket ix hashes 0" and best = None]
    by (auto simp: find_loop.simps [of ix ids hashes n 0] Let_def split: option.splits)
next
  case (Suc k)
  let ?p = "int (Suc k) * pi_block ix"
  let ?s = "scan_bucket ix ids n ?p (bucket ix hashes (Suc k)) None"
  have b: "buckets_ok ix" using wf by (simp add: index_wf_def)
  show ?case
  proof (cases ?s)
    case None
    have no: "\<forall>r \<in> set (bucket ix hashes (Suc k)). \<not> tail_matches ix ids n ?p r"
      using scan_bucket_spec [where ix = ix and ids = ids and n = n and prefix = ?p
        and rs = "bucket ix hashes (Suc k)" and best = None] None by simp
    have "find_loop ix ids hashes n (Suc k) None = find_loop ix ids hashes n k None"
      using None by (subst find_loop.simps) (simp add: Let_def)
    then show ?thesis using Suc.IH no
      by (auto simp: le_Suc_eq split: option.splits)
  next
    case (Some x)
    have x: "x \<in> set (bucket ix hashes (Suc k))" "tail_matches ix ids n ?p x"
      and top: "\<forall>r \<in> set (bucket ix hashes (Suc k)). tail_matches ix ids n ?p r
                  \<longrightarrow> tr_end (obj ix r) \<le> tr_end (obj ix x)"
      using scan_bucket_spec [where ix = ix and ids = ids and n = n and prefix = ?p
        and rs = "bucket ix hashes (Suc k)" and best = None] Some by simp_all
    have lx: "linked ix x" using x(1) b by (simp add: bucket_linked)
    note ex = match_in_block [OF wf lx x(2)]
    have res: "find_loop ix ids hashes n (Suc k) None = Some x"
      using Some ex(1) by (subst find_loop.simps) (simp add: Let_def)
    have low: "tr_end (obj ix r) \<le> tr_end (obj ix x)"
      if "j \<le> k" "r \<in> set (bucket ix hashes j)" "tail_matches ix ids n (int j * pi_block ix) r" for j r
    proof -
      have "linked ix r" using that(2) b by (simp add: bucket_linked)
      from match_in_block(2) [OF wf this that(3)]
      have "tr_end (obj ix r) < (int j + 1) * pi_block ix" .
      also have "\<dots> \<le> ?p"
        using that(1) wf by (intro mult_right_mono) (auto simp: index_wf_def)
      finally show ?thesis using ex(1) by simp
    qed
    show ?thesis using x top low by (auto simp: res le_Suc_eq intro: exI [of _ "Suc k"])
  qed
qed

lemma strict_tail_iff:
  assumes wf: "index_wf ix" and n: "0 \<le> n" and r: "linked ix r"
  shows "strict_tail ix ids hashes n r \<longleftrightarrow>
     (\<exists>j \<le> nat (min (int (length hashes)) (n div pi_block ix)).
        r \<in> set (bucket ix hashes j) \<and> tail_matches ix ids n (int j * pi_block ix) r)"
proof -
  have b: "buckets_ok ix" and B: "0 < pi_block ix" using wf by (simp_all add: index_wf_def)
  let ?m = "nat (min (int (length hashes)) (n div pi_block ix))"
  have up: "j \<le> ?m"
    if "j \<le> length hashes" "int j * pi_block ix \<le> tr_end (obj ix r)" "tr_end (obj ix r) < n" for j
  proof -
    have "int j \<le> n div pi_block ix" using that B by (simp add: le_int_div_iff)
    then show ?thesis using that(1) by linarith
  qed
  have down: "j \<le> length hashes" if "j \<le> ?m" for j
    using that by linarith
  have step: "r \<in> set (bucket ix hashes j) \<and> tail_matches ix ids n (int j * pi_block ix) r \<longleftrightarrow>
      parent_hash (obj ix r) = parent_at hashes j
      \<and> tr_end (obj ix r) = int j * pi_block ix + int (length (tail_ids (obj ix r)))
      \<and> 0 < tr_end (obj ix r) \<and> tr_end (obj ix r) < n
      \<and> py_slice ids (int j * pi_block ix) (tr_end (obj ix r)) = tail_ids (obj ix r)" for j
    using r by (simp add: bucket_linked [OF b] tail_matches_iff)
  show ?thesis
  proof
    assume "strict_tail ix ids hashes n r"
    then obtain j where j: "j \<le> length hashes"
        "r \<in> set (bucket ix hashes j) \<and> tail_matches ix ids n (int j * pi_block ix) r"
      unfolding strict_tail_def step [symmetric] by blast
    moreover from this have "j \<le> ?m" by (intro up) (simp_all add: tail_matches_iff)
    ultimately show "\<exists>j \<le> ?m. r \<in> set (bucket ix hashes j) \<and> tail_matches ix ids n (int j * pi_block ix) r"
      by blast
  next
    assume "\<exists>j \<le> ?m. r \<in> set (bucket ix hashes j) \<and> tail_matches ix ids n (int j * pi_block ix) r"
    then show "strict_tail ix ids hashes n r"
      unfolding strict_tail_def step [symmetric] using down by blast
  qed
qed

lemma index_find_run:
  assumes wf: "index_wf ix" and n: "0 \<le> n" "n \<le> int (length ids)"
  shows "\<exists>ro ix'. index_find ids hashes n ix = (Inr ro, ix') \<and> index_wf ix'
     \<and> (case ro of
          None \<Rightarrow> ix' = ix \<and> (\<forall>r. linked ix r \<longrightarrow> \<not> strict_tail ix ids hashes n r)
        | Some r \<Rightarrow> linked ix r \<and> strict_tail ix ids hashes n r
            \<and> (\<forall>q. linked ix q \<longrightarrow> strict_tail ix ids hashes n q \<longrightarrow> tr_end (obj ix q) \<le> tr_end (obj ix r))
            \<and> (\<exists>d. od_to_end (tr_conv (obj ix r)) (pi_by_conv ix) = Inr d \<and> ix' = ix\<lparr>pi_by_conv := d\<rparr>))"
proof -
  let ?k = "nat (min (int (length hashes)) (n div pi_block ix))"
  let ?f = "find_loop ix ids hashes n ?k None"
  have b: "buckets_ok ix" using wf by (simp add: index_wf_def)
  note spec = find_loop_spec [OF wf, where ids = ids and hashes = hashes and n = n and k = ?k]
  note iff = strict_tail_iff [OF wf n(1), of _ ids hashes]
  show ?thesis
  proof (cases ?f)
    case None
    with spec have "\<forall>r. linked ix r \<longrightarrow> \<not> strict_tail ix ids hashes n r" by (auto simp: iff)
    then show ?thesis using None n wf
      by (auto simp: index_find_def act_simps bindR_raise_if raise_if_def Let_def)
  next
    case (Some r)
    with spec obtain j where j: "j \<le> ?k" "r \<in> set (bucket ix hashes j)"
      "tail_matches ix ids n (int j * pi_block ix) r" by auto
    then have lr: "linked ix r" by (simp add: bucket_linked [OF b])
    have hit: "strict_tail ix ids hashes n r" using iff [OF lr] j by blast
    have best: "tr_end (obj ix q) \<le> tr_end (obj ix r)"
      if "linked ix q" "strict_tail ix ids hashes n q" for q
      using spec Some iff [OF that(1)] that(2) by auto
    obtain d where d: "touch_conv (tr_conv (obj ix r)) ix = (Inr (), ix\<lparr>pi_by_conv := d\<rparr>)"
      "od_to_end (tr_conv (obj ix r)) (pi_by_conv ix) = Inr d"
      using touch_conv_run [OF wf owned_key [OF wf lr]] by blast
    have "index_find ids hashes n ix = (Inr (Some r), ix\<lparr>pi_by_conv := d\<rparr>)"
      using Some n d(1) by (simp add: index_find_def act_simps bindR_raise_if raise_if_def Let_def)
    then show ?thesis using touch_wf(1) [OF wf d(2)] lr hit best d(2) by auto
  qed
qed

section \<open>lookup_key\<close>

lemma lookup_key_run:
  assumes wf: "index_wf ix"
  shows "\<exists>ro ix'. lookup_key parent tail n ix = (Inr ro, ix') \<and> index_wf ix'
     \<and> (case ro of
          None \<Rightarrow> ix' = ix \<and> (\<forall>r. pi_by_tail ix (parent, tail) = Some r \<longrightarrow> n \<le> tr_end (obj ix r))
        | Some r \<Rightarrow> pi_by_tail ix (parent, tail) = Some r \<and> linked ix r \<and> tr_end (obj ix r) < n
            \<and> (\<exists>d. od_to_end (tr_conv (obj ix r)) (pi_by_conv ix) = Inr d \<and> ix' = ix\<lparr>pi_by_conv := d\<rparr>))"
proof (cases "pi_by_tail ix (parent, tail)")
  case None
  then show ?thesis using wf by (simp add: lookup_key_def act_simps)
next
  case (Some r)
  have links: "links_ok ix" using wf by (simp add: index_wf_def)
  from links_okD [OF links Some] have lr: "linked ix r" by simp
  then have pos: "0 < tr_end (obj ix r)" using links by (simp add: links_ok_def tail_wf_def)
  obtain d where d: "touch_conv (tr_conv (obj ix r)) ix = (Inr (), ix\<lparr>pi_by_conv := d\<rparr>)"
      "od_to_end (tr_conv (obj ix r)) (pi_by_conv ix) = Inr d"
    using touch_conv_run [OF wf owned_key [OF wf lr]] by blast
  show ?thesis
    using Some pos lr wf d touch_wf(1) [OF wf d(2)] by (auto simp: lookup_key_def act_simps)
qed

section \<open>discard\<close>

lemma discard_wf:
  assumes wf: "index_wf ix"
  shows "index_wf (snd (discard key ix))" and "index_len (snd (discard key ix)) \<le> index_len ix"
proof -
  have "index_wf (snd (discard key ix)) \<and> index_len (snd (discard key ix)) \<le> index_len ix"
  proof (cases "pi_by_tail ix key")
    case None
    then show ?thesis using wf by (simp add: discard_def act_simps)
  next
    case (Some r)
    let ?c = "tr_conv (obj ix r)" and ?u = "unlink_record r ix"
    have parts: "buckets_ok ix" "links_ok ix" "convs_ok ix" "owned_ok ix" using wf by (simp_all add: index_wf_def)
    from links_okD [OF parts(2) Some] have lr: "linked ix r" by simp
    then obtain e where e: "od_get (pi_by_conv ix) ?c = Some e" using parts(4) by (auto simp: owned_ok_def)
    have only: "tr_conv (obj ix q) \<noteq> ?c" if "linked ?u q" for q
      using that lr parts(2) by (auto simp: unlink_linked links_ok_def)
    have upd: "index_wf (?u\<lparr>pi_by_conv := d\<rparr>)"
      if ok: "convs_ok (?u\<lparr>pi_by_conv := d\<rparr>)" and get: "\<And>c. c \<noteq> ?c \<Longrightarrow> od_get d c = od_get (pi_by_conv ix) c" for d
    proof -
      let ?d = "?u\<lparr>pi_by_conv := d\<rparr>"
      have l: "linked ?d = linked ?u" by (rule linked_cong) simp_all
      have o: "obj ?d q = obj ix q" for q by (simp add: obj_def)
      have "buckets_ok ?d" using unlink_buckets [OF parts(1), of r] buckets_cong [of ?d ?u] by simp
      moreover have "links_ok ?d" using unlink_links [OF parts(2), of r] links_cong [of ?d ?u] by simp
      moreover have "owned_ok ?d"
        using parts(4) only by (auto simp: owned_ok_def l o get unlink_linked)
      ultimately show ?thesis using ok wf by (simp add: index_wf_def)
    qed
    have del: "index_wf (?u\<lparr>pi_by_conv := od_del ?c (pi_by_conv ix)\<rparr>)"
      by (rule upd) (use parts(3) in \<open>auto simp: convs_ok_def od_ok_del od_get_del obj_def\<close>)
    have put: "index_wf (?u\<lparr>pi_by_conv := od_put ?c
        (e\<lparr>ce_records := filter (\<lambda>q. q \<noteq> r) (ce_records e), ce_full_keys := ks, ce_nbytes := n\<rparr>) (pi_by_conv ix)\<rparr>)" for ks n
      by (rule upd) (use parts(3) e in \<open>auto simp: convs_ok_def od_ok_put od_get_put obj_def\<close>)
    have "\<not> tr_pinned (obj ix r) > 0 \<Longrightarrow> snd (discard key ix) =
       (if filter (\<lambda>q. q \<noteq> r) (ce_records e) = [] then ?u\<lparr>pi_by_conv := od_del ?c (pi_by_conv ix)\<rparr>
        else let rs = filter (\<lambda>q. q \<noteq> r) (ce_records e) in ?u\<lparr>pi_by_conv := od_put ?c
          (e\<lparr>ce_records := rs, ce_full_keys := fold (\<lambda>q ks. ls_union (ls_union ks (tr_full_keys (obj ix q)))
               (tr_tail_only (obj ix q))) rs [], ce_nbytes := (\<Sum>q\<leftarrow>rs. tr_nbytes (obj ix q))\<rparr>) (pi_by_conv ix)\<rparr>)"
      using Some e by (simp add: discard_def act_simps Let_def)
    moreover have "tr_pinned (obj ix r) > 0 \<Longrightarrow> snd (discard key ix) = ix"
      using Some by (simp add: discard_def act_simps)
    moreover have "?c \<in> set (od_keys (pi_by_conv ix))" using e by (rule od_get_key)
    ultimately show ?thesis
      using del put wf by (cases "tr_pinned (obj ix r) > 0")
        (auto simp: Let_def index_len_def length_od_put length_od_del_le)
  qed
  then show "index_wf (snd (discard key ix))" "index_len (snd (discard key ix)) \<le> index_len ix" by auto
qed

end
