(* ===== verification/Park_Index_Props.thy ===== *)
theory Park_Index_Props
  imports Park_Index_Thms
begin

text \<open>
  The operations of the conversation index as one step function, runs of them, and the properties of
  the index: its bounds, what a store evicts and releases, what a refused store leaves, what a lookup
  finds, and the two behaviours of \<open>discard\<close> after a superseding store.
\<close>

section \<open>Outcomes of a store\<close>

lemma store_outcome:
  assumes wf: "index_wf ix"
  obtains (refused) e where "store a ix = (Inl e, ix)"
      and "check_tail ix a = Inl e \<or> check_owner ix a = Inl e \<or> store_plan ix a = Inl e"
    | (stored) vs rel ix' where "check_tail ix a = Inr ()" "check_owner ix a = Inr ()" "store_plan ix a = Inr vs"
      and "store a ix = (Inr \<lparr>sr_record = length (pi_objs ix), sr_evicted = map fst vs, sr_released = rel\<rparr>, ix')"
      and "stored_view a (map fst vs) ix ix'"
      and "set rel = (\<Union>c \<in> set (map fst vs). keys_of ix c)
             \<union> (keys_of ix (sa_conv a) - (set (sa_full a) \<union> set (sa_tail_only a)))"
proof (cases "check_tail ix a")
  case (Inl e)
  then show thesis using refused [of e] store_raises(1) [OF Inl] by simp
next
  case check: (Inr u)
  show thesis
  proof (cases "check_owner ix a")
    case (Inl e)
    then show thesis using refused [of e] store_raises(2) [of ix a e] check by simp
  next
    case own: (Inr v)
    show thesis
    proof (cases "store_plan ix a")
      case (Inl e)
      then show thesis using refused [of e] store_raises(3) [of ix a e] check own by simp
    next
      case (Inr vs)
      then show thesis using store_run [OF wf, of a vs] check own stored [of vs] by force
    qed
  qed
qed

lemma store_success:
  assumes wf: "index_wf ix" and run: "store a ix = (Inr res, ix')"
  obtains vs where "check_tail ix a = Inr ()" "store_plan ix a = Inr vs" "sr_record res = length (pi_objs ix)"
    "sr_evicted res = map fst vs" "stored_view a (map fst vs) ix ix'"
    "set (sr_released res) = (\<Union>c \<in> set (map fst vs). keys_of ix c)
       \<union> (keys_of ix (sa_conv a) - (set (sa_full a) \<union> set (sa_tail_only a)))"
  using wf
proof (cases rule: store_outcome [of ix a])
  case (refused e)
  with run show thesis by simp
next
  case (stored vs rel jx)
  with run show thesis by (intro that [of vs]) auto
qed

section \<open>Runs\<close>

datatype index_op =
    IStore store_args
  | ILookup "bytes option" "int list" int
  | IFind "int list" "bytes list" int
  | IPin rid
  | IUnpin rid
  | IRunning bytes bool
  | IDiscard tail_key

fun index_step :: "index_op \<Rightarrow> (park_index, unit) act" where
  "index_step (IStore a) = bindA (store a) (\<lambda>_. retA ())"
| "index_step (ILookup p t n) = bindA (lookup_key p t n) (\<lambda>_. retA ())"
| "index_step (IFind ids hs n) = bindA (index_find ids hs n) (\<lambda>_. retA ())"
| "index_step (IPin r) = pin r"
| "index_step (IUnpin r) = unpin r"
| "index_step (IRunning c b) = set_running c b"
| "index_step (IDiscard k) = discard k"

lemma index_find_keeps:
  assumes wf: "index_wf ix"
  shows "index_wf (snd (index_find ids hs n ix)) \<and> index_len (snd (index_find ids hs n ix)) = index_len ix"
proof (cases "0 \<le> n \<and> n \<le> int (length ids)")
  case False
  then show ?thesis using wf by (auto simp: index_find_def act_simps bindR_raise_if raise_if_def)
next
  case True
  then obtain ro ix' where run: "index_find ids hs n ix = (Inr ro, ix')" and wf': "index_wf ix'"
    and ro: "case ro of None \<Rightarrow> ix' = ix
        | Some r \<Rightarrow> \<exists>d. od_to_end (tr_conv (obj ix r)) (pi_by_conv ix) = Inr d \<and> ix' = ix\<lparr>pi_by_conv := d\<rparr>"
    using index_find_run [OF wf, of n ids hs] by (fastforce split: option.splits)
  then have "index_len ix' = index_len ix"
    using touch_wf(2) [OF wf] by (auto split: option.splits)
  with run wf' show ?thesis by simp
qed

lemma lookup_key_keeps:
  assumes wf: "index_wf ix"
  shows "index_wf (snd (lookup_key p t n ix)) \<and> index_len (snd (lookup_key p t n ix)) = index_len ix"
proof -
  obtain ro ix' where run: "lookup_key p t n ix = (Inr ro, ix')" and wf': "index_wf ix'"
    and ro: "case ro of None \<Rightarrow> ix' = ix
        | Some r \<Rightarrow> \<exists>d. od_to_end (tr_conv (obj ix r)) (pi_by_conv ix) = Inr d \<and> ix' = ix\<lparr>pi_by_conv := d\<rparr>"
    using lookup_key_run [OF wf, of p t n] by (fastforce split: option.splits)
  then have "index_len ix' = index_len ix"
    using touch_wf(2) [OF wf] by (auto split: option.splits)
  with run wf' show ?thesis by simp
qed

text \<open>The invariant of a run: the links agree and the count is within the slots.\<close>

definition index_ok :: "park_index \<Rightarrow> bool" where
  "index_ok ix \<longleftrightarrow> index_wf ix \<and> index_len ix \<le> pi_slots ix"

lemma slots_kept: "keepsA pi_slots (index_step x)"
proof -
  have [keeps_intros]: "keepsA pi_slots (drop_convs cs)" for cs
    by (induction cs) (auto intro!: keeps_intros simp: drop_conv_def)
  show ?thesis
    by (cases x)
       (auto intro!: keeps_intros simp: store_def evict_until_def touch_entry_def lookup_key_def
          touch_conv_def index_find_def pin_def unpin_def set_running_def discard_def Let_def)
qed

lemma index_ok_store:
  assumes "index_ok ix" shows "index_ok (snd (store a ix))"
proof -
  have wf: "index_wf ix" using assms by (simp add: index_ok_def)
  then show ?thesis
  proof (cases rule: store_outcome [of ix a])
    case (refused e)
    with assms show ?thesis by simp
  next
    case (stored vs rel ix')
    then show ?thesis using store_bounds(1) [OF wf stored(3,5)]
      by (simp add: index_ok_def stored_view_def)
  qed
qed

lemma index_ok_step:
  assumes "index_ok ix" shows "index_ok (snd (index_step x ix))"
proof -
  have wf: "index_wf ix" and len: "index_len ix \<le> pi_slots ix" using assms by (simp_all add: index_ok_def)
  have sl: "pi_slots (snd (index_step x ix)) = pi_slots ix" using slots_kept by (rule keepsA_D)
  show ?thesis
  proof (cases x)
    case (IStore a)
    then show ?thesis using index_ok_store [OF assms, of a] by (simp add: snd_bindA_retA)
  next
    case (ILookup p t n)
    then show ?thesis using lookup_key_keeps [OF wf, of p t n] len sl by (simp add: snd_bindA_retA index_ok_def)
  next
    case (IFind ids hs n)
    then show ?thesis using index_find_keeps [OF wf, of ids hs n] len sl by (simp add: snd_bindA_retA index_ok_def)
  next
    case (IPin r)
    then show ?thesis using assms by (simp add: pin_def act_simps index_ok_def index_len_def)
  next
    case (IUnpin r)
    then show ?thesis using assms by (simp add: unpin_def act_simps index_ok_def index_len_def)
  next
    case (IRunning c b)
    then show ?thesis using assms by (simp add: set_running_def act_simps index_ok_def index_len_def)
  next
    case (IDiscard k)
    then show ?thesis using discard_wf [OF wf, of k] len sl by (simp add: index_ok_def)
  qed
qed

interpretation park_index: bounded_count index_step index_ok index_len pi_slots
  by unfold_locales (simp_all add: index_ok_step keepsA_D [OF slots_kept], simp add: index_ok_def)

lemma index_init_ok: "index_init slots budget block = Inr ix \<Longrightarrow> index_ok ix \<and> pi_slots ix = slots"
  by (auto simp: index_init_def bindR_raise_if index_ok_def wf_defs od_ok_def index_len_def linked_def
      split: if_splits)

text \<open>The keys a conversation holds after a store.\<close>

lemma stored_keys:
  assumes "stored_view a cs ix ix'"
  shows "keys_of ix' c = (if c = sa_conv a then set (sa_full a) \<union> set (sa_tail_only a)
      else if c \<in> set cs then {} else keys_of ix c)"
proof -
  define e where "e = \<lparr>ce_conv = sa_conv a,
     ce_records = length (pi_objs ix) # ce_records (entry_or_new ix (sa_conv a)),
     ce_full_keys = ls_union (ls_of (sa_full a)) (sa_tail_only a), ce_nbytes = sa_nbytes a\<rparr>"
  have conv: "pi_by_conv ix' = filter (\<lambda>p. fst p \<notin> insert (sa_conv a) (set cs)) (pi_by_conv ix)
         @ [(sa_conv a, e)]"
    using assms unfolding stored_view_def e_def by (elim conjE)
  have get: "od_get (pi_by_conv ix') c = (if c = sa_conv a then Some e else if c \<in> set cs then None
      else od_get (pi_by_conv ix) c)"
    unfolding conv od_get_append od_get_filter_notin
    by (cases "od_get (pi_by_conv ix) c") (simp_all add: od_get_Cons)
  then show ?thesis by (simp add: keys_of_def e_def)
qed

section \<open>The properties\<close>

text \<open>C3. Whatever operations run on a fresh index (stores, lookups, pins, running marks, discards,
  in any order, raising or not), its three structures stay consistent (every key of \<open>by_tail\<close> leads to
  a record linked under its parent, every linked record is owned by a live entry, no two linked
  records share a conversation) and it never holds more conversations than its slots.\<close>

theorem index_runs_stay_consistent:
  assumes "index_init slots budget block = Inr ix"
  shows "index_wf (run_ops index_step ops ix) \<and> index_len (run_ops index_step ops ix) \<le> slots"
  using index_init_ok [OF assms] park_index.run_ok [of ix ops] park_index.run_count [of ix ops]
  by (simp add: index_ok_def)

definition sample_store :: "bytes \<Rightarrow> int list \<Rightarrow> int \<Rightarrow> store_args" where
  "sample_store c t n = \<lparr>sa_conv = c, sa_parent = None, sa_tail = t, sa_end = int (length t), sa_full = [],
     sa_nbytes = n, sa_tail_only = [[8]], sa_slots = None\<rparr>"

definition sample_index :: park_index where
  "sample_index = \<lparr>pi_slots = 2, pi_budget = 10, pi_block = 4, pi_by_tail = (\<lambda>_. None),
     pi_by_parent = (\<lambda>_. None), pi_by_conv = [], pi_running = {}, pi_objs = []\<rparr>"

lemma sample_init: "index_init 2 10 4 = Inr sample_index"
  by (simp add: index_init_def sample_index_def bindR_raise_if)

lemma sample_wf: "index_wf sample_index"
  using index_init_ok [OF sample_init] by (simp add: index_ok_def)

text \<open>Evaluating operations on concrete indexes.\<close>

lemma plan_loop_fits: "conv_count \<le> pi_slots ix \<Longrightarrow> others + n \<le> pi_budget ix
   \<Longrightarrow> plan_loop ix c n conv_count others chosen = Inr chosen"
  by (subst plan_loop.simps) simp

lemmas store_eval = store_def act_simps check_tail_def check_owner_def evict_until_def plan_victims_def
  plan_loop_fits index_len_def index_used_bytes_def touch_entry_def unlink_all_def link_record_def
  unlink_record_def sa_key_def new_record_def parent_hash_def obj_def od_to_end_def od_del_def od_get_def
  ls_union_def ls_of_def ls_add_def sample_store_def sample_index_def Let_def bindR_raise_if raise_if_def

theorem index_runs_stay_consistent_witness:
  "index_wf (run_ops index_step [IStore (sample_store [1] [5] 6), IStore (sample_store [2] [6] 6)] sample_index)"
  using index_runs_stay_consistent [OF sample_init] by blast

text \<open>C4. A store that succeeds leaves the index within its slots and its byte budget, whatever it held
  before, and what it evicts is the shortest prefix of the evictable conversations (neither the
  incoming one, nor running, nor pinned), in least recently used order, that makes room: every shorter
  prefix still exceeds the slots or the budget.\<close>

theorem store_evicts_shortest_lru_prefix:
  assumes "index_wf ix" and "store a ix = (Inr res, ix')"
  shows "index_len ix' \<le> pi_slots ix \<and> index_used_bytes ix' \<le> pi_budget ix
     \<and> (\<exists>m \<le> length (candidates ix (sa_conv a)).
          sr_evicted res = map fst (take m (candidates ix (sa_conv a))) \<and> (\<forall>i < m. plan_over ix a i))"
proof -
  obtain vs where vs: "store_plan ix a = Inr vs" "sr_evicted res = map fst vs"
      "stored_view a (map fst vs) ix ix'"
    by (rule store_success [OF assms]) blast
  have "od_ok (pi_by_conv ix)" using assms(1) by (simp add: index_wf_def convs_ok_def)
  from store_plan_spec [OF this, of a] vs(1) obtain m
    where "m \<le> length (candidates ix (sa_conv a))" "vs = take m (candidates ix (sa_conv a))"
      "\<forall>i < m. plan_over ix a i" by auto
  with vs store_bounds [OF assms(1) vs(1,3)] show ?thesis by auto
qed

lemma sample_store_run:
  "\<exists>ix'. store (sample_store [1] [5] 6) sample_index
     = (Inr \<lparr>sr_record = 0, sr_evicted = [], sr_released = []\<rparr>, ix')"
proof -
  have "fst (store (sample_store [1] [5] 6) sample_index)
      = Inr \<lparr>sr_record = 0, sr_evicted = [], sr_released = []\<rparr>"
    by (simp add: store_eval)
  then show ?thesis by (metis prod.collapse)
qed

theorem store_evicts_shortest_lru_prefix_witness:
  "\<exists>ix'. store (sample_store [1] [5] 6) sample_index
     = (Inr \<lparr>sr_record = 0, sr_evicted = [], sr_released = []\<rparr>, ix') \<and> index_used_bytes ix' \<le> 10"
proof -
  obtain ix' where run: "store (sample_store [1] [5] 6) sample_index
      = (Inr \<lparr>sr_record = 0, sr_evicted = [], sr_released = []\<rparr>, ix')" using sample_store_run by blast
  with store_evicts_shortest_lru_prefix [OF sample_wf run] show ?thesis by (auto simp: sample_index_def)
qed

text \<open>A store releases exactly the block keys nobody holds any more: those of every evicted
  conversation, and those of the stored conversation's previous chain that the new chain and tail do
  not contain. Evicted conversations hold no key afterwards, the others keep theirs.\<close>

lemma store_releases_exactly_the_dead_keys:
  assumes "index_wf ix" and "store a ix = (Inr res, ix')"
  shows "set (sr_released res) = (\<Union>c \<in> set (sr_evicted res). keys_of ix c)
           \<union> (keys_of ix (sa_conv a) - keys_of ix' (sa_conv a))
     \<and> keys_of ix' (sa_conv a) = set (sa_full a) \<union> set (sa_tail_only a)
     \<and> (\<forall>c \<in> set (sr_evicted res). keys_of ix' c = {})
     \<and> (\<forall>c. c \<noteq> sa_conv a \<longrightarrow> c \<notin> set (sr_evicted res) \<longrightarrow> keys_of ix' c = keys_of ix c)"
proof -
  obtain vs where vs: "store_plan ix a = Inr vs" "sr_evicted res = map fst vs"
      "stored_view a (map fst vs) ix ix'" and rel: "set (sr_released res) = (\<Union>c \<in> set (map fst vs). keys_of ix c)
       \<union> (keys_of ix (sa_conv a) - (set (sa_full a) \<union> set (sa_tail_only a)))"
    by (rule store_success [OF assms]) blast
  have ok: "od_ok (pi_by_conv ix)" using assms(1) by (simp add: index_wf_def convs_ok_def)
  have c: "sa_conv a \<notin> set (map fst vs)" using plan_keys(3) [OF ok vs(1)] by force
  note keys = stored_keys [OF vs(3)]
  have new: "keys_of ix' (sa_conv a) = set (sa_full a) \<union> set (sa_tail_only a)" by (simp add: keys)
  have gone: "\<forall>c \<in> set (sr_evicted res). keys_of ix' c = {}"
  proof
    fix d assume "d \<in> set (sr_evicted res)"
    with c have "d \<in> set (map fst vs)" "d \<noteq> sa_conv a" unfolding vs(2) by blast+
    then show "keys_of ix' d = {}" by (simp only: keys if_True if_False)
  qed
  have "\<forall>d. d \<noteq> sa_conv a \<longrightarrow> d \<notin> set (sr_evicted res) \<longrightarrow> keys_of ix' d = keys_of ix d"
    unfolding vs(2) by (intro allI impI) (simp only: keys if_False)
  with gone rel show ?thesis unfolding new vs(2) by blast
qed

lemma store_releases_exactly_the_dead_keys_witness:
  "\<exists>ix'. store (sample_store [1] [5] 6) sample_index
     = (Inr \<lparr>sr_record = 0, sr_evicted = [], sr_released = []\<rparr>, ix') \<and> keys_of ix' [1] = {[8]}"
proof -
  obtain ix' where run: "store (sample_store [1] [5] 6) sample_index
      = (Inr \<lparr>sr_record = 0, sr_evicted = [], sr_released = []\<rparr>, ix')" using sample_store_run by blast
  with store_releases_exactly_the_dead_keys [OF sample_wf run] show ?thesis by (auto simp: sample_store_def)
qed

text \<open>A store that raises leaves the index untouched, and the refusal is justified: the tail is
  malformed, its key belongs to another conversation, or not even evicting every evictable conversation
  would make room.\<close>

lemma refused_store_changes_nothing:
  assumes "index_wf ix" and "store a ix = (Inl e, ix')"
  shows "ix' = ix \<and> (check_tail ix a = Inl e \<or> check_owner ix a = Inl e
     \<or> (\<forall>m \<le> length (candidates ix (sa_conv a)). plan_over ix a m))"
  using assms(1)
proof (cases rule: store_outcome [of ix a])
  case (refused e')
  have "od_ok (pi_by_conv ix)" using assms(1) by (simp add: index_wf_def convs_ok_def)
  from store_plan_spec [OF this, of a]
  have "\<forall>m \<le> length (candidates ix (sa_conv a)). plan_over ix a m" if "store_plan ix a = Inl e"
    using that by simp
  with refused assms(2) show ?thesis by auto
next
  case (stored vs rel jx)
  with assms(2) show ?thesis by simp
qed

lemma refused_store_changes_nothing_witness:
  "\<exists>e. store (sample_store [1] [5] 11) sample_index = (Inl e, sample_index)"
proof -
  let ?r = "store (sample_store [1] [5] 11) sample_index"
  have "fst ?r = Inl (ValueError ''conversation exceeds park budget'')" by (simp add: store_eval)
  then obtain e ix' where run: "?r = (Inl e, ix')" by (metis prod.collapse)
  with refused_store_changes_nothing [OF sample_wf run] show ?thesis by simp
qed

text \<open>C5. \<open>find\<close> never raises on a prompt length within the tokens. It returns a linked record whose
  tail is a strict prefix of the prompt (its tokens at its block boundary, ending before the last
  prompt token), of maximal end among all such records, and makes its conversation the most recent;
  or it returns None, and then no linked record is such a prefix and nothing changes.\<close>

theorem find_returns_longest_strict_tail:
  assumes "index_wf ix" and "0 \<le> n" and "n \<le> int (length ids)"
  shows "\<exists>ro ix'. index_find ids hashes n ix = (Inr ro, ix')
     \<and> (case ro of
          None \<Rightarrow> ix' = ix \<and> (\<forall>q. linked ix q \<longrightarrow> \<not> strict_tail ix ids hashes n q)
        | Some r \<Rightarrow> linked ix r \<and> strict_tail ix ids hashes n r
            \<and> (\<forall>q. linked ix q \<longrightarrow> strict_tail ix ids hashes n q \<longrightarrow> tr_end (obj ix q) \<le> tr_end (obj ix r))
            \<and> last (od_keys (pi_by_conv ix')) = tr_conv (obj ix r))"
proof -
  obtain ro ix' where run: "index_find ids hashes n ix = (Inr ro, ix')"
    and spec: "case ro of
          None \<Rightarrow> ix' = ix \<and> (\<forall>r. linked ix r \<longrightarrow> \<not> strict_tail ix ids hashes n r)
        | Some r \<Rightarrow> linked ix r \<and> strict_tail ix ids hashes n r
            \<and> (\<forall>q. linked ix q \<longrightarrow> strict_tail ix ids hashes n q \<longrightarrow> tr_end (obj ix q) \<le> tr_end (obj ix r))
            \<and> (\<exists>d. od_to_end (tr_conv (obj ix r)) (pi_by_conv ix) = Inr d \<and> ix' = ix\<lparr>pi_by_conv := d\<rparr>)"
    using index_find_run [OF assms, of hashes] by blast
  show ?thesis
  proof (cases ro)
    case None
    with run spec show ?thesis by simp
  next
    case (Some r)
    with spec have "last (od_keys (pi_by_conv ix')) = tr_conv (obj ix r)"
      by (auto dest: od.to_end_last)
    with Some run spec show ?thesis by auto
  qed
qed

theorem find_returns_longest_strict_tail_witness:
  "\<exists>ro ix'. index_find [5, 6, 7] [] 3 sample_index = (Inr ro, ix')"
  using find_returns_longest_strict_tail [OF sample_wf, of 3 "[5, 6, 7]" "[]"] by auto

text \<open>A stored tail is found again: the exact key returns the very record, when it ends strictly
  inside the prompt, and a prompt that continues the parked conversation (same block hash at its
  boundary, same tail tokens) hits a record at least as long.\<close>

lemma stored_tail_is_found:
  assumes wf: "index_wf ix" and run: "store a ix = (Inr res, ix')"
    and n: "sa_end a < n" "n \<le> int (length ids)"
    and k: "k \<le> length hashes" "sa_parent a = parent_at hashes k"
    and tl: "sa_end a = int k * pi_block ix + int (length (sa_tail a))"
      "py_slice ids (int k * pi_block ix) (sa_end a) = sa_tail a"
  shows "fst (lookup_key (sa_parent a) (sa_tail a) n ix') = Inr (Some (sr_record res))
     \<and> (\<exists>r. fst (index_find ids hashes n ix') = Inr (Some r) \<and> sa_end a \<le> tr_end (obj ix' r))"
proof -
  let ?r = "length (pi_objs ix)"
  obtain vs where "store_plan ix a = Inr vs" and vs: "check_tail ix a = Inr ()" "sr_record res = ?r" "stored_view a (map fst vs) ix ix'"
    by (rule store_success [OF wf run]) blast
  have pos: "0 < sa_end a" using vs(1) by (simp add: check_tail_Inr)
  have o: "obj ix' ?r = new_record a" using vs(3) by (simp add: stored_view_def obj_def)
  have wf': "index_wf ix'" and lk: "linked ix' ?r" and tail: "pi_by_tail ix' (sa_parent a, sa_tail a) = Some ?r"
    and B: "pi_block ix' = pi_block ix"
    using vs(3) by (simp_all add: stored_view_def sa_key_def)
  have "strict_tail ix' ids hashes n ?r"
    unfolding strict_tail_def by (intro exI [of _ k]) (use n k tl pos in \<open>simp add: o B\<close>)
  moreover obtain ro ix2 where "index_find ids hashes n ix' = (Inr ro, ix2)" and
    "case ro of None \<Rightarrow> \<forall>q. linked ix' q \<longrightarrow> \<not> strict_tail ix' ids hashes n q
      | Some r \<Rightarrow> \<forall>q. linked ix' q \<longrightarrow> strict_tail ix' ids hashes n q \<longrightarrow> tr_end (obj ix' q) \<le> tr_end (obj ix' r)"
    using index_find_run [OF wf', of n ids hashes] n pos by (fastforce split: option.splits)
  ultimately have "\<exists>r. fst (index_find ids hashes n ix') = Inr (Some r) \<and> sa_end a \<le> tr_end (obj ix' r)"
    using lk by (auto simp: o split: option.splits)
  moreover have "fst (lookup_key (sa_parent a) (sa_tail a) n ix') = Inr (Some ?r)"
  proof -
    obtain ro ix2 where run2: "lookup_key (sa_parent a) (sa_tail a) n ix' = (Inr ro, ix2)"
      and ro: "case ro of None \<Rightarrow> \<forall>r. pi_by_tail ix' (sa_parent a, sa_tail a) = Some r \<longrightarrow> n \<le> tr_end (obj ix' r)
        | Some r \<Rightarrow> pi_by_tail ix' (sa_parent a, sa_tail a) = Some r"
      using lookup_key_run [OF wf', of "sa_parent a" "sa_tail a" n] by (fastforce split: option.splits)
    then show ?thesis using tail n by (auto simp: o split: option.splits)
  qed
  ultimately show ?thesis using vs(2) by simp
qed

lemma stored_tail_is_found_witness:
  "\<exists>ix' r. index_find [5, 6] [] 2 ix' = (Inr (Some r), snd (index_find [5, 6] [] 2 ix')) \<and> 1 \<le> tr_end (obj ix' r)"
proof -
  obtain ix' where run: "store (sample_store [1] [5] 6) sample_index
      = (Inr \<lparr>sr_record = 0, sr_evicted = [], sr_released = []\<rparr>, ix')" using sample_store_run by blast
  have "\<exists>r. fst (index_find [5, 6] [] 2 ix') = Inr (Some r) \<and> 1 \<le> tr_end (obj ix' r)"
    using stored_tail_is_found [OF sample_wf run, of 2 "[5, 6]" 0 "[]"]
    by (simp add: sample_store_def parent_at_def py_slice_def py_bound_def sample_index_def Let_def)
  then show ?thesis by (metis prod.collapse)
qed

text \<open>A run worth recording: \<open>store\<close> unlinks the records it supersedes but leaves them in the entry's list, and \<open>discard\<close>
  recomputes the entry from that list. After three stores of one conversation under a budget of 10
  bytes, discarding the last tail leaves an entry of 17 bytes, over the budget, with no tail that a
  lookup could find, and keys an earlier store had released are held again.\<close>

lemma discard_after_supersede_overcommits:
  "let run = (\<lambda>ops. run_ops index_step ops sample_index);
       stores = [IStore (sample_store [1] [5] 8), IStore ((sample_store [1] [6] 9)\<lparr>sa_tail_only := [[9]]\<rparr>),
                 IStore ((sample_store [1] [7] 10)\<lparr>sa_tail_only := [[10]]\<rparr>)];
       before = run stores; after = run (stores @ [IDiscard (None, [7])])
   in index_used_bytes before = 10 \<and> index_used_bytes after = 17 \<and> pi_budget after = 10
      \<and> [8] \<notin> keys_of before [1] \<and> [8] \<in> keys_of after [1]
      \<and> pi_by_tail after (None, [5]) = None \<and> pi_by_tail after (None, [6]) = None
      \<and> pi_by_tail after (None, [7]) = None"
  by (simp add: store_eval discard_def keys_of_def)

end
