(* ===== verification/Conv_Policy.thy ===== *)
theory Conv_Policy
  imports Park_Index "HOL-Library.Multiset" "HOL-Library.List_Lexorder" "HOL-Library.Product_Lexorder"
begin

text \<open>
  Whole-conversation eviction, \<open>vllm/flashnext/kvoffload/policy.py\<close>. The class extends vLLM's
  \<open>LRUCachePolicy\<close>, which is not part of the repository: the fields it reads and writes directly
  (\<open>chunks\<close>, \<open>_evictable\<close>, \<open>_ranks\<close>, \<open>_heap\<close>) are state, the methods it calls
  (\<open>_is_current\<close>, \<open>_maybe_compact_heap\<close>, \<open>touch\<close>, \<open>remove\<close>) are the parameters \<open>lru_base\<close>. A chunk's
  status is opaque but for its reference count. The heap is the sorted list of its entries, one
  layout of a heap: \<open>heappop\<close> takes the least entry, \<open>heappush\<close> inserts in order.
\<close>

section \<open>State\<close>

record 'c chunk =
  ck_ref_cnt :: int
  ck_status :: 'c

record 'c policy =
  pol_chunks :: "bytes \<Rightarrow> 'c chunk option"
  pol_evictable :: "bytes set"
  pol_ranks :: "bytes \<Rightarrow> int option"
  pol_heap :: "(int \<times> bytes) list"
  pol_conv_of :: "bytes \<Rightarrow> bytes option"
  pol_conv_keys :: "bytes \<Rightarrow> bytes list option"
  pol_conv_lru :: "bytes list"

record 'c lru_base =
  lb_is_current :: "'c policy \<Rightarrow> int \<times> bytes \<Rightarrow> bool"
  lb_compact :: "'c policy \<Rightarrow> 'c policy"
  lb_touch :: "bytes list \<Rightarrow> 'c policy \<Rightarrow> 'c policy"
  lb_remove :: "bytes \<Rightarrow> 'c policy \<Rightarrow> 'c policy"

definition policy_init :: "(bytes \<Rightarrow> 'c chunk option) \<Rightarrow> bytes set \<Rightarrow> (bytes \<Rightarrow> int option) \<Rightarrow>
    (int \<times> bytes) list \<Rightarrow> 'c policy" where
  "policy_init chunks evictable ranks heap =
     \<lparr>pol_chunks = chunks, pol_evictable = evictable, pol_ranks = ranks, pol_heap = heap,
      pol_conv_of = (\<lambda>_. None), pol_conv_keys = (\<lambda>_. None), pol_conv_lru = []\<rparr>"

definition conv_keys :: "'c policy \<Rightarrow> bytes \<Rightarrow> bytes list" where
  "conv_keys p c = (case pol_conv_keys p c of None \<Rightarrow> [] | Some ks \<Rightarrow> ks)"

section \<open>Binding keys to conversations\<close>

definition unbind_key :: "bytes \<Rightarrow> 'c policy \<Rightarrow> 'c policy" where
  "unbind_key k p =
     (case pol_conv_of p k of
        None \<Rightarrow> p
      | Some c \<Rightarrow>
          let p1 = p\<lparr>pol_conv_of := (pol_conv_of p)(k := None)\<rparr> in
          case pol_conv_keys p1 c of
            None \<Rightarrow> p1
          | Some owned \<Rightarrow>
              let owned1 = ls_del k owned in
              if owned1 = []
              then p1\<lparr>pol_conv_keys := (pol_conv_keys p1)(c := None), pol_conv_lru := ls_del c (pol_conv_lru p1)\<rparr>
              else p1\<lparr>pol_conv_keys := (pol_conv_keys p1)(c := Some owned1)\<rparr>)"

definition unbind_conv :: "bytes \<Rightarrow> 'c policy \<Rightarrow> 'c policy" where
  "unbind_conv c p = fold unbind_key (conv_keys p c) p"

definition bind_key :: "bytes \<Rightarrow> bytes \<Rightarrow> 'c policy \<Rightarrow> 'c policy" where
  "bind_key c k p =
     (let p1 = (case pol_conv_of p k of
                  None \<Rightarrow> p
                | Some previous \<Rightarrow>
                    if previous \<noteq> c
                    then (case pol_conv_keys p previous of
                            None \<Rightarrow> p
                          | Some ks \<Rightarrow> p\<lparr>pol_conv_keys := (pol_conv_keys p)(previous := Some (ls_del k ks))\<rparr>)
                    else p)
      in p1\<lparr>pol_conv_of := (pol_conv_of p1)(k := Some c),
            pol_conv_keys := (pol_conv_keys p1)(c := Some (ls_add k (conv_keys p1 c)))\<rparr>)"

definition bind_keys :: "bytes \<Rightarrow> bytes list \<Rightarrow> 'c policy \<Rightarrow> 'c policy" where
  "bind_keys c keys p =
     (let p0 = p\<lparr>pol_conv_keys := (pol_conv_keys p)(c := Some (conv_keys p c))\<rparr>;
          p1 = fold (bind_key c) keys p0
      in p1\<lparr>pol_conv_lru := ls_del c (pol_conv_lru p1) @ [c]\<rparr>)"

section \<open>Removing and touching chunks\<close>

text \<open>The removal both \<open>take_evictable\<close> and \<open>evict\<close> perform on a key.\<close>

definition forget_chunk :: "bytes \<Rightarrow> 'c policy \<Rightarrow> 'c policy" where
  "forget_chunk k p = unbind_key k
     (p\<lparr>pol_evictable := pol_evictable p - {k}, pol_chunks := (pol_chunks p)(k := None),
        pol_ranks := (pol_ranks p)(k := None)\<rparr>)"

fun take_evictable :: "bytes list \<Rightarrow> 'c policy \<Rightarrow> (bytes \<times> 'c chunk) list \<times> 'c policy" where
  "take_evictable [] p = ([], p)"
| "take_evictable (k # ks) p =
     (case pol_chunks p k of
        None \<Rightarrow> take_evictable ks p
      | Some ch \<Rightarrow>
          if ck_ref_cnt ch \<noteq> 0 \<or> k \<notin> pol_evictable p then take_evictable ks p
          else (let (taken, p') = take_evictable ks (forget_chunk k p) in ((k, ch) # taken, p')))"

definition policy_remove :: "'c lru_base \<Rightarrow> bytes \<Rightarrow> 'c policy \<Rightarrow> 'c policy" where
  "policy_remove B k p = unbind_key k (lb_remove B k p)"

fun touch_convs :: "bytes list \<Rightarrow> bytes set \<Rightarrow> 'c policy \<Rightarrow> 'c policy" where
  "touch_convs [] seen p = p"
| "touch_convs (k # ks) seen p =
     (case pol_conv_of p k of
        None \<Rightarrow> touch_convs ks seen p
      | Some c \<Rightarrow>
          if c \<in> seen then touch_convs ks seen p
          else touch_convs ks (insert c seen)
                 (if c \<in> set (pol_conv_lru p) then p\<lparr>pol_conv_lru := ls_del c (pol_conv_lru p) @ [c]\<rparr> else p))"

definition policy_touch :: "'c lru_base \<Rightarrow> bytes list \<Rightarrow> 'c policy \<Rightarrow> 'c policy" where
  "policy_touch B keys p = touch_convs keys {} (lb_touch B keys p)"

section \<open>Eviction\<close>

text \<open>The loop of \<open>_conv_ready\<close>: the ready chunks, and whether the conversation is blocked.\<close>

fun ready_loop :: "'c policy \<Rightarrow> bytes set \<Rightarrow> bytes set \<Rightarrow> bytes list \<Rightarrow> (bytes \<times> 'c chunk) list \<Rightarrow>
    (bytes \<times> 'c chunk) list \<times> bool" where
  "ready_loop p protected chosen [] ready = (ready, False)"
| "ready_loop p protected chosen (k # ks) ready =
     (if k \<in> chosen then ready_loop p protected chosen ks ready
      else if k \<in> protected then ([], True)
      else case pol_chunks p k of
             None \<Rightarrow> ready_loop p protected chosen ks ready
           | Some ch \<Rightarrow>
               if ck_ref_cnt ch \<noteq> 0 \<or> k \<notin> pol_evictable p then ([], True)
               else ready_loop p protected chosen ks (ready @ [(k, ch)]))"

definition conv_ready :: "'c policy \<Rightarrow> bytes \<Rightarrow> bytes set \<Rightarrow> bytes set \<Rightarrow> (bytes \<times> 'c chunk) list \<times> bool" where
  "conv_ready p c protected chosen = ready_loop p protected chosen (conv_keys p c) []"

text \<open>The \<open>for\<close> loop of \<open>evict\<close> over the conversations, least recent first.\<close>

fun evict_convs :: "'c policy \<Rightarrow> int \<Rightarrow> bytes set \<Rightarrow> bytes list \<Rightarrow> (bytes \<times> 'c chunk) list \<Rightarrow> bytes set \<Rightarrow>
    (bytes \<times> 'c chunk) list \<times> bytes set" where
  "evict_convs p n protected [] selected chosen = (selected, chosen)"
| "evict_convs p n protected (c # cs) selected chosen =
     (if int (length selected) \<ge> n then (selected, chosen)
      else let (ready, blocked) = conv_ready p c protected chosen in
           if blocked \<or> ready = [] then evict_convs p n protected cs selected chosen
           else evict_convs p n protected cs (selected @ ready) (chosen \<union> set (map fst ready)))"

text \<open>The \<open>while\<close> loop of \<open>_take_unbound\<close>, on the entries still in the heap.\<close>

type_synonym 'c picked = "((int \<times> bytes) \<times> 'c chunk) list"

fun take_loop :: "'c lru_base \<Rightarrow> 'c policy \<Rightarrow> int \<Rightarrow> bytes set \<Rightarrow> (int \<times> bytes) list \<Rightarrow> 'c picked \<Rightarrow>
    (int \<times> bytes) list \<Rightarrow> bytes set \<Rightarrow> ('c picked \<times> (int \<times> bytes) list) res \<times> (int \<times> bytes) list" where
  "take_loop B p n protected [] picked skipped chosen = (Inr (picked, skipped), [])"
| "take_loop B p n protected (entry # h) picked skipped chosen =
     (if \<not> int (length picked) < n then (Inr (picked, skipped), entry # h)
      else if \<not> lb_is_current B (p\<lparr>pol_heap := h\<rparr>) entry then take_loop B p n protected h picked skipped chosen
      else case pol_chunks p (snd entry) of
             None \<Rightarrow> (Inl (KeyError ''chunks''), h)
           | Some ch \<Rightarrow>
               if snd entry \<in> chosen \<or> pol_conv_of p (snd entry) \<noteq> None \<or> snd entry \<in> protected
                  \<or> ck_ref_cnt ch \<noteq> 0
               then take_loop B p n protected h picked (skipped @ [entry]) chosen
               else take_loop B p n protected h (picked @ [(entry, ch)]) skipped (insert (snd entry) chosen))"

definition take_unbound :: "'c lru_base \<Rightarrow> int \<Rightarrow> bytes set \<Rightarrow> bytes set \<Rightarrow>
    ('c policy, (bytes \<times> 'c chunk) list option) act" where
  "take_unbound B n protected chosen = withA (\<lambda>p.
     let (r, h) = take_loop B p n protected (pol_heap p) [] [] chosen in
     bindA (modA (\<lambda>p. p\<lparr>pol_heap := h\<rparr>)) (\<lambda>_.
     bindA (liftA (\<lambda>_. r)) (\<lambda>(picked, skipped).
       if int (length picked) < n
       then bindA (modA (\<lambda>p. p\<lparr>pol_heap := fold insort (skipped @ map fst picked) (pol_heap p)\<rparr>)) (\<lambda>_. retA None)
       else bindA (modA (\<lambda>p. p\<lparr>pol_heap := fold insort skipped (pol_heap p)\<rparr>)) (\<lambda>_.
              retA (Some (map (\<lambda>(entry, ch). (snd entry, ch)) picked))))))"

definition policy_evict :: "'c lru_base \<Rightarrow> int \<Rightarrow> bytes set \<Rightarrow>
    ('c policy, (bytes \<times> 'c chunk) list option) act" where
  "policy_evict B n protected =
     (if n = 0 then retA (Some [])
      else withA (\<lambda>p.
        let (selected, chosen) = evict_convs p n protected (pol_conv_lru p) [] {} in
        bindA (if int (length selected) < n
               then bindA (take_unbound B (n - int (length selected)) protected chosen) (\<lambda>extra.
                      retA (map_option (\<lambda>x. selected @ x) extra))
               else retA (Some selected)) (\<lambda>picked.
          case picked of
            None \<Rightarrow> retA None
          | Some sel \<Rightarrow>
              if int (length sel) < n then retA None
              else bindA (modA (fold forget_chunk (map fst sel))) (\<lambda>_.
                   bindA (modA (lb_compact B)) (\<lambda>_. retA (Some sel))))))"

section \<open>The invariant\<close>

definition policy_wf :: "'c policy \<Rightarrow> bool" where
  "policy_wf p \<longleftrightarrow>
     (\<forall>k c. pol_conv_of p k = Some c \<longleftrightarrow> k \<in> set (conv_keys p c))
   \<and> (\<forall>c. distinct (conv_keys p c))
   \<and> set (pol_conv_lru p) = dom (pol_conv_keys p) \<and> distinct (pol_conv_lru p)"

lemma policy_init_wf: "policy_wf (policy_init ch ev ra h)"
  by (simp add: policy_wf_def policy_init_def conv_keys_def)

lemma policy_wfD:
  assumes "policy_wf p"
  shows "pol_conv_of p k = Some c \<longleftrightarrow> k \<in> set (conv_keys p c)" "distinct (conv_keys p c)"
    "set (pol_conv_lru p) = dom (pol_conv_keys p)" "distinct (pol_conv_lru p)"
  using assms by (simp_all add: policy_wf_def)

lemma unbind_key_wf: assumes wf: "policy_wf p" shows "policy_wf (unbind_key k p)"
proof (cases "pol_conv_of p k")
  case None
  then show ?thesis using wf by (simp add: unbind_key_def)
next
  case (Some c)
  then have "k \<in> set (conv_keys p c)" using policy_wfD(1) [OF wf] by simp
  then obtain owned where o: "pol_conv_keys p c = Some owned"
    by (cases "pol_conv_keys p c") (auto simp: conv_keys_def)
  then have own: "conv_keys p c = owned" by (simp add: conv_keys_def)
  let ?q = "unbind_key k p"
  have keys: "conv_keys ?q d = (if d = c then ls_del k owned else conv_keys p d)" for d
    using Some o by (simp add: unbind_key_def Let_def conv_keys_def)
  have of: "pol_conv_of ?q j = (if j = k then None else pol_conv_of p j)" for j
    using Some o by (simp add: unbind_key_def Let_def)
  have "pol_conv_of ?q j = Some d \<longleftrightarrow> j \<in> set (conv_keys ?q d)" for j d
    using policy_wfD(1) [OF wf, of j d] policy_wfD(1) [OF wf, of k d] Some own
    by (auto simp: keys of)
  moreover have "distinct (conv_keys ?q d)" for d
    using policy_wfD(2) [OF wf, of d] own by (auto simp: keys)
  moreover have "set (pol_conv_lru ?q) = dom (pol_conv_keys ?q) \<and> distinct (pol_conv_lru ?q)"
    using policy_wfD(3,4) [OF wf] Some o by (auto simp: unbind_key_def Let_def)
  ultimately show ?thesis by (simp add: policy_wf_def)
qed

lemma fold_unbind_wf: "policy_wf p \<Longrightarrow> policy_wf (fold unbind_key ks p)"
  by (induction ks arbitrary: p) (auto intro: unbind_key_wf)

lemma unbind_key_frame [simp]:
  "pol_chunks (unbind_key k p) = pol_chunks p" "pol_evictable (unbind_key k p) = pol_evictable p"
  "pol_ranks (unbind_key k p) = pol_ranks p" "pol_heap (unbind_key k p) = pol_heap p"
  by (simp_all add: unbind_key_def Let_def split: option.splits)

lemma unbind_key_conv_of: "pol_conv_of (unbind_key k p) j = (if j = k then None else pol_conv_of p j)"
  by (simp add: unbind_key_def Let_def split: option.splits)

lemma wf_cong:
  assumes "pol_conv_of p = pol_conv_of q" "pol_conv_keys p = pol_conv_keys q" "pol_conv_lru p = pol_conv_lru q"
  shows "policy_wf p = policy_wf q"
  using assms by (simp add: policy_wf_def conv_keys_def)

lemma forget_chunk_wf: "policy_wf p \<Longrightarrow> policy_wf (forget_chunk k p)"
  unfolding forget_chunk_def
  by (rule unbind_key_wf) (erule wf_cong [THEN iffD1, rotated -1], simp_all)

lemma forget_chunk_frame [simp]:
  "pol_chunks (forget_chunk k p) = (pol_chunks p)(k := None)"
  "pol_evictable (forget_chunk k p) = pol_evictable p - {k}"
  "pol_heap (forget_chunk k p) = pol_heap p"
  by (simp_all add: forget_chunk_def)

lemma fold_forget_wf: "policy_wf p \<Longrightarrow> policy_wf (fold forget_chunk ks p)"
  by (induction ks arbitrary: p) (auto intro: forget_chunk_wf)

lemma fold_forget_frame:
  "pol_chunks (fold forget_chunk ks p) k = (if k \<in> set ks then None else pol_chunks p k)"
  "pol_evictable (fold forget_chunk ks p) = pol_evictable p - set ks"
  "pol_heap (fold forget_chunk ks p) = pol_heap p"
  by (induction ks arbitrary: p) auto

lemma fold_forget_conv_of:
  "pol_conv_of (fold forget_chunk ks p) k = (if k \<in> set ks then None else pol_conv_of p k)"
  by (induction ks arbitrary: p) (auto simp: forget_chunk_def unbind_key_conv_of)

text \<open>Binding.\<close>

lemma bind_key_fields:
  "pol_conv_of (bind_key c k p) = (pol_conv_of p)(k := Some c)"
  "conv_keys (bind_key c k p) d =
     (if d = c then ls_add k (conv_keys p c)
      else if pol_conv_of p k = Some d then ls_del k (conv_keys p d) else conv_keys p d)"
  "pol_conv_lru (bind_key c k p) = pol_conv_lru p"
  "dom (pol_conv_keys (bind_key c k p)) = insert c (dom (pol_conv_keys p))"
  "pol_chunks (bind_key c k p) = pol_chunks p" "pol_evictable (bind_key c k p) = pol_evictable p"
  by (auto simp: bind_key_def Let_def conv_keys_def ls_del_def split: option.splits)

text \<open>What holds of the ownership maps while \<open>bind\<close> runs, before the recency list is updated.\<close>

definition owners_ok :: "'c policy \<Rightarrow> bool" where
  "owners_ok p \<longleftrightarrow> (\<forall>k c. pol_conv_of p k = Some c \<longleftrightarrow> k \<in> set (conv_keys p c)) \<and> (\<forall>c. distinct (conv_keys p c))"

lemma bind_key_owners: "owners_ok p \<Longrightarrow> owners_ok (bind_key c k p)"
  by (auto simp: owners_ok_def bind_key_fields)

lemma fold_bind_fields:
  "pol_conv_lru (fold (bind_key c) ks p) = pol_conv_lru p"
  "c \<in> dom (pol_conv_keys p) \<Longrightarrow> dom (pol_conv_keys (fold (bind_key c) ks p)) = dom (pol_conv_keys p)"
  "owners_ok p \<Longrightarrow> owners_ok (fold (bind_key c) ks p)"
  "pol_conv_of (fold (bind_key c) ks p) k = (if k \<in> set ks then Some c else pol_conv_of p k)"
  "pol_chunks (fold (bind_key c) ks p) = pol_chunks p"
  "pol_evictable (fold (bind_key c) ks p) = pol_evictable p"
  by (induction ks arbitrary: p) (auto simp: bind_key_fields bind_key_owners insert_absorb)

lemma bind_keys_wf: assumes wf: "policy_wf p" shows "policy_wf (bind_keys c ks p)"
proof -
  let ?p0 = "p\<lparr>pol_conv_keys := (pol_conv_keys p)(c := Some (conv_keys p c))\<rparr>"
  let ?p1 = "fold (bind_key c) ks ?p0"
  have keys0: "conv_keys ?p0 d = conv_keys p d" for d by (simp add: conv_keys_def)
  have "owners_ok ?p0" using wf by (simp add: policy_wf_def owners_ok_def keys0)
  then have o1: "owners_ok ?p1" by (rule fold_bind_fields(3))
  have d1: "dom (pol_conv_keys ?p1) = insert c (dom (pol_conv_keys p))"
    using fold_bind_fields(2) [of c ?p0 ks] by simp
  have l1: "pol_conv_lru ?p1 = pol_conv_lru p" using fold_bind_fields(1) [of c ks ?p0] by simp
  have k: "conv_keys (bind_keys c ks p) d = conv_keys ?p1 d" for d
    by (simp add: bind_keys_def Let_def conv_keys_def)
  show ?thesis
    using o1 policy_wfD(3,4) [OF wf] d1 l1
    by (auto simp: policy_wf_def owners_ok_def k) (auto simp: bind_keys_def Let_def)
qed

lemma bind_keys_conv_of: "pol_conv_of (bind_keys c ks p) k = (if k \<in> set ks then Some c else pol_conv_of p k)"
  using fold_bind_fields(4) [of c ks "p\<lparr>pol_conv_keys := (pol_conv_keys p)(c := Some (conv_keys p c))\<rparr>" k]
  by (simp add: bind_keys_def Let_def)

lemma touch_convs_wf: "policy_wf p \<Longrightarrow> policy_wf (touch_convs ks seen p)"
proof (induction ks arbitrary: seen p)
  case Nil
  then show ?case by simp
next
  case (Cons k ks)
  have "policy_wf (p\<lparr>pol_conv_lru := ls_del c (pol_conv_lru p) @ [c]\<rparr>)" if "c \<in> set (pol_conv_lru p)" for c
    using Cons.prems that by (auto simp: policy_wf_def conv_keys_def)
  with Cons show ?case by (auto split: option.splits)
qed

text \<open>\<open>take_evictable\<close> takes exactly the idle resident keys, each once.\<close>

lemma take_evictable_spec:
  assumes "policy_wf p"
  shows "policy_wf (snd (take_evictable ks p))
     \<and> set (fst (take_evictable ks p)) = {(k, ch). k \<in> set ks \<and> pol_chunks p k = Some ch
            \<and> ck_ref_cnt ch = 0 \<and> k \<in> pol_evictable p}
     \<and> distinct (map fst (fst (take_evictable ks p)))
     \<and> (\<forall>k. pol_chunks (snd (take_evictable ks p)) k =
          (if k \<in> fst ` set (fst (take_evictable ks p)) then None else pol_chunks p k))"
  using assms
proof (induction ks arbitrary: p)
  case Nil
  then show ?case by simp
next
  case (Cons k ks)
  show ?case
  proof (cases "\<exists>ch. pol_chunks p k = Some ch \<and> ck_ref_cnt ch = 0 \<and> k \<in> pol_evictable p")
    case False
    then have "take_evictable (k # ks) p = take_evictable ks p" by (auto split: option.splits)
    with Cons.IH [OF Cons.prems] False show ?thesis by auto
  next
    case True
    then obtain ch where ch: "pol_chunks p k = Some ch" "ck_ref_cnt ch = 0" "k \<in> pol_evictable p" by blast
    obtain t q where t: "take_evictable ks (forget_chunk k p) = (t, q)" by force
    with ch have "take_evictable (k # ks) p = ((k, ch) # t, q)" by simp
    with Cons.IH [OF forget_chunk_wf [OF Cons.prems, of k]] t ch show ?thesis by (auto split: if_splits)
  qed
qed

end
