(* ===== verification/Conv_Policy_Props.thy ===== *)
theory Conv_Policy_Props
  imports Conv_Policy
begin

text \<open>
  What an eviction of the conversation policy selects, against a declarative specification: the ready
  conversations in recency order, whole, then idle chunks that belong to no conversation.
\<close>

section \<open>The base class\<close>

text \<open>
  What the policy relies on of the class it extends: a current heap entry names a resident, evictable
  chunk (the code reads \<open>chunks[key]\<close> without a test) whatever else is in the heap; compaction, touch
  and removal leave the ownership of keys alone, and compaction the chunks.
\<close>

definition same_owners :: "'c policy \<Rightarrow> 'c policy \<Rightarrow> bool" where
  "same_owners q p \<longleftrightarrow> pol_conv_of q = pol_conv_of p \<and> pol_conv_keys q = pol_conv_keys p
     \<and> pol_conv_lru q = pol_conv_lru p"

definition base_ok :: "'c lru_base \<Rightarrow> bool" where
  "base_ok B \<longleftrightarrow>
     (\<forall>p e. lb_is_current B p e \<longrightarrow> pol_chunks p (snd e) \<noteq> None \<and> snd e \<in> pol_evictable p)
   \<and> (\<forall>p e h. lb_is_current B (p\<lparr>pol_heap := h\<rparr>) e = lb_is_current B p e)
   \<and> (\<forall>p. same_owners (lb_compact B p) p \<and> pol_chunks (lb_compact B p) = pol_chunks p)
   \<and> (\<forall>ks p. same_owners (lb_touch B ks p) p) \<and> (\<forall>k p. same_owners (lb_remove B k p) p)"

lemma base_okD:
  assumes "base_ok B"
  shows "lb_is_current B p e \<Longrightarrow> pol_chunks p (snd e) \<noteq> None"
    and "lb_is_current B p e \<Longrightarrow> snd e \<in> pol_evictable p"
    and "lb_is_current B (p\<lparr>pol_heap := h\<rparr>) e = lb_is_current B p e"
    and "same_owners (lb_compact B p) p" "pol_chunks (lb_compact B p) = pol_chunks p"
    and "same_owners (lb_touch B ks p) p" "same_owners (lb_remove B k p) p"
  using assms unfolding base_ok_def by blast+

lemma same_owners_wf: "same_owners q p \<Longrightarrow> policy_wf q = policy_wf p"
  by (rule wf_cong) (simp_all add: same_owners_def)

section \<open>Conversations\<close>

text \<open>The resident chunks of a list of keys, and the chunks a conversation offers: all of them when no
  key is protected, referenced or pending, none otherwise.\<close>

definition resident :: "'c policy \<Rightarrow> bytes list \<Rightarrow> (bytes \<times> 'c chunk) list" where
  "resident p ks = map (\<lambda>k. (k, the (pol_chunks p k))) (filter (\<lambda>k. pol_chunks p k \<noteq> None) ks)"

definition free_key :: "'c policy \<Rightarrow> bytes set \<Rightarrow> bytes \<Rightarrow> bool" where
  "free_key p protected k \<longleftrightarrow> k \<notin> protected
     \<and> (\<forall>ch. pol_chunks p k = Some ch \<longrightarrow> ck_ref_cnt ch = 0 \<and> k \<in> pol_evictable p)"

definition offer :: "'c policy \<Rightarrow> bytes set \<Rightarrow> bytes \<Rightarrow> (bytes \<times> 'c chunk) list" where
  "offer p protected c =
     (if \<forall>k \<in> set (conv_keys p c). free_key p protected k then resident p (conv_keys p c) else [])"

lemma in_resident: "(k, ch) \<in> set (resident p ks) \<longleftrightarrow> k \<in> set ks \<and> pol_chunks p k = Some ch"
  by (auto simp: resident_def)

lemma keys_resident: "map fst (resident p ks) = filter (\<lambda>k. pol_chunks p k \<noteq> None) ks"
  by (simp add: resident_def comp_def)

lemma ready_loop_spec:
  assumes "set ks \<inter> chosen = {}"
  shows "ready_loop p protected chosen ks acc =
     (if \<forall>k \<in> set ks. free_key p protected k then (acc @ resident p ks, False) else ([], True))"
  using assms
  by (induction ks arbitrary: acc) (auto simp: free_key_def resident_def split: option.splits)

lemma conv_ready_spec:
  assumes "set (conv_keys p c) \<inter> chosen = {}"
  shows "conv_ready p c protected chosen =
     (if \<forall>k \<in> set (conv_keys p c). free_key p protected k then (resident p (conv_keys p c), False) else ([], True))"
  using ready_loop_spec [OF assms, of p protected "[]"] by (simp add: conv_ready_def)

definition offers :: "'c policy \<Rightarrow> bytes set \<Rightarrow> bytes list \<Rightarrow> (bytes \<times> 'c chunk) list" where
  "offers p protected cs = concat (map (offer p protected) cs)"

lemma in_offers:
  assumes wf: "policy_wf p"
  shows "(k, ch) \<in> set (offers p protected cs) \<longleftrightarrow> (\<exists>c \<in> set cs. pol_conv_of p k = Some c
     \<and> pol_chunks p k = Some ch \<and> (\<forall>j. pol_conv_of p j = Some c \<longrightarrow> free_key p protected j))"
  using policy_wfD(1) [OF wf] by (auto simp: offers_def offer_def in_resident)

lemma conv_keys_disjoint:
  "policy_wf p \<Longrightarrow> d \<noteq> c \<Longrightarrow> set (conv_keys p d) \<inter> set (conv_keys p c) = {}"
  by (auto simp: policy_wfD(1) [symmetric])

lemma evict_convs_spec:
  assumes wf: "policy_wf p" and "distinct cs" and "\<And>c. c \<in> set cs \<Longrightarrow> set (conv_keys p c) \<inter> chosen = {}"
  shows "\<exists>m \<le> length cs. evict_convs p n protected cs sel chosen =
       (sel @ offers p protected (take m cs), chosen \<union> set (map fst (offers p protected (take m cs))))
     \<and> (\<forall>i < m. int (length (sel @ offers p protected (take i cs))) < n)
     \<and> (m = length cs \<or> n \<le> int (length (sel @ offers p protected (take m cs))))"
  using assms(2,3)
proof (induction cs arbitrary: sel chosen)
  case Nil
  then show ?case by (simp add: offers_def)
next
  case (Cons c cs)
  show ?case
  proof (cases "int (length sel) \<ge> n")
    case True
    then show ?thesis by (intro exI [of _ 0]) (simp add: offers_def)
  next
    case False
    let ?o = "offer p protected c" and ?ch = "chosen \<union> set (map fst (offer p protected c))"
    have r: "conv_ready p c protected chosen = (?o, \<not> (\<forall>k \<in> set (conv_keys p c). free_key p protected k))"
      using Cons.prems(2) [of c] by (simp add: conv_ready_spec offer_def)
    have some: "\<forall>k \<in> set (conv_keys p c). free_key p protected k" if "?o \<noteq> []"
      using that by (simp add: offer_def split: if_splits)
    have step: "evict_convs p n protected (c # cs) sel chosen = evict_convs p n protected cs (sel @ ?o) ?ch"
      using False some by (cases "?o = []") (simp_all add: r del: set_map)
    have dis: "set (conv_keys p d) \<inter> ?ch = {}" if "d \<in> set cs" for d
    proof -
      have "d \<noteq> c" using that Cons.prems(1) by auto
      then have "set (conv_keys p d) \<inter> set (conv_keys p c) = {}" using conv_keys_disjoint [OF wf] by blast
      moreover have "set (map fst ?o) \<subseteq> set (conv_keys p c)"
        by (auto simp: offer_def keys_resident simp del: set_map)
      ultimately show ?thesis using Cons.prems(2) [of d] that by auto
    qed
    obtain m where m: "m \<le> length cs" "evict_convs p n protected cs (sel @ ?o) ?ch =
          ((sel @ ?o) @ offers p protected (take m cs), ?ch \<union> set (map fst (offers p protected (take m cs))))"
      "\<forall>i < m. int (length ((sel @ ?o) @ offers p protected (take i cs))) < n"
      "m = length cs \<or> n \<le> int (length ((sel @ ?o) @ offers p protected (take m cs)))"
      using Cons.IH [of ?ch "sel @ ?o"] Cons.prems(1) dis by auto
    have o: "offers p protected (c # ds) = ?o @ offers p protected ds" for ds
      by (simp add: offers_def)
    have "int (length (sel @ offers p protected (take i (c # cs)))) < n" if "i < Suc m" for i
      using that False m(3) by (cases i) (auto simp: o offers_def [of p protected "[]"])
    moreover have "evict_convs p n protected (c # cs) sel chosen = (sel @ offers p protected (take (Suc m) (c # cs)),
        chosen \<union> set (map fst (offers p protected (take (Suc m) (c # cs)))))"
      unfolding step m(2) by (simp add: o Un_assoc)
    ultimately show ?thesis using m(1,4) by (intro exI [of _ "Suc m"]) (simp add: o del: evict_convs.simps)
  qed
qed

lemma conv_convs:
  assumes wf: "policy_wf p"
  shows "\<exists>m \<le> length (pol_conv_lru p). evict_convs p n protected (pol_conv_lru p) [] {} =
       (offers p protected (take m (pol_conv_lru p)), set (map fst (offers p protected (take m (pol_conv_lru p)))))
     \<and> (\<forall>i < m. int (length (offers p protected (take i (pol_conv_lru p)))) < n)
     \<and> (m = length (pol_conv_lru p) \<or> n \<le> int (length (offers p protected (take m (pol_conv_lru p)))))"
  using evict_convs_spec [OF wf policy_wfD(4) [OF wf], of "{}" n protected "[]"] by simp

lemma offers_distinct:
  assumes wf: "policy_wf p" and "distinct cs"
  shows "distinct (map fst (offers p protected cs))"
  using assms(2)
proof (induction cs)
  case Nil
  then show ?case by (simp add: offers_def)
next
  case (Cons c cs)
  have "distinct (map fst (offer p protected c))"
    using policy_wfD(2) [OF wf, of c] by (simp add: offer_def keys_resident)
  moreover have "set (map fst (offer p protected c)) \<inter> set (map fst (offers p protected cs)) = {}"
  proof -
    have "pol_conv_of p k = Some c" if "k \<in> set (map fst (offer p protected c))" for k
      using that policy_wfD(1) [OF wf] by (auto simp: offer_def in_resident split: if_splits)
    moreover have "\<exists>d \<in> set cs. pol_conv_of p k = Some d" if "k \<in> set (map fst (offers p protected cs))" for k
      using that in_offers [OF wf] by fastforce
    ultimately show ?thesis using Cons.prems by fastforce
  qed
  ultimately show ?case using Cons by (simp add: offers_def)
qed

section \<open>Chunks of no conversation\<close>

definition spare :: "'c policy \<Rightarrow> bytes set \<Rightarrow> bytes set \<Rightarrow> bytes \<Rightarrow> 'c chunk \<Rightarrow> bool" where
  "spare p protected chosen k ch \<longleftrightarrow> pol_chunks p k = Some ch \<and> ck_ref_cnt ch = 0
     \<and> k \<in> pol_evictable p \<and> pol_conv_of p k = None \<and> k \<notin> protected \<and> k \<notin> chosen"

definition current_heap :: "'c lru_base \<Rightarrow> 'c policy \<Rightarrow> (int \<times> bytes) list \<Rightarrow> (int \<times> bytes) multiset" where
  "current_heap B p h = filter_mset (lb_is_current B p) (mset h)"

lemma take_loop_spec:
  assumes B: "base_ok B"
    and "distinct (map (\<lambda>x. snd (fst x)) picked)" "snd ` fst ` set picked \<subseteq> chosen" "int (length picked) \<le> n"
  shows "\<exists>more skip. take_loop B p n protected h picked skipped chosen
          = (Inr (picked @ more, skipped @ skip), snd (take_loop B p n protected h picked skipped chosen))
     \<and> (\<forall>(e, ch) \<in> set more. spare p protected chosen (snd e) ch)
     \<and> distinct (map (\<lambda>x. snd (fst x)) (picked @ more)) \<and> int (length (picked @ more)) \<le> n
     \<and> current_heap B p h = current_heap B p (map fst more)
         + (current_heap B p skip + current_heap B p (snd (take_loop B p n protected h picked skipped chosen)))"
  using assms(2-4)
proof (induction h arbitrary: picked skipped chosen)
  case Nil
  then show ?case by (auto simp: current_heap_def)
next
  case (Cons e h)
  let ?q = "\<lambda>picked skipped chosen. take_loop B p n protected h picked skipped chosen"
  note cur = base_okD(1-3) [OF B]
  show ?case
  proof (cases "int (length picked) < n")
    case False
    with Cons.prems show ?thesis by (auto simp: current_heap_def)
  next
    case n: True
    show ?thesis
    proof (cases "lb_is_current B p e")
      case False
      with n have "take_loop B p n protected (e # h) picked skipped chosen = ?q picked skipped chosen"
        by (simp add: cur(3))
      with False Cons.IH [OF Cons.prems, of skipped] show ?thesis by (simp add: current_heap_def)
    next
      case c: True
      then obtain ch where ch: "pol_chunks p (snd e) = Some ch" using cur(1) by blast
      show ?thesis
      proof (cases "snd e \<in> chosen \<or> pol_conv_of p (snd e) \<noteq> None \<or> snd e \<in> protected \<or> ck_ref_cnt ch \<noteq> 0")
        case True
        with n c ch have eq: "take_loop B p n protected (e # h) picked skipped chosen = ?q picked (skipped @ [e]) chosen"
          by (simp add: cur(3))
        obtain more skip where ms: "?q picked (skipped @ [e]) chosen
            = (Inr (picked @ more, (skipped @ [e]) @ skip), snd (?q picked (skipped @ [e]) chosen))"
          "\<forall>(e, ch) \<in> set more. spare p protected chosen (snd e) ch"
          "distinct (map (\<lambda>x. snd (fst x)) (picked @ more))" "int (length (picked @ more)) \<le> n"
          "current_heap B p h = current_heap B p (map fst more)
            + (current_heap B p skip + current_heap B p (snd (?q picked (skipped @ [e]) chosen)))"
          using Cons.IH [OF Cons.prems, of "skipped @ [e]"] by blast
        have "current_heap B p (e # h) = current_heap B p (map fst more)
            + (current_heap B p (e # skip) + current_heap B p (snd (?q picked (skipped @ [e]) chosen)))"
          using ms(5) c by (simp add: current_heap_def)
        with ms show ?thesis unfolding eq by (intro exI [of _ more] exI [of _ "e # skip"]) simp
      next
        case False
        with n c ch have eq: "take_loop B p n protected (e # h) picked skipped chosen
            = ?q (picked @ [(e, ch)]) skipped (insert (snd e) chosen)"
          by (simp add: cur(3))
        have new: "distinct (map (\<lambda>x. snd (fst x)) (picked @ [(e, ch)]))"
          "snd ` fst ` set (picked @ [(e, ch)]) \<subseteq> insert (snd e) chosen" "int (length (picked @ [(e, ch)])) \<le> n"
          using Cons.prems False n by auto
        have sp: "spare p protected chosen (snd e) ch" using False ch cur(2) [OF c] by (simp add: spare_def)
        have weaken: "spare p protected (insert (snd e) chosen) k x \<Longrightarrow> spare p protected chosen k x" for k x
          by (simp add: spare_def)
        obtain more skip where ms: "?q (picked @ [(e, ch)]) skipped (insert (snd e) chosen)
            = (Inr ((picked @ [(e, ch)]) @ more, skipped @ skip),
               snd (?q (picked @ [(e, ch)]) skipped (insert (snd e) chosen)))"
          "\<forall>(e', ch) \<in> set more. spare p protected (insert (snd e) chosen) (snd e') ch"
          "distinct (map (\<lambda>x. snd (fst x)) ((picked @ [(e, ch)]) @ more))"
          "int (length ((picked @ [(e, ch)]) @ more)) \<le> n"
          "current_heap B p h = current_heap B p (map fst more)
            + (current_heap B p skip
               + current_heap B p (snd (?q (picked @ [(e, ch)]) skipped (insert (snd e) chosen))))"
          using Cons.IH [OF new, of skipped] by blast
        have "current_heap B p (e # h) = current_heap B p (map fst ((e, ch) # more))
            + (current_heap B p skip
               + current_heap B p (snd (?q (picked @ [(e, ch)]) skipped (insert (snd e) chosen))))"
          using ms(5) c by (simp add: current_heap_def)
        moreover have "\<forall>(e', x) \<in> set ((e, ch) # more). spare p protected chosen (snd e') x"
          using ms(2) sp weaken by auto
        ultimately show ?thesis using ms(1,3,4)
          unfolding eq by (intro exI [of _ "(e, ch) # more"] exI [of _ skip]) simp
      qed
    qed
  qed
qed

lemma mset_fold_insort: "mset (fold insort xs ys) = mset xs + mset ys"
  by (induction xs arbitrary: ys) auto

lemma current_heap_insort:
  "current_heap B p (fold insort xs ys) = current_heap B p xs + current_heap B p ys"
  by (simp add: current_heap_def mset_fold_insort)

text \<open>\<open>take_unbound\<close> finds \<open>n\<close> spare chunks, or finds fewer and puts the current entries back.\<close>

lemma take_unbound_spec:
  assumes B: "base_ok B" and n: "0 \<le> n"
  shows "\<exists>h. take_unbound B n protected chosen p = (Inr None, p\<lparr>pol_heap := h\<rparr>)
             \<and> current_heap B p h = current_heap B p (pol_heap p)
       \<or> (\<exists>xs. take_unbound B n protected chosen p = (Inr (Some xs), p\<lparr>pol_heap := h\<rparr>)
             \<and> int (length xs) = n \<and> distinct (map fst xs)
             \<and> (\<forall>(k, ch) \<in> set xs. spare p protected chosen k ch))"
proof -
  obtain more skip h where t: "take_loop B p n protected (pol_heap p) [] [] chosen = (Inr (more, skip), h)"
    and m: "\<forall>(e, ch) \<in> set more. spare p protected chosen (snd e) ch"
      "distinct (map (\<lambda>x. snd (fst x)) more)" "int (length more) \<le> n"
      "current_heap B p (pol_heap p) = current_heap B p (map fst more) + (current_heap B p skip + current_heap B p h)"
    using take_loop_spec [OF B, where picked = "[]" and chosen = chosen and n = n and p = p
        and protected = protected and h = "pol_heap p" and skipped = "[]"] n by fastforce
  show ?thesis
  proof (cases "int (length more) < n")
    case True
    let ?h = "fold insort (skip @ map fst more) h"
    have "take_unbound B n protected chosen p = (Inr None, p\<lparr>pol_heap := ?h\<rparr>)"
      using True t by (simp add: take_unbound_def act_simps)
    moreover have "current_heap B p ?h = current_heap B p (pol_heap p)"
      unfolding current_heap_insort m(4) by (simp add: current_heap_def)
    ultimately show ?thesis by blast
  next
    case False
    let ?xs = "map (\<lambda>(entry, ch). (snd entry, ch)) more"
    have "take_unbound B n protected chosen p = (Inr (Some ?xs), p\<lparr>pol_heap := fold insort skip h\<rparr>)"
      using False t by (simp add: take_unbound_def act_simps)
    moreover have "map fst ?xs = map (\<lambda>x. snd (fst x)) more" by auto
    moreover have "\<forall>(k, ch) \<in> set ?xs. spare p protected chosen k ch" using m(1) by auto
    ultimately show ?thesis using False m(2,3) by (metis length_map order.antisym linorder_not_less)
  qed
qed

section \<open>Whole evictions\<close>

definition chosen_convs :: "'c policy \<Rightarrow> bytes set \<Rightarrow> nat \<Rightarrow> (bytes \<times> 'c chunk) list" where
  "chosen_convs p protected m = offers p protected (take m (pol_conv_lru p))"

text \<open>The outcome of an eviction: \<open>m\<close> conversations were considered, in recency order.\<close>

lemma policy_evict_cases:
  assumes wf: "policy_wf p" and B: "base_ok B" and n: "0 < n"
  obtains (evicted) m extra h where "m \<le> length (pol_conv_lru p)"
      and "policy_evict B n protected p = (Inr (Some (chosen_convs p protected m @ extra)),
             lb_compact B (fold forget_chunk (map fst (chosen_convs p protected m @ extra)) (p\<lparr>pol_heap := h\<rparr>)))"
      and "\<forall>i < m. int (length (chosen_convs p protected i)) < n"
      and "n \<le> int (length (chosen_convs p protected m @ extra))"
      and "extra \<noteq> [] \<longrightarrow> m = length (pol_conv_lru p) \<and> int (length (chosen_convs p protected m @ extra)) = n"
      and "distinct (map fst extra)"
      and "\<forall>(k, ch) \<in> set extra. spare p protected (set (map fst (chosen_convs p protected m))) k ch"
    | (short) h where "policy_evict B n protected p = (Inr None, p\<lparr>pol_heap := h\<rparr>)"
      and "current_heap B p h = current_heap B p (pol_heap p)"
proof -
  obtain m where m: "m \<le> length (pol_conv_lru p)"
    and ev: "evict_convs p n protected (pol_conv_lru p) [] {}
       = (chosen_convs p protected m, set (map fst (chosen_convs p protected m)))"
    and lt: "\<forall>i < m. int (length (chosen_convs p protected i)) < n"
    and all: "m = length (pol_conv_lru p) \<or> n \<le> int (length (chosen_convs p protected m))"
    using conv_convs [OF wf, of n protected] by (auto simp: chosen_convs_def)
  let ?sel = "chosen_convs p protected m" and ?taken = "set (map fst (chosen_convs p protected m))"
  show thesis
  proof (cases "int (length ?sel) < n")
    case False
    have "policy_evict B n protected p
        = (Inr (Some ?sel), lb_compact B (fold forget_chunk (map fst ?sel) p))"
      using False n ev by (simp add: policy_evict_def act_simps)
    then show thesis using False m lt by (intro evicted [of m "[]" "pol_heap p"]) auto
  next
    case True
    then have ml: "m = length (pol_conv_lru p)" using all by simp
    from take_unbound_spec [OF B, of "n - int (length ?sel)" protected ?taken p] True obtain h
      where "take_unbound B (n - int (length ?sel)) protected ?taken p = (Inr None, p\<lparr>pol_heap := h\<rparr>)
             \<and> current_heap B p h = current_heap B p (pol_heap p)
        \<or> (\<exists>xs. take_unbound B (n - int (length ?sel)) protected ?taken p = (Inr (Some xs), p\<lparr>pol_heap := h\<rparr>)
             \<and> int (length xs) = n - int (length ?sel) \<and> distinct (map fst xs)
             \<and> (\<forall>(k, ch) \<in> set xs. spare p protected ?taken k ch))" by auto
    then show thesis
    proof (elim disjE exE conjE)
      assume tu: "take_unbound B (n - int (length ?sel)) protected ?taken p = (Inr None, p\<lparr>pol_heap := h\<rparr>)"
        and "current_heap B p h = current_heap B p (pol_heap p)"
      moreover have "policy_evict B n protected p = (Inr None, p\<lparr>pol_heap := h\<rparr>)"
        using True n ev tu by (simp add: policy_evict_def act_simps del: set_map)
      ultimately show thesis by (intro short)
    next
      fix xs assume tu: "take_unbound B (n - int (length ?sel)) protected ?taken p = (Inr (Some xs), p\<lparr>pol_heap := h\<rparr>)"
        and xs: "int (length xs) = n - int (length ?sel)" "distinct (map fst xs)"
          "\<forall>(k, ch) \<in> set xs. spare p protected ?taken k ch"
      have "policy_evict B n protected p = (Inr (Some (?sel @ xs)),
          lb_compact B (fold forget_chunk (map fst (?sel @ xs)) (p\<lparr>pol_heap := h\<rparr>)))"
        using True n ev tu xs(1) by (simp add: policy_evict_def act_simps del: set_map)
      then show thesis using m lt xs ml by (intro evicted [of m xs h]) auto
    qed
  qed
qed

section \<open>Runs\<close>

datatype policy_op =
    PBind bytes "bytes list"
  | PUnbind bytes
  | PTake "bytes list"
  | PRemove bytes
  | PTouch "bytes list"
  | PEvict int "bytes set"

fun policy_step :: "'c lru_base \<Rightarrow> policy_op \<Rightarrow> ('c policy, unit) act" where
  "policy_step B (PBind c ks) = modA (bind_keys c ks)"
| "policy_step B (PUnbind c) = modA (unbind_conv c)"
| "policy_step B (PTake ks) = modA (\<lambda>p. snd (take_evictable ks p))"
| "policy_step B (PRemove k) = modA (policy_remove B k)"
| "policy_step B (PTouch ks) = modA (policy_touch B ks)"
| "policy_step B (PEvict n protected) = bindA (policy_evict B n protected) (\<lambda>_. retA ())"

lemma heap_wf [simp]: "policy_wf (p\<lparr>pol_heap := h\<rparr>) = policy_wf p"
  by (rule wf_cong) simp_all

lemma policy_evict_wf:
  assumes wf: "policy_wf p" and B: "base_ok B"
  shows "policy_wf (snd (policy_evict B n protected p))"
proof -
  consider "n = 0" | "n < 0" | "0 < n" by linarith
  then show ?thesis
  proof cases
    case 1
    with wf show ?thesis by (simp add: policy_evict_def act_simps)
  next
    case 2
    have "evict_convs p n protected (pol_conv_lru p) [] {} = ([], {})"
      using 2 by (cases "pol_conv_lru p") simp_all
    with 2 wf same_owners_wf [OF base_okD(4) [OF B], of p] show ?thesis
      by (simp add: policy_evict_def act_simps)
  next
    case 3
    from wf B 3 show ?thesis
    proof (cases rule: policy_evict_cases [of p B n protected])
      case (evicted m extra h)
      then show ?thesis
        using same_owners_wf [OF base_okD(4) [OF B]] fold_forget_wf [of "p\<lparr>pol_heap := h\<rparr>"] wf
        by (simp del: map_append fold_append)
    next
      case (short h)
      with wf show ?thesis by simp
    qed
  qed
qed

lemma policy_step_wf:
  assumes B: "base_ok B" and wf: "policy_wf p"
  shows "policy_wf (snd (policy_step B x p))"
proof (cases x)
  case (PBind c ks)
  then show ?thesis using bind_keys_wf [OF wf] by (simp add: act_simps)
next
  case (PUnbind c)
  then show ?thesis using fold_unbind_wf [OF wf] by (simp add: act_simps unbind_conv_def)
next
  case (PTake ks)
  then show ?thesis using take_evictable_spec [OF wf] by (simp add: act_simps)
next
  case (PRemove k)
  then show ?thesis using unbind_key_wf [of "lb_remove B k p" k] same_owners_wf [OF base_okD(7) [OF B], of k p] wf
    by (simp add: act_simps policy_remove_def)
next
  case (PTouch ks)
  then show ?thesis using touch_convs_wf [of "lb_touch B ks p" ks "{}"] same_owners_wf [OF base_okD(6) [OF B], of ks p] wf
    by (simp add: act_simps policy_touch_def)
next
  case (PEvict n protected)
  then show ?thesis using policy_evict_wf [OF wf B, of n protected]
    by (simp add: snd_bindA_retA)
qed

section \<open>The properties\<close>

text \<open>A base class for the concrete instances below: an entry is current at its recorded rank.\<close>

definition rank_base :: "unit lru_base" where
  "rank_base = \<lparr>lb_is_current = (\<lambda>p e. pol_ranks p (snd e) = Some (fst e) \<and> snd e \<in> pol_evictable p
       \<and> pol_chunks p (snd e) \<noteq> None), lb_compact = (\<lambda>p. p), lb_touch = (\<lambda>_ p. p), lb_remove = (\<lambda>_ p. p)\<rparr>"

lemma rank_base_ok: "base_ok rank_base"
  by (simp add: base_ok_def rank_base_def same_owners_def)

text \<open>Two conversations of two chunks and one chunk of no conversation.\<close>

definition sample_policy :: "unit policy" where
  "sample_policy = bind_keys [2] [[23], [24]] (bind_keys [1] [[21], [22]] (policy_init
     (\<lambda>k. if k \<in> {[21], [22], [23], [24], [25]} then Some \<lparr>ck_ref_cnt = 0, ck_status = ()\<rparr> else None)
     {[21], [22], [23], [24], [25]}
     (\<lambda>k. if k = [25] then Some 5 else None) [(5, [25])]))"

lemma sample_policy_wf: "policy_wf sample_policy"
  unfolding sample_policy_def by (intro bind_keys_wf policy_init_wf)

text \<open>C7. A successful eviction of \<open>n\<close> chunks takes at least \<open>n\<close> distinct resident chunks, all idle,
  evictable and unprotected, and takes conversations whole: of each conversation either every resident
  chunk goes or none. The taken chunks, and only they, leave the cache.\<close>

theorem evict_takes_whole_conversations:
  assumes "policy_wf p" and "base_ok B" and "0 < n"
    and "policy_evict B n protected p = (Inr (Some sel), p')"
  shows "n \<le> int (length sel) \<and> distinct (map fst sel)
     \<and> (\<forall>(k, ch) \<in> set sel. pol_chunks p k = Some ch \<and> ck_ref_cnt ch = 0 \<and> k \<in> pol_evictable p \<and> k \<notin> protected)
     \<and> (\<forall>c. let keys = {k. pol_conv_of p k = Some c \<and> pol_chunks p k \<noteq> None}
            in keys \<subseteq> fst ` set sel \<or> keys \<inter> fst ` set sel = {})
     \<and> (\<forall>k. pol_chunks p' k = (if k \<in> fst ` set sel then None else pol_chunks p k))"
  using assms(1-3)
proof (cases rule: policy_evict_cases [of p B n protected])
  case (short h)
  with assms(4) show ?thesis by simp
next
  case (evicted m extra h)
  let ?s = "chosen_convs p protected m"
  have sel: "sel = ?s @ extra" and p': "p' = lb_compact B (fold forget_chunk (map fst sel) (p\<lparr>pol_heap := h\<rparr>))"
    using evicted(2) assms(4) by simp_all
  have s: "(k, ch) \<in> set ?s \<longleftrightarrow> (\<exists>c \<in> set (take m (pol_conv_lru p)). pol_conv_of p k = Some c
     \<and> pol_chunks p k = Some ch \<and> (\<forall>j. pol_conv_of p j = Some c \<longrightarrow> free_key p protected j))" for k ch
    unfolding chosen_convs_def by (rule in_offers [OF assms(1)])
  have ex: "spare p protected (set (map fst ?s)) k ch" if "(k, ch) \<in> set extra" for k ch
    using evicted(7) that by blast
  have dist: "distinct (map fst sel)"
  proof -
    have "distinct (map fst ?s)"
      unfolding chosen_convs_def using assms(1) by (intro offers_distinct) (simp_all add: policy_wfD(4))
    moreover have "set (map fst ?s) \<inter> set (map fst extra) = {}"
      using ex unfolding spare_def by fastforce
    ultimately show ?thesis using evicted(6) by (simp add: sel)
  qed
  have each: "pol_chunks p k = Some ch \<and> ck_ref_cnt ch = 0 \<and> k \<in> pol_evictable p \<and> k \<notin> protected"
    if "(k, ch) \<in> set sel" for k ch
    using that s ex by (auto simp: sel spare_def free_key_def)
  have whole: "(let keys = {k. pol_conv_of p k = Some c \<and> pol_chunks p k \<noteq> None}
            in keys \<subseteq> fst ` set sel \<or> keys \<inter> fst ` set sel = {})" for c
  proof (cases "c \<in> set (take m (pol_conv_lru p)) \<and> (\<forall>j. pol_conv_of p j = Some c \<longrightarrow> free_key p protected j)")
    case True
    then have "k \<in> fst ` set sel" if "pol_conv_of p k = Some c" "pol_chunks p k = Some ch" for k ch
      using that s [of k ch] by (force simp: sel)
    then show ?thesis unfolding Let_def by blast
  next
    case False
    then have "pol_conv_of p k \<noteq> Some c" if "(k, ch) \<in> set sel" for k ch
      using that s [of k ch] ex [of k ch] by (auto simp: sel spare_def)
    then have "{k. pol_conv_of p k = Some c \<and> pol_chunks p k \<noteq> None} \<inter> fst ` set sel = {}" by force
    then show ?thesis unfolding Let_def by blast
  qed
  have gone: "pol_chunks p' k = (if k \<in> fst ` set sel then None else pol_chunks p k)" for k
    by (simp add: p' base_okD(5) [OF assms(2)] fold_forget_frame)
  show ?thesis using evicted(4) dist each whole gone unfolding sel by blast
qed

lemma sample_evict:
  "\<exists>sel p'. policy_evict rank_base 1 {} sample_policy = (Inr (Some sel), p') \<and> fst ` set sel = {[21], [22]}"
proof -
  have "map_sum id (map_option (map fst)) (fst (policy_evict rank_base 1 {} sample_policy)) = Inr (Some [[21], [22]])"
    by (simp add: policy_evict_def act_simps sample_policy_def bind_keys_def bind_key_def policy_init_def
        conv_keys_def conv_ready_def rank_base_def ls_add_def ls_del_def Let_def)
  then obtain sel p' where "policy_evict rank_base 1 {} sample_policy = (Inr (Some sel), p')"
      "map fst sel = [[21], [22]]"
    by (cases "policy_evict rank_base 1 {} sample_policy"; cases "fst (policy_evict rank_base 1 {} sample_policy)")
       auto
  then show ?thesis by (metis list.set_map list.simps(15) list.set(1))
qed

theorem evict_takes_whole_conversations_witness:
  "\<exists>sel p'. policy_evict rank_base 1 {} sample_policy = (Inr (Some sel), p') \<and> fst ` set sel = {[21], [22]}
     \<and> pol_chunks p' [22] = None \<and> pol_chunks p' [23] \<noteq> None"
proof -
  obtain sel p' where run: "policy_evict rank_base 1 {} sample_policy = (Inr (Some sel), p')"
    and sel: "fst ` set sel = {[21], [22]}" using sample_evict by blast
  have "\<forall>k. pol_chunks p' k = (if k \<in> fst ` set sel then None else pol_chunks sample_policy k)"
    using evict_takes_whole_conversations [OF sample_policy_wf rank_base_ok _ run] by simp
  moreover have "pol_chunks sample_policy [23] \<noteq> None"
    by (simp add: sample_policy_def bind_keys_def Let_def bind_key_fields policy_init_def)
  ultimately show ?thesis using run sel by simp
qed

text \<open>Conversations go least recently used first: the eviction considers the conversations in recency
  order and takes all that are ready (no key protected, referenced or pending) until \<open>n\<close> chunks are
  gathered, never one more conversation than needed. Only when all conversations together fall short
  does it take idle chunks of no conversation, and then exactly as many as are missing.\<close>

lemma evict_follows_conversation_recency:
  assumes "policy_wf p" and "base_ok B" and "0 < n"
    and "policy_evict B n protected p = (Inr (Some sel), p')"
  shows "\<exists>m extra. m \<le> length (pol_conv_lru p)
     \<and> sel = concat (map (offer p protected) (take m (pol_conv_lru p))) @ extra
     \<and> (\<forall>i < m. int (length (concat (map (offer p protected) (take i (pol_conv_lru p))))) < n)
     \<and> (extra \<noteq> [] \<longrightarrow> m = length (pol_conv_lru p) \<and> int (length sel) = n)
     \<and> (\<forall>(k, ch) \<in> set extra. pol_conv_of p k = None)"
  using assms(1-3)
proof (cases rule: policy_evict_cases [of p B n protected])
  case (short h)
  with assms(4) show ?thesis by simp
next
  case (evicted m extra h)
  then have "sel = chosen_convs p protected m @ extra" using assms(4) by simp
  with evicted show ?thesis
    by (intro exI [of _ m] exI [of _ extra]) (auto simp: chosen_convs_def offers_def spare_def)
qed

lemma evict_follows_conversation_recency_witness:
  "\<exists>m extra sel. fst ` set sel = {[21], [22]} \<and> m \<le> length (pol_conv_lru sample_policy)
     \<and> sel = concat (map (offer sample_policy {}) (take m (pol_conv_lru sample_policy))) @ extra"
proof -
  obtain sel p' where run: "policy_evict rank_base 1 {} sample_policy = (Inr (Some sel), p')"
    and sel: "fst ` set sel = {[21], [22]}" using sample_evict by blast
  from evict_follows_conversation_recency [OF sample_policy_wf rank_base_ok zero_less_one run]
  obtain m extra where "m \<le> length (pol_conv_lru sample_policy)"
    "sel = concat (map (offer sample_policy {}) (take m (pol_conv_lru sample_policy))) @ extra"
    by (elim exE conjE) (rule that)
  with sel show ?thesis by (intro exI [of _ m] exI [of _ extra] exI [of _ sel] conjI)
qed

text \<open>An eviction never raises, and one that cannot gather \<open>n\<close> chunks changes nothing but heap
  entries that were already stale: chunks, evictable set, ranks, ownership and recency are untouched
  and every current heap entry is still there, as often as before.\<close>

lemma failed_evict_changes_nothing:
  assumes "policy_wf p" and "base_ok B" and "0 < n"
  shows "(\<exists>sel p'. policy_evict B n protected p = (Inr (Some sel), p'))
     \<or> (\<exists>h. policy_evict B n protected p = (Inr None, p\<lparr>pol_heap := h\<rparr>)
         \<and> filter_mset (lb_is_current B p) (mset h) = filter_mset (lb_is_current B p) (mset (pol_heap p)))"
  using assms
proof (cases rule: policy_evict_cases [of p B n protected])
  case (evicted m extra h)
  then show ?thesis by blast
next
  case (short h)
  then show ?thesis by (auto simp: current_heap_def)
qed

lemma failed_evict_changes_nothing_witness:
  "\<exists>h. policy_evict rank_base 6 {} sample_policy = (Inr None, sample_policy\<lparr>pol_heap := h\<rparr>)
     \<and> filter_mset (lb_is_current rank_base sample_policy) (mset h)
       = filter_mset (lb_is_current rank_base sample_policy) (mset (pol_heap sample_policy))"
proof -
  have "fst (policy_evict rank_base 6 {} sample_policy) = Inr None"
    by (simp add: policy_evict_def act_simps sample_policy_def bind_keys_def bind_key_def policy_init_def
        conv_keys_def conv_ready_def rank_base_def ls_add_def ls_del_def Let_def take_unbound_def)
  then show ?thesis
    using failed_evict_changes_nothing [OF sample_policy_wf rank_base_ok, of 6 "{}"] by auto
qed

text \<open>C8. Under every sequence of binds, unbinds, takes, removals, touches and evictions the two
  ownership maps stay inverse to each other, no conversation lists a key twice, and the recency list
  holds exactly the conversations that are known, each once.\<close>

theorem policy_runs_keep_ownership:
  assumes "base_ok B"
  shows "let p = run_ops (policy_step B) ops (policy_init chunks evictable ranks heap) in
     (\<forall>k c. pol_conv_of p k = Some c \<longleftrightarrow> k \<in> set (conv_keys p c)) \<and> (\<forall>c. distinct (conv_keys p c))
     \<and> set (pol_conv_lru p) = dom (pol_conv_keys p) \<and> distinct (pol_conv_lru p)"
proof -
  have "policy_wf (run_ops (policy_step B) ops (policy_init chunks evictable ranks heap))"
    by (rule run_ops_inv) (auto intro: policy_step_wf [OF assms] policy_init_wf)
  then show ?thesis by (simp add: policy_wf_def Let_def)
qed

theorem policy_runs_keep_ownership_witness:
  "let p = run_ops (policy_step rank_base) [PBind [1] [[21]], PBind [2] [[21], [22]], PEvict 1 {}]
             (policy_init (\<lambda>_. None) {} (\<lambda>_. None) []) in
   distinct (pol_conv_lru p) \<and> set (pol_conv_lru p) = dom (pol_conv_keys p)"
  using policy_runs_keep_ownership [OF rank_base_ok, where chunks = "\<lambda>_. None" and evictable = "{}"
      and ranks = "\<lambda>_. None" and heap = "[]" and ops = "[PBind [1] [[21]], PBind [2] [[21], [22]], PEvict 1 {}]"]
  by (simp only: Let_def)

text \<open>
  Rebinding a conversation's last key to another conversation leaves the first in the recency list with
  no key: \<open>unbind_conv\<close> has no key to walk over, so only a later bind can remove it again.
\<close>

lemma rebound_conversation_stays_listed:
  "let p = unbind_conv [1] (bind_keys [2] [[21]] (bind_keys [1] [[21]] (policy_init (\<lambda>_. None) {} (\<lambda>_. None) [])))
   in conv_keys p [1] = [] \<and> [1] \<in> set (pol_conv_lru p)"
  by (simp add: bind_keys_def bind_key_def policy_init_def conv_keys_def unbind_conv_def ls_add_def ls_del_def Let_def)

end
