(* ===== verification/Parking.thy ===== *)
theory Parking
  imports Kv_Layout Kv_Park Conv_Policy
begin

text \<open>
  The parking scheduler, \<open>vllm/flashnext/kvoffload/parking.py\<close>: the operations that queue a finished
  request's tail, store it through the index and the policy, match a new request against a parked
  tail, and load it. The superclass, the offload manager, the block pool and the job counter belong to
  vLLM; their operations are arguments of the definitions (\<open>vllm\<close>), values they exchange that the
  code only passes on have the type \<open>'v\<close>. Calls on the block pool and on \<open>manager._free_chunk\<close> are
  recorded in the order they are made. Logging is left out.
\<close>

section \<open>Requests, groups, plans\<close>

text \<open>What the code asks of a KV cache spec: its class name, whether it is an instance of the two
  attention classes, and the label of its Mamba type.\<close>

record kv_spec =
  sp_class :: string
  sp_is_full_attention :: bool
  sp_is_mamba :: bool
  sp_label :: string

text \<open>\<open>sub in s\<close> on strings.\<close>

fun has_sub :: "string \<Rightarrow> string \<Rightarrow> bool" where
  "has_sub sub [] = (sub = [])"
| "has_sub sub (c # s) = (take (length sub) (c # s) = sub \<or> has_sub sub s)"

definition kind_of :: "kv_spec \<Rightarrow> bool \<Rightarrow> string" where
  "kind_of spec eagle =
     (if sp_is_full_attention spec then if eagle then ''eagle'' else ''full_attention''
      else if sp_is_mamba spec then if has_sub ''GDN'' (sp_label spec) then ''gdn'' else ''mamba''
      else sp_class spec)"

record kv_group =
  kg_idx :: nat
  kg_spec :: kv_spec
  kg_eagle :: bool
  kg_tokens_per_block :: int
  kg_tokens_per_chunk :: int
  kg_hashes_per_chunk :: int

definition kg_kind :: "kv_group \<Rightarrow> string" where
  "kg_kind g = kind_of (kg_spec g) (kg_eagle g)"

record request =
  rq_id :: string
  rq_hashes :: "bytes list"
  rq_tokens :: "int list"
  rq_computed :: int
  rq_in_flight :: int
  rq_prompt :: int

text \<open>\<open>n.to_bytes(k, "big")\<close>; a value out of range raises \<open>OverflowError\<close>.\<close>

fun be_bytes :: "nat \<Rightarrow> int \<Rightarrow> bytes" where
  "be_bytes 0 n = []"
| "be_bytes (Suc k) n = be_bytes k (n div 256) @ [word_of_int n]"

definition to_bytes :: "nat \<Rightarrow> int \<Rightarrow> bytes res" where
  "to_bytes k n = (if n < 0 \<or> 256 ^ k \<le> n then Inl (OverflowError ''int too big to convert'') else Inr (be_bytes k n))"

definition ascii :: "string \<Rightarrow> bytes" where
  "ascii s = map (\<lambda>c. of_nat (of_char c)) s"

definition tail_hash :: "bytes \<Rightarrow> int \<Rightarrow> nat \<Rightarrow> string \<Rightarrow> bytes res" where
  "tail_hash conv e group_idx kind =
     bindR (to_bytes 8 e) (\<lambda>eb. bindR (to_bytes 2 (int group_idx)) (\<lambda>gb.
       Inr (ascii ''G4T'' @ ascii kind @ eb @ gb @ conv)))"

record group_plan =
  gl_group :: nat
  gl_kind :: string
  gl_keys :: "bytes list"

record gblock =
  gb_id :: int
  gb_null :: bool
  gb_hash :: "bytes option"

record pending =
  pd_req :: string
  pd_conv :: bytes
  pd_parent :: "bytes option"
  pd_tail :: "int list"
  pd_end :: int
  pd_full :: "bytes list"
  pd_tail_keys :: "bytes list"
  pd_plans :: "group_plan list"
  pd_src :: "int list"
  pd_sizes :: "int list"
  pd_indices :: "int list"
  pd_pins :: "gblock list"

section \<open>State\<close>

record 'v req_status =
  rs_jobs :: "int list"
  rs_context :: 'v
  rs_local :: int
  rs_partial :: "int option"
  rs_ranges :: "(int \<times> int \<times> bytes) list"

record 'v job_status =
  js_req :: string
  js_pending :: int
  js_keys :: "bytes list"
  js_is_store :: bool
  js_fence :: "int list"

record gpu_spec =
  gs_blocks :: "int list"
  gs_sizes :: "int list"
  gs_indices :: "int list"

text \<open>A transfer job: the source and destination, one of which is the GPU side.\<close>

record 'v transfer =
  tj_req :: string
  tj_gpu :: gpu_spec
  tj_host :: 'v

record 'v pstate =
  ps_park :: park_index
  ps_block :: int
  ps_exact :: bool
  ps_pool :: "gblock list option"
  ps_touched :: "gblock list"
  ps_freed :: "gblock list"
  ps_pending :: "pending list"
  ps_plans :: "(tail_key, group_plan list) odict"
  ps_pin_holds :: "(int, gblock list) odict"
  ps_running :: "(bytes, int) odict"
  ps_req_conv :: "(string, bytes) odict"
  ps_choice :: "(string, tail_key \<times> int) odict"
  ps_groups :: "kv_group list"
  ps_workers :: int
  ps_policy :: "'v policy"
  ps_evictable_count :: int
  ps_freed_chunks :: "'v chunk list"
  ps_req_status :: "(string, 'v req_status) odict"
  ps_jobs :: "(int, 'v job_status) odict"
  ps_flush :: "int list"
  ps_load_jobs :: "(int, 'v transfer) odict"
  ps_allocated :: "int list"
  ps_loading :: "bytes list option"

datatype lookup_result = LMiss | LHit | LHitPending | LRetry

text \<open>What the code calls of vLLM.\<close>

record 'v vllm =
  vl_key :: "bytes \<Rightarrow> nat \<Rightarrow> bytes"
  vl_get :: "'v policy \<Rightarrow> bytes \<Rightarrow> 'v chunk option"
  vl_cdiv :: "int \<Rightarrow> int \<Rightarrow> int"
  vl_mark_non_evictable :: "bytes \<Rightarrow> 'v policy \<Rightarrow> 'v policy"
  vl_mark_evictable :: "bytes \<Rightarrow> 'v policy \<Rightarrow> 'v policy"
  vl_prepare_store :: "bytes list \<Rightarrow> 'v \<Rightarrow> ('v pstate, (bytes list \<times> 'v) option) act"
  vl_prepare_load :: "bytes list \<Rightarrow> 'v \<Rightarrow> ('v pstate, 'v) act"
  vl_lookup :: "bytes \<Rightarrow> 'v \<Rightarrow> 'v pstate \<Rightarrow> lookup_result"
  vl_job_id :: "('v pstate, int) act"
  vl_acquire_step :: "('v pstate, unit) act"
  vl_update_hits :: "int \<Rightarrow> 'v req_status \<Rightarrow> 'v req_status"
  vl_new_request :: "request \<Rightarrow> ('v pstate, unit) act"
  vl_finished :: "request \<Rightarrow> ('v pstate, 'v) act"
  vl_push_work :: "'v pstate \<Rightarrow> bool"
  vl_meta :: "('v pstate, (int, 'v transfer) odict) act"
  vl_output :: "'v \<Rightarrow> ('v pstate, unit) act"
  vl_matched :: "request \<Rightarrow> int \<Rightarrow> int option \<Rightarrow> ('v pstate, int option \<times> bool) act"
  vl_after_alloc :: "request \<Rightarrow> gblock list list \<Rightarrow> int \<Rightarrow> ('v pstate, unit) act"

text \<open>Running an index step on the park the scheduler holds.\<close>

definition parkA :: "(park_index, 'a) act \<Rightarrow> ('v pstate, 'a) act" where
  "parkA = zoomA ps_park (\<lambda>t s. s\<lparr>ps_park := t\<rparr>)"

definition init_parking :: "int \<Rightarrow> int \<Rightarrow> int \<Rightarrow> ('v pstate, unit) act" where
  "init_parking num_chunks slots block_size = withA (\<lambda>s0.
     if num_chunks \<le> 0 then raiseA (RuntimeError ''CPU offload pool has no chunks'')
     else bindA (liftA (\<lambda>_. index_init slots num_chunks block_size)) (\<lambda>ix.
          modA (\<lambda>s. s\<lparr>ps_park := ix, ps_block := block_size,
            ps_exact := list_all (\<lambda>g. kg_hashes_per_chunk g = 1 \<and> kg_tokens_per_chunk g = kg_tokens_per_block g) (ps_groups s),
            ps_pool := None, ps_pending := [], ps_plans := [], ps_pin_holds := [], ps_running := [],
            ps_req_conv := [], ps_choice := []\<rparr>)))"

section \<open>Requests that start and finish\<close>

definition conv_of :: "request \<Rightarrow> bytes option" where
  "conv_of rq = (case rq_hashes rq of [] \<Rightarrow> None | h # _ \<Rightarrow> Some h)"

definition note_running :: "bytes \<Rightarrow> int \<Rightarrow> ('v pstate, unit) act" where
  "note_running c delta = withA (\<lambda>s.
     let count = (case od_get (ps_running s) c of None \<Rightarrow> 0 | Some n \<Rightarrow> n) + delta in
     if count \<le> 0
     then bindA (modA (\<lambda>s. s\<lparr>ps_running := od_del c (ps_running s)\<rparr>)) (\<lambda>_. parkA (set_running c False))
     else bindA (modA (\<lambda>s. s\<lparr>ps_running := od_put c count (ps_running s)\<rparr>)) (\<lambda>_. parkA (set_running c True)))"

definition on_new_request :: "'v vllm \<Rightarrow> request \<Rightarrow> ('v pstate, unit) act" where
  "on_new_request V rq =
     bindA (vl_new_request V rq) (\<lambda>_.
       case conv_of rq of
         None \<Rightarrow> retA ()
       | Some c \<Rightarrow> bindA (modA (\<lambda>s. s\<lparr>ps_req_conv := od_put (rq_id rq) c (ps_req_conv s)\<rparr>)) (\<lambda>_. note_running c 1))"

definition release_tail_pin :: "tail_key \<Rightarrow> ('v pstate, unit) act" where
  "release_tail_pin key = parkA (withA (\<lambda>ix.
     case pi_by_tail ix key of
       None \<Rightarrow> retA ()
     | Some r \<Rightarrow> if tr_pinned (obj ix r) > 0 then unpin r else retA ()))"

definition pop_choice :: "string \<Rightarrow> ('v pstate, (tail_key \<times> int) option) act" where
  "pop_choice req = withA (\<lambda>s. bindA (modA (\<lambda>s. s\<lparr>ps_choice := od_del req (ps_choice s)\<rparr>)) (\<lambda>_.
     retA (od_get (ps_choice s) req)))"

definition request_finished :: "'v vllm \<Rightarrow> request \<Rightarrow> ('v pstate, 'v) act" where
  "request_finished V rq =
     bindA (pop_choice (rq_id rq)) (\<lambda>choice.
     bindA (case choice of None \<Rightarrow> retA () | Some ch \<Rightarrow> release_tail_pin (fst ch)) (\<lambda>_.
     withA (\<lambda>s. let conv = od_get (ps_req_conv s) (rq_id rq) in
       bindA (modA (\<lambda>s. s\<lparr>ps_req_conv := od_del (rq_id rq) (ps_req_conv s)\<rparr>)) (\<lambda>_.
       bindA (case conv of None \<Rightarrow> retA () | Some c \<Rightarrow> note_running c (- 1)) (\<lambda>_.
         vl_finished V rq)))))"

definition has_pending_push_work :: "'v vllm \<Rightarrow> 'v pstate \<Rightarrow> bool" where
  "has_pending_push_work V s = (ps_pending s \<noteq> [] \<or> vl_push_work V s)"

definition bind_pool :: "gblock list \<Rightarrow> ('v pstate, unit) act" where
  "bind_pool pool = modA (\<lambda>s. s\<lparr>ps_pool := Some pool\<rparr>)"

section \<open>Queueing the tail of a finished request\<close>

record tail_acc =
  ac_full :: "bytes list"
  ac_tail :: "bytes list"
  ac_plans :: "group_plan list"
  ac_src :: "int list"
  ac_sizes :: "int list"
  ac_indices :: "int list"
  ac_attn :: bool
  ac_gdn :: bool

definition add_plan :: "group_plan \<Rightarrow> bytes list \<Rightarrow> int list \<Rightarrow> int \<Rightarrow> tail_acc \<Rightarrow> tail_acc" where
  "add_plan plan tails src index a =
     a\<lparr>ac_plans := ac_plans a @ [plan], ac_tail := ac_tail a @ tails, ac_src := ac_src a @ src,
       ac_sizes := ac_sizes a @ [int (length src)], ac_indices := ac_indices a @ [index]\<rparr>"

definition offered_blocks :: "(nat \<times> int \<times> int) list \<Rightarrow> int \<Rightarrow> (nat, int) odict" where
  "offered_blocks offloads e =
     fold (\<lambda>(g, b, boundary) d. if boundary = e \<and> b > 0 then od_put g b d else d) offloads []"

text \<open>One round of the loop over the KV groups; \<open>None\<close> is the early return.\<close>

definition plan_group :: "'v vllm \<Rightarrow> request \<Rightarrow> bytes \<Rightarrow> int \<Rightarrow> int \<Rightarrow> int list list \<Rightarrow> (nat, int) odict \<Rightarrow>
    kv_group \<Rightarrow> tail_acc \<Rightarrow> tail_acc option res" where
  "plan_group V rq conv block e block_ids offered g a =
     (let kind = kg_kind g; i = kg_idx g; nfull = e div block in
      if kind = ''eagle'' then Inr (Some (add_plan \<lparr>gl_group = i, gl_kind = ''attn'', gl_keys = []\<rparr> [] [] 0 a))
      else if kind = ''full_attention''
      then let keys = map (\<lambda>h. vl_key V h i) (take (nat nfull) (rq_hashes rq));
               a1 = a\<lparr>ac_attn := True, ac_full := ac_full a @ keys\<rparr>
           in if e mod block = 0
              then Inr (Some (add_plan \<lparr>gl_group = i, gl_kind = ''attn'', gl_keys = keys\<rparr> [] [] 0 a1))
              else let page = vl_cdiv V e block - 1;
                       table = (if i < length block_ids then block_ids ! i else [])
                   in if page \<ge> int (length table) then Inr None
                      else bindR (py_nth table page) (\<lambda>b.
                        if b \<le> 0 then Inr None
                        else bindR (tail_hash conv e i ''attn'') (\<lambda>h.
                          let tk = vl_key V h i
                          in Inr (Some (add_plan \<lparr>gl_group = i, gl_kind = ''attn'', gl_keys = keys @ [tk]\<rparr> [tk] [b] page a1))))
      else if kind = ''gdn'' \<or> kind = ''mamba''
      then let b = (case od_get offered i of None \<Rightarrow> 0 | Some b \<Rightarrow> b);
               a1 = a\<lparr>ac_gdn := (ac_gdn a \<or> kind = ''gdn'')\<rparr>
           in if b \<le> 0 then Inr None
              else bindR (tail_hash conv e i kind) (\<lambda>h.
                let tk = vl_key V h i
                in Inr (Some (add_plan \<lparr>gl_group = i, gl_kind = ''state'', gl_keys = [tk]\<rparr> [tk] [b]
                          (max 0 ((e - 1) div block)) a1)))
      else Inr None)"

fun plan_groups :: "'v vllm \<Rightarrow> request \<Rightarrow> bytes \<Rightarrow> int \<Rightarrow> int \<Rightarrow> int list list \<Rightarrow> (nat, int) odict \<Rightarrow>
    kv_group list \<Rightarrow> tail_acc \<Rightarrow> tail_acc option res" where
  "plan_groups V rq conv block e block_ids offered [] a = Inr (Some a)"
| "plan_groups V rq conv block e block_ids offered (g # gs) a =
     bindR (plan_group V rq conv block e block_ids offered g a) (\<lambda>r.
       case r of None \<Rightarrow> Inr None | Some a' \<Rightarrow> plan_groups V rq conv block e block_ids offered gs a')"

definition empty_acc :: tail_acc where
  "empty_acc = \<lparr>ac_full = [], ac_tail = [], ac_plans = [], ac_src = [], ac_sizes = [], ac_indices = [],
     ac_attn = False, ac_gdn = False\<rparr>"

definition build_pending :: "'v vllm \<Rightarrow> request \<Rightarrow> int list list \<Rightarrow> (nat \<times> int \<times> int) list \<Rightarrow> int \<Rightarrow>
    'v pstate \<Rightarrow> pending option res" where
  "build_pending V rq block_ids offloads e s =
     (let block = ps_block s in
      if list_ex (\<lambda>g. kg_tokens_per_block g \<noteq> block) (ps_groups s) then Inr None
      else case conv_of rq of
        None \<Rightarrow> Inr None
      | Some conv \<Rightarrow>
          let nfull = e div block in
          if nfull > int (length (rq_hashes rq)) then Inr None
          else let prefix = nfull * block; tl = py_slice (rq_tokens rq) prefix e in
          if int (length tl) \<noteq> e - prefix then Inr None
          else let parent = (if nfull = 0 then None else Some (rq_hashes rq ! nat (nfull - 1)));
                   offered = offered_blocks offloads e
               in bindR (plan_groups V rq conv block e block_ids offered (ps_groups s) empty_acc) (\<lambda>r.
                  case r of
                    None \<Rightarrow> Inr None
                  | Some a \<Rightarrow>
                      if \<not> ac_attn a \<or> \<not> ac_gdn a \<or> ac_tail a = [] then Inr None
                      else Inr (Some \<lparr>pd_req = rq_id rq, pd_conv = conv, pd_parent = parent, pd_tail = tl,
                             pd_end = e, pd_full = ac_full a, pd_tail_keys = ac_tail a, pd_plans = ac_plans a,
                             pd_src = ac_src a, pd_sizes = ac_sizes a, pd_indices = ac_indices a, pd_pins = []\<rparr>)))"

text \<open>\<open>_pin\<close>: the distinct non-null blocks behind the ids; one \<open>pool.touch\<close> of them all.\<close>

fun pin_blocks :: "gblock list \<Rightarrow> int list \<Rightarrow> int set \<Rightarrow> gblock list res" where
  "pin_blocks pool [] seen = Inr []"
| "pin_blocks pool (b # bs) seen =
     (if b \<le> 0 \<or> b \<in> seen then pin_blocks pool bs seen
      else bindR (py_nth pool b) (\<lambda>blk.
        if gb_null blk then pin_blocks pool bs (insert b seen)
        else bindR (pin_blocks pool bs (insert b seen)) (\<lambda>rest. Inr (blk # rest))))"

definition pin_all :: "int list \<Rightarrow> ('v pstate, gblock list) act" where
  "pin_all ids = withA (\<lambda>s. case ps_pool s of
     None \<Rightarrow> retA []
   | Some pool \<Rightarrow> bindA (liftA (\<lambda>_. pin_blocks pool ids {})) (\<lambda>blocks.
       bindA (modA (\<lambda>s. s\<lparr>ps_touched := ps_touched s @ blocks\<rparr>)) (\<lambda>_. retA blocks)))"

definition release_pin :: "gblock list \<Rightarrow> 'v pstate \<Rightarrow> 'v pstate" where
  "release_pin blocks s =
     (if ps_pool s \<noteq> None \<and> blocks \<noteq> [] then s\<lparr>ps_freed := ps_freed s @ blocks\<rparr> else s)"

text \<open>\<open>available\<close> is what \<open>_mem_available\<close> reads from \<open>/proc/meminfo\<close>.\<close>

definition register_tail :: "'v vllm \<Rightarrow> int option \<Rightarrow> request \<Rightarrow> int list list \<Rightarrow> (nat \<times> int \<times> int) list \<Rightarrow>
    ('v pstate, unit) act" where
  "register_tail V available rq block_ids offloads = withA (\<lambda>s.
     if \<not> ps_exact s then retA ()
     else let e = rq_computed rq in
     if e \<le> 0 \<or> rq_in_flight rq \<noteq> 0 then retA ()
     else bindA (liftA (\<lambda>_. case available of None \<Rightarrow> Inr True
            | Some m \<Rightarrow> host_has_reserve m HOST_RESERVE_BYTES)) (\<lambda>room.
       if \<not> room then retA ()
       else bindA (liftA (build_pending V rq block_ids offloads e)) (\<lambda>r. case r of
          None \<Rightarrow> retA ()
        | Some p \<Rightarrow> bindA (pin_all (pd_src p)) (\<lambda>blocks.
            modA (\<lambda>s. s\<lparr>ps_pending := ps_pending s @ [p\<lparr>pd_pins := blocks\<rparr>]\<rparr>)))))"

section \<open>Storing a queued tail\<close>

definition set_ref :: "bytes \<Rightarrow> int \<Rightarrow> 'v policy \<Rightarrow> 'v policy" where
  "set_ref k n p = p\<lparr>pol_chunks := (pol_chunks p)(k := map_option (\<lambda>ch. ch\<lparr>ck_ref_cnt := n\<rparr>) (pol_chunks p k))\<rparr>"

fun pin_resident :: "'v vllm \<Rightarrow> bytes list \<Rightarrow> ('v pstate, bytes list) act" where
  "pin_resident V [] = retA []"
| "pin_resident V (k # ks) = withA (\<lambda>s.
     case vl_get V (ps_policy s) k of
       None \<Rightarrow> pin_resident V ks
     | Some ch \<Rightarrow>
         if ck_ref_cnt ch \<noteq> 0 \<or> k \<notin> pol_evictable (ps_policy s) then pin_resident V ks
         else bindA (modA (\<lambda>s. s\<lparr>ps_policy := set_ref k (ck_ref_cnt ch + 1) (vl_mark_non_evictable V k (ps_policy s)),
                                 ps_evictable_count := ps_evictable_count s - 1\<rparr>)) (\<lambda>_.
              bindA (pin_resident V ks) (\<lambda>rest. retA (k # rest))))"

fun unpin_resident :: "'v vllm \<Rightarrow> bytes list \<Rightarrow> 'v pstate \<Rightarrow> 'v pstate" where
  "unpin_resident V [] s = s"
| "unpin_resident V (k # ks) s =
     (case vl_get V (ps_policy s) k of
        None \<Rightarrow> unpin_resident V ks s
      | Some ch \<Rightarrow>
          let s1 = s\<lparr>ps_policy := set_ref k (ck_ref_cnt ch - 1) (ps_policy s)\<rparr> in
          if ck_ref_cnt ch - 1 = 0
          then unpin_resident V ks (s1\<lparr>ps_evictable_count := ps_evictable_count s1 + 1,
                 ps_policy := vl_mark_evictable V k (ps_policy s1)\<rparr>)
          else unpin_resident V ks s1)"

definition abort_tail :: "rid \<Rightarrow> ('v pstate, unit) act" where
  "abort_tail r = withA (\<lambda>s. let record = obj (ps_park s) r in
     bindA (modA (\<lambda>s. s\<lparr>ps_plans := od_del (tr_key record) (ps_plans s)\<rparr>)) (\<lambda>_.
     bindA (catchA is_value_error (parkA (discard (tr_key record))) (\<lambda>_. retA ())) (\<lambda>_.
       modA (\<lambda>s. s\<lparr>ps_policy := unbind_conv (tr_conv record) (ps_policy s)\<rparr>))))"

definition release_keys :: "bytes list \<Rightarrow> ('v pstate, unit) act" where
  "release_keys keys = modA (\<lambda>s.
     let (freed, p) = take_evictable keys (ps_policy s) in
     if freed = [] then s\<lparr>ps_policy := p\<rparr>
     else s\<lparr>ps_policy := p, ps_evictable_count := ps_evictable_count s - int (length freed),
            ps_freed_chunks := ps_freed_chunks s @ map snd freed\<rparr>)"

definition pending_args :: "pending \<Rightarrow> store_args" where
  "pending_args p = \<lparr>sa_conv = pd_conv p, sa_parent = pd_parent p, sa_tail = pd_tail p, sa_end = pd_end p,
     sa_full = pd_full p, sa_nbytes = max 1 (int (length (pd_full p)) + int (length (pd_tail_keys p))),
     sa_tail_only = pd_tail_keys p, sa_slots = None\<rparr>"

text \<open>A load of the same request still in flight: the status of any one of its jobs.\<close>

definition load_in_flight :: "'v pstate \<Rightarrow> 'v req_status \<Rightarrow> bool res" where
  "load_in_flight s st = (case rs_jobs st of
     [] \<Rightarrow> Inr False
   | j # _ \<Rightarrow> (case od_get (ps_jobs s) j of None \<Rightarrow> Inl (KeyError ''_jobs'') | Some js \<Rightarrow> Inr (\<not> js_is_store js)))"

definition set_status :: "string \<Rightarrow> ('v req_status \<Rightarrow> 'v req_status) \<Rightarrow> 'v pstate \<Rightarrow> 'v pstate" where
  "set_status req f s = (case od_get (ps_req_status s) req of
     None \<Rightarrow> s | Some st \<Rightarrow> s\<lparr>ps_req_status := od_put req (f st) (ps_req_status s)\<rparr>)"

text \<open>The end of \<open>_prepare_one\<close>: the store job and its transfer.\<close>

definition start_store :: "'v vllm \<Rightarrow> pending \<Rightarrow> bytes list \<Rightarrow> 'v \<Rightarrow> ('v pstate, (int \<times> 'v transfer) option) act" where
  "start_store V p keys_to_store spec =
     bindA (vl_job_id V) (\<lambda>job.
     bindA (modA (set_status (pd_req p) (\<lambda>st. st\<lparr>rs_jobs := ls_add job (rs_jobs st)\<rparr>))) (\<lambda>_.
     bindA (modA (\<lambda>s. s\<lparr>ps_jobs := od_put job \<lparr>js_req = pd_req p, js_pending = ps_workers s,
              js_keys = keys_to_store, js_is_store = True, js_fence = pd_src p\<rparr> (ps_jobs s)\<rparr>)) (\<lambda>_.
       retA (Some (job, \<lparr>tj_req = pd_req p, tj_gpu = \<lparr>gs_blocks = pd_src p, gs_sizes = pd_sizes p,
         gs_indices = pd_indices p\<rparr>, tj_host = spec\<rparr>)))))"

text \<open>The part of \<open>_prepare_one\<close> after the park accepted the tail as record \<open>r\<close>.\<close>

definition store_tail :: "'v vllm \<Rightarrow> pending \<Rightarrow> 'v req_status \<Rightarrow> rid \<Rightarrow>
    ('v pstate, (int \<times> 'v transfer) option) act" where
  "store_tail V p st r =
     bindA (pin_resident V (pd_full p)) (\<lambda>cpu_pins.
     bindA (catchA (\<lambda>_. True)
              (bindA (vl_prepare_store V (pd_tail_keys p) (rs_context st)) (\<lambda>out. retA (Some out)))
              (\<lambda>_. bindA (modA (unpin_resident V cpu_pins)) (\<lambda>_. bindA (abort_tail r) (\<lambda>_. retA None)))) (\<lambda>res.
     case res of
       None \<Rightarrow> retA None
     | Some out \<Rightarrow>
         bindA (modA (unpin_resident V cpu_pins)) (\<lambda>_.
         case out of
           None \<Rightarrow> bindA (abort_tail r) (\<lambda>_. retA None)
         | Some (keys_to_store, spec) \<Rightarrow>
             if keys_to_store = [] then retA None
             else start_store V p keys_to_store spec)))"

definition prepare_one :: "'v vllm \<Rightarrow> pending \<Rightarrow> ('v pstate, (int \<times> 'v transfer) option) act" where
  "prepare_one V p = withA (\<lambda>s.
     case od_get (ps_req_status s) (pd_req p) of
       None \<Rightarrow> retA None
     | Some st \<Rightarrow>
         bindA (liftA (\<lambda>s. load_in_flight s st)) (\<lambda>loading.
         if loading then retA None
         else bindA (catchA is_value_error (bindA (parkA (store (pending_args p))) (\<lambda>x. retA (Some x))) (\<lambda>_. retA None)) (\<lambda>x.
         case x of
           None \<Rightarrow> retA None
         | Some stored \<Rightarrow>
             bindA (release_keys (sr_released stored)) (\<lambda>_.
             bindA (modA (\<lambda>s. s\<lparr>ps_plans := od_put (tr_key (obj (ps_park s) (sr_record stored))) (pd_plans p)
                      (filter (\<lambda>kp. pi_by_tail (ps_park s) (fst kp) \<noteq> None) (ps_plans s))\<rparr>)) (\<lambda>_.
             bindA (modA (\<lambda>s. s\<lparr>ps_policy := bind_keys (pd_conv p) (pd_full p @ pd_tail_keys p) (ps_policy s)\<rparr>)) (\<lambda>_.
               store_tail V p st (sr_record stored)))))))"

fun prepare_all :: "'v vllm \<Rightarrow> pending list \<Rightarrow> (int, 'v transfer) odict \<Rightarrow>
    ('v pstate, (int, 'v transfer) odict) act" where
  "prepare_all V [] jobs = retA jobs"
| "prepare_all V (p # ps) jobs =
     bindA (prepare_one V p) (\<lambda>job. case job of
       None \<Rightarrow> bindA (modA (release_pin (pd_pins p))) (\<lambda>_. prepare_all V ps jobs)
     | Some (j, transfer) \<Rightarrow>
         bindA (modA (\<lambda>s. s\<lparr>ps_flush := ls_add j (ps_flush s), ps_pin_holds := od_put j (pd_pins p) (ps_pin_holds s)\<rparr>)) (\<lambda>_.
           prepare_all V ps (od_put j transfer jobs)))"

definition prepare_pending_tails :: "'v vllm \<Rightarrow> ('v pstate, (int, 'v transfer) odict) act" where
  "prepare_pending_tails V = withA (\<lambda>s.
     if ps_pending s = [] then retA []
     else bindA (modA (\<lambda>s. s\<lparr>ps_pending := []\<rparr>)) (\<lambda>_. prepare_all V (ps_pending s) []))"

definition build_connector_meta :: "'v vllm \<Rightarrow> ('v pstate, (int, 'v transfer) odict) act" where
  "build_connector_meta V =
     bindA (prepare_pending_tails V) (\<lambda>extra.
     bindA (vl_meta V) (\<lambda>store_jobs.
       retA (fold (\<lambda>(j, t) d. od_put j t d) extra store_jobs)))"

definition unpin_job :: "int \<Rightarrow> ('v pstate, unit) act" where
  "unpin_job j = withA (\<lambda>s. let blocks = (case od_get (ps_pin_holds s) j of None \<Rightarrow> [] | Some bs \<Rightarrow> bs) in
     bindA (modA (\<lambda>s. s\<lparr>ps_pin_holds := od_del j (ps_pin_holds s)\<rparr>)) (\<lambda>_. modA (release_pin blocks)))"

definition update_connector_output :: "'v vllm \<Rightarrow> 'v \<Rightarrow> ('v pstate, unit) act" where
  "update_connector_output V out =
     bindA (vl_output V out) (\<lambda>_. withA (\<lambda>s.
       let finished = filter (\<lambda>j. j \<notin> set (od_keys (ps_jobs s))) (od_keys (ps_pin_holds s))
       in bindA (mapA unpin_job finished) (\<lambda>_. retA ())))"

section \<open>Matching a new request\<close>

definition waiting_on_pending :: "'v pstate \<Rightarrow> int list \<Rightarrow> int \<Rightarrow> bool" where
  "waiting_on_pending s ids prompt_len = list_ex (\<lambda>p.
     \<not> (pd_end p \<le> 0 \<or> pd_end p \<ge> prompt_len)
     \<and> (let prefix = pd_end p - int (length (pd_tail p))
        in prefix mod ps_block s = 0 \<and> py_slice ids prefix (pd_end p) = pd_tail p)) (ps_pending s)"

datatype park_status = TMiss | TPending | THit

fun status_of_keys :: "'v vllm \<Rightarrow> 'v \<Rightarrow> 'v pstate \<Rightarrow> bytes list \<Rightarrow> bool \<Rightarrow> park_status" where
  "status_of_keys V ctx s [] pend = (if pend then TPending else THit)"
| "status_of_keys V ctx s (k # ks) pend =
     (case vl_lookup V k ctx s of
        LMiss \<Rightarrow> TMiss
      | LHitPending \<Rightarrow> status_of_keys V ctx s ks True
      | LRetry \<Rightarrow> status_of_keys V ctx s ks True
      | LHit \<Rightarrow> status_of_keys V ctx s ks pend)"

definition tail_status :: "'v vllm \<Rightarrow> 'v pstate \<Rightarrow> tail_key \<Rightarrow> string \<Rightarrow> park_status res" where
  "tail_status V s key req =
     (case od_get (ps_plans s) key of
        None \<Rightarrow> Inr TMiss
      | Some plans \<Rightarrow>
          if plans = [] then Inr TMiss
          else case od_get (ps_req_status s) req of
                 None \<Rightarrow> Inl (KeyError ''_req_status'')
               | Some st \<Rightarrow> Inr (status_of_keys V (rs_context st) s (concat (map gl_keys plans)) False))"

text \<open>Recording the choice of a tail for a request: the previous choice gives its pin back.\<close>

definition choose_tail :: "string \<Rightarrow> rid \<Rightarrow> ('v pstate, unit) act" where
  "choose_tail req r = withA (\<lambda>s.
     let record = obj (ps_park s) r; prev = od_get (ps_choice s) req in
     bindA (case prev of
              None \<Rightarrow> parkA (pin r)
            | Some p \<Rightarrow> if fst p \<noteq> tr_key record
                        then bindA (release_tail_pin (fst p)) (\<lambda>_. parkA (pin r)) else retA ()) (\<lambda>_.
       modA (\<lambda>s. s\<lparr>ps_choice := od_put req (tr_key record, tr_end record) (ps_choice s)\<rparr>)))"

text \<open>The end of \<open>get_num_new_matched_tokens\<close>, once the index has found record \<open>r\<close>; \<open>h\<close> and
  \<open>async_load\<close> are the superclass's answer.\<close>

definition accept_tail :: "'v vllm \<Rightarrow> request \<Rightarrow> int \<Rightarrow> int option \<Rightarrow> int \<Rightarrow> bool \<Rightarrow> rid \<Rightarrow>
    ('v pstate, int option \<times> bool) act" where
  "accept_tail V rq num_computed max_new h async_load r = withA (\<lambda>s.
     let e = tr_end (obj (ps_park s) r) in
     if e \<le> num_computed + h then retA (Some h, async_load)
     else if (case max_new of None \<Rightarrow> False | Some m \<Rightarrow> e - num_computed > m) then retA (Some h, async_load)
     else bindA (liftA (\<lambda>s. tail_status V s (tr_key (obj (ps_park s) r)) (rq_id rq))) (\<lambda>status.
       case status of
         TPending \<Rightarrow> retA (None, False)
       | TMiss \<Rightarrow> retA (Some h, async_load)
       | THit \<Rightarrow>
           if od_get (ps_req_status s) (rq_id rq) = None then raiseA (KeyError ''_req_status'')
           else bindA (modA (set_status (rq_id rq) (\<lambda>st. vl_update_hits V e (st\<lparr>rs_partial := None\<rparr>)))) (\<lambda>_.
                bindA (choose_tail (rq_id rq) r) (\<lambda>_.
                  retA (Some (e - num_computed), True)))))"

definition get_num_new_matched_tokens :: "'v vllm \<Rightarrow> request \<Rightarrow> int \<Rightarrow> int option \<Rightarrow>
    ('v pstate, int option \<times> bool) act" where
  "get_num_new_matched_tokens V rq num_computed max_new =
     bindA (vl_matched V rq num_computed max_new) (\<lambda>(hit, async_load). withA (\<lambda>s.
     case hit of
       None \<Rightarrow> retA (hit, async_load)
     | Some h \<Rightarrow>
         if \<not> ps_exact s \<or> rq_prompt rq \<le> num_computed then retA (hit, async_load)
         else let prompt_len = rq_prompt rq; ids = py_slice (rq_tokens rq) 0 prompt_len in
         if waiting_on_pending s ids prompt_len then retA (None, False)
         else bindA (parkA (index_find ids (rq_hashes rq) prompt_len)) (\<lambda>found.
           case found of
             None \<Rightarrow> retA (hit, async_load)
           | Some r \<Rightarrow> accept_tail V rq num_computed max_new h async_load r)))"

section \<open>Loading a matched tail\<close>

record load_acc =
  la_keys :: "bytes list"
  la_dst :: "int list"
  la_sizes :: "int list"
  la_indices :: "int list"

definition add_load :: "bytes list \<Rightarrow> int list \<Rightarrow> int \<Rightarrow> load_acc \<Rightarrow> load_acc" where
  "add_load ks dst index a = \<lparr>la_keys = la_keys a @ ks, la_dst = la_dst a @ dst,
     la_sizes = la_sizes a @ [int (length dst)], la_indices = la_indices a @ [index]\<rparr>"

text \<open>The token ranges an attention plan loads: block \<open>chunk\<close> from \<open>local\<close> on, cut at \<open>end\<close>.\<close>

fun attn_ranges :: "int \<Rightarrow> int \<Rightarrow> int \<Rightarrow> int \<Rightarrow> bytes list \<Rightarrow> (int \<times> int \<times> bytes) list" where
  "attn_ranges local e block chunk [] = []"
| "attn_ranges local e block chunk (k # ks) =
     (let begin = max local (chunk * block); stop = min e ((chunk + 1) * block)
      in (if begin < stop then [(begin, stop, k)] else []) @ attn_ranges local e block (chunk + 1) ks)"

definition add_ranges :: "string \<Rightarrow> (int \<times> int \<times> bytes) list \<Rightarrow> ('v pstate, unit) act" where
  "add_ranges req rs = modA (set_status req (\<lambda>st. st\<lparr>rs_ranges := rs_ranges st @ rs\<rparr>))"

definition load_attn :: "string \<Rightarrow> int \<Rightarrow> int \<Rightarrow> int \<Rightarrow> group_plan \<Rightarrow> gblock list \<Rightarrow> load_acc \<Rightarrow>
    ('v pstate, load_acc) act" where
  "load_attn req local e block plan table a =
     (let start = local div block; take_keys = py_slice (gl_keys plan) start (int (length (gl_keys plan))) in
      if take_keys = [] then retA (add_load [] [] 0 a)
      else let blocks = py_slice table start (start + int (length take_keys)) in
        if length blocks \<noteq> length take_keys \<or> list_ex gb_null blocks
        then raiseA (RuntimeError ''attention group missing dest blocks'')
        else bindA (add_ranges req (attn_ranges local e block start take_keys)) (\<lambda>_.
               retA (add_load take_keys (map gb_id blocks) start a)))"

text \<open>The first block from a cursor list that is not null, with its index.\<close>

fun first_block :: "gblock list \<Rightarrow> int list \<Rightarrow> (gblock \<times> int) option res" where
  "first_block table [] = Inr None"
| "first_block table (c # cs) = bindR (py_nth table c) (\<lambda>b.
     if gb_null b then first_block table cs else Inr (Some (b, c)))"

definition state_block :: "'v vllm \<Rightarrow> gblock list \<Rightarrow> int \<Rightarrow> int \<Rightarrow> int \<Rightarrow> (gblock \<times> int) option res" where
  "state_block V table start e block =
     (let expected = max 0 ((e - 1) div block) in
      if expected < int (length table) \<and> \<not> gb_null (table ! nat expected)
      then Inr (Some (table ! nat expected, expected))
      else let limit = min (vl_cdiv V e block) (int (length table)) in first_block table [start..limit - 1])"

definition load_state :: "'v vllm \<Rightarrow> string \<Rightarrow> int \<Rightarrow> int \<Rightarrow> int \<Rightarrow> group_plan \<Rightarrow> gblock list \<Rightarrow> load_acc \<Rightarrow>
    ('v pstate, load_acc) act" where
  "load_state V req local e block plan table a =
     bindA (liftA (\<lambda>_. state_block V table (local div block) e block)) (\<lambda>found.
       case found of
         None \<Rightarrow> raiseA (RuntimeError ''state group has no fresh block'')
       | Some (b, index) \<Rightarrow>
           if length (gl_keys plan) \<noteq> 1 then raiseA (RuntimeError ''state group has no fresh block'')
           else bindA (add_ranges req [(local, e, hd (gl_keys plan))]) (\<lambda>_.
                  retA (add_load [hd (gl_keys plan)] [gb_id b] index a)))"

fun load_plans :: "'v vllm \<Rightarrow> string \<Rightarrow> int \<Rightarrow> int \<Rightarrow> int \<Rightarrow> gblock list list \<Rightarrow> group_plan list \<Rightarrow> load_acc \<Rightarrow>
    ('v pstate, load_acc) act" where
  "load_plans V req local e block tables [] a = retA a"
| "load_plans V req local e block tables (plan # plans) a =
     bindA (liftA (\<lambda>_. py_nth tables (int (gl_group plan)))) (\<lambda>table.
     bindA (if gl_kind plan = ''attn'' then load_attn req local e block plan table a
            else load_state V req local e block plan table a) (\<lambda>a'.
       load_plans V req local e block tables plans a'))"

definition load_tail :: "'v vllm \<Rightarrow> request \<Rightarrow> gblock list list \<Rightarrow> int \<Rightarrow> tail_key \<Rightarrow> int \<Rightarrow>
    ('v pstate, unit) act" where
  "load_tail V rq tables e key local = withA (\<lambda>s0.
     case od_get (ps_plans s0) key of
       None \<Rightarrow> raiseA (RuntimeError ''lost its load plan'')
     | Some [] \<Rightarrow> raiseA (RuntimeError ''lost its load plan'')
     | Some (pl # pls) \<Rightarrow>
         bindA (vl_acquire_step V) (\<lambda>_.
         let block = ps_block s0; req = rq_id rq in
         if local mod block \<noteq> 0 then raiseA (RuntimeError ''local hit is not a multiple of the block'')
         else bindA (modA (set_status req (\<lambda>st. st\<lparr>rs_ranges := []\<rparr>))) (\<lambda>_.
              bindA (load_plans V req local e block tables (pl # pls) \<lparr>la_keys = [], la_dst = [], la_sizes = [], la_indices = []\<rparr>) (\<lambda>a.
              withA (\<lambda>s. case od_get (ps_req_status s) req of
                None \<Rightarrow> raiseA (KeyError ''_req_status'')
              | Some st \<Rightarrow>
                  bindA (vl_prepare_load V (la_keys a) (rs_context st)) (\<lambda>src.
                  bindA (vl_job_id V) (\<lambda>job.
                  bindA (modA (\<lambda>s. s\<lparr>ps_load_jobs := od_put job \<lparr>tj_req = req, tj_gpu = \<lparr>gs_blocks = la_dst a,
                           gs_sizes = la_sizes a, gs_indices = la_indices a\<rparr>, tj_host = src\<rparr> (ps_load_jobs s)\<rparr>)) (\<lambda>_.
                  if rs_jobs st \<noteq> [] then raiseA (RuntimeError ''tail load overlaps another transfer'')
                  else bindA (modA (set_status req (\<lambda>st. st\<lparr>rs_jobs := ls_add job (rs_jobs st)\<rparr>))) (\<lambda>_.
                       modA (\<lambda>s. s\<lparr>ps_jobs := od_put job \<lparr>js_req = req, js_pending = ps_workers s, js_keys = la_keys a,
                               js_is_store = False, js_fence = []\<rparr> (ps_jobs s),
                             ps_loading := map_option (\<lambda>ks. ls_union ks (la_keys a)) (ps_loading s)\<rparr>))))))))))"

definition note_allocated :: "gblock list list \<Rightarrow> 'v pstate \<Rightarrow> 'v pstate" where
  "note_allocated tables s = s\<lparr>ps_allocated := ls_union (ps_allocated s)
     (filter (\<lambda>b. b \<noteq> 0) (map gb_id (concat tables)))\<rparr>"

definition update_state_after_alloc :: "'v vllm \<Rightarrow> request \<Rightarrow> gblock list list \<Rightarrow> int \<Rightarrow> ('v pstate, unit) act" where
  "update_state_after_alloc V rq tables num_external =
     bindA (modA (note_allocated tables)) (\<lambda>_.
     bindA (pop_choice (rq_id rq)) (\<lambda>choice.
     let give_back = (case choice of None \<Rightarrow> retA () | Some ch \<Rightarrow> release_tail_pin (fst ch)) in
     if num_external = 0 then give_back
     else withA (\<lambda>s. case od_get (ps_req_status s) (rq_id rq) of
       None \<Rightarrow> raiseA (KeyError ''_req_status'')
     | Some st \<Rightarrow>
         (case choice of
            None \<Rightarrow> vl_after_alloc V rq tables num_external
          | Some (key, e) \<Rightarrow>
              if rs_local st + num_external \<noteq> e
              then bindA give_back (\<lambda>_. vl_after_alloc V rq tables num_external)
              else finallyA (load_tail V rq tables e key (rs_local st)) (\<lambda>s. snd (release_tail_pin key s))))))"

section \<open>The connectors\<close>

datatype cfg_value = CBool bool | CInt int | CStr string

text \<open>\<open>_force_extra\<close>; \<open>copy\<close> is the value of the environment variable \<open>B70_KVPARK_COPY\<close> (default 0).\<close>

definition force_extra :: "(string, cfg_value) odict option option \<Rightarrow> string \<Rightarrow> (string, cfg_value) odict res" where
  "force_extra transfer copy =
     (case transfer of
        None \<Rightarrow> Inl (RuntimeError ''ParkingOffloadConnector requires kv_transfer_config'')
      | Some cfg \<Rightarrow>
          let extra = (case cfg of None \<Rightarrow> [] | Some d \<Rightarrow> d);
              e1 = od_put ''offload_prompt_only'' (CBool False) extra;
              e2 = od_put ''eviction_policy'' (CStr ''ConversationCachePolicy'') e1;
              e3 = od_put ''cache_policy_module_path'' (CStr ''kvoffload.policy'') e2;
              e4 = (if od_get e3 ''slots'' = None then od_put ''slots'' (CInt 4) e3 else e3)
          in Inr (if copy = ''1''
                  then od_put ''spec_module_path'' (CStr ''kvoffload.copy_spec'')
                         (od_put ''spec_name'' (CStr ''ParkingOffloadingSpec'') e4)
                  else e4))"

definition group_table :: "kv_group list \<Rightarrow> (nat \<times> string \<times> int) list" where
  "group_table gs = map (\<lambda>g. (kg_idx g, kg_kind g, kg_tokens_per_block g)) gs"

definition attention_block_size :: "kv_group list \<Rightarrow> int res" where
  "attention_block_size gs =
     (case map kg_tokens_per_block (filter (\<lambda>g. sp_is_full_attention (kg_spec g) \<and> \<not> kg_eagle g) gs) of
        [] \<Rightarrow> Inl (RuntimeError ''found no attention block size'')
      | first # rest \<Rightarrow> if list_ex (\<lambda>x. x \<noteq> first) rest
                        then Inl (RuntimeError ''attention groups disagree on block size'') else Inr first)"

text \<open>The scheduler side of the connector's constructor.\<close>

definition connector_init :: "int \<Rightarrow> int \<Rightarrow> ('v pstate, unit) act" where
  "connector_init num_chunks slots =
     bindA (liftA (\<lambda>s. attention_block_size (ps_groups s))) (\<lambda>block.
     bindA (init_parking num_chunks slots block) (\<lambda>_. withA (\<lambda>s.
       let kinds = map (\<lambda>(_, kind, _). kind) (group_table (ps_groups s)) in
       if ''full_attention'' \<notin> set kinds then raiseA (RuntimeError ''found no full-attention group'')
       else if ''gdn'' \<notin> set kinds then raiseA (RuntimeError ''found no GDN group'')
       else retA ())))"

definition register_finished_partial_tail :: "'v vllm \<Rightarrow> int option \<Rightarrow> request \<Rightarrow> int list list \<Rightarrow>
    (nat \<times> int \<times> int) list \<Rightarrow> ('v pstate, bool) act" where
  "register_finished_partial_tail V available rq block_ids offloads =
     bindA (register_tail V available rq block_ids offloads) (\<lambda>_. retA False)"

text \<open>\<open>connector.py\<close>: the kinds a hybrid offload covers, by exact class name.\<close>

datatype layer_spec = LayerSpec kv_spec | NestedSpecs "(string \<times> kv_spec) list"

fun iter_layer_specs :: "layer_spec \<Rightarrow> kv_spec list" where
  "iter_layer_specs (NestedSpecs d) = map snd d"
| "iter_layer_specs (LayerSpec s) = [s]"

definition class_kind :: "kv_spec \<Rightarrow> string" where
  "class_kind spec =
     (if sp_class spec = ''MambaSpec'' then if has_sub ''GDN'' (sp_label spec) then ''gdn'' else ''mamba''
      else if sp_class spec = ''FullAttentionSpec'' then ''full_attention''
      else sp_class spec)"

definition offload_kinds :: "layer_spec list \<Rightarrow> int list \<Rightarrow> string list res" where
  "offload_kinds groups ids =
     bindR (mapR (py_nth groups) ids) (\<lambda>gs.
       Inr (ls_of (map class_kind (concat (map iter_layer_specs gs)))))"

definition hybrid_check :: "layer_spec list \<Rightarrow> int list \<Rightarrow> string list res" where
  "hybrid_check groups ids =
     bindR (offload_kinds groups ids) (\<lambda>kinds.
     bindR (raise_if (missing_kinds (set kinds) \<noteq> []) (RuntimeError ''needs full_attention and gdn groups'')) (\<lambda>_.
       Inr kinds))"

end
