(* ===== verification/Parking_Props.thy ===== *)
theory Parking_Props
  imports Parking Park_Index_Props
begin

text \<open>
  The properties of the parking scheduler: tail keys never collide, queued tails are well formed for
  the index, block pins are conserved, running marks follow the live requests, a matched tail is
  complete and strictly inside the prompt, and the pins a superseding store strands.
\<close>

section \<open>Tail keys\<close>

lemma length_be_bytes [simp]: "length (be_bytes k n) = k"
  by (induction k arbitrary: n) simp_all

lemma be_bytes_mod:
  "(n::int) mod 256 ^ Suc k = (n div 256) mod 256 ^ k * 256 + n mod 256"
  using zmod_zmult2_eq [of "256 ^ k" n 256] by simp

lemma be_bytes_inj_mod: "be_bytes k n = be_bytes k m \<Longrightarrow> n mod 256 ^ k = m mod 256 ^ k"
proof (induction k arbitrary: n m)
  case 0
  then show ?case by simp
next
  case (Suc k)
  from Suc.prems have b: "be_bytes k (n div 256) = be_bytes k (m div 256)"
    and w: "(word_of_int n :: 8 word) = word_of_int m" by (simp_all only: be_bytes.simps append1_eq_conv)
  from b have "(n div 256) mod 256 ^ k = (m div 256) mod 256 ^ k" by (rule Suc.IH)
  moreover from w have "n mod 256 = m mod 256" by (simp add: word_of_int_eq_iff take_bit_eq_mod)
  ultimately show ?case unfolding be_bytes_mod by simp
qed

lemma be_bytes_inj:
  "be_bytes k n = be_bytes k m \<Longrightarrow> 0 \<le> n \<Longrightarrow> n < 256 ^ k \<Longrightarrow> 0 \<le> m \<Longrightarrow> m < 256 ^ k \<Longrightarrow> n = m"
  using be_bytes_inj_mod [of k n m] by simp

lemma to_bytes_Inr: "to_bytes k n = Inr bs \<longleftrightarrow> 0 \<le> n \<and> n < 256 ^ k \<and> bs = be_bytes k n"
  by (auto simp: to_bytes_def)

lemma tail_hash_Inr:
  "tail_hash c e g kind = Inr h \<longleftrightarrow> 0 \<le> e \<and> e < 256 ^ 8 \<and> int g < 256 ^ 2
     \<and> h = ascii ''G4T'' @ ascii kind @ be_bytes 8 e @ be_bytes 2 (int g) @ c"
  by (auto simp: tail_hash_def bindR_eq_Inr to_bytes_Inr)

text \<open>The kinds a tail key is made with start with different letters.\<close>

definition tail_kinds :: "string set" where
  "tail_kinds = {''attn'', ''gdn'', ''mamba''}"

lemma ascii_kinds:
  assumes "k \<in> tail_kinds" "l \<in> tail_kinds" and "ascii k @ xs = ascii l @ ys"
  shows "k = l"
  using assms by (auto simp: tail_kinds_def ascii_def)

text \<open>Tail keys never collide: two tail hashes made for an attention, GDN or Mamba group are equal
  only when conversation, end, group and kind are all equal (the end and group have fixed width, the
  conversation's variable-length id comes last).\<close>

lemma tail_hash_injective:
  assumes "tail_hash c e g kind = Inr h" and "tail_hash c' e' g' kind' = Inr h"
    and "kind \<in> tail_kinds" and "kind' \<in> tail_kinds"
  shows "c = c' \<and> e = e' \<and> g = g' \<and> kind = kind'"
proof -
  have eq: "ascii kind @ be_bytes 8 e @ be_bytes 2 (int g) @ c = ascii kind' @ be_bytes 8 e' @ be_bytes 2 (int g') @ c'"
    and bounds: "0 \<le> e" "e < 256 ^ 8" "int g < 256 ^ 2" "0 \<le> e'" "e' < 256 ^ 8" "int g' < 256 ^ 2"
    using assms(1,2) by (simp_all add: tail_hash_Inr)
  have k: "kind = kind'" using ascii_kinds [OF assms(3,4)] eq by blast
  with eq have "be_bytes 8 e = be_bytes 8 e'" "be_bytes 2 (int g) = be_bytes 2 (int g')" "c = c'" by simp_all
  with be_bytes_inj [of 8 e e'] be_bytes_inj [of 2 "int g" "int g'"] bounds k show ?thesis by simp
qed

lemma tail_hash_injective_example:
  "\<exists>h. tail_hash [7, 7] 2177 3 ''gdn'' = Inr h \<and> tail_hash [7, 7] 2178 3 ''gdn'' \<noteq> Inr h"
proof -
  obtain h where h: "tail_hash [7, 7] 2177 3 ''gdn'' = Inr h"
    by (simp add: tail_hash_def to_bytes_def)
  have "tail_hash [7, 7] 2178 3 ''gdn'' \<noteq> Inr h"
    using tail_hash_injective [OF h, of "[7, 7]" 2178 3 "''gdn''"] by (auto simp: tail_kinds_def)
  with h show ?thesis by blast
qed

section \<open>Queued tails\<close>

text \<open>What the loop over the groups keeps: the three per-group lists grow together, the flat source
  list has one block per nonzero size, and the keys of the plans are the collected keys.\<close>

definition acc_ok :: "'v vllm \<Rightarrow> request \<Rightarrow> int \<Rightarrow> tail_acc \<Rightarrow> bool" where
  "acc_ok V rq nfull a \<longleftrightarrow>
     length (ac_sizes a) = length (ac_plans a) \<and> length (ac_indices a) = length (ac_plans a)
   \<and> sum_list (ac_sizes a) = int (length (ac_src a)) \<and> length (ac_src a) = length (ac_tail a)
   \<and> set (concat (map gl_keys (ac_plans a))) = set (ac_full a) \<union> set (ac_tail a)
   \<and> (\<forall>b \<in> set (ac_src a). 0 < b) \<and> (\<forall>i \<in> set (ac_indices a). 0 \<le> i)
   \<and> (ac_attn a \<longrightarrow> nfull \<noteq> 0 \<longrightarrow> ac_full a \<noteq> [])"

lemma add_plan_simps [simp]:
  "ac_full (add_plan pl ts src i a) = ac_full a" "ac_attn (add_plan pl ts src i a) = ac_attn a"
  "ac_gdn (add_plan pl ts src i a) = ac_gdn a" "ac_plans (add_plan pl ts src i a) = ac_plans a @ [pl]"
  by (simp_all add: add_plan_def)

text \<open>One round of the loop, in the three shapes it can take.\<close>

lemma plan_group_shape:
  assumes "plan_group V rq conv block e block_ids offered g a = Inr (Some a')"
  obtains plan tails src index fulls attn gdn where
    "a' = add_plan plan tails src index (a\<lparr>ac_attn := attn, ac_full := ac_full a @ fulls, ac_gdn := gdn\<rparr>)"
    "length tails = length src" "\<forall>b \<in> set src. 0 < b" "set (gl_keys plan) = set fulls \<union> set tails"
    "gl_group plan = kg_idx g" "index = 0 \<or> index = max 0 ((e - 1) div block) \<or> index = vl_cdiv V e block - 1"
    "fulls = [] \<and> attn = ac_attn a
       \<or> attn \<and> fulls = map (\<lambda>h. vl_key V h (kg_idx g)) (take (nat (e div block)) (rq_hashes rq))"
  using assms
proof -
  let ?fulls = "map (\<lambda>h. vl_key V h (kg_idx g)) (take (nat (e div block)) (rq_hashes rq))"
  consider (eagle) "kg_kind g = ''eagle''" | (attn) "kg_kind g = ''full_attention''"
    | (state) "kg_kind g = ''gdn'' \<or> kg_kind g = ''mamba''"
    using assms by (force simp: plan_group_def Let_def split: if_splits)
  then show thesis
  proof cases
    case eagle
    then show thesis using assms
      by (intro that [of "\<lparr>gl_group = kg_idx g, gl_kind = ''attn'', gl_keys = []\<rparr>" "[]" "[]" 0 "ac_gdn a" "[]" "ac_attn a"])
         (simp_all add: plan_group_def Let_def)
  next
    case attn
    show thesis
    proof (cases "e mod block = 0")
      case True
      with attn show thesis using assms
        by (intro that [of "\<lparr>gl_group = kg_idx g, gl_kind = ''attn'', gl_keys = ?fulls\<rparr>" "[]" "[]" 0 "ac_gdn a" ?fulls True])
           (simp_all add: plan_group_def Let_def)
    next
      case False
      with attn assms have "\<exists>b tk. 0 < b \<and>
        a' = add_plan \<lparr>gl_group = kg_idx g, gl_kind = ''attn'', gl_keys = ?fulls @ [tk]\<rparr> [tk] [b]
           (vl_cdiv V e block - 1) (a\<lparr>ac_attn := True, ac_full := ac_full a @ ?fulls\<rparr>)"
        by (fastforce simp: plan_group_def Let_def bindR_eq_Inr linorder_not_le split: if_split_asm)
      then obtain b tk where "0 < b"
        "a' = add_plan \<lparr>gl_group = kg_idx g, gl_kind = ''attn'', gl_keys = ?fulls @ [tk]\<rparr> [tk] [b]
           (vl_cdiv V e block - 1) (a\<lparr>ac_attn := True, ac_full := ac_full a @ ?fulls\<rparr>)" by blast
      then show thesis
        by (intro that [of "\<lparr>gl_group = kg_idx g, gl_kind = ''attn'', gl_keys = ?fulls @ [tk]\<rparr>" "[tk]" "[b]"
              "vl_cdiv V e block - 1" "ac_gdn a" ?fulls True]) simp_all
    qed
  next
    case state
    then have "kg_kind g \<noteq> ''eagle''" "kg_kind g \<noteq> ''full_attention''" by auto
    with state assms have "\<exists>b tk. 0 < b \<and>
      a' = add_plan \<lparr>gl_group = kg_idx g, gl_kind = ''state'', gl_keys = [tk]\<rparr> [tk] [b]
           (max 0 ((e - 1) div block)) (a\<lparr>ac_gdn := (ac_gdn a \<or> kg_kind g = ''gdn'')\<rparr>)"
      by (fastforce simp: plan_group_def Let_def bindR_eq_Inr linorder_not_le split: if_split_asm option.split_asm)
    then obtain b tk where "0 < b"
      "a' = add_plan \<lparr>gl_group = kg_idx g, gl_kind = ''state'', gl_keys = [tk]\<rparr> [tk] [b]
           (max 0 ((e - 1) div block)) (a\<lparr>ac_gdn := (ac_gdn a \<or> kg_kind g = ''gdn'')\<rparr>)" by blast
    then show thesis
      by (intro that [of "\<lparr>gl_group = kg_idx g, gl_kind = ''state'', gl_keys = [tk]\<rparr>" "[tk]" "[b]"
            "max 0 ((e - 1) div block)" "ac_gdn a \<or> kg_kind g = ''gdn''" "[]" "ac_attn a"]) simp_all
  qed
qed

text \<open>The ceiling division of vLLM, as its documentation states it.\<close>

definition cdiv_ok :: "'v vllm \<Rightarrow> bool" where
  "cdiv_ok V \<longleftrightarrow> (\<forall>a b. 0 < b \<longrightarrow> vl_cdiv V a b = - (- a div b))"

lemma vl_cdiv_pos: "cdiv_ok V \<Longrightarrow> 0 < e \<Longrightarrow> 0 < block \<Longrightarrow> 0 < vl_cdiv V e block"
  by (simp add: cdiv_ok_def int_div_less_iff)

lemma plan_group_ok:
  assumes ok: "acc_ok V rq (e div block) a" and run: "plan_group V rq conv block e block_ids offered g a = Inr (Some a')"
    and V: "cdiv_ok V" and pos: "0 < e" "0 < block" and hashes: "e div block \<le> int (length (rq_hashes rq))"
  shows "acc_ok V rq (e div block) a' \<and> map gl_group (ac_plans a') = map gl_group (ac_plans a) @ [kg_idx g]"
  using run
proof (cases rule: plan_group_shape)
  case (1 plan tails src index fulls attn gdn)
  have "0 \<le> index" using 1(6) vl_cdiv_pos [OF V pos] by auto
  moreover have "attn \<longrightarrow> e div block \<noteq> 0 \<longrightarrow> ac_full a @ fulls \<noteq> []"
  proof (intro impI)
    assume "attn" "e div block \<noteq> 0"
    moreover have "0 \<le> e div block" using pos by (simp add: pos_imp_zdiv_nonneg_iff)
    ultimately have "0 < nat (e div block)" by linarith
    with \<open>attn\<close> \<open>e div block \<noteq> 0\<close> show "ac_full a @ fulls \<noteq> []"
      using 1(7) ok hashes pos by (auto simp: acc_ok_def)
  qed
  ultimately show ?thesis
    using ok 1(1-5) by (auto simp: acc_ok_def add_plan_def)
qed

lemma plan_groups_ok:
  assumes "plan_groups V rq conv block e block_ids offered gs a = Inr (Some a')"
    and "acc_ok V rq (e div block) a" and "cdiv_ok V" "0 < e" "0 < block" "e div block \<le> int (length (rq_hashes rq))"
  shows "acc_ok V rq (e div block) a' \<and> map gl_group (ac_plans a') = map gl_group (ac_plans a) @ map kg_idx gs"
  using assms(1,2)
proof (induction gs arbitrary: a)
  case Nil
  then show ?case by simp
next
  case (Cons g gs)
  then obtain a1 where a1: "plan_group V rq conv block e block_ids offered g a = Inr (Some a1)"
    "plan_groups V rq conv block e block_ids offered gs a1 = Inr (Some a')"
    by (auto simp: bindR_eq_Inr split: option.splits)
  with plan_group_ok [OF Cons.prems(2) a1(1) assms(3-6)] Cons.IH [OF a1(2)] show ?case by simp
qed

lemma build_pending_Some:
  assumes "build_pending V rq block_ids offloads e s = Inr (Some p)"
  obtains a where
    "conv_of rq = Some (pd_conv p)" "e div ps_block s \<le> int (length (rq_hashes rq))"
    "pd_tail p = py_slice (rq_tokens rq) (e div ps_block s * ps_block s) e"
    "int (length (pd_tail p)) = e - e div ps_block s * ps_block s"
    "pd_parent p = (if e div ps_block s = 0 then None else Some (rq_hashes rq ! nat (e div ps_block s - 1)))"
    "plan_groups V rq (pd_conv p) (ps_block s) e block_ids (offered_blocks offloads e) (ps_groups s) empty_acc = Inr (Some a)"
    "ac_attn a" "ac_gdn a" "ac_tail a \<noteq> []" "pd_end p = e" "pd_full p = ac_full a" "pd_tail_keys p = ac_tail a"
    "pd_plans p = ac_plans a" "pd_src p = ac_src a" "pd_sizes p = ac_sizes a" "pd_indices p = ac_indices a"
  using assms
  by (auto simp: build_pending_def Let_def bindR_eq_Inr split: if_splits option.splits)

text \<open>A tail the scheduler queues is well formed: it ends at the request's computed tokens, starts at
  the last block boundary and is shorter than a block, names the parent block exactly when there is
  one, lists one plan per KV group in order with matching sizes and GPU blocks, and the index refuses
  it only when it is larger than the whole park.\<close>

lemma queued_tail_is_well_formed:
  assumes "build_pending V rq block_ids offloads e s = Inr (Some p)"
    and "cdiv_ok V" and "0 < e" and "0 < ps_block s" and "pi_block (ps_park s) = ps_block s"
  shows "map gl_group (pd_plans p) = map kg_idx (ps_groups s)
     \<and> length (pd_sizes p) = length (pd_plans p) \<and> length (pd_indices p) = length (pd_plans p)
     \<and> sum_list (pd_sizes p) = int (length (pd_src p)) \<and> length (pd_src p) = length (pd_tail_keys p)
     \<and> set (concat (map gl_keys (pd_plans p))) = set (pd_full p) \<union> set (pd_tail_keys p)
     \<and> (check_tail (ps_park s) (pending_args p) = Inr ()
        \<longleftrightarrow> int (length (pd_full p) + length (pd_tail_keys p)) \<le> pi_budget (ps_park s))"
proof -
  let ?n = "e div ps_block s"
  obtain a where a: "?n \<le> int (length (rq_hashes rq))" "int (length (pd_tail p)) = e - ?n * ps_block s"
    "pd_parent p = (if ?n = 0 then None else Some (rq_hashes rq ! nat (?n - 1)))"
    "plan_groups V rq (pd_conv p) (ps_block s) e block_ids (offered_blocks offloads e) (ps_groups s) empty_acc = Inr (Some a)"
    "ac_attn a" "ac_tail a \<noteq> []" "pd_end p = e" "pd_full p = ac_full a" "pd_tail_keys p = ac_tail a"
    "pd_plans p = ac_plans a" "pd_src p = ac_src a" "pd_sizes p = ac_sizes a" "pd_indices p = ac_indices a"
    using assms(1) by (rule build_pending_Some)
  have "acc_ok V rq ?n empty_acc" by (simp add: acc_ok_def empty_acc_def)
  from plan_groups_ok [OF a(4) this assms(2-4) a(1)]
  have ok: "acc_ok V rq ?n a" and groups: "map gl_group (ac_plans a) = map kg_idx (ps_groups s)"
    by (simp_all add: empty_acc_def)
  have len: "int (length (pd_tail p)) < ps_block s"
    using a(2) assms(4) by (simp add: minus_div_mult_eq_mod)
  have "1 \<le> int (length (pd_tail_keys p))" using a(6,9) by (cases "ac_tail a") simp_all
  then have bytes: "sa_nbytes (pending_args p) = int (length (pd_full p) + length (pd_tail_keys p))"
    by (simp add: pending_args_def)
  have "?n \<noteq> 0 \<longrightarrow> pd_full p \<noteq> []" using ok a(5,8) by (simp add: acc_ok_def)
  then have "check_tail (ps_park s) (pending_args p) = Inr ()
      \<longleftrightarrow> int (length (pd_full p) + length (pd_tail_keys p)) \<le> pi_budget (ps_park s)"
    using len a(2,3,7) assms(3-5) bytes \<open>1 \<le> int (length (pd_tail_keys p))\<close>
    by (auto simp: check_tail_Inr Let_def) (auto simp: pending_args_def pos_imp_zdiv_nonneg_iff split: if_splits)
  with ok groups show ?thesis by (simp add: a(8-13) acc_ok_def)
qed

section \<open>Steps and frames\<close>

text \<open>What the vLLM operations leave alone: every field the parking scheduler adds. A fresh job id is
  not one whose blocks are still held.\<close>

definition gpu_part :: "'v pstate \<Rightarrow> gblock list option \<times> gblock list \<times> gblock list \<times> pending list \<times> (int, gblock list) odict" where
  "gpu_part s = (ps_pool s, ps_touched s, ps_freed s, ps_pending s, ps_pin_holds s)"

definition live_part :: "'v pstate \<Rightarrow> (bytes, int) odict \<times> (string, bytes) odict" where
  "live_part s = (ps_running s, ps_req_conv s)"

definition own_part :: "'v pstate \<Rightarrow> _" where
  "own_part s = (ps_park s, ps_block s, ps_exact s, gpu_part s, ps_plans s, live_part s, ps_choice s, ps_groups s)"

definition vllm_ok :: "'v vllm \<Rightarrow> bool" where
  "vllm_ok V \<longleftrightarrow> cdiv_ok V
     \<and> (\<forall>ks c. keepsA own_part (vl_prepare_store V ks c)) \<and> (\<forall>ks c. keepsA own_part (vl_prepare_load V ks c))
     \<and> keepsA own_part (vl_job_id V) \<and> keepsA own_part (vl_acquire_step V)
     \<and> (\<forall>rq. keepsA own_part (vl_new_request V rq)) \<and> (\<forall>rq. keepsA own_part (vl_finished V rq))
     \<and> keepsA own_part (vl_meta V) \<and> (\<forall>x. keepsA own_part (vl_output V x))
     \<and> (\<forall>rq n m. keepsA own_part (vl_matched V rq n m)) \<and> (\<forall>rq t n. keepsA own_part (vl_after_alloc V rq t n))
     \<and> (\<forall>s j s'. vl_job_id V s = (Inr j, s') \<longrightarrow> j \<notin> set (od_keys (ps_pin_holds s)))"

lemma vllm_keeps:
  assumes "vllm_ok V"
  shows "keepsA own_part (vl_prepare_store V ks c)" "keepsA own_part (vl_prepare_load V ks c)"
    "keepsA own_part (vl_job_id V)" "keepsA own_part (vl_acquire_step V)"
    "keepsA own_part (vl_new_request V rq)" "keepsA own_part (vl_finished V rq)"
    "keepsA own_part (vl_meta V)" "keepsA own_part (vl_output V x)"
    "keepsA own_part (vl_matched V rq n m)" "keepsA own_part (vl_after_alloc V rq t n)"
  using assms unfolding vllm_ok_def by blast+

lemma vllm_keeps_parts:
  assumes "vllm_ok V" and "\<And>s t. own_part s = own_part t \<Longrightarrow> f s = f t"
  shows "keepsA f (vl_prepare_store V ks c)" "keepsA f (vl_prepare_load V ks c)"
    "keepsA f (vl_job_id V)" "keepsA f (vl_acquire_step V)"
    "keepsA f (vl_new_request V rq)" "keepsA f (vl_finished V rq)"
    "keepsA f (vl_meta V)" "keepsA f (vl_output V x)"
    "keepsA f (vl_matched V rq n m)" "keepsA f (vl_after_alloc V rq t n)"
  by (rule keepsA_of [OF _ assms(2)], rule vllm_keeps [OF assms(1)], assumption)+

lemma part_updates [simp]:
  "gpu_part (s\<lparr>ps_park := x_park\<rparr>) = gpu_part s"
  "gpu_part (s\<lparr>ps_plans := x_plans\<rparr>) = gpu_part s"
  "gpu_part (s\<lparr>ps_running := x_running\<rparr>) = gpu_part s"
  "gpu_part (s\<lparr>ps_req_conv := x_req_conv\<rparr>) = gpu_part s"
  "gpu_part (s\<lparr>ps_choice := x_choice\<rparr>) = gpu_part s"
  "gpu_part (s\<lparr>ps_policy := x_policy\<rparr>) = gpu_part s"
  "gpu_part (s\<lparr>ps_evictable_count := x_evictable_count\<rparr>) = gpu_part s"
  "gpu_part (s\<lparr>ps_freed_chunks := x_freed_chunks\<rparr>) = gpu_part s"
  "gpu_part (s\<lparr>ps_jobs := x_jobs\<rparr>) = gpu_part s"
  "gpu_part (s\<lparr>ps_req_status := x_req_status\<rparr>) = gpu_part s"
  "gpu_part (s\<lparr>ps_flush := x_flush\<rparr>) = gpu_part s"
  "gpu_part (s\<lparr>ps_load_jobs := x_load_jobs\<rparr>) = gpu_part s"
  "gpu_part (s\<lparr>ps_allocated := x_allocated\<rparr>) = gpu_part s"
  "gpu_part (s\<lparr>ps_loading := x_loading\<rparr>) = gpu_part s"
  "gpu_part (s\<lparr>ps_block := x_block\<rparr>) = gpu_part s"
  "gpu_part (s\<lparr>ps_exact := x_exact\<rparr>) = gpu_part s"
  "live_part (s\<lparr>ps_park := x_park\<rparr>) = live_part s"
  "live_part (s\<lparr>ps_plans := x_plans\<rparr>) = live_part s"
  "live_part (s\<lparr>ps_choice := x_choice\<rparr>) = live_part s"
  "live_part (s\<lparr>ps_policy := x_policy\<rparr>) = live_part s"
  "live_part (s\<lparr>ps_evictable_count := x_evictable_count\<rparr>) = live_part s"
  "live_part (s\<lparr>ps_freed_chunks := x_freed_chunks\<rparr>) = live_part s"
  "live_part (s\<lparr>ps_jobs := x_jobs\<rparr>) = live_part s"
  "live_part (s\<lparr>ps_req_status := x_req_status\<rparr>) = live_part s"
  "live_part (s\<lparr>ps_flush := x_flush\<rparr>) = live_part s"
  "live_part (s\<lparr>ps_load_jobs := x_load_jobs\<rparr>) = live_part s"
  "live_part (s\<lparr>ps_allocated := x_allocated\<rparr>) = live_part s"
  "live_part (s\<lparr>ps_loading := x_loading\<rparr>) = live_part s"
  "live_part (s\<lparr>ps_block := x_block\<rparr>) = live_part s"
  "live_part (s\<lparr>ps_exact := x_exact\<rparr>) = live_part s"
  "live_part (s\<lparr>ps_pool := x_pool\<rparr>) = live_part s"
  "live_part (s\<lparr>ps_touched := x_touched\<rparr>) = live_part s"
  "live_part (s\<lparr>ps_freed := x_freed\<rparr>) = live_part s"
  "live_part (s\<lparr>ps_pending := x_pending\<rparr>) = live_part s"
  "live_part (s\<lparr>ps_pin_holds := x_pin_holds\<rparr>) = live_part s"
  by (simp_all add: gpu_part_def live_part_def)

lemma set_status_parts [simp]:
  "gpu_part (set_status r f s) = gpu_part s" "live_part (set_status r f s) = live_part s"
  "ps_park (set_status r f s) = ps_park s" "ps_choice (set_status r f s) = ps_choice s"
  "own_part (set_status r f s) = own_part s"
  by (simp_all add: set_status_def gpu_part_def live_part_def own_part_def split: option.split)

lemma unpin_resident_parts [simp]:
  "own_part (unpin_resident V ks s) = own_part s"
  by (induction ks arbitrary: s) (simp_all add: own_part_def gpu_part_def live_part_def Let_def split: option.split)

lemma parkA_parts [keeps_intros]: "keepsA gpu_part (parkA m)" "keepsA live_part (parkA m)"
  unfolding parkA_def by (intro keeps_intros; simp add: gpu_part_def live_part_def)+

lemma release_keys_parts [keeps_intros]:
  "keepsA gpu_part (release_keys ks)" "keepsA live_part (release_keys ks)" "keepsA ps_park (release_keys ks)"
  unfolding release_keys_def
  by (intro keeps_intros; simp add: gpu_part_def live_part_def split: prod.splits)+

lemma own_fields:
  "own_part s = own_part t \<Longrightarrow> gpu_part s = gpu_part t"
  "own_part s = own_part t \<Longrightarrow> live_part s = live_part t"
  "own_part s = own_part t \<Longrightarrow> ps_park s = ps_park t"
  "own_part s = own_part t \<Longrightarrow> ps_choice s = ps_choice t"
  by (simp_all add: own_part_def)

lemma pin_resident_own [keeps_intros]: "keepsA own_part (pin_resident V ks)"
  by (induction ks)
     (auto intro!: keeps_intros simp: own_part_def gpu_part_def live_part_def)

lemma pin_resident_parts [keeps_intros]:
  "keepsA gpu_part (pin_resident V ks)" "keepsA live_part (pin_resident V ks)" "keepsA ps_park (pin_resident V ks)"
  by (rule keepsA_of [OF pin_resident_own], simp add: own_part_def)+

lemma abort_tail_parts [keeps_intros]: "keepsA gpu_part (abort_tail r)" "keepsA live_part (abort_tail r)"
  unfolding abort_tail_def Let_def
  by (intro keeps_intros; simp add: gpu_part_def live_part_def)+

lemma release_tail_pin_parts [keeps_intros]:
  "keepsA gpu_part (release_tail_pin k)" "keepsA live_part (release_tail_pin k)"
  unfolding release_tail_pin_def by (intro keeps_intros)+

lemma pop_choice_parts [keeps_intros]:
  "keepsA gpu_part (pop_choice r)" "keepsA live_part (pop_choice r)" "keepsA ps_park (pop_choice r)"
  unfolding pop_choice_def by (intro keeps_intros; simp add: gpu_part_def live_part_def)+

lemma note_running_gpu [keeps_intros]: "keepsA gpu_part (note_running c d)"
  unfolding note_running_def Let_def by (intro keeps_intros) (simp_all add: gpu_part_def)

lemmas gpu_V = vllm_keeps_parts [where f = gpu_part, OF _ own_fields(1)]
lemmas live_V = vllm_keeps_parts [where f = live_part, OF _ own_fields(2)]

lemma own_gpu [simp]: "gpu_part (unpin_resident V ks s) = gpu_part s" "live_part (unpin_resident V ks s) = live_part s"
  "ps_park (unpin_resident V ks s) = ps_park s"
  using own_fields(1-3) [OF unpin_resident_parts] by blast+

lemma start_store_parts:
  assumes V: "vllm_ok V"
  shows "keepsA gpu_part (start_store V p ks spec)" "keepsA live_part (start_store V p ks spec)"
  unfolding start_store_def
  by (intro keeps_intros gpu_V [OF V] live_V [OF V]; simp)+

lemma store_tail_gpu:
  assumes V: "vllm_ok V" shows "keepsA gpu_part (store_tail V p st r)"
  unfolding store_tail_def
  by (intro keeps_intros gpu_V [OF V] start_store_parts [OF V]; simp)

lemma store_tail_live:
  assumes V: "vllm_ok V" shows "keepsA live_part (store_tail V p st r)"
  unfolding store_tail_def
  by (intro keeps_intros live_V [OF V] start_store_parts [OF V]; simp)

lemma prepare_one_gpu:
  assumes V: "vllm_ok V" shows "keepsA gpu_part (prepare_one V p)"
  unfolding prepare_one_def
  by (intro keeps_intros store_tail_gpu [OF V]; simp)

lemma prepare_one_live:
  assumes V: "vllm_ok V" shows "keepsA live_part (prepare_one V p)"
  unfolding prepare_one_def
  by (intro keeps_intros store_tail_live [OF V]; simp)

text \<open>A store job's id is fresh among the held ones.\<close>

definition fresh_job :: "(int \<times> 'v transfer) option \<Rightarrow> 'v pstate \<Rightarrow> bool" where
  "fresh_job x s = (case x of None \<Rightarrow> True | Some (j, _) \<Rightarrow> j \<notin> set (od_keys (ps_pin_holds s)))"

lemma start_store_fresh:
  assumes V: "vllm_ok V" shows "ensuresA fresh_job (start_store V p ks spec)"
proof -
  have "j \<notin> set (od_keys (ps_pin_holds s2))" if "vl_job_id V s1 = (Inr j, s2)" for s1 s2 j
  proof -
    have "j \<notin> set (od_keys (ps_pin_holds s1))" using that V by (auto simp: vllm_ok_def)
    moreover have "ps_pin_holds s2 = ps_pin_holds s1"
      using keepsA_D [OF gpu_V(3) [OF V], of s1] that by (simp add: gpu_part_def)
    ultimately show ?thesis by simp
  qed
  moreover have "ps_pin_holds (set_status r f s) = ps_pin_holds s" for r f and s :: "'a pstate"
    using set_status_parts(1) [of r f s] by (simp add: gpu_part_def del: set_status_parts)
  ultimately show ?thesis
    by (auto simp: ensuresA_def start_store_def bindA_Inr act_run fresh_job_def)
qed

lemma prepare_one_fresh:
  assumes V: "vllm_ok V" shows "ensuresA fresh_job (prepare_one V p)"
  unfolding prepare_one_def store_tail_def
  by (intro ensures_intros start_store_fresh [OF V]; simp add: fresh_job_def)

text \<open>The scheduler's transitions: its entry points, in any order. A request id is registered once. A step
  may raise, except that the metadata of a step is built to the end.\<close>

inductive sched_step :: "'v vllm \<Rightarrow> 'v pstate \<Rightarrow> 'v pstate \<Rightarrow> bool" for V :: "'v vllm" where
  step_new: "rq_id rq \<notin> set (od_keys (ps_req_conv s)) \<Longrightarrow> on_new_request V rq s = (r, s') \<Longrightarrow> sched_step V s s'"
| step_finished: "request_finished V rq s = (r, s') \<Longrightarrow> sched_step V s s'"
| step_register: "register_finished_partial_tail V available rq block_ids offloads s = (r, s') \<Longrightarrow> sched_step V s s'"
| step_meta: "build_connector_meta V s = (Inr jobs, s') \<Longrightarrow> sched_step V s s'"
| step_output: "update_connector_output V out s = (r, s') \<Longrightarrow> sched_step V s s'"
| step_matched: "get_num_new_matched_tokens V rq n m s = (r, s') \<Longrightarrow> sched_step V s s'"
| step_alloc: "update_state_after_alloc V rq tables n s = (r, s') \<Longrightarrow> sched_step V s s'"

inductive_cases sched_stepE: "sched_step V s s'"

definition reachable :: "'v vllm \<Rightarrow> 'v pstate \<Rightarrow> 'v pstate \<Rightarrow> bool" where
  "reachable V = (sched_step V)\<^sup>*\<^sup>*"

lemma reachable_invariant:
  assumes "reachable V s0 s" and "I s0" and "\<And>s s'. I s \<Longrightarrow> sched_step V s s' \<Longrightarrow> I s'"
  shows "I s"
  using assms unfolding reachable_def by (induction rule: rtranclp_induct) auto

section \<open>Block pins\<close>

definition held :: "'v pstate \<Rightarrow> gblock list" where
  "held s = concat (map pd_pins (ps_pending s)) @ concat (map snd (ps_pin_holds s))"

definition pins_ok :: "'v pstate \<Rightarrow> bool" where
  "pins_ok s \<longleftrightarrow> mset (ps_touched s) = mset (ps_freed s) + mset (held s) \<and> od_ok (ps_pin_holds s)
     \<and> (ps_pool s = None \<longrightarrow> held s = [])"

lemma pins_cong: "gpu_part s = gpu_part t \<Longrightarrow> pins_ok s = pins_ok t"
  by (simp add: pins_ok_def held_def gpu_part_def)

lemma pins_keeps: "keepsA gpu_part m \<Longrightarrow> pins_ok s \<Longrightarrow> pins_ok (snd (m s))"
  using pins_cong [OF keepsA_D [where f = gpu_part]] by blast

lemma holds_del:
  assumes "od_ok d"
  shows "mset (concat (map snd d)) =
    mset (case od_get d j of None \<Rightarrow> [] | Some bs \<Rightarrow> bs) + mset (concat (map snd (od_del j d)))"
  using assms
proof (induction d)
  case Nil
  then show ?case by (simp add: od_del_def)
next
  case (Cons x d)
  obtain k v where x: "x = (k, v)" by force
  have ok: "od_ok d" "k \<notin> set (od_keys d)" using Cons.prems by (auto simp: x od_ok_def)
  show ?case
  proof (cases "k = j")
    case True
    then have "od_del j (x # d) = od_del j d" "od_get (x # d) j = Some v" by (simp_all add: x od_del_def od_get_Cons)
    with ok True show ?thesis by (simp add: x od_del_absent)
  next
    case False
    then have "od_del j (x # d) = x # od_del j d" "od_get (x # d) j = od_get d j"
      by (simp_all add: x od_del_def od_get_Cons)
    with Cons.IH [OF ok(1)] show ?thesis by (simp add: x)
  qed
qed

lemma unpin_job_pins:
  assumes "pins_ok s" shows "pins_ok (snd (unpin_job j s)) \<and> (\<exists>u. fst (unpin_job j s) = Inr u)"
proof -
  let ?bs = "case od_get (ps_pin_holds s) j of None \<Rightarrow> [] | Some bs \<Rightarrow> bs"
  let ?d = "od_del j (ps_pin_holds s)"
  have ok: "od_ok (ps_pin_holds s)" using assms by (simp add: pins_ok_def)
  note sum = holds_del [OF ok, of j]
  have none: "?bs = []" "concat (map snd ?d) = []" if "ps_pool s = None"
  proof -
    have "mset (concat (map snd (ps_pin_holds s))) = {#}" using assms that by (simp add: pins_ok_def held_def)
    with sum show "?bs = []" "concat (map snd ?d) = []" by auto
  qed
  have run: "unpin_job j s = (Inr (), release_pin ?bs (s\<lparr>ps_pin_holds := ?d\<rparr>))"
    by (simp add: unpin_job_def act_simps Let_def)
  have "pins_ok (release_pin ?bs (s\<lparr>ps_pin_holds := ?d\<rparr>))"
  proof (cases "ps_pool s \<noteq> None \<and> ?bs \<noteq> []")
    case True
    then show ?thesis using assms sum ok
      by (simp add: release_pin_def pins_ok_def held_def od_ok_del del: mset_concat) (auto simp: ac_simps)
  next
    case False
    then have "?bs = []" using none(1) by blast
    then show ?thesis using assms sum ok none(2)
      by (simp add: release_pin_def pins_ok_def held_def od_ok_del)
  qed
  with run show ?thesis by simp
qed

lemma unpin_jobs_pins: "pins_ok s \<Longrightarrow> pins_ok (snd (mapA unpin_job js s))"
proof (induction js arbitrary: s)
  case Nil
  then show ?case by (simp add: act_simps)
next
  case (Cons j js)
  obtain u t where j: "unpin_job j s = (Inr u, t)" "pins_ok t"
    using unpin_job_pins [OF Cons.prems, of j] by (metis prod.collapse)
  from Cons.IH [OF j(2)] j(1) show ?case
    by (cases "mapA unpin_job js t") (auto simp: act_simps split: sum.splits)
qed

lemma prepare_all_pins:
  assumes V: "vllm_ok V"
    and "mset (ps_touched s) = mset (ps_freed s) + mset (concat (map pd_pins ps)) + mset (concat (map snd (ps_pin_holds s)))"
    and "ps_pending s = []" "od_ok (ps_pin_holds s)" "ps_pool s = None \<longrightarrow> concat (map pd_pins ps) = [] \<and> held s = []"
    and "prepare_all V ps jobs s = (Inr jobs', s')"
  shows "pins_ok s'"
  using assms(2-)
proof (induction ps arbitrary: jobs s)
  case Nil
  then show ?case by (simp add: act_simps pins_ok_def held_def)
next
  case (Cons p ps)
  from Cons.prems(5) obtain x t where one: "prepare_one V p s = (Inr x, t)"
    by (auto simp: bindA_Inr)
  have g: "gpu_part t = gpu_part s" using keepsA_D [OF prepare_one_gpu [OF V], of p s] one by simp
  then have t: "ps_touched t = ps_touched s" "ps_freed t = ps_freed s" "ps_pending t = []"
    "ps_pin_holds t = ps_pin_holds s" "ps_pool t = ps_pool s" "held t = held s"
    using Cons.prems(2) by (simp_all add: gpu_part_def held_def)
  show ?case
  proof (cases x)
    case None
    let ?t = "release_pin (pd_pins p) t"
    have "prepare_all V ps jobs ?t = (Inr jobs', s')"
      using Cons.prems(5) one None by (simp add: act_simps)
    moreover have "mset (ps_touched ?t) = mset (ps_freed ?t) + mset (concat (map pd_pins ps))
        + mset (concat (map snd (ps_pin_holds ?t)))"
      using Cons.prems(1,4) t by (auto simp: release_pin_def ac_simps)
    moreover have "ps_pending ?t = []" "od_ok (ps_pin_holds ?t)"
      "ps_pool ?t = None \<longrightarrow> concat (map pd_pins ps) = [] \<and> held ?t = []"
      using Cons.prems(2-4) t by (auto simp: release_pin_def held_def)
    ultimately show ?thesis by (intro Cons.IH)
  next
    case (Some jt)
    obtain j tr where jt: "jt = (j, tr)" by force
    have fresh: "j \<notin> set (od_keys (ps_pin_holds t))"
      using ensuresA_D [OF prepare_one_fresh [OF V] one] by (simp add: fresh_job_def Some jt)
    let ?t = "t\<lparr>ps_flush := ls_add j (ps_flush t), ps_pin_holds := od_put j (pd_pins p) (ps_pin_holds t)\<rparr>"
    have put: "od_put j (pd_pins p) (ps_pin_holds s) = ps_pin_holds s @ [(j, pd_pins p)]"
      using od_put_absent [OF fresh] t(4) by simp
    have h: "ps_pin_holds ?t = ps_pin_holds s @ [(j, pd_pins p)]" using put t(4) by simp
    have "prepare_all V ps (od_put j tr jobs) ?t = (Inr jobs', s')"
      using Cons.prems(5) one Some jt by (simp add: act_simps)
    moreover have "mset (ps_touched ?t) = mset (ps_freed ?t) + mset (concat (map pd_pins ps))
        + mset (concat (map snd (ps_pin_holds ?t)))"
      unfolding h using Cons.prems(1) t by (simp add: ac_simps)
    moreover have "od_ok (ps_pin_holds ?t)" using Cons.prems(3) t by (simp add: od_ok_put)
    moreover have "ps_pending ?t = []" "ps_pool ?t = None \<longrightarrow> concat (map pd_pins ps) = [] \<and> held ?t = []"
      using Cons.prems(2-4) t put by (auto simp: held_def)
    ultimately show ?thesis by (intro Cons.IH)
  qed
qed

lemma pin_all_pins:
  assumes run: "pin_all ids s = (r, t)"
  shows "case r of
      Inl e \<Rightarrow> t = s
    | Inr blocks \<Rightarrow> t = s\<lparr>ps_touched := ps_touched s @ blocks\<rparr> \<and> (ps_pool s = None \<longrightarrow> blocks = [])"
  using run by (auto simp: pin_all_def act_simps split: option.splits sum.splits)

definition keeps_pins :: "'v pstate \<Rightarrow> 'v pstate \<Rightarrow> bool" where
  "keeps_pins s t \<longleftrightarrow> (pins_ok s \<longrightarrow> pins_ok t)"

lemma keeps_pins_order: "reflp keeps_pins" "transp keeps_pins"
  by (auto simp: keeps_pins_def reflp_def transp_def)

lemmas pins_steps = stepsA_base [OF keeps_pins_order(1)] stepsA_bind [OF keeps_pins_order(2)]
  stepsA_mapA [OF keeps_pins_order] stepsA_flat

lemma gpu_steps: "keepsA gpu_part m \<Longrightarrow> stepsA keeps_pins m"
  using pins_keeps by (auto simp: stepsA_def keeps_pins_def)

lemma queue_pins:
  "stepsA (keeps_pins :: 'v pstate \<Rightarrow> _) (bindA (pin_all ids) (\<lambda>blocks. modA (\<lambda>s. s\<lparr>ps_pending := ps_pending s @ [p\<lparr>pd_pins := blocks\<rparr>]\<rparr>)))"
proof -
  have "pins_ok (snd (bindA (pin_all ids) (\<lambda>blocks. modA (\<lambda>s. s\<lparr>ps_pending := ps_pending s @ [p\<lparr>pd_pins := blocks\<rparr>]\<rparr>)) s))"
    if "pins_ok s" for s :: "'v pstate"
  proof -
    obtain r t where pin: "pin_all ids s = (r, t)" by force
    from pin_all_pins [OF pin] that pin show ?thesis
      by (cases r) (auto simp: bindA_def act_run pins_ok_def held_def ac_simps)
  qed
  then show ?thesis by (simp add: stepsA_def keeps_pins_def)
qed

lemma register_pins: "stepsA keeps_pins (register_finished_partial_tail V available rq block_ids offloads)"
  unfolding register_finished_partial_tail_def register_tail_def
  by (intro pins_steps queue_pins)

lemma output_pins: "vllm_ok V \<Longrightarrow> stepsA keeps_pins (update_connector_output V out)"
  unfolding update_connector_output_def
  by (intro pins_steps gpu_steps [OF gpu_V(8)]) (simp_all add: stepsA_def keeps_pins_def unpin_job_pins)

lemma meta_pins:
  assumes V: "vllm_ok V" and ok: "pins_ok s" and run: "build_connector_meta V s = (Inr jobs, s')"
  shows "pins_ok s'"
proof -
  obtain extra more t where t: "prepare_pending_tails V s = (Inr extra, t)" and s': "vl_meta V t = (Inr more, s')"
    using run by (auto simp: build_connector_meta_def bindA_Inr act_run)
  have "pins_ok t"
  proof (cases "ps_pending s = []")
    case True
    with t ok show ?thesis by (simp add: prepare_pending_tails_def act_run)
  next
    case False
    then have run1: "prepare_all V (ps_pending s) [] (s\<lparr>ps_pending := []\<rparr>) = (Inr extra, t)"
      using t by (simp add: prepare_pending_tails_def act_simps)
    show ?thesis
      by (rule prepare_all_pins [OF V _ _ _ _ run1]) (use ok in \<open>simp_all add: pins_ok_def held_def ac_simps\<close>)
  qed
  moreover have "gpu_part s' = gpu_part t" using keepsA_D [OF gpu_V(7) [OF V], of t] s' by simp
  ultimately show ?thesis using pins_cong by blast
qed

text \<open>Everything else leaves the block pins alone.\<close>

lemma pin_unpin_gpu [keeps_intros]: "keepsA gpu_part (choose_tail r x)"
  unfolding choose_tail_def Let_def by (intro keeps_intros) simp_all

lemma load_plans_gpu [keeps_intros]: "keepsA gpu_part (load_plans V r l e b ts ps a)"
  by (induction ps arbitrary: a)
     (auto intro!: keeps_intros simp: load_attn_def load_state_def add_ranges_def Let_def)

lemma keepsA_status [keeps_intros]:
  "keepsA f a \<Longrightarrow> keepsA f b \<Longrightarrow> keepsA f c \<Longrightarrow> keepsA f (case y of TMiss \<Rightarrow> a | TPending \<Rightarrow> b | THit \<Rightarrow> c)"
  by (cases y) auto

lemma note_allocated_parts [simp]:
  "gpu_part (note_allocated ts s) = gpu_part s" "live_part (note_allocated ts s) = live_part s"
  "ps_park (note_allocated ts s) = ps_park s"
  by (simp_all add: note_allocated_def)

lemma load_tail_gpu: "vllm_ok V \<Longrightarrow> keepsA gpu_part (load_tail V rq ts e key l)"
  unfolding load_tail_def Let_def by (intro keeps_intros gpu_V; simp)

lemma other_gpu:
  assumes V: "vllm_ok V"
  shows "keepsA gpu_part (on_new_request V rq)" "keepsA gpu_part (request_finished V rq)"
    "keepsA gpu_part (get_num_new_matched_tokens V rq n m)" "keepsA gpu_part (update_state_after_alloc V rq ts k)"
proof -
  show "keepsA gpu_part (on_new_request V rq)"
    unfolding on_new_request_def by (intro keeps_intros gpu_V [OF V]) simp_all
  show "keepsA gpu_part (request_finished V rq)"
    unfolding request_finished_def Let_def by (intro keeps_intros gpu_V [OF V]) simp_all
  show "keepsA gpu_part (get_num_new_matched_tokens V rq n m)"
    unfolding get_num_new_matched_tokens_def accept_tail_def Let_def by (intro keeps_intros gpu_V [OF V]; simp)
  have [simp]: "gpu_part (snd (release_tail_pin key s)) = gpu_part s" for key and s :: "'a pstate"
    by (rule keepsA_D [OF release_tail_pin_parts(1)])
  show "keepsA gpu_part (update_state_after_alloc V rq ts k)"
    unfolding update_state_after_alloc_def Let_def
    by (intro keeps_intros gpu_V [OF V] load_tail_gpu [OF V]; simp)
qed

lemma keeps_pinsD: "stepsA keeps_pins m \<Longrightarrow> pins_ok s \<Longrightarrow> m s = (r, s') \<Longrightarrow> pins_ok s'"
  unfolding stepsA_def keeps_pins_def by (metis snd_conv)

lemma step_pins:
  assumes V: "vllm_ok V" and ok: "pins_ok s" and step: "sched_step V s s'"
  shows "pins_ok s'"
  using step
proof cases
  case (step_meta jobs)
  then show ?thesis by (rule meta_pins [OF V ok])
next
  case (step_register available rq block_ids offloads r)
  then show ?thesis by (rule keeps_pinsD [OF register_pins ok])
next
  case (step_output out r)
  then show ?thesis by (rule keeps_pinsD [OF output_pins [OF V] ok])
qed (use keeps_pinsD [OF gpu_steps ok] other_gpu [OF V] in blast)+

text \<open>C9. The GPU blocks of a tail are pinned exactly until its store has finished or been given up: in
  every reachable state the blocks touched are the blocks freed plus those still held by a queued tail
  or by a store job in flight, each as often as it was touched. With nothing queued and no store in
  flight, every pin has been given back.\<close>

theorem block_pins_are_conserved:
  assumes "vllm_ok V" and "reachable V s0 s"
    and "ps_touched s0 = []" "ps_freed s0 = []" "ps_pending s0 = []" "ps_pin_holds s0 = []"
  shows "mset (ps_touched s) = mset (ps_freed s) + mset (held s)
     \<and> (ps_pending s = [] \<longrightarrow> ps_pin_holds s = [] \<longrightarrow> mset (ps_touched s) = mset (ps_freed s))"
proof -
  have "pins_ok s0" using assms(3-6) by (simp add: pins_ok_def held_def od_ok_def)
  with assms(2) have "pins_ok s" by (rule reachable_invariant) (rule step_pins [OF assms(1)])
  then show ?thesis by (simp add: pins_ok_def held_def)
qed

text \<open>A concrete vLLM side for the instances below, and a scheduler with an attention and a GDN group of
  block size 4 over a park of one slot.\<close>

definition plain_vllm :: "unit vllm" where
  "plain_vllm = \<lparr>vl_key = (\<lambda>h i. h @ [of_nat i]), vl_get = (\<lambda>p k. pol_chunks p k), vl_cdiv = (\<lambda>a b. - (- a div b)),
     vl_mark_non_evictable = (\<lambda>k p. p\<lparr>pol_evictable := pol_evictable p - {k}\<rparr>),
     vl_mark_evictable = (\<lambda>k p. p\<lparr>pol_evictable := insert k (pol_evictable p)\<rparr>),
     vl_prepare_store = (\<lambda>ks _. retA (Some (ks, ()))), vl_prepare_load = (\<lambda>_ _. retA ()),
     vl_lookup = (\<lambda>_ _ _. LHit), vl_job_id = liftA (\<lambda>s. Inr (1 + fold max (od_keys (ps_pin_holds s)) 0)),
     vl_acquire_step = retA (), vl_update_hits = (\<lambda>_ st. st), vl_new_request = (\<lambda>_. retA ()),
     vl_finished = (\<lambda>_. retA ()), vl_push_work = (\<lambda>_. False), vl_meta = retA [], vl_output = (\<lambda>_. retA ()),
     vl_matched = (\<lambda>_ _ _. retA (Some 0, False)), vl_after_alloc = (\<lambda>_ _ _. retA ())\<rparr>"

lemma fold_max_ge: "(x::int) \<in> set xs \<Longrightarrow> x \<le> fold max xs a" "a \<le> fold max xs a"
proof (induction xs arbitrary: a)
  case (Cons y ys)
  { case 1 then show ?case using Cons.IH(1) [of "max y a"] Cons.IH(2) [of "max y a"] by auto }
  { case 2 then show ?case using Cons.IH(2) [of "max y a"] by simp }
qed simp_all

lemma plain_vllm_ok: "vllm_ok plain_vllm"
  unfolding vllm_ok_def plain_vllm_def
  by (auto intro!: keeps_intros simp: cdiv_ok_def act_run dest: fold_max_ge(1) [where a = 0])

definition sample_groups :: "kv_group list" where
  "sample_groups =
     [\<lparr>kg_idx = 0, kg_spec = \<lparr>sp_class = ''FullAttentionSpec'', sp_is_full_attention = True, sp_is_mamba = False,
        sp_label = []\<rparr>, kg_eagle = False, kg_tokens_per_block = 4, kg_tokens_per_chunk = 4, kg_hashes_per_chunk = 1\<rparr>,
      \<lparr>kg_idx = 1, kg_spec = \<lparr>sp_class = ''MambaSpec'', sp_is_full_attention = False, sp_is_mamba = True,
        sp_label = ''GDN''\<rparr>, kg_eagle = False, kg_tokens_per_block = 4, kg_tokens_per_chunk = 4, kg_hashes_per_chunk = 1\<rparr>]"

definition sample_sched :: "unit pstate" where
  "sample_sched = \<lparr>ps_park = sample_index\<lparr>pi_slots := 1\<rparr>, ps_block = 4, ps_exact = True,
     ps_pool = Some (map (\<lambda>i. \<lparr>gb_id = i, gb_null = (i = 0), gb_hash = None\<rparr>) [0..5]), ps_touched = [], ps_freed = [],
     ps_pending = [], ps_plans = [], ps_pin_holds = [], ps_running = [], ps_req_conv = [], ps_choice = [],
     ps_groups = sample_groups, ps_workers = 1,
     ps_policy = policy_init (\<lambda>_. None) {} (\<lambda>_. None) [], ps_evictable_count = 0, ps_freed_chunks = [],
     ps_req_status = [(''r'', \<lparr>rs_jobs = [], rs_context = (), rs_local = 0, rs_partial = None, rs_ranges = []\<rparr>)],
     ps_jobs = [], ps_flush = [], ps_load_jobs = [], ps_allocated = [], ps_loading = None\<rparr>"

definition sample_request :: request where
  "sample_request = \<lparr>rq_id = ''r'', rq_hashes = [[7]], rq_tokens = [10, 11, 12, 13, 14, 15], rq_computed = 5,
     rq_in_flight = 0, rq_prompt = 6\<rparr>"

lemma upto_0_5: "[0..5::int] = [0, 1, 2, 3, 4, 5]"
  by (simp add: upto.simps)

lemma sample_register:
  "\<exists>s. register_finished_partial_tail plain_vllm None sample_request [[1, 2], [3]] [(1, 3, 5)] sample_sched = (Inr False, s)
     \<and> map gb_id (held s) = [2, 3]"
  by (simp add: register_finished_partial_tail_def register_tail_def act_simps sample_sched_def sample_request_def
      build_pending_def conv_of_def sample_groups_def plan_group_def kg_kind_def kind_of_def add_plan_def
      offered_blocks_def od_get_def plain_vllm_def Let_def py_slice_def py_bound_def py_nth_def py_pos_def
      tail_hash_def to_bytes_def empty_acc_def pin_all_def held_def upto_0_5)

theorem block_pins_are_conserved_witness:
  "\<exists>s. reachable plain_vllm sample_sched s \<and> map gb_id (held s) = [2, 3]
     \<and> mset (ps_touched s) = mset (ps_freed s) + mset (held s)"
proof -
  obtain s where run: "register_finished_partial_tail plain_vllm None sample_request [[1, 2], [3]] [(1, 3, 5)] sample_sched
      = (Inr False, s)" and h: "map gb_id (held s) = [2, 3]" using sample_register by (elim exE conjE)
  have r: "reachable plain_vllm sample_sched s"
    unfolding reachable_def by (rule r_into_rtranclp) (rule sched_step.step_register [OF run])
  have "ps_touched sample_sched = []" "ps_freed sample_sched = []" "ps_pending sample_sched = []"
    "ps_pin_holds sample_sched = []" by (simp_all add: sample_sched_def)
  from block_pins_are_conserved [OF plain_vllm_ok r this]
  show ?thesis using r h by (intro exI [of _ s]) simp
qed

lemma queued_tail_is_well_formed_witness:
  "\<exists>p. build_pending plain_vllm sample_request [[1, 2], [3]] [(1, 3, 5)] 5 sample_sched = Inr (Some p)
     \<and> map gl_group (pd_plans p) = [0, 1] \<and> sum_list (pd_sizes p) = int (length (pd_src p))"
proof -
  obtain p where p: "build_pending plain_vllm sample_request [[1, 2], [3]] [(1, 3, 5)] 5 sample_sched = Inr (Some p)"
    by (simp add: sample_sched_def sample_request_def
      build_pending_def conv_of_def sample_groups_def plan_group_def kg_kind_def kind_of_def add_plan_def
      offered_blocks_def od_get_def plain_vllm_def Let_def py_slice_def py_bound_def py_nth_def py_pos_def
      tail_hash_def to_bytes_def empty_acc_def)
  have "cdiv_ok plain_vllm" using plain_vllm_ok by (simp add: vllm_ok_def)
  then have "map gl_group (pd_plans p) = map kg_idx (ps_groups sample_sched)
      \<and> sum_list (pd_sizes p) = int (length (pd_src p))"
    using queued_tail_is_well_formed [OF p] by (simp add: sample_sched_def sample_index_def)
  then show ?thesis using p by (simp add: sample_sched_def sample_groups_def)
qed

section \<open>Running marks\<close>

text \<open>What a step that does not change the live requests keeps: the index invariant, the running marks
  and the request tables.\<close>

definition same_live :: "'v pstate \<Rightarrow> 'v pstate \<Rightarrow> bool" where
  "same_live s t \<longleftrightarrow> (index_wf (ps_park s) \<longrightarrow>
     index_wf (ps_park t) \<and> pi_running (ps_park t) = pi_running (ps_park s) \<and> live_part t = live_part s)"

lemma same_live_order: "reflp same_live" "transp same_live"
  by (auto simp: same_live_def reflp_def transp_def)

lemmas live_rules = stepsA_base [OF same_live_order(1)] stepsA_bind [OF same_live_order(2)]
  stepsA_mapA [OF same_live_order] stepsA_flat stepsA_catch [OF same_live_order(2)]

lemma own_live: "keepsA own_part m \<Longrightarrow> stepsA same_live m"
  by (auto simp: stepsA_def keepsA_def same_live_def own_part_def)

lemma park_live: "keepsA live_part m \<Longrightarrow> keepsA ps_park m \<Longrightarrow> stepsA same_live m"
  by (auto simp: stepsA_def keepsA_def same_live_def)

lemmas vllm_live = vllm_keeps [THEN own_live]

text \<open>Index operations keep the invariant and the running marks.\<close>

definition index_quiet :: "(park_index, 'a) act \<Rightarrow> bool" where
  "index_quiet m \<longleftrightarrow> (\<forall>ix. index_wf ix \<longrightarrow> index_wf (snd (m ix)) \<and> pi_running (snd (m ix)) = pi_running ix)"

lemma parkA_live: "index_quiet m \<Longrightarrow> stepsA same_live (parkA m)"
  by (auto simp: stepsA_def same_live_def index_quiet_def parkA_def zoomA_def live_part_def split: prod.splits)

lemma find_quiet: "index_quiet (index_find ids hs n)"
proof -
  have "keepsA pi_running (index_find ids hs n)"
    unfolding index_find_def touch_conv_def Let_def by (intro keeps_intros) simp_all
  then show ?thesis using index_find_keeps by (auto simp: index_quiet_def keepsA_def)
qed

lemma pin_quiet: "index_quiet (pin r)" "index_quiet (unpin r)"
  by (auto simp: index_quiet_def pin_def unpin_def act_run)

lemma discard_quiet: "index_quiet (discard k)"
proof -
  have "keepsA pi_running (discard k)"
    unfolding discard_def Let_def by (intro keeps_intros) simp_all
  then show ?thesis using discard_wf(1) by (auto simp: index_quiet_def keepsA_def)
qed

lemma store_quiet: "index_quiet (store a)"
  unfolding index_quiet_def
proof (intro allI impI)
  fix ix assume wf: "index_wf ix"
  then show "index_wf (snd (store a ix)) \<and> pi_running (snd (store a ix)) = pi_running ix"
  proof (cases rule: store_outcome [of ix a])
    case (refused e)
    with wf show ?thesis by simp
  next
    case (stored vs rel ix')
    have "od_ok (pi_by_conv ix)" using wf by (simp add: index_wf_def convs_ok_def)
    from plan_keys(3) [OF this stored(3)] have "pi_running ix - set (map fst vs) = pi_running ix" by fastforce
    with stored show ?thesis by (simp add: stored_view_def del: set_map)
  qed
qed

text \<open>The steps that leave the live requests alone.\<close>

lemma release_tail_pin_live: "stepsA same_live (release_tail_pin k)"
proof -
  have "index_quiet (withA (\<lambda>ix. case pi_by_tail ix k of None \<Rightarrow> retA ()
     | Some r \<Rightarrow> if tr_pinned (obj ix r) > 0 then unpin r else retA ()))"
    using pin_quiet by (auto simp: index_quiet_def act_run split: option.split)
  then show ?thesis unfolding release_tail_pin_def by (rule parkA_live)
qed

lemma choose_tail_live: "stepsA same_live (choose_tail req r)"
  unfolding choose_tail_def Let_def
  by (intro live_rules release_tail_pin_live parkA_live pin_quiet) (simp add: same_live_def)

lemma abort_tail_live: "stepsA same_live (abort_tail r)"
  unfolding abort_tail_def Let_def
  by (intro live_rules parkA_live discard_quiet) (simp_all add: same_live_def)

lemma own_same_live: "own_part t = own_part s \<Longrightarrow> same_live s t"
  by (simp add: same_live_def own_part_def)

lemma start_store_live: "vllm_ok V \<Longrightarrow> stepsA same_live (start_store V p ks spec)"
  unfolding start_store_def
  by (intro live_rules vllm_live) (simp_all add: own_same_live same_live_def)

lemma prepare_one_live': "vllm_ok V \<Longrightarrow> stepsA same_live (prepare_one V p)"
  unfolding prepare_one_def store_tail_def
  apply (intro live_rules vllm_live parkA_live store_quiet start_store_live abort_tail_live
        park_live [OF release_keys_parts(2,3)] own_live [OF pin_resident_own])
  by (simp_all add: own_same_live same_live_def)

lemma prepare_all_live: "vllm_ok V \<Longrightarrow> stepsA same_live (prepare_all V ps jobs)"
  by (induction ps arbitrary: jobs)
     (auto intro!: live_rules prepare_one_live' simp: same_live_def release_pin_def)

lemma meta_live: "vllm_ok V \<Longrightarrow> stepsA same_live (build_connector_meta V)"
  unfolding build_connector_meta_def prepare_pending_tails_def
  by (intro live_rules vllm_live prepare_all_live) (simp_all add: same_live_def)

lemma register_live: "stepsA same_live (register_finished_partial_tail V av rq ids offs)"
  unfolding register_finished_partial_tail_def register_tail_def pin_all_def Let_def
  by (intro live_rules) (simp_all add: same_live_def)

lemma release_pin_live: "same_live s (release_pin bs s)"
  by (simp add: same_live_def release_pin_def)

lemma output_live: "vllm_ok V \<Longrightarrow> stepsA same_live (update_connector_output V out)"
  unfolding update_connector_output_def unpin_job_def Let_def
  by (intro live_rules vllm_live release_pin_live) (simp_all add: same_live_def)

lemma stepsA_status:
  "stepsA R a \<Longrightarrow> stepsA R b \<Longrightarrow> stepsA R c \<Longrightarrow> stepsA R (case y of TMiss \<Rightarrow> a | TPending \<Rightarrow> b | THit \<Rightarrow> c)"
  by (cases y) auto

lemma matched_live: "vllm_ok V \<Longrightarrow> stepsA same_live (get_num_new_matched_tokens V rq n m)"
  unfolding get_num_new_matched_tokens_def accept_tail_def Let_def
  by (intro live_rules stepsA_status vllm_live parkA_live find_quiet choose_tail_live)
     (simp_all add: own_same_live)

lemma load_plans_own: "keepsA own_part (load_plans V r l e b ts ps a)"
  by (induction ps arbitrary: a)
     (auto intro!: keeps_intros simp: load_attn_def load_state_def add_ranges_def Let_def)

lemma load_tail_live: "vllm_ok V \<Longrightarrow> stepsA same_live (load_tail V rq ts e key l)"
  unfolding load_tail_def Let_def
  by (intro live_rules vllm_live own_live [OF load_plans_own]) (simp_all add: own_same_live same_live_def)

lemma alloc_live: "vllm_ok V \<Longrightarrow> stepsA same_live (update_state_after_alloc V rq ts k)"
  unfolding update_state_after_alloc_def pop_choice_def Let_def
  by (intro live_rules vllm_live load_tail_live release_tail_pin_live
        stepsA_finally [OF same_live_order(2)] stepsA_D [OF release_tail_pin_live])
     (simp_all add: same_live_def)

section \<open>Live requests\<close>

definition live_count :: "'v pstate \<Rightarrow> bytes \<Rightarrow> nat" where
  "live_count s c = count_list (map snd (ps_req_conv s)) c"

definition live_ok :: "'v pstate \<Rightarrow> bool" where
  "live_ok s \<longleftrightarrow> index_wf (ps_park s) \<and> od_ok (ps_req_conv s)
     \<and> (\<forall>c. od_get (ps_running s) c = (if live_count s c = 0 then None else Some (int (live_count s c))))
     \<and> pi_running (ps_park s) = {c. 0 < live_count s c}"

lemma live_okD:
  assumes "live_ok s"
  shows "index_wf (ps_park s)" "od_ok (ps_req_conv s)"
    "od_get (ps_running s) c = (if live_count s c = 0 then None else Some (int (live_count s c)))"
    "pi_running (ps_park s) = {c. 0 < live_count s c}"
  using assms by (simp_all add: live_ok_def)

lemma same_live_ok: "same_live s t \<Longrightarrow> live_ok s \<Longrightarrow> live_ok t"
  by (simp add: live_ok_def same_live_def live_part_def live_count_def)

lemma live_step: "stepsA same_live m \<Longrightarrow> live_ok s \<Longrightarrow> m s = (r, s') \<Longrightarrow> live_ok s'"
  using stepsA_D [of same_live m s] same_live_ok [of s s'] by simp

text \<open>Counting a request in and out.\<close>

lemma note_running_run:
  "note_running c d s = (let n = (case od_get (ps_running s) c of None \<Rightarrow> 0 | Some n \<Rightarrow> n) + d in
     (Inr (), s\<lparr>ps_running := (if n \<le> 0 then od_del c (ps_running s) else od_put c n (ps_running s)),
        ps_park := (ps_park s)\<lparr>pi_running := (if n \<le> 0 then pi_running (ps_park s) - {c}
                                              else insert c (pi_running (ps_park s)))\<rparr>\<rparr>))"
  by (simp add: note_running_def act_simps parkA_def zoomA_def set_running_def Let_def)

lemma note_running_ok:
  assumes ok: "live_ok s" and conv: "od_ok rc"
    and count: "\<And>x. int (count_list (map snd rc) x) = int (live_count s x) + (if x = c then d else 0)"
  shows "live_ok (snd (note_running c d (s\<lparr>ps_req_conv := rc\<rparr>)))"
proof -
  note D = live_okD [OF ok]
  let ?t = "snd (note_running c d (s\<lparr>ps_req_conv := rc\<rparr>))"
  have n: "(case od_get (ps_running s) c of None \<Rightarrow> 0 | Some n \<Rightarrow> n) = int (live_count s c)"
    using D(3) [of c] by simp
  have rc: "ps_req_conv ?t = rc" by (simp add: note_running_run Let_def)
  have cnt: "int (live_count ?t x) = int (live_count s x) + (if x = c then d else 0)" for x
    using count [of x] by (simp add: live_count_def rc)
  let ?N = "int (live_count s c) + d"
  have run: "od_get (ps_running ?t) x = (if x = c then (if ?N \<le> 0 then None else Some ?N) else od_get (ps_running s) x)"
    and pi: "pi_running (ps_park ?t) = (if ?N \<le> 0 then pi_running (ps_park s) - {c} else insert c (pi_running (ps_park s)))" for x
    by (simp_all add: note_running_run n Let_def od_get_put od_get_del)
  have "od_get (ps_running ?t) x = (if live_count ?t x = 0 then None else Some (int (live_count ?t x)))" for x
    unfolding run using D(3) [of x] cnt [of x] by (cases "x = c") auto
  moreover have "pi_running (ps_park ?t) = {x. 0 < live_count ?t x}"
  proof -
    have "x \<in> pi_running (ps_park ?t) \<longleftrightarrow> 0 < live_count ?t x" for x
      unfolding pi D(4) using cnt [of x] by (cases "x = c") auto
    then show ?thesis by blast
  qed
  moreover have "index_wf (ps_park ?t)" using D(1) by (simp add: note_running_run Let_def)
  ultimately show ?thesis using conv by (simp add: live_ok_def rc)
qed

lemma count_del:
  assumes "od_ok d" and "od_get d k = Some c"
  shows "int (count_list (map snd (od_del k d)) x) = int (count_list (map snd d) x) + (if x = c then - 1 else 0)"
  using assms
proof (induction d)
  case Nil
  then show ?case by simp
next
  case (Cons p d)
  obtain k' v where p: "p = (k', v)" by force
  have ok: "od_ok d" "k' \<notin> set (od_keys d)" using Cons.prems by (auto simp: p od_ok_def)
  show ?case
  proof (cases "k' = k")
    case True
    then have "od_del k (p # d) = d" using ok od_del_absent [of k d] by (simp add: p od_del_def)
    with True Cons.prems(2) show ?thesis by (simp add: p od_get_Cons)
  next
    case False
    then have "od_del k (p # d) = p # od_del k d" by (simp add: p od_del_def)
    with Cons.IH [OF ok(1)] Cons.prems(2) False show ?thesis
      by (auto simp: p od_get_Cons split: if_splits)
  qed
qed

lemma new_live:
  assumes V: "vllm_ok V" and ok: "live_ok s" and fresh: "rq_id rq \<notin> set (od_keys (ps_req_conv s))"
    and run: "on_new_request V rq s = (r, s')"
  shows "live_ok s'"
proof -
  obtain r1 t where t: "vl_new_request V rq s = (r1, t)" by force
  have own: "own_part t = own_part s" using keepsA_D [OF vllm_keeps(5) [OF V], of rq s] t by simp
  then have tl: "live_ok t" and ft: "rq_id rq \<notin> set (od_keys (ps_req_conv t))"
    using ok fresh same_live_ok [OF own_same_live] by (auto simp: own_part_def live_part_def)
  consider "s' = t" | c where "s' = snd (note_running c 1 (t\<lparr>ps_req_conv := od_put (rq_id rq) c (ps_req_conv t)\<rparr>))"
  proof -
    assume a: "s' = t \<Longrightarrow> thesis" "\<And>c. s' = snd (note_running c 1 (t\<lparr>ps_req_conv := od_put (rq_id rq) c (ps_req_conv t)\<rparr>)) \<Longrightarrow> thesis"
    have "s' = snd (on_new_request V rq s)" using run by simp
    with t a show thesis
      by (cases r1; cases "conv_of rq") (auto simp: on_new_request_def bindA_def act_run)
  qed
  then show ?thesis
  proof cases
    case 1
    with tl show ?thesis by simp
  next
    case 2
    show ?thesis unfolding 2
      by (rule note_running_ok [OF tl])
         (use live_okD(2) [OF tl] in \<open>simp add: od_ok_put\<close>, use ft in \<open>simp add: od_put_absent live_count_def\<close>)
  qed
qed

lemma finish_live:
  assumes V: "vllm_ok V" and ok: "live_ok s" and run: "request_finished V rq s = (r, s')"
  shows "live_ok s'"
proof -
  define m :: "('a pstate, (tail_key \<times> int) option) act" where "m = pop_choice (rq_id rq)"
  let ?free = "bindA m (\<lambda>choice. case choice of None \<Rightarrow> retA () | Some ch \<Rightarrow> release_tail_pin (fst ch))"
  have free: "stepsA same_live ?free"
    unfolding m_def pop_choice_def Let_def
    by (intro live_rules release_tail_pin_live) (simp add: same_live_def)
  obtain x t where t: "?free s = (x, t)" by force
  have tl: "live_ok t" by (rule live_step [OF free ok t])
  let ?conv = "od_get (ps_req_conv t) (rq_id rq)" and ?rc = "od_del (rq_id rq) (ps_req_conv t)"
  let ?u = "case ?conv of None \<Rightarrow> t\<lparr>ps_req_conv := ?rc\<rparr> | Some c \<Rightarrow> snd (note_running c (- 1) (t\<lparr>ps_req_conv := ?rc\<rparr>))"
  have "live_ok ?u"
  proof (cases ?conv)
    case None
    then have "?rc = ps_req_conv t" by (simp add: od_get_None od_del_absent)
    with tl None show ?thesis by simp
  next
    case (Some c)
    have "live_ok (snd (note_running c (- 1) (t\<lparr>ps_req_conv := ?rc\<rparr>)))"
      using live_okD(2) [OF tl] count_del [OF live_okD(2) [OF tl] Some]
      by (intro note_running_ok [OF tl]) (simp_all add: od_ok_del live_count_def)
    with Some show ?thesis by simp
  qed
  moreover have "same_live ?u s' \<or> s' = t \<or> s' = ?u"
  proof -
    have "s' = t \<or> s' = snd (vl_finished V rq ?u)"
      using run t unfolding request_finished_def m_def
      by (auto simp: bindA_def act_run Let_def note_running_run split: sum.splits option.splits prod.splits)
    then show ?thesis using stepsA_D [OF vllm_live(6) [OF V], of ?u rq] by blast
  qed
  ultimately show ?thesis using tl same_live_ok by blast
qed

lemma step_live:
  assumes V: "vllm_ok V" and ok: "live_ok s" and step: "sched_step V s s'"
  shows "live_ok s'"
  using step
proof cases
  case (step_new rq r)
  then show ?thesis using new_live [OF V ok] by blast
next
  case (step_finished rq r)
  then show ?thesis using finish_live [OF V ok] by blast
qed (use live_step [OF _ ok] register_live meta_live [OF V] output_live [OF V] matched_live [OF V] alloc_live [OF V] in blast)+

text \<open>C10. In every reachable state the running marks of the index are exactly the conversations of the
  requests registered and not finished, each counted as often as it has live requests, and so no store
  can evict a conversation a live request belongs to.\<close>

theorem live_conversations_are_never_evicted:
  assumes "vllm_ok V" and "reachable V s0 s" and "index_wf (ps_park s0)"
    and "ps_req_conv s0 = []" "ps_running s0 = []" "pi_running (ps_park s0) = {}"
  shows "pi_running (ps_park s) = set (map snd (ps_req_conv s))
     \<and> (\<forall>c. c \<in> set (map snd (ps_req_conv s)) \<longrightarrow>
           od_get (ps_running s) c = Some (int (count_list (map snd (ps_req_conv s)) c)))
     \<and> (\<forall>a res ix'. store a (ps_park s) = (Inr res, ix') \<longrightarrow>
           set (sr_evicted res) \<inter> set (map snd (ps_req_conv s)) = {})"
proof -
  have "live_ok s0" using assms(3-6) by (simp add: live_ok_def live_count_def od_ok_def)
  with assms(2) have ok: "live_ok s" by (rule reachable_invariant) (rule step_live [OF assms(1)])
  note D = live_okD [OF ok]
  have run: "pi_running (ps_park s) = set (map snd (ps_req_conv s))"
  proof -
    have "0 < count_list xs x \<longleftrightarrow> x \<in> set xs" for xs and x :: bytes
      using count_list_0_iff [of xs x] by (cases "count_list xs x") auto
    then show ?thesis unfolding D(4) live_count_def by simp
  qed
  have cnt: "od_get (ps_running s) c = Some (int (count_list (map snd (ps_req_conv s)) c))"
    if "c \<in> set (map snd (ps_req_conv s))" for c
    using D(3) [of c] that count_list_0_iff [of "map snd (ps_req_conv s)" c] by (simp add: live_count_def)
  have "set (sr_evicted res) \<inter> set (map snd (ps_req_conv s)) = {}" if st: "store a (ps_park s) = (Inr res, ix')" for a res ix'
  proof -
    obtain vs where vs: "store_plan (ps_park s) a = Inr vs" "sr_evicted res = map fst vs"
      by (rule store_success [OF D(1) st]) blast
    have "od_ok (pi_by_conv (ps_park s))" using D(1) by (simp add: index_wf_def convs_ok_def)
    from plan_keys(3) [OF this vs(1)] show ?thesis unfolding vs(2) run [symmetric] by fastforce
  qed
  with run cnt show ?thesis by blast
qed

theorem live_conversations_are_never_evicted_witness:
  "\<exists>s. on_new_request plain_vllm sample_request sample_sched = (Inr (), s)
     \<and> pi_running (ps_park s) = set (map snd (ps_req_conv s)) \<and> ps_req_conv s = [(''r'', [7])]"
proof -
  obtain s where run: "on_new_request plain_vllm sample_request sample_sched = (Inr (), s)"
    and rc: "ps_req_conv s = [(''r'', [7])]"
    by (simp add: on_new_request_def act_simps plain_vllm_def conv_of_def sample_request_def sample_sched_def
        note_running_run Let_def)
  have r: "reachable plain_vllm sample_sched s"
    unfolding reachable_def by (rule r_into_rtranclp) (rule sched_step.step_new [OF _ run], simp add: sample_sched_def)
  have "index_wf (ps_park sample_sched)"
    using index_init_ok [of 1 10 4 "ps_park sample_sched"]
    by (simp add: sample_sched_def sample_index_def index_init_def bindR_raise_if index_ok_def)
  from live_conversations_are_never_evicted [OF plain_vllm_ok r this] run rc
  show ?thesis by (auto simp: sample_sched_def sample_index_def)
qed

end
