(* ===== verification/Parking_Match.thy ===== *)
theory Parking_Match
  imports Parking_Props
begin

text \<open>
  Matching and loading: what a match of a parked tail guarantees, how the loaded token ranges cover the
  tail, and how a pin can be stranded by a store that supersedes the pinned tail.
\<close>

section \<open>Matching\<close>

lemma status_hit:
  "status_of_keys V ctx s ks pend = THit \<Longrightarrow> \<not> pend \<and> (\<forall>k \<in> set ks. vl_lookup V k ctx s = LHit)"
  by (induction ks arbitrary: pend) (auto split: lookup_result.splits if_splits)

lemma tail_status_hit:
  assumes "tail_status V s key req = Inr THit"
  obtains plans st where "od_get (ps_plans s) key = Some plans" "plans \<noteq> []"
    "od_get (ps_req_status s) req = Some st"
    "\<forall>plan \<in> set plans. \<forall>k \<in> set (gl_keys plan). vl_lookup V k (rs_context st) s = LHit"
  using assms unfolding tail_status_def
  by (auto split: option.splits if_splits dest!: status_hit)

lemma find_Inr_bounds: "index_find ids hs n ix = (Inr ro, ix') \<Longrightarrow> 0 \<le> n \<and> n \<le> int (length ids)"
  by (auto simp: index_find_def act_simps bindR_raise_if raise_if_def split: if_splits)

lemma choose_tail_choice:
  assumes "choose_tail req r s = (Inr u, s')"
  shows "od_get (ps_choice s') req = Some (tr_key (obj (ps_park s) r), tr_end (obj (ps_park s) r))"
proof -
  have "ensuresA (\<lambda>_ t. od_get (ps_choice t) req = Some (tr_key (obj (ps_park s) r), tr_end (obj (ps_park s) r)))
     (modA (\<lambda>t. t\<lparr>ps_choice := od_put req (tr_key (obj (ps_park s) r), tr_end (obj (ps_park s) r)) (ps_choice t)\<rparr>))"
    by (simp add: ensuresA_def act_run od_get_put)
  with assms show ?thesis
    unfolding choose_tail_def Let_def by (auto simp: act_run bindA_Inr od_get_put)
qed

lemma accept_tail_new:
  assumes run: "accept_tail V rq nc mx h al r s = (Inr (Some k, b), s')" and new: "(Some k, b) \<noteq> (Some h, al)"
  shows "nc + h < tr_end (obj (ps_park s) r) \<and> (\<forall>m. mx = Some m \<longrightarrow> tr_end (obj (ps_park s) r) - nc \<le> m)
     \<and> tail_status V s (tr_key (obj (ps_park s) r)) (rq_id rq) = Inr THit
     \<and> k = tr_end (obj (ps_park s) r) - nc \<and> b
     \<and> od_get (ps_choice s') (rq_id rq) = Some (tr_key (obj (ps_park s) r), tr_end (obj (ps_park s) r))"
  using run new
  by (auto simp: accept_tail_def Let_def bindA_Inr act_run split: if_splits option.splits park_status.splits
      dest!: choose_tail_choice)

text \<open>The tail branch of the match, from the superclass's answer to the result.\<close>

lemma matched_branch:
  assumes sup: "vl_matched V rq nc mx s = (Inr (Some h, al), s1)"
    and run: "get_num_new_matched_tokens V rq nc mx s = (Inr (Some k, b), s')" and new: "(Some k, b) \<noteq> (Some h, al)"
  shows "\<exists>r ix2.
    index_find (py_slice (rq_tokens rq) 0 (rq_prompt rq)) (rq_hashes rq) (rq_prompt rq) (ps_park s1) = (Inr (Some r), ix2)
    \<and> accept_tail V rq nc mx h al r (s1\<lparr>ps_park := ix2\<rparr>) = (Inr (Some k, b), s')"
proof -
  let ?find = "index_find (py_slice (rq_tokens rq) 0 (rq_prompt rq)) (rq_hashes rq) (rq_prompt rq) (ps_park s1)"
  obtain ro ix2 where find: "?find = (ro, ix2)" by force
  show ?thesis
    using run new sup find
    by (cases ro)
       (auto simp: get_num_new_matched_tokens_def bindA_def act_run Let_def parkA_def zoomA_def
         split: if_splits option.splits)
qed

text \<open>C11. When the scheduler answers a request with more than its superclass did, it restores a linked
  parked tail: a strict prefix of the prompt (so at least one prompt token is left to compute), the
  longest one parked, longer than what is already cached, within the caller's limit, with every block
  of its plan in host memory, and the tail is recorded as the request's choice.\<close>

theorem matched_tail_is_complete:
  assumes "vllm_ok V" and "index_wf (ps_park s)"
    and "vl_matched V rq nc mx s = (Inr (Some h, al), s1)"
    and "get_num_new_matched_tokens V rq nc mx s = (Inr (Some k, b), s')" and "(Some k, b) \<noteq> (Some h, al)"
  shows "\<exists>r. linked (ps_park s) r
     \<and> strict_tail (ps_park s) (py_slice (rq_tokens rq) 0 (rq_prompt rq)) (rq_hashes rq) (rq_prompt rq) r
     \<and> (\<forall>q. linked (ps_park s) q \<longrightarrow>
          strict_tail (ps_park s) (py_slice (rq_tokens rq) 0 (rq_prompt rq)) (rq_hashes rq) (rq_prompt rq) q \<longrightarrow>
          tr_end (obj (ps_park s) q) \<le> tr_end (obj (ps_park s) r))
     \<and> k = tr_end (obj (ps_park s) r) - nc \<and> h < k \<and> nc + k < rq_prompt rq \<and> (\<forall>m. mx = Some m \<longrightarrow> k \<le> m)
     \<and> (\<exists>plans st ix. od_get (ps_plans s1) (tr_key (obj (ps_park s) r)) = Some plans \<and> plans \<noteq> []
          \<and> od_get (ps_req_status s1) (rq_id rq) = Some st
          \<and> (\<forall>plan \<in> set plans. \<forall>key \<in> set (gl_keys plan).
               vl_lookup V key (rs_context st) (s1\<lparr>ps_park := ix\<rparr>) = LHit))
     \<and> od_get (ps_choice s') (rq_id rq) = Some (tr_key (obj (ps_park s) r), nc + k)"
proof -
  let ?ids = "py_slice (rq_tokens rq) 0 (rq_prompt rq)"
  have own: "ps_park s1 = ps_park s"
    using keepsA_D [OF vllm_keeps(9) [OF assms(1)], of rq nc mx s] assms(3) by (simp add: own_part_def)
  obtain r ix2 where find: "index_find ?ids (rq_hashes rq) (rq_prompt rq) (ps_park s) = (Inr (Some r), ix2)"
    and acc: "accept_tail V rq nc mx h al r (s1\<lparr>ps_park := ix2\<rparr>) = (Inr (Some k, b), s')"
    using matched_branch [OF assms(3-5)] unfolding own by blast
  note bounds = find_Inr_bounds [OF find]
  obtain ro ix' where "index_find ?ids (rq_hashes rq) (rq_prompt rq) (ps_park s) = (Inr ro, ix')"
    and spec: "case ro of
          None \<Rightarrow> ix' = ps_park s \<and> (\<forall>r. linked (ps_park s) r \<longrightarrow> \<not> strict_tail (ps_park s) ?ids (rq_hashes rq) (rq_prompt rq) r)
        | Some r \<Rightarrow> linked (ps_park s) r \<and> strict_tail (ps_park s) ?ids (rq_hashes rq) (rq_prompt rq) r
            \<and> (\<forall>q. linked (ps_park s) q \<longrightarrow> strict_tail (ps_park s) ?ids (rq_hashes rq) (rq_prompt rq) q
                 \<longrightarrow> tr_end (obj (ps_park s) q) \<le> tr_end (obj (ps_park s) r))
            \<and> (\<exists>d. od_to_end (tr_conv (obj (ps_park s) r)) (pi_by_conv (ps_park s)) = Inr d
                 \<and> ix' = (ps_park s)\<lparr>pi_by_conv := d\<rparr>)"
    using index_find_run [OF assms(2) bounds [THEN conjunct1] bounds [THEN conjunct2], of "rq_hashes rq"] by blast
  with find have lk: "linked (ps_park s) r" and st: "strict_tail (ps_park s) ?ids (rq_hashes rq) (rq_prompt rq) r"
    and best: "\<forall>q. linked (ps_park s) q \<longrightarrow> strict_tail (ps_park s) ?ids (rq_hashes rq) (rq_prompt rq) q
                 \<longrightarrow> tr_end (obj (ps_park s) q) \<le> tr_end (obj (ps_park s) r)"
    and o: "obj ix2 r = obj (ps_park s) r" by (auto simp: obj_def)
  note a = accept_tail_new [OF acc assms(5)]
  from a have k: "k = tr_end (obj (ps_park s) r) - nc" "nc + h < tr_end (obj (ps_park s) r)"
    "\<forall>m. mx = Some m \<longrightarrow> k \<le> m"
    "od_get (ps_choice s') (rq_id rq) = Some (tr_key (obj (ps_park s) r), nc + k)" by (simp_all add: o)
  have "tail_status V (s1\<lparr>ps_park := ix2\<rparr>) (tr_key (obj (ps_park s) r)) (rq_id rq) = Inr THit" using a by (simp add: o)
  then obtain plans st where "od_get (ps_plans s1) (tr_key (obj (ps_park s) r)) = Some plans" "plans \<noteq> []"
    "od_get (ps_req_status s1) (rq_id rq) = Some st"
    "\<forall>plan \<in> set plans. \<forall>k \<in> set (gl_keys plan). vl_lookup V k (rs_context st) (s1\<lparr>ps_park := ix2\<rparr>) = LHit"
    by (rule tail_status_hit) simp
  moreover have "nc + k < rq_prompt rq" using st k(1) by (auto simp: strict_tail_def)
  moreover have "h < k" using k(1,2) by simp
  ultimately show ?thesis using lk st best k by blast
qed

definition sample_tail :: "bytes \<Rightarrow> int list \<Rightarrow> store_args" where
  "sample_tail c t = (sample_store c t 1)\<lparr>sa_tail_only := [c @ [9]]\<rparr>"

definition parked_sched :: "unit pstate" where
  "parked_sched = snd (parkA (store (sample_tail [7] [10])) sample_sched)
     \<lparr>ps_plans := [((None, [10]), [\<lparr>gl_group = 1, gl_kind = ''state'', gl_keys = [[7, 9]]\<rparr>])]\<rparr>"

lemmas sched_eval = parked_sched_def parkA_def zoomA_def sample_tail_def sample_sched_def store_eval

lemma parked_index_wf: "index_wf (ps_park parked_sched)"
proof -
  have ok: "index_ok (ps_park sample_sched)"
    using index_init_ok [of 1 10 4 "ps_park sample_sched"]
    by (simp add: sample_sched_def sample_index_def index_init_def bindR_raise_if)
  have "ps_park parked_sched = snd (store (sample_tail [7] [10]) (ps_park sample_sched))"
    by (simp add: parked_sched_def parkA_def zoomA_def split: prod.splits)
  with index_ok_store [OF ok] show ?thesis by (simp add: index_ok_def)
qed

lemma sample_match:
  "\<exists>s'. get_num_new_matched_tokens plain_vllm sample_request 0 None parked_sched = (Inr (Some 1, True), s')"
  by (simp add: get_num_new_matched_tokens_def plain_vllm_def accept_tail_def tail_status_def choose_tail_def
      waiting_on_pending_def sample_request_def index_find_def find_loop.simps bucket_def tail_matches_def
      touch_conv_def tail_ids_def py_slice_def py_bound_def pin_def add_pin_def set_status_def sched_eval)

theorem matched_tail_is_complete_witness:
  "\<exists>r. linked (ps_park parked_sched) r \<and> tr_end (obj (ps_park parked_sched) r) = 1"
proof -
  obtain s' where run: "get_num_new_matched_tokens plain_vllm sample_request 0 None parked_sched = (Inr (Some 1, True), s')"
    using sample_match by (elim exE)
  have sup: "vl_matched plain_vllm sample_request 0 None parked_sched = (Inr (Some 0, False), parked_sched)"
    by (simp add: plain_vllm_def act_run)
  have "(Some 1, True) \<noteq> (Some (0::int), False)" by simp
  from matched_tail_is_complete [OF plain_vllm_ok parked_index_wf sup run this] show ?thesis by force
qed

section \<open>Loading\<close>

lemma attn_ranges_map:
  assumes "0 < block" "local \<le> chunk * block" "\<forall>i < length ks. (chunk + int i) * block < e"
  shows "attn_ranges local e block chunk ks =
     map (\<lambda>i. ((chunk + int i) * block, min e ((chunk + int i + 1) * block), ks ! i)) [0..<length ks]"
  using assms(2,3)
proof (induction ks arbitrary: chunk)
  case Nil
  then show ?case by simp
next
  case (Cons k ks)
  have "local \<le> (chunk + 1) * block" using Cons.prems(1) assms(1) by (simp add: algebra_simps)
  moreover have "\<forall>i < length ks. (chunk + 1 + int i) * block < e"
    using Cons.prems(2) by (auto simp: algebra_simps dest: spec [of _ "Suc _"])
  ultimately have IH: "attn_ranges local e block (chunk + 1) ks =
     map (\<lambda>i. ((chunk + 1 + int i) * block, min e ((chunk + 1 + int i + 1) * block), ks ! i)) [0..<length ks]"
    by (rule Cons.IH)
  have "chunk * block < e" using Cons.prems(2) by auto
  moreover have "chunk * block < (chunk + 1) * block" using assms(1) by simp
  ultimately have "max local (chunk * block) = chunk * block" "chunk * block < min e ((chunk + 1) * block)"
    using Cons.prems(1) by auto
  moreover have "map f [0..<length (k # ks)] = f 0 # map (\<lambda>i. f (Suc i)) [0..<length ks]" for f :: "nat \<Rightarrow> int \<times> int \<times> bytes"
    by (simp add: upt_conv_Cons map_Suc_upt [symmetric] comp_def del: upt_Suc)
  ultimately show ?case by (simp only: attn_ranges.simps IH Let_def if_True append_Cons append_Nil) (simp add: ac_simps)
qed

text \<open>Loading a tail past a local hit of whole blocks, the token ranges recorded for an attention group
  are one range per loaded key, in order, each within its block, that tile the tokens from the local
  hit to the tail's end without gap or overlap.\<close>

lemma loaded_ranges_tile_the_tail:
  assumes "0 < block" and "local mod block = 0" and "local < e"
    and "int (length ks) = - (- e div block) - local div block"
  shows "let rs = attn_ranges local e block (local div block) ks in
     length rs = length ks
     \<and> (\<forall>i < length ks. rs ! i = (local + int i * block, min e (local + (int i + 1) * block), ks ! i))
     \<and> (\<forall>t. (\<exists>i < length ks. fst (rs ! i) \<le> t \<and> t < fst (snd (rs ! i))) \<longleftrightarrow> local \<le> t \<and> t < e)"
proof -
  let ?c = "local div block" and ?rs = "attn_ranges local e block (local div block) ks"
  have loc: "?c * block = local" using assms(2) by (simp add: mult_div_mod_eq [symmetric] minus_mod_eq_div_mult [symmetric])
  have in_block: "(?c + int i) * block < e" if "i < length ks" for i
  proof -
    have "- e div block < - (?c + int i)" using that assms(4) by linarith
    then have "- e < - (?c + int i) * block" using assms(1) by (simp only: int_div_less_iff)
    then show ?thesis by (simp only: mult_minus_left neg_less_iff_less)
  qed
  have rs: "?rs = map (\<lambda>i. ((?c + int i) * block, min e ((?c + int i + 1) * block), ks ! i)) [0..<length ks]"
    using in_block loc by (intro attn_ranges_map assms(1)) auto
  have nth: "?rs ! i = (local + int i * block, min e (local + (int i + 1) * block), ks ! i)" if "i < length ks" for i
  proof -
    have "(?c + int i) * block = local + int i * block" "(?c + int i + 1) * block = local + (int i + 1) * block"
      using loc by (simp_all add: algebra_simps)
    with that show ?thesis by (simp add: rs)
  qed
  have "(\<exists>i < length ks. fst (?rs ! i) \<le> t \<and> t < fst (snd (?rs ! i))) \<longleftrightarrow> local \<le> t \<and> t < e" for t
  proof
    assume "\<exists>i < length ks. fst (?rs ! i) \<le> t \<and> t < fst (snd (?rs ! i))"
    then show "local \<le> t \<and> t < e" using assms(1) by (auto simp: nth) (smt (verit) mult_nonneg_nonneg of_nat_0_le_iff)
  next
    assume t: "local \<le> t \<and> t < e"
    let ?i = "(t - local) div block"
    have i0: "0 \<le> ?i" using t assms(1) by (simp add: pos_imp_zdiv_nonneg_iff)
    have lo: "?i * block \<le> t - local" using assms(1) by (rule int_div_mult_le)
    have hi: "t - local < (?i + 1) * block" using assms(1) int_div_less_iff [of block "t - local" "?i + 1"] by simp
    have "?i < int (length ks)"
    proof -
      have "(?c + ?i) * block < e" using lo t loc by (simp add: algebra_simps)
      then have "- e < - (?c + ?i) * block" by (simp only: mult_minus_left neg_less_iff_less)
      then have "- e div block < - (?c + ?i)" using assms(1) by (simp only: int_div_less_iff)
      then show ?thesis using assms(4) by linarith
    qed
    then have i: "nat ?i < length ks" using i0 by linarith
    have "fst (?rs ! nat ?i) \<le> t \<and> t < fst (snd (?rs ! nat ?i))"
      using lo hi t i0 by (simp add: nth [OF i])
    with i show "\<exists>i < length ks. fst (?rs ! i) \<le> t \<and> t < fst (snd (?rs ! i))" by blast
  qed
  with nth rs show ?thesis by (simp add: Let_def)
qed

lemma loaded_ranges_tile_the_tail_witness:
  "attn_ranges 4 10 4 1 [[1], [2]] = [(4, 8, [1]), (8, 10, [2])]
   \<and> (\<exists>i < 2. fst (attn_ranges 4 10 4 1 [[1], [2]] ! i) \<le> (9::int))"
proof -
  have "\<forall>t. (\<exists>i < length [[1], [2 :: 8 word]]. fst (attn_ranges 4 10 4 (4 div 4) [[1], [2]] ! i) \<le> t
      \<and> t < fst (snd (attn_ranges 4 10 4 (4 div 4) [[1], [2]] ! i))) \<longleftrightarrow> 4 \<le> t \<and> t < 10"
    using loaded_ranges_tile_the_tail [of 4 4 10 "[[1], [2]]"] by (simp only: Let_def) simp
  then show ?thesis by (simp add: Let_def) force
qed

section \<open>A stranded pin\<close>

text \<open>A pin outlives its request when another request of the same conversation stores a newer tail
  first: the store unlinks the pinned record, so giving the pin back by key finds nothing, the record
  stays in the conversation's list with its pin, and the conversation can never be evicted again. With
  one slot, every other conversation is then refused for good.\<close>

lemma superseded_pin_is_never_released:
  "let s1 = snd (choose_tail ''r'' 0 parked_sched);
       s2 = snd (parkA (store (sample_tail [7] [10, 11])) s1);
       s3 = snd (request_finished plain_vllm sample_request s2)
   in ps_choice s3 = [] \<and> pi_by_tail (ps_park s3) (None, [10]) = None \<and> tr_pinned (obj (ps_park s3) 0) = 1
      \<and> fst (store (sample_tail [8] [12]) (ps_park s3))
        = Inl (ValueError ''park cannot fit this conversation without evicting a pinned or running one'')"
  by (simp add: choose_tail_def request_finished_def pop_choice_def release_tail_pin_def plain_vllm_def sample_request_def
      pin_def add_pin_def sched_eval plan_loop.simps next_victim_def eligible_def entry_pinned_def)

end
