(* ===== verification/Placement.thy ===== *)
theory Placement
  imports Park_Index
begin

text \<open>
  Expert placement over two cards, \<open>vllm/flashnext/plugins/b70_ep_xpu/b70_ep_xpu/placement.py\<close>: the
  profile reader, the snake deal, the packing into local slots, the linear split and the plan cache.
  A file is its bytes. The float share is an argument: \<open>Some f\<close> when it lies strictly between 0 and 1,
  with \<open>f k i\<close> for the test \<open>k <= share0 * i\<close>.
\<close>

section \<open>The profile file\<close>

record profile =
  pr_version :: int
  pr_layers :: int
  pr_experts :: int
  pr_slots :: int
  pr_ranked :: "(int \<times> int) list"

text \<open>Little-endian unsigned integers, as \<open>struct\<close> reads and writes them.\<close>

fun le_int :: "bytes \<Rightarrow> int" where
  "le_int [] = 0"
| "le_int (b # bs) = uint b + 256 * le_int bs"

definition unpack_5I :: "bytes \<Rightarrow> int \<times> int \<times> int \<times> int \<times> int" where
  "unpack_5I h = (le_int (take 4 h), le_int (take 4 (drop 4 h)), le_int (take 4 (drop 8 h)),
     le_int (take 4 (drop 12 h)), le_int (take 4 (drop 16 h)))"

text \<open>The loop over the pairs; \<open>raw\<close> is what is left of the ranked list.\<close>

fun read_pairs :: "nat \<Rightarrow> bytes \<Rightarrow> int \<Rightarrow> int \<Rightarrow> (int \<times> int) list res" where
  "read_pairs 0 raw n_layers n_expert = Inr []"
| "read_pairs (Suc n) raw n_layers n_expert =
     (let layer = le_int (take 2 raw); expert = le_int (take 2 (drop 2 raw)) in
      if layer \<ge> n_layers \<or> expert \<ge> n_expert then Inl (ValueError ''pair out of range'')
      else bindR (read_pairs n (drop 4 raw) n_layers n_expert) (\<lambda>rest. Inr ((layer, expert) # rest)))"

definition STRP :: bytes where "STRP = [0x53, 0x54, 0x52, 0x50]"

definition read_profile :: "bytes \<Rightarrow> int \<Rightarrow> int \<Rightarrow> profile res" where
  "read_profile file n_layers n_expert =
     (if take 4 file \<noteq> STRP then Inl (ValueError ''does not start with STRP'')
      else let header = take 20 (drop 4 file) in
      if length header \<noteq> 20 then Inl (ValueError ''too short to hold a header'')
      else let (version, nl, ne, slots, n_ranked) = unpack_5I header in
      if version \<noteq> 1 then Inl (ValueError ''profile version'')
      else if nl \<noteq> n_layers \<or> ne \<noteq> n_expert then Inl (ValueError ''profile shape'')
      else if n_ranked > slots then Inl (ValueError ''more ranked pairs than slots'')
      else let raw = take (nat (n_ranked * 4)) (drop 24 file) in
      if int (length raw) \<noteq> n_ranked * 4 then Inl (ValueError ''ranked list is truncated'')
      else bindR (read_pairs (nat n_ranked) raw n_layers n_expert) (\<lambda>pairs.
        Inr \<lparr>pr_version = version, pr_layers = n_layers, pr_experts = n_expert, pr_slots = slots, pr_ranked = pairs\<rparr>))"

section \<open>The deal\<close>

record layer_plan =
  lp_layer :: int
  lp_card0 :: "int list"
  lp_card1 :: "int list"
  lp_res0 :: "int list"
  lp_res1 :: "int list"

text \<open>The first loop of \<open>snake_deal\<close>: the ranked experts of each layer, first occurrences only.\<close>

fun rank_order :: "(int \<times> int) list \<Rightarrow> (int \<times> int) set \<Rightarrow> int list list \<Rightarrow> int list list res" where
  "rank_order [] seen order = Inr order"
| "rank_order (key # ranked) seen order =
     (if key \<in> seen then rank_order ranked seen order
      else case py_pos (length order) (fst key) of
             None \<Rightarrow> Inl (IndexError ''list index out of range'')
           | Some p \<Rightarrow> rank_order ranked (insert key seen) (order[p := order ! p @ [snd key]]))"

definition add_cold :: "int \<Rightarrow> int list \<Rightarrow> int list" where
  "add_cold n_expert have_ranked = have_ranked @ filter (\<lambda>e. e \<notin> set have_ranked) [0..n_expert - 1]"

definition snake_card :: "nat \<Rightarrow> nat" where
  "snake_card index = (let pair_odd = (index div 2) mod 2 \<noteq> 0 in if (index mod 2 \<noteq> 0) \<noteq> pair_odd then 1 else 0)"

text \<open>The card one expert goes to, given how many each card has.\<close>

definition deal_card :: "(nat \<Rightarrow> nat \<Rightarrow> bool) option \<Rightarrow> int \<Rightarrow> int \<Rightarrow> nat \<Rightarrow> nat \<Rightarrow> nat \<Rightarrow> nat" where
  "deal_card share q0 q1 index n0 n1 =
     (let card = (case share of None \<Rightarrow> snake_card index | Some f \<Rightarrow> if f (n0 + 1) (index + 1) then 0 else 1);
          card = (if card = 0 \<and> int n0 \<ge> q0 then 1 else card)
      in if card = 1 \<and> int n1 \<ge> q1 then 0 else card)"

fun deal_loop :: "(nat \<Rightarrow> nat \<Rightarrow> bool) option \<Rightarrow> int \<Rightarrow> int \<Rightarrow> nat \<Rightarrow> int list \<Rightarrow> int list \<Rightarrow> int list \<Rightarrow> int list \<times> int list" where
  "deal_loop share q0 q1 index [] got0 got1 = (got0, got1)"
| "deal_loop share q0 q1 index (expert # order) got0 got1 =
     (if deal_card share q0 q1 index (length got0) (length got1) = 0
      then deal_loop share q0 q1 (Suc index) order (got0 @ [expert]) got1
      else deal_loop share q0 q1 (Suc index) order got0 (got1 @ [expert]))"

text \<open>\<open>for slot, expert in enumerate(c): res[expert] = slot\<close>.\<close>

fun fill_slots :: "int list \<Rightarrow> nat \<Rightarrow> int list \<Rightarrow> int list res" where
  "fill_slots [] slot res = Inr res"
| "fill_slots (e # es) slot res =
     (case py_pos (length res) e of
        None \<Rightarrow> Inl (IndexError ''list assignment index out of range'')
      | Some p \<Rightarrow> fill_slots es (Suc slot) (res[p := int slot]))"

definition pack_plan :: "int \<Rightarrow> int list \<Rightarrow> int list \<Rightarrow> int \<Rightarrow> layer_plan res" where
  "pack_plan layer card0 card1 n_expert =
     (let c0 = sort card0; c1 = sort card1 in
      if set c0 \<inter> set c1 \<noteq> {} then Inl (RuntimeError ''cards overlap'')
      else if int (length c0) + int (length c1) \<noteq> n_expert then Inl (RuntimeError ''does not cover every expert'')
      else let free = replicate (nat n_expert) (- 1) in
      bindR (fill_slots c0 0 free) (\<lambda>res0.
      bindR (fill_slots c1 0 free) (\<lambda>res1.
        Inr \<lparr>lp_layer = layer, lp_card0 = c0, lp_card1 = c1, lp_res0 = res0, lp_res1 = res1\<rparr>)))"

definition deal_layer :: "(nat \<Rightarrow> nat \<Rightarrow> bool) option \<Rightarrow> int \<Rightarrow> int \<Rightarrow> int \<Rightarrow> int \<times> int list \<Rightarrow> layer_plan res" where
  "deal_layer share q0 q1 n_expert = (\<lambda>(layer, order).
     let (got0, got1) = deal_loop share q0 q1 0 order [] [] in
     if int (length got0) \<noteq> q0 \<or> int (length got1) \<noteq> q1 then Inl (RuntimeError ''layer dealt a wrong count'')
     else pack_plan layer got0 got1 n_expert)"

definition snake_deal :: "(int \<times> int) list \<Rightarrow> int \<Rightarrow> int \<Rightarrow> int \<Rightarrow> (nat \<Rightarrow> nat \<Rightarrow> bool) option \<Rightarrow> layer_plan list res" where
  "snake_deal ranked n_layers n_expert q0 share =
     (if q0 < 1 \<or> q0 \<ge> n_expert then Inl (ValueError ''card 0 quota does not leave a card 1 set'')
      else bindR (rank_order ranked {} (replicate (nat n_layers) [])) (\<lambda>order.
        mapR (deal_layer share q0 (n_expert - q0) n_expert) (zip [0..n_layers - 1] (map (add_cold n_expert) order))))"

section \<open>The linear split and the mode\<close>

definition linear_half :: "int \<Rightarrow> (int list \<times> int list \<times> int list \<times> int list) res" where
  "linear_half n_expert =
     (if n_expert < 2 \<or> n_expert mod 2 \<noteq> 0 then Inl (ValueError ''linear split wants an even expert count'')
      else let n0 = n_expert div 2 in
        Inr ([0..n0 - 1], [n0..n_expert - 1],
             map (\<lambda>e. if e < n0 then e else - 1) [0..n_expert - 1],
             map (\<lambda>e. if e \<ge> n0 then e - n0 else - 1) [0..n_expert - 1]))"

text \<open>\<open>mode\<close> is the stripped, lower-cased value of \<open>B70_EP_SPLIT\<close> (default \<open>auto\<close>).\<close>

definition split_mode :: "string \<Rightarrow> int \<Rightarrow> string res" where
  "split_mode mode n_expert =
     (if mode = ''linear'' \<or> mode = ''half'' then Inr ''linear''
      else if mode = ''profile'' \<or> mode = ''snake'' then Inr ''profile''
      else if mode \<noteq> ''auto'' then Inl (ValueError ''not auto, linear, or profile'')
      else Inr (if n_expert = 512 then ''profile'' else ''linear''))"

text \<open>\<open>flashnext_plans\<close> after its defaults are resolved. The cache key holds the float share, here the
  name \<open>share_key\<close> of the share; \<open>files\<close> is the file system.\<close>

type_synonym plan_key = "string \<times> int \<times> int \<times> int \<times> string"

definition flashnext_plans :: "(string \<Rightarrow> bytes) \<Rightarrow> (string \<Rightarrow> (nat \<Rightarrow> nat \<Rightarrow> bool) option) \<Rightarrow> plan_key \<Rightarrow>
    ((plan_key, layer_plan list) odict, layer_plan list) act" where
  "flashnext_plans files share_of = (\<lambda>(path, n_layers, n_expert, quota, share_key). withA (\<lambda>cache.
     case od_get cache (path, n_layers, n_expert, quota, share_key) of
       Some hit \<Rightarrow> retA hit
     | None \<Rightarrow>
         bindA (liftA (\<lambda>_. read_profile (files path) n_layers n_expert)) (\<lambda>profile.
         bindA (liftA (\<lambda>_. snake_deal (pr_ranked profile) n_layers n_expert quota (share_of share_key))) (\<lambda>plans.
         bindA (modA (od_put (path, n_layers, n_expert, quota, share_key) plans)) (\<lambda>_. retA plans)))))"

end
