(* ===== verification/Codec.thy ===== *)
theory Codec
  imports Prelude
begin

text \<open>
  The contract of a pair of routines that write a value and read it back, either of which may raise. The
  weight packer, the profile file, the text encodings and the sealed records are interpretations.
\<close>

locale codec =
  fixes ok :: "'a \<Rightarrow> bool"
    and enc :: "'a \<Rightarrow> 'b res"
    and dec :: "'b \<Rightarrow> 'a res"
  assumes decode: "ok x \<Longrightarrow> \<exists>y. enc x = Inr y \<and> dec y = Inr x"
begin

lemma dec_enc: "ok x \<Longrightarrow> enc x = Inr y \<Longrightarrow> dec y = Inr x"
  using decode [of x] by auto

lemma enc_inj: "ok x \<Longrightarrow> ok x' \<Longrightarrow> enc x = enc x' \<Longrightarrow> x = x'"
  using decode [of x] decode [of x'] by auto

lemma enc_never_raises: "ok x \<Longrightarrow> enc x \<noteq> Inl e"
  using decode [of x] by auto

end

end
