(* ===== verification/Placement_Props.thy ===== *)
theory Placement_Props
  imports Placement Codec "HOL-Library.Multiset"
begin

text \<open>
  The deal of experts partitions them with exact quotas and invertible slot maps, deals the hot ones
  0, 1, 1, 0, the profile reader inverts the profile's layout, and cached plans are the plans.
\<close>

section \<open>The order of a layer\<close>

definition layer_ranks :: "nat \<Rightarrow> (int \<times> int) list \<Rightarrow> int list list" where
  "layer_ranks n ks = map (\<lambda>p. map snd (filter (\<lambda>k. fst k = int p) ks)) [0..<n]"

text \<open>The ranked keys that name a layer and an expert of the model.\<close>

definition in_model :: "int \<Rightarrow> int \<Rightarrow> (int \<times> int) list \<Rightarrow> bool" where
  "in_model n_layers n_expert ks \<longleftrightarrow> (\<forall>(l, e) \<in> set ks. 0 \<le> l \<and> l < n_layers \<and> 0 \<le> e \<and> e < n_expert)"

lemma py_pos_nonneg: "0 \<le> i \<Longrightarrow> i < int n \<Longrightarrow> py_pos n i = Some (nat i)"
  by (simp add: py_pos_def)

lemma layer_ranks_snoc:
  assumes "0 \<le> l" "l < int n"
  shows "(layer_ranks n acc)[nat l := layer_ranks n acc ! nat l @ [e]] = layer_ranks n (acc @ [(l, e)])"
proof (rule nth_equalityI)
  show "length ((layer_ranks n acc)[nat l := layer_ranks n acc ! nat l @ [e]]) = length (layer_ranks n (acc @ [(l, e)]))"
    by (simp add: layer_ranks_def)
  fix p assume "p < length ((layer_ranks n acc)[nat l := layer_ranks n acc ! nat l @ [e]])"
  then have p: "p < n" by (simp add: layer_ranks_def)
  show "(layer_ranks n acc)[nat l := layer_ranks n acc ! nat l @ [e]] ! p = layer_ranks n (acc @ [(l, e)]) ! p"
    using p assms by (cases "p = nat l") (auto simp: layer_ranks_def nth_list_update)
qed

lemma rank_order_spec:
  assumes "\<forall>(l, e) \<in> set ranked. 0 \<le> l \<and> l < int n"
  shows "rank_order ranked (set acc) (layer_ranks n acc) = Inr (layer_ranks n (ls_union acc ranked))"
  using assms
proof (induction ranked arbitrary: acc)
  case Nil
  then show ?case by (simp add: ls_union_def)
next
  case (Cons key ranked)
  obtain l e where key: "key = (l, e)" by force
  with Cons.prems have l: "0 \<le> l" "l < int n" by auto
  have len: "length (layer_ranks n acc) = n" by (simp add: layer_ranks_def)
  have u: "ls_union acc (key # ranked) = ls_union (ls_add key acc) ranked" by (simp add: ls_union_def)
  show ?case
  proof (cases "key \<in> set acc")
    case True
    then have "ls_add key acc = acc" by (simp add: ls_add_def)
    with True Cons show ?thesis by (simp add: u)
  next
    case False
    then have add: "ls_add key acc = acc @ [key]" by (simp add: ls_add_def)
    have "rank_order (key # ranked) (set acc) (layer_ranks n acc)
        = rank_order ranked (set (acc @ [key])) (layer_ranks n (acc @ [key]))"
      using False l by (simp add: key len py_pos_nonneg layer_ranks_snoc)
    with Cons.IH [of "acc @ [key]"] Cons.prems show ?thesis by (simp add: u add)
  qed
qed

text \<open>The experts of a layer, hottest first: ranked ones in profile order, then the cold ones.\<close>

definition hot_order :: "(int \<times> int) list \<Rightarrow> int \<Rightarrow> int \<Rightarrow> int list" where
  "hot_order ranked n_expert layer =
     add_cold n_expert (map snd (filter (\<lambda>k. fst k = layer) (ls_of ranked)))"

lemma hot_order_perm:
  assumes "in_model n_layers n_expert ranked"
  shows "distinct (hot_order ranked n_expert l)" "set (hot_order ranked n_expert l) = {0..<n_expert}"
proof -
  let ?h = "map snd (filter (\<lambda>k. fst k = l) (ls_of ranked))"
  have "inj_on snd (set (filter (\<lambda>k. fst k = l) (ls_of ranked)))" by (auto intro: inj_onI simp: prod_eq_iff)
  then have d: "distinct ?h" by (simp add: distinct_map)
  have s: "set ?h \<subseteq> {0..<n_expert}" using assms by (auto simp: in_model_def)
  show "distinct (hot_order ranked n_expert l)" using d by (auto simp: hot_order_def add_cold_def)
  show "set (hot_order ranked n_expert l) = {0..<n_expert}" using s by (auto simp: hot_order_def add_cold_def)
qed

lemma hot_order_length: "in_model n_layers n_expert ranked \<Longrightarrow> 0 \<le> n_expert \<Longrightarrow> int (length (hot_order ranked n_expert l)) = n_expert"
  using hot_order_perm [of n_layers n_expert ranked l] distinct_card by fastforce

section \<open>The deal\<close>

lemma deal_card_01: "deal_card share q0 q1 i n0 n1 \<in> {0, 1}"
  by (auto simp: deal_card_def snake_card_def Let_def split: option.split)

lemma deal_card_room:
  assumes "int n0 + int n1 < q0 + q1" "int n0 \<le> q0" "int n1 \<le> q1"
  shows "deal_card share q0 q1 i n0 n1 = 0 \<Longrightarrow> int n0 < q0"
    and "deal_card share q0 q1 i n0 n1 \<noteq> 0 \<Longrightarrow> int n1 < q1"
  using assms by (auto simp: deal_card_def snake_card_def Let_def split: if_splits option.splits)

lemma deal_loop_counts:
  assumes "int (length g0) + int (length g1) + int (length order) \<le> q0 + q1" "int (length g0) \<le> q0" "int (length g1) \<le> q1"
  shows "int (length (fst (deal_loop share q0 q1 i order g0 g1))) \<le> q0
     \<and> int (length (snd (deal_loop share q0 q1 i order g0 g1))) \<le> q1"
  using assms
proof (induction order arbitrary: i g0 g1)
  case Nil
  then show ?case by simp
next
  case (Cons e order)
  have "int (length g0) + int (length g1) < q0 + q1" using Cons.prems by simp
  note room = deal_card_room [OF this Cons.prems(2,3), of share i]
  show ?case
    using Cons.IH [of "g0 @ [e]" g1 "Suc i"] Cons.IH [of g0 "g1 @ [e]" "Suc i"] Cons.prems room by auto
qed

lemma deal_loop_mset:
  "mset (fst (deal_loop share q0 q1 i order g0 g1)) + mset (snd (deal_loop share q0 q1 i order g0 g1))
     = mset g0 + mset g1 + mset order"
  by (induction order arbitrary: i g0 g1) simp_all

lemma deal_loop_append:
  "deal_loop share q0 q1 i (xs @ ys) g0 g1 =
     (case deal_loop share q0 q1 i xs g0 g1 of (a, b) \<Rightarrow> deal_loop share q0 q1 (i + length xs) ys a b)"
  by (induction xs arbitrary: i g0 g1) (simp_all split: prod.split)

lemma deal_loop_grows:
  "set g0 \<subseteq> set (fst (deal_loop share q0 q1 i order g0 g1)) \<and> set g1 \<subseteq> set (snd (deal_loop share q0 q1 i order g0 g1))"
proof (induction order arbitrary: i g0 g1)
  case Nil
  then show ?case by simp
next
  case (Cons e order)
  from Cons.IH [where ?g0.0 = "g0 @ [e]" and ?g1.0 = g1 and i = "Suc i"] Cons.IH [where ?g0.0 = g0 and ?g1.0 = "g1 @ [e]" and i = "Suc i"]
  show ?case by auto
qed

text \<open>A whole layer: both quotas are met exactly and every expert goes to one card.\<close>

lemma deal_layer_counts:
  assumes "0 \<le> q0" "0 \<le> q1" "int (length order) = q0 + q1"
    and deal: "deal_loop share q0 q1 0 order [] [] = (g0, g1)"
  shows "int (length g0) = q0" "int (length g1) = q1" "mset g0 + mset g1 = mset order"
proof -
  have le: "int (length g0) \<le> q0" "int (length g1) \<le> q1"
    using deal_loop_counts [of "[]" "[]" order q0 q1 share 0] assms by simp_all
  show m: "mset g0 + mset g1 = mset order"
    using deal_loop_mset [of share q0 q1 0 order "[]" "[]"] deal by simp
  have "length g0 + length g1 = length order" using arg_cong [OF m, of size] by simp
  then show "int (length g0) = q0" "int (length g1) = q1" using le assms(3) by linarith+
qed

section \<open>Packing\<close>

lemma fill_slots_spec:
  assumes "distinct c" "\<forall>e \<in> set c. 0 \<le> e \<and> e < int (length res)"
  shows "\<exists>r. fill_slots c slot res = Inr r \<and> length r = length res
     \<and> (\<forall>i < length c. r ! nat (c ! i) = int (slot + i))
     \<and> (\<forall>p < length res. int p \<notin> set c \<longrightarrow> r ! p = res ! p)"
  using assms
proof (induction c arbitrary: slot res)
  case Nil
  then show ?case by simp
next
  case (Cons e c)
  let ?res = "res[nat e := int slot]"
  have e: "0 \<le> e" "e < int (length res)" "e \<notin> set c" using Cons.prems by auto
  obtain r where r: "fill_slots c (Suc slot) ?res = Inr r" "length r = length res"
    "\<forall>i < length c. r ! nat (c ! i) = int (Suc slot + i)"
    "\<forall>p < length res. int p \<notin> set c \<longrightarrow> r ! p = ?res ! p"
    using Cons.IH [of ?res "Suc slot"] Cons.prems by auto
  have "fill_slots (e # c) slot res = Inr r" using r(1) e by (simp add: py_pos_nonneg)
  moreover have "r ! nat e = int slot" using r(4) e by (simp add: nat_less_iff)
  then have "\<forall>i < length (e # c). r ! nat ((e # c) ! i) = int (slot + i)"
    using r(3) by (auto simp: nth_Cons split: nat.split)
  moreover have "\<forall>p < length res. int p \<notin> set (e # c) \<longrightarrow> r ! p = res ! p"
    using r(4) e by (auto simp: nth_list_update)
  ultimately show ?case using r(2) by blast
qed

text \<open>A card's slot map inverts its list of experts.\<close>

definition slot_map :: "int \<Rightarrow> int list \<Rightarrow> int list \<Rightarrow> bool" where
  "slot_map n_expert c res \<longleftrightarrow> int (length res) = n_expert
     \<and> (\<forall>e. 0 \<le> e \<and> e < n_expert \<longrightarrow>
          (if e \<in> set c then 0 \<le> res ! nat e \<and> res ! nat e < int (length c) \<and> c ! nat (res ! nat e) = e
           else res ! nat e = - 1))"

lemma fill_slots_map:
  assumes "distinct c" "set c \<subseteq> {0..<n}" "0 \<le> n"
  shows "\<exists>r. fill_slots c 0 (replicate (nat n) (- 1)) = Inr r \<and> slot_map n c r"
proof -
  obtain r where r: "fill_slots c 0 (replicate (nat n) (- 1)) = Inr r" "length r = nat n"
    "\<forall>i < length c. r ! nat (c ! i) = int i" "\<forall>p < nat n. int p \<notin> set c \<longrightarrow> r ! p = - 1"
    using fill_slots_spec [of c "replicate (nat n) (- 1)" 0] assms by fastforce
  have "if e \<in> set c then 0 \<le> r ! nat e \<and> r ! nat e < int (length c) \<and> c ! nat (r ! nat e) = e else r ! nat e = - 1"
    if "0 \<le> e" "e < n" for e
  proof (cases "e \<in> set c")
    case True
    then obtain i where "i < length c" "c ! i = e" by (auto simp: in_set_conv_nth)
    with r(3) True show ?thesis by auto
  next
    case False
    with r(4) that show ?thesis by (auto dest: spec [of _ "nat e"])
  qed
  then have "slot_map n c r" using r(2) assms(3) by (simp add: slot_map_def)
  with r(1) show ?thesis by blast
qed

text \<open>What a layer's plan promises.\<close>

definition plan_ok :: "int \<Rightarrow> int \<Rightarrow> int \<Rightarrow> layer_plan \<Rightarrow> bool" where
  "plan_ok n_expert q0 layer p \<longleftrightarrow> lp_layer p = layer
     \<and> sorted_wrt (<) (lp_card0 p) \<and> sorted_wrt (<) (lp_card1 p)
     \<and> int (length (lp_card0 p)) = q0 \<and> int (length (lp_card1 p)) = n_expert - q0
     \<and> set (lp_card0 p) \<inter> set (lp_card1 p) = {} \<and> set (lp_card0 p) \<union> set (lp_card1 p) = {0..<n_expert}
     \<and> slot_map n_expert (lp_card0 p) (lp_res0 p) \<and> slot_map n_expert (lp_card1 p) (lp_res1 p)"

lemma deal_layer_ok:
  assumes q: "0 \<le> q0" "q0 \<le> n_expert" and o: "distinct order" "set order = {0..<n_expert}"
  shows "\<exists>p. deal_layer share q0 (n_expert - q0) n_expert (layer, order) = Inr p \<and> plan_ok n_expert q0 layer p
     \<and> set (lp_card0 p) = set (fst (deal_loop share q0 (n_expert - q0) 0 order [] []))"
proof -
  obtain g0 g1 where deal: "deal_loop share q0 (n_expert - q0) 0 order [] [] = (g0, g1)" by force
  have "int (length order) = q0 + (n_expert - q0)" using o q distinct_card [OF o(1)] by simp
  note counts = deal_layer_counts [OF q(1) _ this deal]
  have m: "mset (g0 @ g1) = mset order" using counts(3) q by simp
  then have d: "distinct (g0 @ g1)" and s: "set g0 \<union> set g1 = {0..<n_expert}"
    using o mset_eq_imp_distinct_iff [OF m] set_mset_mset [of order] mset_eq_setD [OF m] by auto
  have strict: "sorted_wrt (<) (sort g)" if "distinct g" for g :: "int list"
    using that by (simp add: strict_sorted_iff)
  obtain r0 where r0: "fill_slots (sort g0) 0 (replicate (nat n_expert) (- 1)) = Inr r0" "slot_map n_expert (sort g0) r0"
    using fill_slots_map [of "sort g0" n_expert] d s q by auto
  obtain r1 where r1: "fill_slots (sort g1) 0 (replicate (nat n_expert) (- 1)) = Inr r1" "slot_map n_expert (sort g1) r1"
    using fill_slots_map [of "sort g1" n_expert] d s q by auto
  let ?p = "\<lparr>lp_layer = layer, lp_card0 = sort g0, lp_card1 = sort g1, lp_res0 = r0, lp_res1 = r1\<rparr>"
  have "deal_layer share q0 (n_expert - q0) n_expert (layer, order) = Inr ?p"
    using deal counts q d r0 r1 by (simp add: deal_layer_def pack_plan_def Let_def)
  moreover have "plan_ok n_expert q0 layer ?p"
    using counts q d s r0 r1 strict by (simp add: plan_ok_def)
  ultimately show ?thesis using deal by auto
qed


section \<open>The deal of the hot experts\<close>

lemma snake_card_mod: "snake_card i = (if i mod 4 = 0 \<or> i mod 4 = 3 then 0 else 1)"
proof -
  have "(i div 2) mod 2 \<noteq> 0 \<longleftrightarrow> i mod 4 = 2 \<or> i mod 4 = 3" by presburger
  moreover have "i mod 2 \<noteq> 0 \<longleftrightarrow> i mod 4 = 1 \<or> i mod 4 = 3" by presburger
  ultimately show ?thesis by (auto simp: snake_card_def Let_def)
qed

definition snake_pick :: "nat \<Rightarrow> nat \<Rightarrow> 'a list \<Rightarrow> 'a list" where
  "snake_pick c k order = map ((!) order) (filter (\<lambda>i. snake_card i = c) [0..<k])"

lemma snake_pick_length:
  "length (snake_pick 0 k order) = (if k mod 4 = 1 then Suc k else k) div 2"
  "length (snake_pick 1 k order) = (if k mod 4 = 3 then Suc k else k) div 2"
proof (induction k)
  case 0
  case 1 show ?case by (simp add: snake_pick_def)
  case 2 show ?case by (simp add: snake_pick_def)
next
  case (Suc k)
  consider "k mod 4 = 0" | "k mod 4 = 1" | "k mod 4 = 2" | "k mod 4 = 3" by fastforce
  note cs = this
  case 1
  from cs show ?case using Suc(1) by cases (simp_all add: snake_pick_def snake_card_mod mod_Suc; presburger)+
  case 2
  from cs show ?case using Suc(2) by cases (simp_all add: snake_pick_def snake_card_mod mod_Suc; presburger)+
qed

lemma snake_pick_room:
  "snake_card k = 0 \<Longrightarrow> length (snake_pick 0 k order) = k div 2"
  "snake_card k \<noteq> 0 \<Longrightarrow> length (snake_pick 1 k order) = k div 2"
  unfolding snake_pick_length by (auto simp: snake_card_mod split: if_splits)

text \<open>Until a quota is full the deal is the plain snake.\<close>

lemma deal_snake:
  assumes "int k \<le> 2 * q0" "int k \<le> 2 * q1" "k \<le> length order"
  shows "deal_loop None q0 q1 0 (take k order) [] [] = (snake_pick 0 k order, snake_pick 1 k order)"
  using assms
proof (induction k)
  case 0
  then show ?case by (simp add: snake_pick_def)
next
  case (Suc k)
  then have IH: "deal_loop None q0 q1 0 (take k order) [] [] = (snake_pick 0 k order, snake_pick 1 k order)" by simp
  have room: "int (k div 2) < q0" "int (k div 2) < q1" using Suc.prems by presburger+
  have "deal_card None q0 q1 k (length (snake_pick 0 k order)) (length (snake_pick 1 k order)) = snake_card k"
    using snake_pick_room [of k order] room by (auto simp: deal_card_def snake_card_mod Let_def)
  then show ?case using Suc.prems IH
    by (auto simp: take_Suc_conv_app_nth deal_loop_append snake_pick_def snake_card_mod)
qed

text \<open>Once a card is full the rest go to the other one.\<close>

lemma deal_rest:
  "int (length g0) = q0 \<Longrightarrow> int (length g1) + int (length xs) \<le> q1 \<Longrightarrow> deal_loop None q0 q1 i xs g0 g1 = (g0, g1 @ xs)"
proof (induction xs arbitrary: i g1)
  case (Cons x xs)
  then have "deal_card None q0 q1 i (length g0) (length g1) \<noteq> 0" by (auto simp: deal_card_def snake_card_def Let_def)
  then show ?case using Cons.IH [of "g1 @ [x]" "Suc i"] Cons.prems by simp
qed simp

lemma deal_rest':
  "int (length g1) = q1 \<Longrightarrow> int (length g0) + int (length xs) \<le> q0 \<Longrightarrow> deal_loop None q0 q1 i xs g0 g1 = (g0 @ xs, g1)"
proof (induction xs arbitrary: i g0)
  case (Cons x xs)
  then have "deal_card None q0 q1 i (length g0) (length g1) = 0" by (auto simp: deal_card_def snake_card_def Let_def)
  then show ?case using Cons.IH [of "g0 @ [x]" "Suc i"] Cons.prems by simp
qed simp

lemma deal_closed:
  assumes q: "0 \<le> q0" "0 \<le> q1" and len: "int (length order) = q0 + q1"
  defines "k \<equiv> nat (2 * min q0 q1)"
  shows "deal_loop None q0 q1 0 order [] [] =
     (if q1 < q0 then (snake_pick 0 k order @ drop k order, snake_pick 1 k order)
      else (snake_pick 0 k order, snake_pick 1 k order @ drop k order))"
proof -
  have k: "int k = 2 * min q0 q1" "k \<le> length order" using q len by (simp_all add: k_def)
  have "k mod 4 = 0 \<or> k mod 4 = 2" using k(1) by presburger
  then have L: "int (length (snake_pick 0 k order)) = min q0 q1" "int (length (snake_pick 1 k order)) = min q0 q1"
    using k(1) unfolding snake_pick_length by auto
  have "deal_loop None q0 q1 0 order [] [] = deal_loop None q0 q1 0 (take k order @ drop k order) [] []" by simp
  also have "\<dots> = deal_loop None q0 q1 k (drop k order) (snake_pick 0 k order) (snake_pick 1 k order)"
    using deal_snake [of k q0 q1 order] k by (simp add: deal_loop_append del: append_take_drop_id)
  also have "\<dots> = (if q1 < q0 then (snake_pick 0 k order @ drop k order, snake_pick 1 k order)
      else (snake_pick 0 k order, snake_pick 1 k order @ drop k order))"
    using L len k deal_rest [of "snake_pick 0 k order" q0 "snake_pick 1 k order" "drop k order" q1 k]
      deal_rest' [of "snake_pick 1 k order" q1 "snake_pick 0 k order" "drop k order" q0 k] by auto
  finally show ?thesis .
qed

lemma in_snake_pick:
  "distinct order \<Longrightarrow> k \<le> length order \<Longrightarrow> i < length order \<Longrightarrow>
     order ! i \<in> set (snake_pick c k order) \<longleftrightarrow> i < k \<and> snake_card i = c"
  by (auto simp: snake_pick_def nth_eq_iff_index_eq)

lemma in_drop_nth: "distinct xs \<Longrightarrow> i < length xs \<Longrightarrow> xs ! i \<in> set (drop k xs) \<longleftrightarrow> k \<le> i"
  by (auto simp: in_set_conv_nth nth_eq_iff_index_eq intro: exI [of _ "i - k"])

lemma deal_closed_card0:
  assumes "0 \<le> q0" "0 \<le> q1" "int (length order) = q0 + q1" "distinct order" "i < length order"
  shows "order ! i \<in> set (fst (deal_loop None q0 q1 0 order [] [])) \<longleftrightarrow>
     (if int i < 2 * min q0 q1 then snake_card i = 0 else q1 < q0)"
  using assms in_snake_pick [OF assms(4) _ assms(5), of "nat (2 * min q0 q1)" 0] in_drop_nth [OF assms(4,5), of "nat (2 * min q0 q1)"]
  by (auto simp: deal_closed)

section \<open>The profile as bytes\<close>

fun le_enc :: "nat \<Rightarrow> int \<Rightarrow> bytes" where
  "le_enc 0 n = []"
| "le_enc (Suc k) n = word_of_int (n mod 256) # le_enc k (n div 256)"

lemma length_le_enc [simp]: "length (le_enc k n) = k"
  by (induction k arbitrary: n) auto

lemma le_int_enc: "0 \<le> n \<Longrightarrow> n < 256 ^ k \<Longrightarrow> le_int (le_enc k n) = n"
proof (induction k arbitrary: n)
  case (Suc k)
  then have "n div 256 < 256 ^ k" by (simp add: int_div_less_iff mult.commute)
  with Suc show ?case by (simp add: uint_word_of_int_eq take_bit_eq_mod)
qed simp

definition enc_pairs :: "(int \<times> int) list \<Rightarrow> bytes" where
  "enc_pairs ps = concat (map (\<lambda>(l, e). le_enc 2 l @ le_enc 2 e) ps)"

definition enc_profile :: "profile \<Rightarrow> bytes" where
  "enc_profile p = STRP @ le_enc 4 (pr_version p) @ le_enc 4 (pr_layers p) @ le_enc 4 (pr_experts p) @ le_enc 4 (pr_slots p)
     @ le_enc 4 (int (length (pr_ranked p))) @ enc_pairs (pr_ranked p)"

definition profile_ok :: "profile \<Rightarrow> bool" where
  "profile_ok p \<longleftrightarrow> pr_version p = 1 \<and> pr_layers p \<in> {0..<2 ^ 16} \<and> pr_experts p \<in> {0..<2 ^ 16} \<and> pr_slots p < 2 ^ 32
     \<and> int (length (pr_ranked p)) \<le> pr_slots p \<and> in_model (pr_layers p) (pr_experts p) (pr_ranked p)"

lemma length_enc_pairs: "length (enc_pairs ps) = 4 * length ps"
  by (induction ps) (auto simp: enc_pairs_def)

lemma read_pairs_enc:
  assumes "in_model nl ne ps" "nl \<le> 2 ^ 16" "ne \<le> 2 ^ 16"
  shows "read_pairs (length ps) (enc_pairs ps @ rest) nl ne = Inr ps"
  using assms(1)
proof (induction ps)
  case (Cons p ps)
  obtain l e where p: "p = (l, e)" by force
  have "le_int (le_enc 2 l) = l" "le_int (le_enc 2 e) = e"
    using Cons.prems assms(2,3) by (auto intro!: le_int_enc simp: in_model_def p)
  with Cons show ?case by (auto simp: in_model_def p enc_pairs_def)
qed simp

section \<open>Properties\<close>

definition sample_ranked :: "(int \<times> int) list" where
  "sample_ranked = [(1, 3), (0, 2), (1, 3), (1, 0), (0, 0)]"

lemmas deal_eval = sample_ranked_def snake_deal_def deal_layer_def add_cold_def pack_plan_def deal_card_def snake_card_def
  py_pos_def Let_def upto.simps

lemma snake_deal_layers:
  assumes m: "in_model n_layers n_expert ranked" and n: "0 \<le> n_layers" and q: "1 \<le> q0" "q0 < n_expert"
  shows "\<exists>plans. snake_deal ranked n_layers n_expert q0 share = Inr plans \<and> int (length plans) = n_layers
     \<and> (\<forall>l. 0 \<le> l \<and> l < n_layers \<longrightarrow> plan_ok n_expert q0 l (plans ! nat l)
          \<and> set (lp_card0 (plans ! nat l)) = set (fst (deal_loop share q0 (n_expert - q0) 0 (hot_order ranked n_expert l) [] [])))"
proof -
  let ?k = "nat n_layers"
  let ?f = "deal_layer share q0 (n_expert - q0) n_expert"
  let ?P = "\<lambda>l p. ?f (l, hot_order ranked n_expert l) = Inr p \<and> plan_ok n_expert q0 l p
     \<and> set (lp_card0 p) = set (fst (deal_loop share q0 (n_expert - q0) 0 (hot_order ranked n_expert l) [] []))"
  have "layer_ranks ?k [] = replicate ?k []" by (simp add: layer_ranks_def map_replicate_const)
  then have ro: "rank_order ranked {} (replicate ?k []) = Inr (layer_ranks ?k (ls_of ranked))"
    using rank_order_spec [of ranked ?k "[]"] m n by (auto simp: in_model_def ls_of_def ls_union_def)
  have orders: "map (add_cold n_expert) (layer_ranks ?k (ls_of ranked)) = map (hot_order ranked n_expert) [0..n_layers - 1]"
    using n by (auto intro!: nth_equalityI simp: layer_ranks_def hot_order_def)
  have "\<exists>p. ?P l p" for l using deal_layer_ok [where order = "hot_order ranked n_expert l" and ?q0.0 = q0 and n_expert = n_expert and share = share and layer = l]
      hot_order_perm [OF m, of l] q by simp
  then obtain g where g: "\<And>l. ?P l (g l)" by metis
  have z: "zip [0..n_layers - 1] (map (hot_order ranked n_expert) [0..n_layers - 1])
      = map (\<lambda>l. (l, hot_order ranked n_expert l)) [0..n_layers - 1]"
    by (simp add: zip_map2 zip_same_conv_map)
  have "mapR ?f (map (\<lambda>l. (l, hot_order ranked n_expert l)) [0..n_layers - 1])
      = Inr (map (\<lambda>z. g (fst z)) (map (\<lambda>l. (l, hot_order ranked n_expert l)) [0..n_layers - 1]))"
    by (rule mapR_total) (use g in auto)
  then have "snake_deal ranked n_layers n_expert q0 share = Inr (map g [0..n_layers - 1])"
    using q by (simp add: snake_deal_def ro orders z comp_def)
  then show ?thesis using g n by (auto intro!: exI [of _ "map g [0..n_layers - 1]"])
qed

text \<open>C12. For ranked pairs that name layers and experts of the model and a quota that leaves both cards
  experts, \<open>snake_deal\<close> raises nothing and returns one plan per layer: the two cards' sorted, duplicate-free
  sets partition the experts with exactly the quota on card 0, and each slot map inverts its card's list
  with -1 for the experts of the other card.\<close>

theorem snake_deal_partitions_experts:
  "in_model n_layers n_expert ranked \<Longrightarrow> 0 \<le> n_layers \<Longrightarrow> 1 \<le> q0 \<Longrightarrow> q0 < n_expert \<Longrightarrow>
     \<exists>plans. snake_deal ranked n_layers n_expert q0 share = Inr plans \<and> int (length plans) = n_layers
       \<and> (\<forall>l. 0 \<le> l \<and> l < n_layers \<longrightarrow> plan_ok n_expert q0 l (plans ! nat l))"
  using snake_deal_layers [of n_layers n_expert ranked q0 share] by blast

theorem snake_deal_partitions_experts_witness:
  "\<exists>plans. snake_deal sample_ranked 2 4 1 None = Inr plans \<and> plan_ok 4 1 1 (plans ! 1)"
proof -
  have "in_model 2 4 sample_ranked" by (simp add: in_model_def sample_ranked_def)
  then obtain plans where "snake_deal sample_ranked 2 4 1 None = Inr plans"
    "\<forall>l. 0 \<le> l \<and> l < 2 \<longrightarrow> plan_ok 4 1 l (plans ! nat l)"
    using snake_deal_partitions_experts [of 2 4 sample_ranked 1 None] by auto
  then show ?thesis by (auto dest: spec [of _ 1])
qed


text \<open>Without a float share the deal is a snake over the experts ordered hottest first: those before
  twice the smaller quota go to the cards 0, 1, 1, 0, ... in that order, and every colder one to the
  card with the larger quota.\<close>

lemma hot_experts_are_dealt_in_a_snake:
  "in_model n_layers n_expert ranked \<Longrightarrow> 0 \<le> n_layers \<Longrightarrow> 1 \<le> q0 \<Longrightarrow> q0 < n_expert \<Longrightarrow>
     \<exists>plans. snake_deal ranked n_layers n_expert q0 None = Inr plans
       \<and> (\<forall>l i. 0 \<le> l \<and> l < n_layers \<and> int i < n_expert \<longrightarrow>
            (hot_order ranked n_expert l ! i \<in> set (lp_card0 (plans ! nat l)) \<longleftrightarrow>
              (if int i < 2 * min q0 (n_expert - q0) then snake_card i = 0 else n_expert - q0 < q0)))"
proof -
  assume m: "in_model n_layers n_expert ranked" and n: "0 \<le> n_layers" and q: "1 \<le> q0" "q0 < n_expert"
  obtain plans where P: "snake_deal ranked n_layers n_expert q0 None = Inr plans"
    "\<forall>l. 0 \<le> l \<and> l < n_layers \<longrightarrow> set (lp_card0 (plans ! nat l)) =
       set (fst (deal_loop None q0 (n_expert - q0) 0 (hot_order ranked n_expert l) [] []))"
    using snake_deal_layers [OF m n q, of None] by blast
  have len: "int (length (hot_order ranked n_expert l)) = q0 + (n_expert - q0)" for l
    using hot_order_length [OF m, of l] q by simp
  have "hot_order ranked n_expert l ! i \<in> set (lp_card0 (plans ! nat l)) \<longleftrightarrow>
      (if int i < 2 * min q0 (n_expert - q0) then snake_card i = 0 else n_expert - q0 < q0)"
    if "0 \<le> l" "l < n_layers" "int i < n_expert" for l i
    using that P(2) q len [of l] hot_order_perm(1) [OF m, of l]
    by (subst deal_closed_card0 [symmetric, of q0 "n_expert - q0" "hot_order ranked n_expert l" i]) auto
  with P(1) show ?thesis by blast
qed

lemma hot_experts_are_dealt_in_a_snake_witness:
  "\<exists>plans. snake_deal sample_ranked 2 4 1 None = Inr plans \<and> hot_order sample_ranked 4 1 ! 0 \<in> set (lp_card0 (plans ! 1))
     \<and> hot_order sample_ranked 4 1 ! 0 = 3"
proof -
  have "in_model 2 4 sample_ranked" by (simp add: in_model_def sample_ranked_def)
  then obtain plans where P: "snake_deal sample_ranked 2 4 1 None = Inr plans"
    "\<forall>l i. 0 \<le> l \<and> l < 2 \<and> int i < 4 \<longrightarrow> (hot_order sample_ranked 4 l ! i \<in> set (lp_card0 (plans ! nat l)) \<longleftrightarrow>
       (if int i < 2 * min 1 (4 - 1) then snake_card i = 0 else 4 - 1 < (1::int)))"
    using hot_experts_are_dealt_in_a_snake [of 2 4 sample_ranked 1] by auto
  from P(2) have "hot_order sample_ranked 4 1 ! 0 \<in> set (lp_card0 (plans ! nat 1))"
    by (elim allE [of _ 1] allE [of _ 0]) (simp add: snake_card_def)
  moreover have "hot_order sample_ranked 4 1 ! 0 = 3"
    by (simp add: hot_order_def sample_ranked_def ls_of_def ls_union_def ls_add_def add_cold_def)
  ultimately show ?thesis using P(1) by (intro exI [of _ plans]) simp
qed

lemma read_profile_header:
  assumes ok: "profile_ok p"
  shows "unpack_5I (take 20 (drop 4 (enc_profile p @ rest))) =
     (1, pr_layers p, pr_experts p, pr_slots p, int (length (pr_ranked p)))"
proof -
  have "le_int (le_enc 4 n) = n" if "0 \<le> n" "n < 2 ^ 32" for n using that by (intro le_int_enc) simp_all
  with ok show ?thesis by (auto simp: profile_ok_def enc_profile_def unpack_5I_def STRP_def)
qed

lemma length_enc_profile: "length (enc_profile p) = 24 + 4 * length (pr_ranked p)"
  by (simp add: enc_profile_def STRP_def length_enc_pairs)

lemma enc_profile_raw: "drop 24 (enc_profile p @ rest) = enc_pairs (pr_ranked p) @ rest"
  by (simp add: enc_profile_def STRP_def)

lemma enc_profile_magic: "take 4 (enc_profile p @ rest) = STRP"
  by (simp add: enc_profile_def STRP_def)

lemma read_profile_truncated:
  assumes ok: "profile_ok p" and k: "k < length (enc_profile p)"
  shows "\<exists>m. read_profile (take k (enc_profile p)) (pr_layers p) (pr_experts p) = Inl (ValueError m)"
proof -
  let ?f = "take k (enc_profile p)"
  have full: "enc_profile p = ?f @ drop k (enc_profile p)" by simp
  show ?thesis
  proof (cases "k < 24")
    case True
    then have "take 4 ?f \<noteq> STRP \<or> length (take 20 (drop 4 ?f)) \<noteq> 20" using k by (auto simp: length_enc_profile)
    then show ?thesis by (auto simp: read_profile_def Let_def)
  next
    case False
    then have "take 20 (drop 4 ?f) = take 20 (drop 4 (enc_profile p))" "take 4 ?f = take 4 (enc_profile p)"
      by (simp_all add: drop_take min_def)
    then have h: "unpack_5I (take 20 (drop 4 ?f)) = (1, pr_layers p, pr_experts p, pr_slots p, int (length (pr_ranked p)))"
      and m: "take 4 ?f = STRP"
      using read_profile_header [OF ok, of "[]"] enc_profile_magic [of p "[]"] by (simp_all only: append_Nil2)
    have "\<not> pr_slots p < int (length (pr_ranked p))" using ok by (simp add: profile_ok_def)
    moreover have "int (length (take (nat (int (length (pr_ranked p)) * 4)) (drop 24 ?f))) \<noteq> int (length (pr_ranked p)) * 4"
      using k False by (simp add: length_enc_profile)
    moreover have "length (take 20 (drop 4 ?f)) = 20" using False k by (simp add: length_enc_profile)
    ultimately show ?thesis by (simp add: read_profile_def Let_def h m del: take_take drop_take length_take)
  qed
qed

lemma read_profile_enc:
  assumes ok: "profile_ok p"
  shows "read_profile (enc_profile p @ rest) (pr_layers p) (pr_experts p) = Inr p"
proof -
  let ?n = "length (pr_ranked p)"
  have "take (nat (int ?n * 4)) (drop 24 (enc_profile p @ rest)) = enc_pairs (pr_ranked p)"
    by (simp add: enc_profile_raw length_enc_pairs nat_mult_distrib mult.commute del: drop_append)
  moreover have "read_pairs ?n (enc_pairs (pr_ranked p)) (pr_layers p) (pr_experts p) = Inr (pr_ranked p)"
    using read_pairs_enc [of "pr_layers p" "pr_experts p" "pr_ranked p" "[]"] ok by (simp add: profile_ok_def)
  moreover have "length (take 20 (drop 4 (enc_profile p @ rest))) = 20" by (simp add: length_enc_profile)
  ultimately show ?thesis
    using ok read_profile_header [OF ok, of rest] enc_profile_magic [of p rest]
    by (simp add: read_profile_def Let_def length_enc_pairs profile_ok_def del: take_append drop_append length_take)
qed

interpretation profile_file: codec "\<lambda>p. profile_ok p \<and> pr_layers p = nl \<and> pr_experts p = ne" "\<lambda>p. Inr (enc_profile p)"
  "\<lambda>file. read_profile file nl ne" for nl ne
  by unfold_locales (use read_profile_enc [of _ "[]"] in auto)

text \<open>\<open>read_profile\<close> inverts the STRP v1 layout: a well-formed profile is read back from its bytes
  whatever follows them (the frequency table), and every proper prefix is refused with \<open>ValueError\<close>.\<close>

lemma read_profile_inverts_the_layout:
  "profile_ok p \<Longrightarrow> read_profile (enc_profile p @ rest) (pr_layers p) (pr_experts p) = Inr p
     \<and> (\<forall>k. k < length (enc_profile p) \<longrightarrow>
          (\<exists>m. read_profile (take k (enc_profile p)) (pr_layers p) (pr_experts p) = Inl (ValueError m)))"
proof -
  assume ok: "profile_ok p"
  then show ?thesis using read_profile_enc [OF ok, of rest] read_profile_truncated [OF ok] by blast
qed

definition sample_profile :: profile where
  "sample_profile = \<lparr>pr_version = 1, pr_layers = 2, pr_experts = 512, pr_slots = 3, pr_ranked = [(1, 300), (0, 7)]\<rparr>"

lemma read_profile_inverts_the_layout_witness:
  "read_profile (enc_profile sample_profile @ [9]) 2 512 = Inr sample_profile
     \<and> (\<exists>m. read_profile (take 31 (enc_profile sample_profile)) 2 512 = Inl (ValueError m))"
proof -
  have "profile_ok sample_profile" by (simp add: profile_ok_def sample_profile_def in_model_def)
  from read_profile_inverts_the_layout [OF this, of "[9]"]
  have "read_profile (enc_profile sample_profile @ [9]) 2 512 = Inr sample_profile"
    and t: "\<forall>k. k < length (enc_profile sample_profile) \<longrightarrow>
      (\<exists>m. read_profile (take k (enc_profile sample_profile)) 2 512 = Inl (ValueError m))"
    by (simp_all add: sample_profile_def)
  moreover have "31 < length (enc_profile sample_profile)" by (simp add: length_enc_profile) (simp add: sample_profile_def)
  ultimately show ?thesis by blast
qed

section \<open>The plan cache\<close>

definition plans_of :: "(string \<Rightarrow> bytes) \<Rightarrow> (string \<Rightarrow> (nat \<Rightarrow> nat \<Rightarrow> bool) option) \<Rightarrow> plan_key \<Rightarrow> layer_plan list res" where
  "plans_of files share_of = (\<lambda>(path, n_layers, n_expert, quota, share_key).
     bindR (read_profile (files path) n_layers n_expert) (\<lambda>profile.
       snake_deal (pr_ranked profile) n_layers n_expert quota (share_of share_key)))"

definition cache_right :: "(string \<Rightarrow> bytes) \<Rightarrow> (string \<Rightarrow> (nat \<Rightarrow> nat \<Rightarrow> bool) option) \<Rightarrow> (plan_key, layer_plan list) odict \<Rightarrow> bool" where
  "cache_right files share_of cache \<longleftrightarrow> (\<forall>key plans. od_get cache key = Some plans \<longrightarrow> plans_of files share_of key = Inr plans)"

lemma flashnext_plans_run:
  assumes "cache_right files share_of cache"
  shows "fst (flashnext_plans files share_of key cache) = plans_of files share_of key
     \<and> cache_right files share_of (snd (flashnext_plans files share_of key cache))"
proof -
  obtain path nl ne quota sk where key: "key = (path, nl, ne, quota, sk)" by (cases key) auto
  have get: "od_get cache key = Some plans \<Longrightarrow> plans_of files share_of key = Inr plans" for key plans
    using assms unfolding cache_right_def by blast
  show ?thesis
  proof (cases "od_get cache key")
    case (Some hit)
    then show ?thesis using assms get [OF Some] by (simp add: key flashnext_plans_def act_simps)
  next
    case None
    show ?thesis
    proof (cases "plans_of files share_of key")
      case (Inl e)
      then have "flashnext_plans files share_of key cache = (Inl e, cache)"
        using None by (cases "read_profile (files path) nl ne") (auto simp: key flashnext_plans_def act_simps plans_of_def)
      then show ?thesis using assms Inl by simp
    next
      case (Inr plans)
      then have "flashnext_plans files share_of key cache = (Inr plans, od_put key plans cache)"
        using None by (cases "read_profile (files path) nl ne") (auto simp: key flashnext_plans_def act_simps plans_of_def)
      then show ?thesis using get Inr by (simp add: cache_right_def od_get_put)
    qed
  qed
qed

text \<open>After any calls of \<open>flashnext_plans\<close>, failed ones included, a further call returns or raises
  what reading the profile and dealing it afresh would: the cache never serves the plans of another path,
  shape, quota or share, nor a failure.\<close>

lemma cached_plans_are_fresh:
  "fst (flashnext_plans files share_of key (run_ops (flashnext_plans files share_of) keys []))
     = bindR (read_profile (files (fst key)) (fst (snd key)) (fst (snd (snd key)))) (\<lambda>profile.
         snake_deal (pr_ranked profile) (fst (snd key)) (fst (snd (snd key))) (fst (snd (snd (snd key))))
           (share_of (snd (snd (snd (snd key))))))"
proof -
  have "cache_right files share_of (run_ops (flashnext_plans files share_of) keys [])"
    by (rule run_ops_inv [where I = "cache_right files share_of"], blast dest: flashnext_plans_run, simp add: cache_right_def)
  from conjunct1 [OF flashnext_plans_run [OF this, of key]] show ?thesis
    unfolding plans_of_def by (cases key) (simp only: prod.case fst_conv snd_conv)
qed

end
