(* ===== verification/Tensor.thy ===== *)
theory Tensor
  imports Prelude
begin

unbundle bit_operations_syntax

text \<open>
  Tensors as nested lists of their rows: fixed-width integer elements as \<open>int\<close> with the wrap-around of
  their dtype, row-major views and \<open>reshape\<close>, and reads of an array axis.
\<close>

section \<open>Integer dtypes and views\<close>

definition u8 :: "int \<Rightarrow> int" where "u8 x = take_bit 8 x"
definition i8 :: "int \<Rightarrow> int" where "i8 x = signed_take_bit 7 x"
definition i16 :: "int \<Rightarrow> int" where "i16 x = signed_take_bit 15 x"
definition i64 :: "int \<Rightarrow> int" where "i64 x = signed_take_bit 63 x"

text \<open>The rows of a row-major tensor of shape \<open>(c, n)\<close>, and \<open>reshape\<close>, which wants the exact element count.\<close>

definition view_rows :: "nat \<Rightarrow> nat \<Rightarrow> 'a list \<Rightarrow> 'a list list" where
  "view_rows c n xs = map (\<lambda>i. take n (drop (i * n) xs)) [0..<c]"

definition reshape :: "nat \<Rightarrow> nat \<Rightarrow> 'a list \<Rightarrow> 'a list list res" where
  "reshape c n xs = (if length xs \<noteq> c * n then Inl (RuntimeError ''shape is invalid for input'') else Inr (view_rows c n xs))"

text \<open>numpy raises \<open>ValueError\<close> where torch raises \<open>RuntimeError\<close>; a vector is reshaped to its own length.\<close>

definition np_reshape :: "nat \<Rightarrow> nat \<Rightarrow> 'a list \<Rightarrow> 'a list list res" where
  "np_reshape c n xs = (if length xs \<noteq> c * n then Inl (ValueError ''cannot reshape array'') else Inr (view_rows c n xs))"

definition np_vector :: "nat \<Rightarrow> 'a list \<Rightarrow> 'a list res" where
  "np_vector n xs = (if length xs \<noteq> n then Inl (ValueError ''cannot reshape array'') else Inr xs)"

text \<open>An index into an array axis; a negative index is not used by the modelled code.\<close>

definition np_at :: "'a list \<Rightarrow> nat \<Rightarrow> 'a res" where
  "np_at xs i = (if i < length xs then Inr (xs ! i) else Inl (IndexError ''index is out of bounds''))"

lemma np_at_run [simp]: "i < length xs \<Longrightarrow> np_at xs i = Inr (xs ! i)"
  by (simp add: np_at_def)

text \<open>
  Matrices as the lists of their rows. A matrix with no rows carries no width. \<open>np_matrix\<close> is what
  \<open>asarray\<close> asks of nested rows, \<open>np_bc\<close> the broadcast of one axis, \<open>np_map2\<close> an elementwise
  operation on two matrices, and \<open>np_fit\<close> the assignment of a vector to a row of \<open>n\<close> elements.
\<close>

definition np_width :: "'a list list \<Rightarrow> nat" where
  "np_width rows = (case rows of [] \<Rightarrow> 0 | r # _ \<Rightarrow> length r)"

definition np_matrix :: "'a list list \<Rightarrow> unit res" where
  "np_matrix rows =
     raise_if (\<exists>r \<in> set rows. length r \<noteq> np_width rows) (ValueError ''setting an array element with a sequence'')"

definition np_bc :: "nat \<Rightarrow> nat \<Rightarrow> nat res" where
  "np_bc a b =
     (if a = b then Inr a else if a = 1 then Inr b else if b = 1 then Inr a
      else Inl (ValueError ''operands could not be broadcast together''))"

definition np_pick :: "'a list \<Rightarrow> nat \<Rightarrow> 'a" where
  "np_pick xs i = (if length xs = 1 then xs ! 0 else xs ! i)"

definition np_map2 :: "('a \<Rightarrow> 'b \<Rightarrow> 'c) \<Rightarrow> 'a list list \<Rightarrow> 'b list list \<Rightarrow> 'c list list res" where
  "np_map2 f A B =
     bindR (np_bc (length A) (length B)) (\<lambda>n.
     bindR (if n = 0 then Inr 0 else np_bc (np_width A) (np_width B)) (\<lambda>w.
       Inr (map (\<lambda>i. map (\<lambda>j. f (np_pick (np_pick A i) j) (np_pick (np_pick B i) j)) [0..<w]) [0..<n])))"

definition np_fit :: "nat \<Rightarrow> 'a list \<Rightarrow> 'a list res" where
  "np_fit n xs =
     (if length xs = n then Inr xs else if length xs = 1 then Inr (replicate n (xs ! 0))
      else Inl (ValueError ''could not broadcast input array''))"

lemma np_width_same: "rows \<noteq> [] \<Longrightarrow> (\<forall>r \<in> set rows. length r = n) \<Longrightarrow> np_width rows = n"
  by (cases rows) (simp_all add: np_width_def)

lemma np_matrix_run: "(\<forall>r \<in> set rows. length r = n) \<Longrightarrow> np_matrix rows = Inr ()"
  using np_width_same [of rows n] by (cases "rows = []") (auto simp: np_matrix_def raise_if_def)

lemma np_map2_run:
  assumes "length A = n" "length B = n" and "\<forall>r \<in> set A. length r = c" "\<forall>r \<in> set B. length r = c"
  shows "\<exists>C. np_map2 f A B = Inr C \<and> length C = n \<and> (\<forall>r \<in> set C. length r = c)"
proof (cases "n = 0")
  case False
  then have "np_width A = c" "np_width B = c" using assms(1,2) np_width_same [OF _ assms(3)] np_width_same [OF _ assms(4)] by force+
  then show ?thesis using assms(1,2) False by (simp add: np_map2_def np_bc_def)
qed (use assms in \<open>simp add: np_map2_def np_bc_def\<close>)

section \<open>Views\<close>

lemma length_view_rows [simp]: "length (view_rows c n xs) = c"
  by (simp add: view_rows_def)

lemma nth_view_rows: "i < c \<Longrightarrow> view_rows c n xs ! i = take n (drop (i * n) xs)"
  by (simp add: view_rows_def)

lemma view_rows_Suc: "view_rows (Suc c) n xs = take n xs # view_rows c n (drop n xs)"
  by (rule nth_equalityI) (auto simp: nth_view_rows nth_Cons add.commute split: nat.split)

lemma concat_view_rows: "length xs = c * n \<Longrightarrow> concat (view_rows c n xs) = xs"
proof (induction c arbitrary: xs)
  case (Suc c)
  then show ?case by (simp add: view_rows_Suc)
qed (simp add: view_rows_def)

lemma view_rows_concat: "length rows = c \<Longrightarrow> (\<forall>r \<in> set rows. length r = n) \<Longrightarrow> view_rows c n (concat rows) = rows"
proof (induction rows arbitrary: c)
  case (Cons r rows)
  then show ?case by (cases c) (simp_all add: view_rows_Suc)
qed (simp add: view_rows_def)

lemma view_rows_elems: "length xs = c * n \<Longrightarrow> r \<in> set (view_rows c n xs) \<Longrightarrow> length r = n"
  by (auto simp: view_rows_def) (metis (no_types, opaque_lifting) Suc_leI add.commute add_diff_cancel_right' diff_le_mono
      length_drop length_take min.absorb2 mult_Suc mult_le_mono1)

lemma set_view_rows: "r \<in> set (view_rows c n xs) \<Longrightarrow> set r \<subseteq> set xs"
  by (auto simp: view_rows_def dest!: in_set_takeD in_set_dropD)

lemma length_concat_same: "(\<forall>r \<in> set rows. length r = n) \<Longrightarrow> length (concat rows) = length rows * n"
  by (induction rows) auto

lemma reshape_concat:
  "length rows = c \<Longrightarrow> (\<forall>r \<in> set rows. length r = n) \<Longrightarrow> reshape c n (concat rows) = Inr rows"
  using length_concat_same [of rows n] by (simp add: reshape_def view_rows_concat)

end
