(* ===== verification/Lowbit.thy ===== *)
theory Lowbit
  imports Tensor
begin

unbundle bit_operations_syntax

text \<open>
  The b70lb1 weight format, \<open>plugins/b70_lowbit_xpu/b70_lowbit_xpu/format.py\<close>: plane strides, packing
  of two's-complement codes into a two-bit plane and a high plane, the AutoGPTQ bitstream, and the
  repacking of routed experts. A tensor is the list of its rows and its extents are arguments; an
  integer element is an \<open>int\<close> with the wrap-around of its dtype written where an operation can leave
  the range. Floats, their operations and the cast to bf16 are parameters.
\<close>

section \<open>Plane strides\<close>

definition GROUP :: nat where "GROUP = 128"

definition pad64 :: "nat \<Rightarrow> nat" where
  "pad64 payload = nat ((int payload + 63) AND NOT 63)"

definition plane2_stride :: "nat \<Rightarrow> nat res" where
  "plane2_stride k = (if k mod GROUP \<noteq> 0 then Inl (ValueError ''K is not a multiple of GROUP'') else Inr (pad64 (k div 4)))"

definition plane_hi_stride :: "nat \<Rightarrow> nat \<Rightarrow> nat res" where
  "plane_hi_stride k bits =
     (if bits = 2 then Inr 0
      else if k mod GROUP \<noteq> 0 then Inl (ValueError ''K is not a multiple of GROUP'')
      else if bits = 3 then Inr (pad64 (k div 8))
      else if bits = 4 then Inr (pad64 (k div 4))
      else Inl (ValueError ''bits must be 2, 3, or 4''))"

section \<open>Packing and unpacking codes\<close>

text \<open>\<open>(fields << shifts).sum(dim=-1).to(uint8)\<close> for the fields of one byte.\<close>

definition pack_byte :: "nat list \<Rightarrow> int list \<Rightarrow> int" where
  "pack_byte shifts fields = u8 (i64 (sum_list (map2 (\<lambda>s x. i16 (push_bit s x)) shifts fields)))"

text \<open>One row of a plane: \<open>per\<close> fields to a byte, then zeros up to the stride.\<close>

definition plane_row :: "nat \<Rightarrow> nat list \<Rightarrow> nat \<Rightarrow> (int \<Rightarrow> int) \<Rightarrow> int list \<Rightarrow> int list" where
  "plane_row k shifts stride field row =
     (let per = length shifts; packed = map (pack_byte shifts) (view_rows (k div per) per (map field row))
      in packed @ replicate (stride - k div per) 0)"

definition pack_codes :: "nat \<Rightarrow> int list list \<Rightarrow> nat \<Rightarrow> (int list list \<times> int list list option) res" where
  "pack_codes k codes bits =
     bindR (plane2_stride k) (\<lambda>s2.
       let plane2 = map (plane_row k [0, 2, 4, 6] s2 (\<lambda>c. c AND 3)) codes in
       if bits = 2 then Inr (plane2, None)
       else bindR (plane_hi_stride k bits) (\<lambda>shi.
         if bits = 3 then Inr (plane2, Some (map (plane_row k [0..<8] shi (\<lambda>c. drop_bit 2 c AND 1)) codes))
         else if bits = 4 then Inr (plane2, Some (map (plane_row k [0, 2, 4, 6] shi (\<lambda>c. drop_bit 2 c AND 3)) codes))
         else Inl (ValueError ''bits'')))"

text \<open>The fields of the leading bytes of every row, stacked and reshaped to \<open>[N, K]\<close>.\<close>

definition plane_fields :: "nat \<Rightarrow> nat \<Rightarrow> nat list \<Rightarrow> int \<Rightarrow> int list list \<Rightarrow> int list list res" where
  "plane_fields n k shifts msk plane =
     reshape n k (concat (map (\<lambda>row. concat (map (\<lambda>b. map (\<lambda>s. drop_bit s b AND msk) shifts)
       (take (k div length shifts) row))) plane))"

definition sign_extend :: "nat \<Rightarrow> int \<Rightarrow> int" where
  "sign_extend bits x = drop_bit (8 - bits) (i8 (i16 (push_bit (8 - bits) x)))"

definition join_hi :: "int list list \<Rightarrow> int list list \<Rightarrow> int list list" where
  "join_hi parts hib = map2 (map2 (\<lambda>p h. p OR i16 (push_bit 2 h))) parts hib"

definition unpack_codes :: "int list list \<Rightarrow> int list list option \<Rightarrow> nat \<Rightarrow> nat \<Rightarrow> int list list res" where
  "unpack_codes plane2 plane_hi bits k =
     (let n = length plane2 in
      bindR (plane_fields n k [0, 2, 4, 6] 3 plane2) (\<lambda>parts.
      bindR (if bits = 2 then Inr parts
             else if bits = 3 then
               (case plane_hi of None \<Rightarrow> Inl (ValueError ''int3 requires plane_hi'')
                | Some hi \<Rightarrow> bindR (plane_fields n k [0..<8] 1 hi) (\<lambda>hib. Inr (join_hi parts hib)))
             else if bits = 4 then
               (case plane_hi of None \<Rightarrow> Inl (ValueError ''int4 requires plane_hi'')
                | Some hi \<Rightarrow> bindR (plane_fields n k [0, 2, 4, 6] 3 hi) (\<lambda>hib. Inr (join_hi parts hib)))
             else Inl (ValueError ''bits'')) (\<lambda>codes_u.
      Inr (map (map (sign_extend bits)) codes_u))))"

section \<open>Rounding to nearest\<close>

text \<open>The float operations the quantiser uses.\<close>

record 'f float_ops =
  fl_abs :: "'f \<Rightarrow> 'f"
  fl_max :: "'f \<Rightarrow> 'f \<Rightarrow> 'f"
  fl_tiny :: 'f
  fl_of_int :: "int \<Rightarrow> 'f"
  fl_div :: "'f \<Rightarrow> 'f \<Rightarrow> 'f"
  fl_mul :: "'f \<Rightarrow> 'f \<Rightarrow> 'f"
  fl_round :: "'f \<Rightarrow> 'f"
  fl_clamp :: "'f \<Rightarrow> 'f \<Rightarrow> 'f \<Rightarrow> 'f"
  fl_to_int :: "'f \<Rightarrow> int"

text \<open>\<open>scale\<close> and codes of one group of \<open>GROUP\<close> weights.\<close>

definition group_scale :: "'f float_ops \<Rightarrow> int \<Rightarrow> 'f list \<Rightarrow> 'f" where
  "group_scale F maxq g =
     (let a = map (fl_abs F) g; amax = fl_max F (fold (fl_max F) (tl a) (hd a)) (fl_tiny F)
      in fl_div F amax (fl_of_int F maxq))"

definition group_codes :: "'f float_ops \<Rightarrow> int \<Rightarrow> 'f list \<Rightarrow> int list" where
  "group_codes F maxq g = map (\<lambda>x. i8 (fl_to_int F (fl_clamp F (fl_round F (fl_div F x (group_scale F maxq g)))
     (fl_of_int F (- maxq)) (fl_of_int F (maxq - 1))))) g"

definition quantize_rtn :: "'f float_ops \<Rightarrow> ('f \<Rightarrow> 'h) \<Rightarrow> nat \<Rightarrow> 'f list list \<Rightarrow> nat \<Rightarrow> (int list list \<times> 'h list list) res" where
  "quantize_rtn F bf16 k weight bits =
     (if k mod GROUP \<noteq> 0 then Inl (ValueError ''K is not a multiple of GROUP'')
      else if bits \<notin> {2, 3, 4} then Inl (ValueError ''bits'')
      else let maxq = push_bit (bits - 1) 1; grouped = map (view_rows (k div GROUP) GROUP) weight in
        Inr (map (\<lambda>gs. concat (map (group_codes F maxq) gs)) grouped, map (map (\<lambda>g. bf16 (group_scale F maxq g))) grouped))"

definition quantize_and_pack ::
  "'f float_ops \<Rightarrow> ('f \<Rightarrow> 'h) \<Rightarrow> nat \<Rightarrow> 'f list list \<Rightarrow> nat \<Rightarrow> (int list list \<times> int list list option \<times> 'h list list) res" where
  "quantize_and_pack F bf16 k weight bits =
     bindR (quantize_rtn F bf16 k weight bits) (\<lambda>(codes, scale).
     bindR (pack_codes k codes bits) (\<lambda>(plane2, plane_hi). Inr (plane2, plane_hi, scale)))"

text \<open>\<open>to_f32\<close> rounds a bf16 scale back to fp32.\<close>

definition dequant :: "'f float_ops \<Rightarrow> ('h \<Rightarrow> 'f) \<Rightarrow> int list list \<Rightarrow> int list list option \<Rightarrow> 'h list list \<Rightarrow> nat \<Rightarrow> nat \<Rightarrow>
    'f list list res" where
  "dequant F to_f32 plane2 plane_hi scale bits k =
     bindR (unpack_codes plane2 plane_hi bits k) (\<lambda>codes.
     bindR (reshape (length codes) (k div GROUP) (concat scale)) (\<lambda>scales.
       Inr (map2 (\<lambda>row ss. concat (map2 (\<lambda>g s. map (\<lambda>c. fl_mul F (fl_of_int F c) (to_f32 s)) g)
         (view_rows (k div GROUP) GROUP row) ss)) codes scales)))"

section \<open>The AutoGPTQ bitstream\<close>

text \<open>Bit position, word and offset of code \<open>i\<close>; \<open>where(straddle, mixed, unsigned)\<close> for one element.\<close>

definition stream_plain :: "nat \<Rightarrow> int list list \<Rightarrow> nat \<Rightarrow> nat \<Rightarrow> int" where
  "stream_plain bits qweight col i =
     (let word = i * bits div 32; off = i * bits mod 32; msk = push_bit bits 1 - 1;
          w0 = (qweight ! word ! col) AND 0xFFFFFFFF
      in drop_bit off w0 AND msk)"

definition stream_mixed :: "nat \<Rightarrow> int list list \<Rightarrow> nat \<Rightarrow> nat \<Rightarrow> int" where
  "stream_mixed bits qweight col i =
     (let word = i * bits div 32; off = i * bits mod 32; msk = push_bit bits 1 - 1;
          w0 = (qweight ! word ! col) AND 0xFFFFFFFF;
          nxt = min (word + 1) (length qweight - 1);
          w1 = (qweight ! nxt ! col) AND 0xFFFFFFFF
      in (drop_bit off w0 OR i64 (push_bit (32 - off) w1)) AND msk)"

definition straddles :: "nat \<Rightarrow> nat \<Rightarrow> bool" where
  "straddles bits i = (i * bits mod 32 + bits > 32)"

definition unpack_gptq_unsigned :: "int list list \<Rightarrow> nat \<Rightarrow> nat \<Rightarrow> nat \<Rightarrow> int list list res" where
  "unpack_gptq_unsigned qweight n bits k =
     (if bits \<notin> {2, 3, 4} then Inl (ValueError ''bits'')
      else if k mod GROUP \<noteq> 0 then Inl (ValueError ''K is not a multiple of GROUP'')
      else if length qweight * 32 \<noteq> k * bits then Inl (ValueError ''qweight rows * 32 != K * bits'')
      else Inr (map (\<lambda>col. map (\<lambda>i. i16 (if straddles bits i then stream_mixed bits qweight col i
                                           else stream_plain bits qweight col i)) [0..<k]) [0..<n]))"

definition scales_shape :: "nat \<Rightarrow> nat \<Rightarrow> 'f list list \<Rightarrow> bool" where
  "scales_shape groups n scales \<longleftrightarrow> length scales = groups \<and> list_all (\<lambda>r. length r = n) scales"

definition transpose_scales :: "('f \<Rightarrow> 'h) \<Rightarrow> nat \<Rightarrow> 'f list list \<Rightarrow> 'h list list" where
  "transpose_scales bf16 n scales = map (\<lambda>col. map (\<lambda>r. bf16 (r ! col)) scales) [0..<n]"

definition gptq_to_b70lb1 :: "('f \<Rightarrow> 'h) \<Rightarrow> int list list \<Rightarrow> nat \<Rightarrow> 'f list list \<Rightarrow> nat \<Rightarrow> nat \<Rightarrow>
    (int list list \<times> int list list option \<times> 'h list list) res" where
  "gptq_to_b70lb1 bf16 qweight n scales bits k =
     (let maxq = push_bit (bits - 1) 1 in
      bindR (unpack_gptq_unsigned qweight n bits k) (\<lambda>unsigned.
      let codes = map (map (\<lambda>x. i8 (x - maxq))) unsigned in
      bindR (pack_codes k codes bits) (\<lambda>(plane2, plane_hi).
        if \<not> scales_shape (k div GROUP) n scales then Inl (ValueError ''scales'')
        else Inr (plane2, plane_hi, transpose_scales bf16 n scales))))"

section \<open>Routed experts\<close>

definition signed_codes_batch :: "int list list list \<Rightarrow> nat \<Rightarrow> nat \<Rightarrow> nat \<Rightarrow> nat \<Rightarrow> int list list list res" where
  "signed_codes_batch qweight rows n bits k =
     (if bits \<notin> {2, 3, 4} then Inl (ValueError ''bits'')
      else if rows * 32 \<noteq> k * bits then Inl (ValueError ''qweight rows * 32 != K * bits'')
      else let maxq = push_bit (bits - 1) 1 in
        Inr (map (\<lambda>q. map (\<lambda>col. map (\<lambda>i.
               i8 ((if bits = 3 \<and> straddles bits i then stream_mixed bits q col i else stream_plain bits q col i) - maxq))
             [0..<k]) [0..<n]) qweight))"

text \<open>The shape \<open>(e, k // GROUP, n)\<close> of the experts' scales.\<close>

definition expert_scales_shape :: "nat \<Rightarrow> nat \<Rightarrow> nat \<Rightarrow> 'f list list list \<Rightarrow> bool" where
  "expert_scales_shape e groups n scales \<longleftrightarrow> length scales = e \<and> list_all (scales_shape groups n) scales"

definition default_step :: "nat \<Rightarrow> nat \<Rightarrow> nat \<Rightarrow> nat option \<Rightarrow> nat" where
  "default_step e k n chunk =
     (case chunk of Some c \<Rightarrow> c | None \<Rightarrow> max 1 (min e (push_bit 20 128 div max (k * n * 8) 1)))"

text \<open>The loop body: experts \<open>start ..< min e (start + step)\<close> unpacked, packed as one matrix, viewed apart.
  \<open>reshape(-1, 0)\<close> is ambiguous and raises.\<close>

definition pack_chunk :: "('f \<Rightarrow> 'h) \<Rightarrow> int list list list \<Rightarrow> nat \<Rightarrow> nat \<Rightarrow> 'f list list list \<Rightarrow> nat \<Rightarrow> nat \<Rightarrow> nat \<Rightarrow> nat \<Rightarrow>
    (int list list list \<times> int list list list \<times> 'h list list list) res" where
  "pack_chunk bf16 qweight rows n scales bits k step start =
     (let c = min (length qweight) (start + step) - start in
      bindR (signed_codes_batch (take c (drop start qweight)) rows n bits k) (\<lambda>codes.
      bindR (if k = 0 then Inl (RuntimeError ''cannot reshape into [-1, 0]'') else pack_codes k (concat codes) bits) (\<lambda>(packed2, packed_hi).
      bindR (if bits = 2 then Inr [] else
               case packed_hi of None \<Rightarrow> Inl (RuntimeError ''int3/int4 pack produced no plane_hi'')
               | Some hi \<Rightarrow> Inr (view_rows c n hi)) (\<lambda>his.
        Inr (view_rows c n packed2, his, map (transpose_scales bf16 n) (take c (drop start scales)))))))"

definition gptq_experts_to_b70lb1 :: "('f \<Rightarrow> 'h) \<Rightarrow> int list list list \<Rightarrow> nat \<Rightarrow> nat \<Rightarrow> 'f list list list \<Rightarrow> nat \<Rightarrow> nat \<Rightarrow> nat option \<Rightarrow>
    (int list list list \<times> int list list list option \<times> 'h list list list) res" where
  "gptq_experts_to_b70lb1 bf16 qweight rows n scales bits k chunk =
     (let e = length qweight; step = default_step e k n chunk in
      if \<not> expert_scales_shape e (k div GROUP) n scales then Inl (ValueError ''expert scales'')
      else bindR (plane2_stride k) (\<lambda>s2. bindR (plane_hi_stride k bits) (\<lambda>shi.
        if step = 0 then Inl (ValueError ''range() arg 3 must not be zero'')
        else bindR (mapR (pack_chunk bf16 qweight rows n scales bits k step)
               (map (\<lambda>j. j * step) [0..<(e + step - 1) div step])) (\<lambda>parts.
          Inr (concat (map fst parts), if bits = 2 then None else Some (concat (map (fst \<circ> snd) parts)),
               concat (map (snd \<circ> snd) parts))))))"

text \<open>\<open>groups.setdefault(bits, []).append(index)\<close>, after the guard on each expert's width.\<close>

fun group_by_bits :: "nat \<Rightarrow> nat \<Rightarrow> nat list \<Rightarrow> (nat, nat list) odict \<Rightarrow> (nat, nat list) odict res" where
  "group_by_bits storage index [] groups = Inr groups"
| "group_by_bits storage index (bits # rest) groups =
     (if bits \<notin> {2, 3, 4} \<or> bits > storage then Inl (ValueError ''expert bits'')
      else group_by_bits storage (Suc index) rest
        (od_put bits ((case od_get groups bits of None \<Rightarrow> [] | Some ix \<Rightarrow> ix) @ [index]) groups))"

definition index_copy :: "nat list \<Rightarrow> 'a list \<Rightarrow> 'a list \<Rightarrow> 'a list" where
  "index_copy ix src dst = fold (\<lambda>(i, x) d. d[i := x]) (zip ix src) dst"

definition repack_group :: "('f \<Rightarrow> 'h) \<Rightarrow> int list list list \<Rightarrow> nat \<Rightarrow> 'f list list list \<Rightarrow> nat \<Rightarrow> nat \<Rightarrow> nat \<times> nat list \<Rightarrow>
    int list list list \<times> int list list list option \<times> 'h list list list \<Rightarrow>
    (int list list list \<times> int list list list option \<times> 'h list list list) res" where
  "repack_group bf16 qweight n scales storage k = (\<lambda>(bits, ix) (plane2, plane_hi, scale_out).
     let need = k * bits div 32 in
     bindR (gptq_experts_to_b70lb1 bf16 (map (\<lambda>i. take need (qweight ! i)) ix) need n (map (\<lambda>i. scales ! i) ix) bits k None)
       (\<lambda>(packed2, packed_hi, packed_scale).
     bindR (case packed_hi of None \<Rightarrow> Inr plane_hi
            | Some hi \<Rightarrow> (case plane_hi of
                None \<Rightarrow> Inl (RuntimeError ''int2 storage cannot hold a hi plane'')
              | Some dst \<Rightarrow> if plane_hi_stride k bits \<noteq> plane_hi_stride k storage
                  then Inl (RuntimeError ''index_copy_ slices differ in shape'') else Inr (Some (index_copy ix hi dst))))
       (\<lambda>plane_hi'. Inr (index_copy ix packed2 plane2, plane_hi', index_copy ix packed_scale scale_out))))"

fun repack_groups :: "('f \<Rightarrow> 'h) \<Rightarrow> int list list list \<Rightarrow> nat \<Rightarrow> 'f list list list \<Rightarrow> nat \<Rightarrow> nat \<Rightarrow> (nat \<times> nat list) list \<Rightarrow>
    int list list list \<times> int list list list option \<times> 'h list list list \<Rightarrow>
    (int list list list \<times> int list list list option \<times> 'h list list list) res" where
  "repack_groups bf16 qweight n scales storage k [] st = Inr st"
| "repack_groups bf16 qweight n scales storage k (g # gs) st =
     bindR (repack_group bf16 qweight n scales storage k g st) (repack_groups bf16 qweight n scales storage k gs)"

definition gptq_experts_mixed_to_b70lb1 :: "('f \<Rightarrow> 'h) \<Rightarrow> int list list list \<Rightarrow> nat \<Rightarrow> nat \<Rightarrow> 'f list list list \<Rightarrow> nat list \<Rightarrow> nat \<Rightarrow> nat \<Rightarrow>
    (int list list list \<times> int list list list option \<times> 'h list list list) res" where
  "gptq_experts_mixed_to_b70lb1 bf16 qweight rows n scales expert_bits k storage =
     (let e = length qweight in
      if length expert_bits \<noteq> e then Inl (ValueError ''expert_bits'')
      else if rows \<noteq> k * storage div 32 then Inl (ValueError ''qweight rows'')
      else if \<not> expert_scales_shape e (k div GROUP) n scales then Inl (ValueError ''expert scales'')
      else bindR (plane2_stride k) (\<lambda>s2. bindR (plane_hi_stride k storage) (\<lambda>shi.
        let plane2 = replicate e (replicate n (replicate s2 0));
            plane_hi = (if storage = 2 then None else Some (replicate e (replicate n (replicate shi 0)))) in
        bindR (group_by_bits storage 0 expert_bits []) (\<lambda>groups.
          repack_groups bf16 qweight n scales storage k groups (plane2, plane_hi, replicate e [])))))"

end
