(* ===== verification/Lowbit_Props.thy ===== *)
theory Lowbit_Props
  imports Lowbit
begin

unbundle bit_operations_syntax

text \<open>
  The packed planes give back the codes, the AutoGPTQ unpack reads the little-endian bitstream, chunked
  and mixed-width expert repacks are the per-expert repack, and quantise-then-dequantise is code times
  scale.
\<close>

section \<open>Digits of a packed value\<close>

fun digits_val :: "int \<Rightarrow> int list \<Rightarrow> int" where
  "digits_val B [] = 0"
| "digits_val B (d # ds) = d + B * digits_val B ds"

lemma digits_val_bounds:
  "0 < B \<Longrightarrow> (\<forall>d \<in> set ds. 0 \<le> d \<and> d < B) \<Longrightarrow> 0 \<le> digits_val B ds \<and> digits_val B ds < B ^ length ds"
proof (induction ds)
  case (Cons d ds)
  then have "0 \<le> digits_val B ds" "digits_val B ds + 1 \<le> B ^ length ds" "0 \<le> d" "d < B" by auto
  moreover from this have "B * (digits_val B ds + 1) \<le> B * B ^ length ds" using Cons.prems(1) by simp
  ultimately show ?case using Cons.prems(1) by (simp add: algebra_simps)
qed simp

lemma digits_val_nth:
  "0 < B \<Longrightarrow> (\<forall>d \<in> set ds. 0 \<le> d \<and> d < B) \<Longrightarrow> j < length ds \<Longrightarrow> digits_val B ds div B ^ j mod B = ds ! j"
proof (induction ds arbitrary: j)
  case (Cons d ds)
  then show ?case
  proof (cases j)
    case (Suc i)
    have "(d + B * digits_val B ds) div B = digits_val B ds" using Cons.prems by simp
    then show ?thesis using Suc Cons by (simp add: zdiv_zmult2_eq)
  qed simp
qed simp

text \<open>One byte holds \<open>8 div w\<close> fields of \<open>w\<close> bits.\<close>

definition is_fields :: "nat \<Rightarrow> nat list \<Rightarrow> bool" where
  "is_fields w shifts \<longleftrightarrow> 0 < w \<and> w * length shifts = 8 \<and> shifts = map ((*) w) [0..<length shifts]"

lemma is_fields_2: "is_fields 2 [0, 2, 4, 6]" and is_fields_1: "is_fields 1 [0..<8]"
  by (simp_all add: is_fields_def upt_rec)

lemma sum_push_digits:
  "length xs = m \<Longrightarrow> sum_list (map2 (\<lambda>s x. push_bit s x) (map ((*) w) [i..<i + m]) xs) = 2 ^ (w * i) * digits_val (2 ^ w) xs"
proof (induction xs arbitrary: i m)
  case (Cons x xs)
  then obtain m' where m: "m = Suc m'" by (cases m) auto
  have "[i..<i + m] = i # [Suc i..<Suc i + m']" by (simp add: m upt_rec)
  then show ?case using Cons.IH [of m' "Suc i"] Cons.prems m
    by (simp add: push_bit_eq_mult power_add algebra_simps)
qed simp

lemma pack_byte_digits:
  assumes f: "is_fields w shifts" and xs: "length xs = length shifts" "\<forall>x \<in> set xs. 0 \<le> x \<and> x < 2 ^ w"
  shows "pack_byte shifts xs = digits_val (2 ^ w) xs"
proof -
  have "map2 (\<lambda>s x. i16 (push_bit s x)) shifts xs = map2 (\<lambda>s x. push_bit s x) shifts xs"
  proof (rule nth_equalityI)
    fix j assume j: "j < length (map2 (\<lambda>s x. i16 (push_bit s x)) shifts xs)"
    then have jl: "j < length shifts" "j < length xs" by auto
    have s: "shifts ! j = w * j" using f jl by (metis add_0 is_fields_def length_map map_nth nth_map nth_upt)
    have x: "0 \<le> xs ! j" "xs ! j < 2 ^ w" using xs jl by auto
    have "w * j + w \<le> 8" using f jl by (simp add: is_fields_def) (metis Suc_leI mult.commute mult_Suc mult_le_mono2 add.commute)
    then have "(2::int) ^ (w * j) * 2 ^ w \<le> 2 ^ 8" by (metis one_le_numeral power_add power_increasing)
    moreover have "2 ^ (w * j) * (xs ! j) \<le> 2 ^ (w * j) * 2 ^ w" using x by (intro mult_left_mono) simp_all
    moreover have "push_bit (w * j) (xs ! j) = 2 ^ (w * j) * (xs ! j)" by (simp add: push_bit_eq_mult mult.commute)
    ultimately have "push_bit (w * j) (xs ! j) \<le> 2 ^ 8" by linarith
    moreover have "- (2 ^ 15) \<le> push_bit (w * j) (xs ! j)" using x by (simp add: push_bit_eq_mult order_trans [of _ 0])
    ultimately have "i16 (push_bit (w * j) (xs ! j)) = push_bit (w * j) (xs ! j)"
      unfolding i16_def by (intro signed_take_bit_int_eq_self) simp_all
    with j s show "map2 (\<lambda>s x. i16 (push_bit s x)) shifts xs ! j = map2 (\<lambda>s x. push_bit s x) shifts xs ! j" by simp
  qed simp
  moreover have "shifts = map ((*) w) [0..<0 + length xs]" using f xs by (simp add: is_fields_def)
  ultimately have sum: "sum_list (map2 (\<lambda>s x. i16 (push_bit s x)) shifts xs) = digits_val (2 ^ w) xs"
    using sum_push_digits [of xs "length xs" w 0] by (simp only:) simp
  have "(2 ^ w) ^ length xs = (2::int) ^ 8" using f xs by (simp add: is_fields_def power_mult [symmetric])
  then have "0 \<le> digits_val (2 ^ w) xs \<and> digits_val (2 ^ w) xs < 2 ^ 8"
    using digits_val_bounds [of "2 ^ w" xs] xs by simp
  then show ?thesis by (simp add: pack_byte_def sum u8_def i64_def take_bit_int_eq_self signed_take_bit_int_eq_self)
qed

lemma pack_byte_fields:
  assumes f: "is_fields w shifts" and xs: "length xs = length shifts" "\<forall>x \<in> set xs. 0 \<le> x \<and> x < 2 ^ w"
  shows "map (\<lambda>s. drop_bit s (pack_byte shifts xs) AND (2 ^ w - 1)) shifts = xs"
proof (rule nth_equalityI)
  fix j assume "j < length (map (\<lambda>s. drop_bit s (pack_byte shifts xs) AND (2 ^ w - 1)) shifts)"
  then have j: "j < length shifts" by simp
  have s: "shifts ! j = w * j" using f j by (metis add_0 is_fields_def length_map map_nth nth_map nth_upt)
  have "drop_bit (w * j) (digits_val (2 ^ w) xs) AND (2 ^ w - 1) = digits_val (2 ^ w) xs div (2 ^ w) ^ j mod 2 ^ w"
    by (simp add: drop_bit_eq_div power_mult and_exp_eq_0_iff_not_bit take_bit_eq_mod flip: take_bit_eq_mask mask_eq_exp_minus_1)
  also have "\<dots> = xs ! j" using xs j by (intro digits_val_nth) auto
  finally show "map (\<lambda>s. drop_bit s (pack_byte shifts xs) AND (2 ^ w - 1)) shifts ! j = xs ! j"
    using j s by (simp add: pack_byte_digits [OF f xs])
qed (simp add: xs)


section \<open>Planes\<close>

lemma plane_row_fields:
  assumes f: "is_fields w shifts" and k: "k = k div length shifts * length shifts" and row: "length row = k"
    and fld: "\<forall>x. 0 \<le> field x \<and> field x < 2 ^ w"
  shows "concat (map (\<lambda>b. map (\<lambda>s. drop_bit s b AND (2 ^ w - 1)) shifts)
     (take (k div length shifts) (plane_row k shifts stride field row))) = map field row"
proof -
  let ?V = "view_rows (k div length shifts) (length shifts) (map field row)"
  have len: "length (map field row) = k div length shifts * length shifts" using k row by simp
  have "map (\<lambda>s. drop_bit s (pack_byte shifts r) AND (2 ^ w - 1)) shifts = r" if "r \<in> set ?V" for r
    using pack_byte_fields [OF f view_rows_elems [OF len that]] set_view_rows [OF that] fld by auto
  then have "map ((\<lambda>b. map (\<lambda>s. drop_bit s b AND (2 ^ w - 1)) shifts) \<circ> pack_byte shifts) ?V = ?V" by (simp add: map_idI)
  then have "concat (map (\<lambda>b. map (\<lambda>s. drop_bit s b AND (2 ^ w - 1)) shifts) (map (pack_byte shifts) ?V)) = map field row"
    using concat_view_rows [OF len] by simp
  then show ?thesis by (simp add: plane_row_def Let_def)
qed

lemma plane_fields_inverts:
  assumes f: "is_fields w shifts" and k: "k = k div length shifts * length shifts" and rows: "\<forall>r \<in> set codes. length r = k"
    and fld: "\<forall>x. 0 \<le> field x \<and> field x < 2 ^ w" and m: "msk = 2 ^ w - 1"
  shows "plane_fields (length codes) k shifts msk (map (plane_row k shifts stride field) codes) = Inr (map (map field) codes)"
proof -
  have "map (\<lambda>row. concat (map (\<lambda>b. map (\<lambda>s. drop_bit s b AND msk) shifts) (take (k div length shifts) row)))
      (map (plane_row k shifts stride field) codes) = map (map field) codes"
    using plane_row_fields [OF f k _ fld] rows by (simp add: m)
  then show ?thesis unfolding plane_fields_def using rows by (simp add: reshape_concat del: map_map)
qed

lemma low_field: "0 \<le> x AND 3 \<and> x AND 3 < 2 ^ (2::nat)" "0 \<le> x AND 1 \<and> x AND 1 < 2 ^ (1::nat)" for x :: int
proof -
  have "x AND 3 = x mod 4" using take_bit_eq_mask [of 2 x] by (simp add: take_bit_eq_mod mask_eq_exp_minus_1)
  then show "0 \<le> x AND 3 \<and> x AND 3 < 2 ^ (2::nat)" by simp
  show "0 \<le> x AND 1 \<and> x AND 1 < 2 ^ (1::nat)" by (simp add: and_one_eq)
qed

text \<open>Sign extension of the low \<open>b\<close> bits.\<close>

lemma sign_extend_bits: "0 < b \<Longrightarrow> b \<le> 8 \<Longrightarrow> sign_extend b x = signed_take_bit (b - 1) x"
  by (rule bit_eqI) (auto simp: sign_extend_def i8_def i16_def bit_drop_bit_eq bit_signed_take_bit_iff bit_push_bit_iff min_def
      split: if_splits intro!: arg_cong [of _ _ "bit x"])

lemma join_codes:
  "signed_take_bit 2 ((c AND 3) OR i16 (push_bit 2 (drop_bit 2 c AND 1))) = signed_take_bit 2 c"
  "signed_take_bit 3 ((c AND 3) OR i16 (push_bit 2 (drop_bit 2 c AND 3))) = signed_take_bit 3 c"
  "signed_take_bit 1 (c AND 3) = signed_take_bit 1 c" for c :: int
proof -
  have three: "(3::int) = mask 2" and one: "(1::int) = mask 1" by (simp_all add: mask_eq_exp_minus_1)
  note bits = bit_signed_take_bit_iff bit_or_iff bit_and_iff i16_def bit_push_bit_iff bit_drop_bit_eq bit_mask_iff
  show "signed_take_bit 2 ((c AND 3) OR i16 (push_bit 2 (drop_bit 2 c AND 1))) = signed_take_bit 2 c"
    unfolding three one by (rule bit_eqI) (auto simp: bits min_def)
  show "signed_take_bit 3 ((c AND 3) OR i16 (push_bit 2 (drop_bit 2 c AND 3))) = signed_take_bit 3 c"
    unfolding three
  proof (rule bit_eqI)
    fix n :: nat
    have "bit ((c AND mask 2) OR i16 (push_bit 2 (drop_bit 2 c AND mask 2))) m \<longleftrightarrow> bit c m" if "m \<le> 3" for m
      using that by (cases "m < 2") (auto simp: bits simp flip: add_2_eq_Suc)
    then show "bit (signed_take_bit 3 ((c AND mask 2) OR i16 (push_bit 2 (drop_bit 2 c AND mask 2)))) n = bit (signed_take_bit 3 c) n"
      by (simp add: bit_signed_take_bit_iff)
  qed
  show "signed_take_bit 1 (c AND 3) = signed_take_bit 1 c"
    unfolding three by (rule bit_eqI) (auto simp: bits min_def)
qed


section \<open>The planes of a matrix\<close>

definition good_bits :: "nat \<Rightarrow> bool" where
  "good_bits bits \<longleftrightarrow> bits = 2 \<or> bits = 3 \<or> bits = 4"

definition hi_field :: "nat \<Rightarrow> int \<Rightarrow> int" where
  "hi_field bits c = (if bits = 3 then drop_bit 2 c AND 1 else drop_bit 2 c AND 3)"

definition hi_shifts :: "nat \<Rightarrow> nat list" where
  "hi_shifts bits = (if bits = 3 then [0..<8] else [0, 2, 4, 6])"

text \<open>What packing produces, row by row.\<close>

definition packed_lo :: "nat \<Rightarrow> int list \<Rightarrow> int list" where
  "packed_lo k = plane_row k [0, 2, 4, 6] (pad64 (k div 4)) (\<lambda>c. c AND 3)"

definition packed_hi :: "nat \<Rightarrow> nat \<Rightarrow> int list \<Rightarrow> int list" where
  "packed_hi bits k = plane_row k (hi_shifts bits) (pad64 (k div length (hi_shifts bits))) (hi_field bits)"

definition packed_planes :: "nat \<Rightarrow> nat \<Rightarrow> int list list \<Rightarrow> int list list \<times> int list list option" where
  "packed_planes bits k codes = (map (packed_lo k) codes, if bits = 2 then None else Some (map (packed_hi bits k) codes))"

lemma stride_run: "k mod 128 = 0 \<Longrightarrow> plane2_stride k = Inr (pad64 (k div 4))"
  "k mod 128 = 0 \<Longrightarrow> good_bits bits \<Longrightarrow> plane_hi_stride k bits = Inr (if bits = 2 then 0 else pad64 (k div length (hi_shifts bits)))"
  by (auto simp: plane2_stride_def plane_hi_stride_def GROUP_def good_bits_def hi_shifts_def)

lemma pack_codes_run:
  "good_bits bits \<Longrightarrow> k mod 128 = 0 \<Longrightarrow> pack_codes k codes bits = Inr (packed_planes bits k codes)"
  by (auto simp: pack_codes_def stride_run good_bits_def Let_def packed_planes_def packed_lo_def packed_hi_def hi_shifts_def
      hi_field_def [abs_def] plane_hi_stride_def GROUP_def)

lemma pad64_bounds: "p \<le> pad64 p \<and> pad64 p < p + 64 \<and> pad64 p mod 64 = 0"
proof -
  have "(63::int) = mask 6" by (simp add: mask_eq_exp_minus_1)
  then have "(int p + 63) AND NOT 63 = (int p + 63) AND NOT (mask 6)" by simp
  also have "\<dots> = push_bit 6 (drop_bit 6 (int p + 63))"
    by (rule bit_eqI) (auto simp: bit_and_iff bit_not_iff bit_push_bit_iff bit_drop_bit_eq bit_mask_iff simp del: mask_numeral)
  finally have "(int p + 63) AND NOT 63 = push_bit 6 (drop_bit 6 (int p + 63))" .
  then have "int (pad64 p) = (int p + 63) div 64 * 64"
    by (simp add: pad64_def push_bit_eq_mult drop_bit_eq_div)
  then show ?thesis by presburger
qed

lemma plane_row_length:
  "k div length shifts \<le> stride \<Longrightarrow> length (plane_row k shifts stride field row) = stride"
  by (simp add: plane_row_def Let_def)

lemma packed_lengths:
  "length (packed_lo k r) = pad64 (k div 4)" "length (packed_hi bits k r) = pad64 (k div length (hi_shifts bits))"
  using pad64_bounds by (simp_all add: packed_lo_def packed_hi_def plane_row_length)

text \<open>Unpacking the planes sign-extends the low bits of every code.\<close>

lemma unpack_packed:
  assumes b: "good_bits bits" and k: "k mod 128 = 0" and rows: "\<forall>r \<in> set codes. length r = k"
  shows "unpack_codes (map (packed_lo k) codes) (snd (packed_planes bits k codes)) bits k
     = Inr (map (map (signed_take_bit (bits - 1))) codes)"
proof -
  have k4: "k = k div 4 * 4" and k8: "k = k div 8 * 8" using k by presburger+
  have lo: "plane_fields (length codes) k [0, 2, 4, 6] 3 (map (packed_lo k) codes) = Inr (map (map (\<lambda>c. c AND 3)) codes)"
    unfolding packed_lo_def
    by (rule plane_fields_inverts [OF is_fields_2]) (use k4 rows low_field in simp_all)
  have hi3: "plane_fields (length codes) k [0..<8] 1 (map (packed_hi 3 k) codes) = Inr (map (map (hi_field 3)) codes)"
    unfolding packed_hi_def hi_shifts_def hi_field_def [abs_def] if_P [OF refl]
    by (rule plane_fields_inverts [OF is_fields_1]) (use k8 rows low_field in simp_all)
  have hi4: "plane_fields (length codes) k [0, 2, 4, 6] 3 (map (packed_hi 4 k) codes) = Inr (map (map (hi_field 4)) codes)"
    unfolding packed_hi_def hi_shifts_def hi_field_def [abs_def]
    by (simp, rule plane_fields_inverts [OF is_fields_2]) (use k4 rows low_field in simp_all)
  have join: "map (map (sign_extend bits)) (join_hi (map (map (\<lambda>c. c AND 3)) codes) (map (map (hi_field bits)) codes))
      = map (map (signed_take_bit (bits - 1))) codes" if "bits = 3 \<or> bits = 4"
    using that join_codes by (auto simp: join_hi_def zip_map_map zip_same_conv_map sign_extend_bits hi_field_def)
  show ?thesis
    using b unfolding good_bits_def
    by (elim disjE)
       (use join join_codes in \<open>simp_all add: unpack_codes_def Let_def lo hi3 hi4 packed_planes_def sign_extend_bits\<close>)
qed

definition in_bits :: "nat \<Rightarrow> int list list \<Rightarrow> bool" where
  "in_bits bits codes \<longleftrightarrow> (\<forall>r \<in> set codes. \<forall>c \<in> set r. - (2 ^ (bits - 1)) \<le> c \<and> c < 2 ^ (bits - 1))"

lemma sign_extended_self: "in_bits bits codes \<Longrightarrow> map (map (signed_take_bit (bits - 1))) codes = codes"
  by (auto simp: in_bits_def intro!: map_idI signed_take_bit_int_eq_self)


section \<open>The bitstream\<close>

text \<open>The column's words laid end to end, least significant first, and the codes cut from it.\<close>

definition code_stream :: "int list list \<Rightarrow> nat \<Rightarrow> int" where
  "code_stream qweight col = digits_val (2 ^ 32) (map (\<lambda>r. take_bit 32 (r ! col)) qweight)"

definition stream_code :: "nat \<Rightarrow> int list list \<Rightarrow> nat \<Rightarrow> nat \<Rightarrow> int" where
  "stream_code bits qweight col i = code_stream qweight col div 2 ^ (bits * i) mod 2 ^ bits"

lemma digits_val_bit:
  assumes w: "0 < w" and ds: "\<forall>d \<in> set ds. 0 \<le> d \<and> d < 2 ^ w"
  shows "bit (digits_val (2 ^ w) ds) j \<longleftrightarrow> j div w < length ds \<and> bit (ds ! (j div w)) (j mod w)"
proof (cases "j div w < length ds")
  case True
  have "take_bit w (drop_bit (w * (j div w)) (digits_val (2 ^ w) ds)) = ds ! (j div w)"
    using digits_val_nth [of "2 ^ w" ds "j div w"] True ds by (simp add: take_bit_eq_mod drop_bit_eq_div power_mult)
  then have "bit (ds ! (j div w)) (j mod w) \<longleftrightarrow> bit (take_bit w (drop_bit (w * (j div w)) (digits_val (2 ^ w) ds))) (j mod w)"
    by simp
  also have "\<dots> \<longleftrightarrow> bit (digits_val (2 ^ w) ds) j" using w by (simp add: bit_take_bit_iff bit_drop_bit_eq)
  finally show ?thesis using True by simp
next
  case False
  then have "w * length ds \<le> j" using w by (metis div_le_mono mult.commute mult_le_mono1 nat_le_linear not_less
      order_trans times_div_less_eq_dividend)
  have b: "0 \<le> digits_val (2 ^ w) ds \<and> digits_val (2 ^ w) ds < 2 ^ (w * length ds)"
    using digits_val_bounds [of "2 ^ w" ds] ds by (simp add: power_mult)
  then have "take_bit (w * length ds) (digits_val (2 ^ w) ds) = digits_val (2 ^ w) ds" by (simp add: take_bit_int_eq_self)
  then have "\<not> bit (digits_val (2 ^ w) ds) j" using \<open>w * length ds \<le> j\<close> by (metis bit_take_bit_iff not_less)
  then show ?thesis using False by simp
qed

lemma stream_code_bit:
  "bit (stream_code bits qweight col i) b \<longleftrightarrow> b < bits \<and> (bits * i + b) div 32 < length qweight
     \<and> bit (qweight ! ((bits * i + b) div 32) ! col) ((bits * i + b) mod 32)"
proof -
  have "stream_code bits qweight col i = take_bit bits (drop_bit (bits * i) (code_stream qweight col))"
    by (simp add: stream_code_def take_bit_eq_mod drop_bit_eq_div)
  moreover have "bit (code_stream qweight col) j \<longleftrightarrow> j div 32 < length qweight \<and> bit (qweight ! (j div 32) ! col) (j mod 32)" for j
    unfolding code_stream_def using take_bit_int_less_exp [of 32]
    by (subst digits_val_bit) (auto simp: bit_take_bit_iff simp del: power_numeral)
  ultimately show ?thesis by (auto simp: bit_take_bit_iff bit_drop_bit_eq)
qed

lemma stream_parts:
  "2 ^ bits - 1 = (mask bits :: int)" "x AND 0xFFFFFFFF = take_bit 32 x" for x :: int
proof -
  show "2 ^ bits - 1 = (mask bits :: int)" by (simp add: mask_eq_exp_minus_1)
  have "(0xFFFFFFFF :: int) = mask 32" by (simp add: mask_eq_exp_minus_1)
  then show "x AND 0xFFFFFFFF = take_bit 32 x" by (simp only: take_bit_eq_mask)
qed

lemma stream_in_range:
  fixes i k rows bits b :: nat
  assumes "i < k" "rows * 32 = k * bits" "b < bits"
  shows "(bits * i + b) div 32 < rows"
proof -
  have "bits * i + b < bits * Suc i" using assms(3) by simp
  also have "\<dots> \<le> bits * k" using assms(1) by (intro mult_le_mono2) simp
  finally show ?thesis using assms(2) by (simp add: mult.commute div_less_iff_less_mult)
qed

lemma stream_select:
  assumes i: "i < k" and rows: "length qweight * 32 = k * bits" and b: "good_bits bits"
  shows "(if straddles bits i then stream_mixed bits qweight col i else stream_plain bits qweight col i) = stream_code bits qweight col i"
proof (rule bit_eqI)
  fix n
  let ?off = "i * bits mod 32" and ?w = "i * bits div 32"
  have j: "bits * i + n = 32 * ?w + (?off + n)" by (simp add: mult.commute)
  have split: "(32 * q + r) div 32 = q \<and> (32 * q + r) mod 32 = r" if "r < 32" for q r :: nat using that by simp
  have near: "(bits * i + n) div 32 = ?w \<and> (bits * i + n) mod 32 = ?off + n" if "?off + n < 32"
    using split [OF that, of ?w] unfolding j .
  have far: "(bits * i + n) div 32 = Suc ?w \<and> (bits * i + n) mod 32 = n - (32 - ?off)" if "32 \<le> ?off + n" "n < bits"
  proof -
    have "n < 4" "?off < 32" using that(2) b by (auto simp: good_bits_def)
    with that have d: "?off + n - 32 < 32" "bits * i + n = 32 * Suc ?w + (?off + n - 32)" unfolding j by simp_all
    show ?thesis using split [OF d(1), of "Suc ?w"] unfolding d(2) by simp
  qed
  have ok: "n < bits \<Longrightarrow> (bits * i + n) div 32 < length qweight" by (rule stream_in_range [OF i rows])
  have n4: "n < bits \<Longrightarrow> n < 63" using b by (auto simp: good_bits_def)
  show "bit (if straddles bits i then stream_mixed bits qweight col i else stream_plain bits qweight col i) n
      \<longleftrightarrow> bit (stream_code bits qweight col i) n"
  proof (cases "n < bits")
    case False
    then show ?thesis
      by (simp add: stream_code_bit stream_mixed_def stream_plain_def Let_def stream_parts bit_and_iff bit_mask_iff)
  next
    case True
    show ?thesis
    proof (cases "?off + n < 32")
      case c: True
      then have "\<not> 32 - ?off \<le> n" by simp
      then show ?thesis using True near [OF c] ok c n4
        by (auto simp: stream_code_bit stream_mixed_def stream_plain_def Let_def stream_parts bit_and_iff bit_mask_iff bit_or_iff
            bit_drop_bit_eq bit_take_bit_iff i64_def bit_signed_take_bit_iff bit_push_bit_iff min_def)
    next
      case c: False
      then have st: "straddles bits i" using True by (simp add: straddles_def)
      have f: "(bits * i + n) div 32 = Suc ?w" "(bits * i + n) mod 32 = n - (32 - ?off)" using far c True by auto
      then have m: "min (?w + 1) (length qweight - 1) = Suc ?w" using ok [OF True] by simp
      have "32 - ?off \<le> n" "n - (32 - ?off) < 32" "min 63 n = n" using c n4 [OF True] True b by (auto simp: good_bits_def)
      then show ?thesis using True c f ok [OF True] st m
        by (simp add: stream_code_bit stream_mixed_def Let_def stream_parts bit_and_iff bit_mask_iff bit_or_iff
            bit_drop_bit_eq bit_take_bit_iff i64_def bit_signed_take_bit_iff bit_push_bit_iff)
    qed
  qed
qed

lemma stream_code_range: "0 \<le> stream_code bits q col i" "stream_code bits q col i < 2 ^ bits"
  by (simp_all add: stream_code_def)

text \<open>Only three-bit codes straddle two words.\<close>

lemma straddle_3: "good_bits bits \<Longrightarrow> straddles bits i \<Longrightarrow> bits = 3"
proof -
  have "i * 2 mod 32 + 2 \<le> 32" "i * 4 mod 32 + 4 \<le> 32" by presburger+
  then show "good_bits bits \<Longrightarrow> straddles bits i \<Longrightarrow> bits = 3" by (auto simp: good_bits_def straddles_def)
qed

lemma unpack_unsigned_run:
  assumes "good_bits bits" "k mod 128 = 0" "length qweight * 32 = k * bits"
  shows "unpack_gptq_unsigned qweight n bits k = Inr (map (\<lambda>col. map (stream_code bits qweight col) [0..<k]) [0..<n])"
proof -
  have "i16 (stream_code bits qweight col i) = stream_code bits qweight col i" for col i
  proof -
    have "(2::int) ^ bits \<le> 2 ^ 4" using assms(1) by (intro power_increasing) (auto simp: good_bits_def)
    then show ?thesis unfolding i16_def using stream_code_range [of bits qweight col i]
      by (intro signed_take_bit_int_eq_self) simp_all
  qed
  then show ?thesis using assms stream_select [OF _ assms(3,1)]
    by (auto simp: unpack_gptq_unsigned_def good_bits_def GROUP_def)
qed


section \<open>Repacking one matrix and many experts\<close>

text \<open>The signed codes of a column of the stream, and the planes of one expert.\<close>

definition signed_codes :: "nat \<Rightarrow> nat \<Rightarrow> nat \<Rightarrow> int list list \<Rightarrow> int list list" where
  "signed_codes bits k n qweight = map (\<lambda>col. map (\<lambda>i. stream_code bits qweight col i - 2 ^ (bits - 1)) [0..<k]) [0..<n]"

lemma signed_codes_shape: "length (signed_codes bits k n q) = n" "\<forall>r \<in> set (signed_codes bits k n q). length r = k"
  by (auto simp: signed_codes_def)

lemma pow_bits: "good_bits bits \<Longrightarrow> (2::int) ^ bits = 2 * 2 ^ (bits - 1)" "good_bits bits \<Longrightarrow> (2::int) ^ (bits - 1) \<le> 8"
  by (auto simp: good_bits_def)

lemma signed_codes_in_bits: "good_bits bits \<Longrightarrow> in_bits bits (signed_codes bits k n q)"
  using stream_code_range [of bits q] pow_bits(1) [of bits] by (auto simp: in_bits_def signed_codes_def)

lemma i8_stream:
  assumes "good_bits bits"
  shows "i8 (stream_code bits q col i - push_bit (bits - 1) 1) = stream_code bits q col i - 2 ^ (bits - 1)"
  using stream_code_range [of bits q col i] pow_bits [OF assms] unfolding i8_def
  by (simp, intro signed_take_bit_int_eq_self) simp_all

lemma gptq_run:
  assumes "good_bits bits" "k mod 128 = 0" "length q * 32 = k * bits" "scales_shape (k div 128) n s"
  shows "gptq_to_b70lb1 bf16 q n s bits k =
     Inr (map (packed_lo k) (signed_codes bits k n q), snd (packed_planes bits k (signed_codes bits k n q)), transpose_scales bf16 n s)"
proof -
  have "map (map (\<lambda>x. i8 (x - push_bit (bits - 1) 1))) (map (\<lambda>col. map (stream_code bits q col) [0..<k]) [0..<n]) = signed_codes bits k n q"
    using i8_stream [OF assms(1)] by (simp add: signed_codes_def)
  then show ?thesis using assms(4)
    unfolding gptq_to_b70lb1_def Let_def unpack_unsigned_run [OF assms(1-3)] bindR_simps
    by (simp only: pack_codes_run [OF assms(1,2)] bindR_simps packed_planes_def prod.case) (simp add: GROUP_def)
qed

definition experts_ok :: "nat \<Rightarrow> nat \<Rightarrow> nat \<Rightarrow> nat \<Rightarrow> int list list list \<Rightarrow> 'f list list list \<Rightarrow> bool" where
  "experts_ok bits k rows n qweight scales \<longleftrightarrow> good_bits bits \<and> k mod GROUP = 0 \<and> rows * 32 = k * bits
     \<and> (\<forall>q \<in> set qweight. length q = rows) \<and> expert_scales_shape (length qweight) (k div GROUP) n scales"

lemma batch_run:
  assumes "good_bits bits" "rows * 32 = k * bits" "\<forall>q \<in> set qs. length q = rows"
  shows "signed_codes_batch qs rows n bits k = Inr (map (signed_codes bits k n) qs)"
proof -
  have "(if bits = 3 \<and> straddles bits i then stream_mixed bits q col i else stream_plain bits q col i) = stream_code bits q col i"
    if "q \<in> set qs" "i < k" for q col i
    using stream_select [OF that(2) _ assms(1), of q col] that(1) assms straddle_3 [OF assms(1), of i]
    by (cases "straddles bits i") auto
  then show ?thesis using assms i8_stream [OF assms(1)]
    by (auto simp: signed_codes_batch_def good_bits_def signed_codes_def)
qed

lemma view_rows_concat_map:
  "\<forall>x \<in> set xs. length (f x) = n \<Longrightarrow> view_rows (length xs) n (map g (concat (map f xs))) = map (\<lambda>x. map g (f x)) xs"
  using view_rows_concat [of "map (\<lambda>x. map g (f x)) xs" "length xs" n] by (simp add: map_concat comp_def)

lemma pack_chunk_run:
  assumes ok: "experts_ok bits k rows n qweight scales" and k: "0 < k"
    and c: "c = min (length qweight) (start + step) - start" and Q: "Q = take c (drop start qweight)"
  shows "pack_chunk bf16 qweight rows n scales bits k step start =
     Inr (map (\<lambda>q. map (packed_lo k) (signed_codes bits k n q)) Q,
          if bits = 2 then [] else map (\<lambda>q. map (packed_hi bits k) (signed_codes bits k n q)) Q,
          map (transpose_scales bf16 n) (take c (drop start scales)))"
proof -
  have b: "good_bits bits" "k mod 128 = 0" "rows * 32 = k * bits" "\<forall>q \<in> set Q. length q = rows"
    using ok by (auto simp: experts_ok_def GROUP_def Q dest!: in_set_takeD in_set_dropD)
  have l: "length Q = c" by (auto simp: Q c)
  have "view_rows c n (map g (concat (map (signed_codes bits k n) Q))) = map (\<lambda>q. map g (signed_codes bits k n q)) Q" for g :: "int list \<Rightarrow> int list"
    using view_rows_concat_map [of Q "signed_codes bits k n" n g] by (simp add: signed_codes_shape l)
  then show ?thesis using batch_run [OF b(1,3,4), of n] pack_codes_run [OF b(1,2)] b(1) k
    by (simp add: pack_chunk_def Let_def packed_planes_def flip: c Q)
qed

lemma concat_chunks: "concat (map (\<lambda>j. take step (drop (j * step) xs)) [0..<m]) = take (m * step) xs"
proof (induction m)
  case (Suc m)
  have "take (Suc m * step) xs = take (m * step) xs @ take step (drop (m * step) xs)"
    by (metis add.commute mult_Suc take_add)
  with Suc show ?case by simp
qed simp

lemma chunks_cover:
  assumes "0 < step"
  shows "concat (map (\<lambda>j. take (min (length xs) (j * step + step) - j * step) (drop (j * step) xs)) [0..<(length xs + step - 1) div step]) = xs"
proof -
  have "take (min (length xs) (j * step + step) - j * step) (drop (j * step) xs) = take step (drop (j * step) xs)" for j
    by (simp add: min_def take_all_iff)
  moreover have "length xs \<le> (length xs + step - 1) div step * step"
  proof -
    have "(length xs + step - 1) div step * step = length xs + step - 1 - (length xs + step - 1) mod step"
      by (simp add: minus_mod_eq_div_mult)
    moreover have "(length xs + step - 1) mod step < step" using assms by simp
    ultimately show ?thesis by linarith
  qed
  ultimately show ?thesis using concat_chunks [of step xs] by (simp add: take_all_iff)
qed

lemma chunks_map:
  assumes "0 < step" "length xs = e"
  shows "concat (map (\<lambda>j. map f (take (min e (j * step + step) - j * step) (drop (j * step) xs))) [0..<(e + step - 1) div step]) = map f xs"
  using arg_cong [OF chunks_cover [OF assms(1), of xs], of "map f"] by (simp add: map_concat comp_def assms(2))

lemma experts_run:
  assumes ok: "experts_ok bits k rows n qweight scales" and k: "0 < k" and chunk: "chunk \<noteq> Some 0"
  shows "gptq_experts_to_b70lb1 bf16 qweight rows n scales bits k chunk =
     Inr (map (\<lambda>q. map (packed_lo k) (signed_codes bits k n q)) qweight,
          if bits = 2 then None else Some (map (\<lambda>q. map (packed_hi bits k) (signed_codes bits k n q)) qweight),
          map (transpose_scales bf16 n) scales)"
proof -
  let ?e = "length qweight" and ?step = "default_step (length qweight) k n chunk"
  let ?lo = "\<lambda>q. map (packed_lo k) (signed_codes bits k n q)" and ?hi = "\<lambda>q. map (packed_hi bits k) (signed_codes bits k n q)"
  let ?cut = "\<lambda>xs j. take (min ?e (j * ?step + ?step) - j * ?step) (drop (j * ?step) xs)"
  let ?js = "[0..<(?e + ?step - 1) div ?step]"
  let ?g = "\<lambda>start. (map ?lo (take (min ?e (start + ?step) - start) (drop start qweight)),
    if bits = 2 then [] else map ?hi (take (min ?e (start + ?step) - start) (drop start qweight)),
    map (transpose_scales bf16 n) (take (min ?e (start + ?step) - start) (drop start scales)))"
  have step: "0 < ?step" using chunk by (auto simp: default_step_def split: option.split)
  have len: "length scales = ?e" using ok by (simp add: experts_ok_def expert_scales_shape_def)
  have "mapR (pack_chunk bf16 qweight rows n scales bits k ?step) (map (\<lambda>j. j * ?step) ?js) = Inr (map ?g (map (\<lambda>j. j * ?step) ?js))"
    by (rule mapR_total) (rule pack_chunk_run [OF ok k refl refl])
  moreover note chunks_map [OF step refl, of ?lo qweight] chunks_map [OF step refl, of ?hi qweight]
    chunks_map [OF step len, of "transpose_scales bf16 n"]
  ultimately show ?thesis
    using ok step by (simp add: gptq_experts_to_b70lb1_def Let_def experts_ok_def stride_run GROUP_def comp_def)
qed


text \<open>Experts without rows cannot be flattened.\<close>

lemma experts_empty:
  assumes ok: "experts_ok bits 0 rows n qweight scales" and e: "qweight \<noteq> []"
  shows "\<exists>m. gptq_experts_to_b70lb1 bf16 qweight rows n scales bits 0 None = Inl (RuntimeError m)"
proof -
  let ?step = "default_step (length qweight) 0 n None" and ?e = "length qweight"
  have b: "good_bits bits" "rows * 32 = 0 * bits" "\<forall>q \<in> set (take c (drop s qweight)). length q = rows" for c s
    using ok by (auto simp: experts_ok_def dest!: in_set_takeD in_set_dropD)
  have fail: "\<exists>m. pack_chunk bf16 qweight rows n scales bits 0 ?step s = Inl (RuntimeError m)" for s
    unfolding pack_chunk_def Let_def batch_run [OF b] by simp
  have step: "0 < ?step" by (simp add: default_step_def)
  have "0 < ?e" using e by simp
  then have "?step \<le> ?e + ?step - 1" by linarith
  then have "1 \<le> (?e + ?step - 1) div ?step" using step by (simp add: div_greater_zero_iff Suc_le_eq)
  then obtain x xs where "map (\<lambda>j. j * ?step) [0..<(?e + ?step - 1) div ?step] = x # xs"
    by (cases "map (\<lambda>j. j * ?step) [0..<(?e + ?step - 1) div ?step]") auto
  with fail [of x] ok step show ?thesis
    by (auto simp: gptq_experts_to_b70lb1_def Let_def experts_ok_def stride_run GROUP_def)
qed

section \<open>Experts of several widths\<close>

definition idxs :: "nat list \<Rightarrow> nat \<Rightarrow> nat list" where
  "idxs bs b = filter (\<lambda>j. bs ! j = b) [0..<length bs]"

definition ix_of :: "(nat, nat list) odict \<Rightarrow> nat \<Rightarrow> nat list" where
  "ix_of g b = (case od_get g b of None \<Rightarrow> [] | Some ix \<Rightarrow> ix)"

lemma idxs_Cons: "map Suc (idxs bs b) = filter (\<lambda>j. (c # bs) ! j = b) [Suc 0..<Suc (length bs)]"
  by (simp add: idxs_def filter_map comp_def del: upt_Suc flip: map_Suc_upt)

lemma ix_of_put: "ix_of (od_put c v g) b = (if b = c then v else ix_of g b)"
  by (simp add: ix_of_def od_get_put)

lemma group_by_bits_run:
  "\<forall>b \<in> set bs. good_bits b \<and> b \<le> storage \<Longrightarrow> od_ok g \<Longrightarrow>
     \<exists>g'. group_by_bits storage i bs g = Inr g' \<and> od_ok g' \<and> set (od_keys g') = set (od_keys g) \<union> set bs
       \<and> (\<forall>b. ix_of g' b = ix_of g b @ map ((+) i) (idxs bs b))"
proof (induction bs arbitrary: i g)
  case Nil
  then show ?case by (simp add: idxs_def)
next
  case (Cons c bs)
  let ?g = "od_put c (ix_of g c @ [i]) g"
  have ok: "od_ok ?g" using Cons.prems(2) by (rule od_ok_put)
  obtain g' where g': "group_by_bits storage (Suc i) bs ?g = Inr g'" "od_ok g'" "set (od_keys g') = set (od_keys ?g) \<union> set bs"
    "\<And>b. ix_of g' b = ix_of ?g b @ map ((+) (Suc i)) (idxs bs b)"
    using Cons.IH [OF _ ok, of "Suc i"] Cons.prems by auto
  have "bits \<in> {2, 3, 4} \<longleftrightarrow> good_bits bits" for bits by (simp add: good_bits_def)
  then have "group_by_bits storage i (c # bs) g = Inr g'"
    using Cons.prems(1) g'(1) by (simp add: ix_of_def del: insert_iff)
  moreover have "idxs (c # bs) b = (if c = b then [0] else []) @ map Suc (idxs bs b)" for b
  proof -
    have "[0..<length (c # bs)] = 0 # [Suc 0..<Suc (length bs)]" by (simp add: upt_rec del: upt_Suc)
    then show ?thesis unfolding idxs_Cons [of bs b c] by (simp add: idxs_def del: upt_Suc)
  qed
  then have "ix_of g' b = ix_of g b @ map ((+) i) (idxs (c # bs) b)" for b
    by (simp add: g'(4) ix_of_put comp_def)
  moreover have "set (od_keys g') = set (od_keys g) \<union> set (c # bs)" unfolding g'(3) by (simp add: od_keys_put) blast
  ultimately show ?case using g'(2) by blast
qed

lemma index_copy_nth:
  "distinct ix \<Longrightarrow> \<forall>i \<in> set ix. i < length d \<Longrightarrow>
     length (index_copy ix (map f ix) d) = length d
     \<and> (\<forall>x < length d. index_copy ix (map f ix) d ! x = (if x \<in> set ix then f x else d ! x))"
proof (induction ix arbitrary: d)
  case (Cons i ix)
  have "index_copy (i # ix) (map f (i # ix)) d = index_copy ix (map f ix) (d[i := f i])" by (simp add: index_copy_def)
  with Cons.IH [of "d[i := f i]"] Cons.prems show ?case by (auto simp: nth_list_update)
qed (simp add: index_copy_def)

definition mixed_ok :: "nat \<Rightarrow> nat \<Rightarrow> nat \<Rightarrow> int list list list \<Rightarrow> 'f list list list \<Rightarrow> nat list \<Rightarrow> nat \<Rightarrow> bool" where
  "mixed_ok k rows n qweight scales bs storage \<longleftrightarrow> k mod GROUP = 0 \<and> good_bits storage \<and> rows = k * storage div 32
     \<and> length bs = length qweight \<and> (\<forall>b \<in> set bs. good_bits b \<and> b \<le> storage)
     \<and> (\<forall>q \<in> set qweight. length q = rows) \<and> expert_scales_shape (length qweight) (k div GROUP) n scales"

text \<open>The high planes of an expert fit the storage.\<close>

definition fits :: "nat \<Rightarrow> nat \<Rightarrow> nat \<Rightarrow> bool" where
  "fits k storage b \<longleftrightarrow> b = 2 \<or> plane_hi_stride k b = plane_hi_stride k storage"

definition expert_codes :: "nat \<Rightarrow> nat \<Rightarrow> int list list list \<Rightarrow> nat list \<Rightarrow> nat \<Rightarrow> int list list" where
  "expert_codes k n qweight bs x = signed_codes (bs ! x) k n (take (k * bs ! x div 32) (qweight ! x))"

lemma group_experts_ok:
  assumes ok: "mixed_ok k rows n qweight scales bs storage" and b: "b \<in> set bs"
  shows "experts_ok b k (k * b div 32) n (map (\<lambda>i. take (k * b div 32) (qweight ! i)) (idxs bs b)) (map (\<lambda>i. scales ! i) (idxs bs b))"
proof -
  have le: "k * b div 32 \<le> k * storage div 32" using ok b by (auto simp: mixed_ok_def intro!: div_le_mono)
  have "32 dvd k" using ok by (auto simp: mixed_ok_def GROUP_def)
  then have "k * b div 32 * 32 = k * b" by simp
  moreover have "i < length qweight" if "i \<in> set (idxs bs b)" for i using that ok by (auto simp: idxs_def mixed_ok_def)
  moreover have "scales_shape (k div GROUP) n (scales ! i)" if "i \<in> set (idxs bs b)" for i
    using that ok by (auto simp: idxs_def mixed_ok_def expert_scales_shape_def list_all_iff)
  moreover have "good_bits b" "k mod GROUP = 0" "\<forall>q \<in> set qweight. length q = k * storage div 32"
    using ok b by (auto simp: mixed_ok_def)
  ultimately show ?thesis using le by (simp add: experts_ok_def expert_scales_shape_def list_all_iff)
qed

lemma repack_group_run:
  fixes bf16 :: "'f \<Rightarrow> 'h"
  assumes ok: "mixed_ok k rows n qweight scales bs storage" and k: "0 < k \<or> bs = []" and b: "b \<in> set bs" and ix: "ix = idxs bs b"
  defines "lo \<equiv> \<lambda>x. map (packed_lo k) (expert_codes k n qweight bs x)" and "sc \<equiv> \<lambda>x. transpose_scales bf16 n (scales ! x)"
    and "hi \<equiv> \<lambda>x. map (packed_hi (bs ! x) k) (expert_codes k n qweight bs x)"
  shows "repack_group bf16 qweight n scales storage k (b, ix) (p2, ph, s) =
     (if fits k storage b \<and> (ph = None \<longrightarrow> b = 2)
      then Inr (index_copy ix (map lo ix) p2, if b = 2 then ph else map_option (index_copy ix (map hi ix)) ph,
                index_copy ix (map sc ix) s)
      else repack_group bf16 qweight n scales storage k (b, ix) (p2, ph, s))"
    and "ph \<noteq> None \<Longrightarrow> \<not> fits k storage b \<Longrightarrow>
      \<exists>m. repack_group bf16 qweight n scales storage k (b, ix) (p2, ph, s) = Inl (RuntimeError m)"
proof -
  have kp: "0 < k" using k b by auto
  have e: "expert_codes k n qweight bs x = signed_codes b k n (take (k * b div 32) (qweight ! x))" if "x \<in> set ix" for x
    using that by (auto simp: expert_codes_def ix idxs_def)
  have "map (\<lambda>x. map (packed_lo k) (signed_codes b k n (take (k * b div 32) (qweight ! x)))) ix = map lo ix"
    "map (\<lambda>x. map (packed_hi b k) (signed_codes b k n (take (k * b div 32) (qweight ! x)))) ix = map hi ix"
    using e ix by (auto simp: lo_def hi_def idxs_def)
  then have run: "gptq_experts_to_b70lb1 bf16 (map (\<lambda>i. take (k * b div 32) (qweight ! i)) ix) (k * b div 32) n (map (\<lambda>i. scales ! i) ix) b k None
      = Inr (map lo ix, if b = 2 then None else Some (map hi ix), map sc ix)"
    using experts_run [OF group_experts_ok [OF ok b] kp, of None bf16] by (simp add: ix comp_def sc_def)
  show "repack_group bf16 qweight n scales storage k (b, ix) (p2, ph, s) =
     (if fits k storage b \<and> (ph = None \<longrightarrow> b = 2)
      then Inr (index_copy ix (map lo ix) p2, if b = 2 then ph else map_option (index_copy ix (map hi ix)) ph,
                index_copy ix (map sc ix) s)
      else repack_group bf16 qweight n scales storage k (b, ix) (p2, ph, s))"
    by (auto simp: repack_group_def Let_def run fits_def split: option.split)
  show "\<exists>m. repack_group bf16 qweight n scales storage k (b, ix) (p2, ph, s) = Inl (RuntimeError m)"
    if "ph \<noteq> None" "\<not> fits k storage b"
    using that by (auto simp: repack_group_def Let_def run fits_def)
qed

lemma idxs_props: "distinct (idxs bs b)" "i \<in> set (idxs bs b) \<longleftrightarrow> i < length bs \<and> bs ! i = b"
  by (auto simp: idxs_def)

text \<open>The loop over the groups writes every expert of the groups seen, and no other.\<close>

definition copy_groups :: "(nat \<Rightarrow> 'a) \<Rightarrow> (nat \<times> nat list) list \<Rightarrow> 'a list \<Rightarrow> 'a list" where
  "copy_groups f gs d = fold (\<lambda>(b, ix) d. index_copy ix (map f ix) d) gs d"

lemma copy_groups_nth:
  "\<forall>(b, ix) \<in> set gs. distinct ix \<and> (\<forall>i \<in> set ix. i < length d) \<Longrightarrow>
     length (copy_groups f gs d) = length d
     \<and> (\<forall>x < length d. copy_groups f gs d ! x = (if \<exists>(b, ix) \<in> set gs. x \<in> set ix then f x else d ! x))"
proof (induction gs arbitrary: d)
  case (Cons g gs)
  obtain b ix where g: "g = (b, ix)" by force
  have one: "length (index_copy ix (map f ix) d) = length d"
    "\<forall>x < length d. index_copy ix (map f ix) d ! x = (if x \<in> set ix then f x else d ! x)"
    using index_copy_nth [of ix d f] Cons.prems g by auto
  let ?d = "index_copy ix (map f ix) d"
  have "\<forall>(b, ix) \<in> set gs. distinct ix \<and> (\<forall>i \<in> set ix. i < length ?d)" using Cons.prems one(1) by simp
  from Cons.IH [OF this] have "length (copy_groups f gs ?d) = length d"
    "\<forall>x < length d. copy_groups f gs ?d ! x = (if \<exists>(b, ix) \<in> set gs. x \<in> set ix then f x else ?d ! x)"
    unfolding one(1) by blast+
  moreover have "copy_groups f (g # gs) d = copy_groups f gs ?d" by (simp add: copy_groups_def g)
  ultimately show ?case using one(2) by (simp add: g)
qed (simp add: copy_groups_def)

lemma repack_groups_run:
  fixes bf16 :: "'f \<Rightarrow> 'h"
  assumes ok: "mixed_ok k rows n qweight scales bs storage" and k: "0 < k \<or> bs = []"
  defines "lo \<equiv> \<lambda>x. map (packed_lo k) (expert_codes k n qweight bs x)" and "sc \<equiv> \<lambda>x. transpose_scales bf16 n (scales ! x)"
    and "hi \<equiv> \<lambda>x. map (packed_hi (bs ! x) k) (expert_codes k n qweight bs x)"
  shows "\<forall>(b, ix) \<in> set gs. b \<in> set bs \<and> ix = idxs bs b \<and> fits k storage b \<and> (ph = None \<longrightarrow> b = 2) \<Longrightarrow>
     repack_groups bf16 qweight n scales storage k gs (p2, ph, s) =
       Inr (copy_groups lo gs p2, map_option (copy_groups hi (filter (\<lambda>g. fst g \<noteq> 2) gs)) ph, copy_groups sc gs s)"
proof (induction gs arbitrary: p2 ph s)
  case Nil
  then show ?case by (simp add: copy_groups_def option.map_ident)
next
  case (Cons g gs)
  obtain b ix where g: "g = (b, ix)" by force
  have b: "b \<in> set bs" "ix = idxs bs b" "fits k storage b" "ph = None \<longrightarrow> b = 2" using Cons.prems g by auto
  have "repack_group bf16 qweight n scales storage k (b, ix) (p2, ph, s) =
      Inr (index_copy ix (map lo ix) p2, if b = 2 then ph else map_option (index_copy ix (map hi ix)) ph, index_copy ix (map sc ix) s)"
    using repack_group_run(1) [OF ok k b(1,2), of bf16 p2 ph s] b(3,4) unfolding lo_def sc_def hi_def by simp
  moreover have rest: "\<forall>(b', ix') \<in> set gs. b' \<in> set bs \<and> ix' = idxs bs b' \<and> fits k storage b'
      \<and> ((if b = 2 then ph else map_option (index_copy ix (map hi ix)) ph) = None \<longrightarrow> b' = 2)"
    using Cons.prems by auto
  moreover note Cons.IH [OF rest]
  ultimately show ?case by (simp add: g copy_groups_def option.map_comp comp_def)
qed

text \<open>A group whose high planes do not fit the storage stops the repack.\<close>

lemma repack_groups_fail:
  assumes ok: "mixed_ok k rows n qweight scales bs storage" and k: "0 < k \<or> bs = []"
  shows "\<forall>(b, ix) \<in> set gs. b \<in> set bs \<and> ix = idxs bs b \<Longrightarrow> \<exists>(b, ix) \<in> set gs. \<not> fits k storage b \<Longrightarrow>
     ph \<noteq> None \<Longrightarrow> \<exists>m. repack_groups bf16 qweight n scales storage k gs (p2, ph, s) = Inl (RuntimeError m)"
proof (induction gs arbitrary: p2 ph s)
  case (Cons g gs)
  obtain b ix where g: "g = (b, ix)" by force
  have b: "b \<in> set bs" "ix = idxs bs b" using Cons.prems g by auto
  show ?case
  proof (cases "fits k storage b")
    case False
    then show ?thesis using repack_group_run(2) [OF ok k b Cons.prems(3) False, of bf16 p2 s] by (auto simp: g)
  next
    case True
    then have "\<exists>st'. repack_group bf16 qweight n scales storage k (b, ix) (p2, ph, s) = Inr st' \<and> fst (snd st') \<noteq> None"
      using repack_group_run(1) [OF ok k b, of bf16 p2 ph s] Cons.prems(3) by auto
    then obtain p2' ph' s' where "repack_group bf16 qweight n scales storage k (b, ix) (p2, ph, s) = Inr (p2', ph', s')" "ph' \<noteq> None"
      by force
    then show ?thesis using Cons.IH [of ph' p2' s'] Cons.prems True by (auto simp: g)
  qed
qed simp

end
