(* ===== verification/Lowbit_Thms.thy ===== *)
theory Lowbit_Thms
  imports Lowbit_Props Codec
begin

text \<open>The properties of the b70lb1 format, over the lemmas of \<open>Lowbit_Props\<close>.\<close>

section \<open>Planes\<close>

lemma planes_codec:
  assumes "good_bits bits" "k mod GROUP = 0" "\<forall>r \<in> set codes. length r = k" "in_bits bits codes"
  shows "pack_codes k codes bits = Inr (packed_planes bits k codes)
     \<and> unpack_codes (map (packed_lo k) codes) (snd (packed_planes bits k codes)) bits k = Inr codes"
  using assms unpack_packed [OF assms(1) _ assms(3)] sign_extended_self [OF assms(4)] pack_codes_run [OF assms(1)]
  by (simp add: GROUP_def)

interpretation planes: codec
  "\<lambda>codes. good_bits bits \<and> k mod GROUP = 0 \<and> (\<forall>r \<in> set codes. length r = k) \<and> in_bits bits codes"
  "\<lambda>codes. pack_codes k codes bits" "\<lambda>(plane2, plane_hi). unpack_codes plane2 plane_hi bits k" for k bits
proof unfold_locales
  fix codes assume "good_bits bits \<and> k mod GROUP = 0 \<and> (\<forall>r \<in> set codes. length r = k) \<and> in_bits bits codes"
  then show "\<exists>y. pack_codes k codes bits = Inr y \<and> (case y of (plane2, plane_hi) \<Rightarrow> unpack_codes plane2 plane_hi bits k) = Inr codes"
    using planes_codec [of bits k codes] by (auto simp: packed_planes_def)
qed

lemma planes_strides:
  "k mod GROUP = 0 \<Longrightarrow> r \<in> set (map (packed_lo k) codes) \<Longrightarrow>
     plane2_stride k = Inr (length r) \<and> length r mod 64 = 0 \<and> k div 4 \<le> length r \<and> length r < k div 4 + 64"
  using pad64_bounds [of "k div 4"] by (auto simp: packed_lengths stride_run GROUP_def)

text \<open>C13. For 2, 3 and 4 bits and K a multiple of 128, \<open>pack_codes\<close> raises nothing on codes that fit the
  width, and \<open>unpack_codes\<close> gives back exactly those codes; the rows of the low plane have the stride
  \<open>plane2_stride\<close>, the least multiple of 64 bytes that holds them.\<close>

theorem packed_codes_unpack:
  "good_bits bits \<Longrightarrow> k mod GROUP = 0 \<Longrightarrow> \<forall>r \<in> set codes. length r = k \<Longrightarrow> in_bits bits codes \<Longrightarrow>
     \<exists>plane2 plane_hi. pack_codes k codes bits = Inr (plane2, plane_hi) \<and> unpack_codes plane2 plane_hi bits k = Inr codes
       \<and> (\<forall>r \<in> set plane2. plane2_stride k = Inr (length r) \<and> length r mod 64 = 0 \<and> k div 4 \<le> length r \<and> length r < k div 4 + 64)"
  using planes.decode [of bits k codes] planes_strides [of k _ codes] planes_codec [of bits k codes]
  by (auto simp: packed_planes_def)

theorem packed_codes_unpack_witness:
  "\<exists>plane2 plane_hi. pack_codes 128 [replicate 128 (- 3)] 3 = Inr (plane2, plane_hi)
     \<and> unpack_codes plane2 plane_hi 3 128 = Inr [replicate 128 (- 3)]"
proof -
  have "good_bits 3" "128 mod GROUP = 0" "\<forall>r \<in> set [replicate 128 (- 3 :: int)]. length r = 128" "in_bits 3 [replicate 128 (- 3)]"
    by (simp_all add: good_bits_def GROUP_def in_bits_def)
  from packed_codes_unpack [OF this] show ?thesis by blast
qed

section \<open>The AutoGPTQ bitstream\<close>

text \<open>C14. Repacking an AutoGPTQ matrix keeps its codes: the planes unpack to code \<open>i\<close> of column \<open>col\<close> equal
  to bits \<open>bits * i ..< bits * (i + 1)\<close> of the column's words laid end to end, minus \<open>2 ** (bits - 1)\<close>,
  the three-bit codes that straddle two words included, and the scales are the transposed ones.\<close>

theorem repacked_planes_hold_the_bitstream:
  "good_bits bits \<Longrightarrow> k mod GROUP = 0 \<Longrightarrow> length qweight * 32 = k * bits \<Longrightarrow> scales_shape (k div GROUP) n scales \<Longrightarrow>
     \<exists>plane2 plane_hi. gptq_to_b70lb1 bf16 qweight n scales bits k = Inr (plane2, plane_hi, transpose_scales bf16 n scales)
       \<and> unpack_codes plane2 plane_hi bits k =
           Inr (map (\<lambda>col. map (\<lambda>i. code_stream qweight col div 2 ^ (bits * i) mod 2 ^ bits - 2 ^ (bits - 1)) [0..<k]) [0..<n])"
proof -
  assume b: "good_bits bits" "k mod GROUP = 0" "length qweight * 32 = k * bits" "scales_shape (k div GROUP) n scales"
  have "unpack_codes (map (packed_lo k) (signed_codes bits k n qweight)) (snd (packed_planes bits k (signed_codes bits k n qweight))) bits k
      = Inr (signed_codes bits k n qweight)"
    using planes_codec [OF b(1,2) signed_codes_shape(2) signed_codes_in_bits [OF b(1)]] by blast
  then show ?thesis
    using gptq_run [OF b(1) _ b(3), of n scales bf16] b by (simp add: GROUP_def signed_codes_def stream_code_def)
qed

text \<open>Twelve words of one column: 128 three-bit codes.\<close>

definition sample_qweight :: "int list list" where
  "sample_qweight = replicate 12 [0x12345678]"

theorem repacked_planes_hold_the_bitstream_witness:
  "\<exists>plane2 plane_hi. gptq_to_b70lb1 (\<lambda>s. s) sample_qweight 1 [[7::int]] 3 128 = Inr (plane2, plane_hi, [[7]])
     \<and> unpack_codes plane2 plane_hi 3 128 =
         Inr [map (\<lambda>i. code_stream sample_qweight 0 div 2 ^ (3 * i) mod 8 - 4) [0..<128]]"
proof -
  have "good_bits 3" "128 mod GROUP = 0" "length sample_qweight * 32 = 128 * 3" "scales_shape (128 div GROUP) 1 [[7::int]]"
    by (simp_all add: good_bits_def GROUP_def sample_qweight_def scales_shape_def)
  moreover have "[0..<1] = [0]" by simp
  ultimately show ?thesis using repacked_planes_hold_the_bitstream [of 3 128 sample_qweight 1 "[[7::int]]" "\<lambda>s. s"]
    by (simp add: transpose_scales_def del: upt_Suc upt_rec_numeral One_nat_def)
qed

section \<open>Routed experts\<close>

text \<open>\<open>gptq_experts_to_b70lb1\<close> is the per-expert repack, whatever the chunk: for well-shaped experts of positive K and
  any nonzero chunk it raises nothing, and what it returns for each expert is what \<open>gptq_to_b70lb1\<close>
  returns for that expert alone.\<close>

lemma expert_repack_is_per_expert:
  "experts_ok bits k rows n qweight scales \<Longrightarrow> 0 < k \<Longrightarrow> chunk \<noteq> Some 0 \<Longrightarrow>
     \<exists>plane2 plane_hi scale. gptq_experts_to_b70lb1 bf16 qweight rows n scales bits k chunk = Inr (plane2, plane_hi, scale)
       \<and> length plane2 = length qweight \<and> length scale = length qweight
       \<and> (\<forall>x. x < length qweight \<longrightarrow>
            gptq_to_b70lb1 bf16 (qweight ! x) n (scales ! x) bits k = Inr (plane2 ! x, map_option (\<lambda>h. h ! x) plane_hi, scale ! x))"
proof -
  assume ok: "experts_ok bits k rows n qweight scales" and "0 < k" and "chunk \<noteq> Some 0"
  note run = experts_run [OF this, of bf16]
  have len: "length scales = length qweight" using ok by (simp add: experts_ok_def expert_scales_shape_def)
  have "gptq_to_b70lb1 bf16 (qweight ! x) n (scales ! x) bits k =
      Inr (map (packed_lo k) (signed_codes bits k n (qweight ! x)),
           if bits = 2 then None else Some (map (packed_hi bits k) (signed_codes bits k n (qweight ! x))), transpose_scales bf16 n (scales ! x))"
    if x: "x < length qweight" for x
    using gptq_run [of bits k "qweight ! x" n "scales ! x" bf16] ok x len
    by (simp add: experts_ok_def expert_scales_shape_def list_all_iff GROUP_def packed_planes_def)
  then show ?thesis using run len by simp
qed

lemma expert_repack_is_per_expert_witness:
  "\<exists>plane2 plane_hi scale. gptq_experts_to_b70lb1 (\<lambda>s. s) [sample_qweight, sample_qweight] 12 1 [[[7::int]], [[8]]] 3 128 (Some 1)
       = Inr (plane2, plane_hi, scale)
     \<and> gptq_to_b70lb1 (\<lambda>s. s) sample_qweight 1 [[8::int]] 3 128 = Inr (plane2 ! 1, map_option (\<lambda>h. h ! 1) plane_hi, scale ! 1)"
proof -
  have "experts_ok 3 128 12 1 [sample_qweight, sample_qweight] [[[7::int]], [[8]]]"
    by (simp add: experts_ok_def good_bits_def GROUP_def sample_qweight_def expert_scales_shape_def scales_shape_def)
  from expert_repack_is_per_expert [OF this, of "Some 1" "\<lambda>s. s"] obtain plane2 plane_hi scale where
    "gptq_experts_to_b70lb1 (\<lambda>s. s) [sample_qweight, sample_qweight] 12 1 [[[7::int]], [[8]]] 3 128 (Some 1) = Inr (plane2, plane_hi, scale)"
    "\<forall>x. x < length [sample_qweight, sample_qweight] \<longrightarrow> gptq_to_b70lb1 (\<lambda>s. s) ([sample_qweight, sample_qweight] ! x) 1
       ([[[7::int]], [[8]]] ! x) 3 128 = Inr (plane2 ! x, map_option (\<lambda>h. h ! x) plane_hi, scale ! x)"
    by auto
  then show ?thesis by (intro exI [of _ plane2] exI [of _ plane_hi] exI [of _ scale]) (auto dest: spec [of _ 1])
qed

text \<open>Experts of one matrix with bit widths of their own.\<close>

lemma not_fits_iff:
  assumes "k mod 128 = 0" "good_bits storage" "good_bits b" "b \<le> storage"
  shows "\<not> fits k storage b \<longleftrightarrow> b = 3 \<and> storage = 4 \<and> 384 \<le> k"
proof -
  obtain m where m: "k = 128 * m" using assms(1) by auto
  have "pad64 (16 * m) = pad64 (32 * m) \<longleftrightarrow> m < 3"
  proof (cases "m < 4")
    case True
    then have "m = 0 \<or> m = 1 \<or> m = 2 \<or> m = 3" by arith
    then show ?thesis by (auto simp: pad64_def)
  next
    case False
    then have "pad64 (16 * m) < 16 * m + 64" "16 * m + 64 \<le> 32 * m" "32 * m \<le> pad64 (32 * m)"
      using pad64_bounds [of "16 * m"] pad64_bounds [of "32 * m"] by simp_all
    then show ?thesis using False by simp
  qed
  moreover have "k div 8 = 16 * m" "k div 4 = 32 * m" using m by simp_all
  ultimately show ?thesis using assms m by (auto simp: fits_def stride_run good_bits_def hi_shifts_def)
qed

text \<open>The outcome for one expert: its own repack, in high planes of the storage's stride.\<close>

definition mixed_expert :: "('f \<Rightarrow> 'h) \<Rightarrow> int list list list \<Rightarrow> nat \<Rightarrow> 'f list list list \<Rightarrow> nat list \<Rightarrow> nat \<Rightarrow> nat \<Rightarrow>
    int list list list \<times> int list list list option \<times> 'h list list list \<Rightarrow> nat \<Rightarrow> bool" where
  "mixed_expert bf16 qweight n scales bs k storage = (\<lambda>(plane2, plane_hi, scale) x.
     \<exists>h. gptq_to_b70lb1 bf16 (take (k * bs ! x div 32) (qweight ! x)) n (scales ! x) (bs ! x) k = Inr (plane2 ! x, h, scale ! x)
       \<and> (case plane_hi of None \<Rightarrow> h = None
          | Some hi \<Rightarrow> hi ! x = (case h of None \<Rightarrow> replicate n (replicate (projr (plane_hi_stride k storage)) 0) | Some rows \<Rightarrow> rows)))"

lemma groups_of:
  assumes "\<forall>b \<in> set bs. good_bits b \<and> b \<le> storage"
  obtains g where "group_by_bits storage 0 bs [] = Inr g"
    "\<forall>(b, ix) \<in> set g. b \<in> set bs \<and> ix = idxs bs b" "\<forall>b \<in> set bs. (b, idxs bs b) \<in> set g"
proof -
  obtain g where g: "group_by_bits storage 0 bs [] = Inr g" "od_ok g" "set (od_keys g) = set bs" "\<And>b. ix_of g b = idxs bs b"
    using group_by_bits_run [OF assms, of "[]" 0] map_idI [of _ "(+) (0::nat)"] by (auto simp: od_ok_def ix_of_def)
  have "ix = idxs bs b" "b \<in> set bs" if "(b, ix) \<in> set g" for b ix
  proof -
    have "od_get g b = Some ix" using that g(2) by (simp add: od_ok_get_iff)
    then show "ix = idxs bs b" "b \<in> set bs" using g(3) g(4) [of b] od_get_key [of g b ix] by (auto simp: ix_of_def)
  qed
  moreover have "(b, idxs bs b) \<in> set g" if "b \<in> set bs" for b
  proof -
    have "od_get g b \<noteq> None" using that g(3) by (simp add: od_get_None)
    then obtain ix where "od_get g b = Some ix" by blast
    then show ?thesis using g(4) [of b] od_get_Some_in by (force simp: ix_of_def)
  qed
  ultimately show ?thesis using g(1) by (intro that) auto
qed

lemma mixed_run:
  assumes ok: "mixed_ok k rows n qweight scales bs storage" and k: "0 < k \<or> bs = []" and fit: "\<forall>b \<in> set bs. fits k storage b"
  shows "\<exists>out. gptq_experts_mixed_to_b70lb1 bf16 qweight rows n scales bs k storage = Inr out
     \<and> (\<forall>x < length qweight. mixed_expert bf16 qweight n scales bs k storage out x)"
proof -
  let ?e = "length qweight"
  let ?lo = "\<lambda>x. map (packed_lo k) (expert_codes k n qweight bs x)" and ?sc = "\<lambda>x. transpose_scales bf16 n (scales ! x)"
  let ?hi = "\<lambda>x. map (packed_hi (bs ! x) k) (expert_codes k n qweight bs x)"
  have m: "k mod 128 = 0" "good_bits storage" "length bs = ?e" "\<forall>b \<in> set bs. good_bits b \<and> b \<le> storage" "rows = k * storage div 32"
    "expert_scales_shape ?e (k div GROUP) n scales"
    using ok by (auto simp: mixed_ok_def GROUP_def)
  obtain g where g: "group_by_bits storage 0 bs [] = Inr g"
    "\<forall>(b, ix) \<in> set g. b \<in> set bs \<and> ix = idxs bs b" "\<forall>b \<in> set bs. (b, idxs bs b) \<in> set g"
    using groups_of [OF m(4)] by blast
  obtain shi where shi: "plane_hi_stride k storage = Inr shi" using stride_run(2) [OF m(1,2)] by blast
  let ?p0 = "replicate ?e (replicate n (replicate (pad64 (k div 4)) (0::int)))" and ?h0 = "replicate ?e (replicate n (replicate shi (0::int)))"
  let ?ph0 = "if storage = 2 then None else Some ?h0"
  let ?gh = "filter (\<lambda>g. fst g \<noteq> 2) g"
  have two: "storage = 2 \<Longrightarrow> b \<in> set bs \<Longrightarrow> b = 2" for b using m(4) by (force simp: good_bits_def)
  have "\<forall>(b, ix) \<in> set g. b \<in> set bs \<and> ix = idxs bs b \<and> fits k storage b \<and> (?ph0 = None \<longrightarrow> b = 2)"
    using g(2) fit two by auto
  note run = repack_groups_run [OF ok k this, of bf16 ?p0 "replicate ?e []"]
  have idx: "\<forall>(b, ix) \<in> set g'. distinct ix \<and> (\<forall>i \<in> set ix. i < ?e)" if "set g' \<subseteq> set g" for g'
  proof
    fix p assume "p \<in> set g'"
    then have "snd p = idxs bs (fst p)" using that g(2) by (auto simp: case_prod_beta)
    then show "case p of (b, ix) \<Rightarrow> distinct ix \<and> (\<forall>i \<in> set ix. i < ?e)" using m(3) by (auto simp: case_prod_beta idxs_props)
  qed
  have cover: "\<exists>(b, ix) \<in> set g. x \<in> set ix" if "x < ?e" for x
    using that g(3) m(3) by (intro bexI [of _ "(bs ! x, idxs bs (bs ! x))"]) (auto simp: idxs_props)
  have coverh: "(\<exists>(b, ix) \<in> set ?gh. x \<in> set ix) \<longleftrightarrow> bs ! x \<noteq> 2" if x: "x < ?e" for x
  proof
    show "bs ! x \<noteq> 2 \<Longrightarrow> \<exists>(b, ix) \<in> set ?gh. x \<in> set ix"
      using x g(3) m(3) by (intro bexI [of _ "(bs ! x, idxs bs (bs ! x))"]) (auto simp: idxs_props)
    show "\<exists>(b, ix) \<in> set ?gh. x \<in> set ix \<Longrightarrow> bs ! x \<noteq> 2" using g(2) by (auto simp: idxs_props)
  qed
  have cp: "copy_groups f g' d ! x = (if \<exists>(b, ix) \<in> set g'. x \<in> set ix then f x else d ! x)"
    if "set g' \<subseteq> set g" "length d = ?e" "x < ?e" for f :: "nat \<Rightarrow> 'z" and g' d x
    using copy_groups_nth [of g' d f] idx [OF that(1)] that(2,3) by simp
  have L1: "copy_groups ?lo g ?p0 ! x = ?lo x" if "x < ?e" for x
    using cp [of g ?p0 x ?lo] cover [OF that] that by simp
  have L2: "copy_groups ?sc g (replicate ?e []) ! x = ?sc x" if "x < ?e" for x
    using copy_groups_nth [of g "replicate ?e []" ?sc] idx [of g] cover [OF that] that by simp
  have L3: "copy_groups ?hi ?gh ?h0 ! x = (if bs ! x \<noteq> 2 then ?hi x else replicate n (replicate shi 0))" if "x < ?e" for x
    using cp [of ?gh ?h0 x ?hi] coverh [OF that] that by simp
  have one: "gptq_to_b70lb1 bf16 (take (k * bs ! x div 32) (qweight ! x)) n (scales ! x) (bs ! x) k
      = Inr (?lo x, if bs ! x = 2 then None else Some (?hi x), ?sc x)" if x: "x < ?e" for x
  proof -
    have b: "bs ! x \<in> set bs" using x m(3) by simp
    have "32 dvd k" using m(1) by auto
    then have "length (take (k * bs ! x div 32) (qweight ! x)) * 32 = k * bs ! x"
    proof -
      have "k * bs ! x \<le> k * storage" using m(4) b by simp
      then have "k * bs ! x div 32 \<le> length (qweight ! x)" using ok x by (simp add: mixed_ok_def div_le_mono)
      then show ?thesis using \<open>32 dvd k\<close> by (simp add: min_def)
    qed
    then show ?thesis using gptq_run [of "bs ! x" k _ n "scales ! x" bf16] b m x
      by (simp add: expert_codes_def packed_planes_def expert_scales_shape_def list_all_iff GROUP_def)
  qed
  have "gptq_experts_mixed_to_b70lb1 bf16 qweight rows n scales bs k storage
      = Inr (copy_groups ?lo g ?p0, map_option (copy_groups ?hi ?gh) ?ph0, copy_groups ?sc g (replicate ?e []))"
    using m run by (simp add: gptq_experts_mixed_to_b70lb1_def Let_def stride_run(1) shi g(1) GROUP_def)
  moreover have "mixed_expert bf16 qweight n scales bs k storage
      (copy_groups ?lo g ?p0, map_option (copy_groups ?hi ?gh) ?ph0, copy_groups ?sc g (replicate ?e [])) x" if x: "x < ?e" for x
    using one [OF x] L1 [OF x] L2 [OF x] L3 [OF x] two [of "bs ! x"] m(3) shi x
    by (cases "storage = 2"; cases "bs ! x = 2") (simp_all add: mixed_expert_def)
  ultimately show ?thesis by blast
qed

lemma mixed_fails:
  assumes ok: "mixed_ok k rows n qweight scales bs storage" and k: "0 < k \<or> bs = []" and fit: "\<exists>b \<in> set bs. \<not> fits k storage b"
  shows "\<exists>m. gptq_experts_mixed_to_b70lb1 bf16 qweight rows n scales bs k storage = Inl (RuntimeError m)"
proof -
  have m: "k mod 128 = 0" "good_bits storage" "\<forall>b \<in> set bs. good_bits b \<and> b \<le> storage"
    using ok by (auto simp: mixed_ok_def GROUP_def)
  obtain g where g: "group_by_bits storage 0 bs [] = Inr g"
    "\<forall>(b, ix) \<in> set g. b \<in> set bs \<and> ix = idxs bs b" "\<forall>b \<in> set bs. (b, idxs bs b) \<in> set g"
    using groups_of [OF m(3)] by blast
  have "storage \<noteq> 2" using fit m by (auto simp: fits_def good_bits_def)
  obtain shi where shi: "plane_hi_stride k storage = Inr shi" using stride_run(2) [OF m(1,2)] by blast
  have "\<exists>(b, ix) \<in> set g. \<not> fits k storage b" using fit g(3) by blast
  from repack_groups_fail [OF ok k g(2) this, of "Some (replicate (length qweight) (replicate n (replicate shi 0)))" bf16
      "replicate (length qweight) (replicate n (replicate (pad64 (k div 4)) 0))" "replicate (length qweight) []"]
  show ?thesis using ok \<open>storage \<noteq> 2\<close> stride_run(1) [OF m(1)] shi
    by (auto simp: gptq_experts_mixed_to_b70lb1_def Let_def g(1) mixed_ok_def)
qed

lemma mixed_empty:
  assumes ok: "mixed_ok 0 rows n qweight scales bs storage" and e: "bs \<noteq> []"
  shows "\<exists>m. gptq_experts_mixed_to_b70lb1 bf16 qweight rows n scales bs 0 storage = Inl (RuntimeError m)"
proof -
  have m: "good_bits storage" "\<forall>b \<in> set bs. good_bits b \<and> b \<le> storage" using ok by (auto simp: mixed_ok_def)
  obtain g where g: "group_by_bits storage 0 bs [] = Inr g"
    "\<forall>(b, ix) \<in> set g. b \<in> set bs \<and> ix = idxs bs b" "\<forall>b \<in> set bs. (b, idxs bs b) \<in> set g"
    using groups_of [OF m(2)] by blast
  obtain b ix gs where gs: "g = (b, ix) # gs" using g(3) e by (cases g) (auto dest: hd_in_set)
  then have b: "b \<in> set bs" "ix = idxs bs b" using g(2) by auto
  then have "ix \<noteq> []" by (auto simp: idxs_def in_set_conv_nth filter_empty_conv)
  then obtain m where "gptq_experts_to_b70lb1 bf16 (map (\<lambda>i. take (0 * b div 32) (qweight ! i)) ix) (0 * b div 32) n
      (map (\<lambda>i. scales ! i) ix) b 0 None = Inl (RuntimeError m)"
    using experts_empty [OF group_experts_ok [OF ok b(1)], of bf16] by (auto simp: b(2))
  then have "repack_group bf16 qweight n scales storage 0 (b, ix) st = Inl (RuntimeError m)" for st
    by (cases st) (simp add: repack_group_def Let_def)
  then show ?thesis using ok stride_run [of 0] m(1)
    by (auto simp: gptq_experts_mixed_to_b70lb1_def Let_def g(1) mixed_ok_def gs)
qed


text \<open>C15. \<open>gptq_experts_mixed_to_b70lb1\<close> on well-shaped experts whose widths fit the storage: it raises
  \<open>RuntimeError\<close> exactly when a three-bit expert meets four-bit storage with K at least 384, where the
  strides of the two high planes differ, or K is 0 and there is an expert, and otherwise each expert gets its own repack from its leading
  rows, with a zero high plane where a two-bit expert has none.\<close>

theorem mixed_repack_is_per_expert:
  "mixed_ok k rows n qweight scales bs storage \<Longrightarrow>
     if (storage = 4 \<and> 3 \<in> set bs \<and> 384 \<le> k) \<or> (k = 0 \<and> bs \<noteq> [])
     then \<exists>m. gptq_experts_mixed_to_b70lb1 bf16 qweight rows n scales bs k storage = Inl (RuntimeError m)
     else \<exists>out. gptq_experts_mixed_to_b70lb1 bf16 qweight rows n scales bs k storage = Inr out
       \<and> (\<forall>x < length qweight. mixed_expert bf16 qweight n scales bs k storage out x)"
proof -
  assume ok: "mixed_ok k rows n qweight scales bs storage"
  then have "(\<exists>b \<in> set bs. \<not> fits k storage b) \<longleftrightarrow> storage = 4 \<and> 3 \<in> set bs \<and> 384 \<le> k"
    using not_fits_iff [of k storage] by (auto simp: mixed_ok_def GROUP_def)
  then show ?thesis using mixed_run [OF ok, of bf16] mixed_fails [OF ok, of bf16] mixed_empty [of rows n qweight scales bs storage bf16] ok
    by (cases "k = 0 \<and> bs \<noteq> []"; cases "\<exists>b \<in> set bs. \<not> fits k storage b") auto
qed

theorem mixed_repack_is_per_expert_witness:
  "(\<exists>m. gptq_experts_mixed_to_b70lb1 (\<lambda>s. s) [replicate 48 [5]] 48 1 [[[7::int], [7], [7]]] [3] 384 4 = Inl (RuntimeError m))
     \<and> (\<exists>out. gptq_experts_mixed_to_b70lb1 (\<lambda>s. s) [sample_qweight, sample_qweight] 12 1 [[[7::int]], [[8]]] [2, 3] 128 3 = Inr out
          \<and> mixed_expert (\<lambda>s. s) [sample_qweight, sample_qweight] 1 [[[7::int]], [[8]]] [2, 3] 128 3 out 0)"
proof
  have "mixed_ok 384 48 1 [replicate 48 [5]] [[[7::int], [7], [7]]] [3] 4"
    by (simp add: mixed_ok_def good_bits_def GROUP_def expert_scales_shape_def scales_shape_def)
  from mixed_repack_is_per_expert [OF this, of "\<lambda>s. s"]
  show "\<exists>m. gptq_experts_mixed_to_b70lb1 (\<lambda>s. s) [replicate 48 [5]] 48 1 [[[7::int], [7], [7]]] [3] 384 4 = Inl (RuntimeError m)"
    by simp
  have "mixed_ok 128 12 1 [sample_qweight, sample_qweight] [[[7::int]], [[8]]] [2, 3] 3"
    by (simp add: mixed_ok_def good_bits_def GROUP_def expert_scales_shape_def scales_shape_def sample_qweight_def)
  from mixed_repack_is_per_expert [OF this, of "\<lambda>s. s"]
  show "\<exists>out. gptq_experts_mixed_to_b70lb1 (\<lambda>s. s) [sample_qweight, sample_qweight] 12 1 [[[7::int]], [[8]]] [2, 3] 128 3 = Inr out
     \<and> mixed_expert (\<lambda>s. s) [sample_qweight, sample_qweight] 1 [[[7::int]], [[8]]] [2, 3] 128 3 out 0"
    by auto
qed

section \<open>Quantise, pack, dequantise\<close>

text \<open>Documented float behaviour: \<open>clamp\<close> of a number lies between its bounds, and no quotient of a group
  of finite weights by its scale is NaN. \<open>num x\<close> says that \<open>x\<close> is not NaN.\<close>

definition clamp_ok :: "'f float_ops \<Rightarrow> ('f \<Rightarrow> bool) \<Rightarrow> bool" where
  "clamp_ok F num \<longleftrightarrow> (\<forall>x a b. num x \<and> a \<le> b \<longrightarrow>
     a \<le> fl_to_int F (fl_clamp F x (fl_of_int F a) (fl_of_int F b)) \<and> fl_to_int F (fl_clamp F x (fl_of_int F a) (fl_of_int F b)) \<le> b)"

definition groups_of_row :: "nat \<Rightarrow> 'f list \<Rightarrow> 'f list list" where
  "groups_of_row k row = view_rows (k div GROUP) GROUP row"

definition quotients_ok :: "'f float_ops \<Rightarrow> ('f \<Rightarrow> bool) \<Rightarrow> int \<Rightarrow> nat \<Rightarrow> 'f list list \<Rightarrow> bool" where
  "quotients_ok F num maxq k weight \<longleftrightarrow> (\<forall>row \<in> set weight. \<forall>g \<in> set (groups_of_row k row). \<forall>x \<in> set g.
     num (fl_round F (fl_div F x (group_scale F maxq g))))"

lemma group_codes_range:
  assumes c: "clamp_ok F num" and q: "\<forall>x \<in> set g. num (fl_round F (fl_div F x (group_scale F (2 ^ (b - 1)) g)))" and b: "good_bits b"
  shows "\<forall>x \<in> set (group_codes F (2 ^ (b - 1)) g). - (2 ^ (b - 1)) \<le> x \<and> x < 2 ^ (b - 1)"
proof
  fix y assume "y \<in> set (group_codes F (2 ^ (b - 1)) g)"
  then obtain x where x: "x \<in> set g" "y = i8 (fl_to_int F (fl_clamp F (fl_round F (fl_div F x (group_scale F (2 ^ (b - 1)) g)))
     (fl_of_int F (- (2 ^ (b - 1)))) (fl_of_int F (2 ^ (b - 1) - 1))))" (is "_ = i8 ?v") by (auto simp: group_codes_def)
  have "- (2 ^ (b - 1)) \<le> (2 ^ (b - 1) - 1 :: int)" using zero_less_power [of "2 :: int" "b - 1"] by linarith
  then have v: "- (2 ^ (b - 1)) \<le> ?v" "?v \<le> 2 ^ (b - 1) - 1" using c q x(1) unfolding clamp_ok_def by blast+
  moreover have "i8 ?v = ?v" unfolding i8_def using v pow_bits(2) [OF b] by (intro signed_take_bit_int_eq_self) simp_all
  ultimately show "- (2 ^ (b - 1)) \<le> y \<and> y < 2 ^ (b - 1)" using x(2) by linarith
qed

definition dequant_row :: "'f float_ops \<Rightarrow> ('f \<Rightarrow> 'f) \<Rightarrow> int \<Rightarrow> nat \<Rightarrow> 'f list \<Rightarrow> 'f list" where
  "dequant_row F via_bf16 maxq k row = concat (map (\<lambda>g. map (\<lambda>c. fl_mul F (fl_of_int F c) (via_bf16 (group_scale F maxq g)))
     (group_codes F maxq g)) (groups_of_row k row))"

lemma quantised_shape:
  fixes F :: "'f float_ops" and m :: int
  assumes k: "k mod GROUP = 0" and row: "length row = k"
  defines "C \<equiv> concat (map (group_codes F m) (groups_of_row k row))"
  shows "length C = k" "view_rows (k div GROUP) GROUP C = map (group_codes F m) (groups_of_row k row)"
proof -
  have kk: "k = k div GROUP * GROUP" using k by (metis add_0_right div_mult_mod_eq)
  then have each: "\<forall>g \<in> set (map (group_codes F m) (groups_of_row k row)). length g = GROUP"
    using view_rows_elems [of row "k div GROUP" GROUP] row by (auto simp: groups_of_row_def group_codes_def)
  show "length C = k" using length_concat_same [OF each] kk by (simp add: C_def groups_of_row_def)
  show "view_rows (k div GROUP) GROUP C = map (group_codes F m) (groups_of_row k row)"
    unfolding C_def by (rule view_rows_concat) (use each in \<open>simp_all add: groups_of_row_def\<close>)
qed

text \<open>Quantising, packing, unpacking and dequantising a matrix of finite weights raises nothing and gives
  every weight as its rounded code times its group's scale rounded to bf16: the packed planes lose
  nothing.\<close>

lemma dequant_of_quantized:
  "good_bits bits \<Longrightarrow> k mod GROUP = 0 \<Longrightarrow> \<forall>row \<in> set weight. length row = k \<Longrightarrow> clamp_ok F num \<Longrightarrow>
     quotients_ok F num (2 ^ (bits - 1)) k weight \<Longrightarrow>
     \<exists>plane2 plane_hi scale. quantize_and_pack F bf16 k weight bits = Inr (plane2, plane_hi, scale)
       \<and> dequant F to_f32 plane2 plane_hi scale bits k = Inr (map (dequant_row F (\<lambda>s. to_f32 (bf16 s)) (2 ^ (bits - 1)) k) weight)"
proof -
  assume b: "good_bits bits" "k mod GROUP = 0" and w: "\<forall>row \<in> set weight. length row = k"
    and c: "clamp_ok F num" "quotients_ok F num (2 ^ (bits - 1)) k weight"
  let ?m = "2 ^ (bits - 1) :: int"
  let ?C = "\<lambda>row. concat (map (group_codes F ?m) (groups_of_row k row))" and ?S = "\<lambda>row. map (\<lambda>g. bf16 (group_scale F ?m g)) (groups_of_row k row)"
  have len: "\<forall>r \<in> set (map ?C weight). length r = k" using quantised_shape(1) [OF b(2)] w by auto
  have "in_bits bits (map ?C weight)"
    using group_codes_range [OF c(1) _ b(1)] c(2) by (fastforce simp: in_bits_def quotients_ok_def)
  note packed = planes_codec [OF b len this]
  have q: "quantize_and_pack F bf16 k weight bits = Inr (map (packed_lo k) (map ?C weight), snd (packed_planes bits k (map ?C weight)), map ?S weight)"
    using b packed by (auto simp: quantize_and_pack_def quantize_rtn_def Let_def good_bits_def groups_of_row_def comp_def packed_planes_def)
  have "reshape (length (map ?C weight)) (k div GROUP) (concat (map ?S weight)) = Inr (map ?S weight)"
    by (rule reshape_concat) (auto simp: groups_of_row_def)
  moreover have "map2 (\<lambda>row ss. concat (map2 (\<lambda>g s. map (\<lambda>c. fl_mul F (fl_of_int F c) (to_f32 s)) g)
      (view_rows (k div GROUP) GROUP row) ss)) (map ?C weight) (map ?S weight)
      = map (dequant_row F (\<lambda>s. to_f32 (bf16 s)) ?m k) weight"
    using w by (simp add: zip_map_map zip_same_conv_map dequant_row_def quantised_shape(2) [OF b(2), simplified] comp_def)
  ultimately show ?thesis using q packed by (simp add: dequant_def)
qed

text \<open>Integers in place of floats, for a concrete run.\<close>

definition int_floats :: "int float_ops" where
  "int_floats = \<lparr>fl_abs = abs, fl_max = max, fl_tiny = 1, fl_of_int = (\<lambda>x. x), fl_div = (div), fl_mul = (*),
     fl_round = (\<lambda>x. x), fl_clamp = (\<lambda>x a b. max a (min x b)), fl_to_int = (\<lambda>x. x)\<rparr>"

lemma dequant_of_quantized_witness:
  "\<exists>plane2 plane_hi scale. quantize_and_pack int_floats (\<lambda>s. s) 128 [[0..127]] 4 = Inr (plane2, plane_hi, scale)
     \<and> dequant int_floats (\<lambda>s. s) plane2 plane_hi scale 4 128 = Inr [dequant_row int_floats (\<lambda>s. s) 8 128 [0..127]]"
proof -
  have "good_bits 4" "128 mod GROUP = 0" "\<forall>row \<in> set [[0..127 :: int]]. length row = 128" "clamp_ok int_floats (\<lambda>_. True)"
    "quotients_ok int_floats (\<lambda>_. True) (2 ^ (4 - 1)) 128 [[0..127]]"
    by (auto simp: good_bits_def GROUP_def clamp_ok_def int_floats_def quotients_ok_def)
  from dequant_of_quantized [OF this, of "\<lambda>s. s" "\<lambda>s. s"] show ?thesis by simp
qed

end
