(* ===== verification/Qsa_Ref.thy ===== *)
theory Qsa_Ref
  imports Tensor
begin

unbundle bit_operations_syntax

text \<open>
  The pure routines of the QSA reference, \<open>vllm/flashnext/flashnext_ref/qsa.py\<close> and the functions of
  \<open>qsa_layer.py\<close>: geometry, rotary tables, int8 group quantisation, indexer scores, both top-k
  selections and attention. numpy's scalar float operations are the fields of \<open>np\<close>: \<open>'f\<close> is
  float32, \<open>'d\<close> float64. A vector is a list. A product is opaque in the whole operands: the entry
  \<open>i, j\<close> of \<open>a @ b.T\<close> is \<open>f_matmul a b i j\<close>, and \<open>f_matvec a x i\<close>, \<open>f_vecmat x a j\<close> are the entries of
  \<open>a @ x\<close> and \<open>x @ a\<close>, since a batched product need not round row by row as a single one does.
\<close>

type_synonym byte_list = "8 word list"

record ('f, 'd) np =
  to_f :: "'d \<Rightarrow> 'f"
  to_d :: "'f \<Rightarrow> 'd"
  via_f16 :: "'f \<Rightarrow> 'f"
  f16_bytes :: "'f \<Rightarrow> byte_list"
  f16_of :: "byte_list \<Rightarrow> 'f"
  f32_bytes :: "'f \<Rightarrow> byte_list"
  f32_of :: "byte_list \<Rightarrow> 'f"
  f_bits :: "'f \<Rightarrow> 32 word"
  f_place :: "'f \<Rightarrow> int"
  f_int :: "int \<Rightarrow> 'f"
  f_to_int :: "'f \<Rightarrow> int"
  f_lt :: "'f \<Rightarrow> 'f \<Rightarrow> bool"
  f_neg :: "'f \<Rightarrow> 'f"
  f_add :: "'f \<Rightarrow> 'f \<Rightarrow> 'f"
  f_sub :: "'f \<Rightarrow> 'f \<Rightarrow> 'f"
  f_mul :: "'f \<Rightarrow> 'f \<Rightarrow> 'f"
  f_div :: "'f \<Rightarrow> 'f \<Rightarrow> 'f"
  f_max :: "'f \<Rightarrow> 'f \<Rightarrow> 'f"
  f_abs :: "'f \<Rightarrow> 'f"
  f_sign :: "'f \<Rightarrow> 'f"
  f_rint :: "'f \<Rightarrow> 'f"
  f_clip :: "'f \<Rightarrow> 'f \<Rightarrow> 'f \<Rightarrow> 'f"
  f_exp :: "'f \<Rightarrow> 'f"
  f_sqrt :: "'f \<Rightarrow> 'f"
  f_matmul :: "'f list list \<Rightarrow> 'f list list \<Rightarrow> nat \<Rightarrow> nat \<Rightarrow> 'f"
  f_matvec :: "'f list list \<Rightarrow> 'f list \<Rightarrow> nat \<Rightarrow> 'f"
  f_vecmat :: "'f list \<Rightarrow> 'f list list \<Rightarrow> nat \<Rightarrow> 'f"
  f_sum :: "'f list \<Rightarrow> 'f"
  f_mean :: "'f list \<Rightarrow> 'f"
  d_int :: "int \<Rightarrow> 'd"
  d_add :: "'d \<Rightarrow> 'd \<Rightarrow> 'd"
  d_mul :: "'d \<Rightarrow> 'd \<Rightarrow> 'd"
  d_div :: "'d \<Rightarrow> 'd \<Rightarrow> 'd"
  d_pow :: "'d \<Rightarrow> 'd \<Rightarrow> 'd"
  d_sqrt :: "'d \<Rightarrow> 'd"
  d_cos :: "'d \<Rightarrow> 'd"
  d_sin :: "'d \<Rightarrow> 'd"
  d_sum :: "'d list \<Rightarrow> 'd"

section \<open>Geometry\<close>

record 'd qsa_geom =
  gm_n_head :: nat
  gm_n_kv :: nat
  gm_head_dim :: nat
  gm_n_rot :: nat
  gm_idx_n_head :: nat
  gm_idx_dim :: nat
  gm_idx_block :: nat
  gm_idx_top_k :: nat
  gm_rope_base :: 'd
  gm_eps :: 'd
  gm_page_size :: nat
  gm_hidden :: nat

definition flashnext_geom :: "'d \<Rightarrow> 'd \<Rightarrow> 'd qsa_geom" where
  "flashnext_geom base eps = \<lparr>gm_n_head = 24, gm_n_kv = 2, gm_head_dim = 256, gm_n_rot = 64, gm_idx_n_head = 4, gm_idx_dim = 128,
     gm_idx_block = 4, gm_idx_top_k = 2048, gm_rope_base = base, gm_eps = eps, gm_page_size = 4, gm_hidden = 2560\<rparr>"

definition KV_Q8_GROUP :: nat where "KV_Q8_GROUP = 64"

definition selection_width :: "int \<Rightarrow> int \<Rightarrow> int \<Rightarrow> int res" where
  "selection_width n_kv top_k block = (if n_kv < 0 then Inl (ValueError ''n_kv < 0'') else Inr (min n_kv (top_k + block - 1)))"

definition width_cap :: "'d qsa_geom \<Rightarrow> int" where
  "width_cap g = int (gm_idx_top_k g) + int (gm_idx_block g) - 1"

definition width_at :: "'d qsa_geom \<Rightarrow> int \<Rightarrow> int res" where
  "width_at g n_kv = selection_width n_kv (int (gm_idx_top_k g)) (int (gm_idx_block g))"

definition kv_bytes_per_cell :: "'d qsa_geom \<Rightarrow> nat" where
  "kv_bytes_per_cell g =
     (let groups = gm_head_dim g div KV_Q8_GROUP; codes = gm_n_kv g * gm_head_dim g * 2; scales = gm_n_kv g * groups * 2 * 2
      in codes + scales)"

definition pooled_bytes_of :: "'d qsa_geom \<Rightarrow> nat \<Rightarrow> nat" where
  "pooled_bytes_of g n_kv = (n_kv div gm_idx_block g + (if n_kv \<noteq> 0 then 1 else 0)) * gm_idx_dim g * 4"

definition fixed_indexer_bytes :: "'d qsa_geom \<Rightarrow> nat" where
  "fixed_indexer_bytes g = (gm_idx_block g - 1) * gm_idx_dim g * 4 + gm_idx_dim g * 4 + 4"

definition step_from_pos :: "int \<Rightarrow> 'd qsa_geom \<Rightarrow> int list res" where
  "step_from_pos pos g =
     (if pos < 0 then Inl (ValueError ''pos < 0'')
      else bindR (width_at g (pos + 1)) (\<lambda>width. Inr [pos, pos + 1, (pos + 1) div int (gm_idx_block g), width]))"

section \<open>Rotary tables\<close>

definition rope_tables :: "('f, 'd) np \<Rightarrow> nat \<Rightarrow> nat \<Rightarrow> 'd \<Rightarrow> 'f list list \<times> 'f list list" where
  "rope_tables N max_pos half base =
     (if half = 0 then (replicate max_pos [], replicate max_pos [])
      else let inv = map (\<lambda>i. d_div N (d_int N 1) (d_pow N base (d_div N (d_int N (int i)) (d_int N (int half))))) [0..<half];
               ang = (\<lambda>p. map (d_mul N (d_int N (int p))) inv)
           in (map (\<lambda>p. map (\<lambda>a. to_f N (d_cos N a)) (ang p)) [0..<max_pos], map (\<lambda>p. map (\<lambda>a. to_f N (d_sin N a)) (ang p)) [0..<max_pos]))"

text \<open>The width of a table; every table has at least one row.\<close>

definition tab_half :: "'f list list \<Rightarrow> nat" where
  "tab_half tab = (case tab of [] \<Rightarrow> 0 | r # _ \<Rightarrow> length r)"

text \<open>\<open>tab[positions, arange(half)]\<close>; a negative position counts from the end.\<close>

definition tab_pick :: "'f list list \<Rightarrow> int list \<Rightarrow> 'f list res" where
  "tab_pick tab positions = mapR (\<lambda>(d, p). bindR (py_nth tab p) (\<lambda>row. np_at row d)) (zip [0..<length positions] positions)"

definition apply_rope_table :: "('f, 'd) np \<Rightarrow> 'f list \<Rightarrow> int \<Rightarrow> 'f list list \<Rightarrow> 'f list list \<Rightarrow> int list option \<Rightarrow> 'f list res" where
  "apply_rope_table N vec pos cos_tab sin_tab thw =
     (let half = tab_half cos_tab in
      if half = 0 then Inr vec
      else let positions = (case thw of None \<Rightarrow> replicate half pos | Some t \<Rightarrow> map (\<lambda>d. t ! (d mod 3)) [0..<half]) in
        bindR (tab_pick cos_tab positions) (\<lambda>c. bindR (tab_pick sin_tab positions) (\<lambda>s.
          if length vec < 2 * half then Inl (ValueError ''operands could not be broadcast together'')
          else let x1 = take half vec; x2 = take half (drop half vec) in
            Inr (map2 (f_sub N) (map2 (f_mul N) x1 c) (map2 (f_mul N) x2 s)
                 @ map2 (f_add N) (map2 (f_mul N) x2 c) (map2 (f_mul N) x1 s) @ drop (2 * half) vec))))"

definition rms_norm_rows :: "('f, 'd) np \<Rightarrow> 'f \<Rightarrow> 'f list \<Rightarrow> 'f list \<Rightarrow> 'f list" where
  "rms_norm_rows N eps gamma x =
     (let var = f_mean N (map (\<lambda>v. f_mul N v v) x); r = f_div N (f_int N 1) (f_sqrt N (f_add N var eps))
      in map2 (\<lambda>v g. f_mul N (f_mul N v r) g) x gamma)"

definition rms_double :: "('f, 'd) np \<Rightarrow> 'd list \<Rightarrow> 'd list \<Rightarrow> 'd \<Rightarrow> 'f list" where
  "rms_double N x gamma eps =
     (let ss = d_sum N (map (\<lambda>v. d_mul N v v) x);
          inv = d_div N (d_int N 1) (d_sqrt N (d_add N (d_div N ss (d_int N (int (length x)))) eps))
      in map2 (\<lambda>v g. to_f N (d_mul N (d_mul N v inv) g)) x gamma)"

section \<open>Int8 groups\<close>

definition q8_group :: "('f, 'd) np \<Rightarrow> 'f list \<Rightarrow> int list \<times> 'f" where
  "q8_group N g =
     (let a = map (f_abs N) g; amax = fold (f_max N) (tl a) (hd a);
          scale = via_f16 N (f_div N amax (f_int N 127)); live = f_lt N (f_int N 0) scale
      in (map (\<lambda>x. i8 (if live then f_to_int N (f_clip N (f_rint N (f_div N x scale)) (f_int N (- 127)) (f_int N 127)) else 0)) g, scale))"

definition quantize_q8 :: "('f, 'd) np \<Rightarrow> 'f list \<Rightarrow> (int list \<times> 'f list) res" where
  "quantize_q8 N vec =
     (if length vec mod KV_Q8_GROUP \<noteq> 0 then Inl (ValueError ''last dim must be a multiple of 64'')
      else let gs = map (q8_group N) (view_rows (length vec div KV_Q8_GROUP) KV_Q8_GROUP vec)
           in Inr (concat (map fst gs), map snd gs))"

definition dequant_q8 :: "('f, 'd) np \<Rightarrow> int list \<Rightarrow> 'f list \<Rightarrow> 'f list" where
  "dequant_q8 N codes scale =
     map2 (\<lambda>c s. via_f16 N (f_mul N (f_int N c) s)) codes (concat (map (replicate KV_Q8_GROUP) scale))"

section \<open>Indexer scores and selection\<close>

definition cell_block :: "nat \<Rightarrow> nat \<Rightarrow> nat \<Rightarrow> nat" where
  "cell_block cell n_bid block = min (cell div block) n_bid"

text \<open>\<open>query\<close> holds one row per indexer head; the spare row of \<open>pooled\<close> is last.\<close>

definition indexer_scores :: "('f, 'd) np \<Rightarrow> 'f list list \<Rightarrow> 'f list list \<Rightarrow> nat \<Rightarrow> nat option \<Rightarrow> nat \<Rightarrow> 'f list option \<Rightarrow> 'f list" where
  "indexer_scores N pooled query n_kv n_bid block bias =
     (let nb = (case n_bid of None \<Rightarrow> length pooled - 1 | Some b \<Rightarrow> b);
          summed = map (\<lambda>b. f_sum N (map (\<lambda>h. f_max N (f_matmul N query pooled h b) (f_int N 0)) [0..<length query])) [0..<length pooled]
      in map (\<lambda>j. let cb = cell_block j nb block;
                      s = summed ! cb;
                      s = (case bias of None \<Rightarrow> s | Some bs \<Rightarrow> f_add N s (bs ! cb))
                  in if j \<ge> nb * block then f_add N s (f_int N 1000000000) else s) [0..<n_kv])"

text \<open>\<open>f_place\<close> is the place of a float in numpy's sort order; \<open>lexsort\<close> is stable in the index.\<close>

definition topk_ids :: "('f, 'd) np \<Rightarrow> 'f list \<Rightarrow> nat \<Rightarrow> nat list" where
  "topk_ids N scores width =
     (let n = length scores; w = min width n; order = sort_key (\<lambda>i. f_place N (f_neg N (scores ! i))) [0..<n]
      in sort (take w order))"

definition ordered_key :: "nat \<Rightarrow> 32 word \<Rightarrow> 64 word" where
  "ordered_key i bits =
     (let msk = (if drop_bit 31 bits \<noteq> 0 then 0xFFFFFFFF else 0x80000000 :: 32 word);
          ordered = ucast (bits XOR msk) :: 64 word; inv = 0xFFFFFFFF XOR (of_nat i :: 64 word)
      in push_bit 32 ordered OR inv)"

definition ordered_keys :: "('f, 'd) np \<Rightarrow> 'f list \<Rightarrow> 64 word list" where
  "ordered_keys N scores = map2 (\<lambda>i x. ordered_key i (f_bits N x)) [0..<length scores] scores"

text \<open>The loop over the bits, most significant first; \<open>b\<close> bits are left.\<close>

fun radix_loop :: "64 word list \<Rightarrow> nat \<Rightarrow> 64 word \<Rightarrow> 64 word \<Rightarrow> nat \<Rightarrow> 64 word" where
  "radix_loop keys 0 decided prefix need = prefix"
| "radix_loop keys (Suc b) decided prefix need =
     (let bitv = push_bit b 1; cnt = length (filter (\<lambda>k. k AND decided = prefix \<and> k AND bitv \<noteq> 0) keys);
          decided = decided OR bitv
      in if cnt \<ge> need then radix_loop keys b decided (prefix OR bitv) need
         else radix_loop keys b decided prefix (need - cnt))"

definition topk_radix :: "('f, 'd) np \<Rightarrow> 'f list \<Rightarrow> int \<Rightarrow> nat list res" where
  "topk_radix N scores width =
     (let keys = ordered_keys N scores; n = length keys; w = nat (min (max width 0) (int n)) in
      if w = 0 then Inr []
      else let prefix = radix_loop keys 64 0 0 w; chosen = filter (\<lambda>i. prefix \<le> keys ! i) [0..<n] in
        if length chosen \<noteq> w then Inl (RuntimeError ''radix select kept another width'')
        else Inr (sort chosen))"

section \<open>Attention\<close>

definition softmax :: "('f, 'd) np \<Rightarrow> 'f list \<Rightarrow> 'f list" where
  "softmax N logits =
     (let top = fold (f_max N) (tl logits) (hd logits); w = map (\<lambda>l. f_exp N (f_sub N l top)) logits; total = f_sum N w
      in map (\<lambda>x. f_div N x total) w)"

text \<open>
  \<open>key\<close> and \<open>val\<close> hold, per gathered cell, one vector per KV head. One turn of the loop over the query
  heads, with what numpy refuses there: a KV head the arrays do not have, rows of another width than
  the query's, another number of values than keys.
\<close>

definition attend_head :: "('f, 'd) np \<Rightarrow> 'f \<Rightarrow> nat \<Rightarrow> 'f list list list \<Rightarrow> 'f list list list \<Rightarrow> 'f list \<Rightarrow> nat \<Rightarrow> ('f list \<times> 'f list) res" where
  "attend_head N scale dim key val q kv_h =
     bindR (mapR (\<lambda>k. np_at k kv_h) key) (\<lambda>ks.
     bindR (raise_if (\<exists>k \<in> set ks. length k \<noteq> length q) (ValueError ''matmul: mismatch in its core dimension'')) (\<lambda>_.
       let w = softmax N (map (\<lambda>i. f_mul N (f_matvec N ks q i) scale) [0..<length ks]) in
       bindR (mapR (\<lambda>v. np_at v kv_h) val) (\<lambda>vs.
       bindR (np_matrix vs) (\<lambda>_.
       bindR (raise_if (length vs \<noteq> length w) (ValueError ''matmul: mismatch in its core dimension'')) (\<lambda>_.
       bindR (np_fit dim (map (f_vecmat N w vs) [0..<np_width vs])) (\<lambda>row.
         Inr (w, row)))))))"

definition attend :: "('f, 'd) np \<Rightarrow> 'f list list \<Rightarrow> 'f list list list \<Rightarrow> 'f list list list \<Rightarrow> nat \<Rightarrow> ('f list list \<times> 'f list list) res" where
  "attend N query key val n_kv =
     bindR (np_matrix query) (\<lambda>_.
       let n_q = length query; dim = np_width query in
       if n_kv = 0 then Inl (ZeroDivisionError ''integer modulo by zero'')
       else if n_q mod n_kv \<noteq> 0 then Inl (ValueError ''n_q not divisible by n_kv'')
       else if key = [] then Inr (replicate n_q (replicate dim (f_int N 0)), replicate n_q [])
       else let grp = n_q div n_kv; scale = f_div N (f_int N 1) (f_sqrt N (f_int N (int dim))) in
         bindR (mapR (\<lambda>h. attend_head N scale dim key val (query ! h) (h div grp)) [0..<n_q]) (\<lambda>rs.
           Inr (map snd rs, map fst rs)))"

text \<open>The gate is the second half of each row; the product broadcasts as numpy's does.\<close>

definition gate_apply :: "('f, 'd) np \<Rightarrow> 'f list list \<Rightarrow> 'f list list \<Rightarrow> 'f list list res" where
  "gate_apply N attn q_full =
     bindR (np_matrix q_full) (\<lambda>_.
       let gate = map (drop (np_width q_full div 2)) q_full;
           sig = map (map (\<lambda>g. f_div N (f_int N 1) (f_add N (f_int N 1) (f_exp N (f_neg N g))))) gate in
       bindR (np_matrix attn) (\<lambda>_. np_map2 (f_mul N) attn sig))"

definition gate_fp16 :: "('f, 'd) np \<Rightarrow> 'f list list \<Rightarrow> 'f list list \<Rightarrow> 'f list list res" where
  "gate_fp16 N attn q_full = bindR (gate_apply N attn q_full) (\<lambda>y. Inr (map (map (via_f16 N)) y))"

section \<open>Queries of the right shape\<close>

lemma length_softmax [simp]: "length (softmax N xs) = length xs"
  by (simp add: softmax_def Let_def)

definition heads_shape :: "nat \<Rightarrow> nat \<Rightarrow> 'f list list list \<Rightarrow> bool" where
  "heads_shape n dim cells \<longleftrightarrow> (\<forall>c \<in> set cells. length c = n \<and> (\<forall>r \<in> set c. length r = dim))"

lemma pick_head:
  assumes "heads_shape n dim cells" "h < n"
  shows "mapR (\<lambda>c. np_at c h) cells = Inr (map (\<lambda>c. c ! h) cells)" and "\<forall>r \<in> set (map (\<lambda>c. c ! h) cells). length r = dim"
  using assms by (auto simp: heads_shape_def intro!: mapR_total)

lemma attend_head_run:
  assumes "heads_shape n dim key" "heads_shape n dim val" "key \<noteq> []" "length val = length key" "length q = dim" "h < n"
  shows "\<exists>w row. attend_head N scale dim key val q h = Inr (w, row) \<and> length row = dim"
proof -
  note k = pick_head [OF assms(1,6)] and v = pick_head [OF assms(2,6)]
  have width: "np_width (map (\<lambda>c. c ! h) val) = dim" using np_width_same [OF _ v(2)] assms(3,4) by (cases val) auto
  have keys: "\<not> (\<exists>r \<in> set (map (\<lambda>c. c ! h) key). length r \<noteq> length q)" using k(2) assms(5) by blast
  show ?thesis using assms(4) keys
    by (simp add: attend_head_def k(1) v(1) np_matrix_run [OF v(2)] width np_fit_def bindR_raise_if Let_def del: set_map)
qed

lemma attend_run:
  assumes "heads_shape n dim key" "heads_shape n dim val" "length val = length key"
    and q: "\<forall>r \<in> set q. length r = dim" "0 < n" "length q mod n = 0"
  shows "\<exists>attn w. attend N q key val n = Inr (attn, w) \<and> length attn = length q \<and> (\<forall>row \<in> set attn. length row = dim)"
proof (cases "key = [] \<or> q = []")
  case True
  then show ?thesis using q np_width_same [of q dim] by (cases "q = []") (auto simp: attend_def np_matrix_run [OF q(1)] np_matrix_def Let_def)
next
  case False
  let ?s = "f_div N (f_int N 1) (f_sqrt N (f_int N (int dim)))" and ?f = "\<lambda>h. h div (length q div n)"
  have w: "np_width q = dim" using False q(1) by (intro np_width_same) auto
  have one: "\<exists>w row. attend_head N ?s dim key val (q ! h) (?f h) = Inr (w, row) \<and> length row = dim" if h: "h < length q" for h
  proof (rule attend_head_run [OF assms(1,2) _ assms(3)])
    have "length q = (length q div n) * n" using q(3) by auto
    then show "?f h < n" using h by (metis less_mult_imp_div_less mult.commute)
  qed (use False h q(1) in auto)
  define r where "r = (\<lambda>h. projr (attend_head N ?s dim key val (q ! h) (?f h)))"
  have r: "attend_head N ?s dim key val (q ! h) (?f h) = Inr (r h) \<and> length (snd (r h)) = dim" if "h < length q" for h
    using one [OF that] by (auto simp: r_def)
  then have "mapR (\<lambda>h. attend_head N ?s dim key val (q ! h) (?f h)) [0..<length q] = Inr (map r [0..<length q])"
    by (intro mapR_total) simp
  then show ?thesis using False q r by (auto simp: attend_def np_matrix_run [OF q(1)] Let_def w)
qed

lemma gate_run:
  assumes "length attn = n" "length qf = n" "\<forall>a \<in> set attn. length a = c" "\<forall>q \<in> set qf. length q = 2 * c"
  shows "\<exists>y. gate_fp16 N attn qf = Inr y \<and> length y = n \<and> (\<forall>row \<in> set y. length row = c)"
proof -
  let ?gate = "map (map (\<lambda>g. f_div N (f_int N 1) (f_add N (f_int N 1) (f_exp N (f_neg N g))))) (map (drop (np_width qf div 2)) qf)"
  have "\<forall>r \<in> set ?gate. length r = c"
    using assms(4) np_width_same [OF _ assms(4)] by (cases "qf = []") auto
  from np_map2_run [OF assms(1) _ assms(3) this, of "f_mul N"] obtain y where
    "np_map2 (f_mul N) attn ?gate = Inr y" "length y = n" "\<forall>r \<in> set y. length r = c" using assms(2) by auto
  then show ?thesis by (simp add: gate_fp16_def gate_apply_def np_matrix_run [OF assms(3)] np_matrix_run [OF assms(4)] comp_def)
qed

end
