(* ===== verification/Qsa_Page.thy ===== *)
theory Qsa_Page
  imports Qsa_Ref
begin

unbundle bit_operations_syntax

text \<open>
  The byte layout of one QSA page and the packed union of selections: \<open>PageLayout\<close>, \<open>make_layout\<close>,
  \<open>write_step_rows\<close>, \<open>union_pack\<close> and \<open>union_cells\<close> of \<open>vllm/flashnext/flashnext_ref/qsa_cache.py\<close>, and
  \<open>page_layout\<close> of \<open>vllm/flashnext/plugins/b70_qsa_xpu/b70_qsa_xpu/layout.py\<close>.
\<close>

section \<open>The layout\<close>

record page_layout_rec =
  pl_block_size :: nat
  pl_n_kv :: nat
  pl_head_dim :: nat
  pl_groups :: nat
  pl_idx_dim :: nat
  pl_idx_block :: nat
  pl_n_states :: nat
  pl_pooled :: bool
  pl_k_codes_off :: nat
  pl_v_codes_off :: nat
  pl_k_scale_off :: nat
  pl_v_scale_off :: nat
  pl_pooled_off :: nat
  pl_kv_bytes :: nat
  pl_pooled_bytes :: nat
  pl_page_bytes :: nat

definition code_off :: "page_layout_rec \<Rightarrow> nat \<Rightarrow> nat \<Rightarrow> nat \<Rightarrow> nat" where
  "code_off lay region head slot = region + (head * pl_block_size lay + slot) * pl_head_dim lay"

definition scale_off :: "page_layout_rec \<Rightarrow> nat \<Rightarrow> nat \<Rightarrow> nat \<Rightarrow> nat" where
  "scale_off lay region head slot = region + (head * pl_block_size lay + slot) * pl_groups lay * 2"

definition indexer_addr :: "page_layout_rec \<Rightarrow> int \<Rightarrow> int \<times> int" where
  "indexer_addr lay block_b =
     (let token0 = block_b * int (pl_idx_block lay)
      in (token0 div int (pl_block_size lay), token0 mod int (pl_block_size lay) div int (pl_idx_block lay)))"

definition make_layout :: "'d qsa_geom \<Rightarrow> int \<Rightarrow> bool \<Rightarrow> page_layout_rec res" where
  "make_layout g block_size pooled =
     bindR (if block_size < 1 then Inl (ValueError ''block_size must be a positive multiple of idx_block'')
            else if gm_idx_block g = 0 then Inl (ZeroDivisionError ''integer modulo by zero'')
            else raise_if (block_size mod int (gm_idx_block g) \<noteq> 0) (ValueError ''block_size must be a positive multiple of idx_block'')) (\<lambda>_.
     bindR (raise_if (gm_head_dim g mod KV_Q8_GROUP \<noteq> 0) (ValueError ''head_dim must be a multiple of 64'')) (\<lambda>_.
       let bs = nat block_size; groups = gm_head_dim g div KV_Q8_GROUP;
           k_codes = gm_n_kv g * bs * gm_head_dim g; v_codes = k_codes;
           k_scales = gm_n_kv g * bs * groups * 2; v_scales = k_scales;
           kv = k_codes + v_codes + k_scales + v_scales
       in bindR (raise_if (kv \<noteq> kv_bytes_per_cell g * bs) (RuntimeError ''kv region != per-cell'')) (\<lambda>_.
          bindR (raise_if (kv mod 4 \<noteq> 0) (ValueError ''kv region must be 4-byte aligned'')) (\<lambda>_.
            let n_states = bs div gm_idx_block g; pooled_bytes = (if pooled then n_states * gm_idx_dim g * 4 else 0)
            in Inr \<lparr>pl_block_size = bs, pl_n_kv = gm_n_kv g, pl_head_dim = gm_head_dim g, pl_groups = groups,
                     pl_idx_dim = gm_idx_dim g, pl_idx_block = gm_idx_block g, pl_n_states = n_states, pl_pooled = pooled,
                     pl_k_codes_off = 0, pl_v_codes_off = k_codes, pl_k_scale_off = k_codes + v_codes,
                     pl_v_scale_off = k_codes + v_codes + k_scales, pl_pooled_off = kv, pl_kv_bytes = kv,
                     pl_pooled_bytes = pooled_bytes, pl_page_bytes = kv + pooled_bytes\<rparr>))))"

text \<open>The plugin's own copy of the layout, a dictionary of integers.\<close>

definition page_layout :: "int \<Rightarrow> int \<Rightarrow> int \<Rightarrow> int \<Rightarrow> int \<Rightarrow> bool \<Rightarrow> (string \<times> int) list res" where
  "page_layout n_kv head_dim idx_dim idx_block block_size pooled =
     bindR (raise_if (block_size < 1 \<or> idx_block < 2 \<or> block_size mod idx_block \<noteq> 0)
              (ValueError ''block_size must be a positive multiple of idx_block'')) (\<lambda>_.
     bindR (raise_if (head_dim mod 64 \<noteq> 0) (ValueError ''head_dim must be a multiple of 64'')) (\<lambda>_.
     bindR (raise_if (n_kv < 1 \<or> idx_dim < 1) (ValueError ''heads'')) (\<lambda>_.
       let groups = head_dim div 64; k_codes = n_kv * block_size * head_dim; v_codes = k_codes;
           k_scales = n_kv * block_size * groups * 2; v_scales = k_scales; kv = k_codes + v_codes + k_scales + v_scales
       in bindR (raise_if (kv mod 4 \<noteq> 0) (ValueError ''kv region must be 4-byte aligned'')) (\<lambda>_.
            let n_states = block_size div idx_block; pooled_bytes = (if pooled then n_states * idx_dim * 4 else 0)
            in Inr [(''block_size'', block_size), (''n_kv'', n_kv), (''head_dim'', head_dim), (''groups'', groups),
                    (''idx_dim'', idx_dim), (''idx_block'', idx_block), (''n_states'', n_states), (''k_codes_off'', 0),
                    (''v_codes_off'', k_codes), (''k_scale_off'', k_codes + v_codes),
                    (''v_scale_off'', k_codes + v_codes + k_scales), (''pooled_off'', kv), (''kv_bytes'', kv),
                    (''pooled_bytes'', pooled_bytes), (''page_bytes'', kv + pooled_bytes), (''pooled'', if pooled then 1 else 0)]))))"

section \<open>Step rows and the packed union\<close>

definition write_step_rows :: "int list \<Rightarrow> int \<Rightarrow> int \<Rightarrow> int list list res" where
  "write_step_rows pos top_k block =
     mapR (\<lambda>p. if p < 0 then Inr [0, 0, 0, 0]
               else if block = 0 then Inl (ZeroDivisionError ''integer division or modulo by zero'')
               else let n_kv = p + 1; cap = top_k + block - 1
                    in Inr [p, n_kv, n_kv div block, if n_kv < cap then n_kv else cap]) pos"

text \<open>The masks are a dictionary from cells to bit sets; each id of query \<open>q\<close> sets bit \<open>q\<close> of its cell.\<close>

definition union_add :: "nat \<Rightarrow> int \<Rightarrow> (int, int) odict \<Rightarrow> (int, int) odict res" where
  "union_add q cell masks =
     (if cell < 0 \<or> cell \<ge> 2 ^ 24 then Inl (ValueError ''cell does not fit in 24 bits'')
      else Inr (od_put cell ((case od_get masks cell of None \<Rightarrow> 0 | Some m \<Rightarrow> m) OR push_bit q 1) masks))"

fun union_ids :: "nat \<Rightarrow> int list \<Rightarrow> (int, int) odict \<Rightarrow> (int, int) odict res" where
  "union_ids q [] masks = Inr masks"
| "union_ids q (c # cs) masks = bindR (union_add q c masks) (union_ids q cs)"

fun union_queries :: "nat \<Rightarrow> (int list \<times> int) list \<Rightarrow> (int, int) odict \<Rightarrow> (int, int) odict res" where
  "union_queries q [] masks = Inr masks"
| "union_queries q ((row, w) # rest) masks =
     (if w < 0 \<or> w > int (length row) then Inl (ValueError ''width'')
      else bindR (union_ids q (take (nat w) row) masks) (union_queries (Suc q) rest))"

definition union_word :: "int \<times> int \<Rightarrow> 32 word" where
  "union_word = (\<lambda>(cell, m). word_of_int cell OR push_bit 24 (word_of_int m))"

definition union_pack :: "int list list \<Rightarrow> int list \<Rightarrow> (int list \<times> nat) res" where
  "union_pack ids widths =
     (let n_q = length ids in
      bindR (raise_if (n_q < 1 \<or> n_q > 8) (ValueError ''union tile is 1..8 queries'')) (\<lambda>_.
      bindR (raise_if (length widths \<noteq> n_q) (ValueError ''widths'')) (\<lambda>_.
      bindR (union_queries 0 (zip ids widths) []) (\<lambda>masks.
        let ordered = sort (od_keys masks); words = map (\<lambda>c. union_word (c, the (od_get masks c))) ordered
        in Inr (map sint words, length words)))))"

definition union_cells :: "int list \<Rightarrow> int list \<times> int list" where
  "union_cells packed =
     (let words = map (word_of_int :: int \<Rightarrow> 32 word) packed
      in (map (\<lambda>w. sint (w AND 0x00FFFFFF)) words, map (\<lambda>w. u8 (uint (drop_bit 24 w))) words))"

end
