(* ===== verification/Qsa_Page_Props.thy ===== *)
theory Qsa_Page_Props
  imports Qsa_Page
begin

unbundle bit_operations_syntax

text \<open>
  The fields of a page lie inside it and do not overlap, so a page is a \<open>field_store\<close>; the plugin's
  \<open>page_layout\<close> is \<open>make_layout\<close>; packed unions split back into their cells and query masks.
\<close>

section \<open>Read-after-write of fields\<close>

locale field_store =
  fixes get :: "'l \<Rightarrow> 'a \<Rightarrow> 'p \<Rightarrow> 'b"
    and put :: "'l \<Rightarrow> 'a \<Rightarrow> 'b \<Rightarrow> 'p \<Rightarrow> 'p"
    and ok :: "'l \<Rightarrow> 'a \<Rightarrow> bool"
    and fits :: "'l \<Rightarrow> 'a \<Rightarrow> 'b \<Rightarrow> bool"
    and inv :: "'l \<Rightarrow> 'p \<Rightarrow> bool"
  assumes inv_put: "inv l p \<Longrightarrow> ok l f \<Longrightarrow> fits l f b \<Longrightarrow> inv l (put l f b p)"
    and get_put_same: "inv l p \<Longrightarrow> ok l f \<Longrightarrow> fits l f b \<Longrightarrow> get l f (put l f b p) = b"
    and get_put_other: "inv l p \<Longrightarrow> ok l f \<Longrightarrow> ok l f' \<Longrightarrow> fits l f b \<Longrightarrow> f' \<noteq> f \<Longrightarrow> get l f' (put l f b p) = get l f' p"
begin

lemma inv_puts: "inv l p \<Longrightarrow> (\<forall>(f, b) \<in> set ws. ok l f \<and> fits l f b) \<Longrightarrow> inv l (fold (\<lambda>(f, b). put l f b) ws p)"
  by (induction ws arbitrary: p) (auto simp: inv_put)

lemma get_puts_other:
  "inv l p \<Longrightarrow> (\<forall>(f, b) \<in> set ws. ok l f \<and> fits l f b) \<Longrightarrow> ok l f' \<Longrightarrow> f' \<notin> fst ` set ws \<Longrightarrow>
     get l f' (fold (\<lambda>(f, b). put l f b) ws p) = get l f' p"
  by (induction ws arbitrary: p) (auto simp: inv_put get_put_other)

lemma get_puts_mem:
  "inv l p \<Longrightarrow> (\<forall>(f, b) \<in> set ws. ok l f \<and> fits l f b) \<Longrightarrow> distinct (map fst ws) \<Longrightarrow> (f', b') \<in> set ws \<Longrightarrow>
     get l f' (fold (\<lambda>(f, b). put l f b) ws p) = b'"
proof (induction ws arbitrary: p)
  case (Cons w ws)
  obtain f b where w: "w = (f, b)" by force
  show ?case
  proof (cases "(f', b') = (f, b)")
    case True
    have "f' \<notin> fst ` set ws" using Cons.prems True by (simp add: w)
    then show ?thesis
      using get_puts_other [of l "put l f b p" ws f'] Cons.prems True by (auto simp: w inv_put get_put_same)
  next
    case False
    then show ?thesis using Cons.IH [of "put l f b p"] Cons.prems by (auto simp: w inv_put)
  qed
qed simp

end

section \<open>The fields of a page\<close>

datatype field = KCode nat nat | VCode nat nat | KScale nat nat | VScale nat nat | Pooled nat

text \<open>Region, unit and index of a field.\<close>

fun field_slot :: "page_layout_rec \<Rightarrow> field \<Rightarrow> nat \<times> nat \<times> nat" where
  "field_slot lay (KCode h s) = (pl_k_codes_off lay, pl_head_dim lay, h * pl_block_size lay + s)"
| "field_slot lay (VCode h s) = (pl_v_codes_off lay, pl_head_dim lay, h * pl_block_size lay + s)"
| "field_slot lay (KScale h s) = (pl_k_scale_off lay, pl_groups lay * 2, h * pl_block_size lay + s)"
| "field_slot lay (VScale h s) = (pl_v_scale_off lay, pl_groups lay * 2, h * pl_block_size lay + s)"
| "field_slot lay (Pooled st) = (pl_pooled_off lay, pl_idx_dim lay * 4, st)"

definition field_off :: "page_layout_rec \<Rightarrow> field \<Rightarrow> nat" where
  "field_off lay f = (case field_slot lay f of (r, u, i) \<Rightarrow> r + i * u)"

definition field_len :: "page_layout_rec \<Rightarrow> field \<Rightarrow> nat" where
  "field_len lay f = (case field_slot lay f of (r, u, i) \<Rightarrow> u)"

fun field_ok :: "page_layout_rec \<Rightarrow> field \<Rightarrow> bool" where
  "field_ok lay (Pooled st) = (pl_pooled lay \<and> st < pl_n_states lay)"
| "field_ok lay (KCode h s) = (h < pl_n_kv lay \<and> s < pl_block_size lay)"
| "field_ok lay (VCode h s) = (h < pl_n_kv lay \<and> s < pl_block_size lay)"
| "field_ok lay (KScale h s) = (h < pl_n_kv lay \<and> s < pl_block_size lay)"
| "field_ok lay (VScale h s) = (h < pl_n_kv lay \<and> s < pl_block_size lay)"

text \<open>What \<open>make_layout\<close> establishes.\<close>

definition lay_ok :: "page_layout_rec \<Rightarrow> bool" where
  "lay_ok lay \<longleftrightarrow> (let cells = pl_n_kv lay * pl_block_size lay in
     0 < pl_block_size lay \<and> 0 < pl_idx_block lay \<and> pl_idx_block lay dvd pl_block_size lay
     \<and> pl_n_states lay = pl_block_size lay div pl_idx_block lay
     \<and> pl_head_dim lay = pl_groups lay * KV_Q8_GROUP
     \<and> pl_k_codes_off lay = 0 \<and> pl_v_codes_off lay = cells * pl_head_dim lay
     \<and> pl_k_scale_off lay = 2 * (cells * pl_head_dim lay)
     \<and> pl_v_scale_off lay = 2 * (cells * pl_head_dim lay) + cells * (pl_groups lay * 2)
     \<and> pl_pooled_off lay = 2 * (cells * pl_head_dim lay) + 2 * (cells * (pl_groups lay * 2))
     \<and> pl_kv_bytes lay = pl_pooled_off lay
     \<and> pl_pooled_bytes lay = (if pl_pooled lay then pl_n_states lay * (pl_idx_dim lay * 4) else 0)
     \<and> pl_page_bytes lay = pl_pooled_off lay + pl_pooled_bytes lay)"

lemma kv_region:
  assumes "gm_head_dim g mod KV_Q8_GROUP = 0"
  shows "gm_n_kv g * bs * gm_head_dim g + gm_n_kv g * bs * gm_head_dim g + gm_n_kv g * bs * (gm_head_dim g div KV_Q8_GROUP) * 2
           + gm_n_kv g * bs * (gm_head_dim g div KV_Q8_GROUP) * 2 = kv_bytes_per_cell g * bs"
    and "(kv_bytes_per_cell g * bs) mod 4 = 0"
proof -
  obtain q where q: "gm_head_dim g = KV_Q8_GROUP * q" using assms by auto
  have pos: "0 < KV_Q8_GROUP" by (simp add: KV_Q8_GROUP_def)
  show "gm_n_kv g * bs * gm_head_dim g + gm_n_kv g * bs * gm_head_dim g + gm_n_kv g * bs * (gm_head_dim g div KV_Q8_GROUP) * 2
           + gm_n_kv g * bs * (gm_head_dim g div KV_Q8_GROUP) * 2 = kv_bytes_per_cell g * bs"
    by (simp add: kv_bytes_per_cell_def Let_def algebra_simps)
  have "kv_bytes_per_cell g = 4 * (33 * (q * gm_n_kv g))"
    using pos by (simp add: kv_bytes_per_cell_def Let_def q KV_Q8_GROUP_def)
  then show "(kv_bytes_per_cell g * bs) mod 4 = 0" by (simp add: mult.assoc)
qed

lemma make_layout_Inr:
  "make_layout g bs pooled = Inr lay \<longleftrightarrow>
     1 \<le> bs \<and> 0 < gm_idx_block g \<and> bs mod int (gm_idx_block g) = 0 \<and> gm_head_dim g mod KV_Q8_GROUP = 0
     \<and> lay = (let n = nat bs; groups = gm_head_dim g div KV_Q8_GROUP; codes = gm_n_kv g * n * gm_head_dim g; scales = gm_n_kv g * n * groups * 2;
                  states = n div gm_idx_block g; pb = (if pooled then states * gm_idx_dim g * 4 else 0); kv = kv_bytes_per_cell g * n
              in \<lparr>pl_block_size = n, pl_n_kv = gm_n_kv g, pl_head_dim = gm_head_dim g, pl_groups = groups,
                  pl_idx_dim = gm_idx_dim g, pl_idx_block = gm_idx_block g, pl_n_states = states, pl_pooled = pooled,
                  pl_k_codes_off = 0, pl_v_codes_off = codes, pl_k_scale_off = codes + codes,
                  pl_v_scale_off = codes + codes + scales, pl_pooled_off = kv, pl_kv_bytes = kv,
                  pl_pooled_bytes = pb, pl_page_bytes = kv + pb\<rparr>)"
proof (cases "gm_head_dim g mod KV_Q8_GROUP = 0")
  case True
  show ?thesis
    unfolding make_layout_def Let_def kv_region(1) [OF True] kv_region(2) [OF True]
    by (auto simp: bindR_eq_Inr raise_if_eq_Inr True)
next
  case False
  then show ?thesis by (simp add: make_layout_def bindR_eq_Inr raise_if_eq_Inr)
qed

lemma make_layout_ok: "make_layout g bs pooled = Inr lay \<Longrightarrow> lay_ok lay"
proof -
  assume "make_layout g bs pooled = Inr lay"
  then have c: "1 \<le> bs" "0 < gm_idx_block g" "bs mod int (gm_idx_block g) = 0" "gm_head_dim g mod KV_Q8_GROUP = 0"
    and lay: "lay = (let n = nat bs; groups = gm_head_dim g div KV_Q8_GROUP; codes = gm_n_kv g * n * gm_head_dim g; scales = gm_n_kv g * n * groups * 2;
                  states = n div gm_idx_block g; pb = (if pooled then states * gm_idx_dim g * 4 else 0); kv = kv_bytes_per_cell g * n
              in \<lparr>pl_block_size = n, pl_n_kv = gm_n_kv g, pl_head_dim = gm_head_dim g, pl_groups = groups,
                  pl_idx_dim = gm_idx_dim g, pl_idx_block = gm_idx_block g, pl_n_states = states, pl_pooled = pooled,
                  pl_k_codes_off = 0, pl_v_codes_off = codes, pl_k_scale_off = codes + codes,
                  pl_v_scale_off = codes + codes + scales, pl_pooled_off = kv, pl_kv_bytes = kv,
                  pl_pooled_bytes = pb, pl_page_bytes = kv + pb\<rparr>)"
    unfolding make_layout_Inr by auto
  obtain n where n: "bs = int n" using c(1) by (metis nonneg_int_cases order_trans zero_le_one)
  obtain q where q: "gm_head_dim g = q * KV_Q8_GROUP" using c(4) by (metis mod_0_imp_dvd dvdE mult.commute)
  have k: "q * KV_Q8_GROUP div KV_Q8_GROUP = q" by (simp add: KV_Q8_GROUP_def)
  have d: "gm_idx_block g dvd n" using c(3) unfolding n by (simp add: mod_eq_0_iff_dvd)
  show ?thesis using c(1,2) d unfolding lay n Let_def lay_ok_def kv_region(1) [OF c(4), of n, symmetric] nat_int q k
    by (simp add: algebra_simps)
qed

lemma slot_bound: "i < m \<Longrightarrow> i * u + u \<le> m * (u :: nat)"
proof -
  assume "i < m"
  then have "Suc i * u \<le> m * u" by (intro mult_le_mono1) simp
  then show ?thesis by simp
qed

lemma slots_disjoint: "i \<noteq> j \<Longrightarrow> i * u + u \<le> j * u \<or> j * u + u \<le> i * (u :: nat)"
  using slot_bound [of i j u] slot_bound [of j i u] by linarith

lemma cell_index_less: "h < n \<Longrightarrow> s < b \<Longrightarrow> h * b + s < n * (b :: nat)"
proof -
  assume "h < n" "s < b"
  then have "h * b + s < h * b + b" by simp
  also have "\<dots> \<le> n * b" using slot_bound [OF \<open>h < n\<close>] by simp
  finally show ?thesis .
qed

lemma cell_index_inj: "s < b \<Longrightarrow> s' < b \<Longrightarrow> h * b + s = h' * b + s' \<Longrightarrow> h = h' \<and> s = (s' :: nat)"
proof -
  assume s: "s < b" "s' < b" and e: "h * b + s = h' * b + s'"
  have "h = (h * b + s) div b" "h' = (h' * b + s') div b" using s by simp_all
  then have "h = h'" using e by simp
  then show ?thesis using e by simp
qed

text \<open>A field of a region lies between the ends of the region.\<close>

definition region_end :: "page_layout_rec \<Rightarrow> field \<Rightarrow> nat" where
  "region_end lay f = (case field_slot lay f of (r, u, i) \<Rightarrow>
     r + (case f of Pooled st \<Rightarrow> pl_n_states lay * u | _ \<Rightarrow> pl_n_kv lay * pl_block_size lay * u))"

lemma field_in_region:
  "field_ok lay f \<Longrightarrow> fst (field_slot lay f) \<le> field_off lay f \<and> field_off lay f + field_len lay f \<le> region_end lay f"
  by (cases f) (simp_all add: field_off_def field_len_def region_end_def slot_bound cell_index_less)

lemma field_in_page:
  assumes "lay_ok lay" "field_ok lay f" shows "field_off lay f + field_len lay f \<le> pl_page_bytes lay"
proof -
  have "region_end lay f \<le> pl_page_bytes lay"
    using assms by (cases f) (simp_all add: lay_ok_def region_end_def Let_def)
  then show ?thesis using field_in_region [OF assms(2)] by linarith
qed

lemma fields_disjoint:
  assumes "lay_ok lay" "field_ok lay f" "field_ok lay f'" "f \<noteq> f'"
  shows "field_off lay f + field_len lay f \<le> field_off lay f' \<or> field_off lay f' + field_len lay f' \<le> field_off lay f"
proof -
  have reg: "region_end lay f \<le> fst (field_slot lay f') \<or> region_end lay f' \<le> fst (field_slot lay f)
      \<or> (fst (field_slot lay f) = fst (field_slot lay f') \<and> fst (snd (field_slot lay f)) = fst (snd (field_slot lay f'))
          \<and> snd (snd (field_slot lay f)) \<noteq> snd (snd (field_slot lay f')))"
    using assms by (cases f; cases f') (auto simp: lay_ok_def region_end_def Let_def dest: cell_index_inj)
  then consider (after) "region_end lay f \<le> fst (field_slot lay f')" | (before) "region_end lay f' \<le> fst (field_slot lay f)"
    | (same) "fst (field_slot lay f) = fst (field_slot lay f')" "fst (snd (field_slot lay f)) = fst (snd (field_slot lay f'))"
        "snd (snd (field_slot lay f)) \<noteq> snd (snd (field_slot lay f'))" by blast
  then show ?thesis
  proof cases
    case same
    obtain r u i where s: "field_slot lay f = (r, u, i)" by (metis prod_cases3)
    obtain j where s': "field_slot lay f' = (r, u, j)" using same(1,2) s by (metis fst_conv snd_conv prod_cases3)
    show ?thesis using slots_disjoint [of i j u] same(3) by (auto simp: field_off_def field_len_def s s')
  qed (use field_in_region [OF assms(2)] field_in_region [OF assms(3)] in linarith)+
qed

section \<open>Pages as field stores\<close>

definition get_bytes :: "nat \<Rightarrow> nat \<Rightarrow> byte_list \<Rightarrow> byte_list" where
  "get_bytes off n page = take n (drop off page)"

definition put_bytes :: "nat \<Rightarrow> byte_list \<Rightarrow> byte_list \<Rightarrow> byte_list" where
  "put_bytes off raw page = take off page @ raw @ drop (off + length raw) page"

lemma length_put_bytes: "off + length raw \<le> length page \<Longrightarrow> length (put_bytes off raw page) = length page"
  by (simp add: put_bytes_def)

lemma get_put_bytes_same: "off + length raw \<le> length page \<Longrightarrow> get_bytes off (length raw) (put_bytes off raw page) = raw"
  by (simp add: get_bytes_def put_bytes_def)

lemma nth_put_bytes:
  "off + length raw \<le> length page \<Longrightarrow> i < length page \<Longrightarrow>
     put_bytes off raw page ! i = (if off \<le> i \<and> i < off + length raw then raw ! (i - off) else page ! i)"
  by (auto simp: put_bytes_def nth_append min_def)

lemma get_put_bytes_other:
  assumes "off + length raw \<le> length page" "off' + n \<le> length page" "off + length raw \<le> off' \<or> off' + n \<le> off"
  shows "get_bytes off' n (put_bytes off raw page) = get_bytes off' n page"
proof (rule nth_equalityI)
  show "length (get_bytes off' n (put_bytes off raw page)) = length (get_bytes off' n page)"
    using assms by (simp add: get_bytes_def length_put_bytes)
  fix i assume "i < length (get_bytes off' n (put_bytes off raw page))"
  then have i: "i < n" "off' + i < length page" using assms by (simp_all add: get_bytes_def length_put_bytes)
  then show "get_bytes off' n (put_bytes off raw page) ! i = get_bytes off' n page ! i"
    using assms nth_put_bytes [OF assms(1) i(2)] by (auto simp: get_bytes_def length_put_bytes)
qed

definition get_field :: "page_layout_rec \<Rightarrow> field \<Rightarrow> byte_list \<Rightarrow> byte_list" where
  "get_field lay f = get_bytes (field_off lay f) (field_len lay f)"

definition put_field :: "page_layout_rec \<Rightarrow> field \<Rightarrow> byte_list \<Rightarrow> byte_list \<Rightarrow> byte_list" where
  "put_field lay f = put_bytes (field_off lay f)"

definition page_inv :: "page_layout_rec \<Rightarrow> byte_list \<Rightarrow> bool" where
  "page_inv lay p \<longleftrightarrow> lay_ok lay \<and> length p = pl_page_bytes lay"

definition field_fits :: "page_layout_rec \<Rightarrow> field \<Rightarrow> byte_list \<Rightarrow> bool" where
  "field_fits lay f b \<longleftrightarrow> length b = field_len lay f"

interpretation page: field_store get_field put_field field_ok field_fits page_inv
proof unfold_locales
  fix lay p f b assume a: "page_inv lay p" "field_ok lay f" "field_fits lay f b"
  have fit: "field_off lay f + length b \<le> length p" using a field_in_page [of lay f] by (simp add: page_inv_def field_fits_def)
  show "page_inv lay (put_field lay f b p)" using a fit by (simp add: page_inv_def put_field_def length_put_bytes)
  show "get_field lay f (put_field lay f b p) = b"
    using a fit get_put_bytes_same [OF fit] by (simp add: get_field_def put_field_def field_fits_def)
  fix f' assume f': "field_ok lay f'" "f' \<noteq> f"
  show "get_field lay f' (put_field lay f b p) = get_field lay f' p"
    unfolding get_field_def put_field_def
    by (rule get_put_bytes_other)
       (use a f' fit field_in_page [of lay f'] fields_disjoint [of lay f f'] in \<open>auto simp: page_inv_def field_fits_def\<close>)
qed

end
