(* ===== verification/Qsa_Page_Thms.thy ===== *)
theory Qsa_Page_Thms
  imports Qsa_Page_Props
begin

unbundle bit_operations_syntax

text \<open>
  The properties of the page layout and of the packed union of selections.
\<close>

section \<open>One layout\<close>

text \<open>The dictionary a layout stands for.\<close>

definition layout_items :: "page_layout_rec \<Rightarrow> (string \<times> int) list" where
  "layout_items lay =
     [(''block_size'', int (pl_block_size lay)), (''n_kv'', int (pl_n_kv lay)), (''head_dim'', int (pl_head_dim lay)),
      (''groups'', int (pl_groups lay)), (''idx_dim'', int (pl_idx_dim lay)), (''idx_block'', int (pl_idx_block lay)),
      (''n_states'', int (pl_n_states lay)), (''k_codes_off'', int (pl_k_codes_off lay)),
      (''v_codes_off'', int (pl_v_codes_off lay)), (''k_scale_off'', int (pl_k_scale_off lay)),
      (''v_scale_off'', int (pl_v_scale_off lay)), (''pooled_off'', int (pl_pooled_off lay)),
      (''kv_bytes'', int (pl_kv_bytes lay)), (''pooled_bytes'', int (pl_pooled_bytes lay)),
      (''page_bytes'', int (pl_page_bytes lay)), (''pooled'', if pl_pooled lay then 1 else 0)]"

lemma page_layout_make_layout:
  assumes g: "1 \<le> gm_n_kv g" "1 \<le> gm_idx_dim g" "2 \<le> gm_idx_block g"
  shows "page_layout (int (gm_n_kv g)) (int (gm_head_dim g)) (int (gm_idx_dim g)) (int (gm_idx_block g)) bs pooled
    = map_sum id layout_items (make_layout g bs pooled)"
proof (cases "1 \<le> bs \<and> bs mod int (gm_idx_block g) = 0 \<and> gm_head_dim g mod KV_Q8_GROUP = 0")
  case True
  obtain n where n: "bs = int n" using True by (metis nonneg_int_cases order_trans zero_le_one)
  have hd: "gm_head_dim g mod KV_Q8_GROUP = 0" using True by simp
  then have hd64: "int (gm_head_dim g) mod 64 = 0" unfolding KV_Q8_GROUP_def by presburger
  have kv: "int (gm_n_kv g) * int n * int (gm_head_dim g) + int (gm_n_kv g) * int n * int (gm_head_dim g)
      + int (gm_n_kv g) * int n * (int (gm_head_dim g) div 64) * 2 + int (gm_n_kv g) * int n * (int (gm_head_dim g) div 64) * 2
      = int (kv_bytes_per_cell g * n)"
    using arg_cong [OF kv_region(1) [OF hd, of n], of int] by (simp add: KV_Q8_GROUP_def zdiv_int)
  have four: "int (kv_bytes_per_cell g * n) mod 4 = 0"
    using arg_cong [OF kv_region(2) [OF hd, of n], of int] by (simp only: zmod_int of_nat_numeral of_nat_0)
  have m: "make_layout g (int n) pooled = Inr (let k = n; groups = gm_head_dim g div KV_Q8_GROUP; codes = gm_n_kv g * k * gm_head_dim g; scales = gm_n_kv g * k * groups * 2;
                  states = k div gm_idx_block g; pb = (if pooled then states * gm_idx_dim g * 4 else 0); kv = kv_bytes_per_cell g * k
              in \<lparr>pl_block_size = k, pl_n_kv = gm_n_kv g, pl_head_dim = gm_head_dim g, pl_groups = groups,
                  pl_idx_dim = gm_idx_dim g, pl_idx_block = gm_idx_block g, pl_n_states = states, pl_pooled = pooled,
                  pl_k_codes_off = 0, pl_v_codes_off = codes, pl_k_scale_off = codes + codes,
                  pl_v_scale_off = codes + codes + scales, pl_pooled_off = kv, pl_kv_bytes = kv,
                  pl_pooled_bytes = pb, pl_page_bytes = kv + pb\<rparr>)"
    unfolding make_layout_Inr nat_int using True [unfolded n] g by simp
  have guards: "\<not> (bs < 1 \<or> int (gm_idx_block g) < 2 \<or> bs mod int (gm_idx_block g) \<noteq> 0)"
      "\<not> (int (gm_n_kv g) < 1 \<or> int (gm_idx_dim g) < 1)" using True g by simp_all
  show ?thesis
    unfolding n m page_layout_def Let_def kv four using guards [unfolded n]
    by (simp add: hd64 layout_items_def) (simp add: KV_Q8_GROUP_def zdiv_int)
next
  case False
  have "int (gm_head_dim g) mod 64 = 0 \<longleftrightarrow> gm_head_dim g mod KV_Q8_GROUP = 0"
    by (simp add: KV_Q8_GROUP_def) presburger
  with False g show ?thesis by (auto simp: page_layout_def make_layout_def raise_if_def)
qed

text \<open>For a geometry with heads, an indexer row and blocks of at least two cells, the plugin's
  \<open>page_layout\<close> raises what \<open>make_layout\<close> raises and else lists the same layout, and in a layout every code
  row, scale row and pooled row lies inside the page and no two of them share a byte.\<close>

lemma one_page_layout:
  "1 \<le> gm_n_kv g \<Longrightarrow> 1 \<le> gm_idx_dim g \<Longrightarrow> 2 \<le> gm_idx_block g \<Longrightarrow>
     page_layout (int (gm_n_kv g)) (int (gm_head_dim g)) (int (gm_idx_dim g)) (int (gm_idx_block g)) bs pooled
       = map_sum id layout_items (make_layout g bs pooled)
     \<and> (\<forall>lay f f'. make_layout g bs pooled = Inr lay \<and> field_ok lay f \<and> field_ok lay f' \<and> f \<noteq> f' \<longrightarrow>
          field_off lay f + field_len lay f \<le> pl_page_bytes lay
          \<and> (field_off lay f + field_len lay f \<le> field_off lay f' \<or> field_off lay f' + field_len lay f' \<le> field_off lay f))"
  using page_layout_make_layout make_layout_ok field_in_page fields_disjoint by blast

lemma one_page_layout_witness:
  "page_layout 2 256 128 4 8 True = map_sum id layout_items (make_layout (flashnext_geom () ()) 8 True)"
  using one_page_layout [of "flashnext_geom () ()" 8 True] by (simp add: flashnext_geom_def)

section \<open>Packed unions\<close>

text \<open>The cells query \<open>q\<close> selected.\<close>

definition selected :: "int list list \<Rightarrow> int list \<Rightarrow> nat \<Rightarrow> int set" where
  "selected ids widths q = set (take (nat (widths ! q)) (ids ! q))"

text \<open>The masks record the set of pairs of a query and a cell.\<close>

definition records :: "(int, int) odict \<Rightarrow> (nat \<times> int) set \<Rightarrow> bool" where
  "records masks S \<longleftrightarrow> od_ok masks \<and> set (od_keys masks) = snd ` S
     \<and> (\<forall>c m. od_get masks c = Some m \<longrightarrow> 0 \<le> m \<and> (\<forall>q. bit m q \<longleftrightarrow> (q, c) \<in> S))"

lemma records_add:
  assumes "records masks S" "0 \<le> c" "c < 2 ^ 24"
  obtains masks' where "union_add q c masks = Inr masks'" "records masks' (insert (q, c) S)"
proof
  let ?m = "(case od_get masks c of None \<Rightarrow> 0 | Some m \<Rightarrow> m) OR push_bit q 1"
  show "union_add q c masks = Inr (od_put c ?m masks)" using assms(2,3) by (simp add: union_add_def)
  have none: "(p, c) \<notin> S" if "od_get masks c = None" for p
    using that assms(1) by (force simp: records_def od_get_None)
  have "0 \<le> ?m" using assms(1) by (auto simp: records_def split: option.split)
  moreover have "bit ?m p \<longleftrightarrow> (p, c) \<in> insert (q, c) S" for p
    using assms(1) none [of p] by (auto simp: records_def bit_simps split: option.splits)
  ultimately show "records (od_put c ?m masks) (insert (q, c) S)"
    using assms(1) by (auto simp: records_def od_ok_put od_keys_put od_get_put)
qed

lemma records_ids:
  "records masks S \<Longrightarrow> (\<forall>c \<in> set cs. 0 \<le> c \<and> c < 2 ^ 24) \<Longrightarrow>
     \<exists>masks'. union_ids q cs masks = Inr masks' \<and> records masks' (S \<union> {q} \<times> set cs)"
proof (induction cs arbitrary: masks S)
  case (Cons c cs)
  then obtain masks' where m: "union_add q c masks = Inr masks'" "records masks' (insert (q, c) S)"
    using records_add [of masks S c q] by auto
  have "insert (q, c) S \<union> {q} \<times> set cs = S \<union> {q} \<times> set (c # cs)" by auto
  then show ?case using Cons.IH [OF m(2)] Cons.prems m(1) by simp
qed simp

lemma union_ids_bad: "\<exists>c \<in> set cs. \<not> (0 \<le> c \<and> c < 2 ^ 24) \<Longrightarrow> \<exists>e. union_ids q cs masks = Inl (ValueError e)"
proof (induction cs arbitrary: masks)
  case (Cons c cs)
  then show ?case by (cases "0 \<le> c \<and> c < 2 ^ 24") (auto simp: union_add_def)
qed simp

definition row_ok :: "int list \<times> int \<Rightarrow> bool" where
  "row_ok = (\<lambda>(row, w). 0 \<le> w \<and> w \<le> int (length row) \<and> (\<forall>c \<in> set (take (nat w) row). 0 \<le> c \<and> c < 2 ^ 24))"

lemma UN_first: "(\<Union>j < Suc n. f j) = f 0 \<union> (\<Union>j < n. f (Suc j))"
  unfolding lessThan_Suc_eq_insert_0 by auto

lemma records_queries:
  "records masks S \<Longrightarrow> (\<forall>p \<in> set rows. row_ok p) \<Longrightarrow>
     \<exists>masks'. union_queries q rows masks = Inr masks'
       \<and> records masks' (S \<union> (\<Union>j < length rows. {q + j} \<times> set (take (nat (snd (rows ! j))) (fst (rows ! j)))))"
proof (induction rows arbitrary: q masks S)
  case (Cons p rows)
  obtain row w where p: "p = (row, w)" by force
  obtain m where m: "union_ids q (take (nat w) row) masks = Inr m" "records m (S \<union> {q} \<times> set (take (nat w) row))"
    using records_ids [OF Cons.prems(1), of "take (nat w) row" q] Cons.prems(2) by (auto simp: p row_ok_def)
  have "(\<Union>j < length (p # rows). {q + j} \<times> set (take (nat (snd ((p # rows) ! j))) (fst ((p # rows) ! j))))
      = {q} \<times> set (take (nat w) row) \<union> (\<Union>j < length rows. {Suc q + j} \<times> set (take (nat (snd (rows ! j))) (fst (rows ! j))))"
    unfolding list.size add_0_right add_Suc_right UN_first by (simp add: p)
  then show ?case using Cons.IH [OF m(2), of "Suc q"] Cons.prems(2) m(1) by (auto simp: p row_ok_def Un_assoc)
qed simp

lemma union_queries_bad: "\<exists>p \<in> set rows. \<not> row_ok p \<Longrightarrow> \<exists>e. union_queries q rows masks = Inl (ValueError e)"
proof (induction rows arbitrary: q masks)
  case (Cons p rows)
  obtain row w where p: "p = (row, w)" by force
  show ?case
  proof (cases "row_ok p")
    case True
    then have "\<exists>r \<in> set rows. \<not> row_ok r" using Cons.prems by simp
    then obtain f where f: "\<And>m. union_queries (Suc q) rows m = Inl (ValueError (f m))" using Cons.IH by metis
    have "(\<forall>c \<in> set (take (nat w) row). 0 \<le> c \<and> c < 2 ^ 24)" "0 \<le> w" "w \<le> int (length row)"
      using True by (simp_all add: p row_ok_def)
    moreover have "union_ids q cs m = Inl e \<Longrightarrow> \<exists>e'. e = ValueError e'" for cs m e
      by (induction cs arbitrary: m) (auto simp: union_add_def bindR_def split: if_splits)
    ultimately show ?thesis by (cases "union_ids q (take (nat w) row) masks") (auto simp: p f)
  next
    case False
    show ?thesis
    proof (cases "0 \<le> w \<and> w \<le> int (length row)")
      case True
      with False have "\<exists>c \<in> set (take (nat w) row). \<not> (0 \<le> c \<and> c < 2 ^ 24)" by (simp add: p row_ok_def)
      then obtain e where "union_ids q (take (nat w) row) masks = Inl (ValueError e)" using union_ids_bad by blast
      then show ?thesis using True by (simp add: p)
    qed (auto simp: p)
  qed
qed simp

lemma small_bits: "0 \<le> m \<Longrightarrow> (\<And>q. bit m q \<Longrightarrow> q < n) \<Longrightarrow> m < 2 ^ n" for m :: int
proof -
  assume "0 \<le> m" "\<And>q. bit m q \<Longrightarrow> q < n"
  then have "take_bit n m = m" by (intro bit_eqI) (auto simp: bit_simps)
  then show "m < 2 ^ n" using take_bit_int_less_exp [of n m] by simp
qed

lemma bit_below: "0 \<le> m \<Longrightarrow> m < 2 ^ n \<Longrightarrow> bit m i \<Longrightarrow> i < n" for m :: int
  using bit_take_bit_iff [of n m i] by (simp add: take_bit_int_eq_self)

lemma union_word_split:
  assumes "0 \<le> c" "c < 2 ^ 24" "0 \<le> m" "m < 2 ^ 8"
  shows "sint (union_word (c, m) AND 0x00FFFFFF) = c" "u8 (uint (drop_bit 24 (union_word (c, m)))) = m"
proof -
  have "union_word (c, m) AND 0x00FFFFFF = union_word (c, m) AND mask 24" by (simp add: mask_eq_exp_minus_1)
  also have "\<dots> = word_of_int c"
    by (rule bit_eqI) (use bit_below [OF assms(1,2)] in \<open>auto simp del: mask_numeral simp: union_word_def bit_simps\<close>)
  finally have w: "union_word (c, m) AND 0x00FFFFFF = word_of_int c" .
  have "signed_take_bit 31 c = c" using assms by (intro signed_take_bit_int_eq_self) simp_all
  then show "sint (union_word (c, m) AND 0x00FFFFFF) = c" unfolding w by (simp add: sint_sbintrunc')
  have d: "drop_bit 24 (union_word (c, m)) = word_of_int m"
    by (rule bit_eqI) (use bit_below [OF assms(1,2)] bit_below [OF assms(3,4)] in \<open>auto simp: union_word_def bit_simps dest: bit_below\<close>)
  have "take_bit 8 m = m" "take_bit 32 m = m" using assms by (simp_all add: take_bit_int_eq_self)
  then show "u8 (uint (drop_bit 24 (union_word (c, m)))) = m" unfolding d by (simp add: u8_def uint_word_of_int_eq)
qed

text \<open>Recorded selections split again.\<close>

lemma recorded_words:
  assumes ms: "records ms S" and cell: "\<And>q c. (q, c) \<in> S \<Longrightarrow> 0 \<le> c \<and> c < 2 ^ 24 \<and> q < 8"
  defines "cells \<equiv> sort (od_keys ms)"
  shows "union_cells (map sint (map (\<lambda>c. union_word (c, the (od_get ms c))) cells)) = (cells, map (\<lambda>c. the (od_get ms c)) cells)"
    "sorted_wrt (<) cells" "set cells = snd ` S" "i < length cells \<Longrightarrow> bit (the (od_get ms (cells ! i))) q \<longleftrightarrow> (q, cells ! i) \<in> S"
proof -
  have mem: "\<exists>m. od_get ms c = Some m \<and> 0 \<le> c \<and> c < 2 ^ 24 \<and> 0 \<le> m \<and> m < 2 ^ 8 \<and> (\<forall>q. bit m q \<longleftrightarrow> (q, c) \<in> S)" if c0: "c \<in> set cells" for c
  proof -
    have c: "c \<in> snd ` S" using c0 ms by (simp add: cells_def records_def)
    obtain m where m: "od_get ms c = Some m" using c0 od.key_get [of c ms] unfolding cells_def set_sort by blast
    then have b: "0 \<le> m" "\<And>q. bit m q \<longleftrightarrow> (q, c) \<in> S" using ms by (auto simp: records_def)
    have "m < 2 ^ 8" by (rule small_bits [OF b(1)]) (use b(2) cell in auto)
    then show ?thesis using m b c cell by auto
  qed
  have lo: "sint (union_word (c, the (od_get ms c)) AND 0x00FFFFFF) = c"
    and hi: "u8 (uint (drop_bit 24 (union_word (c, the (od_get ms c))))) = the (od_get ms c)" if c0: "c \<in> set cells" for c
  proof -
    obtain m where m: "od_get ms c = Some m" "0 \<le> c" "c < 2 ^ 24" "0 \<le> m" "m < 2 ^ 8" using mem [OF c0] by blast
    show "sint (union_word (c, the (od_get ms c)) AND 0x00FFFFFF) = c"
      "u8 (uint (drop_bit 24 (union_word (c, the (od_get ms c))))) = the (od_get ms c)"
      unfolding m(1) option.sel by (rule union_word_split [OF m(2-5)])+
  qed
  have wrd: "word_of_int (sint x) = x" for x :: "32 word" by simp
  show "union_cells (map sint (map (\<lambda>c. union_word (c, the (od_get ms c))) cells)) = (cells, map (\<lambda>c. the (od_get ms c)) cells)"
    unfolding union_cells_def Let_def map_map comp_def wrd prod.inject by (intro conjI map_idI map_cong refl lo hi)
  show "sorted_wrt (<) cells" using ms by (simp add: cells_def records_def od_ok_def strict_sorted_iff)
  show "set cells = snd ` S" using ms by (simp add: cells_def records_def)
  assume "i < length cells"
  then obtain m where m: "od_get ms (cells ! i) = Some m" "bit m q \<longleftrightarrow> (q, cells ! i) \<in> S" using mem [of "cells ! i"] nth_mem by blast
  show "bit (the (od_get ms (cells ! i))) q \<longleftrightarrow> (q, cells ! i) \<in> S" unfolding m(1) option.sel m(2) ..
qed

definition selections :: "int list list \<Rightarrow> int list \<Rightarrow> (nat \<times> int) set" where
  "selections ids widths = (\<Union>q < length ids. {q} \<times> selected ids widths q)"

lemma union_recorded:
  assumes n: "length ids \<le> 8" "length widths = length ids" and rows: "\<forall>p \<in> set (zip ids widths). row_ok p"
  obtains ms where "union_queries 0 (zip ids widths) [] = Inr ms" "records ms (selections ids widths)"
    "\<And>q c. (q, c) \<in> selections ids widths \<Longrightarrow> 0 \<le> c \<and> c < 2 ^ 24 \<and> q < 8"
proof -
  have eq: "(\<Union>j < length (zip ids widths). {0 + j} \<times> set (take (nat (snd (zip ids widths ! j))) (fst (zip ids widths ! j)))) = selections ids widths"
    unfolding selections_def selected_def by (rule SUP_cong) (simp_all add: n)
  have cell: "0 \<le> c \<and> c < 2 ^ 24 \<and> q < 8" if "(q, c) \<in> selections ids widths" for q c
  proof -
    have "(ids ! q, widths ! q) \<in> set (zip ids widths)" "c \<in> set (take (nat (widths ! q)) (ids ! q))" "q < 8"
      using that n by (auto simp: selections_def selected_def set_zip)
    then show ?thesis using rows by (auto simp: row_ok_def)
  qed
  obtain ms where "union_queries 0 (zip ids widths) [] = Inr ms" "records ms (selections ids widths)"
    using records_queries [of "[]" "{}" "zip ids widths" 0] rows unfolding eq by (auto simp: records_def od_ok_def)
  then show ?thesis using cell by (rule that)
qed

text \<open>On one to eight queries with legal widths and 24-bit cells the union packs, and splitting it gives
  the selected cells once each in ascending order, bit \<open>q\<close> of a cell's mask set iff query \<open>q\<close> selected it;
  on any other input it raises \<open>ValueError\<close>.\<close>

lemma union_pack_splits:
  "if 1 \<le> length ids \<and> length ids \<le> 8 \<and> length widths = length ids \<and> (\<forall>p \<in> set (zip ids widths). row_ok p)
   then \<exists>words. union_pack ids widths = Inr (words, length words)
     \<and> (case union_cells words of (cells, masks) \<Rightarrow>
          length cells = length words \<and> length masks = length words \<and> sorted_wrt (<) cells
          \<and> set cells = (\<Union>q < length ids. selected ids widths q)
          \<and> (\<forall>i < length words. \<forall>q. bit (masks ! i) q \<longleftrightarrow> q < length ids \<and> cells ! i \<in> selected ids widths q))
   else \<exists>e. union_pack ids widths = Inl (ValueError e)"
proof (cases "1 \<le> length ids \<and> length ids \<le> 8 \<and> length widths = length ids \<and> (\<forall>p \<in> set (zip ids widths). row_ok p)")
  case True
  then have n: "1 \<le> length ids" "length ids \<le> 8" "length widths = length ids" and rows: "\<forall>p \<in> set (zip ids widths). row_ok p" by auto
  obtain ms where q: "union_queries 0 (zip ids widths) [] = Inr ms" and ms: "records ms (selections ids widths)"
    "\<And>q c. (q, c) \<in> selections ids widths \<Longrightarrow> 0 \<le> c \<and> c < 2 ^ 24 \<and> q < 8" by (rule union_recorded [OF n(2,3) rows]) blast
  define cells where "cells = sort (od_keys ms)"
  define words where "words = map (sint :: 32 word \<Rightarrow> int) (map (\<lambda>c. union_word (c, the (od_get ms c))) cells)"
  note r = recorded_words [OF ms, folded cells_def, folded words_def]
  have run: "union_pack ids widths = Inr (words, length words)"
    using n n(1) [folded One_nat_def, simplified] q by (auto simp: union_pack_def cells_def words_def Let_def raise_if_def)
  have sets: "snd ` selections ids widths = (\<Union>q < length ids. selected ids widths q)" by (auto simp: selections_def image_iff)
  have len: "length words = length cells" by (simp add: words_def)
  show ?thesis unfolding if_P [OF True]
    by (rule exI [where x = words]) (simp only: run r(1) prod.case length_map len r(2) r(3) sets simp_thms, simp add: r(4), simp add: selections_def)
next
  case False
  have "\<exists>e. union_pack ids widths = Inl (ValueError e)"
  proof (cases "1 \<le> length ids \<and> length ids \<le> 8 \<and> length widths = length ids")
    case True
    then obtain e where "union_queries 0 (zip ids widths) [] = Inl (ValueError e)"
      using False union_queries_bad [of "zip ids widths" 0 "[]"] by auto
    then show ?thesis using True by (simp add: union_pack_def Let_def raise_if_def)
  qed (auto simp: union_pack_def raise_if_def Let_def Suc_le_eq)
  then show ?thesis unfolding if_not_P [OF False] .
qed

lemma union_pack_splits_witness:
  "\<exists>words. union_pack [[7, 3], [3, 3]] [2, 2] = Inr (words, length words) \<and> set (fst (union_cells words)) = {3, 7}"
proof -
  have v: "1 \<le> length [[7, 3], [3, 3 :: int]] \<and> length [[7, 3], [3, 3 :: int]] \<le> 8 \<and> length [2, 2 :: int] = length [[7, 3], [3, 3 :: int]]
      \<and> (\<forall>p \<in> set (zip [[7, 3], [3, 3]] [2, 2]). row_ok p)" by (simp add: row_ok_def)
  from union_pack_splits [of "[[7, 3], [3, 3]]" "[2, 2]"] obtain words where
      "union_pack [[7, 3], [3, 3]] [2, 2] = Inr (words, length words)"
      "set (fst (union_cells words)) = (\<Union>q < length [[7, 3], [3, 3 :: int]]. selected [[7, 3], [3, 3]] [2, 2] q)"
    unfolding if_P [OF v] by (auto simp only: split_beta)
  moreover have "(\<Union>q < length [[7, 3], [3, 3 :: int]]. selected [[7, 3], [3, 3]] [2, 2] q) = {3, 7}"
    by (auto simp: selected_def lessThan_Suc numeral_2_eq_2)
  ultimately show ?thesis by auto
qed

end
