(* ===== verification/Qsa_Cache.thy ===== *)
theory Qsa_Cache
  imports Qsa_Page_Props
begin

unbundle bit_operations_syntax

text \<open>
  The paged QSA cache, \<open>QsaPaged\<close> of \<open>vllm/flashnext/flashnext_ref/qsa_cache.py\<close>: a pool of byte pages, a block
  table per sequence, and the indexer state beside the pages. An operation is an action that may raise;
  a raised exception keeps the writes made before it. Arrays are lists of rows, their int32 elements are
  kept as numbers (positions stay below \<open>2 ** 31\<close>).
\<close>

record ('f, 'd) qsa_paged =
  qp_geom :: "'d qsa_geom"
  qp_table :: "nat list list"
  qp_layout :: page_layout_rec
  qp_pages :: "byte_list list"
  qp_tail :: "'f list list list"
  qp_dead :: "'f list list"
  qp_have_dead :: "bool list"
  qp_block_pos :: "int list"
  qp_n_kv :: "int list"
  qp_pos :: "int list"
  qp_pos_base :: "int list"
  qp_cos :: "'f list list"
  qp_sin :: "'f list list"
  qp_mrope :: "int list list list option"

text \<open>The shape and value checks of \<open>create\<close>, then the zeroed state.\<close>

definition qp_create :: "('f, 'd) np \<Rightarrow> 'd qsa_geom \<Rightarrow> int list list \<Rightarrow> int \<Rightarrow> bool \<Rightarrow> int list option \<Rightarrow> int list list list option
    \<Rightarrow> ('f, 'd) qsa_paged res" where
  "qp_create N g table block_size pooled pos_base mrope =
     (let batch = length table; max_blocks = length (hd table); flat = concat table in
      bindR (raise_if (batch < 1 \<or> max_blocks < 1 \<or> (\<exists>row \<in> set table. length row \<noteq> max_blocks)) (ValueError ''block_table [batch, max_blocks]'')) (\<lambda>_.
      bindR (raise_if ((\<exists>x \<in> set flat. x < 0) \<or> \<not> distinct flat) (ValueError ''block_table pages must be unique and non-negative'')) (\<lambda>_.
      bindR (make_layout g block_size pooled) (\<lambda>lay.
      bindR (case pos_base of None \<Rightarrow> Inr (replicate batch 0) | Some base \<Rightarrow>
               if length base \<noteq> batch then Inl (ValueError ''pos_base'') else Inr base) (\<lambda>base.
        let span = int max_blocks * int (pl_block_size lay) + fold max (tl base) (hd base) + 1;
            tabs = rope_tables N (nat span) (gm_n_rot g div 2) (gm_rope_base g) in
        bindR (case mrope of None \<Rightarrow> Inr ()
               | Some tab \<Rightarrow> raise_if (length tab \<noteq> batch \<or> (\<exists>cells \<in> set tab. \<exists>thw \<in> set cells. length thw \<noteq> 3)) (ValueError ''mrope [batch, cells, 3]'')) (\<lambda>_.
        Inr \<lparr>qp_geom = g, qp_table = map (map nat) table, qp_layout = lay,
             qp_pages = replicate (nat (fold max (tl flat) (hd flat)) + 1) (replicate (pl_page_bytes lay) 0),
             qp_tail = replicate batch (replicate (gm_idx_block g - 1) (replicate (gm_idx_dim g) (f_int N 0))),
             qp_dead = replicate batch (replicate (gm_idx_dim g) (f_int N 0)), qp_have_dead = replicate batch False,
             qp_block_pos = replicate batch 0, qp_n_kv = replicate batch 0, qp_pos = replicate batch (- 1),
             qp_pos_base = base, qp_cos = fst tabs, qp_sin = snd tabs, qp_mrope = mrope\<rparr>))))))"

type_synonym ('f, 'd, 'a) qp_act = "(('f, 'd) qsa_paged, 'a) act"

section \<open>Pages\<close>

text \<open>\<open>_phys\<close>: \<open>max_blocks\<close> is the width of the table.\<close>

definition qp_phys :: "('f, 'd) qsa_paged \<Rightarrow> nat \<Rightarrow> int \<Rightarrow> nat res" where
  "qp_phys s seq logical =
     bindR (np_at (qp_table s) seq) (\<lambda>row.
       if logical < 0 \<or> logical \<ge> int (length row) then Inl (IndexError ''logical block outside'') else Inr (row ! nat logical))"

definition qp_thw :: "('f, 'd) qsa_paged \<Rightarrow> nat \<Rightarrow> int \<Rightarrow> int list option res" where
  "qp_thw s seq cell = (case qp_mrope s of None \<Rightarrow> Inr None
     | Some m \<Rightarrow> bindR (np_at m seq) (\<lambda>cells. bindR (py_nth cells cell) (\<lambda>thw. Inr (Some thw))))"

text \<open>A slice that runs past the page is shorter than the other side, and the assignment raises.\<close>

definition write_bytes :: "nat \<Rightarrow> nat \<Rightarrow> byte_list \<Rightarrow> ('f, 'd, unit) qp_act" where
  "write_bytes phys off raw =
     bindA (liftA (\<lambda>s. bindR (np_at (qp_pages s) phys) (\<lambda>page.
              if off + length raw > length page then Inl (ValueError ''could not broadcast input array'') else Inr ()))) (\<lambda>_.
       modA (\<lambda>s. s\<lparr>qp_pages := (qp_pages s)[phys := put_bytes off raw (qp_pages s ! phys)]\<rparr>))"

definition read_bytes :: "('f, 'd) qsa_paged \<Rightarrow> nat \<Rightarrow> nat \<Rightarrow> nat \<Rightarrow> byte_list res" where
  "read_bytes s phys off n = bindR (np_at (qp_pages s) phys) (\<lambda>page.
     if off + n > length page then Inl (ValueError ''could not broadcast input array'') else Inr (get_bytes off n page))"

text \<open>Views of the bytes: int8 codes, fp16 scales, f32 rows.\<close>

definition bytes_of_codes :: "int list \<Rightarrow> byte_list" where "bytes_of_codes = map word_of_int"
definition codes_of_bytes :: "byte_list \<Rightarrow> int list" where "codes_of_bytes = map sint"

definition bytes_of_halves :: "('f, 'd) np \<Rightarrow> 'f list \<Rightarrow> byte_list" where
  "bytes_of_halves N xs = concat (map (f16_bytes N) xs)"

definition halves_of_bytes :: "('f, 'd) np \<Rightarrow> nat \<Rightarrow> byte_list \<Rightarrow> 'f list" where
  "halves_of_bytes N n b = map (f16_of N) (view_rows n 2 b)"

definition bytes_of_floats :: "('f, 'd) np \<Rightarrow> 'f list \<Rightarrow> byte_list" where
  "bytes_of_floats N xs = concat (map (f32_bytes N) xs)"

definition floats_of_bytes :: "('f, 'd) np \<Rightarrow> nat \<Rightarrow> byte_list \<Rightarrow> 'f list" where
  "floats_of_bytes N n b = map (f32_of N) (view_rows n 4 b)"

section \<open>KV cells\<close>

definition write_head :: "('f, 'd) np \<Rightarrow> page_layout_rec \<Rightarrow> nat \<Rightarrow> nat \<Rightarrow> (int list \<times> 'f list) list \<Rightarrow> (int list \<times> 'f list) list \<Rightarrow> nat
    \<Rightarrow> ('f, 'd, unit) qp_act" where
  "write_head N lay phys slot k v head =
     bindA (write_bytes phys (code_off lay (pl_k_codes_off lay) head slot) (bytes_of_codes (fst (k ! head)))) (\<lambda>_.
     bindA (write_bytes phys (code_off lay (pl_v_codes_off lay) head slot) (bytes_of_codes (fst (v ! head)))) (\<lambda>_.
     bindA (write_bytes phys (scale_off lay (pl_k_scale_off lay) head slot) (bytes_of_halves N (snd (k ! head)))) (\<lambda>_.
       write_bytes phys (scale_off lay (pl_v_scale_off lay) head slot) (bytes_of_halves N (snd (v ! head))))))"

definition write_kv_cell :: "('f, 'd) np \<Rightarrow> nat \<Rightarrow> int \<Rightarrow> 'f list \<Rightarrow> 'f list \<Rightarrow> ('f, 'd, unit) qp_act" where
  "write_kv_cell N seq pos k v = withA (\<lambda>s.
     let g = qp_geom s; lay = qp_layout s in
     bindA (liftA (\<lambda>_. bindR (np_reshape (gm_n_kv g) (gm_head_dim g) k) (\<lambda>kr. bindR (np_reshape (gm_n_kv g) (gm_head_dim g) v) (\<lambda>vr.
              bindR (mapR (quantize_q8 N) kr) (\<lambda>kq. bindR (mapR (quantize_q8 N) vr) (\<lambda>vq. Inr (kq, vq))))))) (\<lambda>(kq, vq).
     bindA (liftA (\<lambda>s. qp_phys s seq (pos div int (pl_block_size lay)))) (\<lambda>phys.
     bindA (mapA (write_head N lay phys (nat (pos mod int (pl_block_size lay))) kq vq) [0..<gm_n_kv g]) (\<lambda>_. retA ()))))"

definition read_head :: "('f, 'd) np \<Rightarrow> ('f, 'd) qsa_paged \<Rightarrow> nat \<Rightarrow> nat \<Rightarrow> nat \<Rightarrow> ((int list \<times> 'f list) \<times> (int list \<times> 'f list)) res" where
  "read_head N s phys slot head =
     (let lay = qp_layout s; dim = gm_head_dim (qp_geom s); gr = pl_groups lay in
      bindR (read_bytes s phys (code_off lay (pl_k_codes_off lay) head slot) dim) (\<lambda>kc.
      bindR (read_bytes s phys (code_off lay (pl_v_codes_off lay) head slot) dim) (\<lambda>vc.
      bindR (read_bytes s phys (scale_off lay (pl_k_scale_off lay) head slot) (gr * 2)) (\<lambda>ks.
      bindR (read_bytes s phys (scale_off lay (pl_v_scale_off lay) head slot) (gr * 2)) (\<lambda>vs.
        Inr ((codes_of_bytes kc, halves_of_bytes N gr ks), (codes_of_bytes vc, halves_of_bytes N gr vs)))))))"

text \<open>The heads of the cell, K and V of each.\<close>

definition read_kv_cell :: "('f, 'd) np \<Rightarrow> ('f, 'd) qsa_paged \<Rightarrow> nat \<Rightarrow> int \<Rightarrow> ((int list \<times> 'f list) \<times> (int list \<times> 'f list)) list res" where
  "read_kv_cell N s seq pos =
     (let lay = qp_layout s in
      bindR (qp_phys s seq (pos div int (pl_block_size lay))) (\<lambda>phys.
        mapR (read_head N s phys (nat (pos mod int (pl_block_size lay)))) [0..<gm_n_kv (qp_geom s)]))"

section \<open>Pooled indexer rows\<close>

definition write_pooled :: "('f, 'd) np \<Rightarrow> nat \<Rightarrow> int \<Rightarrow> 'f list \<Rightarrow> ('f, 'd, unit) qp_act" where
  "write_pooled N seq block_b row = withA (\<lambda>s.
     let lay = qp_layout s in
     if \<not> pl_pooled lay then raiseA (RuntimeError ''draft page has no pooled rows'')
     else case indexer_addr lay block_b of (logical, state) \<Rightarrow>
       if state < 0 \<or> state \<ge> int (pl_n_states lay) then raiseA (RuntimeError ''indexer state'')
       else bindA (liftA (\<lambda>s. qp_phys s seq logical)) (\<lambda>phys.
            bindA (liftA (\<lambda>_. np_vector (pl_idx_dim lay) row)) (\<lambda>vec.
              write_bytes phys (pl_pooled_off lay + nat state * pl_idx_dim lay * 4) (bytes_of_floats N vec))))"

definition read_pooled :: "('f, 'd) np \<Rightarrow> ('f, 'd) qsa_paged \<Rightarrow> nat \<Rightarrow> int \<Rightarrow> 'f list res" where
  "read_pooled N s seq block_b =
     (let lay = qp_layout s in
      case indexer_addr lay block_b of (logical, state) \<Rightarrow>
        bindR (qp_phys s seq logical) (\<lambda>phys.
        bindR (read_bytes s phys (pl_pooled_off lay + nat state * pl_idx_dim lay * 4) (pl_idx_dim lay * 4)) (\<lambda>b.
          Inr (floats_of_bytes N (pl_idx_dim lay) b))))"

section \<open>Appends\<close>

definition append_kv :: "('f, 'd) np \<Rightarrow> nat \<Rightarrow> 'f list \<Rightarrow> 'f list \<Rightarrow> int \<Rightarrow> ('f, 'd, unit) qp_act" where
  "append_kv N seq k v pos =
     bindA (liftA (\<lambda>s. bindR (np_at (qp_n_kv s) seq) (\<lambda>n. raise_if (pos \<noteq> n) (ValueError ''expected pos'')))) (\<lambda>_.
     bindA (write_kv_cell N seq pos k v) (\<lambda>_.
       modA (\<lambda>s. s\<lparr>qp_pos := (qp_pos s)[seq := pos], qp_n_kv := (qp_n_kv s)[seq := pos + 1]\<rparr>)))"

text \<open>The mean of the raw keys of a block, the completing one in double precision.\<close>

definition block_mean :: "('f, 'd) np \<Rightarrow> nat \<Rightarrow> nat \<Rightarrow> 'f list list \<Rightarrow> 'd list \<Rightarrow> 'd list" where
  "block_mean N r dim tails raw =
     (let acc = fold (\<lambda>t acc. map2 (d_add N) acc (map (to_d N) t)) tails (replicate dim (d_int N 0));
          acc = map2 (d_add N) acc raw
      in map (\<lambda>x. d_div N x (d_int N (int r))) acc)"

definition append_dead :: "('f, 'd) np \<Rightarrow> nat \<Rightarrow> 'd list \<Rightarrow> 'd list \<Rightarrow> ('f, 'd, unit) qp_act" where
  "append_dead N seq raw gamma = withA (\<lambda>s.
     bindA (liftA (\<lambda>_. apply_rope_table N (rms_double N raw gamma (gm_eps (qp_geom s))) 0 (qp_cos s) (qp_sin s) None)) (\<lambda>y.
     bindA (modA (\<lambda>s. s\<lparr>qp_dead := (qp_dead s)[seq := y], qp_have_dead := (qp_have_dead s)[seq := True]\<rparr>)) (\<lambda>_.
       write_pooled N seq 0 y)))"

definition append_block :: "('f, 'd) np \<Rightarrow> nat \<Rightarrow> 'd list \<Rightarrow> 'd list \<Rightarrow> int \<Rightarrow> ('f, 'd, unit) qp_act" where
  "append_block N seq raw gamma pos = withA (\<lambda>s.
     let g = qp_geom s; lay = qp_layout s; r = gm_idx_block g; mean = block_mean N r (gm_idx_dim g) (qp_tail s ! seq) raw;
         b = pos div int r; cell0 = b * int r; at = qp_pos_base s ! seq + cell0 in
     bindA (liftA (\<lambda>s. bindR (qp_thw s seq cell0) (apply_rope_table N (rms_double N mean gamma (gm_eps g)) at (qp_cos s) (qp_sin s)))) (\<lambda>y.
     bindA (write_pooled N seq b y) (\<lambda>_.
     bindA (if fst (indexer_addr lay (b + 1)) = fst (indexer_addr lay b) then write_pooled N seq (b + 1) (qp_dead s ! seq) else retA ()) (\<lambda>_.
       modA (\<lambda>s. s\<lparr>qp_block_pos := (qp_block_pos s)[seq := at]\<rparr>)))))"

definition append_indexer :: "('f, 'd) np \<Rightarrow> nat \<Rightarrow> 'd list \<Rightarrow> 'd list \<Rightarrow> int \<Rightarrow> ('f, 'd, unit) qp_act" where
  "append_indexer N seq raw k_norm pos = withA (\<lambda>s.
     let g = qp_geom s; r = gm_idx_block g; slot = nat (pos mod int r) in
     bindA (liftA (\<lambda>s. bindR (raise_if (\<not> pl_pooled (qp_layout s)) (RuntimeError ''draft page has no indexer'')) (\<lambda>_.
              bindR (np_at (qp_n_kv s) seq) (\<lambda>n. raise_if (pos + 1 \<noteq> n) (ValueError ''indexer pos must be the cell just appended''))))) (\<lambda>_.
     bindA (liftA (\<lambda>_. np_vector (gm_idx_dim g) raw)) (\<lambda>_.
     bindA (liftA (\<lambda>_. np_vector (gm_idx_dim g) k_norm)) (\<lambda>gamma.
     bindA (if slot < r - 1 then modA (\<lambda>s. s\<lparr>qp_tail := (qp_tail s)[seq := (qp_tail s ! seq)[slot := map (to_f N) raw]]\<rparr>) else retA ()) (\<lambda>_.
     bindA (if pos = 0 then append_dead N seq raw gamma else retA ()) (\<lambda>_.
       if slot = r - 1 then append_block N seq raw gamma pos else retA ()))))))"

definition append_token :: "('f, 'd) np \<Rightarrow> nat \<Rightarrow> 'f list \<Rightarrow> 'f list \<Rightarrow> 'd list option \<Rightarrow> 'd list option \<Rightarrow> int \<Rightarrow> ('f, 'd, unit) qp_act" where
  "append_token N seq k v raw k_norm pos =
     bindA (append_kv N seq k v pos) (\<lambda>_. withA (\<lambda>s.
       if \<not> pl_pooled (qp_layout s) then retA ()
       else case (raw, k_norm) of
         (Some x, Some gamma) \<Rightarrow> append_indexer N seq x gamma pos
       | _ \<Rightarrow> raiseA (ValueError ''pooled append needs the raw indexer key'')))"

section \<open>Queries\<close>

definition qp_scores :: "('f, 'd) np \<Rightarrow> ('f, 'd) qsa_paged \<Rightarrow> nat \<Rightarrow> 'f list \<Rightarrow> int \<Rightarrow> 'f list option \<Rightarrow> 'f list res" where
  "qp_scores N s seq q_idx n_kv bias =
     (let g = qp_geom s; r = gm_idx_block g; n_bid = n_kv div int r in
      bindR (np_at (qp_n_kv s) seq) (\<lambda>n.
      bindR (raise_if (n_kv > n) (ValueError ''query sees past the appended prefix'')) (\<lambda>_.
      bindR (raise_if (\<not> qp_have_dead s ! seq \<and> n_kv > n_bid * int r) (RuntimeError ''tail score needs the dead key'')) (\<lambda>_.
      bindR (raise_if (n_bid + 1 < 0) (ValueError ''negative dimensions are not allowed'')) (\<lambda>_.
      bindR (mapR (\<lambda>b. read_pooled N s seq (int b)) [0..<nat n_bid]) (\<lambda>rows.
      bindR (raise_if (n_bid < 0) (IndexError ''index is out of bounds'')) (\<lambda>_.
      bindR (np_reshape (gm_idx_n_head g) (gm_idx_dim g) q_idx) (\<lambda>q.
        Inr (indexer_scores N (rows @ [qp_dead s ! seq]) q (nat n_kv) (Some (nat n_bid)) r bias)))))))))"

definition qp_select :: "('f, 'd) np \<Rightarrow> ('f, 'd) qsa_paged \<Rightarrow> nat \<Rightarrow> 'f list \<Rightarrow> int \<Rightarrow> nat list res" where
  "qp_select N s seq q_idx n_kv =
     bindR (width_at (qp_geom s) n_kv) (\<lambda>width. bindR (qp_scores N s seq q_idx n_kv None) (\<lambda>sc. topk_radix N sc width))"

definition qp_gather :: "('f, 'd) np \<Rightarrow> ('f, 'd) qsa_paged \<Rightarrow> nat \<Rightarrow> int list \<Rightarrow> ('f list list list \<times> 'f list list list) res" where
  "qp_gather N s seq ids =
     bindR (mapR (\<lambda>cell. bindR (read_kv_cell N s seq cell) (\<lambda>heads.
              Inr (map (\<lambda>(k, v). dequant_q8 N (fst k) (snd k)) heads, map (\<lambda>(k, v). dequant_q8 N (fst v) (snd v)) heads))) ids) (\<lambda>cells.
       Inr (map fst cells, map snd cells))"

definition qp_attend_ids :: "('f, 'd) np \<Rightarrow> ('f, 'd) qsa_paged \<Rightarrow> nat \<Rightarrow> 'f list list \<Rightarrow> int list \<Rightarrow> 'f list list res" where
  "qp_attend_ids N s seq q ids =
     bindR (qp_gather N s seq ids) (\<lambda>(k, v).
     bindR (attend N q k v (gm_n_kv (qp_geom s))) (\<lambda>(attn, w). Inr attn))"

text \<open>\<open>attend_masked\<close>: the cells whose mask is set, in order.\<close>

definition attend_masked :: "('f, 'd) np \<Rightarrow> 'f list list \<Rightarrow> 'f list list list \<Rightarrow> 'f list list list \<Rightarrow> bool list \<Rightarrow> nat option \<Rightarrow> 'f list list res" where
  "attend_masked N query key val live n_kv_heads =
     bindR (np_matrix query) (\<lambda>_.
      if length live \<noteq> length key then Inl (ValueError ''mask'')
      else if \<not> (\<exists>b \<in> set live. b) then Inr (replicate (length query) (replicate (np_width query) (f_int N 0)))
      else let pick = (\<lambda>xs. map snd (filter fst (zip live xs)));
               n_kv = (case n_kv_heads of None \<Rightarrow> length (hd key) | Some n \<Rightarrow> n)
           in bindR (raise_if (length val \<noteq> length live) (IndexError ''boolean index did not match indexed array'')) (\<lambda>_.
              bindR (attend N query (pick key) (pick val) n_kv) (\<lambda>(attn, w). Inr attn)))"

section \<open>Decode and prefill\<close>

record ('f, 'd) prepared =
  tk_k :: "'f list"
  tk_v :: "'f list"
  tk_raw :: "'d list"
  tk_q :: "'f list list"
  tk_q_idx :: "'f list"
  tk_q_full :: "'f list list"
  tk_pos :: int

record 'f attended =
  at_ids :: "nat list"
  at_attn :: "'f list list"
  at_gated :: "'f list list"

text \<open>Select, attend and gate one token against the appended prefix it ends.\<close>

definition qp_answer :: "('f, 'd) np \<Rightarrow> nat \<Rightarrow> ('f, 'd) prepared \<Rightarrow> ('f, 'd) qsa_paged \<Rightarrow> 'f attended res" where
  "qp_answer N seq tok s =
     bindR (qp_select N s seq (tk_q_idx tok) (tk_pos tok + 1)) (\<lambda>ids.
     bindR (qp_attend_ids N s seq (tk_q tok) (map int ids)) (\<lambda>attn.
     bindR (gate_fp16 N attn (tk_q_full tok)) (\<lambda>gated.
       Inr \<lparr>at_ids = ids, at_attn = attn, at_gated = gated\<rparr>)))"

definition qp_append :: "('f, 'd) np \<Rightarrow> nat \<Rightarrow> 'd list \<Rightarrow> ('f, 'd) prepared \<Rightarrow> ('f, 'd, unit) qp_act" where
  "qp_append N seq k_norm tok = append_token N seq (tk_k tok) (tk_v tok) (Some (tk_raw tok)) (Some k_norm) (tk_pos tok)"

definition decode_prepared :: "('f, 'd) np \<Rightarrow> nat \<Rightarrow> 'd list \<Rightarrow> ('f, 'd) prepared \<Rightarrow> ('f, 'd, 'f attended) qp_act" where
  "decode_prepared N seq k_norm tok = bindA (qp_append N seq k_norm tok) (\<lambda>_. liftA (qp_answer N seq tok))"

text \<open>A chunk answers with the indexer query beside each result.\<close>

definition prefill_prepared :: "('f, 'd) np \<Rightarrow> nat \<Rightarrow> ('f, 'd) prepared list \<Rightarrow> 'd list \<Rightarrow> ('f, 'd, ('f attended \<times> 'f list) list) qp_act" where
  "prefill_prepared N seq tokens k_norm =
     bindA (mapA (qp_append N seq k_norm) tokens) (\<lambda>_. liftA (\<lambda>s.
       mapR (\<lambda>tok. bindR (qp_answer N seq tok s) (\<lambda>o1. Inr (o1, tk_q_idx tok))) tokens))"

section \<open>Export and import\<close>

definition used_logical :: "('f, 'd) qsa_paged \<Rightarrow> nat \<Rightarrow> nat list res" where
  "used_logical s seq =
     bindR (np_at (qp_n_kv s) seq) (\<lambda>n_kv. let bs = int (pl_block_size (qp_layout s)) in
       Inr [0..<nat (if n_kv \<noteq> 0 then (n_kv + bs - 1) div bs else 0)])"

record 'f exported =
  ex_pos :: int
  ex_n_kv :: int
  ex_pos_base :: int
  ex_tail :: "'f list list"
  ex_dead :: "'f list"
  ex_block_pos :: int
  ex_have_dead :: bool
  ex_block_table :: "nat list"
  ex_pages :: "byte_list list"
  ex_logical :: "nat list"

definition export_seq :: "('f, 'd) qsa_paged \<Rightarrow> nat \<Rightarrow> 'f exported res" where
  "export_seq s seq =
     bindR (used_logical s seq) (\<lambda>logical.
     bindR (mapR (\<lambda>b. bindR (qp_phys s seq (int b)) (np_at (qp_pages s))) logical) (\<lambda>pages.
       Inr \<lparr>ex_pos = qp_pos s ! seq, ex_n_kv = qp_n_kv s ! seq, ex_pos_base = qp_pos_base s ! seq, ex_tail = qp_tail s ! seq,
            ex_dead = qp_dead s ! seq, ex_block_pos = qp_block_pos s ! seq, ex_have_dead = qp_have_dead s ! seq,
            ex_block_table = qp_table s ! seq, ex_pages = pages, ex_logical = logical\<rparr>))"

text \<open>Assign one whole page of a sequence; the row of the page keeps its width.\<close>

definition set_page :: "nat \<Rightarrow> nat \<Rightarrow> (byte_list \<Rightarrow> byte_list) \<Rightarrow> ('f, 'd, unit) qp_act" where
  "set_page seq logical f =
     bindA (liftA (\<lambda>s. bindR (qp_phys s seq (int logical)) (\<lambda>phys. bindR (np_at (qp_pages s) phys) (\<lambda>_. Inr phys)))) (\<lambda>phys.
       modA (\<lambda>s. s\<lparr>qp_pages := (qp_pages s)[phys := f (qp_pages s ! phys)]\<rparr>))"

definition zero_seq :: "('f, 'd) np \<Rightarrow> nat \<Rightarrow> ('f, 'd, unit) qp_act" where
  "zero_seq N seq = withA (\<lambda>s.
     bindA (mapA (\<lambda>logical. set_page seq logical (map (\<lambda>_. 0))) [0..<length (hd (qp_table s))]) (\<lambda>_.
     bindA (liftA (\<lambda>s. np_at (qp_tail s) seq)) (\<lambda>_.
       modA (\<lambda>s. s\<lparr>qp_tail := (qp_tail s)[seq := map (map (\<lambda>_. f_int N 0)) (qp_tail s ! seq)],
                    qp_dead := (qp_dead s)[seq := map (\<lambda>_. f_int N 0) (qp_dead s ! seq)],
                    qp_have_dead := (qp_have_dead s)[seq := False], qp_block_pos := (qp_block_pos s)[seq := 0],
                    qp_n_kv := (qp_n_kv s)[seq := 0], qp_pos := (qp_pos s)[seq := - 1]\<rparr>))))"

definition import_seq :: "('f, 'd) np \<Rightarrow> nat \<Rightarrow> 'f exported \<Rightarrow> ('f, 'd, unit) qp_act" where
  "import_seq N seq blob = withA (\<lambda>s0.
     let g = qp_geom s0 in
     bindA (liftA (\<lambda>s. bindR (np_at (qp_pos_base s) seq) (\<lambda>base. raise_if (ex_pos_base blob \<noteq> base) (ValueError ''pos_base mismatch'')))) (\<lambda>_.
     bindA (liftA (\<lambda>s. raise_if (length (ex_pages blob) \<noteq> length (ex_logical blob)
              \<or> (\<exists>p \<in> set (ex_pages blob). length p \<noteq> pl_page_bytes (qp_layout s))) (ValueError ''pages''))) (\<lambda>_.
     bindA (zero_seq N seq) (\<lambda>_.
     bindA (mapA (\<lambda>(b, p). set_page seq b (\<lambda>_. p)) (zip (ex_logical blob) (ex_pages blob))) (\<lambda>_.
     bindA (liftA (\<lambda>_. np_reshape (gm_idx_block g - 1) (gm_idx_dim g) (concat (ex_tail blob)))) (\<lambda>tail.
     bindA (modA (\<lambda>s. s\<lparr>qp_tail := (qp_tail s)[seq := tail]\<rparr>)) (\<lambda>_.
     bindA (liftA (\<lambda>_. np_vector (gm_idx_dim g) (ex_dead blob))) (\<lambda>dead.
       modA (\<lambda>s. s\<lparr>qp_dead := (qp_dead s)[seq := dead], qp_block_pos := (qp_block_pos s)[seq := ex_block_pos blob],
                    qp_have_dead := (qp_have_dead s)[seq := ex_have_dead blob], qp_n_kv := (qp_n_kv s)[seq := ex_n_kv blob],
                    qp_pos := (qp_pos s)[seq := ex_pos blob]\<rparr>)))))))))"

end
