(* ===== verification/Qsa_State.thy ===== *)
theory Qsa_State
  imports Qsa_Cache
begin

text \<open>
  The single-sequence reference layer, \<open>QsaState\<close>, \<open>prepare_token\<close>, \<open>decode_token\<close>, \<open>prefill\<close> and
  \<open>prefill_chunk\<close> of \<open>vllm/flashnext/flashnext_ref/qsa_layer.py\<close>, and the table-free routines \<open>rope_neox\<close> and
  \<open>pool_indexer_keys\<close> of \<open>qsa.py\<close>. A weight matrix is the list of its rows, each norm weight has the width of
  the rows it scales.
\<close>

section \<open>Rotary positions without a table\<close>

definition rope_neox :: "('f, 'd) np \<Rightarrow> 'f list \<Rightarrow> int \<Rightarrow> nat \<Rightarrow> 'd \<Rightarrow> 'f list res" where
  "rope_neox N x pos rotary_dim base =
     (let half = rotary_dim div 2 in
      if rotary_dim > length x \<or> rotary_dim mod 2 \<noteq> 0 then Inl (ValueError ''rotary_dim must be even and <= dim'')
      else let inv = map (\<lambda>i. d_div N (d_int N 1) (d_pow N base (d_div N (d_int N (int i)) (d_int N (int half))))) [0..<half];
               ang = map (d_mul N (d_int N pos)) inv;
               c = map (\<lambda>a. to_f N (d_cos N a)) ang; s = map (\<lambda>a. to_f N (d_sin N a)) ang;
               x1 = take half x; x2 = take (rotary_dim - half) (drop half x)
           in Inr (map2 (f_sub N) (map2 (f_mul N) x1 c) (map2 (f_mul N) x2 s)
                   @ map2 (f_add N) (map2 (f_mul N) x2 c) (map2 (f_mul N) x1 s) @ drop rotary_dim x))"

text \<open>Completed blocks, then the spare row; \<open>keys[0]\<close> raises on no keys.\<close>

definition pool_indexer_keys :: "('f, 'd) np \<Rightarrow> 'f list list \<Rightarrow> 'f list \<Rightarrow> 'f \<Rightarrow> nat \<Rightarrow> nat \<Rightarrow> 'd \<Rightarrow> int \<Rightarrow> ('f list list \<times> nat) res" where
  "pool_indexer_keys N keys gamma eps block rotary_dim base pos_base =
     (let n_kv = length keys; dim = length gamma; n_bid = n_kv div block in
      if block = 0 then Inl (ZeroDivisionError ''integer division or modulo by zero'')
      else bindR (mapR (\<lambda>b. let mean = map (\<lambda>d. f_mean N (map (\<lambda>k. k ! d) (take block (drop (b * block) keys)))) [0..<dim]
                         in rope_neox N (rms_norm_rows N eps gamma mean) (pos_base + int (b * block)) (min rotary_dim dim) base) [0..<n_bid]) (\<lambda>rows.
           bindR (np_at keys 0) (\<lambda>first.
           bindR (rope_neox N (rms_norm_rows N eps gamma first) 0 (min rotary_dim dim) base) (\<lambda>spare.
             Inr (rows @ [spare], n_bid)))))"

section \<open>The state\<close>

record ('f, 'd) qsa_state =
  qs_geom :: "'d qsa_geom"
  qs_max_cells :: nat
  qs_pos_base :: int
  qs_n_kv :: int
  qs_tail :: "'f list list"
  qs_dead :: "'f list"
  qs_have_dead :: bool
  qs_max_blocks :: nat
  qs_pooled :: "'f list list"
  qs_block_pos :: int
  qs_k_q :: "int list list list list"
  qs_v_q :: "int list list list list"
  qs_k_scale :: "'f list list list list"
  qs_v_scale :: "'f list list list list"
  qs_page_table :: "nat list"
  qs_cos :: "'f list list"
  qs_sin :: "'f list list"
  qs_mrope :: "int list list option"

definition zero_pool :: "nat \<Rightarrow> 'd qsa_geom \<Rightarrow> nat \<Rightarrow> 'a \<Rightarrow> 'a list list list list" where
  "zero_pool pages g width z = replicate pages (replicate (gm_n_kv g) (replicate (gm_page_size g) (replicate width z)))"

definition qs_init :: "('f, 'd) np \<Rightarrow> int \<Rightarrow> 'd qsa_geom \<Rightarrow> int \<Rightarrow> ('f, 'd) qsa_state res" where
  "qs_init N max_cells g pos_base =
     bindR (raise_if (max_cells < 1) (ValueError ''max_cells'')) (\<lambda>_.
     bindR (raise_if (gm_head_dim g mod KV_Q8_GROUP \<noteq> 0) (ValueError ''head_dim must be a multiple of 64'')) (\<lambda>_.
     bindR (raise_if (gm_idx_block g = 0) (ValueError ''negative dimensions are not allowed'')) (\<lambda>_.
     bindR (raise_if (gm_page_size g = 0) (ZeroDivisionError ''integer division or modulo by zero'')) (\<lambda>_.
       let r = gm_idx_block g; mc = nat max_cells; max_blocks = mc div r + 1;
           pages = (mc + gm_page_size g - 1) div gm_page_size g; groups = gm_head_dim g div KV_Q8_GROUP; z = f_int N 0;
           tabs = rope_tables N (nat (max_cells + max pos_base 0 + 1)) (gm_n_rot g div 2) (gm_rope_base g)
       in Inr \<lparr>qs_geom = g, qs_max_cells = mc, qs_pos_base = pos_base, qs_n_kv = 0, qs_tail = replicate (r - 1) (replicate (gm_idx_dim g) z),
               qs_dead = replicate (gm_idx_dim g) z, qs_have_dead = False, qs_max_blocks = max_blocks,
               qs_pooled = replicate max_blocks (replicate (gm_idx_dim g) z), qs_block_pos = 0,
               qs_k_q = zero_pool pages g (gm_head_dim g) 0, qs_v_q = zero_pool pages g (gm_head_dim g) 0,
               qs_k_scale = zero_pool pages g groups z, qs_v_scale = zero_pool pages g groups z,
               qs_page_table = [0..<pages], qs_cos = fst tabs, qs_sin = snd tabs, qs_mrope = None\<rparr>))))"

type_synonym ('f, 'd, 'a) qs_act = "(('f, 'd) qsa_state, 'a) act"

definition qs_set_mrope :: "int list list option \<Rightarrow> ('f, 'd, unit) qs_act" where
  "qs_set_mrope tab =
     bindA (liftA (\<lambda>_. case tab of None \<Rightarrow> Inr () | Some rows \<Rightarrow> raise_if (\<exists>row \<in> set rows. length row \<noteq> 3) (ValueError ''mrope table is [cells, 3]''))) (\<lambda>_.
       modA (\<lambda>s. s\<lparr>qs_mrope := tab\<rparr>))"

definition qs_rot_thw :: "('f, 'd) qsa_state \<Rightarrow> int \<Rightarrow> int list option res" where
  "qs_rot_thw s cell = (case qs_mrope s of None \<Rightarrow> Inr None | Some m \<Rightarrow> bindR (py_nth m cell) (\<lambda>thw. Inr (Some thw)))"

definition qs_rot_pos :: "('f, 'd) qsa_state \<Rightarrow> int \<Rightarrow> int" where
  "qs_rot_pos s cell = qs_pos_base s + cell"

text \<open>\<open>xs[i] = v\<close>; a negative index counts from the end.\<close>

definition py_set :: "'a list \<Rightarrow> int \<Rightarrow> 'a \<Rightarrow> 'a list res" where
  "py_set xs i v = (case py_pos (length xs) i of None \<Rightarrow> Inl (IndexError ''index is out of bounds'') | Some p \<Rightarrow> Inr (xs[p := v]))"

definition set_pooled :: "int \<Rightarrow> 'f list \<Rightarrow> ('f, 'd, unit) qs_act" where
  "set_pooled b row = bindA (liftA (\<lambda>s. py_set (qs_pooled s) b row)) (\<lambda>pooled. modA (\<lambda>s. s\<lparr>qs_pooled := pooled\<rparr>))"

section \<open>Appends\<close>

definition qs_append_dead :: "('f, 'd) np \<Rightarrow> 'd list \<Rightarrow> 'd list \<Rightarrow> ('f, 'd, unit) qs_act" where
  "qs_append_dead N raw gamma = withA (\<lambda>s.
     bindA (liftA (\<lambda>_. apply_rope_table N (rms_double N raw gamma (gm_eps (qs_geom s))) 0 (qs_cos s) (qs_sin s) None)) (\<lambda>y.
     bindA (modA (\<lambda>s. s\<lparr>qs_dead := y\<rparr>)) (\<lambda>_.
     bindA (set_pooled 0 y) (\<lambda>_. modA (\<lambda>s. s\<lparr>qs_have_dead := True\<rparr>)))))"

definition qs_append_block :: "('f, 'd) np \<Rightarrow> 'd list \<Rightarrow> 'd list \<Rightarrow> int \<Rightarrow> ('f, 'd, unit) qs_act" where
  "qs_append_block N raw gamma pos = withA (\<lambda>s.
     let g = qs_geom s; r = gm_idx_block g; mean = block_mean N r (gm_idx_dim g) (qs_tail s) raw; b = pos div int r; cell0 = b * int r in
     bindA (liftA (\<lambda>s. bindR (qs_rot_thw s cell0) (apply_rope_table N (rms_double N mean gamma (gm_eps g)) (qs_rot_pos s cell0) (qs_cos s) (qs_sin s)))) (\<lambda>y.
     bindA (set_pooled b y) (\<lambda>_.
     bindA (set_pooled (b + 1) (qs_dead s)) (\<lambda>_.
       modA (\<lambda>s. s\<lparr>qs_block_pos := qs_rot_pos s cell0\<rparr>)))))"

definition qs_append_indexer :: "('f, 'd) np \<Rightarrow> 'd list \<Rightarrow> 'd list \<Rightarrow> int \<Rightarrow> ('f, 'd, unit) qs_act" where
  "qs_append_indexer N raw k_norm pos = withA (\<lambda>s.
     let g = qs_geom s; r = gm_idx_block g; slot = nat (pos mod int r) in
     bindA (liftA (\<lambda>_. np_vector (gm_idx_dim g) raw)) (\<lambda>_.
     bindA (liftA (\<lambda>_. np_vector (gm_idx_dim g) k_norm)) (\<lambda>gamma.
     bindA (if slot < r - 1 then modA (\<lambda>s. s\<lparr>qs_tail := (qs_tail s)[slot := map (to_f N) raw]\<rparr>) else retA ()) (\<lambda>_.
     bindA (if pos = 0 then qs_append_dead N raw gamma else retA ()) (\<lambda>_.
     bindA (if slot = r - 1 then qs_append_block N raw gamma pos else retA ()) (\<lambda>_.
       modA (\<lambda>s. s\<lparr>qs_n_kv := pos + 1\<rparr>)))))))"

text \<open>\<open>pool[phys, :, slot, :] = rows\<close>, one row per head.\<close>

definition put_slot :: "nat \<Rightarrow> nat \<Rightarrow> 'a list list \<Rightarrow> 'a list list list list \<Rightarrow> 'a list list list list" where
  "put_slot phys slot rows pool = pool[phys := map2 (\<lambda>head row. head[slot := row]) (pool ! phys) rows]"

definition get_slot :: "nat \<Rightarrow> nat \<Rightarrow> 'a list list list list \<Rightarrow> 'a list list" where
  "get_slot phys slot pool = map (\<lambda>head. head ! slot) (pool ! phys)"

definition qs_phys :: "('f, 'd) qsa_state \<Rightarrow> int \<Rightarrow> nat res" where
  "qs_phys s page_i = bindR (py_nth (qs_page_table s) page_i) (\<lambda>phys. bindR (np_at (qs_k_q s) phys) (\<lambda>_. Inr phys))"

definition qs_append_kv :: "('f, 'd) np \<Rightarrow> 'f list \<Rightarrow> 'f list \<Rightarrow> int \<Rightarrow> ('f, 'd, unit) qs_act" where
  "qs_append_kv N k v pos = withA (\<lambda>s.
     let g = qs_geom s; slot = nat (pos mod int (gm_page_size g)) in
     bindA (liftA (\<lambda>_. bindR (np_reshape (gm_n_kv g) (gm_head_dim g) k) (\<lambda>kr. bindR (np_reshape (gm_n_kv g) (gm_head_dim g) v) (\<lambda>vr.
              bindR (mapR (quantize_q8 N) kr) (\<lambda>kq. bindR (mapR (quantize_q8 N) vr) (\<lambda>vq. Inr (kq, vq))))))) (\<lambda>(kq, vq).
     bindA (liftA (\<lambda>s. qs_phys s (pos div int (gm_page_size g)))) (\<lambda>phys.
       modA (\<lambda>s. s\<lparr>qs_k_q := put_slot phys slot (map fst kq) (qs_k_q s), qs_v_q := put_slot phys slot (map fst vq) (qs_v_q s),
                    qs_k_scale := put_slot phys slot (map snd kq) (qs_k_scale s), qs_v_scale := put_slot phys slot (map snd vq) (qs_v_scale s)\<rparr>))))"

section \<open>Queries\<close>

text \<open>A query of a non-negative length; \<open>view[:n_bid] = pooled[:n_bid]\<close> broadcasts a single row.\<close>

definition qs_scores :: "('f, 'd) np \<Rightarrow> ('f, 'd) qsa_state \<Rightarrow> 'f list \<Rightarrow> nat \<Rightarrow> 'f list option \<Rightarrow> 'f list res" where
  "qs_scores N s q_idx n_kv bias =
     (let g = qs_geom s; r = gm_idx_block g; n_bid = n_kv div r; pooled = qs_pooled s in
      bindR (np_reshape (gm_idx_n_head g) (gm_idx_dim g) q_idx) (\<lambda>q.
      bindR (raise_if (\<not> qs_have_dead s \<and> n_kv > n_bid * r) (RuntimeError ''tail score needs the dead key'')) (\<lambda>_.
      bindR (if n_bid \<le> length pooled then Inr (take n_bid pooled)
             else if length pooled = 1 then Inr (replicate n_bid (pooled ! 0))
             else Inl (ValueError ''could not broadcast input array'')) (\<lambda>rows.
        Inr (indexer_scores N (rows @ [qs_dead s]) q n_kv (Some n_bid) r bias)))))"

definition qs_select :: "('f, 'd) np \<Rightarrow> ('f, 'd) qsa_state \<Rightarrow> 'f list \<Rightarrow> int \<Rightarrow> nat list res" where
  "qs_select N s q_idx n_kv =
     bindR (width_at (qs_geom s) n_kv) (\<lambda>width. bindR (qs_scores N s q_idx (nat n_kv) None) (\<lambda>sc. topk_radix N sc width))"

definition gather_cell :: "('f, 'd) np \<Rightarrow> ('f, 'd) qsa_state \<Rightarrow> int \<Rightarrow> ('f list list \<times> 'f list list) res" where
  "gather_cell N s cell =
     (let pg = int (gm_page_size (qs_geom s)); slot = nat (cell mod pg) in
      bindR (qs_phys s (cell div pg)) (\<lambda>phys.
        Inr (map2 (dequant_q8 N) (get_slot phys slot (qs_k_q s)) (get_slot phys slot (qs_k_scale s)),
             map2 (dequant_q8 N) (get_slot phys slot (qs_v_q s)) (get_slot phys slot (qs_v_scale s)))))"

definition qs_gather :: "('f, 'd) np \<Rightarrow> ('f, 'd) qsa_state \<Rightarrow> int list \<Rightarrow> ('f list list list \<times> 'f list list list) res" where
  "qs_gather N s ids = bindR (mapR (gather_cell N s) ids) (\<lambda>cells. Inr (map fst cells, map snd cells))"

definition qs_attend_ids :: "('f, 'd) np \<Rightarrow> 'f list list \<Rightarrow> ('f, 'd) qsa_state \<Rightarrow> int list \<Rightarrow> ('f list list \<times> 'f list list) res" where
  "qs_attend_ids N q s ids =
     bindR (qs_gather N s ids) (\<lambda>(k, v). attend N q k v (gm_n_kv (qs_geom s)))"

section \<open>The layer\<close>

record 'f qsa_weights =
  w_q :: "'f list list"
  w_k :: "'f list list"
  w_v :: "'f list list"
  w_o :: "'f list list"
  w_q_norm :: "'f list"
  w_k_norm :: "'f list"
  w_idx_q :: "'f list list"
  w_idx_k :: "'f list list"
  w_idx_q_norm :: "'f list"
  w_idx_k_norm :: "'f list"

definition project :: "('f, 'd) np \<Rightarrow> 'f list \<Rightarrow> 'f list list \<Rightarrow> 'f list res" where
  "project N x w =
     (if length x \<noteq> length w then Inl (ValueError ''matmul: mismatch in its core dimension'')
      else Inr (map (f_vecmat N x w) [0..<tab_half w]))"

definition norm_heads :: "('f, 'd) np \<Rightarrow> 'd \<Rightarrow> 'f list \<Rightarrow> 'f list list \<Rightarrow> 'f list list" where
  "norm_heads N eps gamma = map (rms_norm_rows N (to_f N eps) gamma)"

definition rope_rows :: "('f, 'd) np \<Rightarrow> int \<Rightarrow> 'f list list \<Rightarrow> 'f list list \<Rightarrow> int list option \<Rightarrow> 'f list list \<Rightarrow> 'f list list res" where
  "rope_rows N pos cs sn thw = mapR (\<lambda>x. apply_rope_table N x pos cs sn thw)"

record 'f qs_token =
  qt_q_full :: "'f list list"
  qt_q :: "'f list list"
  qt_k :: "'f list list"
  qt_v :: "'f list list"
  qt_q_idx :: "'f list list"
  qt_raw :: "'f list"

definition prepare_token :: "('f, 'd) np \<Rightarrow> 'f list \<Rightarrow> 'f qsa_weights \<Rightarrow> 'd qsa_geom \<Rightarrow> int \<Rightarrow> 'f list list \<Rightarrow> 'f list list \<Rightarrow> int list option
    \<Rightarrow> 'f qs_token res" where
  "prepare_token N x W g pos cos_tab sin_tab thw =
     bindR (bindR (project N x (w_q W)) (np_reshape (gm_n_head g) (2 * gm_head_dim g))) (\<lambda>q_full.
     bindR (bindR (project N x (w_k W)) (np_reshape (gm_n_kv g) (gm_head_dim g))) (\<lambda>k.
     bindR (bindR (project N x (w_v W)) (np_reshape (gm_n_kv g) (gm_head_dim g))) (\<lambda>v.
     bindR (rope_rows N pos cos_tab sin_tab thw (norm_heads N (gm_eps g) (w_q_norm W) (map (take (gm_head_dim g)) q_full))) (\<lambda>q.
     bindR (rope_rows N pos cos_tab sin_tab thw (norm_heads N (gm_eps g) (w_k_norm W) k)) (\<lambda>k.
     bindR (bindR (project N x (w_idx_q W)) (np_reshape (gm_idx_n_head g) (gm_idx_dim g))) (\<lambda>iq.
     bindR (rope_rows N pos cos_tab sin_tab thw (norm_heads N (gm_eps g) (w_idx_q_norm W) iq)) (\<lambda>iq.
     bindR (bindR (project N x (w_idx_k W)) (np_vector (gm_idx_dim g))) (\<lambda>raw.
       Inr \<lparr>qt_q_full = q_full, qt_q = q, qt_k = k, qt_v = v, qt_q_idx = iq, qt_raw = raw\<rparr>))))))))"

record 'f qs_reply =
  qr_ids :: "nat list"
  qr_attn :: "'f list list"
  qr_gated :: "'f list list"
  qr_y :: "'f list"

definition qs_prepare :: "('f, 'd) np \<Rightarrow> 'f qsa_weights \<Rightarrow> 'f list \<times> int \<Rightarrow> int list option \<Rightarrow> ('f, 'd) qsa_state \<Rightarrow> 'f qs_token res" where
  "qs_prepare N W x thw s =
     bindR (case thw of None \<Rightarrow> qs_rot_thw s (snd x) | Some t \<Rightarrow> Inr (Some t)) (\<lambda>thw.
       prepare_token N (fst x) W (qs_geom s) (qs_pos_base s + snd x) (qs_cos s) (qs_sin s) thw)"

definition qs_append :: "('f, 'd) np \<Rightarrow> 'f qsa_weights \<Rightarrow> 'f qs_token \<times> int \<Rightarrow> ('f, 'd, unit) qs_act" where
  "qs_append N W x =
     bindA (qs_append_kv N (concat (qt_k (fst x))) (concat (qt_v (fst x))) (snd x)) (\<lambda>_.
       qs_append_indexer N (map (to_d N) (qt_raw (fst x))) (map (to_d N) (w_idx_k_norm W)) (snd x))"

definition qs_answer :: "('f, 'd) np \<Rightarrow> 'f qsa_weights \<Rightarrow> 'f qs_token \<times> int \<Rightarrow> ('f, 'd) qsa_state \<Rightarrow> 'f qs_reply res" where
  "qs_answer N W x s =
     bindR (qs_select N s (concat (qt_q_idx (fst x))) (snd x + 1)) (\<lambda>ids.
     bindR (qs_attend_ids N (qt_q (fst x)) s (map int ids)) (\<lambda>(attn, w).
     bindR (gate_fp16 N attn (qt_q_full (fst x))) (\<lambda>gated.
       bindR (project N (concat gated) (w_o W)) (\<lambda>y. Inr \<lparr>qr_ids = ids, qr_attn = attn, qr_gated = gated, qr_y = y\<rparr>))))"

definition decode_token :: "('f, 'd) np \<Rightarrow> 'f qsa_weights \<Rightarrow> 'f list \<times> int \<Rightarrow> int list option \<Rightarrow> ('f, 'd, 'f qs_reply \<times> 'f qs_token) qs_act" where
  "decode_token N W x thw =
     bindA (liftA (qs_prepare N W x thw)) (\<lambda>tok.
     bindA (qs_append N W (tok, snd x)) (\<lambda>_.
     bindA (liftA (qs_answer N W (tok, snd x))) (\<lambda>o1. retA (o1, tok))))"

text \<open>The rows of a chunk with their cells.\<close>

definition chunk_cells :: "'f list list \<Rightarrow> int \<Rightarrow> ('f list \<times> int) list" where
  "chunk_cells xs pos0 = zip xs (map (\<lambda>i. pos0 + int i) [0..<length xs])"

definition qs_prefill :: "('f, 'd) np \<Rightarrow> 'f qsa_weights \<Rightarrow> 'f list list \<Rightarrow> int \<Rightarrow> ('f, 'd, ('f qs_reply \<times> 'f qs_token) list) qs_act" where
  "qs_prefill N W xs pos0 = mapA (\<lambda>x. decode_token N W x None) (chunk_cells xs pos0)"

definition qs_prefill_chunk :: "('f, 'd) np \<Rightarrow> 'f qsa_weights \<Rightarrow> 'f list list \<Rightarrow> int \<Rightarrow> ('f, 'd, ('f qs_reply \<times> 'f list list) list) qs_act" where
  "qs_prefill_chunk N W xs pos0 =
     bindA (mapA (\<lambda>x. bindA (liftA (qs_prepare N W x None)) (\<lambda>tok. bindA (qs_append N W (tok, snd x)) (\<lambda>_. retA (tok, snd x))))
              (chunk_cells xs pos0)) (\<lambda>prepared. liftA (\<lambda>s.
       mapR (\<lambda>t. bindR (qs_answer N W t s) (\<lambda>o1. Inr (o1, qt_q_idx (fst t)))) prepared))"

section \<open>vLLM's whole-block selection\<close>

definition vllm_block_expand_ids :: "('f, 'd) np \<Rightarrow> 'f list \<Rightarrow> nat \<Rightarrow> 'd qsa_geom \<Rightarrow> nat list res" where
  "vllm_block_expand_ids N scores n_kv g =
     (let r = gm_idx_block g; n_bid = n_kv div r; n_tail = n_kv - n_bid * r; keep_blocks = gm_idx_top_k g div r in
      if r = 0 then Inl (ZeroDivisionError ''integer division or modulo by zero'')
      else if n_bid = 0 then Inr [0..<n_kv]
      else if length scores < n_bid * r then Inl (ValueError ''cannot reshape array'')
      else let order = sort_key (\<lambda>b. f_place N (f_neg N (scores ! (b * r)))) [0..<n_bid];
               chosen = take (min keep_blocks n_bid) order;
               cells = concat (map (\<lambda>b. [b * r..<(b + 1) * r]) chosen) @ [n_bid * r..<n_bid * r + n_tail]
           in Inr (sort cells))"

end
