(* ===== verification/Qsa_Pool.thy ===== *)
theory Qsa_Pool
  imports Qsa_Cache
begin

text \<open>
  The page pool of the cache as a store of fields: a place is a sequence, a logical block and a field of
  its page. Block tables name distinct pages, so a write of one place keeps every other place, and each
  operation of the cache is a list of field writes.
\<close>

section \<open>The pool as a field store\<close>

type_synonym pool_key = "page_layout_rec \<times> nat list list"
type_synonym place = "nat \<times> nat \<times> field"

definition pool_get :: "pool_key \<Rightarrow> place \<Rightarrow> byte_list list \<Rightarrow> byte_list" where
  "pool_get = (\<lambda>(lay, tb) (q, l, f) pages. get_field lay f (pages ! (tb ! q ! l)))"

definition pool_put :: "pool_key \<Rightarrow> place \<Rightarrow> byte_list \<Rightarrow> byte_list list \<Rightarrow> byte_list list" where
  "pool_put = (\<lambda>(lay, tb) (q, l, f) b pages. pages[tb ! q ! l := put_field lay f b (pages ! (tb ! q ! l))])"

definition pool_ok :: "pool_key \<Rightarrow> place \<Rightarrow> bool" where
  "pool_ok = (\<lambda>(lay, tb) (q, l, f). q < length tb \<and> l < length (tb ! q) \<and> field_ok lay f)"

definition pool_fits :: "pool_key \<Rightarrow> place \<Rightarrow> byte_list \<Rightarrow> bool" where
  "pool_fits = (\<lambda>(lay, tb) (q, l, f) b. field_fits lay f b)"

definition pool_inv :: "pool_key \<Rightarrow> byte_list list \<Rightarrow> bool" where
  "pool_inv = (\<lambda>(lay, tb) pages. lay_ok lay \<and> distinct (concat tb) \<and> (\<forall>p \<in> set (concat tb). p < length pages)
     \<and> (\<forall>pg \<in> set pages. length pg = pl_page_bytes lay))"

lemma table_mem: "q < length tb \<Longrightarrow> l < length (tb ! q) \<Longrightarrow> tb ! q ! l \<in> set (concat tb)"
  by (auto intro!: bexI [of _ "tb ! q"])

lemma table_inj:
  "distinct (concat tb) \<Longrightarrow> q < length tb \<Longrightarrow> l < length (tb ! q) \<Longrightarrow> q' < length tb \<Longrightarrow> l' < length (tb ! q') \<Longrightarrow>
     tb ! q ! l = tb ! q' ! l' \<Longrightarrow> q = q' \<and> l = l'"
proof (induction tb arbitrary: q q')
  case (Cons r tb)
  have no: "r ! i \<noteq> tb ! j ! k" if "i < length r" "j < length tb" "k < length (tb ! j)" for i j k
    using Cons.prems(1) table_mem [OF that(2,3)] nth_mem [OF that(1)] by auto
  show ?case
  proof (cases q; cases q')
    assume z: "q = 0" "q' = 0"
    then show ?thesis using Cons.prems by (simp add: nth_eq_iff_index_eq)
  next
    fix n assume "q = 0" "q' = Suc n"
    then show ?thesis using Cons.prems no by simp
  next
    fix n assume "q = Suc n" "q' = 0"
    then show ?thesis using Cons.prems no [of l' n l] by simp
  next
    fix n m assume "q = Suc n" "q' = Suc m"
    then show ?thesis using Cons.IH [of n m] Cons.prems by simp
  qed
qed simp

lemma pool_page:
  "pool_inv (lay, tb) pages \<Longrightarrow> pool_ok (lay, tb) (q, l, f) \<Longrightarrow> tb ! q ! l < length pages \<and> page_inv lay (pages ! (tb ! q ! l))"
proof -
  assume i: "pool_inv (lay, tb) pages" and o1: "pool_ok (lay, tb) (q, l, f)"
  have mem: "tb ! q ! l \<in> set (concat tb)" using o1 by (intro table_mem) (simp_all add: pool_ok_def)
  then have "tb ! q ! l < length pages" using i unfolding pool_inv_def by blast
  then show ?thesis using i by (simp add: pool_inv_def page_inv_def)
qed

interpretation pool: field_store pool_get pool_put pool_ok pool_fits pool_inv
proof unfold_locales
  fix key pages a b
  assume inv: "pool_inv key pages" and ok: "pool_ok key a" and fits: "pool_fits key a b"
  obtain lay tb where key: "key = (lay, tb)" by force
  obtain q l f where a: "a = (q, l, f)" by (metis prod_cases3)
  have pg: "tb ! q ! l < length pages" "page_inv lay (pages ! (tb ! q ! l))" using pool_page inv ok by (auto simp: key a)
  have f: "field_ok lay f" "field_fits lay f b" using ok fits by (simp_all add: key a pool_ok_def pool_fits_def)
  have len: "length (put_field lay f b (pages ! (tb ! q ! l))) = pl_page_bytes lay"
    using page.inv_put [OF pg(2) f] by (simp add: page_inv_def)
  show "pool_inv key (pool_put key a b pages)"
    using inv len unfolding key a pool_inv_def pool_put_def by (auto dest!: set_update_subset_insert [THEN subsetD])
  show "pool_get key a (pool_put key a b pages) = b"
    using pg f by (simp add: key a pool_get_def pool_put_def page.get_put_same)
  fix a' assume ok': "pool_ok key a'" and ne: "a' \<noteq> a"
  obtain q' l' f' where a': "a' = (q', l', f')" by (metis prod_cases3)
  show "pool_get key a' (pool_put key a b pages) = pool_get key a' pages"
  proof (cases "tb ! q' ! l' = tb ! q ! l")
    case True
    then have "q' = q" "l' = l" using table_inj [of tb q' l' q l] inv ok ok' by (auto simp: key a a' pool_inv_def pool_ok_def)
    then show ?thesis using ne pg f ok' by (simp add: key a a' pool_get_def pool_put_def pool_ok_def page.get_put_other)
  next
    case False
    then show ?thesis by (simp add: key a a' pool_get_def pool_put_def)
  qed
qed

section \<open>States of the cache\<close>

abbreviation qp_key :: "('f, 'd) qsa_paged \<Rightarrow> pool_key" where "qp_key s \<equiv> (qp_layout s, qp_table s)"

definition qp_ok :: "('f, 'd) qsa_paged \<Rightarrow> bool" where
  "qp_ok s \<longleftrightarrow> pool_inv (qp_key s) (qp_pages s)
     \<and> pl_n_kv (qp_layout s) = gm_n_kv (qp_geom s) \<and> pl_head_dim (qp_layout s) = gm_head_dim (qp_geom s)
     \<and> pl_idx_dim (qp_layout s) = gm_idx_dim (qp_geom s) \<and> pl_idx_block (qp_layout s) = gm_idx_block (qp_geom s)
     \<and> (\<forall>row \<in> set (qp_table s). length row = length (hd (qp_table s)))
     \<and> length (qp_tail s) = length (qp_table s) \<and> length (qp_dead s) = length (qp_table s)
     \<and> length (qp_have_dead s) = length (qp_table s) \<and> length (qp_block_pos s) = length (qp_table s)
     \<and> length (qp_n_kv s) = length (qp_table s) \<and> length (qp_pos s) = length (qp_table s)
     \<and> length (qp_pos_base s) = length (qp_table s) \<and> (\<forall>n \<in> set (qp_n_kv s). 0 \<le> n)
     \<and> (\<forall>t \<in> set (qp_tail s). length t = gm_idx_block (qp_geom s) - 1 \<and> (\<forall>x \<in> set t. length x = gm_idx_dim (qp_geom s)))"

text \<open>A list of field writes.\<close>

definition qp_put :: "(place \<times> byte_list) list \<Rightarrow> ('f, 'd) qsa_paged \<Rightarrow> ('f, 'd) qsa_paged" where
  "qp_put ws s = s\<lparr>qp_pages := fold (\<lambda>(a, b). pool_put (qp_key s) a b) ws (qp_pages s)\<rparr>"

definition writes_ok :: "('f, 'd) qsa_paged \<Rightarrow> (place \<times> byte_list) list \<Rightarrow> bool" where
  "writes_ok s ws \<longleftrightarrow> (\<forall>(a, b) \<in> set ws. pool_ok (qp_key s) a \<and> pool_fits (qp_key s) a b)"

lemma qp_put_sel [simp]:
  "qp_geom (qp_put ws s) = qp_geom s" "qp_table (qp_put ws s) = qp_table s" "qp_layout (qp_put ws s) = qp_layout s"
  "qp_tail (qp_put ws s) = qp_tail s" "qp_dead (qp_put ws s) = qp_dead s" "qp_have_dead (qp_put ws s) = qp_have_dead s"
  "qp_block_pos (qp_put ws s) = qp_block_pos s" "qp_n_kv (qp_put ws s) = qp_n_kv s" "qp_pos (qp_put ws s) = qp_pos s"
  "qp_pos_base (qp_put ws s) = qp_pos_base s" "qp_cos (qp_put ws s) = qp_cos s" "qp_sin (qp_put ws s) = qp_sin s"
  "qp_mrope (qp_put ws s) = qp_mrope s"
  by (simp_all add: qp_put_def)

lemma qp_put_Nil [simp]: "qp_put [] s = s"
  by (simp add: qp_put_def)

lemma qp_put_append: "qp_put (ws @ vs) s = qp_put vs (qp_put ws s)"
  by (simp add: qp_put_def)

lemma writes_ok_simps [simp]:
  "writes_ok s []" "writes_ok s (ws @ vs) \<longleftrightarrow> writes_ok s ws \<and> writes_ok s vs"
  "writes_ok (qp_put us s) ws = writes_ok s ws"
  "writes_ok s ((a, b) # ws) \<longleftrightarrow> pool_ok (qp_key s) a \<and> pool_fits (qp_key s) a b \<and> writes_ok s ws"
  by (auto simp: writes_ok_def)

lemma qp_ok_put: "qp_ok s \<Longrightarrow> writes_ok s ws \<Longrightarrow> qp_ok (qp_put ws s)"
proof -
  assume s: "qp_ok s" and ws: "writes_ok s ws"
  have "pool_inv (qp_key s) (fold (\<lambda>(a, b). pool_put (qp_key s) a b) ws (qp_pages s))"
    using s ws by (intro pool.inv_puts) (simp_all add: qp_ok_def writes_ok_def)
  then show ?thesis using s by (simp add: qp_ok_def) (simp add: qp_put_def)
qed

lemma write_bytes_run:
  assumes s: "qp_ok s" and ok: "pool_ok (qp_key s) (q, l, f)" and fits: "pool_fits (qp_key s) (q, l, f) raw"
  shows "write_bytes (qp_table s ! q ! l) (field_off (qp_layout s) f) raw s = (Inr (), qp_put [((q, l, f), raw)] s)"
proof -
  have pg: "qp_table s ! q ! l < length (qp_pages s)" "page_inv (qp_layout s) (qp_pages s ! (qp_table s ! q ! l))"
    using pool_page [OF _ ok] s by (auto simp: qp_ok_def)
  have "field_off (qp_layout s) f + length raw \<le> length (qp_pages s ! (qp_table s ! q ! l))"
    using field_in_page [of "qp_layout s" f] pg(2) ok fits
    by (simp add: page_inv_def pool_ok_def pool_fits_def field_fits_def)
  then show ?thesis using pg(1) by (simp add: write_bytes_def bindA_run act_run qp_put_def pool_put_def put_field_def)
qed

lemma read_bytes_run:
  assumes s: "qp_ok s" and ok: "pool_ok (qp_key s) (q, l, f)"
  shows "read_bytes s (qp_table s ! q ! l) (field_off (qp_layout s) f) (field_len (qp_layout s) f)
    = Inr (pool_get (qp_key s) (q, l, f) (qp_pages s))"
proof -
  have pg: "qp_table s ! q ! l < length (qp_pages s)" "page_inv (qp_layout s) (qp_pages s ! (qp_table s ! q ! l))"
    using pool_page [OF _ ok] s by (auto simp: qp_ok_def)
  then show ?thesis using field_in_page [of "qp_layout s" f] ok
    by (simp add: page_inv_def pool_ok_def read_bytes_def pool_get_def get_field_def)
qed

lemma qp_phys_run:
  "qp_phys s q l = (if q < length (qp_table s) \<and> 0 \<le> l \<and> l < int (length (qp_table s ! q)) then Inr (qp_table s ! q ! nat l)
     else Inl (IndexError (if q < length (qp_table s) then ''logical block outside'' else ''index is out of bounds'')))"
  by (auto simp: qp_phys_def np_at_def)

section \<open>Offsets are fields\<close>

lemma code_off_field:
  "code_off lay (pl_k_codes_off lay) h slot = field_off lay (KCode h slot)"
  "code_off lay (pl_v_codes_off lay) h slot = field_off lay (VCode h slot)"
  "scale_off lay (pl_k_scale_off lay) h slot = field_off lay (KScale h slot)"
  "scale_off lay (pl_v_scale_off lay) h slot = field_off lay (VScale h slot)"
  "pl_pooled_off lay + st * pl_idx_dim lay * 4 = field_off lay (Pooled st)"
  by (simp_all add: code_off_def scale_off_def field_off_def mult.assoc)

lemma field_len_simps [simp]:
  "field_len lay (KCode h slot) = pl_head_dim lay" "field_len lay (VCode h slot) = pl_head_dim lay"
  "field_len lay (KScale h slot) = pl_groups lay * 2" "field_len lay (VScale h slot) = pl_groups lay * 2"
  "field_len lay (Pooled st) = pl_idx_dim lay * 4"
  by (simp_all add: field_len_def)

text \<open>The block and state of an indexer row.\<close>

lemma indexer_addr_run:
  assumes "lay_ok lay"
  shows "indexer_addr lay (int b) = (int (b div pl_n_states lay), int (b mod pl_n_states lay))" "0 < pl_n_states lay"
proof -
  define m r where "m = pl_n_states lay" and "r = pl_idx_block lay"
  have bs: "pl_block_size lay = m * r" and r: "0 < r" and m: "0 < m"
    using assms by (auto simp: lay_ok_def m_def r_def Let_def intro!: Nat.gr0I)
  have "int b * int r div int (m * r) = int (b div m)" using r by (simp flip: of_nat_mult of_nat_div add: div_mult_mult2)
  moreover have "int b * int r mod int (m * r) div int r = int (b mod m)"
    using r by (simp flip: of_nat_mult of_nat_div of_nat_mod add: mult_mod_right [symmetric] mult.commute [of _ r])
  ultimately show "indexer_addr lay (int b) = (int (b div pl_n_states lay), int (b mod pl_n_states lay))"
    by (simp add: indexer_addr_def Let_def bs flip: m_def r_def)
  show "0 < pl_n_states lay" using m by (simp add: m_def)
qed

end
