(* ===== verification/Qsa_Topk.thy ===== *)
theory Qsa_Topk
  imports Qsa_Ref "HOL-Library.Multiset"
begin

unbundle bit_operations_syntax

text \<open>
  The radix selection keeps exactly the cells of the largest keys, and on scores without NaN and negative
  zero it is the sorted selection \<open>topk_ids\<close>.
\<close>

section \<open>The radix loop\<close>

text \<open>Number of keys that satisfy a predicate.\<close>

abbreviation count_of :: "('a \<Rightarrow> bool) \<Rightarrow> 'a list \<Rightarrow> nat" where
  "count_of P xs \<equiv> length (filter P xs)"

lemma count_of_split: "count_of P xs = count_of (\<lambda>x. P x \<and> Q x) xs + count_of (\<lambda>x. P x \<and> \<not> Q x) xs"
  by (induction xs) auto

lemma count_of_disj: "(\<And>x. \<not> (P x \<and> Q x)) \<Longrightarrow> count_of (\<lambda>x. P x \<or> Q x) xs = count_of P xs + count_of Q xs"
  by (induction xs) auto

text \<open>The bits above position \<open>b\<close> are decided: \<open>q\<close> is the prefix without its low bits.\<close>

definition decided_above :: "nat \<Rightarrow> 64 word" where
  "decided_above b = NOT (mask b)"

lemma unat_decided: "unat (k AND decided_above b) = unat k div 2 ^ b * 2 ^ b" for k :: "64 word"
proof -
  have e: "k AND decided_above b = push_bit b (drop_bit b k)"
    by (rule bit_eqI) (auto simp: decided_above_def bit_simps)
  moreover have "unat k div 2 ^ b * 2 ^ b < 2 ^ 64"
    using unsigned_less [where ?'a = nat, of k] by (intro le_less_trans [OF div_times_less_eq_dividend]) simp
  ultimately show ?thesis
    unfolding e unsigned_push_bit_eq unsigned_drop_bit_eq
    using unsigned_less [where ?'a = nat, of k] by (simp add: push_bit_eq_mult drop_bit_eq_div take_bit_nat_eq_self)
qed

text \<open>The loop over numbers, with the prefix divided by the weight of the next bit.\<close>

fun radix_nat :: "nat list \<Rightarrow> nat \<Rightarrow> nat \<Rightarrow> nat \<Rightarrow> nat" where
  "radix_nat ks 0 q need = q"
| "radix_nat ks (Suc b) q need =
     (let cnt = count_of (\<lambda>k. k div 2 ^ b = 2 * q + 1) ks in
      if cnt \<ge> need then radix_nat ks b (2 * q + 1) need else radix_nat ks b (2 * q) (need - cnt))"

lemma radix_step_bits:
  fixes k p :: "64 word"
  assumes p: "unat p = q * 2 ^ Suc b" and b: "b < 64"
  shows "k AND decided_above (Suc b) = p \<and> k AND push_bit b 1 \<noteq> 0 \<longleftrightarrow> unat k div 2 ^ b = 2 * q + 1"
proof -
  have "k AND decided_above (Suc b) = p \<longleftrightarrow> unat (k AND decided_above (Suc b)) = unat p" by (simp only: word_unat_eq_iff)
  also have "\<dots> \<longleftrightarrow> unat k div 2 ^ Suc b = q" unfolding unat_decided p by simp
  also have "unat k div 2 ^ Suc b = unat k div 2 ^ b div 2" by (simp only: div_mult2_eq power_Suc2)
  finally have pre: "k AND decided_above (Suc b) = p \<longleftrightarrow> unat k div 2 ^ b div 2 = q" .
  have "k AND push_bit b 1 \<noteq> 0 \<longleftrightarrow> bit k b" using b by (simp add: and_exp_eq_0_iff_not_bit)
  also have "\<dots> \<longleftrightarrow> bit (unat k) b" using b by (simp add: bit_unsigned_iff)
  also have "\<dots> \<longleftrightarrow> odd (unat k div 2 ^ b)" by (simp only: bit_iff_odd)
  finally have "k AND push_bit b 1 \<noteq> 0 \<longleftrightarrow> odd (unat k div 2 ^ b)" .
  with pre show ?thesis by (auto elim!: oddE)
qed


lemma radix_loop_nat:
  assumes "b \<le> 64" "unat prefix = q * 2 ^ b" "q * 2 ^ b + 2 ^ b \<le> 2 ^ 64"
  shows "unat (radix_loop keys b (decided_above b) prefix need) = radix_nat (map unat keys) b q need"
  using assms
proof (induction b arbitrary: prefix q need)
  case 0
  then show ?case by simp
next
  case (Suc b)
  have b: "b < 64" using Suc.prems(1) by simp
  have cnt: "length (filter (\<lambda>k. k AND decided_above (Suc b) = prefix \<and> k AND push_bit b 1 \<noteq> 0) keys)
      = count_of (\<lambda>k. k div 2 ^ b = 2 * q + 1) (map unat keys)"
    using radix_step_bits [OF Suc.prems(2) b] by (simp add: filter_map comp_def)
  have dec: "decided_above (Suc b) OR push_bit b 1 = decided_above b"
    by (rule bit_eqI) (auto simp: decided_above_def bit_simps less_Suc_eq)
  have half: "unat prefix = (2 * q) * 2 ^ b" using Suc.prems(2) by simp
  have disj: "prefix AND push_bit b 1 = 0"
  proof -
    have "unat prefix div 2 ^ b = 2 * q" by (simp add: half)
    then have "\<not> bit (unat prefix) b" by (simp add: bit_iff_odd)
    then show ?thesis using b by (simp add: and_exp_eq_0_iff_not_bit bit_unsigned_iff)
  qed
  have room: "(2 * q + 1) * 2 ^ b + 2 ^ b \<le> 2 ^ 64" using Suc.prems(3) by (simp add: algebra_simps)
  have bitv: "unat (push_bit b (1 :: 64 word)) = 2 ^ b"
  proof -
    have "unat (word_of_nat (2 ^ b) :: 64 word) = 2 ^ b"
      unfolding unat_of_nat using power_strict_increasing [of b 64 "2::nat"] b by (intro mod_less) simp
    then show ?thesis by simp
  qed
  have up: "unat (prefix OR push_bit b 1) = (2 * q + 1) * 2 ^ b"
  proof -
    have L: "LENGTH(64) = 64" by simp
    have "prefix OR push_bit b 1 = prefix + push_bit b 1" using disjunctive_add_eq_or [OF disj] by simp
    moreover have "2 * q * 2 ^ b + 2 ^ b < 2 ^ LENGTH(64)" unfolding L by (rule less_le_trans [OF _ room]) simp
    ultimately have "unat (prefix OR push_bit b 1) = 2 * q * 2 ^ b + 2 ^ b"
      by (simp only: unat_plus_if' if_True half bitv)
    then show ?thesis by (simp only: distrib_right mult_1)
  qed
  have "unat (radix_loop keys b (decided_above b) (prefix OR push_bit b 1) need) = radix_nat (map unat keys) b (2 * q + 1) need"
    by (rule Suc.IH [OF _ up room]) (use b in simp)
  moreover have "unat (radix_loop keys b (decided_above b) prefix (need - count_of (\<lambda>k. k div 2 ^ b = 2 * q + 1) (map unat keys)))
      = radix_nat (map unat keys) b (2 * q) (need - count_of (\<lambda>k. k div 2 ^ b = 2 * q + 1) (map unat keys))"
    by (rule Suc.IH [OF _ half]) (use b room in simp_all)
  ultimately show ?case unfolding radix_loop.simps radix_nat.simps Let_def cnt dec by (simp only: if_distrib [of unat])
qed

text \<open>The invariant of the loop: the keys above the prefix and the ones still to take make up the width.\<close>

lemma radix_nat_spec:
  assumes "count_of (\<lambda>k. k div 2 ^ b > q) ks + need = w" "1 \<le> need" "need \<le> count_of (\<lambda>k. k div 2 ^ b = q) ks"
  shows "\<exists>need'. 1 \<le> need' \<and> count_of (\<lambda>k. k > radix_nat ks b q need) ks + need' = w
     \<and> need' \<le> count_of (\<lambda>k. k = radix_nat ks b q need) ks"
  using assms
proof (induction b arbitrary: q need)
  case 0
  then show ?case by (intro exI [of _ need]) simp
next
  case (Suc b)
  let ?c = "count_of (\<lambda>k. k div 2 ^ b = 2 * q + 1) ks"
  have dd: "k div 2 ^ Suc b = k div 2 ^ b div 2" for k :: nat by (simp only: div_mult2_eq power_Suc2)
  have halves: "(x > 2 * q + 1) = (x div 2 > q)" "(x > 2 * q) = (x div 2 > q \<or> x = 2 * q + 1)"
    "(x div 2 = q) = (x = 2 * q + 1 \<or> x = 2 * q)" "(x div 2 > q \<and> x = 2 * q + 1) = False" for x :: nat by presburger+
  have up: "(k div 2 ^ b > 2 * q + 1) = (k div 2 ^ Suc b > q)" for k :: nat unfolding dd by (rule halves)
  have down: "(k div 2 ^ b > 2 * q) = (k div 2 ^ Suc b > q \<or> k div 2 ^ b = 2 * q + 1)" for k :: nat unfolding dd by (rule halves)
  have eq: "(k div 2 ^ Suc b = q) = (k div 2 ^ b = 2 * q + 1 \<or> k div 2 ^ b = 2 * q)" for k :: nat unfolding dd by (rule halves)
  show ?case
  proof (cases "?c \<ge> need")
    case True
    have "count_of (\<lambda>k. k div 2 ^ b > 2 * q + 1) ks + need = w" unfolding up by (rule Suc.prems)
    from Suc.IH [OF this Suc.prems(2) True] show ?thesis using True by (simp add: Let_def)
  next
    case False
    have "count_of (\<lambda>k. k div 2 ^ b > 2 * q) ks = count_of (\<lambda>k. k div 2 ^ Suc b > q) ks + ?c"
      unfolding down by (rule count_of_disj) (simp only: dd halves(4) not_False_eq_True)
    moreover have "count_of (\<lambda>k. k div 2 ^ Suc b = q) ks = ?c + count_of (\<lambda>k. k div 2 ^ b = 2 * q) ks"
      unfolding eq by (rule count_of_disj) simp
    ultimately have "count_of (\<lambda>k. k div 2 ^ b > 2 * q) ks + (need - ?c) = w" "1 \<le> need - ?c"
      "need - ?c \<le> count_of (\<lambda>k. k div 2 ^ b = 2 * q) ks" using Suc.prems False by linarith+
    from Suc.IH [OF this] show ?thesis using False by (simp add: Let_def)
  qed
qed

lemma radix_prefix:
  assumes d: "distinct keys" and w: "1 \<le> w" "w \<le> length keys"
  shows "count_of (\<lambda>k. radix_loop keys 64 0 0 w \<le> k) keys = w"
proof -
  let ?r = "radix_loop keys 64 0 0 w" and ?ks = "map unat keys"
  have zero: "decided_above 64 = 0" by (rule bit_eqI) (auto simp: decided_above_def bit_simps)
  have r: "unat ?r = radix_nat ?ks 64 0 w" using radix_loop_nat [of 64 0 0 keys w] by (simp add: zero)
  have small: "k div 2 ^ 64 = 0" if "k \<in> set ?ks" for k using that unsigned_less [where ?'a = nat and ?'b = 64] by auto
  have none: "count_of (\<lambda>k. k div 2 ^ 64 > 0) ?ks = 0"
    by (metis (mono_tags, lifting) filter_False length_0_conv not_gr_zero small)
  have all: "count_of (\<lambda>k. k div 2 ^ 64 = 0) ?ks = length keys"
    by (metis (mono_tags, lifting) filter_True length_map small)
  obtain n where n: "1 \<le> n" "count_of (\<lambda>k. k > unat ?r) ?ks + n = w" "n \<le> count_of (\<lambda>k. k = unat ?r) ?ks"
    using radix_nat_spec [of 0 64 ?ks w w] w none all r by auto
  have "distinct ?ks" using d by (simp add: distinct_map inj_on_def flip: word_unat_eq_iff)
  then have "count_of (\<lambda>k. k = unat ?r) ?ks \<le> 1"
    using distinct_length_filter [of ?ks "\<lambda>k. k = unat ?r"] by (simp add: card_le_Suc0_iff_eq)
  then have "n = count_of (\<lambda>k. k = unat ?r) ?ks" using n by simp
  moreover have "count_of (\<lambda>k. k > unat ?r \<or> k = unat ?r) ?ks = count_of (\<lambda>k. k > unat ?r) ?ks + count_of (\<lambda>k. k = unat ?r) ?ks"
    by (rule count_of_disj) simp
  moreover have "(\<lambda>k. k > unat ?r \<or> k = unat ?r) = (\<lambda>k. unat ?r \<le> k)" by auto
  ultimately have "count_of (\<lambda>k. unat ?r \<le> k) ?ks = w" using n by simp
  then show ?thesis by (simp add: filter_map comp_def word_le_nat_alt)
qed


section \<open>Keys\<close>

text \<open>The numeric order of a float from its bits: sign and magnitude.\<close>

definition float_rank :: "32 word \<Rightarrow> int" where
  "float_rank b = (if uint b < 2 ^ 31 then uint b else 2 ^ 31 - uint b)"

definition ordered_bits :: "32 word \<Rightarrow> nat" where
  "ordered_bits b = (if uint b < 2 ^ 31 then unat b + 2 ^ 31 else 2 ^ 32 - 1 - unat b)"

lemma uint_less_32: "0 \<le> uint (b :: 32 word) \<and> uint b < 2 ^ 32"
  using unsigned_less [where ?'a = int, of b] by simp

lemma unat_less_32: "unat (b :: 32 word) < 2 ^ 32"
  using unsigned_less [where ?'a = nat, of b] by simp

lemma unat_int_32: "int (unat b) = uint b" for b :: "32 word"
  by simp

lemma word_not_32: "unat (NOT b) = 2 ^ 32 - 1 - unat b" for b :: "32 word"
proof -
  have "uint (NOT b) = take_bit 32 (NOT (uint b))" unfolding unsigned_not_eq by simp
  also have "\<dots> = mask 32 - take_bit 32 (uint b)" by (rule take_bit_not_eq_mask_diff)
  also have "\<dots> = 2 ^ 32 - 1 - uint b" using uint_less_32 [of b] by (simp add: take_bit_int_eq_self mask_eq_exp_minus_1)
  finally have "int (unat (NOT b)) = int (2 ^ 32 - 1 - unat b)"
    using unat_less_32 [of b] by (simp add: of_nat_diff)
  then show ?thesis by (simp only: of_nat_eq_iff)
qed

lemma ordered_bits_word:
  "unat (b XOR (if drop_bit 31 b \<noteq> 0 then 0xFFFFFFFF else 0x80000000 :: 32 word)) = ordered_bits b"
proof -
  have sgn: "drop_bit 31 b \<noteq> 0 \<longleftrightarrow> \<not> uint b < 2 ^ 31"
  proof -
    have "drop_bit 31 b = 0 \<longleftrightarrow> uint b div 2 ^ 31 = 0"
      unfolding word_uint_eq_iff unsigned_drop_bit_eq
      using uint_less_32 [of b] by (simp add: drop_bit_eq_div [where ?'a = int] take_bit_int_eq_self)
    then show ?thesis using uint_less_32 [of b] by (simp add: zdiv_eq_0_iff)
  qed
  have "unat (b XOR 0xFFFFFFFF) = 2 ^ 32 - 1 - unat b"
  proof -
    have "(0xFFFFFFFF :: 32 word) = - 1" by simp
    then have "b XOR 0xFFFFFFFF = NOT b" by (simp add: bit_eq_iff bit_simps)
    then show ?thesis by (simp only: word_not_32)
  qed
  moreover have "unat (b XOR 0x80000000) = unat b + 2 ^ 31" if "uint b < 2 ^ 31"
  proof -
    have e: "(0x80000000 :: 32 word) = 2 ^ 31" by simp
    have "uint b div 2 ^ 31 = 0" using that by (simp add: zdiv_eq_0_iff)
    then have "\<not> bit (uint b) 31" unfolding bit_iff_odd by simp
    then have "\<not> bit b 31" by (simp add: bit_unsigned_iff)
    then have z: "b AND 2 ^ 31 = 0" by (simp only: and_exp_eq_0_iff_not_bit) simp
    have "b XOR 0x80000000 = b + 0x80000000"
      unfolding e by (rule disjunctive_add_eq_xor [OF z, symmetric])
    moreover have "int (unat b) < int (2 ^ 31)" using that by simp
    then have "unat b < 2 ^ 31" by (simp only: of_nat_less_iff)
    then have "unat b + unat (0x80000000 :: 32 word) < 2 ^ LENGTH(32)" by simp
    then have "unat (b + 0x80000000) = unat b + unat (0x80000000 :: 32 word)" by (rule iffD1 [OF unat_add_lem])
    moreover have "unat (0x80000000 :: 32 word) = 2 ^ 31" by simp
    ultimately show ?thesis by (simp only:)
  qed
  ultimately show ?thesis using sgn by (auto simp: ordered_bits_def)
qed

lemma ordered_bits_lt: "ordered_bits b < 2 ^ 32"
proof -
  obtain n where n: "unat b = n" by simp
  then have "uint b = int n" using unat_int_32 [of b] by simp
  then show ?thesis using unat_less_32 [of b] by (auto simp: ordered_bits_def n intro: le_less_trans [OF diff_le_self])
qed


lemma push_bit_disjoint:
  fixes v u :: "64 word"
  assumes "take_bit n v = v" shows "push_bit n u AND v = 0"
proof -
  have "push_bit n u AND take_bit n v = 0" by (rule bit_eqI) (auto simp: bit_simps)
  then show ?thesis by (simp only: assms)
qed

lemma unat_ordered_key:
  assumes i: "i < 2 ^ 32"
  shows "unat (ordered_key i b) = ordered_bits b * 2 ^ 32 + (2 ^ 32 - 1 - i)"
proof -
  let ?o = "ucast (b XOR (if drop_bit 31 b \<noteq> 0 then 0xFFFFFFFF else 0x80000000 :: 32 word)) :: 64 word"
  let ?v = "0xFFFFFFFF XOR (word_of_nat i :: 64 word)"
  have uo: "unat ?o = ordered_bits b"
    using ordered_bits_word [of b] ordered_bits_lt [of b] by (simp add: unsigned_ucast_eq take_bit_nat_eq_self)
  have ui: "unat (word_of_nat i :: 64 word) = i" using i by (simp add: unat_of_nat)
  have "(0xFFFFFFFF :: 64 word) = mask 32" by (simp add: mask_eq_exp_minus_1)
  then have v: "?v = mask 32 XOR word_of_nat i" by simp
  have low: "take_bit 32 (word_of_nat i :: 64 word) = word_of_nat i"
    unfolding word_unat_eq_iff unsigned_take_bit_eq using ui i by (simp add: take_bit_nat_eq_self)
  have sum: "?v + word_of_nat i = mask 32"
  proof -
    have "?v AND word_of_nat i = 0"
      unfolding v by (rule bit_eqI) (use low in \<open>auto simp: bit_simps dest: arg_cong [of _ _ "\<lambda>w. bit w _"]\<close>)
    then have "?v + word_of_nat i = ?v XOR word_of_nat i" by (rule disjunctive_add_eq_xor)
    then show ?thesis unfolding v by (simp add: xor.assoc)
  qed
  have m: "unat (mask 32 :: 64 word) = 2 ^ 32 - 1" by (simp add: mask_eq_exp_minus_1)
  have "?v = mask 32 - word_of_nat i" using sum by (simp only: eq_diff_eq)
  moreover have "unat (mask 32 - word_of_nat i :: 64 word) = unat (mask 32 :: 64 word) - unat (word_of_nat i :: 64 word)"
    by (rule unat_sub) (unfold word_le_nat_alt m ui, use i in simp)
  ultimately have uv: "unat ?v = 2 ^ 32 - 1 - i" by (simp only: m ui)
  have up: "unat (push_bit 32 ?o) = ordered_bits b * 2 ^ 32"
    unfolding unsigned_push_bit_eq uo using ordered_bits_lt [of b] by (simp add: push_bit_eq_mult take_bit_nat_eq_self)
  have "take_bit 32 ?v = ?v" unfolding v take_bit_xor low by simp
  then have "push_bit 32 ?o AND ?v = 0" by (rule push_bit_disjoint)
  then have "push_bit 32 ?o OR ?v = push_bit 32 ?o + ?v" by (rule disjunctive_add_eq_or [symmetric])
  moreover have "unat (push_bit 32 ?o) + unat ?v < 2 ^ LENGTH(64)"
    unfolding up uv using ordered_bits_lt [of b] by simp
  ultimately have "unat (push_bit 32 ?o OR ?v) = ordered_bits b * 2 ^ 32 + (2 ^ 32 - 1 - i)"
    by (simp only: unat_plus_if' if_True up uv)
  then show ?thesis by (simp only: ordered_key_def Let_def)
qed


section \<open>The two selections agree\<close>

lemma length_ordered_keys [simp]: "length (ordered_keys N scores) = length scores"
  by (simp add: ordered_keys_def)

lemma nth_ordered_keys: "i < length scores \<Longrightarrow> ordered_keys N scores ! i = ordered_key i (f_bits N (scores ! i))"
  by (simp add: ordered_keys_def)

lemma key_less:
  assumes "i < 2 ^ 32" "j < 2 ^ 32"
  shows "ordered_key j c < ordered_key i b \<longleftrightarrow> ordered_bits c < ordered_bits b \<or> ordered_bits c = ordered_bits b \<and> i < j"
proof -
  have lex: "x * 2 ^ 32 + (2 ^ 32 - 1 - j) < y * 2 ^ 32 + (2 ^ 32 - 1 - i) \<longleftrightarrow> x < y \<or> x = y \<and> i < j" for x y :: nat
    using assms by auto
  show ?thesis unfolding word_less_nat_alt unat_ordered_key [OF assms(1)] unat_ordered_key [OF assms(2)] by (rule lex)
qed

lemma distinct_ordered_keys:
  assumes "length scores \<le> 2 ^ 32" shows "distinct (ordered_keys N scores)"
proof -
  have "ordered_keys N scores ! i \<noteq> ordered_keys N scores ! j" if "i < j" "j < length scores" for i j
  proof -
    have "i < 2 ^ 32" "j < 2 ^ 32" using that assms by linarith+
    from key_less [OF this, of "f_bits N (scores ! j)" "f_bits N (scores ! i)"] key_less [OF this(2,1), of "f_bits N (scores ! i)" "f_bits N (scores ! j)"]
    show ?thesis using that by (auto simp: nth_ordered_keys)
  qed
  then show ?thesis unfolding distinct_conv_nth by (metis length_ordered_keys nat_neq_iff)
qed

text \<open>A stable sort of ascending indices orders equal keys by index.\<close>

lemma stable_sort_key:
  "sorted_wrt (<) xs \<Longrightarrow> sorted_wrt (\<lambda>i j. f i < f j \<or> f i = f j \<and> i < j) (sort_key f xs)"
  for f :: "'a :: linorder \<Rightarrow> 'b :: linorder"
proof (induction xs)
  case (Cons x xs)
  have "sorted_wrt (\<lambda>i j. f i < f j \<or> f i = f j \<and> i < j) (insort_key f x ys)"
    if "sorted_wrt (\<lambda>i j. f i < f j \<or> f i = f j \<and> i < j) ys" "\<forall>y \<in> set ys. x < y" for ys
    using that by (induction ys) (auto simp: set_insort_key not_le)
  with Cons show ?case by (simp add: sort_key_simps(2))
qed simp

lemma filter_initial:
  "sorted_wrt (\<lambda>i j. (k j :: 'b :: linorder) < k i) xs \<Longrightarrow> filter (\<lambda>i. p \<le> k i) xs = take (length (filter (\<lambda>i. p \<le> k i) xs)) xs"
proof (induction xs)
  case (Cons x xs)
  show ?case
  proof (cases "p \<le> k x")
    case False
    then have "filter (\<lambda>i. p \<le> k i) xs = []" using Cons.prems by (auto simp: filter_empty_conv)
    then show ?thesis using False by simp
  qed (use Cons in simp)
qed simp

text \<open>Documented float behaviour on scores that are neither NaN nor negative zero: numpy sorts by value.\<close>

definition plain_score :: "('f, 'd) np \<Rightarrow> 'f \<Rightarrow> bool" where
  "plain_score N x \<longleftrightarrow> f_place N (f_neg N x) = - float_rank (f_bits N x) \<and> f_bits N x \<noteq> 0x80000000"

lemma rank_bits:
  assumes "b \<noteq> 0x80000000" "c \<noteq> 0x80000000"
  shows "ordered_bits c < ordered_bits b \<longleftrightarrow> float_rank c < float_rank b" "ordered_bits c = ordered_bits b \<longleftrightarrow> float_rank c = float_rank b"
proof -
  have mid: "unat d \<noteq> 2 ^ 31" if "d \<noteq> 0x80000000" for d :: "32 word"
  proof
    assume "unat d = 2 ^ 31"
    then have "unat d = unat (0x80000000 :: 32 word)" by simp
    then show False using that by (simp only: word_unat_eq_iff)
  qed
  obtain m n where mn: "unat b = m" "unat c = n" by simp
  then have u: "uint b = int m" "uint c = int n" by (simp_all flip: unat_int_32)
  have "m \<noteq> 2 ^ 31" "n \<noteq> 2 ^ 31" "m < 2 ^ 32" "n < 2 ^ 32" using mid [OF assms(1)] mid [OF assms(2)] unat_less_32 [of b] unat_less_32 [of c] mn by auto
  then show "ordered_bits c < ordered_bits b \<longleftrightarrow> float_rank c < float_rank b" "ordered_bits c = ordered_bits b \<longleftrightarrow> float_rank c = float_rank b"
    by (auto simp: ordered_bits_def float_rank_def mn u)
qed


text \<open>Cell \<open>i\<close> comes before cell \<open>j\<close>: a greater float in bit order, or the same bits and a smaller index.\<close>

definition beats :: "('f, 'd) np \<Rightarrow> 'f list \<Rightarrow> nat \<Rightarrow> nat \<Rightarrow> bool" where
  "beats N scores i j \<longleftrightarrow> ordered_bits (f_bits N (scores ! j)) < ordered_bits (f_bits N (scores ! i))
     \<or> ordered_bits (f_bits N (scores ! j)) = ordered_bits (f_bits N (scores ! i)) \<and> i < j"

lemma beats_key:
  assumes "length scores \<le> 2 ^ 32" "i < length scores" "j < length scores"
  shows "beats N scores i j \<longleftrightarrow> ordered_keys N scores ! j < ordered_keys N scores ! i"
  using key_less [of i j] assms by (simp add: beats_def nth_ordered_keys)

text \<open>The cells whose key reaches the prefix.\<close>

definition radix_sel :: "('f, 'd) np \<Rightarrow> 'f list \<Rightarrow> nat \<Rightarrow> nat list" where
  "radix_sel N scores w = (if w = 0 then [] else
     filter (\<lambda>i. radix_loop (ordered_keys N scores) 64 0 0 w \<le> ordered_keys N scores ! i) [0..<length scores])"

lemma length_radix_sel:
  assumes "length scores \<le> 2 ^ 32" "w \<le> length scores"
  shows "length (radix_sel N scores w) = w"
proof (cases "w = 0")
  case False
  define ks where "ks = ordered_keys N scores"
  define p where "p = radix_loop ks 64 0 0 w"
  have "count_of (\<lambda>k. p \<le> k) ks = w"
    unfolding p_def ks_def by (rule radix_prefix [OF distinct_ordered_keys [OF assms(1)]]) (use False assms in simp_all)
  moreover have "map ((!) ks) [0..<length scores] = ks" using map_nth [of ks] by (simp add: ks_def)
  then have "count_of (\<lambda>k. p \<le> k) ks = count_of (\<lambda>k. p \<le> k) (map ((!) ks) [0..<length scores])" by (simp only:)
  also have "\<dots> = count_of (\<lambda>i. p \<le> ks ! i) [0..<length scores]" by (simp only: filter_map length_map comp_def)
  ultimately show ?thesis using False by (simp add: radix_sel_def p_def ks_def)
qed (simp add: radix_sel_def)

lemma sort_radix_sel: "sort (radix_sel N scores w) = radix_sel N scores w"
  by (intro sort_key_id_if_sorted) (simp add: radix_sel_def sorted_wrt_filter)

lemma topk_radix_run:
  assumes "length scores \<le> 2 ^ 32"
  shows "topk_radix N scores width = Inr (radix_sel N scores (min (nat width) (length scores)))"
proof -
  define v where "v = min (nat width) (length scores)"
  have w: "nat (min (max width 0) (int (length scores))) = v" by (simp add: v_def min_def max_def nat_le_iff)
  show ?thesis
  proof (cases "v = 0")
    case True
    then show ?thesis unfolding topk_radix_def Let_def length_ordered_keys w v_def [symmetric] by (simp add: radix_sel_def)
  next
    case False
    then have sel: "filter (\<lambda>i. radix_loop (ordered_keys N scores) 64 0 0 v \<le> ordered_keys N scores ! i) [0..<length scores] = radix_sel N scores v"
      by (simp add: radix_sel_def)
    have "length (radix_sel N scores v) = v" by (rule length_radix_sel [OF assms]) (simp add: v_def)
    then show ?thesis unfolding topk_radix_def Let_def length_ordered_keys w v_def [symmetric] sel
      using False by (simp add: sort_radix_sel)
  qed
qed

lemma sort_eq_mset: "mset xs = mset ys \<Longrightarrow> sort xs = sort ys"
  by (rule properties_for_sort [symmetric]) simp_all

lemma topk_ids_radix:
  assumes len: "length scores \<le> 2 ^ 32" and plain: "\<forall>x \<in> set scores. plain_score N x" and w: "w \<le> length scores"
  shows "topk_ids N scores w = radix_sel N scores w"
proof (cases "w = 0")
  case True
  then show ?thesis by (simp add: topk_ids_def radix_sel_def Let_def)
next
  case False
  let ?n = "length scores" and ?ks = "ordered_keys N scores"
  let ?f = "\<lambda>i. f_place N (f_neg N (scores ! i))" and ?k = "\<lambda>i. ordered_keys N scores ! i"
  let ?order = "sort_key ?f [0..<?n]" and ?P = "\<lambda>i. radix_loop (ordered_keys N scores) 64 0 0 w \<le> ordered_keys N scores ! i"
  have step: "?k j < ?k i" if "i < ?n" "j < ?n" "?f i < ?f j \<or> ?f i = ?f j \<and> i < j" for i j
  proof -
    have "plain_score N (scores ! i)" "plain_score N (scores ! j)" using plain that by simp_all
    then have "beats N scores i j" using that rank_bits [of "f_bits N (scores ! i)" "f_bits N (scores ! j)"]
      by (auto simp: beats_def plain_score_def)
    then show ?thesis using beats_key [OF len that(1,2)] by blast
  qed
  have "sorted_wrt (\<lambda>i j. ?f i < ?f j \<or> ?f i = ?f j \<and> i < j) ?order" by (rule stable_sort_key) simp
  then have "sorted_wrt (\<lambda>i j. ?k j < ?k i) ?order"
    by (rule sorted_wrt_mono_rel [rotated]) (use step in auto)
  then have init: "filter ?P ?order = take (length (filter ?P ?order)) ?order" by (rule filter_initial)
  have m: "mset (filter ?P ?order) = mset (filter ?P [0..<?n])" by simp
  have sel: "filter ?P [0..<?n] = radix_sel N scores w" using False by (simp add: radix_sel_def)
  have "length (filter ?P ?order) = w"
    using mset_eq_length [OF m] length_radix_sel [OF len w, of N] unfolding sel by (simp only:)
  with init have tk: "take w ?order = filter ?P ?order" by (simp only:)
  have "sort (take w ?order) = sort (filter ?P [0..<?n])"
    unfolding tk by (rule sort_eq_mset [OF m])
  also have "\<dots> = radix_sel N scores w" unfolding sel by (rule sort_radix_sel)
  finally show ?thesis using w by (simp add: topk_ids_def Let_def min_absorb1)
qed

text \<open>C20. The radix selection never raises on up to \<open>2 ** 32\<close> scores: it returns, ascending, \<open>min width n\<close>
  cells each of which comes before every cell left out, ties in the bits going to the smaller index, and
  on scores without NaN and negative zero it returns what the sort of \<open>topk_ids\<close> returns.\<close>

theorem radix_selects_the_top_cells:
  "length scores \<le> 2 ^ 32 \<Longrightarrow>
     \<exists>sel. topk_radix N scores width = Inr sel \<and> sorted_wrt (<) sel \<and> length sel = min (nat width) (length scores)
       \<and> (\<forall>i \<in> set sel. i < length scores \<and> (\<forall>j < length scores. j \<notin> set sel \<longrightarrow> beats N scores i j))
       \<and> ((\<forall>x \<in> set scores. plain_score N x) \<longrightarrow> sel = topk_ids N scores (nat width))"
proof -
  assume len: "length scores \<le> 2 ^ 32"
  let ?w = "min (nat width) (length scores)" and ?sel = "radix_sel N scores (min (nat width) (length scores))"
  have "sorted_wrt (<) ?sel" by (simp add: radix_sel_def sorted_wrt_filter)
  moreover have "i < length scores \<and> (\<forall>j < length scores. j \<notin> set ?sel \<longrightarrow> beats N scores i j)" if "i \<in> set ?sel" for i
  proof (intro conjI allI impI)
    show i: "i < length scores" using that by (simp add: radix_sel_def split: if_splits)
    fix j assume "j < length scores" "j \<notin> set ?sel"
    then show "beats N scores i j"
      using that beats_key [OF len i \<open>j < length scores\<close>, of N] by (auto simp: radix_sel_def split: if_splits)
  qed
  moreover have "topk_ids N scores (nat width) = topk_ids N scores ?w" by (simp add: topk_ids_def Let_def)
  ultimately show ?thesis
    using topk_radix_run [OF len, of N width] length_radix_sel [OF len, of ?w N] topk_ids_radix [OF len, of N ?w] by auto
qed

text \<open>An instance of the float operations on 32-bit patterns, for the concrete runs.\<close>

definition word_np :: "(32 word, 32 word) np" where
  "word_np = \<lparr>to_f = id, to_d = id, via_f16 = (\<lambda>x. take_bit 16 x),
     f16_bytes = (\<lambda>x. [ucast x, ucast (drop_bit 8 x)]), f16_of = (\<lambda>b. ucast (b ! 0) OR push_bit 8 (ucast (b ! 1))),
     f32_bytes = (\<lambda>x. [ucast x, ucast (drop_bit 8 x), ucast (drop_bit 16 x), ucast (drop_bit 24 x)]),
     f32_of = (\<lambda>b. ucast (b ! 0) OR push_bit 8 (ucast (b ! 1)) OR push_bit 16 (ucast (b ! 2)) OR push_bit 24 (ucast (b ! 3))),
     f_bits = id, f_place = (\<lambda>x. - float_rank (- x)), f_int = of_int, f_to_int = sint, f_lt = (\<lambda>x y. sint x < sint y),
     f_neg = uminus, f_add = (+), f_sub = (-), f_mul = (*), f_div = (div), f_max = max, f_abs = id, f_sign = (\<lambda>x. if x = 0 then 0 else 1), f_rint = id,
     f_clip = (\<lambda>x a b. x), f_exp = id, f_sqrt = id, f_matmul = (\<lambda>a b i j. sum_list (map2 (*) (a ! i) (b ! j))), f_matvec = (\<lambda>a x i. sum_list (map2 (*) (a ! i) x)),
     f_vecmat = (\<lambda>x a j. sum_list (map2 (*) x (map (\<lambda>r. r ! j) a))), f_sum = sum_list,
     f_mean = sum_list, d_int = of_int, d_add = (+), d_mul = (*), d_div = (div), d_pow = (+), d_sqrt = id, d_cos = id,
     d_sin = id, d_sum = sum_list\<rparr>"

lemma radix_selects_the_top_cells_witness:
  "\<exists>sel. topk_radix word_np [3, 9, 1, 9] 2 = Inr sel \<and> length sel = 2 \<and> sel = topk_ids word_np [3, 9, 1, 9] 2"
proof -
  let ?s = "[3, 9, 1, 9] :: 32 word list"
  have len: "length ?s \<le> 2 ^ 32" and plain: "\<forall>x \<in> set ?s. plain_score word_np x"
    by (simp_all add: plain_score_def word_np_def float_rank_def)
  obtain sel where sel: "topk_radix word_np ?s 2 = Inr sel" "length sel = min (nat 2) (length ?s)"
      and eq: "(\<forall>x \<in> set ?s. plain_score word_np x) \<longrightarrow> sel = topk_ids word_np ?s (nat 2)"
    using radix_selects_the_top_cells [OF len, of word_np 2] by blast
  from eq plain have "sel = topk_ids word_np ?s (nat 2)" by blast
  with sel show ?thesis by simp
qed

end
