(* ===== verification/Qsa_Cells.thy ===== *)
theory Qsa_Cells
  imports Qsa_Pool Qsa_Topk
begin

text \<open>
  The field writes and reads of the cache: a written KV cell reads back as its quantised heads, a
  written pooled row as itself.
\<close>

text \<open>Documented numpy behaviour: item sizes, an exact float32 view, and fp16 exact on values rounded to fp16.\<close>

definition np_bytes_ok :: "('f, 'd) np \<Rightarrow> bool" where
  "np_bytes_ok N \<longleftrightarrow> (\<forall>x. length (f16_bytes N x) = 2 \<and> length (f32_bytes N x) = 4 \<and> f32_of N (f32_bytes N x) = x
     \<and> f16_of N (f16_bytes N (via_f16 N x)) = via_f16 N x)"

section \<open>Byte views\<close>

lemma codes_roundtrip: "codes_of_bytes (bytes_of_codes (map (\<lambda>x. i8 (f x)) xs)) = map (\<lambda>x. i8 (f x)) xs"
proof -
  have "sint (word_of_int (i8 y) :: 8 word) = i8 y" for y by (simp add: i8_def sint_sbintrunc')
  then show ?thesis by (simp add: codes_of_bytes_def bytes_of_codes_def)
qed

lemma chunks_roundtrip: "(\<And>x. length (f x) = n) \<Longrightarrow> view_rows (length xs) n (concat (map f xs)) = map f xs"
  by (rule view_rows_concat) auto

lemma length_chunks: "(\<And>x. length (f x) = n) \<Longrightarrow> length (concat (map f xs)) = length xs * n"
  using length_concat_same [of "map f xs" n] by auto

lemma floats_roundtrip: "np_bytes_ok N \<Longrightarrow> floats_of_bytes N (length xs) (bytes_of_floats N xs) = xs"
  by (simp add: floats_of_bytes_def bytes_of_floats_def np_bytes_ok_def chunks_roundtrip map_idI)

lemma halves_roundtrip:
  "np_bytes_ok N \<Longrightarrow> halves_of_bytes N (length xs) (bytes_of_halves N (map (via_f16 N) xs)) = map (via_f16 N) xs"
  using chunks_roundtrip [of "f16_bytes N" 2 "map (via_f16 N) xs"]
  by (simp add: halves_of_bytes_def bytes_of_halves_def np_bytes_ok_def)

text \<open>What a quantised row is made of.\<close>

definition q8_row :: "('f, 'd) np \<Rightarrow> nat \<Rightarrow> int list \<times> 'f list \<Rightarrow> bool" where
  "q8_row N d = (\<lambda>(codes, scale). length codes = d \<and> length scale * KV_Q8_GROUP = d \<and> map i8 codes = codes \<and> (\<exists>xs. scale = map (via_f16 N) xs))"

lemma i8_i8 [simp]: "i8 (i8 x) = i8 x"
  by (simp add: i8_def)

lemma quantize_q8_row:
  assumes q: "quantize_q8 N vec = Inr r"
  shows "q8_row N (length vec) r"
proof -
  define gs where "gs = map (q8_group N) (view_rows (length vec div KV_Q8_GROUP) KV_Q8_GROUP vec)"
  have m: "length vec mod KV_Q8_GROUP = 0" and r: "r = (concat (map fst gs), map snd gs)"
    using q by (auto simp: quantize_q8_def Let_def gs_def split: if_splits)
  have len: "length vec = length vec div KV_Q8_GROUP * KV_Q8_GROUP" using m by (metis div_mult_mod_eq add.right_neutral)
  have each: "length (fst g) = KV_Q8_GROUP \<and> map i8 (fst g) = fst g \<and> (\<exists>x. snd g = via_f16 N x)" if "g \<in> set gs" for g
  proof -
    obtain x where x: "x \<in> set (view_rows (length vec div KV_Q8_GROUP) KV_Q8_GROUP vec)" "g = q8_group N x" using \<open>g \<in> set gs\<close> by (auto simp: gs_def)
    then show ?thesis using view_rows_elems [OF len x(1)] by (auto simp: q8_group_def Let_def)
  qed
  have "length (concat (map fst gs)) = length gs * KV_Q8_GROUP"
    using length_concat_same [of "map fst gs" KV_Q8_GROUP] each by auto
  moreover have "length gs * KV_Q8_GROUP = length vec" using len by (simp add: gs_def)
  moreover have "map i8 (concat (map fst gs)) = concat (map fst gs)" using each by (simp add: map_concat comp_def cong: map_cong)
  moreover have "\<exists>xs. map snd gs = map (via_f16 N) xs"
  proof -
    obtain f where "\<forall>g \<in> set gs. snd g = via_f16 N (f g)" using each by metis
    then have "map snd gs = map (via_f16 N) (map f gs)" by simp
    then show ?thesis by blast
  qed
  ultimately show ?thesis by (simp add: q8_row_def r)
qed

lemma row_roundtrip:
  assumes "np_bytes_ok N" "q8_row N d r"
  shows "codes_of_bytes (bytes_of_codes (fst r)) = fst r" "halves_of_bytes N (d div KV_Q8_GROUP) (bytes_of_halves N (snd r)) = snd r"
    "length (bytes_of_codes (fst r)) = d" "length (bytes_of_halves N (snd r)) = d div KV_Q8_GROUP * 2"
proof -
  have r: "length (fst r) = d" "length (snd r) * KV_Q8_GROUP = d" "map i8 (fst r) = fst r" "\<exists>xs. snd r = map (via_f16 N) xs"
    using assms(2) by (simp_all add: q8_row_def split: prod.splits)
  have k: "0 < KV_Q8_GROUP" by (simp add: KV_Q8_GROUP_def)
  have n: "d div KV_Q8_GROUP = length (snd r)" using r(2) k by (metis div_mult_self_is_m)
  show "codes_of_bytes (bytes_of_codes (fst r)) = fst r" using codes_roundtrip [of "\<lambda>x. x" "fst r"] r(3) by simp
  show "halves_of_bytes N (d div KV_Q8_GROUP) (bytes_of_halves N (snd r)) = snd r"
    using halves_roundtrip [OF assms(1)] r(4) n by auto
  show "length (bytes_of_codes (fst r)) = d" using r(1) by (simp add: bytes_of_codes_def)
  show "length (bytes_of_halves N (snd r)) = d div KV_Q8_GROUP * 2"
    using assms(1) length_chunks [of "f16_bytes N" 2 "snd r"] n by (simp add: bytes_of_halves_def np_bytes_ok_def)
qed

section \<open>KV cells\<close>

type_synonym 'f q8_heads = "(int list \<times> 'f list) list"

definition head_ws :: "('f, 'd) np \<Rightarrow> nat \<Rightarrow> nat \<Rightarrow> nat \<Rightarrow> 'f q8_heads \<Rightarrow> 'f q8_heads \<Rightarrow> nat \<Rightarrow> (place \<times> byte_list) list" where
  "head_ws N q l slot k v h =
     [((q, l, KCode h slot), bytes_of_codes (fst (k ! h))), ((q, l, VCode h slot), bytes_of_codes (fst (v ! h))),
      ((q, l, KScale h slot), bytes_of_halves N (snd (k ! h))), ((q, l, VScale h slot), bytes_of_halves N (snd (v ! h)))]"

definition cell_ws :: "('f, 'd) np \<Rightarrow> nat \<Rightarrow> nat \<Rightarrow> nat \<Rightarrow> 'f q8_heads \<Rightarrow> 'f q8_heads \<Rightarrow> nat \<Rightarrow> (place \<times> byte_list) list" where
  "cell_ws N q l slot k v n = concat (map (head_ws N q l slot k v) [0..<n])"

definition cell_fields :: "nat \<Rightarrow> nat \<Rightarrow> nat \<Rightarrow> nat \<Rightarrow> place set" where
  "cell_fields n q l slot = (\<Union>h < n. {(q, l, KCode h slot), (q, l, VCode h slot), (q, l, KScale h slot), (q, l, VScale h slot)})"

lemma fst_cell_ws: "fst ` set (cell_ws N q l slot k v n) = cell_fields n q l slot"
  by (auto simp: cell_ws_def head_ws_def cell_fields_def image_iff)

lemma distinct_cell_ws: "distinct (map fst (cell_ws N q l slot k v n))"
proof (induction n)
  case (Suc n)
  have "fst ` set (cell_ws N q l slot k v n) \<inter> fst ` set (head_ws N q l slot k v n) = {}"
    unfolding fst_cell_ws by (auto simp: cell_fields_def head_ws_def)
  then show ?case using Suc by (auto simp: cell_ws_def head_ws_def)
qed (simp add: cell_ws_def)

lemma cell_ws_ok:
  assumes s: "qp_ok s" and N: "np_bytes_ok N" and at: "q < length (qp_table s)" "l < length (qp_table s ! q)" "slot < pl_block_size (qp_layout s)"
    and k: "\<forall>h < n. q8_row N (gm_head_dim (qp_geom s)) (k ! h)" and v: "\<forall>h < n. q8_row N (gm_head_dim (qp_geom s)) (v ! h)"
    and n: "n \<le> gm_n_kv (qp_geom s)"
  shows "writes_ok s (cell_ws N q l slot k v n)"
proof -
  have d: "pl_head_dim (qp_layout s) = gm_head_dim (qp_geom s)" "pl_n_kv (qp_layout s) = gm_n_kv (qp_geom s)"
      "pl_groups (qp_layout s) = gm_head_dim (qp_geom s) div KV_Q8_GROUP"
    using s by (auto simp: qp_ok_def pool_inv_def lay_ok_def Let_def KV_Q8_GROUP_def)
  have "writes_ok s (head_ws N q l slot k v h)" if h: "h < n" for h
    using at n h row_roundtrip(3,4) [OF N k [rule_format, OF h]] row_roundtrip(3,4) [OF N v [rule_format, OF h]]
    by (simp add: head_ws_def pool_ok_def pool_fits_def field_fits_def d)
  then show ?thesis unfolding writes_ok_def cell_ws_def by fastforce
qed

lemma write_head_run:
  assumes "qp_ok s" "writes_ok s (head_ws N q l slot k v h)"
  shows "write_head N (qp_layout s) (qp_table s ! q ! l) slot k v h s = (Inr (), qp_put (head_ws N q l slot k v h) s)"
proof -
  have w: "write_bytes (qp_table t ! q ! l) (field_off (qp_layout t) f) raw t = (Inr (), qp_put [((q, l, f), raw)] t)"
    if "qp_ok t" "pool_ok (qp_key t) (q, l, f)" "pool_fits (qp_key t) (q, l, f) raw" for t :: "('a, 'b) qsa_paged" and f raw
    using write_bytes_run that .
  let ?a = "((q, l, KCode h slot), bytes_of_codes (fst (k ! h)))" and ?b = "((q, l, VCode h slot), bytes_of_codes (fst (v ! h)))"
  let ?c = "((q, l, KScale h slot), bytes_of_halves N (snd (k ! h)))" and ?d = "((q, l, VScale h slot), bytes_of_halves N (snd (v ! h)))"
  have ok: "writes_ok s [?a]" "writes_ok s [?b]" "writes_ok s [?c]" "writes_ok s [?d]" using assms(2) by (simp_all add: head_ws_def)
  have s1: "qp_ok (qp_put [?a] s)" by (rule qp_ok_put [OF assms(1) ok(1)])
  have s2: "qp_ok (qp_put [?b] (qp_put [?a] s))" by (rule qp_ok_put [OF s1]) (use ok(2) in simp)
  have s3: "qp_ok (qp_put [?c] (qp_put [?b] (qp_put [?a] s)))" by (rule qp_ok_put [OF s2]) (use ok(3) in simp)
  have run: "qp_put (head_ws N q l slot k v h) s = qp_put [?d] (qp_put [?c] (qp_put [?b] (qp_put [?a] s)))"
    by (simp add: head_ws_def flip: qp_put_append)
  show ?thesis unfolding write_head_def code_off_field bindA_run run
    using w [OF assms(1), of "KCode h slot"] w [OF s1, of "VCode h slot"] w [OF s2, of "KScale h slot"] w [OF s3, of "VScale h slot"] ok
    by simp
qed

lemma write_heads_run:
  assumes "qp_ok s" "writes_ok s (concat (map (head_ws N q l slot k v) hs))"
  shows "mapA (write_head N (qp_layout s) (qp_table s ! q ! l) slot k v) hs s
    = (Inr (replicate (length hs) ()), qp_put (concat (map (head_ws N q l slot k v) hs)) s)"
  using assms
proof (induction hs arbitrary: s)
  case (Cons h hs)
  let ?t = "qp_put (head_ws N q l slot k v h) s"
  have ok: "writes_ok s (head_ws N q l slot k v h)" "writes_ok ?t (concat (map (head_ws N q l slot k v) hs))" using Cons.prems(2) by simp_all
  have "qp_ok ?t" by (rule qp_ok_put [OF Cons.prems(1) ok(1)])
  from Cons.IH [OF this ok(2)] show ?case
    using write_head_run [OF Cons.prems(1) ok(1)] by (simp add: bindA_run act_run qp_put_append)
qed (simp add: act_run)

text \<open>The quantised heads of a cell.\<close>

definition quant_cell :: "('f, 'd) np \<Rightarrow> 'd qsa_geom \<Rightarrow> 'f list \<Rightarrow> 'f q8_heads res" where
  "quant_cell N g x = bindR (np_reshape (gm_n_kv g) (gm_head_dim g) x) (mapR (quantize_q8 N))"

lemma quant_cell_rows:
  assumes "quant_cell N g x = Inr k" shows "length k = gm_n_kv g" "\<forall>h < gm_n_kv g. q8_row N (gm_head_dim g) (k ! h)"
proof -
  obtain rows where rows: "np_reshape (gm_n_kv g) (gm_head_dim g) x = Inr rows" "mapR (quantize_q8 N) rows = Inr k"
    using assms by (auto simp: quant_cell_def bindR_eq_Inr)
  then have r: "rows = view_rows (gm_n_kv g) (gm_head_dim g) x" "length x = gm_n_kv g * gm_head_dim g"
    by (auto simp: np_reshape_def split: if_splits)
  have m: "length k = length rows" "\<forall>i < length rows. quantize_q8 N (rows ! i) = Inr (k ! i)" using mapR_Inr [OF rows(2)] by simp_all
  then show "length k = gm_n_kv g" by (simp add: r)
  show "\<forall>h < gm_n_kv g. q8_row N (gm_head_dim g) (k ! h)"
  proof (intro allI impI)
    fix h assume h: "h < gm_n_kv g"
    then have "rows ! h \<in> set rows" by (simp add: r(1))
    then have "length (rows ! h) = gm_head_dim g" using view_rows_elems [OF r(2)] unfolding r(1) by blast
    then show "q8_row N (gm_head_dim g) (k ! h)" using quantize_q8_row [of N "rows ! h" "k ! h"] m(2) h by (simp add: r(1))
  qed
qed

text \<open>A cell read back holds a key row and a value row of the head width for every KV head.\<close>

lemma length_dequant_q8: "q8_row N d c \<Longrightarrow> length (dequant_q8 N (fst c) (snd c)) = d"
  by (cases c) (auto simp: q8_row_def dequant_q8_def length_concat sum_list_triv comp_def)

lemma dequant_cell_shape:
  assumes "quant_cell N g x = Inr kq" "quant_cell N g y = Inr vq"
  shows "heads_shape (gm_n_kv g) (gm_head_dim g) [map (\<lambda>(k, v). dequant_q8 N (fst k) (snd k)) (zip kq vq)]"
    and "heads_shape (gm_n_kv g) (gm_head_dim g) [map (\<lambda>(k, v). dequant_q8 N (fst v) (snd v)) (zip kq vq)]"
proof -
  note k = quant_cell_rows [OF assms(1)] and v = quant_cell_rows [OF assms(2)]
  have row: "length (dequant_q8 N c s) = gm_head_dim g" if "\<forall>h < gm_n_kv g. q8_row N (gm_head_dim g) (qs ! h)"
    "(c, s) = qs ! i" "i < gm_n_kv g" for qs c s i
    using length_dequant_q8 [of N "gm_head_dim g" "qs ! i"] that by (metis fst_conv snd_conv)
  show "heads_shape (gm_n_kv g) (gm_head_dim g) [map (\<lambda>(k, v). dequant_q8 N (fst k) (snd k)) (zip kq vq)]"
    "heads_shape (gm_n_kv g) (gm_head_dim g) [map (\<lambda>(k, v). dequant_q8 N (fst v) (snd v)) (zip kq vq)]"
    using k v by (auto simp: heads_shape_def set_zip dest: row)
qed

text \<open>Where a cell lies.\<close>

definition cell_at :: "('f, 'd) qsa_paged \<Rightarrow> nat \<Rightarrow> int \<Rightarrow> bool" where
  "cell_at s q pos \<longleftrightarrow> q < length (qp_table s) \<and> 0 \<le> pos div int (pl_block_size (qp_layout s))
     \<and> pos div int (pl_block_size (qp_layout s)) < int (length (qp_table s ! q))"

abbreviation cell_l :: "('f, 'd) qsa_paged \<Rightarrow> int \<Rightarrow> nat" where
  "cell_l s pos \<equiv> nat (pos div int (pl_block_size (qp_layout s)))"

abbreviation cell_slot :: "('f, 'd) qsa_paged \<Rightarrow> int \<Rightarrow> nat" where
  "cell_slot s pos \<equiv> nat (pos mod int (pl_block_size (qp_layout s)))"

lemma qp_ok_lay:
  assumes "qp_ok s"
  shows "lay_ok (qp_layout s)" "0 < pl_block_size (qp_layout s)" "pl_groups (qp_layout s) = gm_head_dim (qp_geom s) div KV_Q8_GROUP"
    "pl_head_dim (qp_layout s) = gm_head_dim (qp_geom s)" "pl_n_kv (qp_layout s) = gm_n_kv (qp_geom s)"
    "pl_idx_dim (qp_layout s) = gm_idx_dim (qp_geom s)" "pl_idx_block (qp_layout s) = gm_idx_block (qp_geom s)"
    "0 < gm_idx_block (qp_geom s)" "pl_block_size (qp_layout s) = pl_n_states (qp_layout s) * gm_idx_block (qp_geom s)"
  using assms by (auto simp: qp_ok_def pool_inv_def lay_ok_def Let_def KV_Q8_GROUP_def)

lemma cell_slot_less: "qp_ok s \<Longrightarrow> cell_slot s pos < pl_block_size (qp_layout s)"
  using qp_ok_lay(2) [of s] by (simp add: nat_less_iff)

definition put_cell :: "('f, 'd) np \<Rightarrow> nat \<Rightarrow> int \<Rightarrow> 'f q8_heads \<Rightarrow> 'f q8_heads \<Rightarrow> ('f, 'd) qsa_paged \<Rightarrow> (place \<times> byte_list) list" where
  "put_cell N q pos kq vq s = cell_ws N q (cell_l s pos) (cell_slot s pos) kq vq (gm_n_kv (qp_geom s))"

lemma put_cell_ok:
  assumes "qp_ok s" "np_bytes_ok N" "cell_at s q pos" "quant_cell N (qp_geom s) k = Inr kq" "quant_cell N (qp_geom s) v = Inr vq"
  shows "writes_ok s (put_cell N q pos kq vq s)"
  unfolding put_cell_def
  using assms(3) cell_slot_less [OF assms(1), of pos]
  by (intro cell_ws_ok [OF assms(1,2)] quant_cell_rows(2) [OF assms(4)] quant_cell_rows(2) [OF assms(5)]) (simp_all add: cell_at_def nat_less_iff)

lemma write_kv_cell_Inr:
  assumes s: "qp_ok s" and N: "np_bytes_ok N"
  shows "write_kv_cell N q pos k v s = (Inr (), s') \<longleftrightarrow> cell_at s q pos \<and>
     (\<exists>kq vq. quant_cell N (qp_geom s) k = Inr kq \<and> quant_cell N (qp_geom s) v = Inr vq \<and> s' = qp_put (put_cell N q pos kq vq s) s)"
proof -
  let ?l = "cell_l s pos" and ?slot = "cell_slot s pos"
  have run: "mapA (write_head N (qp_layout s) (qp_table s ! q ! ?l) ?slot kq vq) [0..<gm_n_kv (qp_geom s)] s
      = (Inr (replicate (gm_n_kv (qp_geom s)) ()), qp_put (put_cell N q pos kq vq s) s)"
    if "cell_at s q pos" "quant_cell N (qp_geom s) k = Inr kq" "quant_cell N (qp_geom s) v = Inr vq" for kq vq
    using write_heads_run [OF s, of N q ?l ?slot kq vq "[0..<gm_n_kv (qp_geom s)]"] put_cell_ok [OF s N that]
    by (simp add: put_cell_def cell_ws_def)
  show ?thesis
  proof (cases "\<exists>kq vq. quant_cell N (qp_geom s) k = Inr kq \<and> quant_cell N (qp_geom s) v = Inr vq")
    case True
    then obtain kq vq where q: "quant_cell N (qp_geom s) k = Inr kq" "quant_cell N (qp_geom s) v = Inr vq" by blast
    then obtain kr vr where r: "np_reshape (gm_n_kv (qp_geom s)) (gm_head_dim (qp_geom s)) k = Inr kr" "mapR (quantize_q8 N) kr = Inr kq"
        "np_reshape (gm_n_kv (qp_geom s)) (gm_head_dim (qp_geom s)) v = Inr vr" "mapR (quantize_q8 N) vr = Inr vq"
      by (auto simp: quant_cell_def bindR_eq_Inr)
    show ?thesis
    proof (cases "cell_at s q pos")
      case True
      then have "qp_phys s q (pos div int (pl_block_size (qp_layout s))) = Inr (qp_table s ! q ! ?l)"
        by (simp add: qp_phys_run cell_at_def)
      then show ?thesis using run [OF True q] True q
        by (auto simp: write_kv_cell_def withA_def Let_def bindA_run act_run r)
    next
      case False
      then obtain e where "qp_phys s q (pos div int (pl_block_size (qp_layout s))) = Inl e"
        by (auto simp: qp_phys_run cell_at_def)
      then show ?thesis using False by (simp add: write_kv_cell_def withA_def Let_def bindA_run act_run r)
    qed
  next
    case False
    then show ?thesis
      by (auto simp: write_kv_cell_def withA_def Let_def bindA_run act_run quant_cell_def bindR_def split: sum.splits)
  qed
qed

section \<open>Reads\<close>

definition head_of :: "('f, 'd) np \<Rightarrow> ('f, 'd) qsa_paged \<Rightarrow> nat \<Rightarrow> nat \<Rightarrow> nat \<Rightarrow> nat \<Rightarrow> (int list \<times> 'f list) \<times> (int list \<times> 'f list)" where
  "head_of N s q l slot h = (let at = (\<lambda>f. pool_get (qp_key s) (q, l, f) (qp_pages s)); gr = pl_groups (qp_layout s) in
     ((codes_of_bytes (at (KCode h slot)), halves_of_bytes N gr (at (KScale h slot))),
      (codes_of_bytes (at (VCode h slot)), halves_of_bytes N gr (at (VScale h slot)))))"

lemma read_kv_cell_run:
  assumes s: "qp_ok s" and at: "cell_at s q pos"
  shows "read_kv_cell N s q pos = Inr (map (head_of N s q (cell_l s pos) (cell_slot s pos)) [0..<gm_n_kv (qp_geom s)])"
proof -
  let ?l = "cell_l s pos" and ?slot = "cell_slot s pos"
  have "read_head N s (qp_table s ! q ! ?l) ?slot h = Inr (head_of N s q ?l ?slot h)" if h: "h < gm_n_kv (qp_geom s)" for h
  proof -
    have ok: "pool_ok (qp_key s) (q, ?l, KCode h ?slot)" "pool_ok (qp_key s) (q, ?l, VCode h ?slot)"
        "pool_ok (qp_key s) (q, ?l, KScale h ?slot)" "pool_ok (qp_key s) (q, ?l, VScale h ?slot)"
      using at h cell_slot_less [OF s] qp_ok_lay(5) [OF s] by (simp_all add: pool_ok_def cell_at_def nat_less_iff)
    show ?thesis
      using ok [THEN read_bytes_run [OF s]] qp_ok_lay(4) [OF s]
      by (simp add: read_head_def code_off_field Let_def head_of_def)
  qed
  moreover have "qp_phys s q (pos div int (pl_block_size (qp_layout s))) = Inr (qp_table s ! q ! ?l)"
    using at by (simp add: qp_phys_run cell_at_def)
  moreover from calculation have "mapR (read_head N s (qp_table s ! q ! ?l) ?slot) [0..<gm_n_kv (qp_geom s)]
      = Inr (map (head_of N s q ?l ?slot) [0..<gm_n_kv (qp_geom s)])" by (intro mapR_total) simp
  ultimately show ?thesis by (simp add: read_kv_cell_def Let_def)
qed

lemma read_kv_cell_bad: "\<not> cell_at s q pos \<Longrightarrow> \<exists>e. read_kv_cell N s q pos = Inl e"
  by (auto simp: read_kv_cell_def Let_def qp_phys_run cell_at_def)

text \<open>A cell reads back as it was quantised.\<close>

lemma read_put_cell:
  assumes s: "qp_ok s" and N: "np_bytes_ok N" and at: "cell_at s q pos"
    and k: "quant_cell N (qp_geom s) k = Inr kq" and v: "quant_cell N (qp_geom s) v = Inr vq"
  shows "read_kv_cell N (qp_put (put_cell N q pos kq vq s) s) q pos = Inr (zip kq vq)"
proof -
  let ?ws = "put_cell N q pos kq vq s" and ?l = "cell_l s pos" and ?slot = "cell_slot s pos" and ?n = "gm_n_kv (qp_geom s)"
  have ws: "writes_ok s ?ws" using put_cell_ok [OF s N at k v] .
  have inv: "pool_inv (qp_key s) (qp_pages s)" using s by (simp add: qp_ok_def)
  have dist: "distinct (map fst ?ws)" by (simp add: put_cell_def distinct_cell_ws)
  have get: "pool_get (qp_key s) a (qp_pages (qp_put ?ws s)) = b" if "(a, b) \<in> set ?ws" for a b
    using pool.get_puts_mem [OF inv _ dist that] ws by (simp add: qp_put_def writes_ok_def)
  have "head_of N (qp_put ?ws s) q ?l ?slot h = (kq ! h, vq ! h)" if h: "h < ?n" for h
  proof -
    have "set (head_ws N q ?l ?slot kq vq h) \<subseteq> set ?ws" using h by (auto simp: put_cell_def cell_ws_def)
    then have mem: "((q, ?l, KCode h ?slot), bytes_of_codes (fst (kq ! h))) \<in> set ?ws" "((q, ?l, VCode h ?slot), bytes_of_codes (fst (vq ! h))) \<in> set ?ws"
        "((q, ?l, KScale h ?slot), bytes_of_halves N (snd (kq ! h))) \<in> set ?ws" "((q, ?l, VScale h ?slot), bytes_of_halves N (snd (vq ! h))) \<in> set ?ws"
      by (simp_all add: head_ws_def)
    note r = row_roundtrip [OF N quant_cell_rows(2) [OF k, rule_format, OF h]] row_roundtrip [OF N quant_cell_rows(2) [OF v, rule_format, OF h]]
    show ?thesis using r qp_ok_lay(3) [OF s] by (simp add: head_of_def Let_def mem [THEN get] prod_eq_iff)
  qed
  then have "map (head_of N (qp_put ?ws s) q ?l ?slot) [0..<?n] = zip kq vq"
    using quant_cell_rows(1) [OF k] quant_cell_rows(1) [OF v] by (intro nth_equalityI) simp_all
  moreover have "cell_at (qp_put ?ws s) q pos" using at by (simp add: cell_at_def)
  ultimately show ?thesis using read_kv_cell_run [OF qp_ok_put [OF s ws], of q pos N] by simp
qed

end
