(* ===== verification/Qsa_Rows.thy ===== *)
theory Qsa_Rows
  imports Qsa_Cells
begin

text \<open>
  What each append of the cache writes: the quantised cell, the pooled rows it completes, and the state
  beside the pages.
\<close>

lemma bindA_unit: "bindA m (\<lambda>_. k) s = (Inr y, t) \<longleftrightarrow> (\<exists>u. m s = (Inr (), u) \<and> k u = (Inr y, t))"
  by (simp add: bindA_Inr)

lemma bindA_liftA: "bindA (liftA f) k s = (case f s of Inl e \<Rightarrow> (Inl e, s) | Inr x \<Rightarrow> k x s)"
  by (simp add: bindA_run act_run)

lemma bindA_step: "m s = (Inr x, t) \<Longrightarrow> bindA m k s = k x t"
  by (simp add: bindA_run)

lemma qp_put_upd [simp]:
  "qp_put ws (s\<lparr>qp_tail := x1\<rparr>) = (qp_put ws s)\<lparr>qp_tail := x1\<rparr>" "qp_put ws (s\<lparr>qp_dead := x2\<rparr>) = (qp_put ws s)\<lparr>qp_dead := x2\<rparr>"
  "qp_put ws (s\<lparr>qp_have_dead := x3\<rparr>) = (qp_put ws s)\<lparr>qp_have_dead := x3\<rparr>"
  "qp_put ws (s\<lparr>qp_block_pos := x4\<rparr>) = (qp_put ws s)\<lparr>qp_block_pos := x4\<rparr>"
  "qp_put ws (s\<lparr>qp_n_kv := x5\<rparr>) = (qp_put ws s)\<lparr>qp_n_kv := x5\<rparr>" "qp_put ws (s\<lparr>qp_pos := x6\<rparr>) = (qp_put ws s)\<lparr>qp_pos := x6\<rparr>"
  by (simp_all add: qp_put_def)

lemma writes_ok_upd [simp]:
  "writes_ok (s\<lparr>qp_tail := x1\<rparr>) ws = writes_ok s ws" "writes_ok (s\<lparr>qp_dead := x2\<rparr>) ws = writes_ok s ws"
  "writes_ok (s\<lparr>qp_have_dead := x3\<rparr>) ws = writes_ok s ws" "writes_ok (s\<lparr>qp_block_pos := x4\<rparr>) ws = writes_ok s ws"
  "writes_ok (s\<lparr>qp_n_kv := x5\<rparr>) ws = writes_ok s ws" "writes_ok (s\<lparr>qp_pos := x6\<rparr>) ws = writes_ok s ws"
  by (simp_all add: writes_ok_def)

section \<open>Pooled rows\<close>

definition row_place :: "('f, 'd) qsa_paged \<Rightarrow> nat \<Rightarrow> nat \<Rightarrow> place" where
  "row_place s q b = (q, b div pl_n_states (qp_layout s), Pooled (b mod pl_n_states (qp_layout s)))"

definition row_at :: "('f, 'd) qsa_paged \<Rightarrow> nat \<Rightarrow> nat \<Rightarrow> bool" where
  "row_at s q b \<longleftrightarrow> pl_pooled (qp_layout s) \<and> q < length (qp_table s) \<and> b div pl_n_states (qp_layout s) < length (qp_table s ! q)"

definition row_w :: "('f, 'd) np \<Rightarrow> ('f, 'd) qsa_paged \<Rightarrow> nat \<Rightarrow> nat \<Rightarrow> 'f list \<Rightarrow> place \<times> byte_list" where
  "row_w N s q b row = (row_place s q b, bytes_of_floats N row)"

lemma row_place_inj: "qp_ok s \<Longrightarrow> row_place s q b = row_place s q' b' \<longleftrightarrow> q = q' \<and> b = b'"
proof -
  assume "qp_ok s"
  then have m: "0 < pl_n_states (qp_layout s)" using indexer_addr_run(2) qp_ok_lay(1) by blast
  have "b = b'" if "b div pl_n_states (qp_layout s) = b' div pl_n_states (qp_layout s)" "b mod pl_n_states (qp_layout s) = b' mod pl_n_states (qp_layout s)"
    using that by (metis div_mult_mod_eq)
  then show ?thesis by (auto simp: row_place_def)
qed

lemma row_w_ok:
  assumes "qp_ok s" "np_bytes_ok N" "row_at s q b" "length row = gm_idx_dim (qp_geom s)" shows "writes_ok s [row_w N s q b row]"
proof -
  have "0 < pl_n_states (qp_layout s)" using indexer_addr_run(2) qp_ok_lay(1) assms(1) by blast
  then show ?thesis using assms length_chunks [of "f32_bytes N" 4 row] qp_ok_lay(6) [OF assms(1)]
    by (simp add: row_w_def row_place_def row_at_def pool_ok_def pool_fits_def field_fits_def bytes_of_floats_def np_bytes_ok_def)
qed

lemma row_phys:
  assumes "qp_ok s"
  shows "qp_phys s q (fst (indexer_addr (qp_layout s) (int b))) = (if q < length (qp_table s) \<and> b div pl_n_states (qp_layout s) < length (qp_table s ! q)
      then Inr (qp_table s ! q ! (b div pl_n_states (qp_layout s)))
      else Inl (IndexError (if q < length (qp_table s) then ''logical block outside'' else ''index is out of bounds'')))"
  unfolding indexer_addr_run(1) [OF qp_ok_lay(1) [OF assms]] by (simp add: qp_phys_run)

lemma write_pooled_Inr:
  assumes s: "qp_ok s" and N: "np_bytes_ok N"
  shows "write_pooled N q (int b) row s = (Inr (), s') \<longleftrightarrow>
     row_at s q b \<and> length row = gm_idx_dim (qp_geom s) \<and> s' = qp_put [row_w N s q b row] s"
proof -
  let ?m = "pl_n_states (qp_layout s)"
  have m: "0 < ?m" using indexer_addr_run(2) qp_ok_lay(1) [OF s] by blast
  have ad: "indexer_addr (qp_layout s) (int b) = (int (b div ?m), int (b mod ?m))" by (rule indexer_addr_run(1) [OF qp_ok_lay(1) [OF s]])
  have guard: "\<not> (int (b mod ?m) < 0 \<or> int (b mod ?m) \<ge> int ?m)" using m by (simp add: not_le)
  show ?thesis
  proof (cases "row_at s q b \<and> length row = gm_idx_dim (qp_geom s)")
    case True
    then have "write_bytes (qp_table s ! q ! (b div ?m)) (field_off (qp_layout s) (Pooled (b mod ?m))) (bytes_of_floats N row) s
        = (Inr (), qp_put [row_w N s q b row] s)"
      unfolding row_w_def row_place_def
      by (intro write_bytes_run [OF s]) (use row_w_ok [OF s N, of q b row] in \<open>auto simp: row_w_def row_place_def\<close>)
    then show ?thesis using True guard row_phys [OF s, of q b] qp_ok_lay(6) [OF s, symmetric]
      by (auto simp: write_pooled_def withA_def Let_def ad bindA_run act_run np_vector_def row_at_def code_off_field)
  next
    case False
    then show ?thesis using guard row_phys [OF s, of q b] qp_ok_lay(6) [OF s]
      by (auto simp: write_pooled_def withA_def Let_def ad bindA_run act_run np_vector_def row_at_def split: if_splits)
  qed
qed

lemma read_pooled_run:
  assumes s: "qp_ok s" and at: "row_at s q b"
  shows "read_pooled N s q (int b) = Inr (floats_of_bytes N (gm_idx_dim (qp_geom s)) (pool_get (qp_key s) (row_place s q b) (qp_pages s)))"
proof -
  let ?m = "pl_n_states (qp_layout s)"
  have m: "0 < ?m" using indexer_addr_run(2) qp_ok_lay(1) [OF s] by blast
  have ad: "indexer_addr (qp_layout s) (int b) = (int (b div ?m), int (b mod ?m))" by (rule indexer_addr_run(1) [OF qp_ok_lay(1) [OF s]])
  have "pool_ok (qp_key s) (row_place s q b)" using at m by (simp add: row_place_def pool_ok_def row_at_def)
  then have "read_bytes s (qp_table s ! q ! (b div ?m)) (field_off (qp_layout s) (Pooled (b mod ?m))) (pl_idx_dim (qp_layout s) * 4)
      = Inr (pool_get (qp_key s) (row_place s q b) (qp_pages s))"
    using read_bytes_run [OF s, of q "b div ?m" "Pooled (b mod ?m)"] by (simp add: row_place_def)
  then show ?thesis using row_phys [OF s, of q b] at qp_ok_lay(6) [OF s]
    by (simp add: read_pooled_def Let_def ad row_at_def code_off_field)
qed

section \<open>Appends\<close>

definition dead_row :: "('f, 'd) np \<Rightarrow> ('f, 'd) qsa_paged \<Rightarrow> 'd list \<Rightarrow> 'd list \<Rightarrow> 'f list res" where
  "dead_row N s raw gamma = apply_rope_table N (rms_double N raw gamma (gm_eps (qp_geom s))) 0 (qp_cos s) (qp_sin s) None"

definition block_row :: "('f, 'd) np \<Rightarrow> ('f, 'd) qsa_paged \<Rightarrow> nat \<Rightarrow> 'f list list \<Rightarrow> 'd list \<Rightarrow> 'd list \<Rightarrow> nat \<Rightarrow> 'f list res" where
  "block_row N s q tails raw gamma b =
     (let g = qp_geom s; r = gm_idx_block g; cell0 = int (b * r) in
      bindR (qp_thw s q cell0) (apply_rope_table N (rms_double N (block_mean N r (gm_idx_dim g) tails raw) gamma (gm_eps g))
        (qp_pos_base s ! q + cell0) (qp_cos s) (qp_sin s)))"

lemma append_dead_Inr:
  assumes s: "qp_ok s" and N: "np_bytes_ok N"
  shows "append_dead N q raw gamma s = (Inr (), s') \<longleftrightarrow> (\<exists>y. dead_row N s raw gamma = Inr y \<and> row_at s q 0 \<and> length y = gm_idx_dim (qp_geom s)
     \<and> s' = qp_put [row_w N s q 0 y] s\<lparr>qp_dead := (qp_dead s)[q := y], qp_have_dead := (qp_have_dead s)[q := True]\<rparr>)"
proof (cases "dead_row N s raw gamma")
  case (Inr y)
  let ?t = "s\<lparr>qp_dead := (qp_dead s)[q := y], qp_have_dead := (qp_have_dead s)[q := True]\<rparr>"
  have t: "qp_ok ?t" using s by (simp add: qp_ok_def)
  have "row_w N ?t q 0 y = row_w N s q 0 y" "row_at ?t q 0 = row_at s q 0" by (simp_all add: row_w_def row_place_def row_at_def)
  then show ?thesis using Inr write_pooled_Inr [OF t N, of q 0 y s']
    by (simp add: append_dead_def withA_def bindA_run act_run dead_row_def [symmetric])
qed (simp add: append_dead_def withA_def bindA_run act_run dead_row_def [symmetric])

text \<open>The rows a completion writes: its own, and the spare when the next row lies in the same block.\<close>

definition block_ws :: "('f, 'd) np \<Rightarrow> ('f, 'd) qsa_paged \<Rightarrow> nat \<Rightarrow> nat \<Rightarrow> 'f list \<Rightarrow> 'f list \<Rightarrow> (place \<times> byte_list) list" where
  "block_ws N s q b y dead = row_w N s q b y # (if fst (indexer_addr (qp_layout s) (int b + 1)) = fst (indexer_addr (qp_layout s) (int b))
     then [row_w N s q (b + 1) dead] else [])"

lemma append_block_Inr:
  assumes s: "qp_ok s" and N: "np_bytes_ok N"
  shows "append_block N q raw gamma (int p) s = (Inr (), s') \<longrightarrow>
     (\<exists>y. block_row N s q (qp_tail s ! q) raw gamma (p div gm_idx_block (qp_geom s)) = Inr y
        \<and> writes_ok s (block_ws N s q (p div gm_idx_block (qp_geom s)) y (qp_dead s ! q)) \<and> row_at s q (p div gm_idx_block (qp_geom s))
        \<and> length y = gm_idx_dim (qp_geom s)
        \<and> s' = qp_put (block_ws N s q (p div gm_idx_block (qp_geom s)) y (qp_dead s ! q)) s
             \<lparr>qp_block_pos := (qp_block_pos s)[q := qp_pos_base s ! q + int (p div gm_idx_block (qp_geom s) * gm_idx_block (qp_geom s))]\<rparr>)"
proof (cases "block_row N s q (qp_tail s ! q) raw gamma (p div gm_idx_block (qp_geom s))")
  case (Inl e)
  then show ?thesis
    by (simp add: append_block_def withA_def Let_def bindA_run act_run block_row_def flip: of_nat_div of_nat_mult)
next
  case (Inr y)
  let ?b = "p div gm_idx_block (qp_geom s)"
  have row: "bindR (qp_thw s q (int (?b * gm_idx_block (qp_geom s))))
      (apply_rope_table N (rms_double N (block_mean N (gm_idx_block (qp_geom s)) (gm_idx_dim (qp_geom s)) (qp_tail s ! q) raw) gamma (gm_eps (qp_geom s)))
        (qp_pos_base s ! q + int (?b * gm_idx_block (qp_geom s))) (qp_cos s) (qp_sin s)) = Inr y"
    using Inr by (simp add: block_row_def Let_def)
  let ?rest = "bindA (if fst (indexer_addr (qp_layout s) (int ?b + 1)) = fst (indexer_addr (qp_layout s) (int ?b))
                then write_pooled N q (int ?b + 1) (qp_dead s ! q) else retA ()) (\<lambda>_.
                modA (\<lambda>s'. s'\<lparr>qp_block_pos := (qp_block_pos s')[q := qp_pos_base s ! q + int (?b * gm_idx_block (qp_geom s))]\<rparr>))"
  show ?thesis unfolding Inr
  proof
    assume run: "append_block N q raw gamma (int p) s = (Inr (), s')"
    have eq: "append_block N q raw gamma (int p) s = bindA (write_pooled N q (int ?b) y) (\<lambda>_. ?rest) s"
      unfolding append_block_def withA_def Let_def zdiv_int [symmetric] of_nat_mult [symmetric]
      by (simp only: bindA_run [of "liftA f" for f] act_run row prod.case sum.case)
    obtain t where t: "write_pooled N q (int ?b) y s = (Inr (), t)" and u: "?rest t = (Inr (), s')"
      using bindA_unit [THEN iffD1, OF run [unfolded eq]] by blast
    from t have w: "row_at s q ?b" "length y = gm_idx_dim (qp_geom s)" "t = qp_put [row_w N s q ?b y] s"
      using write_pooled_Inr [OF s N] by simp_all
    have ok: "writes_ok s [row_w N s q ?b y]" by (rule row_w_ok [OF s N w(1,2)])
    then have okt: "qp_ok t" unfolding w(3) by (rule qp_ok_put [OF s])
    have same: "row_w N t q c x = row_w N s q c x" "row_at t q c = row_at s q c" "qp_geom t = qp_geom s" for c x
      by (simp_all add: w(3) row_w_def row_place_def row_at_def)
    have next1: "int ?b + 1 = int (?b + 1)" by simp
    show "\<exists>z. Inr y = Inr z \<and> writes_ok s (block_ws N s q ?b z (qp_dead s ! q)) \<and> row_at s q ?b
        \<and> length z = gm_idx_dim (qp_geom s) \<and> s' = qp_put (block_ws N s q ?b z (qp_dead s ! q)) s
             \<lparr>qp_block_pos := (qp_block_pos s)[q := qp_pos_base s ! q + int (?b * gm_idx_block (qp_geom s))]\<rparr>"
    proof (cases "fst (indexer_addr (qp_layout s) (int ?b + 1)) = fst (indexer_addr (qp_layout s) (int ?b))")
      case True
      then have x: "write_pooled N q (int (?b + 1)) (qp_dead s ! q) t = (Inr (), qp_put [row_w N s q (?b + 1) (qp_dead s ! q)] t)"
          "row_at s q (?b + 1)" "length (qp_dead s ! q) = gm_idx_dim (qp_geom s)"
        using u write_pooled_Inr [OF okt N, of q "?b + 1" "qp_dead s ! q"] unfolding next1 bindA_Inr by (auto simp: same)
      have "writes_ok s ([row_w N s q ?b y] @ [row_w N s q (?b + 1) (qp_dead s ! q)])"
        using ok row_w_ok [OF s N x(2,3)] by (simp only: writes_ok_simps simp_thms)
      with True u w x show ?thesis by (auto simp: block_ws_def next1 bindA_run act_run simp flip: qp_put_append)
    next
      case False
      then show ?thesis using u w ok by (simp add: block_ws_def bindA_run act_run)
    qed
  qed
qed

lemma append_kv_Inr:
  assumes s: "qp_ok s" and N: "np_bytes_ok N"
  shows "append_kv N q k v pos s = (Inr (), s') \<longleftrightarrow> q < length (qp_table s) \<and> pos = qp_n_kv s ! q \<and> cell_at s q pos \<and>
     (\<exists>kq vq. quant_cell N (qp_geom s) k = Inr kq \<and> quant_cell N (qp_geom s) v = Inr vq
        \<and> s' = qp_put (put_cell N q pos kq vq s) s\<lparr>qp_pos := (qp_pos s)[q := pos], qp_n_kv := (qp_n_kv s)[q := pos + 1]\<rparr>)"
proof -
  have len: "length (qp_n_kv s) = length (qp_table s)" using s by (simp add: qp_ok_def)
  show ?thesis
  proof (cases "q < length (qp_table s) \<and> pos = qp_n_kv s ! q")
    case True
    have "append_kv N q k v pos s = (Inr (), s') \<longleftrightarrow>
        (\<exists>t. write_kv_cell N q pos k v s = (Inr (), t) \<and> t\<lparr>qp_pos := (qp_pos t)[q := pos], qp_n_kv := (qp_n_kv t)[q := pos + 1]\<rparr> = s')"
      unfolding append_kv_def bindA_unit using True len by (simp add: act_run)
    then show ?thesis using True unfolding write_kv_cell_Inr [OF s N] by auto
  next
    case False
    then show ?thesis by (auto simp: append_kv_def bindA_run act_run np_at_def raise_if_def len split: if_splits)
  qed
qed

text \<open>The tail after token \<open>p\<close>, and the dead key.\<close>

definition tail_after :: "('f, 'd) np \<Rightarrow> ('f, 'd) qsa_paged \<Rightarrow> nat \<Rightarrow> 'd list \<Rightarrow> nat \<Rightarrow> 'f list list" where
  "tail_after N s q raw p = (let r = gm_idx_block (qp_geom s) in
     if p mod r < r - 1 then (qp_tail s ! q)[p mod r := map (to_f N) raw] else qp_tail s ! q)"

text \<open>The part of the state no append changes.\<close>

definition stat :: "('f, 'd) qsa_paged \<Rightarrow> 'd qsa_geom \<times> nat list list \<times> page_layout_rec \<times> int list \<times> 'f list list \<times> 'f list list \<times> int list list list option" where
  "stat s = (qp_geom s, qp_table s, qp_layout s, qp_pos_base s, qp_cos s, qp_sin s, qp_mrope s)"

lemma stat_cong:
  assumes "stat s = stat s'"
  shows "dead_row N s = dead_row N s'" "block_row N s = block_row N s'" "row_w N s = row_w N s'" "row_at s = row_at s'"
    "block_ws N s = block_ws N s'" "writes_ok s = writes_ok s'" "qp_geom s = qp_geom s'" "qp_key s = qp_key s'"
    "put_cell N q pos kq vq s = put_cell N q pos kq vq s'" "cell_at s = cell_at s'" "row_place s = row_place s'"
  using assms
  by (simp_all add: stat_def fun_eq_iff dead_row_def block_row_def row_w_def row_place_def row_at_def block_ws_def writes_ok_def
      put_cell_def cell_at_def qp_thw_def Let_def)

lemma stat_put [simp]: "stat (qp_put ws s) = stat s"
  by (simp add: stat_def)

lemma qp_ok_tail:
  "qp_ok s \<Longrightarrow> length raw = gm_idx_dim (qp_geom s) \<Longrightarrow> qp_ok (s\<lparr>qp_tail := (qp_tail s)[q := tail_after N s q raw p]\<rparr>)"
proof -
  assume s: "qp_ok s" and raw: "length raw = gm_idx_dim (qp_geom s)"
  have shape: "length x = gm_idx_block (qp_geom s) - 1 \<and> (\<forall>y \<in> set x. length y = gm_idx_dim (qp_geom s))"
    if x: "x \<in> set ((qp_tail s)[q := tail_after N s q raw p])" for x
  proof (cases "x \<in> set (qp_tail s)")
    case True
    then show ?thesis using s by (simp add: qp_ok_def)
  next
    case False
    then have q: "q < length (qp_tail s)" "x = tail_after N s q raw p" using x
      by (metis list_update_beyond not_le, metis insertE set_update_subset_insert subsetD)
    then have "length (qp_tail s ! q) = gm_idx_block (qp_geom s) - 1" "\<forall>y \<in> set (qp_tail s ! q). length y = gm_idx_dim (qp_geom s)"
      using s nth_mem [OF q(1)] by (auto simp: qp_ok_def)
    then show ?thesis unfolding q(2) tail_after_def Let_def using raw
      by (auto dest!: set_update_subset_insert [THEN subsetD])
  qed
  then show ?thesis using s by (simp add: qp_ok_def)
qed

text \<open>The state after a successful indexer append of token \<open>p\<close>: \<open>ws\<close> are the rows written.\<close>

definition indexer_step :: "('f, 'd) np \<Rightarrow> ('f, 'd) qsa_paged \<Rightarrow> nat \<Rightarrow> 'd list \<Rightarrow> 'd list \<Rightarrow> nat \<Rightarrow> (place \<times> byte_list) list \<Rightarrow> 'f list \<Rightarrow> 'f list \<Rightarrow> bool" where
  "indexer_step N s q raw gamma p ws y0 y = (let r = gm_idx_block (qp_geom s); dead = (if p = 0 then y0 else qp_dead s ! q) in
     (p = 0 \<longrightarrow> dead_row N s raw gamma = Inr y0 \<and> row_at s q 0 \<and> length y0 = gm_idx_dim (qp_geom s))
     \<and> (p mod r = r - 1 \<longrightarrow> block_row N s q (qp_tail s ! q) raw gamma (p div r) = Inr y \<and> row_at s q (p div r) \<and> length y = gm_idx_dim (qp_geom s))
     \<and> ws = (if p = 0 then [row_w N s q 0 y0] else []) @ (if p mod r = r - 1 then block_ws N s q (p div r) y dead else [])
     \<and> writes_ok s ws)"

lemma append_indexer_Inr:
  assumes s: "qp_ok s" and N: "np_bytes_ok N" and run: "append_indexer N q raw gamma (int p) s = (Inr (), s')"
  shows "\<exists>ws y0 y bp. indexer_step N s q raw gamma p ws y0 y \<and> q < length (qp_table s) \<and> qp_n_kv s ! q = int p + 1
     \<and> length raw = gm_idx_dim (qp_geom s) \<and> length gamma = gm_idx_dim (qp_geom s)
     \<and> s' = qp_put ws s\<lparr>qp_tail := (qp_tail s)[q := tail_after N s q raw p],
              qp_dead := (if p = 0 then (qp_dead s)[q := y0] else qp_dead s),
              qp_have_dead := (if p = 0 then (qp_have_dead s)[q := True] else qp_have_dead s), qp_block_pos := bp\<rparr>"
proof -
  let ?r = "gm_idx_block (qp_geom s)" and ?dim = "gm_idx_dim (qp_geom s)"
  let ?slot = "p mod ?r"
  have slot: "nat (int p mod int ?r) = ?slot" by (simp flip: of_nat_mod)
  have len: "length (qp_n_kv s) = length (qp_table s)" "length (qp_tail s) = length (qp_table s)" using s by (simp_all add: qp_ok_def)
  define t where "t = s\<lparr>qp_tail := (qp_tail s)[q := tail_after N s q raw p]\<rparr>"
  have guards: "q < length (qp_table s)" "qp_n_kv s ! q = int p + 1" "length raw = ?dim" "length gamma = ?dim"
    using run by (auto simp: append_indexer_def withA_def Let_def bindA_run act_run np_at_def np_vector_def raise_if_def len split: if_splits)
  have pooled: "pl_pooled (qp_layout s)"
    using run by (auto simp: append_indexer_def withA_def Let_def bindA_run act_run np_at_def np_vector_def raise_if_def len split: if_splits)
  have tail: "(if ?slot < ?r - 1 then modA (\<lambda>s. s\<lparr>qp_tail := (qp_tail s)[q := (qp_tail s ! q)[?slot := map (to_f N) raw]]\<rparr>) else retA ()) s = (Inr (), t)"
    by (simp add: t_def act_run tail_after_def Let_def)
  have f: "bindR (raise_if (\<not> pl_pooled (qp_layout s)) (RuntimeError ''draft page has no indexer'')) (\<lambda>_.
              bindR (np_at (qp_n_kv s) q) (\<lambda>n. raise_if (int p + 1 \<noteq> n) (ValueError ''indexer pos must be the cell just appended''))) = Inr ()"
      "np_vector ?dim raw = Inr raw" "np_vector ?dim gamma = Inr gamma"
    using guards pooled len by (simp_all add: np_vector_def)
  have "append_indexer N q raw gamma (int p) s = bindA (if int p = 0 then append_dead N q raw gamma else retA ())
      (\<lambda>_. if ?slot = ?r - 1 then append_block N q raw gamma (int p) else retA ()) t"
    unfolding append_indexer_def withA_def Let_def slot bindA_liftA f sum.case by (rule bindA_step) (rule tail)
  with run have "bindA (if int p = 0 then append_dead N q raw gamma else retA ())
      (\<lambda>_. if ?slot = ?r - 1 then append_block N q raw gamma (int p) else retA ()) t = (Inr (), s')" by (simp only:)
  then obtain u where u: "(if int p = 0 then append_dead N q raw gamma else retA ()) t = (Inr (), u)"
      and v: "(if ?slot = ?r - 1 then append_block N q raw gamma (int p) else retA ()) u = (Inr (), s')"
    unfolding bindA_unit by blast
  have okt: "qp_ok t" unfolding t_def by (rule qp_ok_tail [OF s guards(3)])
  have st: "stat t = stat s" by (simp add: t_def stat_def)
  note st_cong = stat_cong [OF st]
  have lent: "length (qp_dead t) = length (qp_table s)" using s by (simp add: t_def qp_ok_def)
  obtain ws0 y0 where first: "p = 0 \<longrightarrow> dead_row N s raw gamma = Inr y0 \<and> row_at s q 0 \<and> length y0 = ?dim"
      "ws0 = (if p = 0 then [row_w N s q 0 y0] else [])"
      "u = qp_put ws0 t\<lparr>qp_dead := (if p = 0 then (qp_dead s)[q := y0] else qp_dead s),
        qp_have_dead := (if p = 0 then (qp_have_dead s)[q := True] else qp_have_dead s)\<rparr>"
  proof (cases "p = 0")
    case True
    then obtain y where "dead_row N t raw gamma = Inr y" "row_at t q 0" "length y = gm_idx_dim (qp_geom t)"
        "u = qp_put [row_w N t q 0 y] t\<lparr>qp_dead := (qp_dead t)[q := y], qp_have_dead := (qp_have_dead t)[q := True]\<rparr>"
      using u append_dead_Inr [OF okt N, of q raw gamma u] by auto
    then show ?thesis using True that [of y "[row_w N s q 0 y]"] by (simp add: st_cong) (simp add: t_def)
  next
    case False
    then have "u = t" using u by (simp add: act_run)
    then show ?thesis using False that [of undefined "[]"] by (simp add: t_def)
  qed
  have ws0: "writes_ok s ws0" using first(1,2) row_w_ok [OF s N] by simp
  have "qp_ok (qp_put ws0 t)" by (rule qp_ok_put [OF okt]) (simp add: st_cong ws0)
  moreover have "qp_table t = qp_table s" by (simp add: t_def)
  ultimately have oku: "qp_ok u" using s unfolding first(3) by (simp add: qp_ok_def)
  have stu: "stat u = stat s" using st by (simp add: first(3) stat_def)
  note su_cong = stat_cong [OF stu]
  show ?thesis
  proof (cases "?slot = ?r - 1")
    case False
    then have "s' = u" using v by (simp add: act_run)
    then show ?thesis using False guards first ws0
      by (intro exI [of _ ws0] exI [of _ y0] exI [of _ "qp_block_pos s"]) (simp add: indexer_step_def Let_def t_def)
  next
    case True
    have tl: "qp_tail u ! q = qp_tail s ! q" using True guards(1) len by (simp add: first(3) t_def tail_after_def Let_def)
    have dd: "qp_dead u ! q = (if p = 0 then y0 else qp_dead s ! q)" using guards(1) s by (simp add: first(3) qp_ok_def)
    from v True have "append_block N q raw gamma (int p) u = (Inr (), s')" by simp
    then obtain y bp where y: "block_row N s q (qp_tail s ! q) raw gamma (p div ?r) = Inr y" "row_at s q (p div ?r)" "length y = ?dim"
        "writes_ok s (block_ws N s q (p div ?r) y (if p = 0 then y0 else qp_dead s ! q))"
        "s' = qp_put (block_ws N s q (p div ?r) y (if p = 0 then y0 else qp_dead s ! q)) u\<lparr>qp_block_pos := bp\<rparr>"
      using append_block_Inr [OF oku N, of q raw gamma p s'] unfolding su_cong tl dd by blast
    define ws1 where "ws1 = block_ws N s q (p div ?r) y (if p = 0 then y0 else qp_dead s ! q)"
    have "indexer_step N s q raw gamma p (ws0 @ ws1) y0 y"
      unfolding indexer_step_def Let_def using first(1,2) y(1-4) ws0 True by (simp add: ws1_def)
    moreover have "s' = qp_put (ws0 @ ws1) s\<lparr>qp_tail := (qp_tail s)[q := tail_after N s q raw p],
              qp_dead := (if p = 0 then (qp_dead s)[q := y0] else qp_dead s),
              qp_have_dead := (if p = 0 then (qp_have_dead s)[q := True] else qp_have_dead s), qp_block_pos := bp\<rparr>"
      unfolding y(5) ws1_def [symmetric] first(3) t_def qp_put_append by simp
    ultimately show ?thesis using guards by blast
  qed
qed

end
