(* ===== verification/Qsa_Cache_Props.thy ===== *)
theory Qsa_Cache_Props
  imports Qsa_Rows
begin

text \<open>
  Frames of the appends, and queries as functions of what they read: an append at position \<open>p\<close> keeps every
  cell but its own, every completed row below its block and the dead key of a started sequence.
\<close>

section \<open>Appends of a token\<close>

text \<open>The effect of a token append on a pooled cache.\<close>

definition token_step :: "('f, 'd) np \<Rightarrow> ('f, 'd) qsa_paged \<Rightarrow> nat \<Rightarrow> 'f list \<Rightarrow> 'f list \<Rightarrow> 'd list \<Rightarrow> 'd list \<Rightarrow> nat \<Rightarrow>
    'f q8_heads \<Rightarrow> 'f q8_heads \<Rightarrow> (place \<times> byte_list) list \<Rightarrow> 'f list \<Rightarrow> 'f list \<Rightarrow> int list \<Rightarrow> ('f, 'd) qsa_paged \<Rightarrow> bool" where
  "token_step N s q k v raw gamma p kq vq ws y0 y bp s' \<longleftrightarrow>
     q < length (qp_table s) \<and> int p = qp_n_kv s ! q \<and> cell_at s q (int p) \<and> quant_cell N (qp_geom s) k = Inr kq \<and> quant_cell N (qp_geom s) v = Inr vq
     \<and> indexer_step N s q raw gamma p ws y0 y \<and> length raw = gm_idx_dim (qp_geom s) \<and> length bp = length (qp_table s)
     \<and> s' = qp_put (put_cell N q (int p) kq vq s @ ws) s\<lparr>qp_pos := (qp_pos s)[q := int p], qp_n_kv := (qp_n_kv s)[q := int p + 1],
          qp_tail := (qp_tail s)[q := tail_after N s q raw p], qp_dead := (if p = 0 then (qp_dead s)[q := y0] else qp_dead s),
          qp_have_dead := (if p = 0 then (qp_have_dead s)[q := True] else qp_have_dead s), qp_block_pos := bp\<rparr>"

lemma length_indexer_bp:
  assumes "qp_ok s" "np_bytes_ok N" "append_indexer N q raw gamma pos s = (r, s')"
  shows "length (qp_block_pos s') = length (qp_block_pos s)"
proof -
  have k: "keepsA (\<lambda>s. length (qp_block_pos s)) (append_indexer N q raw gamma pos)"
    unfolding append_indexer_def append_dead_def append_block_def write_pooled_def write_bytes_def Let_def
    by (intro keeps_intros; simp add: split_beta; (intro keeps_intros; simp)?)
  then show ?thesis using assms(3) by (simp add: keepsA_def) (metis snd_conv)
qed

lemma append_token_Inr:
  assumes s: "qp_ok s" and N: "np_bytes_ok N" and pooled: "pl_pooled (qp_layout s)"
    and run: "append_token N q k v (Some raw) (Some gamma) pos s = (Inr (), s')"
  shows "\<exists>p kq vq ws y0 y bp. pos = int p \<and> token_step N s q k v raw gamma p kq vq ws y0 y bp s'"
proof -
  obtain t where t: "append_kv N q k v pos s = (Inr (), t)" and u0: "withA (\<lambda>s. if \<not> pl_pooled (qp_layout s) then retA ()
       else case (Some raw, Some gamma) of (Some x, Some gamma) \<Rightarrow> append_indexer N q x gamma pos
       | _ \<Rightarrow> raiseA (ValueError ''pooled append needs the raw indexer key'')) t = (Inr (), s')"
    using run unfolding append_token_def bindA_unit by blast
  obtain kq vq where kv: "q < length (qp_table s)" "pos = qp_n_kv s ! q" "cell_at s q pos"
      "quant_cell N (qp_geom s) k = Inr kq" "quant_cell N (qp_geom s) v = Inr vq"
      "t = qp_put (put_cell N q pos kq vq s) s\<lparr>qp_pos := (qp_pos s)[q := pos], qp_n_kv := (qp_n_kv s)[q := pos + 1]\<rparr>"
    using append_kv_Inr [OF s N] t by blast
  have "pos \<in> set (qp_n_kv s)" using kv(1,2) s by (auto simp: qp_ok_def intro!: nth_mem)
  then have "0 \<le> pos" using s by (simp add: qp_ok_def)
  then obtain p where p: "pos = int p" using zero_le_imp_eq_int by blast
  have st: "stat t = stat s" by (simp add: kv(6) stat_def)
  note cg = stat_cong [OF st]
  have ind: "append_indexer N q raw gamma (int p) t = (Inr (), s')" using u0 pooled cg(8) by (simp add: withA_def p)
  have w: "writes_ok s (put_cell N q pos kq vq s)" by (rule put_cell_ok [OF s N kv(3,4,5)])
  have okt: "qp_ok t" using qp_ok_put [OF s w] kv(1) p unfolding kv(6)
    by (auto simp: qp_ok_def dest!: set_update_subset_insert [THEN subsetD])
  obtain ws y0 y bp where i: "indexer_step N t q raw gamma p ws y0 y" "length raw = gm_idx_dim (qp_geom t)"
      "s' = qp_put ws t\<lparr>qp_tail := (qp_tail t)[q := tail_after N t q raw p], qp_dead := (if p = 0 then (qp_dead t)[q := y0] else qp_dead t),
         qp_have_dead := (if p = 0 then (qp_have_dead t)[q := True] else qp_have_dead t), qp_block_pos := bp\<rparr>"
    using append_indexer_Inr [OF okt N ind] by blast
  have bp: "length bp = length (qp_table s)"
    using length_indexer_bp [OF okt N ind] s unfolding i(3) by (simp add: kv(6) qp_ok_def)
  have same: "qp_tail t = qp_tail s" "qp_dead t = qp_dead s" "qp_have_dead t = qp_have_dead s" by (simp_all add: kv(6))
  have step: "indexer_step N t = indexer_step N s" "tail_after N t = tail_after N s"
    by (simp_all add: fun_eq_iff indexer_step_def tail_after_def Let_def cg same)
  have "token_step N s q k v raw gamma p kq vq ws y0 y bp s'"
    unfolding token_step_def
  proof (intro conjI)
    show "cell_at s q (int p)" "int p = qp_n_kv s ! q" using kv(2,3) p by simp_all
    show "indexer_step N s q raw gamma p ws y0 y" using i(1) unfolding step .
    show "length raw = gm_idx_dim (qp_geom s)" using i(2) cg(7) by simp
    show "s' = qp_put (put_cell N q (int p) kq vq s @ ws) s\<lparr>qp_pos := (qp_pos s)[q := int p], qp_n_kv := (qp_n_kv s)[q := int p + 1],
          qp_tail := (qp_tail s)[q := tail_after N s q raw p], qp_dead := (if p = 0 then (qp_dead s)[q := y0] else qp_dead s),
          qp_have_dead := (if p = 0 then (qp_have_dead s)[q := True] else qp_have_dead s), qp_block_pos := bp\<rparr>"
      unfolding i(3) same step unfolding kv(6) p qp_put_append by simp
  qed (rule kv bp)+
  then show ?thesis using p by blast
qed

lemma token_stepD:
  assumes "token_step N s q k v raw gamma p kq vq ws y0 y bp s'"
  shows "q < length (qp_table s)" "int p = qp_n_kv s ! q" "cell_at s q (int p)" "quant_cell N (qp_geom s) k = Inr kq" "quant_cell N (qp_geom s) v = Inr vq"
    "length raw = gm_idx_dim (qp_geom s)" "qp_pages s' = qp_pages (qp_put (put_cell N q (int p) kq vq s @ ws) s)"
    "qp_n_kv s' = (qp_n_kv s)[q := int p + 1]" "qp_tail s' = (qp_tail s)[q := tail_after N s q raw p]"
    "qp_dead s' = (if p = 0 then (qp_dead s)[q := y0] else qp_dead s)"
    "qp_have_dead s' = (if p = 0 then (qp_have_dead s)[q := True] else qp_have_dead s)" "stat s' = stat s" "writes_ok s ws"
    "p = 0 \<Longrightarrow> dead_row N s raw gamma = Inr y0 \<and> row_at s q 0 \<and> length y0 = gm_idx_dim (qp_geom s)"
    "p mod gm_idx_block (qp_geom s) = gm_idx_block (qp_geom s) - 1 \<Longrightarrow>
       block_row N s q (qp_tail s ! q) raw gamma (p div gm_idx_block (qp_geom s)) = Inr y \<and> row_at s q (p div gm_idx_block (qp_geom s))
         \<and> length y = gm_idx_dim (qp_geom s)"
    "ws = (if p = 0 then [row_w N s q 0 y0] else [])
      @ (if p mod gm_idx_block (qp_geom s) = gm_idx_block (qp_geom s) - 1 then block_ws N s q (p div gm_idx_block (qp_geom s)) y (if p = 0 then y0 else qp_dead s ! q) else [])"
proof -
  note d = assms [unfolded token_step_def indexer_step_def Let_def]
  show "q < length (qp_table s)" "int p = qp_n_kv s ! q" "cell_at s q (int p)" "quant_cell N (qp_geom s) k = Inr kq" "quant_cell N (qp_geom s) v = Inr vq"
    "length raw = gm_idx_dim (qp_geom s)" "writes_ok s ws"
    "p = 0 \<Longrightarrow> dead_row N s raw gamma = Inr y0 \<and> row_at s q 0 \<and> length y0 = gm_idx_dim (qp_geom s)"
    "p mod gm_idx_block (qp_geom s) = gm_idx_block (qp_geom s) - 1 \<Longrightarrow>
       block_row N s q (qp_tail s ! q) raw gamma (p div gm_idx_block (qp_geom s)) = Inr y \<and> row_at s q (p div gm_idx_block (qp_geom s))
         \<and> length y = gm_idx_dim (qp_geom s)"
    "ws = (if p = 0 then [row_w N s q 0 y0] else [])
      @ (if p mod gm_idx_block (qp_geom s) = gm_idx_block (qp_geom s) - 1 then block_ws N s q (p div gm_idx_block (qp_geom s)) y (if p = 0 then y0 else qp_dead s ! q) else [])"
    using d by blast+
  have e: "s' = qp_put (put_cell N q (int p) kq vq s @ ws) s\<lparr>qp_pos := (qp_pos s)[q := int p], qp_n_kv := (qp_n_kv s)[q := int p + 1],
          qp_tail := (qp_tail s)[q := tail_after N s q raw p], qp_dead := (if p = 0 then (qp_dead s)[q := y0] else qp_dead s),
          qp_have_dead := (if p = 0 then (qp_have_dead s)[q := True] else qp_have_dead s), qp_block_pos := bp\<rparr>" using d by blast
  show "qp_pages s' = qp_pages (qp_put (put_cell N q (int p) kq vq s @ ws) s)"
    "qp_n_kv s' = (qp_n_kv s)[q := int p + 1]" "qp_tail s' = (qp_tail s)[q := tail_after N s q raw p]"
    "qp_dead s' = (if p = 0 then (qp_dead s)[q := y0] else qp_dead s)"
    "qp_have_dead s' = (if p = 0 then (qp_have_dead s)[q := True] else qp_have_dead s)" "stat s' = stat s"
    unfolding e by (simp_all add: stat_def)
qed

lemma token_step_writes:
  assumes s: "qp_ok s" and N: "np_bytes_ok N" and st: "token_step N s q k v raw gamma p kq vq ws y0 y bp s'"
  shows "writes_ok s (put_cell N q (int p) kq vq s)" "writes_ok s ws" "qp_ok s'" "stat s' = stat s"
    "fst ` set ws \<subseteq> {row_place s q b |b. p div gm_idx_block (qp_geom s) \<le> b}"
    "qp_n_kv s' = (qp_n_kv s)[q := int p + 1]"
proof -
  note d = token_stepD [OF st]
  show w1: "writes_ok s (put_cell N q (int p) kq vq s)" by (rule put_cell_ok [OF s N d(3-5)])
  show "writes_ok s ws" "stat s' = stat s" "qp_n_kv s' = (qp_n_kv s)[q := int p + 1]" by (rule d)+
  have "qp_ok (qp_put (put_cell N q (int p) kq vq s @ ws) s)" by (rule qp_ok_put [OF s]) (simp add: w1 d(13))
  moreover have "qp_ok (s\<lparr>qp_tail := (qp_tail s)[q := tail_after N s q raw p]\<rparr>)" by (rule qp_ok_tail [OF s d(6)])
  moreover have "s' = qp_put (put_cell N q (int p) kq vq s @ ws) s\<lparr>qp_pos := (qp_pos s)[q := int p], qp_n_kv := (qp_n_kv s)[q := int p + 1],
          qp_tail := (qp_tail s)[q := tail_after N s q raw p], qp_dead := (if p = 0 then (qp_dead s)[q := y0] else qp_dead s),
          qp_have_dead := (if p = 0 then (qp_have_dead s)[q := True] else qp_have_dead s), qp_block_pos := bp\<rparr>"
      "length bp = length (qp_table s)" using st unfolding token_step_def by blast+
  ultimately show "qp_ok s'" by (auto simp: qp_ok_def dest!: set_update_subset_insert [THEN subsetD])
  have "fst w \<in> {row_place s q b |b. p div gm_idx_block (qp_geom s) \<le> b}" if w: "w \<in> set ws" for w
  proof -
    have "fst w = row_place s q 0 \<and> p = 0 \<or> fst w = row_place s q (p div gm_idx_block (qp_geom s)) \<or> fst w = row_place s q (p div gm_idx_block (qp_geom s) + 1)"
      using w unfolding d(16) by (auto simp: row_w_def block_ws_def split: if_splits)
    then show ?thesis by fastforce
  qed
  then show "fst ` set ws \<subseteq> {row_place s q b |b. p div gm_idx_block (qp_geom s) \<le> b}" by blast
qed

section \<open>Reads under writes\<close>

lemma pool_get_put:
  assumes "qp_ok s" "writes_ok s ws" "pool_ok (qp_key s) a" "a \<notin> fst ` set ws"
  shows "pool_get (qp_key s) a (qp_pages (qp_put ws s)) = pool_get (qp_key s) a (qp_pages s)"
  using pool.get_puts_other [of "qp_key s" "qp_pages s" ws a] assms by (simp add: qp_put_def qp_ok_def writes_ok_def)

lemma cell_pool_ok: "qp_ok s \<Longrightarrow> cell_at s q pos \<Longrightarrow> a \<in> cell_fields (gm_n_kv (qp_geom s)) q (cell_l s pos) (cell_slot s pos) \<Longrightarrow> pool_ok (qp_key s) a"
  using cell_slot_less [of s pos] qp_ok_lay(5) [of s] by (auto simp: cell_fields_def pool_ok_def cell_at_def nat_less_iff)

lemma row_pool_ok: "qp_ok s \<Longrightarrow> row_at s q b \<Longrightarrow> pool_ok (qp_key s) (row_place s q b)"
  using indexer_addr_run(2) [of "qp_layout s"] qp_ok_lay(1) [of s] by (simp add: row_place_def pool_ok_def row_at_def)

text \<open>A read depends on the static part and on the bytes of its fields.\<close>

lemma read_kv_cell_cong:
  assumes "qp_ok s" "qp_ok s'" "stat s' = stat s"
    and "cell_at s q pos \<Longrightarrow> \<forall>a \<in> cell_fields (gm_n_kv (qp_geom s)) q (cell_l s pos) (cell_slot s pos).
           pool_get (qp_key s) a (qp_pages s') = pool_get (qp_key s) a (qp_pages s)"
  shows "read_kv_cell N s' q pos = read_kv_cell N s q pos"
proof (cases "cell_at s q pos")
  case True
  have lay: "qp_layout s' = qp_layout s" "qp_geom s' = qp_geom s" "qp_table s' = qp_table s" using assms(3) by (simp_all add: stat_def)
  have "head_of N s' q (cell_l s pos) (cell_slot s pos) h = head_of N s q (cell_l s pos) (cell_slot s pos) h" if "h < gm_n_kv (qp_geom s)" for h
    using assms(4) [OF True] that by (auto simp: head_of_def Let_def lay cell_fields_def)
  then show ?thesis
    using read_kv_cell_run [OF assms(1) True, of N] read_kv_cell_run [OF assms(2), of q pos N] True stat_cong(10) [OF assms(3)]
    by (simp add: lay)
next
  case False
  have "qp_phys s' q (pos div int (pl_block_size (qp_layout s))) = qp_phys s q (pos div int (pl_block_size (qp_layout s)))"
       "qp_layout s' = qp_layout s"
    using assms(3) by (simp_all add: stat_def qp_phys_run)
  moreover obtain e where "qp_phys s q (pos div int (pl_block_size (qp_layout s))) = Inl e" using False by (auto simp: qp_phys_run cell_at_def)
  ultimately show ?thesis by (simp add: read_kv_cell_def Let_def)
qed

lemma read_pooled_cong:
  assumes "qp_ok s" "qp_ok s'" "stat s' = stat s" "pl_pooled (qp_layout s)"
    and "row_at s q b \<Longrightarrow> pool_get (qp_key s) (row_place s q b) (qp_pages s') = pool_get (qp_key s) (row_place s q b) (qp_pages s)"
  shows "read_pooled N s' q (int b) = read_pooled N s q (int b)"
proof (cases "row_at s q b")
  case True
  have "row_at s' q b" "qp_key s' = qp_key s" "row_place s' q b = row_place s q b" "qp_geom s' = qp_geom s"
    using stat_cong [OF assms(3)] True by simp_all
  then show ?thesis using read_pooled_run [OF assms(1) True, of N] read_pooled_run [OF assms(2), of q b N] assms(5) [OF True] by simp
next
  case False
  have lay: "qp_layout s' = qp_layout s" "qp_table s' = qp_table s" using assms(3) by (simp_all add: stat_def)
  then have p: "qp_phys s' q x = qp_phys s q x" for x by (simp add: qp_phys_run)
  obtain e where "qp_phys s q (fst (indexer_addr (qp_layout s) (int b))) = Inl e"
    using False assms(4) row_phys [OF assms(1), of q b] by (auto simp: row_at_def)
  then show ?thesis by (cases "indexer_addr (qp_layout s) (int b)") (simp add: read_pooled_def Let_def lay p)
qed

section \<open>The frame of an append\<close>

lemma cell_fields_disjoint:
  "(q', l', slot') \<noteq> (q, l, slot) \<Longrightarrow> cell_fields n q' l' slot' \<inter> cell_fields n q l slot = {}"
  by (auto simp: cell_fields_def)

lemma cell_place_inj:
  assumes "qp_ok s" "cell_at s q pos" "cell_at s q pos'" "cell_l s pos = cell_l s pos'" "cell_slot s pos = cell_slot s pos'"
  shows "pos = pos'"
proof -
  have b: "0 < int (pl_block_size (qp_layout s))" using qp_ok_lay(2) [OF assms(1)] by simp
  have "pos div int (pl_block_size (qp_layout s)) = pos' div int (pl_block_size (qp_layout s))"
    using assms(2-4) by (simp add: cell_at_def eq_nat_nat_iff)
  moreover have "pos mod int (pl_block_size (qp_layout s)) = pos' mod int (pl_block_size (qp_layout s))"
    using assms(5) b by (simp add: eq_nat_nat_iff)
  ultimately show ?thesis by (metis div_mult_mod_eq)
qed

lemma frame_cell:
  assumes s: "qp_ok s" and N: "np_bytes_ok N" and st: "token_step N s q k v raw gamma p kq vq ws y0 y bp s'"
    and other: "q' \<noteq> q \<or> j \<noteq> int p"
  shows "read_kv_cell N s' q' j = read_kv_cell N s q' j"
proof (rule read_kv_cell_cong [OF s token_step_writes(3,4) [OF s N st]])
  assume at: "cell_at s q' j"
  note atp = token_stepD(3) [OF st]
  let ?W = "put_cell N q (int p) kq vq s @ ws"
  note pages = token_stepD(7) [OF st]
  have W: "writes_ok s ?W" using token_step_writes(1,2) [OF s N st] by simp
  have ne: "(q', cell_l s j, cell_slot s j) \<noteq> (q, cell_l s (int p), cell_slot s (int p))"
    using cell_place_inj [OF s, of q j "int p"] at atp other by auto
  show "\<forall>a \<in> cell_fields (gm_n_kv (qp_geom s)) q' (cell_l s j) (cell_slot s j). pool_get (qp_key s) a (qp_pages s') = pool_get (qp_key s) a (qp_pages s)"
  proof
    fix a assume a: "a \<in> cell_fields (gm_n_kv (qp_geom s)) q' (cell_l s j) (cell_slot s j)"
    have "a \<notin> fst ` set (put_cell N q (int p) kq vq s)"
      unfolding put_cell_def fst_cell_ws using cell_fields_disjoint [OF ne] a by blast
    moreover have "a \<notin> fst ` set ws"
      using token_step_writes(5) [OF s N st] a by (auto simp: cell_fields_def row_place_def)
    ultimately have "a \<notin> fst ` set ?W" by (simp add: image_Un)
    then show "pool_get (qp_key s) a (qp_pages s') = pool_get (qp_key s) a (qp_pages s)"
      unfolding pages by (rule pool_get_put [OF s W cell_pool_ok [OF s at a]])
  qed
qed

lemma frame_row:
  assumes s: "qp_ok s" and N: "np_bytes_ok N" and st: "token_step N s q k v raw gamma p kq vq ws y0 y bp s'" and pooled: "pl_pooled (qp_layout s)"
    and other: "q' \<noteq> q \<or> b < p div gm_idx_block (qp_geom s)"
  shows "read_pooled N s' q' (int b) = read_pooled N s q' (int b)"
proof (rule read_pooled_cong [OF s token_step_writes(3,4) [OF s N st] pooled])
  assume at: "row_at s q' b"
  let ?W = "put_cell N q (int p) kq vq s @ ws"
  note pages = token_stepD(7) [OF st]
  have W: "writes_ok s ?W" using token_step_writes(1,2) [OF s N st] by simp
  have "row_place s q' b \<notin> fst ` set (put_cell N q (int p) kq vq s)"
    unfolding put_cell_def fst_cell_ws by (auto simp: cell_fields_def row_place_def)
  moreover have "row_place s q' b \<notin> fst ` set ws"
  proof
    assume "row_place s q' b \<in> fst ` set ws"
    then obtain c where "row_place s q' b = row_place s q c" "p div gm_idx_block (qp_geom s) \<le> c"
      using token_step_writes(5) [OF s N st] by blast
    then show False using other unfolding row_place_inj [OF s] by simp
  qed
  ultimately have "row_place s q' b \<notin> fst ` set ?W" by (simp add: image_Un)
  then show "pool_get (qp_key s) (row_place s q' b) (qp_pages s') = pool_get (qp_key s) (row_place s q' b) (qp_pages s)"
    unfolding pages by (rule pool_get_put [OF s W row_pool_ok [OF s at]])
qed

section \<open>What an append stores\<close>

lemma new_cell:
  assumes s: "qp_ok s" and N: "np_bytes_ok N" and st: "token_step N s q k v raw gamma p kq vq ws y0 y bp s'"
  shows "read_kv_cell N s' q (int p) = Inr (zip kq vq)"
proof -
  note d = token_stepD [OF st]
  let ?W = "put_cell N q (int p) kq vq s"
  define s1 where "s1 = qp_put ?W s"
  have W: "writes_ok s ?W" by (rule token_step_writes(1) [OF s N st])
  have ok1: "qp_ok s1" unfolding s1_def by (rule qp_ok_put [OF s W])
  have st1: "stat s1 = stat s" by (simp add: s1_def)
  note cg = stat_cong [OF st1]
  have "read_kv_cell N s' q (int p) = read_kv_cell N s1 q (int p)"
  proof (rule read_kv_cell_cong [OF ok1 token_step_writes(3) [OF s N st]])
    show "stat s' = stat s1" using d(12) st1 by simp
    assume at: "cell_at s1 q (int p)"
    show "\<forall>a \<in> cell_fields (gm_n_kv (qp_geom s1)) q (cell_l s1 (int p)) (cell_slot s1 (int p)).
        pool_get (qp_key s1) a (qp_pages s') = pool_get (qp_key s1) a (qp_pages s1)"
    proof
      fix a assume a: "a \<in> cell_fields (gm_n_kv (qp_geom s1)) q (cell_l s1 (int p)) (cell_slot s1 (int p))"
      have "a \<notin> fst ` set ws" using token_step_writes(5) [OF s N st] a by (auto simp: cell_fields_def row_place_def)
      then show "pool_get (qp_key s1) a (qp_pages s') = pool_get (qp_key s1) a (qp_pages s1)"
        unfolding d(7) qp_put_append s1_def [symmetric]
        by (intro pool_get_put [OF ok1 _ cell_pool_ok [OF ok1 at a]]) (simp_all add: cg d(13))
    qed
  qed
  also have "\<dots> = Inr (zip kq vq)" unfolding s1_def by (rule read_put_cell [OF s N d(3-5)])
  finally show ?thesis .
qed

lemma new_row:
  assumes s: "qp_ok s" and N: "np_bytes_ok N" and st: "token_step N s q k v raw gamma p kq vq ws y0 y bp s'"
    and full: "p mod gm_idx_block (qp_geom s) = gm_idx_block (qp_geom s) - 1"
  shows "read_pooled N s' q (int (p div gm_idx_block (qp_geom s))) = Inr y"
proof -
  note d = token_stepD [OF st]
  let ?b = "p div gm_idx_block (qp_geom s)"
  have y: "row_at s q ?b" "length y = gm_idx_dim (qp_geom s)" using d(15) [OF full] by simp_all
  define vs where "vs = block_ws N s q ?b y (if p = 0 then y0 else qp_dead s ! q)"
  define us where "us = put_cell N q (int p) kq vq s @ (if p = 0 then [row_w N s q 0 y0] else [])"
  have ws: "put_cell N q (int p) kq vq s @ ws = us @ vs" using d(16) full by (simp add: us_def vs_def)
  have W: "writes_ok s (us @ vs)" unfolding ws [symmetric] using token_step_writes(1,2) [OF s N st] by simp
  then have ok2: "qp_ok (qp_put us s)" by (intro qp_ok_put [OF s]) simp
  have "distinct (map fst vs)" using row_place_inj [OF s] by (simp add: vs_def block_ws_def row_w_def)
  moreover have "(row_place s q ?b, bytes_of_floats N y) \<in> set vs" by (simp add: vs_def block_ws_def row_w_def)
  ultimately have get: "pool_get (qp_key s) (row_place s q ?b) (qp_pages (qp_put vs (qp_put us s))) = bytes_of_floats N y"
    using pool.get_puts_mem [of "qp_key s" "qp_pages (qp_put us s)" vs] ok2 W
    by (simp add: qp_put_def [of vs] qp_ok_def writes_ok_def)
  have st': "stat s' = stat s" by (rule d(12))
  note cg = stat_cong [OF st']
  have "read_pooled N s' q (int ?b) = Inr (floats_of_bytes N (gm_idx_dim (qp_geom s)) (bytes_of_floats N y))"
    using read_pooled_run [OF token_step_writes(3) [OF s N st], of q ?b N] y(1)
    unfolding d(7) ws qp_put_append cg get by simp
  then show ?thesis using floats_roundtrip [OF N, of y] y(2) by simp
qed

section \<open>Queries\<close>

lemma topk_radix_bound: "topk_radix N sc w = Inr ids \<Longrightarrow> i \<in> set ids \<Longrightarrow> i < length sc"
  by (auto simp: topk_radix_def Let_def length_ordered_keys split: if_splits)

text \<open>Two sequences, of one or two caches, that read alike below \<open>n\<close> cells.\<close>

definition alike :: "('f, 'd) np \<Rightarrow> nat \<Rightarrow> ('f, 'd) qsa_paged \<Rightarrow> nat \<Rightarrow> ('f, 'd) qsa_paged \<Rightarrow> nat \<Rightarrow> bool" where
  "alike N n s q t q' \<longleftrightarrow> qp_geom t = qp_geom s \<and> q < length (qp_n_kv s) \<and> q' < length (qp_n_kv t)
     \<and> int n \<le> qp_n_kv s ! q \<and> int n \<le> qp_n_kv t ! q' \<and> qp_have_dead s ! q = qp_have_dead t ! q' \<and> qp_dead s ! q = qp_dead t ! q'
     \<and> (\<forall>j < n. read_kv_cell N t q' (int j) = read_kv_cell N s q (int j))
     \<and> (\<forall>b < n div gm_idx_block (qp_geom s). read_pooled N t q' (int b) = read_pooled N s q (int b))"

lemma mapR_cong: "(\<And>x. x \<in> set xs \<Longrightarrow> f x = g x) \<Longrightarrow> mapR f xs = mapR g xs"
  by (induction xs) auto

lemma alike_scores:
  assumes a: "alike N n s q t q'" and m: "m \<le> n"
  shows "qp_scores N t q' x (int m) bias = qp_scores N s q x (int m) bias"
proof -
  have r: "nat (int m div int (gm_idx_block (qp_geom s))) = m div gm_idx_block (qp_geom s)" by (simp flip: of_nat_div)
  have rows: "mapR (\<lambda>b. read_pooled N t q' (int b)) [0..<m div gm_idx_block (qp_geom s)] = mapR (\<lambda>b. read_pooled N s q (int b)) [0..<m div gm_idx_block (qp_geom s)]"
    by (rule mapR_cong) (use a div_le_mono [OF m, of "gm_idx_block (qp_geom s)"] in \<open>auto simp: alike_def\<close>)
  have g: "qp_geom t = qp_geom s" "qp_have_dead t ! q' = qp_have_dead s ! q" "qp_dead t ! q' = qp_dead s ! q"
      "np_at (qp_n_kv s) q = Inr (qp_n_kv s ! q)" "np_at (qp_n_kv t) q' = Inr (qp_n_kv t ! q')" "\<not> int m > qp_n_kv s ! q" "\<not> int m > qp_n_kv t ! q'"
    using a m by (auto simp: alike_def)
  show ?thesis unfolding qp_scores_def g r Let_def rows by (simp add: g)
qed

lemma length_indexer_scores: "length (indexer_scores N pooled query n nb block bias) = n"
  by (simp add: indexer_scores_def Let_def)

lemma scores_length: "qp_scores N s q x (int m) bias = Inr sc \<Longrightarrow> length sc = m"
  by (auto simp: qp_scores_def Let_def bindR_eq_Inr length_indexer_scores)

lemma alike_gather:
  assumes a: "alike N n s q t q'" and ids: "\<forall>i \<in> set ids. i < n"
  shows "qp_gather N t q' (map int ids) = qp_gather N s q (map int ids)"
proof -
  have read: "read_kv_cell N t q' c = read_kv_cell N s q c" if "c \<in> set (map int ids)" for c
    using a ids that by (auto simp: alike_def)
  show ?thesis unfolding qp_gather_def by (intro arg_cong2 [where f = bindR] mapR_cong refl) (simp only: read)
qed

lemma alike_answer:
  assumes a: "alike N n s q t q'" and m: "0 \<le> tk_pos tok" "tk_pos tok < int n"
  shows "qp_answer N q' tok t = qp_answer N q tok s"
proof -
  obtain p where p: "tk_pos tok + 1 = int (Suc p)" "Suc p \<le> n" using m by (cases "tk_pos tok") auto
  have g: "qp_geom t = qp_geom s" using a by (simp add: alike_def)
  have sel: "qp_select N t q' (tk_q_idx tok) (tk_pos tok + 1) = qp_select N s q (tk_q_idx tok) (tk_pos tok + 1)"
    unfolding qp_select_def g p alike_scores [OF a p(2)] ..
  show ?thesis
  proof (cases "qp_select N s q (tk_q_idx tok) (tk_pos tok + 1)")
    case (Inr ids)
    then obtain w sc where sc: "qp_scores N s q (tk_q_idx tok) (int (Suc p)) None = Inr sc" "topk_radix N sc w = Inr ids"
      unfolding qp_select_def p(1) bindR_eq_Inr by blast
    have "\<forall>i \<in> set ids. i < n"
    proof
      fix i assume "i \<in> set ids"
      then have "i < length sc" by (rule topk_radix_bound [OF sc(2)])
      then show "i < n" using scores_length [OF sc(1)] p(2) by linarith
    qed
    from alike_gather [OF a this] show ?thesis by (simp add: qp_answer_def sel Inr qp_attend_ids_def g)
  qed (simp add: qp_answer_def sel)
qed

end
