(* ===== verification/Prefix_Store.thy ===== *)
theory Prefix_Store
  imports Prelude
begin

text \<open>
  A store that grows by appends and answers queries about tokens already appended. A query of a token
  does not see the tokens appended after it, so appending a whole chunk and querying afterwards gives
  what appending and querying token by token gives. In a \<open>prepared_store\<close> a token is first prepared from
  its position. The paged cache is an interpretation of the first, the single-sequence layer of the second.
\<close>

lemma mapA_Cons_Inr:
  "mapA f (t # ts) s = (Inr os, s') \<longleftrightarrow> (\<exists>x r ys. f t s = (Inr x, r) \<and> mapA f ts r = (Inr ys, s') \<and> os = x # ys)"
  by (auto simp: bindA_Inr act_run)

lemma bind_lift_Inr: "bindA m (\<lambda>_. liftA g) s = (Inr o1, r) \<longleftrightarrow> (\<exists>x. m s = (Inr x, r) \<and> g r = Inr o1)"
  by (auto simp: bindA_Inr act_run)

lemma mapA_append_Inr:
  "mapA f (xs @ ys) s = (Inr os, s') \<longleftrightarrow> (\<exists>us vs t. mapA f xs s = (Inr us, t) \<and> mapA f ys t = (Inr vs, s') \<and> os = us @ vs)"
proof (induction xs arbitrary: s os)
  case (Cons x xs)
  show ?case unfolding append_Cons mapA_Cons_Inr Cons.IH by (auto; blast)
qed (auto simp: act_run)

locale prefix_store =
  fixes inv :: "'s \<Rightarrow> bool"
    and app :: "'t \<Rightarrow> ('s, unit) act"
    and ask :: "'t \<Rightarrow> 's \<Rightarrow> 'o res"
    and seen :: "'t \<Rightarrow> 's \<Rightarrow> bool"
  assumes inv_app: "inv s \<Longrightarrow> app t s = (Inr (), s') \<Longrightarrow> inv s'"
    and seen_app: "inv s \<Longrightarrow> app t s = (Inr (), s') \<Longrightarrow> seen t s'"
    and ask_later: "inv s \<Longrightarrow> seen u s \<Longrightarrow> app t s = (Inr (), s') \<Longrightarrow> seen u s' \<and> ask u s' = ask u s"
begin

lemma inv_apps: "inv s \<Longrightarrow> mapA app ts s = (Inr us, s') \<Longrightarrow> inv s'"
  by (induction ts arbitrary: s us) (auto simp: bindA_Inr act_run intro: inv_app)

lemma ask_apps: "inv s \<Longrightarrow> seen u s \<Longrightarrow> mapA app ts s = (Inr us, s') \<Longrightarrow> ask u s' = ask u s"
proof (induction ts arbitrary: s us)
  case (Cons t ts)
  then obtain r vs where r: "app t s = (Inr (), r)" "mapA app ts r = (Inr vs, s')" by (auto simp: bindA_Inr act_run)
  then show ?case using Cons.IH [OF inv_app [OF Cons.prems(1) r(1)] _ r(2)] ask_later [OF Cons.prems(1,2) r(1)] by simp
qed (simp add: act_run)

text \<open>The chunk answers what the tokens answer one by one, and leaves the same state.\<close>

lemma chunk_iff:
  "inv s \<Longrightarrow> (\<exists>us. mapA app ts s = (Inr us, s') \<and> mapR (\<lambda>t. ask t s') ts = Inr outs)
     \<longleftrightarrow> mapA (\<lambda>t. bindA (app t) (\<lambda>_. liftA (ask t))) ts s = (Inr outs, s')"
proof (induction ts arbitrary: s outs)
  case (Cons t ts)
  show ?case
  proof
    assume "\<exists>us. mapA app (t # ts) s = (Inr us, s') \<and> mapR (\<lambda>t. ask t s') (t # ts) = Inr outs"
    then obtain r vs o1 os where r: "app t s = (Inr (), r)" "mapA app ts r = (Inr vs, s')"
      and o: "ask t s' = Inr o1" "mapR (\<lambda>t. ask t s') ts = Inr os" "outs = o1 # os"
      unfolding mapA_Cons_Inr mapR.simps bindR_eq_Inr by auto
    have i: "inv r" by (rule inv_app [OF Cons.prems r(1)])
    have "ask t s' = ask t r" by (rule ask_apps [OF i seen_app [OF Cons.prems r(1)] r(2)])
    then have "bindA (app t) (\<lambda>_. liftA (ask t)) s = (Inr o1, r)" using r(1) o(1) unfolding bind_lift_Inr by simp
    moreover have "mapA (\<lambda>t. bindA (app t) (\<lambda>_. liftA (ask t))) ts r = (Inr os, s')" using Cons.IH [OF i] r(2) o(2) by blast
    ultimately show "mapA (\<lambda>t. bindA (app t) (\<lambda>_. liftA (ask t))) (t # ts) s = (Inr outs, s')" using o(3) unfolding mapA_Cons_Inr by blast
  next
    assume "mapA (\<lambda>t. bindA (app t) (\<lambda>_. liftA (ask t))) (t # ts) s = (Inr outs, s')"
    then obtain o1 r os where r: "app t s = (Inr (), r)" "ask t r = Inr o1" "outs = o1 # os"
        "mapA (\<lambda>t. bindA (app t) (\<lambda>_. liftA (ask t))) ts r = (Inr os, s')"
      unfolding mapA_Cons_Inr bind_lift_Inr by auto
    have i: "inv r" by (rule inv_app [OF Cons.prems r(1)])
    obtain vs where v: "mapA app ts r = (Inr vs, s')" "mapR (\<lambda>t. ask t s') ts = Inr os" using Cons.IH [OF i] r(4) by blast
    have "ask t s' = ask t r" by (rule ask_apps [OF i seen_app [OF Cons.prems r(1)] v(1)])
    then have "mapR (\<lambda>t. ask t s') (t # ts) = Inr outs" using r(2,3) v(2) by simp
    moreover have "mapA app (t # ts) s = (Inr (() # vs), s')" using r(1) v(1) unfolding mapA_Cons_Inr by blast
    ultimately show "\<exists>us. mapA app (t # ts) s = (Inr us, s') \<and> mapR (\<lambda>t. ask t s') (t # ts) = Inr outs" by blast
  qed
qed (auto simp: act_run)

lemma chunk_run:
  "inv s \<Longrightarrow> bindA (mapA app ts) (\<lambda>_. liftA (\<lambda>s. mapR (\<lambda>t. ask t s) ts)) s = (Inr outs, s')
     \<longleftrightarrow> mapA (\<lambda>t. bindA (app t) (\<lambda>_. liftA (ask t))) ts s = (Inr outs, s')"
  using chunk_iff [of s ts s' outs] by (simp add: bind_lift_Inr)

end

text \<open>
  A client prepares each token from the part of the store no append changes, right before it is appended.
\<close>

locale prepared_store = prefix_store inv app ask seen
  for inv :: "'s \<Rightarrow> bool" and app :: "'t \<Rightarrow> ('s, unit) act" and ask :: "'t \<Rightarrow> 's \<Rightarrow> 'o res" and seen :: "'t \<Rightarrow> 's \<Rightarrow> bool" +
  fixes prep :: "'x \<Rightarrow> 's \<Rightarrow> 't res"
  assumes prep_app: "inv s \<Longrightarrow> app t s = (Inr (), s') \<Longrightarrow> prep x s' = prep x s"
begin

lemma prep_kept: "inv s \<Longrightarrow> app t s = (Inr (), r) \<Longrightarrow> mapR (\<lambda>x. prep x r) xs = mapR (\<lambda>x. prep x s) xs"
  by (simp add: prep_app)

lemma prepared_apps:
  "inv s \<Longrightarrow> mapA (\<lambda>x. bindA (liftA (prep x)) (\<lambda>t. bindA (app t) (\<lambda>_. retA t))) xs s = (Inr ts, s')
     \<longleftrightarrow> mapR (\<lambda>x. prep x s) xs = Inr ts \<and> (\<exists>us. mapA app ts s = (Inr us, s'))"
proof (induction xs arbitrary: s ts)
  case (Cons x xs)
  have one: "bindA (liftA (prep x)) (\<lambda>t. bindA (app t) (\<lambda>_. retA t)) s = (Inr t, r) \<longleftrightarrow> prep x s = Inr t \<and> app t s = (Inr (), r)" for t r
    by (auto simp: bindA_Inr act_run)
  have ih: "app t s = (Inr (), r) \<Longrightarrow> mapA (\<lambda>x. bindA (liftA (prep x)) (\<lambda>t. bindA (app t) (\<lambda>_. retA t))) xs r = (Inr ys, s')
      \<longleftrightarrow> mapR (\<lambda>x. prep x s) xs = Inr ys \<and> (\<exists>us. mapA app ys r = (Inr us, s'))" for t r ys
    using Cons.IH [OF inv_app [OF Cons.prems], of t r ys] by (simp only: prep_kept [OF Cons.prems])
  show ?case
  proof
    assume "mapA (\<lambda>x. bindA (liftA (prep x)) (\<lambda>t. bindA (app t) (\<lambda>_. retA t))) (x # xs) s = (Inr ts, s')"
    then obtain t r ys where t: "prep x s = Inr t" "app t s = (Inr (), r)" "ts = t # ys"
        "mapA (\<lambda>x. bindA (liftA (prep x)) (\<lambda>t. bindA (app t) (\<lambda>_. retA t))) xs r = (Inr ys, s')"
      unfolding mapA_Cons_Inr one by blast
    from t(4) ih [OF t(2)] obtain us where us: "mapR (\<lambda>x. prep x s) xs = Inr ys" "mapA app ys r = (Inr us, s')" by blast
    have "mapA app (t # ys) s = (Inr (() # us), s')" using t(2) us(2) unfolding mapA_Cons_Inr by blast
    then show "mapR (\<lambda>x. prep x s) (x # xs) = Inr ts \<and> (\<exists>us. mapA app ts s = (Inr us, s'))" using t(1,3) us(1) by (simp del: mapA.simps)
  next
    assume "mapR (\<lambda>x. prep x s) (x # xs) = Inr ts \<and> (\<exists>us. mapA app ts s = (Inr us, s'))"
    then obtain us where a: "mapR (\<lambda>x. prep x s) (x # xs) = Inr ts" "mapA app ts s = (Inr us, s')" by blast
    then obtain t ys where t: "prep x s = Inr t" "mapR (\<lambda>x. prep x s) xs = Inr ys" "ts = t # ys"
      unfolding mapR.simps bindR_eq_Inr by auto
    obtain r vs where r: "app t s = (Inr (), r)" "mapA app ys r = (Inr vs, s')" using a(2) unfolding t(3) mapA_Cons_Inr by auto
    have "mapA (\<lambda>x. bindA (liftA (prep x)) (\<lambda>t. bindA (app t) (\<lambda>_. retA t))) xs r = (Inr ys, s')" using ih [OF r(1)] t(2) r(2) by blast
    then show "mapA (\<lambda>x. bindA (liftA (prep x)) (\<lambda>t. bindA (app t) (\<lambda>_. retA t))) (x # xs) s = (Inr ts, s')"
      unfolding mapA_Cons_Inr one using t(1,3) r(1) by blast
  qed
qed (auto simp: act_run)

lemma prepared_asks:
  "inv s \<Longrightarrow> mapA (\<lambda>x. bindA (liftA (prep x)) (\<lambda>t. bindA (app t) (\<lambda>_. liftA (ask t)))) xs s = (Inr outs, s')
     \<longleftrightarrow> (\<exists>ts. mapR (\<lambda>x. prep x s) xs = Inr ts \<and> mapA (\<lambda>t. bindA (app t) (\<lambda>_. liftA (ask t))) ts s = (Inr outs, s'))"
proof (induction xs arbitrary: s outs)
  case (Cons x xs)
  have one: "bindA (liftA (prep x)) (\<lambda>t. bindA (app t) (\<lambda>_. liftA (ask t))) s = (Inr z, r)
      \<longleftrightarrow> (\<exists>t. prep x s = Inr t \<and> bindA (app t) (\<lambda>_. liftA (ask t)) s = (Inr z, r))" for z r
    unfolding bindA_Inr by (auto simp: act_run)
  have ih: "bindA (app t) (\<lambda>_. liftA (ask t)) s = (Inr z, r) \<Longrightarrow> mapA (\<lambda>x. bindA (liftA (prep x)) (\<lambda>t. bindA (app t) (\<lambda>_. liftA (ask t)))) xs r = (Inr ys, s')
      \<longleftrightarrow> (\<exists>ts. mapR (\<lambda>x. prep x s) xs = Inr ts \<and> mapA (\<lambda>t. bindA (app t) (\<lambda>_. liftA (ask t))) ts r = (Inr ys, s'))" for t z r ys
  proof -
    assume "bindA (app t) (\<lambda>_. liftA (ask t)) s = (Inr z, r)"
    then have a: "app t s = (Inr (), r)" unfolding bind_lift_Inr by simp
    show ?thesis using Cons.IH [OF inv_app [OF Cons.prems a], of ys] unfolding prep_kept [OF Cons.prems a] .
  qed
  show ?case
  proof
    assume "mapA (\<lambda>x. bindA (liftA (prep x)) (\<lambda>t. bindA (app t) (\<lambda>_. liftA (ask t)))) (x # xs) s = (Inr outs, s')"
    then obtain t z r ys where t: "prep x s = Inr t" "bindA (app t) (\<lambda>_. liftA (ask t)) s = (Inr z, r)" "outs = z # ys"
        "mapA (\<lambda>x. bindA (liftA (prep x)) (\<lambda>t. bindA (app t) (\<lambda>_. liftA (ask t)))) xs r = (Inr ys, s')"
      unfolding mapA_Cons_Inr one by blast
    from t(4) ih [OF t(2)] obtain ts where ts: "mapR (\<lambda>x. prep x s) xs = Inr ts" "mapA (\<lambda>t. bindA (app t) (\<lambda>_. liftA (ask t))) ts r = (Inr ys, s')" by blast
    have "mapA (\<lambda>t. bindA (app t) (\<lambda>_. liftA (ask t))) (t # ts) s = (Inr outs, s')" using t(2,3) ts(2) unfolding mapA_Cons_Inr by blast
    moreover have "mapR (\<lambda>x. prep x s) (x # xs) = Inr (t # ts)" using t(1) ts(1) by simp
    ultimately show "\<exists>ts. mapR (\<lambda>x. prep x s) (x # xs) = Inr ts \<and> mapA (\<lambda>t. bindA (app t) (\<lambda>_. liftA (ask t))) ts s = (Inr outs, s')" by blast
  next
    assume "\<exists>ts. mapR (\<lambda>x. prep x s) (x # xs) = Inr ts \<and> mapA (\<lambda>t. bindA (app t) (\<lambda>_. liftA (ask t))) ts s = (Inr outs, s')"
    then obtain zs where a: "mapR (\<lambda>x. prep x s) (x # xs) = Inr zs" "mapA (\<lambda>t. bindA (app t) (\<lambda>_. liftA (ask t))) zs s = (Inr outs, s')" by blast
    from a(1) obtain t ts where t: "prep x s = Inr t" "mapR (\<lambda>x. prep x s) xs = Inr ts" "zs = t # ts"
      unfolding mapR.simps bindR_eq_Inr by auto
    obtain z r ys where z: "bindA (app t) (\<lambda>_. liftA (ask t)) s = (Inr z, r)" "outs = z # ys"
        "mapA (\<lambda>t. bindA (app t) (\<lambda>_. liftA (ask t))) ts r = (Inr ys, s')" using a(2) unfolding t(3) mapA_Cons_Inr by blast
    have "mapA (\<lambda>x. bindA (liftA (prep x)) (\<lambda>t. bindA (app t) (\<lambda>_. liftA (ask t)))) xs r = (Inr ys, s')" using ih [OF z(1)] t(2) z(3) by blast
    with z(1,2) t(1) show "mapA (\<lambda>x. bindA (liftA (prep x)) (\<lambda>t. bindA (app t) (\<lambda>_. liftA (ask t)))) (x # xs) s = (Inr outs, s')"
      unfolding mapA_Cons_Inr one by blast
  qed
qed (auto simp: act_run)

lemma prepared_chunk:
  assumes "inv s"
  shows "bindA (mapA (\<lambda>x. bindA (liftA (prep x)) (\<lambda>t. bindA (app t) (\<lambda>_. retA t))) xs) (\<lambda>ts. liftA (\<lambda>s. mapR (\<lambda>t. ask t s) ts)) s = (Inr outs, s')
     \<longleftrightarrow> mapA (\<lambda>x. bindA (liftA (prep x)) (\<lambda>t. bindA (app t) (\<lambda>_. liftA (ask t)))) xs s = (Inr outs, s')"
    (is "?chunk \<longleftrightarrow> ?each")
proof -
  have "?chunk \<longleftrightarrow> (\<exists>ts. mapR (\<lambda>x. prep x s) xs = Inr ts \<and> (\<exists>us. mapA app ts s = (Inr us, s') \<and> mapR (\<lambda>t. ask t s') ts = Inr outs))"
    unfolding bindA_Inr prepared_apps [OF assms] by (auto simp: act_run)
  then show ?thesis unfolding prepared_asks [OF assms] using chunk_iff [OF assms] by blast
qed

end

end
