(* ===== verification/Qsa_Cache_Thms.thy ===== *)
theory Qsa_Cache_Thms
  imports Qsa_Cache_Props Prefix_Store
begin

text \<open>
  The properties of the paged cache: every sequence holds its own history however the appends interleave,
  and a chunk prefill is the token-by-token decode.
\<close>

section \<open>Histories\<close>

text \<open>A stored token: key, value, raw indexer key and the indexer norm it was appended with.\<close>

type_synonym ('f, 'd) stored = "'f list \<times> 'f list \<times> 'd list \<times> 'd list"

definition append_stored :: "('f, 'd) np \<Rightarrow> nat \<times> ('f, 'd) stored \<times> int \<Rightarrow> ('f, 'd, unit) qp_act" where
  "append_stored N = (\<lambda>(q, (k, v, raw, gamma), pos). append_token N q k v (Some raw) (Some gamma) pos)"

definition history :: "nat \<Rightarrow> (nat \<times> ('f, 'd) stored \<times> int) list \<Rightarrow> ('f, 'd) stored list" where
  "history q ops = map (fst \<circ> snd) (filter (\<lambda>x. fst x = q) ops)"

definition st_raw :: "('f, 'd) stored \<Rightarrow> 'd list" where "st_raw x = fst (snd (snd x))"
definition st_gamma :: "('f, 'd) stored \<Rightarrow> 'd list" where "st_gamma x = snd (snd (snd x))"

text \<open>The reference values: the quantised heads of a token, the row of a completed block, the dead key.\<close>

definition ref_cell :: "('f, 'd) np \<Rightarrow> ('f, 'd) qsa_paged \<Rightarrow> ('f, 'd) stored \<Rightarrow> ((int list \<times> 'f list) \<times> (int list \<times> 'f list)) list res" where
  "ref_cell N s x = bindR (quant_cell N (qp_geom s) (fst x)) (\<lambda>kq. bindR (quant_cell N (qp_geom s) (fst (snd x))) (\<lambda>vq. Inr (zip kq vq)))"

definition ref_row :: "('f, 'd) np \<Rightarrow> ('f, 'd) qsa_paged \<Rightarrow> nat \<Rightarrow> ('f, 'd) stored list \<Rightarrow> nat \<Rightarrow> 'f list res" where
  "ref_row N s q h b = (let r = gm_idx_block (qp_geom s); blk = take r (drop (b * r) h) in
     block_row N s q (map (\<lambda>x. map (to_f N) (st_raw x)) (butlast blk)) (st_raw (last blk)) (st_gamma (last blk)) b)"

text \<open>What the cache holds of a sequence with history \<open>h\<close>.\<close>

definition holds :: "('f, 'd) np \<Rightarrow> ('f, 'd) qsa_paged \<Rightarrow> nat \<Rightarrow> ('f, 'd) stored list \<Rightarrow> bool" where
  "holds N s q h \<longleftrightarrow> qp_n_kv s ! q = int (length h)
     \<and> (\<forall>j < length h. read_kv_cell N s q (int j) = ref_cell N s (h ! j) \<and> (\<exists>c. ref_cell N s (h ! j) = Inr c))
     \<and> (\<forall>b < length h div gm_idx_block (qp_geom s). read_pooled N s q (int b) = ref_row N s q h b \<and> (\<exists>row. ref_row N s q h b = Inr row))
     \<and> (qp_have_dead s ! q \<longleftrightarrow> h \<noteq> []) \<and> (h \<noteq> [] \<longrightarrow> dead_row N s (st_raw (hd h)) (st_gamma (hd h)) = Inr (qp_dead s ! q))
     \<and> (\<forall>i < length h mod gm_idx_block (qp_geom s).
          qp_tail s ! q ! i = map (to_f N) (st_raw (h ! (length h - length h mod gm_idx_block (qp_geom s) + i))))"

lemma ref_stat: "stat s' = stat s \<Longrightarrow> ref_cell N s' = ref_cell N s \<and> ref_row N s' = ref_row N s \<and> dead_row N s' = dead_row N s"
  using stat_cong [of s' s] by (simp add: fun_eq_iff ref_cell_def ref_row_def)

lemma take_block_prefix: "b < length h div r \<Longrightarrow> take r (drop (b * r) (h @ [x])) = take r (drop (b * r) h)"
proof -
  assume "b < length h div r"
  then have "Suc b * r \<le> length h div r * r" by (intro mult_le_mono1) simp
  also have "\<dots> \<le> length h" by (rule div_times_less_eq_dividend)
  finally have "b * r + r \<le> length h" by (simp add: add.commute)
  then show ?thesis by simp
qed

lemma holds_other:
  assumes s: "qp_ok s" and N: "np_bytes_ok N" and pooled: "pl_pooled (qp_layout s)"
    and st: "token_step N s q k v raw gamma p kq vq ws y0 y bp s'" and q: "q' \<noteq> q" and h: "holds N s q' h"
  shows "holds N s' q' h"
proof -
  note d = token_stepD [OF st]
  have same: "qp_n_kv s' ! q' = qp_n_kv s ! q'" "qp_tail s' ! q' = qp_tail s ! q'" "qp_dead s' ! q' = qp_dead s ! q'"
      "qp_have_dead s' ! q' = qp_have_dead s ! q'" using q by (simp_all add: d)
  have rd: "read_kv_cell N s' q' j = read_kv_cell N s q' j" "read_pooled N s' q' (int b) = read_pooled N s q' (int b)" for j b
    using frame_cell [OF s N st] frame_row [OF s N st pooled] q by blast+
  show ?thesis using h ref_stat [OF d(12), of N] stat_cong(7) [OF d(12)] unfolding holds_def same rd by simp
qed

lemma block_full: "0 < r \<Longrightarrow> b < Suc p div r \<Longrightarrow> \<not> b < p div r \<Longrightarrow> p mod r = r - 1 \<and> b = p div r" for r :: nat
proof -
  assume r: "0 < r" and b: "b < Suc p div r" "\<not> b < p div r"
  then have "Suc p mod r = 0" by (auto simp: div_Suc split: if_splits)
  then have "Suc (p mod r) = r" by (auto simp: mod_Suc split: if_splits)
  moreover have "Suc p div r = Suc (p div r)" using \<open>Suc p mod r = 0\<close> by (simp add: div_Suc)
  ultimately show ?thesis using b by linarith
qed

lemma block_open: "0 < r \<Longrightarrow> i < Suc p mod r \<Longrightarrow> Suc p mod r = Suc (p mod r) \<and> p mod r < r - 1" for r :: nat
proof -
  assume "0 < r" "i < Suc p mod r"
  then have "Suc p mod r = Suc (p mod r)" by (simp add: mod_Suc split: if_splits)
  moreover have "Suc p mod r < r" using \<open>0 < r\<close> by simp
  ultimately show ?thesis by linarith
qed

lemma holdsD:
  assumes "holds N s q h"
  shows "qp_n_kv s ! q = int (length h)"
    "j < length h \<Longrightarrow> read_kv_cell N s q (int j) = ref_cell N s (h ! j)" "j < length h \<Longrightarrow> \<exists>c. ref_cell N s (h ! j) = Inr c"
    "b < length h div gm_idx_block (qp_geom s) \<Longrightarrow> read_pooled N s q (int b) = ref_row N s q h b"
    "b < length h div gm_idx_block (qp_geom s) \<Longrightarrow> \<exists>row. ref_row N s q h b = Inr row"
    "qp_have_dead s ! q \<longleftrightarrow> h \<noteq> []" "h \<noteq> [] \<Longrightarrow> dead_row N s (st_raw (hd h)) (st_gamma (hd h)) = Inr (qp_dead s ! q)"
    "i < length h mod gm_idx_block (qp_geom s) \<Longrightarrow>
       qp_tail s ! q ! i = map (to_f N) (st_raw (h ! (length h - length h mod gm_idx_block (qp_geom s) + i)))"
  using assms unfolding holds_def by blast+

lemma step_length: "holds N s q h \<Longrightarrow> token_step N s q k v raw gamma p kq vq ws y0 y bp s' \<Longrightarrow> p = length h"
  using holdsD(1) [of N s q h] token_stepD(2) [of N s q k v raw gamma p kq vq ws y0 y bp s'] by simp

lemma own_cells:
  assumes s: "qp_ok s" and N: "np_bytes_ok N" and pooled: "pl_pooled (qp_layout s)"
    and st: "token_step N s q k v raw gamma p kq vq ws y0 y bp s'" and h: "holds N s q h"
    and j: "j < length (h @ [(k, v, raw, gamma)])"
  shows "read_kv_cell N s' q (int j) = ref_cell N s' ((h @ [(k, v, raw, gamma)]) ! j)
    \<and> (\<exists>c. ref_cell N s' ((h @ [(k, v, raw, gamma)]) ! j) = Inr c)"
proof -
  note d = token_stepD [OF st] and p = step_length [OF h st]
  have ref: "ref_cell N s' = ref_cell N s" using ref_stat [OF d(12), of N] by simp
  show ?thesis
  proof (cases "j = p")
    case True
    have "ref_cell N s (k, v, raw, gamma) = Inr (zip kq vq)" by (simp add: ref_cell_def d(4,5))
    then show ?thesis using new_cell [OF s N st] ref by (simp add: True p)
  next
    case False
    then have jl: "j < length h" using j p by simp
    have nth: "(h @ [(k, v, raw, gamma)]) ! j = h ! j" using jl by (simp add: nth_append)
    have "read_kv_cell N s' q (int j) = read_kv_cell N s q (int j)" by (rule frame_cell [OF s N st]) (use False in simp)
    then show ?thesis using holdsD(2,3) [OF h jl] unfolding nth ref by simp
  qed
qed

lemma own_dead:
  assumes s: "qp_ok s" and N: "np_bytes_ok N" and pooled: "pl_pooled (qp_layout s)"
    and st: "token_step N s q k v raw gamma p kq vq ws y0 y bp s'" and h: "holds N s q h"
  shows "qp_have_dead s' ! q" "dead_row N s' (st_raw (hd (h @ [(k, v, raw, gamma)]))) (st_gamma (hd (h @ [(k, v, raw, gamma)]))) = Inr (qp_dead s' ! q)"
proof -
  note d = token_stepD [OF st] and p = step_length [OF h st]
  have lens: "length (qp_dead s) = length (qp_table s)" "length (qp_have_dead s) = length (qp_table s)" using s by (simp_all add: qp_ok_def)
  have dead: "qp_dead s' ! q = (if p = 0 then y0 else qp_dead s ! q)" using d(1) lens by (simp add: d(10))
  show "qp_have_dead s' ! q" using d(1) lens holdsD(6) [OF h] p by (simp add: d(11))
  have ref: "dead_row N s' = dead_row N s" using ref_stat [OF d(12), of N] by simp
  show "dead_row N s' (st_raw (hd (h @ [(k, v, raw, gamma)]))) (st_gamma (hd (h @ [(k, v, raw, gamma)]))) = Inr (qp_dead s' ! q)"
  proof (cases h)
    case Nil
    then show ?thesis using d(14) p dead by (simp add: ref st_raw_def st_gamma_def)
  next
    case (Cons a h')
    then show ?thesis using holdsD(7) [OF h] p dead by (simp add: ref)
  qed
qed

lemma own_rows:
  assumes s: "qp_ok s" and N: "np_bytes_ok N" and pooled: "pl_pooled (qp_layout s)"
    and st: "token_step N s q k v raw gamma p kq vq ws y0 y bp s'" and h: "holds N s q h"
    and b: "b < length (h @ [(k, v, raw, gamma)]) div gm_idx_block (qp_geom s)"
  shows "read_pooled N s' q (int b) = ref_row N s' q (h @ [(k, v, raw, gamma)]) b \<and> (\<exists>row. ref_row N s' q (h @ [(k, v, raw, gamma)]) b = Inr row)"
proof -
  note d = token_stepD [OF st] and p = step_length [OF h st]
  let ?x = "(k, v, raw, gamma)" and ?r = "gm_idx_block (qp_geom s)"
  have r: "0 < ?r" by (rule qp_ok_lay(8) [OF s])
  have ref: "ref_row N s' = ref_row N s" using ref_stat [OF d(12), of N] by simp
  show ?thesis
  proof (cases "b < length h div ?r")
    case True
    have "ref_row N s q (h @ [?x]) b = ref_row N s q h b" by (simp only: ref_row_def Let_def take_block_prefix [OF True])
    moreover have "read_pooled N s' q (int b) = read_pooled N s q (int b)" by (rule frame_row [OF s N st pooled]) (use True p in simp)
    ultimately show ?thesis using holdsD(4,5) [OF h True] unfolding ref by simp
  next
    case False
    have full: "p mod ?r = ?r - 1" "b = p div ?r" using block_full [OF r, of b p] False b p by simp_all
    have hlen: "length h = b * ?r + (?r - 1)" using div_mult_mod_eq [of p ?r] unfolding full p [symmetric] by simp
    have tl: "length (qp_tail s ! q) = ?r - 1" using s d(1) by (simp add: qp_ok_def)
    have blk: "take ?r (drop (b * ?r) (h @ [?x])) = drop (b * ?r) h @ [?x]" using hlen r by simp
    have "map (\<lambda>x. map (to_f N) (st_raw x)) (drop (b * ?r) h) = qp_tail s ! q"
    proof (rule nth_equalityI)
      show "length (map (\<lambda>x. map (to_f N) (st_raw x)) (drop (b * ?r) h)) = length (qp_tail s ! q)" using hlen tl by simp
      fix i assume "i < length (map (\<lambda>x. map (to_f N) (st_raw x)) (drop (b * ?r) h))"
      then have i: "i < ?r - 1" "b * ?r + i < length h" using hlen by simp_all
      have m: "length h mod ?r = ?r - 1" "length h - (?r - 1) = b * ?r" using full(1) p hlen by simp_all
      have "qp_tail s ! q ! i = map (to_f N) (st_raw (h ! (b * ?r + i)))" using holdsD(8) [OF h, of i] i(1) unfolding m by simp
      then show "map (\<lambda>x. map (to_f N) (st_raw x)) (drop (b * ?r) h) ! i = qp_tail s ! q ! i" using i(2) hlen by (simp add: nth_drop)
    qed
    then have "ref_row N s q (h @ [?x]) b = Inr y" using d(15) [OF full(1)] full(2)
      unfolding ref_row_def Let_def blk by (simp add: st_raw_def st_gamma_def)
    then show ?thesis using new_row [OF s N st full(1)] full(2) unfolding ref by simp
  qed
qed

lemma own_tail:
  assumes s: "qp_ok s" and N: "np_bytes_ok N" and pooled: "pl_pooled (qp_layout s)"
    and st: "token_step N s q k v raw gamma p kq vq ws y0 y bp s'" and h: "holds N s q h"
    and i: "i < length (h @ [(k, v, raw, gamma)]) mod gm_idx_block (qp_geom s)"
  shows "qp_tail s' ! q ! i = map (to_f N) (st_raw ((h @ [(k, v, raw, gamma)]) !
    (length (h @ [(k, v, raw, gamma)]) - length (h @ [(k, v, raw, gamma)]) mod gm_idx_block (qp_geom s) + i)))"
proof -
  note d = token_stepD [OF st] and p = step_length [OF h st]
  let ?x = "(k, v, raw, gamma)" and ?r = "gm_idx_block (qp_geom s)"
  have r: "0 < ?r" by (rule qp_ok_lay(8) [OF s])
  have lens: "length (qp_tail s) = length (qp_table s)" "length (qp_tail s ! q) = ?r - 1" using s d(1) by (simp_all add: qp_ok_def)
  have sm: "Suc p mod ?r = Suc (p mod ?r)" "p mod ?r < ?r - 1" using block_open [OF r, of i p] i p by simp_all
  have t': "qp_tail s' ! q = (qp_tail s ! q)[p mod ?r := map (to_f N) raw]" using d(1) lens sm(2) by (simp add: d(9) tail_after_def Let_def)
  have base: "length (h @ [?x]) - length (h @ [?x]) mod ?r = length h - length h mod ?r" using sm p by simp
  have le: "length h mod ?r \<le> length h" by simp
  show ?thesis
  proof (cases "i = p mod ?r")
    case True
    have "(h @ [?x]) ! (length h - length h mod ?r + i) = ?x" using le by (simp add: True p)
    then show ?thesis using lens sm(2) unfolding t' base by (simp add: True st_raw_def)
  next
    case False
    then have il: "i < length h mod ?r" using i sm p by simp
    then have "length h - length h mod ?r + i < length h" using le by linarith
    then have "(h @ [?x]) ! (length h - length h mod ?r + i) = h ! (length h - length h mod ?r + i)" by (simp add: nth_append)
    then show ?thesis using holdsD(8) [OF h il] False unfolding t' base by simp
  qed
qed

lemma holds_own:
  assumes s: "qp_ok s" and N: "np_bytes_ok N" and pooled: "pl_pooled (qp_layout s)"
    and st: "token_step N s q k v raw gamma p kq vq ws y0 y bp s'" and h: "holds N s q h"
  shows "holds N s' q (h @ [(k, v, raw, gamma)])"
proof -
  note d = token_stepD [OF st]
  have n: "qp_n_kv s' ! q = int (length (h @ [(k, v, raw, gamma)]))"
    using d(1) s step_length [OF h st] by (simp add: d(8) qp_ok_def)
  show ?thesis unfolding holds_def stat_cong(7) [OF d(12)]
    using n own_cells [OF s N pooled st h] own_rows [OF s N pooled st h] own_dead [OF s N pooled st h] own_tail [OF s N pooled st h] by blast
qed

section \<open>Creation\<close>

lemma fold_max_upper: "x \<in> set xs \<or> x = a \<Longrightarrow> x \<le> fold max xs a" for x :: int
proof (induction xs arbitrary: a)
  case (Cons y xs)
  have mono: "a \<le> fold max zs a" for zs :: "int list" and a
    by (induction zs arbitrary: a) (auto intro: order_trans [OF max.cobounded2])
  show ?case using Cons.IH [of "max y a"] Cons.prems mono [of "max y a" xs] by fastforce
qed simp

lemma concat_map_nat: "concat (map (map nat) table) = map nat (concat table)"
  by (simp add: map_concat)

definition dead_ok :: "('f, 'd) qsa_paged \<Rightarrow> bool" where
  "dead_ok s \<longleftrightarrow> (\<forall>x \<in> set (qp_dead s). length x = gm_idx_dim (qp_geom s))"

text \<open>The state \<open>create\<close> returns, with its checks.\<close>

definition qp_initial :: "('f, 'd) np \<Rightarrow> 'd qsa_geom \<Rightarrow> int list list \<Rightarrow> page_layout_rec \<Rightarrow> int list \<Rightarrow> int list list list option \<Rightarrow> ('f, 'd) qsa_paged" where
  "qp_initial N g table lay ps mrope = \<lparr>qp_geom = g, qp_table = map (map nat) table, qp_layout = lay,
             qp_pages = replicate (nat (fold max (tl (concat table)) (hd (concat table))) + 1) (replicate (pl_page_bytes lay) 0),
             qp_tail = replicate (length table) (replicate (gm_idx_block g - 1) (replicate (gm_idx_dim g) (f_int N 0))),
             qp_dead = replicate (length table) (replicate (gm_idx_dim g) (f_int N 0)), qp_have_dead = replicate (length table) False,
             qp_block_pos = replicate (length table) 0, qp_n_kv = replicate (length table) 0, qp_pos = replicate (length table) (- 1),
             qp_pos_base = ps,
             qp_cos = fst (rope_tables N (nat (int (length (hd table)) * int (pl_block_size lay) + fold max (tl ps) (hd ps) + 1)) (gm_n_rot g div 2) (gm_rope_base g)),
             qp_sin = snd (rope_tables N (nat (int (length (hd table)) * int (pl_block_size lay) + fold max (tl ps) (hd ps) + 1)) (gm_n_rot g div 2) (gm_rope_base g)),
             qp_mrope = mrope\<rparr>"

lemma create_eq:
  fixes s :: "('a, 'b) qsa_paged"
  assumes c: "qp_create N g table bs pooled base mrope = Inr s"
  obtains lay ps where "make_layout g bs pooled = Inr lay" "length ps = length table"
    "\<not> (length table < 1 \<or> length (hd table) < 1 \<or> (\<exists>row \<in> set table. length row \<noteq> length (hd table)))"
    "\<not> ((\<exists>x \<in> set (concat table). x < 0) \<or> \<not> distinct (concat table))"
    "s = qp_initial N g table lay ps mrope"
proof -
  obtain lay ps where l: "make_layout g bs pooled = Inr lay"
    and psq: "(case base of None \<Rightarrow> Inr (replicate (length table) 0) | Some b0 \<Rightarrow>
        if length b0 \<noteq> length table then Inl (ValueError ''pos_base'') else Inr b0) = Inr ps"
    and chk: "\<not> (length table < 1 \<or> length (hd table) < 1 \<or> (\<exists>row \<in> set table. length row \<noteq> length (hd table)))"
      "\<not> ((\<exists>x \<in> set (concat table). x < 0) \<or> \<not> distinct (concat table))"
    and se: "Inr (qp_initial N g table lay ps mrope) = (Inr s :: ('a, 'b) qsa_paged res)"
    using c unfolding qp_create_def qp_initial_def Let_def bindR_eq_Inr raise_if_eq_Inr by blast
  have ps: "length ps = length table" using psq by (auto split: option.splits if_splits)
  show ?thesis by (rule that [OF l ps chk]) (use se in \<open>simp only: sum.inject\<close>)
qed

lemma create_ok:
  fixes s :: "('a, 'b) qsa_paged"
  assumes c: "qp_create N g table bs pooled base mrope = Inr s"
  shows "qp_ok s" "pl_pooled (qp_layout s) = pooled" "length (qp_table s) = length table" "q < length table \<Longrightarrow> holds N s q []"
    "qp_geom s = g" "1 \<le> length table" "dead_ok s" "make_layout g bs pooled = Inr (qp_layout s)" "qp_table s = map (map nat) table"
proof -
  define flat where "flat = concat table"
  obtain lay ps where l: "make_layout g bs pooled = Inr lay" and ps: "length ps = length table"
    and chk: "\<not> (length table < 1 \<or> length (hd table) < 1 \<or> (\<exists>row \<in> set table. length row \<noteq> length (hd table)))"
      "\<not> ((\<exists>x \<in> set (concat table). x < 0) \<or> \<not> distinct (concat table))"
    and sel0: "s = qp_initial N g table lay ps mrope" by (rule create_eq [OF c])
  note sel = sel0 [unfolded qp_initial_def, folded flat_def] and chk = chk [folded flat_def]
  show "dead_ok s" "make_layout g bs pooled = Inr (qp_layout s)" "qp_table s = map (map nat) table"
    using l by (simp_all add: dead_ok_def sel)
  have lay: "lay_ok lay" "pl_n_kv lay = gm_n_kv g" "pl_head_dim lay = gm_head_dim g" "pl_idx_dim lay = gm_idx_dim g" "pl_idx_block lay = gm_idx_block g"
      "pl_pooled lay = pooled"
    using make_layout_ok [OF l] l by (auto simp: make_layout_Inr Let_def)
  have nn: "\<forall>x \<in> set flat. 0 \<le> x" and dist: "distinct flat" using chk(2) by auto
  have "inj_on nat (set flat)" using nn by (auto intro!: inj_onI simp: eq_nat_nat_iff)
  then have D: "distinct (concat (qp_table s))" using dist by (simp add: sel concat_map_nat distinct_map flat_def)
  have B: "p < length (qp_pages s)" if pm: "p \<in> set (concat (qp_table s))" for p
  proof -
    have "set (concat (qp_table s)) = nat ` set flat" by (simp only: sel qsa_paged.simps concat_map_nat flat_def set_map)
    then obtain x where x: "x \<in> set flat" "p = nat x" using pm by blast
    then have "x \<le> fold max (tl flat) (hd flat)" by (intro fold_max_upper) (cases flat, auto)
    then show ?thesis using x(2) by (simp add: sel le_imp_less_Suc nat_mono)
  qed
  have inv: "pool_inv (qp_key s) (qp_pages s)" unfolding pool_inv_def prod.case
  proof (intro conjI ballI)
    show "lay_ok (qp_layout s)" by (simp add: sel lay)
    show "length pg = pl_page_bytes (qp_layout s)" if "pg \<in> set (qp_pages s)" for pg using that by (auto simp: sel)
  qed (fact D, fact B)
  have rect: "\<forall>row \<in> set (qp_table s). length row = length (hd (qp_table s))"
    using chk(1) by (cases table) (auto simp: sel)
  show "qp_ok s" using inv rect ps lay by (simp add: qp_ok_def sel)
  show "pl_pooled (qp_layout s) = pooled" "length (qp_table s) = length table" "qp_geom s = g" by (simp_all add: sel lay)
  show "1 \<le> length table" using chk(1) by (simp add: Suc_le_eq)
  show "holds N s q []" if "q < length table" using that by (simp add: holds_def sel)
qed

section \<open>Every sequence holds its own history\<close>

lemma dead_ok_step: "dead_ok s \<Longrightarrow> token_step N s q k v raw gamma p kq vq ws y0 y bp s' \<Longrightarrow> dead_ok s'"
  using token_stepD(10,12,14) [of N s q k v raw gamma p kq vq ws y0 y bp s']
  by (auto simp: dead_ok_def stat_def dest!: set_update_subset_insert [THEN subsetD])

lemma appends_hold:
  assumes N: "np_bytes_ok N" and s: "qp_ok s" "pl_pooled (qp_layout s)" "dead_ok s" and h: "\<And>q. q < length (qp_table s) \<Longrightarrow> holds N s q (H q)"
    and run: "mapA (append_stored N) ops s = (Inr us, s')"
  shows "qp_ok s' \<and> stat s' = stat s \<and> dead_ok s' \<and> (\<forall>q < length (qp_table s). holds N s' q (H q @ history q ops))"
  using s h run
proof (induction ops arbitrary: s us H)
  case Nil
  then show ?case by (simp add: act_run history_def)
next
  case (Cons x ops)
  obtain q k v raw gamma pos where x: "x = (q, (k, v, raw, gamma), pos)" by (metis prod_cases3)
  obtain t vs where t: "append_token N q k v (Some raw) (Some gamma) pos s = (Inr (), t)" "mapA (append_stored N) ops t = (Inr vs, s')"
    using Cons.prems(5) unfolding mapA_Cons_Inr by (auto simp: x append_stored_def)
  obtain p kq vq ws y0 y bp where st: "token_step N s q k v raw gamma p kq vq ws y0 y bp t"
    using append_token_Inr [OF Cons.prems(1) N Cons.prems(2) t(1)] by blast
  have q: "q < length (qp_table s)" by (rule token_stepD(1) [OF st])
  have stat: "stat t = stat s" by (rule token_stepD(12) [OF st])
  then have lay: "qp_layout t = qp_layout s" "qp_table t = qp_table s" by (simp_all add: stat_def)
  let ?H = "\<lambda>q'. H q' @ history q' [x]"
  have "holds N t q' (?H q')" if "q' < length (qp_table t)" for q'
  proof (cases "q' = q")
    case True
    then show ?thesis using holds_own [OF Cons.prems(1) N Cons.prems(2) st Cons.prems(4) [OF q]] by (simp add: history_def x)
  next
    case False
    then show ?thesis using holds_other [OF Cons.prems(1) N Cons.prems(2) st False] Cons.prems(4) [of q'] that lay by (simp add: history_def x)
  qed
  from Cons.IH [OF token_step_writes(3) [OF Cons.prems(1) N st] _ dead_ok_step [OF Cons.prems(3) st] this t(2)]
  have "qp_ok s' \<and> stat s' = stat t \<and> dead_ok s' \<and> (\<forall>q < length (qp_table t). holds N s' q (?H q @ history q ops))" using Cons.prems(2) lay by simp
  moreover have "history q' [x] @ history q' ops = history q' (x # ops)" for q' by (simp add: history_def)
  ultimately show ?case using stat lay by simp
qed

text \<open>What a run of appends on a created cache establishes.\<close>

lemma created_run:
  assumes c: "qp_create N g table bs True base mrope = Inr s0" and N: "np_bytes_ok N" and run: "mapA (append_stored N) ops s0 = (Inr us, s)"
  shows "qp_ok s" "stat s = stat s0" "dead_ok s" "q < length table \<Longrightarrow> holds N s q (history q ops)"
    "pl_pooled (qp_layout s)" "qp_geom s = g" "length (qp_table s) = length table" "qp_layout s = qp_layout s0"
proof -
  note k = create_ok [OF c]
  have d: "dead_ok s0" by (rule k(7))
  have h: "qp_ok s \<and> stat s = stat s0 \<and> dead_ok s \<and> (\<forall>q < length (qp_table s0). holds N s q ([] @ history q ops))"
    by (rule appends_hold [OF N k(1) _ d _ run]) (simp_all add: k)
  then show "qp_ok s" "stat s = stat s0" "dead_ok s" "q < length table \<Longrightarrow> holds N s q (history q ops)"
    "pl_pooled (qp_layout s)" "qp_geom s = g" "length (qp_table s) = length table" "qp_layout s = qp_layout s0"
    using k by (simp_all add: stat_def)
qed

text \<open>C16. However the appends of the sequences interleave, after a run that raises nowhere each sequence has
  as many cells as its history, every cell reads back as its own quantised key and value, every completed
  indexer block as the reference row of its own raw keys, and the dead key is that of its first token.\<close>

theorem interleaved_histories:
  "qp_create N g table bs True base mrope = Inr s \<Longrightarrow> np_bytes_ok N \<Longrightarrow> mapA (append_stored N) ops s = (Inr us, s') \<Longrightarrow> q < length table \<Longrightarrow>
     qp_n_kv s' ! q = int (length (history q ops))
     \<and> (\<forall>j < length (history q ops). \<exists>c. read_kv_cell N s' q (int j) = Inr c \<and> ref_cell N s (history q ops ! j) = Inr c)
     \<and> (\<forall>b < length (history q ops) div gm_idx_block g. \<exists>row. read_pooled N s' q (int b) = Inr row \<and> ref_row N s q (history q ops) b = Inr row)
     \<and> (qp_have_dead s' ! q \<longleftrightarrow> history q ops \<noteq> [])
     \<and> (history q ops \<noteq> [] \<longrightarrow> dead_row N s (st_raw (hd (history q ops))) (st_gamma (hd (history q ops))) = Inr (qp_dead s' ! q))"
proof -
  assume c: "qp_create N g table bs True base mrope = Inr s" and N: "np_bytes_ok N"
    and run: "mapA (append_stored N) ops s = (Inr us, s')" and q: "q < length table"
  note k = create_ok [OF c] and cr = created_run [OF c N run]
  have h: "holds N s' q (history q ops)" and st: "stat s' = stat s" using cr(2,4) q by simp_all
  note H = holdsD [OF h] and ref = ref_stat [OF st, of N] and g = stat_cong(7) [OF st]
  show ?thesis
  proof (intro conjI)
    show "\<forall>j < length (history q ops). \<exists>c. read_kv_cell N s' q (int j) = Inr c \<and> ref_cell N s (history q ops ! j) = Inr c"
      using H(2,3) ref by auto
    show "\<forall>b < length (history q ops) div gm_idx_block g. \<exists>row. read_pooled N s' q (int b) = Inr row \<and> ref_row N s q (history q ops) b = Inr row"
      using H(4,5) ref g k(5) by auto
    show "history q ops \<noteq> [] \<longrightarrow> dead_row N s (st_raw (hd (history q ops))) (st_gamma (hd (history q ops))) = Inr (qp_dead s' ! q)"
      using H(7) ref by simp
  qed (fact H(1) H(6))+
qed

section \<open>Chunks\<close>

text \<open>The cache as its client sees it, an append that may raise and a query of the state.\<close>

definition qp_started :: "('f, 'd) np \<Rightarrow> ('f, 'd) qsa_paged \<Rightarrow> bool" where
  "qp_started N s \<longleftrightarrow> np_bytes_ok N \<and> qp_ok s \<and> pl_pooled (qp_layout s) \<and> (\<forall>q < length (qp_table s). 0 < qp_n_kv s ! q \<longrightarrow> qp_have_dead s ! q)"

definition qp_seen :: "nat \<Rightarrow> ('f, 'd) prepared \<Rightarrow> ('f, 'd) qsa_paged \<Rightarrow> bool" where
  "qp_seen q tok s \<longleftrightarrow> q < length (qp_table s) \<and> 0 \<le> tk_pos tok \<and> tk_pos tok < qp_n_kv s ! q"

definition qp_reply :: "('f, 'd) np \<Rightarrow> nat \<Rightarrow> ('f, 'd) prepared \<Rightarrow> ('f, 'd) qsa_paged \<Rightarrow> ('f attended \<times> 'f list) res" where
  "qp_reply N q tok s = bindR (qp_answer N q tok s) (\<lambda>o1. Inr (o1, tk_q_idx tok))"

lemma started_step:
  assumes s: "qp_started N s" and run: "qp_append N q gamma tok s = (Inr (), s')"
  shows "qp_started N s'" "qp_seen q tok s'"
    "\<And>u. qp_seen q u s \<Longrightarrow> qp_seen q u s' \<and> qp_answer N q u s' = qp_answer N q u s"
proof -
  have N: "np_bytes_ok N" and ok: "qp_ok s" and pooled: "pl_pooled (qp_layout s)"
    and hd: "\<And>q. q < length (qp_table s) \<Longrightarrow> 0 < qp_n_kv s ! q \<Longrightarrow> qp_have_dead s ! q" using s by (auto simp: qp_started_def)
  obtain p kq vq ws y0 y bp where p: "tk_pos tok = int p"
    and st: "token_step N s q (tk_k tok) (tk_v tok) (tk_raw tok) gamma p kq vq ws y0 y bp s'"
    using append_token_Inr [OF ok N pooled run [unfolded qp_append_def]] by blast
  note d = token_stepD [OF st]
  have lens: "length (qp_n_kv s) = length (qp_table s)" "length (qp_have_dead s) = length (qp_table s)" "length (qp_dead s) = length (qp_table s)"
    using ok by (simp_all add: qp_ok_def)
  have same: "qp_layout s' = qp_layout s" "qp_table s' = qp_table s" "qp_geom s' = qp_geom s" using d(12) by (simp_all add: stat_def)
  have "qp_have_dead s' ! r" if "r < length (qp_table s)" "0 < qp_n_kv s' ! r" for r
    using that hd [of r] hd [of q] d(1,2) lens by (cases "r = q") (auto simp: d(8,11))
  then show "qp_started N s'" using N token_step_writes(3) [OF ok N st] pooled by (simp add: qp_started_def same)
  show "qp_seen q tok s'" using d(1) lens p by (simp add: qp_seen_def same d(8))
  fix u assume u: "qp_seen q u s"
  show "qp_seen q u s' \<and> qp_answer N q u s' = qp_answer N q u s"
  proof
    show "qp_seen q u s'" using u d(1,2) lens by (simp add: qp_seen_def same d(8))
    have p0: "0 < p" using u d(2) by (simp add: qp_seen_def)
    have "alike N p s q s' q"
      unfolding alike_def
    proof (intro conjI allI impI)
      show "read_kv_cell N s' q (int j) = read_kv_cell N s q (int j)" if "j < p" for j
        by (rule frame_cell [OF ok N st]) (use that in simp)
      show "read_pooled N s' q (int b) = read_pooled N s q (int b)" if "b < p div gm_idx_block (qp_geom s)" for b
        by (rule frame_row [OF ok N st pooled]) (use that in simp)
    qed (use d(1,2) lens p0 in \<open>simp_all add: same d(8,10,11)\<close>)
    then show "qp_answer N q u s' = qp_answer N q u s" by (rule alike_answer) (use u d(2) in \<open>simp_all add: qp_seen_def\<close>)
  qed
qed

interpretation paged: prefix_store "qp_started N" "qp_append N q gamma" "qp_reply N q" "qp_seen q"
  for N q gamma
proof unfold_locales
  fix s :: "('a, 'b) qsa_paged" and t u s'
  assume s: "qp_started N s" and run: "qp_append N q gamma t s = (Inr (), s')"
  show "qp_started N s'" "qp_seen q t s'" by (rule started_step [OF s run])+
  assume "qp_seen q u s"
  from started_step(3) [OF s run this] show "qp_seen q u s' \<and> qp_reply N q u s' = qp_reply N q u s" by (simp add: qp_reply_def)
qed

text \<open>C17. On a created cache, after any appends, prefilling a chunk of prepared tokens returns exactly when
  decoding them one by one does, with the same ids, attention and gated outputs and the same final cache.\<close>

theorem chunk_prefill_is_decode:
  "qp_create N g table bs True base mrope = Inr s0 \<Longrightarrow> np_bytes_ok N \<Longrightarrow> mapA (append_stored N) ops s0 = (Inr us, s) \<Longrightarrow>
     prefill_prepared N q tokens gamma s = (Inr outs, s')
     \<longleftrightarrow> mapA (\<lambda>tok. bindA (decode_prepared N q gamma tok) (\<lambda>o1. retA (o1, tk_q_idx tok))) tokens s = (Inr outs, s')"
proof -
  assume c: "qp_create N g table bs True base mrope = Inr s0" and N: "np_bytes_ok N" and run: "mapA (append_stored N) ops s0 = (Inr us, s)"
  note cr = created_run [OF c N run]
  have dead: "qp_have_dead s ! r" if r: "r < length (qp_table s)" "0 < qp_n_kv s ! r" for r
  proof -
    have "holds N s r (history r ops)" using cr(4,7) r(1) by simp
    from holdsD(1,6) [OF this] r(2) show ?thesis by auto
  qed
  have "qp_started N s" unfolding qp_started_def using N cr(1,5) dead by blast
  note chunk = paged.chunk_run [OF this, of q gamma tokens outs s']
  have "bindA (decode_prepared N q gamma tok) (\<lambda>o1. retA (o1, tk_q_idx tok)) t = bindA (qp_append N q gamma tok) (\<lambda>_. liftA (qp_reply N q tok)) t" for tok t
    by (simp add: decode_prepared_def bindA_run act_run qp_reply_def bindR_def split: prod.split sum.split)
  then have "(\<lambda>tok. bindA (decode_prepared N q gamma tok) (\<lambda>o1. retA (o1, tk_q_idx tok))) = (\<lambda>tok. bindA (qp_append N q gamma tok) (\<lambda>_. liftA (qp_reply N q tok)))"
    by (intro ext)
  then show ?thesis using chunk unfolding prefill_prepared_def qp_reply_def [symmetric] by (simp only:)
qed

end
