(* ===== verification/Qsa_State_Props.thy ===== *)
theory Qsa_State_Props
  imports Qsa_State Qsa_Cache_Thms
begin

text \<open>
  What the single-sequence state holds after appends: every cell as its quantised token, every completed
  block as its reference row, and the open block in the tail.
\<close>

section \<open>Shape\<close>

definition pool_shape :: "nat \<Rightarrow> 'd qsa_geom \<Rightarrow> 'a list list list list \<Rightarrow> bool" where
  "pool_shape P g pool \<longleftrightarrow> length pool = P \<and> (\<forall>pg \<in> set pool. length pg = gm_n_kv g \<and> (\<forall>head \<in> set pg. length head = gm_page_size g))"

definition qs_ok :: "('f, 'd) qsa_state \<Rightarrow> bool" where
  "qs_ok t \<longleftrightarrow> (let g = qs_geom t; P = length (qs_page_table t) in
     0 < gm_idx_block g \<and> 0 < gm_page_size g \<and> qs_page_table t = [0..<P]
     \<and> pool_shape P g (qs_k_q t) \<and> pool_shape P g (qs_v_q t) \<and> pool_shape P g (qs_k_scale t) \<and> pool_shape P g (qs_v_scale t)
     \<and> length (qs_tail t) = gm_idx_block g - 1 \<and> 0 < length (qs_pooled t))"

lemma pool_shapeD:
  "pool_shape P g pool \<Longrightarrow> ph < P \<Longrightarrow> length (pool ! ph) = gm_n_kv g \<and> (\<forall>h < gm_n_kv g. length (pool ! ph ! h) = gm_page_size g)"
proof -
  assume "pool_shape P g pool" "ph < P"
  then have "length (pool ! ph) = gm_n_kv g" "\<And>head. head \<in> set (pool ! ph) \<Longrightarrow> length head = gm_page_size g"
    using nth_mem [of ph pool] by (auto simp: pool_shape_def)
  then show ?thesis by simp
qed

lemma pool_shape_put:
  assumes p: "pool_shape P g pool" and rows: "length rows = gm_n_kv g" and ph: "ph < P"
  shows "pool_shape P g (put_slot ph sl rows pool)"
proof -
  note d = pool_shapeD [OF p ph]
  have new: "length (map2 (\<lambda>head row. head[sl := row]) (pool ! ph) rows) = gm_n_kv g
      \<and> (\<forall>head \<in> set (map2 (\<lambda>head row. head[sl := row]) (pool ! ph) rows). length head = gm_page_size g)"
    using d rows by (auto simp: in_set_conv_nth)
  show ?thesis using p new unfolding pool_shape_def put_slot_def
    by (auto simp del: length_map set_map dest!: set_update_subset_insert [THEN subsetD])
qed

lemma get_put_slot:
  assumes "pool_shape P g pool" "length rows = gm_n_kv g" "ph < P" "sl < gm_page_size g" "ph' < P"
  shows "get_slot ph' sl' (put_slot ph sl rows pool) = (if ph' = ph \<and> sl' = sl then rows else get_slot ph' sl' pool)"
proof (cases "ph' = ph")
  case True
  have "get_slot ph sl' (put_slot ph sl rows pool) = (if sl' = sl then rows else get_slot ph sl' pool)"
    using assms(1-4) pool_shapeD [OF assms(1,3)] by (intro nth_equalityI) (auto simp: get_slot_def put_slot_def pool_shape_def)
  then show ?thesis using True by simp
next
  case False
  then show ?thesis by (simp add: get_slot_def put_slot_def)
qed

section \<open>One append\<close>

definition qs_dead_row :: "('f, 'd) np \<Rightarrow> ('f, 'd) qsa_state \<Rightarrow> 'd list \<Rightarrow> 'd list \<Rightarrow> 'f list res" where
  "qs_dead_row N t raw gamma = apply_rope_table N (rms_double N raw gamma (gm_eps (qs_geom t))) 0 (qs_cos t) (qs_sin t) None"

definition qs_block_row :: "('f, 'd) np \<Rightarrow> ('f, 'd) qsa_state \<Rightarrow> 'f list list \<Rightarrow> 'd list \<Rightarrow> 'd list \<Rightarrow> nat \<Rightarrow> 'f list res" where
  "qs_block_row N t tails raw gamma b =
     (let g = qs_geom t; r = gm_idx_block g; cell0 = int (b * r) in
      bindR (qs_rot_thw t cell0) (apply_rope_table N (rms_double N (block_mean N r (gm_idx_dim g) tails raw) gamma (gm_eps g))
        (qs_rot_pos t cell0) (qs_cos t) (qs_sin t)))"

definition qs_store :: "('f, 'd) np \<Rightarrow> ('f, 'd) stored \<Rightarrow> int \<Rightarrow> ('f, 'd, unit) qs_act" where
  "qs_store N x pos = (case x of (k, v, raw, gamma) \<Rightarrow> bindA (qs_append_kv N k v pos) (\<lambda>_. qs_append_indexer N raw gamma pos))"

lemma set_pooled_Inr:
  "set_pooled (int b) row s = (Inr (), s') \<longleftrightarrow> b < length (qs_pooled s) \<and> s' = s\<lparr>qs_pooled := (qs_pooled s)[b := row]\<rparr>"
  by (auto simp: set_pooled_def py_set_def py_pos_def bindA_run act_run)

lemma qs_append_dead_Inr:
  "qs_append_dead N raw gamma s = (Inr (), s') \<longleftrightarrow> (\<exists>y. qs_dead_row N s raw gamma = Inr y \<and> 0 < length (qs_pooled s)
     \<and> s' = s\<lparr>qs_dead := y, qs_pooled := (qs_pooled s)[0 := y], qs_have_dead := True\<rparr>)"
proof (cases "qs_dead_row N s raw gamma")
  case (Inr y)
  then show ?thesis using set_pooled_Inr [of 0 y "s\<lparr>qs_dead := y\<rparr>"]
    unfolding qs_append_dead_def withA_def bindA_liftA qs_dead_row_def [symmetric] bindA_unit by (auto simp: act_run bindA_unit)
qed (simp add: qs_append_dead_def withA_def bindA_liftA qs_dead_row_def [symmetric])

lemma qs_append_block_Inr:
  "qs_append_block N raw gamma (int p) s = (Inr (), s') \<longleftrightarrow>
     (\<exists>y. qs_block_row N s (qs_tail s) raw gamma (p div gm_idx_block (qs_geom s)) = Inr y
        \<and> Suc (p div gm_idx_block (qs_geom s)) < length (qs_pooled s)
        \<and> s' = s\<lparr>qs_pooled := (qs_pooled s)[p div gm_idx_block (qs_geom s) := y, Suc (p div gm_idx_block (qs_geom s)) := qs_dead s],
                 qs_block_pos := qs_rot_pos s (int (p div gm_idx_block (qs_geom s) * gm_idx_block (qs_geom s)))\<rparr>)"
    (is "?run \<longleftrightarrow> ?spec")
proof -
  let ?b = "p div gm_idx_block (qs_geom s)"
  have next1: "int ?b + 1 = int (Suc ?b)" by simp
  show ?thesis
  proof (cases "qs_block_row N s (qs_tail s) raw gamma ?b")
    case (Inl e)
    then show ?thesis
      by (simp add: qs_append_block_def withA_def Let_def bindA_liftA qs_block_row_def flip: of_nat_div of_nat_mult)
  next
    case (Inr y)
    have "?run \<longleftrightarrow> (\<exists>t. set_pooled (int ?b) y s = (Inr (), t) \<and> (\<exists>u. set_pooled (int (Suc ?b)) (qs_dead s) t = (Inr (), u)
        \<and> modA (\<lambda>s'. s'\<lparr>qs_block_pos := qs_rot_pos s' (int (?b * gm_idx_block (qs_geom s)))\<rparr>) u = (Inr (), s')))"
      using Inr unfolding qs_append_block_def qs_block_row_def withA_def Let_def zdiv_int [symmetric] of_nat_mult [symmetric] next1
      by (simp only: bindA_liftA sum.case bindA_unit)
    then show ?thesis unfolding Inr set_pooled_Inr by (auto simp: act_run qs_rot_pos_def)
  qed
qed

text \<open>The state after token \<open>p\<close>: \<open>y0\<close> is the dead key of the first token, \<open>y\<close> the row of a completed block.\<close>

definition qs_stored :: "('f, 'd) qsa_state \<Rightarrow> nat \<Rightarrow> 'f list \<Rightarrow> 'f q8_heads \<Rightarrow> 'f q8_heads \<Rightarrow> 'f list \<Rightarrow> 'f list \<Rightarrow> int \<Rightarrow> ('f, 'd) qsa_state" where
  "qs_stored t p tail_row kq vq y0 y bp =
     (let r = gm_idx_block (qs_geom t); ph = p div gm_page_size (qs_geom t); sl = p mod gm_page_size (qs_geom t); b = p div r;
          dead = (if p = 0 then y0 else qs_dead t); pooled = (if p = 0 then (qs_pooled t)[0 := y0] else qs_pooled t) in
      t\<lparr>qs_k_q := put_slot ph sl (map fst kq) (qs_k_q t), qs_v_q := put_slot ph sl (map fst vq) (qs_v_q t),
        qs_k_scale := put_slot ph sl (map snd kq) (qs_k_scale t), qs_v_scale := put_slot ph sl (map snd vq) (qs_v_scale t),
        qs_tail := (if p mod r < r - 1 then (qs_tail t)[p mod r := tail_row] else qs_tail t),
        qs_dead := dead, qs_have_dead := (p = 0 \<or> qs_have_dead t),
        qs_pooled := (if p mod r = r - 1 then pooled[b := y, Suc b := dead] else pooled),
        qs_block_pos := bp, qs_n_kv := int p + 1\<rparr>)"

definition qs_step :: "('f, 'd) np \<Rightarrow> ('f, 'd) qsa_state \<Rightarrow> ('f, 'd) stored \<Rightarrow> nat \<Rightarrow> 'f q8_heads \<Rightarrow> 'f q8_heads \<Rightarrow> 'f list \<Rightarrow> 'f list \<Rightarrow> bool" where
  "qs_step N t x p kq vq y0 y \<longleftrightarrow> (case x of (k, v, raw, gamma) \<Rightarrow> let g = qs_geom t; r = gm_idx_block g in
     quant_cell N g k = Inr kq \<and> quant_cell N g v = Inr vq \<and> p div gm_page_size g < length (qs_page_table t)
     \<and> length raw = gm_idx_dim g \<and> length gamma = gm_idx_dim g \<and> (p = 0 \<longrightarrow> qs_dead_row N t raw gamma = Inr y0)
     \<and> (p mod r = r - 1 \<longrightarrow> qs_block_row N t (qs_tail t) raw gamma (p div r) = Inr y \<and> Suc (p div r) < length (qs_pooled t)))"

lemma qs_phys_run:
  assumes "qs_ok t"
  shows "qs_phys t (int i) = (if i < length (qs_page_table t) then Inr i else Inl (IndexError ''list index out of range''))"
proof -
  have "qs_page_table t = [0..<length (qs_page_table t)]" "length (qs_k_q t) = length (qs_page_table t)"
    using assms by (simp_all add: qs_ok_def pool_shape_def Let_def)
  moreover from calculation(1) have "i < length (qs_page_table t) \<Longrightarrow> qs_page_table t ! i = i" by (metis add.left_neutral nth_upt)
  ultimately show ?thesis by (simp add: qs_phys_def py_nth_def py_pos_def)
qed

lemma qs_append_kv_Inr:
  assumes "qs_ok t"
  shows "qs_append_kv N k v (int p) t = (Inr (), t') \<longleftrightarrow>
    (\<exists>kq vq. quant_cell N (qs_geom t) k = Inr kq \<and> quant_cell N (qs_geom t) v = Inr vq \<and> p div gm_page_size (qs_geom t) < length (qs_page_table t)
       \<and> t' = t\<lparr>qs_k_q := put_slot (p div gm_page_size (qs_geom t)) (p mod gm_page_size (qs_geom t)) (map fst kq) (qs_k_q t),
                qs_v_q := put_slot (p div gm_page_size (qs_geom t)) (p mod gm_page_size (qs_geom t)) (map fst vq) (qs_v_q t),
                qs_k_scale := put_slot (p div gm_page_size (qs_geom t)) (p mod gm_page_size (qs_geom t)) (map snd kq) (qs_k_scale t),
                qs_v_scale := put_slot (p div gm_page_size (qs_geom t)) (p mod gm_page_size (qs_geom t)) (map snd vq) (qs_v_scale t)\<rparr>)"
proof -
  let ?g = "qs_geom t"
  have slot: "nat (int p mod int (gm_page_size ?g)) = p mod gm_page_size ?g" by (simp flip: of_nat_mod)
  have phys: "qs_phys t (int p div int (gm_page_size ?g)) = (if p div gm_page_size ?g < length (qs_page_table t) then Inr (p div gm_page_size ?g) else Inl (IndexError ''list index out of range''))"
    unfolding qs_phys_run [OF assms, symmetric] by (simp add: zdiv_int)
  show ?thesis
    by (cases "quant_cell N ?g k"; cases "quant_cell N ?g v")
       (auto simp: qs_append_kv_def withA_def Let_def bindA_liftA slot phys quant_cell_def bindR_def act_run split: sum.splits)
qed

lemma qs_append_indexer_Inr:
  assumes tl: "length (qs_tail t) = gm_idx_block (qs_geom t) - 1" and run: "qs_append_indexer N raw gamma (int p) t = (Inr (), t')"
  shows "\<exists>y0 y bp. length raw = gm_idx_dim (qs_geom t) \<and> length gamma = gm_idx_dim (qs_geom t) \<and> (p = 0 \<longrightarrow> qs_dead_row N t raw gamma = Inr y0)
     \<and> (p mod gm_idx_block (qs_geom t) = gm_idx_block (qs_geom t) - 1 \<longrightarrow>
          qs_block_row N t (qs_tail t) raw gamma (p div gm_idx_block (qs_geom t)) = Inr y \<and> Suc (p div gm_idx_block (qs_geom t)) < length (qs_pooled t))
     \<and> t' = (let r = gm_idx_block (qs_geom t); b = p div r;
          dead = (if p = 0 then y0 else qs_dead t); pooled = (if p = 0 then (qs_pooled t)[0 := y0] else qs_pooled t) in
        t\<lparr>qs_tail := (if p mod r < r - 1 then (qs_tail t)[p mod r := map (to_f N) raw] else qs_tail t),
          qs_dead := dead, qs_have_dead := (p = 0 \<or> qs_have_dead t),
          qs_pooled := (if p mod r = r - 1 then pooled[b := y, Suc b := dead] else pooled), qs_block_pos := bp, qs_n_kv := int p + 1\<rparr>)"
proof -
  let ?r = "gm_idx_block (qs_geom t)" and ?dim = "gm_idx_dim (qs_geom t)"
  let ?slot = "p mod ?r"
  have slot: "nat (int p mod int ?r) = ?slot" by (simp flip: of_nat_mod)
  have len: "length raw = ?dim" "length gamma = ?dim"
    using run by (auto simp: qs_append_indexer_def withA_def Let_def bindA_liftA np_vector_def split: if_splits)
  define t1 where "t1 = t\<lparr>qs_tail := (if ?slot < ?r - 1 then (qs_tail t)[?slot := map (to_f N) raw] else qs_tail t)\<rparr>"
  have vec: "np_vector ?dim raw = Inr raw" "np_vector ?dim gamma = Inr gamma" using len by (simp_all add: np_vector_def)
  have "qs_append_indexer N raw gamma (int p) t = bindA (if int p = 0 then qs_append_dead N raw gamma else retA ()) (\<lambda>_.
      bindA (if ?slot = ?r - 1 then qs_append_block N raw gamma (int p) else retA ()) (\<lambda>_. modA (\<lambda>s. s\<lparr>qs_n_kv := int p + 1\<rparr>))) t1"
    unfolding qs_append_indexer_def withA_def Let_def slot bindA_liftA vec sum.case
    by (rule bindA_step) (simp add: t1_def act_run)
  from run [unfolded this] obtain u v where u: "(if int p = 0 then qs_append_dead N raw gamma else retA ()) t1 = (Inr (), u)"
    and v: "(if ?slot = ?r - 1 then qs_append_block N raw gamma (int p) else retA ()) u = (Inr (), v)"
    and t0: "modA (\<lambda>s. s\<lparr>qs_n_kv := int p + 1\<rparr>) v = (Inr (), t')"
    unfolding bindA_unit by blast
  have t': "t' = v\<lparr>qs_n_kv := int p + 1\<rparr>" using t0 by (simp add: act_run)
  have rows: "qs_dead_row N t1 = qs_dead_row N t" by (simp add: fun_eq_iff qs_dead_row_def t1_def)
  obtain y0 where y0: "p = 0 \<longrightarrow> qs_dead_row N t raw gamma = Inr y0"
    and ueq: "u = t1\<lparr>qs_dead := (if p = 0 then y0 else qs_dead t), qs_pooled := (if p = 0 then (qs_pooled t)[0 := y0] else qs_pooled t),
        qs_have_dead := (p = 0 \<or> qs_have_dead t)\<rparr>"
  proof (cases "p = 0")
    case True
    then have "qs_append_dead N raw gamma t1 = (Inr (), u)" using u by simp
    then obtain y where "qs_dead_row N t raw gamma = Inr y" "u = t1\<lparr>qs_dead := y, qs_pooled := (qs_pooled t1)[0 := y], qs_have_dead := True\<rparr>"
      unfolding qs_append_dead_Inr rows by blast
    then show ?thesis using True by (intro that [of y]) (simp_all add: t1_def)
  next
    case False
    then have "u = t1" using u by (simp add: act_run)
    moreover have "t1 = t1\<lparr>qs_dead := qs_dead t, qs_pooled := qs_pooled t, qs_have_dead := qs_have_dead t\<rparr>"
      by (rule qsa_state.equality) (simp_all add: t1_def)
    ultimately show ?thesis using False by (intro that [of undefined]) simp_all
  qed
  have br: "qs_block_row N u = qs_block_row N t"
    by (simp add: fun_eq_iff qs_block_row_def ueq t1_def qs_rot_thw_def qs_rot_pos_def)
  show ?thesis
  proof (cases "?slot = ?r - 1")
    case True
    then have "qs_append_block N raw gamma (int p) u = (Inr (), v)" using v by simp
    moreover have "qs_geom u = qs_geom t" "length (qs_pooled u) = length (qs_pooled t)" "qs_tail u = qs_tail t" using True by (simp_all add: ueq t1_def)
    ultimately obtain y bp where "qs_block_row N t (qs_tail t) raw gamma (p div ?r) = Inr y" "Suc (p div ?r) < length (qs_pooled t)"
        "v = u\<lparr>qs_pooled := (qs_pooled u)[p div ?r := y, Suc (p div ?r) := qs_dead u], qs_block_pos := bp\<rparr>"
      unfolding qs_append_block_Inr br by auto
    then show ?thesis using True len y0 by (intro exI [of _ y0] exI [of _ y] exI [of _ bp]) (simp add: t' ueq t1_def Let_def)
  next
    case False
    then have "v = u" using v by (simp add: act_run)
    then show ?thesis using False len y0 by (intro exI [of _ y0] exI [of _ y0] exI [of _ "qs_block_pos t"]) (simp add: t' ueq t1_def Let_def)
  qed
qed

lemma qs_store_Inr:
  assumes ok: "qs_ok t" and run: "qs_store N x (int p) t = (Inr (), t')"
  shows "\<exists>kq vq y0 y bp. qs_step N t x p kq vq y0 y \<and> t' = qs_stored t p (map (to_f N) (st_raw x)) kq vq y0 y bp"
proof -
  obtain k v raw gamma where x: "x = (k, v, raw, gamma)" by (metis prod_cases4)
  obtain u where u: "qs_append_kv N k v (int p) t = (Inr (), u)" "qs_append_indexer N raw gamma (int p) u = (Inr (), t')"
    using run by (auto simp: qs_store_def x bindA_unit)
  obtain kq vq where q: "quant_cell N (qs_geom t) k = Inr kq" "quant_cell N (qs_geom t) v = Inr vq" "p div gm_page_size (qs_geom t) < length (qs_page_table t)"
    and ueq: "u = t\<lparr>qs_k_q := put_slot (p div gm_page_size (qs_geom t)) (p mod gm_page_size (qs_geom t)) (map fst kq) (qs_k_q t),
                qs_v_q := put_slot (p div gm_page_size (qs_geom t)) (p mod gm_page_size (qs_geom t)) (map fst vq) (qs_v_q t),
                qs_k_scale := put_slot (p div gm_page_size (qs_geom t)) (p mod gm_page_size (qs_geom t)) (map snd kq) (qs_k_scale t),
                qs_v_scale := put_slot (p div gm_page_size (qs_geom t)) (p mod gm_page_size (qs_geom t)) (map snd vq) (qs_v_scale t)\<rparr>"
    using u(1) unfolding qs_append_kv_Inr [OF ok] by blast
  have tl: "length (qs_tail u) = gm_idx_block (qs_geom u) - 1" using ok by (simp add: ueq qs_ok_def Let_def)
  have sel: "qs_geom u = qs_geom t" "qs_pooled u = qs_pooled t" "qs_tail u = qs_tail t" "qs_dead_row N u = qs_dead_row N t" "qs_block_row N u = qs_block_row N t"
    by (simp_all add: ueq fun_eq_iff qs_dead_row_def qs_block_row_def qs_rot_thw_def qs_rot_pos_def)
  obtain y0 y bp where i: "length raw = gm_idx_dim (qs_geom t)" "length gamma = gm_idx_dim (qs_geom t)" "p = 0 \<longrightarrow> qs_dead_row N t raw gamma = Inr y0"
      "p mod gm_idx_block (qs_geom t) = gm_idx_block (qs_geom t) - 1 \<longrightarrow>
          qs_block_row N t (qs_tail t) raw gamma (p div gm_idx_block (qs_geom t)) = Inr y \<and> Suc (p div gm_idx_block (qs_geom t)) < length (qs_pooled t)"
      and t': "t' = (let r = gm_idx_block (qs_geom u); b = p div r;
          dead = (if p = 0 then y0 else qs_dead u); pooled = (if p = 0 then (qs_pooled u)[0 := y0] else qs_pooled u) in
        u\<lparr>qs_tail := (if p mod r < r - 1 then (qs_tail u)[p mod r := map (to_f N) raw] else qs_tail u),
          qs_dead := dead, qs_have_dead := (p = 0 \<or> qs_have_dead u),
          qs_pooled := (if p mod r = r - 1 then pooled[b := y, Suc b := dead] else pooled), qs_block_pos := bp, qs_n_kv := int p + 1\<rparr>)"
    using qs_append_indexer_Inr [OF tl u(2)] unfolding sel by blast
  have "qs_step N t x p kq vq y0 y" using q i by (simp add: qs_step_def x Let_def)
  moreover have "t' = qs_stored t p (map (to_f N) (st_raw x)) kq vq y0 y bp"
    unfolding t' by (simp add: qs_stored_def Let_def ueq x st_raw_def)
  ultimately show ?thesis by blast
qed

section \<open>Histories\<close>

definition qs_cell :: "('f, 'd) qsa_state \<Rightarrow> nat \<Rightarrow> ((int list \<times> 'f list) \<times> (int list \<times> 'f list)) list" where
  "qs_cell t j = (let pg = gm_page_size (qs_geom t); get = (\<lambda>pool. get_slot (j div pg) (j mod pg) pool) in
     zip (zip (get (qs_k_q t)) (get_slot (j div pg) (j mod pg) (qs_k_scale t))) (zip (get (qs_v_q t)) (get_slot (j div pg) (j mod pg) (qs_v_scale t))))"

definition qs_ref_cell :: "('f, 'd) np \<Rightarrow> 'd qsa_geom \<Rightarrow> ('f, 'd) stored \<Rightarrow> ((int list \<times> 'f list) \<times> (int list \<times> 'f list)) list res" where
  "qs_ref_cell N g x = bindR (quant_cell N g (fst x)) (\<lambda>kq. bindR (quant_cell N g (fst (snd x))) (\<lambda>vq. Inr (zip kq vq)))"

definition qs_ref_row :: "('f, 'd) np \<Rightarrow> ('f, 'd) qsa_state \<Rightarrow> ('f, 'd) stored list \<Rightarrow> nat \<Rightarrow> 'f list res" where
  "qs_ref_row N t h b = (let r = gm_idx_block (qs_geom t); blk = take r (drop (b * r) h) in
     qs_block_row N t (map (\<lambda>x. map (to_f N) (st_raw x)) (butlast blk)) (st_raw (last blk)) (st_gamma (last blk)) b)"

definition qs_holds :: "('f, 'd) np \<Rightarrow> ('f, 'd) qsa_state \<Rightarrow> ('f, 'd) stored list \<Rightarrow> bool" where
  "qs_holds N t h \<longleftrightarrow> (let r = gm_idx_block (qs_geom t); n = length h in qs_n_kv t = int n
     \<and> (\<forall>j < n. j div gm_page_size (qs_geom t) < length (qs_page_table t) \<and> qs_ref_cell N (qs_geom t) (h ! j) = Inr (qs_cell t j))
     \<and> (\<forall>b < n div r. b < length (qs_pooled t) \<and> qs_ref_row N t h b = Inr (qs_pooled t ! b))
     \<and> (qs_have_dead t \<longleftrightarrow> h \<noteq> []) \<and> (h \<noteq> [] \<longrightarrow> qs_dead_row N t (st_raw (hd h)) (st_gamma (hd h)) = Inr (qs_dead t))
     \<and> (\<forall>i < n mod r. qs_tail t ! i = map (to_f N) (st_raw (h ! (n - n mod r + i)))))"

text \<open>What no append changes.\<close>

definition qs_stat :: "('f, 'd) qsa_state \<Rightarrow> 'd qsa_geom \<times> int \<times> nat list \<times> 'f list list \<times> 'f list list \<times> int list list option" where
  "qs_stat t = (qs_geom t, qs_pos_base t, qs_page_table t, qs_cos t, qs_sin t, qs_mrope t)"

lemma qs_stat_cong:
  assumes "qs_stat t = qs_stat t'"
  shows "qs_dead_row N t = qs_dead_row N t'" "qs_block_row N t = qs_block_row N t'" "qs_ref_row N t = qs_ref_row N t'" "qs_geom t = qs_geom t'"
    "qs_prepare N W x thw t = qs_prepare N W x thw t'" "qs_page_table t = qs_page_table t'"
  using assms
  by (simp_all add: qs_stat_def fun_eq_iff qs_dead_row_def qs_block_row_def qs_ref_row_def qs_rot_thw_def qs_rot_pos_def qs_prepare_def cong: option.case_cong)

lemma qs_stat_stored [simp]: "qs_stat (qs_stored t p tr kq vq y0 y bp) = qs_stat t"
  by (simp add: qs_stat_def qs_stored_def Let_def)

lemma qs_step_heads:
  assumes "qs_step N t x p kq vq y0 y"
  shows "length kq = gm_n_kv (qs_geom t)" "length vq = gm_n_kv (qs_geom t)" "p div gm_page_size (qs_geom t) < length (qs_page_table t)"
    "qs_ref_cell N (qs_geom t) x = Inr (zip kq vq)"
  using assms quant_cell_rows(1) by (auto simp: qs_step_def qs_ref_cell_def Let_def)

lemma qs_ok_stored:
  assumes ok: "qs_ok t" and st: "qs_step N t x p kq vq y0 y"
  shows "qs_ok (qs_stored t p tr kq vq y0 y bp)"
proof -
  note h = qs_step_heads [OF st]
  have put: "pool_shape (length (qs_page_table t)) (qs_geom t) (put_slot (p div gm_page_size (qs_geom t)) sl rows pool)"
    if "pool_shape (length (qs_page_table t)) (qs_geom t) pool" "length rows = gm_n_kv (qs_geom t)" for sl pool and rows :: "'c list list"
    by (rule pool_shape_put [OF that h(3)])
  show ?thesis using ok h(1,2) unfolding qs_ok_def Let_def qs_stored_def by (simp add: put)
qed

lemma qs_cell_stored:
  assumes ok: "qs_ok t" and st: "qs_step N t x p kq vq y0 y" and j: "j div gm_page_size (qs_geom t) < length (qs_page_table t)"
  shows "qs_cell (qs_stored t p tr kq vq y0 y bp) j = (if j = p then zip kq vq else qs_cell t j)"
proof -
  note h = qs_step_heads [OF st]
  let ?g = "qs_geom t" and ?P = "length (qs_page_table t)"
  have pg: "0 < gm_page_size ?g" and shapes: "pool_shape ?P ?g (qs_k_q t)" "pool_shape ?P ?g (qs_v_q t)" "pool_shape ?P ?g (qs_k_scale t)" "pool_shape ?P ?g (qs_v_scale t)"
    using ok by (simp_all add: qs_ok_def Let_def)
  have same: "j div gm_page_size ?g = p div gm_page_size ?g \<and> j mod gm_page_size ?g = p mod gm_page_size ?g \<longleftrightarrow> j = p"
    by (metis div_mult_mod_eq)
  have sl: "p mod gm_page_size ?g < gm_page_size ?g" using pg by simp
  note get = get_put_slot [OF shapes(1) _ h(3) sl j, of "map fst kq" "j mod gm_page_size ?g"] get_put_slot [OF shapes(2) _ h(3) sl j, of "map fst vq" "j mod gm_page_size ?g"]
    get_put_slot [OF shapes(3) _ h(3) sl j, of "map snd kq" "j mod gm_page_size ?g"] get_put_slot [OF shapes(4) _ h(3) sl j, of "map snd vq" "j mod gm_page_size ?g"]
  show ?thesis using get h(1,2) unfolding same by (simp add: qs_cell_def qs_stored_def Let_def zip_map_fst_snd)
qed

lemma qs_holdsD:
  assumes "qs_holds N t h"
  shows "qs_n_kv t = int (length h)"
    "j < length h \<Longrightarrow> j div gm_page_size (qs_geom t) < length (qs_page_table t)" "j < length h \<Longrightarrow> qs_ref_cell N (qs_geom t) (h ! j) = Inr (qs_cell t j)"
    "b < length h div gm_idx_block (qs_geom t) \<Longrightarrow> b < length (qs_pooled t)"
    "b < length h div gm_idx_block (qs_geom t) \<Longrightarrow> qs_ref_row N t h b = Inr (qs_pooled t ! b)"
    "qs_have_dead t \<longleftrightarrow> h \<noteq> []" "h \<noteq> [] \<Longrightarrow> qs_dead_row N t (st_raw (hd h)) (st_gamma (hd h)) = Inr (qs_dead t)"
    "i < length h mod gm_idx_block (qs_geom t) \<Longrightarrow> qs_tail t ! i = map (to_f N) (st_raw (h ! (length h - length h mod gm_idx_block (qs_geom t) + i)))"
  using assms unfolding qs_holds_def Let_def by blast+

text \<open>The row of a block is the row its last token completes.\<close>

lemma qs_open_block:
  assumes ok: "qs_ok t" and h: "qs_holds N t h" and full: "length h mod gm_idx_block (qs_geom t) = gm_idx_block (qs_geom t) - 1"
  shows "qs_ref_row N t (h @ [x]) (length h div gm_idx_block (qs_geom t))
    = qs_block_row N t (qs_tail t) (st_raw x) (st_gamma x) (length h div gm_idx_block (qs_geom t))"
proof -
  let ?r = "gm_idx_block (qs_geom t)" and ?p = "length h"
  define b where "b = ?p div ?r"
  have r: "0 < ?r" and tl: "length (qs_tail t) = ?r - 1" using ok by (simp_all add: qs_ok_def Let_def)
  have hlen: "?p = b * ?r + (?r - 1)" using div_mult_mod_eq [of ?p ?r] unfolding full b_def by simp
  have blk: "take ?r (drop (b * ?r) (h @ [x])) = drop (b * ?r) h @ [x]" using hlen r by simp
  have "map (\<lambda>x. map (to_f N) (st_raw x)) (drop (b * ?r) h) = qs_tail t"
  proof (rule nth_equalityI)
    show "length (map (\<lambda>x. map (to_f N) (st_raw x)) (drop (b * ?r) h)) = length (qs_tail t)" using hlen tl by simp
    fix i assume "i < length (map (\<lambda>x. map (to_f N) (st_raw x)) (drop (b * ?r) h))"
    then have i: "i < ?r - 1" "b * ?r + i < ?p" using hlen by simp_all
    have m: "?p - (?r - 1) = b * ?r" using hlen by simp
    have "qs_tail t ! i = map (to_f N) (st_raw (h ! (b * ?r + i)))" using qs_holdsD(8) [OF h, of i] i(1) unfolding full m by simp
    then show "map (\<lambda>x. map (to_f N) (st_raw x)) (drop (b * ?r) h) ! i = qs_tail t ! i" using i(2) hlen by (simp add: nth_drop)
  qed
  then show ?thesis unfolding b_def [symmetric] qs_ref_row_def Let_def blk by simp
qed

lemma qs_rows_stored:
  assumes ok: "qs_ok t" and h: "qs_holds N t h" and st: "qs_step N t x (length h) kq vq y0 y"
    and b: "b < Suc (length h) div gm_idx_block (qs_geom t)"
  shows "b < length (qs_pooled (qs_stored t (length h) tr kq vq y0 y bp)) \<and>
    qs_ref_row N t (h @ [x]) b = Inr (qs_pooled (qs_stored t (length h) tr kq vq y0 y bp) ! b)"
proof -
  let ?r = "gm_idx_block (qs_geom t)" and ?p = "length h"
  let ?t = "qs_stored t ?p tr kq vq y0 y bp"
  have r: "0 < ?r" and tl: "length (qs_tail t) = ?r - 1" using ok by (simp_all add: qs_ok_def Let_def)
  show ?thesis
  proof (cases "b < ?p div ?r")
    case True
    then have p: "0 < ?p" by (cases "?p") simp_all
    then have same: "qs_pooled ?t ! b = qs_pooled t ! b" "length (qs_pooled ?t) = length (qs_pooled t)" using True by (auto simp: qs_stored_def Let_def)
    have "qs_ref_row N t (h @ [x]) b = qs_ref_row N t h b" by (simp only: qs_ref_row_def Let_def take_block_prefix [OF True])
    then show ?thesis using qs_holdsD(4,5) [OF h True] by (simp add: same)
  next
    case False
    have full: "?p mod ?r = ?r - 1" "b = ?p div ?r" using block_full [OF r b False] by simp_all
    obtain k v raw gamma where x: "x = (k, v, raw, gamma)" by (metis prod_cases4)
    have y: "qs_block_row N t (qs_tail t) raw gamma (?p div ?r) = Inr y" "Suc (?p div ?r) < length (qs_pooled t)"
      using st full(1) by (simp_all add: qs_step_def x Let_def)
    have "qs_ref_row N t (h @ [x]) b = Inr y" using qs_open_block [OF ok h full(1), of x] y(1) unfolding full(2) by (simp add: x st_raw_def st_gamma_def)
    moreover have "0 < length (qs_pooled t)" using y(2) by linarith
    ultimately show ?thesis using y(2) full by (auto simp: qs_stored_def Let_def)
  qed
qed

lemma qs_tail_stored:
  assumes ok: "qs_ok t" and h: "qs_holds N t h" and i: "i < Suc (length h) mod gm_idx_block (qs_geom t)"
  shows "qs_tail (qs_stored t (length h) (map (to_f N) (st_raw x)) kq vq y0 y bp) ! i
    = map (to_f N) (st_raw ((h @ [x]) ! (Suc (length h) - Suc (length h) mod gm_idx_block (qs_geom t) + i)))"
proof -
  let ?r = "gm_idx_block (qs_geom t)" and ?p = "length h"
  have r: "0 < ?r" and tl: "length (qs_tail t) = ?r - 1" using ok by (simp_all add: qs_ok_def Let_def)
  have sm: "Suc ?p mod ?r = Suc (?p mod ?r)" "?p mod ?r < ?r - 1" using block_open [OF r i] by simp_all
  have base: "Suc ?p - Suc ?p mod ?r = ?p - ?p mod ?r" using sm by simp
  have le: "?p mod ?r \<le> ?p" by simp
  have t': "qs_tail (qs_stored t ?p (map (to_f N) (st_raw x)) kq vq y0 y bp) = (qs_tail t)[?p mod ?r := map (to_f N) (st_raw x)]"
    using sm(2) by (simp add: qs_stored_def Let_def)
  show ?thesis
  proof (cases "i = ?p mod ?r")
    case True
    have "(h @ [x]) ! (?p - ?p mod ?r + i) = x" using le by (simp add: True)
    then show ?thesis using tl sm(2) unfolding t' base by (simp add: True)
  next
    case False
    then have il: "i < ?p mod ?r" using i sm by simp
    then have "?p - ?p mod ?r + i < ?p" using le by linarith
    then have "(h @ [x]) ! (?p - ?p mod ?r + i) = h ! (?p - ?p mod ?r + i)" by (simp add: nth_append)
    then show ?thesis using qs_holdsD(8) [OF h il] False unfolding t' base by simp
  qed
qed

lemma qs_holds_stored:
  assumes ok: "qs_ok t" and h: "qs_holds N t h" and st: "qs_step N t x (length h) kq vq y0 y"
  shows "qs_holds N (qs_stored t (length h) (map (to_f N) (st_raw x)) kq vq y0 y bp) (h @ [x])"
proof -
  let ?t = "qs_stored t (length h) (map (to_f N) (st_raw x)) kq vq y0 y bp"
  note cg = qs_stat_cong [OF qs_stat_stored [of t "length h" "map (to_f N) (st_raw x)" kq vq y0 y bp]]
  have cells: "j div gm_page_size (qs_geom t) < length (qs_page_table t) \<and> qs_ref_cell N (qs_geom t) ((h @ [x]) ! j) = Inr (qs_cell ?t j)"
    if "j < length (h @ [x])" for j
  proof (cases "j = length h")
    case True
    then show ?thesis using qs_step_heads(3,4) [OF st] qs_cell_stored [OF ok st] by simp
  next
    case False
    then have "j < length h" using that by simp
    then show ?thesis using qs_holdsD(2,3) [OF h] qs_cell_stored [OF ok st] False by (simp add: nth_append)
  qed
  have dead: "qs_dead_row N t (st_raw (hd (h @ [x]))) (st_gamma (hd (h @ [x]))) = Inr (qs_dead ?t)"
    using st qs_holdsD(7) [OF h] by (cases h) (auto simp: qs_step_def qs_stored_def Let_def st_raw_def st_gamma_def split: prod.splits)
  have n: "qs_n_kv ?t = int (length (h @ [x]))" "qs_have_dead ?t" using qs_holdsD(6) [OF h] by (auto simp: qs_stored_def Let_def)
  show ?thesis unfolding qs_holds_def Let_def cg
    using n cells dead qs_rows_stored [OF ok h st] qs_tail_stored [OF ok h, of _ x] by simp
qed

end
