(* ===== verification/Qsa_Progress.thy ===== *)
theory Qsa_Progress
  imports Qsa_Cache_Thms
begin

text \<open>
  The cache takes every next token it has room for: with tokens of the right shape and positions inside the
  rotary tables no append raises.
\<close>

section \<open>Rotary tables cover the positions\<close>

definition rope_ok :: "'f list list \<Rightarrow> 'f list list \<Rightarrow> nat \<Rightarrow> nat \<Rightarrow> bool" where
  "rope_ok cs sn half n \<longleftrightarrow> length cs = n \<and> length sn = n \<and> (\<forall>row \<in> set cs \<union> set sn. length row = half)"

lemma rope_tables_ok: "rope_ok (fst (rope_tables N n half base)) (snd (rope_tables N n half base)) half n"
  by (auto simp: rope_tables_def rope_ok_def Let_def)

lemma tab_pick_run:
  assumes "\<forall>row \<in> set tab. length row = half" "0 \<le> pos" "pos < int (length tab)"
  shows "\<exists>xs. tab_pick tab (replicate half pos) = Inr xs \<and> length xs = half"
proof -
  have nth: "py_nth tab pos = Inr (tab ! nat pos)" by (rule py_nth_nonneg [OF assms(2,3)])
  have "length (tab ! nat pos) = half" using assms by simp
  then have "mapR (\<lambda>(d, p). bindR (py_nth tab p) (\<lambda>row. np_at row d)) (zip [0..<half] (replicate half pos))
      = Inr (map (\<lambda>(d, p). tab ! nat pos ! d) (zip [0..<half] (replicate half pos)))"
    by (intro mapR_total) (auto simp: nth set_zip)
  then show ?thesis by (simp add: tab_pick_def)
qed

lemma rope_run:
  assumes ok: "rope_ok cs sn half n" and pos: "0 \<le> pos" "pos < int n" and len: "2 * half \<le> length y"
  shows "\<exists>z. apply_rope_table N y pos cs sn None = Inr z \<and> length z = length y"
proof -
  have n: "length cs = n" "length sn = n" and rows: "\<forall>row \<in> set cs. length row = half" "\<forall>row \<in> set sn. length row = half"
    using ok by (auto simp: rope_ok_def)
  have h: "tab_half cs = half" using n rows(1) pos by (cases cs) (auto simp: tab_half_def)
  obtain c s where "tab_pick cs (replicate half pos) = Inr c" "tab_pick sn (replicate half pos) = Inr s" "length c = half" "length s = half"
    using tab_pick_run [OF rows(1)] tab_pick_run [OF rows(2)] n pos by metis
  then show ?thesis using len by (auto simp: apply_rope_table_def h Let_def)
qed

section \<open>Shapes\<close>

lemma length_rms [simp]: "length gamma = length x \<Longrightarrow> length (rms_double N x gamma eps) = length x"
  by (simp add: rms_double_def Let_def)

lemma length_fold_map2:
  "(\<forall>t \<in> set ts. length t = n) \<Longrightarrow> length acc = n \<Longrightarrow> length (fold (\<lambda>t acc. map2 f acc (map g t)) ts acc) = n"
  by (induction ts arbitrary: acc) auto

lemma length_block_mean: "(\<forall>t \<in> set tails. length t = dim) \<Longrightarrow> length raw = dim \<Longrightarrow> length (block_mean N r dim tails raw) = dim"
  using length_fold_map2 [of tails dim "replicate dim (d_int N 0)" "d_add N" "to_d N"] by (simp add: block_mean_def Let_def)

lemma quant_cell_run:
  assumes "length x = gm_n_kv g * gm_head_dim g" "gm_head_dim g mod KV_Q8_GROUP = 0"
  shows "\<exists>kq. quant_cell N g x = Inr kq"
proof -
  let ?rows = "view_rows (gm_n_kv g) (gm_head_dim g) x"
  have "mapR (quantize_q8 N) ?rows = Inr (map (\<lambda>r. projr (quantize_q8 N r)) ?rows)"
  proof (rule mapR_total)
    fix r assume "r \<in> set ?rows"
    then have "length r = gm_head_dim g" using view_rows_elems [OF assms(1)] by blast
    then show "quantize_q8 N r = Inr (projr (quantize_q8 N r))" using assms(2) by (simp add: quantize_q8_def Let_def)
  qed
  then show ?thesis using assms(1) by (simp add: quant_cell_def np_reshape_def)
qed

section \<open>Appends that succeed\<close>

text \<open>A token of the right shape for the next position of a sequence with room, without mRoPE tables.\<close>

definition ready :: "('f, 'd) np \<Rightarrow> ('f, 'd) qsa_paged \<Rightarrow> nat \<Rightarrow> ('f, 'd) stored \<Rightarrow> nat \<Rightarrow> bool" where
  "ready N s q x p \<longleftrightarrow> (case x of (k, v, raw, gamma) \<Rightarrow> let g = qp_geom s in
     q < length (qp_table s) \<and> qp_n_kv s ! q = int p \<and> p < length (qp_table s ! q) * pl_block_size (qp_layout s)
     \<and> length k = gm_n_kv g * gm_head_dim g \<and> length v = gm_n_kv g * gm_head_dim g \<and> gm_head_dim g mod KV_Q8_GROUP = 0
     \<and> length raw = gm_idx_dim g \<and> length gamma = gm_idx_dim g \<and> qp_mrope s = None \<and> 0 \<le> qp_pos_base s ! q
     \<and> (\<exists>half n. rope_ok (qp_cos s) (qp_sin s) half n \<and> 2 * half \<le> gm_idx_dim g \<and> qp_pos_base s ! q + int p < int n))"

lemma append_block_run:
  assumes s: "qp_ok s" and N: "np_bytes_ok N" and y: "block_row N s q (qp_tail s ! q) raw gamma (p div gm_idx_block (qp_geom s)) = Inr y"
    and at: "row_at s q (p div gm_idx_block (qp_geom s))" and len: "length y = gm_idx_dim (qp_geom s)" "length (qp_dead s ! q) = gm_idx_dim (qp_geom s)"
  shows "\<exists>s'. append_block N q raw gamma (int p) s = (Inr (), s')"
proof -
  let ?b = "p div gm_idx_block (qp_geom s)"
  have row: "bindR (qp_thw s q (int (?b * gm_idx_block (qp_geom s))))
      (apply_rope_table N (rms_double N (block_mean N (gm_idx_block (qp_geom s)) (gm_idx_dim (qp_geom s)) (qp_tail s ! q) raw) gamma (gm_eps (qp_geom s)))
        (qp_pos_base s ! q + int (?b * gm_idx_block (qp_geom s))) (qp_cos s) (qp_sin s)) = Inr y"
    using y by (simp add: block_row_def Let_def)
  define t where "t = qp_put [row_w N s q ?b y] s"
  have w: "write_pooled N q (int ?b) y s = (Inr (), t)" using write_pooled_Inr [OF s N] at len(1) by (simp add: t_def)
  have okt: "qp_ok t" unfolding t_def by (rule qp_ok_put [OF s row_w_ok [OF s N at len(1)]])
  have "\<exists>u. (if fst (indexer_addr (qp_layout s) (int ?b + 1)) = fst (indexer_addr (qp_layout s) (int ?b))
        then write_pooled N q (int ?b + 1) (qp_dead s ! q) else retA ()) t = (Inr (), u)"
  proof (cases "fst (indexer_addr (qp_layout s) (int ?b + 1)) = fst (indexer_addr (qp_layout s) (int ?b))")
    case True
    have "int ?b + 1 = int (?b + 1)" by simp
    then have "(?b + 1) div pl_n_states (qp_layout s) = ?b div pl_n_states (qp_layout s)"
      using True indexer_addr_run(1) [OF qp_ok_lay(1) [OF s]] by (metis fst_conv of_nat_eq_iff)
    then have "row_at t q (?b + 1)" using at by (simp add: row_at_def t_def)
    then show ?thesis using True write_pooled_Inr [OF okt N, of q "?b + 1" "qp_dead s ! q"] len(2)
      by (simp add: t_def add.commute)
  qed (simp add: act_run)
  then obtain u where u: "(if fst (indexer_addr (qp_layout s) (int ?b + 1)) = fst (indexer_addr (qp_layout s) (int ?b))
        then write_pooled N q (int ?b + 1) (qp_dead s ! q) else retA ()) t = (Inr (), u)" by blast
  show ?thesis
    unfolding append_block_def withA_def Let_def zdiv_int [symmetric] of_nat_mult [symmetric]
    by (simp only: bindA_liftA row prod.case sum.case bindA_run [of "write_pooled N q (int ?b) y"] w
        bindA_run [of "if c then f else g" for c f g] u) (simp add: act_run)
qed

text \<open>The rows an append computes exist and have the width of the indexer.\<close>

lemma ready_rows:
  assumes s: "qp_ok s" and r: "ready N s q (k, v, raw, gamma) p"
  shows "\<exists>y0. dead_row N s raw gamma = Inr y0 \<and> length y0 = gm_idx_dim (qp_geom s)"
    "\<exists>y. block_row N s q (qp_tail s ! q) raw gamma (p div gm_idx_block (qp_geom s)) = Inr y \<and> length y = gm_idx_dim (qp_geom s)"
proof -
  let ?g = "qp_geom s"
  obtain half n where rope: "rope_ok (qp_cos s) (qp_sin s) half n" "2 * half \<le> gm_idx_dim ?g" "qp_pos_base s ! q + int p < int n"
    using r by (auto simp: ready_def Let_def)
  have b: "0 \<le> qp_pos_base s ! q" "qp_mrope s = None" "length raw = gm_idx_dim ?g" "length gamma = gm_idx_dim ?g" "q < length (qp_table s)"
    using r by (simp_all add: ready_def Let_def)
  show "\<exists>y0. dead_row N s raw gamma = Inr y0 \<and> length y0 = gm_idx_dim ?g"
    using rope_run [OF rope(1), of 0 "rms_double N raw gamma (gm_eps ?g)" N] rope(2,3) b by (simp add: dead_row_def)
  let ?cell0 = "p div gm_idx_block ?g * gm_idx_block ?g"
  have c: "?cell0 \<le> p" by (rule div_times_less_eq_dividend)
  have "q < length (qp_tail s)" using s b(5) by (simp add: qp_ok_def)
  then have "qp_tail s ! q \<in> set (qp_tail s)" by simp
  then have "\<forall>t \<in> set (qp_tail s ! q). length t = gm_idx_dim ?g" using s by (simp add: qp_ok_def)
  then have m: "length (block_mean N (gm_idx_block ?g) (gm_idx_dim ?g) (qp_tail s ! q) raw) = gm_idx_dim ?g" by (rule length_block_mean [OF _ b(3)])
  have "0 \<le> qp_pos_base s ! q + int ?cell0" "qp_pos_base s ! q + int ?cell0 < int n" using b(1) rope(3) c by linarith+
  from rope_run [OF rope(1) this, of "rms_double N (block_mean N (gm_idx_block ?g) (gm_idx_dim ?g) (qp_tail s ! q) raw) gamma (gm_eps ?g)" N]
  show "\<exists>y. block_row N s q (qp_tail s ! q) raw gamma (p div gm_idx_block ?g) = Inr y \<and> length y = gm_idx_dim ?g"
    using rope(2) m b by (simp add: block_row_def Let_def qp_thw_def)
qed

lemma append_indexer_run:
  assumes s: "qp_ok s" and N: "np_bytes_ok N" and dead: "dead_ok s" and pooled: "pl_pooled (qp_layout s)"
    and r: "ready N s0 q (k, v, raw, gamma) p" and st: "stat s = stat s0" "qp_n_kv s ! q = int p + 1"
    and tail: "qp_tail s = qp_tail s0" and ok0: "qp_ok s0"
  shows "\<exists>s'. append_indexer N q raw gamma (int p) s = (Inr (), s')"
proof -
  let ?g = "qp_geom s" and ?r = "gm_idx_block (qp_geom s)" and ?slot = "p mod gm_idx_block (qp_geom s)"
  have slot: "nat (int p mod int ?r) = ?slot" by (simp flip: of_nat_mod)
  note cg = stat_cong [OF st(1)]
  have b: "q < length (qp_table s)" "length raw = gm_idx_dim ?g" "length gamma = gm_idx_dim ?g" "p < length (qp_table s ! q) * pl_block_size (qp_layout s)"
    using r st(1) by (simp_all add: ready_def Let_def stat_def)
  obtain y0 y where y0: "dead_row N s raw gamma = Inr y0" "length y0 = gm_idx_dim ?g"
    and y: "block_row N s q (qp_tail s ! q) raw gamma (p div ?r) = Inr y" "length y = gm_idx_dim ?g"
    using ready_rows [OF ok0 r] by (auto simp: cg tail)
  have m: "pl_block_size (qp_layout s) = pl_n_states (qp_layout s) * ?r" "0 < ?r" by (rule qp_ok_lay [OF s])+
  have "p div ?r div pl_n_states (qp_layout s) = p div pl_block_size (qp_layout s)" unfolding m(1) mult.commute [of "pl_n_states (qp_layout s)"] div_mult2_eq ..
  also have "\<dots> < length (qp_table s ! q)" using b(4) by (simp add: less_mult_imp_div_less)
  finally have at: "row_at s q (p div ?r)" "row_at s q 0" using b(1) pooled by (auto simp: row_at_def)
  define t where "t = s\<lparr>qp_tail := (qp_tail s)[q := tail_after N s q raw p]\<rparr>"
  have okt: "qp_ok t" unfolding t_def by (rule qp_ok_tail [OF s b(2)])
  have stt: "stat t = stat s" by (simp add: t_def stat_def)
  have lens: "length (qp_n_kv s) = length (qp_table s)" "length (qp_tail s) = length (qp_table s)" "length (qp_dead s) = length (qp_table s)"
    using s by (simp_all add: qp_ok_def)
  have f: "bindR (raise_if (\<not> pl_pooled (qp_layout s)) (RuntimeError ''draft page has no indexer'')) (\<lambda>_.
              bindR (np_at (qp_n_kv s) q) (\<lambda>n. raise_if (int p + 1 \<noteq> n) (ValueError ''indexer pos must be the cell just appended''))) = Inr ()"
      "np_vector (gm_idx_dim ?g) raw = Inr raw" "np_vector (gm_idx_dim ?g) gamma = Inr gamma"
    using b pooled lens st(2) by (simp_all add: np_vector_def)
  have tl: "(if ?slot < ?r - 1 then modA (\<lambda>s. s\<lparr>qp_tail := (qp_tail s)[q := (qp_tail s ! q)[?slot := map (to_f N) raw]]\<rparr>) else retA ()) s = (Inr (), t)"
    by (simp add: t_def act_run tail_after_def Let_def)
  have run: "append_indexer N q raw gamma (int p) s = bindA (if int p = 0 then append_dead N q raw gamma else retA ())
      (\<lambda>_. if ?slot = ?r - 1 then append_block N q raw gamma (int p) else retA ()) t"
    unfolding append_indexer_def withA_def Let_def slot bindA_liftA f sum.case by (rule bindA_step) (rule tl)
  obtain u where u: "(if int p = 0 then append_dead N q raw gamma else retA ()) t = (Inr (), u)" and oku: "qp_ok u" "stat u = stat s"
    and ud: "length (qp_dead u ! q) = gm_idx_dim ?g" "qp_tail u = qp_tail t"
  proof (cases "p = 0")
    case True
    let ?u = "qp_put [row_w N t q 0 y0] t\<lparr>qp_dead := (qp_dead t)[q := y0], qp_have_dead := (qp_have_dead t)[q := True]\<rparr>"
    have at0: "row_at t q 0" "length y0 = gm_idx_dim (qp_geom t)" "dead_row N t raw gamma = Inr y0" using at(2) y0 stat_cong [OF stt] by simp_all
    have "append_dead N q raw gamma t = (Inr (), ?u)" unfolding append_dead_Inr [OF okt N] using at0 by blast
    moreover have "qp_ok (qp_put [row_w N t q 0 y0] t)" by (rule qp_ok_put [OF okt row_w_ok [OF okt N at0(1,2)]])
    then have "qp_ok ?u" by (simp add: qp_ok_def)
    moreover have "length (qp_dead ?u ! q) = gm_idx_dim ?g" using b(1) lens y0(2) by (simp add: t_def)
    ultimately show ?thesis using True that [of ?u] stt by (simp add: stat_def)
  next
    case False
    have "qp_dead s ! q \<in> set (qp_dead s)" using b(1) lens by simp
    then have "length (qp_dead t ! q) = gm_idx_dim ?g" using dead unfolding dead_ok_def t_def by simp
    then show ?thesis using False that [of t] okt stt by (simp add: act_run)
  qed
  have "\<exists>s'. (if ?slot = ?r - 1 then append_block N q raw gamma (int p) else retA ()) u = (Inr (), s')"
  proof (cases "?slot = ?r - 1")
    case True
    have tlu: "qp_tail u ! q = qp_tail s ! q" using True b(1) lens by (simp add: ud(2) t_def tail_after_def Let_def)
    note cu = stat_cong [OF oku(2)]
    have "\<exists>s'. append_block N q raw gamma (int p) u = (Inr (), s')"
      by (rule append_block_run [OF oku(1) N, of q raw gamma p y]) (simp_all add: cu tlu y at ud(1))
    then show ?thesis using True by simp
  qed (simp add: act_run)
  then show ?thesis unfolding run bindA_run u prod.case sum.case by blast
qed

lemma append_token_run:
  assumes s: "qp_ok s" and N: "np_bytes_ok N" and dead: "dead_ok s" and pooled: "pl_pooled (qp_layout s)"
    and r: "ready N s q (k, v, raw, gamma) p"
  shows "\<exists>s'. append_token N q k v (Some raw) (Some gamma) (int p) s = (Inr (), s')"
proof -
  have b: "q < length (qp_table s)" "qp_n_kv s ! q = int p" "p < length (qp_table s ! q) * pl_block_size (qp_layout s)"
      "length k = gm_n_kv (qp_geom s) * gm_head_dim (qp_geom s)" "length v = gm_n_kv (qp_geom s) * gm_head_dim (qp_geom s)"
      "gm_head_dim (qp_geom s) mod KV_Q8_GROUP = 0"
    using r by (simp_all add: ready_def Let_def)
  obtain kq vq where kv: "quant_cell N (qp_geom s) k = Inr kq" "quant_cell N (qp_geom s) v = Inr vq" using quant_cell_run b(4-6) by metis
  have "p div pl_block_size (qp_layout s) < length (qp_table s ! q)" using b(3) by (simp add: less_mult_imp_div_less)
  then have at: "cell_at s q (int p)" using b(1) by (simp add: cell_at_def flip: of_nat_div)
  define t where "t = qp_put (put_cell N q (int p) kq vq s) s\<lparr>qp_pos := (qp_pos s)[q := int p], qp_n_kv := (qp_n_kv s)[q := int p + 1]\<rparr>"
  have t: "append_kv N q k v (int p) s = (Inr (), t)" unfolding append_kv_Inr [OF s N] t_def using b(1) b(2) [symmetric] at kv by blast
  have w: "writes_ok s (put_cell N q (int p) kq vq s)" by (rule put_cell_ok [OF s N at kv])
  have okt: "qp_ok t" using qp_ok_put [OF s w] unfolding t_def
    by (auto simp: qp_ok_def dest!: set_update_subset_insert [THEN subsetD])
  have "\<exists>s'. append_indexer N q raw gamma (int p) t = (Inr (), s')"
    by (rule append_indexer_run [OF okt N _ _ r _ _ _ s]) (use dead pooled s b(1) in \<open>simp_all add: t_def dead_ok_def stat_def qp_ok_def\<close>)
  moreover have "pl_pooled (qp_layout t)" using pooled by (simp add: t_def)
  ultimately show ?thesis by (simp add: append_token_def bindA_run t withA_def)
qed

lemma create_tables:
  assumes c: "qp_create N g table bs pooled base None = Inr s" and q: "q < length table"
  shows "qp_mrope s = None" "gm_head_dim g mod KV_Q8_GROUP = 0"
    "\<exists>n. rope_ok (qp_cos s) (qp_sin s) (gm_n_rot g div 2) n \<and> qp_pos_base s ! q + int (length (table ! q) * nat bs) < int n"
proof -
  obtain lay ps where l: "make_layout g bs pooled = Inr lay" and len: "length ps = length table"
    and shape: "\<not> (length table < 1 \<or> length (hd table) < 1 \<or> (\<exists>row \<in> set table. length row \<noteq> length (hd table)))"
    and eq: "s = qp_initial N g table lay ps None" by (rule create_eq [OF c])
  let ?tabs = "rope_tables N (nat (int (length (hd table)) * int (pl_block_size lay) + fold max (tl ps) (hd ps) + 1)) (gm_n_rot g div 2) (gm_rope_base g)"
  have tabs: "qp_cos s = fst ?tabs" "qp_sin s = snd ?tabs" "qp_mrope s = None" and psl: "length ps = length table" "qp_pos_base s = ps"
    by (simp_all add: eq qp_initial_def len)
  have rect: "\<not> (\<exists>row \<in> set table. length row \<noteq> length (hd table))" using shape by blast
  show "qp_mrope s = None" by (rule tabs)
  show "gm_head_dim g mod KV_Q8_GROUP = 0" using l unfolding make_layout_Inr by blast
  let ?n = "nat (int (length (hd table)) * int (pl_block_size lay) + fold max (tl ps) (hd ps) + 1)"
  have row: "length (table ! q) = length (hd table)" using rect nth_mem [OF q] by blast
  have bs: "pl_block_size lay = nat bs" using l unfolding make_layout_Inr Let_def by simp
  have "ps ! q \<in> set ps" using psl(1) q by simp
  then have "ps ! q \<le> fold max (tl ps) (hd ps)" by (intro fold_max_upper) (cases ps, auto)
  then have "ps ! q + int (length (table ! q) * nat bs) < int ?n" unfolding row bs by (simp add: of_nat_mult)
  then show "\<exists>n. rope_ok (qp_cos s) (qp_sin s) (gm_n_rot g div 2) n \<and> qp_pos_base s ! q + int (length (table ! q) * nat bs) < int n"
    unfolding tabs psl(2) by - (rule exI, rule conjI, rule rope_tables_ok, assumption)
qed

section \<open>Ordered appends\<close>

text \<open>Tokens of the right shape, each at the next position of its sequence, inside the block table.\<close>

definition token_shape :: "'d qsa_geom \<Rightarrow> ('f, 'd) stored \<Rightarrow> bool" where
  "token_shape g x \<longleftrightarrow> (case x of (k, v, raw, gamma) \<Rightarrow> length k = gm_n_kv g * gm_head_dim g \<and> length v = gm_n_kv g * gm_head_dim g
     \<and> length raw = gm_idx_dim g \<and> length gamma = gm_idx_dim g)"

definition ordered_ops :: "'d qsa_geom \<Rightarrow> int list list \<Rightarrow> nat \<Rightarrow> (nat \<times> ('f, 'd) stored \<times> int) list \<Rightarrow> bool" where
  "ordered_ops g table bs ops \<longleftrightarrow> (\<forall>i < length ops. case ops ! i of (q, x, pos) \<Rightarrow>
     q < length table \<and> token_shape g x \<and> pos = int (length (history q (take i ops))) \<and> length (history q (take i ops)) < length (table ! q) * bs)"

lemma ordered_ops_snoc:
  "ordered_ops g table bs (ops @ [(q, x, pos)]) \<longleftrightarrow> ordered_ops g table bs ops
     \<and> q < length table \<and> token_shape g x \<and> pos = int (length (history q ops)) \<and> length (history q ops) < length (table ! q) * bs"
  unfolding ordered_ops_def by (auto simp: nth_append less_Suc_eq)

lemma ordered_appends_run:
  assumes c: "qp_create N g table bs True base None = Inr s0" and N: "np_bytes_ok N" and rot: "2 * (gm_n_rot g div 2) \<le> gm_idx_dim g"
    and base: "\<forall>b \<in> set (qp_pos_base s0). 0 \<le> b" and ops: "ordered_ops g table (nat bs) ops"
  shows "\<exists>us s. mapA (append_stored N) ops s0 = (Inr us, s)"
  using ops
proof (induction ops rule: rev_induct)
  case (snoc op ops)
  obtain q x pos where op: "op = (q, x, pos)" by (metis prod_cases3)
  obtain k v raw gamma where x: "x = (k, v, raw, gamma)" by (metis prod_cases4)
  have o1: "ordered_ops g table (nat bs) ops" "q < length table" "token_shape g x" "pos = int (length (history q ops))"
      "length (history q ops) < length (table ! q) * nat bs" using snoc.prems by (simp_all add: op ordered_ops_snoc)
  obtain us s where run: "mapA (append_stored N) ops s0 = (Inr us, s)" using snoc.IH o1(1) by blast
  note k = created_run [OF c N run] and t = create_tables [OF c o1(2)]
  have st: "qp_cos s = qp_cos s0" "qp_sin s = qp_sin s0" "qp_pos_base s = qp_pos_base s0" "qp_mrope s = qp_mrope s0" "qp_table s = qp_table s0"
      "qp_layout s = qp_layout s0" using k(2) by (simp_all add: stat_def)
  have row: "length (qp_table s0 ! q) = length (table ! q)" using create_ok(9) [OF c] o1(2) by simp
  have bs: "pl_block_size (qp_layout s0) = nat bs" using create_ok(8) [OF c] unfolding make_layout_Inr Let_def by simp
  have "q < length (qp_pos_base s0)" using k(1,7) o1(2) by (simp add: qp_ok_def flip: st(3))
  then have b0: "0 \<le> qp_pos_base s0 ! q" using base by simp
  obtain n where n: "rope_ok (qp_cos s0) (qp_sin s0) (gm_n_rot g div 2) n" "qp_pos_base s0 ! q + int (length (table ! q) * nat bs) < int n"
    using t(3) by blast
  have "qp_pos_base s0 ! q + int (length (history q ops)) < int n" using n(2) o1(5) by linarith
  then have "ready N s q (k, v, raw, gamma) (length (history q ops))"
    unfolding ready_def Let_def prod.case k(6) st row bs using o1(2,3,5) k(7) holdsD(1) [OF k(4) [OF o1(2)]] t(1,2) b0 n(1) rot
    by (auto simp: token_shape_def x st(5))
  then obtain s' where "append_stored N op s = (Inr (), s')"
    using append_token_run [OF k(1) N k(3,5)] unfolding append_stored_def op x o1(4) prod.case by blast
  then have "mapA (append_stored N) [op] s = (Inr [()], s')" by (simp add: bindA_run act_run)
  then show ?case using run unfolding mapA_append_Inr by blast
qed (simp add: act_run)

section \<open>Queries that answer\<close>

definition query_shape :: "'d qsa_geom \<Rightarrow> ('f, 'd) prepared \<Rightarrow> bool" where
  "query_shape g tok \<longleftrightarrow> 0 < gm_n_kv g \<and> length (tk_q tok) mod gm_n_kv g = 0
     \<and> (\<forall>row \<in> set (tk_q tok). length row = gm_head_dim g) \<and> length (tk_q_idx tok) = gm_idx_n_head g * gm_idx_dim g
     \<and> length (tk_q_full tok) = length (tk_q tok) \<and> (\<forall>row \<in> set (tk_q_full tok). length row = 2 * gm_head_dim g)"

lemma scores_run:
  assumes s: "qp_ok s" and h: "holds N s q h" and q: "q < length (qp_table s)" and n: "0 < n" "n \<le> length h"
    and len: "length q_idx = gm_idx_n_head (qp_geom s) * gm_idx_dim (qp_geom s)"
  shows "\<exists>sc. qp_scores N s q q_idx (int n) None = Inr sc \<and> length sc = n"
proof -
  let ?r = "gm_idx_block (qp_geom s)"
  have div: "int n div int ?r = int (n div ?r)" by (simp add: zdiv_int)
  have nk: "np_at (qp_n_kv s) q = Inr (int (length h))" using s q holdsD(1) [OF h] by (simp add: qp_ok_def)
  have "qp_have_dead s ! q" using holdsD(6) [OF h] n by auto
  moreover have "mapR (\<lambda>b. read_pooled N s q (int b)) [0..<n div ?r] = Inr (map (\<lambda>b. projr (read_pooled N s q (int b))) [0..<n div ?r])"
  proof (rule mapR_total)
    fix b assume "b \<in> set [0..<n div ?r]"
    then have "b < length h div ?r" using div_le_mono [OF n(2), of ?r] by simp
    then show "read_pooled N s q (int b) = Inr (projr (read_pooled N s q (int b)))" using holdsD(4,5) [OF h] by fastforce
  qed
  ultimately show ?thesis using n nk len unfolding qp_scores_def Let_def div
    by (simp add: np_reshape_def indexer_scores_def raise_if_def Let_def)
qed

lemma gathered_shape:
  assumes h: "holds N s q h" and ids: "\<forall>i \<in> set ids. i < length h" and g: "qp_gather N s q (map int ids) = Inr (k, v)"
  shows "heads_shape (gm_n_kv (qp_geom s)) (gm_head_dim (qp_geom s)) k" "heads_shape (gm_n_kv (qp_geom s)) (gm_head_dim (qp_geom s)) v"
    and "length v = length k"
proof -
  obtain cells where c: "mapR (\<lambda>cell. bindR (read_kv_cell N s q cell) (\<lambda>heads.
              Inr (map (\<lambda>(k, v). dequant_q8 N (fst k) (snd k)) heads, map (\<lambda>(k, v). dequant_q8 N (fst v) (snd v)) heads))) (map int ids) = Inr cells"
    and kv: "k = map fst cells" "v = map snd cells"
    using g by (auto simp: qp_gather_def bindR_eq_Inr)
  show "length v = length k" by (simp add: kv)
  have one: "heads_shape (gm_n_kv (qp_geom s)) (gm_head_dim (qp_geom s)) [fst c]
           \<and> heads_shape (gm_n_kv (qp_geom s)) (gm_head_dim (qp_geom s)) [snd c]" if "c \<in> set cells" for c
  proof -
    obtain i where i: "i < length cells" "c = cells ! i" using \<open>c \<in> set cells\<close> by (metis in_set_conv_nth)
    then have i': "i < length ids" "ids ! i < length h" using mapR_Inr [OF c] ids by simp_all
    obtain kq vq where q: "quant_cell N (qp_geom s) (fst (h ! (ids ! i))) = Inr kq" "quant_cell N (qp_geom s) (fst (snd (h ! (ids ! i)))) = Inr vq"
        "read_kv_cell N s q (int (ids ! i)) = Inr (zip kq vq)"
      using holdsD(2,3) [OF h i'(2)] by (auto simp: ref_cell_def bindR_eq_Inr)
    have "cells ! i = (map (\<lambda>(k, v). dequant_q8 N (fst k) (snd k)) (zip kq vq), map (\<lambda>(k, v). dequant_q8 N (fst v) (snd v)) (zip kq vq))"
      using mapR_Inr [OF c] i'(1) q(3) by (auto simp: bindR_eq_Inr)
    then show ?thesis using i(2) dequant_cell_shape [OF q(1,2)] by simp
  qed
  then show "heads_shape (gm_n_kv (qp_geom s)) (gm_head_dim (qp_geom s)) k" "heads_shape (gm_n_kv (qp_geom s)) (gm_head_dim (qp_geom s)) v"
    by (auto simp: heads_shape_def kv)
qed

lemma answer_run:
  assumes s: "qp_ok s" and h: "holds N s q h" and q: "q < length (qp_table s)" and p: "0 \<le> tk_pos tok" "tk_pos tok < int (length h)"
    and sh: "query_shape (qp_geom s) tok" and len: "length h \<le> 2 ^ 32"
  shows "\<exists>a. qp_answer N q tok s = Inr a"
proof -
  define n where "n = nat (tk_pos tok + 1)"
  have n: "tk_pos tok + 1 = int n" "0 < n" "n \<le> length h" using p by (simp_all add: n_def)
  obtain sc where sc: "qp_scores N s q (tk_q_idx tok) (int n) None = Inr sc" "length sc = n"
    using scores_run [OF s h q n(2,3)] sh unfolding query_shape_def by blast
  obtain w where w: "width_at (qp_geom s) (int n) = Inr w" by (simp add: width_at_def selection_width_def)
  let ?ids = "radix_sel N sc (min (nat w) n)"
  have sel: "qp_select N s q (tk_q_idx tok) (int n) = Inr ?ids"
    using topk_radix_run [of sc N w] n(3) len sc by (simp add: qp_select_def w)
  have "i < length h" if "i \<in> set ?ids" for i using that sc(2) n(3) by (auto simp: radix_sel_def split: if_splits)
  then have "\<exists>c. read_kv_cell N s q i = Inr c" if "i \<in> set (map int ?ids)" for i using that holdsD(2,3) [OF h] by fastforce
  then have "mapR (\<lambda>cell. bindR (read_kv_cell N s q cell) (\<lambda>heads.
              Inr (map (\<lambda>(k, v). dequant_q8 N (fst k) (snd k)) heads, map (\<lambda>(k, v). dequant_q8 N (fst v) (snd v)) heads))) (map int ?ids)
      = Inr (map (\<lambda>cell. case projr (read_kv_cell N s q cell) of heads \<Rightarrow>
              (map (\<lambda>(k, v). dequant_q8 N (fst k) (snd k)) heads, map (\<lambda>(k, v). dequant_q8 N (fst v) (snd v)) heads)) (map int ?ids))"
    by (intro mapR_total) fastforce
  then obtain k v where g: "qp_gather N s q (map int ?ids) = Inr (k, v)" by (auto simp: qp_gather_def)
  have cells: "\<forall>i \<in> set ?ids. i < length h" using sc(2) n(3) by (auto simp: radix_sel_def split: if_splits)
  obtain attn wt where a: "attend N (tk_q tok) k v (gm_n_kv (qp_geom s)) = Inr (attn, wt)"
      "length attn = length (tk_q tok)" "\<forall>row \<in> set attn. length row = gm_head_dim (qp_geom s)"
    using attend_run [OF gathered_shape [OF h cells g], of "tk_q tok" N] sh by (auto simp: query_shape_def)
  obtain y where "gate_fp16 N attn (tk_q_full tok) = Inr y"
    using gate_run [OF a(2) _ a(3), of "tk_q_full tok" N] sh by (auto simp: query_shape_def)
  then show ?thesis using a(1) by (simp add: qp_answer_def n(1) sel qp_attend_ids_def g)
qed

text \<open>C19. On a created pooled cache without mRoPE tables, with non-negative position bases and the rotary width
  inside the indexer row, tokens of the right shape appended in order to sequences with room never raise,
  however the sequences interleave, and afterwards every query of the right shape (a multiple of the KV
  heads of rows of the head width, an indexer query of the indexer's size, a gate row of twice the head
  width per head) at a position its sequence holds selects, attends and gates without raising.\<close>

theorem ordered_appends_never_raise:
  "qp_create N g table bs True base None = Inr s0 \<Longrightarrow> np_bytes_ok N \<Longrightarrow> 2 * (gm_n_rot g div 2) \<le> gm_idx_dim g \<Longrightarrow>
   (\<forall>b \<in> set (qp_pos_base s0). 0 \<le> b) \<Longrightarrow> ordered_ops g table (nat bs) ops \<Longrightarrow>
     \<exists>us s. mapA (append_stored N) ops s0 = (Inr us, s)
       \<and> (\<forall>q tok. q < length table \<and> query_shape g tok \<and> 0 \<le> tk_pos tok \<and> tk_pos tok < int (length (history q ops))
            \<and> length (history q ops) \<le> 2 ^ 32 \<longrightarrow> (\<exists>a. qp_answer N q tok s = Inr a))"
proof -
  assume c: "qp_create N g table bs True base None = Inr s0" and N: "np_bytes_ok N" and rot: "2 * (gm_n_rot g div 2) \<le> gm_idx_dim g"
    and base: "\<forall>b \<in> set (qp_pos_base s0). 0 \<le> b" and ops: "ordered_ops g table (nat bs) ops"
  obtain us s where run: "mapA (append_stored N) ops s0 = (Inr us, s)" using ordered_appends_run [OF c N rot base ops] by blast
  note k = created_run [OF c N run]
  have "\<exists>a. qp_answer N q tok s = Inr a" if "q < length table" "query_shape g tok" "0 \<le> tk_pos tok" "tk_pos tok < int (length (history q ops))"
      "length (history q ops) \<le> 2 ^ 32" for q tok
    using answer_run [OF k(1) k(4) [OF that(1)] _ that(3,4) _ that(5)] that(1,2) k(6,7) by simp
  then show ?thesis using run by blast
qed

section \<open>A concrete cache\<close>

definition demo_geom :: "(32 word) qsa_geom" where
  "demo_geom = \<lparr>gm_n_head = 1, gm_n_kv = 1, gm_head_dim = 64, gm_n_rot = 0, gm_idx_n_head = 1, gm_idx_dim = 1,
     gm_idx_block = 2, gm_idx_top_k = 2, gm_rope_base = 0, gm_eps = 0, gm_page_size = 2, gm_hidden = 1\<rparr>"

definition demo_token :: "32 word \<Rightarrow> (32 word, 32 word) stored" where
  "demo_token c = (replicate 64 c, replicate 64 c, [c], [1])"

definition demo_ops :: "(nat \<times> (32 word, 32 word) stored \<times> int) list" where
  "demo_ops = [(0, demo_token 3, 0), (1, demo_token 5, 0), (0, demo_token 4, 1)]"

lemma word_bytes32:
  "ucast (ucast x :: 8 word) OR push_bit 8 (ucast (ucast (drop_bit 8 x) :: 8 word)) OR push_bit 16 (ucast (ucast (drop_bit 16 x) :: 8 word))
     OR push_bit 24 (ucast (ucast (drop_bit 24 x) :: 8 word)) = x" (is "?l = _") for x :: "32 word"
proof (rule bit_word_eqI)
  fix n assume "n < LENGTH(32)"
  then have n: "n < 32" by simp
  define a b c where abc: "a = n - 8" "b = n - 16" "c = n - 24"
  consider "n < 8" | "n = 8 + a" "a < 8" | "n = 16 + b" "b < 8" | "n = 24 + c" "c < 8" unfolding abc using n by linarith
  then show "bit ?l n = bit x n" by cases (simp_all add: bit_simps)
qed

lemma word_bytes16: "ucast (ucast (take_bit 16 x) :: 8 word) OR push_bit 8 (ucast (ucast (drop_bit 8 (take_bit 16 x)) :: 8 word)) = take_bit 16 x" (is "?l = ?r")
  for x :: "32 word"
proof (rule bit_word_eqI)
  fix n assume "n < LENGTH(32)"
  define m where "m = n - 8"
  consider "n < 8" | "n = 8 + m" "m < 8" | "16 \<le> n" unfolding m_def by linarith
  then show "bit ?l n = bit ?r n"
    by cases (auto simp: bit_simps)
qed

lemma word_np_bytes: "np_bytes_ok word_np"
  unfolding np_bytes_ok_def word_np_def by (simp add: word_bytes16 word_bytes32 numeral_3_eq_3 numeral_2_eq_2)

lemma demo_create: "\<exists>s. qp_create word_np demo_geom [[2, 0], [1, 3]] 2 True None None = Inr s"
  by (simp add: qp_create_def make_layout_def demo_geom_def kv_bytes_per_cell_def KV_Q8_GROUP_def Let_def raise_if_def)

lemma demo_base: "qp_create word_np demo_geom [[2, 0], [1, 3]] 2 True None None = Inr s \<Longrightarrow> qp_pos_base s = [0, 0]"
  by (auto simp: qp_create_def make_layout_def demo_geom_def kv_bytes_per_cell_def KV_Q8_GROUP_def Let_def raise_if_def)

lemma demo_ordered: "ordered_ops demo_geom [[2, 0], [1, 3]] (nat 2) demo_ops"
  by (simp add: ordered_ops_def demo_ops_def demo_token_def token_shape_def demo_geom_def history_def All_less_Suc)

end
