(* ===== verification/Qsa_State_Thms.thy ===== *)
theory Qsa_State_Thms
  imports Qsa_State_Props Qsa_Progress
begin

text \<open>
  The paged cache refines the single-sequence layer: a layer fed the history of one paged sequence selects
  and attends as the cache does. On the layer, a chunk prefill is the token-by-token prefill.
\<close>

section \<open>Answers as functions of the history\<close>

definition spec_scores :: "('f, 'd) np \<Rightarrow> 'd qsa_geom \<Rightarrow> (nat \<Rightarrow> 'f list) \<Rightarrow> 'f list \<Rightarrow> 'f list \<Rightarrow> nat \<Rightarrow> 'f list res" where
  "spec_scores N g rows dead x m = bindR (np_reshape (gm_idx_n_head g) (gm_idx_dim g) x) (\<lambda>q.
     Inr (indexer_scores N (map rows [0..<m div gm_idx_block g] @ [dead]) q m (Some (m div gm_idx_block g)) (gm_idx_block g) None))"

definition spec_select :: "('f, 'd) np \<Rightarrow> 'd qsa_geom \<Rightarrow> (nat \<Rightarrow> 'f list) \<Rightarrow> 'f list \<Rightarrow> 'f list \<Rightarrow> nat \<Rightarrow> nat list res" where
  "spec_select N g rows dead x m = bindR (width_at g (int m)) (\<lambda>width. bindR (spec_scores N g rows dead x m) (\<lambda>sc. topk_radix N sc width))"

definition spec_attend :: "('f, 'd) np \<Rightarrow> 'd qsa_geom \<Rightarrow> (nat \<Rightarrow> ((int list \<times> 'f list) \<times> (int list \<times> 'f list)) list) \<Rightarrow> 'f list list \<Rightarrow> nat list
    \<Rightarrow> ('f list list \<times> 'f list list) res" where
  "spec_attend N g cells q ids =
     attend N q (map (\<lambda>j. map (\<lambda>(k, v). dequant_q8 N (fst k) (snd k)) (cells j)) ids)
       (map (\<lambda>j. map (\<lambda>(k, v). dequant_q8 N (fst v) (snd v)) (cells j)) ids) (gm_n_kv g)"

lemma spec_select_cong:
  assumes "\<And>b. b < m div gm_idx_block g \<Longrightarrow> rows b = rows' b"
  shows "spec_select N g rows dead x m = spec_select N g rows' dead x m"
proof -
  have "map rows [0..<m div gm_idx_block g] = map rows' [0..<m div gm_idx_block g]" using assms by simp
  then show ?thesis by (simp only: spec_select_def spec_scores_def)
qed

lemma spec_attend_cong: "(\<And>j. j \<in> set ids \<Longrightarrow> cells j = cells' j) \<Longrightarrow> spec_attend N g cells q ids = spec_attend N g cells' q ids"
  unfolding spec_attend_def by (intro arg_cong2 [where f = "\<lambda>a b. attend N q a b (gm_n_kv g)"] map_cong) simp_all

lemma spec_select_bound: "spec_select N g rows dead x m = Inr ids \<Longrightarrow> i \<in> set ids \<Longrightarrow> i < m"
  using topk_radix_bound [of N _ _ ids i] by (fastforce simp: spec_select_def spec_scores_def bindR_eq_Inr length_indexer_scores)

lemma paged_select:
  assumes s: "qp_ok s" and h: "holds N s q h" and q: "q < length (qp_table s)" and m: "0 < m" "m \<le> length h"
  shows "qp_select N s q x (int m) = spec_select N (qp_geom s) (\<lambda>b. projr (ref_row N s q h b)) (qp_dead s ! q) x m"
proof -
  let ?r = "gm_idx_block (qp_geom s)"
  have div: "int m div int ?r = int (m div ?r)" by (simp add: zdiv_int)
  have nk: "np_at (qp_n_kv s) q = Inr (int (length h))" using s q holdsD(1) [OF h] by (simp add: qp_ok_def)
  have "qp_have_dead s ! q" using holdsD(6) [OF h] m by auto
  moreover have "mapR (\<lambda>b. read_pooled N s q (int b)) [0..<m div ?r] = Inr (map (\<lambda>b. projr (ref_row N s q h b)) [0..<m div ?r])"
  proof (rule mapR_total)
    fix b assume "b \<in> set [0..<m div ?r]"
    then have "b < length h div ?r" using div_le_mono [OF m(2), of ?r] by simp
    then show "read_pooled N s q (int b) = Inr (projr (ref_row N s q h b))" using holdsD(4,5) [OF h] by fastforce
  qed
  ultimately show ?thesis using m nk unfolding qp_select_def spec_select_def qp_scores_def spec_scores_def Let_def div
    by (simp add: raise_if_def)
qed

lemma paged_attend:
  assumes h: "holds N s q h" and ids: "\<forall>j \<in> set ids. j < length h"
  shows "qp_attend_ids N s q qv (map int ids) = bindR (spec_attend N (qp_geom s) (\<lambda>j. projr (ref_cell N s (h ! j))) qv ids) (\<lambda>(a, w). Inr a)"
proof -
  let ?f = "\<lambda>heads :: ((int list \<times> 'a list) \<times> (int list \<times> 'a list)) list. (map (\<lambda>(k, v). dequant_q8 N (fst k) (snd k)) heads, map (\<lambda>(k, v). dequant_q8 N (fst v) (snd v)) heads)"
  have "mapR (\<lambda>cell. bindR (read_kv_cell N s q cell) (\<lambda>heads. Inr (?f heads))) (map int ids)
      = Inr (map (\<lambda>c. ?f (projr (ref_cell N s (h ! nat c)))) (map int ids))"
  proof (rule mapR_total)
    fix c assume "c \<in> set (map int ids)"
    then obtain j where j: "c = int j" "j < length h" using ids by auto
    then show "bindR (read_kv_cell N s q c) (\<lambda>heads. Inr (?f heads)) = Inr (?f (projr (ref_cell N s (h ! nat c))))"
      using holdsD(2,3) [OF h j(2)] by auto
  qed
  then show ?thesis unfolding qp_attend_ids_def qp_gather_def spec_attend_def by (simp add: comp_def)
qed

lemma state_select:
  assumes h: "qs_holds N t h" and m: "0 < m" "m \<le> length h"
  shows "qs_select N t x (int m) = spec_select N (qs_geom t) (\<lambda>b. projr (qs_ref_row N t h b)) (qs_dead t) x m"
proof -
  let ?r = "gm_idx_block (qs_geom t)"
  have le: "m div ?r \<le> length h div ?r" by (rule div_le_mono [OF m(2)])
  have hd: "qs_have_dead t" using qs_holdsD(6) [OF h] m by auto
  have room: "m div ?r \<le> length (qs_pooled t)"
  proof (cases "m div ?r")
    case (Suc b)
    then show ?thesis using qs_holdsD(4) [OF h, of b] le by simp
  qed simp
  then have "take (m div ?r) (qs_pooled t) = map (\<lambda>b. projr (qs_ref_row N t h b)) [0..<m div ?r]"
    using qs_holdsD(5) [OF h] le by (intro nth_equalityI) simp_all
  then show ?thesis using hd room unfolding qs_select_def spec_select_def qs_scores_def spec_scores_def Let_def
    by (simp add: raise_if_def)
qed

lemma gather_run:
  assumes ok: "qs_ok t" and j: "j div gm_page_size (qs_geom t) < length (qs_page_table t)"
  shows "gather_cell N t (int j) = Inr (map (\<lambda>(k, v). dequant_q8 N (fst k) (snd k)) (qs_cell t j), map (\<lambda>(k, v). dequant_q8 N (fst v) (snd v)) (qs_cell t j))"
proof -
  let ?g = "qs_geom t"
  have slot: "nat (int j mod int (gm_page_size ?g)) = j mod gm_page_size ?g" by (simp flip: of_nat_mod)
  have phys: "qs_phys t (int j div int (gm_page_size ?g)) = Inr (j div gm_page_size ?g)"
    using qs_phys_run [OF ok, of "j div gm_page_size ?g"] j by (simp add: zdiv_int)
  have len: "length (get_slot (j div gm_page_size ?g) sl pool) = gm_n_kv ?g"
    if "pool_shape (length (qs_page_table t)) ?g pool" for sl and pool :: "'c list list list list"
    using pool_shapeD [OF that j] by (simp add: get_slot_def)
  have shapes: "pool_shape (length (qs_page_table t)) ?g (qs_k_q t)" "pool_shape (length (qs_page_table t)) ?g (qs_v_q t)"
      "pool_shape (length (qs_page_table t)) ?g (qs_k_scale t)" "pool_shape (length (qs_page_table t)) ?g (qs_v_scale t)"
    using ok by (simp_all add: qs_ok_def Let_def)
  show ?thesis unfolding gather_cell_def Let_def slot phys qs_cell_def
    by (simp, intro conjI nth_equalityI) (simp_all add: len [OF shapes(1)] len [OF shapes(2)] len [OF shapes(3)] len [OF shapes(4)])
qed

lemma state_attend:
  assumes ok: "qs_ok t" and h: "qs_holds N t h" and ids: "\<forall>j \<in> set ids. j < length h"
  shows "qs_attend_ids N qv t (map int ids) = spec_attend N (qs_geom t) (\<lambda>j. projr (qs_ref_cell N (qs_geom t) (h ! j))) qv ids"
proof -
  have "mapR (gather_cell N t) (map int ids) = Inr (map (\<lambda>c. (map (\<lambda>(k, v). dequant_q8 N (fst k) (snd k)) (qs_cell t (nat c)),
      map (\<lambda>(k, v). dequant_q8 N (fst v) (snd v)) (qs_cell t (nat c)))) (map int ids))"
    by (rule mapR_total) (use ids qs_holdsD(2) [OF h] gather_run [OF ok, of _ N] in auto)
  moreover have "projr (qs_ref_cell N (qs_geom t) (h ! j)) = qs_cell t j" if "j \<in> set ids" for j using qs_holdsD(3) [OF h] ids that by simp
  ultimately show ?thesis unfolding qs_attend_ids_def qs_gather_def spec_attend_def by (simp add: comp_def cong: map_cong)
qed

section \<open>Tables of any length agree\<close>

lemma tab_half_0: "tab_half (fst (rope_tables N n 0 base)) = 0"
  by (cases n) (simp_all add: rope_tables_def tab_half_def)

lemma rope_tables_rows:
  assumes "0 < half"
  shows "\<exists>c d. \<forall>n. rope_tables N n half base = (map c [0..<n], map d [0..<n]) \<and> (\<forall>p. length (c p) = half \<and> length (d p) = half)"
  using assms by (auto simp: rope_tables_def Let_def intro!: exI)

lemma tab_pick_rows:
  assumes c: "\<forall>p. length (c p) = half" and half: "0 < half" and pos: "0 \<le> pos" and x: "tab_pick (map c [0..<n]) (replicate half pos) = Inr xs"
  shows "pos < int n \<and> xs = c (nat pos)"
proof -
  have "\<exists>row. py_nth (map c [0..<n]) pos = Inr row" using x half by (cases half) (auto simp: tab_pick_def upt_conv_Cons bindR_eq_Inr simp del: upt_Suc)
  then have n: "pos < int n" using pos by (auto simp: py_nth_def py_pos_def split: if_splits)
  then have nth: "py_nth (map c [0..<n]) pos = Inr (c (nat pos))" using pos by (simp add: py_nth_nonneg)
  have "tab_pick (map c [0..<n]) (replicate half pos) = Inr (map (\<lambda>(d, p). c (nat pos) ! d) (zip [0..<half] (replicate half pos)))"
    unfolding tab_pick_def length_replicate by (rule mapR_total) (use c in \<open>auto simp: set_zip nth\<close>)
  moreover have "map (\<lambda>(d, p). c (nat pos) ! d) (zip [0..<half] (replicate half pos)) = c (nat pos)"
    by (rule nth_equalityI) (use c in simp_all)
  ultimately show ?thesis using n x by simp
qed

lemma tab_pick_row_run:
  assumes c: "\<forall>p. length (c p) = half" and pos: "0 \<le> pos" "pos < int n"
  shows "tab_pick (map c [0..<n]) (replicate half pos) = Inr (c (nat pos))"
proof (cases "half = 0")
  case True
  then have "c (nat pos) = []" using c by simp
  then show ?thesis using True by (simp add: tab_pick_def)
next
  case False
  obtain xs where xs: "tab_pick (map c [0..<n]) (replicate half pos) = Inr xs"
    using tab_pick_run [of "map c [0..<n]" half pos] c pos by auto
  show ?thesis using tab_pick_rows [OF c _ pos(1) xs] False xs by simp
qed

lemma rope_any_length:
  assumes z: "apply_rope_table N y pos (fst (rope_tables N n half base)) (snd (rope_tables N n half base)) None = Inr z"
    and n: "0 < n" and pos: "0 \<le> pos" "pos < int n'"
  shows "apply_rope_table N y pos (fst (rope_tables N n' half base)) (snd (rope_tables N n' half base)) None = Inr z"
proof (cases "half = 0")
  case True
  then have "tab_half (fst (rope_tables N n half base)) = 0" "tab_half (fst (rope_tables N n' half base)) = 0"
    using tab_half_0 [of N _ base] by simp_all
  then show ?thesis using z by (simp add: apply_rope_table_def)
next
  case False
  then obtain c d where cd: "\<And>n. rope_tables N n half base = (map c [0..<n], map d [0..<n])" "\<forall>p. length (c p) = half" "\<forall>p. length (d p) = half"
    using rope_tables_rows [of half N base] by auto
  have h: "tab_half (map c [0..<k]) = half" if "0 < k" for k using that cd(2) by (simp add: tab_half_def upt_conv_Cons)
  have n': "0 < n'" using pos by linarith
  obtain xc xd where x: "tab_pick (map c [0..<n]) (replicate half pos) = Inr xc" "tab_pick (map d [0..<n]) (replicate half pos) = Inr xd"
    using z False n by (auto simp: apply_rope_table_def cd(1) h Let_def bindR_eq_Inr)
  have e: "xc = c (nat pos)" "xd = d (nat pos)" using tab_pick_rows [OF cd(2) _ pos(1) x(1)] tab_pick_rows [OF cd(3) _ pos(1) x(2)] False by simp_all
  show ?thesis using z tab_pick_row_run [OF cd(2) pos] tab_pick_row_run [OF cd(3) pos] x False
    unfolding apply_rope_table_def cd(1) fst_conv snd_conv h [OF n] h [OF n'] Let_def e option.case by (simp split: if_splits)
qed

text \<open>The table is the rotation \<open>rope_neox\<close> computes, as the docstring of \<open>rope_tables\<close> says.\<close>

lemma rope_table_is_rope_neox:
  assumes "2 * half \<le> length x" "0 \<le> pos" "pos < int n"
  shows "apply_rope_table N x pos (fst (rope_tables N n half base)) (snd (rope_tables N n half base)) None = rope_neox N x pos (2 * half) base"
proof (cases "half = 0")
  case True
  then show ?thesis using tab_half_0 [of N n base] by (simp add: apply_rope_table_def rope_neox_def Let_def)
next
  case False
  let ?c = "\<lambda>p. map (\<lambda>a. to_f N (d_cos N a)) (map (d_mul N (d_int N (int p))) (map (\<lambda>i. d_div N (d_int N 1) (d_pow N base (d_div N (d_int N (int i)) (d_int N (int half))))) [0..<half]))"
  let ?s = "\<lambda>p. map (\<lambda>a. to_f N (d_sin N a)) (map (d_mul N (d_int N (int p))) (map (\<lambda>i. d_div N (d_int N 1) (d_pow N base (d_div N (d_int N (int i)) (d_int N (int half))))) [0..<half]))"
  have t: "rope_tables N n half base = (map ?c [0..<n], map ?s [0..<n])" using False by (simp add: rope_tables_def Let_def)
  have h: "tab_half (map ?c [0..<n]) = half" using assms(2,3) by (simp add: tab_half_def upt_conv_Cons)
  have pick: "tab_pick (map ?c [0..<n]) (replicate half pos) = Inr (?c (nat pos))" "tab_pick (map ?s [0..<n]) (replicate half pos) = Inr (?s (nat pos))"
    using tab_pick_row_run [of ?c half pos n] tab_pick_row_run [of ?s half pos n] assms(2,3) by simp_all
  have half2: "2 * half div 2 = half" "2 * half - half = half" by simp_all
  show ?thesis unfolding t fst_conv snd_conv apply_rope_table_def h Let_def option.case pick bindR_simps rope_neox_def half2
    using False assms by simp
qed

section \<open>Appends of the layer that succeed\<close>

lemma qs_store_run:
  assumes ok: "qs_ok t" and st: "qs_step N t x p kq vq y0 y"
  shows "\<exists>t'. qs_store N x (int p) t = (Inr (), t')"
proof -
  obtain k v raw gamma where x: "x = (k, v, raw, gamma)" by (metis prod_cases4)
  let ?g = "qs_geom t" and ?r = "gm_idx_block (qs_geom t)"
  have q: "quant_cell N ?g k = Inr kq" "quant_cell N ?g v = Inr vq" "p div gm_page_size ?g < length (qs_page_table t)"
    and len: "length raw = gm_idx_dim ?g" "length gamma = gm_idx_dim ?g" and y0: "p = 0 \<Longrightarrow> qs_dead_row N t raw gamma = Inr y0"
    and y: "p mod ?r = ?r - 1 \<Longrightarrow> qs_block_row N t (qs_tail t) raw gamma (p div ?r) = Inr y \<and> Suc (p div ?r) < length (qs_pooled t)"
    using st by (simp_all add: qs_step_def x Let_def)
  obtain u where u: "qs_append_kv N k v (int p) t = (Inr (), u)" and ueq: "qs_geom u = qs_geom t" "qs_pooled u = qs_pooled t" "qs_tail u = qs_tail t"
      "qs_dead_row N u = qs_dead_row N t" "qs_block_row N u = qs_block_row N t"
    unfolding qs_append_kv_Inr [OF ok] using q by (auto simp: fun_eq_iff qs_dead_row_def qs_block_row_def qs_rot_thw_def qs_rot_pos_def)
  have slot: "nat (int p mod int ?r) = p mod ?r" by (simp flip: of_nat_mod)
  have vec: "np_vector (gm_idx_dim ?g) raw = Inr raw" "np_vector (gm_idx_dim ?g) gamma = Inr gamma" using len by (simp_all add: np_vector_def)
  define u1 where "u1 = u\<lparr>qs_tail := (if p mod ?r < ?r - 1 then (qs_tail u)[p mod ?r := map (to_f N) raw] else qs_tail u)\<rparr>"
  have eq: "qs_append_indexer N raw gamma (int p) u = bindA (if int p = 0 then qs_append_dead N raw gamma else retA ()) (\<lambda>_.
      bindA (if p mod ?r = ?r - 1 then qs_append_block N raw gamma (int p) else retA ()) (\<lambda>_. modA (\<lambda>s. s\<lparr>qs_n_kv := int p + 1\<rparr>))) u1"
    unfolding qs_append_indexer_def withA_def Let_def ueq(1) slot bindA_liftA vec sum.case
    by (rule bindA_step) (simp add: u1_def act_run)
  have u1: "qs_dead_row N u1 = qs_dead_row N t" "qs_geom u1 = qs_geom t" "qs_pooled u1 = qs_pooled t"
    by (simp_all add: u1_def ueq fun_eq_iff flip: ueq(4)) (simp add: qs_dead_row_def)
  have "0 < length (qs_pooled t)" using ok by (simp add: qs_ok_def Let_def)
  then obtain w where w: "(if int p = 0 then qs_append_dead N raw gamma else retA ()) u1 = (Inr (), w)"
      and weq: "qs_geom w = qs_geom t" "length (qs_pooled w) = length (qs_pooled t)" "qs_tail w = qs_tail u1" "qs_block_row N w = qs_block_row N u1"
  proof (cases "p = 0")
    case True
    have "qs_append_dead N raw gamma u1 = (Inr (), u1\<lparr>qs_dead := y0, qs_pooled := (qs_pooled u1)[0 := y0], qs_have_dead := True\<rparr>)"
      unfolding qs_append_dead_Inr u1 using y0 [OF True] \<open>0 < length (qs_pooled t)\<close> by blast
    then show ?thesis using True u1(2,3)
      by (intro that [of "u1\<lparr>qs_dead := y0, qs_pooled := (qs_pooled u1)[0 := y0], qs_have_dead := True\<rparr>"])
         (simp_all add: fun_eq_iff qs_block_row_def qs_rot_thw_def qs_rot_pos_def)
  next
    case False
    then show ?thesis using u1 by (intro that [of u1]) (simp_all add: act_run)
  qed
  have br: "qs_block_row N u1 = qs_block_row N t" unfolding ueq(5) [symmetric] by (simp add: fun_eq_iff qs_block_row_def u1_def qs_rot_thw_def qs_rot_pos_def)
  have "\<exists>z. (if p mod ?r = ?r - 1 then qs_append_block N raw gamma (int p) else retA ()) w = (Inr (), z)"
  proof (cases "p mod ?r = ?r - 1")
    case True
    then have "qs_tail w = qs_tail t" by (simp add: weq(3) u1_def ueq(3))
    then show ?thesis using True y [OF True] qs_append_block_Inr [of N raw gamma p w] unfolding weq br by auto
  qed (simp add: act_run)
  then obtain z where "(if p mod ?r = ?r - 1 then qs_append_block N raw gamma (int p) else retA ()) w = (Inr (), z)" by blast
  then have "qs_append_indexer N raw gamma (int p) u = (Inr (), z\<lparr>qs_n_kv := int p + 1\<rparr>)"
    unfolding eq bindA_run w prod.case sum.case by (simp add: act_run)
  then show ?thesis by (simp add: qs_store_def x bindA_run u)
qed

section \<open>The layer follows a paged sequence\<close>

lemma append_indexer_lens:
  "append_indexer N q raw gamma pos s = (Inr (), s') \<Longrightarrow> length raw = gm_idx_dim (qp_geom s) \<and> length gamma = gm_idx_dim (qp_geom s)"
  unfolding append_indexer_def withA_def Let_def bindA_liftA np_vector_def by (simp split: sum.splits if_splits)

lemma stored_lens:
  assumes c: "qp_create N g table bs True base None = Inr s0" and N: "np_bytes_ok N" and run: "mapA (append_stored N) ops s0 = (Inr us, s)"
  shows "\<forall>x \<in> (fst \<circ> snd) ` set ops. length (st_raw x) = gm_idx_dim g \<and> length (st_gamma x) = gm_idx_dim g"
  using run
proof (induction ops arbitrary: us s rule: rev_induct)
  case (snoc op ops)
  obtain q k v raw gamma pos where op: "op = (q, (k, v, raw, gamma), pos)" by (metis prod_cases3)
  obtain vs t ws where t: "mapA (append_stored N) ops s0 = (Inr vs, t)" "mapA (append_stored N) [op] t = (Inr ws, s)"
    using snoc.prems unfolding mapA_append_Inr by blast
  note k = created_run [OF c N t(1)]
  obtain z r zs where "append_stored N op t = (Inr z, r)" "mapA (append_stored N) [] r = (Inr zs, s)" using t(2) unfolding mapA_Cons_Inr by blast
  then have "append_stored N op t = (Inr (), s)" by (simp add: act_run)
  then have "append_token N q k v (Some raw) (Some gamma) pos t = (Inr (), s)" unfolding op append_stored_def prod.case .
  then obtain u where u: "append_kv N q k v pos t = (Inr (), u)" and rest: "withA (\<lambda>s. if \<not> pl_pooled (qp_layout s) then retA ()
       else case (Some raw, Some gamma) of (Some x, Some gamma) \<Rightarrow> append_indexer N q x gamma pos
       | _ \<Rightarrow> raiseA (ValueError ''pooled append needs the raw indexer key'')) u = (Inr (), s)"
    unfolding append_token_def bindA_unit by blast
  obtain ws' where "u = qp_put ws' t\<lparr>qp_pos := (qp_pos t)[q := pos], qp_n_kv := (qp_n_kv t)[q := pos + 1]\<rparr>"
    using append_kv_Inr [OF k(1) N, THEN iffD1, OF u] by blast
  then have same: "qp_layout u = qp_layout t" "qp_geom u = g" using k(6) by simp_all
  then have "append_indexer N q raw gamma pos u = (Inr (), s)" using rest k(5) by (simp add: withA_def)
  from append_indexer_lens [OF this]
  have "length (st_raw (k, v, raw, gamma)) = gm_idx_dim g \<and> length (st_gamma (k, v, raw, gamma)) = gm_idx_dim g" by (simp add: same st_raw_def st_gamma_def)
  then show ?case using snoc.IH [OF t(1)] by (simp add: op)
qed simp

lemma history_subset: "set (history q ops) \<subseteq> (fst \<circ> snd) ` set ops"
  by (auto simp: history_def)

lemma created_tables:
  assumes c: "qp_create N g table bs pooled base None = Inr s" and q: "q < length table" and b: "0 \<le> qp_pos_base s ! q"
  obtains n where "0 < n" "qp_cos s = fst (rope_tables N n (gm_n_rot g div 2) (gm_rope_base g))" "qp_sin s = snd (rope_tables N n (gm_n_rot g div 2) (gm_rope_base g))"
proof -
  obtain n where n: "rope_ok (qp_cos s) (qp_sin s) (gm_n_rot g div 2) n" "qp_pos_base s ! q + int (length (table ! q) * nat bs) < int n"
    using create_tables(3) [OF c q] by blast
  obtain lay ps where eq: "s = qp_initial N g table lay ps None" by (rule create_eq [OF c])
  then obtain m where m: "qp_cos s = fst (rope_tables N m (gm_n_rot g div 2) (gm_rope_base g))" "qp_sin s = snd (rope_tables N m (gm_n_rot g div 2) (gm_rope_base g))"
    by (simp add: qp_initial_def)
  have "m = n" using n(1) rope_tables_ok [of N m "gm_n_rot g div 2" "gm_rope_base g"] by (simp add: m rope_ok_def)
  then show ?thesis using that [of m] n(2) b m by linarith
qed

text \<open>A layer of the geometry and position base of a paged sequence, with room for \<open>mc\<close> cells.\<close>

definition layer_of :: "('f, 'd) np \<Rightarrow> ('f, 'd) qsa_paged \<Rightarrow> nat \<Rightarrow> nat \<Rightarrow> ('f, 'd) qsa_state \<Rightarrow> bool" where
  "layer_of N s q mc t \<longleftrightarrow> qs_ok t \<and> qs_geom t = qp_geom s \<and> qs_pos_base t = qp_pos_base s ! q \<and> 0 \<le> qp_pos_base s ! q \<and> qs_mrope t = None \<and> qp_mrope s = None
     \<and> length (qs_page_table t) = (mc + gm_page_size (qp_geom s) - 1) div gm_page_size (qp_geom s) \<and> length (qs_pooled t) = mc div gm_idx_block (qp_geom s) + 1
     \<and> (\<exists>n n'. 0 < n \<and> qp_pos_base s ! q + int mc < int n' \<and> (qp_cos s, qp_sin s) = rope_tables N n (gm_n_rot (qp_geom s) div 2) (gm_rope_base (qp_geom s))
          \<and> (qs_cos t, qs_sin t) = rope_tables N n' (gm_n_rot (qp_geom s) div 2) (gm_rope_base (qp_geom s)))"

lemma layer_rows:
  assumes l: "layer_of N s q mc t"
  shows "dead_row N s raw gamma = Inr y \<Longrightarrow> qs_dead_row N t raw gamma = Inr y"
    "block_row N s q tails raw gamma b = Inr y \<Longrightarrow> b * gm_idx_block (qp_geom s) \<le> mc \<Longrightarrow> qs_block_row N t tails raw gamma b = Inr y"
    "ref_cell N s = qs_ref_cell N (qs_geom t)"
    "ref_row N s q h b = Inr y \<Longrightarrow> b * gm_idx_block (qp_geom s) \<le> mc \<Longrightarrow> qs_ref_row N t h b = Inr y"
proof -
  obtain n n' where n: "0 < n" "qp_pos_base s ! q + int mc < int n'"
      "qp_cos s = fst (rope_tables N n (gm_n_rot (qp_geom s) div 2) (gm_rope_base (qp_geom s)))" "qp_sin s = snd (rope_tables N n (gm_n_rot (qp_geom s) div 2) (gm_rope_base (qp_geom s)))"
      "qs_cos t = fst (rope_tables N n' (gm_n_rot (qp_geom s) div 2) (gm_rope_base (qp_geom s)))" "qs_sin t = snd (rope_tables N n' (gm_n_rot (qp_geom s) div 2) (gm_rope_base (qp_geom s)))"
    using l unfolding layer_of_def by (metis fst_conv snd_conv)
  have g: "qs_geom t = qp_geom s" "qs_pos_base t = qp_pos_base s ! q" "0 \<le> qp_pos_base s ! q" "qs_mrope t = None" "qp_mrope s = None"
    using l by (simp_all add: layer_of_def)
  have rope: "apply_rope_table N y pos (qp_cos s) (qp_sin s) None = Inr z \<Longrightarrow> 0 \<le> pos \<Longrightarrow> pos \<le> qp_pos_base s ! q + int mc
      \<Longrightarrow> apply_rope_table N y pos (qs_cos t) (qs_sin t) None = Inr z" for y pos z
    unfolding n(3-6) by (rule rope_any_length) (use n(1,2) in simp_all)
  show "dead_row N s raw gamma = Inr y \<Longrightarrow> qs_dead_row N t raw gamma = Inr y"
    using rope g by (simp add: dead_row_def qs_dead_row_def)
  show row: "block_row N s q tails raw gamma b = Inr y \<Longrightarrow> b * gm_idx_block (qp_geom s) \<le> mc \<Longrightarrow> qs_block_row N t tails raw gamma b = Inr y"
    for tails raw gamma b
    using rope [of _ "qp_pos_base s ! q + int (b * gm_idx_block (qp_geom s))"] g(3)
    by (simp add: block_row_def qs_block_row_def Let_def qp_thw_def qs_rot_thw_def qs_rot_pos_def g(1,2,4,5) flip: of_nat_mult)
  show "ref_cell N s = qs_ref_cell N (qs_geom t)" by (simp add: fun_eq_iff ref_cell_def qs_ref_cell_def g(1))
  show "ref_row N s q h b = Inr y \<Longrightarrow> b * gm_idx_block (qp_geom s) \<le> mc \<Longrightarrow> qs_ref_row N t h b = Inr y"
    unfolding ref_row_def qs_ref_row_def Let_def g(1) by (rule row)
qed

lemma layer_stored:
  assumes l: "layer_of N s q mc t" and st: "qs_step N t x p kq vq y0 y"
  shows "layer_of N s q mc (qs_stored t p tr kq vq y0 y bp)"
proof -
  have "qs_ok (qs_stored t p tr kq vq y0 y bp)" by (rule qs_ok_stored [OF _ st]) (use l in \<open>simp add: layer_of_def\<close>)
  moreover have "length (qs_pooled (qs_stored t p tr kq vq y0 y bp)) = length (qs_pooled t)" by (simp add: qs_stored_def Let_def)
  moreover have "qs_geom (qs_stored t p tr kq vq y0 y bp) = qs_geom t" "qs_pos_base (qs_stored t p tr kq vq y0 y bp) = qs_pos_base t"
      "qs_mrope (qs_stored t p tr kq vq y0 y bp) = qs_mrope t" "qs_page_table (qs_stored t p tr kq vq y0 y bp) = qs_page_table t"
      "qs_cos (qs_stored t p tr kq vq y0 y bp) = qs_cos t" "qs_sin (qs_stored t p tr kq vq y0 y bp) = qs_sin t"
    by (simp_all add: qs_stored_def Let_def)
  ultimately show ?thesis using l unfolding layer_of_def by simp
qed

lemma layer_step:
  assumes l: "layer_of N s q mc t" and H: "holds N s q H" and j: "j < length H" "length H \<le> mc"
    and lens: "length (st_raw (H ! j)) = gm_idx_dim (qp_geom s)" "length (st_gamma (H ! j)) = gm_idx_dim (qp_geom s)"
    and h: "qs_holds N t (take j H)"
  shows "\<exists>t'. qs_store N (H ! j) (int j) t = (Inr (), t') \<and> layer_of N s q mc t' \<and> qs_holds N t' (take (Suc j) H)"
proof -
  let ?g = "qs_geom t" and ?r = "gm_idx_block (qs_geom t)"
  have ok: "qs_ok t" and g: "qp_geom s = ?g" and len: "length (qs_page_table t) = (mc + gm_page_size ?g - 1) div gm_page_size ?g"
      "length (qs_pooled t) = mc div ?r + 1" using l by (auto simp: layer_of_def)
  have pos: "0 < ?r" "0 < gm_page_size ?g" using ok by (simp_all add: qs_ok_def Let_def)
  obtain k v raw gamma where x: "H ! j = (k, v, raw, gamma)" by (metis prod_cases4)
  have jl: "length (take j H) = j" using j(1) by simp
  have snoc: "take (Suc j) H = take j H @ [H ! j]" by (rule take_Suc_conv_app_nth [OF j(1)])
  obtain c where "ref_cell N s (H ! j) = Inr c" using holdsD(3) [OF H j(1)] by blast
  then obtain kq vq where q: "quant_cell N ?g k = Inr kq" "quant_cell N ?g v = Inr vq" by (auto simp: ref_cell_def x g bindR_eq_Inr)
  have page: "j div gm_page_size ?g < length (qs_page_table t)"
  proof -
    have "j + gm_page_size ?g \<le> mc + gm_page_size ?g - 1" using j by linarith
    then have "(j + gm_page_size ?g) div gm_page_size ?g \<le> length (qs_page_table t)" unfolding len(1) by (rule div_le_mono)
    moreover have "(j + gm_page_size ?g) div gm_page_size ?g = Suc (j div gm_page_size ?g)" using pos(2) by (simp add: div_add_self2)
    ultimately show ?thesis by linarith
  qed
  have y0: "j = 0 \<longrightarrow> qs_dead_row N t raw gamma = Inr (qp_dead s ! q)"
    using holdsD(7) [OF H] layer_rows(1) [OF l] j(1) x by (cases H) (auto simp: st_raw_def st_gamma_def)
  have "\<exists>y. j mod ?r = ?r - 1 \<longrightarrow> qs_block_row N t (qs_tail t) raw gamma (j div ?r) = Inr y \<and> Suc (j div ?r) < length (qs_pooled t)"
  proof (cases "j mod ?r = ?r - 1")
    case True
    let ?b = "j div ?r"
    have e: "Suc ?b * ?r = Suc j" using div_mult_mod_eq [of j ?r] True pos(1) by simp
    then have bl: "Suc ?b \<le> length H div ?r" "Suc ?b \<le> mc div ?r" "?b * ?r + ?r = Suc j" using j pos(1) by (simp_all add: less_eq_div_iff_mult_less_eq)
    then obtain row where "ref_row N s q H ?b = Inr row" using holdsD(5) [OF H, of ?b] g by auto
    moreover have "?b * gm_idx_block (qp_geom s) \<le> mc" unfolding g using bl(3) j by linarith
    ultimately have "qs_ref_row N t H ?b = Inr row" by (rule layer_rows(4) [OF l])
    moreover have "take ?r (drop (?b * ?r) (take (Suc j) H)) = take ?r (drop (?b * ?r) H)"
      using bl(3) by (simp add: drop_take flip: bl(3))
    then have "qs_ref_row N t (take j H @ [H ! j]) ?b = qs_ref_row N t H ?b" unfolding snoc [symmetric] qs_ref_row_def Let_def by (simp only:)
    ultimately have "qs_block_row N t (qs_tail t) raw gamma ?b = Inr row"
      using qs_open_block [OF ok h, of "H ! j"] True unfolding jl by (simp add: x st_raw_def st_gamma_def)
    then show ?thesis using bl(2) len(2) by auto
  qed simp
  then obtain y where y: "j mod ?r = ?r - 1 \<longrightarrow> qs_block_row N t (qs_tail t) raw gamma (j div ?r) = Inr y \<and> Suc (j div ?r) < length (qs_pooled t)" by blast
  have st: "qs_step N t (H ! j) j kq vq (qp_dead s ! q) y"
    using q page y0 y lens unfolding g by (simp add: qs_step_def x Let_def st_raw_def st_gamma_def)
  obtain t' where run: "qs_store N (H ! j) (int j) t = (Inr (), t')" using qs_store_run [OF ok st] by blast
  obtain kq' vq' y0' y' bp where st': "qs_step N t (H ! j) j kq' vq' y0' y'" and t': "t' = qs_stored t j (map (to_f N) (st_raw (H ! j))) kq' vq' y0' y' bp"
    using qs_store_Inr [OF ok run] by blast
  have "qs_holds N t' (take (Suc j) H)"
    using qs_holds_stored [OF ok h, of "H ! j"] st' unfolding t' snoc jl by simp
  then show ?thesis using run layer_stored [OF l st'] unfolding t' by blast
qed

definition feed :: "('f, 'd) np \<Rightarrow> ('f, 'd) stored list \<Rightarrow> ('f, 'd, unit list) qs_act" where
  "feed N h = mapA (\<lambda>(x, p). qs_store N x (int p)) (zip h [0..<length h])"

lemma layer_feed:
  assumes l: "layer_of N s q mc t0" and h0: "qs_holds N t0 []" and H: "holds N s q H" "length H \<le> mc"
    and lens: "\<forall>x \<in> set H. length (st_raw x) = gm_idx_dim (qp_geom s) \<and> length (st_gamma x) = gm_idx_dim (qp_geom s)"
  shows "\<exists>vs t. feed N H t0 = (Inr vs, t) \<and> layer_of N s q mc t \<and> qs_holds N t H"
proof -
  have "j \<le> length H \<Longrightarrow> \<exists>vs t. feed N (take j H) t0 = (Inr vs, t) \<and> layer_of N s q mc t \<and> qs_holds N t (take j H)" for j
  proof (induction j)
    case 0
    then show ?case using l h0 by (simp add: feed_def act_run)
  next
    case (Suc j)
    then obtain vs t where t: "feed N (take j H) t0 = (Inr vs, t)" "layer_of N s q mc t" "qs_holds N t (take j H)" by auto
    have j: "j < length H" using Suc.prems by simp
    obtain t' where t': "qs_store N (H ! j) (int j) t = (Inr (), t')" "layer_of N s q mc t'" "qs_holds N t' (take (Suc j) H)"
      using layer_step [OF t(2) H(1) j H(2) _ _ t(3)] lens nth_mem [OF j] by blast
    have z: "zip (take (Suc j) H) [0..<length (take (Suc j) H)] = zip (take j H) [0..<length (take j H)] @ [(H ! j, j)]"
      using j by (simp add: take_Suc_conv_app_nth min_def)
    have "mapA (\<lambda>(x, p). qs_store N x (int p)) [(H ! j, j)] t = (Inr [()], t')" using t'(1) by (simp add: bindA_run act_run)
    then have "feed N (take (Suc j) H) t0 = (Inr (vs @ [()]), t')" using t(1) unfolding feed_def z mapA_append_Inr by blast
    then show ?case using t'(2,3) by blast
  qed
  from this [of "length H"] show ?thesis by simp
qed

lemma init_holds:
  assumes "qs_init N mc g base = Inr t"
  shows "qs_ok t" "qs_holds N t []" "1 \<le> mc" "qs_geom t = g" "qs_pos_base t = base" "qs_mrope t = None" "length (qs_pooled t) = nat mc div gm_idx_block g + 1"
    "length (qs_page_table t) = (nat mc + gm_page_size g - 1) div gm_page_size g"
    "(qs_cos t, qs_sin t) = rope_tables N (nat (mc + max base 0 + 1)) (gm_n_rot g div 2) (gm_rope_base g)"
  using assms by (auto simp: qs_init_def Let_def bindR_eq_Inr raise_if_eq_Inr qs_ok_def qs_holds_def pool_shape_def zero_pool_def)

lemma init_layer:
  assumes c: "qp_create N g table bs True base None = Inr s0" and N: "np_bytes_ok N" and run: "mapA (append_stored N) ops s0 = (Inr us, s)"
    and q: "q < length table" and i: "qs_init N mc g (qp_pos_base s0 ! q) = Inr t0" and b: "0 \<le> qp_pos_base s0 ! q"
  shows "layer_of N s q (nat mc) t0"
proof -
  note k = created_run [OF c N run] and init = init_holds [OF i]
  have st: "qp_geom s = g" "qp_pos_base s = qp_pos_base s0" "qp_cos s = qp_cos s0" "qp_sin s = qp_sin s0" "qp_mrope s = qp_mrope s0"
    using k(2,6) by (simp_all add: stat_def)
  obtain n where n: "0 < n" "qp_cos s0 = fst (rope_tables N n (gm_n_rot g div 2) (gm_rope_base g))" "qp_sin s0 = snd (rope_tables N n (gm_n_rot g div 2) (gm_rope_base g))"
    by (rule created_tables [OF c q b])
  have "qp_pos_base s0 ! q + int (nat mc) < int (nat (mc + max (qp_pos_base s0 ! q) 0 + 1))" using b init(3) by simp
  moreover have "(qp_cos s0, qp_sin s0) = rope_tables N n (gm_n_rot g div 2) (gm_rope_base g)" by (simp add: n)
  ultimately have "\<exists>n n'. 0 < n \<and> qp_pos_base s0 ! q + int (nat mc) < int n' \<and> (qp_cos s0, qp_sin s0) = rope_tables N n (gm_n_rot g div 2) (gm_rope_base g)
      \<and> (qs_cos t0, qs_sin t0) = rope_tables N n' (gm_n_rot g div 2) (gm_rope_base g)" using n(1) init(9) by blast
  then show ?thesis unfolding layer_of_def st using init b create_tables(1) [OF c q] by simp
qed

text \<open>C21. The paged cache refines the single-sequence layer. Whenever a run of appends to a created cache raises
  nowhere, a layer created with the same geometry, the position base of one of its sequences and enough
  cells takes the history of that sequence without raising; then the two have the same length and dead key,
  every query of a non-empty prefix selects the same ids or raises alike, and every list of cells of the
  history attends to the same values.\<close>

theorem paged_cache_refines_layer:
  "qp_create N g table bs True base None = Inr s0 \<Longrightarrow> np_bytes_ok N \<Longrightarrow> mapA (append_stored N) ops s0 = (Inr us, s) \<Longrightarrow> q < length table \<Longrightarrow>
   qs_init N mc g (qp_pos_base s0 ! q) = Inr t0 \<Longrightarrow> 0 \<le> qp_pos_base s0 ! q \<Longrightarrow> int (length (history q ops)) \<le> mc \<Longrightarrow>
     \<exists>vs t. feed N (history q ops) t0 = (Inr vs, t) \<and> qs_n_kv t = qp_n_kv s ! q \<and> (history q ops \<noteq> [] \<longrightarrow> qs_dead t = qp_dead s ! q)
       \<and> (\<forall>x m. 0 < m \<and> m \<le> length (history q ops) \<longrightarrow> qp_select N s q x (int m) = qs_select N t x (int m))
       \<and> (\<forall>qv ids. (\<forall>j \<in> set ids. j < length (history q ops)) \<longrightarrow>
            qp_attend_ids N s q qv (map int ids) = bindR (qs_attend_ids N qv t (map int ids)) (\<lambda>(a, w). Inr a))"
proof -
  assume c: "qp_create N g table bs True base None = Inr s0" and N: "np_bytes_ok N" and run: "mapA (append_stored N) ops s0 = (Inr us, s)"
    and q: "q < length table" and i: "qs_init N mc g (qp_pos_base s0 ! q) = Inr t0" and b: "0 \<le> qp_pos_base s0 ! q" and mc: "int (length (history q ops)) \<le> mc"
  note k = created_run [OF c N run]
  let ?h = "history q ops"
  have H: "holds N s q ?h" by (rule k(4) [OF q])
  have lens: "\<forall>x \<in> set ?h. length (st_raw x) = gm_idx_dim (qp_geom s) \<and> length (st_gamma x) = gm_idx_dim (qp_geom s)"
    using stored_lens [OF c N run] history_subset [of q ops] unfolding k(6) by blast
  obtain vs t where t: "feed N ?h t0 = (Inr vs, t)" "layer_of N s q (nat mc) t" "qs_holds N t ?h"
    using layer_feed [OF init_layer [OF c N run q i b] init_holds(2) [OF i] H _ lens] mc by (metis nat_int nat_mono)
  have ok: "qs_ok t" and g: "qs_geom t = qp_geom s" using t(2) by (simp_all add: layer_of_def)
  note rows = layer_rows [OF t(2)]
  have dead: "qs_dead t = qp_dead s ! q" if "?h \<noteq> []" using rows(1) [OF holdsD(7) [OF H that]] qs_holdsD(7) [OF t(3) that] by simp
  have row: "projr (ref_row N s q ?h b) = projr (qs_ref_row N t ?h b)" if bm: "b < m div gm_idx_block (qp_geom s)" "m \<le> length ?h" for b m
  proof -
    have bl: "b < length ?h div gm_idx_block (qp_geom s)" using bm div_le_mono [OF bm(2), of "gm_idx_block (qp_geom s)"] by linarith
    then have "b * gm_idx_block (qp_geom s) \<le> length ?h" by (meson div_times_less_eq_dividend le_trans less_imp_le_nat mult_le_mono1)
    then show ?thesis using holdsD(5) [OF H bl] rows(4) mc by fastforce
  qed
  have sel: "qp_select N s q x (int m) = qs_select N t x (int m)" if m: "0 < m \<and> m \<le> length ?h" for x m
  proof -
    have "?h \<noteq> []" using m by auto
    have "spec_select N (qp_geom s) (\<lambda>b. projr (ref_row N s q ?h b)) (qp_dead s ! q) x m
        = spec_select N (qp_geom s) (\<lambda>b. projr (qs_ref_row N t ?h b)) (qp_dead s ! q) x m"
      by (rule spec_select_cong) (rule row [OF _ conjunct2 [OF m]])
    then show ?thesis using paged_select [OF k(1) H _ _ , of m x] state_select [OF t(3), of m x] m q k(7) dead [OF \<open>?h \<noteq> []\<close>] by (simp add: g)
  qed
  have att: "qp_attend_ids N s q qv (map int ids) = bindR (qs_attend_ids N qv t (map int ids)) (\<lambda>(a, w). Inr a)"
    if "\<forall>j \<in> set ids. j < length ?h" for qv ids
    using paged_attend [OF H that, of qv] state_attend [OF ok t(3) that, of qv] unfolding rows(3) g by simp
  show ?thesis using t(1) dead sel att holdsD(1) [OF H] qs_holdsD(1) [OF t(3)] by auto
qed

end
