(* ===== verification/Qsa_Prefill.thy ===== *)
theory Qsa_Prefill
  imports Qsa_State_Thms
begin

text \<open>
  The layer as a prepared store: a token is projected and rotated, appended at the next cell, and queried. A chunk
  prefill is the token-by-token prefill.
\<close>

definition layer_inv :: "('f, 'd) np \<Rightarrow> ('f, 'd) qsa_state \<Rightarrow> bool" where
  "layer_inv N s \<longleftrightarrow> (\<exists>h. qs_ok s \<and> qs_holds N s h)"

text \<open>An append at the next cell only.\<close>

definition next_append :: "('f, 'd) np \<Rightarrow> 'f qsa_weights \<Rightarrow> 'f qs_token \<times> int \<Rightarrow> ('f, 'd, unit) qs_act" where
  "next_append N W t s = (if snd t = qs_n_kv s then qs_append N W t s else (Inl (ValueError ''not the next cell''), s))"

definition layer_reply :: "('f, 'd) np \<Rightarrow> 'f qsa_weights \<Rightarrow> 'f qs_token \<times> int \<Rightarrow> ('f, 'd) qsa_state \<Rightarrow> ('f qs_reply \<times> 'f qs_token) res" where
  "layer_reply N W t s = bindR (qs_answer N W t s) (\<lambda>o1. Inr (o1, fst t))"

definition layer_seen :: "'f qs_token \<times> int \<Rightarrow> ('f, 'd) qsa_state \<Rightarrow> bool" where
  "layer_seen t s \<longleftrightarrow> 0 \<le> snd t \<and> snd t < qs_n_kv s"

definition layer_prep :: "('f, 'd) np \<Rightarrow> 'f qsa_weights \<Rightarrow> 'f list \<times> int \<Rightarrow> ('f, 'd) qsa_state \<Rightarrow> ('f qs_token \<times> int) res" where
  "layer_prep N W x s = bindR (qs_prepare N W x None s) (\<lambda>tok. Inr (tok, snd x))"

lemma next_append_step:
  assumes i: "layer_inv N s" and run: "next_append N W t s = (Inr (), s')"
  obtains h x where "qs_ok s" "qs_holds N s h" "snd t = int (length h)" "qs_ok s'" "qs_holds N s' (h @ [x])" "qs_stat s' = qs_stat s"
proof -
  obtain h where h: "qs_ok s" "qs_holds N s h" using i by (auto simp: layer_inv_def)
  let ?x = "(concat (qt_k (fst t)), concat (qt_v (fst t)), map (to_d N) (qt_raw (fst t)), map (to_d N) (w_idx_k_norm W))"
  have p: "snd t = int (length h)" using run qs_holdsD(1) [OF h(2)] by (simp add: next_append_def split: if_splits)
  have "qs_store N ?x (int (length h)) s = (Inr (), s')"
    using run p by (simp add: next_append_def qs_append_def qs_store_def split: if_splits)
  then obtain kq vq y0 y bp where "qs_step N s ?x (length h) kq vq y0 y" "s' = qs_stored s (length h) (map (to_f N) (st_raw ?x)) kq vq y0 y bp"
    using qs_store_Inr [OF h(1)] by blast
  then show ?thesis using that [OF h p, of ?x] qs_ok_stored [OF h(1)] qs_holds_stored [OF h] by simp
qed

lemma later_answer:
  assumes s: "qs_ok s" "qs_holds N s h" and s': "qs_ok s'" "qs_holds N s' (h @ [x])" and st: "qs_stat s' = qs_stat s"
    and u: "0 \<le> snd u" "snd u < int (length h)"
  shows "qs_answer N W u s' = qs_answer N W u s"
proof -
  define m where "m = nat (snd u + 1)"
  have m: "snd u + 1 = int m" "0 < m" "m \<le> length h" using u by (simp_all add: m_def)
  note cg = qs_stat_cong [OF st]
  have ne: "h \<noteq> []" using m by auto
  have dead: "qs_dead s' = qs_dead s" using qs_holdsD(7) [OF s(2) ne] qs_holdsD(7) [OF s'(2)] ne cg(1) by simp
  have rows: "projr (qs_ref_row N s' (h @ [x]) b) = projr (qs_ref_row N s h b)" if "b < m div gm_idx_block (qs_geom s)" for b
  proof -
    have "b < length h div gm_idx_block (qs_geom s)" using that div_le_mono [OF m(3), of "gm_idx_block (qs_geom s)"] by linarith
    then show ?thesis unfolding cg(3) by (simp only: qs_ref_row_def Let_def take_block_prefix)
  qed
  have sel: "qs_select N s' y (int m) = qs_select N s y (int m)" for y
    using state_select [OF s(2) m(2,3), of y] state_select [OF s'(2) m(2), of y] m(3) spec_select_cong [OF rows] by (simp add: cg(4) dead)
  show ?thesis
  proof (cases "qs_select N s (concat (qt_q_idx (fst u))) (int m)")
    case (Inr ids)
    then have ids: "\<forall>j \<in> set ids. j < length h" using spec_select_bound m(3) unfolding state_select [OF s(2) m(2,3)] by fastforce
    then have ids': "\<forall>j \<in> set ids. j < length (h @ [x])" by auto
    have "qs_attend_ids N q s' (map int ids) = qs_attend_ids N q s (map int ids)" for q
      unfolding state_attend [OF s ids] state_attend [OF s' ids'] cg(4) by (rule spec_attend_cong) (use ids in \<open>simp add: nth_append\<close>)
    then show ?thesis by (simp add: qs_answer_def m(1) sel Inr)
  qed (simp add: qs_answer_def m(1) sel)
qed

interpretation layer: prepared_store "layer_inv N" "next_append N W" "layer_reply N W" layer_seen "layer_prep N W"
  for N W
proof unfold_locales
  fix s :: "('a, 'b) qsa_state" and t u s' and x :: "'a list \<times> int"
  assume i: "layer_inv N s" and run: "next_append N W t s = (Inr (), s')"
  obtain h z where h: "qs_ok s" "qs_holds N s h" "snd t = int (length h)" "qs_ok s'" "qs_holds N s' (h @ [z])" "qs_stat s' = qs_stat s"
    by (rule next_append_step [OF i run])
  show "layer_inv N s'" using h(4,5) by (auto simp: layer_inv_def)
  show "layer_seen t s'" using h(3) qs_holdsD(1) [OF h(5)] by (simp add: layer_seen_def)
  show "layer_prep N W x s' = layer_prep N W x s" using qs_stat_cong(5) [OF h(6)] by (simp add: layer_prep_def)
  assume "layer_seen u s"
  then show "layer_seen u s' \<and> layer_reply N W u s' = layer_reply N W u s"
    using later_answer [OF h(1,2,4,5,6), of u W] qs_holdsD(1) [OF h(2)] qs_holdsD(1) [OF h(5)] by (simp add: layer_seen_def layer_reply_def)
qed

section \<open>Chunks\<close>

lemma chunk_cells_Cons: "chunk_cells (x # xs) pos0 = (x, pos0) # chunk_cells xs (pos0 + 1)"
proof -
  have "map (\<lambda>i. pos0 + int i) [0..<length (x # xs)] = pos0 # map (\<lambda>i. pos0 + 1 + int i) [0..<length xs]"
    by (rule nth_equalityI) (auto simp: nth_Cons split: nat.split simp del: upt_Suc)
  then show ?thesis by (simp add: chunk_cells_def del: upt_Suc)
qed

lemma mapA_same_step:
  "f x s = g x s \<Longrightarrow> (\<And>z u. g x s = (Inr z, u) \<Longrightarrow> mapA f xs u = mapA g xs u) \<Longrightarrow> mapA f (x # xs) s = mapA g (x # xs) s"
  by (simp add: bindA_run split: prod.split sum.split)

text \<open>The cells of a chunk that starts at the next cell are all next cells.\<close>

lemma next_cells:
  assumes "layer_inv N s" "qs_n_kv s = pos0" "\<And>t s. snd (K t s) = s"
  shows "mapA (\<lambda>x. bindA (liftA (layer_prep N W x)) (\<lambda>t. bindA (qs_append N W t) (\<lambda>_. K t))) (chunk_cells xs pos0) s
    = mapA (\<lambda>x. bindA (liftA (layer_prep N W x)) (\<lambda>t. bindA (next_append N W t) (\<lambda>_. K t))) (chunk_cells xs pos0) s"
  using assms(1,2)
proof (induction xs arbitrary: pos0 s)
  case (Cons x xs)
  let ?f = "\<lambda>x. bindA (liftA (layer_prep N W x)) (\<lambda>t. bindA (qs_append N W t) (\<lambda>_. K t))"
  let ?g = "\<lambda>x. bindA (liftA (layer_prep N W x)) (\<lambda>t. bindA (next_append N W t) (\<lambda>_. K t))"
  have same: "?f (x, pos0) s = ?g (x, pos0) s"
    unfolding bindA_liftA by (cases "layer_prep N W (x, pos0) s")
      (auto simp: layer_prep_def bindR_eq_Inr bindA_run next_append_def Cons.prems(2))
  show ?case unfolding chunk_cells_Cons
  proof (rule mapA_same_step [where f = ?f and g = ?g])
    show "?f (x, pos0) s = ?g (x, pos0) s" by (rule same)
  next
    fix z u assume "?g (x, pos0) s = (Inr z, u)"
    then obtain t v where t: "layer_prep N W (x, pos0) s = Inr t" "next_append N W t s = (Inr (), v)" "K t v = (Inr z, u)"
      unfolding bindA_liftA by (auto simp: bindA_unit split: sum.splits)
    have u: "u = v" using assms(3) [of t v] t(3) by simp
    obtain h y where h: "snd t = int (length h)" "qs_holds N v (h @ [y])" "qs_holds N s h" "qs_ok v" by (rule next_append_step [OF Cons.prems(1) t(2)])
    have "layer_inv N u" using h(2,4) u by (auto simp: layer_inv_def)
    moreover have "qs_n_kv u = pos0 + 1" using qs_holdsD(1) [OF h(2)] qs_holdsD(1) [OF h(3)] Cons.prems(2) u by simp
    ultimately show "mapA ?f (chunk_cells xs (pos0 + 1)) u = mapA ?g (chunk_cells xs (pos0 + 1)) u" by (rule Cons.IH)
  qed
qed (simp add: chunk_cells_def)

lemma qs_prefill_prep:
  "qs_prefill N W xs pos0 = mapA (\<lambda>x. bindA (liftA (layer_prep N W x)) (\<lambda>t. bindA (qs_append N W t) (\<lambda>_. liftA (layer_reply N W t)))) (chunk_cells xs pos0)"
proof -
  have "decode_token N W x None = bindA (liftA (layer_prep N W x)) (\<lambda>t. bindA (qs_append N W t) (\<lambda>_. liftA (layer_reply N W t)))" for x
    by (rule ext) (simp add: decode_token_def bindA_run act_run layer_prep_def layer_reply_def bindR_def split: sum.split prod.split)
  then show ?thesis by (simp add: qs_prefill_def)
qed

lemma qs_chunk_prep:
  "qs_prefill_chunk N W xs pos0 = bindA (mapA (\<lambda>x. bindA (liftA (layer_prep N W x)) (\<lambda>t. bindA (qs_append N W t) (\<lambda>_. retA t))) (chunk_cells xs pos0))
     (\<lambda>ts. liftA (\<lambda>s. mapR (\<lambda>t. bindR (qs_answer N W t s) (\<lambda>o1. Inr (o1, qt_q_idx (fst t)))) ts))"
proof -
  have "bindA (liftA (qs_prepare N W x None)) (\<lambda>tok. bindA (qs_append N W (tok, snd x)) (\<lambda>_. retA (tok, snd x)))
      = bindA (liftA (layer_prep N W x)) (\<lambda>t. bindA (qs_append N W t) (\<lambda>_. retA t))" for x
    by (rule ext) (simp add: bindA_run act_run layer_prep_def bindR_def split: sum.split prod.split)
  then show ?thesis by (simp add: qs_prefill_chunk_def)
qed

lemma mapR_replies:
  "mapR (\<lambda>t. bindR (qs_answer N W t s) (\<lambda>o1. Inr (o1, qt_q_idx (fst t)))) ts = Inr outs
     \<longleftrightarrow> (\<exists>full. mapR (\<lambda>t. layer_reply N W t s) ts = Inr full \<and> outs = map (\<lambda>(r, tok). (r, qt_q_idx tok)) full)"
  by (induction ts arbitrary: outs) (auto simp: layer_reply_def bindR_eq_Inr)

lemma chunk_at_next:
  assumes i: "layer_inv N s" and n: "qs_n_kv s = pos0"
  shows "qs_prefill_chunk N W xs pos0 s = (Inr outs, s')
    \<longleftrightarrow> (\<exists>full. qs_prefill N W xs pos0 s = (Inr full, s') \<and> outs = map (\<lambda>(r, tok). (r, qt_q_idx tok)) full)"
proof -
  let ?apps = "mapA (\<lambda>x. bindA (liftA (layer_prep N W x)) (\<lambda>t. bindA (next_append N W t) (\<lambda>_. retA t))) (chunk_cells xs pos0)"
  have apps: "mapA (\<lambda>x. bindA (liftA (layer_prep N W x)) (\<lambda>t. bindA (qs_append N W t) (\<lambda>_. retA t))) (chunk_cells xs pos0) s = ?apps s"
    by (rule next_cells [OF i n]) (simp add: act_run)
  have each: "qs_prefill N W xs pos0 s = mapA (\<lambda>x. bindA (liftA (layer_prep N W x)) (\<lambda>t. bindA (next_append N W t) (\<lambda>_. liftA (layer_reply N W t)))) (chunk_cells xs pos0) s"
    unfolding qs_prefill_prep by (rule next_cells [OF i n]) (simp add: act_run)
  have "qs_prefill_chunk N W xs pos0 s = (Inr outs, s') \<longleftrightarrow> (\<exists>full. bindA ?apps (\<lambda>ts. liftA (\<lambda>s. mapR (\<lambda>t. layer_reply N W t s) ts)) s = (Inr full, s')
      \<and> outs = map (\<lambda>(r, tok). (r, qt_q_idx tok)) full)"
    unfolding qs_chunk_prep bindA_Inr apps by (auto simp: act_run mapR_replies)
  then show ?thesis unfolding layer.prepared_chunk [OF i] each .
qed

lemma prefill_next:
  assumes i: "layer_inv N s" and n: "qs_n_kv s = pos0" and run: "qs_prefill N W xs pos0 s = (Inr full, s')"
  shows "layer_inv N s' \<and> qs_n_kv s' = pos0 + int (length xs)"
  using i n run
proof (induction xs arbitrary: pos0 s full)
  case (Cons x xs)
  obtain o1 u os where d: "decode_token N W (x, pos0) None s = (Inr o1, u)" "qs_prefill N W xs (pos0 + 1) u = (Inr os, s')"
    using Cons.prems(3) unfolding qs_prefill_def chunk_cells_Cons mapA_Cons_Inr by blast
  obtain tok where "qs_append N W (tok, pos0) s = (Inr (), u)"
    using d(1) by (auto simp: decode_token_def bindA_Inr act_run)
  then have "next_append N W (tok, pos0) s = (Inr (), u)" by (simp add: next_append_def Cons.prems(2))
  then obtain h y where h: "qs_holds N s h" "qs_ok u" "qs_holds N u (h @ [y])" by (rule next_append_step [OF Cons.prems(1)])
  have "layer_inv N u" "qs_n_kv u = pos0 + 1"
    using h qs_holdsD(1) [OF h(1)] qs_holdsD(1) [OF h(3)] Cons.prems(2) by (auto simp: layer_inv_def)
  from Cons.IH [OF this d(2)] show ?case by simp
qed (simp add: qs_prefill_def chunk_cells_def act_run)

text \<open>C22. On a fresh layer, with or without an mRoPE table, after a token-by-token prefill of any length,
  prefilling a chunk returns exactly when the token-by-token prefill does, with the same ids, attention, gated
  values and layer outputs and the same final state.\<close>

theorem chunk_prefill_matches_prefill:
  "qs_init N mc g base = Inr t0 \<Longrightarrow> qs_set_mrope tab t0 = (Inr (), t1) \<Longrightarrow> qs_prefill N W xs0 0 t1 = (Inr o0, t) \<Longrightarrow>
     qs_prefill_chunk N W xs (int (length xs0)) t = (Inr outs, t')
     \<longleftrightarrow> (\<exists>full. qs_prefill N W xs (int (length xs0)) t = (Inr full, t') \<and> outs = map (\<lambda>(r, tok). (r, qt_q_idx tok)) full)"
proof -
  assume i: "qs_init N mc g base = Inr t0" and m: "qs_set_mrope tab t0 = (Inr (), t1)" and run: "qs_prefill N W xs0 0 t1 = (Inr o0, t)"
  have t1: "t1 = t0\<lparr>qs_mrope := tab\<rparr>" using m by (auto simp: qs_set_mrope_def bindA_Inr act_run)
  note init = init_holds [OF i]
  have "qs_ok t1" "qs_holds N t1 []" using init(1,2) by (simp_all add: t1 qs_ok_def qs_holds_def Let_def)
  then have "layer_inv N t1" "qs_n_kv t1 = 0" using qs_holdsD(1) [of N t1 "[]"] by (auto simp: layer_inv_def)
  from prefill_next [OF this run] have "layer_inv N t" "qs_n_kv t = int (length xs0)" by simp_all
  then show ?thesis by (rule chunk_at_next)
qed

end
