(* ===== verification/Qsa_Move.thy ===== *)
theory Qsa_Move
  imports Qsa_Cache_Thms
begin

text \<open>
  Moving a sequence: the pages and side state \<open>export_seq\<close> takes out of one cache, written by
  \<open>import_seq\<close> through the block table of another, answer as before.
\<close>

section \<open>Whole pages\<close>

definition pages_after :: "nat list \<Rightarrow> (nat \<times> (byte_list \<Rightarrow> byte_list)) list \<Rightarrow> byte_list list \<Rightarrow> byte_list list" where
  "pages_after row xs pages = fold (\<lambda>(l, f) pgs. pgs[row ! l := f (pgs ! (row ! l))]) xs pages"

lemma pages_after_simps [simp]:
  "pages_after row [] pages = pages"
  "pages_after row ((l, f) # xs) pages = pages_after row xs (pages[row ! l := f (pages ! (row ! l))])"
  by (simp_all add: pages_after_def)

lemma length_pages_after [simp]: "length (pages_after row xs pages) = length pages"
  by (induction xs arbitrary: pages) auto

lemma pages_after_other: "(\<forall>(l, f) \<in> set xs. row ! l \<noteq> p) \<Longrightarrow> pages_after row xs pages ! p = pages ! p"
  by (induction xs arbitrary: pages) auto

lemma pages_after_width:
  "(\<forall>(l, f) \<in> set xs. row ! l < length pages) \<Longrightarrow> (\<forall>pg \<in> set pages. length pg = w) \<Longrightarrow> (\<forall>(l, f) \<in> set xs. \<forall>pg. length pg = w \<longrightarrow> length (f pg) = w) \<Longrightarrow>
     \<forall>pg \<in> set (pages_after row xs pages). length pg = w"
proof (induction xs arbitrary: pages)
  case (Cons x xs)
  obtain l f where x: "x = (l, f)" by force
  have "\<forall>pg \<in> set (pages[row ! l := f (pages ! (row ! l))]). length pg = w"
    using Cons.prems by (auto simp: x dest!: set_update_subset_insert [THEN subsetD])
  then show ?case using Cons.IH [of "pages[row ! l := f (pages ! (row ! l))]"] Cons.prems by (simp add: x)
qed simp

lemma pages_after_const:
  "distinct row \<Longrightarrow> distinct (map fst xs) \<Longrightarrow> (\<forall>(l, p) \<in> set xs. l < length row \<and> row ! l < length pages) \<Longrightarrow> (l, p) \<in> set xs \<Longrightarrow>
     pages_after row (map (\<lambda>(l, p). (l, \<lambda>_. p)) xs) pages ! (row ! l) = p"
proof (induction xs arbitrary: pages)
  case (Cons x xs)
  obtain l' p' where x: "x = (l', p')" by force
  show ?case
  proof (cases "l = l'")
    case True
    have none: "\<forall>(k, f) \<in> set (map (\<lambda>(l, p). (l, \<lambda>_. p)) xs). row ! k \<noteq> row ! l"
    proof (clarsimp)
      fix k q assume kq: "(k, q) \<in> set xs" and e: "row ! k = row ! l"
      have "k < length row" "l < length row" using Cons.prems(3) kq by (auto simp: x True)
      then have "k = l" using e Cons.prems(1) by (simp add: nth_eq_iff_index_eq)
      then show False using Cons.prems(2) kq by (force simp: x True)
    qed
    have "p = p'" using Cons.prems(2,4) True by (force simp: x)
    then show ?thesis using pages_after_other [OF none] Cons.prems(3) by (simp add: x True)
  next
    case False
    then show ?thesis using Cons.IH [of "pages[row ! l' := p']"] Cons.prems by (auto simp: x)
  qed
qed simp

lemma set_page_run:
  assumes s: "qp_ok s" and at: "q < length (qp_table s)" "l < length (qp_table s ! q)"
  shows "set_page q l f s = (Inr (), s\<lparr>qp_pages := (qp_pages s)[qp_table s ! q ! l := f (qp_pages s ! (qp_table s ! q ! l))]\<rparr>)"
proof -
  have "qp_table s ! q ! l \<in> set (concat (qp_table s))" by (rule table_mem [OF at])
  then have "qp_table s ! q ! l < length (qp_pages s)" using s unfolding qp_ok_def pool_inv_def by blast
  then show ?thesis using at by (simp add: set_page_def bindA_run act_run qp_phys_run)
qed

lemma qp_ok_pages:
  assumes "qp_ok s" "length pages = length (qp_pages s)" "\<forall>pg \<in> set pages. length pg = pl_page_bytes (qp_layout s)"
  shows "qp_ok (s\<lparr>qp_pages := pages\<rparr>)"
  using assms by (simp add: qp_ok_def pool_inv_def)

lemma set_pages_run:
  "qp_ok s \<Longrightarrow> q < length (qp_table s) \<Longrightarrow> (\<forall>(l, f) \<in> set xs. l < length (qp_table s ! q) \<and> (\<forall>pg. length pg = pl_page_bytes (qp_layout s) \<longrightarrow> length (f pg) = pl_page_bytes (qp_layout s))) \<Longrightarrow>
     \<exists>us. mapA (\<lambda>(l, f). set_page q l f) xs s = (Inr us, s\<lparr>qp_pages := pages_after (qp_table s ! q) xs (qp_pages s)\<rparr>)
       \<and> qp_ok (s\<lparr>qp_pages := pages_after (qp_table s ! q) xs (qp_pages s)\<rparr>)"
proof (induction xs arbitrary: s)
  case (Cons x xs)
  obtain l f where x: "x = (l, f)" by force
  let ?pages = "(qp_pages s)[qp_table s ! q ! l := f (qp_pages s ! (qp_table s ! q ! l))]"
  let ?t = "s\<lparr>qp_pages := ?pages\<rparr>"
  have l: "l < length (qp_table s ! q)" using Cons.prems(3) by (simp add: x)
  have "qp_table s ! q ! l \<in> set (concat (qp_table s))" by (rule table_mem [OF Cons.prems(2) l])
  then have in_range: "qp_table s ! q ! l < length (qp_pages s)" "\<forall>pg \<in> set (qp_pages s). length pg = pl_page_bytes (qp_layout s)"
    using Cons.prems(1) unfolding qp_ok_def pool_inv_def by blast+
  have "qp_ok ?t" by (rule qp_ok_pages [OF Cons.prems(1)])
      (use in_range Cons.prems(3) in \<open>auto simp: x dest!: set_update_subset_insert [THEN subsetD]\<close>)
  from Cons.IH [OF this] Cons.prems(2,3)
  obtain us where "mapA (\<lambda>(l, f). set_page q l f) xs ?t = (Inr us, s\<lparr>qp_pages := pages_after (qp_table s ! q) xs ?pages\<rparr>)"
      "qp_ok (s\<lparr>qp_pages := pages_after (qp_table s ! q) xs ?pages\<rparr>)" by (auto simp: x)
  moreover have "set_page q l f s = (Inr (), ?t)" by (rule set_page_run [OF Cons.prems(1,2) l])
  ultimately show ?case unfolding mapA_Cons_Inr by (auto simp: x)
qed (simp add: act_run)

lemma mapA_map: "mapA f (map g xs) = mapA (\<lambda>x. f (g x)) xs"
  by (induction xs) auto

section \<open>Zeroing and importing\<close>

definition zero_pages :: "nat list \<Rightarrow> byte_list list \<Rightarrow> byte_list list" where
  "zero_pages row pages = pages_after row (map (\<lambda>l. (l, map (\<lambda>_. 0))) [0..<length row]) pages"

definition zeroed :: "('f, 'd) np \<Rightarrow> nat \<Rightarrow> ('f, 'd) qsa_paged \<Rightarrow> ('f, 'd) qsa_paged" where
  "zeroed N q s = s\<lparr>qp_pages := zero_pages (qp_table s ! q) (qp_pages s),
      qp_tail := (qp_tail s)[q := map (map (\<lambda>_. f_int N 0)) (qp_tail s ! q)],
      qp_dead := (qp_dead s)[q := map (\<lambda>_. f_int N 0) (qp_dead s ! q)],
      qp_have_dead := (qp_have_dead s)[q := False], qp_block_pos := (qp_block_pos s)[q := 0], qp_n_kv := (qp_n_kv s)[q := 0],
      qp_pos := (qp_pos s)[q := - 1]\<rparr>"

lemma zero_seq_run:
  assumes s: "qp_ok s" and q: "q < length (qp_table s)"
  shows "zero_seq N q s = (Inr (), zeroed N q s)" "qp_ok (zeroed N q s)"
proof -
  let ?pages = "zero_pages (qp_table s ! q) (qp_pages s)"
  have row: "length (hd (qp_table s)) = length (qp_table s ! q)" using s q by (auto simp: qp_ok_def)
  obtain us where us: "mapA (\<lambda>l. set_page q l (map (\<lambda>_. 0))) [0..<length (qp_table s ! q)] s = (Inr us, s\<lparr>qp_pages := ?pages\<rparr>)"
      "qp_ok (s\<lparr>qp_pages := ?pages\<rparr>)"
    using set_pages_run [OF s q, of "map (\<lambda>l. (l, map (\<lambda>_. 0))) [0..<length (qp_table s ! q)]"]
    unfolding mapA_map by (auto simp: zero_pages_def)
  have t: "q < length (qp_tail s)" using s q by (simp add: qp_ok_def)
  then show "zero_seq N q s = (Inr (), zeroed N q s)" using us row by (simp add: zero_seq_def withA_def bindA_run act_run zeroed_def)
  have "\<forall>x \<in> set ((qp_tail s)[q := map (map (\<lambda>_. f_int N 0)) (qp_tail s ! q)]).
      length x = gm_idx_block (qp_geom s) - 1 \<and> (\<forall>y \<in> set x. length y = gm_idx_dim (qp_geom s))"
    using s nth_mem [OF t] by (auto simp: qp_ok_def dest!: set_update_subset_insert [THEN subsetD])
  moreover have "\<forall>n \<in> set ((qp_n_kv s)[q := 0]). 0 \<le> n" using s by (auto simp: qp_ok_def dest!: set_update_subset_insert [THEN subsetD])
  ultimately show "qp_ok (zeroed N q s)" using us(2) by (simp add: qp_ok_def zeroed_def)
qed

lemma np_reshape_concat:
  "length rows = c \<Longrightarrow> (\<forall>r \<in> set rows. length r = n) \<Longrightarrow> np_reshape c n (concat rows) = Inr rows"
  using length_concat_same [of rows n] by (simp add: np_reshape_def view_rows_concat)

text \<open>An import with the right shapes.\<close>

definition blob_ok :: "('f, 'd) qsa_paged \<Rightarrow> nat \<Rightarrow> 'f exported \<Rightarrow> bool" where
  "blob_ok t q blob \<longleftrightarrow> ex_pos_base blob = qp_pos_base t ! q \<and> length (ex_pages blob) = length (ex_logical blob)
     \<and> (\<forall>p \<in> set (ex_pages blob). length p = pl_page_bytes (qp_layout t)) \<and> distinct (ex_logical blob)
     \<and> (\<forall>l \<in> set (ex_logical blob). l < length (qp_table t ! q)) \<and> length (ex_tail blob) = gm_idx_block (qp_geom t) - 1
     \<and> (\<forall>x \<in> set (ex_tail blob). length x = gm_idx_dim (qp_geom t)) \<and> length (ex_dead blob) = gm_idx_dim (qp_geom t) \<and> 0 \<le> ex_n_kv blob"

definition imported_pages :: "('f, 'd) qsa_paged \<Rightarrow> nat \<Rightarrow> 'f exported \<Rightarrow> byte_list list" where
  "imported_pages t q blob = pages_after (qp_table t ! q) (map (\<lambda>(l, p). (l, \<lambda>_. p)) (zip (ex_logical blob) (ex_pages blob)))
     (zero_pages (qp_table t ! q) (qp_pages t))"

definition imported :: "('f, 'd) qsa_paged \<Rightarrow> nat \<Rightarrow> 'f exported \<Rightarrow> ('f, 'd) qsa_paged" where
  "imported t q blob = t\<lparr>qp_pages := imported_pages t q blob, qp_tail := (qp_tail t)[q := ex_tail blob],
      qp_dead := (qp_dead t)[q := ex_dead blob], qp_have_dead := (qp_have_dead t)[q := ex_have_dead blob],
      qp_block_pos := (qp_block_pos t)[q := ex_block_pos blob], qp_n_kv := (qp_n_kv t)[q := ex_n_kv blob], qp_pos := (qp_pos t)[q := ex_pos blob]\<rparr>"

lemma import_run:
  fixes t :: "('a, 'b) qsa_paged"
  assumes t: "qp_ok t" and q: "q < length (qp_table t)" and b: "blob_ok t q blob"
  shows "import_seq N q blob t = (Inr (), imported t q blob)" "qp_ok (imported t q blob)"
proof -
  let ?xs = "zip (ex_logical blob) (ex_pages blob)" and ?z = "zeroed N q t"
  note z = zero_seq_run [OF t q, of N]
  have zsel: "qp_table ?z = qp_table t" "qp_layout ?z = qp_layout t" "qp_geom ?z = qp_geom t" by (simp_all add: zeroed_def)
  have each: "\<forall>(l, f) \<in> set (map (\<lambda>(l, p). (l, \<lambda>_. p)) ?xs). l < length (qp_table ?z ! q)
      \<and> (\<forall>pg. length pg = pl_page_bytes (qp_layout ?z) \<longrightarrow> length (f pg) = pl_page_bytes (qp_layout ?z))"
    using b by (auto simp: blob_ok_def zsel dest: set_zip_leftD set_zip_rightD)
  have pg: "\<exists>us. mapA (\<lambda>(l, f). set_page q l f) (map (\<lambda>(l, p). (l, \<lambda>_. p)) ?xs) ?z = (Inr us, ?z\<lparr>qp_pages := imported_pages t q blob\<rparr>)"
    and ok: "qp_ok (?z\<lparr>qp_pages := imported_pages t q blob\<rparr>)"
    using set_pages_run [OF z(2) _ each] q unfolding zsel by (auto simp: imported_pages_def zeroed_def)
  have fun_eq: "(\<lambda>x. (\<lambda>(l, f). set_page q l f) ((\<lambda>(l, p). (l, \<lambda>_. p)) x)) = (\<lambda>(l, p). set_page q l (\<lambda>_. p) :: ('a, 'b, unit) qp_act)"
    by (auto simp: fun_eq_iff)
  obtain us where us: "mapA (\<lambda>(l, p). set_page q l (\<lambda>_. p)) ?xs ?z = (Inr us, ?z\<lparr>qp_pages := imported_pages t q blob\<rparr>)"
    using pg unfolding mapA_map fun_eq by blast
  have g1: "bindR (np_at (qp_pos_base t) q) (\<lambda>base. raise_if (ex_pos_base blob \<noteq> base) (ValueError ''pos_base mismatch'')) = Inr ()"
    using b t q by (simp add: blob_ok_def qp_ok_def)
  have g2: "raise_if (length (ex_pages blob) \<noteq> length (ex_logical blob) \<or> (\<exists>p \<in> set (ex_pages blob). length p \<noteq> pl_page_bytes (qp_layout t))) (ValueError ''pages'') = Inr ()"
    using b by (auto simp: blob_ok_def raise_if_def)
  have g3: "np_reshape (gm_idx_block (qp_geom t) - 1) (gm_idx_dim (qp_geom t)) (concat (ex_tail blob)) = Inr (ex_tail blob)"
    by (rule np_reshape_concat) (use b in \<open>simp_all add: blob_ok_def\<close>)
  have g4: "np_vector (gm_idx_dim (qp_geom t)) (ex_dead blob) = Inr (ex_dead blob)" using b by (simp add: blob_ok_def np_vector_def)
  show "import_seq N q blob t = (Inr (), imported t q blob)"
    unfolding import_seq_def withA_def Let_def bindA_liftA g1 g2 sum.case
    by (subst bindA_run, unfold z(1) prod.case sum.case, subst bindA_run, unfold us prod.case sum.case bindA_liftA g3 g4)
       (simp add: bindA_run act_run zeroed_def imported_def)
  have "\<forall>x \<in> set ((qp_tail t)[q := ex_tail blob]). length x = gm_idx_block (qp_geom t) - 1 \<and> (\<forall>y \<in> set x. length y = gm_idx_dim (qp_geom t))"
    using t b by (auto simp: qp_ok_def blob_ok_def dest!: set_update_subset_insert [THEN subsetD])
  moreover have "\<forall>n \<in> set ((qp_n_kv t)[q := ex_n_kv blob]). 0 \<le> n"
    using t b by (auto simp: qp_ok_def blob_ok_def dest!: set_update_subset_insert [THEN subsetD])
  ultimately show "qp_ok (imported t q blob)" using ok by (simp add: qp_ok_def zeroed_def imported_def)
qed

section \<open>Exporting\<close>

text \<open>Logical blocks a sequence of \<open>n\<close> cells uses.\<close>

definition blocks_of :: "nat \<Rightarrow> nat \<Rightarrow> nat" where
  "blocks_of bs n = (if n = 0 then 0 else Suc ((n - 1) div bs))"

lemma blocks_of_le: "0 < bs \<Longrightarrow> n \<le> m * bs \<Longrightarrow> blocks_of bs n \<le> m"
  by (auto simp: blocks_of_def Suc_le_eq less_mult_imp_div_less)

lemma used_blocks:
  assumes "0 < bs" shows "nat (if int n \<noteq> 0 then (int n + int bs - 1) div int bs else 0) = blocks_of bs n"
proof (cases n)
  case (Suc m)
  have "int n + int bs - 1 = int (m + bs)" unfolding Suc by simp
  then have d: "(int n + int bs - 1) div int bs = int ((m + bs) div bs)" by (simp only: zdiv_int)
  have "(m + bs) div bs = Suc (m div bs)" using assms by (simp add: div_add_self2)
  then have "nat ((int n + int bs - 1) div int bs) = Suc (m div bs)" unfolding d nat_int .
  moreover have "int n \<noteq> 0" "blocks_of bs n = Suc (m div bs)" by (simp_all add: Suc blocks_of_def)
  ultimately show ?thesis by (simp del: of_nat_eq_0_iff)
qed (simp add: blocks_of_def)

lemma block_used: "0 < bs \<Longrightarrow> j < n \<Longrightarrow> j div bs < blocks_of bs n"
  by (auto simp: blocks_of_def less_Suc_eq_le intro!: div_le_mono)

text \<open>A sequence whose cells are all in reach of its block table.\<close>

definition fits :: "('f, 'd) qsa_paged \<Rightarrow> nat \<Rightarrow> nat \<Rightarrow> bool" where
  "fits s q n \<longleftrightarrow> q < length (qp_table s) \<and> qp_n_kv s ! q = int n \<and> blocks_of (pl_block_size (qp_layout s)) n \<le> length (qp_table s ! q)"

definition exported_of :: "('f, 'd) qsa_paged \<Rightarrow> nat \<Rightarrow> nat \<Rightarrow> 'f exported" where
  "exported_of s q n = \<lparr>ex_pos = qp_pos s ! q, ex_n_kv = int n, ex_pos_base = qp_pos_base s ! q, ex_tail = qp_tail s ! q,
     ex_dead = qp_dead s ! q, ex_block_pos = qp_block_pos s ! q, ex_have_dead = qp_have_dead s ! q, ex_block_table = qp_table s ! q,
     ex_pages = map (\<lambda>l. qp_pages s ! (qp_table s ! q ! l)) [0..<blocks_of (pl_block_size (qp_layout s)) n],
     ex_logical = [0..<blocks_of (pl_block_size (qp_layout s)) n]\<rparr>"

lemma table_page:
  assumes "qp_ok s" "q < length (qp_table s)" "l < length (qp_table s ! q)"
  shows "qp_table s ! q ! l < length (qp_pages s)" "length (qp_pages s ! (qp_table s ! q ! l)) = pl_page_bytes (qp_layout s)"
proof -
  have "qp_table s ! q ! l \<in> set (concat (qp_table s))" by (rule table_mem [OF assms(2,3)])
  then show "qp_table s ! q ! l < length (qp_pages s)" using assms(1) unfolding qp_ok_def pool_inv_def by blast
  then show "length (qp_pages s ! (qp_table s ! q ! l)) = pl_page_bytes (qp_layout s)"
    using assms(1) by (simp add: qp_ok_def pool_inv_def)
qed

lemma export_run:
  assumes s: "qp_ok s" and f: "fits s q n"
  shows "export_seq s q = Inr (exported_of s q n)"
proof -
  have bs: "0 < pl_block_size (qp_layout s)" by (rule qp_ok_lay(2) [OF s])
  have q: "q < length (qp_n_kv s)" "qp_n_kv s ! q = int n" using f s by (simp_all add: fits_def qp_ok_def)
  have used: "used_logical s q = Inr [0..<blocks_of (pl_block_size (qp_layout s)) n]"
    unfolding used_logical_def Let_def np_at_run [OF q(1)] q(2) bindR_simps used_blocks [OF bs] ..
  have "mapR (\<lambda>b. bindR (qp_phys s q (int b)) (np_at (qp_pages s))) [0..<blocks_of (pl_block_size (qp_layout s)) n]
      = Inr (map (\<lambda>l. qp_pages s ! (qp_table s ! q ! l)) [0..<blocks_of (pl_block_size (qp_layout s)) n])"
  proof (rule mapR_total)
    fix l assume "l \<in> set [0..<blocks_of (pl_block_size (qp_layout s)) n]"
    then have "q < length (qp_table s)" "l < length (qp_table s ! q)" using f by (auto simp: fits_def)
    then show "bindR (qp_phys s q (int l)) (np_at (qp_pages s)) = Inr (qp_pages s ! (qp_table s ! q ! l))"
      using table_page [OF s] by (simp add: qp_phys_run)
  qed
  then show ?thesis by (simp add: export_seq_def used exported_of_def q(2))
qed

lemma exported_blob_ok:
  assumes s: "qp_ok s" "dead_ok s" "fits s q n" and t: "qp_ok t" "q' < length (qp_table t)"
    and same: "qp_layout t = qp_layout s" "qp_geom t = qp_geom s" "qp_pos_base t ! q' = qp_pos_base s ! q"
    and room: "blocks_of (pl_block_size (qp_layout s)) n \<le> length (qp_table t ! q')"
  shows "blob_ok t q' (exported_of s q n)"
proof -
  have q: "q < length (qp_table s)" "q < length (qp_tail s)" "q < length (qp_dead s)" using s(1,3) by (simp_all add: fits_def qp_ok_def)
  have tl: "length (qp_tail s ! q) = gm_idx_block (qp_geom s) - 1 \<and> (\<forall>x \<in> set (qp_tail s ! q). length x = gm_idx_dim (qp_geom s))"
    using s(1) nth_mem [OF q(2)] by (simp add: qp_ok_def)
  moreover have "length (qp_dead s ! q) = gm_idx_dim (qp_geom s)" using s(2) nth_mem [OF q(3)] by (simp add: dead_ok_def)
  moreover have "length (qp_pages s ! (qp_table s ! q ! l)) = pl_page_bytes (qp_layout s)" if "l < blocks_of (pl_block_size (qp_layout s)) n" for l
    using table_page(2) [OF s(1) q(1)] that s(3) by (simp add: fits_def)
  ultimately show ?thesis using room by (auto simp: blob_ok_def exported_of_def same)
qed

section \<open>The moved sequence\<close>

text \<open>Every used page of the moved sequence is the page it was exported from; other sequences keep theirs.\<close>

lemma moved_pages:
  assumes s: "qp_ok s" "fits s q n" and t: "qp_ok t" "q' < length (qp_table t)"
    and room: "blocks_of (pl_block_size (qp_layout s)) n \<le> length (qp_table t ! q')" and l: "l < blocks_of (pl_block_size (qp_layout s)) n"
  shows "qp_pages (imported t q' (exported_of s q n)) ! (qp_table t ! q' ! l) = qp_pages s ! (qp_table s ! q ! l)"
proof -
  let ?u = "blocks_of (pl_block_size (qp_layout s)) n"
  let ?xs = "zip [0..<?u] (map (\<lambda>l. qp_pages s ! (qp_table s ! q ! l)) [0..<?u])"
  have "distinct (concat (qp_table t))" using t(1) by (simp add: qp_ok_def pool_inv_def)
  then have dist: "distinct (qp_table t ! q')" using t(2) nth_mem by (auto simp: distinct_concat_iff)
  have "map fst ?xs = [0..<?u]" by simp
  then have d2: "distinct (map fst ?xs)" by (simp only: distinct_upt)
  have rng: "\<forall>(l, p) \<in> set ?xs. l < length (qp_table t ! q') \<and> qp_table t ! q' ! l < length (zero_pages (qp_table t ! q') (qp_pages t))"
    using room table_page(1) [OF t] by (auto simp: zero_pages_def set_zip)
  have mem: "(l, qp_pages s ! (qp_table s ! q ! l)) \<in> set ?xs" using l by (force simp: set_zip)
  show ?thesis using pages_after_const [OF dist d2 rng mem]
    by (simp add: imported_def imported_pages_def exported_of_def)
qed

lemma other_pages:
  assumes t: "qp_ok t" "q' < length (qp_table t)" and b: "blob_ok t q' blob" and r: "r < length (qp_table t)" "r \<noteq> q'" "l < length (qp_table t ! r)"
  shows "qp_pages (imported t q' blob) ! (qp_table t ! r ! l) = qp_pages t ! (qp_table t ! r ! l)"
proof -
  have ne: "qp_table t ! q' ! k \<noteq> qp_table t ! r ! l" if "k < length (qp_table t ! q')" for k
    using table_inj [of "qp_table t" q' k r l] t r that by (auto simp: qp_ok_def pool_inv_def)
  have "\<forall>(k, f) \<in> set (map (\<lambda>(l, p). (l, \<lambda>_. p)) (zip (ex_logical blob) (ex_pages blob)) :: (nat \<times> (byte_list \<Rightarrow> byte_list)) list).
      qp_table t ! q' ! k \<noteq> qp_table t ! r ! l"
    using b ne by (auto simp: blob_ok_def dest: set_zip_leftD)
  moreover have "\<forall>(k, f) \<in> set (map (\<lambda>l. (l, map (\<lambda>_. 0))) [0..<length (qp_table t ! q')] :: (nat \<times> (byte_list \<Rightarrow> byte_list)) list).
      qp_table t ! q' ! k \<noteq> qp_table t ! r ! l" using ne by auto
  ultimately show ?thesis
    by (simp add: imported_def imported_pages_def zero_pages_def pages_after_other del: set_map)
qed

text \<open>A read of one state is a read of another with the same page in the place.\<close>

lemma read_cell_page:
  assumes s: "qp_ok s" "cell_at s q pos" and t: "qp_ok t" "cell_at t q' pos" and same: "qp_layout t = qp_layout s" "qp_geom t = qp_geom s"
    and pg: "qp_pages t ! (qp_table t ! q' ! cell_l s pos) = qp_pages s ! (qp_table s ! q ! cell_l s pos)"
  shows "read_kv_cell N t q' pos = read_kv_cell N s q pos"
proof -
  have "head_of N t q' (cell_l s pos) (cell_slot s pos) = head_of N s q (cell_l s pos) (cell_slot s pos)"
    by (simp add: fun_eq_iff head_of_def pool_get_def Let_def same pg)
  then show ?thesis using read_kv_cell_run [OF s, of N] read_kv_cell_run [OF t, of N] by (simp add: same)
qed

lemma read_row_page:
  assumes s: "qp_ok s" "row_at s q b" and t: "qp_ok t" "row_at t q' b" and same: "qp_layout t = qp_layout s" "qp_geom t = qp_geom s"
    and pg: "qp_pages t ! (qp_table t ! q' ! (b div pl_n_states (qp_layout s))) = qp_pages s ! (qp_table s ! q ! (b div pl_n_states (qp_layout s)))"
  shows "read_pooled N t q' (int b) = read_pooled N s q (int b)"
  using read_pooled_run [OF s, of N] read_pooled_run [OF t, of N] by (simp add: row_place_def pool_get_def same pg)

text \<open>Cells and rows of a prefix lie in its used blocks.\<close>

lemma prefix_cell:
  assumes s: "qp_ok s" and j: "j < n" and room: "q < length (qp_table s)" "blocks_of (pl_block_size (qp_layout s)) n \<le> length (qp_table s ! q)"
  shows "cell_at s q (int j)" "cell_l s (int j) < blocks_of (pl_block_size (qp_layout s)) n"
proof -
  have l: "cell_l s (int j) = j div pl_block_size (qp_layout s)" by (simp flip: of_nat_div)
  show "cell_l s (int j) < blocks_of (pl_block_size (qp_layout s)) n" unfolding l by (rule block_used [OF qp_ok_lay(2) [OF s] j])
  then show "cell_at s q (int j)" using room unfolding l cell_at_def by (simp flip: of_nat_div)
qed

lemma prefix_row:
  assumes s: "qp_ok s" and b: "b < n div gm_idx_block (qp_geom s)" and pooled: "pl_pooled (qp_layout s)"
    and room: "q < length (qp_table s)" "blocks_of (pl_block_size (qp_layout s)) n \<le> length (qp_table s ! q)"
  shows "row_at s q b" "b div pl_n_states (qp_layout s) < blocks_of (pl_block_size (qp_layout s)) n"
proof -
  let ?r = "gm_idx_block (qp_geom s)"
  have r: "0 < ?r" and bs: "pl_block_size (qp_layout s) = pl_n_states (qp_layout s) * ?r" by (rule qp_ok_lay [OF s])+
  have "b * ?r < n div ?r * ?r" using b r by simp
  also have "\<dots> \<le> n" by (rule div_times_less_eq_dividend)
  finally have "b * ?r div pl_block_size (qp_layout s) < blocks_of (pl_block_size (qp_layout s)) n"
    by (rule block_used [OF qp_ok_lay(2) [OF s]])
  moreover have "b * ?r div pl_block_size (qp_layout s) = b div pl_n_states (qp_layout s)" using r unfolding bs by simp
  ultimately show "b div pl_n_states (qp_layout s) < blocks_of (pl_block_size (qp_layout s)) n" by simp
  then show "row_at s q b" using room pooled by (simp add: row_at_def)
qed

lemma moved_alike:
  assumes s: "qp_ok s" "dead_ok s" "fits s q n" "pl_pooled (qp_layout s)" and t: "qp_ok t" "q' < length (qp_table t)"
    and same: "qp_layout t = qp_layout s" "qp_geom t = qp_geom s" "qp_pos_base t ! q' = qp_pos_base s ! q"
    and room: "blocks_of (pl_block_size (qp_layout s)) n \<le> length (qp_table t ! q')"
  shows "alike N n s q (imported t q' (exported_of s q n)) q'"
proof -
  let ?t = "imported t q' (exported_of s q n)"
  have b: "blob_ok t q' (exported_of s q n)" by (rule exported_blob_ok [OF s(1-3) t same room])
  have okt: "qp_ok ?t" by (rule import_run(2) [OF t b])
  have q: "q < length (qp_table s)" "qp_n_kv s ! q = int n" "blocks_of (pl_block_size (qp_layout s)) n \<le> length (qp_table s ! q)"
    using s(3) by (simp_all add: fits_def)
  have lens: "length (qp_n_kv s) = length (qp_table s)" "length (qp_n_kv t) = length (qp_table t)" "length (qp_dead t) = length (qp_table t)"
      "length (qp_have_dead t) = length (qp_table t)" using s(1) t(1) by (simp_all add: qp_ok_def)
  have sel: "qp_table ?t = qp_table t" "qp_layout ?t = qp_layout s" "qp_geom ?t = qp_geom s" by (simp_all add: imported_def same)
  show ?thesis unfolding alike_def
  proof (intro conjI allI impI)
    fix j assume j: "j < n"
    note c = prefix_cell [OF s(1) j q(1,3)] and c' = prefix_cell(1) [OF okt j, of q']
    show "read_kv_cell N ?t q' (int j) = read_kv_cell N s q (int j)"
      by (rule read_cell_page [OF s(1) c(1) okt]) (use c' t(2) room moved_pages [OF s(1,3) t room c(2)] in \<open>simp_all add: sel\<close>)
  next
    fix b assume b: "b < n div gm_idx_block (qp_geom s)"
    note c = prefix_row [OF s(1) b s(4) q(1,3)] and c' = prefix_row(1) [OF okt, of b n q']
    show "read_pooled N ?t q' (int b) = read_pooled N s q (int b)"
      by (rule read_row_page [OF s(1) c(1) okt]) (use b c' t(2) s(4) room moved_pages [OF s(1,3) t room c(2)] in \<open>simp_all add: sel\<close>)
  qed (use q lens t(2) in \<open>simp_all add: sel imported_def exported_of_def same\<close>)
qed

lemma layout_block_size: "make_layout g bs pooled = Inr lay \<Longrightarrow> pl_block_size lay = nat bs"
  unfolding make_layout_Inr Let_def by simp

lemma holds_fits:
  assumes "qp_ok s" "holds N s q h" "q < length (qp_table s)"
  shows "fits s q (length h)"
proof -
  have "blocks_of (pl_block_size (qp_layout s)) (length h) \<le> length (qp_table s ! q)"
  proof (cases "length h")
    case (Suc m)
    then have "read_kv_cell N s q (int m) = ref_cell N s (h ! m)" "\<exists>c. ref_cell N s (h ! m) = Inr c"
      using holdsD(2,3) [OF assms(2), of m] by simp_all
    then have "cell_at s q (int m)" using read_kv_cell_bad [of s q "int m" N] by fastforce
    then show ?thesis by (simp add: Suc blocks_of_def cell_at_def Suc_le_eq flip: of_nat_div)
  qed (simp add: blocks_of_def)
  then show ?thesis using holdsD(1) [OF assms(2)] assms(3) by (simp add: fits_def)
qed

text \<open>An import keeps what the cache holds of every other sequence.\<close>

lemma import_holds_other:
  assumes t: "qp_ok t" "q' < length (qp_table t)" "pl_pooled (qp_layout t)" and b: "blob_ok t q' blob" and r: "r < length (qp_table t)" "r \<noteq> q'"
    and h: "holds N t r h"
  shows "holds N (imported t q' blob) r h"
proof -
  let ?t = "imported t q' blob"
  have okt: "qp_ok ?t" by (rule import_run(2) [OF t(1,2) b])
  have st: "stat ?t = stat t" by (simp add: stat_def imported_def)
  have same: "qp_n_kv ?t ! r = qp_n_kv t ! r" "qp_tail ?t ! r = qp_tail t ! r" "qp_dead ?t ! r = qp_dead t ! r" "qp_have_dead ?t ! r = qp_have_dead t ! r"
    using r(2) by (simp_all add: imported_def)
  have pg: "pool_get (qp_key t) (r, l, f) (qp_pages ?t) = pool_get (qp_key t) (r, l, f) (qp_pages t)" if "l < length (qp_table t ! r)" for l f
    using other_pages [OF t(1,2) b r that] by (simp add: pool_get_def)
  have cell: "read_kv_cell N ?t r j = read_kv_cell N t r j" for j
    by (rule read_kv_cell_cong [OF t(1) okt st]) (auto simp: cell_fields_def cell_at_def pg)
  have row: "read_pooled N ?t r (int c) = read_pooled N t r (int c)" for c
    by (rule read_pooled_cong [OF t(1) okt st t(3)]) (auto simp: row_place_def row_at_def pg)
  show ?thesis using h ref_stat [OF st, of N] stat_cong(7) [OF st] unfolding holds_def same cell row by simp
qed

text \<open>C18. Exporting a sequence of one cache and importing it into another of the same geometry, under any
  other block table with room for it, never raises; the moved sequence has the same length, position, tail
  and block position, every query at a position it holds gets the same ids, attention and gated outputs,
  and every other sequence of the second cache still holds its own history.\<close>

theorem moved_sequence_answers_alike:
  "qp_create N g table bs True base mrope = Inr s0 \<Longrightarrow> qp_create N g table2 bs True base2 mrope2 = Inr t0 \<Longrightarrow> np_bytes_ok N \<Longrightarrow>
   mapA (append_stored N) ops s0 = (Inr us, s) \<Longrightarrow> mapA (append_stored N) ops2 t0 = (Inr vs, t) \<Longrightarrow> q < length table \<Longrightarrow> q' < length table2 \<Longrightarrow>
   qp_pos_base t0 ! q' = qp_pos_base s0 ! q \<Longrightarrow> length (history q ops) \<le> length (table2 ! q') * nat bs \<Longrightarrow>
     \<exists>blob t'. export_seq s q = Inr blob \<and> import_seq N q' blob t = (Inr (), t')
       \<and> qp_n_kv t' ! q' = int (length (history q ops)) \<and> qp_pos t' ! q' = qp_pos s ! q \<and> qp_tail t' ! q' = qp_tail s ! q
       \<and> qp_block_pos t' ! q' = qp_block_pos s ! q
       \<and> (\<forall>tok. 0 \<le> tk_pos tok \<and> tk_pos tok < int (length (history q ops)) \<longrightarrow> qp_answer N q' tok t' = qp_answer N q tok s)
       \<and> (\<forall>r < length table2. r \<noteq> q' \<longrightarrow> holds N t' r (history r ops2))"
proof -
  assume c: "qp_create N g table bs True base mrope = Inr s0" and c2: "qp_create N g table2 bs True base2 mrope2 = Inr t0" and N: "np_bytes_ok N"
    and run: "mapA (append_stored N) ops s0 = (Inr us, s)" and run2: "mapA (append_stored N) ops2 t0 = (Inr vs, t)"
    and q: "q < length table" and q': "q' < length table2" and base: "qp_pos_base t0 ! q' = qp_pos_base s0 ! q"
    and room: "length (history q ops) \<le> length (table2 ! q') * nat bs"
  note k = created_run [OF c N run] and k2 = created_run [OF c2 N run2]
  let ?n = "length (history q ops)"
  have lay: "qp_layout t = qp_layout s" "pl_block_size (qp_layout s) = nat bs"
    using create_ok(8) [OF c] create_ok(8) [OF c2] layout_block_size k(8) k2(8) by auto
  have tab: "qp_table t = map (map nat) table2" using k2(2) create_ok(9) [OF c2] by (simp add: stat_def)
  have fit: "fits s q ?n" by (rule holds_fits [OF k(1) k(4) [OF q]]) (simp add: k(7) q)
  have tq: "q' < length (qp_table t)" using q' k2(7) by simp
  have pb: "qp_pos_base t ! q' = qp_pos_base s ! q" using base k(2) k2(2) by (simp add: stat_def)
  have rm: "blocks_of (pl_block_size (qp_layout s)) ?n \<le> length (qp_table t ! q')"
    using blocks_of_le [OF qp_ok_lay(2) [OF k(1)], of ?n "length (table2 ! q')"] room q' by (simp add: lay(2) tab)
  have geom: "qp_geom t = qp_geom s" using k(6) k2(6) by simp
  let ?blob = "exported_of s q ?n" and ?t = "imported t q' (exported_of s q (length (history q ops)))"
  have b: "blob_ok t q' ?blob" by (rule exported_blob_ok [OF k(1,3) fit k2(1) tq lay(1) geom pb rm])
  have lens: "q' < length (qp_n_kv t)" "q' < length (qp_pos t)" "q' < length (qp_tail t)" "q' < length (qp_block_pos t)"
    using tq k2(1) by (simp_all add: qp_ok_def)
  have al: "alike N ?n s q ?t q'" by (rule moved_alike [OF k(1,3) fit k(5) k2(1) tq lay(1) geom pb rm])
  show ?thesis
  proof (intro exI conjI allI impI)
    show "export_seq s q = Inr ?blob" by (rule export_run [OF k(1) fit])
    show "import_seq N q' ?blob t = (Inr (), ?t)" by (rule import_run(1) [OF k2(1) tq b])
    show "qp_answer N q' tok ?t = qp_answer N q tok s" if "0 \<le> tk_pos tok \<and> tk_pos tok < int ?n" for tok
      using that by (intro alike_answer [OF al]) simp_all
    show "holds N ?t r (history r ops2)" if "r < length table2" "r \<noteq> q'" for r
      by (rule import_holds_other [OF k2(1) tq _ b _ that(2) k2(4)]) (use that k2(5,7) in simp_all)
  qed (use lens in \<open>simp_all add: imported_def exported_of_def\<close>)
qed

end
