(* ===== verification/Qsa_Witness.thy ===== *)
theory Qsa_Witness
  imports Qsa_Move Qsa_Progress
begin

text \<open>
  The properties of the paged cache at a concrete cache: two sequences over four scattered pages of two
  cells each, and three appends that interleave.
\<close>

lemma demo_run:
  obtains s us s' where "qp_create word_np demo_geom [[2, 0], [1, 3]] 2 True None None = Inr s"
    "mapA (append_stored word_np) demo_ops s = (Inr us, s')"
proof -
  obtain s where s: "qp_create word_np demo_geom [[2, 0], [1, 3]] 2 True None None = Inr s" using demo_create by blast
  have "2 * (gm_n_rot demo_geom div 2) \<le> gm_idx_dim demo_geom" "\<forall>b \<in> set (qp_pos_base s). 0 \<le> b"
    using demo_base [OF s] by (simp_all add: demo_geom_def)
  from ordered_appends_run [OF s word_np_bytes this demo_ordered] s that show ?thesis by blast
qed

lemma demo_history: "history 0 demo_ops = [demo_token 3, demo_token 4]" "history 1 demo_ops = [demo_token 5]" "gm_idx_block demo_geom = 2"
  by (simp_all add: history_def demo_ops_def demo_geom_def)

text \<open>A query of each position.\<close>

definition demo_query :: "int \<Rightarrow> (32 word, 32 word) prepared" where
  "demo_query p = \<lparr>tk_k = replicate 64 7, tk_v = replicate 64 9, tk_raw = [2], tk_q = [replicate 64 1], tk_q_idx = [1],
     tk_q_full = [replicate 128 1], tk_pos = p\<rparr>"

lemma demo_shape: "query_shape demo_geom (demo_query p)"
  by (simp add: query_shape_def demo_geom_def demo_query_def)

theorem ordered_appends_never_raise_witness:
  "\<exists>s us s'. qp_create word_np demo_geom [[2, 0], [1, 3]] 2 True None None = Inr s
     \<and> mapA (append_stored word_np) demo_ops s = (Inr us, s') \<and> (\<exists>a. qp_answer word_np 0 (demo_query 1) s' = Inr a)"
proof -
  obtain s where s: "qp_create word_np demo_geom [[2, 0], [1, 3]] 2 True None None = Inr s" using demo_create by blast
  have "2 * (gm_n_rot demo_geom div 2) \<le> gm_idx_dim demo_geom" "\<forall>b \<in> set (qp_pos_base s). 0 \<le> b"
    using demo_base [OF s] by (simp_all add: demo_geom_def)
  note live = ordered_appends_never_raise [OF s word_np_bytes this demo_ordered]
  have "0 < length [[2, 0], [1, 3 :: int]] \<and> query_shape demo_geom (demo_query 1) \<and> 0 \<le> tk_pos (demo_query 1)
      \<and> tk_pos (demo_query 1) < int (length (history 0 demo_ops)) \<and> length (history 0 demo_ops) \<le> 2 ^ 32"
    unfolding demo_history by (simp add: demo_shape) (simp add: demo_query_def)
  with live s show ?thesis by blast
qed

theorem interleaved_histories_witness:
  "\<exists>s us s' c row. qp_create word_np demo_geom [[2, 0], [1, 3]] 2 True None None = Inr s
     \<and> mapA (append_stored word_np) demo_ops s = (Inr us, s') \<and> qp_n_kv s' ! 0 = 2
     \<and> read_kv_cell word_np s' 0 1 = Inr c \<and> ref_cell word_np s (demo_token 4) = Inr c
     \<and> read_pooled word_np s' 0 0 = Inr row \<and> ref_row word_np s 0 [demo_token 3, demo_token 4] 0 = Inr row"
proof -
  obtain s us s' where r: "qp_create word_np demo_geom [[2, 0], [1, 3]] 2 True None None = Inr s"
    "mapA (append_stored word_np) demo_ops s = (Inr us, s')" by (rule demo_run)
  have "0 < length [[2, 0], [1, 3 :: int]]" by simp
  note h = interleaved_histories [OF r(1) word_np_bytes r(2) this, unfolded demo_history]
  have "\<exists>c. read_kv_cell word_np s' 0 (int 1) = Inr c \<and> ref_cell word_np s ([demo_token 3, demo_token 4] ! 1) = Inr c"
    using h by (simp add: All_less_Suc)
  moreover have "\<exists>row. read_pooled word_np s' 0 (int 0) = Inr row \<and> ref_row word_np s 0 [demo_token 3, demo_token 4] 0 = Inr row"
    using h by simp
  moreover have "qp_n_kv s' ! 0 = 2" using h by simp
  ultimately show ?thesis using r by auto
qed

text \<open>The chunk holds one more token of the first sequence.\<close>

theorem chunk_prefill_is_decode_witness:
  "\<exists>s us t outs t'. qp_create word_np demo_geom [[2, 0], [1, 3]] 2 True None None = Inr s
     \<and> mapA (append_stored word_np) demo_ops s = (Inr us, t)
     \<and> prefill_prepared word_np 0 [demo_query 2] [1] t = (Inr outs, t')
     \<and> mapA (\<lambda>tok. bindA (decode_prepared word_np 0 [1] tok) (\<lambda>o1. retA (o1, tk_q_idx tok))) [demo_query 2] t = (Inr outs, t')"
proof -
  let ?tok = "demo_query 2" and ?x = "(0, (tk_k (demo_query 2), tk_v (demo_query 2), tk_raw (demo_query 2), [1]), 2)"
  obtain s where s: "qp_create word_np demo_geom [[2, 0], [1, 3]] 2 True None None = Inr s" using demo_create by blast
  have side: "2 * (gm_n_rot demo_geom div 2) \<le> gm_idx_dim demo_geom" "\<forall>b \<in> set (qp_pos_base s). 0 \<le> b"
    using demo_base [OF s] by (simp_all add: demo_geom_def)
  have ord: "ordered_ops demo_geom [[2, 0], [1, 3]] (nat 2) (demo_ops @ [?x])"
    unfolding ordered_ops_snoc demo_history using demo_ordered by (simp add: token_shape_def demo_query_def) (simp add: demo_geom_def)
  obtain us u where run: "mapA (append_stored word_np) (demo_ops @ [?x]) s = (Inr us, u)"
    using ordered_appends_run [OF s word_np_bytes side ord] by blast
  obtain vs t where t: "mapA (append_stored word_np) demo_ops s = (Inr vs, t)"
    using ordered_appends_run [OF s word_np_bytes side demo_ordered] by blast
  obtain ws where "mapA (append_stored word_np) [?x] t = (Inr ws, u)" using run t by (auto simp: mapA_append_Inr simp del: mapA.simps)
  then have "append_stored word_np ?x t = (Inr (), u)" unfolding mapA_Cons_Inr by (auto simp: act_run)
  then have app: "qp_append word_np 0 [1] ?tok t = (Inr (), u)" by (simp add: append_stored_def qp_append_def demo_query_def)
  note k = created_run [OF s word_np_bytes run]
  have "\<exists>a. qp_answer word_np 0 ?tok u = Inr a"
    by (rule answer_run [OF k(1) k(4)]) (simp_all add: k(6,7) demo_shape, simp_all add: demo_query_def history_def demo_ops_def)
  then obtain a where "qp_answer word_np 0 ?tok u = Inr a" by blast
  then have "prefill_prepared word_np 0 [?tok] [1] t = (Inr [(a, tk_q_idx ?tok)], u)"
    by (simp add: prefill_prepared_def bindA_run app act_run)
  with chunk_prefill_is_decode [OF s word_np_bytes t] s t show ?thesis by blast
qed

text \<open>The first sequence moves over the second one of an equal cache; the other sequence stays.\<close>

theorem moved_sequence_answers_alike_witness:
  "\<exists>s us t blob t'. qp_create word_np demo_geom [[2, 0], [1, 3]] 2 True None None = Inr s
     \<and> mapA (append_stored word_np) demo_ops s = (Inr us, t) \<and> export_seq t 0 = Inr blob \<and> import_seq word_np 1 blob t = (Inr (), t')
     \<and> qp_n_kv t' ! 1 = 2 \<and> qp_answer word_np 1 (demo_query 1) t' = qp_answer word_np 0 (demo_query 1) t
     \<and> holds word_np t' 0 [demo_token 3, demo_token 4]"
proof -
  obtain s us t where r: "qp_create word_np demo_geom [[2, 0], [1, 3]] 2 True None None = Inr s"
    "mapA (append_stored word_np) demo_ops s = (Inr us, t)" by (rule demo_run)
  have b: "qp_pos_base s ! 1 = qp_pos_base s ! 0" using demo_base [OF r(1)] by simp
  have l: "0 < length [[2, 0], [1, 3 :: int]]" "1 < length [[2, 0], [1, 3 :: int]]"
    "length (history 0 demo_ops) \<le> length ([[2, 0], [1, 3 :: int]] ! 1) * nat 2" by (simp_all add: demo_history)
  obtain blob t' where m: "export_seq t 0 = Inr blob" "import_seq word_np 1 blob t = (Inr (), t')" "qp_n_kv t' ! 1 = int (length (history 0 demo_ops))"
      and a: "\<forall>tok. 0 \<le> tk_pos tok \<and> tk_pos tok < int (length (history 0 demo_ops)) \<longrightarrow> qp_answer word_np 1 tok t' = qp_answer word_np 0 tok t"
      and o: "\<forall>r < length [[2, 0], [1, 3 :: int]]. r \<noteq> 1 \<longrightarrow> holds word_np t' r (history r demo_ops)"
    using moved_sequence_answers_alike [OF r(1) r(1) word_np_bytes r(2) r(2) l(1,2) b l(3)] by blast
  have "qp_answer word_np 1 (demo_query 1) t' = qp_answer word_np 0 (demo_query 1) t"
    using a by (simp add: demo_history demo_query_def)
  moreover have "holds word_np t' 0 [demo_token 3, demo_token 4]" using o l(1) by (auto simp: demo_history)
  moreover have "qp_n_kv t' ! 1 = 2" using m(3) by (simp add: demo_history)
  ultimately show ?thesis using r m(1,2) by blast
qed

end
