(* ===== verification/Qsa_Layer_Run.thy ===== *)
theory Qsa_Layer_Run
  imports Qsa_Prefill Qsa_Witness
begin

text \<open>
  A prefill of the layer never raises when the weights have the shapes of the geometry and the cells fit; and the
  properties of the layer at a concrete one.
\<close>

section \<open>Shapes\<close>

definition mat_shape :: "'f list list \<Rightarrow> nat \<Rightarrow> nat \<Rightarrow> bool" where
  "mat_shape w rows cols \<longleftrightarrow> length w = rows \<and> 0 < rows \<and> (\<forall>r \<in> set w. length r = cols)"

definition weights_shape :: "'f qsa_weights \<Rightarrow> 'd qsa_geom \<Rightarrow> bool" where
  "weights_shape W g \<longleftrightarrow> mat_shape (w_q W) (gm_hidden g) (gm_n_head g * (2 * gm_head_dim g)) \<and> mat_shape (w_k W) (gm_hidden g) (gm_n_kv g * gm_head_dim g)
     \<and> mat_shape (w_v W) (gm_hidden g) (gm_n_kv g * gm_head_dim g) \<and> mat_shape (w_idx_q W) (gm_hidden g) (gm_idx_n_head g * gm_idx_dim g)
     \<and> mat_shape (w_idx_k W) (gm_hidden g) (gm_idx_dim g) \<and> mat_shape (w_o W) (gm_n_head g * gm_head_dim g) (gm_hidden g)
     \<and> length (w_q_norm W) = gm_head_dim g \<and> length (w_k_norm W) = gm_head_dim g \<and> length (w_idx_q_norm W) = gm_idx_dim g
     \<and> length (w_idx_k_norm W) = gm_idx_dim g"

definition geom_live :: "'d qsa_geom \<Rightarrow> bool" where
  "geom_live g \<longleftrightarrow> 0 < gm_n_kv g \<and> gm_n_head g mod gm_n_kv g = 0 \<and> 2 * (gm_n_rot g div 2) \<le> gm_head_dim g \<and> 2 * (gm_n_rot g div 2) \<le> gm_idx_dim g"

lemma project_run: "mat_shape w (length x) cols \<Longrightarrow> \<exists>y. project N x w = Inr y \<and> length y = cols"
  by (cases w) (auto simp: mat_shape_def project_def tab_half_def)

lemma reshape_run: "length y = r * c \<Longrightarrow> np_reshape r c y = Inr (view_rows r c y)"
  by (simp add: np_reshape_def)

lemma view_shape: "length y = r * c \<Longrightarrow> length (view_rows r c y) = r \<and> (\<forall>row \<in> set (view_rows r c y). length row = c)"
  using view_rows_elems [of y r c] by auto

lemma norm_shape: "length gamma = c \<Longrightarrow> (\<forall>row \<in> set rows. length row = c) \<Longrightarrow>
    length (norm_heads N eps gamma rows) = length rows \<and> (\<forall>row \<in> set (norm_heads N eps gamma rows). length row = c)"
  by (auto simp: norm_heads_def rms_norm_rows_def Let_def)

lemma rope_rows_run:
  assumes ok: "rope_ok cs sn half n" and pos: "0 \<le> pos" "pos < int n" and rows: "\<forall>row \<in> set rows. length row = c" "2 * half \<le> c"
  shows "\<exists>zs. rope_rows N pos cs sn None rows = Inr zs \<and> length zs = length rows \<and> (\<forall>row \<in> set zs. length row = c)"
proof -
  have run: "\<exists>z. apply_rope_table N row pos cs sn None = Inr z \<and> length z = c" if "row \<in> set rows" for row
    using rope_run [OF ok pos, of row N] rows that by auto
  then have "apply_rope_table N row pos cs sn None = Inr (projr (apply_rope_table N row pos cs sn None))" if "row \<in> set rows" for row
    using that by fastforce
  then have "rope_rows N pos cs sn None rows = Inr (map (\<lambda>row. projr (apply_rope_table N row pos cs sn None)) rows)"
    unfolding rope_rows_def by (rule mapR_total)
  moreover have "length (projr (apply_rope_table N row pos cs sn None)) = c" if "row \<in> set rows" for row using run [OF that] by auto
  ultimately show ?thesis by auto
qed

definition token_ok :: "'d qsa_geom \<Rightarrow> 'f qs_token \<Rightarrow> bool" where
  "token_ok g tok \<longleftrightarrow> length (qt_q tok) = gm_n_head g \<and> (\<forall>q \<in> set (qt_q tok). length q = gm_head_dim g) \<and> length (qt_q_full tok) = gm_n_head g \<and> (\<forall>q \<in> set (qt_q_full tok). length q = 2 * gm_head_dim g)
     \<and> length (concat (qt_k tok)) = gm_n_kv g * gm_head_dim g \<and> length (concat (qt_v tok)) = gm_n_kv g * gm_head_dim g
     \<and> length (concat (qt_q_idx tok)) = gm_idx_n_head g * gm_idx_dim g \<and> length (qt_raw tok) = gm_idx_dim g"

lemma prepare_run:
  assumes W: "weights_shape W g" and g: "geom_live g" and x: "length x = gm_hidden g"
    and ok: "rope_ok cs sn (gm_n_rot g div 2) n" and pos: "0 \<le> pos" "pos < int n"
  shows "\<exists>tok. prepare_token N x W g pos cs sn None = Inr tok \<and> token_ok g tok"
proof -
  have sh: "mat_shape (w_q W) (length x) (gm_n_head g * (2 * gm_head_dim g))" "mat_shape (w_k W) (length x) (gm_n_kv g * gm_head_dim g)"
      "mat_shape (w_v W) (length x) (gm_n_kv g * gm_head_dim g)" "mat_shape (w_idx_q W) (length x) (gm_idx_n_head g * gm_idx_dim g)"
      "mat_shape (w_idx_k W) (length x) (gm_idx_dim g)" and nm: "length (w_q_norm W) = gm_head_dim g" "length (w_k_norm W) = gm_head_dim g" "length (w_idx_q_norm W) = gm_idx_dim g"
    using W x by (simp_all add: weights_shape_def)
  obtain q k v iq raw where p: "project N x (w_q W) = Inr q" "length q = gm_n_head g * (2 * gm_head_dim g)" "project N x (w_k W) = Inr k" "length k = gm_n_kv g * gm_head_dim g"
      "project N x (w_v W) = Inr v" "length v = gm_n_kv g * gm_head_dim g" "project N x (w_idx_q W) = Inr iq" "length iq = gm_idx_n_head g * gm_idx_dim g"
      "project N x (w_idx_k W) = Inr raw" "length raw = gm_idx_dim g"
    using sh [THEN project_run] by metis
  have half: "2 * (gm_n_rot g div 2) \<le> gm_head_dim g" "2 * (gm_n_rot g div 2) \<le> gm_idx_dim g" using g by (simp_all add: geom_live_def)
  let ?qf = "view_rows (gm_n_head g) (2 * gm_head_dim g) q"
  have heads: "\<forall>row \<in> set (map (take (gm_head_dim g)) ?qf). length row = gm_head_dim g" "length (map (take (gm_head_dim g)) ?qf) = gm_n_head g"
    using view_shape [OF p(2)] by auto
  obtain q' where q': "rope_rows N pos cs sn None (norm_heads N (gm_eps g) (w_q_norm W) (map (take (gm_head_dim g)) ?qf)) = Inr q'" "length q' = gm_n_head g"
      "\<forall>row \<in> set q'. length row = gm_head_dim g"
    using rope_rows_run [OF ok pos _ half(1), of "norm_heads N (gm_eps g) (w_q_norm W) (map (take (gm_head_dim g)) ?qf)" N] norm_shape [OF nm(1) heads(1), of N "gm_eps g"] heads(2) by auto
  obtain k' where k': "rope_rows N pos cs sn None (norm_heads N (gm_eps g) (w_k_norm W) (view_rows (gm_n_kv g) (gm_head_dim g) k)) = Inr k'"
      "length k' = gm_n_kv g" "\<forall>row \<in> set k'. length row = gm_head_dim g"
    using rope_rows_run [OF ok pos _ half(1), of "norm_heads N (gm_eps g) (w_k_norm W) (view_rows (gm_n_kv g) (gm_head_dim g) k)" N]
      norm_shape [OF nm(2), of "view_rows (gm_n_kv g) (gm_head_dim g) k" N "gm_eps g"] view_shape [OF p(4)] by auto
  obtain i' where i': "rope_rows N pos cs sn None (norm_heads N (gm_eps g) (w_idx_q_norm W) (view_rows (gm_idx_n_head g) (gm_idx_dim g) iq)) = Inr i'"
      "length i' = gm_idx_n_head g" "\<forall>row \<in> set i'. length row = gm_idx_dim g"
    using rope_rows_run [OF ok pos _ half(2), of "norm_heads N (gm_eps g) (w_idx_q_norm W) (view_rows (gm_idx_n_head g) (gm_idx_dim g) iq)" N]
      norm_shape [OF nm(3), of "view_rows (gm_idx_n_head g) (gm_idx_dim g) iq" N "gm_eps g"] view_shape [OF p(8)] by auto
  have "prepare_token N x W g pos cs sn None = Inr \<lparr>qt_q_full = ?qf, qt_q = q', qt_k = k', qt_v = view_rows (gm_n_kv g) (gm_head_dim g) v, qt_q_idx = i', qt_raw = raw\<rparr>"
    by (simp add: prepare_token_def p(1,3,5,7,9) p(2,4,6,8) [THEN reshape_run] q' k' i' np_vector_def p(10))
  moreover have "token_ok g \<lparr>qt_q_full = ?qf, qt_q = q', qt_k = k', qt_v = view_rows (gm_n_kv g) (gm_head_dim g) v, qt_q_idx = i', qt_raw = raw\<rparr>"
    using q'(2,3) k'(2) i'(2) length_concat_same [OF k'(3)] length_concat_same [OF i'(3)] length_concat_same [OF conjunct2 [OF view_shape [OF p(6)]]]
      p(10) view_shape [OF p(2)] by (simp add: token_ok_def)
  ultimately show ?thesis by blast
qed

section \<open>Decoding\<close>

lemma spec_attend_run:
  assumes h: "qs_holds N t h" and ids: "\<forall>j \<in> set ids. j < length h" and g: "0 < gm_n_kv (qs_geom t)"
    and q: "\<forall>row \<in> set q. length row = gm_head_dim (qs_geom t)" "length q mod gm_n_kv (qs_geom t) = 0"
  shows "\<exists>attn w. spec_attend N (qs_geom t) (\<lambda>j. projr (qs_ref_cell N (qs_geom t) (h ! j))) q ids = Inr (attn, w)
     \<and> length attn = length q \<and> (\<forall>row \<in> set attn. length row = gm_head_dim (qs_geom t))"
proof -
  let ?g = "qs_geom t" and ?c = "\<lambda>j. projr (qs_ref_cell N (qs_geom t) (h ! j))"
  have one: "heads_shape (gm_n_kv ?g) (gm_head_dim ?g) [map (\<lambda>(k, v). dequant_q8 N (fst k) (snd k)) (?c j)]
      \<and> heads_shape (gm_n_kv ?g) (gm_head_dim ?g) [map (\<lambda>(k, v). dequant_q8 N (fst v) (snd v)) (?c j)]" if "j \<in> set ids" for j
  proof -
    have jl: "j < length h" using ids that by blast
    obtain kq vq where qc: "quant_cell N ?g (fst (h ! j)) = Inr kq" "quant_cell N ?g (fst (snd (h ! j))) = Inr vq"
        "qs_ref_cell N ?g (h ! j) = Inr (zip kq vq)"
      using qs_holdsD(3) [OF h jl] by (auto simp: qs_ref_cell_def bindR_eq_Inr)
    then show ?thesis using dequant_cell_shape [OF qc(1,2)] by simp
  qed
  then have "heads_shape (gm_n_kv ?g) (gm_head_dim ?g) (map (\<lambda>j. map (\<lambda>(k, v). dequant_q8 N (fst k) (snd k)) (?c j)) ids)"
    "heads_shape (gm_n_kv ?g) (gm_head_dim ?g) (map (\<lambda>j. map (\<lambda>(k, v). dequant_q8 N (fst v) (snd v)) (?c j)) ids)"
    by (simp_all add: heads_shape_def)
  from attend_run [OF this _ q(1) g q(2), of N] show ?thesis by (simp add: spec_attend_def)
qed

lemma layer_answer_run:
  assumes ok: "qs_ok t" and h: "qs_holds N t h" and tok: "token_ok (qs_geom t) tok" and g: "geom_live (qs_geom t)" and W: "weights_shape W (qs_geom t)"
    and p: "p < length h" and len: "length h \<le> 2 ^ 32"
  shows "\<exists>a. qs_answer N W (tok, int p) t = Inr a"
proof -
  let ?g = "qs_geom t" and ?x = "concat (qt_q_idx tok)"
  have m: "0 < Suc p" "Suc p \<le> length h" using p by simp_all
  obtain w where w: "width_at ?g (int (Suc p)) = Inr w" by (simp add: width_at_def selection_width_def)
  obtain sc where sc: "spec_scores N ?g (\<lambda>b. projr (qs_ref_row N t h b)) (qs_dead t) ?x (Suc p) = Inr sc" "length sc = Suc p"
    using tok by (simp add: spec_scores_def token_ok_def np_reshape_def length_indexer_scores)
  let ?ids = "radix_sel N sc (min (nat w) (Suc p))"
  have sel: "qs_select N t ?x (int (Suc p)) = Inr ?ids"
    using topk_radix_run [of sc N w] m(2) len sc w unfolding state_select [OF h m] by (simp add: spec_select_def)
  have ids: "\<forall>i \<in> set ?ids. i < length h" using sc(2) m(2) by (auto simp: radix_sel_def split: if_splits)
  obtain attn wt where a: "qs_attend_ids N (qt_q tok) t (map int ?ids) = Inr (attn, wt)"
      "length attn = gm_n_head ?g" "\<forall>row \<in> set attn. length row = gm_head_dim ?g"
    using spec_attend_run [OF h ids, of "qt_q tok"] g tok unfolding state_attend [OF ok h ids] by (auto simp: geom_live_def token_ok_def)
  obtain gated where y: "gate_fp16 N attn (qt_q_full tok) = Inr gated" "length (concat gated) = gm_n_head ?g * gm_head_dim ?g"
    using gate_run [OF a(2) _ a(3), of "qt_q_full tok" N] tok length_concat_same by (metis token_ok_def)
  then obtain y where "project N (concat gated) (w_o W) = Inr y"
    using project_run [of "w_o W" "concat gated" "gm_hidden ?g" N] W by (auto simp: weights_shape_def)
  then show ?thesis using sel a(1) y(1) by (simp add: qs_answer_def add.commute)
qed

definition layer_room :: "('f, 'd) np \<Rightarrow> ('f, 'd) qsa_state \<Rightarrow> nat \<Rightarrow> bool" where
  "layer_room N t mc \<longleftrightarrow> (let g = qs_geom t in qs_mrope t = None \<and> 0 \<le> qs_pos_base t \<and> gm_head_dim g mod KV_Q8_GROUP = 0
     \<and> length (qs_page_table t) = (mc + gm_page_size g - 1) div gm_page_size g \<and> length (qs_pooled t) = mc div gm_idx_block g + 1
     \<and> (\<forall>row \<in> set (qs_tail t). length row = gm_idx_dim g)
     \<and> (\<exists>n. rope_ok (qs_cos t) (qs_sin t) (gm_n_rot g div 2) n \<and> qs_pos_base t + int mc < int n))"

lemma layer_store_run:
  assumes ok: "qs_ok t" and h: "qs_holds N t h" and room: "layer_room N t mc" and p: "length h < mc" and g: "geom_live (qs_geom t)"
    and x: "length k = gm_n_kv (qs_geom t) * gm_head_dim (qs_geom t)" "length v = gm_n_kv (qs_geom t) * gm_head_dim (qs_geom t)"
      "length raw = gm_idx_dim (qs_geom t)" "length gamma = gm_idx_dim (qs_geom t)"
  shows "\<exists>t'. qs_store N (k, v, raw, gamma) (int (length h)) t = (Inr (), t') \<and> qs_ok t' \<and> qs_holds N t' (h @ [(k, v, raw, gamma)]) \<and> layer_room N t' mc \<and> qs_stat t' = qs_stat t"
proof -
  let ?g = "qs_geom t" and ?r = "gm_idx_block (qs_geom t)" and ?p = "length h" and ?x = "(k, v, raw, gamma)"
  have pos: "0 < ?r" "0 < gm_page_size ?g" using ok by (simp_all add: qs_ok_def Let_def)
  obtain n where n: "rope_ok (qs_cos t) (qs_sin t) (gm_n_rot ?g div 2) n" "qs_pos_base t + int mc < int n" and mr: "qs_mrope t = None" "0 \<le> qs_pos_base t"
      "gm_head_dim ?g mod KV_Q8_GROUP = 0" and tl: "\<forall>row \<in> set (qs_tail t). length row = gm_idx_dim ?g"
      and len: "length (qs_page_table t) = (mc + gm_page_size ?g - 1) div gm_page_size ?g" "length (qs_pooled t) = mc div ?r + 1"
    using room by (auto simp: layer_room_def Let_def)
  have half: "2 * (gm_n_rot ?g div 2) \<le> gm_idx_dim ?g" using g by (simp add: geom_live_def)
  obtain kq vq where kv: "quant_cell N ?g k = Inr kq" "quant_cell N ?g v = Inr vq" using quant_cell_run x(1,2) mr(3) by metis
  have "(?p + gm_page_size ?g) div gm_page_size ?g \<le> length (qs_page_table t)" unfolding len(1) by (rule div_le_mono) (use p in linarith)
  then have page: "?p div gm_page_size ?g < length (qs_page_table t)" using pos(2) by (simp add: div_add_self2)
  obtain y0 where y0: "qs_dead_row N t raw gamma = Inr y0"
    using rope_run [OF n(1), of 0 "rms_double N raw gamma (gm_eps ?g)" N] half x(3,4) n(2) mr(2) by (auto simp: qs_dead_row_def)
  let ?b = "?p div ?r"
  have c: "?b * ?r \<le> ?p" by (rule div_times_less_eq_dividend)
  have "length (block_mean N ?r (gm_idx_dim ?g) (qs_tail t) raw) = gm_idx_dim ?g" by (rule length_block_mean [OF tl x(3)])
  moreover have "0 \<le> qs_pos_base t + int (?b * ?r)" "qs_pos_base t + int (?b * ?r) < int n" using mr(2) n(2) p c by linarith+
  ultimately obtain y where y: "qs_block_row N t (qs_tail t) raw gamma ?b = Inr y"
    using rope_run [OF n(1), of "qs_pos_base t + int (?b * ?r)" "rms_double N (block_mean N ?r (gm_idx_dim ?g) (qs_tail t) raw) gamma (gm_eps ?g)" N] half x(4)
    by (auto simp: qs_block_row_def Let_def qs_rot_thw_def qs_rot_pos_def mr(1) simp del: of_nat_mult)
  have pooled: "Suc ?b < length (qs_pooled t)" if "?p mod ?r = ?r - 1"
  proof -
    have "Suc ?b * ?r = Suc ?p" using div_mult_mod_eq [of ?p ?r] that pos(1) by simp
    then have "Suc ?b \<le> mc div ?r" using p pos(1) by (simp add: less_eq_div_iff_mult_less_eq)
    then show ?thesis by (simp add: len(2))
  qed
  have st: "qs_step N t ?x ?p kq vq y0 y" using kv page x y0 y pooled by (simp add: qs_step_def Let_def)
  obtain t' where run: "qs_store N ?x (int ?p) t = (Inr (), t')" using qs_store_run [OF ok st] by blast
  obtain kq' vq' y0' y' bp where st': "qs_step N t ?x ?p kq' vq' y0' y'" and t': "t' = qs_stored t ?p (map (to_f N) (st_raw ?x)) kq' vq' y0' y' bp"
    using qs_store_Inr [OF ok run] by blast
  have "qs_ok t'" "qs_holds N t' (h @ [?x])" "qs_stat t' = qs_stat t" unfolding t' using qs_ok_stored [OF ok st'] qs_holds_stored [OF ok h st'] by simp_all
  moreover have "\<forall>row \<in> set (qs_tail t'). length row = gm_idx_dim ?g"
    using tl x(3) by (auto simp: t' qs_stored_def Let_def st_raw_def dest!: set_update_subset_insert [THEN subsetD])
  then have "layer_room N t' mc" using n mr len by (auto simp: layer_room_def Let_def t' qs_stored_def)
  ultimately show ?thesis using run by blast
qed

lemma decode_run:
  assumes ok: "qs_ok t" and h: "qs_holds N t h" and room: "layer_room N t mc" and p: "length h < mc" "mc \<le> 2 ^ 32" and g: "geom_live (qs_geom t)"
    and W: "weights_shape W (qs_geom t)" and x: "length x = gm_hidden (qs_geom t)"
  shows "\<exists>o1 t' y. decode_token N W (x, int (length h)) None t = (Inr o1, t') \<and> qs_ok t' \<and> qs_holds N t' (h @ [y]) \<and> layer_room N t' mc \<and> qs_stat t' = qs_stat t"
proof -
  obtain n where n: "rope_ok (qs_cos t) (qs_sin t) (gm_n_rot (qs_geom t) div 2) n" "qs_pos_base t + int mc < int n" "qs_mrope t = None" "0 \<le> qs_pos_base t"
    using room by (auto simp: layer_room_def Let_def)
  have "0 \<le> qs_pos_base t + int (length h)" "qs_pos_base t + int (length h) < int n" using n(2,4) p(1) by linarith+
  then obtain tok where tok: "prepare_token N x W (qs_geom t) (qs_pos_base t + int (length h)) (qs_cos t) (qs_sin t) None = Inr tok" "token_ok (qs_geom t) tok"
    using prepare_run [OF W g x n(1)] by blast
  let ?x = "(concat (qt_k tok), concat (qt_v tok), map (to_d N) (qt_raw tok), map (to_d N) (w_idx_k_norm W))"
  obtain t' where t': "qs_store N ?x (int (length h)) t = (Inr (), t')" "qs_ok t'" "qs_holds N t' (h @ [?x])" "layer_room N t' mc" "qs_stat t' = qs_stat t"
    using layer_store_run [OF ok h room p(1) g, of "concat (qt_k tok)" "concat (qt_v tok)" "map (to_d N) (qt_raw tok)" "map (to_d N) (w_idx_k_norm W)"] tok(2) W
    by (auto simp: token_ok_def weights_shape_def)
  have gm: "qs_geom t' = qs_geom t" using qs_stat_cong(4) [OF t'(5)] .
  obtain a where a: "qs_answer N W (tok, int (length h)) t' = Inr a"
    using layer_answer_run [OF t'(2,3), of tok W "length h"] tok(2) g W p by (auto simp: gm)
  have "qs_prepare N W (x, int (length h)) None t = Inr tok" using tok(1) n(3) by (simp add: qs_prepare_def qs_rot_thw_def)
  moreover have "qs_append N W (tok, int (length h)) t = (Inr (), t')" using t'(1) by (simp add: qs_append_def qs_store_def)
  ultimately have "decode_token N W (x, int (length h)) None t = (Inr (a, tok), t')" using a by (simp add: decode_token_def bindA_run act_run)
  then show ?thesis using t' by blast
qed

lemma prefill_run:
  assumes "qs_ok t" "qs_holds N t h" "layer_room N t mc" "length h + length xs \<le> mc" "mc \<le> 2 ^ 32" "geom_live (qs_geom t)" "weights_shape W (qs_geom t)"
    "\<forall>x \<in> set xs. length x = gm_hidden (qs_geom t)"
  shows "\<exists>full t'. qs_prefill N W xs (int (length h)) t = (Inr full, t') \<and> length full = length xs"
  using assms(1-4,6-8)
proof (induction xs arbitrary: t h)
  case Nil
  then show ?case by (simp add: qs_prefill_def chunk_cells_def act_run)
next
  case (Cons x xs)
  obtain o1 t' y where d: "decode_token N W (x, int (length h)) None t = (Inr o1, t')" "qs_ok t'" "qs_holds N t' (h @ [y])" "layer_room N t' mc" "qs_stat t' = qs_stat t"
    using decode_run [OF Cons.prems(1-3) _ assms(5) Cons.prems(5,6), of x] Cons.prems(4,7) by auto
  have gm: "qs_geom t' = qs_geom t" using qs_stat_cong(4) [OF d(5)] .
  obtain full t'' where "qs_prefill N W xs (int (length (h @ [y]))) t' = (Inr full, t'')" "length full = length xs"
    using Cons.IH [OF d(2-4)] Cons.prems(4-7) gm by auto
  then show ?case using d(1) unfolding qs_prefill_def chunk_cells_Cons mapA_Cons_Inr by (auto simp: add.commute)
qed

lemma fresh_room:
  assumes i: "qs_init N mc g base = Inr t" and b: "0 \<le> base"
  shows "layer_room N t (nat mc)"
proof -
  note init = init_holds [OF i]
  have "gm_head_dim g mod KV_Q8_GROUP = 0" "\<forall>row \<in> set (qs_tail t). length row = gm_idx_dim g"
    using i by (auto simp: qs_init_def Let_def bindR_eq_Inr raise_if_eq_Inr)
  moreover have "rope_ok (qs_cos t) (qs_sin t) (gm_n_rot g div 2) (nat (mc + max base 0 + 1))"
    using rope_tables_ok [of N "nat (mc + max base 0 + 1)" "gm_n_rot g div 2" "gm_rope_base g"] init(9) by (metis fst_conv snd_conv)
  moreover have "base + int (nat mc) < int (nat (mc + max base 0 + 1))" using b init(3) by simp
  ultimately have "\<exists>n. rope_ok (qs_cos t) (qs_sin t) (gm_n_rot g div 2) n \<and> base + int (nat mc) < int n"
      "gm_head_dim g mod KV_Q8_GROUP = 0" "\<forall>row \<in> set (qs_tail t). length row = gm_idx_dim g" by blast+
  then show ?thesis unfolding layer_room_def Let_def init(4-8) using b by simp
qed

text \<open>On a fresh layer with a non-negative position base, rotary width inside the heads and the indexer row,
  and weights of the shapes of the geometry, a token-by-token prefill of rows of the hidden width that fit
  its cells never raises and answers every token.\<close>

lemma layer_prefill_never_raises:
  "qs_init N mc g base = Inr t \<Longrightarrow> 0 \<le> base \<Longrightarrow> mc \<le> 2 ^ 32 \<Longrightarrow> geom_live g \<Longrightarrow> weights_shape W g \<Longrightarrow> int (length xs) \<le> mc \<Longrightarrow>
   (\<forall>x \<in> set xs. length x = gm_hidden g) \<Longrightarrow> \<exists>full t'. qs_prefill N W xs 0 t = (Inr full, t') \<and> length full = length xs"
proof -
  assume i: "qs_init N mc g base = Inr t" and b: "0 \<le> base" and mc: "mc \<le> 2 ^ 32" "int (length xs) \<le> mc"
    and g: "geom_live g" and W: "weights_shape W g" and xs: "\<forall>x \<in> set xs. length x = gm_hidden g"
  note init = init_holds [OF i]
  have "length [] + length xs \<le> nat mc" "nat mc \<le> 2 ^ 32" using mc by simp_all
  from prefill_run [OF init(1,2) fresh_room [OF i b] this, of W] show ?thesis using g W xs by (simp add: init(4))
qed

section \<open>A concrete layer\<close>

definition demo_weights :: "(32 word) qsa_weights" where
  "demo_weights = \<lparr>w_q = [replicate 128 1], w_k = [replicate 64 1], w_v = [replicate 64 1], w_o = replicate 64 [1], w_q_norm = replicate 64 1,
     w_k_norm = replicate 64 1, w_idx_q = [[1]], w_idx_k = [[1]], w_idx_q_norm = [1], w_idx_k_norm = [1]\<rparr>"

lemma demo_weights_shape: "weights_shape demo_weights demo_geom" "geom_live demo_geom" "gm_hidden demo_geom = 1"
  by (simp_all add: weights_shape_def demo_weights_def demo_geom_def mat_shape_def geom_live_def)

lemma demo_layer: "\<exists>t. qs_init word_np 4 demo_geom 0 = Inr t"
  by (simp add: qs_init_def demo_geom_def KV_Q8_GROUP_def raise_if_def Let_def)

lemma layer_prefill_never_raises_witness:
  "\<exists>t full t'. qs_init word_np 4 demo_geom 0 = Inr t \<and> qs_prefill word_np demo_weights [[3], [4], [5]] 0 t = (Inr full, t') \<and> length full = 3"
proof -
  obtain t where t: "qs_init word_np 4 demo_geom 0 = Inr t" using demo_layer by blast
  have "\<exists>full t'. qs_prefill word_np demo_weights [[3], [4], [5]] 0 t = (Inr full, t') \<and> length full = length [[3], [4], [5 :: 32 word]]"
    by (rule layer_prefill_never_raises [OF t _ _ demo_weights_shape(2,1)]) (simp_all add: demo_weights_shape(3))
  then show ?thesis using t by (simp add: numeral_3_eq_3)
qed

theorem chunk_prefill_matches_prefill_witness:
  "\<exists>t o0 t1 full outs t2. qs_init word_np 4 demo_geom 0 = Inr t \<and> qs_prefill word_np demo_weights [[3]] 0 t = (Inr o0, t1)
     \<and> qs_prefill word_np demo_weights [[4], [5]] 1 t1 = (Inr full, t2) \<and> qs_prefill_chunk word_np demo_weights [[4], [5]] 1 t1 = (Inr outs, t2)
     \<and> outs = map (\<lambda>(r, tok). (r, qt_q_idx tok)) full \<and> length full = 2"
proof -
  obtain t where t: "qs_init word_np 4 demo_geom 0 = Inr t" using demo_layer by blast
  note init = init_holds [OF t]
  have room: "layer_room word_np t (nat 4)" by (rule fresh_room [OF t]) simp
  have "weights_shape demo_weights (qs_geom t)" "geom_live (qs_geom t)" "length [3 :: 32 word] = gm_hidden (qs_geom t)"
    by (simp_all add: init(4) demo_weights_shape)
  from decode_run [OF init(1,2) room _ _ this(2,1,3)] obtain o1 t1 y where d: "decode_token word_np demo_weights ([3], 0) None t = (Inr o1, t1)" "qs_ok t1" "qs_holds word_np t1 [y]"
      "layer_room word_np t1 4" "qs_stat t1 = qs_stat t" by auto
  have one: "qs_prefill word_np demo_weights [[3]] 0 t = (Inr [o1], t1)" using d(1) by (simp add: qs_prefill_def chunk_cells_def bindA_run act_run)
  have gm: "qs_geom t1 = demo_geom" using qs_stat_cong(4) [OF d(5)] init(4) by simp
  have "\<exists>full t'. qs_prefill word_np demo_weights [[4], [5]] (int (length [y])) t1 = (Inr full, t') \<and> length full = length [[4], [5 :: 32 word]]"
    by (rule prefill_run [OF d(2-4)]) (simp_all add: gm demo_weights_shape)
  then obtain full t2 where two: "qs_prefill word_np demo_weights [[4], [5]] 1 t1 = (Inr full, t2)" "length full = 2" by auto
  have m: "qs_set_mrope None t = (Inr (), t\<lparr>qs_mrope := None\<rparr>)" "t\<lparr>qs_mrope := None\<rparr> = t"
    using init(6) by (simp_all add: qs_set_mrope_def bindA_run act_run)
  have "qs_set_mrope None t = (Inr (), t)" using m by simp
  from chunk_prefill_matches_prefill [OF t this one, of "[[4], [5]]" _ t2] two(1)
  have "qs_prefill_chunk word_np demo_weights [[4], [5]] 1 t1 = (Inr (map (\<lambda>(r, tok). (r, qt_q_idx tok)) full), t2)" by auto
  then show ?thesis using t one two by blast
qed

theorem paged_cache_refines_layer_witness:
  "\<exists>s us s' t0 vs t. qp_create word_np demo_geom [[2, 0], [1, 3]] 2 True None None = Inr s \<and> mapA (append_stored word_np) demo_ops s = (Inr us, s')
     \<and> qs_init word_np 4 demo_geom 0 = Inr t0 \<and> feed word_np [demo_token 3, demo_token 4] t0 = (Inr vs, t)
     \<and> qp_select word_np s' 0 [1] 2 = qs_select word_np t [1] 2 \<and> qs_n_kv t = qp_n_kv s' ! 0"
proof -
  obtain s us s' where r: "qp_create word_np demo_geom [[2, 0], [1, 3]] 2 True None None = Inr s" "mapA (append_stored word_np) demo_ops s = (Inr us, s')" by (rule demo_run)
  obtain t0 where t0: "qs_init word_np 4 demo_geom 0 = Inr t0" using demo_layer by blast
  have b: "qp_pos_base s ! 0 = 0" using demo_base [OF r(1)] by simp
  have l: "0 < length [[2, 0], [1, 3 :: int]]" "0 \<le> qp_pos_base s ! 0" "int (length (history 0 demo_ops)) \<le> 4" by (simp_all add: b demo_history)
  obtain vs t where f: "feed word_np (history 0 demo_ops) t0 = (Inr vs, t)"
      and n: "qs_n_kv t = qp_n_kv s' ! 0" and sel: "\<forall>x m. 0 < m \<and> m \<le> length (history 0 demo_ops) \<longrightarrow> qp_select word_np s' 0 x (int m) = qs_select word_np t x (int m)"
    using paged_cache_refines_layer [OF r(1) word_np_bytes r(2) l(1) _ l(2,3), unfolded b, OF t0] by blast
  have "qp_select word_np s' 0 [1] (int 2) = qs_select word_np t [1] (int 2)"
    by (rule sel [rule_format]) (simp add: demo_history)
  then show ?thesis using r t0 f n by (auto simp: demo_history)
qed

end
