(* ===== verification/Ple.thy ===== *)
theory Ple
  imports Qsa_Ref
begin

unbundle bit_operations_syntax

text \<open>
  Per-layer embeddings, \<open>vllm/flashnext/flashnext_ref/ple.py\<close>, with the geometry and hash constants of
  \<open>geometry.py\<close>: the n-gram hash in its two transcriptions (\<open>strata_sequence\<close> and \<open>xpu_sequence\<close>), the
  IQ4_NL rows, and the residual block with its dilated causal convolution. Scalar float operations
  are fields of \<open>np\<close>. Arrays hold at least one token.
\<close>

section \<open>Geometry\<close>

record 'd fn_geom =
  fg_n_embd :: nat
  fg_n_layer :: nat
  fg_vocab :: nat
  fg_n_routed :: nat
  fg_top_k :: nat
  fg_expert_ffn :: nat
  fg_hc :: nat
  fg_hc_lr :: nat
  fg_rms_eps :: 'd
  fg_rope_dim :: nat
  fg_rope_base :: 'd
  fg_rope_sections :: "nat list"
  fg_n_q_heads :: nat
  fg_n_kv_heads :: nat
  fg_head_dim :: nat
  fg_full_every :: nat
  fg_idx_n_head :: nat
  fg_idx_dim :: nat
  fg_idx_block :: nat
  fg_idx_top_k :: nat
  fg_ngram :: nat
  fg_heads_per_ngram :: nat
  fg_ple_head_dim :: nat
  fg_ple_conv_kernel :: nat
  fg_ple_eos :: int
  fg_ple_image_token :: int
  fg_token_null :: int
  fg_ple_layer_ids_1based :: "nat list"
  fg_bos :: int
  fg_eos :: int
  fg_ple_table_rows :: nat
  fg_ple_row_bytes :: nat

text \<open>The defaults; \<open>eps\<close> and \<open>base\<close> are the float literals \<open>1e-6\<close> and \<open>1e7\<close>.\<close>

definition FLASHNEXT :: "'d \<Rightarrow> 'd \<Rightarrow> 'd fn_geom" where
  "FLASHNEXT eps base = \<lparr>fg_n_embd = 2560, fg_n_layer = 48, fg_vocab = 248320, fg_n_routed = 512, fg_top_k = 10,
     fg_expert_ffn = 640, fg_hc = 4, fg_hc_lr = 320, fg_rms_eps = eps, fg_rope_dim = 64, fg_rope_base = base,
     fg_rope_sections = [11, 11, 10, 0], fg_n_q_heads = 24, fg_n_kv_heads = 2, fg_head_dim = 256, fg_full_every = 4,
     fg_idx_n_head = 4, fg_idx_dim = 128, fg_idx_block = 4, fg_idx_top_k = 2048, fg_ngram = 3, fg_heads_per_ngram = 8,
     fg_ple_head_dim = 160, fg_ple_conv_kernel = 4, fg_ple_eos = 248044, fg_ple_image_token = 248056, fg_token_null = - 1,
     fg_ple_layer_ids_1based = [2], fg_bos = 248044, fg_eos = 248046, fg_ple_table_rows = 320001536, fg_ple_row_bytes = 90\<rparr>"

definition hc_dim :: "'d fn_geom \<Rightarrow> nat" where "hc_dim G = fg_hc G * fg_n_embd G"
definition ple_n_heads :: "'d fn_geom \<Rightarrow> nat" where "ple_n_heads G = (fg_ngram G - 1) * fg_heads_per_ngram G"
definition ple_hist :: "'d fn_geom \<Rightarrow> nat" where "ple_hist G = (fg_ple_conv_kernel G - 1) * fg_ngram G"
definition qsa_width_extra :: "'d fn_geom \<Rightarrow> nat" where "qsa_width_extra G = fg_idx_top_k G + fg_idx_block G - 1"
definition is_full_layer :: "'d fn_geom \<Rightarrow> nat \<Rightarrow> bool" where "is_full_layer G layer_idx0 \<longleftrightarrow> (layer_idx0 + 1) mod fg_full_every G = 0"

record ple_consts =
  pc_mult :: "int list"
  pc_vocab :: "int list"
  pc_offset :: "int list"

definition PleConsts :: "int list \<Rightarrow> int list \<Rightarrow> int list \<Rightarrow> ple_consts res" where
  "PleConsts mult vocab offset =
     (if length vocab \<noteq> 16 \<or> length offset \<noteq> 16 then Inl (ValueError ''PLE hash wants 16 heads'')
      else if length mult \<noteq> 3 then Inl (ValueError ''PLE hash wants 3 multipliers'')
      else Inr \<lparr>pc_mult = mult, pc_vocab = vocab, pc_offset = offset\<rparr>)"

definition ple_MULT :: "int list" where "ple_MULT = [23703573157769, 20109073645365, 8052911324071]"

definition ple_VOCAB :: "int list" where
  "ple_VOCAB = [20000003, 20000023, 20000033, 20000047, 20000059, 20000063, 20000069, 20000077,
     20000081, 20000093, 20000107, 20000147, 20000153, 20000159, 20000161, 20000171]"

definition ple_OFFSET :: "int list" where
  "ple_OFFSET = [0, 20000003, 40000026, 60000059, 80000106, 100000165, 120000228, 140000297,
     160000374, 180000455, 200000548, 220000655, 240000802, 260000955, 280001114, 300001275]"

definition artifact_ple_consts :: "ple_consts res" where
  "artifact_ple_consts = PleConsts ple_MULT ple_VOCAB ple_OFFSET"

definition IQ4NL_CODES :: "int list" where
  "IQ4NL_CODES = [- 127, - 104, - 83, - 65, - 49, - 35, - 22, - 10, 1, 13, 25, 38, 53, 69, 89, 113]"

section \<open>The n-gram hash\<close>

text \<open>The wrapping product of a token, negative or not, with a multiplier; and the mix of the first \<open>n\<close> slots.\<close>

definition mul_u64 :: "int \<Rightarrow> int \<Rightarrow> 64 word" where
  "mul_u64 token multiplier = word_of_int (token * multiplier)"

definition ngram_mixed :: "int list \<Rightarrow> int list \<Rightarrow> nat \<Rightarrow> 64 word" where
  "ngram_mixed ctx mult n = fold (\<lambda>j mixed. mixed XOR mul_u64 (ctx ! j) (mult ! j)) [1..<n] (mul_u64 (ctx ! 0) (mult ! 0))"

text \<open>One head: Python's \<open>%\<close>, the offset, and the store into a \<open>uint32\<close> cell.\<close>

definition py_mod :: "int \<Rightarrow> int \<Rightarrow> int res" where
  "py_mod a b = (if b = 0 then Inl (ZeroDivisionError ''integer modulo by zero'') else Inr (a mod b))"

definition head_row :: "ple_consts \<Rightarrow> 64 word \<Rightarrow> nat \<Rightarrow> 32 word res" where
  "head_row C mixed h = bindR (py_mod (uint mixed) (pc_vocab C ! h)) (\<lambda>r. Inr (word_of_int (r + pc_offset C ! h)))"

text \<open>The context slots behind the token, newest predecessor first: the first missing or \<open>eos\<close> slot cuts all
  older ones.\<close>

fun ngram_ctx :: "int \<Rightarrow> int \<Rightarrow> bool \<Rightarrow> int list \<Rightarrow> int list" where
  "ngram_ctx null eos gone [] = []"
| "ngram_ctx null eos gone (p # ps) =
     (let raw = (if gone then null else p); gone' = (gone \<or> raw < 0 \<or> raw = eos)
      in (if gone' then eos else raw) # ngram_ctx null eos gone' ps)"

definition token_rows :: "'d fn_geom \<Rightarrow> ple_consts \<Rightarrow> int \<Rightarrow> int \<Rightarrow> int list \<Rightarrow> 32 word list res" where
  "token_rows G C eos tok prev =
     (let ctx = tok # ngram_ctx (fg_token_null G) eos False (rev prev) in
      mapR (\<lambda>(n, h). head_row C (ngram_mixed ctx (pc_mult C) n) h)
        (concat (map (\<lambda>n. map (\<lambda>g. (n, (n - 2) * fg_heads_per_ngram G + g)) [0..<fg_heads_per_ngram G]) [2..<fg_ngram G + 1])))"

text \<open>\<open>prev\<close> is a two-dimensional array: its width and its rows, oldest predecessor first.\<close>

definition ngram_rows :: "'d fn_geom \<Rightarrow> ple_consts \<Rightarrow> int \<Rightarrow> int list \<Rightarrow> nat \<times> int list list \<Rightarrow> 32 word list list res" where
  "ngram_rows G C eos tokens prev =
     (if (length (snd prev), fst prev) \<noteq> (length tokens, fg_ngram G - 1) then Inl (ValueError ''prev shape'')
      else mapR (\<lambda>(tok, p). token_rows G C eos tok p) (zip tokens (snd prev)))"

text \<open>A Python integer stored into an \<open>int64\<close> array, and one that numpy stores into an array of the dtype it
  infers, \<open>uint64\<close> from \<open>2 ^ 63\<close> on, before the cast to \<open>int64\<close>.\<close>

definition np_int64 :: "int \<Rightarrow> int res" where
  "np_int64 x = (if - (2 ^ 63) \<le> x \<and> x < 2 ^ 63 then Inr x else Inl (OverflowError ''Python int too large to convert to C long''))"

definition np_infer_int64 :: "int \<Rightarrow> int res" where
  "np_infer_int64 x = (if 0 \<le> x \<and> x < 2 ^ 64 then Inr (i64 x) else np_int64 x)"

fun strata_from :: "'d fn_geom \<Rightarrow> ple_consts \<Rightarrow> int \<Rightarrow> int \<Rightarrow> int \<Rightarrow> int list \<Rightarrow> 32 word list list res" where
  "strata_from G C eos old new [] = Inr []"
| "strata_from G C eos old new (tok # tokens) =
     bindR (mapR np_int64 [old, new]) (\<lambda>prev. bindR (np_infer_int64 tok) (\<lambda>t.
       bindR (ngram_rows G C eos [t] (2, [prev])) (\<lambda>rows. bindR (np_at rows 0) (\<lambda>row.
         bindR (strata_from G C eos new tok tokens) (\<lambda>rest. Inr (row # rest))))))"

definition strata_sequence :: "'d fn_geom \<Rightarrow> ple_consts \<Rightarrow> int \<Rightarrow> int \<Rightarrow> int \<Rightarrow> int list \<Rightarrow> 32 word list list res" where
  "strata_sequence G C eos oldest newest tokens =
     bindR (strata_from G C eos oldest newest tokens)
       (\<lambda>rows. if rows = [] then Inl (ValueError ''need at least one array to stack'') else Inr rows)"

text \<open>The transcription of the XPU model: no missing slots, and only the newest predecessor cuts.\<close>

fun xpu_from :: "'d fn_geom \<Rightarrow> ple_consts \<Rightarrow> int \<Rightarrow> int \<Rightarrow> int \<Rightarrow> int list \<Rightarrow> 32 word list list res" where
  "xpu_from G C eos prev1 prev2 [] = Inr []"
| "xpu_from G C eos prev1 prev2 (c0 # tokens) =
     (let m = pc_mult C; c1 = prev1; c2 = (if prev1 = eos then eos else prev2);
          mixed2 = mul_u64 c0 (m ! 0) XOR mul_u64 c1 (m ! 1); mixed3 = mixed2 XOR mul_u64 c2 (m ! 2)
      in bindR (mapR (head_row C mixed2) [0..<fg_heads_per_ngram G]) (\<lambda>r2.
           bindR (mapR (head_row C mixed3) [fg_heads_per_ngram G..<ple_n_heads G]) (\<lambda>r3.
             bindR (xpu_from G C eos c0 prev1 tokens) (\<lambda>rest. Inr ((r2 @ r3) # rest)))))"

definition xpu_sequence :: "'d fn_geom \<Rightarrow> ple_consts \<Rightarrow> int \<Rightarrow> bool \<Rightarrow> int option \<Rightarrow> int option \<Rightarrow> int list \<Rightarrow> 32 word list list res" where
  "xpu_sequence G C eos has_init prev_newest prev_older tokens =
     (if \<not> has_init then xpu_from G C eos eos eos tokens
      else case (prev_newest, prev_older) of
        (Some p1, Some p2) \<Rightarrow> xpu_from G C eos p1 p2 tokens
      | _ \<Rightarrow> Inl (ValueError ''has_init requires both predecessors''))"

section \<open>IQ4_NL rows\<close>

text \<open>A block of 18 bytes is a half-float scale and 16 bytes of nibbles: low nibbles first, then high ones.\<close>

definition iq4nl_block :: "('f, 'd) np \<Rightarrow> byte_list \<Rightarrow> 'f list" where
  "iq4nl_block N blk =
     (let scale = f16_of N (take 2 blk); qs = drop 2 blk;
          code = (\<lambda>q. f_mul N scale (f_int N (IQ4NL_CODES ! unat q)))
      in map (\<lambda>j. code (qs ! j AND 0x0F)) [0..<16] @ map (\<lambda>j. code (drop_bit 4 (qs ! j))) [0..<16])"

definition iq4nl_dequant_row :: "('f, 'd) np \<Rightarrow> 'd fn_geom \<Rightarrow> byte_list \<Rightarrow> 'f list res" where
  "iq4nl_dequant_row N G row =
     (if length row \<noteq> fg_ple_row_bytes G then Inl (ValueError ''IQ4_NL row bytes'')
      else Inr (concat (map (\<lambda>b. iq4nl_block N (take 18 (drop (b * 18) row))) [0..<fg_ple_head_dim G div 32])))"

text \<open>One row, or an array of rows.\<close>

definition iq4nl_dequant_rows :: "('f, 'd) np \<Rightarrow> 'd fn_geom \<Rightarrow> byte_list + byte_list list \<Rightarrow> 'f list list res" where
  "iq4nl_dequant_rows N G raw =
     bindR (mapR (iq4nl_dequant_row N G) (case raw of Inl row \<Rightarrow> [row] | Inr rows \<Rightarrow> rows))
       (\<lambda>out. if out = [] then Inl (ValueError ''need at least one array to stack'') else Inr out)"

section \<open>The residual block\<close>

text \<open>\<open>(..., hc, n)\<close>: the two inner axes of a cube of tokens.\<close>

definition inner_shape :: "'a list list list \<Rightarrow> nat \<times> nat" where
  "inner_shape x = (case x of (r # rs) # _ \<Rightarrow> (Suc (length rs), length r) | _ \<Rightarrow> (0, 0))"

definition grouped_rms :: "('f, 'd) np \<Rightarrow> 'f \<Rightarrow> 'f list list list \<Rightarrow> 'f list \<Rightarrow> 'f list list list res" where
  "grouped_rms N eps x gamma =
     (case inner_shape x of (hc, n) \<Rightarrow>
       bindR (np_reshape hc n gamma) (\<lambda>flat_g. Inr (map (\<lambda>tok. map2 (rms_norm_rows N eps) flat_g tok) x)))"

definition ple_tiny :: "('f, 'd) np \<Rightarrow> 'f" where
  "ple_tiny N = to_f N (d_div N (d_int N 1) (d_int N 1000000))"

definition ple_gate :: "('f, 'd) np \<Rightarrow> 'f \<Rightarrow> 'f" where
  "ple_gate N s =
     (let mag = f_sqrt N (f_max N (f_abs N s) (ple_tiny N))
      in f_div N (f_int N 1) (f_add N (f_int N 1) (f_exp N (f_mul N (f_neg N (f_sign N s)) mag))))"

definition ple_silu :: "('f, 'd) np \<Rightarrow> 'f \<Rightarrow> 'f" where
  "ple_silu N a = f_div N a (f_add N (f_int N 1) (f_exp N (f_neg N a)))"

text \<open>The accumulator over the taps of the kernel: tap \<open>k\<close> reads the rows from \<open>offset\<close> on.\<close>

definition conv_offset :: "'d fn_geom \<Rightarrow> nat \<Rightarrow> nat" where
  "conv_offset G k = ple_hist G - (fg_ple_conv_kernel G - 1 - k) * fg_ngram G"

definition conv_acc :: "('f, 'd) np \<Rightarrow> 'd fn_geom \<Rightarrow> 'f list list \<Rightarrow> 'f list list \<Rightarrow> nat \<Rightarrow> 'f list list" where
  "conv_acc N G weight padded t =
     fold (\<lambda>k acc. map2 (\<lambda>a row. map2 (f_add N) a (map2 (f_mul N) row (map (\<lambda>w. w ! k) weight))) acc
             (take t (drop (conv_offset G k) padded)))
       [0..<fg_ple_conv_kernel G] (replicate t (replicate (hc_dim G) (f_int N 0)))"

definition ple_conv :: "('f, 'd) np \<Rightarrow> 'd fn_geom \<Rightarrow> 'f list list list \<Rightarrow> 'f list \<Rightarrow> 'f list list option
    \<Rightarrow> ('f list list list \<times> 'f list list) res" where
  "ple_conv N G normalized conv_w hist =
     (let t = length normalized in
      bindR (np_reshape t (hc_dim G) (concat (map concat normalized))) (\<lambda>flat.
      bindR (np_reshape (hc_dim G) (fg_ple_conv_kernel G) conv_w) (\<lambda>weight.
      bindR (case hist of None \<Rightarrow> Inr (replicate (ple_hist G) (replicate (hc_dim G) (f_int N 0)))
             | Some h \<Rightarrow> np_reshape (ple_hist G) (hc_dim G) (concat h)) (\<lambda>state.
        let padded = state @ flat;
            conv = map (map (ple_silu N)) (conv_acc N G weight padded t);
            new_hist = (if ple_hist G = 0 then padded else drop (length padded - ple_hist G) padded)
        in case inner_shape normalized of (hc, n) \<Rightarrow> Inr (map (view_rows hc n) conv, new_hist)))))"

text \<open>\<open>x @ w.T\<close>, opaque in both matrices, and the elementwise operation on two cubes with numpy's broadcasting of axes of length one.\<close>

definition matmul_T :: "('f, 'd) np \<Rightarrow> 'f list list \<Rightarrow> 'f list list \<Rightarrow> 'f list list res" where
  "matmul_T N x w =
     (if \<exists>r \<in> set x. \<exists>v \<in> set w. length r \<noteq> length v then Inl (ValueError ''matmul: mismatch in core dimension'')
      else Inr (map (\<lambda>i. map (f_matmul N x w i) [0..<length w]) [0..<length x]))"

definition bcast :: "('a \<Rightarrow> 'b \<Rightarrow> 'c res) \<Rightarrow> 'a list \<Rightarrow> 'b list \<Rightarrow> 'c list res" where
  "bcast f xs ys =
     (if length xs = length ys then mapR (\<lambda>(x, y). f x y) (zip xs ys)
      else if length xs = 1 then mapR (f (hd xs)) ys
      else if length ys = 1 then mapR (\<lambda>x. f x (hd ys)) xs
      else Inl (ValueError ''operands could not be broadcast together''))"

definition bcast3 :: "('a \<Rightarrow> 'b \<Rightarrow> 'c) \<Rightarrow> 'a list list list \<Rightarrow> 'b list list list \<Rightarrow> 'c list list list res" where
  "bcast3 f = bcast (bcast (bcast (\<lambda>a b. Inr (f a b))))"

text \<open>\<open>reshape(-1, hc, n_embd)\<close> of an array of rows.\<close>

definition reshape_streams :: "'d fn_geom \<Rightarrow> 'a list list \<Rightarrow> 'a list list list res" where
  "reshape_streams G rows =
     (let flat = concat rows; size = hc_dim G in
      if size = 0 \<or> length flat mod size \<noteq> 0 then Inl (ValueError ''cannot reshape array'')
      else Inr (map (view_rows (fg_hc G) (fg_n_embd G)) (view_rows (length flat div size) size flat)))"

definition as_streams :: "'d fn_geom \<Rightarrow> 'a list list + 'a list list list \<Rightarrow> 'a list list list res" where
  "as_streams G hidden =
     (case hidden of
        Inl rows \<Rightarrow> bindR (np_reshape (length rows) (hc_dim G) (concat rows)) (\<lambda>flat. Inr (map (view_rows (fg_hc G) (fg_n_embd G)) flat))
      | Inr cube \<Rightarrow> Inr cube)"

record 'f ple_out =
  po_key :: "'f list list list"
  po_value :: "'f list list"
  po_score :: "'f list list"
  po_gate :: "'f list list"
  po_gated :: "'f list list list"
  po_normalized :: "'f list list list"
  po_conv :: "'f list list list"
  po_hist :: "'f list list"
  po_out :: "'f list list list"

text \<open>
  \<open>ple_mix\<close> is the block after its two projections: the streams of \<open>key\<close> and the rows of \<open>value\<close> mixed
  into \<open>hidden\<close>. Sums and means over the last axis are taken row by row.
\<close>

definition ple_mix :: "('f, 'd) np \<Rightarrow> 'd fn_geom \<Rightarrow> 'f list list list \<Rightarrow> 'f list list \<Rightarrow> 'f list list list \<Rightarrow> 'f list list option
    \<Rightarrow> 'f list \<Rightarrow> 'f list \<Rightarrow> 'f list \<Rightarrow> 'f list \<Rightarrow> 'f ple_out res" where
  "ple_mix N G key value hidden hist norm_key norm_query norm_conv conv_w =
     (let eps = to_f N (fg_rms_eps G) in
      bindR (grouped_rms N eps key norm_key) (\<lambda>key_n.
      bindR (grouped_rms N eps hidden norm_query) (\<lambda>query_n.
      bindR (bcast3 (f_mul N) key_n query_n) (\<lambda>prod.
        let root = f_sqrt N (f_int N (int (fg_n_embd G)));
            score = map (map (\<lambda>r. f_div N (f_sum N r) root)) prod;
            gate = map (map (ple_gate N)) score in
      bindR (bcast3 (f_mul N) (map (\<lambda>v. [v]) value) (map (map (\<lambda>g. [g])) gate)) (\<lambda>gated.
      bindR (grouped_rms N eps gated norm_conv) (\<lambda>normalized.
      bindR (ple_conv N G normalized conv_w hist) (\<lambda>(conv, new_hist).
      bindR (bcast3 (f_add N) hidden gated) (\<lambda>hg. bindR (bcast3 (f_add N) hg conv) (\<lambda>out.
        Inr \<lparr>po_key = key, po_value = value, po_score = score, po_gate = gate, po_gated = gated, po_normalized = normalized,
             po_conv = conv, po_hist = new_hist, po_out = out\<rparr>)))))))))"

definition ple_block :: "('f, 'd) np \<Rightarrow> 'd fn_geom \<Rightarrow> 'f list + 'f list list \<Rightarrow> 'f list list + 'f list list list \<Rightarrow> 'f list list option
    \<Rightarrow> 'f list list \<Rightarrow> 'f list list \<Rightarrow> 'f list \<Rightarrow> 'f list \<Rightarrow> 'f list \<Rightarrow> 'f list \<Rightarrow> 'f ple_out res" where
  "ple_block N G emb0 hidden0 hist key_w value_w norm_key norm_query norm_conv conv_w =
     (let emb = (case emb0 of Inl v \<Rightarrow> [v] | Inr rows \<Rightarrow> rows) in
      bindR (as_streams G hidden0) (\<lambda>hidden.
      bindR (matmul_T N emb key_w) (\<lambda>k2. bindR (reshape_streams G k2) (\<lambda>key.
      bindR (matmul_T N emb value_w) (\<lambda>value.
        ple_mix N G key value hidden hist norm_key norm_query norm_conv conv_w)))))"

end
