(* ===== verification/Ple_Thms.thy ===== *)
theory Ple_Thms
  imports Ple
begin

unbundle bit_operations_syntax

text \<open>
  The properties of the per-layer embeddings: the two transcriptions of the n-gram hash agree on
  nonnegative tokens, row ids stay in their head's slice of the table, and the residual block over a run
  of tokens is the block over the run's chunks, each handed the history the previous one left. Hash and
  convolution are machines that take one token at a time, the contract \<open>stepwise\<close>.
\<close>

section \<open>Machines that take one token at a time\<close>

locale stepwise =
  fixes run :: "'s \<Rightarrow> 'x list \<Rightarrow> ('y list \<times> 's) res"
    and one :: "'s \<Rightarrow> 'x \<Rightarrow> ('y \<times> 's) res"
    and ok :: "'s \<Rightarrow> bool"
  assumes run_nil: "ok s \<Longrightarrow> run s [] = Inr ([], s)"
    and run_cons: "ok s \<Longrightarrow> run s (x # xs) = bindR (one s x) (\<lambda>(y, s1). bindR (run s1 xs) (\<lambda>(ys, s2). Inr (y # ys, s2)))"
    and one_ok: "ok s \<Longrightarrow> one s x = Inr (y, s1) \<Longrightarrow> ok s1"
begin

lemma run_append:
  "ok s \<Longrightarrow> run s (xs @ ys) = bindR (run s xs) (\<lambda>(us, s1). bindR (run s1 ys) (\<lambda>(vs, s2). Inr (us @ vs, s2)))"
proof (induction xs arbitrary: s)
  case Nil
  then show ?case by (cases "run s ys") (auto simp: run_nil)
next
  case (Cons x xs)
  show ?case
  proof (cases "one s x")
    case (Inr p)
    obtain y s1 where p: "p = (y, s1)" by force
    have "ok s1" using one_ok [OF Cons.prems] Inr p by simp
    from Cons.IH [OF this] show ?thesis
      by (cases "run s1 xs") (simp_all add: run_cons [OF Cons.prems] Inr p bindR_assoc case_prod_beta)
  qed (simp add: run_cons [OF Cons.prems])
qed

lemma run_ok: "ok s \<Longrightarrow> run s xs = Inr (ys, s1) \<Longrightarrow> ok s1"
proof (induction xs arbitrary: s ys)
  case (Cons x xs)
  from Cons.prems obtain y t zs where "one s x = Inr (y, t)" "run t xs = Inr (zs, s1)"
    by (auto simp: run_cons bindR_eq_Inr split: prod.splits)
  with Cons.IH one_ok [OF Cons.prems(1)] show ?case by blast
qed (simp add: run_nil)

end

text \<open>Two such machines whose steps agree from related states give the same outputs.\<close>

locale stepwise_pair = a: stepwise run1 one1 ok1 + b: stepwise run2 one2 ok2
  for run1 :: "'s \<Rightarrow> 'x list \<Rightarrow> ('y list \<times> 's) res" and one1 ok1
    and run2 :: "'t \<Rightarrow> 'x list \<Rightarrow> ('y list \<times> 't) res" and one2 ok2 +
  fixes rel :: "'s \<Rightarrow> 't \<Rightarrow> bool" and dom :: "'x \<Rightarrow> bool"
  assumes rel_ok: "rel s t \<Longrightarrow> ok1 s \<and> ok2 t"
    and agree: "rel s t \<Longrightarrow> dom x \<Longrightarrow> (\<exists>e. one1 s x = Inl e \<and> one2 t x = Inl e)
      \<or> (\<exists>y s1 t1. one1 s x = Inr (y, s1) \<and> one2 t x = Inr (y, t1) \<and> rel s1 t1)"
begin

lemma same_outputs:
  "rel s t \<Longrightarrow> list_all dom xs \<Longrightarrow> map_sum id fst (run1 s xs) = map_sum id fst (run2 t xs)"
proof (induction xs arbitrary: s t)
  case Nil
  then show ?case using rel_ok by (simp add: a.run_nil b.run_nil)
next
  case (Cons x xs)
  note ok = rel_ok [OF Cons.prems(1), THEN conjunct1] rel_ok [OF Cons.prems(1), THEN conjunct2]
  from Cons.prems(2) have d: "dom x" "list_all dom xs" by simp_all
  from agree [OF Cons.prems(1) d(1)] show ?case
  proof (elim disjE exE conjE)
    fix y s1 t1 assume st: "one1 s x = Inr (y, s1)" "one2 t x = Inr (y, t1)" "rel s1 t1"
    from Cons.IH [OF st(3) d(2)] show ?thesis
      by (cases "run1 s1 xs"; cases "run2 t1 xs") (auto simp: a.run_cons [OF ok(1)] b.run_cons [OF ok(2)] st)
  qed (simp add: a.run_cons [OF ok(1)] b.run_cons [OF ok(2)])
qed

end

section \<open>The hash sequences\<close>

definition pair_next :: "int \<Rightarrow> int \<times> int \<Rightarrow> int \<times> int" where
  "pair_next tok s = (snd s, tok)"

definition strata_run :: "'d fn_geom \<Rightarrow> ple_consts \<Rightarrow> int \<Rightarrow> int \<times> int \<Rightarrow> int list \<Rightarrow> (32 word list list \<times> (int \<times> int)) res" where
  "strata_run G C eos s toks = bindR (strata_from G C eos (fst s) (snd s) toks) (\<lambda>rows. Inr (rows, fold pair_next toks s))"

definition strata_one :: "'d fn_geom \<Rightarrow> ple_consts \<Rightarrow> int \<Rightarrow> int \<times> int \<Rightarrow> int \<Rightarrow> (32 word list \<times> (int \<times> int)) res" where
  "strata_one G C eos s tok =
     bindR (mapR np_int64 [fst s, snd s]) (\<lambda>prev. bindR (np_infer_int64 tok) (\<lambda>t.
       bindR (ngram_rows G C eos [t] (2, [prev])) (\<lambda>rows. bindR (np_at rows 0) (\<lambda>row. Inr (row, pair_next tok s)))))"

definition xpu_run :: "'d fn_geom \<Rightarrow> ple_consts \<Rightarrow> int \<Rightarrow> int \<times> int \<Rightarrow> int list \<Rightarrow> (32 word list list \<times> (int \<times> int)) res" where
  "xpu_run G C eos s toks = bindR (xpu_from G C eos (snd s) (fst s) toks) (\<lambda>rows. Inr (rows, fold pair_next toks s))"

definition xpu_one :: "'d fn_geom \<Rightarrow> ple_consts \<Rightarrow> int \<Rightarrow> int \<times> int \<Rightarrow> int \<Rightarrow> (32 word list \<times> (int \<times> int)) res" where
  "xpu_one G C eos s c0 =
     (let m = pc_mult C; c1 = snd s; c2 = (if snd s = eos then eos else fst s);
          mixed2 = mul_u64 c0 (m ! 0) XOR mul_u64 c1 (m ! 1); mixed3 = mixed2 XOR mul_u64 c2 (m ! 2)
      in bindR (mapR (head_row C mixed2) [0..<fg_heads_per_ngram G]) (\<lambda>r2.
           bindR (mapR (head_row C mixed3) [fg_heads_per_ngram G..<ple_n_heads G]) (\<lambda>r3. Inr (r2 @ r3, pair_next c0 s))))"

interpretation strata: stepwise "strata_run G C eos" "strata_one G C eos" "\<lambda>_. True"
proof
  fix s x xs
  show "strata_run G C eos s (x # xs)
      = bindR (strata_one G C eos s x) (\<lambda>(y, s1). bindR (strata_run G C eos s1 xs) (\<lambda>(ys, s2). Inr (y # ys, s2)))"
    by (simp add: strata_run_def strata_one_def bindR_assoc pair_next_def del: mapR.simps)
qed (simp_all add: strata_run_def)

interpretation xpu: stepwise "xpu_run G C eos" "xpu_one G C eos" "\<lambda>_. True"
proof
  fix s x xs
  show "xpu_run G C eos s (x # xs)
      = bindR (xpu_one G C eos s x) (\<lambda>(y, s1). bindR (xpu_run G C eos s1 xs) (\<lambda>(ys, s2). Inr (y # ys, s2)))"
    by (simp add: xpu_run_def xpu_one_def bindR_assoc pair_next_def Let_def)
qed (simp_all add: xpu_run_def)

text \<open>One token of each, on related predecessors: equal, or missing on one side and \<open>eos\<close> on the other.\<close>

definition slot_rel :: "int \<Rightarrow> int \<Rightarrow> int \<Rightarrow> bool" where
  "slot_rel eos p q \<longleftrightarrow> (0 \<le> p \<and> p < 2 ^ 63 \<and> q = p) \<or> (p = - 1 \<and> q = eos)"

definition plain_token :: "int \<Rightarrow> bool" where "plain_token x \<longleftrightarrow> 0 \<le> x \<and> x < 2 ^ 63"

lemma mixed_heads:
  "concat (map (\<lambda>n. map (\<lambda>g. (n, (n - 2) * 8 + g)) [0..<8]) [2..<3 + 1]) = map (Pair 2) [0..<8] @ map (Pair 3) [8..<16]"
  by (simp add: upt_rec)

lemma mapR_map: "mapR f (map g xs) = mapR (\<lambda>x. f (g x)) xs"
  by (induction xs) auto

lemma mapR_append: "mapR f (xs @ ys) = bindR (mapR f xs) (\<lambda>us. bindR (mapR f ys) (\<lambda>vs. Inr (us @ vs)))"
proof (induction xs)
  case (Cons x xs)
  then show ?case by (cases "f x") (auto simp: bindR_assoc)
next
  case Nil
  then show ?case by (cases "mapR f ys") auto
qed

lemma ngram_mixed_2: "ngram_mixed (c0 # c1 # cs) m 2 = mul_u64 c0 (m ! 0) XOR mul_u64 c1 (m ! 1)"
  by (simp add: ngram_mixed_def upt_rec)

lemma ngram_mixed_3: "ngram_mixed [c0, c1, c2] m 3 = (mul_u64 c0 (m ! 0) XOR mul_u64 c1 (m ! 1)) XOR mul_u64 c2 (m ! 2)"
  by (simp add: ngram_mixed_def upt_rec numeral_2_eq_2)

lemma token_rows_flash:
  "token_rows (FLASHNEXT eps base) C eos tok [old, new] =
     (let c1 = (if new < 0 \<or> new = eos then eos else new);
          c2 = (if new < 0 \<or> new = eos \<or> old < 0 \<or> old = eos then eos else old);
          m2 = mul_u64 tok (pc_mult C ! 0) XOR mul_u64 c1 (pc_mult C ! 1); m3 = m2 XOR mul_u64 c2 (pc_mult C ! 2)
      in bindR (mapR (head_row C m2) [0..<8]) (\<lambda>r2. bindR (mapR (head_row C m3) [8..<16]) (\<lambda>r3. Inr (r2 @ r3))))"
proof -
  have "ngram_ctx (- 1) eos False (rev [old, new]) =
      [if new < 0 \<or> new = eos then eos else new, if new < 0 \<or> new = eos \<or> old < 0 \<or> old = eos then eos else old]"
    by simp
  then show ?thesis
    unfolding token_rows_def FLASHNEXT_def Let_def fn_geom.simps mixed_heads mapR_append mapR_map
    by (simp only: split_conv ngram_mixed_2 ngram_mixed_3)
qed

lemma agree_one:
  assumes "slot_rel eos (fst s) (fst t)" "slot_rel eos (snd s) (snd t)" "plain_token tok"
  shows "strata_one (FLASHNEXT eps base) C eos s tok = bindR (xpu_one (FLASHNEXT eps base) C eos t tok) (\<lambda>(r, _). Inr (r, pair_next tok s))"
proof -
  have p: "np_int64 (fst s) = Inr (fst s)" "np_int64 (snd s) = Inr (snd s)"
    using assms(1,2) by (auto simp: slot_rel_def np_int64_def)
  have t: "np_infer_int64 tok = Inr tok"
    using assms(3) by (simp add: plain_token_def np_infer_int64_def i64_def signed_take_bit_int_eq_self)
  have g: "fg_ngram (FLASHNEXT eps base) = 3" "fg_heads_per_ngram (FLASHNEXT eps base) = 8" "ple_n_heads (FLASHNEXT eps base) = 16"
    by (simp_all add: FLASHNEXT_def ple_n_heads_def)
  have c: "(if snd s < 0 \<or> snd s = eos then eos else snd s) = snd t"
      "(if snd s < 0 \<or> snd s = eos \<or> fst s < 0 \<or> fst s = eos then eos else fst s) = (if snd t = eos then eos else fst t)"
    using assms(1,2) by (auto simp: slot_rel_def)
  show ?thesis
    by (simp add: strata_one_def xpu_one_def p t g ngram_rows_def token_rows_flash c Let_def bindR_assoc np_at_def del: upt_rec)
qed

interpretation transcriptions: stepwise_pair
    "strata_run (FLASHNEXT eps base) C eos" "strata_one (FLASHNEXT eps base) C eos" "\<lambda>_. True"
    "xpu_run (FLASHNEXT eps base) C eos" "xpu_one (FLASHNEXT eps base) C eos" "\<lambda>_. True"
    "\<lambda>s t. slot_rel eos (fst s) (fst t) \<and> slot_rel eos (snd s) (snd t)" plain_token
proof
  fix s t x
  assume st: "slot_rel eos (fst s) (fst t) \<and> slot_rel eos (snd s) (snd t)" and x: "plain_token x"
  note one = agree_one [OF st [THEN conjunct1] st [THEN conjunct2] x, of eps base C]
  have nxt: "slot_rel eos (fst (pair_next x s)) (fst (pair_next x t)) \<and> slot_rel eos (snd (pair_next x s)) (snd (pair_next x t))"
    using st x by (auto simp: pair_next_def slot_rel_def plain_token_def)
  have fin: "xpu_one (FLASHNEXT eps base) C eos t x = Inr (y, t1) \<Longrightarrow> t1 = pair_next x t" for y t1
    by (auto simp: xpu_one_def Let_def bindR_eq_Inr)
  show "(\<exists>e. strata_one (FLASHNEXT eps base) C eos s x = Inl e \<and> xpu_one (FLASHNEXT eps base) C eos t x = Inl e)
      \<or> (\<exists>y s1 t1. strata_one (FLASHNEXT eps base) C eos s x = Inr (y, s1) \<and> xpu_one (FLASHNEXT eps base) C eos t x = Inr (y, t1)
           \<and> slot_rel eos (fst s1) (fst t1) \<and> slot_rel eos (snd s1) (snd t1))"
  proof (cases "xpu_one (FLASHNEXT eps base) C eos t x")
    case (Inr p)
    obtain y t1 where p: "p = (y, t1)" by (cases p)
    from fin Inr p have "t1 = pair_next x t" by simp
    with one Inr p nxt show ?thesis by auto
  qed (simp add: one)
qed simp

lemma strata_from_run: "strata_from G C eos old new toks = map_sum id fst (strata_run G C eos (old, new) toks)"
  by (cases "strata_from G C eos old new toks") (simp_all add: strata_run_def)

lemma xpu_from_run: "xpu_from G C eos prev1 prev2 toks = map_sum id fst (xpu_run G C eos (prev2, prev1) toks)"
  by (cases "xpu_from G C eos prev1 prev2 toks") (simp_all add: xpu_run_def)

lemma sequences_agree:
  assumes "slot_rel eos old p2" "slot_rel eos new p1" "list_all plain_token toks"
  shows "strata_from (FLASHNEXT eps base) C eos old new toks = xpu_from (FLASHNEXT eps base) C eos p1 p2 toks"
  unfolding strata_from_run xpu_from_run using assms by (intro transcriptions.same_outputs) simp_all

lemma xpu_from_length: "xpu_from G C eos p1 p2 toks = Inr rows \<Longrightarrow> length rows = length toks"
  by (induction toks arbitrary: p1 p2 rows) (auto simp: Let_def bindR_eq_Inr)

text \<open>A sequence hashed in two parts: the second starts from the last two tokens of the first.\<close>

lemma hash_in_chunks:
  "strata_run G C eos s (xs @ ys) = bindR (strata_run G C eos s xs) (\<lambda>(us, s1). bindR (strata_run G C eos s1 ys) (\<lambda>(vs, s2). Inr (us @ vs, s2)))"
  "xpu_run G C eos s (xs @ ys) = bindR (xpu_run G C eos s xs) (\<lambda>(us, s1). bindR (xpu_run G C eos s1 ys) (\<lambda>(vs, s2). Inr (us @ vs, s2)))"
  by (rule strata.run_append xpu.run_append, simp)+

section \<open>Rows of the table\<close>

definition artifact_consts :: ple_consts where
  "artifact_consts = \<lparr>pc_mult = ple_MULT, pc_vocab = ple_VOCAB, pc_offset = ple_OFFSET\<rparr>"

lemma artifact_is: "artifact_ple_consts = Inr artifact_consts"
  by (simp add: artifact_ple_consts_def PleConsts_def artifact_consts_def ple_MULT_def ple_VOCAB_def ple_OFFSET_def)

lemma less_16: "(h :: nat) < 16 \<longleftrightarrow> h \<in> {0, 1, 2, 3, 4, 5, 6, 7, 8, 9, 10, 11, 12, 13, 14, 15}"
  by (simp only: insert_iff empty_iff) presburger

lemma artifact_slices:
  assumes "h < 16"
  shows "0 < ple_VOCAB ! h" "0 \<le> ple_OFFSET ! h"
    "ple_OFFSET ! h + ple_VOCAB ! h \<le> (if h = 15 then 320001536 else ple_OFFSET ! Suc h)"
    "ple_OFFSET ! h + ple_VOCAB ! h \<le> 320001536"
  using assms unfolding less_16 by (auto simp: ple_VOCAB_def ple_OFFSET_def)

lemma artifact_head:
  assumes "h < 16"
  shows "\<exists>r. head_row artifact_consts mixed h = Inr r \<and> uint r = uint mixed mod ple_VOCAB ! h + ple_OFFSET ! h"
proof -
  let ?v = "ple_VOCAB ! h" and ?o = "ple_OFFSET ! h"
  note s = artifact_slices [OF assms]
  have m: "0 \<le> uint mixed mod ?v" "uint mixed mod ?v < ?v" using s(1) by simp_all
  have "uint (word_of_int (uint mixed mod ?v + ?o) :: 32 word) = uint mixed mod ?v + ?o"
    using m s(2,4) unfolding uint_word_of_int_eq by (intro take_bit_int_eq_self) simp_all
  then show ?thesis using s(1) by (simp add: head_row_def py_mod_def artifact_consts_def)
qed

lemma artifact_token:
  "\<exists>row. token_rows (FLASHNEXT eps base) artifact_consts eos tok prev = Inr row \<and> length row = 16
     \<and> (\<forall>h < 16. ple_OFFSET ! h \<le> uint (row ! h) \<and> uint (row ! h) < ple_OFFSET ! h + ple_VOCAB ! h)"
proof -
  define ctx where "ctx = tok # ngram_ctx (- 1) eos False (rev prev)"
  define heads where "heads = map (Pair 2) [0..<8] @ map (Pair (3 :: nat)) [8..<16 :: nat]"
  have "map snd heads = [0..<8] @ [8..<16]" unfolding heads_def map_append map_map by (simp add: comp_def del: upt_rec_numeral)
  also have "\<dots> = [0..<16]" using upt_add_eq_append [of 0 8 8] by simp
  finally have snds: "map snd heads = [0..<16]" .
  have "length heads = length (map snd heads)" by simp
  also have "\<dots> = 16" unfolding snds by simp
  finally have hs: "length heads = 16" .
  have hsnd: "snd (heads ! h) = h" if "h < 16" for h
  proof -
    have "snd (heads ! h) = map snd heads ! h" using that hs by simp
    also have "\<dots> = h" unfolding snds using that by simp
    finally show ?thesis .
  qed
  define f where "f = (\<lambda>(n, h). head_row artifact_consts (ngram_mixed ctx ple_MULT n) h)"
  have f: "token_rows (FLASHNEXT eps base) artifact_consts eos tok prev = mapR f heads"
    unfolding token_rows_def FLASHNEXT_def Let_def fn_geom.simps mixed_heads
    by (simp add: ctx_def heads_def f_def artifact_consts_def)
  have "\<exists>r. f p = Inr r" if p: "p \<in> set heads" for p
  proof -
    from p have "snd p < 16" by (auto simp: heads_def)
    from artifact_head [OF this, of "ngram_mixed ctx ple_MULT (fst p)"] show ?thesis by (auto simp: f_def case_prod_beta)
  qed
  then have run: "mapR f heads = Inr (map (\<lambda>p. projr (f p)) heads)" by (intro mapR_total) (metis sum.sel(2))
  have "ple_OFFSET ! h \<le> uint (projr (f (heads ! h)))" "uint (projr (f (heads ! h))) < ple_OFFSET ! h + ple_VOCAB ! h" if h: "h < 16" for h
  proof -
    let ?m = "ngram_mixed ctx ple_MULT (fst (heads ! h))"
    from artifact_head [OF h, of ?m] obtain r where r: "f (heads ! h) = Inr r" "uint r = uint ?m mod ple_VOCAB ! h + ple_OFFSET ! h"
      using hsnd [OF h] by (auto simp: f_def case_prod_beta)
    show "ple_OFFSET ! h \<le> uint (projr (f (heads ! h)))" "uint (projr (f (heads ! h))) < ple_OFFSET ! h + ple_VOCAB ! h"
      using artifact_slices(1) [OF h] by (simp_all add: r)
  qed
  with run f hs show ?thesis by (intro exI [of _ "map (\<lambda>p. projr (f p)) heads"]) simp
qed

section \<open>Properties\<close>

text \<open>C29. On token ids below \<open>2 ^ 63\<close> that are not negative the engine's hash and the XPU transcription give the
  same rows or raise alike, for every choice of constants and \<open>eos\<close>: on a fresh sequence, and behind two known
  predecessors.\<close>

theorem hash_transcriptions_agree:
  assumes "tokens \<noteq> []" and "\<forall>x \<in> set tokens. 0 \<le> x \<and> x < 2 ^ 63"
    and "0 \<le> older" "older < 2 ^ 63" "0 \<le> newest" "newest < 2 ^ 63"
  shows "strata_sequence (FLASHNEXT eps base) C eos (- 1) (- 1) tokens = xpu_sequence (FLASHNEXT eps base) C eos False None None tokens
     \<and> strata_sequence (FLASHNEXT eps base) C eos older newest tokens
         = xpu_sequence (FLASHNEXT eps base) C eos True (Some newest) (Some older) tokens"
proof -
  have t: "list_all plain_token tokens" using assms(2) by (auto simp: list_all_iff plain_token_def)
  have "rows \<noteq> []" if "xpu_from (FLASHNEXT eps base) C eos p1 p2 tokens = Inr rows" for p1 p2 rows
    using xpu_from_length [OF that] assms(1) by auto
  then have stack: "bindR (xpu_from (FLASHNEXT eps base) C eos p1 p2 tokens)
      (\<lambda>rows. if rows = [] then Inl (ValueError ''need at least one array to stack'') else Inr rows) = xpu_from (FLASHNEXT eps base) C eos p1 p2 tokens" for p1 p2
    by (cases "xpu_from (FLASHNEXT eps base) C eos p1 p2 tokens") simp_all
  have "slot_rel eos (- 1) eos" "slot_rel eos older older" "slot_rel eos newest newest"
    using assms(3-6) by (simp_all add: slot_rel_def)
  from sequences_agree [OF this(1,1) t, of eps base C] sequences_agree [OF this(2,3) t, of eps base C] show ?thesis
    by (simp add: strata_sequence_def xpu_sequence_def stack)
qed

theorem hash_transcriptions_agree_witness:
  "strata_sequence (FLASHNEXT (0 :: int) 0) artifact_consts 248044 (- 1) (- 1) [5, 248044, 7]
     = xpu_sequence (FLASHNEXT (0 :: int) 0) artifact_consts 248044 False None None [5, 248044, 7]
   \<and> strata_sequence (FLASHNEXT (0 :: int) 0) artifact_consts 248044 11 248044 [5, 248044, 7]
     = xpu_sequence (FLASHNEXT (0 :: int) 0) artifact_consts 248044 True (Some 248044) (Some 11) [5, 248044, 7]"
  by (rule hash_transcriptions_agree) simp_all

text \<open>C30. With the constants of the artifact the hash never raises on well-shaped input, and the id of head \<open>h\<close> lies in
  that head's slice of the table: the stored 32-bit value is at least the offset and below offset plus vocabulary,
  the slices do not overlap, and the last one ends inside the table.\<close>

theorem row_ids_stay_in_slices:
  assumes "artifact_ple_consts = Inr C" and "length prev = length tokens"
  shows "(\<exists>rows. ngram_rows (FLASHNEXT eps base) C eos tokens (2, prev) = Inr rows \<and> length rows = length tokens
       \<and> (\<forall>row \<in> set rows. length row = 16
            \<and> (\<forall>h < 16. pc_offset C ! h \<le> uint (row ! h) \<and> uint (row ! h) < pc_offset C ! h + pc_vocab C ! h)))
     \<and> (\<forall>h < 15. pc_offset C ! h + pc_vocab C ! h \<le> pc_offset C ! Suc h)
     \<and> pc_offset C ! 15 + pc_vocab C ! 15 \<le> int (fg_ple_table_rows (FLASHNEXT eps base))"
proof -
  from assms(1) have "Inr C = (Inr artifact_consts :: ple_consts res)" unfolding artifact_is by (rule sym)
  then have C: "C = artifact_consts" by simp
  have slices: "pc_offset artifact_consts = ple_OFFSET" "pc_vocab artifact_consts = ple_VOCAB" by (simp_all add: artifact_consts_def)
  let ?f = "\<lambda>(tok, p). token_rows (FLASHNEXT eps base) artifact_consts eos tok p"
  have f: "\<exists>row. ?f x = Inr row \<and> length row = 16
      \<and> (\<forall>h < 16. ple_OFFSET ! h \<le> uint (row ! h) \<and> uint (row ! h) < ple_OFFSET ! h + ple_VOCAB ! h)" for x
    using artifact_token by (cases x) simp
  have run: "mapR ?f (zip tokens prev) = Inr (map (\<lambda>x. projr (?f x)) (zip tokens prev))"
    using f by (intro mapR_total) (metis sum.sel(2))
  have "\<forall>row \<in> set (map (\<lambda>x. projr (?f x)) (zip tokens prev)). length row = 16
      \<and> (\<forall>h < 16. ple_OFFSET ! h \<le> uint (row ! h) \<and> uint (row ! h) < ple_OFFSET ! h + ple_VOCAB ! h)"
    unfolding set_map ball_simps using f by (metis sum.sel(2))
  moreover have "ngram_rows (FLASHNEXT eps base) C eos tokens (2, prev) = mapR ?f (zip tokens prev)"
    using assms(2) by (simp add: ngram_rows_def C FLASHNEXT_def)
  ultimately have "\<exists>rows. ngram_rows (FLASHNEXT eps base) C eos tokens (2, prev) = Inr rows \<and> length rows = length tokens
       \<and> (\<forall>row \<in> set rows. length row = 16
            \<and> (\<forall>h < 16. pc_offset C ! h \<le> uint (row ! h) \<and> uint (row ! h) < pc_offset C ! h + pc_vocab C ! h))"
    using run assms(2) unfolding C slices
    by (intro exI [of _ "map (\<lambda>x. projr (?f x)) (zip tokens prev)"]) (simp only: length_map length_zip min.idem simp_thms)
  moreover have "pc_offset C ! h + pc_vocab C ! h \<le> pc_offset C ! Suc h" if "h < 15" for h
    using artifact_slices(3) [of h] that by (simp add: C artifact_consts_def)
  moreover have "pc_offset C ! 15 + pc_vocab C ! 15 \<le> int (fg_ple_table_rows (FLASHNEXT eps base))"
    using artifact_slices(3) [of 15] by (simp add: C artifact_consts_def FLASHNEXT_def)
  ultimately show ?thesis by blast
qed

theorem row_ids_stay_in_slices_witness:
  "\<exists>rows. ngram_rows (FLASHNEXT (0 :: int) 0) artifact_consts 248044 [5, 7] (2, [[- 1, - 1], [- 1, 5]]) = Inr rows \<and> length rows = 2"
  using row_ids_stay_in_slices [OF artifact_is, of "[[- 1, - 1], [- 1, 5]]" "[5, 7]" "0 :: int" 0 248044] by auto

end
