(* ===== verification/Ple_Block.thy ===== *)
theory Ple_Block
  imports Ple_Thms Qsa_Topk
begin

text \<open>
  The residual block of the per-layer embeddings over a run of tokens: its convolution as a machine over
  rows, the block as per-token values around that machine, and the block in chunks.
\<close>

section \<open>The convolution row by row\<close>

definition conv_row :: "('f, 'd) np \<Rightarrow> 'd fn_geom \<Rightarrow> 'f list list \<Rightarrow> 'f list list \<Rightarrow> 'f list" where
  "conv_row N G weight win =
     fold (\<lambda>k a. map2 (f_add N) a (map2 (f_mul N) (win ! conv_offset G k) (map (\<lambda>w. w ! k) weight)))
       [0..<fg_ple_conv_kernel G] (replicate (hc_dim G) (f_int N 0))"

lemma fold_columns:
  assumes "\<And>k. k \<in> set ks \<Longrightarrow> length (g k) = t"
  shows "length acc = t \<Longrightarrow> fold (\<lambda>k acc. map2 (f k) acc (g k)) ks acc = map (\<lambda>i. fold (\<lambda>k a. f k a (g k ! i)) ks (acc ! i)) [0..<t]"
  using assms
proof (induction ks arbitrary: acc)
  case Nil
  then show ?case by (simp add: map_nth flip: Nil.prems(1))
next
  case (Cons k ks)
  then have "length (map2 (f k) acc (g k)) = t" by simp
  with Cons show ?case by (simp cong: map_cong)
qed

lemma conv_offset_le: "conv_offset G k \<le> ple_hist G"
  by (simp add: conv_offset_def)

lemma conv_acc_rows:
  assumes "length padded = ple_hist G + t"
  shows "conv_acc N G weight padded t = map (\<lambda>i. conv_row N G weight (drop i padded)) [0..<t]"
proof -
  have len: "length (take t (drop (conv_offset G k) padded)) = t" for k
    using conv_offset_le [of G k] assms by simp
  have "conv_acc N G weight padded t =
      map (\<lambda>i. fold (\<lambda>k a. map2 (f_add N) a (map2 (f_mul N) (take t (drop (conv_offset G k) padded) ! i) (map (\<lambda>w. w ! k) weight)))
         [0..<fg_ple_conv_kernel G] (replicate t (replicate (hc_dim G) (f_int N 0)) ! i)) [0..<t]"
    unfolding conv_acc_def
    by (rule fold_columns [where g = "\<lambda>k. take t (drop (conv_offset G k) padded)"
          and f = "\<lambda>k a row. map2 (f_add N) a (map2 (f_mul N) row (map (\<lambda>w. w ! k) weight))"], rule len, simp)
  also have "\<dots> = map (\<lambda>i. conv_row N G weight (drop i padded)) [0..<t]"
  proof (rule map_cong [OF refl])
    fix i assume i: "i \<in> set [0..<t]"
    have "take t (drop (conv_offset G k) padded) ! i = drop i padded ! conv_offset G k" for k
      using i assms conv_offset_le [of G k] by (simp add: add.commute)
    then show "fold (\<lambda>k a. map2 (f_add N) a (map2 (f_mul N) (take t (drop (conv_offset G k) padded) ! i) (map (\<lambda>w. w ! k) weight)))
         [0..<fg_ple_conv_kernel G] (replicate t (replicate (hc_dim G) (f_int N 0)) ! i) = conv_row N G weight (drop i padded)"
      using i by (simp add: conv_row_def)
  qed
  finally show ?thesis .
qed

text \<open>The machine: its state is the history of the last \<open>ple_hist\<close> rows.\<close>

definition conv_run :: "('f, 'd) np \<Rightarrow> 'd fn_geom \<Rightarrow> 'f list list \<Rightarrow> 'f list list \<Rightarrow> 'f list list \<Rightarrow> ('f list list \<times> 'f list list) res" where
  "conv_run N G weight state rows =
     Inr (map (map (ple_silu N)) (conv_acc N G weight (state @ rows) (length rows)), drop (length rows) (state @ rows))"

definition conv_one :: "('f, 'd) np \<Rightarrow> 'd fn_geom \<Rightarrow> 'f list list \<Rightarrow> 'f list list \<Rightarrow> 'f list \<Rightarrow> ('f list \<times> 'f list list) res" where
  "conv_one N G weight state row = Inr (map (ple_silu N) (conv_row N G weight (state @ [row])), drop 1 (state @ [row]))"

lemma conv_row_window:
  assumes "length s = ple_hist G"
  shows "conv_row N G weight (s @ x # xs) = conv_row N G weight (s @ [x])"
proof -
  have "(s @ x # xs) ! conv_offset G k = (s @ [x]) ! conv_offset G k" for k
  proof (cases "conv_offset G k = ple_hist G")
    case False
    with conv_offset_le [of G k] assms show ?thesis by (simp add: nth_append)
  qed (simp add: nth_append assms)
  then show ?thesis by (simp add: conv_row_def)
qed

lemma drop_Suc_window: "drop (Suc i) (s @ x # xs) = drop i (drop 1 (s @ [x]) @ xs)"
  by (cases s) simp_all

lemma length_window: "length (s @ x # xs) = length s + Suc (length xs)" "length (drop 1 (s @ [x]) @ xs) = length s + length xs"
  by simp_all

lemma conv_acc_Cons:
  assumes "length s = ple_hist G"
  shows "conv_acc N G weight (s @ x # xs) (Suc (length xs)) =
      conv_row N G weight (s @ [x]) # conv_acc N G weight (drop 1 (s @ [x]) @ xs) (length xs)"
proof -
  have "conv_acc N G weight (s @ x # xs) (Suc (length xs))
      = map (\<lambda>i. conv_row N G weight (drop i (s @ x # xs))) [0..<Suc (length xs)]"
    by (rule conv_acc_rows) (simp add: assms)
  also have "\<dots> = conv_row N G weight (s @ x # xs) # map (\<lambda>i. conv_row N G weight (drop (Suc i) (s @ x # xs))) [0..<length xs]"
    by (simp only: map_upt_Suc drop_0)
  also have "\<dots> = conv_row N G weight (s @ [x]) # map (\<lambda>i. conv_row N G weight (drop i (drop 1 (s @ [x]) @ xs))) [0..<length xs]"
    by (simp only: drop_Suc_window conv_row_window [OF assms, of N weight x xs])
  also have "map (\<lambda>i. conv_row N G weight (drop i (drop 1 (s @ [x]) @ xs))) [0..<length xs]
      = conv_acc N G weight (drop 1 (s @ [x]) @ xs) (length xs)"
    by (rule conv_acc_rows [symmetric]) (simp add: assms)
  finally show ?thesis .
qed

lemma conv_run_Cons:
  assumes "length s = ple_hist G"
  shows "conv_run N G weight s (x # xs)
      = bindR (conv_one N G weight s x) (\<lambda>(y, s1). bindR (conv_run N G weight s1 xs) (\<lambda>(ys, s2). Inr (y # ys, s2)))"
  by (simp only: conv_run_def conv_one_def conv_acc_Cons [OF assms] list.size list.map drop_Suc_window bindR_simps split_conv add_0_right add_Suc_right)

interpretation conv: stepwise "conv_run N G weight" "conv_one N G weight" "\<lambda>s. length s = ple_hist G"
  by unfold_locales (auto simp: conv_run_Cons conv_one_def, simp add: conv_run_def conv_acc_rows)

section \<open>Cubes of one shape\<close>

definition cube :: "nat \<Rightarrow> nat \<Rightarrow> 'a list list list \<Rightarrow> bool" where
  "cube c n x \<longleftrightarrow> (\<forall>tok \<in> set x. length tok = c \<and> (\<forall>r \<in> set tok. length r = n))"

lemma inner_shape_cube: "cube c n x \<Longrightarrow> x \<noteq> [] \<Longrightarrow> 0 < c \<Longrightarrow> inner_shape x = (c, n)"
  by (cases x; cases "hd x") (auto simp: cube_def inner_shape_def)

lemma mapR_Inr_map: "mapR (\<lambda>x. Inr (g x)) xs = Inr (map g xs)"
  by (rule mapR_total) simp

lemma bcast_same:
  "length xs = length ys \<Longrightarrow> (\<And>x y. (x, y) \<in> set (zip xs ys) \<Longrightarrow> f x y = Inr (g x y)) \<Longrightarrow> bcast f xs ys = Inr (map2 g xs ys)"
  unfolding bcast_def by (simp add: mapR_total [where g = "\<lambda>(x, y). g x y"] case_prod_beta split_beta)

lemma bcast3_same:
  assumes "cube c n xs" "cube c n ys" "length xs = length ys"
  shows "bcast3 f xs ys = Inr (map2 (map2 (map2 f)) xs ys)"
  unfolding bcast3_def
proof (rule bcast_same [OF assms(3)], rule bcast_same)
  fix tx ty assume t: "(tx, ty) \<in> set (zip xs ys)"
  from set_zip_leftD [OF t] set_zip_rightD [OF t] assms(1,2)
  have d: "length tx = c" "length ty = c" "\<forall>r \<in> set tx. length r = n" "\<forall>r \<in> set ty. length r = n"
    unfolding cube_def by blast+
  then show "length tx = length ty" by simp
  fix rx ry assume r: "(rx, ry) \<in> set (zip tx ty)"
  from set_zip_leftD [OF r] set_zip_rightD [OF r] d have "length rx = length ry" by simp
  then show "bcast (\<lambda>a b. Inr (f a b)) rx ry = Inr (map2 f rx ry)" by (rule bcast_same) simp
qed

lemma bcast_left: "length xs = 1 \<Longrightarrow> (\<And>y. y \<in> set ys \<Longrightarrow> f (hd xs) y = Inr (g y)) \<Longrightarrow> bcast f xs ys = Inr (map g ys)"
  unfolding bcast_def by (cases xs; cases ys; cases "tl ys") (auto simp: mapR_total)

lemma bcast_right: "length ys = 1 \<Longrightarrow> (\<And>x. x \<in> set xs \<Longrightarrow> f x (hd ys) = Inr (g x)) \<Longrightarrow> bcast f xs ys = Inr (map g xs)"
  unfolding bcast_def by (cases ys; cases xs; cases "tl xs") (auto simp: mapR_total)

lemma bcast3_gate:
  assumes "length vs = length gs"
  shows "bcast3 f (map (\<lambda>v. [v]) vs) (map (map (\<lambda>g. [g])) gs) = Inr (map2 (\<lambda>v. map (\<lambda>g. map (\<lambda>a. f a g) v)) vs gs)"
proof -
  have "bcast (bcast (\<lambda>a b. Inr (f a b))) [v] (map (\<lambda>g. [g]) gt) = Inr (map (\<lambda>g. map (\<lambda>a. f a g) v) gt)" for v gt
  proof -
    have "bcast (bcast (\<lambda>a b. Inr (f a b))) [v] (map (\<lambda>g. [g]) gt) = Inr (map (\<lambda>gg. map (\<lambda>a. f a (hd gg)) v) (map (\<lambda>g. [g]) gt))"
      by (rule bcast_left) (auto intro!: bcast_right)
    then show ?thesis by (simp add: comp_def)
  qed
  then have "bcast3 f (map (\<lambda>v. [v]) vs) (map (map (\<lambda>g. [g])) gs)
      = Inr (map2 (\<lambda>v g. map (\<lambda>g. map (\<lambda>a. f a g) (hd v)) (map hd g)) (map (\<lambda>v. [v]) vs) (map (map (\<lambda>g. [g])) gs))"
    unfolding bcast3_def using assms by (intro bcast_same) (auto simp: zip_map1 zip_map2 comp_def)
  then show ?thesis by (simp add: zip_map1 zip_map2 comp_def case_prod_beta)
qed

text \<open>Rows of one length: the flat array viewed row by row is the rows.\<close>

lemma np_reshape_rows:
  "(\<forall>r \<in> set rows. length r = n) \<Longrightarrow> np_reshape (length rows) n (concat rows) = Inr rows"
  by (simp add: np_reshape_def length_concat_same view_rows_concat)

lemma concat_map_concat: "concat (map concat x) = concat (concat x)"
  by (induction x) auto

lemma view_rows_cube: "length r = c * n \<Longrightarrow> length (view_rows c n r) = c \<and> (\<forall>v \<in> set (view_rows c n r). length v = n)"
  using view_rows_elems by fastforce

lemma cube_map: "cube c n (map f xs) \<longleftrightarrow> (\<forall>x \<in> set xs. length (f x) = c \<and> (\<forall>r \<in> set (f x). length r = n))"
  by (auto simp: cube_def)

lemma length_flat_token: "cube c n x \<Longrightarrow> tok \<in> set x \<Longrightarrow> length (concat tok) = c * n"
  using length_concat_same [of tok n] by (auto simp: cube_def)

section \<open>The convolution of a run\<close>

definition hist_state :: "('f, 'd) np \<Rightarrow> 'd fn_geom \<Rightarrow> 'f list list option \<Rightarrow> 'f list list" where
  "hist_state N G hist = (case hist of None \<Rightarrow> replicate (ple_hist G) (replicate (hc_dim G) (f_int N 0)) | Some h \<Rightarrow> h)"

definition hist_ok :: "'d fn_geom \<Rightarrow> 'f list list option \<Rightarrow> bool" where
  "hist_ok G hist \<longleftrightarrow> (\<forall>h. hist = Some h \<longrightarrow> length h = ple_hist G \<and> (\<forall>r \<in> set h. length r = hc_dim G))"

lemma hist_state_ok:
  "hist_ok G hist \<Longrightarrow> length (hist_state N G hist) = ple_hist G \<and> (\<forall>r \<in> set (hist_state N G hist). length r = hc_dim G)"
  by (cases hist) (auto simp: hist_state_def hist_ok_def)

lemma ple_conv_run:
  assumes x: "cube (fg_hc G) (fg_n_embd G) x" "x \<noteq> []" "0 < fg_hc G" and w: "length conv_w = hc_dim G * fg_ple_conv_kernel G"
    and h: "hist_ok G hist" "0 < ple_hist G"
  shows "ple_conv N G x conv_w hist = map_sum id (map_prod (map (view_rows (fg_hc G) (fg_n_embd G))) id)
           (conv_run N G (view_rows (hc_dim G) (fg_ple_conv_kernel G) conv_w) (hist_state N G hist) (map concat x))"
proof -
  have rows: "\<forall>r \<in> set (map concat x). length r = hc_dim G"
    using length_flat_token [OF x(1)] by (auto simp: hc_dim_def)
  have flat: "np_reshape (length x) (hc_dim G) (concat (map concat x)) = Inr (map concat x)"
    using np_reshape_rows [OF rows] by simp
  have weight: "np_reshape (hc_dim G) (fg_ple_conv_kernel G) conv_w = Inr (view_rows (hc_dim G) (fg_ple_conv_kernel G) conv_w)"
    using w by (simp add: np_reshape_def)
  have state: "(case hist of None \<Rightarrow> Inr (replicate (ple_hist G) (replicate (hc_dim G) (f_int N 0)))
      | Some h \<Rightarrow> np_reshape (ple_hist G) (hc_dim G) (concat h)) = Inr (hist_state N G hist)"
  proof (cases hist)
    case (Some a)
    with h(1) have "\<forall>r \<in> set a. length r = hc_dim G" "length a = ple_hist G" by (simp_all add: hist_ok_def)
    from np_reshape_rows [OF this(1)] this(2) Some show ?thesis by (simp add: hist_state_def)
  qed (simp add: hist_state_def)
  show ?thesis
    unfolding ple_conv_def Let_def flat weight state bindR_simps
    using h(2) hist_state_ok [OF h(1), of N] by (simp add: inner_shape_cube [OF x] conv_run_def)
qed

lemma length_conv_row:
  assumes "\<And>k. k < fg_ple_conv_kernel G \<Longrightarrow> length (win ! conv_offset G k) = hc_dim G" and "length weight = hc_dim G"
  shows "length (conv_row N G weight win) = hc_dim G"
proof -
  have "length (fold (\<lambda>k a. map2 (f_add N) a (map2 (f_mul N) (win ! conv_offset G k) (map (\<lambda>w. w ! k) weight))) ks a) = hc_dim G"
    if "set ks \<subseteq> {..< fg_ple_conv_kernel G}" "length a = hc_dim G" for ks a
    using that by (induction ks arbitrary: a) (auto simp: assms)
  then show ?thesis by (simp add: conv_row_def lessThan_atLeast0)
qed

lemma conv_run_shape:
  assumes "length s = ple_hist G" "\<forall>r \<in> set (s @ rows). length r = hc_dim G" "length weight = hc_dim G"
    and "conv_run N G weight s rows = Inr (c, s')"
  shows "length c = length rows" "\<forall>r \<in> set c. length r = hc_dim G" "length s' = ple_hist G" "\<forall>r \<in> set s'. length r = hc_dim G"
proof -
  have p: "length (s @ rows) = ple_hist G + length rows" using assms(1) by simp
  have c: "c = map (map (ple_silu N)) (map (\<lambda>i. conv_row N G weight (drop i (s @ rows))) [0..<length rows])" and s': "s' = drop (length rows) (s @ rows)"
    using assms(4) by (auto simp: conv_run_def conv_acc_rows [OF p])
  have "length (conv_row N G weight (drop i (s @ rows))) = hc_dim G" if i: "i < length rows" for i
  proof (rule length_conv_row [OF _ assms(3)])
    fix k
    have b: "i + conv_offset G k < length (s @ rows)" using i p conv_offset_le [of G k] by simp
    then have "(s @ rows) ! (i + conv_offset G k) \<in> set (s @ rows)" by (rule nth_mem)
    with assms(2) b show "length (drop i (s @ rows) ! conv_offset G k) = hc_dim G" by (metis add_leD1 less_imp_le nth_drop)
  qed
  then show "\<forall>r \<in> set c. length r = hc_dim G" by (auto simp: c)
  show "length c = length rows" by (simp add: c)
  show "length s' = ple_hist G" using p by (simp add: s')
  show "\<forall>r \<in> set s'. length r = hc_dim G" using assms(2) by (auto simp: s' dest: in_set_dropD)
qed

section \<open>The mix token by token\<close>

text \<open>What one token brings to the mix: its key streams, its value row and its hidden streams.\<close>

type_synonym 'f mix_token = "'f list list \<times> 'f list \<times> 'f list list"

definition tok_norm :: "('f, 'd) np \<Rightarrow> 'd fn_geom \<Rightarrow> 'f list \<Rightarrow> 'f list list \<Rightarrow> 'f list list" where
  "tok_norm N G gamma tok = map2 (rms_norm_rows N (to_f N (fg_rms_eps G))) (view_rows (fg_hc G) (fg_n_embd G) gamma) tok"

definition tok_score :: "('f, 'd) np \<Rightarrow> 'd fn_geom \<Rightarrow> 'f list \<Rightarrow> 'f list \<Rightarrow> 'f mix_token \<Rightarrow> 'f list" where
  "tok_score N G norm_key norm_query = (\<lambda>(k, v, x).
     map (\<lambda>r. f_div N (f_sum N r) (f_sqrt N (f_int N (int (fg_n_embd G)))))
       (map2 (map2 (f_mul N)) (tok_norm N G norm_key k) (tok_norm N G norm_query x)))"

definition tok_gated :: "('f, 'd) np \<Rightarrow> 'd fn_geom \<Rightarrow> 'f list \<Rightarrow> 'f list \<Rightarrow> 'f mix_token \<Rightarrow> 'f list list" where
  "tok_gated N G norm_key norm_query t =
     map (\<lambda>s. map (\<lambda>a. f_mul N a (ple_gate N s)) (fst (snd t))) (tok_score N G norm_key norm_query t)"

definition mix_rows :: "('f, 'd) np \<Rightarrow> 'd fn_geom \<Rightarrow> 'f list \<Rightarrow> 'f list \<Rightarrow> 'f list \<Rightarrow> 'f mix_token list \<Rightarrow> 'f list list" where
  "mix_rows N G norm_key norm_query norm_conv ts = map (\<lambda>t. concat (tok_norm N G norm_conv (tok_gated N G norm_key norm_query t))) ts"

definition mix_of :: "('f, 'd) np \<Rightarrow> 'd fn_geom \<Rightarrow> 'f list \<Rightarrow> 'f list \<Rightarrow> 'f list \<Rightarrow> 'f mix_token list \<Rightarrow> 'f list list \<Rightarrow> 'f list list \<Rightarrow> 'f ple_out" where
  "mix_of N G norm_key norm_query norm_conv ts c nh =
     (let streams = view_rows (fg_hc G) (fg_n_embd G); gated = tok_gated N G norm_key norm_query in
      \<lparr>po_key = map fst ts, po_value = map (\<lambda>t. fst (snd t)) ts, po_score = map (tok_score N G norm_key norm_query) ts,
       po_gate = map (\<lambda>t. map (ple_gate N) (tok_score N G norm_key norm_query t)) ts,
       po_gated = map gated ts, po_normalized = map (\<lambda>t. tok_norm N G norm_conv (gated t)) ts,
       po_conv = map streams c, po_hist = nh,
       po_out = map2 (\<lambda>t r. map2 (map2 (f_add N)) (map2 (map2 (f_add N)) (snd (snd t)) (gated t)) (streams r)) ts c\<rparr>)"

text \<open>The shapes the geometry asks for: norms and convolution weights, and the tokens of a run.\<close>

definition mix_weights_ok :: "'d fn_geom \<Rightarrow> 'f list \<Rightarrow> 'f list \<Rightarrow> 'f list \<Rightarrow> 'f list \<Rightarrow> bool" where
  "mix_weights_ok G norm_key norm_query norm_conv conv_w \<longleftrightarrow>
     0 < fg_hc G \<and> 0 < fg_n_embd G \<and> 0 < ple_hist G \<and> length norm_key = hc_dim G \<and> length norm_query = hc_dim G
     \<and> length norm_conv = hc_dim G \<and> length conv_w = hc_dim G * fg_ple_conv_kernel G"

definition mix_run_ok :: "'d fn_geom \<Rightarrow> 'f list list list \<Rightarrow> 'f list list \<Rightarrow> 'f list list list \<Rightarrow> bool" where
  "mix_run_ok G key value hidden \<longleftrightarrow> key \<noteq> [] \<and> length value = length key \<and> length hidden = length key
     \<and> cube (fg_hc G) (fg_n_embd G) key \<and> cube (fg_hc G) (fg_n_embd G) hidden \<and> (\<forall>v \<in> set value. length v = fg_n_embd G)"

lemma grouped_rms_cube:
  "cube (fg_hc G) (fg_n_embd G) x \<Longrightarrow> x \<noteq> [] \<Longrightarrow> 0 < fg_hc G \<Longrightarrow> length gamma = hc_dim G \<Longrightarrow>
     grouped_rms N (to_f N (fg_rms_eps G)) x gamma = Inr (map (tok_norm N G gamma) x)"
  by (simp add: grouped_rms_def inner_shape_cube np_reshape_def hc_dim_def tok_norm_def [abs_def])

lemma length_rms_norm_rows [simp]: "length (rms_norm_rows N eps gamma x) = min (length x) (length gamma)"
  by (simp add: rms_norm_rows_def Let_def)

lemma tok_norm_cube:
  assumes "length tok = fg_hc G" "\<forall>r \<in> set tok. length r = fg_n_embd G" "length gamma = hc_dim G"
  shows "length (tok_norm N G gamma tok) = fg_hc G \<and> (\<forall>r \<in> set (tok_norm N G gamma tok). length r = fg_n_embd G)"
proof -
  have v: "length r = fg_n_embd G" if "r \<in> set (view_rows (fg_hc G) (fg_n_embd G) gamma)" for r
    using view_rows_elems [OF _ that] assms(3) by (simp add: hc_dim_def)
  have "min (length b) (length a) = fg_n_embd G" if "(a, b) \<in> set (zip (view_rows (fg_hc G) (fg_n_embd G) gamma) tok)" for a b
    using v [OF set_zip_leftD [OF that]] assms(2) set_zip_rightD [OF that] by simp
  then show ?thesis using assms(1) by (auto simp: tok_norm_def)
qed

lemma map_fst_zip_map: "length xs = length ys \<Longrightarrow> map f xs = map (\<lambda>t. f (fst t)) (zip xs ys)"
  by (induction xs ys rule: list_induct2) auto

lemma map_snd_zip_map: "length xs = length ys \<Longrightarrow> map f ys = map (\<lambda>t. f (snd t)) (zip xs ys)"
  by (induction xs ys rule: list_induct2) auto

lemma map2_same_map: "map2 f (map g ts) (map h ts) = map (\<lambda>t. f (g t) (h t)) ts"
  by (induction ts) auto

lemma map2_map_both: "map2 f (map g xs) (map h ys) = map2 (\<lambda>x y. f (g x) (h y)) xs ys"
proof (induction xs arbitrary: ys)
  case (Cons x xs)
  then show ?case by (cases ys) simp_all
qed simp

lemma map2_token_shape:
  assumes "length a = c \<and> (\<forall>r \<in> set a. length r = n)" "length b = c \<and> (\<forall>r \<in> set b. length r = n)"
  shows "length (map2 (map2 f) a b) = c \<and> (\<forall>r \<in> set (map2 (map2 f) a b). length r = n)"
proof -
  have "min (length x) (length y) = n" if "(x, y) \<in> set (zip a b)" for x y
    using assms set_zip_leftD [OF that] set_zip_rightD [OF that] by simp
  then show ?thesis using assms by auto
qed

lemma cube_mapI: "(\<And>x. x \<in> set xs \<Longrightarrow> length (f x) = c \<and> (\<forall>r \<in> set (f x). length r = n)) \<Longrightarrow> cube c n (map f xs)"
  by (simp add: cube_def)

lemma cube_mapD: "cube c n (map f xs) \<Longrightarrow> x \<in> set xs \<Longrightarrow> length (f x) = c \<and> (\<forall>r \<in> set (f x). length r = n)"
  by (simp add: cube_def)

lemma tok_shapes:
  assumes w: "mix_weights_ok G norm_key norm_query norm_conv conv_w" and r: "mix_run_ok G key value hidden"
    and t: "t \<in> set (zip key (zip value hidden))"
  shows "length (tok_gated N G norm_key norm_query t) = fg_hc G
      \<and> (\<forall>r \<in> set (tok_gated N G norm_key norm_query t). length r = fg_n_embd G)"
proof -
  obtain k v x where [simp]: "t = (k, v, x)" by (cases t)
  have vx: "(v, x) \<in> set (zip value hidden)" using t by (auto dest: set_zip_rightD)
  have "k \<in> set key" "v \<in> set value" "x \<in> set hidden"
    using t set_zip_leftD [OF vx] set_zip_rightD [OF vx] by (auto dest: set_zip_leftD)
  then have k: "length k = fg_hc G" "\<forall>r \<in> set k. length r = fg_n_embd G" and x: "length x = fg_hc G" "\<forall>r \<in> set x. length r = fg_n_embd G"
    and v: "length v = fg_n_embd G" using r by (auto simp: mix_run_ok_def cube_def)
  from w have "length norm_key = hc_dim G" "length norm_query = hc_dim G" by (simp_all add: mix_weights_ok_def)
  then show ?thesis using tok_norm_cube [OF k, of norm_key N] tok_norm_cube [OF x, of norm_query N] v
    by (auto simp: tok_gated_def tok_score_def)
qed

text \<open>The convolution of the rows of a run.\<close>

lemma mix_rows_ok:
  assumes w: "mix_weights_ok G norm_key norm_query norm_conv conv_w" and r: "mix_run_ok G key value hidden"
  shows "\<forall>x \<in> set (mix_rows N G norm_key norm_query norm_conv (zip key (zip value hidden))). length x = hc_dim G"
proof
  fix x assume "x \<in> set (mix_rows N G norm_key norm_query norm_conv (zip key (zip value hidden)))"
  then obtain t where t: "t \<in> set (zip key (zip value hidden))"
    and x: "x = concat (tok_norm N G norm_conv (tok_gated N G norm_key norm_query t))" by (auto simp: mix_rows_def)
  note g = tok_shapes [OF w r t, of N]
  from tok_norm_cube [OF g [THEN conjunct1] g [THEN conjunct2], of norm_conv] w
  have "length (tok_norm N G norm_conv (tok_gated N G norm_key norm_query t)) = fg_hc G"
    "\<forall>r \<in> set (tok_norm N G norm_conv (tok_gated N G norm_key norm_query t)). length r = fg_n_embd G"
    by (simp_all add: mix_weights_ok_def)
  from length_concat_same [OF this(2)] this(1) show "length x = hc_dim G" by (simp add: x hc_dim_def)
qed

lemma mix_conv_runs:
  assumes w: "mix_weights_ok G norm_key norm_query norm_conv conv_w" and r: "mix_run_ok G key value hidden"
    and s: "length s = ple_hist G" "\<forall>x \<in> set s. length x = hc_dim G"
  shows "\<exists>c nh. conv_run N G (view_rows (hc_dim G) (fg_ple_conv_kernel G) conv_w) s
        (mix_rows N G norm_key norm_query norm_conv (zip key (zip value hidden))) = Inr (c, nh)
      \<and> length c = length (zip key (zip value hidden)) \<and> hist_ok G (Some nh) \<and> (\<forall>x \<in> set c. length x = hc_dim G)"
proof -
  let ?rows = "mix_rows N G norm_key norm_query norm_conv (zip key (zip value hidden))"
  let ?w = "view_rows (hc_dim G) (fg_ple_conv_kernel G) conv_w"
  have all: "\<forall>x \<in> set (s @ ?rows). length x = hc_dim G" using s(2) mix_rows_ok [OF w r] by auto
  obtain c nh where run: "conv_run N G ?w s ?rows = Inr (c, nh)" by (simp add: conv_run_def)
  note sh = conv_run_shape [OF s(1) all length_view_rows run]
  with run show ?thesis by (auto simp: hist_ok_def mix_rows_def)
qed

lemma mix_conv_shape:
  assumes w: "mix_weights_ok G norm_key norm_query norm_conv conv_w" and r: "mix_run_ok G key value hidden" and h: "hist_ok G hist"
    and c: "conv_run N G (view_rows (hc_dim G) (fg_ple_conv_kernel G) conv_w) (hist_state N G hist)
              (mix_rows N G norm_key norm_query norm_conv (zip key (zip value hidden))) = Inr (c, nh)"
  shows "length c = length (zip key (zip value hidden))" and "cube (fg_hc G) (fg_n_embd G) (map (view_rows (fg_hc G) (fg_n_embd G)) c)"
proof -
  note s = hist_state_ok [OF h, of N]
  from mix_conv_runs [OF w r s [THEN conjunct1] s [THEN conjunct2], of N] c
  have l: "length c = length (zip key (zip value hidden))" and rows: "\<forall>x \<in> set c. length x = hc_dim G" by auto
  show "length c = length (zip key (zip value hidden))" by (rule l)
  show "cube (fg_hc G) (fg_n_embd G) (map (view_rows (fg_hc G) (fg_n_embd G)) c)"
    by (rule cube_mapI) (rule view_rows_cube, use rows in \<open>simp add: hc_dim_def\<close>)
qed

lemma zip_columns:
  assumes "length ys = length xs" "length zs = length xs"
  shows "map fst (zip xs (zip ys zs)) = xs" "map (\<lambda>t. fst (snd t)) (zip xs (zip ys zs)) = ys" "map (\<lambda>t. snd (snd t)) (zip xs (zip ys zs)) = zs"
proof -
  show "map fst (zip xs (zip ys zs)) = xs" using assms by simp
  have "map snd (zip xs (zip ys zs)) = zip ys zs" using assms by simp
  then have "map fst (map snd (zip xs (zip ys zs))) = ys" "map snd (map snd (zip xs (zip ys zs))) = zs" using assms by simp_all
  then show "map (\<lambda>t. fst (snd t)) (zip xs (zip ys zs)) = ys" "map (\<lambda>t. snd (snd t)) (zip xs (zip ys zs)) = zs"
    by (simp_all add: comp_def)
qed

lemma ple_mix_run:
  assumes w: "mix_weights_ok G norm_key norm_query norm_conv conv_w"
    and r: "mix_run_ok G key value hidden" and h: "hist_ok G hist"
    and c: "conv_run N G (view_rows (hc_dim G) (fg_ple_conv_kernel G) conv_w) (hist_state N G hist)
              (mix_rows N G norm_key norm_query norm_conv (zip key (zip value hidden))) = Inr (c, nh)"
  shows "ple_mix N G key value hidden hist norm_key norm_query norm_conv conv_w
    = Inr (mix_of N G norm_key norm_query norm_conv (zip key (zip value hidden)) c nh)"
proof -
  let ?ts = "zip key (zip value hidden)" and ?v = "view_rows (fg_hc G) (fg_n_embd G)" and ?eps = "to_f N (fg_rms_eps G)"
  let ?gated = "tok_gated N G norm_key norm_query" and ?score = "tok_score N G norm_key norm_query"
  from w have pos: "0 < fg_hc G" "0 < hc_dim G" "0 < ple_hist G"
    and len: "length norm_key = hc_dim G" "length norm_query = hc_dim G" "length norm_conv = hc_dim G" "length conv_w = hc_dim G * fg_ple_conv_kernel G"
    by (simp_all add: mix_weights_ok_def hc_dim_def)
  from r have lens: "length value = length key" "length hidden = length key" and ne: "key \<noteq> []" "hidden \<noteq> []" "?ts \<noteq> []"
    and kc: "cube (fg_hc G) (fg_n_embd G) key" and hc: "cube (fg_hc G) (fg_n_embd G) hidden"
    by (auto simp: mix_run_ok_def)
  note col = zip_columns [OF lens]
  have gc: "cube (fg_hc G) (fg_n_embd G) (map ?gated ?ts)"
    by (rule cube_mapI) (rule tok_shapes [OF w r])
  have kn: "grouped_rms N ?eps key norm_key = Inr (map (\<lambda>t. tok_norm N G norm_key (fst t)) ?ts)"
    using grouped_rms_cube [OF kc ne(1) pos(1) len(1), of N] arg_cong [OF col(1), of "map (tok_norm N G norm_key)"] by (simp add: comp_def)
  have qn: "grouped_rms N ?eps hidden norm_query = Inr (map (\<lambda>t. tok_norm N G norm_query (snd (snd t))) ?ts)"
    using grouped_rms_cube [OF hc ne(2) pos(1) len(2), of N] arg_cong [OF col(3), of "map (tok_norm N G norm_query)"] by (simp add: comp_def)
  have gn: "grouped_rms N ?eps (map ?gated ?ts) norm_conv = Inr (map (\<lambda>t. tok_norm N G norm_conv (?gated t)) ?ts)"
    using grouped_rms_cube [OF gc _ pos(1) len(3), of N] ne(3) by (simp add: comp_def)
  have norm_cube: "cube (fg_hc G) (fg_n_embd G) (map (\<lambda>t. tok_norm N G gamma (f t)) ?ts)"
    if "cube (fg_hc G) (fg_n_embd G) (map f ?ts)" "length gamma = hc_dim G" for f gamma
  proof (rule cube_mapI)
    fix t assume t: "t \<in> set ?ts"
    note ft = cube_mapD [OF that(1) t]
    from tok_norm_cube [OF ft [THEN conjunct1] ft [THEN conjunct2] that(2)]
    show "length (tok_norm N G gamma (f t)) = fg_hc G \<and> (\<forall>r \<in> set (tok_norm N G gamma (f t)). length r = fg_n_embd G)" .
  qed
  have kc': "cube (fg_hc G) (fg_n_embd G) (map fst ?ts)" and hc': "cube (fg_hc G) (fg_n_embd G) (map (\<lambda>t. snd (snd t)) ?ts)"
    unfolding col by (rule kc, rule hc)
  have prod: "bcast3 (f_mul N) (map (\<lambda>t. tok_norm N G norm_key (fst t)) ?ts) (map (\<lambda>t. tok_norm N G norm_query (snd (snd t))) ?ts)
      = Inr (map (\<lambda>t. map2 (map2 (f_mul N)) (tok_norm N G norm_key (fst t)) (tok_norm N G norm_query (snd (snd t)))) ?ts)"
    by (subst bcast3_same [OF norm_cube [OF kc' len(1)] norm_cube [OF hc' len(2)]]) (simp_all only: length_map map2_same_map)
  have score: "map (map (\<lambda>r. f_div N (f_sum N r) (f_sqrt N (f_int N (int (fg_n_embd G))))))
        (map (\<lambda>t. map2 (map2 (f_mul N)) (tok_norm N G norm_key (fst t)) (tok_norm N G norm_query (snd (snd t)))) ?ts)
      = map ?score ?ts" "map (map (ple_gate N)) (map ?score ?ts) = map (\<lambda>t. map (ple_gate N) (?score t)) ?ts"
    by (simp_all add: tok_score_def case_prod_beta comp_def)
  have "bcast3 (f_mul N) (map (\<lambda>v. [v]) (map (\<lambda>t. fst (snd t)) ?ts)) (map (map (\<lambda>g. [g])) (map (\<lambda>t. map (ple_gate N) (?score t)) ?ts))
      = Inr (map ?gated ?ts)"
    by (subst bcast3_gate) (simp_all only: length_map map2_same_map tok_gated_def [abs_def] map_map comp_def)
  then have gate: "bcast3 (f_mul N) (map (\<lambda>v. [v]) value) (map (map (\<lambda>g. [g])) (map (\<lambda>t. map (ple_gate N) (?score t)) ?ts)) = Inr (map ?gated ?ts)"
    unfolding col .
  have rows: "map concat (map (\<lambda>t. tok_norm N G norm_conv (?gated t)) ?ts) = mix_rows N G norm_key norm_query norm_conv ?ts"
    by (simp add: mix_rows_def)
  have cv: "ple_conv N G (map (\<lambda>t. tok_norm N G norm_conv (?gated t)) ?ts) conv_w hist = Inr (map ?v c, nh)"
    using ple_conv_run [OF norm_cube [OF gc len(3)] _ pos(1) len(4) h pos(3), of N] ne(3)
    by (simp only: rows c map_sum.simps map_prod_simp id_apply map_is_Nil_conv simp_thms)
  note shape = mix_conv_shape [OF w r h c]
  have "bcast3 (f_add N) (map (\<lambda>t. snd (snd t)) ?ts) (map ?gated ?ts) = Inr (map (\<lambda>t. map2 (map2 (f_add N)) (snd (snd t)) (?gated t)) ?ts)"
    by (subst bcast3_same [OF hc' gc]) (simp_all only: length_map map2_same_map)
  then have hg: "bcast3 (f_add N) hidden (map ?gated ?ts) = Inr (map (\<lambda>t. map2 (map2 (f_add N)) (snd (snd t)) (?gated t)) ?ts)"
    unfolding col .
  have hgc: "cube (fg_hc G) (fg_n_embd G) (map (\<lambda>t. map2 (map2 (f_add N)) (snd (snd t)) (?gated t)) ?ts)"
    by (rule cube_mapI) (rule map2_token_shape [OF cube_mapD [OF hc'] cube_mapD [OF gc]])
  have out: "bcast3 (f_add N) (map (\<lambda>t. map2 (map2 (f_add N)) (snd (snd t)) (?gated t)) ?ts) (map ?v c)
      = Inr (map2 (\<lambda>t r. map2 (map2 (f_add N)) (map2 (map2 (f_add N)) (snd (snd t)) (?gated t)) (?v r)) ?ts c)"
    by (subst bcast3_same [OF hgc shape(2)]) (simp_all only: length_map shape(1) map2_map_both)
  show ?thesis
    unfolding ple_mix_def Let_def bindR_simps kn qn prod score gate gn cv split_conv hg out
    by (simp only: mix_of_def Let_def col)
qed

section \<open>Property\<close>

definition ple_join :: "'f ple_out \<Rightarrow> 'f ple_out \<Rightarrow> 'f ple_out" where
  "ple_join a b = \<lparr>po_key = po_key a @ po_key b, po_value = po_value a @ po_value b, po_score = po_score a @ po_score b,
     po_gate = po_gate a @ po_gate b, po_gated = po_gated a @ po_gated b, po_normalized = po_normalized a @ po_normalized b,
     po_conv = po_conv a @ po_conv b, po_hist = po_hist b, po_out = po_out a @ po_out b\<rparr>"

lemma mix_of_append:
  "length c = length ts \<Longrightarrow> mix_of N G norm_key norm_query norm_conv (ts @ us) (c @ d) nh2
     = ple_join (mix_of N G norm_key norm_query norm_conv ts c nh) (mix_of N G norm_key norm_query norm_conv us d nh2)"
  by (simp add: mix_of_def ple_join_def Let_def)

text \<open>C28. The residual block past its projections, over a run of tokens, is the block over its two parts, the second
  started from the history the first one left: every intermediate value and the output are the concatenations, the history
  is the second's. Neither raises when norms, weights, tokens and history have the shapes of the geometry. Nothing is
  assumed of the float operations.\<close>

theorem ple_block_in_chunks:
  assumes "mix_weights_ok G norm_key norm_query norm_conv conv_w"
    and "mix_run_ok G key1 value1 hidden1" "mix_run_ok G key2 value2 hidden2" "hist_ok G hist"
  shows "\<exists>r1 r2. ple_mix N G key1 value1 hidden1 hist norm_key norm_query norm_conv conv_w = Inr r1
     \<and> ple_mix N G key2 value2 hidden2 (Some (po_hist r1)) norm_key norm_query norm_conv conv_w = Inr r2
     \<and> ple_mix N G (key1 @ key2) (value1 @ value2) (hidden1 @ hidden2) hist norm_key norm_query norm_conv conv_w
         = Inr (ple_join r1 r2)"
proof -
  let ?rows = "mix_rows N G norm_key norm_query norm_conv" and ?w = "view_rows (hc_dim G) (fg_ple_conv_kernel G) conv_w"
  let ?s = "hist_state N G hist" and ?of = "mix_of N G norm_key norm_query norm_conv"
  let ?t1 = "zip key1 (zip value1 hidden1)" and ?t2 = "zip key2 (zip value2 hidden2)"
  have ts: "zip (key1 @ key2) (zip (value1 @ value2) (hidden1 @ hidden2)) = ?t1 @ ?t2" using assms(2) by (simp add: mix_run_ok_def)
  have run12: "mix_run_ok G (key1 @ key2) (value1 @ value2) (hidden1 @ hidden2)" using assms(2,3) by (auto simp: mix_run_ok_def cube_def)
  note s = hist_state_ok [OF assms(4), of N]
  from mix_conv_runs [OF assms(1,2) s [THEN conjunct1] s [THEN conjunct2]] obtain c1 h1
    where c1: "conv_run N G ?w ?s (?rows ?t1) = Inr (c1, h1)" "length c1 = length ?t1" and h1: "hist_ok G (Some h1)" by blast
  have h1s: "hist_state N G (Some h1) = h1" "length h1 = ple_hist G" "\<forall>x \<in> set h1. length x = hc_dim G"
    using h1 by (simp_all add: hist_state_def hist_ok_def)
  from mix_conv_runs [OF assms(1,3) h1s(2,3)] obtain c2 h2
    where c2: "conv_run N G ?w h1 (?rows ?t2) = Inr (c2, h2)" by blast
  have rows: "?rows (?t1 @ ?t2) = ?rows ?t1 @ ?rows ?t2" by (simp add: mix_rows_def)
  have c12: "conv_run N G ?w ?s (?rows (?t1 @ ?t2)) = Inr (c1 @ c2, h2)"
    unfolding rows conv.run_append [OF s [THEN conjunct1]] by (simp add: c1 c2)
  note join = mix_of_append [OF c1(2), of N G norm_key norm_query norm_conv ?t2 c2 h2 h1]
  have hist1: "po_hist (?of ?t1 c1 h1) = h1" by (simp add: mix_of_def Let_def)
  have c2': "conv_run N G ?w (hist_state N G (Some h1)) (?rows ?t2) = Inr (c2, h2)" using c2 h1s(1) by simp
  from ple_mix_run [OF assms(1,2,4) c1(1)] ple_mix_run [OF assms(1,3) h1 c2'] ple_mix_run [OF assms(1) run12 assms(4) c12 [folded ts]]
    join hist1 show ?thesis unfolding ts by metis
qed

definition demo_fn :: "32 word fn_geom" where
  "demo_fn = (FLASHNEXT 0 0)\<lparr>fg_hc := 1, fg_n_embd := 1\<rparr>"

theorem ple_block_in_chunks_witness:
  "\<exists>r1 r2. ple_mix word_np demo_fn [[[6]]] [[5]] [[[4]]] None [1] [1] [1] [1, 2, 3, 4] = Inr r1
     \<and> ple_mix word_np demo_fn [[[7]], [[8]]] [[9], [3]] [[[9]], [[1]]] (Some (po_hist r1)) [1] [1] [1] [1, 2, 3, 4] = Inr r2
     \<and> ple_mix word_np demo_fn [[[6]], [[7]], [[8]]] [[5], [9], [3]] [[[4]], [[9]], [[1]]] None [1] [1] [1] [1, 2, 3, 4] = Inr (ple_join r1 r2)"
proof -
  have "mix_weights_ok demo_fn [1 :: 32 word] [1 :: 32 word] [1 :: 32 word] [1, 2, 3, 4 :: 32 word]"
    "mix_run_ok demo_fn [[[6 :: 32 word]]] [[5]] [[[4]]]" "mix_run_ok demo_fn [[[7 :: 32 word]], [[8]]] [[9], [3]] [[[9]], [[1]]]"
    "hist_ok demo_fn (None :: 32 word list list option)"
    by (simp_all add: mix_weights_ok_def mix_run_ok_def cube_def hist_ok_def demo_fn_def FLASHNEXT_def hc_dim_def ple_hist_def)
  from ple_block_in_chunks [OF this, of word_np] show ?thesis by simp
qed

end
