(* ===== verification/Kvd_State.thy ===== *)
theory Kvd_State
  imports Codec "HOL-Library.List_Lexorder"
begin

text \<open>
  The kvd key-value server of \<open>evals/abfast/longrun/tasks/re-proto/src/ref_kvd.py\<close>: its byte strings,
  the login hash, the server, connection and entry objects, frames, and the methods that write to a
  connection. The connection objects live in a heap indexed by their id; \<open>conns\<close> holds the ids of the
  registered ones. A socket is the bytes it took and whether writing to it raises \<open>OSError\<close>.
\<close>

unbundle bit_operations_syntax

section \<open>Byte strings\<close>

type_synonym octets = "8 word list"

text \<open>\<open>int.from_bytes(b, "little")\<close>, the \<open>n\<close> little-endian bytes of a number, and \<open>struct.pack\<close> of an
  unsigned field of \<open>n\<close> bytes, which raises \<open>struct.error\<close> out of range.\<close>

fun le_nat :: "octets \<Rightarrow> nat" where
  "le_nat [] = 0"
| "le_nat (b # bs) = unat b + 256 * le_nat bs"

fun le_bytes :: "nat \<Rightarrow> nat \<Rightarrow> octets" where
  "le_bytes 0 x = []"
| "le_bytes (Suc n) x = of_nat (x mod 256) # le_bytes n (x div 256)"

definition pack_le :: "nat \<Rightarrow> int \<Rightarrow> octets res" where
  "pack_le n x = (if x < 0 \<or> 256 ^ n \<le> x then Inl (StructError ''argument out of range'')
                  else Inr (le_bytes n (nat x)))"

text \<open>\<open>bytes([...])\<close> of numbers, and of a text.\<close>

definition bytes_of :: "nat list \<Rightarrow> octets res" where
  "bytes_of ns = (if list_ex (\<lambda>n. 256 \<le> n) ns then Inl (ValueError ''bytes must be in range(0, 256)'')
                  else Inr (map of_nat ns))"

definition text_bytes :: "string \<Rightarrow> octets" where
  "text_bytes t = map of_char t"

text \<open>\<open>"%d"\<close> of a natural number.\<close>

fun dec_digits :: "nat \<Rightarrow> octets" where
  "dec_digits n = (if n < 10 then [of_nat (48 + n)] else dec_digits (n div 10) @ [of_nat (48 + n mod 10)])"

declare dec_digits.simps [simp del]

section \<open>The login hash\<close>

definition splitmix :: "64 word \<Rightarrow> 64 word" where
  "splitmix z0 =
     (let z = z0 + 0x9E3779B97F4A7C15;
          z = (z XOR drop_bit 30 z) * 0xBF58476D1CE4E5B9;
          z = (z XOR drop_bit 27 z) * 0x94D049BB133111EB
      in z XOR drop_bit 31 z)"

definition rotl :: "64 word \<Rightarrow> nat \<Rightarrow> 64 word" where
  "rotl x r = push_bit r x OR drop_bit (64 - r) x"

definition auth_hash :: "octets \<Rightarrow> octets \<Rightarrow> octets \<Rightarrow> 64 word" where
  "auth_hash secret nonce user =
     (let h = 0xcbf29ce484222325;
          h = foldl (\<lambda>h b. (h XOR ucast b) * 0x100000001b3) h secret;
          h = foldl (\<lambda>h b. rotl ((h XOR ucast b) * 0x100000001b3) 5) h nonce;
          h = foldl (\<lambda>h b. (h XOR ucast b) * 0x100000001b3) h user;
          h = h XOR drop_bit 29 h;
          h = h * 0xBF58476D1CE4E5B9
      in h XOR drop_bit 32 h)"

text \<open>The users: name, secret and role.\<close>

definition users :: "(octets, octets \<times> nat) odict" where
  "users = [(text_bytes ''alice'', text_bytes ''wonderland'', 3), (text_bytes ''bob'', text_bytes ''builder99'', 2),
            (text_bytes ''carol'', text_bytes ''readonly!'', 1), (text_bytes ''dave'', text_bytes ''d4v3-r0cks'', 2)]"

section \<open>Limits and error codes\<close>

definition max_pay :: nat where "max_pay = 512"
definition max_keys :: nat where "max_keys = 64"

datatype kvd_error =
    E_BADFRAME | E_BADVER | E_NOAUTH | E_NOTFOUND | E_WRONGTYPE | E_CONFLICT | E_TOOBIG | E_STATE
  | E_UNKNOWN | E_BADARG | E_PERM | E_FULL | E_AUTHFAIL

fun err_code :: "kvd_error \<Rightarrow> nat" where
  "err_code E_BADFRAME = 1" | "err_code E_BADVER = 2" | "err_code E_NOAUTH = 3"
| "err_code E_NOTFOUND = 4" | "err_code E_WRONGTYPE = 5" | "err_code E_CONFLICT = 6"
| "err_code E_TOOBIG = 7" | "err_code E_STATE = 8" | "err_code E_UNKNOWN = 9"
| "err_code E_BADARG = 10" | "err_code E_PERM = 11" | "err_code E_FULL = 12"
| "err_code E_AUTHFAIL = 13"

definition emsg :: "string list" where
  "emsg = ['''', ''bad frame'', ''unsupported version'', ''authentication required'', ''not found'',
     ''wrong type'', ''transaction conflict'', ''payload too large'', ''invalid state'',
     ''unknown operation'', ''bad argument'', ''permission denied'', ''store full'',
     ''authentication failed'']"

section \<open>Objects\<close>

text \<open>An entry: value type, value, and the clock value it expires at, 0 for never.\<close>

record ent =
  ent_type :: nat
  ent_val :: octets
  ent_exp :: nat

type_synonym kv_store = "(octets, ent) odict"

record conn =
  authed :: bool
  role :: nat
  fails :: nat
  closing :: bool
  intx :: bool
  watch :: "octets list"
  inbuf :: octets
  tx_base :: "kv_store option"
  tx_work :: "kv_store option"
  touched :: "octets list"
  sent :: octets
  broken :: bool

definition new_conn :: conn where
  "new_conn = \<lparr>authed = False, role = 0, fails = 0, closing = False, intx = False, watch = [],
     inbuf = [], tx_base = None, tx_work = None, touched = [], sent = [], broken = False\<rparr>"

record server =
  seed :: int
  clock :: nat
  glob :: kv_store
  conns :: "nat list"
  accepted :: nat
  obj :: "nat \<Rightarrow> conn"

definition new_server :: "int \<Rightarrow> server" where
  "new_server sd = \<lparr>seed = sd, clock = 0, glob = [], conns = [], accepted = 0, obj = (\<lambda>_. new_conn)\<rparr>"

type_synonym 'a step = "(server, 'a) act"

text \<open>Assigning to fields of a connection object.\<close>

definition set_conn :: "nat \<Rightarrow> (conn \<Rightarrow> conn) \<Rightarrow> unit step" where
  "set_conn c f = modA (\<lambda>s. s\<lparr>obj := (obj s)(c := f (obj s c))\<rparr>)"

fun eachA :: "('x \<Rightarrow> ('s, unit) act) \<Rightarrow> 'x list \<Rightarrow> ('s, unit) act" where
  "eachA f [] = retA ()"
| "eachA f (x # xs) = bindA (f x) (\<lambda>_. eachA f xs)"

section \<open>Writing to a connection\<close>

definition nonce_of :: "server \<Rightarrow> nat \<Rightarrow> octets" where
  "nonce_of s cid = le_bytes 8 (unat (splitmix (word_of_int (seed s) + of_nat cid * 0x9E3779B97F4A7C15)))"

text \<open>A frame: magic, version 2, type, request id, payload length, payload.\<close>

definition frame :: "nat \<Rightarrow> nat \<Rightarrow> octets \<Rightarrow> octets res" where
  "frame typ rid pay =
     bindR (bytes_of [2, typ]) (\<lambda>h.
     bindR (pack_le 4 (int rid)) (\<lambda>r.
     bindR (pack_le 2 (int (length pay))) (\<lambda>l.
     Inr (text_bytes ''KV'' @ h @ (r @ l) @ pay))))"

text \<open>\<open>send\<close>: an \<open>OSError\<close> of the socket is caught and marks the connection closing; \<open>struct.error\<close> is
  not caught.\<close>

definition send :: "nat \<Rightarrow> nat \<Rightarrow> nat \<Rightarrow> octets \<Rightarrow> unit step" where
  "send c typ rid pay =
     bindA (liftA (\<lambda>_. frame typ rid pay)) (\<lambda>f.
     withA (\<lambda>s. if broken (obj s c) then set_conn c (\<lambda>k. k\<lparr>closing := True\<rparr>)
                else set_conn c (\<lambda>k. k\<lparr>sent := sent k @ f\<rparr>)))"

definition err :: "nat \<Rightarrow> nat \<Rightarrow> kvd_error \<Rightarrow> unit step" where
  "err c rid code =
     bindA (liftA (\<lambda>_. bytes_of [err_code code])) (\<lambda>b. send c 0xFF rid (b @ text_bytes (emsg ! err_code code)))"

definition match :: "octets \<Rightarrow> octets \<Rightarrow> bool" where
  "match pat key = (if pat \<noteq> [] \<and> last pat = 42 then take (length pat - 1) key = butlast pat else key = pat)"

definition notify_one :: "nat \<Rightarrow> nat \<Rightarrow> octets \<Rightarrow> nat \<Rightarrow> unit step" where
  "notify_one actor ev key cid = withA (\<lambda>s.
     let c = obj s cid in
     if cid = actor \<or> closing c then retA ()
     else if list_ex (\<lambda>pat. match pat key) (watch c)
     then bindA (liftA (\<lambda>_. bytes_of [ev, length key])) (\<lambda>h. send cid 0xA0 0 (h @ key))
     else retA ())"

definition notify :: "nat \<Rightarrow> nat \<Rightarrow> octets \<Rightarrow> unit step" where
  "notify actor ev key = withA (\<lambda>s. eachA (notify_one actor ev key) (sort (conns s)))"

section \<open>Entries\<close>

text \<open>\<open>record(e)\<close>: type, remaining time and length-prefixed value.\<close>

definition entry_record :: "server \<Rightarrow> ent \<Rightarrow> octets res" where
  "entry_record s e =
     (let ttl = (if ent_exp e \<noteq> 0 then int (ent_exp e) - int (clock s) else 0) in
      bindR (bytes_of [ent_type e]) (\<lambda>t.
      bindR (pack_le 4 ttl) (\<lambda>x.
      bindR (pack_le 2 (int (length (ent_val e)))) (\<lambda>l.
      Inr (t @ (x @ l) @ ent_val e)))))"

fun walk_items :: "octets \<Rightarrow> nat \<Rightarrow> nat \<Rightarrow> nat option" where
  "walk_items v 0 p = Some p"
| "walk_items v (Suc n) p =
     (if length v \<le> p then None
      else let p' = p + (1 + unat (v ! p)) in if length v < p' then None else walk_items v n p')"

definition check_val :: "nat \<Rightarrow> octets \<Rightarrow> bool" where
  "check_val t v =
     (if t = 0 then length v = 8
      else if t = 1 then length v \<le> 400
      else if t = 2 then
        (if length v < 1 then False
         else let cnt = unat (v ! 0) in
           if 16 < cnt then False
           else (case walk_items v cnt 1 of None \<Rightarrow> False | Some p \<Rightarrow> p = length v \<and> p \<le> 400))
      else False)"

end
