(* ===== verification/Kvd_Ops.thy ===== *)
theory Kvd_Ops
  imports Kvd_State
begin

text \<open>
  The request handlers of the kvd server. A payload is parsed by \<open>take\<close> and \<open>takeb\<close>; the handlers'
  local exception \<open>Bad\<close> is the \<open>None\<close> of a parser, turned into the error reply \<open>bad argument\<close> by
  \<open>handle\<close>. The store a handler works on is the connection's working copy inside a transaction and the
  global one outside.
\<close>

section \<open>Parsing a payload\<close>

definition take_bytes :: "nat \<Rightarrow> octets \<Rightarrow> (octets \<times> octets) option" where
  "take_bytes w r = (if length r < w then None else Some (take w r, drop w r))"

definition take_int :: "nat \<Rightarrow> octets \<Rightarrow> (nat \<times> octets) option" where
  "take_int w r = map_option (\<lambda>(b, r'). (le_nat b, r')) (take_bytes w r)"

text \<open>A length-prefixed name: \<open>kl = take(1); k = takeb(kl)\<close>.\<close>

definition take_name :: "octets \<Rightarrow> (octets \<times> octets) option" where
  "take_name r = Option.bind (take_int 1 r) (\<lambda>(kl, r). take_bytes kl r)"

definition no_nul :: "octets \<Rightarrow> bool" where
  "no_nul k = (0 \<notin> set k)"

definition parse_login :: "octets \<Rightarrow> (octets \<times> nat) option" where
  "parse_login pay =
     Option.bind (take_name pay) (\<lambda>(u, r).
     Option.bind (take_int 8 r) (\<lambda>(h, r).
     if r \<noteq> [] then None else Some (u, h)))"

definition parse_put :: "octets \<Rightarrow> (octets \<times> nat \<times> nat \<times> octets) option" where
  "parse_put pay =
     Option.bind (take_name pay) (\<lambda>(k, r).
     Option.bind (take_int 1 r) (\<lambda>(t, r).
     Option.bind (take_int 4 r) (\<lambda>(ttl, v).
     if length k < 1 \<or> 32 < length k \<or> \<not> no_nul k then None
     else if \<not> check_val t v then None
     else Some (k, t, ttl, v))))"

text \<open>The key of \<open>get\<close>, \<open>delete\<close> and \<open>ttl\<close>: no upper bound on its length.\<close>

definition parse_key :: "octets \<Rightarrow> octets option" where
  "parse_key pay =
     Option.bind (take_name pay) (\<lambda>(k, r).
     if r \<noteq> [] \<or> length k < 1 \<or> \<not> no_nul k then None else Some k)"

definition parse_incr :: "octets \<Rightarrow> (octets \<times> nat) option" where
  "parse_incr pay =
     Option.bind (take_name pay) (\<lambda>(k, r).
     Option.bind (take_int 8 r) (\<lambda>(d, r).
     if r \<noteq> [] \<or> length k < 1 \<or> 32 < length k \<or> \<not> no_nul k then None else Some (k, d)))"

definition parse_tick :: "octets \<Rightarrow> nat option" where
  "parse_tick pay =
     Option.bind (take_int 4 pay) (\<lambda>(t, r).
     if r \<noteq> [] \<or> t = 0 \<or> 100000 < t then None else Some t)"

text \<open>The pattern of \<open>watch\<close> and \<open>unwatch\<close>, and that of \<open>list\<close>, which may be empty.\<close>

definition parse_watch :: "octets \<Rightarrow> octets option" where
  "parse_watch pay =
     Option.bind (take_name pay) (\<lambda>(k, r).
     if r \<noteq> [] \<or> length k < 1 \<or> 32 < length k \<or> \<not> no_nul k then None else Some k)"

definition parse_pattern :: "octets \<Rightarrow> octets option" where
  "parse_pattern pay =
     Option.bind (take_name pay) (\<lambda>(k, r).
     if r \<noteq> [] \<or> 32 < length k \<or> \<not> no_nul k then None else Some k)"

definition parse_expire :: "octets \<Rightarrow> (octets \<times> nat) option" where
  "parse_expire pay =
     Option.bind (take_name pay) (\<lambda>(k, r).
     Option.bind (take_int 4 r) (\<lambda>(ttl, r).
     if r \<noteq> [] \<or> length k < 1 \<or> \<not> no_nul k then None else Some (k, ttl)))"

definition parse_empty :: "octets \<Rightarrow> unit option" where
  "parse_empty pay = (if pay \<noteq> [] then None else Some ())"

text \<open>\<open>raise Bad()\<close>.\<close>

definition bad :: py_error where
  "bad = LocalError ''Bad''"

definition parsed :: "'a option \<Rightarrow> 'a step" where
  "parsed x = liftA (\<lambda>_. case x of None \<Rightarrow> Inl bad | Some y \<Rightarrow> Inr y)"

section \<open>The store of a request\<close>

definition use_store :: "nat \<Rightarrow> kv_store step" where
  "use_store c = liftA (\<lambda>s.
     if intx (obj s c)
     then (case tx_work (obj s c) of None \<Rightarrow> Inl (AttributeError ''NoneType'') | Some d \<Rightarrow> Inr d)
     else Inr (glob s))"

definition set_store :: "nat \<Rightarrow> kv_store \<Rightarrow> unit step" where
  "set_store c d = withA (\<lambda>s.
     if intx (obj s c) then set_conn c (\<lambda>k. k\<lparr>tx_work := Some d\<rparr>) else modA (\<lambda>s. s\<lparr>glob := d\<rparr>))"

definition touch :: "nat \<Rightarrow> octets \<Rightarrow> unit step" where
  "touch c k = set_conn c (\<lambda>x. if k \<in> set (touched x) then x else x\<lparr>touched := touched x @ [k]\<rparr>)"

definition touch_intx :: "nat \<Rightarrow> octets \<Rightarrow> unit step" where
  "touch_intx c k = withA (\<lambda>s. if intx (obj s c) then touch c k else retA ())"

text \<open>\<open>if c.intx: touch(k) else: self.notify(c, ev, k)\<close>\<close>

definition touch_or_notify :: "nat \<Rightarrow> nat \<Rightarrow> octets \<Rightarrow> unit step" where
  "touch_or_notify c ev k = withA (\<lambda>s. if intx (obj s c) then touch c k else notify c ev k)"

definition notify_outside :: "nat \<Rightarrow> nat \<Rightarrow> octets \<Rightarrow> unit step" where
  "notify_outside c ev k = withA (\<lambda>s. if \<not> intx (obj s c) then notify c ev k else retA ())"

definition expiry :: "server \<Rightarrow> nat \<Rightarrow> nat" where
  "expiry s ttl = (if ttl \<noteq> 0 then clock s + ttl else 0)"

section \<open>Requests without a store\<close>

definition op_ping :: "nat \<Rightarrow> nat \<Rightarrow> octets \<Rightarrow> unit step" where
  "op_ping c rid pay = send c 0x81 rid pay"

definition login_ok :: "server \<Rightarrow> nat \<Rightarrow> octets \<Rightarrow> nat \<Rightarrow> nat option" where
  "login_ok s c u h = (case od_get users u of None \<Rightarrow> None
     | Some (secret, r) \<Rightarrow> if unat (auth_hash secret (nonce_of s c) u) \<noteq> h then None else Some r)"

definition op_login :: "nat \<Rightarrow> nat \<Rightarrow> octets \<Rightarrow> unit step" where
  "op_login c rid pay = withA (\<lambda>s.
     if authed (obj s c) then err c rid E_STATE
     else bindA (parsed (parse_login pay)) (\<lambda>(u, h).
       case login_ok s c u h of
         None \<Rightarrow>
           bindA (err c rid E_AUTHFAIL) (\<lambda>_.
           bindA (set_conn c (\<lambda>k. k\<lparr>fails := fails k + 1\<rparr>)) (\<lambda>_.
           withA (\<lambda>s. if 3 \<le> fails (obj s c) then set_conn c (\<lambda>k. k\<lparr>closing := True\<rparr>) else retA ())))
       | Some r \<Rightarrow>
           bindA (set_conn c (\<lambda>k. k\<lparr>authed := True, role := r\<rparr>)) (\<lambda>_.
           bindA (liftA (\<lambda>_. bytes_of [r])) (send c 0x82 rid))))"

definition op_watch :: "nat \<Rightarrow> nat \<Rightarrow> octets \<Rightarrow> unit step" where
  "op_watch c rid pay =
     bindA (parsed (parse_watch pay)) (\<lambda>k. withA (\<lambda>s.
       let w = watch (obj s c) in
       if k \<notin> set w
       then if 8 \<le> length w then err c rid E_FULL
            else bindA (set_conn c (\<lambda>x. x\<lparr>watch := watch x @ [k]\<rparr>)) (\<lambda>_. send c 0x8B rid [])
       else send c 0x8B rid []))"

definition op_unwatch :: "nat \<Rightarrow> nat \<Rightarrow> octets \<Rightarrow> unit step" where
  "op_unwatch c rid pay =
     bindA (parsed (parse_watch pay)) (\<lambda>k. withA (\<lambda>s.
       if k \<notin> set (watch (obj s c)) then err c rid E_NOTFOUND
       else bindA (set_conn c (\<lambda>x. x\<lparr>watch := remove1 k (watch x)\<rparr>)) (\<lambda>_. send c 0x8C rid [])))"

definition op_quit :: "nat \<Rightarrow> nat \<Rightarrow> octets \<Rightarrow> unit step" where
  "op_quit c rid pay =
     bindA (send c 0x8F rid []) (\<lambda>_. set_conn c (\<lambda>k. k\<lparr>closing := True\<rparr>))"

section \<open>Reading and writing keys\<close>

definition op_put :: "nat \<Rightarrow> nat \<Rightarrow> octets \<Rightarrow> unit step" where
  "op_put c rid pay =
     bindA (parsed (parse_put pay)) (\<lambda>(k, t, ttl, v).
     bindA (use_store c) (\<lambda>S.
     if k \<notin> set (od_keys S) \<and> max_keys \<le> length S then err c rid E_FULL
     else withA (\<lambda>s.
       bindA (set_store c (od_put k \<lparr>ent_type = t, ent_val = v, ent_exp = expiry s ttl\<rparr> S)) (\<lambda>_.
       bindA (touch_or_notify c 1 k) (\<lambda>_. send c 0x83 rid [])))))"

definition op_get :: "nat \<Rightarrow> nat \<Rightarrow> octets \<Rightarrow> unit step" where
  "op_get c rid pay =
     bindA (parsed (parse_key pay)) (\<lambda>k.
     bindA (touch_intx c k) (\<lambda>_.
     bindA (use_store c) (\<lambda>S.
     case od_get S k of
       None \<Rightarrow> err c rid E_NOTFOUND
     | Some e \<Rightarrow> bindA (liftA (\<lambda>s. entry_record s e)) (send c 0x84 rid))))"

definition op_del :: "nat \<Rightarrow> nat \<Rightarrow> octets \<Rightarrow> unit step" where
  "op_del c rid pay =
     bindA (parsed (parse_key pay)) (\<lambda>k.
     bindA (use_store c) (\<lambda>S.
     bindA (touch_intx c k) (\<lambda>_.
     case od_get S k of
       None \<Rightarrow> send c 0x85 rid [0]
     | Some e \<Rightarrow>
         bindA (set_store c (od_del k S)) (\<lambda>_.
         bindA (notify_outside c 2 k) (\<lambda>_. send c 0x85 rid [1])))))"

definition op_ttl :: "nat \<Rightarrow> nat \<Rightarrow> octets \<Rightarrow> unit step" where
  "op_ttl c rid pay =
     bindA (parsed (parse_key pay)) (\<lambda>k.
     bindA (touch_intx c k) (\<lambda>_.
     bindA (use_store c) (\<lambda>S.
     case od_get S k of
       None \<Rightarrow> err c rid E_NOTFOUND
     | Some e \<Rightarrow>
         bindA (liftA (\<lambda>s. pack_le 4 (if ent_exp e \<noteq> 0 then int (ent_exp e) - int (clock s) else 0xFFFFFFFF)))
           (send c 0x92 rid))))"

definition op_incr :: "nat \<Rightarrow> nat \<Rightarrow> octets \<Rightarrow> unit step" where
  "op_incr c rid pay =
     bindA (parsed (parse_incr pay)) (\<lambda>(k, d).
     bindA (use_store c) (\<lambda>S.
     let finish = (\<lambda>e.
       let cur = (le_nat (ent_val e) + d) mod 2 ^ 64 in
       bindA (liftA (\<lambda>_. pack_le 8 (int cur))) (\<lambda>v.
       bindA (set_store c (od_put k (e\<lparr>ent_val := v\<rparr>) S)) (\<lambda>_.
       bindA (touch_or_notify c 4 k) (\<lambda>_. send c 0x86 rid v))))
     in case od_get S k of
          Some e \<Rightarrow> if ent_type e \<noteq> 0 then err c rid E_WRONGTYPE else finish e
        | None \<Rightarrow> if max_keys \<le> length S then err c rid E_FULL
                  else finish \<lparr>ent_type = 0, ent_val = replicate 8 0, ent_exp = 0\<rparr>))"

definition op_expire :: "nat \<Rightarrow> nat \<Rightarrow> octets \<Rightarrow> unit step" where
  "op_expire c rid pay =
     bindA (parsed (parse_expire pay)) (\<lambda>(k, ttl).
     bindA (touch_intx c k) (\<lambda>_.
     bindA (use_store c) (\<lambda>S.
     case od_get S k of
       None \<Rightarrow> send c 0x91 rid [0]
     | Some e \<Rightarrow> withA (\<lambda>s.
         bindA (set_store c (od_put k (e\<lparr>ent_exp := expiry s ttl\<rparr>) S)) (\<lambda>_.
         bindA (notify_outside c 1 k) (\<lambda>_. send c 0x91 rid [1]))))))"

definition op_list :: "nat \<Rightarrow> nat \<Rightarrow> octets \<Rightarrow> unit step" where
  "op_list c rid pay =
     bindA (parsed (parse_pattern pay)) (\<lambda>k.
     bindA (use_store c) (\<lambda>S.
     let ks = sort (filter (\<lambda>x. length k = 0 \<or> match k x) (od_keys S)) in
     bindA (liftA (\<lambda>_.
       bindR (pack_le 2 (int (length ks))) (\<lambda>n.
       bindR (mapR (\<lambda>x. bindR (bytes_of [length x]) (\<lambda>l. Inr (l @ x))) ks) (\<lambda>xs. Inr (n @ concat xs)))))
       (send c 0x8D rid)))"

text \<open>\<open>mget\<close>: \<open>None\<close> once the reply grew past the payload limit and the error was sent.\<close>

fun mget_loop :: "nat \<Rightarrow> nat \<Rightarrow> nat \<Rightarrow> octets \<Rightarrow> octets \<Rightarrow> (octets \<times> octets) option step" where
  "mget_loop c rid 0 r out = retA (Some (out, r))"
| "mget_loop c rid (Suc n) r out =
     bindA (parsed (take_name r)) (\<lambda>(k, r).
     bindA (parsed (if length k < 1 \<or> \<not> no_nul k then None else Some ())) (\<lambda>_.
     bindA (touch_intx c k) (\<lambda>_.
     bindA (use_store c) (\<lambda>S.
     bindA (liftA (\<lambda>s. case od_get S k of None \<Rightarrow> Inr [0]
                        | Some e \<Rightarrow> bindR (entry_record s e) (\<lambda>x. Inr (1 # x)))) (\<lambda>x.
     let out = out @ x in
     if max_pay < length out then bindA (err c rid E_TOOBIG) (\<lambda>_. retA None)
     else mget_loop c rid n r out)))))"

definition op_mget :: "nat \<Rightarrow> nat \<Rightarrow> octets \<Rightarrow> unit step" where
  "op_mget c rid pay =
     bindA (parsed (take_int 1 pay)) (\<lambda>(cnt, r).
     bindA (parsed (if cnt < 1 \<or> 8 < cnt then None else Some ())) (\<lambda>_.
     bindA (liftA (\<lambda>_. bytes_of [cnt])) (\<lambda>out.
     bindA (mget_loop c rid cnt r out) (\<lambda>x.
     case x of
       None \<Rightarrow> retA ()
     | Some (out, r) \<Rightarrow> bindA (parsed (if r \<noteq> [] then None else Some ())) (\<lambda>_. send c 0x90 rid out)))))"

definition op_stat :: "nat \<Rightarrow> nat \<Rightarrow> octets \<Rightarrow> unit step" where
  "op_stat c rid pay =
     bindA (parsed (parse_empty pay)) (\<lambda>_.
     bindA (use_store c) (\<lambda>S. withA (\<lambda>s.
     send c 0x8E rid
       (text_bytes ''clock='' @ dec_digits (clock s) @ text_bytes '' keys='' @ dec_digits (length S)
        @ text_bytes '' accepted='' @ dec_digits (accepted s)
        @ text_bytes '' watches='' @ dec_digits (length (watch (obj s c)))
        @ text_bytes '' tx='' @ dec_digits (if intx (obj s c) then 1 else 0) @ [10]))))"

section \<open>The clock\<close>

definition expired :: "nat \<Rightarrow> kv_store \<Rightarrow> octets list" where
  "expired now d = sort (map fst (filter (\<lambda>(k, e). ent_exp e \<noteq> 0 \<and> ent_exp e \<le> now) d))"

definition op_tick :: "nat \<Rightarrow> nat \<Rightarrow> octets \<Rightarrow> unit step" where
  "op_tick c rid pay =
     bindA (parsed (parse_tick pay)) (\<lambda>t. withA (\<lambda>s.
     if intx (obj s c) then err c rid E_STATE
     else bindA (modA (\<lambda>s. s\<lparr>clock := clock s + t\<rparr>)) (\<lambda>_. withA (\<lambda>s.
       let dead = expired (clock s) (glob s) in
       bindA (modA (\<lambda>s. s\<lparr>glob := fold od_del dead (glob s)\<rparr>)) (\<lambda>_.
       bindA (eachA (notify c 3) dead) (\<lambda>_.
       bindA (liftA (\<lambda>s. bindR (pack_le 8 (int (clock s))) (\<lambda>x.
                         bindR (pack_le 2 (int (length dead))) (\<lambda>n. Inr (x @ n)))))
         (send c 0x87 rid)))))))"

section \<open>Transactions\<close>

definition op_begin :: "nat \<Rightarrow> nat \<Rightarrow> octets \<Rightarrow> unit step" where
  "op_begin c rid pay =
     bindA (parsed (parse_empty pay)) (\<lambda>_. withA (\<lambda>s.
     if intx (obj s c) then err c rid E_STATE
     else bindA (set_conn c (\<lambda>k. k\<lparr>intx := True, tx_base := Some (glob s), tx_work := Some (glob s),
                                  touched := []\<rparr>)) (\<lambda>_. send c 0x88 rid [])))"

text \<open>One key of the commit loop; the value is what \<open>applied\<close> grows by.\<close>

definition commit_key :: "nat \<Rightarrow> kv_store \<Rightarrow> kv_store \<Rightarrow> octets \<Rightarrow> nat step" where
  "commit_key c b0 w0 k =
     (let b = od_get b0 k; w = od_get w0 k in
      if b = w then retA 0
      else case w of
        Some e \<Rightarrow> bindA (modA (\<lambda>s. s\<lparr>glob := od_put k e (glob s)\<rparr>)) (\<lambda>_.
                  bindA (notify c 1 k) (\<lambda>_. retA 1))
      | None \<Rightarrow> withA (\<lambda>s. if k \<in> set (od_keys (glob s))
                  then bindA (modA (\<lambda>s. s\<lparr>glob := od_del k (glob s)\<rparr>)) (\<lambda>_.
                       bindA (notify c 2 k) (\<lambda>_. retA 1))
                  else retA 1))"

definition tx_stores :: "nat \<Rightarrow> (kv_store \<times> kv_store) step" where
  "tx_stores c = liftA (\<lambda>s. case (tx_base (obj s c), tx_work (obj s c)) of
     (Some b, Some w) \<Rightarrow> Inr (b, w) | _ \<Rightarrow> Inl (AttributeError ''NoneType''))"

definition op_commit :: "nat \<Rightarrow> nat \<Rightarrow> octets \<Rightarrow> unit step" where
  "op_commit c rid pay =
     bindA (parsed (parse_empty pay)) (\<lambda>_. withA (\<lambda>s.
     if \<not> intx (obj s c) then err c rid E_STATE
     else bindA (set_conn c (\<lambda>k. k\<lparr>intx := False\<rparr>)) (\<lambda>_.
       bindA (tx_stores c) (\<lambda>(b, w).
       if list_ex (\<lambda>k. od_get b k \<noteq> od_get (glob s) k) (touched (obj s c))
       then err c rid E_CONFLICT
       else bindA (mapA (commit_key c b w) (sort (touched (obj s c)))) (\<lambda>ns.
            bindA (liftA (\<lambda>_. pack_le 2 (int (sum_list ns)))) (send c 0x89 rid))))))"

definition op_abort :: "nat \<Rightarrow> nat \<Rightarrow> octets \<Rightarrow> unit step" where
  "op_abort c rid pay =
     bindA (parsed (parse_empty pay)) (\<lambda>_. withA (\<lambda>s.
     if \<not> intx (obj s c) then err c rid E_STATE
     else bindA (set_conn c (\<lambda>k. k\<lparr>intx := False\<rparr>)) (\<lambda>_. send c 0x8A rid [])))"

section \<open>Dispatch\<close>

definition dispatch :: "nat \<Rightarrow> nat \<Rightarrow> nat \<Rightarrow> octets \<Rightarrow> unit step" where
  "dispatch c op rid pay =
     (if op = 1 then op_ping c rid pay
      else if op = 2 then op_login c rid pay
      else if op = 3 then op_put c rid pay
      else if op = 4 then op_get c rid pay
      else if op = 5 then op_del c rid pay
      else if op = 18 then op_ttl c rid pay
      else if op = 6 then op_incr c rid pay
      else if op = 7 then op_tick c rid pay
      else if op = 8 then op_begin c rid pay
      else if op = 9 then op_commit c rid pay
      else if op = 10 then op_abort c rid pay
      else if op = 11 then op_watch c rid pay
      else if op = 12 then op_unwatch c rid pay
      else if op = 13 then op_list c rid pay
      else if op = 14 then op_stat c rid pay
      else if op = 15 then op_quit c rid pay
      else if op = 16 then op_mget c rid pay
      else if op = 17 then op_expire c rid pay
      else retA ())"

definition is_bad :: "py_error \<Rightarrow> bool" where
  "is_bad e = (case e of LocalError _ \<Rightarrow> True | _ \<Rightarrow> False)"

definition handle :: "nat \<Rightarrow> nat \<Rightarrow> nat \<Rightarrow> octets \<Rightarrow> unit step" where
  "handle c op rid pay = withA (\<lambda>s.
     let k = obj s c; wr = (op = 3 \<or> op = 5 \<or> op = 6 \<or> op = 17) in
     if \<not> authed k \<and> op \<noteq> 1 \<and> op \<noteq> 2 then err c rid E_NOAUTH
     else if op < 1 \<or> 18 < op then err c rid E_UNKNOWN
     else if authed k \<and> role k = 1 \<and> (wr \<or> op = 7) then err c rid E_PERM
     else if authed k \<and> role k = 2 \<and> op = 7 then err c rid E_PERM
     else catchA is_bad (dispatch c op rid pay) (\<lambda>_. err c rid E_BADARG))"

end
