(* ===== verification/Kvd_Loop.thy ===== *)
theory Kvd_Loop
  imports Kvd_Ops
begin

text \<open>
  Framing and the event loop of the kvd server: \<open>drain\<close> cuts whole frames off a connection's input buffer
  and handles them, \<open>run\<close> reacts to what \<open>poll\<close> reports. An event names the connection whose descriptor
  was reported; \<open>Broken\<close> is the environment's own step, after which writes to that peer raise \<open>OSError\<close>.
\<close>

section \<open>What no handler changes\<close>

text \<open>\<open>handle\<close> keeps a field of the state that none of the assignments of the handlers touches.\<close>

lemma keepsA_eachA [keeps_intros]: "(\<And>x. keepsA f (g x)) \<Longrightarrow> keepsA f (eachA g xs)"
  by (induction xs) (auto intro!: keeps_intros)

lemma keepsA_set_conn [keeps_intros]:
  "(\<And>s. f (s\<lparr>obj := (obj s)(c := g (obj s c))\<rparr>) = f s) \<Longrightarrow> keepsA f (set_conn c g)"
  unfolding set_conn_def by (rule keepsA_modA)

definition inbufs :: "server \<Rightarrow> nat \<Rightarrow> octets" where
  "inbufs s i = inbuf (obj s i)"

lemma inbufs_send [keeps_intros]: "keepsA inbufs (send c t r p)"
  unfolding send_def by (intro keeps_intros) (auto simp: inbufs_def)

lemma inbufs_err [keeps_intros]: "keepsA inbufs (err c r e)"
  unfolding err_def by (intro keeps_intros)

lemma inbufs_notify [keeps_intros]: "keepsA inbufs (notify c ev k)"
  unfolding notify_def notify_one_def Let_def by (intro keeps_intros)

lemma keepsA_parsed [keeps_intros]: "keepsA f (parsed x)"
  unfolding parsed_def by (intro keeps_intros)

lemma keepsA_use_store [keeps_intros]: "keepsA f (use_store c)"
  unfolding use_store_def by (intro keeps_intros)

lemma inbufs_touch [keeps_intros]: "keepsA inbufs (touch c k)"
  unfolding touch_def by (intro keeps_intros) (auto simp: inbufs_def)

lemma inbufs_set_store [keeps_intros]: "keepsA inbufs (set_store c d)"
  unfolding set_store_def by (intro keeps_intros) (auto simp: inbufs_def)

lemma inbufs_touching [keeps_intros]:
  "keepsA inbufs (touch_intx c k)" "keepsA inbufs (touch_or_notify c ev k)" "keepsA inbufs (notify_outside c ev k)"
  unfolding touch_intx_def touch_or_notify_def notify_outside_def by (intro keeps_intros)+

lemma inbufs_mget [keeps_intros]: "keepsA inbufs (mget_loop c rid n r out)"
  by (induction n arbitrary: r out) (auto simp: Let_def intro!: keeps_intros)

lemmas op_defs = op_ping_def op_login_def op_put_def op_get_def op_del_def op_ttl_def op_incr_def
  op_tick_def op_begin_def op_commit_def op_abort_def op_watch_def op_unwatch_def op_list_def
  op_stat_def op_quit_def op_mget_def op_expire_def

lemma inbufs_ops [keeps_intros]:
  "keepsA inbufs (op_ping c rid pay)" "keepsA inbufs (op_login c rid pay)" "keepsA inbufs (op_put c rid pay)"
  "keepsA inbufs (op_get c rid pay)" "keepsA inbufs (op_del c rid pay)" "keepsA inbufs (op_ttl c rid pay)"
  "keepsA inbufs (op_incr c rid pay)" "keepsA inbufs (op_begin c rid pay)"
  "keepsA inbufs (op_abort c rid pay)" "keepsA inbufs (op_watch c rid pay)"
  "keepsA inbufs (op_unwatch c rid pay)" "keepsA inbufs (op_list c rid pay)" "keepsA inbufs (op_stat c rid pay)"
  "keepsA inbufs (op_quit c rid pay)" "keepsA inbufs (op_mget c rid pay)" "keepsA inbufs (op_expire c rid pay)"
  unfolding op_defs Let_def by (intro keeps_intros; simp add: inbufs_def fun_eq_iff)+

lemma inbufs_tick [keeps_intros]: "keepsA inbufs (op_tick c rid pay)"
  unfolding op_tick_def Let_def by (intro keeps_intros; simp add: inbufs_def fun_eq_iff)

lemma inbufs_commit [keeps_intros]: "keepsA inbufs (op_commit c rid pay)"
  unfolding op_commit_def commit_key_def tx_stores_def Let_def
  by (intro keeps_intros; simp add: inbufs_def fun_eq_iff)

lemma inbufs_handle: "keepsA inbufs (handle c op rid pay)"
  unfolding handle_def dispatch_def Let_def by (intro keeps_intros)

section \<open>Cutting frames\<close>

text \<open>One round of the loop; the value tells whether the loop goes on.\<close>

definition drain_body :: "nat \<Rightarrow> bool step" where
  "drain_body c = withA (\<lambda>s.
     let h = inbuf (obj s c);
         rid = le_nat (take 4 (drop 4 h));
         ln = unat (h ! 8) + 256 * unat (h ! 9);
         close = set_conn c (\<lambda>k. k\<lparr>closing := True\<rparr>)
     in
     if take 2 h \<noteq> text_bytes ''KV'' then bindA (err c 0 E_BADFRAME) (\<lambda>_. bindA close (\<lambda>_. retA False))
     else if h ! 2 \<noteq> 2 then bindA (err c rid E_BADVER) (\<lambda>_. bindA close (\<lambda>_. retA False))
     else if max_pay < ln then bindA (err c rid E_TOOBIG) (\<lambda>_. bindA close (\<lambda>_. retA False))
     else if length h < 10 + ln then retA False
     else bindA (set_conn c (\<lambda>k. k\<lparr>inbuf := drop (10 + ln) h\<rparr>)) (\<lambda>_.
          bindA (handle c (unat (h ! 3)) rid (take ln (drop 10 h))) (\<lambda>_. retA True)))"

definition may_drain :: "nat \<Rightarrow> server \<Rightarrow> bool" where
  "may_drain c s \<longleftrightarrow> 10 \<le> length (inbuf (obj s c)) \<and> \<not> closing (obj s c)"

text \<open>The loop as the source writes it, which might not end, and the same loop with the measure that
  ends it.\<close>

partial_function (option) drain_loop :: "nat \<Rightarrow> server \<Rightarrow> (unit res \<times> server) option" where
  "drain_loop c s =
     (if \<not> may_drain c s then Some (Inr (), s)
      else case drain_body c s of
        (Inl e, t) \<Rightarrow> Some (Inl e, t)
      | (Inr go, t) \<Rightarrow> if go then drain_loop c t else Some (Inr (), t))"

text \<open>What a round does depends on the buffer alone: it refuses, waits, or cuts one frame off.\<close>

datatype frame_cut = Refuse nat kvd_error | Wait | Frame nat nat octets octets

definition cut_frame :: "octets \<Rightarrow> frame_cut" where
  "cut_frame h =
     (let rid = le_nat (take 4 (drop 4 h)); ln = unat (h ! 8) + 256 * unat (h ! 9) in
      if take 2 h \<noteq> text_bytes ''KV'' then Refuse 0 E_BADFRAME
      else if h ! 2 \<noteq> 2 then Refuse rid E_BADVER
      else if max_pay < ln then Refuse rid E_TOOBIG
      else if length h < 10 + ln then Wait
      else Frame (unat (h ! 3)) rid (take ln (drop 10 h)) (drop (10 + ln) h))"

definition refuse :: "nat \<Rightarrow> nat \<Rightarrow> kvd_error \<Rightarrow> bool step" where
  "refuse c rid e = bindA (err c rid e) (\<lambda>_. bindA (set_conn c (\<lambda>k. k\<lparr>closing := True\<rparr>)) (\<lambda>_. retA False))"

definition serve :: "nat \<Rightarrow> nat \<Rightarrow> nat \<Rightarrow> octets \<Rightarrow> octets \<Rightarrow> bool step" where
  "serve c op rid pay r =
     bindA (set_conn c (\<lambda>k. k\<lparr>inbuf := r\<rparr>)) (\<lambda>_. bindA (handle c op rid pay) (\<lambda>_. retA True))"

lemma drain_body_cut:
  "drain_body c s = (case cut_frame (inbuf (obj s c)) of
     Refuse rid e \<Rightarrow> refuse c rid e s | Wait \<Rightarrow> (Inr False, s) | Frame op rid pay r \<Rightarrow> serve c op rid pay r s)"
  by (simp add: drain_body_def cut_frame_def refuse_def serve_def Let_def act_run)

lemma cut_FrameD: "cut_frame h = Frame op rid pay r \<Longrightarrow> 10 \<le> length h \<Longrightarrow> length r + 10 \<le> length h"
  by (auto simp: cut_frame_def Let_def split: if_splits)

lemma serve_inbuf: "serve c op rid pay r s = (Inr go, t) \<Longrightarrow> inbuf (obj t c) = r"
  using keepsA_D [OF inbufs_handle, of c op rid pay "s\<lparr>obj := (obj s)(c := (obj s c)\<lparr>inbuf := r\<rparr>)\<rparr>"]
  by (auto simp: serve_def set_conn_def act_run bindA_Inr inbufs_def fun_eq_iff dest: spec [of _ c])

lemma drain_body_shrinks:
  assumes "may_drain c s" and "drain_body c s = (Inr True, t)"
  shows "length (inbuf (obj t c)) + 10 \<le> length (inbuf (obj s c))"
proof (cases "cut_frame (inbuf (obj s c))")
  case (Frame op rid pay r)
  then have "serve c op rid pay r s = (Inr True, t)" using assms(2) by (simp add: drain_body_cut)
  then have "inbuf (obj t c) = r" by (rule serve_inbuf)
  with cut_FrameD [OF Frame] assms(1) show ?thesis by (simp add: may_drain_def)
qed (use assms(2) in \<open>auto simp: drain_body_cut refuse_def bindA_Inr act_run\<close>)

lemma drain_body_less:
  "\<not> \<not> may_drain c s \<Longrightarrow> (Inr True, t) = drain_body c s \<Longrightarrow> length (inbuf (obj t c)) < length (inbuf (obj s c))"
  using drain_body_shrinks [of c s t] by simp

function drain :: "nat \<Rightarrow> unit step" where
  "drain c s =
     (if \<not> may_drain c s then (Inr (), s)
      else case drain_body c s of
        (Inl e, t) \<Rightarrow> (Inl e, t)
      | (Inr go, t) \<Rightarrow> if go then drain c t else (Inr (), t))"
  by pat_completeness auto
termination
  by (relation "measure (\<lambda>(c, s). length (inbuf (obj s c)))")
     (auto intro!: drain_body_less)

declare drain.simps [simp del]

section \<open>Events\<close>

datatype event = Accept | Recv nat octets | Hangup nat | Broken nat

definition accept_conn :: "unit step" where
  "accept_conn =
     bindA (modA (\<lambda>s. s\<lparr>accepted := accepted s + 1\<rparr>)) (\<lambda>_. withA (\<lambda>s.
     let c = accepted s in
     bindA (modA (\<lambda>s. s\<lparr>conns := (if c \<in> set (conns s) then conns s else conns s @ [c]),
                         obj := (obj s)(c := new_conn)\<rparr>)) (\<lambda>_.
     send c 0x80 0 (nonce_of s c @ [5] @ text_bytes ''kvd/2''))))"

definition receive :: "nat \<Rightarrow> octets \<Rightarrow> unit step" where
  "receive c d = withA (\<lambda>s.
     if closing (obj s c) then retA ()
     else bindA (set_conn c (\<lambda>k. k\<lparr>inbuf := inbuf k @ d\<rparr>)) (\<lambda>_.
          bindA (drain c) (\<lambda>_. withA (\<lambda>s.
          if closing (obj s c) then set_conn c (\<lambda>k. k\<lparr>inbuf := []\<rparr>) else retA ()))))"

definition forget_conn :: "nat \<Rightarrow> unit step" where
  "forget_conn c = modA (\<lambda>s. s\<lparr>conns := remove1 c (conns s)\<rparr>)"

text \<open>An event of a descriptor that is not registered is a failing lookup in \<open>fds\<close>.\<close>

fun event_step :: "event \<Rightarrow> unit step" where
  "event_step Accept = accept_conn"
| "event_step (Recv c d) = withA (\<lambda>s.
     if c \<notin> set (conns s) then raiseA (KeyError ''fds'')
     else if d = [] then forget_conn c else receive c d)"
| "event_step (Hangup c) = withA (\<lambda>s. if c \<notin> set (conns s) then raiseA (KeyError ''fds'') else forget_conn c)"
| "event_step (Broken c) = set_conn c (\<lambda>k. k\<lparr>broken := True\<rparr>)"

text \<open>The states the server passes through while no exception leaves \<open>run\<close>.\<close>

inductive kvd_reachable :: "int \<Rightarrow> server \<Rightarrow> bool" for sd where
  start: "kvd_reachable sd (new_server sd)"
| event: "kvd_reachable sd s \<Longrightarrow> event_step ev s = (Inr (), t) \<Longrightarrow> kvd_reachable sd t"

end
