(* ===== verification/Kvd_Spec.thy ===== *)
theory Kvd_Spec
  imports Kvd_Loop "HOL-Library.Sublist"
begin

text \<open>
  What the kvd server promises, on abstract states: a finite map, a clock, the connections accepted and
  still open, and per connection a role, a transaction (snapshot, working map, keys looked at) and its
  patterns. A request of a connection has one effect, fixed by its operation, its payload and the role
  of the connection; only \<open>mget\<close> may stop looking early, when its reply outgrows a frame. An event is the
  arrival of a connection, its departure, or a run of its requests. Invariants say that entries are well
  typed, that a working map differs from its snapshot only on touched keys, and that a read-only session
  has changed nothing.
\<close>

section \<open>The abstract server\<close>

type_synonym db = "octets \<Rightarrow> ent option"

record sess =
  level :: nat
  tx :: "(db \<times> db \<times> octets set) option"
  pats :: "octets list"

record aserver =
  adb :: db
  now :: nat
  sessions :: "nat \<Rightarrow> sess"
  aseed :: int
  joined :: nat
  live :: "nat set"

definition new_sess :: sess where
  "new_sess = \<lparr>level = 0, tx = None, pats = []\<rparr>"

definition set_sess :: "nat \<Rightarrow> (sess \<Rightarrow> sess) \<Rightarrow> aserver \<Rightarrow> aserver" where
  "set_sess c f a = a\<lparr>sessions := (sessions a)(c := f (sessions a c))\<rparr>"

definition entry_ok :: "nat \<Rightarrow> octets \<Rightarrow> ent \<Rightarrow> bool" where
  "entry_ok t k e \<longleftrightarrow> k \<noteq> [] \<and> length k \<le> 32 \<and> no_nul k \<and> check_val (ent_type e) (ent_val e)
     \<and> ent_exp e < t + 2 ^ 32"

definition room_for :: "octets \<Rightarrow> db \<Rightarrow> bool" where
  "room_for k m \<longleftrightarrow> k \<in> dom m \<or> card (dom m) < max_keys"

definition sweep :: "nat \<Rightarrow> db \<Rightarrow> db" where
  "sweep t m k = (case m k of None \<Rightarrow> None
     | Some e \<Rightarrow> if ent_exp e \<noteq> 0 \<and> ent_exp e \<le> t then None else Some e)"

text \<open>The role a user name and a hash of the connection's nonce grant.\<close>

definition login_nonce :: "int \<Rightarrow> nat \<Rightarrow> octets" where
  "login_nonce sd c = le_bytes 8 (unat (splitmix (word_of_int sd + of_nat c * 0x9E3779B97F4A7C15)))"

definition grant :: "int \<Rightarrow> nat \<Rightarrow> octets \<Rightarrow> nat \<Rightarrow> nat option" where
  "grant sd c u h = (case od_get users u of
     Some (secret, r) \<Rightarrow> if unat (auth_hash secret (login_nonce sd c) u) = h then Some r else None
   | None \<Rightarrow> None)"

section \<open>Requests\<close>

datatype action =
    ANothing | ALogin octets nat | ALook "octets set" | APut octets nat nat octets | ADel octets | AIncr octets nat
  | AExpire octets nat | ATick nat | ABegin | ACommit | AAbort | AWatch octets | AUnwatch octets

definition one_of :: "('x \<Rightarrow> action) \<Rightarrow> 'x option \<Rightarrow> action set" where
  "one_of f x = {case x of None \<Rightarrow> ANothing | Some y \<Rightarrow> f y}"

fun names_in :: "nat \<Rightarrow> octets \<Rightarrow> octets list" where
  "names_in 0 r = []"
| "names_in (Suc n) r = (case take_name r of None \<Rightarrow> []
     | Some (k, q) \<Rightarrow> if length k < 1 \<or> \<not> no_nul k then [] else k # names_in n q)"

definition mget_names :: "octets \<Rightarrow> octets list" where
  "mget_names pay = (case take_int 1 pay of None \<Rightarrow> [] | Some (n, r) \<Rightarrow> if n < 1 \<or> 8 < n then [] else names_in n r)"

text \<open>What a request asks for: nothing when its payload does not parse.\<close>

definition actions :: "nat \<Rightarrow> octets \<Rightarrow> action set" where
  "actions op pay =
     (if op = 2 then one_of (\<lambda>(u, h). ALogin u h) (parse_login pay)
      else if op = 3 then one_of (\<lambda>(k, t, ttl, v). APut k t ttl v) (parse_put pay)
      else if op = 4 \<or> op = 18 then one_of (\<lambda>k. ALook {k}) (parse_key pay)
      else if op = 5 then one_of ADel (parse_key pay)
      else if op = 6 then one_of (\<lambda>(k, d). AIncr k d) (parse_incr pay)
      else if op = 7 then one_of ATick (parse_tick pay)
      else if op = 8 then one_of (\<lambda>_. ABegin) (parse_empty pay)
      else if op = 9 then one_of (\<lambda>_. ACommit) (parse_empty pay)
      else if op = 10 then one_of (\<lambda>_. AAbort) (parse_empty pay)
      else if op = 11 then one_of AWatch (parse_watch pay)
      else if op = 12 then one_of AUnwatch (parse_watch pay)
      else if op = 16 then {ALook (set ks) | ks. prefix ks (mget_names pay)}
      else if op = 17 then one_of (\<lambda>(k, ttl). AExpire k ttl) (parse_expire pay)
      else {ANothing})"

text \<open>The map a session sees, and a write to it.\<close>

definition view :: "nat \<Rightarrow> aserver \<Rightarrow> db" where
  "view c a = (case tx (sessions a c) of None \<Rightarrow> adb a | Some (b, w, T) \<Rightarrow> w)"

definition wrote :: "nat \<Rightarrow> octets \<Rightarrow> ent option \<Rightarrow> aserver \<Rightarrow> aserver" where
  "wrote c k v a = (case tx (sessions a c) of
     None \<Rightarrow> a\<lparr>adb := (adb a)(k := v)\<rparr>
   | Some (b, w, T) \<Rightarrow> set_sess c (\<lambda>x. x\<lparr>tx := Some (b, w(k := v), insert k T)\<rparr>) a)"

definition looking :: "nat \<Rightarrow> octets set \<Rightarrow> aserver \<Rightarrow> aserver" where
  "looking c K a = (case tx (sessions a c) of None \<Rightarrow> a
     | Some (b, w, T) \<Rightarrow> set_sess c (\<lambda>x. x\<lparr>tx := Some (b, w, T \<union> K)\<rparr>) a)"

definition deadline :: "nat \<Rightarrow> nat \<Rightarrow> nat" where
  "deadline t ttl = (if ttl = 0 then 0 else t + ttl)"

definition effect :: "nat \<Rightarrow> action \<Rightarrow> aserver \<Rightarrow> aserver" where
  "effect c act a = (let x = sessions a c in case act of
     ANothing \<Rightarrow> a
   | ALogin u h \<Rightarrow> (case grant (aseed a) c u h of
        Some r \<Rightarrow> if level x = 0 then set_sess c (\<lambda>x. x\<lparr>level := r\<rparr>) a else a | None \<Rightarrow> a)
   | ALook K \<Rightarrow> looking c K a
   | APut k t ttl v \<Rightarrow>
        if room_for k (view c a)
        then wrote c k (Some \<lparr>ent_type = t, ent_val = v, ent_exp = deadline (now a) ttl\<rparr>) a else a
   | ADel k \<Rightarrow> wrote c k None a
   | AIncr k d \<Rightarrow> (case view c a k of
        None \<Rightarrow> if room_for k (view c a)
               then wrote c k (Some \<lparr>ent_type = 0, ent_val = le_bytes 8 (d mod 2 ^ 64), ent_exp = 0\<rparr>) a else a
      | Some e \<Rightarrow> if ent_type e = 0
                 then wrote c k (Some (e\<lparr>ent_val := le_bytes 8 ((le_nat (ent_val e) + d) mod 2 ^ 64)\<rparr>)) a else a)
   | AExpire k ttl \<Rightarrow> (case view c a k of
        None \<Rightarrow> looking c {k} a | Some e \<Rightarrow> wrote c k (Some (e\<lparr>ent_exp := deadline (now a) ttl\<rparr>)) a)
   | ATick t \<Rightarrow> if tx x = None then a\<lparr>now := now a + t, adb := sweep (now a + t) (adb a)\<rparr> else a
   | ABegin \<Rightarrow> if tx x = None then set_sess c (\<lambda>x. x\<lparr>tx := Some (adb a, adb a, {})\<rparr>) a else a
   | ACommit \<Rightarrow> (case tx x of
        None \<Rightarrow> a
      | Some (b, w, T) \<Rightarrow> set_sess c (\<lambda>x. x\<lparr>tx := None\<rparr>)
          (if \<forall>k \<in> T. b k = adb a k then a\<lparr>adb := \<lambda>k. if k \<in> T then w k else adb a k\<rparr> else a))
   | AAbort \<Rightarrow> set_sess c (\<lambda>x. x\<lparr>tx := None\<rparr>) a
   | AWatch p \<Rightarrow>
        if p \<in> set (pats x) \<or> 8 \<le> length (pats x) then a else set_sess c (\<lambda>x. x\<lparr>pats := pats x @ [p]\<rparr>) a
   | AUnwatch p \<Rightarrow> set_sess c (\<lambda>x. x\<lparr>pats := remove1 p (pats x)\<rparr>) a)"

text \<open>Who may ask: anyone to ping and log in, a writer to write, only role 3 to move the clock.\<close>

definition permitted :: "nat \<Rightarrow> nat \<Rightarrow> bool" where
  "permitted op l =
     (if op = 1 \<or> op = 2 then True
      else if op = 3 \<or> op = 5 \<or> op = 6 \<or> op = 17 then 2 \<le> l
      else if op = 7 then l = 3
      else 1 \<le> l)"

definition spec_request :: "nat \<Rightarrow> nat \<times> octets \<Rightarrow> aserver \<Rightarrow> aserver \<Rightarrow> bool" where
  "spec_request c r a a' \<longleftrightarrow>
     (if permitted (fst r) (level (sessions a c)) then \<exists>act \<in> actions (fst r) (snd r). a' = effect c act a else a' = a)"

fun spec_requests :: "nat \<Rightarrow> (nat \<times> octets) list \<Rightarrow> aserver \<Rightarrow> aserver \<Rightarrow> bool" where
  "spec_requests c [] a a' \<longleftrightarrow> a' = a"
| "spec_requests c (r # rs) a a' \<longleftrightarrow> (\<exists>b. spec_request c r a b \<and> spec_requests c rs b a')"

section \<open>Events\<close>

text \<open>The requests a buffer holds: its whole frames, up to a refused or unfinished one.\<close>

function frames_of :: "octets \<Rightarrow> (nat \<times> octets) list" where
  "frames_of h = (if length h < 10 then [] else case cut_frame h of
     Frame op rid pay r \<Rightarrow> (op, pay) # frames_of r | _ \<Rightarrow> [])"
  by pat_completeness auto
termination by (relation "measure length") (auto dest: cut_FrameD)

declare frames_of.simps [simp del]

datatype aevent = Join | Leave nat | Serve nat "(nat \<times> octets) list" | Pass

inductive spec_step :: "aevent \<Rightarrow> aserver \<Rightarrow> aserver \<Rightarrow> bool" where
  join: "spec_step Join a (a\<lparr>joined := joined a + 1, live := insert (joined a + 1) (live a),
     sessions := (sessions a)(joined a + 1 := new_sess)\<rparr>)"
| leave: "c \<in> live a \<Longrightarrow> spec_step (Leave c) a (a\<lparr>live := live a - {c}\<rparr>)"
| serve: "c \<in> live a \<Longrightarrow> spec_requests c rs a a' \<Longrightarrow> spec_step (Serve c rs) a a'"
| pass: "spec_step Pass a a"

inductive_cases spec_stepE: "spec_step l a a'"

inductive_simps spec_step_simps [simp]:
  "spec_step Join a a'" "spec_step (Leave c) a a'" "spec_step (Serve c rs) a a'" "spec_step Pass a a'"

definition spec_next :: "aserver \<Rightarrow> aserver \<Rightarrow> bool" where
  "spec_next a a' \<longleftrightarrow> (\<exists>l. spec_step l a a')"

section \<open>Invariants\<close>

definition db_ok :: "nat \<Rightarrow> db \<Rightarrow> bool" where
  "db_ok t m \<longleftrightarrow> (\<forall>k e. m k = Some e \<longrightarrow> entry_ok t k e)"

text \<open>A transaction: typed maps, a working map off which the untouched keys are the snapshot's, and no
  difference at all for a session that may only read.\<close>

definition tx_ok :: "nat \<Rightarrow> nat \<Rightarrow> db \<times> db \<times> octets set \<Rightarrow> bool" where
  "tx_ok t l x = (case x of (b, w, T) \<Rightarrow> db_ok t b \<and> db_ok t w \<and> (\<forall>k. k \<notin> T \<longrightarrow> w k = b k) \<and> (l < 2 \<longrightarrow> w = b) \<and> 0 < l)"

definition sess_ok :: "nat \<Rightarrow> sess \<Rightarrow> bool" where
  "sess_ok t x \<longleftrightarrow> level x \<le> 3 \<and> length (pats x) \<le> 8 \<and> (\<forall>y. tx x = Some y \<longrightarrow> tx_ok t (level x) y)"

definition spec_ok :: "aserver \<Rightarrow> bool" where
  "spec_ok a \<longleftrightarrow> db_ok (now a) (adb a) \<and> (\<forall>c. sess_ok (now a) (sessions a c))"

lemma set_sess_same: "f (sessions a c) = sessions a c \<Longrightarrow> set_sess c f a = a"
  by (cases a) (simp add: set_sess_def fun_upd_idem_iff)

lemma entry_ok_mono: "entry_ok t k e \<Longrightarrow> t \<le> t' \<Longrightarrow> entry_ok t' k e"
  by (simp add: entry_ok_def)

lemma db_ok_mono: "db_ok t m \<Longrightarrow> t \<le> t' \<Longrightarrow> db_ok t' m"
  unfolding db_ok_def by (blast intro: entry_ok_mono)

lemma sess_ok_mono: "sess_ok t x \<Longrightarrow> t \<le> t' \<Longrightarrow> sess_ok t' x"
  by (fastforce simp: sess_ok_def tx_ok_def intro: db_ok_mono)

lemma db_ok_upd: "db_ok t m \<Longrightarrow> (\<And>e. v = Some e \<Longrightarrow> entry_ok t k e) \<Longrightarrow> db_ok t (m(k := v))"
  by (simp add: db_ok_def)

lemma db_ok_sweep: "db_ok t m \<Longrightarrow> db_ok t (sweep t' m)"
  by (auto simp: db_ok_def sweep_def split: option.splits if_splits)

lemma db_ok_mix: "db_ok t m \<Longrightarrow> db_ok t w \<Longrightarrow> db_ok t (\<lambda>k. if k \<in> T then w k else m k)"
  by (simp add: db_ok_def)

lemma spec_ok_set_sess:
  "spec_ok a \<Longrightarrow> sess_ok (now a) (f (sessions a c)) \<Longrightarrow> spec_ok (set_sess c f a)"
  by (simp add: spec_ok_def set_sess_def)

lemma spec_ok_adb: "spec_ok a \<Longrightarrow> db_ok (now a) m \<Longrightarrow> spec_ok (a\<lparr>adb := m\<rparr>)"
  by (simp add: spec_ok_def)

lemma spec_ok_tx:
  "spec_ok a \<Longrightarrow> tx (sessions a c) = Some (b, w, T) \<Longrightarrow> tx_ok (now a) (level (sessions a c)) (b, w, T)"
  by (simp add: spec_ok_def sess_ok_def)

lemma spec_ok_set_tx:
  assumes "spec_ok a" and "\<And>y. v = Some y \<Longrightarrow> tx_ok (now a) (level (sessions a c)) y"
  shows "spec_ok (set_sess c (\<lambda>x. x\<lparr>tx := v\<rparr>) a)"
  using assms by (intro spec_ok_set_sess) (auto simp: spec_ok_def sess_ok_def)

lemma view_ok: "spec_ok a \<Longrightarrow> view c a k = Some e \<Longrightarrow> entry_ok (now a) k e"
  using spec_ok_tx [of a c] by (auto simp: view_def spec_ok_def db_ok_def tx_ok_def split: option.splits)

lemma wrote_ok:
  assumes ok: "spec_ok a" and l: "2 \<le> level (sessions a c)" and v: "\<And>e. v = Some e \<Longrightarrow> entry_ok (now a) k e"
  shows "spec_ok (wrote c k v a)"
proof (cases "tx (sessions a c)")
  case None
  then show ?thesis using ok v by (simp add: wrote_def spec_ok_adb db_ok_upd spec_ok_def)
next
  case (Some y)
  then obtain b w T where y: "tx (sessions a c) = Some (b, w, T)" by (cases y) auto
  from spec_ok_tx [OF ok y] l v have "tx_ok (now a) (level (sessions a c)) (b, w(k := v), insert k T)"
    by (simp add: tx_ok_def db_ok_upd)
  then have "spec_ok (set_sess c (\<lambda>x. x\<lparr>tx := Some (b, w(k := v), insert k T)\<rparr>) a)" by (intro spec_ok_set_tx ok) auto
  then show ?thesis using y by (simp add: wrote_def)
qed

lemma looking_ok: "spec_ok a \<Longrightarrow> spec_ok (looking c K a)"
  using spec_ok_tx [of a c] by (auto simp: looking_def tx_ok_def intro!: spec_ok_set_tx split: option.split)

lemma grant_role: "grant sd c u h = Some r \<Longrightarrow> 1 \<le> r \<and> r \<le> 3"
  by (auto simp: grant_def users_def od_get_Cons split: if_splits option.splits)

text \<open>What a parsed request carries, and whom it is for.\<close>

definition action_ok :: "nat \<Rightarrow> nat \<Rightarrow> action \<Rightarrow> bool" where
  "action_ok t l act = (case act of
     APut k ty ttl v \<Rightarrow> 2 \<le> l \<and> entry_ok t k \<lparr>ent_type = ty, ent_val = v, ent_exp = deadline t ttl\<rparr>
   | ADel k \<Rightarrow> 2 \<le> l
   | AIncr k d \<Rightarrow> 2 \<le> l \<and> k \<noteq> [] \<and> length k \<le> 32 \<and> no_nul k
   | AExpire k ttl \<Rightarrow> 2 \<le> l \<and> ttl < 2 ^ 32
   | ATick d \<Rightarrow> l = 3
   | ALogin u h \<Rightarrow> True
   | ANothing \<Rightarrow> True
   | _ \<Rightarrow> 1 \<le> l)"

lemma length_le_bytes [simp]: "length (le_bytes n x) = n"
  by (induction n arbitrary: x) auto

lemma le_nat_bound: "le_nat bs < 256 ^ length bs"
proof (induction bs)
  case (Cons b bs)
  have "unat b < 256" using unsigned_less [of b] by simp
  with Cons show ?case by simp
qed simp

lemma take_int_bound: "take_int w r = Some (n, q) \<Longrightarrow> n < 256 ^ w"
  using le_nat_bound [of "take w r"] by (auto simp: take_int_def take_bytes_def split: if_splits)

lemma parse_put_ok:
  "parse_put pay = Some (k, t, ttl, v) \<Longrightarrow> entry_ok c k \<lparr>ent_type = t, ent_val = v, ent_exp = deadline c ttl\<rparr>"
  by (auto simp: parse_put_def entry_ok_def deadline_def bind_eq_Some_conv dest: take_int_bound split: if_splits)

lemma parse_expire_bound: "parse_expire pay = Some (k, ttl) \<Longrightarrow> ttl < 2 ^ 32"
  by (auto simp: parse_expire_def bind_eq_Some_conv dest: take_int_bound split: if_splits)

lemma parse_incr_ok: "parse_incr pay = Some (k, d) \<Longrightarrow> k \<noteq> [] \<and> length k \<le> 32 \<and> no_nul k"
  by (auto simp: parse_incr_def bind_eq_Some_conv split: if_splits)

lemma actions_ok:
  assumes "act \<in> actions op pay" and "permitted op l"
  shows "action_ok t l act"
  using assms parse_put_ok parse_expire_bound parse_incr_ok
  by (fastforce simp: actions_def permitted_def one_of_def action_ok_def split: if_splits option.splits)

lemma effect_ok:
  assumes ok: "spec_ok a" and act: "action_ok (now a) (level (sessions a c)) act"
  shows "spec_ok (effect c act a)"
proof -
  have se: "sess_ok (now a) (sessions a c)" and db: "db_ok (now a) (adb a)" using ok by (simp_all add: spec_ok_def)
  note tx = spec_ok_tx [OF ok, of c] and see = view_ok [OF ok, of c]
  show ?thesis
  proof (cases act)
    case (ALogin u h)
    show ?thesis
    proof (cases "level (sessions a c) = 0 \<and> grant (aseed a) c u h \<noteq> None")
      case True
      then obtain r where r: "grant (aseed a) c u h = Some r" by blast
      have "tx (sessions a c) = None" using tx True by (cases "tx (sessions a c)") (auto simp: tx_ok_def)
      then have "spec_ok (set_sess c (\<lambda>x. x\<lparr>level := r\<rparr>) a)"
        using se grant_role [OF r] by (intro spec_ok_set_sess ok) (simp add: sess_ok_def)
      with True r ALogin show ?thesis by (simp add: effect_def Let_def)
    qed (use ok ALogin in \<open>auto simp: effect_def Let_def split: option.split\<close>)
  next
    case (APut k t ttl v)
    then show ?thesis using ok act by (auto simp: effect_def Let_def action_ok_def intro: wrote_ok)
  next
    case (ADel k)
    then show ?thesis using ok act by (auto simp: effect_def Let_def action_ok_def intro: wrote_ok)
  next
    case (AIncr k d)
    have "entry_ok (now a) k \<lparr>ent_type = 0, ent_val = le_bytes 8 (d mod 2 ^ 64), ent_exp = 0\<rparr>"
      "entry_ok (now a) k e \<Longrightarrow> ent_type e = 0 \<Longrightarrow> entry_ok (now a) k (e\<lparr>ent_val := le_bytes 8 n\<rparr>)" for e n
      using AIncr act by (simp_all add: action_ok_def entry_ok_def check_val_def)
    with AIncr act see show ?thesis
      by (auto simp: effect_def Let_def action_ok_def intro!: ok wrote_ok split: option.split)
  next
    case (AExpire k ttl)
    then have "entry_ok (now a) k e \<Longrightarrow> entry_ok (now a) k (e\<lparr>ent_exp := deadline (now a) ttl\<rparr>)" for e
      using act by (simp add: action_ok_def entry_ok_def deadline_def)
    with AExpire act see show ?thesis
      by (auto simp: effect_def Let_def action_ok_def intro!: ok wrote_ok looking_ok split: option.split)
  next
    case (ATick t)
    have "db_ok (now a + t) (sweep (now a + t) (adb a))" by (rule db_ok_sweep [OF db_ok_mono [OF db]]) simp
    moreover have "sess_ok (now a + t) (sessions a i)" for i
      using ok by (intro sess_ok_mono [of "now a" _ "now a + t"]) (simp_all add: spec_ok_def)
    ultimately show ?thesis using ATick ok by (simp add: effect_def Let_def spec_ok_def)
  next
    case ABegin
    then show ?thesis using ok act db by (auto simp: effect_def Let_def action_ok_def tx_ok_def intro!: spec_ok_set_tx)
  next
    case ACommit
    have "spec_ok (set_sess c (\<lambda>x. x\<lparr>tx := None\<rparr>) (a\<lparr>adb := \<lambda>k. if k \<in> T then w k else adb a k\<rparr>))"
      if "tx (sessions a c) = Some (b, w, T)" for b w T
      using tx [OF that] ok db by (intro spec_ok_set_tx spec_ok_adb db_ok_mix) (simp_all add: tx_ok_def)
    with ACommit ok show ?thesis by (auto simp: effect_def Let_def intro!: spec_ok_set_tx split: option.split)
  next
    case (AWatch p)
    then show ?thesis using ok se by (auto simp: effect_def Let_def sess_ok_def intro!: spec_ok_set_sess)
  next
    case (AUnwatch p)
    have "length (remove1 p (pats (sessions a c))) \<le> length (pats (sessions a c))" by (simp add: length_remove1)
    then show ?thesis using AUnwatch ok se by (auto simp: effect_def Let_def sess_ok_def intro!: spec_ok_set_sess)
  qed (use ok in \<open>auto simp: effect_def Let_def looking_ok intro!: spec_ok_set_tx\<close>)
qed

lemma spec_request_ok: "spec_request c r a a' \<Longrightarrow> spec_ok a \<Longrightarrow> spec_ok a'"
  by (auto simp: spec_request_def split: if_splits intro: effect_ok actions_ok)

lemma spec_requests_append:
  "spec_requests c (xs @ ys) a a' \<longleftrightarrow> (\<exists>b. spec_requests c xs a b \<and> spec_requests c ys b a')"
  by (induction xs arbitrary: a) auto

text \<open>What a request leaves alone: the other sessions always, and the map and the clock when the session
  may not write.\<close>

lemma effect_others: "i \<noteq> c \<Longrightarrow> sessions (effect c act a) i = sessions a i"
  by (cases act) (simp_all add: effect_def Let_def set_sess_def wrote_def looking_def split: option.split)

lemma spec_request_others: "spec_request c r a a' \<Longrightarrow> i \<noteq> c \<Longrightarrow> sessions a' i = sessions a i"
  by (auto simp: spec_request_def effect_others split: if_splits)

lemma reader_request:
  assumes r: "spec_request c r a a'" and ok: "spec_ok a" and l: "level (sessions a c) < 2"
  shows "adb a' = adb a \<and> now a' = now a"
proof (cases "permitted (fst r) (level (sessions a c))")
  case True
  then obtain act where m: "act \<in> actions (fst r) (snd r)" and a': "a' = effect c act a"
    using r by (auto simp: spec_request_def)
  note act = actions_ok [OF m True, of "now a"]
  have "w = b" if "tx (sessions a c) = Some (b, w, T)" for b w T
    using spec_ok_tx [OF ok that] l by (simp add: tx_ok_def)
  then show ?thesis unfolding a' using act l
    by (cases act) (auto simp: effect_def Let_def action_ok_def set_sess_def looking_def split: option.split)
qed (use r in \<open>simp add: spec_request_def\<close>)

end
