(* ===== verification/Kvd_Refine.thy ===== *)
theory Kvd_Refine
  imports Kvd_Spec
begin

text \<open>
  The kvd server refines its specification: a handler has the effect the specification gives its request,
  a drained buffer is the run of its requests, and an event is one event of the abstract server.
\<close>

section \<open>Abstraction\<close>

definition abs_tx :: "conn \<Rightarrow> (db \<times> db \<times> octets set) option" where
  "abs_tx k = (if intx k then (case (tx_base k, tx_work k) of
       (Some b, Some w) \<Rightarrow> Some (od_get b, od_get w, set (touched k)) | _ \<Rightarrow> None) else None)"

definition abs_sess :: "conn \<Rightarrow> sess" where
  "abs_sess k = \<lparr>level = (if authed k then role k else 0), tx = abs_tx k, pats = watch k\<rparr>"

definition abs_server :: "server \<Rightarrow> aserver" where
  "abs_server s = \<lparr>adb = od_get (glob s), now = clock s, sessions = (\<lambda>i. abs_sess (obj s i)), aseed = seed s,
     joined = accepted s, live = set (conns s)\<rparr>"

text \<open>What the abstraction needs of a concrete state.\<close>

definition conn_wf :: "conn \<Rightarrow> bool" where
  "conn_wf k \<longleftrightarrow> (authed k \<longrightarrow> 1 \<le> role k) \<and> (\<not> authed k \<longrightarrow> \<not> intx k) \<and>
     (intx k \<longrightarrow> (\<exists>b w. tx_base k = Some b \<and> od_ok b \<and> tx_work k = Some w \<and> od_ok w))"

definition wf_server :: "server \<Rightarrow> bool" where
  "wf_server s \<longleftrightarrow> od_ok (glob s) \<and> (\<forall>i. conn_wf (obj s i)) \<and> distinct (conns s)"

lemma wf_glob: "wf_server s \<Longrightarrow> od_ok (glob s)" and wf_conn: "wf_server s \<Longrightarrow> conn_wf (obj s i)"
  by (simp_all add: wf_server_def)

lemma wf_set_conn: "wf_server s \<Longrightarrow> conn_wf (f (obj s c)) \<Longrightarrow> wf_server (s\<lparr>obj := (obj s)(c := f (obj s c))\<rparr>)"
  by (simp add: wf_server_def)

lemma abs_fields [simp]:
  "adb (abs_server s) = od_get (glob s)" "now (abs_server s) = clock s"
  "sessions (abs_server s) i = abs_sess (obj s i)" "aseed (abs_server s) = seed s" "joined (abs_server s) = accepted s"
  "live (abs_server s) = set (conns s)"
  "level (abs_sess k) = (if authed k then role k else 0)" "tx (abs_sess k) = abs_tx k" "pats (abs_sess k) = watch k"
  by (simp_all add: abs_server_def abs_sess_def)

text \<open>An assignment to a connection is an assignment to its session.\<close>

lemma abs_set_conn:
  "abs_server (s\<lparr>obj := (obj s)(c := k)\<rparr>) = set_sess c (\<lambda>_. abs_sess k) (abs_server s)"
  by (auto simp: abs_server_def set_sess_def)

lemma abs_glob: "abs_server (s\<lparr>glob := d\<rparr>) = (abs_server s)\<lparr>adb := od_get d\<rparr>"
  by (simp add: abs_server_def)

lemma abs_same: "abs_sess k = abs_sess (obj s c) \<Longrightarrow> abs_server (s\<lparr>obj := (obj s)(c := k)\<rparr>) = abs_server s"
  by (auto simp: abs_server_def)

section \<open>Steps the abstraction does not see\<close>

text \<open>Writing to sockets changes neither the abstraction nor well-formedness.\<close>

definition seen :: "server \<Rightarrow> aserver \<times> bool" where
  "seen s = (abs_server s, wf_server s)"

lemma seen_set_conn:
  "(\<And>k. abs_sess (g k) = abs_sess k) \<Longrightarrow> (\<And>k. conn_wf (g k) = conn_wf k) \<Longrightarrow> keepsA seen (set_conn c g)"
  by (rule keepsA_set_conn) (auto simp: seen_def abs_same wf_server_def)

lemma quiet_conn [simp]:
  "abs_sess (k\<lparr>closing := x\<rparr>) = abs_sess k" "conn_wf (k\<lparr>closing := x\<rparr>) = conn_wf k"
  "abs_sess (k\<lparr>sent := y\<rparr>) = abs_sess k" "conn_wf (k\<lparr>sent := y\<rparr>) = conn_wf k"
  "abs_sess (k\<lparr>inbuf := z\<rparr>) = abs_sess k" "conn_wf (k\<lparr>inbuf := z\<rparr>) = conn_wf k"
  "abs_sess (k\<lparr>fails := n\<rparr>) = abs_sess k" "conn_wf (k\<lparr>fails := n\<rparr>) = conn_wf k"
  "abs_sess (k\<lparr>broken := x\<rparr>) = abs_sess k" "conn_wf (k\<lparr>broken := x\<rparr>) = conn_wf k"
  by (simp_all add: abs_sess_def abs_tx_def conn_wf_def split: option.split)

lemma seen_send [keeps_intros]: "keepsA seen (send c t r p)"
  unfolding send_def by (intro keeps_intros seen_set_conn; simp)

lemma seen_err [keeps_intros]: "keepsA seen (err c r e)"
  unfolding err_def by (intro keeps_intros)

lemma seen_notify [keeps_intros]: "keepsA seen (notify c ev k)"
  unfolding notify_def notify_one_def Let_def by (intro keeps_intros)

lemma seen_bind: "(\<And>x. keepsA seen (k x)) \<Longrightarrow> seen (snd (bindA m k s)) = seen (snd (m s))"
  by (cases "m s") (auto simp: bindA_run keepsA_D split: sum.split)

lemma seen_eq: "seen s = seen t \<longleftrightarrow> abs_server s = abs_server t \<and> wf_server s = wf_server t"
  by (simp add: seen_def)

text \<open>A step is simulated when it keeps well-formedness and has the effect of an action.\<close>

definition sim :: "nat \<Rightarrow> action \<Rightarrow> server \<Rightarrow> server \<Rightarrow> bool" where
  "sim c act s t \<longleftrightarrow> wf_server t \<and> abs_server t = effect c act (abs_server s)"

lemma sim_seen: "seen t = seen u \<Longrightarrow> sim c act s u \<Longrightarrow> sim c act s t"
  by (simp add: sim_def seen_eq)

lemma sim_idle: "wf_server s \<Longrightarrow> effect c act (abs_server s) = abs_server s \<Longrightarrow> seen t = seen s \<Longrightarrow> sim c act s t"
  by (simp add: sim_def seen_eq)

lemma sim_after: "keepsA seen m \<Longrightarrow> sim c act s u \<Longrightarrow> sim c act s (snd (m u))"
  by (rule sim_seen) (auto dest: keepsA_D)

lemma sim_quiet:
  "wf_server s \<Longrightarrow> effect c act (abs_server s) = abs_server s \<Longrightarrow> keepsA seen m \<Longrightarrow> sim c act s (snd (m s))"
  by (rule sim_idle) (auto dest: keepsA_D)

lemma effect_nothing [simp]: "effect c ANothing a = a"
  by (simp add: effect_def)

lemma sim_parsed:
  "wf_server s \<Longrightarrow> (\<And>x. p = Some x \<Longrightarrow> sim c (f x) s (snd (k x s))) \<Longrightarrow>
     \<exists>act \<in> one_of f p. sim c act s (snd (bindA (parsed p) k s))"
  by (cases p) (simp_all add: parsed_def act_simps sim_def one_of_def)

lemma run_set_conn: "bindA (set_conn c f) K s = K () (s\<lparr>obj := (obj s)(c := f (obj s c))\<rparr>)"
  by (simp add: bindA_def set_conn_def modA_def)

section \<open>The store of a request\<close>

text \<open>The pieces of state a request of connection \<open>c\<close> works on.\<close>

definition in_tx :: "nat \<Rightarrow> server \<Rightarrow> kv_store \<Rightarrow> kv_store \<Rightarrow> bool" where
  "in_tx c s b w \<longleftrightarrow> intx (obj s c) \<and> tx_base (obj s c) = Some b \<and> tx_work (obj s c) = Some w \<and> od_ok b \<and> od_ok w"

lemma tx_cases:
  assumes "wf_server s"
  obtains (outside) "\<not> intx (obj s c)" "od_ok (glob s)" | (inside) b w where "in_tx c s b w"
  using wf_conn [OF assms, of c] wf_glob [OF assms] that by (auto simp: conn_wf_def in_tx_def)

lemma in_tx_abs: "in_tx c s b w \<Longrightarrow> abs_tx (obj s c) = Some (od_get b, od_get w, set (touched (obj s c)))"
  by (simp add: in_tx_def abs_tx_def)

lemma outside_abs: "\<not> intx (obj s c) \<Longrightarrow> abs_tx (obj s c) = None"
  by (simp add: abs_tx_def)

definition touching :: "nat \<Rightarrow> octets \<Rightarrow> server \<Rightarrow> server" where
  "touching c k s = s\<lparr>obj := (obj s)(c := (let x = obj s c in if k \<in> set (touched x) then x else x\<lparr>touched := touched x @ [k]\<rparr>))\<rparr>"

lemma touching_fields [simp]:
  "glob (touching c k s) = glob s" "clock (touching c k s) = clock s" "conns (touching c k s) = conns s"
  "set (touched (obj (touching c k s) c)) = insert k (set (touched (obj s c)))"
  "intx (obj (touching c k s) i) = intx (obj s i)" "tx_base (obj (touching c k s) i) = tx_base (obj s i)"
  "tx_work (obj (touching c k s) i) = tx_work (obj s i)" "authed (obj (touching c k s) i) = authed (obj s i)"
  "role (obj (touching c k s) i) = role (obj s i)" "watch (obj (touching c k s) i) = watch (obj s i)"
  "i \<noteq> c \<Longrightarrow> obj (touching c k s) i = obj s i"
  by (auto simp: touching_def Let_def)

lemma touch_intx_run: "touch_intx c k s = (Inr (), if intx (obj s c) then touching c k s else s)"
  by (simp add: touch_intx_def act_run touch_def set_conn_def touching_def Let_def)

lemma use_store_run:
  "\<not> intx (obj s c) \<Longrightarrow> use_store c s = (Inr (glob s), s)" "in_tx c s b w \<Longrightarrow> use_store c s = (Inr w, s)"
  by (simp_all add: use_store_def act_run in_tx_def)

lemma set_store_run:
  "\<not> intx (obj s c) \<Longrightarrow> set_store c d s = (Inr (), s\<lparr>glob := d\<rparr>)"
  "in_tx c s b w \<Longrightarrow> set_store c d s = (Inr (), s\<lparr>obj := (obj s)(c := (obj s c)\<lparr>tx_work := Some d\<rparr>)\<rparr>)"
  by (simp_all add: set_store_def act_run in_tx_def set_conn_def)

lemma in_tx_touching [simp]: "in_tx c (touching c k s) b w = in_tx c s b w"
  by (simp add: in_tx_def)

lemma wf_touching: "wf_server s \<Longrightarrow> wf_server (touching c k s)"
  by (auto simp: wf_server_def conn_wf_def touching_def Let_def)

lemma abs_touching:
  "in_tx c s b w \<Longrightarrow> abs_server (touching c k s) =
     set_sess c (\<lambda>x. x\<lparr>tx := Some (od_get b, od_get w, insert k (set (touched (obj s c))))\<rparr>) (abs_server s)"
  unfolding touching_def abs_set_conn
  by (auto simp: abs_sess_def abs_tx_def in_tx_def set_sess_def Let_def insert_absorb)

text \<open>A write inside a transaction, in either order of touching and writing.\<close>

lemma abs_tx_write:
  assumes "in_tx c s b w"
  shows "abs_server (touching c k (s\<lparr>obj := (obj s)(c := (obj s c)\<lparr>tx_work := Some d\<rparr>)\<rparr>)) =
     set_sess c (\<lambda>x. x\<lparr>tx := Some (od_get b, od_get d, insert k (set (touched (obj s c))))\<rparr>) (abs_server s)"
  using assms unfolding touching_def
  by (auto simp: abs_server_def abs_sess_def abs_tx_def in_tx_def set_sess_def Let_def insert_absorb fun_eq_iff)

lemma wf_tx_write:
  "wf_server s \<Longrightarrow> in_tx c s b w \<Longrightarrow> od_ok d \<Longrightarrow> wf_server (s\<lparr>obj := (obj s)(c := (obj s c)\<lparr>tx_work := Some d\<rparr>)\<rparr>)"
  by (auto simp: wf_server_def conn_wf_def in_tx_def)

lemma touching_tx_write:
  "(touching c k s)\<lparr>obj := (obj (touching c k s))(c := (obj (touching c k s) c)\<lparr>tx_work := d\<rparr>)\<rparr> =
   touching c k (s\<lparr>obj := (obj s)(c := (obj s c)\<lparr>tx_work := d\<rparr>)\<rparr>)"
  by (cases "obj s c") (simp add: touching_def Let_def)

section \<open>Bytes and numbers\<close>

lemma expiry_deadline: "expiry s ttl = deadline (clock s) ttl"
  by (simp add: expiry_def deadline_def)

lemma room_length: "od_ok d \<Longrightarrow> room_for k (od_get d) \<longleftrightarrow> k \<in> set (od_keys d) \<or> length d < max_keys"
proof -
  assume ok: "od_ok d"
  have dom: "dom (od_get d) = set (od_keys d)" using od_get_None [of d] by (auto simp: dom_def)
  have "card (set (od_keys d)) = length d" using ok distinct_card [of "od_keys d"] by (simp add: od_ok_def od_keys_def)
  then show ?thesis by (simp add: room_for_def dom)
qed

section \<open>Requests without a store\<close>

lemma sim_ping: "wf_server s \<Longrightarrow> sim c ANothing s (snd (op_ping c rid pay s))"
  unfolding op_ping_def by (rule sim_quiet) (assumption, simp, intro keeps_intros)

lemma login_grant: "login_ok s c u h = grant (seed s) c u h"
  by (simp add: login_ok_def grant_def nonce_of_def login_nonce_def split: option.split)

lemma sim_set_conn:
  assumes "wf_server s" and "conn_wf (f (obj s c))"
    and "effect c act (abs_server s) = set_sess c (\<lambda>_. abs_sess (f (obj s c))) (abs_server s)"
  shows "sim c act s (snd (set_conn c f s))"
  using assms by (simp add: sim_def set_conn_def act_run abs_set_conn wf_set_conn)

lemma sim_bind: "(\<And>x. keepsA seen (k x)) \<Longrightarrow> sim c act s (snd (m s)) \<Longrightarrow> sim c act s (snd (bindA m k s))"
  by (rule sim_seen [OF seen_bind])

lemma level_authed: "conn_wf k \<Longrightarrow> level (abs_sess k) = 0 \<longleftrightarrow> \<not> authed k"
  by (auto simp: conn_wf_def)

lemma sim_login:
  assumes wf: "wf_server s"
  shows "\<exists>act \<in> actions 2 pay. sim c act s (snd (op_login c rid pay s))"
proof -
  define no where "no = bindA (err c rid E_AUTHFAIL) (\<lambda>_.
      bindA (set_conn c (\<lambda>k. k\<lparr>fails := fails k + 1\<rparr>)) (\<lambda>_.
      withA (\<lambda>s. if 3 \<le> fails (obj s c) then set_conn c (\<lambda>k. k\<lparr>closing := True\<rparr>) else retA ())))"
  define yes where "yes r = bindA (set_conn c (\<lambda>k. k\<lparr>authed := True, role := r\<rparr>)) (\<lambda>_.
      bindA (liftA (\<lambda>_. bytes_of [r])) (send c 0x82 rid))" for r
  have act: "actions 2 pay = one_of (\<lambda>(u, h). ALogin u h) (parse_login pay)" by (simp add: actions_def)
  note lv = level_authed [OF wf_conn [OF wf, of c]]
  show ?thesis
  proof (cases "authed (obj s c)")
    case True
    have idle: "effect c (ALogin u h) (abs_server s) = abs_server s" for u h
      using True lv by (auto simp: effect_def Let_def split: option.split)
    have "op_login c rid pay s = err c rid E_STATE s" using True by (simp add: op_login_def act_run)
    moreover have "sim c (ALogin u h) s (snd (err c rid E_STATE s))" "sim c ANothing s (snd (err c rid E_STATE s))" for u h
      by (intro sim_quiet wf idle seen_err; simp)+
    ultimately show ?thesis by (auto simp: act one_of_def split: option.split)
  next
    case e: False
    have n: "\<not> intx (obj s c)" using wf_conn [OF wf, of c] e by (simp add: conn_wf_def)
    have ok: "sim c (ALogin u h) s (snd (yes r s))" if g: "grant (seed s) c u h = Some r" for u h r
      unfolding yes_def
    proof (rule sim_bind)
      have r: "1 \<le> r \<and> r \<le> 3" using grant_role [OF g] .
      have "set_sess c (\<lambda>_. abs_sess ((obj s c)\<lparr>authed := True, role := r\<rparr>)) (abs_server s)
          = set_sess c (\<lambda>x. x\<lparr>level := r\<rparr>) (abs_server s)"
        using n by (simp add: set_sess_def abs_server_def abs_sess_def abs_tx_def)
      then show "sim c (ALogin u h) s (snd (set_conn c (\<lambda>k. k\<lparr>authed := True, role := r\<rparr>) s))"
        using wf n r e g lv by (intro sim_set_conn) (simp_all add: conn_wf_def effect_def Let_def)
    qed (intro keeps_intros)
    have quiet: "keepsA seen no" unfolding no_def by (intro keeps_intros seen_set_conn; simp)
    have "op_login c rid pay s = bindA (parsed (parse_login pay)) (\<lambda>(u, h).
        case login_ok s c u h of None \<Rightarrow> no | Some r \<Rightarrow> yes r) s"
      unfolding op_login_def no_def yes_def [abs_def] using e by (simp add: withA_def)
    moreover have "\<exists>act \<in> one_of (\<lambda>(u, h). ALogin u h) (parse_login pay). sim c act s (snd (bindA (parsed (parse_login pay)) (\<lambda>(u, h).
        case login_ok s c u h of None \<Rightarrow> no | Some r \<Rightarrow> yes r) s))"
    proof (rule sim_parsed [OF wf])
      fix x assume "parse_login pay = Some x"
      obtain u h where x: "x = (u, h)" by (cases x)
      have "sim c (ALogin u h) s (snd (no s))" if "grant (seed s) c u h = None"
        using that by (intro sim_quiet wf quiet) (simp add: effect_def Let_def)
      then show "sim c (case x of (u, h) \<Rightarrow> ALogin u h) s (snd ((case x of (u, h) \<Rightarrow>
          case login_ok s c u h of None \<Rightarrow> no | Some r \<Rightarrow> yes r) s))"
        using ok [of u h] by (cases "grant (seed s) c u h") (simp_all add: x login_grant)
    qed
    ultimately show ?thesis by (simp add: act)
  qed
qed

lemma abs_watch: "set_sess c (\<lambda>_. abs_sess ((obj s c)\<lparr>watch := p\<rparr>)) (abs_server s) = set_sess c (\<lambda>x. x\<lparr>pats := p\<rparr>) (abs_server s)"
  by (auto simp: set_sess_def abs_server_def abs_sess_def abs_tx_def split: option.split)

lemma sim_watch:
  assumes wf: "wf_server s"
  shows "\<exists>act \<in> actions 11 pay. sim c act s (snd (op_watch c rid pay s))"
proof -
  have "sim c (AWatch k) s (snd (bindA (set_conn c (\<lambda>x. x\<lparr>watch := watch x @ [k]\<rparr>)) (\<lambda>_. send c 0x8B rid []) s))"
    if "k \<notin> set (watch (obj s c))" "\<not> 8 \<le> length (watch (obj s c))" for k
  proof (rule sim_bind)
    show "sim c (AWatch k) s (snd (set_conn c (\<lambda>x. x\<lparr>watch := watch x @ [k]\<rparr>) s))"
      using wf_conn [OF wf, of c] that
      by (intro sim_set_conn wf) (simp_all add: conn_wf_def abs_watch effect_def Let_def, simp add: set_sess_def)
  qed (intro keeps_intros)
  moreover have "sim c (AWatch k) s (snd (m s))"
    if "k \<in> set (watch (obj s c)) \<or> 8 \<le> length (watch (obj s c))" "keepsA seen m" for k and m :: "unit step"
    using that by (intro sim_quiet wf) (auto simp: effect_def Let_def)
  moreover have "actions 11 pay = one_of AWatch (parse_watch pay)" by (simp add: actions_def)
  ultimately show ?thesis unfolding op_watch_def
    by simp (rule sim_parsed [OF wf], auto simp: act_run Let_def intro!: keeps_intros)
qed

lemma sim_unwatch:
  assumes wf: "wf_server s"
  shows "\<exists>act \<in> actions 12 pay. sim c act s (snd (op_unwatch c rid pay s))"
proof -
  have "sim c (AUnwatch k) s (snd (bindA (set_conn c (\<lambda>x. x\<lparr>watch := remove1 k (watch x)\<rparr>)) (\<lambda>_. send c 0x8C rid []) s))"
    if "k \<in> set (watch (obj s c))" for k
  proof (rule sim_bind)
    show "sim c (AUnwatch k) s (snd (set_conn c (\<lambda>x. x\<lparr>watch := remove1 k (watch x)\<rparr>) s))"
      using wf_conn [OF wf, of c]
      by (intro sim_set_conn wf) (simp_all add: conn_wf_def abs_watch effect_def Let_def, simp add: set_sess_def)
  qed (intro keeps_intros)
  moreover have "sim c (AUnwatch k) s (snd (err c rid E_NOTFOUND s))" if "k \<notin> set (watch (obj s c))" for k
    using that by (intro sim_quiet wf seen_err) (simp add: effect_def Let_def remove1_idem set_sess_same)
  moreover have "actions 12 pay = one_of AUnwatch (parse_watch pay)" by (simp add: actions_def)
  ultimately show ?thesis unfolding op_unwatch_def
    by simp (rule sim_parsed [OF wf], auto simp: act_run)
qed

lemma keepsA_use_store_seen [keeps_intros]: "keepsA f (use_store c)"
  unfolding use_store_def by (intro keeps_intros)

lemma sim_silent:
  "wf_server s \<Longrightarrow> sim c ANothing s (snd (op_quit c rid pay s))"
  "wf_server s \<Longrightarrow> sim c ANothing s (snd (op_list c rid pay s))"
  "wf_server s \<Longrightarrow> sim c ANothing s (snd (op_stat c rid pay s))"
  unfolding op_quit_def op_list_def op_stat_def Let_def
  by (rule sim_quiet, assumption, simp, intro keeps_intros seen_set_conn; simp)+

end
