(* ===== verification/Kvd_Sim.thy ===== *)
theory Kvd_Sim
  imports Kvd_Refine
begin

text \<open>
  The requests that read and write stores, the clock and the transactions of the kvd server, each with the
  effect of its action; then the whole handler, the framing loop and the events.
\<close>

lemma run_withA: "withA k s = k s s"
  by (simp add: withA_def)

lemma run_liftA: "bindA (liftA h) K s = (case h s of Inl e \<Rightarrow> (Inl e, s) | Inr x \<Rightarrow> K x s)"
  by (simp add: bindA_def liftA_def split: sum.split)

section \<open>Looking at keys\<close>

lemma tx_same: "tx x = y \<Longrightarrow> x\<lparr>tx := y\<rparr> = x"
  by (cases x) simp

lemma looking_empty: "looking c {} a = a"
  by (cases a) (auto simp: looking_def set_sess_def tx_same split: option.split)

lemma looking_looking: "looking c K (looking c K' a) = looking c (K' \<union> K) a"
  by (auto simp: looking_def set_sess_def Un_assoc split: option.split)

lemma effect_look [simp]: "effect c (ALook K) a = looking c K a"
  by (simp add: effect_def)

lemma touch_looks:
  assumes "wf_server s"
  obtains u where "touch_intx c k s = (Inr (), u)" "wf_server u" "abs_server u = looking c {k} (abs_server s)"
proof -
  let ?u = "if intx (obj s c) then touching c k s else s"
  have "wf_server ?u \<and> abs_server ?u = looking c {k} (abs_server s)"
    using assms
  proof (cases rule: tx_cases [of s c])
    case outside
    then show ?thesis using assms by (simp add: looking_def outside_abs)
  next
    case (inside b w)
    then have "abs_server (touching c k s) = looking c {k} (abs_server s)"
      by (simp add: abs_touching looking_def in_tx_abs)
    with inside assms show ?thesis by (simp add: in_tx_def wf_touching)
  qed
  with that [of ?u] show ?thesis by (simp add: touch_intx_run)
qed

lemma sim_look:
  assumes wf: "wf_server s" and q: "\<And>x. keepsA seen (K x)"
  shows "sim c (ALook {k}) s (snd (bindA (touch_intx c k) K s))"
proof -
  obtain u where u: "touch_intx c k s = (Inr (), u)" "wf_server u" "abs_server u = looking c {k} (abs_server s)"
    using touch_looks [OF wf] .
  have "sim c (ALook {k}) s u" using u by (simp add: sim_def)
  then show ?thesis using sim_after [OF q] u(1) by (simp add: bindA_def)
qed

lemma sim_get:
  assumes "wf_server s"
  shows "\<exists>act \<in> actions 4 pay. sim c act s (snd (op_get c rid pay s))"
    and "\<exists>act \<in> actions 18 pay. sim c act s (snd (op_ttl c rid pay s))"
proof -
  have "actions 4 pay = one_of (\<lambda>k. ALook {k}) (parse_key pay)" "actions 18 pay = one_of (\<lambda>k. ALook {k}) (parse_key pay)"
    by (simp_all add: actions_def)
  then show "\<exists>act \<in> actions 4 pay. sim c act s (snd (op_get c rid pay s))"
    "\<exists>act \<in> actions 18 pay. sim c act s (snd (op_ttl c rid pay s))"
    unfolding op_get_def op_ttl_def
    by (simp_all only:) (rule sim_parsed [OF assms], rule sim_look [OF assms], intro keeps_intros)+
qed

lemma mget_loop_looks:
  assumes "wf_server s"
  shows "\<exists>ks. prefix ks (names_in n r) \<and> sim c (ALook (set ks)) s (snd (mget_loop c rid n r out s))"
  using assms
proof (induction n arbitrary: r out s)
  case 0
  then show ?case by (simp add: retA_def sim_def looking_empty)
next
  case (Suc n)
  have stay: ?case if "snd (mget_loop c rid (Suc n) r out s) = s"
    using Suc.prems that by (intro exI [of _ "[]"]) (simp add: sim_def looking_empty del: mget_loop.simps names_in.simps)
  show ?case
  proof (cases "take_name r")
    case None
    then show ?thesis by (intro stay) (simp add: parsed_def run_liftA)
  next
    case (Some x)
    obtain k q where x: "take_name r = Some (k, q)" using Some by (cases x) simp
    show ?thesis
    proof (cases "length k < 1 \<or> \<not> no_nul k")
      case True
      then show ?thesis by (intro stay) (auto simp add: parsed_def run_liftA x)
    next
      case False
      then have names: "names_in (Suc n) r = k # names_in n q" by (auto simp: x)
      obtain u where u: "touch_intx c k s = (Inr (), u)" "wf_server u" "abs_server u = looking c {k} (abs_server s)"
        using touch_looks [OF Suc.prems] .
      define R where "R = bindA (use_store c) (\<lambda>S.
        bindA (liftA (\<lambda>s. case od_get S k of None \<Rightarrow> Inr [0]
                        | Some e \<Rightarrow> bindR (entry_record s e) (\<lambda>x. Inr (1 # x)))) (\<lambda>x.
        let out = out @ x in
        if max_pay < length out then bindA (err c rid E_TOOBIG) (\<lambda>_. retA None)
        else mget_loop c rid n q out))"
      have run: "mget_loop c rid (Suc n) r out s = R u"
        using False u(1) by (simp add: parsed_def run_liftA x R_def bindA_def [of "touch_intx c k"])
      have one: "\<exists>ks. prefix ks (names_in (Suc n) r) \<and> sim c (ALook (set ks)) s v" if "seen v = seen u" for v
      proof -
        have "sim c (ALook (set [k])) s u" using u by (simp add: sim_def)
        then have "sim c (ALook (set [k])) s v" using that by (rule sim_seen [rotated])
        then show ?thesis unfolding names by (intro exI [of _ "[k]"]) simp
      qed
      have further: "\<exists>ks. prefix ks (names_in (Suc n) r) \<and> sim c (ALook (set ks)) s (snd (mget_loop c rid n q o1 u))" for o1
      proof -
        obtain ks where ks: "prefix ks (names_in n q)" "sim c (ALook (set ks)) u (snd (mget_loop c rid n q o1 u))"
          using Suc.IH [OF u(2)] by blast
        then have "sim c (ALook (set (k # ks))) s (snd (mget_loop c rid n q o1 u))"
          by (simp add: sim_def u(3) looking_looking)
        with ks(1) show ?thesis unfolding names by (intro exI [of _ "k # ks"]) simp
      qed
      have "\<exists>o1. R u = mget_loop c rid n q o1 u \<or> seen (snd (R u)) = seen u"
        using seen_bind [of "\<lambda>_. retA None" "err c rid E_TOOBIG" u, OF keepsA_base(1)] keepsA_D [OF seen_err, of c rid E_TOOBIG u]
        by (auto simp: R_def use_store_def run_liftA Let_def split: sum.split)
      then show ?thesis unfolding run using one further by metis
    qed
  qed
qed

lemma mget_act:
  "prefix ks (mget_names pay) \<Longrightarrow> sim c (ALook (set ks)) s t \<Longrightarrow> \<exists>act \<in> actions 16 pay. sim c act s t"
  by (auto simp: actions_def)

lemma sim_mget:
  assumes wf: "wf_server s"
  shows "\<exists>act \<in> actions 16 pay. sim c act s (snd (op_mget c rid pay s))"
proof -
  have stay: ?thesis if "snd (op_mget c rid pay s) = s"
    using wf that by (intro mget_act [of "[]"]) (simp_all add: sim_def looking_empty)
  show ?thesis
  proof (cases "take_int 1 pay")
    case None
    then show ?thesis by (intro stay) (simp add: op_mget_def parsed_def run_liftA)
  next
    case (Some x)
    obtain n r where x: "take_int 1 pay = Some (n, r)" using Some by (cases x) simp
    define K where "K = (\<lambda>x :: (octets \<times> octets) option. case x of None \<Rightarrow> retA ()
      | Some (out, r) \<Rightarrow> bindA (parsed (if r \<noteq> [] then None else Some ())) (\<lambda>_. send c 0x90 rid out))"
    have run: "op_mget c rid pay s = (if n < 1 \<or> 8 < n then (Inl bad, s) else
        case bytes_of [n] of Inl e \<Rightarrow> (Inl e, s) | Inr out \<Rightarrow> bindA (mget_loop c rid n r out) K s)"
      unfolding op_mget_def K_def parsed_def using x by (simp add: run_liftA)
    show ?thesis
    proof (cases "n < 1 \<or> 8 < n")
      case True
      then show ?thesis by (intro stay) (simp only: run if_True snd_conv)
    next
      case False
      then have names: "mget_names pay = names_in n r" using x by (simp add: mget_names_def)
      have q: "keepsA seen (K x)" for x unfolding K_def by (intro keeps_intros)
      show ?thesis
      proof (cases "bytes_of [n]")
        case (Inl e)
        then show ?thesis using False by (intro stay) (simp only: run if_False sum.case snd_conv)
      next
        case (Inr out)
        obtain ks where ks: "prefix ks (names_in n r)" "sim c (ALook (set ks)) s (snd (mget_loop c rid n r out s))"
          using mget_loop_looks [OF wf] by blast
        have "sim c (ALook (set ks)) s (snd (bindA (mget_loop c rid n r out) K s))" by (rule sim_bind) (rule q, rule ks(2))
        then show ?thesis using ks(1) unfolding run using False Inr by (intro mget_act [of ks]) (simp_all only: names if_False sum.case)
      qed
    qed
  qed
qed

section \<open>Writing\<close>

definition good :: "server \<Rightarrow> bool" where
  "good s \<longleftrightarrow> wf_server s \<and> spec_ok (abs_server s)"

lemma good_wf: "good s \<Longrightarrow> wf_server s"
  by (simp add: good_def)

definition writer :: "nat \<Rightarrow> server \<Rightarrow> bool" where
  "writer c s \<longleftrightarrow> authed (obj s c) \<and> 2 \<le> role (obj s c)"

lemma current_view:
  assumes "wf_server s"
  obtains S where "use_store c s = (Inr S, s)" "od_ok S" "od_get S = view c (abs_server s)"
  using assms
proof (cases rule: tx_cases [of s c])
  case outside
  then show ?thesis using that [of "glob s"] by (simp add: use_store_run view_def outside_abs)
next
  case (inside b w)
  then show ?thesis using that [of w] by (simp add: use_store_run view_def in_tx_abs) (simp add: in_tx_def)
qed

lemma current_store:
  assumes "good s"
  obtains S where "use_store c s = (Inr S, s)" "od_ok S" "\<And>k e. od_get S k = Some e \<Longrightarrow> entry_ok (clock s) k e"
proof -
  have "spec_ok (abs_server s)" using assms by (simp add: good_def)
  from current_view [OF good_wf [OF assms], of c] view_ok [OF this, of c] that show ?thesis by (metis abs_fields(2))
qed

lemma sim_change:
  assumes wf: "wf_server s" and S: "use_store c s = (Inr S, s)" and d: "od_ok d" "od_get d = (od_get S)(k := v)"
    and e: "effect c act (abs_server s) = wrote c k v (abs_server s)"
    and q: "\<And>x. keepsA seen (K x)"
  shows "sim c act s (snd (bindA (set_store c d) (\<lambda>_. bindA (touch_or_notify c ev k) K) s))"
    and "sim c act s (snd (bindA (touch_intx c k) (\<lambda>_. bindA (set_store c d) (\<lambda>_. bindA (notify_outside c ev k) K)) s))"
proof -
  have "sim c act s (snd (bindA (set_store c d) (\<lambda>_. bindA (touch_or_notify c ev k) K) s)) \<and>
        sim c act s (snd (bindA (touch_intx c k) (\<lambda>_. bindA (set_store c d) (\<lambda>_. bindA (notify_outside c ev k) K)) s))"
    using wf
  proof (cases rule: tx_cases [of s c])
    case outside
    note [simp] = outside(1)
    let ?u = "s\<lparr>glob := d\<rparr>"
    have g: "S = glob s" using S by (simp add: use_store_run)
    have u: "sim c act s ?u" using wf d g e by (simp add: sim_def wf_server_def abs_glob wrote_def outside_abs)
    have "bindA (set_store c d) (\<lambda>_. bindA (touch_or_notify c ev k) K) s = bindA (notify c ev k) K ?u"
      "bindA (touch_intx c k) (\<lambda>_. bindA (set_store c d) (\<lambda>_. bindA (notify_outside c ev k) K)) s = bindA (notify c ev k) K ?u"
      by (simp_all add: bindA_def set_store_run touch_intx_run touch_or_notify_def notify_outside_def withA_def)
    moreover have "keepsA seen (bindA (notify c ev k) K)" by (intro keeps_intros q)
    ultimately show ?thesis using u by (simp add: sim_after)
  next
    case (inside b w)
    let ?u = "touching c k (s\<lparr>obj := (obj s)(c := (obj s c)\<lparr>tx_work := Some d\<rparr>)\<rparr>)"
    have i: "intx (obj s c)" "in_tx c (touching c k s) b w" using inside by (simp_all add: in_tx_def)
    have g: "S = w" using S inside by (simp add: use_store_run)
    have u: "sim c act s ?u"
      using wf_touching [OF wf_tx_write [OF wf inside d(1)]] e d(2)
      by (simp add: sim_def abs_tx_write [OF inside] wrote_def in_tx_abs [OF inside] g)
    have "bindA (set_store c d) (\<lambda>_. bindA (touch_or_notify c ev k) K) s = K () ?u"
      using inside i by (simp add: bindA_def set_store_run touch_or_notify_def withA_def touch_def set_conn_def modA_def touching_def Let_def)
    moreover have "set_store c d (touching c k s) = (Inr (), ?u)"
      using set_store_run(2) [OF i(2)] by (simp only: touching_tx_write)
    then have "bindA (touch_intx c k) (\<lambda>_. bindA (set_store c d) (\<lambda>_. bindA (notify_outside c ev k) K)) s = K () ?u"
      using i by (simp add: bindA_def touch_intx_run notify_outside_def withA_def retA_def)
    ultimately show ?thesis using u q by (simp add: sim_after)
  qed
  then show "sim c act s (snd (bindA (set_store c d) (\<lambda>_. bindA (touch_or_notify c ev k) K) s))"
    and "sim c act s (snd (bindA (touch_intx c k) (\<lambda>_. bindA (set_store c d) (\<lambda>_. bindA (notify_outside c ev k) K)) s))"
    by simp_all
qed

lemma run_use_store: "use_store c s = (Inr S, s) \<Longrightarrow> bindA (use_store c) k s = k S s"
  by (simp add: bindA_def)

lemma get_put_upd: "od_get (od_put k e S) = (od_get S)(k := Some e)" and get_del_upd: "od_get (od_del k S) = (od_get S)(k := None)"
  by (auto simp: od_get_put od_get_del)

lemma sim_put:
  assumes wf: "wf_server s"
  shows "\<exists>act \<in> actions 3 pay. sim c act s (snd (op_put c rid pay s))"
proof -
  have acts: "actions 3 pay = one_of (\<lambda>(k, t, ttl, v). APut k t ttl v) (parse_put pay)" by (simp add: actions_def)
  show ?thesis unfolding acts op_put_def
  proof (rule sim_parsed [OF wf])
    fix x assume "parse_put pay = Some x"
    obtain k t ttl v where x: "x = (k, t, ttl, v)" by (cases x)
    obtain S where S: "use_store c s = (Inr S, s)" "od_ok S" "od_get S = view c (abs_server s)" using current_view [OF wf] .
    note room = room_length [OF S(2), of k, unfolded S(3)]
    show "sim c (case x of (k, t, ttl, v) \<Rightarrow> APut k t ttl v) s (snd ((case x of (k, t, ttl, v) \<Rightarrow>
       bindA (use_store c) (\<lambda>S. if k \<notin> set (od_keys S) \<and> max_keys \<le> length S then err c rid E_FULL
         else withA (\<lambda>s. bindA (set_store c (od_put k \<lparr>ent_type = t, ent_val = v, ent_exp = expiry s ttl\<rparr> S))
                (\<lambda>_. bindA (touch_or_notify c 1 k) (\<lambda>_. send c 0x83 rid []))))) s))"
    proof (cases "k \<in> set (od_keys S) \<or> length S < max_keys")
      case True
      have "sim c (APut k t ttl v) s (snd (bindA (set_store c (od_put k \<lparr>ent_type = t, ent_val = v, ent_exp = expiry s ttl\<rparr> S))
          (\<lambda>_. bindA (touch_or_notify c 1 k) (\<lambda>_. send c 0x83 rid [])) s))"
        by (rule sim_change(1) [OF wf S(1) od_ok_put [OF S(2)] get_put_upd])
           (use True room in \<open>auto simp: effect_def Let_def expiry_deadline intro: keeps_intros\<close>)
      then show ?thesis using True by (auto simp: x run_use_store [OF S(1)] run_withA)
    next
      case False
      then have "sim c (APut k t ttl v) s (snd (err c rid E_FULL s))"
        using room by (intro sim_quiet wf seen_err) (simp add: effect_def Let_def)
      then show ?thesis using False by (auto simp: x run_use_store [OF S(1)])
    qed
  qed
qed

lemma sim_expire:
  assumes wf: "wf_server s"
  shows "\<exists>act \<in> actions 17 pay. sim c act s (snd (op_expire c rid pay s))"
proof -
  have acts: "actions 17 pay = one_of (\<lambda>(k, ttl). AExpire k ttl) (parse_expire pay)" by (simp add: actions_def)
  show ?thesis unfolding acts op_expire_def
  proof (rule sim_parsed [OF wf])
    fix x assume "parse_expire pay = Some x"
    obtain k ttl where x: "x = (k, ttl)" by (cases x)
    obtain S where S: "use_store c s = (Inr S, s)" "od_ok S" "od_get S = view c (abs_server s)" using current_view [OF wf] .
    let ?u = "if intx (obj s c) then touching c k s else s"
    have St: "use_store c ?u = (Inr S, ?u)"
      using S(1) by (auto simp: use_store_def act_run split: option.splits)
    have t: "bindA (touch_intx c k) K s = K () ?u" for K :: "unit \<Rightarrow> unit step"
      by (simp add: bindA_def touch_intx_run)
    have ex: "expiry ?u = expiry s" by (auto simp: expiry_def fun_eq_iff)
    have r: "sim c (AExpire k ttl) s (snd (case od_get S k of None \<Rightarrow> send c 0x91 rid [0] ?u
       | Some e \<Rightarrow> bindA (set_store c (od_put k (e\<lparr>ent_exp := expiry ?u ttl\<rparr>) S)) (\<lambda>_.
            bindA (notify_outside c 1 k) (\<lambda>_. send c 0x91 rid [1])) ?u))"
    proof (cases "od_get S k")
      case None
      have "sim c (ALook {k}) s (snd (bindA (touch_intx c k) (\<lambda>_. send c 0x91 rid [0]) s))"
        by (rule sim_look [OF wf]) (rule seen_send)
      moreover have "effect c (AExpire k ttl) (abs_server s) = looking c {k} (abs_server s)"
        using None S(3) by (simp add: effect_def Let_def)
      ultimately show ?thesis using None by (simp add: t sim_def)
    next
      case (Some e)
      have "sim c (AExpire k ttl) s (snd (bindA (touch_intx c k) (\<lambda>_. bindA (set_store c (od_put k (e\<lparr>ent_exp := expiry s ttl\<rparr>) S))
          (\<lambda>_. bindA (notify_outside c 1 k) (\<lambda>_. send c 0x91 rid [1]))) s))"
        by (rule sim_change(2) [OF wf S(1) od_ok_put [OF S(2)] get_put_upd])
           (use Some S(3) in \<open>auto simp: effect_def Let_def expiry_deadline intro: keeps_intros\<close>)
      then show ?thesis using Some by (simp add: t ex)
    qed
    show "sim c (case x of (k, ttl) \<Rightarrow> AExpire k ttl) s (snd ((case x of (k, ttl) \<Rightarrow> bindA (touch_intx c k) (\<lambda>_. bindA (use_store c) (\<lambda>S.
       case od_get S k of None \<Rightarrow> send c 0x91 rid [0]
       | Some e \<Rightarrow> withA (\<lambda>s. bindA (set_store c (od_put k (e\<lparr>ent_exp := expiry s ttl\<rparr>) S)) (\<lambda>_.
           bindA (notify_outside c 1 k) (\<lambda>_. send c 0x91 rid [1])))))) s))"
      using r by (cases "od_get S k") (simp_all add: x t run_use_store [OF St] run_withA del: if_split)
  qed
qed

lemma sim_del:
  assumes wf: "wf_server s"
  shows "\<exists>act \<in> actions 5 pay. sim c act s (snd (op_del c rid pay s))"
proof -
  have acts: "actions 5 pay = one_of ADel (parse_key pay)" by (simp add: actions_def)
  show ?thesis unfolding acts op_del_def
  proof (rule sim_parsed [OF wf])
    fix k
    obtain S where S: "use_store c s = (Inr S, s)" "od_ok S" "od_get S = view c (abs_server s)" using current_view [OF wf] .
    have r: "sim c (ADel k) s (snd (bindA (touch_intx c k) (\<lambda>_. case od_get S k of None \<Rightarrow> send c 0x85 rid [0]
         | Some e \<Rightarrow> bindA (set_store c (od_del k S)) (\<lambda>_.
              bindA (notify_outside c 2 k) (\<lambda>_. send c 0x85 rid [1]))) s))"
    proof (cases "od_get S k")
      case None
      have "sim c (ALook {k}) s (snd (bindA (touch_intx c k) (\<lambda>_. send c 0x85 rid [0]) s))"
        by (rule sim_look [OF wf]) (rule seen_send)
      moreover have "wrote c k None (abs_server s) = looking c {k} (abs_server s)"
        using None S(3) by (cases "abs_server s") (auto simp: wrote_def looking_def view_def fun_upd_idem split: option.splits)
      ultimately show ?thesis using None by (simp add: sim_def effect_def Let_def)
    next
      case (Some e)
      have "sim c (ADel k) s (snd (bindA (touch_intx c k) (\<lambda>_. bindA (set_store c (od_del k S))
          (\<lambda>_. bindA (notify_outside c 2 k) (\<lambda>_. send c 0x85 rid [1]))) s))"
        by (rule sim_change(2) [OF wf S(1) od_ok_del [OF S(2)] get_del_upd]) (auto simp: effect_def Let_def intro: keeps_intros)
      then show ?thesis using Some by simp
    qed
    then show "sim c (ADel k) s (snd (bindA (use_store c) (\<lambda>S. bindA (touch_intx c k) (\<lambda>_.
       case od_get S k of None \<Rightarrow> send c 0x85 rid [0]
       | Some e \<Rightarrow> bindA (set_store c (od_del k S)) (\<lambda>_.
            bindA (notify_outside c 2 k) (\<lambda>_. send c 0x85 rid [1])))) s))"
      by (simp add: run_use_store [OF S(1)])
  qed
qed

lemma sim_incr:
  assumes wf: "wf_server s"
  shows "\<exists>act \<in> actions 6 pay. sim c act s (snd (op_incr c rid pay s))"
proof -
  have acts: "actions 6 pay = one_of (\<lambda>(k, d). AIncr k d) (parse_incr pay)" by (simp add: actions_def)
  show ?thesis unfolding acts op_incr_def
  proof (rule sim_parsed [OF wf])
    fix x assume "parse_incr pay = Some x"
    obtain k d where x: "x = (k, d)" by (cases x)
    obtain S where S: "use_store c s = (Inr S, s)" "od_ok S" "od_get S = view c (abs_server s)" using current_view [OF wf] .
    note room = room_length [OF S(2), of k, unfolded S(3)]
    define fin :: "ent \<Rightarrow> unit step" where "fin = (\<lambda>e.
         let cur = (le_nat (ent_val e) + d) mod 2 ^ 64 in
         bindA (liftA (\<lambda>_. pack_le 8 (int cur))) (\<lambda>v.
         bindA (set_store c (od_put k (e\<lparr>ent_val := v\<rparr>) S)) (\<lambda>_.
         bindA (touch_or_notify c 4 k) (\<lambda>_. send c 0x86 rid v))))"
    have f: "sim c (AIncr k d) s (snd (fin e s))"
      if e: "effect c (AIncr k d) (abs_server s)
          = wrote c k (Some (e\<lparr>ent_val := le_bytes 8 ((le_nat (ent_val e) + d) mod 2 ^ 64)\<rparr>)) (abs_server s)" for e
    proof -
      let ?cur = "(le_nat (ent_val e) + d) mod 2 ^ 64"
      let ?v = "le_bytes 8 ?cur"
      have "int ?cur < 256 ^ 8" by simp
      then have v: "pack_le 8 (int ?cur) = Inr ?v" by (simp add: pack_le_def del: zmod_int of_nat_mod)
      have "sim c (AIncr k d) s (snd (bindA (set_store c (od_put k (e\<lparr>ent_val := ?v\<rparr>) S)) (\<lambda>_.
         bindA (touch_or_notify c 4 k) (\<lambda>_. send c 0x86 rid ?v)) s))"
        by (rule sim_change(1) [OF wf S(1) od_ok_put [OF S(2)] get_put_upd e]) (intro keeps_intros)
      then show ?thesis unfolding fin_def Let_def run_liftA v by simp
    qed
    have stop: "sim c (AIncr k d) s (snd (err c rid e s))" if "effect c (AIncr k d) (abs_server s) = abs_server s" for e
      by (intro sim_quiet wf seen_err that)
    have "sim c (AIncr k d) s (snd (case od_get S k of
          Some e \<Rightarrow> if ent_type e \<noteq> 0 then err c rid E_WRONGTYPE s else fin e s
        | None \<Rightarrow> if max_keys \<le> length S then err c rid E_FULL s
                  else fin \<lparr>ent_type = 0, ent_val = replicate 8 0, ent_exp = 0\<rparr> s))"
    proof (cases "od_get S k")
      case None
      have "k \<notin> set (od_keys S)" using None by (simp add: od_get_None)
      moreover have "le_nat (replicate 8 0) = 0" by (simp add: numeral_eq_Suc)
      ultimately show ?thesis using None room S(3)
        by (cases "max_keys \<le> length S") (auto simp: effect_def Let_def intro!: f stop)
    next
      case (Some e)
      then show ?thesis using S(3) by (cases "ent_type e = 0") (auto simp: effect_def Let_def intro!: f stop)
    qed
    then show "sim c (case x of (k, d) \<Rightarrow> AIncr k d) s (snd ((case x of (k, d) \<Rightarrow> bindA (use_store c) (\<lambda>S.
       let finish = (\<lambda>e.
         let cur = (le_nat (ent_val e) + d) mod 2 ^ 64 in
         bindA (liftA (\<lambda>_. pack_le 8 (int cur))) (\<lambda>v.
         bindA (set_store c (od_put k (e\<lparr>ent_val := v\<rparr>) S)) (\<lambda>_.
         bindA (touch_or_notify c 4 k) (\<lambda>_. send c 0x86 rid v))))
       in case od_get S k of
          Some e \<Rightarrow> if ent_type e \<noteq> 0 then err c rid E_WRONGTYPE else finish e
        | None \<Rightarrow> if max_keys \<le> length S then err c rid E_FULL
                  else finish \<lparr>ent_type = 0, ent_val = replicate 8 0, ent_exp = 0\<rparr>)) s))"
      unfolding x prod.case run_use_store [OF S(1)] fin_def [symmetric] Let_def [of _ "\<lambda>finish. case _ of None \<Rightarrow> _ | Some e \<Rightarrow> _"]
      by (simp split: option.split_asm option.split if_splits)
  qed
qed

section \<open>The clock and the transactions\<close>

lemma od_get_fold_del: "od_get (fold od_del ks d) k = (if k \<in> set ks then None else od_get d k)"
  by (induction ks arbitrary: d) (auto simp: od_get_del)

lemma od_ok_fold_del: "od_ok d \<Longrightarrow> od_ok (fold od_del ks d)"
  by (induction ks arbitrary: d) (auto simp: od_ok_del)

lemma expired_keys:
  assumes "od_ok d"
  shows "k \<in> set (expired t d) \<longleftrightarrow> (\<exists>e. od_get d k = Some e \<and> ent_exp e \<noteq> 0 \<and> ent_exp e \<le> t)"
  using assms by (force simp: expired_def od_ok_get_iff)

lemma sweep_expired: "od_ok d \<Longrightarrow> od_get (fold od_del (expired t d) d) = sweep t (od_get d)"
  by (rule ext) (auto simp: od_get_fold_del expired_keys sweep_def split: option.splits)

lemma sim_tick:
  assumes wf: "wf_server s"
  shows "\<exists>act \<in> actions 7 pay. sim c act s (snd (op_tick c rid pay s))"
proof -
  have acts: "actions 7 pay = one_of ATick (parse_tick pay)" by (simp add: actions_def)
  show ?thesis unfolding acts op_tick_def
  proof (rule sim_parsed [OF wf])
    fix t
    define dead where "dead = expired (clock s + t) (glob s)"
    define u where "u = s\<lparr>clock := clock s + t, glob := fold od_del dead (glob s)\<rparr>"
    define K where "K = bindA (eachA (notify c 3) dead) (\<lambda>_.
         bindA (liftA (\<lambda>s. bindR (pack_le 8 (int (clock s))) (\<lambda>x.
                           bindR (pack_le 2 (int (length dead))) (\<lambda>n. Inr (x @ n)))))
           (send c 0x87 rid))"
    have "sim c (ATick t) s (snd (K u))" if "\<not> intx (obj s c)"
    proof (rule sim_after)
      show "keepsA seen K" unfolding K_def by (intro keeps_intros)
      have "abs_server u = (abs_server s)\<lparr>now := clock s + t, adb := sweep (clock s + t) (od_get (glob s))\<rparr>"
        using wf_glob [OF wf] by (simp add: u_def abs_server_def sweep_expired dead_def)
      moreover have "wf_server u" using wf by (simp add: u_def wf_server_def od_ok_fold_del)
      ultimately show "sim c (ATick t) s u" using that by (simp add: sim_def outside_abs effect_def Let_def)
    qed
    moreover have "sim c (ATick t) s (snd (err c rid E_STATE s))" if "intx (obj s c)"
      using wf that by (cases rule: tx_cases [of s c]) (auto intro!: sim_quiet wf seen_err simp: effect_def Let_def in_tx_abs)
    ultimately show "sim c (ATick t) s (snd (withA (\<lambda>s. if intx (obj s c) then err c rid E_STATE
       else bindA (modA (\<lambda>s. s\<lparr>clock := clock s + t\<rparr>)) (\<lambda>_. withA (\<lambda>s.
         let dead = expired (clock s) (glob s) in
         bindA (modA (\<lambda>s. s\<lparr>glob := fold od_del dead (glob s)\<rparr>)) (\<lambda>_.
         bindA (eachA (notify c 3) dead) (\<lambda>_.
         bindA (liftA (\<lambda>s. bindR (pack_le 8 (int (clock s))) (\<lambda>x.
                           bindR (pack_le 2 (int (length dead))) (\<lambda>n. Inr (x @ n)))))
           (send c 0x87 rid)))))) s))"
      by (cases "intx (obj s c)")
         (simp_all add: run_withA bindA_def [of "modA _"] modA_def u_def K_def dead_def Let_def)
  qed
qed

lemma abs_tx_intx: "wf_server s \<Longrightarrow> abs_tx (obj s c) = None \<longleftrightarrow> \<not> intx (obj s c)"
  by (cases rule: tx_cases [of s c]) (auto simp: in_tx_abs outside_abs in_tx_def)

lemma sim_begin:
  assumes wf: "wf_server s" and a: "authed (obj s c)"
  shows "\<exists>act \<in> actions 8 pay. sim c act s (snd (op_begin c rid pay s))"
proof -
  have acts: "actions 8 pay = one_of (\<lambda>_. ABegin) (parse_empty pay)" by (simp add: actions_def)
  show ?thesis unfolding acts op_begin_def
  proof (rule sim_parsed [OF wf])
    let ?f = "\<lambda>k. k\<lparr>intx := True, tx_base := Some (glob s), tx_work := Some (glob s), touched := []\<rparr>"
    have "sim c ABegin s (snd (bindA (set_conn c ?f) (\<lambda>_. send c 0x88 rid []) s))" if "\<not> intx (obj s c)"
    proof (rule sim_bind)
      have "set_sess c (\<lambda>_. abs_sess (?f (obj s c))) (abs_server s) =
            set_sess c (\<lambda>x. x\<lparr>tx := Some (adb (abs_server s), adb (abs_server s), {})\<rparr>) (abs_server s)"
        by (simp add: set_sess_def abs_server_def abs_sess_def abs_tx_def)
      then show "sim c ABegin s (snd (set_conn c ?f s))"
        using wf_conn [OF wf, of c] wf_glob [OF wf] a that
        by (intro sim_set_conn wf) (simp_all add: conn_wf_def outside_abs effect_def Let_def)
    qed (intro keeps_intros)
    moreover have "sim c ABegin s (snd (err c rid E_STATE s))" if "intx (obj s c)"
      using that abs_tx_intx [OF wf, of c] by (intro sim_quiet wf seen_err) (auto simp: effect_def Let_def)
    ultimately show "sim c ABegin s (snd (withA (\<lambda>s. if intx (obj s c) then err c rid E_STATE
         else bindA (set_conn c (\<lambda>k. k\<lparr>intx := True, tx_base := Some (glob s), tx_work := Some (glob s),
                                    touched := []\<rparr>)) (\<lambda>_. send c 0x88 rid [])) s))"
      by (simp add: run_withA)
  qed
qed

lemma abs_leave_tx:
  "set_sess c (\<lambda>_. abs_sess ((obj s c)\<lparr>intx := False\<rparr>)) (abs_server s) = set_sess c (\<lambda>x. x\<lparr>tx := None\<rparr>) (abs_server s)"
  by (simp add: set_sess_def abs_server_def abs_sess_def abs_tx_def)

lemma leave_tx:
  assumes wf: "wf_server s"
  shows "wf_server (s\<lparr>obj := (obj s)(c := (obj s c)\<lparr>intx := False\<rparr>)\<rparr>)"
    and "abs_server (s\<lparr>obj := (obj s)(c := (obj s c)\<lparr>intx := False\<rparr>)\<rparr>) = set_sess c (\<lambda>x. x\<lparr>tx := None\<rparr>) (abs_server s)"
proof -
  have "conn_wf ((obj s c)\<lparr>intx := False\<rparr>)" using wf_conn [OF wf, of c] by (simp add: conn_wf_def)
  then show "wf_server (s\<lparr>obj := (obj s)(c := (obj s c)\<lparr>intx := False\<rparr>)\<rparr>)" using wf by (simp add: wf_server_def)
  show "abs_server (s\<lparr>obj := (obj s)(c := (obj s c)\<lparr>intx := False\<rparr>)\<rparr>) = set_sess c (\<lambda>x. x\<lparr>tx := None\<rparr>) (abs_server s)"
    by (simp add: abs_set_conn abs_leave_tx)
qed

lemma sim_abort:
  assumes wf: "wf_server s"
  shows "\<exists>act \<in> actions 10 pay. sim c act s (snd (op_abort c rid pay s))"
proof -
  have acts: "actions 10 pay = one_of (\<lambda>_. AAbort) (parse_empty pay)" by (simp add: actions_def)
  show ?thesis unfolding acts op_abort_def
  proof (rule sim_parsed [OF wf])
    have "sim c AAbort s (snd (bindA (set_conn c (\<lambda>k. k\<lparr>intx := False\<rparr>)) (\<lambda>_. send c 0x8A rid []) s))"
      by (rule sim_bind) (use leave_tx [OF wf, of c] in \<open>simp_all add: set_conn_def act_run seen_send sim_def effect_def Let_def\<close>)
    moreover have "sim c AAbort s (snd (err c rid E_STATE s))" if "\<not> intx (obj s c)"
      using outside_abs [OF that] by (intro sim_quiet wf seen_err) (simp add: effect_def Let_def set_sess_same tx_same)
    ultimately show "sim c AAbort s (snd (withA (\<lambda>s. if \<not> intx (obj s c) then err c rid E_STATE
       else bindA (set_conn c (\<lambda>k. k\<lparr>intx := False\<rparr>)) (\<lambda>_. send c 0x8A rid [])) s))"
      by (simp add: run_withA)
  qed
qed

section \<open>Committing\<close>

text \<open>The commit loop, when it ends, has installed the working value of every key of its list whose value
  differs from the snapshot's.\<close>

lemma notify_Inr: "notify c ev k s = (Inr u, t) \<Longrightarrow> seen t = seen s"
  using keepsA_D [OF seen_notify, of c ev k s] by simp

lemma abs_glob_cong: "abs_server t = abs_server s \<Longrightarrow> abs_server (t\<lparr>glob := d\<rparr>) = abs_server (s\<lparr>glob := d\<rparr>)"
  by (simp add: abs_server_def)

lemma commit_key_run:
  assumes "commit_key c b w k s = (Inr n, t)" and wf: "wf_server s"
  shows "wf_server t \<and> abs_server t = (abs_server s)\<lparr>adb := (od_get (glob s))(k := if od_get b k = od_get w k then od_get (glob s) k else od_get w k)\<rparr>"
proof (cases "od_get b k = od_get w k")
  case True
  then show ?thesis using assms by (simp add: commit_key_def act_run abs_server_def)
next
  case ne: False
  have quiet: "wf_server t \<and> abs_server t = (abs_server s)\<lparr>adb := od_get (f (glob s))\<rparr>"
    if "bindA (modA (\<lambda>s. s\<lparr>glob := f (glob s)\<rparr>)) (\<lambda>_. bindA (notify c ev k) (\<lambda>_. retA m)) s = (Inr n, t)"
      and "od_ok (f (glob s))" for ev f m
  proof -
    have "seen t = seen (s\<lparr>glob := f (glob s)\<rparr>)" using that(1) by (auto simp: bindA_Inr act_run dest: notify_Inr)
    then show ?thesis using wf that(2) by (simp add: seen_eq abs_glob) (simp add: wf_server_def)
  qed
  have put: "od_get (od_put k e d) = (od_get d)(k \<mapsto> e)" and del: "od_get (od_del k d) = (od_get d)(k := None)" for e d
    by (auto simp: od_get_put od_get_del)
  show ?thesis
  proof (cases "od_get w k")
    case (Some e)
    with ne assms(1) have "bindA (modA (\<lambda>s. s\<lparr>glob := od_put k e (glob s)\<rparr>)) (\<lambda>_. bindA (notify c 1 k) (\<lambda>_. retA 1)) s = (Inr n, t)"
      by (simp add: commit_key_def)
    from quiet [OF this od_ok_put [OF wf_glob [OF wf]]] show ?thesis using ne Some by (simp add: put)
  next
    case None
    show ?thesis
    proof (cases "k \<in> set (od_keys (glob s))")
      case True
      obtain e where b: "od_get b k = Some e" using ne None by (cases "od_get b k") auto
      with True None assms(1) have "bindA (modA (\<lambda>s. s\<lparr>glob := od_del k (glob s)\<rparr>)) (\<lambda>_. bindA (notify c 2 k) (\<lambda>_. retA 1)) s = (Inr n, t)"
        by (simp add: commit_key_def run_withA)
      from quiet [OF this od_ok_del [OF wf_glob [OF wf]]] show ?thesis using b None by (simp add: del)
    next
      case False
      obtain e where "od_get b k = Some e" using ne None by (cases "od_get b k") auto
      with False None assms(1) have "t = s" by (simp add: commit_key_def act_run)
      moreover have "od_get (glob s) k = None" using False by (simp add: od_get_None)
      ultimately show ?thesis using None wf by (simp add: abs_server_def fun_upd_idem)
    qed
  qed
qed

lemma commit_loop_run:
  assumes "mapA (commit_key c b w) ks s = (Inr ns, t)" and "wf_server s"
  shows "wf_server t \<and> abs_server t = (abs_server s)\<lparr>adb :=
     \<lambda>k. if k \<in> set ks \<and> od_get b k \<noteq> od_get w k then od_get w k else od_get (glob s) k\<rparr>"
  using assms
proof (induction ks arbitrary: s ns)
  case Nil
  then show ?case by (simp add: act_run abs_server_def)
next
  case (Cons k ks)
  then obtain n u ms where k: "commit_key c b w k s = (Inr n, u)" and m: "mapA (commit_key c b w) ks u = (Inr ms, t)"
    by (auto simp: bindA_Inr act_run)
  note u = commit_key_run [OF k Cons.prems(2)]
  have g: "od_get (glob u) = (od_get (glob s))(k := if od_get b k = od_get w k then od_get (glob s) k else od_get w k)"
    using u by (simp add: abs_server_def)
  have "wf_server t" "abs_server t = (abs_server s)\<lparr>adb :=
      \<lambda>k. if k \<in> set ks \<and> od_get b k \<noteq> od_get w k then od_get w k else od_get (glob u) k\<rparr>"
    using Cons.IH [OF m] u by simp_all
  then show ?case by (auto simp: g abs_server_def fun_eq_iff)
qed

text \<open>The handlers raise \<open>Bad\<close> only while they parse.\<close>

definition cleanA :: "('s, 'a) act \<Rightarrow> bool" where
  "cleanA m \<longleftrightarrow> (\<forall>s e t. m s = (Inl e, t) \<longrightarrow> \<not> is_bad e)"

lemma cleanA_rules:
  "cleanA (retA x)" "cleanA (modA g)"
  "(\<And>s. cleanA (w s)) \<Longrightarrow> cleanA (withA w)"
  "cleanA a \<Longrightarrow> cleanA b \<Longrightarrow> cleanA (if c then a else b)"
  "cleanA a \<Longrightarrow> (\<And>x. cleanA (f x)) \<Longrightarrow> cleanA (case y of None \<Rightarrow> a | Some x \<Rightarrow> f x)"
  by (auto simp: cleanA_def act_run split: option.split)

lemma cleanA_bind: "cleanA m \<Longrightarrow> (\<And>x. cleanA (k x)) \<Longrightarrow> cleanA (bindA m k)"
  unfolding cleanA_def bindA_Inl by metis

lemma cleanA_lift: "(\<And>s e. h s = Inl e \<Longrightarrow> \<not> is_bad e) \<Longrightarrow> cleanA (liftA h)"
  by (simp add: cleanA_def act_run)

lemma pack_errors: "pack_le n x = Inl e \<Longrightarrow> \<not> is_bad e" "bytes_of ns = Inl e \<Longrightarrow> \<not> is_bad e"
  by (auto simp: pack_le_def bytes_of_def is_bad_def split: if_splits)

lemma bindR_Inl: "bindR r f = Inl e \<longleftrightarrow> r = Inl e \<or> (\<exists>x. r = Inr x \<and> f x = Inl e)"
  by (cases r) auto

lemma cleanA_send: "cleanA (send c t r p)"
  unfolding send_def set_conn_def
  by (intro cleanA_rules cleanA_bind cleanA_lift) (auto simp: frame_def bindR_Inl dest: pack_errors)

lemma cleanA_notify: "cleanA (notify c ev k)"
proof -
  have each: "cleanA (eachA f xs)" if "\<And>x. cleanA (f x)" for f :: "nat \<Rightarrow> unit step" and xs
    using that by (induction xs) (auto intro: cleanA_rules cleanA_bind)
  show ?thesis unfolding notify_def notify_one_def Let_def
    by (intro cleanA_rules cleanA_bind cleanA_lift each cleanA_send) (rule pack_errors)
qed

lemma cleanA_mapA: "(\<And>x. cleanA (f x)) \<Longrightarrow> cleanA (mapA f xs)"
  by (induction xs) (auto intro: cleanA_rules cleanA_bind)

lemma cleanA_commit_loop: "cleanA (mapA (commit_key c b w) ks)"
  unfolding commit_key_def Let_def by (intro cleanA_mapA cleanA_rules cleanA_bind cleanA_notify)

lemma cleanA_err: "cleanA (err c rid e)"
  unfolding err_def by (intro cleanA_rules cleanA_bind cleanA_lift cleanA_send) (rule pack_errors)

lemma set_sess_adb: "set_sess c f (a\<lparr>adb := m\<rparr>) = (set_sess c f a)\<lparr>adb := m\<rparr>"
  by (cases a) (simp add: set_sess_def)

text \<open>What a commit request does inside a transaction: it leaves it, and installs the working values of the
  touched keys unless one of them changed since the snapshot.\<close>

definition conflicts :: "nat \<Rightarrow> kv_store \<Rightarrow> server \<Rightarrow> bool" where
  "conflicts c b s \<longleftrightarrow> (\<exists>k \<in> set (touched (obj s c)). od_get b k \<noteq> od_get (glob s) k)"

definition committed :: "nat \<Rightarrow> kv_store \<Rightarrow> server \<Rightarrow> db" where
  "committed c w s k = (if k \<in> set (touched (obj s c)) then od_get w k else od_get (glob s) k)"

lemma op_commit_run:
  assumes wf: "wf_server s" and a: "authed (obj s c)" and i: "in_tx c s b w" and pay: "parse_empty pay = Some ()"
    and r: "op_commit c rid pay s = (r, t)" "r = Inr () \<or> (\<exists>e. r = Inl e \<and> is_bad e)"
  shows "wf_server t \<and> abs_server t = set_sess c (\<lambda>x. x\<lparr>tx := None\<rparr>)
     ((abs_server s)\<lparr>adb := if conflicts c b s then od_get (glob s) else committed c w s\<rparr>)"
proof -
  let ?u = "s\<lparr>obj := (obj s)(c := (obj s c)\<lparr>intx := False\<rparr>)\<rparr>"
  have int: "intx (obj s c)" using i by (simp add: in_tx_def)
  have leave: "wf_server ?u" "abs_server ?u = set_sess c (\<lambda>x. x\<lparr>tx := None\<rparr>) (abs_server s)"
    using leave_tx [OF wf] by simp_all
  have conf: "list_ex (\<lambda>k. od_get b k \<noteq> od_get (glob s) k) (touched (obj s c)) = conflicts c b s"
    by (simp add: conflicts_def list_ex_iff)
  define K where "K = (\<lambda>ns :: nat list. bindA (liftA (\<lambda>_. pack_le 2 (int (sum_list ns)))) (send c 0x89 rid))"
  have p: "bindA (parsed (Some ())) k s = k () s" for k :: "unit \<Rightarrow> unit step"
    by (simp add: parsed_def bindA_def liftA_def)
  have q: "bindA (set_conn c (\<lambda>k. k\<lparr>intx := False\<rparr>)) k s = k () ?u" for k :: "unit \<Rightarrow> unit step"
    by (simp add: set_conn_def bindA_def modA_def)
  have x: "bindA (tx_stores c) k ?u = k (b, w) ?u" for k :: "kv_store \<times> kv_store \<Rightarrow> unit step"
    using i by (simp add: tx_stores_def bindA_def liftA_def in_tx_def)
  have run: "(if conflicts c b s then err c rid E_CONFLICT
      else bindA (mapA (commit_key c b w) (sort (touched (obj s c)))) K) ?u = (r, t)"
    using r(1) int pay by (simp add: op_commit_def p run_withA q x conf K_def split: if_splits)
  show ?thesis
  proof (cases "conflicts c b s")
    case True
    then have "seen t = seen ?u" using run keepsA_D [OF seen_err, of c rid E_CONFLICT ?u] by simp
    then show ?thesis using leave True by (simp add: seen_eq set_sess_adb) (simp add: abs_server_def set_sess_def)
  next
    case nc: False
    have quiet: "keepsA seen (K ns)" for ns unfolding K_def by (intro keeps_intros)
    obtain ns u where m: "mapA (commit_key c b w) (sort (touched (obj s c))) ?u = (Inr ns, u)" and t: "K ns u = (r, t)"
    proof (cases "mapA (commit_key c b w) (sort (touched (obj s c))) ?u")
      case (Pair q u)
      then show ?thesis
      proof (cases q)
        case (Inl e)
        with run nc Pair have "r = Inl e" by (simp add: bindA_def)
        moreover have "\<not> is_bad e" using cleanA_commit_loop Pair Inl unfolding cleanA_def by blast
        ultimately show ?thesis using r(2) by auto
      qed (use run nc Pair that in \<open>simp add: bindA_def\<close>)
    qed
    from commit_loop_run [OF m leave(1)] have u: "wf_server u" "abs_server u = (abs_server ?u)\<lparr>adb :=
       \<lambda>k. if k \<in> set (touched (obj s c)) \<and> od_get b k \<noteq> od_get w k then od_get w k else od_get (glob s) k\<rparr>"
      by (simp_all cong: if_cong)
    have "(\<lambda>k. if k \<in> set (touched (obj s c)) \<and> od_get b k \<noteq> od_get w k then od_get w k else od_get (glob s) k)
        = committed c w s"
      using nc by (auto simp: conflicts_def committed_def)
    then have "abs_server u = set_sess c (\<lambda>x. x\<lparr>tx := None\<rparr>) ((abs_server s)\<lparr>adb := committed c w s\<rparr>)"
      unfolding u(2) leave(2) set_sess_adb by simp
    moreover have "seen t = seen u" using keepsA_D [OF quiet, of ns u] t by simp
    ultimately show ?thesis using u(1) nc by (simp add: seen_eq)
  qed
qed

lemma sim_commit:
  assumes wf: "wf_server s" and a: "authed (obj s c)"
    and r: "op_commit c rid pay s = (r, t)" "r = Inr () \<or> (\<exists>e. r = Inl e \<and> is_bad e)"
  shows "\<exists>act \<in> actions 9 pay. sim c act s t"
proof (cases "parse_empty pay")
  case None
  then have "t = s" using r(1) by (auto simp: op_commit_def parsed_def act_simps)
  with None wf show ?thesis by (simp add: actions_def one_of_def sim_def)
next
  case (Some y)
  then have acts: "actions 9 pay = {ACommit}" by (simp add: actions_def one_of_def)
  show ?thesis
  proof (cases "intx (obj s c)")
    case False
    then have "t = snd (err c rid E_STATE s)" using r(1) Some by (auto simp: op_commit_def parsed_def act_simps)
    moreover have "sim c ACommit s (snd (err c rid E_STATE s))"
      using outside_abs [OF False] by (intro sim_quiet wf seen_err) (simp add: effect_def Let_def)
    ultimately show ?thesis by (simp add: acts)
  next
    case True
    obtain b w where i: "in_tx c s b w" using wf True by (cases rule: tx_cases [of s c]) auto
    have p: "parse_empty pay = Some ()" using Some by simp
    note run = op_commit_run [OF wf a i p r]
    have idem: "(abs_server s)\<lparr>adb := od_get (glob s)\<rparr> = abs_server s" by (simp add: abs_server_def)
    have eff: "effect c ACommit (abs_server s) = set_sess c (\<lambda>x. x\<lparr>tx := None\<rparr>)
        (if conflicts c b s then abs_server s else (abs_server s)\<lparr>adb := committed c w s\<rparr>)"
      using in_tx_abs [OF i] by (auto simp: effect_def Let_def conflicts_def committed_def [abs_def] cong: if_cong)
    have "abs_server t = effect c ACommit (abs_server s)"
      unfolding eff using run idem by (cases "conflicts c b s") (simp_all only: if_True if_False)
    then show ?thesis using run by (simp add: acts sim_def)
  qed
qed

section \<open>Handlers, frames and events\<close>

lemma sim_dispatch:
  assumes wf: "wf_server s" and d: "dispatch c op rid pay s = (r, t)" "r = Inr () \<or> (\<exists>e. r = Inl e \<and> is_bad e)"
    and guard: "op = 1 \<or> op = 2 \<or> authed (obj s c)"
  shows "\<exists>act \<in> actions op pay. sim c act s t"
proof -
  have snd: "t = snd (dispatch c op rid pay s)" using d(1) by simp
  have none: "actions op pay = {ANothing}" if "op \<notin> {2, 3, 4, 5, 6, 7, 8, 9, 10, 11, 12, 16, 17, 18}"
    using that by (simp add: actions_def)
  consider "op = 2" | "op = 3" | "op = 4" | "op = 18" | "op = 5" | "op = 6" | "op = 17" | "op = 7" | "op = 8" | "op = 9" | "op = 10"
    | "op = 11" | "op = 12" | "op = 16" | "op \<notin> {2, 3, 4, 5, 6, 7, 8, 9, 10, 11, 12, 16, 17, 18}"
    by auto
  then show ?thesis
  proof cases
    case 1
    with sim_login [OF wf] show ?thesis by (simp add: snd dispatch_def)
  next
    case 2
    with sim_put [OF wf] show ?thesis by (simp add: snd dispatch_def)
  next
    case 3
    with sim_get(1) [OF wf] show ?thesis by (simp add: snd dispatch_def)
  next
    case 4
    with sim_get(2) [OF wf] show ?thesis by (simp add: snd dispatch_def)
  next
    case 5
    with sim_del [OF wf] show ?thesis by (simp add: snd dispatch_def)
  next
    case 6
    with sim_incr [OF wf] show ?thesis by (simp add: snd dispatch_def)
  next
    case 7
    with sim_expire [OF wf] show ?thesis by (simp add: snd dispatch_def)
  next
    case 8
    with sim_tick [OF wf] show ?thesis by (simp add: snd dispatch_def)
  next
    case 9
    with sim_begin [OF wf] guard show ?thesis by (simp add: snd dispatch_def)
  next
    case 10
    with d(1) have "op_commit c rid pay s = (r, t)" by (simp add: dispatch_def)
    from sim_commit [OF wf _ this d(2)] guard 10 show ?thesis by simp
  next
    case 11
    with sim_abort [OF wf] show ?thesis by (simp add: snd dispatch_def)
  next
    case 12
    with sim_watch [OF wf] show ?thesis by (simp add: snd dispatch_def)
  next
    case 13
    with sim_unwatch [OF wf] show ?thesis by (simp add: snd dispatch_def)
  next
    case 14
    with sim_mget [OF wf] show ?thesis by (simp add: snd dispatch_def)
  next
    case 15
    then have "sim c ANothing s t"
      using sim_silent [OF wf] sim_ping [OF wf] sim_idle [OF wf effect_nothing refl] by (simp add: snd dispatch_def retA_def)
    with none [OF 15] show ?thesis by simp
  qed
qed

lemma guard_chain:
  "\<not> (A \<or> B \<or> C \<or> D) \<Longrightarrow> (if A then a else if B then b else if C then x else if D then x else m) = m"
  "A \<or> B \<or> C \<or> D \<Longrightarrow> (if A then f e1 else if B then f e2 else if C then f e3 else if D then f e3 else m) \<in> range f"
  by auto

text \<open>A handled request is the specification's request: its effect when the role permits it, nothing otherwise.\<close>

lemma sim_handle:
  assumes g: "good s" and h: "handle c op rid pay s = (Inr (), t)"
  shows "wf_server t \<and> spec_request c (op, pay) (abs_server s) (abs_server t)"
proof -
  note wf = good_wf [OF g]
  let ?k = "obj s c" and ?l = "level (sessions (abs_server s) c)"
  have role: "authed ?k \<Longrightarrow> 1 \<le> role ?k" using wf_conn [OF wf, of c] by (simp add: conn_wf_def)
  have "sess_ok (clock s) (abs_sess ?k)" using g by (simp add: good_def spec_ok_def)
  then have top: "authed ?k \<Longrightarrow> role ?k \<le> 3" by (simp add: sess_ok_def)
  let ?A = "\<not> authed ?k \<and> op \<noteq> 1 \<and> op \<noteq> 2" and ?B = "op < 1 \<or> 18 < op"
    and ?C = "authed ?k \<and> role ?k = 1 \<and> ((op = 3 \<or> op = 5 \<or> op = 6 \<or> op = 17) \<or> op = 7)"
    and ?D = "authed ?k \<and> role ?k = 2 \<and> op = 7"
  let ?E = "catchA is_bad (dispatch c op rid pay) (\<lambda>_. err c rid E_BADARG)"
  have run: "handle c op rid pay s = (if ?A then err c rid E_NOAUTH else if ?B then err c rid E_UNKNOWN
      else if ?C then err c rid E_PERM else if ?D then err c rid E_PERM else ?E) s"
    unfolding handle_def run_withA Let_def ..
  show ?thesis
  proof (cases "?A \<or> ?B \<or> ?C \<or> ?D")
    case True
    from guard_chain(2) [OF this, of "err c rid" E_NOAUTH E_UNKNOWN E_PERM ?E]
    obtain e where "handle c op rid pay s = err c rid e s" unfolding run by (elim rangeE) (drule fun_cong, blast)
    with h have "seen t = seen s" using keepsA_D [OF seen_err, of c rid e s] by simp
    then have t: "wf_server t" "abs_server t = abs_server s" using wf by (simp_all add: seen_eq)
    have "\<not> permitted op ?l \<or> actions op pay = {ANothing}"
      using True by (auto simp: permitted_def actions_def)
    then show ?thesis using t by (auto simp: spec_request_def)
  next
    case False
    then have n: "\<not> ?A" "\<not> ?C" "\<not> ?D" by blast+
    have go: "?E s = (Inr (), t)"
      using h unfolding run guard_chain(1) [OF False] .
    have ge: "op = 1 \<or> op = 2 \<or> authed ?k" using n(1) by blast
    have perm: "permitted op ?l"
    proof (cases "authed ?k")
      case True
      then have "1 \<le> role ?k" "role ?k \<le> 3" using role top by simp_all
      with True n(2,3) show ?thesis by (auto simp: permitted_def)
    qed (use ge in \<open>auto simp: permitted_def\<close>)
    obtain r u where d: "dispatch c op rid pay s = (r, u)" by force
    have sim: "\<exists>act \<in> actions op pay. sim c act s u" if "r = Inr () \<or> (\<exists>e. r = Inl e \<and> is_bad e)"
      by (rule sim_dispatch [OF wf d that ge])
    have "\<exists>act \<in> actions op pay. sim c act s t"
    proof (cases r)
      case (Inl e)
      then have b: "is_bad e" and e: "err c rid E_BADARG u = (Inr (), t)"
        using go d by (auto simp: catchA_def split: if_splits)
      obtain act where a: "act \<in> actions op pay" "sim c act s u" using sim Inl b by blast
      from sim_after [OF seen_err a(2), of c rid E_BADARG] e a(1) show ?thesis by auto
    next
      case (Inr x)
      then show ?thesis using sim go d by (simp add: catchA_def)
    qed
    then show ?thesis using perm by (auto simp: spec_request_def sim_def)
  qed
qed

lemma handle_good: "good s \<Longrightarrow> handle c op rid pay s = (Inr (), t) \<Longrightarrow> good t"
  using sim_handle [of s c op rid pay t] spec_request_ok by (auto simp: good_def)

lemma seen_good: "seen t = seen s \<Longrightarrow> good s \<Longrightarrow> good t"
  by (simp add: good_def seen_eq)

text \<open>Draining a buffer serves the requests of its frames in order, all of them unless the connection is
  closed on the way.\<close>

definition served :: "nat \<Rightarrow> server \<Rightarrow> server \<Rightarrow> bool" where
  "served c s t \<longleftrightarrow> good t \<and> (\<exists>rs. prefix rs (frames_of (inbuf (obj s c)))
     \<and> (rs = frames_of (inbuf (obj s c)) \<or> closing (obj t c)) \<and> spec_requests c rs (abs_server s) (abs_server t))"

lemma served_none:
  assumes "good s" "seen t = seen s" "frames_of (inbuf (obj s c)) = [] \<or> closing (obj t c)"
  shows "served c s t"
proof -
  have "abs_server t = abs_server s" "good t" using assms(1,2) seen_good by (auto simp: seen_eq)
  then show ?thesis using assms(3) unfolding served_def by (intro conjI exI [of _ "[]"]) auto
qed

lemma drain_run: "drain c s = (Inr (), t) \<Longrightarrow> good s \<Longrightarrow> served c s t"
proof (induction c s rule: drain.induct)
  case (1 c s)
  show ?case
  proof (cases "may_drain c s")
    case False
    then have "t = s" using "1.prems"(1) by (subst (asm) drain.simps) simp
    with False "1.prems"(2) show ?thesis by (intro served_none) (auto simp: may_drain_def frames_of.simps)
  next
    case True
    then obtain go u where b: "drain_body c s = (Inr go, u)" and n: "if go then drain c u = (Inr (), t) else t = u"
      using "1.prems"(1) by (subst (asm) drain.simps) (auto split: prod.splits sum.splits if_splits)
    have len: "\<not> length (inbuf (obj s c)) < 10" using True by (simp add: may_drain_def)
    show ?thesis
    proof (cases "cut_frame (inbuf (obj s c))")
      case (Refuse rid e)
      have "keepsA seen (refuse c rid e)" unfolding refuse_def by (intro keeps_intros seen_set_conn; simp)
      then have "seen (snd (refuse c rid e s)) = seen s" by (rule keepsA_D)
      moreover have "\<not> go" using b Refuse by (auto simp: drain_body_cut refuse_def bindA_Inr act_run)
      moreover have "frames_of (inbuf (obj s c)) = []" using Refuse by (simp add: frames_of.simps)
      ultimately show ?thesis using b n Refuse "1.prems"(2) by (intro served_none) (simp_all add: drain_body_cut)
    next
      case Wait
      then have "frames_of (inbuf (obj s c)) = []" by (simp add: frames_of.simps)
      with Wait b n "1.prems"(2) show ?thesis by (intro served_none) (simp_all add: drain_body_cut)
    next
      case (Frame op rid pay r)
      let ?u = "s\<lparr>obj := (obj s)(c := (obj s c)\<lparr>inbuf := r\<rparr>)\<rparr>"
      have sv: "serve c op rid pay r s = (Inr go, u)" using b Frame by (simp add: drain_body_cut)
      then have h: "handle c op rid pay ?u = (Inr (), u)" and go: "go"
        by (auto simp: serve_def bindA_Inr act_run set_conn_def)
      have "seen ?u = seen s" using keepsA_D [OF seen_set_conn, of "\<lambda>k. k\<lparr>inbuf := r\<rparr>" c s]
        by (simp add: set_conn_def act_run)
      then have gu: "good ?u" "abs_server ?u = abs_server s" using "1.prems"(2) seen_good by (auto simp: seen_eq)
      have req: "spec_request c (op, pay) (abs_server s) (abs_server u)" using sim_handle [OF gu(1) h] gu(2) by simp
      have fr: "frames_of (inbuf (obj s c)) = (op, pay) # frames_of r" using Frame len by (simp add: frames_of.simps [of "inbuf (obj s c)"])
      have "served c u t" using "1.IH" [OF _ b [symmetric] refl go] True n go handle_good [OF gu(1) h] by simp
      then obtain rs where rs: "good t" "prefix rs (frames_of r)" "rs = frames_of r \<or> closing (obj t c)" "spec_requests c rs (abs_server u) (abs_server t)"
        unfolding served_def serve_inbuf [OF sv] by blast
      then show ?thesis using req unfolding served_def fr
        by (intro conjI exI [of _ "(op, pay) # rs"]) auto
    qed
  qed
qed

end
