(* ===== verification/Kvd_Frames.thy ===== *)
theory Kvd_Frames
  imports Kvd_Loop
begin

text \<open>
  The framing layer of the kvd server: the loop over the input buffer ends, and the split of a byte
  stream into reads does not matter. Both rest on a handler never looking at the input buffer, which is
  a commutation with changes of that buffer.
\<close>

section \<open>The loop returns\<close>

lemma drain_loop_is_drain: "drain_loop c s = Some (drain c s)"
proof (induction c s rule: drain.induct)
  case (1 c s)
  then show ?case
    by (subst drain_loop.simps, subst drain.simps) (simp split: prod.split sum.split)
qed

text \<open>What is left in the buffer when the loop stops: nothing it could go on with.\<close>

definition drained :: "nat \<Rightarrow> server \<Rightarrow> bool" where
  "drained c s \<longleftrightarrow> closing (obj s c) \<or> length (inbuf (obj s c)) < 10 \<or> cut_frame (inbuf (obj s c)) = Wait"

lemma keepsA_Inr: "keepsA f m \<Longrightarrow> m s = (r, t) \<Longrightarrow> f t = f s"
  using keepsA_D [of f m s] by simp

lemma cut_Frame_drop: "cut_frame h = Frame op rid pay r \<Longrightarrow> \<exists>n. r = drop n h"
  by (auto simp: cut_frame_def Let_def split: if_splits)

lemma drain_body_buffer:
  assumes "may_drain c s" and "drain_body c s = (r, t)"
  shows "\<exists>n. inbuf (obj t c) = drop n (inbuf (obj s c))"
    and "r = Inr False \<Longrightarrow> drained c t"
proof -
  have b: "(case cut_frame (inbuf (obj s c)) of
     Refuse rid e \<Rightarrow> refuse c rid e s | Wait \<Rightarrow> (Inr False, s) | Frame op rid pay q \<Rightarrow> serve c op rid pay q s) = (r, t)"
    using assms(2) by (simp add: drain_body_cut)
  have k: "keepsA inbufs (refuse c rid e)" for rid e
    unfolding refuse_def by (intro keeps_intros) (simp add: inbufs_def fun_eq_iff)
  have "(\<exists>n. inbuf (obj t c) = drop n (inbuf (obj s c))) \<and> (r = Inr False \<longrightarrow> drained c t)"
  proof (cases "cut_frame (inbuf (obj s c))")
    case (Refuse rid e)
    with b have m: "refuse c rid e s = (r, t)" by simp
    from keepsA_Inr [OF k m] have "inbuf (obj t c) = drop 0 (inbuf (obj s c))" by (simp add: inbufs_def fun_eq_iff)
    moreover have "r = Inr False \<longrightarrow> drained c t"
      using m by (auto simp: refuse_def bindA_Inr act_run set_conn_def drained_def)
    ultimately show ?thesis by blast
  next
    case Wait
    with b have "r = Inr False" "t = s" by simp_all
    then show ?thesis using Wait by (simp add: drained_def) (metis drop0)
  next
    case (Frame op rid pay q)
    with b have m: "serve c op rid pay q s = (r, t)" by simp
    have "keepsA inbufs (bindA (handle c op rid pay) (\<lambda>_. retA True))"
      by (intro keeps_intros inbufs_handle)
    from keepsA_D [OF this, of "s\<lparr>obj := (obj s)(c := (obj s c)\<lparr>inbuf := q\<rparr>)\<rparr>"]
    have "inbufs t = inbufs (s\<lparr>obj := (obj s)(c := (obj s c)\<lparr>inbuf := q\<rparr>)\<rparr>)"
      using m by (simp add: serve_def set_conn_def act_simps)
    then have "inbuf (obj t c) = q" by (auto simp: inbufs_def fun_eq_iff dest: spec [of _ c])
    moreover have "r \<noteq> Inr False" using m by (auto simp: serve_def bindA_Inr act_run)
    moreover obtain n where "q = drop n (inbuf (obj s c))" using cut_Frame_drop [OF Frame] by blast
    ultimately show ?thesis by blast
  qed
  then show "\<exists>n. inbuf (obj t c) = drop n (inbuf (obj s c))" "r = Inr False \<Longrightarrow> drained c t"
    by blast+
qed

lemma drain_result:
  "drain c s = (r, t) \<Longrightarrow>
     (\<exists>n. inbuf (obj t c) = drop n (inbuf (obj s c))) \<and> ((\<exists>e. r = Inl e) \<or> drained c t)"
proof (induction c s arbitrary: r t rule: drain.induct)
  case (1 c s)
  show ?case
  proof (cases "may_drain c s")
    case False
    then show ?thesis using "1.prems"
      by (subst (asm) drain.simps) (auto simp: drained_def may_drain_def intro: exI [of _ 0])
  next
    case True
    obtain q u where b: "drain_body c s = (q, u)" by force
    note eq = "1.prems" [unfolded drain.simps [of c s], simplified, unfolded b, simplified]
    note buf = drain_body_buffer [OF True b]
    show ?thesis
    proof (cases q)
      case (Inl e)
      then show ?thesis using eq True buf(1) by auto
    next
      case (Inr go)
      show ?thesis
      proof (cases go)
        case False
        then show ?thesis using eq True buf Inr by simp
      next
        case go: True
        with Inr True eq have "drain c u = (r, t)" by simp
        from "1.IH" [OF _ b [symmetric] Inr go this] True obtain n
          where "inbuf (obj t c) = drop n (inbuf (obj u c))" "(\<exists>e. r = Inl e) \<or> drained c t" by auto
        with buf(1) show ?thesis by auto
      qed
    qed
  qed
qed

section \<open>Steps that do not look at the input buffer\<close>

definition commA :: "('s \<Rightarrow> 's) \<Rightarrow> ('s, 'a) act \<Rightarrow> bool" where
  "commA f m \<longleftrightarrow> (\<forall>s. m (f s) = apsnd f (m s))"

named_theorems comm_intros \<open>closure rules of commA\<close>

lemma commA_D: "commA f m \<Longrightarrow> m (f s) = apsnd f (m s)"
  by (simp add: commA_def)

lemma commA_base [comm_intros]: "commA f (retA x)" "commA f (raiseA e)"
  "(\<And>s. h (f s) = h s) \<Longrightarrow> commA f (liftA h)" "(\<And>s. g (f s) = f (g s)) \<Longrightarrow> commA f (modA g)"
  by (simp_all add: commA_def act_run)

lemma commA_bindA [comm_intros]:
  assumes "commA f m" and "\<And>x. commA f (k x)" shows "commA f (bindA m k)"
proof -
  have "bindA m k (f s) = apsnd f (bindA m k s)" for s
    using assms(1) [THEN commA_D, of s] assms(2) [THEN commA_D]
    by (cases "m s") (simp add: bindA_run split: sum.split)
  then show ?thesis by (simp add: commA_def)
qed

lemma commA_withA [comm_intros]:
  "(\<And>s. k (f s) = k s) \<Longrightarrow> (\<And>s. commA f (k s)) \<Longrightarrow> commA f (withA k)"
  by (simp add: commA_def act_run)

lemma commA_cases [comm_intros]:
  "commA f a \<Longrightarrow> commA f b \<Longrightarrow> commA f (if c then a else b)"
  "commA f a \<Longrightarrow> (\<And>x. commA f (g x)) \<Longrightarrow> commA f (case y of None \<Rightarrow> a | Some x \<Rightarrow> g x)"
  "(\<And>x z. commA f (h x z)) \<Longrightarrow> commA f (case w of (x, z) \<Rightarrow> h x z)"
  "(\<And>x. commA f (t x)) \<Longrightarrow> commA f (let x = e in t x)"
  by (auto split: option.split prod.split)

lemma commA_catch [comm_intros]:
  assumes "commA f m" and "\<And>e. commA f (h e)" shows "commA f (catchA P m h)"
proof -
  have "catchA P m h (f s) = apsnd f (catchA P m h s)" for s
    using assms(1) [THEN commA_D, of s] assms(2) [THEN commA_D]
    by (cases "m s") (simp add: catchA_def split: sum.split)
  then show ?thesis by (simp add: commA_def)
qed

lemma commA_mapA [comm_intros]: "(\<And>x. commA f (g x)) \<Longrightarrow> commA f (mapA g xs)"
  by (induction xs) (auto intro!: comm_intros)

lemma commA_eachA [comm_intros]: "(\<And>x. commA f (g x)) \<Longrightarrow> commA f (eachA g xs)"
  by (induction xs) (auto intro!: comm_intros)

definition put_buf :: "nat \<Rightarrow> octets \<Rightarrow> server \<Rightarrow> server" where
  "put_buf c b s = s\<lparr>obj := (obj s)(c := (obj s c)\<lparr>inbuf := b\<rparr>)\<rparr>"

lemma put_buf_fields [simp]:
  "seed (put_buf c b s) = seed s" "clock (put_buf c b s) = clock s" "glob (put_buf c b s) = glob s"
  "conns (put_buf c b s) = conns s" "accepted (put_buf c b s) = accepted s"
  "authed (obj (put_buf c b s) i) = authed (obj s i)" "role (obj (put_buf c b s) i) = role (obj s i)"
  "fails (obj (put_buf c b s) i) = fails (obj s i)" "closing (obj (put_buf c b s) i) = closing (obj s i)"
  "intx (obj (put_buf c b s) i) = intx (obj s i)" "watch (obj (put_buf c b s) i) = watch (obj s i)"
  "tx_base (obj (put_buf c b s) i) = tx_base (obj s i)" "tx_work (obj (put_buf c b s) i) = tx_work (obj s i)"
  "touched (obj (put_buf c b s) i) = touched (obj s i)" "broken (obj (put_buf c b s) i) = broken (obj s i)"
  "sent (obj (put_buf c b s) i) = sent (obj s i)"
  "inbuf (obj (put_buf c b s) i) = (if i = c then b else inbuf (obj s i))"
  by (simp_all add: put_buf_def)

lemma put_buf_put_buf [simp]: "put_buf c b (put_buf c b' s) = put_buf c b s"
  by (simp add: put_buf_def)

lemma put_buf_same: "inbuf (obj s c) = b \<Longrightarrow> put_buf c b s = s"
  by (auto simp: put_buf_def)

lemma comm_set_conn [comm_intros]:
  "(\<And>k b. g (k\<lparr>inbuf := b\<rparr>) = (g k)\<lparr>inbuf := b\<rparr>) \<Longrightarrow> commA (put_buf c b) (set_conn i g)"
  unfolding set_conn_def by (intro comm_intros) (auto simp: put_buf_def fun_upd_twist)

lemma comm_glob [comm_intros]:
  "(\<And>s. f (put_buf c b s) = f s) \<Longrightarrow> commA (put_buf c b) (modA (\<lambda>s. s\<lparr>glob := f s\<rparr>))"
  "(\<And>s. g (put_buf c b s) = g s) \<Longrightarrow> commA (put_buf c b) (modA (\<lambda>s. s\<lparr>clock := g s\<rparr>))"
  by (rule comm_intros, simp add: put_buf_def)+

lemma put_buf_nonce [simp]: "nonce_of (put_buf c b s) = nonce_of s"
  by (simp add: nonce_of_def fun_eq_iff)

lemma put_buf_reads [simp]:
  "entry_record (put_buf c b s) = entry_record s"
  "login_ok (put_buf c b s) = login_ok s" "expiry (put_buf c b s) = expiry s"
  by (simp_all add: entry_record_def login_ok_def expiry_def fun_eq_iff split: option.split)

lemma comm_send [comm_intros]: "commA (put_buf c b) (send i t r p)"
  unfolding send_def by (intro comm_intros; simp)

lemma comm_err [comm_intros]: "commA (put_buf c b) (err i r e)"
  unfolding err_def by (intro comm_intros; simp)

lemma comm_notify [comm_intros]: "commA (put_buf c b) (notify i ev k)"
  unfolding notify_def notify_one_def Let_def by (intro comm_intros; simp)

lemma comm_parsed [comm_intros]: "commA f (parsed x)"
  unfolding parsed_def by (intro comm_intros; simp)

lemma comm_stores [comm_intros]:
  "commA (put_buf c b) (use_store i)" "commA (put_buf c b) (set_store i d)" "commA (put_buf c b) (tx_stores i)"
  unfolding use_store_def set_store_def tx_stores_def by (intro comm_intros; simp)+

lemma comm_touch [comm_intros]:
  "commA (put_buf c b) (touch i k)" "commA (put_buf c b) (touch_intx i k)"
  "commA (put_buf c b) (touch_or_notify i ev k)" "commA (put_buf c b) (notify_outside i ev k)"
  unfolding touch_def touch_intx_def touch_or_notify_def notify_outside_def by (intro comm_intros; simp)+

lemma comm_mget [comm_intros]: "commA (put_buf c b) (mget_loop i rid n r out)"
proof (induction n arbitrary: r out)
  case 0
  show ?case by (simp add: commA_base)
next
  case (Suc n)
  then show ?case unfolding mget_loop.simps Let_def by (intro comm_intros; simp split: option.split)
qed

lemma comm_ops [comm_intros]:
  "commA (put_buf c b) (op_ping i rid pay)" "commA (put_buf c b) (op_login i rid pay)"
  "commA (put_buf c b) (op_put i rid pay)" "commA (put_buf c b) (op_get i rid pay)"
  "commA (put_buf c b) (op_del i rid pay)" "commA (put_buf c b) (op_ttl i rid pay)"
  "commA (put_buf c b) (op_incr i rid pay)" "commA (put_buf c b) (op_begin i rid pay)"
  "commA (put_buf c b) (op_abort i rid pay)" "commA (put_buf c b) (op_watch i rid pay)"
  "commA (put_buf c b) (op_unwatch i rid pay)" "commA (put_buf c b) (op_list i rid pay)"
  "commA (put_buf c b) (op_stat i rid pay)" "commA (put_buf c b) (op_quit i rid pay)"
  "commA (put_buf c b) (op_mget i rid pay)" "commA (put_buf c b) (op_expire i rid pay)"
  "commA (put_buf c b) (op_tick i rid pay)"
  unfolding op_defs Let_def by (intro comm_intros; simp)+

lemma comm_commit_key [comm_intros]: "commA (put_buf c b) (commit_key i x w k)"
  unfolding commit_key_def Let_def by (intro comm_intros; simp)

lemma comm_commit [comm_intros]: "commA (put_buf c b) (op_commit i rid pay)"
  unfolding op_commit_def by (intro comm_intros; simp cong: if_cong)

lemma comm_handle [comm_intros]: "commA (put_buf c b) (handle i op rid pay)"
  unfolding handle_def dispatch_def Let_def by (intro comm_intros; simp only: put_buf_fields cong: if_cong)

section \<open>Splitting the stream\<close>

text \<open>More input behind the buffer: the loop first does what it does without it.\<close>

definition with_more :: "nat \<Rightarrow> octets \<Rightarrow> server \<Rightarrow> server" where
  "with_more c d s = put_buf c (inbuf (obj s c) @ d) s"

lemma cut_append:
  "10 \<le> length h \<Longrightarrow> cut_frame h \<noteq> Wait \<Longrightarrow> cut_frame (h @ d) = (case cut_frame h of
     Refuse rid e \<Rightarrow> Refuse rid e | Wait \<Rightarrow> Wait | Frame op rid pay r \<Rightarrow> Frame op rid pay (r @ d))"
  by (auto simp: cut_frame_def Let_def nth_append split: if_splits)

lemma refuse_more: "refuse c rid e (with_more c d s) = apsnd (with_more c d) (refuse c rid e s)"
proof -
  have "commA (put_buf c b) (refuse c rid e)" for b unfolding refuse_def by (intro comm_intros; simp)
  moreover have "keepsA inbufs (refuse c rid e)"
    unfolding refuse_def by (intro keeps_intros) (simp add: inbufs_def fun_eq_iff)
  ultimately show ?thesis
    using keepsA_D [of inbufs "refuse c rid e" s] commA_D [of "put_buf c (inbuf (obj s c) @ d)" "refuse c rid e" s]
    by (cases "refuse c rid e s") (simp add: with_more_def inbufs_def fun_eq_iff)
qed

lemma serve_more: "serve c op rid pay (r @ d) (with_more c d s) = apsnd (with_more c d) (serve c op rid pay r s)"
proof -
  let ?m = "bindA (handle c op rid pay) (\<lambda>_. retA True)"
  have eq: "serve c op rid pay q u = ?m (put_buf c q u)" for q u
    by (simp add: serve_def set_conn_def put_buf_def bindA_run act_run)
  have "commA (put_buf c b) ?m" for b by (intro comm_intros)
  then have "?m (put_buf c (r @ d) s) = apsnd (put_buf c (r @ d)) (?m (put_buf c r s))"
    using commA_D [of "put_buf c (r @ d)" ?m "put_buf c r s"] by simp
  moreover have "keepsA inbufs ?m" by (intro keeps_intros inbufs_handle)
  then have "inbuf (obj (snd (?m (put_buf c r s))) c) = r"
    using keepsA_D [of inbufs ?m "put_buf c r s"] by (simp add: inbufs_def fun_eq_iff)
  ultimately show ?thesis by (cases "?m (put_buf c r s)") (simp add: eq with_more_def)
qed

lemma drain_closing: "closing (obj s c) \<Longrightarrow> drain c s = (Inr (), s)"
  by (subst drain.simps) (simp add: may_drain_def)

lemma drain_body_more:
  assumes "may_drain c s" and "cut_frame (inbuf (obj s c)) \<noteq> Wait"
  shows "drain_body c (with_more c d s) = apsnd (with_more c d) (drain_body c s)"
proof -
  have "cut_frame (inbuf (obj s c) @ d) = (case cut_frame (inbuf (obj s c)) of
     Refuse rid e \<Rightarrow> Refuse rid e | Wait \<Rightarrow> Wait | Frame op rid pay r \<Rightarrow> Frame op rid pay (r @ d))"
    using assms by (intro cut_append) (simp_all add: may_drain_def)
  moreover have "inbuf (obj (with_more c d s) c) = inbuf (obj s c) @ d" by (simp add: with_more_def)
  ultimately show ?thesis
    using assms(2) by (simp add: drain_body_cut refuse_more serve_more split: frame_cut.split)
qed

lemma drain_body_stop:
  "drain_body c s = (Inr False, t) \<Longrightarrow> cut_frame (inbuf (obj s c)) = Wait \<and> t = s \<or> closing (obj t c)"
  by (auto simp: drain_body_cut refuse_def serve_def bindA_Inr act_run set_conn_def split: frame_cut.splits)

lemma drain_more:
  "case drain c s of (r, t) \<Rightarrow> (case r of Inr u \<Rightarrow> drain c (with_more c d s) = drain c (with_more c d t)
                                     | Inl e \<Rightarrow> fst (drain c (with_more c d s)) = Inl e)"
proof (induction c s rule: drain.induct)
  case (1 c s)
  obtain q u where b: "drain_body c s = (q, u)" by force
  show ?case
  proof (cases "may_drain c s \<and> cut_frame (inbuf (obj s c)) \<noteq> Wait")
    case False
    then have "drain c s = (Inr (), s)" by (subst drain.simps) (auto simp: drain_body_cut)
    then show ?thesis by simp
  next
    case True
    then have m: "may_drain c (with_more c d s)" by (simp add: may_drain_def with_more_def)
    have b': "drain_body c (with_more c d s) = (q, with_more c d u)"
      using drain_body_more [of c s d] True b by simp
    show ?thesis
    proof (cases q)
      case (Inl e)
      then show ?thesis using True m b b' by (subst drain.simps, subst (2) drain.simps) simp
    next
      case (Inr go)
      show ?thesis
      proof (cases go)
        case False
        with Inr b True have "closing (obj u c)" using drain_body_stop [of c s u] by simp
        then have "drain c (with_more c d u) = (Inr (), with_more c d u)" by (simp add: drain_closing with_more_def)
        moreover have "drain c s = (Inr (), u)" using True b Inr False by (subst drain.simps) simp
        moreover have "drain c (with_more c d s) = (Inr (), with_more c d u)"
          using m b' Inr False by (subst drain.simps) simp
        ultimately show ?thesis by simp
      next
        case go: True
        then have "drain c s = drain c u" using True b Inr by (subst drain.simps) simp
        moreover have "drain c (with_more c d s) = drain c (with_more c d u)"
          using m b' Inr go by (subst drain.simps) simp
        ultimately show ?thesis using "1.IH" [OF _ b [symmetric] Inr go] True by (simp split: prod.splits sum.splits)
      qed
    qed
  qed
qed

lemma keeps_conns_handle: "keepsA conns (handle c op rid pay)"
proof -
  have [keeps_intros]: "keepsA conns (send i t r p)" for i t r p
    unfolding send_def by (intro keeps_intros) simp_all
  have [keeps_intros]: "keepsA conns (err i r e)" for i r e unfolding err_def by (intro keeps_intros)
  have [keeps_intros]: "keepsA conns (notify i ev k)" for i ev k
    unfolding notify_def notify_one_def Let_def by (intro keeps_intros)
  have [keeps_intros]: "keepsA conns (touch i k)" "keepsA conns (set_store i d)" for i k d
    unfolding touch_def set_store_def by (intro keeps_intros; simp)+
  have [keeps_intros]: "keepsA conns (mget_loop i r n p out)" for i r n p out
    by (induction n arbitrary: p out) (auto simp: Let_def touch_intx_def intro!: keeps_intros)
  show ?thesis
    unfolding handle_def dispatch_def op_defs commit_key_def tx_stores_def touch_intx_def touch_or_notify_def
      notify_outside_def Let_def by (intro keeps_intros; simp)
qed

lemma conns_drain: "conns (snd (drain c s)) = conns s"
proof (induction c s rule: drain.induct)
  case (1 c s)
  have "keepsA conns (refuse c rid e)" "keepsA conns (serve c op rid pay r)" for rid e op pay r
    unfolding refuse_def serve_def err_def send_def by (intro keeps_intros keeps_conns_handle; simp)+
  then have "conns (snd (drain_body c s)) = conns s"
    by (simp add: drain_body_cut keepsA_D split: frame_cut.split)
  with 1 show ?case
    by (cases "drain_body c s") (subst drain.simps, auto split: sum.split)
qed

lemma receive_split:
  "receive c (d1 @ d2) s = (Inr (), t) \<longleftrightarrow> bindA (receive c d1) (\<lambda>_. receive c d2) s = (Inr (), t)"
  "fst (receive c (d1 @ d2) s) = fst (bindA (receive c d1) (\<lambda>_. receive c d2) s)"
proof -
  have all: "(receive c (d1 @ d2) s = (Inr (), t) \<longleftrightarrow> bindA (receive c d1) (\<lambda>_. receive c d2) s = (Inr (), t))
           \<and> fst (receive c (d1 @ d2) s) = fst (bindA (receive c d1) (\<lambda>_. receive c d2) s)"
  proof (cases "closing (obj s c)")
    case True
    then show ?thesis by (simp add: receive_def act_simps)
  next
    case False
    define fin :: "unit step" where
      "fin = withA (\<lambda>s. if closing (obj s c) then set_conn c (\<lambda>k. k\<lparr>inbuf := []\<rparr>) else retA ())"
    have rec: "receive c d u = (if closing (obj u c) then (Inr (), u) else bindA (drain c) (\<lambda>_. fin) (with_more c d u))" for d u
      by (simp add: receive_def act_simps set_conn_def with_more_def put_buf_def fin_def)
    have fin: "fin u = (Inr (), if closing (obj u c) then put_buf c [] u else u)" for u
      by (simp add: fin_def act_run set_conn_def put_buf_def)
    define u where "u = with_more c d1 s"
    have u: "with_more c (d1 @ d2) s = with_more c d2 u" by (simp add: u_def with_more_def)
    obtain q v where d: "drain c u = (q, v)" by force
    note df = drain_more [of c d2 u, unfolded d, simplified]
    show ?thesis
    proof (cases q)
      case (Inl e)
      then have "fst (drain c (with_more c d2 u)) = Inl e" using df by simp
      then show ?thesis using False Inl d
        by (cases "drain c (with_more c d2 u)") (simp add: rec bindA_run u flip: u_def)
    next
      case (Inr x)
      then have e: "drain c (with_more c d2 u) = drain c (with_more c d2 v)" using df by simp
      show ?thesis
      proof (cases "closing (obj v c)")
        case True
        then have "drain c (with_more c d2 v) = (Inr (), with_more c d2 v)" by (simp add: drain_closing with_more_def)
        then show ?thesis using False Inr d e True
          by (simp add: rec bindA_run u fin flip: u_def) (simp add: with_more_def)
      next
        case nc: False
        then show ?thesis using False Inr d e
          by (simp add: rec [of "d1 @ d2"] rec [of d1] bindA_run u fin flip: u_def) (simp add: rec bindA_run)
      qed
    qed
  qed
  then show "receive c (d1 @ d2) s = (Inr (), t) \<longleftrightarrow> bindA (receive c d1) (\<lambda>_. receive c d2) s = (Inr (), t)"
    and "fst (receive c (d1 @ d2) s) = fst (bindA (receive c d1) (\<lambda>_. receive c d2) s)" by simp_all
qed

text \<open>The same for the event loop: a stream read in any pieces is the stream read at once.\<close>

definition same_run :: "(unit res \<times> server) \<Rightarrow> (unit res \<times> server) \<Rightarrow> bool" where
  "same_run a b \<longleftrightarrow> fst a = fst b \<and> (fst a = Inr () \<longrightarrow> snd a = snd b)"

lemma same_run_refl [simp]: "same_run a a"
  by (simp add: same_run_def)

lemma same_run_trans: "same_run a b \<Longrightarrow> same_run b x \<Longrightarrow> same_run a x"
  by (simp add: same_run_def)

lemma same_run_sym: "same_run a b \<Longrightarrow> same_run b a"
  by (auto simp: same_run_def)

lemma conns_receive: "receive c d s = (r, t) \<Longrightarrow> conns t = conns s"
proof -
  assume "receive c d s = (r, t)"
  moreover have "conns (snd (receive c d s)) = conns s"
    using conns_drain [of c "with_more c d s"]
    by (cases "drain c (with_more c d s)")
       (simp add: receive_def act_simps set_conn_def with_more_def put_buf_def split: sum.split)
  ultimately show ?thesis by simp
qed

lemma receive_same_run: "same_run (receive c (d1 @ d2) s) (bindA (receive c d1) (\<lambda>_. receive c d2) s)"
  using receive_split [of c d1 d2 s]
  by (cases "receive c (d1 @ d2) s"; cases "bindA (receive c d1) (\<lambda>_. receive c d2) s") (auto simp: same_run_def)

lemma reads_same_run:
  assumes "c \<in> set (conns s)" and "d \<noteq> []" and "[] \<notin> set ds"
  shows "same_run (eachA event_step (map (Recv c) (d # ds)) s) (receive c (concat (d # ds)) s)"
  using assms
proof (induction ds arbitrary: d s)
  case Nil
  then show ?case by (cases "receive c d s") (simp add: bindA_run act_run same_run_def split: sum.split)
next
  case (Cons d' ds)
  let ?k = "\<lambda>_. eachA event_step (map (Recv c) (d' # ds))"
  obtain q v where r: "receive c d s = (q, v)" by force
  have 1: "same_run (bindA (receive c d) ?k s) (bindA (receive c d) (\<lambda>_. receive c (concat (d' # ds))) s)"
  proof (cases q)
    case (Inr x)
    have "same_run (eachA event_step (map (Recv c) (d' # ds)) v) (receive c (concat (d' # ds)) v)"
      using Cons.prems conns_receive [OF r] by (intro Cons.IH) auto
    then show ?thesis using r Inr by (simp only: bindA_run) simp
  qed (simp add: bindA_run r)
  have 2: "same_run (bindA (receive c d) (\<lambda>_. receive c (concat (d' # ds))) s) (receive c (concat (d # d' # ds)) s)"
    using receive_same_run [of c d "concat (d' # ds)" s] by (simp add: same_run_sym)
  have 3: "eachA event_step (map (Recv c) (d # d' # ds)) s = bindA (receive c d) ?k s"
  proof -
    have "event_step (Recv c d) s = receive c d s" using Cons.prems by (simp add: act_run)
    then show ?thesis by (simp only: list.map eachA.simps(2) bindA_def)
  qed
  show ?case unfolding 3 by (rule same_run_trans [OF 1 2])
qed

section \<open>Properties\<close>

text \<open>The framing loop returns on every buffer: it stops with an exception, with the connection
  closing, or with less than one whole frame left, and it only drops bytes from the front.\<close>

lemma drain_loop_returns:
  "\<exists>r t n. drain_loop c s = Some (r, t) \<and> inbuf (obj t c) = drop n (inbuf (obj s c))
     \<and> ((\<exists>e. r = Inl e) \<or> drained c t)"
proof -
  obtain r t where d: "drain c s = (r, t)" by force
  from drain_result [OF d] d show ?thesis by (auto simp: drain_loop_is_drain)
qed

text \<open>C27. How a connection's byte stream is cut into reads does not matter: two runs of nonempty reads with
  the same concatenation raise alike, and if they do not raise they leave the same server, replies
  and notifications of all connections included.\<close>

theorem any_split_of_the_stream:
  assumes "concat ds = concat ds'" and "[] \<notin> set ds" and "[] \<notin> set ds'"
  shows "same_run (eachA event_step (map (Recv c) ds) s) (eachA event_step (map (Recv c) ds') s)"
proof (cases "c \<in> set (conns s) \<and> ds \<noteq> []")
  case True
  then obtain d es d' es' where e: "ds = d # es" "ds' = d' # es'"
    using assms by (cases ds; cases ds') auto
  have 1: "same_run (eachA event_step (map (Recv c) ds) s) (receive c (concat ds) s)"
    unfolding e(1) by (rule reads_same_run) (use assms True e in auto)
  have "same_run (eachA event_step (map (Recv c) ds') s) (receive c (concat ds') s)"
    unfolding e(2) by (rule reads_same_run) (use assms True e in auto)
  from same_run_sym [OF this] have 2: "same_run (receive c (concat ds) s) (eachA event_step (map (Recv c) ds') s)"
    unfolding assms(1) .
  show ?thesis by (rule same_run_trans [OF 1 2])
next
  case False
  show ?thesis
  proof (cases "ds = []")
    case True
    with assms have "ds' = []" by (cases ds') auto
    with True show ?thesis by simp
  next
    case ne: False
    with assms have "ds' \<noteq> []" by (cases ds) auto
    then show ?thesis using False ne by (cases ds; cases ds') (auto simp: bindA_run act_run)
  qed
qed

theorem any_split_of_the_stream_witness:
  "same_run
     (eachA event_step (map (Recv 1) [[75], [86, 2, 1, 7, 0, 0], [0, 2, 0, 5], [6]]) (snd (accept_conn (new_server 7))))
     (eachA event_step (map (Recv 1) [[75, 86, 2, 1, 7, 0, 0, 0, 2, 0, 5, 6]]) (snd (accept_conn (new_server 7))))"
  by (rule any_split_of_the_stream) simp_all

end
