(* ===== verification/Kvd_Thms.thy ===== *)
theory Kvd_Thms
  imports Kvd_Sim Kvd_Frames
begin

text \<open>
  The properties of the kvd server: it refines its specification, its stores stay typed, read-only
  connections change nothing, a commit is atomic, what a connection puts it gets back, and a read
  raises exactly on an entry that outlived its expiry inside a transaction.
\<close>

section \<open>Simulation\<close>

text \<open>A concrete system whose steps are sequences of abstract steps while an invariant holds.\<close>

locale simulation =
  fixes cstep :: "'s \<Rightarrow> 's \<Rightarrow> bool"
    and astep :: "'a \<Rightarrow> 'a \<Rightarrow> bool"
    and abstr :: "'s \<Rightarrow> 'a"
    and inv :: "'s \<Rightarrow> bool"
  assumes step_inv: "inv s \<Longrightarrow> cstep s t \<Longrightarrow> inv t"
    and step_sim: "inv s \<Longrightarrow> cstep s t \<Longrightarrow> astep\<^sup>*\<^sup>* (abstr s) (abstr t)"
begin

lemma run_inv: "cstep\<^sup>*\<^sup>* s t \<Longrightarrow> inv s \<Longrightarrow> inv t"
  by (induction rule: rtranclp_induct) (auto intro: step_inv)

lemma run_sim: "cstep\<^sup>*\<^sup>* s t \<Longrightarrow> inv s \<Longrightarrow> astep\<^sup>*\<^sup>* (abstr s) (abstr t)"
  by (induction rule: rtranclp_induct) (auto intro: step_sim run_inv rtranclp_trans)

end

definition event_next :: "server \<Rightarrow> server \<Rightarrow> bool" where
  "event_next s t \<longleftrightarrow> (\<exists>ev. event_step ev s = (Inr (), t))"

lemma good_new: "good (new_server sd)"
proof -
  have "sess_ok 0 (abs_sess new_conn)" by (simp add: sess_ok_def abs_tx_def) (simp add: new_conn_def)
  then show ?thesis
    by (simp add: good_def wf_server_def spec_ok_def new_server_def conn_wf_def od_ok_def db_ok_def)
       (simp add: new_conn_def)
qed

lemma receive_run:
  assumes g: "good s" and r: "receive c d s = (Inr (), t)"
  shows "good t \<and> (\<exists>rs. prefix rs (frames_of (inbuf (obj s c) @ d))
     \<and> (rs = frames_of (inbuf (obj s c) @ d) \<or> closing (obj t c)) \<and> spec_requests c rs (abs_server s) (abs_server t))"
proof (cases "closing (obj s c)")
  case True
  with r have "t = s" by (simp add: receive_def act_run)
  with g True show ?thesis by (intro conjI exI [of _ "[]"]) auto
next
  case False
  let ?u = "s\<lparr>obj := (obj s)(c := (obj s c)\<lparr>inbuf := inbuf (obj s c) @ d\<rparr>)\<rparr>"
  have q: "seen (snd (set_conn c (\<lambda>k. k\<lparr>inbuf := f k\<rparr>) v)) = seen v" for f v
    by (rule keepsA_D [OF seen_set_conn]) (simp_all add: abs_sess_def abs_tx_def conn_wf_def split: option.split)
  have u: "seen ?u = seen s" using q [of "\<lambda>k. inbuf k @ d" s] by (simp add: set_conn_def act_run)
  let ?F = "\<lambda>v. if closing (obj v c) then set_conn c (\<lambda>k. k\<lparr>inbuf := []\<rparr>) else retA ()"
  have "bindA (drain c) (\<lambda>_. withA ?F) ?u = (Inr (), t)"
    using r False by (simp add: receive_def run_withA run_set_conn)
  then obtain v where v: "drain c ?u = (Inr (), v)" and f: "?F v v = (Inr (), t)"
    unfolding bindA_Inr run_withA by auto
  have t: "t = (if closing (obj v c) then snd (set_conn c (\<lambda>k. k\<lparr>inbuf := []\<rparr>) v) else v)"
    using f by (cases "closing (obj v c)") (simp_all add: retA_def)
  have "served c ?u v" by (rule drain_run [OF v seen_good [OF u g]])
  moreover have "seen t = seen v" using t q [of "\<lambda>k. []" v] by simp
  moreover have "closing (obj t c) = closing (obj v c)" using t by (auto simp: set_conn_def modA_def)
  moreover have "inbuf (obj ?u c) = inbuf (obj s c) @ d" by simp
  ultimately show ?thesis using u unfolding served_def by (auto simp: seen_eq good_def)
qed

lemma accept_run:
  assumes g: "good s" and r: "accept_conn s = (Inr (), t)"
  shows "wf_server t \<and> spec_step Join (abs_server s) (abs_server t)"
proof -
  let ?c = "accepted s + 1"
  let ?u = "s\<lparr>accepted := ?c, conns := (if ?c \<in> set (conns s) then conns s else conns s @ [?c]),
             obj := (obj s)(?c := new_conn)\<rparr>"
  have "\<exists>pay. send ?c 0x80 0 pay ?u = (Inr (), t)"
    using r by (simp add: accept_conn_def act_run bindA_def modA_def withA_def Let_def split del: if_split cong: if_cong) blast
  then have t: "seen t = seen ?u" using keepsA_Inr [OF seen_send] by blast
  have n: "abs_sess new_conn = new_sess" by (simp add: abs_sess_def abs_tx_def new_conn_def new_sess_def)
  have a: "spec_step Join (abs_server s) (abs_server ?u)" by (auto simp: abs_server_def fun_eq_iff n)
  have "conn_wf new_conn" by (simp add: conn_wf_def new_conn_def)
  with g have w: "wf_server ?u" by (simp add: good_def wf_server_def)
  show ?thesis using t w a by (simp add: seen_eq)
qed

text \<open>What an event is for the abstract server: the arrival of the next connection, the departure of a
  connection, or requests of the connection that was heard, namely those its buffer holds, in order, and
  all of them unless the server closed the connection on the way.\<close>

definition event_label :: "server \<Rightarrow> event \<Rightarrow> server \<Rightarrow> aevent \<Rightarrow> bool" where
  "event_label s ev t l = (case ev of
     Accept \<Rightarrow> l = Join
   | Recv c d \<Rightarrow> if d = [] then l = Leave c
       else let fs = frames_of (inbuf (obj s c) @ d) in
         \<exists>rs. l = Serve c rs \<and> prefix rs fs \<and> (rs = fs \<or> closing (obj t c))
   | Hangup c \<Rightarrow> l = Leave c
   | Broken c \<Rightarrow> l = Pass)"

lemma forget_run:
  assumes "wf_server s" and "c \<in> set (conns s)"
  shows "wf_server (s\<lparr>conns := remove1 c (conns s)\<rparr>)"
    and "spec_step (Leave c) (abs_server s) (abs_server (s\<lparr>conns := remove1 c (conns s)\<rparr>))"
  using assms by (auto simp: wf_server_def abs_server_def set_remove1_eq)

lemma event_run:
  assumes g: "good s" and e: "event_step ev s = (Inr (), t)"
  shows "wf_server t \<and> (\<exists>l. event_label s ev t l \<and> spec_step l (abs_server s) (abs_server t))"
proof (cases ev)
  case Accept
  with accept_run [OF g, of t] e show ?thesis by (simp add: event_label_def)
next
  case (Recv c d)
  show ?thesis
  proof (cases "d = []")
    case True
    then have "c \<in> set (conns s)" "t = s\<lparr>conns := remove1 c (conns s)\<rparr>"
      using e Recv by (auto simp: act_run forget_conn_def split: if_splits)
    with forget_run [OF good_wf [OF g]] True Recv show ?thesis by (simp add: event_label_def)
  next
    case False
    then have c: "c \<in> set (conns s)" and r: "receive c d s = (Inr (), t)"
      using e Recv by (auto simp: act_run split: if_splits)
    from receive_run [OF g r] obtain rs where "good t" "prefix rs (frames_of (inbuf (obj s c) @ d))"
      "rs = frames_of (inbuf (obj s c) @ d) \<or> closing (obj t c)" "spec_requests c rs (abs_server s) (abs_server t)" by blast
    then show ?thesis using c False Recv
      by (intro conjI exI [of _ "Serve c rs"]) (simp_all add: event_label_def good_wf)
  qed
next
  case (Hangup c)
  then have "c \<in> set (conns s)" "t = s\<lparr>conns := remove1 c (conns s)\<rparr>"
    using e by (auto simp: act_run forget_conn_def split: if_splits)
  with forget_run [OF good_wf [OF g]] Hangup show ?thesis by (simp add: event_label_def)
next
  case (Broken c)
  have "keepsA seen (set_conn c (\<lambda>k. k\<lparr>broken := True\<rparr>))" by (rule seen_set_conn) simp_all
  with e Broken have "seen t = seen s" using keepsA_Inr [of seen "set_conn c (\<lambda>k. k\<lparr>broken := True\<rparr>)" s] by simp
  with good_wf [OF g] Broken show ?thesis by (simp add: seen_eq event_label_def)
qed

lemma spec_step_ok: "spec_step l a a' \<Longrightarrow> spec_ok a \<Longrightarrow> spec_ok a'"
proof (induction rule: spec_step.induct)
  case (serve c a rs a')
  from serve(2,3) show ?case by (induction rs arbitrary: a) (auto intro: spec_request_ok)
qed (auto simp: spec_ok_def sess_ok_def new_sess_def)

interpretation kvd: simulation event_next spec_next abs_server good
proof
  fix s t assume g: "good s" and "event_next s t"
  then obtain l where "wf_server t" "spec_step l (abs_server s) (abs_server t)" using event_run unfolding event_next_def by blast
  then show "good t" "spec_next\<^sup>*\<^sup>* (abs_server s) (abs_server t)"
    using g spec_step_ok by (auto simp: good_def spec_next_def intro!: r_into_rtranclp)
qed

lemma reachable_run: "kvd_reachable sd s \<Longrightarrow> event_next\<^sup>*\<^sup>* (new_server sd) s"
  by (induction rule: kvd_reachable.induct) (auto simp: event_next_def intro: rtranclp.rtrancl_into_rtrancl)

lemma reachable_good: "kvd_reachable sd s \<Longrightarrow> good s"
  using kvd.run_inv [OF reachable_run good_new] .

text \<open>So a reachable server stands for a state the specification reaches from its own start.\<close>

definition new_aserver :: "int \<Rightarrow> aserver" where
  "new_aserver sd = \<lparr>adb = (\<lambda>_. None), now = 0, sessions = (\<lambda>_. new_sess), aseed = sd, joined = 0, live = {}\<rparr>"

lemma reachable_spec: "kvd_reachable sd s \<Longrightarrow> spec_next\<^sup>*\<^sup>* (new_aserver sd) (abs_server s)"
proof -
  have "abs_sess new_conn = new_sess" by (simp add: abs_sess_def abs_tx_def new_conn_def new_sess_def)
  then have "abs_server (new_server sd) = new_aserver sd"
    by (simp add: abs_server_def new_server_def new_aserver_def fun_eq_iff)
  then show "kvd_reachable sd s \<Longrightarrow> ?thesis" using kvd.run_sim [OF reachable_run good_new] by metis
qed

section \<open>Number formats\<close>

lemma le_nat_bytes: "x < 256 ^ n \<Longrightarrow> le_nat (le_bytes n x) = x"
proof (induction n arbitrary: x)
  case (Suc n)
  then have "x div 256 < 256 ^ n" by (simp add: less_mult_imp_div_less mult.commute)
  with Suc.IH [of "x div 256"] show ?case by (simp add: unat_of_nat take_bit_eq_mod)
qed simp

interpretation uint32: codec "\<lambda>x. 0 \<le> x \<and> x < 2 ^ 32" "pack_le 4" "\<lambda>b. Inr (int (le_nat b))"
  by unfold_locales (auto simp: pack_le_def le_nat_bytes nat_less_iff)

interpretation uint64: codec "\<lambda>x. 0 \<le> x \<and> x < 2 ^ 64" "pack_le 8" "\<lambda>b. Inr (int (le_nat b))"
  by unfold_locales (auto simp: pack_le_def le_nat_bytes nat_less_iff)

section \<open>Lemmas for the properties\<close>

lemma reachable_ok: "kvd_reachable sd s \<Longrightarrow> spec_ok (abs_server s)"
  using reachable_good by (simp add: good_def)

text \<open>Frames of bounded size are always sent.\<close>

lemma pack_le_Inr: "0 \<le> x \<Longrightarrow> x < 256 ^ n \<Longrightarrow> pack_le n x = Inr (le_bytes n (nat x))"
  by (simp add: pack_le_def)

definition the_frame :: "nat \<Rightarrow> nat \<Rightarrow> octets \<Rightarrow> octets" where
  "the_frame typ rid pay = text_bytes ''KV'' @ [2, of_nat typ] @ (le_bytes 4 rid @ le_bytes 2 (length pay)) @ pay"

lemma frame_run: "typ < 256 \<Longrightarrow> rid < 2 ^ 32 \<Longrightarrow> length pay < 65536 \<Longrightarrow> frame typ rid pay = Inr (the_frame typ rid pay)"
  by (simp add: frame_def bytes_of_def pack_le_Inr the_frame_def)

lemma send_run:
  "typ < 256 \<Longrightarrow> rid < 2 ^ 32 \<Longrightarrow> length pay < 65536 \<Longrightarrow> send c typ rid pay s =
     (Inr (), s\<lparr>obj := (obj s)(c := if broken (obj s c) then (obj s c)\<lparr>closing := True\<rparr>
                                      else (obj s c)\<lparr>sent := sent (obj s c) @ the_frame typ rid pay\<rparr>)\<rparr>)"
  by (simp add: send_def frame_run bindA_def liftA_def withA_def set_conn_def modA_def)

lemma eachA_run: "(\<And>x s. \<exists>t. f x s = (Inr (), t)) \<Longrightarrow> \<exists>t. eachA f xs s = (Inr (), t)"
proof (induction xs arbitrary: s)
  case (Cons x xs)
  from Cons.prems obtain t where "f x s = (Inr (), t)" by blast
  with Cons.IH [OF Cons.prems, of t] show ?case by (simp add: bindA_def)
qed (simp add: retA_def)

lemma notify_run: "ev < 256 \<Longrightarrow> length k < 256 \<Longrightarrow> \<exists>t. notify c ev k s = (Inr (), t)"
  unfolding notify_def withA_def
  by (rule eachA_run) (simp add: notify_one_def Let_def withA_def bytes_of_def bindA_def liftA_def send_run retA_def)

lemma check_val_length: "check_val t v \<Longrightarrow> length v \<le> 400 \<and> t \<le> 2"
  by (auto simp: check_val_def Let_def split: if_splits option.splits)

text \<open>The reply to a read: the record of an entry that has not outlived its expiry.\<close>

definition stale :: "server \<Rightarrow> ent \<Rightarrow> bool" where
  "stale s e \<longleftrightarrow> ent_exp e \<noteq> 0 \<and> ent_exp e < clock s"

definition record_bytes :: "nat \<Rightarrow> nat \<Rightarrow> octets \<Rightarrow> octets" where
  "record_bytes t ttl v = of_nat t # (le_bytes 4 ttl @ le_bytes 2 (length v)) @ v"

lemma entry_record_run:
  assumes "entry_ok (clock s) k e"
  shows "entry_record s e = (if stale s e then Inl (StructError ''argument out of range'')
     else Inr (record_bytes (ent_type e) (ent_exp e - clock s) (ent_val e)))"
proof -
  have v: "length (ent_val e) \<le> 400" "ent_type e \<le> 2"
    using assms check_val_length by (auto simp: entry_ok_def)
  have x: "ent_exp e < clock s + 2 ^ 32" using assms by (simp add: entry_ok_def)
  have "pack_le 4 (if ent_exp e \<noteq> 0 then int (ent_exp e) - int (clock s) else 0) =
      (if stale s e then Inl (StructError ''argument out of range'') else Inr (le_bytes 4 (ent_exp e - clock s)))"
    using x by (auto simp: pack_le_def stale_def nat_diff_distrib' simp flip: of_nat_diff)
  then show ?thesis
    using v by (simp add: entry_record_def Let_def bytes_of_def pack_le_Inr record_bytes_def)
qed

lemma handle_authed:
  assumes "authed (obj s c)" and "2 \<le> role (obj s c)" and "op \<in> {3, 4, 9}"
  shows "handle c op rid pay s = catchA is_bad (dispatch c op rid pay) (\<lambda>_. err c rid E_BADARG) s"
  using assms by (auto simp: handle_def withA_def Let_def)

lemma handle_get:
  "authed (obj s c) \<Longrightarrow> handle c 4 rid pay s = catchA is_bad (op_get c rid pay) (\<lambda>_. err c rid E_BADARG) s"
  by (simp add: handle_def withA_def Let_def dispatch_def)

lemma use_store_touched:
  "use_store c s = (Inr S, s) \<Longrightarrow> use_store c (if intx (obj s c) then touching c k s else s) = (Inr S, if intx (obj s c) then touching c k s else s)"
  by (auto simp: use_store_def act_run split: option.splits)

lemma get_run:
  assumes a: "authed (obj s c)" and k: "parse_key pay = Some k" and S: "use_store c s = (Inr S, s)"
    and e: "od_get S k = Some e" "entry_ok (clock s) k e" and rid: "rid < 2 ^ 32"
  shows "handle c 4 rid pay s = (if stale s e
     then (Inl (StructError ''argument out of range''), if intx (obj s c) then touching c k s else s)
     else send c 0x84 rid (record_bytes (ent_type e) (ent_exp e - clock s) (ent_val e)) (if intx (obj s c) then touching c k s else s))"
proof -
  let ?u = "if intx (obj s c) then touching c k s else s"
  have clk: "clock ?u = clock s" by simp
  have st: "stale ?u e = stale s e" by (simp add: stale_def)
  have "op_get c rid pay s = bindA (liftA (\<lambda>s. entry_record s e)) (send c 0x84 rid) ?u"
    by (simp add: op_get_def parsed_def k bindA_def [of "liftA _"] liftA_def bindA_def [of "touch_intx _ _"] touch_intx_run
        bindA_def [of "use_store _"] use_store_touched [OF S] e(1) del: if_split)
  also have "\<dots> = (if stale s e then (Inl (StructError ''argument out of range''), ?u)
       else send c 0x84 rid (record_bytes (ent_type e) (ent_exp e - clock s) (ent_val e)) ?u)"
    using entry_record_run [of ?u k e] e(2) by (simp add: bindA_def liftA_def clk st)
  finally have o: "op_get c rid pay s = \<dots>" .
  have "length (record_bytes (ent_type e) (ent_exp e - clock s) (ent_val e)) < 65536"
    using e(2) check_val_length [of "ent_type e" "ent_val e"] by (simp add: record_bytes_def entry_ok_def)
  then show ?thesis using rid unfolding handle_get [OF a] catchA_def o
    by (simp add: send_run is_bad_def del: if_split split: if_split)
qed

section \<open>Properties\<close>

text \<open>C23. The server refines its specification, event by event. An accepted connection is the next session, new
  and without a role; a departed one leaves. What a connection sends is served as the requests in its buffer,
  in order, and no others, and all of them unless the connection was closed: each has exactly the effect
  the specification gives it for that session, and none when its role does not permit the operation. So a
  role is granted only for a user's secret and the connection's nonce, only a writer writes, only role 3
  moves the clock, and a commit installs its keys exactly when none that it touched has changed.\<close>

theorem server_refines_spec:
  assumes "kvd_reachable sd s" and "event_step ev s = (Inr (), t)"
  shows "\<exists>l. event_label s ev t l \<and> spec_step l (abs_server s) (abs_server t)"
  using event_run [OF reachable_good [OF assms(1)] assms(2)] by blast

text \<open>C25. In every reachable state each stored entry, in the global store and in the snapshot and working
  copy of every open transaction, has a key of 1 to 32 bytes without NUL, a value of its type, and an expiry
  less than 2^32 ahead of the clock; keys are distinct and no connection has more than 8 patterns.\<close>

theorem stores_stay_typed:
  assumes "kvd_reachable sd s"
  shows "od_ok (glob s) \<and> db_ok (clock s) (od_get (glob s)) \<and> length (watch (obj s c)) \<le> 8 \<and>
    (case abs_tx (obj s c) of None \<Rightarrow> True | Some (b, w, T) \<Rightarrow> db_ok (clock s) b \<and> db_ok (clock s) w)"
proof -
  have g: "wf_server s" "db_ok (clock s) (od_get (glob s))" "sess_ok (clock s) (abs_sess (obj s c))"
    using reachable_good [OF assms] by (simp_all add: good_def spec_ok_def)
  then show ?thesis by (auto simp: wf_server_def sess_ok_def tx_ok_def split: option.split)
qed

text \<open>C26. A connection that is not logged in, or logged in with the read-only role, changes nothing for the
  others whatever request it makes, a commit included: the global store and the clock stay, and so do the
  roles, transactions and patterns of all other connections.\<close>

theorem readers_change_nothing:
  assumes "kvd_reachable sd s" and "handle c op rid pay s = (Inr (), t)"
    and "\<not> authed (obj s c) \<or> role (obj s c) = 1"
  shows "od_get (glob t) = od_get (glob s) \<and> clock t = clock s \<and> (\<forall>i \<in> - {c}. abs_sess (obj t i) = abs_sess (obj s i))"
proof -
  have g: "good s" using assms(1) by (rule reachable_good)
  have step: "spec_request c (op, pay) (abs_server s) (abs_server t)" using sim_handle [OF g assms(2)] by simp
  have "level (sessions (abs_server s) c) < 2" using assms(3) by auto
  with reader_request [OF step] spec_request_others [OF step] g show ?thesis by (simp add: good_def)
qed

text \<open>C24. A commit is atomic and validated: if some key the transaction looked at or wrote changed since its
  snapshot, the global store stays as it is; otherwise exactly the touched keys take their working values.
  Either way the transaction is over, and the working copy differed from the snapshot on touched keys only.\<close>

theorem commit_is_atomic:
  assumes "kvd_reachable sd s" and "handle c 9 rid [] s = (Inr (), t)" and "in_tx c s b w"
  shows "(if \<exists>k \<in> set (touched (obj s c)). od_get b k \<noteq> od_get (glob s) k
          then od_get (glob t) = od_get (glob s)
          else od_get (glob t) = (\<lambda>k. if k \<in> set (touched (obj s c)) then od_get w k else od_get (glob s) k))
         \<and> abs_tx (obj t c) = None \<and> (\<forall>k. k \<in> set (touched (obj s c)) \<or> od_get w k = od_get b k)"
proof -
  have g: "good s" using assms(1) by (rule reachable_good)
  have i: "intx (obj s c)" using assms(3) by (simp add: in_tx_def)
  have a: "authed (obj s c)" using wf_conn [OF good_wf [OF g], of c] i by (simp add: conn_wf_def)
  obtain r u where r: "op_commit c rid [] s = (r, u)" by force
  have h: "catchA is_bad (op_commit c rid []) (\<lambda>_. err c rid E_BADARG) s = (Inr (), t)"
    using assms(2) a by (simp add: handle_def withA_def Let_def dispatch_def)
  then have q: "r = Inr () \<or> (\<exists>e. r = Inl e \<and> is_bad e)" using r by (auto simp: catchA_def split: sum.splits if_splits)
  have seen: "seen t = seen u"
    using h r q keepsA_D [OF seen_err, of c rid E_BADARG u] by (auto simp: catchA_def split: sum.splits if_splits)
  have "abs_server u = set_sess c (\<lambda>x. x\<lparr>tx := None\<rparr>)
     ((abs_server s)\<lparr>adb := if conflicts c b s then od_get (glob s) else committed c w s\<rparr>)"
    using op_commit_run [OF good_wf [OF g] a assms(3) _ r q] by (simp add: parse_empty_def)
  then have t: "abs_server t = \<dots>" using seen by (simp add: seen_eq)
  from arg_cong [OF t, of adb] have db: "od_get (glob t) = (if conflicts c b s then od_get (glob s) else committed c w s)"
    by (simp add: set_sess_def)
  from arg_cong [OF t, of "\<lambda>a. tx (sessions a c)"] have "abs_tx (obj t c) = None" by (simp add: set_sess_def)
  moreover have "tx_ok (clock s) (role (obj s c)) (od_get b, od_get w, set (touched (obj s c)))"
  proof -
    have "sess_ok (clock s) (abs_sess (obj s c))" using g by (simp add: good_def spec_ok_def)
    then show ?thesis using in_tx_abs [OF assms(3)] a by (simp add: sess_ok_def)
  qed
  ultimately show ?thesis using db by (auto simp: tx_ok_def conflicts_def committed_def [abs_def])
qed

text \<open>Reading a present key raises an exception that no handler catches exactly when its entry has
  outlived its expiry, which only a transaction that the clock overtook, or its commit, leaves behind;
  otherwise the read returns.\<close>

lemma stale_read_raises:
  assumes "kvd_reachable sd s" and "authed (obj s c)" and "parse_key pay = Some k" and "use_store c s = (Inr S, s)"
    and "od_get S k = Some e" and "rid < 2 ^ 32"
  shows "fst (handle c 4 rid pay s) = (if ent_exp e \<noteq> 0 \<and> ent_exp e < clock s
     then Inl (StructError ''argument out of range'') else Inr ())"
proof -
  obtain S' where "use_store c s = (Inr S', s)" "\<And>k e. od_get S' k = Some e \<Longrightarrow> entry_ok (clock s) k e"
    using current_store [OF reachable_good [OF assms(1)], of c] by metis
  then have e: "entry_ok (clock s) k e" using assms(4,5) by simp
  have "length (record_bytes (ent_type e) (ent_exp e - clock s) (ent_val e)) < 65536"
    using e check_val_length [of "ent_type e" "ent_val e"] by (simp add: record_bytes_def entry_ok_def)
  then have "fst (send c 0x84 rid (record_bytes (ent_type e) (ent_exp e - clock s) (ent_val e)) u) = Inr ()" for u
    using assms(6) by (simp add: send_run)
  then show ?thesis unfolding get_run [OF assms(2-5) e assms(6)] by (simp only: if_distrib [of fst] fst_conv stale_def)
qed

end
