(* ===== verification/Kvd_Runs.thy ===== *)
theory Kvd_Runs
  imports Kvd_Thms
begin

text \<open>
  Frames written and cut back, a write followed by a read, and a concrete session of two clients of the
  kvd server, up to a read that raises.
\<close>

section \<open>Cutting what was framed\<close>

lemma le_bytes_4: "\<exists>a b x d. le_bytes 4 n = [a, b, x, d]" and le_bytes_2: "\<exists>a b. le_bytes 2 n = [a, b]"
proof -
  have "(4::nat) = Suc (Suc (Suc (Suc 0)))" "(2::nat) = Suc (Suc 0)" by simp_all
  then show "\<exists>a b x d. le_bytes 4 n = [a, b, x, d]" "\<exists>a b. le_bytes 2 n = [a, b]"
    by (simp_all only: le_bytes.simps list.inject) simp_all
qed

lemma cut_the_frame:
  assumes "op < 256" and "rid < 2 ^ 32" and "length pay \<le> 512"
  shows "cut_frame (the_frame op rid pay @ r) = Frame op rid pay r"
proof -
  have m: "text_bytes ''KV'' = [75, 86]" by (simp add: text_bytes_def of_char_def)
  obtain a b x d where i: "le_bytes 4 rid = [a, b, x, d]" using le_bytes_4 by blast
  obtain y z where l: "le_bytes 2 (length pay) = [y, z]" using le_bytes_2 by blast
  have rid: "le_nat [a, b, x, d] = rid" using le_nat_bytes [of rid 4] assms(2) by (simp add: i)
  have len: "unat y + 256 * unat z = length pay" using le_nat_bytes [of "length pay" 2] assms(3) by (simp add: l)
  have o: "unat (of_nat op :: 8 word) = op" using assms(1) by (simp add: unat_of_nat take_bit_eq_mod)
  define h where "h = [75, 86, 2, of_nat op, a, b, x, d, y, z] @ pay @ r"
  have f: "the_frame op rid pay @ r = h" by (simp add: h_def the_frame_def m i l)
  have parts: "take 2 h = [75, 86]" "h ! 2 = 2" "h ! 3 = of_nat op" "take 4 (drop 4 h) = [a, b, x, d]"
    "h ! 8 = y" "h ! 9 = z" "drop 10 h = pay @ r"
    by (simp_all add: h_def)
  have rest: "drop (10 + length pay) h = r" using parts(7) by (simp flip: drop_drop add: add.commute [of 10])
  have "length h = 10 + length pay + length r" by (simp add: h_def)
  then show ?thesis
    unfolding f cut_frame_def Let_def parts m rid len using assms(3) by (simp add: rest parts o max_pay_def)
qed

interpretation frames: codec "\<lambda>(op, rid, pay). op < 256 \<and> rid < 2 ^ 32 \<and> length pay \<le> 512"
  "\<lambda>(op, rid, pay). frame op rid pay"
  "\<lambda>f. case cut_frame f of Frame op rid pay r \<Rightarrow> Inr (op, rid, pay) | _ \<Rightarrow> Inl (ValueError ''frame'')"
  by unfold_locales (use cut_the_frame [of _ _ _ "[]"] frame_run in auto)

section \<open>A write followed by a read\<close>

text \<open>The data of the server, which writing to sockets does not change.\<close>

definition data :: "server \<Rightarrow> kv_store \<times> nat \<times> (nat \<Rightarrow> bool \<times> nat \<times> bool \<times> kv_store option)" where
  "data s = (glob s, clock s, \<lambda>i. (authed (obj s i), role (obj s i), intx (obj s i), tx_work (obj s i)))"

lemma data_send [keeps_intros]: "keepsA data (send c t r p)"
  unfolding send_def by (intro keeps_intros; simp add: data_def fun_eq_iff)

lemma data_notify [keeps_intros]: "keepsA data (notify c ev k)"
  unfolding notify_def notify_one_def Let_def by (intro keeps_intros)

lemma data_fields:
  "data t = data s \<Longrightarrow> glob t = glob s \<and> clock t = clock s \<and> authed (obj t i) = authed (obj s i)
     \<and> role (obj t i) = role (obj s i) \<and> intx (obj t i) = intx (obj s i) \<and> tx_work (obj t i) = tx_work (obj s i)"
  by (auto simp: data_def fun_eq_iff)

lemma use_store_data: "data t = data s \<Longrightarrow> use_store c s = (Inr S, s) \<Longrightarrow> use_store c t = (Inr S, t)"
  using data_fields [of t s c] by (auto simp: use_store_def act_run split: option.splits if_splits)

lemma set_store_use:
  assumes "use_store c s = (Inr S, s)"
  shows "\<exists>u. set_store c d s = (Inr (), u) \<and> use_store c u = (Inr d, u) \<and> clock u = clock s
    \<and> authed (obj u c) = authed (obj s c) \<and> intx (obj u c) = intx (obj s c)"
  by (simp add: set_store_def act_run set_conn_def use_store_def)

lemma touch_or_notify_run:
  assumes "ev < 256" and "length k < 256"
  shows "\<exists>u. touch_or_notify c ev k s = (Inr (), u) \<and> data u = data s"
proof (cases "intx (obj s c)")
  case True
  have "data (touching c k s) = data s" by (auto simp: data_def fun_eq_iff touching_def Let_def)
  with True show ?thesis
    using touch_intx_run [of c k s] by (simp add: touch_or_notify_def touch_intx_def withA_def)
next
  case False
  obtain u where u: "notify c ev k s = (Inr (), u)" using notify_run [OF assms] by blast
  with keepsA_Inr [OF data_notify u] False show ?thesis by (simp add: touch_or_notify_def withA_def)
qed

lemma put_run:
  assumes w: "writer c s" and p: "parse_put pay = Some (k, t, ttl, v)" and S: "use_store c s = (Inr S, s)"
    and room: "k \<in> set (od_keys S) \<or> length S < max_keys" and rid: "rid < 2 ^ 32"
  shows "\<exists>u. handle c 3 rid pay s = (Inr (), u) \<and> clock u = clock s \<and> authed (obj u c)
     \<and> use_store c u = (Inr (od_put k \<lparr>ent_type = t, ent_val = v, ent_exp = expiry s ttl\<rparr> S), u)"
proof -
  let ?e = "\<lparr>ent_type = t, ent_val = v, ent_exp = expiry s ttl\<rparr>"
  have "length k < 256" using parse_put_ok [OF p, of 0] by (simp add: entry_ok_def)
  obtain s1 where s1: "set_store c (od_put k ?e S) s = (Inr (), s1)" "use_store c s1 = (Inr (od_put k ?e S), s1)"
    "clock s1 = clock s" "authed (obj s1 c) = authed (obj s c)"
    using set_store_use [OF S] by blast
  obtain s2 where s2: "touch_or_notify c 1 k s1 = (Inr (), s2)" "data s2 = data s1"
    using touch_or_notify_run [OF _ \<open>length k < 256\<close>, of 1] by auto
  obtain u where u: "send c 0x83 rid [] s2 = (Inr (), u)" using rid by (simp add: send_run)
  have du: "data u = data s1" using keepsA_Inr [OF data_send u] s2(2) by simp
  have "op_put c rid pay s = (Inr (), u)"
    using room by (auto simp: op_put_def parsed_def p bindA_def liftA_def S withA_def s1(1) s2(1) [simplified] u [simplified])
  moreover have "handle c 3 rid pay s = catchA is_bad (op_put c rid pay) (\<lambda>_. err c rid E_BADARG) s"
    using w handle_authed [of s c 3 rid pay] by (simp add: writer_def dispatch_def)
  ultimately have "handle c 3 rid pay s = (Inr (), u)" by (simp add: catchA_def)
  moreover have "clock u = clock s" "authed (obj u c)"
    using data_fields [OF du, of c] s1(3,4) w by (simp_all add: writer_def)
  ultimately show ?thesis using use_store_data [OF du s1(2)] by blast
qed

lemma parse_key_name:
  assumes "k \<noteq> []" "length k < 256" "no_nul k"
  shows "parse_key (of_nat (length k) # k) = Some k"
  using assms by (simp add: parse_key_def take_name_def take_int_def take_bytes_def unat_of_nat take_bit_eq_mod)

section \<open>A concrete session\<close>

text \<open>A request that is read in one piece and leaves the connection open takes a reachable state to a
  reachable state.\<close>

lemma inbuf_handle: "handle c op rid pay s = (Inr (), t) \<Longrightarrow> inbuf (obj t c) = inbuf (obj s c)"
  using keepsA_Inr [OF inbufs_handle, of c op rid pay s] by (auto simp: inbufs_def fun_eq_iff dest: spec [of _ c])

lemma request_event:
  assumes "c \<in> set (conns s)" and "\<not> closing (obj s c)" and "inbuf (obj s c) = []"
    and "op < 256" and "rid < 2 ^ 32" and "length pay \<le> 512"
    and h: "handle c op rid pay s = (q, t)" and "q = Inr () \<Longrightarrow> \<not> closing (obj t c)"
  shows "event_step (Recv c (the_frame op rid pay)) s = (q, t)"
proof -
  let ?f = "the_frame op rid pay"
  let ?u = "s\<lparr>obj := (obj s)(c := (obj s c)\<lparr>inbuf := ?f\<rparr>)\<rparr>"
  have cut: "cut_frame ?f = Frame op rid pay []" using cut_the_frame [OF assms(4-6), of "[]"] by simp
  have ne: "?f \<noteq> []" by (simp add: the_frame_def text_bytes_def)
  have s: "?u\<lparr>obj := (obj ?u)(c := (obj ?u c)\<lparr>inbuf := []\<rparr>)\<rparr> = s"
    using put_buf_same [OF assms(3)] by (simp add: put_buf_def)
  have len: "10 \<le> length ?f" by (simp add: the_frame_def text_bytes_def)
  have body: "drain_body c ?u = (case q of Inl e \<Rightarrow> (Inl e, t) | Inr x \<Rightarrow> (Inr True, t))"
  proof -
    have "serve c op rid pay [] ?u = bindA (handle c op rid pay) (\<lambda>_. retA True) s"
      unfolding serve_def run_set_conn s ..
    then show ?thesis using h by (simp add: drain_body_cut cut bindA_def retA_def split: sum.split)
  qed
  have "drain c ?u = (q, t)"
  proof (cases q)
    case (Inl e)
    with body len assms(2) show ?thesis by (subst drain.simps) (simp add: may_drain_def)
  next
    case (Inr x)
    have "inbuf (obj t c) = []" using inbuf_handle h Inr assms(3) by simp
    then have "drain c t = (Inr (), t)" by (subst drain.simps) (simp add: may_drain_def)
    with Inr body len assms(2) show ?thesis by (subst drain.simps) (simp add: may_drain_def)
  qed
  moreover have "receive c ?f s = bindA (drain c) (\<lambda>_. withA (\<lambda>s.
      if closing (obj s c) then set_conn c (\<lambda>k. k\<lparr>inbuf := []\<rparr>) else retA ())) ?u"
    using assms(2,3) by (simp add: receive_def run_withA run_set_conn)
  ultimately have "receive c ?f s = (q, t)"
    using assms(8) by (cases q) (simp_all add: bindA_def withA_def retA_def)
  with assms(1) ne show ?thesis by (simp add: act_run)
qed

lemma request_reachable:
  assumes "kvd_reachable sd s" and "c \<in> set (conns s)" and "\<not> closing (obj s c)" and "inbuf (obj s c) = []"
    and "op < 256" and "rid < 2 ^ 32" and "length pay \<le> 512"
    and "handle c op rid pay s = (Inr (), t)" and "\<not> closing (obj t c)"
  shows "kvd_reachable sd t"
  using kvd_reachable.event [OF assms(1) request_event [OF assms(2-8)]] assms(9) by simp

text \<open>Two connections, both of alice. What they were sent is left open.\<close>

definition client :: "octets \<Rightarrow> conn" where
  "client x = new_conn\<lparr>authed := True, role := 3, sent := x\<rparr>"

definition pair :: "nat \<Rightarrow> kv_store \<Rightarrow> conn \<Rightarrow> conn \<Rightarrow> server" where
  "pair n d x y = \<lparr>seed = 7, clock = n, glob = d, conns = [1, 2], accepted = 2,
     obj = (\<lambda>i. if i = 1 then x else if i = 2 then y else new_conn)\<rparr>"

lemma pair_fields [simp]:
  "clock (pair n d x y) = n" "glob (pair n d x y) = d" "conns (pair n d x y) = [1, 2]" "seed (pair n d x y) = 7"
  "obj (pair n d x y) 1 = x" "obj (pair n d x y) (Suc 0) = x" "obj (pair n d x y) 2 = y"
  "(pair n d x y)\<lparr>glob := d'\<rparr> = pair n d' x y" "(pair n d x y)\<lparr>clock := n'\<rparr> = pair n' d x y"
  "(pair n d x y)\<lparr>obj := (obj (pair n d x y))(1 := x')\<rparr> = pair n d x' y"
  "(pair n d x y)\<lparr>obj := (obj (pair n d x y))(Suc 0 := x')\<rparr> = pair n d x' y"
  "(pair n d x y)\<lparr>obj := (obj (pair n d x y))(2 := y')\<rparr> = pair n d x y'"
  by (auto simp: pair_def fun_eq_iff)

definition login_payload :: "server \<Rightarrow> nat \<Rightarrow> octets" where
  "login_payload s c = of_nat 5 # text_bytes ''alice'' @ le_bytes 8 (unat (auth_hash (text_bytes ''wonderland'') (nonce_of s c) (text_bytes ''alice'')))"

lemma alice_len [simp]: "length (text_bytes x) = length x"
  by (simp add: text_bytes_def)

lemma parse_login_payload:
  "parse_login (login_payload s c) = Some (text_bytes ''alice'', unat (auth_hash (text_bytes ''wonderland'') (nonce_of s c) (text_bytes ''alice'')))"
proof -
  let ?h = "unat (auth_hash (text_bytes ''wonderland'') (nonce_of s c) (text_bytes ''alice''))"
  have "?h < 256 ^ 8" using unsigned_less [of "auth_hash (text_bytes ''wonderland'') (nonce_of s c) (text_bytes ''alice'')"] by simp
  then have "le_nat (le_bytes 8 ?h) = ?h" by (rule le_nat_bytes)
  then show ?thesis by (simp add: parse_login_def login_payload_def take_name_def take_int_def take_bytes_def)
qed

lemma nonce_length [simp]: "length (nonce_of s c) = 8"
  by (simp add: nonce_of_def)

lemma nonce_seed: "seed s = seed t \<Longrightarrow> nonce_of s c = nonce_of t c"
  by (simp add: nonce_of_def)

definition greeting :: "server \<Rightarrow> nat \<Rightarrow> octets" where
  "greeting s c = the_frame 0x80 0 (nonce_of s c @ [5] @ text_bytes ''kvd/2'')"

lemma accept_conn_run:
  assumes "Suc (accepted s) \<notin> set (conns s)"
  shows "accept_conn s = (Inr (), s\<lparr>accepted := Suc (accepted s), conns := conns s @ [Suc (accepted s)],
     obj := (obj s)(Suc (accepted s) := new_conn\<lparr>sent := greeting s (Suc (accepted s))\<rparr>)\<rparr>)"
proof -
  let ?c = "Suc (accepted s)"
  let ?u = "s\<lparr>accepted := ?c, conns := conns s @ [?c], obj := (obj s)(?c := new_conn)\<rparr>"
  have n: "\<not> broken new_conn" "sent new_conn = []" by (simp_all add: new_conn_def)
  have "accept_conn s = send ?c 0x80 0 (nonce_of s ?c @ [5] @ text_bytes ''kvd/2'') ?u"
    using assms nonce_seed [of "s\<lparr>accepted := ?c\<rparr>" s] by (simp add: accept_conn_def bindA_def modA_def withA_def Let_def)
  also have "\<dots> = (Inr (), ?u\<lparr>obj := (obj ?u)(?c := new_conn\<lparr>sent := greeting s ?c\<rparr>)\<rparr>)"
    by (simp add: send_run n greeting_def)
  finally show ?thesis by simp
qed

lemma greeted: "\<exists>x y. kvd_reachable 7 (pair 0 [] (new_conn\<lparr>sent := x\<rparr>) (new_conn\<lparr>sent := y\<rparr>))"
proof -
  obtain x s1 where s1: "s1 = \<lparr>seed = 7, clock = 0, glob = [], conns = [1], accepted = 1,
     obj = (\<lambda>_. new_conn)(1 := new_conn\<lparr>sent := x\<rparr>)\<rparr>" and 1: "event_step Accept (new_server 7) = (Inr (), s1)"
    using accept_conn_run [of "new_server 7"] by (simp add: new_server_def)
  obtain y where 2: "event_step Accept s1 = (Inr (), \<lparr>seed = 7, clock = 0, glob = [], conns = [1, 2], accepted = 2,
     obj = ((\<lambda>_. new_conn)(1 := new_conn\<lparr>sent := x\<rparr>))(2 := new_conn\<lparr>sent := y\<rparr>)\<rparr>)"
    using accept_conn_run [of s1] by (simp add: s1 numeral_2_eq_2)
  have "((\<lambda>_. new_conn)(1 := a))(2 := b) = (\<lambda>i :: nat. if i = 1 then a else if i = 2 then b else new_conn)" for a b
    by (auto simp: fun_eq_iff)
  then have "kvd_reachable 7 (pair 0 [] (new_conn\<lparr>sent := x\<rparr>) (new_conn\<lparr>sent := y\<rparr>))"
    using kvd_reachable.event [OF kvd_reachable.event [OF kvd_reachable.start 1] 2] by (simp add: pair_def)
  then show ?thesis by blast
qed

lemma login_run:
  assumes "\<not> authed (obj s c)" "\<not> broken (obj s c)"
  shows "\<exists>f. handle c 2 0 (login_payload s c) s = (Inr (), s\<lparr>obj := (obj s)(c := (obj s c)\<lparr>authed := True, role := 3,
     sent := sent (obj s c) @ f\<rparr>)\<rparr>)"
proof -
  have "login_ok s c (text_bytes ''alice'') (unat (auth_hash (text_bytes ''wonderland'') (nonce_of s c) (text_bytes ''alice''))) = Some 3"
    by (simp add: login_ok_def users_def od_get_Cons)
  then have "op_login c 0 (login_payload s c) s =
      send c 0x82 0 [3] (s\<lparr>obj := (obj s)(c := (obj s c)\<lparr>authed := True, role := 3\<rparr>)\<rparr>)"
    using assms(1) by (simp add: op_login_def withA_def parsed_def parse_login_payload bindA_def liftA_def set_conn_def modA_def
        bytes_of_def)
  then show ?thesis using assms
    by (simp add: handle_def withA_def Let_def dispatch_def catchA_def send_run) blast
qed

lemma both_logged_in: "\<exists>x y. kvd_reachable 7 (pair 0 [] (client x) (client y))"
proof -
  obtain x y where 0: "kvd_reachable 7 (pair 0 [] (new_conn\<lparr>sent := x\<rparr>) (new_conn\<lparr>sent := y\<rparr>))" (is "kvd_reachable 7 ?s")
    using greeted by blast
  have n: "\<not> authed new_conn" "\<not> broken new_conn" "\<not> closing new_conn" "inbuf new_conn = []" by (simp_all add: new_conn_def)
  have l: "length (login_payload s c) \<le> 512" for s c by (simp add: login_payload_def)
  obtain f where f: "handle 1 2 0 (login_payload ?s 1) ?s = (Inr (), pair 0 [] (client (x @ f)) (new_conn\<lparr>sent := y\<rparr>))"
    using login_run [of ?s 1] n by (auto simp: client_def)
  let ?t = "pair 0 [] (client (x @ f)) (new_conn\<lparr>sent := y\<rparr>)"
  have 1: "kvd_reachable 7 ?t"
    by (rule request_reachable [OF 0 _ _ _ _ _ l f]) (simp_all add: n client_def)
  obtain g where g: "handle 2 2 0 (login_payload ?t 2) ?t = (Inr (), pair 0 [] (client (x @ f)) (client (y @ g)))"
    using login_run [of ?t 2] n by (auto simp: client_def)
  have "kvd_reachable 7 (pair 0 [] (client (x @ f)) (client (y @ g)))"
    by (rule request_reachable [OF 1 _ _ _ _ _ l g]) (simp_all add: n client_def)
  then show ?thesis by blast
qed

text \<open>A transaction of the first client.\<close>

definition in_session :: "octets \<Rightarrow> kv_store \<Rightarrow> kv_store \<Rightarrow> octets list \<Rightarrow> conn" where
  "in_session x b w T = (client x)\<lparr>intx := True, tx_base := Some b, tx_work := Some w, touched := T\<rparr>"

lemma client_fields [simp]:
  "authed (client x)" "role (client x) = 3" "\<not> closing (client x)" "\<not> broken (client x)" "\<not> intx (client x)"
  "inbuf (client x) = []" "watch (client x) = []" "sent (client x) = x" "(client x)\<lparr>sent := y\<rparr> = client y"
  "authed (in_session x b w T)" "role (in_session x b w T) = 3" "\<not> closing (in_session x b w T)"
  "\<not> broken (in_session x b w T)" "intx (in_session x b w T)" "inbuf (in_session x b w T) = []"
  "watch (in_session x b w T) = []" "sent (in_session x b w T) = x" "tx_base (in_session x b w T) = Some b"
  "tx_work (in_session x b w T) = Some w" "touched (in_session x b w T) = T"
  "(in_session x b w T)\<lparr>sent := y\<rparr> = in_session y b w T"
  "(in_session x b w T)\<lparr>tx_work := Some w'\<rparr> = in_session x b w' T"
  "(in_session x b w T)\<lparr>touched := T'\<rparr> = in_session x b w T'"
  by (simp_all add: client_def in_session_def new_conn_def)

lemma send_pair [simp]:
  "typ < 256 \<Longrightarrow> rid < 2 ^ 32 \<Longrightarrow> length pay < 65536 \<Longrightarrow> \<not> broken x \<Longrightarrow>
     send (Suc 0) typ rid pay (pair n d x y) = (Inr (), pair n d (x\<lparr>sent := sent x @ the_frame typ rid pay\<rparr>) y)"
  "typ < 256 \<Longrightarrow> rid < 2 ^ 32 \<Longrightarrow> length pay < 65536 \<Longrightarrow> \<not> broken y \<Longrightarrow>
     send 2 typ rid pay (pair n d x y) = (Inr (), pair n d x (y\<lparr>sent := sent y @ the_frame typ rid pay\<rparr>))"
  by (simp_all add: send_run)

abbreviation demo_key :: octets where "demo_key \<equiv> [97]"

definition demo_ent :: ent where
  "demo_ent = \<lparr>ent_type = 1, ent_val = [], ent_exp = 1\<rparr>"

lemmas run_simps = handle_def dispatch_def withA_def Let_def catchA_def bindA_def liftA_def modA_def retA_def parsed_def
  set_conn_def

lemma demo_begin: "\<exists>x'. handle 1 8 0 [] (pair n d (client x) y) = (Inr (), pair n d (in_session x' d d []) y)"
  by (simp add: run_simps op_begin_def parse_empty_def)
     (auto simp: in_session_def client_def new_conn_def)

definition demo_put :: octets where
  "demo_put = [1, 97, 1, 1, 0, 0, 0]"

lemma demo_put_parse: "parse_put demo_put = Some (demo_key, 1, 1, [])"
  by (simp add: parse_put_def demo_put_def take_name_def take_int_def take_bytes_def no_nul_def check_val_def)

lemma demo_tx_put:
  "\<exists>x'. handle 1 3 0 demo_put (pair 0 [] (in_session x [] [] []) y)
     = (Inr (), pair 0 [] (in_session x' [] [(demo_key, demo_ent)] [demo_key]) y)"
  by (simp add: run_simps op_put_def demo_put_parse use_store_def set_store_def touch_or_notify_def touch_def
      expiry_def demo_ent_def max_keys_def) blast

lemma demo_tick: "\<exists>y'. handle 2 7 0 [5, 0, 0, 0] (pair 0 [] x (client y)) = (Inr (), pair 5 [] x (client y'))"
  by (simp add: run_simps op_tick_def parse_tick_def take_int_def take_bytes_def expired_def pack_le_def) blast

lemma in_transaction: "\<exists>x y. kvd_reachable 7 (pair 0 [] (in_session x [] [(demo_key, demo_ent)] [demo_key]) (client y))"
proof -
  obtain x y where 0: "kvd_reachable 7 (pair 0 [] (client x) (client y))" using both_logged_in by blast
  obtain x1 where b: "handle 1 8 0 [] (pair 0 [] (client x) (client y)) = (Inr (), pair 0 [] (in_session x1 [] [] []) (client y))"
    using demo_begin by blast
  have 1: "kvd_reachable 7 (pair 0 [] (in_session x1 [] [] []) (client y))"
    by (rule request_reachable [OF 0 _ _ _ _ _ _ b]) simp_all
  obtain x2 where p: "handle 1 3 0 demo_put (pair 0 [] (in_session x1 [] [] []) (client y))
     = (Inr (), pair 0 [] (in_session x2 [] [(demo_key, demo_ent)] [demo_key]) (client y))"
    using demo_tx_put by blast
  have "kvd_reachable 7 (pair 0 [] (in_session x2 [] [(demo_key, demo_ent)] [demo_key]) (client y))"
    by (rule request_reachable [OF 1 _ _ _ _ _ _ p]) (simp_all add: demo_put_def)
  then show ?thesis by blast
qed

lemma overtaken: "\<exists>x y. kvd_reachable 7 (pair 5 [] (in_session x [] [(demo_key, demo_ent)] [demo_key]) (client y))"
proof -
  obtain x y where 0: "kvd_reachable 7 (pair 0 [] (in_session x [] [(demo_key, demo_ent)] [demo_key]) (client y))"
    using in_transaction by blast
  obtain y1 where t: "handle 2 7 0 [5, 0, 0, 0] (pair 0 [] (in_session x [] [(demo_key, demo_ent)] [demo_key]) (client y))
     = (Inr (), pair 5 [] (in_session x [] [(demo_key, demo_ent)] [demo_key]) (client y1))"
    using demo_tick by blast
  have "kvd_reachable 7 (pair 5 [] (in_session x [] [(demo_key, demo_ent)] [demo_key]) (client y1))"
    by (rule request_reachable [OF 0 _ _ _ _ _ _ t]) simp_all
  then show ?thesis by blast
qed

section \<open>Properties\<close>

text \<open>What \<open>send\<close> frames, the input loop of the peer cuts back, whatever follows: opcode, request id and
  payload of any frame that could be packed and is within the payload limit.\<close>

lemma frames_are_cut_back:
  assumes "frame op rid pay = Inr f" and "length pay \<le> max_pay"
  shows "cut_frame (f @ r) = Frame op rid pay r"
proof -
  have "op < 256" "rid < 2 ^ 32"
    using assms(1) by (auto simp: frame_def bindR_eq_Inr bytes_of_def pack_le_def split: if_splits)
  moreover from this have "f = the_frame op rid pay"
    using assms frame_run [of op rid pay] by (simp add: max_pay_def)
  ultimately show ?thesis using cut_the_frame assms(2) by (simp add: max_pay_def)
qed

lemma frames_are_cut_back_witness:
  "cut_frame (the_frame 4 258 [1, 97] @ [75]) = Frame 4 258 [1, 97] [75]"
  by (rule frames_are_cut_back) (simp_all add: frame_run max_pay_def)

text \<open>A connection is logged in only by a login request that carries, for one of the users, the hash of
  that user's secret with the connection's own nonce, and it gets that user's role.\<close>

lemma login_needs_the_hash:
  assumes "\<not> authed (obj s c)" and "authed (obj (snd (handle c op rid pay s)) c)"
  shows "\<exists>u h secret. op = 2 \<and> parse_login pay = Some (u, h)
    \<and> od_get users u = Some (secret, role (obj (snd (handle c op rid pay s)) c))
    \<and> h = unat (auth_hash secret (nonce_of s c) u)"
proof -
  let ?t = "snd (handle c op rid pay s)"
  have quiet: "authed (obj (snd (m s)) c) = authed (obj s c)" if "keepsA data m" for m :: "unit step" and s
    using data_fields [OF keepsA_D [OF that], of s c] by simp
  have err: "keepsA data (err i r e)" for i r e unfolding err_def by (intro keeps_intros)
  have fail: "keepsA data (bindA (err c rid E_AUTHFAIL) (\<lambda>_.
      bindA (set_conn c (\<lambda>k. k\<lparr>fails := fails k + 1\<rparr>)) (\<lambda>_.
      withA (\<lambda>s. if 3 \<le> fails (obj s c) then set_conn c (\<lambda>k. k\<lparr>closing := True\<rparr>) else retA ()))))"
    by (intro keeps_intros err; simp add: data_def fun_eq_iff)
  have op: "op = 2"
  proof (rule ccontr)
    assume "op \<noteq> 2"
    then have "\<exists>e. handle c op rid pay s = err c rid e s \<or> handle c op rid pay s = send c 0x81 rid pay s
        \<or> (\<exists>u. handle c op rid pay s = err c rid e u \<and> u = snd (send c 0x81 rid pay s))"
      using assms(1) by (auto simp: handle_def withA_def Let_def catchA_def dispatch_def op_ping_def split: prod.splits sum.splits)
    then show False using assms quiet [OF err] quiet [OF data_send] by fastforce
  qed
  define m where "m = (\<lambda>(u, h). case login_ok s c u h of
       None \<Rightarrow> bindA (err c rid E_AUTHFAIL) (\<lambda>_. bindA (set_conn c (\<lambda>k. k\<lparr>fails := fails k + 1\<rparr>)) (\<lambda>_.
           withA (\<lambda>s. if 3 \<le> fails (obj s c) then set_conn c (\<lambda>k. k\<lparr>closing := True\<rparr>) else retA ())))
     | Some r \<Rightarrow> bindA (set_conn c (\<lambda>k. k\<lparr>authed := True, role := r\<rparr>)) (\<lambda>_.
           bindA (liftA (\<lambda>_. bytes_of [r])) (send c 0x82 rid)))"
  have h: "handle c op rid pay s = catchA is_bad (bindA (parsed (parse_login pay)) m) (\<lambda>_. err c rid E_BADARG) s"
    using assms(1) by (simp add: op handle_def withA_def Let_def dispatch_def op_login_def catchA_def m_def)
  show ?thesis
  proof (cases "parse_login pay")
    case None
    then have "?t = snd (err c rid E_BADARG s)" by (simp add: h catchA_def parsed_def bindA_def liftA_def bad_def is_bad_def)
    then show ?thesis using assms quiet [OF err] by simp
  next
    case (Some x)
    obtain u k where x: "x = (u, k)" by force
    have t: "?t = snd (catchA is_bad (m (u, k)) (\<lambda>_. err c rid E_BADARG) s)"
      using Some by (simp add: h catchA_def parsed_def bindA_def [of "liftA _"] liftA_def x)
    have after: "data (snd (catchA is_bad n (\<lambda>_. err c rid E_BADARG) s)) = data (snd (n s))" for n :: "unit step"
      using keepsA_D [OF err] by (auto simp: catchA_def split: prod.split sum.split)
    show ?thesis
    proof (cases "login_ok s c u k")
      case None
      then have "m (u, k) = bindA (err c rid E_AUTHFAIL) (\<lambda>_. bindA (set_conn c (\<lambda>k. k\<lparr>fails := fails k + 1\<rparr>)) (\<lambda>_.
           withA (\<lambda>s. if 3 \<le> fails (obj s c) then set_conn c (\<lambda>k. k\<lparr>closing := True\<rparr>) else retA ())))"
        by (simp add: m_def)
      then have "data ?t = data s" using after keepsA_D [OF fail] t by simp
      then show ?thesis using assms data_fields [of ?t s c] by simp
    next
      case ok: (Some r)
      let ?u = "s\<lparr>obj := (obj s)(c := (obj s c)\<lparr>authed := True, role := r\<rparr>)\<rparr>"
      have "keepsA data (bindA (liftA (\<lambda>_. bytes_of [r])) (send c 0x82 rid))" by (intro keeps_intros)
      then have "data (snd (m (u, k) s)) = data ?u" using ok by (simp add: m_def run_set_conn keepsA_D)
      then have "data ?t = data ?u" using after t by simp
      from data_fields [OF this, of c] have "role (obj ?t c) = r" by simp
      then show ?thesis using ok Some x op by (auto simp: login_ok_def split: option.splits if_splits)
    qed
  qed
qed

lemma login_needs_the_hash_witness:
  "\<exists>u h secret. parse_login (login_payload (pair 0 [] new_conn new_conn) 1) = Some (u, h)
    \<and> od_get users u = Some (secret, 3) \<and> h = unat (auth_hash secret (nonce_of (pair 0 [] new_conn new_conn) 1) u)"
proof -
  let ?s = "pair 0 [] new_conn new_conn"
  have n: "\<not> authed (obj ?s 1)" "\<not> broken (obj ?s 1)" by (simp_all add: new_conn_def)
  obtain f where f: "handle 1 2 0 (login_payload ?s 1) ?s = (Inr (), pair 0 [] (new_conn\<lparr>authed := True, role := 3,
     sent := sent new_conn @ f\<rparr>) new_conn)"
    using login_run [OF n] by auto
  show ?thesis using login_needs_the_hash [OF n(1), of 2 0 "login_payload ?s 1"] by (simp add: f [simplified])
qed

text \<open>C6. What a connection puts it gets back, inside and outside of a transaction: a put with room for its key
  succeeds, and a get of the key on the same connection then replies with the type, the remaining time and the
  value that were put.\<close>

theorem put_then_get:
  assumes "writer c s" and "parse_put pay = Some (k, t, ttl, v)" and "use_store c s = (Inr S, s)"
    and "k \<in> set (od_keys S) \<or> length S < max_keys" and "rid < 2 ^ 32" and "rid' < 2 ^ 32"
  shows "\<exists>u u'. handle c 3 rid pay s = (Inr (), u) \<and> handle c 4 rid' (of_nat (length k) # k) u = (Inr (), u') \<and>
    (broken (obj u c) \<or> sent (obj u' c) = sent (obj u c) @ the_frame 0x84 rid' (record_bytes t ttl v))"
proof -
  let ?e = "\<lparr>ent_type = t, ent_val = v, ent_exp = expiry s ttl\<rparr>"
  have e: "entry_ok (clock s) k ?e" using parse_put_ok [OF assms(2)] by (simp add: expiry_deadline)
  then have key: "parse_key (of_nat (length k) # k) = Some k" by (intro parse_key_name) (simp_all add: entry_ok_def)
  obtain u where u: "handle c 3 rid pay s = (Inr (), u)" "clock u = clock s" "authed (obj u c)"
    "use_store c u = (Inr (od_put k ?e S), u)"
    using put_run [OF assms(1-5)] by blast
  let ?w = "if intx (obj u c) then touching c k u else u"
  have w: "broken (obj ?w c) = broken (obj u c)" "sent (obj ?w c) = sent (obj u c)"
    by (auto simp: touching_def Let_def)
  have len: "length (record_bytes t ttl v) < 65536"
    using e check_val_length [of t v] by (simp add: record_bytes_def entry_ok_def)
  have "expiry s ttl - clock s = ttl" "\<not> stale u ?e" using u(2) by (auto simp: expiry_def stale_def)
  then have "handle c 4 rid' (of_nat (length k) # k) u = send c 0x84 rid' (record_bytes t ttl v) ?w"
    using get_run [OF u(3) key u(4), of ?e rid'] e assms(6) u(2) by (simp add: od_get_put)
  also have "\<dots> = (Inr (), ?w\<lparr>obj := (obj ?w)(c := if broken (obj u c) then (obj ?w c)\<lparr>closing := True\<rparr>
      else (obj ?w c)\<lparr>sent := sent (obj u c) @ the_frame 0x84 rid' (record_bytes t ttl v)\<rparr>)\<rparr>)"
    using len assms(6) by (simp only: send_run w)
  finally show ?thesis using u(1) by (cases "broken (obj u c)") simp_all
qed

theorem put_then_get_witness:
  "\<exists>u u'. handle 1 3 0 demo_put (pair 0 [] (client []) (client [])) = (Inr (), u) \<and>
     handle 1 4 1 [1, 97] u = (Inr (), u') \<and>
     (broken (obj u 1) \<or> sent (obj u' 1) = sent (obj u 1) @ the_frame 0x84 1 (record_bytes 1 1 []))"
  using put_then_get [of 1 "pair 0 [] (client []) (client [])" demo_put demo_key 1 1 "[]" "[]" 0 1]
  by (simp add: demo_put_parse writer_def use_store_def act_run max_keys_def)

theorem server_refines_spec_witness:
  "\<exists>s t l. kvd_reachable 7 s \<and> event_step (Recv 1 (the_frame 2 0 (login_payload s 1))) s = (Inr (), t) \<and>
     event_label s (Recv 1 (the_frame 2 0 (login_payload s 1))) t l \<and> spec_step l (abs_server s) (abs_server t) \<and>
     level (sessions (abs_server s) 1) = 0 \<and> level (sessions (abs_server t) 1) = 3"
proof -
  obtain x y where r: "kvd_reachable 7 (pair 0 [] (new_conn\<lparr>sent := x\<rparr>) (new_conn\<lparr>sent := y\<rparr>))" (is "kvd_reachable 7 ?s")
    using greeted by blast
  have n: "\<not> authed new_conn" "\<not> broken new_conn" "\<not> closing new_conn" "inbuf new_conn = []" by (simp_all add: new_conn_def)
  have l: "length (login_payload ?s 1) \<le> 512" by (simp add: login_payload_def)
  obtain f where f: "handle 1 2 0 (login_payload ?s 1) ?s = (Inr (), pair 0 [] (client (x @ f)) (new_conn\<lparr>sent := y\<rparr>))" (is "_ = (_, ?t)")
    using login_run [of ?s 1] n by (auto simp: client_def)
  have e: "event_step (Recv 1 (the_frame 2 0 (login_payload ?s 1))) ?s = (Inr (), ?t)"
    by (rule request_event [OF _ _ _ _ _ l f]) (simp_all add: n client_def)
  moreover have "level (sessions (abs_server ?s) 1) = 0" "level (sessions (abs_server ?t) 1) = 3" by (simp_all add: n)
  ultimately show ?thesis using server_refines_spec [OF r e] r by blast
qed

theorem stores_stay_typed_witness:
  "\<exists>s b w T. kvd_reachable 7 s \<and> abs_tx (obj s 1) = Some (b, w, T) \<and> w demo_key = Some demo_ent \<and> db_ok (clock s) w"
proof -
  obtain x y where r: "kvd_reachable 7 (pair 5 [] (in_session x [] [(demo_key, demo_ent)] [demo_key]) (client y))" (is "kvd_reachable 7 ?s")
    using overtaken by blast
  have t: "abs_tx (obj ?s 1) = Some (od_get [], od_get [(demo_key, demo_ent)], {demo_key})" by (simp add: abs_tx_def)
  with stores_stay_typed [OF r, of 1] have "db_ok (clock ?s) (od_get [(demo_key, demo_ent)])" by simp
  with r t show ?thesis by (intro exI [of _ ?s] exI conjI) (simp_all add: od_get_Cons)
qed

theorem readers_change_nothing_witness:
  "\<exists>s t. kvd_reachable 7 s \<and> handle 1 3 0 demo_put s = (Inr (), t) \<and> od_get (glob t) = od_get (glob s)"
proof -
  obtain x y where r: "kvd_reachable 7 (pair 0 [] (new_conn\<lparr>sent := x\<rparr>) (new_conn\<lparr>sent := y\<rparr>))" (is "kvd_reachable 7 ?s")
    using greeted by blast
  have a: "\<not> authed (obj ?s 1)" by (simp add: new_conn_def)
  obtain t where t: "handle 1 3 0 demo_put ?s = (Inr (), t)"
    using a by (simp add: handle_def withA_def Let_def err_def bytes_of_def bindA_def liftA_def send_run emsg_def)
  from readers_change_nothing [OF r t] a have "od_get (glob t) = od_get (glob ?s)" by blast
  with r t show ?thesis by blast
qed

theorem commit_is_atomic_witness:
  "\<exists>s t. kvd_reachable 7 s \<and> handle 1 9 0 [] s = (Inr (), t) \<and> od_get (glob s) demo_key = None
     \<and> od_get (glob t) demo_key = Some demo_ent"
proof -
  obtain x y where r: "kvd_reachable 7 (pair 0 [] (in_session x [] [(demo_key, demo_ent)] [demo_key]) (client y))" (is "kvd_reachable 7 ?s")
    using in_transaction by blast
  have i: "in_tx 1 ?s [] [(demo_key, demo_ent)]" by (simp add: in_tx_def od_ok_def)
  obtain t where t: "handle 1 9 0 [] ?s = (Inr (), t)"
    by (simp add: run_simps op_commit_def parse_empty_def tx_stores_def commit_key_def notify_def notify_one_def
        od_get_Cons in_session_def client_def new_conn_def pack_le_def)
  from commit_is_atomic [OF r t i] have "od_get (glob t) demo_key = Some demo_ent" by (simp add: od_get_Cons)
  moreover have "od_get (glob ?s) demo_key = None" by simp
  ultimately show ?thesis using r t by blast
qed

lemma stale_read_raises_witness:
  "\<exists>s. kvd_reachable 7 s \<and> fst (handle 1 4 0 [1, 97] s) = Inl (StructError ''argument out of range'')"
proof -
  obtain x y where r: "kvd_reachable 7 (pair 5 [] (in_session x [] [(demo_key, demo_ent)] [demo_key]) (client y))" (is "kvd_reachable 7 ?s")
    using overtaken by blast
  have "parse_key [1, 97] = Some demo_key" using parse_key_name [of demo_key] by (simp add: no_nul_def)
  moreover have "use_store 1 ?s = (Inr [(demo_key, demo_ent)], ?s)" by (simp add: use_store_def act_run)
  ultimately have "fst (handle 1 4 0 [1, 97] ?s) = Inl (StructError ''argument out of range'')"
    using stale_read_raises [OF r, of 1 "[1, 97]" demo_key "[(demo_key, demo_ent)]" demo_ent 0]
    by (simp add: od_get_Cons demo_ent_def)
  with r show ?thesis by blast
qed

end
