(* ===== verification/Sql_Value.thy ===== *)
theory Sql_Value
  imports Prelude "HOL-Library.List_Lexorder" "HOL-Library.Char_ord"
begin

text \<open>
  The minisql engine of \<open>evals/abfast/longrun/tasks/spec-sql/src/minisql.py\<close>: its values, their order, the
  conversions between numbers and text, \<open>LIKE\<close> and column affinity. A text is a list of characters, that is
  code points below 256. Python's float operations are the fields of \<open>pyf\<close>; those that may raise give a result.
\<close>

section \<open>Characters\<close>

abbreviation ord_of :: "char \<Rightarrow> nat" where "ord_of c \<equiv> of_char c"

definition is_space :: "char \<Rightarrow> bool" where
  "is_space c \<longleftrightarrow> (let n = ord_of c in (9 \<le> n \<and> n \<le> 13) \<or> (28 \<le> n \<and> n \<le> 32) \<or> n = 133 \<or> n = 160)"

definition is_dec :: "char \<Rightarrow> bool" where "is_dec c \<longleftrightarrow> 48 \<le> ord_of c \<and> ord_of c \<le> 57"

text \<open>\<open>str.isdigit\<close> also holds of the superscripts 2, 3 and 1.\<close>

definition is_digit :: "char \<Rightarrow> bool" where
  "is_digit c \<longleftrightarrow> is_dec c \<or> ord_of c = 178 \<or> ord_of c = 179 \<or> ord_of c = 185"

definition ascii_alpha :: "char \<Rightarrow> bool" where
  "ascii_alpha c \<longleftrightarrow> (let n = ord_of c in (65 \<le> n \<and> n \<le> 90) \<or> (97 \<le> n \<and> n \<le> 122))"

definition is_alpha :: "char \<Rightarrow> bool" where
  "is_alpha c \<longleftrightarrow> (let n = ord_of c in ascii_alpha c \<or> n = 170 \<or> n = 181 \<or> n = 186 \<or> (192 \<le> n \<and> n \<le> 255 \<and> n \<noteq> 215 \<and> n \<noteq> 247))"

text \<open>\<open>str.lower\<close>, and the two ASCII translations.\<close>

definition lower_char :: "char \<Rightarrow> char" where
  "lower_char c = (let n = ord_of c in if (65 \<le> n \<and> n \<le> 90) \<or> (192 \<le> n \<and> n \<le> 222 \<and> n \<noteq> 215) then char_of (n + 32) else c)"

definition lower_text :: "string \<Rightarrow> string" where "lower_text s = map lower_char s"

definition alower :: "string \<Rightarrow> string" where
  "alower s = map (\<lambda>c. if 65 \<le> ord_of c \<and> ord_of c \<le> 90 then char_of (ord_of c + 32) else c) s"

definition aupper :: "string \<Rightarrow> string" where
  "aupper s = map (\<lambda>c. if 97 \<le> ord_of c \<and> ord_of c \<le> 122 then char_of (ord_of c - 32) else c) s"

text \<open>\<open>strip\<close>, \<open>lstrip\<close> and \<open>rstrip\<close> of the characters \<open>P\<close> selects.\<close>

definition lstrip :: "(char \<Rightarrow> bool) \<Rightarrow> string \<Rightarrow> string" where "lstrip P s = dropWhile P s"
definition rstrip :: "(char \<Rightarrow> bool) \<Rightarrow> string \<Rightarrow> string" where "rstrip P s = rev (dropWhile P (rev s))"
definition strip :: "(char \<Rightarrow> bool) \<Rightarrow> string \<Rightarrow> string" where "strip P s = rstrip P (lstrip P s)"

section \<open>Values\<close>

datatype 'f val = VNone | VInt int | VFloat 'f | VStr string

record 'f pyf =
  fl_of_str :: "string \<Rightarrow> 'f"
  fl_repr :: "'f \<Rightarrow> string"
  fl_json :: "'f \<Rightarrow> string"
  fl_of_int :: "int \<Rightarrow> 'f res"
  fl_to_int :: "'f \<Rightarrow> int res"
  fl_add :: "'f \<Rightarrow> 'f \<Rightarrow> 'f"
  fl_sub :: "'f \<Rightarrow> 'f \<Rightarrow> 'f"
  fl_mul :: "'f \<Rightarrow> 'f \<Rightarrow> 'f"
  fl_div :: "'f \<Rightarrow> 'f \<Rightarrow> 'f"
  fl_neg :: "'f \<Rightarrow> 'f"
  fl_abs :: "'f \<Rightarrow> 'f"
  fl_lt :: "'f \<Rightarrow> 'f \<Rightarrow> bool"
  fl_eq :: "'f \<Rightarrow> 'f \<Rightarrow> bool"
  fl_lt_int :: "'f \<Rightarrow> int \<Rightarrow> bool"
  fl_int_lt :: "int \<Rightarrow> 'f \<Rightarrow> bool"
  fl_eq_int :: "'f \<Rightarrow> int \<Rightarrow> bool"
  fl_quot :: "int \<Rightarrow> int \<Rightarrow> 'f res"
  fl_total :: "(int + 'f) list \<Rightarrow> 'f res"
  fl_round :: "'f \<Rightarrow> int \<Rightarrow> 'f res"

definition cls :: "'f val \<Rightarrow> int" where
  "cls v = (case v of VNone \<Rightarrow> - 1 | VInt _ \<Rightarrow> 0 | VFloat _ \<Rightarrow> 0 | VStr _ \<Rightarrow> 1)"

text \<open>\<open>sk(a) < sk(b)\<close> and \<open>sk(a) == sk(b)\<close>: the class first, then the value.\<close>

fun sk_lt :: "'f pyf \<Rightarrow> 'f val \<Rightarrow> 'f val \<Rightarrow> bool" where
  "sk_lt F (VInt a) (VInt b) = (a < b)"
| "sk_lt F (VInt a) (VFloat b) = fl_int_lt F a b"
| "sk_lt F (VFloat a) (VInt b) = fl_lt_int F a b"
| "sk_lt F (VFloat a) (VFloat b) = fl_lt F a b"
| "sk_lt F (VStr a) (VStr b) = (a < b)"
| "sk_lt F a b = (cls a < cls b)"

fun sk_eq :: "'f pyf \<Rightarrow> 'f val \<Rightarrow> 'f val \<Rightarrow> bool" where
  "sk_eq F (VInt a) (VInt b) = (a = b)"
| "sk_eq F (VInt a) (VFloat b) = fl_eq_int F b a"
| "sk_eq F (VFloat a) (VInt b) = fl_eq_int F a b"
| "sk_eq F (VFloat a) (VFloat b) = fl_eq F a b"
| "sk_eq F (VStr a) (VStr b) = (a = b)"
| "sk_eq F a b = (cls a = cls b)"

definition cmp_val :: "'f pyf \<Rightarrow> 'f val \<Rightarrow> 'f val \<Rightarrow> int" where
  "cmp_val F a b = (if sk_lt F b a then 1 else 0) - (if sk_lt F a b then 1 else 0)"

section \<open>Numbers in text\<close>

text \<open>The lengths of the longest matches: of \<open>[eE][+-]?\d+\<close>, and of \<open>\d+\.?\d*\<close> or \<open>\.\d+\<close> with an optional exponent.\<close>

definition decs :: "string \<Rightarrow> nat" where "decs s = length (takeWhile is_dec s)"

definition sign_len :: "string \<Rightarrow> nat" where
  "sign_len s = (case s of c # _ \<Rightarrow> if c = CHR ''+'' \<or> c = CHR ''-'' then 1 else 0 | [] \<Rightarrow> 0)"

definition scan_exp :: "string \<Rightarrow> nat" where
  "scan_exp s = (case s of
     c # r \<Rightarrow> (let k = sign_len r; n = decs (drop k r) in
               if (c = CHR ''e'' \<or> c = CHR ''E'') \<and> 0 < n then 1 + k + n else 0)
   | [] \<Rightarrow> 0)"

definition scan_frac :: "string \<Rightarrow> nat" where
  "scan_frac s = (case s of c # r \<Rightarrow> if c = CHR ''.'' then 1 + decs r else 0 | [] \<Rightarrow> 0)"

definition scan_num :: "string \<Rightarrow> nat" where
  "scan_num s = (let n = decs s; m = n + scan_frac (drop n s) in
     if n = 0 \<and> m < 2 then 0 else m + scan_exp (drop m s))"

definition is_float_text :: "string \<Rightarrow> bool" where
  "is_float_text s \<longleftrightarrow> list_ex (\<lambda>c. c = CHR ''.'' \<or> c = CHR ''e'' \<or> c = CHR ''E'') s"

definition dec_val :: "string \<Rightarrow> nat" where
  "dec_val s = fold (\<lambda>c n. n * 10 + (ord_of c - 48)) s 0"

definition int_of_text :: "string \<Rightarrow> int" where
  "int_of_text s = (let k = sign_len s; n = int (dec_val (drop k s)) in if take k s = ''-'' then - n else n)"

definition num_of_text :: "'f pyf \<Rightarrow> string \<Rightarrow> 'f val" where
  "num_of_text F t = (if is_float_text t then VFloat (fl_of_str F t) else VInt (int_of_text t))"

text \<open>The numeric prefix of a text; \<open>None\<close> never reaches it.\<close>

definition tonum :: "'f pyf \<Rightarrow> 'f val \<Rightarrow> 'f val" where
  "tonum F v = (case v of
     VStr s \<Rightarrow> (let t = lstrip is_space s; k = sign_len t; n = scan_num (drop k t) in
                if n = 0 then VInt 0 else num_of_text F (take (k + n) t))
   | _ \<Rightarrow> v)"

fun nat_text :: "nat \<Rightarrow> string" where
  "nat_text n = (if n < 10 then [char_of (48 + n)] else nat_text (n div 10) @ [char_of (48 + n mod 10)])"

declare nat_text.simps [simp del]

definition int_text :: "int \<Rightarrow> string" where
  "int_text i = (if i < 0 then CHR ''-'' # nat_text (nat (- i)) else nat_text (nat i))"

definition totext :: "'f pyf \<Rightarrow> 'f val \<Rightarrow> string" where
  "totext F v = (case v of VStr s \<Rightarrow> s | VFloat f \<Rightarrow> fl_repr F f | VInt i \<Rightarrow> int_text i | VNone \<Rightarrow> ''None'')"

section \<open>LIKE, truth and integer division\<close>

text \<open>The match of the regular expression a pattern is translated to: \<open>%\<close> is \<open>.*\<close> and \<open>_\<close> is \<open>.\<close>, over all characters.\<close>

fun like_chars :: "string \<Rightarrow> string \<Rightarrow> bool" where
  "like_chars s [] = (s = [])"
| "like_chars s (p # ps) =
     (if p = CHR ''%'' then like_chars s ps \<or> (case s of [] \<Rightarrow> False | _ # r \<Rightarrow> like_chars r (p # ps))
      else case s of [] \<Rightarrow> False | c # r \<Rightarrow> (p = CHR ''_'' \<or> c = p) \<and> like_chars r ps)"

definition like :: "'f pyf \<Rightarrow> 'f val \<Rightarrow> 'f val \<Rightarrow> bool" where
  "like F s p = like_chars (alower (totext F s)) (alower (totext F p))"

definition nonzero :: "'f pyf \<Rightarrow> 'f val \<Rightarrow> bool" where
  "nonzero F v = (case v of VInt i \<Rightarrow> i \<noteq> 0 | VFloat f \<Rightarrow> \<not> fl_eq_int F f 0 | _ \<Rightarrow> True)"

text \<open>The truth of a value: \<open>None\<close>, or whether it is 1.\<close>

definition b3 :: "'f pyf \<Rightarrow> 'f val \<Rightarrow> bool option" where
  "b3 F v = (case v of VNone \<Rightarrow> None | VStr _ \<Rightarrow> Some (nonzero F (tonum F v)) | _ \<Rightarrow> Some (nonzero F v))"

definition intdiv :: "int \<Rightarrow> int \<Rightarrow> int" where
  "intdiv a b = (let q = \<bar>a\<bar> div \<bar>b\<bar> in if (0 \<le> a) = (0 < b) then q else - q)"

section \<open>Column affinity\<close>

datatype coltype = INTEGER | TEXT | REAL

definition signed_decs :: "string \<Rightarrow> bool" where
  "signed_decs s \<longleftrightarrow> (let r = drop (sign_len s) s in r \<noteq> [] \<and> list_all is_dec r)"

definition full_num :: "string \<Rightarrow> bool" where
  "full_num s \<longleftrightarrow> (let t = lstrip is_space s; r = drop (sign_len t) t in r \<noteq> [] \<and> scan_num r = length r)"

definition coerce :: "'f pyf \<Rightarrow> coltype \<Rightarrow> 'f val \<Rightarrow> 'f val res" where
  "coerce F t v = (case (t, v) of
     (INTEGER, VFloat f) \<Rightarrow> bindR (fl_to_int F f) (\<lambda>i. Inr (if fl_eq_int F f i \<and> fl_lt_int F (fl_abs F f) (2 ^ 63) then VInt i else v))
   | (INTEGER, VStr s) \<Rightarrow> Inr (if signed_decs (strip is_space s) then VInt (int_of_text (strip is_space s)) else v)
   | (REAL, VInt i) \<Rightarrow> bindR (fl_of_int F i) (\<lambda>f. Inr (VFloat f))
   | (REAL, VStr s) \<Rightarrow> Inr (if full_num s then VFloat (fl_of_str F (lstrip is_space s)) else v)
   | (TEXT, VInt _) \<Rightarrow> Inr (VStr (totext F v))
   | (TEXT, VFloat _) \<Rightarrow> Inr (VStr (totext F v))
   | _ \<Rightarrow> Inr v)"

end
