(* ===== verification/Sql_Parse.thy ===== *)
theory Sql_Parse
  imports Sql_Value
begin

text \<open>
  The lexer and the recursive-descent parser of minisql. A parser takes the tokens not yet read, the end of the last
  token read and the number of parameters seen. The parsers that call themselves through brackets, \<open>NOT\<close>, a sign or
  a subquery take the parsers of the next depth as an argument, and \<open>parsers\<close> closes the recursion at a depth that
  the number of tokens bounds. The last token is \<open>eof\<close>, and nothing reads behind it. The interpreter's recursion limit
  is not modelled.
\<close>

section \<open>Lexer\<close>

datatype 'f tkind = TNum "'f val" | TStr string | TQid string | TId string | TOp string | TEof

type_synonym 'f token = "'f tkind \<times> nat \<times> nat"

definition syntax_err :: "string \<Rightarrow> py_error" where "syntax_err msg = SqlError ''syntax'' msg"

definition squote :: char where "squote = CHR 0x27"
definition dquote :: char where "dquote = CHR 0x22"

text \<open>A string literal behind its opening quote: the text, and the characters up to and with the closing quote.\<close>

fun lex_string :: "string \<Rightarrow> (string \<times> nat) option" where
  "lex_string [] = None"
| "lex_string (c # r) =
     (if c = squote then (case r of
        c2 # r2 \<Rightarrow> if c2 = squote then map_option (\<lambda>(buf, n). (squote # buf, n + 2)) (lex_string r2) else Some ([], 1)
      | [] \<Rightarrow> Some ([], 1))
      else map_option (\<lambda>(buf, n). (c # buf, n + 1)) (lex_string r))"

definition lex_quoted :: "string \<Rightarrow> (string \<times> nat) option" where
  "lex_quoted r = (let q = takeWhile (\<lambda>c. c \<noteq> dquote) r in if length q < length r then Some (q, length q + 1) else None)"

definition id_char :: "char \<Rightarrow> bool" where "id_char c \<longleftrightarrow> ascii_alpha c \<or> is_dec c \<or> c = CHR ''_''"

definition two_char_ops :: "string list" where
  "two_char_ops = [''<='', ''>='', ''<>'', ''!='', ''||'', ''=='']"

text \<open>The token at a character: its kind, unless it is white space, and how many further characters it takes. A digit or a
  letter that the regular expression behind it does not accept makes \<open>match\<close> return \<open>None\<close>.\<close>

definition lex_one :: "'f pyf \<Rightarrow> char \<Rightarrow> string \<Rightarrow> ('f tkind option \<times> nat) res" where
  "lex_one F c r =
     (if is_space c then Inr (None, 0)
      else if is_digit c \<or> (c = CHR ''.'' \<and> (case r of d # _ \<Rightarrow> is_digit d | [] \<Rightarrow> False)) then
        (let n = scan_num (c # r) in
         if n = 0 then Inl (AttributeError ''NoneType has no attribute group'')
         else Inr (Some (TNum (num_of_text F (take n (c # r)))), n - 1))
      else if c = squote then
        (case lex_string r of None \<Rightarrow> Inl (syntax_err ''unterminated string'') | Some (buf, n) \<Rightarrow> Inr (Some (TStr buf), n))
      else if c = dquote then
        (case lex_quoted r of None \<Rightarrow> Inl (syntax_err ''unterminated identifier'') | Some (q, n) \<Rightarrow> Inr (Some (TQid q), n))
      else if is_alpha c \<or> c = CHR ''_'' then
        (if ascii_alpha c \<or> c = CHR ''_'' then let n = length (takeWhile id_char r) in Inr (Some (TId (c # take n r)), n)
         else Inl (AttributeError ''NoneType has no attribute group''))
      else if c # take 1 r \<in> set two_char_ops then Inr (Some (TOp (c # take 1 r)), 1)
      else if c \<in> set ''+-*/%()<>=,.?;'' then Inr (Some (TOp [c]), 0)
      else Inl (syntax_err ''bad character''))"

fun lex_from :: "'f pyf \<Rightarrow> nat \<Rightarrow> string \<Rightarrow> 'f token list res" where
  "lex_from F i [] = Inr [(TEof, i, i)]"
| "lex_from F i (c # r) =
     bindR (lex_one F c r) (\<lambda>(k, n). bindR (lex_from F (i + 1 + n) (drop n r)) (\<lambda>toks.
       Inr (case k of None \<Rightarrow> toks | Some t \<Rightarrow> (t, i, i + 1 + n) # toks)))"

definition tokenize :: "'f pyf \<Rightarrow> string \<Rightarrow> 'f token list res" where
  "tokenize F s = lex_from F 0 s"

section \<open>Syntax trees\<close>

datatype join_kind = JInner | JLeft

datatype 'f expr =
    ELit "'f val"
  | EParam nat
  | ECol "string option" string
  | ENeg "'f expr"
  | ENot "'f expr"
  | EAnd "'f expr" "'f expr"
  | EOr "'f expr" "'f expr"
  | EBin string "'f expr" "'f expr"
  | EIs "'f expr" "'f expr" bool
  | EBetween "'f expr" "'f expr" "'f expr" bool
  | ELike "'f expr" "'f expr" bool
  | EIn "'f expr" "'f inset" bool
  | EExists "'f sel"
  | ESubq "'f sel"
  | ECase "'f expr option" "('f expr \<times> 'f expr) list" "'f expr option"
  | EFunc string "'f expr list" bool bool
and 'f inset = InList "'f expr list" | InSel "'f sel"
and 'f sel = Select "'f core list" "bool list" "('f expr \<times> bool) list" "'f expr option" "'f expr option"
and 'f core = Core bool "'f item list" "'f src option" "(join_kind \<times> 'f src \<times> 'f expr) list"
    "'f expr option" "'f expr list" "'f expr option"
and 'f item = IStar | ITable string | IExpr "'f expr" string
and 'f src = STable string string | SSub "'f sel" string

record 'f coldef =
  cd_name :: string
  cd_type :: coltype
  cd_pk :: bool
  cd_notnull :: bool
  cd_unique :: bool
  cd_default :: "'f val"

datatype 'f insert_src = IValues "'f expr list list" | ISelect "'f sel"

datatype 'f stmt =
    StSelect "'f sel"
  | StCreate string "'f coldef list" bool
  | StInsert string "string list option" "'f insert_src"
  | StUpdate string "(string \<times> 'f expr) list" "'f expr option"
  | StDelete string "'f expr option"
  | StDrop string bool
  | StBegin
  | StCommit
  | StRollback

section \<open>Parser states\<close>

record 'f pst =
  ps_toks :: "'f token list"
  ps_last :: nat
  ps_np :: nat

type_synonym ('f, 'x) parser = "'f pst \<Rightarrow> ('x \<times> 'f pst) res"

definition retP :: "'x \<Rightarrow> ('f, 'x) parser" where "retP x st = Inr (x, st)"
definition failP :: "py_error \<Rightarrow> ('f, 'x) parser" where "failP e st = Inl e"
definition bindP :: "('f, 'x) parser \<Rightarrow> ('x \<Rightarrow> ('f, 'y) parser) \<Rightarrow> ('f, 'y) parser" where
  "bindP p k st = bindR (p st) (\<lambda>(x, st'). k x st')"
definition withP :: "('f pst \<Rightarrow> ('f, 'x) parser) \<Rightarrow> ('f, 'x) parser" where "withP p st = p st st"

definition out_of_fuel :: py_error where "out_of_fuel = RuntimeError ''fuel''"

text \<open>\<open>while\<close> loops whose body reads a token before it goes round again.\<close>

fun loopP :: "nat \<Rightarrow> ('x \<Rightarrow> ('f, 'x option) parser) \<Rightarrow> 'x \<Rightarrow> ('f, 'x) parser" where
  "loopP 0 body x st = Inl out_of_fuel"
| "loopP (Suc n) body x st =
     bindR (body x st) (\<lambda>(r, st'). case r of None \<Rightarrow> Inr (x, st') | Some y \<Rightarrow> loopP n body y st')"

definition manyP :: "('x \<Rightarrow> ('f, 'x option) parser) \<Rightarrow> 'x \<Rightarrow> ('f, 'x) parser" where
  "manyP body x st = loopP (Suc (length (ps_toks st))) body x st"

definition tok_kind :: "'f pst \<Rightarrow> nat \<Rightarrow> 'f tkind" where
  "tok_kind st i = (if i < length (ps_toks st) then fst (ps_toks st ! i) else TEof)"

definition tok_text :: "'f tkind \<Rightarrow> string option" where
  "tok_text k = (case k of TStr s \<Rightarrow> Some s | TQid s \<Rightarrow> Some s | TId s \<Rightarrow> Some s | TOp s \<Rightarrow> Some s | _ \<Rightarrow> None)"

definition RESERVED :: "string list" where
  "RESERVED = [''select'', ''from'', ''where'', ''group'', ''by'', ''having'', ''order'', ''limit'', ''offset'', ''distinct'', ''as'',
     ''and'', ''or'', ''not'', ''in'', ''is'', ''null'', ''like'', ''between'', ''exists'', ''case'', ''when'', ''then'', ''else'', ''end'',
     ''join'', ''inner'', ''left'', ''outer'', ''on'', ''union'', ''all'', ''asc'', ''desc'', ''create'', ''table'', ''if'', ''insert'',
     ''into'', ''values'', ''update'', ''set'', ''delete'', ''drop'', ''begin'', ''commit'', ''rollback'', ''primary'', ''default'', ''unique'']"

definition reserved :: "string \<Rightarrow> bool" where "reserved v \<longleftrightarrow> lower_text v \<in> set RESERVED"

definition kw_at :: "string list \<Rightarrow> 'f pst \<Rightarrow> bool" where
  "kw_at names st = (case tok_kind st 0 of TId v \<Rightarrow> lower_text v \<in> set names | _ \<Rightarrow> False)"

definition op_at :: "string list \<Rightarrow> 'f pst \<Rightarrow> bool" where
  "op_at ops st = (case tok_kind st 0 of TOp v \<Rightarrow> v \<in> set ops | _ \<Rightarrow> False)"

definition name_at :: "'f pst \<Rightarrow> bool" where
  "name_at st = (case tok_kind st 0 of TQid _ \<Rightarrow> True | TId v \<Rightarrow> \<not> reserved v | _ \<Rightarrow> False)"

definition next_tok :: "('f, 'f tkind) parser" where
  "next_tok st = (case ps_toks st of
     [] \<Rightarrow> Inl (IndexError ''list index out of range'')
   | (k, a, b) # ts \<Rightarrow> Inr (k, st\<lparr>ps_toks := ts, ps_last := b\<rparr>))"

definition skip :: "('f, unit) parser" where "skip = bindP next_tok (\<lambda>_. retP ())"

definition accept_kw :: "string \<Rightarrow> ('f, bool) parser" where
  "accept_kw name = withP (\<lambda>st. if kw_at [name] st then bindP skip (\<lambda>_. retP True) else retP False)"

definition accept_op :: "string \<Rightarrow> ('f, bool) parser" where
  "accept_op o1 = withP (\<lambda>st. if op_at [o1] st then bindP skip (\<lambda>_. retP True) else retP False)"

definition expect_kw :: "string \<Rightarrow> ('f, unit) parser" where
  "expect_kw name = bindP (accept_kw name) (\<lambda>ok. if ok then retP () else failP (syntax_err (''expected '' @ name)))"

definition expect_op :: "string \<Rightarrow> ('f, unit) parser" where
  "expect_op o1 = bindP (accept_op o1) (\<lambda>ok. if ok then retP () else failP (syntax_err (''expected '' @ o1)))"

definition ident :: "('f, string) parser" where
  "ident = withP (\<lambda>st. case tok_kind st 0 of
     TQid v \<Rightarrow> bindP skip (\<lambda>_. retP v)
   | TId v \<Rightarrow> if reserved v then failP (syntax_err ''expected identifier'') else bindP skip (\<lambda>_. retP v)
   | _ \<Rightarrow> failP (syntax_err ''expected identifier''))"

text \<open>One or more of \<open>p\<close>, separated by commas; and the optional clauses \<open>if accept: ...\<close>.\<close>

definition commaP :: "('f, 'x) parser \<Rightarrow> ('f, 'x list) parser" where
  "commaP p = bindP p (\<lambda>x. manyP (\<lambda>xs. bindP (accept_op '','') (\<lambda>more.
     if more then bindP p (\<lambda>y. retP (Some (xs @ [y]))) else retP None)) [x])"

definition optP :: "string \<Rightarrow> ('f, 'x) parser \<Rightarrow> ('f, 'x option) parser" where
  "optP name p = bindP (accept_kw name) (\<lambda>ok. if ok then bindP p (\<lambda>x. retP (Some x)) else retP None)"

section \<open>Expressions\<close>

record 'f deeper =
  dp_expr :: "('f, 'f expr) parser"
  dp_not :: "('f, 'f expr) parser"
  dp_unary :: "('f, 'f expr) parser"
  dp_select :: "('f, 'f sel) parser"

text \<open>A level of left-associative binary operators.\<close>

definition binary_level :: "string list \<Rightarrow> ('f, 'f expr) parser \<Rightarrow> ('f, 'f expr) parser" where
  "binary_level ops sub = bindP sub (manyP (\<lambda>l. withP (\<lambda>st.
     if op_at ops st then bindP next_tok (\<lambda>t. bindP sub (\<lambda>r. retP (Some (EBin (the (tok_text t)) l r)))) else retP None)))"

definition case_expr :: "'f deeper \<Rightarrow> ('f, 'f expr) parser" where
  "case_expr D = bindP skip (\<lambda>_.
     bindP (withP (\<lambda>st. if kw_at [''when''] st then retP None else bindP (dp_expr D) (\<lambda>e. retP (Some e)))) (\<lambda>operand.
     bindP (manyP (\<lambda>ws. bindP (accept_kw ''when'') (\<lambda>ok.
        if ok then bindP (dp_expr D) (\<lambda>c. bindP (expect_kw ''then'') (\<lambda>_. bindP (dp_expr D) (\<lambda>r. retP (Some (ws @ [(c, r)])))))
        else retP None)) []) (\<lambda>whens.
     if whens = [] then failP (syntax_err ''CASE needs WHEN'')
     else bindP (optP ''else'' (dp_expr D)) (\<lambda>els. bindP (expect_kw ''end'') (\<lambda>_. retP (ECase operand whens els))))))"

definition call_expr :: "'f deeper \<Rightarrow> string \<Rightarrow> ('f, 'f expr) parser" where
  "call_expr D v = bindP skip (\<lambda>_. bindP (accept_kw ''distinct'') (\<lambda>distinct. bindP (accept_op ''*'') (\<lambda>star.
     bindP (withP (\<lambda>st. if star \<or> op_at ['')''] st then retP [] else commaP (dp_expr D))) (\<lambda>args.
     bindP (expect_op '')'') (\<lambda>_. retP (EFunc (lower_text v) args distinct star))))))"

definition name_expr :: "'f deeper \<Rightarrow> string \<Rightarrow> bool \<Rightarrow> ('f, 'f expr) parser" where
  "name_expr D v unquoted = bindP skip (\<lambda>_. withP (\<lambda>st.
     if unquoted \<and> op_at [''(''] st then call_expr D v
     else if op_at [''.''] st \<and> (case tok_kind st 1 of TId _ \<Rightarrow> True | TQid _ \<Rightarrow> True | _ \<Rightarrow> False)
     then bindP skip (\<lambda>_. bindP ident (\<lambda>c. retP (ECol (Some v) c)))
     else retP (ECol None v)))"

definition new_param :: "('f, nat) parser" where
  "new_param st = Inr (ps_np st, st\<lparr>ps_np := ps_np st + 1\<rparr>)"

definition primary :: "'f deeper \<Rightarrow> ('f, 'f expr) parser" where
  "primary D = withP (\<lambda>st.
     let bad = failP (syntax_err ''unexpected token'') in
     case tok_kind st 0 of
       TNum v \<Rightarrow> bindP skip (\<lambda>_. retP (ELit v))
     | TStr s \<Rightarrow> bindP skip (\<lambda>_. retP (ELit (VStr s)))
     | TOp v \<Rightarrow>
         if v = ''?'' then bindP skip (\<lambda>_. bindP new_param (\<lambda>i. retP (EParam i)))
         else if v = ''('' then bindP skip (\<lambda>_. withP (\<lambda>st'.
           if kw_at [''select''] st' then bindP (dp_select D) (\<lambda>sel. bindP (expect_op '')'') (\<lambda>_. retP (ESubq sel)))
           else bindP (dp_expr D) (\<lambda>e. bindP (expect_op '')'') (\<lambda>_. retP e))))
         else bad
     | TId v \<Rightarrow>
         if lower_text v = ''null'' then bindP skip (\<lambda>_. retP (ELit VNone))
         else if lower_text v = ''exists'' then bindP skip (\<lambda>_. bindP (expect_op ''('') (\<lambda>_.
           bindP (dp_select D) (\<lambda>sel. bindP (expect_op '')'') (\<lambda>_. retP (EExists sel)))))
         else if lower_text v = ''case'' then case_expr D
         else if reserved v then bad else name_expr D v True
     | TQid v \<Rightarrow> name_expr D v False
     | TEof \<Rightarrow> bad)"

definition unary :: "'f deeper \<Rightarrow> ('f, 'f expr) parser" where
  "unary D = bindP (accept_op ''-'') (\<lambda>minus.
     if minus then bindP (dp_unary D) (\<lambda>e. retP (ENeg e))
     else bindP (accept_op ''+'') (\<lambda>plus. if plus then dp_unary D else primary D))"

definition cat_expr :: "'f deeper \<Rightarrow> ('f, 'f expr) parser" where "cat_expr D = binary_level [''||''] (unary D)"
definition mul_expr :: "'f deeper \<Rightarrow> ('f, 'f expr) parser" where "mul_expr D = binary_level [''*'', ''/'', ''%''] (cat_expr D)"
definition add_expr :: "'f deeper \<Rightarrow> ('f, 'f expr) parser" where "add_expr D = binary_level [''+'', ''-''] (mul_expr D)"
definition rel_expr :: "'f deeper \<Rightarrow> ('f, 'f expr) parser" where "rel_expr D = binary_level [''<'', ''<='', ''>'', ''>=''] (add_expr D)"

definition eq_name :: "string \<Rightarrow> string" where
  "eq_name o1 = (if o1 = ''=='' then ''='' else if o1 = ''!='' then ''<>'' else o1)"

definition in_tail :: "'f deeper \<Rightarrow> 'f expr \<Rightarrow> bool \<Rightarrow> ('f, 'f expr) parser" where
  "in_tail D l neg = bindP (expect_op ''('') (\<lambda>_. withP (\<lambda>st.
     if kw_at [''select''] st then bindP (dp_select D) (\<lambda>sel. bindP (expect_op '')'') (\<lambda>_. retP (EIn l (InSel sel) neg)))
     else bindP (accept_op '')'') (\<lambda>none. if none then retP (EIn l (InList []) neg)
       else bindP (commaP (dp_expr D)) (\<lambda>items. bindP (expect_op '')'') (\<lambda>_. retP (EIn l (InList items) neg))))))"

text \<open>One turn of the loop of \<open>eq_expr\<close>; a \<open>NOT\<close> that no operator follows is given back.\<close>

definition eq_turn :: "'f deeper \<Rightarrow> 'f expr \<Rightarrow> ('f, 'f expr option) parser" where
  "eq_turn D l = withP (\<lambda>st.
     if op_at [''='', ''=='', ''<>'', ''!=''] st then
       bindP next_tok (\<lambda>t. bindP (rel_expr D) (\<lambda>r. retP (Some (EBin (eq_name (the (tok_text t))) l r))))
     else if kw_at [''is''] st then
       bindP skip (\<lambda>_. bindP (accept_kw ''not'') (\<lambda>neg. bindP (rel_expr D) (\<lambda>r. retP (Some (EIs l r neg)))))
     else bindP (accept_kw ''not'') (\<lambda>neg. bindP (accept_kw ''in'') (\<lambda>is_in.
       if is_in then bindP (in_tail D l neg) (\<lambda>e. retP (Some e))
       else bindP (accept_kw ''like'') (\<lambda>is_like.
         if is_like then bindP (rel_expr D) (\<lambda>p. retP (Some (ELike l p neg)))
         else bindP (accept_kw ''between'') (\<lambda>is_between.
           if is_between then bindP (rel_expr D) (\<lambda>lo. bindP (expect_kw ''and'') (\<lambda>_.
             bindP (rel_expr D) (\<lambda>hi. retP (Some (EBetween l lo hi neg)))))
           else (\<lambda>_. retP None st))))))"

definition eq_expr :: "'f deeper \<Rightarrow> ('f, 'f expr) parser" where
  "eq_expr D = bindP (rel_expr D) (manyP (eq_turn D))"

definition not_expr :: "'f deeper \<Rightarrow> ('f, 'f expr) parser" where
  "not_expr D = bindP (accept_kw ''not'') (\<lambda>neg. if neg then bindP (dp_not D) (\<lambda>e. retP (ENot e)) else eq_expr D)"

definition and_expr :: "'f deeper \<Rightarrow> ('f, 'f expr) parser" where
  "and_expr D = bindP (not_expr D) (manyP (\<lambda>l. bindP (accept_kw ''and'') (\<lambda>ok.
     if ok then bindP (not_expr D) (\<lambda>r. retP (Some (EAnd l r))) else retP None)))"

definition or_expr :: "'f deeper \<Rightarrow> ('f, 'f expr) parser" where
  "or_expr D = bindP (and_expr D) (manyP (\<lambda>l. bindP (accept_kw ''or'') (\<lambda>ok.
     if ok then bindP (and_expr D) (\<lambda>r. retP (Some (EOr l r))) else retP None)))"

section \<open>Queries\<close>

text \<open>\<open>[AS] alias\<close>.\<close>

definition aliasP :: "('f, string option) parser" where
  "aliasP = bindP (accept_kw ''as'') (\<lambda>as. if as then bindP ident (\<lambda>a. retP (Some a))
     else withP (\<lambda>st. if name_at st then bindP ident (\<lambda>a. retP (Some a)) else retP None))"

definition source :: "'f deeper \<Rightarrow> ('f, 'f src) parser" where
  "source D = bindP (accept_op ''('') (\<lambda>sub.
     if sub then bindP (dp_select D) (\<lambda>sel. bindP (expect_op '')'') (\<lambda>_. bindP aliasP (\<lambda>a.
       retP (SSub sel (case a of None \<Rightarrow> '''' | Some n \<Rightarrow> n)))))
     else bindP ident (\<lambda>name. bindP aliasP (\<lambda>a. retP (STable name (case a of None \<Rightarrow> name | Some n \<Rightarrow> n)))))"

definition star_at :: "'f pst \<Rightarrow> bool" where
  "star_at st = ((case tok_kind st 0 of TId _ \<Rightarrow> True | TQid _ \<Rightarrow> True | _ \<Rightarrow> False)
     \<and> tok_text (tok_kind st 1) = Some ''.'' \<and> tok_text (tok_kind st 2) = Some ''*'' \<and> (case tok_kind st 1 of TOp _ \<Rightarrow> True | _ \<Rightarrow> False))"

definition tok_start :: "'f pst \<Rightarrow> nat" where
  "tok_start st = (case ps_toks st of [] \<Rightarrow> 0 | (_, a, _) # _ \<Rightarrow> a)"

text \<open>A select item; the name of an expression without an alias is its column name or its source text.\<close>

definition item_name :: "string \<Rightarrow> 'f expr \<Rightarrow> nat \<Rightarrow> nat \<Rightarrow> string option \<Rightarrow> string" where
  "item_name sql e a b alias =
     (let dflt = (case e of ECol _ c \<Rightarrow> c | _ \<Rightarrow> take (b - a) (drop a sql))
      in case alias of None \<Rightarrow> dflt | Some n \<Rightarrow> if n = '''' then dflt else n)"

definition select_item :: "string \<Rightarrow> 'f deeper \<Rightarrow> ('f, 'f item) parser" where
  "select_item sql D = bindP (accept_op ''*'') (\<lambda>star.
     if star then retP IStar
     else withP (\<lambda>st. if star_at st then bindP ident (\<lambda>t. bindP skip (\<lambda>_. bindP skip (\<lambda>_. retP (ITable t))))
       else bindP (dp_expr D) (\<lambda>e. withP (\<lambda>st'. bindP aliasP (\<lambda>a.
              retP (IExpr e (item_name sql e (tok_start st) (ps_last st') a)))))))"

definition join_turn :: "'f deeper \<Rightarrow> (join_kind \<times> 'f src \<times> 'f expr) list \<Rightarrow> ('f, (join_kind \<times> 'f src \<times> 'f expr) list option) parser" where
  "join_turn D js =
     bindP (accept_kw ''join'') (\<lambda>j. bindP (if j then retP (Some JInner) else withP (\<lambda>st.
         if kw_at [''inner''] st then bindP skip (\<lambda>_. bindP (expect_kw ''join'') (\<lambda>_. retP (Some JInner)))
         else if kw_at [''left''] st then bindP skip (\<lambda>_. bindP (accept_kw ''outer'') (\<lambda>_. bindP (expect_kw ''join'') (\<lambda>_. retP (Some JLeft))))
         else retP None)) (\<lambda>kind.
       case kind of None \<Rightarrow> retP None
       | Some k \<Rightarrow> bindP (source D) (\<lambda>src. bindP (expect_kw ''on'') (\<lambda>_. bindP (dp_expr D) (\<lambda>on. retP (Some (js @ [(k, src, on)])))))))"

definition select_core :: "string \<Rightarrow> 'f deeper \<Rightarrow> ('f, 'f core) parser" where
  "select_core sql D =
     bindP (expect_kw ''select'') (\<lambda>_. bindP (accept_kw ''distinct'') (\<lambda>distinct.
     bindP (if distinct then retP True else accept_kw ''all'') (\<lambda>_.
     bindP (commaP (select_item sql D)) (\<lambda>items.
     bindP (accept_kw ''from'') (\<lambda>has_from.
     bindP (if has_from then bindP (source D) (\<lambda>frm. bindP (manyP (join_turn D) []) (\<lambda>js. retP (Some frm, js))) else retP (None, [])) (\<lambda>(frm, joins).
     bindP (optP ''where'' (dp_expr D)) (\<lambda>where_e.
     bindP (optP ''group'' (bindP (expect_kw ''by'') (\<lambda>_. commaP (dp_expr D)))) (\<lambda>group.
     bindP (optP ''having'' (dp_expr D)) (\<lambda>having.
       retP (Core distinct items frm joins where_e (case group of None \<Rightarrow> [] | Some g \<Rightarrow> g) having))))))))))"

definition order_term :: "'f deeper \<Rightarrow> ('f, 'f expr \<times> bool) parser" where
  "order_term D = bindP (dp_expr D) (\<lambda>e. bindP (accept_kw ''desc'') (\<lambda>d.
     if d then retP (e, True) else bindP (accept_kw ''asc'') (\<lambda>_. retP (e, False))))"

definition select_full :: "string \<Rightarrow> 'f deeper \<Rightarrow> ('f, 'f sel) parser" where
  "select_full sql D =
     bindP (select_core sql D) (\<lambda>c0.
     bindP (manyP (\<lambda>(cores, alls). bindP (accept_kw ''union'') (\<lambda>u.
        if u then bindP (accept_kw ''all'') (\<lambda>al. withP (\<lambda>st.
          if kw_at [''select''] st then bindP (select_core sql D) (\<lambda>c. retP (Some (cores @ [c], alls @ [al])))
          else failP (syntax_err ''expected SELECT'')))
        else retP None)) ([c0], [])) (\<lambda>(cores, alls).
     bindP (optP ''order'' (bindP (expect_kw ''by'') (\<lambda>_. commaP (order_term D)))) (\<lambda>order.
     bindP (accept_kw ''limit'') (\<lambda>has_limit.
     bindP (if has_limit then bindP (dp_expr D) (\<lambda>lim. bindP (optP ''offset'' (dp_expr D)) (\<lambda>off. retP (Some lim, off)))
            else retP (None, None)) (\<lambda>(lim, off).
       retP (Select cores alls (case order of None \<Rightarrow> [] | Some os \<Rightarrow> os) lim off))))))"

fun parsers :: "string \<Rightarrow> nat \<Rightarrow> 'f deeper" where
  "parsers sql 0 = \<lparr>dp_expr = failP out_of_fuel, dp_not = failP out_of_fuel, dp_unary = failP out_of_fuel, dp_select = failP out_of_fuel\<rparr>"
| "parsers sql (Suc n) =
     (let D = parsers sql n in \<lparr>dp_expr = or_expr D, dp_not = not_expr D, dp_unary = unary D, dp_select = select_full sql D\<rparr>)"

section \<open>Statements\<close>

definition col_type :: "('f, coltype) parser" where
  "col_type = withP (\<lambda>st.
     if kw_at [''integer''] st then bindP skip (\<lambda>_. retP INTEGER)
     else if kw_at [''text''] st then bindP skip (\<lambda>_. retP TEXT)
     else if kw_at [''real''] st then bindP skip (\<lambda>_. retP REAL)
     else failP (syntax_err ''column type required''))"

text \<open>\<open>-v\<close> of a default value: Python has no minus for text and \<open>None\<close>.\<close>

definition neg_default :: "'f pyf \<Rightarrow> 'f val \<Rightarrow> 'f val res" where
  "neg_default F v = (case v of VInt i \<Rightarrow> Inr (VInt (- i)) | VFloat f \<Rightarrow> Inr (VFloat (fl_neg F f))
     | _ \<Rightarrow> Inl (TypeError ''bad operand type for unary -''))"

definition default_value :: "'f pyf \<Rightarrow> ('f, 'f val) parser" where
  "default_value F = bindP (accept_op ''-'') (\<lambda>neg. bindP next_tok (\<lambda>k.
     let fin = (\<lambda>v. if neg then (\<lambda>st. bindR (neg_default F v) (\<lambda>w. Inr (w, st))) else retP v) in
     case k of
       TNum v \<Rightarrow> fin v
     | TStr s \<Rightarrow> fin (VStr s)
     | TId v \<Rightarrow> if lower_text v = ''null'' then fin VNone else failP (syntax_err ''bad default'')
     | _ \<Rightarrow> failP (syntax_err ''bad default'')))"

definition col_option :: "'f pyf \<Rightarrow> 'f coldef \<Rightarrow> ('f, 'f coldef option) parser" where
  "col_option F c = bindP (accept_kw ''primary'') (\<lambda>pk.
     if pk then bindP (accept_kw ''key'') (\<lambda>ok. if ok then retP (Some (c\<lparr>cd_pk := True\<rparr>)) else failP (syntax_err ''expected KEY''))
     else bindP (accept_kw ''not'') (\<lambda>nn.
       if nn then bindP (expect_kw ''null'') (\<lambda>_. retP (Some (c\<lparr>cd_notnull := True\<rparr>)))
       else bindP (accept_kw ''unique'') (\<lambda>u.
         if u then retP (Some (c\<lparr>cd_unique := True\<rparr>))
         else bindP (accept_kw ''default'') (\<lambda>d.
           if d then bindP (default_value F) (\<lambda>v. retP (Some (c\<lparr>cd_default := v\<rparr>))) else retP None))))"

definition col_def :: "'f pyf \<Rightarrow> ('f, 'f coldef) parser" where
  "col_def F = bindP ident (\<lambda>name. bindP col_type (\<lambda>t. manyP (col_option F)
     \<lparr>cd_name = name, cd_type = t, cd_pk = False, cd_notnull = False, cd_unique = False, cd_default = VNone\<rparr>))"

definition create_stmt :: "'f pyf \<Rightarrow> ('f, 'f stmt) parser" where
  "create_stmt F = bindP skip (\<lambda>_. bindP (expect_kw ''table'') (\<lambda>_.
     bindP (optP ''if'' (bindP (expect_kw ''not'') (\<lambda>_. expect_kw ''exists''))) (\<lambda>ine.
     bindP ident (\<lambda>name. bindP (expect_op ''('') (\<lambda>_. bindP (commaP (col_def F)) (\<lambda>cols. bindP (expect_op '')'') (\<lambda>_.
       if 1 < length (filter cd_pk cols) then failP (syntax_err ''multiple primary keys'')
       else retP (StCreate name cols (ine \<noteq> None)))))))))"

definition insert_stmt :: "'f deeper \<Rightarrow> ('f, 'f stmt) parser" where
  "insert_stmt D = bindP skip (\<lambda>_. bindP (expect_kw ''into'') (\<lambda>_. bindP ident (\<lambda>name.
     bindP (accept_op ''('') (\<lambda>has_cols.
     bindP (if has_cols then bindP (commaP ident) (\<lambda>cs. bindP (expect_op '')'') (\<lambda>_. retP (Some cs))) else retP None) (\<lambda>cols.
     bindP (accept_kw ''values'') (\<lambda>has_values.
       if has_values then bindP (commaP (bindP (expect_op ''('') (\<lambda>_. bindP (commaP (dp_expr D)) (\<lambda>r. bindP (expect_op '')'') (\<lambda>_. retP r)))))
         (\<lambda>rows. retP (StInsert name cols (IValues rows)))
       else withP (\<lambda>st. if kw_at [''select''] st then bindP (dp_select D) (\<lambda>sel. retP (StInsert name cols (ISelect sel)))
         else failP (syntax_err ''expected VALUES or SELECT''))))))))"

definition update_stmt :: "'f deeper \<Rightarrow> ('f, 'f stmt) parser" where
  "update_stmt D = bindP skip (\<lambda>_. bindP ident (\<lambda>name. bindP (expect_kw ''set'') (\<lambda>_.
     bindP (commaP (bindP ident (\<lambda>c. bindP (expect_op ''='') (\<lambda>_. bindP (dp_expr D) (\<lambda>e. retP (c, e)))))) (\<lambda>sets.
     bindP (optP ''where'' (dp_expr D)) (\<lambda>w. retP (StUpdate name sets w))))))"

definition delete_stmt :: "'f deeper \<Rightarrow> ('f, 'f stmt) parser" where
  "delete_stmt D = bindP skip (\<lambda>_. bindP (expect_kw ''from'') (\<lambda>_. bindP ident (\<lambda>name.
     bindP (optP ''where'' (dp_expr D)) (\<lambda>w. retP (StDelete name w)))))"

definition drop_stmt :: "('f, 'f stmt) parser" where
  "drop_stmt = bindP skip (\<lambda>_. bindP (expect_kw ''table'') (\<lambda>_. bindP (optP ''if'' (expect_kw ''exists'')) (\<lambda>ie.
     bindP ident (\<lambda>name. retP (StDrop name (ie \<noteq> None))))))"

definition statement :: "'f pyf \<Rightarrow> 'f deeper \<Rightarrow> ('f, 'f stmt) parser" where
  "statement F D =
     bindP (withP (\<lambda>st.
       if kw_at [''select''] st then bindP (dp_select D) (\<lambda>s. retP (StSelect s))
       else if kw_at [''create''] st then create_stmt F
       else if kw_at [''insert''] st then insert_stmt D
       else if kw_at [''update''] st then update_stmt D
       else if kw_at [''delete''] st then delete_stmt D
       else if kw_at [''drop''] st then drop_stmt
       else if kw_at [''begin''] st then bindP skip (\<lambda>_. retP StBegin)
       else if kw_at [''commit''] st then bindP skip (\<lambda>_. retP StCommit)
       else if kw_at [''rollback''] st then bindP skip (\<lambda>_. retP StRollback)
       else failP (syntax_err ''unknown statement''))) (\<lambda>node.
     bindP (accept_op '';'') (\<lambda>_. withP (\<lambda>st. if tok_kind st 0 = TEof then retP node else failP (syntax_err ''trailing input''))))"

text \<open>\<open>Parser(sql)\<close>, its statement and the number of parameters.\<close>

definition parse_sql :: "'f pyf \<Rightarrow> string \<Rightarrow> ('f stmt \<times> nat) res" where
  "parse_sql F sql = bindR (tokenize F sql) (\<lambda>toks.
     bindR (statement F (parsers sql (Suc (length toks))) \<lparr>ps_toks = toks, ps_last = 0, ps_np = 0\<rparr>)
       (\<lambda>(node, st). Inr (node, ps_np st)))"

end
