(* ===== verification/Sql_Eval.thy ===== *)
theory Sql_Eval
  imports Sql_Parse
begin

text \<open>
  Expressions and queries of minisql. An environment is a list of scopes, the innermost first, and a scope the
  sources of one query. Evaluation maps a syntax tree to a function of the environment and of the group in force; it is
  structural, with one combinator per case of the source's \<open>eval\<close>, \<open>func\<close>, \<open>core\<close> and \<open>select\<close>. Sorting and
  deduplication use \<open>sk\<close>; a NaN, which has no place in that order, is not considered.
\<close>

section \<open>Tables and environments\<close>

record 'f sql_table =
  tb_name :: string
  tb_cols :: "'f coldef list"
  tb_rows :: "'f val list list"

type_synonym 'f sql_tables = "string \<rightharpoonup> 'f sql_table"
type_synonym 'f src_row = "string \<times> string list \<times> 'f val list"
type_synonym 'f env = "'f src_row list list"
type_synonym 'f den = "'f env \<Rightarrow> 'f env list option \<Rightarrow> 'f val res"
type_synonym 'f unit_row = "'f env \<times> 'f env list option \<times> 'f val list"

definition colnames :: "'f sql_table \<Rightarrow> string list" where "colnames t = map cd_name (tb_cols t)"

definition get_table :: "'f sql_tables \<Rightarrow> string \<Rightarrow> 'f sql_table res" where
  "get_table T name = (case T (lower_text name) of None \<Rightarrow> Inl (SqlError ''no_table'' name) | Some t \<Rightarrow> Inr t)"

text \<open>The values a scope has under a name; a row has a value for each column.\<close>

definition scope_hits :: "string option \<Rightarrow> string \<Rightarrow> 'f src_row list \<Rightarrow> 'f val list" where
  "scope_hits table name sources = concat (map (\<lambda>(al, cols, vals).
     if (case table of None \<Rightarrow> True | Some t \<Rightarrow> lower_text al = lower_text t)
     then map snd (filter (\<lambda>(c, v). lower_text c = lower_text name) (zip cols vals)) else []) sources)"

fun lookup :: "string option \<Rightarrow> string \<Rightarrow> 'f env \<Rightarrow> 'f val res" where
  "lookup table name [] = Inl (SqlError ''no_column'' name)"
| "lookup table name (sc # outer) =
     (case scope_hits table name sc of
        [] \<Rightarrow> lookup table name outer
      | [v] \<Rightarrow> Inr v
      | _ \<Rightarrow> Inl (SqlError ''ambiguous'' name))"

section \<open>Operators\<close>

definition of_bool3 :: "bool option \<Rightarrow> 'f val" where
  "of_bool3 b = (case b of None \<Rightarrow> VNone | Some x \<Rightarrow> VInt (if x then 1 else 0))"

definition not3 :: "bool option \<Rightarrow> bool option" where "not3 b = map_option Not b"

text \<open>\<open>b3(v) == 1\<close>.\<close>

definition holds3 :: "'f pyf \<Rightarrow> 'f val \<Rightarrow> bool" where "holds3 F v \<longleftrightarrow> b3 F v = Some True"

definition to_fl :: "'f pyf \<Rightarrow> 'f val \<Rightarrow> 'f res" where
  "to_fl F v = (case v of VInt i \<Rightarrow> fl_of_int F i | VFloat f \<Rightarrow> Inr f | _ \<Rightarrow> Inl (TypeError ''must be real number''))"

definition to_int :: "'f pyf \<Rightarrow> 'f val \<Rightarrow> int res" where
  "to_int F v = (case v of VInt i \<Rightarrow> Inr i | VFloat f \<Rightarrow> fl_to_int F f | _ \<Rightarrow> Inl (TypeError ''int() argument''))"

definition neg_num :: "'f pyf \<Rightarrow> 'f val \<Rightarrow> 'f val" where
  "neg_num F v = (case v of VInt i \<Rightarrow> VInt (- i) | VFloat f \<Rightarrow> VFloat (fl_neg F f) | _ \<Rightarrow> v)"

definition arith :: "(int \<Rightarrow> int \<Rightarrow> int) \<Rightarrow> ('f \<Rightarrow> 'f \<Rightarrow> 'f) \<Rightarrow> 'f pyf \<Rightarrow> 'f val \<Rightarrow> 'f val \<Rightarrow> 'f val res" where
  "arith f g F a b = (case (a, b) of
     (VInt i, VInt j) \<Rightarrow> Inr (VInt (f i j))
   | _ \<Rightarrow> bindR (to_fl F a) (\<lambda>x. bindR (to_fl F b) (\<lambda>y. Inr (VFloat (g x y)))))"

definition COMPARISONS :: "string list" where "COMPARISONS = [''='', ''<>'', ''<'', ''<='', ''>'', ''>='']"

definition compare :: "string \<Rightarrow> int \<Rightarrow> bool" where
  "compare o1 c = (if o1 = ''='' then c = 0 else if o1 = ''<>'' then c \<noteq> 0 else if o1 = ''<'' then c < 0
     else if o1 = ''<='' then c \<le> 0 else if o1 = ''>'' then 0 < c else 0 \<le> c)"

definition binop :: "'f pyf \<Rightarrow> string \<Rightarrow> 'f val \<Rightarrow> 'f val \<Rightarrow> 'f val res" where
  "binop F o1 a b =
     (if a = VNone \<or> b = VNone then Inr VNone
      else if o1 \<in> set COMPARISONS then Inr (of_bool3 (Some (compare o1 (cmp_val F a b))))
      else if o1 = ''||'' then Inr (VStr (totext F a @ totext F b))
      else let x = tonum F a; y = tonum F b in
        if o1 = ''+'' then arith (+) (fl_add F) F x y
        else if o1 = ''-'' then arith (-) (fl_sub F) F x y
        else if o1 = ''*'' then arith (*) (fl_mul F) F x y
        else if o1 = ''/'' then (if \<not> nonzero F y then Inr VNone else arith intdiv (fl_div F) F x y)
        else if o1 = ''%'' then bindR (to_int F x) (\<lambda>i. bindR (to_int F y) (\<lambda>j.
          Inr (if j = 0 then VNone else VInt (i - j * intdiv i j))))
        else Inl (syntax_err o1))"

text \<open>\<open>eval\<close> of the case \<open>and\<close> on two evaluated operands.\<close>

definition and3 :: "bool option \<Rightarrow> bool option \<Rightarrow> bool option" where
  "and3 a b = (if a = Some False \<or> b = Some False then Some False else if a = None \<or> b = None then None else Some True)"

definition or3 :: "bool option \<Rightarrow> bool option \<Rightarrow> bool option" where
  "or3 a b = (if a = Some True \<or> b = Some True then Some True else if a = None \<or> b = None then None else Some False)"

definition negated :: "bool \<Rightarrow> bool option \<Rightarrow> 'f val" where
  "negated neg b = of_bool3 (if neg then not3 b else b)"

definition in_result :: "'f pyf \<Rightarrow> 'f val \<Rightarrow> 'f val list \<Rightarrow> bool option" where
  "in_result F v vals =
     (if vals = [] then Some False
      else if v = VNone then None
      else if list_ex (\<lambda>x. x \<noteq> VNone \<and> cmp_val F v x = 0) vals then Some True
      else if list_ex (\<lambda>x. x = VNone) vals then None else Some False)"

section \<open>Functions\<close>

definition AGG :: "string list" where "AGG = [''count'', ''sum'', ''avg'', ''min'', ''max'']"

definition is_agg :: "string \<Rightarrow> nat \<Rightarrow> bool" where
  "is_agg name n \<longleftrightarrow> name \<in> set AGG \<and> (name \<noteq> ''min'' \<and> name \<noteq> ''max'' \<or> n = 1)"

primrec has_agg :: "'f expr \<Rightarrow> bool" and has_agg_in :: "'f inset \<Rightarrow> bool"
  and has_agg_sel :: "'f sel \<Rightarrow> bool" and has_agg_core :: "'f core \<Rightarrow> bool"
  and has_agg_item :: "'f item \<Rightarrow> bool" and has_agg_src :: "'f src \<Rightarrow> bool" where
  "has_agg (ELit v) = False"
| "has_agg (EParam i) = False"
| "has_agg (ECol t c) = False"
| "has_agg (ENeg e) = has_agg e"
| "has_agg (ENot e) = has_agg e"
| "has_agg (EAnd a b) = (has_agg a \<or> has_agg b)"
| "has_agg (EOr a b) = (has_agg a \<or> has_agg b)"
| "has_agg (EBin o1 a b) = (has_agg a \<or> has_agg b)"
| "has_agg (EIs a b neg) = (has_agg a \<or> has_agg b)"
| "has_agg (EBetween a lo hi neg) = (has_agg a \<or> has_agg lo \<or> has_agg hi)"
| "has_agg (ELike a p neg) = (has_agg a \<or> has_agg p)"
| "has_agg (EIn a s neg) = (has_agg a \<or> has_agg_in s)"
| "has_agg (EExists s) = False"
| "has_agg (ESubq s) = False"
| "has_agg (ECase o1 ws els) = ((case map_option has_agg o1 of None \<Rightarrow> False | Some b \<Rightarrow> b)
     \<or> list_ex (\<lambda>(a, b). a \<or> b) (map (map_prod has_agg has_agg) ws)
     \<or> (case map_option has_agg els of None \<Rightarrow> False | Some b \<Rightarrow> b))"
| "has_agg (EFunc name args uniq star) = (is_agg name (length args) \<or> list_ex id (map has_agg args))"
| "has_agg_in (InList es) = list_ex id (map has_agg es)"
| "has_agg_in (InSel s) = False"
| "has_agg_sel (Select cores alls order lim off) = False"
| "has_agg_core (Core uniq items frm joins w g h) = False"
| "has_agg_item IStar = False"
| "has_agg_item (ITable t) = False"
| "has_agg_item (IExpr e n) = False"
| "has_agg_src (STable n a) = False"
| "has_agg_src (SSub s a) = False"

text \<open>The first occurrences under an equality.\<close>

fun dedup :: "('a \<Rightarrow> 'a \<Rightarrow> bool) \<Rightarrow> 'a list \<Rightarrow> 'a list \<Rightarrow> 'a list" where
  "dedup eq seen [] = []"
| "dedup eq seen (x # xs) = (if list_ex (eq x) seen then dedup eq seen xs else x # dedup eq (seen @ [x]) xs)"

definition row_eq :: "'f pyf \<Rightarrow> 'f val list \<Rightarrow> 'f val list \<Rightarrow> bool" where
  "row_eq F r s \<longleftrightarrow> list_all2 (sk_eq F) r s"

text \<open>\<open>min\<close> and \<open>max\<close> by the key: the first of the best.\<close>

definition best :: "('f val \<Rightarrow> 'f val \<Rightarrow> bool) \<Rightarrow> 'f val list \<Rightarrow> 'f val" where
  "best lt vs = fold (\<lambda>v b. if lt v b then v else b) (tl vs) (hd vs)"

definition num_sum :: "'f val \<Rightarrow> int + 'f" where
  "num_sum v = (case v of VFloat f \<Rightarrow> Inr f | VInt i \<Rightarrow> Inl i | _ \<Rightarrow> Inl 0)"

definition py_sum :: "'f pyf \<Rightarrow> 'f val list \<Rightarrow> 'f val res" where
  "py_sum F nums = (let xs = map num_sum nums in
     if list_all isl xs then Inr (VInt (sum_list (map projl xs))) else bindR (fl_total F xs) (\<lambda>f. Inr (VFloat f)))"

definition aggregate :: "'f pyf \<Rightarrow> string \<Rightarrow> 'f val list \<Rightarrow> 'f val res" where
  "aggregate F name vals =
     (if name = ''count'' then Inr (VInt (int (length vals)))
      else if vals = [] then Inr VNone
      else if name = ''min'' then Inr (best (sk_lt F) vals)
      else if name = ''max'' then Inr (best (\<lambda>a b. sk_lt F b a) vals)
      else bindR (py_sum F (map (tonum F) vals)) (\<lambda>s.
        if name = ''sum'' then Inr s
        else (case s of
            VInt i \<Rightarrow> bindR (fl_quot F i (int (length vals))) (\<lambda>f. Inr (VFloat f))
          | VFloat f \<Rightarrow> bindR (fl_of_int F (int (length vals))) (\<lambda>n. Inr (VFloat (fl_div F f n)))
          | v \<Rightarrow> Inr v)))"

definition sem_agg :: "'f pyf \<Rightarrow> string \<Rightarrow> 'f den list \<Rightarrow> bool \<Rightarrow> bool \<Rightarrow> 'f env list option \<Rightarrow> 'f val res" where
  "sem_agg F name args uniq star grp = (case grp of
     None \<Rightarrow> Inl (syntax_err ''misuse of aggregate'')
   | Some g \<Rightarrow>
       if star then (if name \<noteq> ''count'' then Inl (syntax_err ''bad *'') else Inr (VInt (int (length g))))
       else (case args of
           [d] \<Rightarrow> bindR (mapR (\<lambda>e. d e None) g) (\<lambda>all.
             let vals = filter (\<lambda>v. v \<noteq> VNone) all in
             aggregate F name (if uniq then dedup (sk_eq F) [] vals else vals))
         | _ \<Rightarrow> Inl (syntax_err ''aggregate takes one argument'')))"

fun replace_all :: "string \<Rightarrow> string \<Rightarrow> string \<Rightarrow> string" where
  "replace_all f r [] = []"
| "replace_all f r (c # s) =
     (if f \<noteq> [] \<and> take (length f) (c # s) = f then r @ replace_all f r (drop (length f - 1) s) else c # replace_all f r s)"

text \<open>\<open>str.find\<close>: the first position of a text, or -1.\<close>

fun find_text :: "string \<Rightarrow> string \<Rightarrow> int" where
  "find_text t [] = (if t = [] then 0 else - 1)"
| "find_text t (c # s) = (if take (length t) (c # s) = t then 0 else let k = find_text t s in if k < 0 then k else k + 1)"

definition SCALARS :: "string list" where
  "SCALARS = [''abs'', ''length'', ''lower'', ''upper'', ''substr'', ''round'', ''replace'', ''trim'', ''ltrim'', ''rtrim'', ''instr'']"

definition type_name :: "'f val \<Rightarrow> string" where
  "type_name v = (case v of VNone \<Rightarrow> ''null'' | VInt _ \<Rightarrow> ''integer'' | VFloat _ \<Rightarrow> ''real'' | VStr _ \<Rightarrow> ''text'')"

definition substr :: "'f pyf \<Rightarrow> 'f val list \<Rightarrow> 'f val res" where
  "substr F a = (let s = totext F (a ! 0) in
     bindR (to_int F (tonum F (a ! 1))) (\<lambda>st.
       if st < 1 then Inl (syntax_err ''substr arguments out of defined range'')
       else if length a = 2 then Inr (VStr (drop (nat (st - 1)) s))
       else bindR (to_int F (tonum F (a ! 2))) (\<lambda>n.
         if n < 0 then Inl (syntax_err ''substr arguments out of defined range'')
         else Inr (VStr (take (nat n) (drop (nat (st - 1)) s))))))"

definition round_num :: "'f pyf \<Rightarrow> 'f val list \<Rightarrow> 'f val res" where
  "round_num F a =
     bindR (if length a = 2 then to_int F (tonum F (a ! 1)) else Inr 0) (\<lambda>d.
     bindR (to_fl F (tonum F (a ! 0))) (\<lambda>x. bindR (fl_round F x d) (\<lambda>r. Inr (VFloat r))))"

definition strip_func :: "'f pyf \<Rightarrow> string \<Rightarrow> 'f val list \<Rightarrow> string" where
  "strip_func F name a = (let s = totext F (a ! 0); P = (\<lambda>c. c \<in> set (if length a = 2 then totext F (a ! 1) else '' '')) in
     if name = ''trim'' then strip P s else if name = ''ltrim'' then lstrip P s else rstrip P s)"

definition abs_num :: "'f pyf \<Rightarrow> 'f val \<Rightarrow> 'f val" where
  "abs_num F v = (case tonum F v of VInt i \<Rightarrow> VInt \<bar>i\<bar> | VFloat f \<Rightarrow> VFloat (fl_abs F f) | w \<Rightarrow> w)"

definition scalar_func :: "'f pyf \<Rightarrow> string \<Rightarrow> 'f val list \<Rightarrow> 'f val res" where
  "scalar_func F name a =
     (let n = length a; bad = Inl (syntax_err (''wrong number of arguments to '' @ name));
          need = (\<lambda>ks r. if n \<in> set ks then r else bad) in
      if name = ''coalesce'' then (if n < 2 then bad else Inr (case find (\<lambda>v. v \<noteq> VNone) a of None \<Rightarrow> VNone | Some v \<Rightarrow> v))
      else if name = ''ifnull'' then need [2] (Inr (if a ! 0 \<noteq> VNone then a ! 0 else a ! 1))
      else if name = ''nullif'' then need [2] (Inr (if a ! 0 \<noteq> VNone \<and> a ! 1 \<noteq> VNone \<and> cmp_val F (a ! 0) (a ! 1) = 0 then VNone else a ! 0))
      else if name = ''typeof'' then need [1] (Inr (VStr (type_name (a ! 0))))
      else if name = ''min'' \<or> name = ''max'' then
        (if n < 2 then bad else if list_ex (\<lambda>v. v = VNone) a then Inr VNone
         else Inr (best (if name = ''min'' then sk_lt F else (\<lambda>x y. sk_lt F y x)) a))
      else if name \<notin> set SCALARS then Inl (syntax_err (''no such function '' @ name))
      else if list_ex (\<lambda>v. v = VNone) a then Inr VNone
      else if name = ''abs'' then need [1] (Inr (abs_num F (a ! 0)))
      else if name = ''length'' then need [1] (Inr (VInt (int (length (totext F (a ! 0))))))
      else if name = ''lower'' then need [1] (Inr (VStr (alower (totext F (a ! 0)))))
      else if name = ''upper'' then need [1] (Inr (VStr (aupper (totext F (a ! 0)))))
      else if name = ''substr'' then need [2, 3] (substr F a)
      else if name = ''round'' then need [1, 2] (round_num F a)
      else if name = ''replace'' then need [3] (Inr (VStr (replace_all (totext F (a ! 1)) (totext F (a ! 2)) (totext F (a ! 0)))))
      else if name = ''instr'' then need [2] (Inr (VInt (find_text (totext F (a ! 1)) (totext F (a ! 0)) + 1)))
      else need [1, 2] (Inr (VStr (strip_func F name a))))"

section \<open>The cases of an expression\<close>

definition sem_param :: "'f val list \<Rightarrow> nat \<Rightarrow> 'f den" where
  "sem_param ps i env grp = (if i < length ps then Inr (ps ! i) else Inl (IndexError ''tuple index out of range''))"

definition sem_neg :: "'f pyf \<Rightarrow> 'f den \<Rightarrow> 'f den" where
  "sem_neg F d env grp = bindR (d env grp) (\<lambda>v. Inr (if v = VNone then VNone else neg_num F (tonum F v)))"

definition sem_not :: "'f pyf \<Rightarrow> 'f den \<Rightarrow> 'f den" where
  "sem_not F d env grp = bindR (d env grp) (\<lambda>v. Inr (of_bool3 (not3 (b3 F v))))"

text \<open>The second operand is not evaluated when the first decides.\<close>

definition sem_and :: "'f pyf \<Rightarrow> 'f den \<Rightarrow> 'f den \<Rightarrow> 'f den" where
  "sem_and F d1 d2 env grp = bindR (d1 env grp) (\<lambda>a.
     if b3 F a = Some False then Inr (VInt 0)
     else bindR (d2 env grp) (\<lambda>b. Inr (of_bool3 (and3 (b3 F a) (b3 F b)))))"

definition sem_or :: "'f pyf \<Rightarrow> 'f den \<Rightarrow> 'f den \<Rightarrow> 'f den" where
  "sem_or F d1 d2 env grp = bindR (d1 env grp) (\<lambda>a.
     if b3 F a = Some True then Inr (VInt 1)
     else bindR (d2 env grp) (\<lambda>b. Inr (of_bool3 (or3 (b3 F a) (b3 F b)))))"

definition sem_bin :: "'f pyf \<Rightarrow> string \<Rightarrow> 'f den \<Rightarrow> 'f den \<Rightarrow> 'f den" where
  "sem_bin F o1 d1 d2 env grp = bindR (d1 env grp) (\<lambda>a. bindR (d2 env grp) (\<lambda>b. binop F o1 a b))"

definition sem_is :: "'f pyf \<Rightarrow> 'f den \<Rightarrow> 'f den \<Rightarrow> bool \<Rightarrow> 'f den" where
  "sem_is F d1 d2 neg env grp = bindR (d1 env grp) (\<lambda>a. bindR (d2 env grp) (\<lambda>b.
     Inr (negated neg (Some (cmp_val F a b = 0)))))"

definition sem_between :: "'f pyf \<Rightarrow> 'f den \<Rightarrow> 'f den \<Rightarrow> 'f den \<Rightarrow> bool \<Rightarrow> 'f den" where
  "sem_between F d lo hi neg env grp =
     bindR (d env grp) (\<lambda>v. bindR (lo env grp) (\<lambda>x. bindR (hi env grp) (\<lambda>y.
     bindR (binop F ''>='' v x) (\<lambda>ge. bindR (binop F ''<='' v y) (\<lambda>le.
       Inr (negated neg (and3 (b3 F ge) (b3 F le))))))))"

definition sem_like :: "'f pyf \<Rightarrow> 'f den \<Rightarrow> 'f den \<Rightarrow> bool \<Rightarrow> 'f den" where
  "sem_like F d1 d2 neg env grp = bindR (d1 env grp) (\<lambda>a. bindR (d2 env grp) (\<lambda>p.
     Inr (if a = VNone \<or> p = VNone then VNone else negated neg (Some (like F a p)))))"

definition sem_in :: "'f pyf \<Rightarrow> 'f den \<Rightarrow> ('f env \<Rightarrow> 'f env list option \<Rightarrow> 'f val list res) \<Rightarrow> bool \<Rightarrow> 'f den" where
  "sem_in F d ds neg env grp = bindR (d env grp) (\<lambda>v. bindR (ds env grp) (\<lambda>vals. Inr (negated neg (in_result F v vals))))"

definition sem_list :: "'f den list \<Rightarrow> 'f env \<Rightarrow> 'f env list option \<Rightarrow> 'f val list res" where
  "sem_list ds env grp = mapR (\<lambda>d. d env grp) ds"

type_synonym 'f rows = "string list \<times> 'f val list list"

definition sem_column :: "('f env \<Rightarrow> 'f rows res) \<Rightarrow> 'f env \<Rightarrow> 'f env list option \<Rightarrow> 'f val list res" where
  "sem_column s env grp = bindR (s env) (\<lambda>(cols, rows).
     mapR (\<lambda>r. case r of [] \<Rightarrow> Inl (IndexError ''list index out of range'') | v # _ \<Rightarrow> Inr v) rows)"

definition sem_exists :: "('f env \<Rightarrow> 'f rows res) \<Rightarrow> 'f den" where
  "sem_exists s env grp = bindR (s env) (\<lambda>(cols, rows). Inr (of_bool3 (Some (rows \<noteq> []))))"

definition sem_subq :: "('f env \<Rightarrow> 'f rows res) \<Rightarrow> 'f den" where
  "sem_subq s env grp = bindR (s env) (\<lambda>(cols, rows).
     if length cols \<noteq> 1 then Inl (syntax_err ''scalar subquery must return one column'')
     else (case rows of [] \<Rightarrow> Inr VNone
       | r # _ \<Rightarrow> (case r of [] \<Rightarrow> Inl (IndexError ''list index out of range'') | v # _ \<Rightarrow> Inr v)))"

fun case_branches :: "('f val \<Rightarrow> bool) \<Rightarrow> ('f den \<times> 'f den) list \<Rightarrow> 'f den option \<Rightarrow> 'f den" where
  "case_branches hit [] els env grp = (case els of None \<Rightarrow> Inr VNone | Some d \<Rightarrow> d env grp)"
| "case_branches hit ((c, r) # ws) els env grp =
     bindR (c env grp) (\<lambda>w. if hit w then r env grp else case_branches hit ws els env grp)"

definition sem_case :: "'f pyf \<Rightarrow> 'f den option \<Rightarrow> ('f den \<times> 'f den) list \<Rightarrow> 'f den option \<Rightarrow> 'f den" where
  "sem_case F operand ws els env grp = (case operand of
     None \<Rightarrow> case_branches (holds3 F) ws els env grp
   | Some d \<Rightarrow> bindR (d env grp) (\<lambda>v.
       case_branches (\<lambda>w. v \<noteq> VNone \<and> w \<noteq> VNone \<and> cmp_val F v w = 0) ws els env grp))"

definition sem_func :: "'f pyf \<Rightarrow> string \<Rightarrow> 'f den list \<Rightarrow> bool \<Rightarrow> bool \<Rightarrow> 'f den" where
  "sem_func F name args uniq star env grp =
     (if is_agg name (length args) then sem_agg F name args uniq star grp
      else bindR (mapR (\<lambda>d. d env grp) args) (scalar_func F name))"

end
