(* ===== verification/Sql_Query.thy ===== *)
theory Sql_Query
  imports Sql_Eval
begin

text \<open>
  Queries of minisql: sources and nested-loop joins, filters, select lists, grouping, duplicate removal, compound queries,
  ordering and limits; and the evaluator, by structural recursion over the syntax trees.
\<close>

section \<open>Sources and joins\<close>

type_synonym 'f src_den = "'f env \<Rightarrow> (string \<times> 'f rows) res"

definition sem_table :: "'f sql_tables \<Rightarrow> string \<Rightarrow> string \<Rightarrow> 'f src_den" where
  "sem_table T name alias outer = bindR (get_table T name) (\<lambda>t. Inr (alias, colnames t, tb_rows t))"

definition sem_sub :: "('f env \<Rightarrow> 'f rows res) \<Rightarrow> string \<Rightarrow> 'f src_den" where
  "sem_sub s alias outer = bindR (s outer) (\<lambda>rs. Inr (alias, rs))"

type_synonym srcs = "(string \<times> string list) list"

definition env_of :: "srcs \<Rightarrow> 'f val list list \<Rightarrow> 'f env \<Rightarrow> 'f env" where
  "env_of srcs combo outer = map (\<lambda>((a, cc), v). (a, cc, v)) (zip srcs combo) # outer"

definition filterR :: "('a \<Rightarrow> bool res) \<Rightarrow> 'a list \<Rightarrow> 'a list res" where
  "filterR p xs = bindR (mapR (\<lambda>x. bindR (p x) (\<lambda>b. Inr (x, b))) xs) (\<lambda>ys. Inr (map fst (filter snd ys)))"

text \<open>The rows one left combination joins with.\<close>

definition join_combo :: "'f pyf \<Rightarrow> join_kind \<Rightarrow> srcs \<Rightarrow> nat \<Rightarrow> 'f val list list \<Rightarrow> 'f den \<Rightarrow> 'f env \<Rightarrow> 'f val list list \<Rightarrow> 'f val list list list res" where
  "join_combo F kind srcs2 width rows2 on outer combo =
     bindR (filterR (\<lambda>r2. bindR (on (env_of srcs2 (combo @ [r2]) outer) None) (\<lambda>v. Inr (holds3 F v))) rows2) (\<lambda>hits.
       Inr (if hits = [] \<and> kind = JLeft then [combo @ [replicate width VNone]] else map (\<lambda>r2. combo @ [r2]) hits))"

fun sem_joins :: "'f pyf \<Rightarrow> 'f env \<Rightarrow> (join_kind \<times> 'f src_den \<times> 'f den) list \<Rightarrow> srcs \<Rightarrow> 'f val list list list
    \<Rightarrow> (srcs \<times> 'f val list list list) res" where
  "sem_joins F outer [] srcs combos = Inr (srcs, combos)"
| "sem_joins F outer ((kind, src, on) # js) srcs combos =
     bindR (src outer) (\<lambda>(al2, cols2, rows2).
       let srcs2 = srcs @ [(al2, cols2)] in
       bindR (mapR (join_combo F kind srcs2 (length cols2) rows2 on outer) combos) (\<lambda>new.
         sem_joins F outer js srcs2 (concat new)))"

definition sem_from :: "'f pyf \<Rightarrow> 'f env \<Rightarrow> 'f src_den option \<Rightarrow> (join_kind \<times> 'f src_den \<times> 'f den) list
    \<Rightarrow> (srcs \<times> 'f val list list list) res" where
  "sem_from F outer frm joins = (case frm of
     None \<Rightarrow> Inr ([], [[]])
   | Some src \<Rightarrow> bindR (src outer) (\<lambda>(al, cols, rows). sem_joins F outer joins [(al, cols)] (map (\<lambda>r. [r]) rows)))"

definition sem_where :: "'f pyf \<Rightarrow> 'f den option \<Rightarrow> 'f env list \<Rightarrow> 'f env list res" where
  "sem_where F w envs = (case w of None \<Rightarrow> Inr envs
     | Some d \<Rightarrow> filterR (\<lambda>e. bindR (d e None) (\<lambda>v. Inr (holds3 F v))) envs)"

section \<open>Select lists and groups\<close>

datatype 'f ditem = DStar | DTable string | DExpr "'f den" string bool

definition source_items :: "(string \<Rightarrow> bool) \<Rightarrow> srcs \<Rightarrow> ('f den \<times> string \<times> bool) list" where
  "source_items P srcs = concat (map (\<lambda>(al, cc). if P al then map (\<lambda>n. (\<lambda>env grp. lookup (Some al) n env, n, False)) cc else []) srcs)"

definition expand_item :: "bool \<Rightarrow> srcs \<Rightarrow> 'f ditem \<Rightarrow> ('f den \<times> string \<times> bool) list res" where
  "expand_item has_from srcs it = (case it of
     DExpr d n agg \<Rightarrow> Inr [(d, n, agg)]
   | DStar \<Rightarrow> if \<not> has_from then Inl (syntax_err ''no tables specified'') else Inr (source_items (\<lambda>_. True) srcs)
   | DTable a \<Rightarrow>
       if \<not> has_from then Inl (syntax_err ''no tables specified'')
       else if \<not> list_ex (\<lambda>(al, cc). lower_text al = lower_text a) srcs then Inl (SqlError ''no_table'' a)
       else Inr (source_items (\<lambda>al. lower_text al = lower_text a) srcs))"

definition eval_items :: "('f den \<times> string \<times> bool) list \<Rightarrow> 'f env \<Rightarrow> 'f env list option \<Rightarrow> 'f val list res" where
  "eval_items items env grp = mapR (\<lambda>(d, n, agg). d env grp) items"

text \<open>Groups in the order of their first rows.\<close>

fun add_group :: "('k \<Rightarrow> 'k \<Rightarrow> bool) \<Rightarrow> 'k \<Rightarrow> 'e \<Rightarrow> ('k \<times> 'e list) list \<Rightarrow> ('k \<times> 'e list) list" where
  "add_group eq k e [] = [(k, [e])]"
| "add_group eq k e ((k', es) # gs) = (if eq k' k then (k', es @ [e]) # gs else (k', es) # add_group eq k e gs)"

definition group_by :: "('k \<Rightarrow> 'k \<Rightarrow> bool) \<Rightarrow> ('k \<times> 'e) list \<Rightarrow> 'e list list" where
  "group_by eq kes = map snd (fold (\<lambda>(k, e) gs. add_group eq k e gs) kes [])"

definition sem_groups :: "'f pyf \<Rightarrow> 'f den list \<Rightarrow> 'f env list \<Rightarrow> 'f env list list res" where
  "sem_groups F keys envs =
     (if keys = [] then Inr [envs]
      else bindR (mapR (\<lambda>e. bindR (mapR (\<lambda>d. d e None) keys) (\<lambda>k. Inr (k, e))) envs) (\<lambda>kes. Inr (group_by (row_eq F) kes)))"

definition group_unit :: "'f pyf \<Rightarrow> 'f den option \<Rightarrow> ('f den \<times> string \<times> bool) list \<Rightarrow> 'f env \<Rightarrow> 'f env list \<Rightarrow> 'f unit_row option res" where
  "group_unit F having items nullenv g =
     (let rep = (case g of [] \<Rightarrow> nullenv | e # _ \<Rightarrow> e) in
      bindR (case having of None \<Rightarrow> Inr True | Some d \<Rightarrow> bindR (d rep (Some g)) (\<lambda>v. Inr (holds3 F v))) (\<lambda>keep.
        if keep then bindR (eval_items items rep (Some g)) (\<lambda>vals. Inr (Some (rep, Some g, vals))) else Inr None))"

definition unit_vals :: "'f unit_row \<Rightarrow> 'f val list" where "unit_vals u = snd (snd u)"

definition uniq_units :: "'f pyf \<Rightarrow> 'f unit_row list \<Rightarrow> 'f unit_row list" where
  "uniq_units F us = dedup (\<lambda>a b. row_eq F (unit_vals a) (unit_vals b)) [] us"

definition sem_core :: "'f pyf \<Rightarrow> bool \<Rightarrow> 'f ditem list \<Rightarrow> 'f src_den option \<Rightarrow> (join_kind \<times> 'f src_den \<times> 'f den) list
    \<Rightarrow> 'f den option \<Rightarrow> 'f den list \<Rightarrow> 'f den option \<Rightarrow> bool \<Rightarrow> 'f env \<Rightarrow> (string list \<times> 'f unit_row list) res" where
  "sem_core F uniq items frm joins w keys having having_agg outer =
     bindR (sem_from F outer frm joins) (\<lambda>(srcs, combos).
     bindR (sem_where F w (map (\<lambda>combo. env_of srcs combo outer) combos)) (\<lambda>envs.
     bindR (mapR (expand_item (frm \<noteq> None) srcs) items) (\<lambda>exp.
       let its = concat exp; cols = map (\<lambda>(d, n, agg). n) its;
           agg = (keys \<noteq> [] \<or> list_ex (\<lambda>(d, n, agg). agg) its \<or> having_agg);
           nullenv = env_of srcs (map (\<lambda>(a, cc). replicate (length cc) VNone) srcs) outer
       in bindR (if \<not> agg then mapR (\<lambda>e. bindR (eval_items its e None) (\<lambda>vals. Inr (e, None, vals))) envs
                 else bindR (sem_groups F keys envs) (\<lambda>gs. bindR (mapR (group_unit F having its nullenv) gs) (\<lambda>us. Inr (List.map_filter id us)))) (\<lambda>units.
            Inr (cols, if uniq then uniq_units F units else units)))))"

section \<open>Compound queries, order and limit\<close>

definition union_step :: "'f pyf \<Rightarrow> string list \<Rightarrow> 'f val list list \<Rightarrow> bool \<Rightarrow> string list \<times> 'f unit_row list \<Rightarrow> 'f val list list res" where
  "union_step F first rows keep_all c =
     (if length (fst c) \<noteq> length first then Inl (syntax_err ''column count mismatch in UNION'')
      else let res = rows @ map unit_vals (snd c) in Inr (if keep_all then res else dedup (row_eq F) [] res))"

fun sem_unions :: "'f pyf \<Rightarrow> 'f env \<Rightarrow> string list \<Rightarrow> 'f val list list \<Rightarrow> (bool \<times> ('f env \<Rightarrow> (string list \<times> 'f unit_row list) res)) list
    \<Rightarrow> 'f val list list res" where
  "sem_unions F outer first rows [] = Inr rows"
| "sem_unions F outer first rows ((keep_all, c) # cs) =
     bindR (c outer) (\<lambda>u. bindR (union_step F first rows keep_all u) (\<lambda>rows'. sem_unions F outer first rows' cs))"

text \<open>\<open>sorted(xs, key=..., reverse=desc)\<close>: stable, also in reverse.\<close>

fun insort :: "('k \<Rightarrow> 'k \<Rightarrow> bool) \<Rightarrow> 'k \<times> 'x \<Rightarrow> ('k \<times> 'x) list \<Rightarrow> ('k \<times> 'x) list" where
  "insort lt x [] = [x]"
| "insort lt x (y # ys) = (if lt (fst y) (fst x) then y # insort lt x ys else x # y # ys)"

definition py_sort :: "('k \<Rightarrow> 'k \<Rightarrow> bool) \<Rightarrow> ('k \<times> 'x) list \<Rightarrow> ('k \<times> 'x) list" where
  "py_sort lt xs = foldr (insort lt) xs []"

definition py_sorted :: "('k \<Rightarrow> 'k \<Rightarrow> bool) \<Rightarrow> bool \<Rightarrow> ('k \<times> 'x) list \<Rightarrow> ('k \<times> 'x) list" where
  "py_sorted lt desc xs = (if desc then rev (py_sort lt (rev xs)) else py_sort lt xs)"

fun index_of :: "('a \<Rightarrow> bool) \<Rightarrow> 'a list \<Rightarrow> nat option" where
  "index_of P [] = None"
| "index_of P (x # xs) = (if P x then Some 0 else map_option Suc (index_of P xs))"

definition order_key :: "string list \<Rightarrow> bool \<Rightarrow> 'f expr \<Rightarrow> 'f den \<Rightarrow> 'f unit_row \<Rightarrow> 'f val res" where
  "order_key cols single e d u =
     (let other = (if \<not> single then Inl (SqlError ''no_column'' ''ORDER BY in compound select must use output columns'')
                   else d (fst u) (fst (snd u))) in
      case e of
        ELit (VInt i) \<Rightarrow> if i < 1 \<or> int (length cols) < i then Inl (syntax_err ''ORDER BY position out of range'')
          else Inr (unit_vals u ! nat (i - 1))
      | ECol None name \<Rightarrow> (case index_of (\<lambda>c. lower_text c = lower_text name) cols of
          Some i \<Rightarrow> Inr (unit_vals u ! i) | None \<Rightarrow> other)
      | _ \<Rightarrow> other)"

definition order_by :: "'f pyf \<Rightarrow> string list \<Rightarrow> bool \<Rightarrow> 'f expr \<times> 'f den \<times> bool \<Rightarrow> 'f unit_row list \<Rightarrow> 'f unit_row list res" where
  "order_by F cols single = (\<lambda>(e, d, desc) units.
     bindR (mapR (\<lambda>u. bindR (order_key cols single e d u) (\<lambda>k. Inr (k, u))) units) (\<lambda>kus.
       Inr (map snd (py_sorted (sk_lt F) desc kus))))"

fun order_all :: "'f pyf \<Rightarrow> string list \<Rightarrow> bool \<Rightarrow> ('f expr \<times> 'f den \<times> bool) list \<Rightarrow> 'f unit_row list \<Rightarrow> 'f unit_row list res" where
  "order_all F cols single [] units = Inr units"
| "order_all F cols single (k # ks) units = bindR (order_all F cols single ks units) (order_by F cols single k)"

definition limit_rows :: "'f val \<Rightarrow> 'f val \<Rightarrow> 'a list \<Rightarrow> 'a list res" where
  "limit_rows lim off rows = (case (lim, off) of
     (VInt l, VInt o1) \<Rightarrow> (let r = drop (nat (max o1 0)) rows in Inr (if l < 0 then r else take (nat l) r))
   | _ \<Rightarrow> Inl (syntax_err ''LIMIT must be integer''))"

definition sem_limit :: "'f den option \<Rightarrow> 'f den option \<Rightarrow> 'a list \<Rightarrow> 'a list res" where
  "sem_limit lim off rows = (case lim of None \<Rightarrow> Inr rows
     | Some d \<Rightarrow> bindR (d [[]] None) (\<lambda>l. bindR (case off of None \<Rightarrow> Inr (VInt 0) | Some d2 \<Rightarrow> d2 [[]] None) (\<lambda>o1. limit_rows l o1 rows)))"

definition sem_finish :: "'f pyf \<Rightarrow> ('f expr \<times> 'f den \<times> bool) list \<Rightarrow> 'f den option \<Rightarrow> 'f den option \<Rightarrow> string list \<Rightarrow> 'f unit_row list \<Rightarrow> bool \<Rightarrow> 'f rows res" where
  "sem_finish F order lim off cols units single =
     bindR (order_all F cols single order units) (\<lambda>us. bindR (sem_limit lim off (map unit_vals us)) (\<lambda>rows. Inr (cols, rows)))"

definition sem_select :: "'f pyf \<Rightarrow> ('f env \<Rightarrow> (string list \<times> 'f unit_row list) res) list \<Rightarrow> bool list \<Rightarrow> ('f expr \<times> 'f den \<times> bool) list
    \<Rightarrow> 'f den option \<Rightarrow> 'f den option \<Rightarrow> 'f env \<Rightarrow> 'f rows res" where
  "sem_select F cores alls order lim off outer = (case cores of
     [] \<Rightarrow> Inl (IndexError ''list index out of range'')
   | c # cs \<Rightarrow> bindR (c outer) (\<lambda>(cols, units).
       if cs = [] then sem_finish F order lim off cols units True
       else bindR (sem_unions F outer cols (map unit_vals units) (zip alls cs)) (\<lambda>rows.
         sem_finish F order lim off cols (map (\<lambda>r. ([], None, r)) rows) False)))"

section \<open>The evaluator\<close>

primrec eval :: "'f pyf \<Rightarrow> 'f sql_tables \<Rightarrow> 'f val list \<Rightarrow> 'f expr \<Rightarrow> 'f den"
  and eval_in :: "'f pyf \<Rightarrow> 'f sql_tables \<Rightarrow> 'f val list \<Rightarrow> 'f inset \<Rightarrow> 'f env \<Rightarrow> 'f env list option \<Rightarrow> 'f val list res"
  and select :: "'f pyf \<Rightarrow> 'f sql_tables \<Rightarrow> 'f val list \<Rightarrow> 'f sel \<Rightarrow> 'f env \<Rightarrow> 'f rows res"
  and core :: "'f pyf \<Rightarrow> 'f sql_tables \<Rightarrow> 'f val list \<Rightarrow> 'f core \<Rightarrow> 'f env \<Rightarrow> (string list \<times> 'f unit_row list) res"
  and eval_item :: "'f pyf \<Rightarrow> 'f sql_tables \<Rightarrow> 'f val list \<Rightarrow> 'f item \<Rightarrow> 'f ditem"
  and source_rows :: "'f pyf \<Rightarrow> 'f sql_tables \<Rightarrow> 'f val list \<Rightarrow> 'f src \<Rightarrow> 'f src_den" where
  "eval F T ps (ELit v) = (\<lambda>env grp. Inr v)"
| "eval F T ps (EParam i) = sem_param ps i"
| "eval F T ps (ECol t c) = (\<lambda>env grp. lookup t c env)"
| "eval F T ps (ENeg e) = sem_neg F (eval F T ps e)"
| "eval F T ps (ENot e) = sem_not F (eval F T ps e)"
| "eval F T ps (EAnd a b) = sem_and F (eval F T ps a) (eval F T ps b)"
| "eval F T ps (EOr a b) = sem_or F (eval F T ps a) (eval F T ps b)"
| "eval F T ps (EBin o1 a b) = sem_bin F o1 (eval F T ps a) (eval F T ps b)"
| "eval F T ps (EIs a b neg) = sem_is F (eval F T ps a) (eval F T ps b) neg"
| "eval F T ps (EBetween a lo hi neg) = sem_between F (eval F T ps a) (eval F T ps lo) (eval F T ps hi) neg"
| "eval F T ps (ELike a p neg) = sem_like F (eval F T ps a) (eval F T ps p) neg"
| "eval F T ps (EIn a s neg) = sem_in F (eval F T ps a) (eval_in F T ps s) neg"
| "eval F T ps (EExists s) = sem_exists (select F T ps s)"
| "eval F T ps (ESubq s) = sem_subq (select F T ps s)"
| "eval F T ps (ECase o1 ws els) =
     sem_case F (map_option (eval F T ps) o1) (map (map_prod (eval F T ps) (eval F T ps)) ws) (map_option (eval F T ps) els)"
| "eval F T ps (EFunc name args uniq star) = sem_func F name (map (eval F T ps) args) uniq star"
| "eval_in F T ps (InList es) = sem_list (map (eval F T ps) es)"
| "eval_in F T ps (InSel s) = sem_column (select F T ps s)"
| "select F T ps (Select cores alls order lim off) =
     sem_select F (map (core F T ps) cores) alls
       (map2 (\<lambda>(e, desc) d. (e, d, desc)) order (map fst (map (map_prod (eval F T ps) (\<lambda>b. b)) order)))
       (map_option (eval F T ps) lim) (map_option (eval F T ps) off)"
| "core F T ps (Core uniq items frm joins w keys having) =
     sem_core F uniq (map (eval_item F T ps) items) (map_option (source_rows F T ps) frm)
       (map (map_prod (\<lambda>k. k) (map_prod (source_rows F T ps) (eval F T ps))) joins)
       (map_option (eval F T ps) w) (map (eval F T ps) keys) (map_option (eval F T ps) having)
       (case having of None \<Rightarrow> False | Some h \<Rightarrow> has_agg h)"
| "eval_item F T ps IStar = DStar"
| "eval_item F T ps (ITable t) = DTable t"
| "eval_item F T ps (IExpr e n) = DExpr (eval F T ps e) n (has_agg e)"
| "source_rows F T ps (STable name alias) = sem_table T name alias"
| "source_rows F T ps (SSub s alias) = sem_sub (select F T ps s) alias"

end
