(* ===== verification/Sql_Db.thy ===== *)
theory Sql_Db
  imports Sql_Query
begin

text \<open>
  The database of minisql: statements that write, constraint checks, transactions, and the log file with its JSON lines. The
  tables are the state of the writing statements, which raise half way and are undone by \<open>_run\<close>. The log file is a text of
  code points below 128; \<open>db_log\<close> is its content, or \<open>None\<close> for a database in memory, and \<open>db_buf\<close> the text that a
  failed write left in the buffers of the file object. Every write of the log may fail; how it ends is an argument of the statement.
\<close>

section \<open>Statements that write\<close>

type_synonym ('f, 'a) table_act = "('f sql_tables, 'a) act"

definition wants_value :: "'f coldef \<Rightarrow> bool" where "wants_value c \<longleftrightarrow> cd_notnull c \<or> cd_pk c"
definition wants_unique :: "'f coldef \<Rightarrow> bool" where "wants_unique c \<longleftrightarrow> cd_pk c \<or> cd_unique c"

definition same_val :: "'f pyf \<Rightarrow> 'f val \<Rightarrow> 'f val \<Rightarrow> bool" where "same_val F a b \<longleftrightarrow> cmp_val F a b = 0"

text \<open>The check of one column; \<open>but\<close> is the row being replaced.\<close>

definition check_col :: "'f pyf \<Rightarrow> 'f sql_table \<Rightarrow> 'f val list \<Rightarrow> nat option \<Rightarrow> nat \<times> 'f coldef \<Rightarrow> unit res" where
  "check_col F t row but = (\<lambda>(i, c).
     if row ! i = VNone \<and> wants_value c then Inl (SqlError ''constraint'' (''NOT NULL '' @ tb_name t @ ''.'' @ cd_name c))
     else if wants_unique c \<and> row ! i \<noteq> VNone
       \<and> list_ex (\<lambda>(j, r). but \<noteq> Some j \<and> same_val F (r ! i) (row ! i)) (enumerate 0 (tb_rows t))
     then Inl (SqlError ''constraint'' (''UNIQUE '' @ tb_name t @ ''.'' @ cd_name c))
     else Inr ())"

definition check_row :: "'f pyf \<Rightarrow> 'f sql_table \<Rightarrow> 'f val list \<Rightarrow> nat option \<Rightarrow> unit res" where
  "check_row F t row but = bindR (mapR (check_col F t row but) (enumerate 0 (tb_cols t))) (\<lambda>_. Inr ())"

definition ipk :: "'f sql_table \<Rightarrow> nat option" where
  "ipk t = index_of (\<lambda>c. cd_pk c \<and> cd_type c = INTEGER) (tb_cols t)"

text \<open>\<open>max(values, default=0) + 1\<close>; Python neither compares a text with a number nor adds 1 to it.\<close>

definition is_num :: "'f val \<Rightarrow> bool" where
  "is_num v = (case v of VInt _ \<Rightarrow> True | VFloat _ \<Rightarrow> True | _ \<Rightarrow> False)"

definition next_key :: "'f pyf \<Rightarrow> 'f val list \<Rightarrow> 'f val res" where
  "next_key F vs =
     (if vs = [] then Inr (VInt 1)
      else if \<not> list_all is_num vs then Inl (TypeError ''not supported between instances'')
      else arith (+) (fl_add F) F (best (\<lambda>a b. sk_lt F b a) vs) (VInt 1))"

definition put_rows :: "string \<Rightarrow> 'f sql_table \<Rightarrow> 'f val list list \<Rightarrow> 'f sql_tables \<Rightarrow> 'f sql_tables" where
  "put_rows name t rows T = T(lower_text name \<mapsto> t\<lparr>tb_rows := rows\<rparr>)"

text \<open>Positions of the columns a statement names.\<close>

definition col_index :: "'f sql_table \<Rightarrow> string \<Rightarrow> nat res" where
  "col_index t c = (case index_of (\<lambda>n. lower_text n = lower_text c) (colnames t) of
     None \<Rightarrow> Inl (SqlError ''no_column'' c) | Some i \<Rightarrow> Inr i)"

definition coerce_row :: "'f pyf \<Rightarrow> 'f sql_table \<Rightarrow> 'f val list \<Rightarrow> 'f val list res" where
  "coerce_row F t row = mapR (\<lambda>(c, v). coerce F (cd_type c) v) (zip (tb_cols t) row)"

definition set_cols :: "(nat \<times> 'f val) list \<Rightarrow> 'f val list \<Rightarrow> 'f val list" where
  "set_cols ivs row = fold (\<lambda>(i, v) r. r[i := v]) ivs row"

definition fill_key :: "'f pyf \<Rightarrow> 'f sql_table \<Rightarrow> 'f val list \<Rightarrow> 'f val list res" where
  "fill_key F t row = (case ipk t of
     None \<Rightarrow> Inr row
   | Some k \<Rightarrow> if row ! k \<noteq> VNone then Inr row
       else bindR (next_key F (map (\<lambda>r. r ! k) (tb_rows t))) (\<lambda>v. Inr (row[k := v])))"

definition value_row :: "'f pyf \<Rightarrow> 'f sql_table \<Rightarrow> nat list \<Rightarrow> 'f val list \<Rightarrow> 'f val list res" where
  "value_row F t idx vals =
     (if length vals \<noteq> length idx then Inl (syntax_err ''column count mismatch'')
      else bindR (coerce_row F t (set_cols (zip idx vals) (map cd_default (tb_cols t)))) (fill_key F t))"

definition insert_row :: "'f pyf \<Rightarrow> string \<Rightarrow> nat list \<Rightarrow> 'f val list \<Rightarrow> ('f, unit) table_act" where
  "insert_row F name idx vals = withA (\<lambda>T. bindA (liftA (\<lambda>_. get_table T name)) (\<lambda>t.
     bindA (liftA (\<lambda>_. value_row F t idx vals)) (\<lambda>row. bindA (liftA (\<lambda>_. check_row F t row None)) (\<lambda>_.
       modA (put_rows name t (tb_rows t @ [row]))))))"

definition insert_rows :: "'f pyf \<Rightarrow> 'f sql_tables \<Rightarrow> 'f val list \<Rightarrow> 'f insert_src \<Rightarrow> 'f val list list res" where
  "insert_rows F T ps src = (case src of
     IValues rows \<Rightarrow> mapR (\<lambda>r. mapR (\<lambda>e. eval F T ps e [[]] None) r) rows
   | ISelect sel \<Rightarrow> bindR (select F T ps sel []) (\<lambda>(cols, rows). Inr rows))"

definition do_insert :: "'f pyf \<Rightarrow> 'f val list \<Rightarrow> string \<Rightarrow> string list option \<Rightarrow> 'f insert_src \<Rightarrow> ('f, int) table_act" where
  "do_insert F ps name cols src = withA (\<lambda>T. bindA (liftA (\<lambda>_. get_table T name)) (\<lambda>t.
     bindA (liftA (\<lambda>_. case cols of None \<Rightarrow> Inr [0..<length (tb_cols t)] | Some cs \<Rightarrow> mapR (col_index t) cs)) (\<lambda>idx.
     bindA (liftA (\<lambda>_. insert_rows F T ps src)) (\<lambda>rows.
     bindA (mapA (insert_row F name idx) rows) (\<lambda>_. retA (int (length rows)))))))"

definition row_env :: "'f sql_table \<Rightarrow> 'f val list \<Rightarrow> 'f env" where
  "row_env t r = [[(tb_name t, colnames t, r)]]"

definition row_hit :: "'f pyf \<Rightarrow> 'f sql_tables \<Rightarrow> 'f val list \<Rightarrow> 'f sql_table \<Rightarrow> 'f expr option \<Rightarrow> 'f val list \<Rightarrow> bool res" where
  "row_hit F T ps t w r = (case w of None \<Rightarrow> Inr True | Some e \<Rightarrow> bindR (eval F T ps e (row_env t r) None) (\<lambda>v. Inr (holds3 F v)))"

text \<open>The rows an update hits with the values of its right-hand sides, all taken before any row changes.\<close>

definition update_hits :: "'f pyf \<Rightarrow> 'f sql_tables \<Rightarrow> 'f val list \<Rightarrow> 'f sql_table \<Rightarrow> 'f expr list \<Rightarrow> 'f expr option \<Rightarrow> (nat \<times> 'f val list) list res" where
  "update_hits F T ps t es w =
     bindR (mapR (\<lambda>(j, r). bindR (row_hit F T ps t w r) (\<lambda>hit.
        if hit then bindR (mapR (\<lambda>e. eval F T ps e (row_env t r) None) es) (\<lambda>vals. Inr (Some (j, vals))) else Inr None))
      (enumerate 0 (tb_rows t))) (\<lambda>hs. Inr (List.map_filter id hs))"

definition update_row :: "'f pyf \<Rightarrow> string \<Rightarrow> nat list \<Rightarrow> nat \<times> 'f val list \<Rightarrow> ('f, unit) table_act" where
  "update_row F name idx = (\<lambda>(j, vals). withA (\<lambda>T. bindA (liftA (\<lambda>_. get_table T name)) (\<lambda>t.
     bindA (liftA (\<lambda>_. mapR (\<lambda>(i, v). bindR (coerce F (cd_type (tb_cols t ! i)) v) (\<lambda>w. Inr (i, w))) (zip idx vals))) (\<lambda>ivs.
     let new = set_cols ivs (tb_rows t ! j) in
     bindA (liftA (\<lambda>_. check_row F t new (Some j))) (\<lambda>_. modA (put_rows name t ((tb_rows t)[j := new])))))))"

definition do_update :: "'f pyf \<Rightarrow> 'f val list \<Rightarrow> string \<Rightarrow> (string \<times> 'f expr) list \<Rightarrow> 'f expr option \<Rightarrow> ('f, int) table_act" where
  "do_update F ps name sets w = withA (\<lambda>T. bindA (liftA (\<lambda>_. get_table T name)) (\<lambda>t.
     bindA (liftA (\<lambda>_. mapR (\<lambda>(c, e). col_index t c) sets)) (\<lambda>idx.
     bindA (liftA (\<lambda>_. update_hits F T ps t (map snd sets) w)) (\<lambda>hits.
     bindA (mapA (update_row F name idx) hits) (\<lambda>_. retA (int (length hits)))))))"

definition do_delete :: "'f pyf \<Rightarrow> 'f val list \<Rightarrow> string \<Rightarrow> 'f expr option \<Rightarrow> ('f, int) table_act" where
  "do_delete F ps name w = withA (\<lambda>T. bindA (liftA (\<lambda>_. get_table T name)) (\<lambda>t.
     bindA (liftA (\<lambda>_. filterR (\<lambda>r. bindR (row_hit F T ps t w r) (\<lambda>hit. Inr (\<not> hit))) (tb_rows t))) (\<lambda>keep.
     bindA (modA (put_rows name t keep)) (\<lambda>_. retA (int (length (tb_rows t)) - int (length keep))))))"

definition do_create :: "string \<Rightarrow> 'f coldef list \<Rightarrow> bool \<Rightarrow> ('f, int) table_act" where
  "do_create name cols ine = withA (\<lambda>T.
     if T (lower_text name) \<noteq> None then (if ine then retA 0 else raiseA (SqlError ''exists'' name))
     else if \<not> distinct (map (\<lambda>c. lower_text (cd_name c)) cols) then raiseA (syntax_err ''duplicate column'')
     else bindA (modA (\<lambda>T. T(lower_text name \<mapsto> \<lparr>tb_name = name, tb_cols = cols, tb_rows = []\<rparr>))) (\<lambda>_. retA 0))"

definition do_drop :: "string \<Rightarrow> bool \<Rightarrow> ('f, int) table_act" where
  "do_drop name ie = withA (\<lambda>T.
     if T (lower_text name) = None then (if ie then retA 0 else raiseA (SqlError ''no_table'' name))
     else bindA (modA (\<lambda>T. T(lower_text name := None))) (\<lambda>_. retA 0))"

definition do_write :: "'f pyf \<Rightarrow> 'f val list \<Rightarrow> 'f stmt \<Rightarrow> ('f, int) table_act" where
  "do_write F ps node = (case node of
     StCreate name cols ine \<Rightarrow> do_create name cols ine
   | StDrop name ie \<Rightarrow> do_drop name ie
   | StInsert name cols src \<Rightarrow> do_insert F ps name cols src
   | StUpdate name sets w \<Rightarrow> do_update F ps name sets w
   | StDelete name w \<Rightarrow> do_delete F ps name w
   | _ \<Rightarrow> retA 0)"

section \<open>JSON\<close>

datatype 'f json = JNull | JBool bool | JInt int | JFloat 'f | JStr string | JArr "'f json list" | JObj "(string \<times> 'f json) list"

definition hex_digit :: "nat \<Rightarrow> char" where "hex_digit n = char_of (if n < 10 then 48 + n else 87 + n)"

definition esc_char :: "char \<Rightarrow> string" where
  "esc_char c = (let n = ord_of c in
     if c = dquote then [CHR 0x5C, dquote] else if c = CHR 0x5C then [CHR 0x5C, CHR 0x5C]
     else if n = 8 then CHR 0x5C # ''b'' else if n = 9 then CHR 0x5C # ''t'' else if n = 10 then CHR 0x5C # ''n''
     else if n = 12 then CHR 0x5C # ''f'' else if n = 13 then CHR 0x5C # ''r''
     else if 32 \<le> n \<and> n \<le> 126 then [c]
     else CHR 0x5C # ''u00'' @ [hex_digit (n div 16), hex_digit (n mod 16)])"

definition json_string :: "string \<Rightarrow> string" where
  "json_string s = dquote # concat (map esc_char s) @ [dquote]"

definition json_val :: "'f pyf \<Rightarrow> 'f val \<Rightarrow> string" where
  "json_val F v = (case v of VNone \<Rightarrow> ''null'' | VInt i \<Rightarrow> int_text i | VFloat f \<Rightarrow> fl_json F f | VStr s \<Rightarrow> json_string s)"

fun json_list :: "string list \<Rightarrow> string" where
  "json_list [] = ''[]''"
| "json_list (x # xs) = ''['' @ x @ concat (map (\<lambda>y. '','' @ y) xs) @ '']''"

type_synonym 'f entry = "string \<times> 'f val list"

definition json_entry :: "'f pyf \<Rightarrow> 'f entry \<Rightarrow> string" where
  "json_entry F = (\<lambda>(sql, ps). json_list [json_string sql, json_list (map (json_val F) ps)])"

definition json_line :: "'f pyf \<Rightarrow> 'f entry list \<Rightarrow> string" where
  "json_line F es = CHR 0x7B # json_string ''txn'' @ '':'' @ json_list (map (json_entry F) es) @ [CHR 0x7D]"

text \<open>Reading: white space, strings, numbers, and values nested at most as deep as the text is long.\<close>

definition json_ws :: "string \<Rightarrow> string" where
  "json_ws s = dropWhile (\<lambda>c. ord_of c \<in> {32, 9, 10, 13}) s"

definition bad_json :: py_error where "bad_json = ValueError ''JSONDecodeError''"

definition hex_val :: "char \<Rightarrow> nat option" where
  "hex_val c = (let n = ord_of c in if 48 \<le> n \<and> n \<le> 57 then Some (n - 48) else if 97 \<le> n \<and> n \<le> 102 then Some (n - 87)
     else if 65 \<le> n \<and> n \<le> 70 then Some (n - 55) else None)"

text \<open>A code point above 255 has no character here and is refused.\<close>

definition hex4 :: "string \<Rightarrow> char res" where
  "hex4 s = (case map hex_val (take 4 s) of
     [Some a, Some b, Some c, Some d] \<Rightarrow> if a = 0 \<and> b = 0 then Inr (char_of (c * 16 + d)) else Inl bad_json
   | _ \<Rightarrow> Inl bad_json)"

definition unescape :: "char \<Rightarrow> char option" where
  "unescape c = (if c = dquote \<or> c = CHR 0x5C \<or> c = CHR ''/'' then Some c else if c = CHR ''b'' then Some (char_of (8 :: nat))
     else if c = CHR ''t'' then Some (char_of (9 :: nat)) else if c = CHR ''n'' then Some (char_of (10 :: nat))
     else if c = CHR ''f'' then Some (char_of (12 :: nat)) else if c = CHR ''r'' then Some (char_of (13 :: nat)) else None)"

function read_string :: "string \<Rightarrow> (string \<times> string) res" where
  "read_string s = (case s of
     [] \<Rightarrow> Inl bad_json
   | c # r \<Rightarrow>
       if c = dquote then Inr ([], r)
       else if ord_of c < 32 then Inl bad_json
       else if c \<noteq> CHR 0x5C then bindR (read_string r) (\<lambda>(t, u). Inr (c # t, u))
       else (case r of
           [] \<Rightarrow> Inl bad_json
         | e # r2 \<Rightarrow>
             if e = CHR ''u'' then bindR (hex4 r2) (\<lambda>x. bindR (read_string (drop 4 r2)) (\<lambda>(t, u). Inr (x # t, u)))
             else (case unescape e of None \<Rightarrow> Inl bad_json
               | Some x \<Rightarrow> bindR (read_string r2) (\<lambda>(t, u). Inr (x # t, u)))))"
  by pat_completeness auto
termination by (relation "measure length") auto

declare read_string.simps [simp del]

text \<open>The length of a number at the head of a text: sign, integer part without leading zeros, fraction, exponent.\<close>

definition json_int_len :: "string \<Rightarrow> nat" where
  "json_int_len s = (let k = (case s of c # _ \<Rightarrow> if c = CHR ''-'' then 1 else 0 | [] \<Rightarrow> 0); r = drop k s; n = decs r in
     if n = 0 then 0 else if hd r = CHR ''0'' then k + 1 else k + n)"

definition json_frac_len :: "string \<Rightarrow> nat" where
  "json_frac_len s = (if scan_frac s < 2 then 0 else scan_frac s)"

definition json_num_len :: "string \<Rightarrow> nat" where
  "json_num_len s = (let n = json_int_len s; m = n + json_frac_len (drop n s) in if n = 0 then 0 else m + scan_exp (drop m s))"

definition read_literal :: "'f pyf \<Rightarrow> string \<Rightarrow> ('f json \<times> string) res" where
  "read_literal F s =
     (if take 4 s = ''null'' then Inr (JNull, drop 4 s)
      else if take 4 s = ''true'' then Inr (JBool True, drop 4 s)
      else if take 5 s = ''false'' then Inr (JBool False, drop 5 s)
      else if take 3 s = ''NaN'' then Inr (JFloat (fl_of_str F ''nan''), drop 3 s)
      else if take 8 s = ''Infinity'' then Inr (JFloat (fl_of_str F ''inf''), drop 8 s)
      else if take 9 s = ''-Infinity'' then Inr (JFloat (fl_of_str F ''-inf''), drop 9 s)
      else let n = json_num_len s; t = take n s in
        if n = 0 then Inl bad_json
        else Inr (if is_float_text t then JFloat (fl_of_str F t) else JInt (int_of_text t), drop n s))"

text \<open>Elements behind an opening bracket, up to the closing one, with the reader of one element.\<close>

fun read_elems :: "nat \<Rightarrow> (string \<Rightarrow> ('x \<times> string) res) \<Rightarrow> char \<Rightarrow> string \<Rightarrow> ('x list \<times> string) res" where
  "read_elems 0 one fin s = Inl bad_json"
| "read_elems (Suc n) one fin s = bindR (one (json_ws s)) (\<lambda>(x, r). case json_ws r of
     [] \<Rightarrow> Inl bad_json
   | c # r2 \<Rightarrow> if c = fin then Inr ([x], r2)
       else if c = CHR '','' then bindR (read_elems n one fin r2) (\<lambda>(xs, u). Inr (x # xs, u)) else Inl bad_json)"

definition read_seq :: "(string \<Rightarrow> ('x \<times> string) res) \<Rightarrow> char \<Rightarrow> string \<Rightarrow> ('x list \<times> string) res" where
  "read_seq one fin s = (case json_ws s of
     [] \<Rightarrow> Inl bad_json
   | c # r \<Rightarrow> if c = fin then Inr ([], r) else read_elems (length s) one fin s)"

definition read_pair :: "(string \<Rightarrow> ('x \<times> string) res) \<Rightarrow> string \<Rightarrow> ((string \<times> 'x) \<times> string) res" where
  "read_pair one s = (case s of
     [] \<Rightarrow> Inl bad_json
   | c # r \<Rightarrow> if c \<noteq> dquote then Inl bad_json
       else bindR (read_string r) (\<lambda>(k, u). case json_ws u of
           [] \<Rightarrow> Inl bad_json
         | d # u2 \<Rightarrow> if d \<noteq> CHR '':'' then Inl bad_json else bindR (one (json_ws u2)) (\<lambda>(x, v). Inr ((k, x), v))))"

fun read_json :: "'f pyf \<Rightarrow> nat \<Rightarrow> string \<Rightarrow> ('f json \<times> string) res" where
  "read_json F 0 s = Inl bad_json"
| "read_json F (Suc n) s = (case s of
     [] \<Rightarrow> Inl bad_json
   | c # r \<Rightarrow>
       if c = dquote then bindR (read_string r) (\<lambda>(t, u). Inr (JStr t, u))
       else if c = CHR 0x5B then bindR (read_seq (read_json F n) (CHR 0x5D) r) (\<lambda>(xs, u). Inr (JArr xs, u))
       else if c = CHR 0x7B then bindR (read_seq (read_pair (read_json F n)) (CHR 0x7D) r) (\<lambda>(xs, u). Inr (JObj xs, u))
       else read_literal F s)"

definition json_loads :: "'f pyf \<Rightarrow> string \<Rightarrow> 'f json res" where
  "json_loads F s = bindR (read_json F (Suc (length s)) (json_ws s)) (\<lambda>(j, r). if json_ws r \<noteq> [] then Inl bad_json else Inr j)"

section \<open>Transactions and the log\<close>

record 'f sql_db =
  db_tables :: "'f sql_tables"
  db_in_txn :: bool
  db_snap :: "'f sql_tables option"
  db_pending :: "'f entry list"
  db_log :: "string option"
  db_buf :: string

record 'f sql_result =
  rs_rows :: "'f val list list"
  rs_columns :: "string list"
  rs_rowcount :: int

definition done_result :: "int \<Rightarrow> 'f sql_result" where
  "done_result n = \<lparr>rs_rows = [], rs_columns = [], rs_rowcount = n\<rparr>"

definition new_db :: "string option \<Rightarrow> 'f sql_db" where
  "new_db content = \<lparr>db_tables = Map.empty, db_in_txn = False, db_snap = None, db_pending = [], db_log = content, db_buf = []\<rparr>"

definition newline :: char where "newline = CHR 0x0A"

text \<open>How encoding, \<open>write\<close>, \<open>flush\<close> and \<open>fsync\<close> of a log line end: well, or with an exception after so many code points of
  the buffered text and the line reached the file, the next so many being left in the buffers, where a later flush finds them.\<close>

datatype io = Written | Failed py_error nat nat

definition write_log :: "'f pyf \<Rightarrow> io \<Rightarrow> 'f entry list \<Rightarrow> ('f sql_db, unit) act" where
  "write_log F io es = withA (\<lambda>s. case db_log s of
     None \<Rightarrow> retA ()
   | Some content \<Rightarrow> if es = [] then retA ()
       else let t = db_buf s @ json_line F es @ [newline] in case io of
         Written \<Rightarrow> modA (\<lambda>s. s\<lparr>db_log := Some (content @ t), db_buf := []\<rparr>)
       | Failed e n m \<Rightarrow> bindA (modA (\<lambda>s. s\<lparr>db_log := Some (content @ take n t), db_buf := take m (drop n t)\<rparr>))
           (\<lambda>_. raiseA e))"

text \<open>Closing gives the buffers to the file, which is the database's no more.\<close>

definition close_db :: "'f sql_db \<Rightarrow> 'f sql_db" where
  "close_db s = s\<lparr>db_log := None, db_buf := []\<rparr>"

definition begin_txn :: "('f sql_db, 'f sql_result) act" where
  "begin_txn = withA (\<lambda>s. if db_in_txn s then raiseA (SqlError ''txn'' ''already in transaction'')
     else bindA (modA (\<lambda>s. s\<lparr>db_in_txn := True, db_snap := Some (db_tables s), db_pending := []\<rparr>)) (\<lambda>_. retA (done_result 0)))"

definition end_txn :: "'f pyf \<Rightarrow> io \<Rightarrow> bool \<Rightarrow> bool \<Rightarrow> ('f sql_db, 'f sql_result) act" where
  "end_txn F io commit log = withA (\<lambda>s. if \<not> db_in_txn s then raiseA (SqlError ''txn'' ''no transaction'')
     else bindA (if commit then (if log then write_log F io (db_pending s) else retA ())
                 else modA (\<lambda>s. s\<lparr>db_tables := the (db_snap s)\<rparr>)) (\<lambda>_.
          bindA (modA (\<lambda>s. s\<lparr>db_in_txn := False, db_snap := None, db_pending := []\<rparr>)) (\<lambda>_. retA (done_result 0))))"

text \<open>\<open>except Exception: self.tables = before; raise\<close>.\<close>

definition guarded_write :: "'f pyf \<Rightarrow> 'f val list \<Rightarrow> 'f stmt \<Rightarrow> ('f sql_db, int) act" where
  "guarded_write F ps node = withA (\<lambda>s0.
     catchA (\<lambda>_. True) (zoomA db_tables (\<lambda>T s. s\<lparr>db_tables := T\<rparr>) (do_write F ps node))
       (\<lambda>e. bindA (modA (\<lambda>s. s\<lparr>db_tables := db_tables s0\<rparr>)) (\<lambda>_. raiseA e)))"

definition run_write :: "'f pyf \<Rightarrow> io \<Rightarrow> string \<Rightarrow> 'f val list \<Rightarrow> bool \<Rightarrow> 'f stmt \<Rightarrow> ('f sql_db, 'f sql_result) act" where
  "run_write F io sql ps log node = bindA (guarded_write F ps node) (\<lambda>n.
     bindA (withA (\<lambda>s. if \<not> log then retA ()
       else if db_in_txn s then modA (\<lambda>s. s\<lparr>db_pending := db_pending s @ [(sql, ps)]\<rparr>)
       else write_log F io [(sql, ps)])) (\<lambda>_. retA (done_result n)))"

definition run_sql :: "'f pyf \<Rightarrow> io \<Rightarrow> string \<Rightarrow> 'f val list \<Rightarrow> bool \<Rightarrow> ('f sql_db, 'f sql_result) act" where
  "run_sql F io sql ps log = bindA (liftA (\<lambda>_. parse_sql F sql)) (\<lambda>(node, nparam).
     if nparam \<noteq> length ps then raiseA (syntax_err ''wrong number of parameters'')
     else case node of
       StBegin \<Rightarrow> begin_txn
     | StCommit \<Rightarrow> end_txn F io True log
     | StRollback \<Rightarrow> end_txn F io False log
     | StSelect sel \<Rightarrow> bindA (liftA (\<lambda>s. select F (db_tables s) ps sel [])) (\<lambda>(cols, rows).
         retA \<lparr>rs_rows = rows, rs_columns = cols, rs_rowcount = - 1\<rparr>)
     | _ \<Rightarrow> run_write F io sql ps log node)"

definition execute :: "'f pyf \<Rightarrow> io \<Rightarrow> string \<Rightarrow> 'f val list \<Rightarrow> ('f sql_db, 'f sql_result) act" where
  "execute F io sql ps = run_sql F io sql ps True"

section \<open>Opening a log\<close>

text \<open>Python iteration and unpacking of a JSON value.\<close>

definition json_iter :: "'f json \<Rightarrow> 'f json list res" where
  "json_iter j = (case j of JArr xs \<Rightarrow> Inr xs | JStr s \<Rightarrow> Inr (map (\<lambda>c. JStr [c]) s)
     | JObj kvs \<Rightarrow> Inr (map JStr (remdups (map fst kvs))) | _ \<Rightarrow> Inl (TypeError ''object is not iterable''))"

definition json_two :: "'f json \<Rightarrow> ('f json \<times> 'f json) res" where
  "json_two j = bindR (json_iter j) (\<lambda>xs. case xs of [a, b] \<Rightarrow> Inr (a, b) | _ \<Rightarrow> Inl (ValueError ''values to unpack''))"

definition json_txn :: "'f json \<Rightarrow> 'f json res" where
  "json_txn j = (case j of
     JObj kvs \<Rightarrow> (case map_of (rev kvs) ''txn'' of None \<Rightarrow> Inl (KeyError ''txn'') | Some x \<Rightarrow> Inr x)
   | _ \<Rightarrow> Inl (TypeError ''indices must be integers''))"

text \<open>Statements are texts and parameters are null, numbers and texts; nothing else is written to a log.\<close>

definition json_sql :: "'f json \<Rightarrow> string res" where
  "json_sql j = (case j of JStr s \<Rightarrow> Inr s | _ \<Rightarrow> Inl (TypeError ''statement is not a text''))"

definition json_param :: "'f json \<Rightarrow> 'f val res" where
  "json_param j = (case j of JNull \<Rightarrow> Inr VNone | JInt i \<Rightarrow> Inr (VInt i) | JFloat f \<Rightarrow> Inr (VFloat f) | JStr s \<Rightarrow> Inr (VStr s)
     | _ \<Rightarrow> Inl (TypeError ''parameter type''))"

text \<open>A replayed statement is not logged, so no write of the log can fail.\<close>

definition replay_one :: "'f pyf \<Rightarrow> 'f json \<Rightarrow> ('f sql_db, unit) act" where
  "replay_one F j = bindA (liftA (\<lambda>_. json_two j)) (\<lambda>(sql, params). bindA (liftA (\<lambda>_. bindR (json_iter params) (mapR json_param))) (\<lambda>ps.
     bindA (liftA (\<lambda>_. json_sql sql)) (\<lambda>q. bindA (run_sql F Written q ps False) (\<lambda>_. retA ()))))"

definition replay :: "'f pyf \<Rightarrow> 'f json \<Rightarrow> ('f sql_db, unit) act" where
  "replay F j = bindA (liftA (\<lambda>_. bindR (json_txn j) json_iter)) (\<lambda>js. bindA (mapA (replay_one F) js) (\<lambda>_. retA ()))"

definition replay_line :: "'f pyf \<Rightarrow> string \<Rightarrow> ('f sql_db, unit) act" where
  "replay_line F ln = bindA (liftA (\<lambda>_. case json_loads F ln of
       Inl e \<Rightarrow> if is_value_error e then Inl (SqlError ''corrupt'' ''bad log line'') else Inl e | Inr j \<Rightarrow> Inr j)) (replay F)"

text \<open>\<open>data.split(''newline'')\<close>: the lines, and the text behind the last newline.\<close>

fun split_lines :: "string \<Rightarrow> string list" where
  "split_lines [] = [[]]"
| "split_lines (c # s) = (if c = newline then [] # split_lines s else (c # hd (split_lines s)) # tl (split_lines s))"

definition HEADER :: string where "HEADER = ''MINISQL-LOG 1''"

text \<open>\<open>Database(path)\<close> on a file with this content, which is empty when there is no file. The torn last line is cut off the file.
  Writing the header of a new file is taken to succeed.\<close>

definition open_db :: "'f pyf \<Rightarrow> string \<Rightarrow> unit res \<times> 'f sql_db" where
  "open_db F content =
     (if content = [] then (Inr (), new_db (Some (HEADER @ [newline])))
      else let ls = split_lines content in
        if hd ls \<noteq> HEADER then (Inl (SqlError ''corrupt'' ''bad header''), new_db None)
        else bindA (mapA (replay_line F) (butlast (tl ls))) (\<lambda>_.
          modA (\<lambda>s. s\<lparr>db_log := Some (take (length content - length (last ls)) content)\<rparr>)) (new_db None))"

end
