(* ===== verification/Sql_Cli.thy ===== *)
theory Sql_Cli
  imports Sql_Db
begin

text \<open>
  The command line of minisql: statements split at semicolons outside quotes, run one after the other, with the rows and
  the error codes it prints. Standard output is a list of lines; an exception other than an \<open>SQLError\<close> ends the process.
\<close>

definition fmt :: "'f pyf \<Rightarrow> 'f val \<Rightarrow> string" where
  "fmt F v = (case v of VNone \<Rightarrow> ''NULL'' | VFloat f \<Rightarrow> fl_repr F f | VInt i \<Rightarrow> int_text i | VStr s \<Rightarrow> s)"

text \<open>The quote that is open, the text of the statement so far and the rest.\<close>

fun split_from :: "char option \<Rightarrow> string \<Rightarrow> string \<Rightarrow> string list" where
  "split_from q cur [] = [cur]"
| "split_from q cur (ch # s) = (case q of
     Some c \<Rightarrow> split_from (if ch = c then None else q) (cur @ [ch]) s
   | None \<Rightarrow> if ch = squote \<or> ch = dquote then split_from (Some ch) (cur @ [ch]) s
       else if ch = CHR '';'' then cur # split_from None [] s else split_from None (cur @ [ch]) s)"

definition split_statements :: "string \<Rightarrow> string list" where
  "split_statements s = filter (\<lambda>t. strip is_space t \<noteq> []) (split_from None [] s)"

fun join_texts :: "string \<Rightarrow> string list \<Rightarrow> string" where
  "join_texts sep [] = []"
| "join_texts sep [t] = t"
| "join_texts sep (t # u # ts) = t @ sep @ join_texts sep (u # ts)"

definition result_lines :: "'f pyf \<Rightarrow> 'f sql_result \<Rightarrow> string list" where
  "result_lines F r = (if rs_rowcount r = - 1 then map (\<lambda>row. join_texts ''|'' (map (fmt F) row)) (rs_rows r) else [])"

text \<open>\<open>except SQLError as e\<close>: its code.\<close>

definition sql_code :: "py_error \<Rightarrow> string option" where
  "sql_code e = (case e of SqlError code msg \<Rightarrow> Some code | _ \<Rightarrow> None)"

text \<open>What is printed, the exception that ends the loop, if any, and the database. Each statement comes with how its
  write of the log ends.\<close>

fun cli_loop :: "'f pyf \<Rightarrow> (string \<times> io) list \<Rightarrow> 'f sql_db \<Rightarrow> string list \<times> py_error option \<times> 'f sql_db" where
  "cli_loop F [] s = ([], None, s)"
| "cli_loop F ((st, io) # sts) s = (case execute F io st [] s of
     (Inr r, s') \<Rightarrow> (let (out, e, t) = cli_loop F sts s' in (result_lines F r @ out, e, t))
   | (Inl e, s') \<Rightarrow> (case sql_code e of
       Some code \<Rightarrow> (let (out, e, t) = cli_loop F sts s' in ((''ERROR '' @ code) # out, e, t))
     | None \<Rightarrow> ([], Some e, s')))"

text \<open>\<open>Database(path)\<close>, with the content the file of that path has.\<close>

definition connect :: "'f pyf \<Rightarrow> string option \<Rightarrow> string \<Rightarrow> unit res \<times> 'f sql_db" where
  "connect F path content =
     (if path = None \<or> path = Some '':memory:'' then (Inr (), new_db None) else open_db F content)"

definition main :: "'f pyf \<Rightarrow> (nat \<Rightarrow> io) \<Rightarrow> string list \<Rightarrow> string \<Rightarrow> string \<Rightarrow> string list \<times> int res \<times> 'f sql_db" where
  "main F ios argv content input =
     (if length argv \<noteq> 2 then ([], Inr 2, new_db None)
      else case connect F (Some (argv ! 1)) content of
        (Inl e, s) \<Rightarrow> (case sql_code e of Some code \<Rightarrow> ([''ERROR '' @ code], Inr 1, s) | None \<Rightarrow> ([], Inl e, s))
      | (Inr _, s) \<Rightarrow> (case cli_loop F (map (\<lambda>(i, st). (st, ios i)) (enumerate 0 (split_statements input))) s of
          (out, None, t) \<Rightarrow> (out, Inr 0, close_db t) | (out, Some e, t) \<Rightarrow> (out, Inl e, t)))"

section \<open>Splitting\<close>

text \<open>A statement without a semicolon outside quotes, in which every quote is closed.\<close>

fun whole_from :: "char option \<Rightarrow> string \<Rightarrow> bool" where
  "whole_from q [] \<longleftrightarrow> q = None"
| "whole_from q (ch # s) \<longleftrightarrow> (case q of
     Some c \<Rightarrow> whole_from (if ch = c then None else q) s
   | None \<Rightarrow> if ch = squote \<or> ch = dquote then whole_from (Some ch) s else ch \<noteq> CHR '';'' \<and> whole_from None s)"

lemma split_whole: "whole_from q t \<Longrightarrow> split_from q cur (t @ CHR '';'' # s) = (cur @ t) # split_from None [] s"
proof (induction t arbitrary: q cur)
  case Nil
  then show ?case by (simp add: squote_def dquote_def)
next
  case (Cons ch t)
  then show ?case by (cases q; cases "ch = squote \<or> ch = dquote") simp_all
qed

lemma split_whole_end: "whole_from q t \<Longrightarrow> split_from q cur t = [cur @ t]"
proof (induction t arbitrary: q cur)
  case (Cons ch t)
  then show ?case by (cases q; cases "ch = squote \<or> ch = dquote") simp_all
qed simp

lemma split_statements_back:
  assumes "\<forall>t \<in> set ts. whole_from None t \<and> strip is_space t \<noteq> []"
  shows "split_statements (join_texts '';'' ts) = ts"
proof -
  have "ts \<noteq> [] \<Longrightarrow> split_from None [] (join_texts '';'' ts) = ts"
    using assms by (induction ts rule: induct_list012) (auto simp: split_whole split_whole_end)
  moreover have "strip is_space [] = []" by (simp add: strip_def rstrip_def lstrip_def)
  ultimately show ?thesis using assms by (cases ts) (auto simp: split_statements_def)
qed

text \<open>Every statement is run, whatever \<open>SQLError\<close>s others raise: the loop ends early only on another exception.\<close>

lemma cli_loop_append: "cli_loop F (xs @ ys) s = (let (out, e, t) = cli_loop F xs s in
    case e of None \<Rightarrow> (let (out', e', t') = cli_loop F ys t in (out @ out', e', t')) | Some x \<Rightarrow> (out, e, t))"
  by (induction F xs s rule: cli_loop.induct) (auto simp: Let_def split: prod.splits sum.splits option.splits)

end
