(* ===== verification/Sql_Json.thy ===== *)
theory Sql_Json
  imports Sql_Db Codec
begin

text \<open>
  The JSON lines of the minisql log: every line that is written is read back as the transaction it was written from, and
  holds no newline. The float texts of the standard library are a hypothesis: a float is written as its \<open>repr\<close>, which has
  a point or an exponent and is read back as the same float, or as one of the three names of the special values.
\<close>

section \<open>Texts\<close>

lemma newline_code: "ord_of newline = 10" and squote_code: "ord_of squote = 39" and dquote_code: "ord_of dquote = 34"
  by (simp_all add: newline_def squote_def dquote_def)

lemma char_cases: "P (char_of n) \<Longrightarrow> n = ord_of c \<Longrightarrow> P c"
  by simp

lemma of_char_less: "ord_of c < 256"
  using mod_less_divisor [of 256 "ord_of c"] of_char_mod_256 [of c, where ?'a = nat] by simp

lemma hex_digit_val: "k < 16 \<Longrightarrow> hex_val (hex_digit k) = Some k"
  by (auto simp: hex_val_def hex_digit_def Let_def)

lemma hex4_escape: "hex4 (''00'' @ hex_digit (ord_of c div 16) # hex_digit (ord_of c mod 16) # r) = Inr c"
proof -
  have "ord_of c div 16 < 16" "ord_of c mod 16 < 16" using of_char_less [of c] by (simp_all add: less_mult_imp_div_less)
  note h = this [THEN hex_digit_val]
  have z: "hex_val (CHR ''0'') = Some 0" by (simp add: hex_val_def)
  show ?thesis by (simp add: hex4_def h z mult.commute)
qed

definition short_esc :: "char \<Rightarrow> char \<Rightarrow> bool" where
  "short_esc c e \<longleftrightarrow> esc_char c = [CHR 0x5C, e] \<and> e \<noteq> CHR ''u'' \<and> unescape e = Some c \<and> e \<noteq> newline"

lemma esc_char_short:
  assumes "c = dquote \<or> c = CHR 0x5C \<or> ord_of c \<in> {8, 9, 10, 12, 13}"
  shows "\<exists>e. short_esc c e"
proof -
  have code: "ord_of c = n \<Longrightarrow> c = char_of n" for n by (metis char_of_char)
  from assms have "short_esc c dquote \<or> short_esc c (CHR 0x5C) \<or> short_esc c (CHR ''b'') \<or> short_esc c (CHR ''t'')
     \<or> short_esc c (CHR ''n'') \<or> short_esc c (CHR ''f'') \<or> short_esc c (CHR ''r'')"
    by (auto simp: short_esc_def esc_char_def unescape_def dquote_def newline_def Let_def dest!: code)
  then show ?thesis by blast
qed

lemma esc_char_long:
  assumes "\<not> (c = dquote \<or> c = CHR 0x5C \<or> ord_of c \<in> {8, 9, 10, 12, 13})"
  shows "esc_char c = (if 32 \<le> ord_of c \<and> ord_of c \<le> 126 then [c]
     else CHR 0x5C # CHR ''u'' # ''00'' @ [hex_digit (ord_of c div 16), hex_digit (ord_of c mod 16)])"
  using assms by (simp add: esc_char_def Let_def)

lemma read_string_plain:
  "c \<noteq> dquote \<Longrightarrow> c \<noteq> CHR 0x5C \<Longrightarrow> 32 \<le> ord_of c \<Longrightarrow> read_string (c # t) = bindR (read_string t) (\<lambda>(x, u). Inr (c # x, u))"
  by (subst read_string.simps) simp

lemma read_string_short:
  "short_esc c e \<Longrightarrow> read_string (CHR 0x5C # e # t) = bindR (read_string t) (\<lambda>(x, u). Inr (c # x, u))"
  by (subst read_string.simps) (simp add: short_esc_def dquote_def)

lemma read_string_hex:
  "read_string (CHR 0x5C # CHR ''u'' # CHR ''0'' # CHR ''0'' # hex_digit (ord_of c div 16) # hex_digit (ord_of c mod 16) # t)
     = bindR (read_string t) (\<lambda>(x, u). Inr (c # x, u))"
  using hex4_escape [of c t] by (subst read_string.simps) (simp add: dquote_def)

lemma read_string_back: "read_string (concat (map esc_char s) @ dquote # rest) = Inr (s, rest)"
proof (induction s)
  case Nil
  show ?case by (subst read_string.simps) simp
next
  case (Cons c s)
  show ?case
  proof (cases "c = dquote \<or> c = CHR 0x5C \<or> ord_of c \<in> {8, 9, 10, 12, 13}")
    case True
    from esc_char_short [OF this] obtain e where e: "short_esc c e" ..
    then show ?thesis using Cons read_string_short [OF e] by (simp add: short_esc_def)
  next
    case False
    show ?thesis
    proof (cases "32 \<le> ord_of c \<and> ord_of c \<le> 126")
      case True
      with False Cons read_string_plain show ?thesis by (simp add: esc_char_long [OF False])
    next
      case hex: False
      have e: "esc_char c = [CHR 0x5C, CHR ''u'', CHR ''0'', CHR ''0'', hex_digit (ord_of c div 16), hex_digit (ord_of c mod 16)]"
        unfolding esc_char_long [OF False] by (simp only: hex if_False append_Cons append_Nil)
      show ?thesis by (simp only: e list.map concat.simps append_Cons append_Nil append_assoc read_string_hex Cons) simp
    qed
  qed
qed

lemma hex_digit_newline: "k < 16 \<Longrightarrow> hex_digit k \<noteq> newline"
proof
  assume "k < 16" "hex_digit k = newline"
  then have "ord_of (hex_digit k) = 10" by (simp add: newline_code)
  with \<open>k < 16\<close> show False by (auto simp: hex_digit_def of_char_of split: if_splits)
qed

lemma esc_char_newline: "newline \<notin> set (esc_char c)"
proof (cases "c = dquote \<or> c = CHR 0x5C \<or> ord_of c \<in> {8, 9, 10, 12, 13}")
  case True
  from esc_char_short [OF this] show ?thesis by (auto simp: short_esc_def newline_def)
next
  case False
  have "ord_of c div 16 < 16" using of_char_less [of c] by (simp add: less_mult_imp_div_less)
  then have "hex_digit (ord_of c div 16) \<noteq> newline" "hex_digit (ord_of c mod 16) \<noteq> newline"
    using hex_digit_newline by simp_all
  moreover have "c \<noteq> newline" using False newline_code by auto
  ultimately show ?thesis unfolding esc_char_long [OF False] by (simp add: newline_def) 
qed

section \<open>Numbers\<close>

text \<open>What may follow a value inside a list.\<close>

definition delim :: "string \<Rightarrow> bool" where
  "delim s \<longleftrightarrow> s = [] \<or> hd s = CHR '','' \<or> hd s = CHR 0x5D \<or> hd s = CHR 0x7D"

lemma ord_of_zero: "ord_of (CHR ''0'') = 48"
  by simp

lemma char_zero: "char_of (48 :: nat) = CHR ''0''"
  by (metis char_of_char ord_of_zero)

lemma digit_char: "n < 10 \<Longrightarrow> is_dec (char_of (48 + n)) \<and> ord_of (char_of (48 + n)) = 48 + n"
  by (simp add: is_dec_def of_char_of)

lemma nat_text_decs: "list_all is_dec (nat_text n) \<and> nat_text n \<noteq> []"
proof (induction n rule: nat_text.induct)
  case (1 n)
  then show ?case using digit_char [of n] digit_char [of "n mod 10"] by (subst (1 2) nat_text.simps) auto
qed

lemma digits_val_snoc: "dec_val (s @ [c]) = dec_val s * 10 + (ord_of c - 48)"
  by (simp add: dec_val_def)

lemma digits_val_text: "dec_val (nat_text n) = n"
proof (induction n rule: nat_text.induct)
  case (1 n)
  show ?case
  proof (cases "n < 10")
    case True
    then show ?thesis using digit_char [of n] by (subst nat_text.simps) (simp add: dec_val_def)
  next
    case False
    with 1 show ?thesis using digit_char [of "n mod 10"] by (subst nat_text.simps) (simp add: digits_val_snoc)
  qed
qed

lemma nat_text_zero: "hd (nat_text n) = CHR ''0'' \<longleftrightarrow> n = 0"
proof (induction n rule: nat_text.induct)
  case (1 n)
  show ?case
  proof (cases "n < 10")
    case True
    have "char_of (48 + n) = CHR ''0'' \<longleftrightarrow> n = 0"
      using digit_char [OF True] by (metis add_cancel_right_right add_0_right char_of_char ord_of_zero)
    then show ?thesis using True by (subst nat_text.simps) simp
  next
    case False
    then have "hd (nat_text (n div 10)) = CHR ''0'' \<longleftrightarrow> n div 10 = 0" using 1 by simp
    then show ?thesis using False nat_text_decs [of "n div 10"] by (subst nat_text.simps) (simp add: hd_append)
  qed
qed

lemma delim_hd: "delim r \<Longrightarrow> r = [] \<or> \<not> is_dec (hd r) \<and> hd r \<noteq> CHR ''-'' \<and> hd r \<noteq> CHR ''+'' \<and> hd r \<noteq> CHR ''.''
    \<and> hd r \<noteq> CHR ''e'' \<and> hd r \<noteq> CHR ''E''"
  by (auto simp: delim_def is_dec_def)

lemma decs_stop: "r = [] \<or> \<not> is_dec (hd r) \<Longrightarrow> decs (s @ r) = decs s"
  by (cases r; cases "list_all is_dec s")
    (auto simp: decs_def list_all_iff takeWhile_append intro!: arg_cong [where f = length] takeWhile_eq_all_conv [THEN iffD2, symmetric])

lemma decs_append: "delim r \<Longrightarrow> decs (s @ r) = decs s"
  by (rule decs_stop) (use delim_hd in blast)

lemma decs_le: "decs s \<le> length s"
  by (simp add: decs_def length_takeWhile_le)

lemma sign_len_append: "delim r \<Longrightarrow> sign_len (s @ r) = sign_len s"
  using delim_hd [of r] by (cases r; cases s) (auto simp: sign_len_def)

lemma sign_len_le: "sign_len s \<le> length s"
  by (cases s) (auto simp: sign_len_def)

lemma scan_frac_append: "delim r \<Longrightarrow> scan_frac (s @ r) = scan_frac s"
  using delim_hd [of r] by (cases r; cases s) (auto simp: scan_frac_def decs_append)

lemma scan_frac_le: "scan_frac s \<le> length s"
  by (cases s) (auto simp: scan_frac_def decs_le)

lemma scan_exp_append: "delim r \<Longrightarrow> scan_exp (s @ r) = scan_exp s"
proof (cases s)
  case Nil
  then show "delim r \<Longrightarrow> ?thesis" using delim_hd [of r] by (cases r) (auto simp: scan_exp_def Let_def)
next
  case (Cons c s')
  assume r: "delim r"
  have "decs (drop (sign_len s') s' @ r) = decs (drop (sign_len s') s')" by (rule decs_append [OF r])
  then show ?thesis using sign_len_le [of s'] by (simp add: Cons scan_exp_def sign_len_append [OF r])
qed

lemma json_int_len_stop: "r = [] \<or> \<not> is_dec (hd r) \<and> hd r \<noteq> CHR ''-'' \<Longrightarrow> json_int_len (s @ r) = json_int_len s"
proof (cases s)
  case Nil
  then show "r = [] \<or> \<not> is_dec (hd r) \<and> hd r \<noteq> CHR ''-'' \<Longrightarrow> ?thesis" by (cases r) (auto simp: json_int_len_def Let_def decs_def)
next
  case (Cons c s')
  assume r: "r = [] \<or> \<not> is_dec (hd r) \<and> hd r \<noteq> CHR ''-''"
  then have d: "decs (t @ r) = decs t" for t by (intro decs_stop) auto
  have "decs s' \<noteq> 0 \<Longrightarrow> hd (s' @ r) = hd s'" by (cases s') (auto simp: decs_def)
  then show ?thesis using d [of "c # s'"] by (auto simp: Cons json_int_len_def Let_def d)
qed

lemma json_int_len_append: "delim r \<Longrightarrow> json_int_len (s @ r) = json_int_len s"
  by (rule json_int_len_stop) (use delim_hd in blast)

lemma json_int_len_le: "json_int_len s \<le> length s"
proof (cases s)
  case (Cons c s')
  have "decs s' \<noteq> 0 \<Longrightarrow> s' \<noteq> []" by (auto simp: decs_def)
  then show ?thesis using decs_le [of s'] decs_le [of s] by (auto simp: Cons json_int_len_def Let_def Suc_le_eq)
qed (simp add: json_int_len_def decs_def)

lemma json_num_len_append: "delim r \<Longrightarrow> json_num_len (s @ r) = json_num_len s"
proof -
  assume r: "delim r"
  let ?n = "json_int_len s" let ?m = "?n + json_frac_len (drop ?n s)"
  have f: "json_frac_len (t @ r) = json_frac_len t" for t by (simp add: json_frac_len_def scan_frac_append [OF r])
  have m: "?m \<le> length s"
    using json_int_len_le [of s] scan_frac_le [of "drop ?n s"] by (auto simp: json_frac_len_def)
  then show ?thesis using json_int_len_le [of s]
    by (simp add: json_num_len_def Let_def json_int_len_append [OF r] f scan_exp_append [OF r])
qed

text \<open>What starts a number is no name.\<close>

lemma json_num_start:
  assumes "json_num_len s \<noteq> 0"
  shows "(is_dec (hd s) \<or> hd s = CHR ''-'' \<and> is_dec (hd (tl s)) \<and> tl s \<noteq> []) \<and> s \<noteq> []"
proof (cases s)
  case Nil
  then show ?thesis using assms by (simp add: json_num_len_def json_int_len_def decs_def)
next
  case (Cons c s')
  have "decs t \<noteq> 0 \<Longrightarrow> t \<noteq> [] \<and> is_dec (hd t)" for t by (cases t) (auto simp: decs_def split: if_splits)
  from this [of s'] this [of s] show ?thesis
    using assms by (auto simp: Cons json_num_len_def json_int_len_def Let_def split: if_splits)
qed

lemma read_literal_num:
  assumes "json_num_len t = length t" and "t \<noteq> []" and "delim r"
  shows "read_literal F (t @ r) = Inr (if is_float_text t then JFloat (fl_of_str F t) else JInt (int_of_text t), r)"
proof -
  have n: "json_num_len (t @ r) = length t" using json_num_len_append [OF assms(3)] assms(1) by simp
  then have st: "is_dec (hd (t @ r)) \<or> hd (t @ r) = CHR ''-'' \<and> is_dec (hd (tl (t @ r))) \<and> tl (t @ r) \<noteq> []"
    using json_num_start [of "t @ r"] assms(2) by auto
  have "take k (t @ r) \<noteq> c # w" if "\<not> is_dec c" "c \<noteq> CHR ''-''" for k c w
    using st that assms(2) by (cases k; cases "t @ r") auto
  moreover have "take 9 (t @ r) \<noteq> ''-Infinity''"
    using st by (cases "t @ r"; cases "tl (t @ r)") (auto simp: is_dec_def numeral_eq_Suc)
  ultimately show ?thesis using n assms(2) by (simp add: read_literal_def Let_def is_dec_def)
qed

lemma int_text_num: "json_num_len (int_text i) = length (int_text i) \<and> int_text i \<noteq> [] \<and> \<not> is_float_text (int_text i)
    \<and> int_of_text (int_text i) = i \<and> newline \<notin> set (int_text i) \<and> json_int_len (int_text i) = length (int_text i)"
proof -
  have nt: "json_int_len (nat_text n) = length (nat_text n)" "json_int_len (CHR ''-'' # nat_text (Suc n)) = Suc (length (nat_text (Suc n)))"
     "sign_len (nat_text n) = 0" "take 0 (nat_text n) \<noteq> ''-''" for n
  proof -
    have d: "decs (nat_text k) = length (nat_text k)" for k
      using nat_text_decs [of k] by (simp add: decs_def list_all_iff takeWhile_eq_all_conv [THEN iffD2])
    have h: "is_dec (hd (nat_text k))" "nat_text k \<noteq> []" for k
      using nat_text_decs [of k] by (cases "nat_text k"; simp)+
    have z: "nat_text 0 = ''0''" by (simp add: nat_text.simps char_zero)
    show "json_int_len (nat_text n) = length (nat_text n)"
      using h [of n] d [of n] nat_text_zero [of n] z by (cases "nat_text n") (auto simp: json_int_len_def Let_def is_dec_def)
    show "json_int_len (CHR ''-'' # nat_text (Suc n)) = Suc (length (nat_text (Suc n)))"
      using h [of "Suc n"] d [of "Suc n"] nat_text_zero [of "Suc n"] by (auto simp: json_int_len_def Let_def)
    show "sign_len (nat_text n) = 0" using h [of n] by (cases "nat_text n") (auto simp: sign_len_def is_dec_def)
  qed simp
  have full: "json_num_len s = length s" if "json_int_len s = length s" "s \<noteq> []" for s
    using that by (simp add: json_num_len_def Let_def json_frac_len_def scan_frac_def scan_exp_def)
  have fl: "\<not> is_float_text (nat_text n)" "newline \<notin> set (nat_text n)" for n
    using nat_text_decs [of n] by (auto simp: is_float_text_def list_all_iff list_ex_iff is_dec_def newline_def)
  have ne: "nat_text n \<noteq> []" for n using nat_text_decs [of n] by simp
  show ?thesis
  proof (cases "i < 0")
    case True
    then obtain n where "nat (- i) = Suc n" by (cases "nat (- i)") auto
    moreover have "int (nat (- i)) = - i" using True by simp
    ultimately show ?thesis using True full [of "int_text i"] nt(2) [of n] fl [of "Suc n"] digits_val_text [of "Suc n"]
      by (auto simp: int_text_def is_float_text_def int_of_text_def sign_len_def newline_def)
  next
    case False
    then show ?thesis using full [of "int_text i"] nt [of "nat i"] fl [of "nat i"] ne [of "nat i"] digits_val_text [of "nat i"]
      by (simp add: int_text_def int_of_text_def)
  qed
qed

section \<open>Values, lists and lines\<close>

text \<open>What \<open>json.dumps\<close> and \<open>json.loads\<close> do with floats.\<close>

definition json_floats :: "'f pyf \<Rightarrow> bool" where
  "json_floats F \<longleftrightarrow> (\<forall>f. let t = fl_json F f in newline \<notin> set t \<and>
     (t = ''NaN'' \<and> f = fl_of_str F ''nan'' \<or> t = ''Infinity'' \<and> f = fl_of_str F ''inf'' \<or> t = ''-Infinity'' \<and> f = fl_of_str F ''-inf''
      \<or> t \<noteq> [] \<and> json_num_len t = length t \<and> is_float_text t \<and> f = fl_of_str F t))"

declare read_json.simps(2) [simp del]
lemmas read_json_Suc = read_json.simps(2)

lemma append_comma [simp]: "(@) '','' = (#) (CHR '','')"
  by (rule ext) simp

text \<open>A text that a reader reads back, whatever follows in a list.\<close>

definition reads :: "(string \<Rightarrow> ('x \<times> string) res) \<Rightarrow> string \<Rightarrow> 'x \<Rightarrow> bool" where
  "reads one t x \<longleftrightarrow> t \<noteq> [] \<and> ord_of (hd t) \<notin> {32, 9, 10, 13} \<and> hd t \<noteq> CHR 0x5D \<and> hd t \<noteq> CHR 0x7D
     \<and> (\<forall>r. delim r \<longrightarrow> one (t @ r) = Inr (x, r))"

lemma reads_ws: "reads one t x \<Longrightarrow> json_ws (t @ r) = t @ r"
  by (cases t) (auto simp: reads_def json_ws_def)

lemma reads_D: "reads one t x \<Longrightarrow> delim r \<Longrightarrow> one (t @ r) = Inr (x, r)"
  by (simp add: reads_def)

definition seq_end :: "char \<Rightarrow> bool" where "seq_end c \<longleftrightarrow> c = CHR 0x5D \<or> c = CHR 0x7D"

lemma json_ws_stop: "seq_end c \<or> c = CHR '','' \<or> c = CHR '':'' \<Longrightarrow> json_ws (c # r) = c # r"
  by (auto simp: json_ws_def seq_end_def)

lemma delim_stop: "seq_end c \<or> c = CHR '','' \<Longrightarrow> delim (c # r)"
  by (auto simp: delim_def seq_end_def)

lemma read_elems_back:
  assumes "seq_end fin"
  shows "list_all2 (reads one) ts xs \<Longrightarrow> reads one t x \<Longrightarrow> length ts < n \<Longrightarrow>
    read_elems n one fin (t @ concat (map (\<lambda>y. '','' @ y) ts) @ fin # r) = Inr (x # xs, r)"
proof (induction ts xs arbitrary: t x n rule: list_all2_induct)
  case Nil
  then obtain m where "n = Suc m" by (cases n) auto
  then show ?case using assms Nil by (simp add: reads_ws reads_D delim_stop json_ws_stop)
next
  case (Cons u us y ys)
  then obtain m where m: "n = Suc m" "length us < m" by (cases n) auto
  have ne: "CHR '','' \<noteq> fin" using assms by (auto simp: seq_end_def)
  show ?case using Cons.IH [OF Cons.hyps(1) m(2)] Cons.prems(1) ne m(1)
    by (simp add: reads_ws reads_D delim_stop json_ws_stop)
qed

lemma length_concat_texts: "length ts \<le> length (concat (map (\<lambda>y. '','' @ y) ts))"
  by (induction ts) auto

lemma read_seq_back:
  assumes "list_all2 (reads one) ts xs" and "ts \<noteq> []" and e: "seq_end fin"
  shows "read_seq one fin (hd ts @ concat (map (\<lambda>y. '','' @ y) (tl ts)) @ fin # r) = Inr (xs, r)"
proof -
  obtain t us x ys where ts: "ts = t # us" "xs = x # ys" and t: "reads one t x" and us: "list_all2 (reads one) us ys"
    using assms(1,2) by (cases ts; cases xs) auto
  let ?s = "t @ concat (map (\<lambda>y. '','' @ y) us) @ fin # r"
  have ne: "t \<noteq> []" "hd t \<noteq> fin" using t e by (auto simp: reads_def seq_end_def)
  have "length us < length ?s" using length_concat_texts [of us] by simp
  from read_elems_back [OF e us t this] show ?thesis
    using reads_ws [OF t] ne ts by (cases t) (simp_all add: read_seq_def)
qed

lemma json_list_back:
  assumes "list_all2 (reads (read_json F n)) ts xs"
  shows "reads (read_json F (Suc n)) (json_list ts) (JArr xs)"
proof -
  have "read_json F (Suc n) (json_list ts @ r) = Inr (JArr xs, r)" for r
  proof (cases ts)
    case Nil
    then show ?thesis using assms by (simp add: read_json_Suc dquote_def read_seq_def json_ws_stop seq_end_def)
  next
    case (Cons t us)
    have "read_seq (read_json F n) (CHR 0x5D) (t @ concat (map (\<lambda>y. '','' @ y) us) @ CHR 0x5D # r) = Inr (xs, r)"
      using read_seq_back [OF assms, of "CHR 0x5D" r] Cons by (simp add: seq_end_def)
    then show ?thesis by (simp add: read_json_Suc Cons dquote_def)
  qed
  moreover have "\<exists>r. json_list ts = CHR 0x5B # r" by (cases ts) auto
  ultimately show ?thesis by (auto simp: reads_def)
qed

lemma json_string_back: "reads (read_json F (Suc n)) (json_string s) (JStr s)"
  using read_string_back [of s] by (auto simp: read_json_Suc reads_def json_string_def dquote_def)

definition json_of_val :: "'f val \<Rightarrow> 'f json" where
  "json_of_val v = (case v of VNone \<Rightarrow> JNull | VInt i \<Rightarrow> JInt i | VFloat f \<Rightarrow> JFloat f | VStr s \<Rightarrow> JStr s)"

definition json_of_entry :: "'f entry \<Rightarrow> 'f json" where
  "json_of_entry = (\<lambda>(sql, ps). JArr [JStr sql, JArr (map json_of_val ps)])"

lemma read_json_literal:
  "t \<noteq> [] \<Longrightarrow> hd t \<notin> {dquote, CHR 0x5B, CHR 0x7B} \<Longrightarrow> read_json F (Suc n) (t @ r) = read_literal F (t @ r)"
  by (cases t) (auto simp: read_json_Suc)

lemma num_reads:
  assumes "json_num_len t = length t" and "t \<noteq> []"
  shows "reads (read_json F (Suc n)) t (if is_float_text t then JFloat (fl_of_str F t) else JInt (int_of_text t))"
proof -
  have h: "is_dec (hd t) \<or> hd t = CHR ''-''" using json_num_start [of t] assms by auto
  then have "hd t \<notin> {dquote, CHR 0x5B, CHR 0x7B}" by (auto simp: is_dec_def dquote_def)
  from read_json_literal [OF assms(2) this] read_literal_num [OF assms]
  have "\<forall>r. delim r \<longrightarrow> read_json F (Suc n) (t @ r) = Inr (if is_float_text t then JFloat (fl_of_str F t) else JInt (int_of_text t), r)"
    by metis
  moreover have "ord_of (hd t) \<notin> {32, 9, 10, 13}" "hd t \<noteq> CHR 0x5D" "hd t \<noteq> CHR 0x7D" using h by (auto simp: is_dec_def)
  ultimately show ?thesis using assms(2) unfolding reads_def by blast
qed

lemma json_val_back:
  assumes "json_floats F"
  shows "reads (read_json F (Suc n)) (json_val F v) (json_of_val v)"
proof (cases v)
  case VNone
  then show ?thesis by (simp add: read_json_Suc json_val_def json_of_val_def reads_def dquote_def read_literal_def)
next
  case (VInt i)
  then show ?thesis using num_reads [of "int_text i" F n] int_text_num [of i] by (simp add: json_val_def json_of_val_def)
next
  case (VFloat f)
  let ?t = "fl_json F f"
  have "(?t = ''NaN'' \<and> f = fl_of_str F ''nan'') \<or> (?t = ''Infinity'' \<and> f = fl_of_str F ''inf'') \<or> (?t = ''-Infinity'' \<and> f = fl_of_str F ''-inf'')
      \<or> (?t \<noteq> [] \<and> json_num_len ?t = length ?t \<and> is_float_text ?t \<and> f = fl_of_str F ?t)"
    using assms by (simp add: json_floats_def Let_def)
  then have "reads (read_json F (Suc n)) ?t (JFloat f)"
  proof (elim disjE conjE)
    assume t: "?t \<noteq> []" "json_num_len ?t = length ?t" "is_float_text ?t" "f = fl_of_str F ?t"
    from num_reads [OF t(2,1), of F n] t(3,4) show ?thesis by metis
  qed (simp_all add: read_json_Suc reads_def dquote_def read_literal_def)
  then show ?thesis by (simp add: VFloat json_val_def json_of_val_def)
next
  case (VStr s)
  then show ?thesis using json_string_back by (simp add: json_val_def json_of_val_def)
qed

lemma json_entry_back:
  assumes "json_floats F"
  shows "reads (read_json F (Suc (Suc (Suc n)))) (json_entry F e) (json_of_entry e)"
proof -
  obtain sql ps where e: "e = (sql, ps)" by force
  have "list_all2 (reads (read_json F (Suc n))) (map (json_val F) ps) (map json_of_val ps)"
    using json_val_back [OF assms] by (simp add: list_all2_conv_all_nth)
  from json_list_back [OF this] json_string_back [of F "Suc n" sql]
  show ?thesis unfolding e json_entry_def json_of_entry_def
    by (simp only: prod.case) (rule json_list_back, simp)
qed

lemma json_line_back:
  assumes "json_floats F"
  shows "json_loads F (json_line F es) = Inr (JObj [(''txn'', JArr (map json_of_entry es))])"
proof -
  let ?l = "json_list (map (json_entry F) es)"
  obtain n where n: "length (json_line F es) = Suc (Suc (Suc (Suc n)))"
    by (rule that [of "length (json_line F es) - 4"]) (simp add: json_line_def json_string_def)
  have "list_all2 (reads (read_json F (Suc (Suc (Suc n))))) (map (json_entry F) es) (map json_of_entry es)"
    using json_entry_back [OF assms] by (simp add: list_all2_conv_all_nth)
  note l = json_list_back [OF this]
  have k: "read_string (''txn'' @ dquote # r) = Inr (''txn'', r)" for r
    using read_string_back [of "''txn''" r] by (simp add: esc_char_def dquote_def)
  have lw: "json_ws (?l @ r) = ?l @ r" for r by (rule reads_ws [OF l])
  have "reads (read_pair (read_json F (Suc (Suc (Suc (Suc n)))))) (json_string ''txn'' @ '':'' @ ?l) (''txn'', JArr (map json_of_entry es))"
    using reads_D [OF l] k lw by (simp add: reads_def read_pair_def json_string_def esc_char_def dquote_def json_ws_stop)
  then have "read_seq (read_pair (read_json F (Suc (Suc (Suc (Suc n)))))) (CHR 0x7D)
      ((json_string ''txn'' @ '':'' @ ?l) @ CHR 0x7D # []) = Inr ([(''txn'', JArr (map json_of_entry es))], [])"
    using read_seq_back [of _ "[json_string ''txn'' @ '':'' @ ?l]" "[(''txn'', JArr (map json_of_entry es))]" "CHR 0x7D" "[]"]
    by (simp add: seq_end_def)
  moreover have "json_ws (json_line F es) = json_line F es" by (simp add: json_line_def json_ws_def)
  ultimately show ?thesis unfolding json_loads_def n by (simp add: read_json_Suc json_line_def dquote_def) (simp add: json_ws_def)
qed

lemma json_string_newline: "newline \<notin> set (json_string s)"
  using esc_char_newline by (auto simp: json_string_def dquote_def newline_def)

lemma json_list_newline: "\<forall>t \<in> set ts. newline \<notin> set t \<Longrightarrow> newline \<notin> set (json_list ts)"
  by (cases ts) (auto simp: newline_def)

lemma json_line_newline:
  assumes "json_floats F"
  shows "newline \<notin> set (json_line F es)"
proof -
  have v: "newline \<notin> set (json_val F v)" for v
    using assms json_string_newline int_text_num by (cases v) (auto simp: json_val_def json_floats_def Let_def newline_def)
  have e: "newline \<notin> set (json_entry F e)" for e
  proof -
    obtain sql ps where e: "e = (sql, ps)" by force
    have "newline \<notin> set (json_list (map (json_val F) ps))" using v by (intro json_list_newline) auto
    then show ?thesis unfolding e json_entry_def prod.case using json_string_newline by (intro json_list_newline) auto
  qed
  have l: "newline \<notin> set (json_list (map (json_entry F) es))" using e by (intro json_list_newline) auto
  show ?thesis using l json_string_newline [of "''txn''"] by (simp add: json_line_def) (simp add: newline_def)
qed

section \<open>A line is read back as its transaction\<close>

text \<open>What a replay takes out of an entry and out of a line.\<close>

definition read_entry :: "'f json \<Rightarrow> 'f entry res" where
  "read_entry j = bindR (json_two j) (\<lambda>(sql, params). bindR (bindR (json_iter params) (mapR json_param)) (\<lambda>ps.
     bindR (json_sql sql) (\<lambda>q. Inr (q, ps))))"

definition read_line :: "'f pyf \<Rightarrow> string \<Rightarrow> 'f entry list res" where
  "read_line F ln = bindR (json_loads F ln) (\<lambda>j. bindR (bindR (json_txn j) json_iter) (mapR read_entry))"

lemma json_params_back: "mapR json_param (map json_of_val ps) = Inr ps"
  by (induction ps) (auto simp: json_of_val_def json_param_def split: val.split)

lemma read_entry_back: "read_entry (json_of_entry e) = Inr e"
  by (cases e) (simp add: read_entry_def json_of_entry_def json_two_def json_iter_def json_params_back json_sql_def)

lemma read_line_back: "json_floats F \<Longrightarrow> read_line F (json_line F es) = Inr es"
proof -
  assume F: "json_floats F"
  have "mapR read_entry (map json_of_entry es) = Inr es" by (induction es) (simp_all add: read_entry_back)
  then show ?thesis by (simp add: read_line_def json_line_back [OF F] json_txn_def json_iter_def)
qed

interpretation log_lines: codec "\<lambda>(F, es). json_floats F" "\<lambda>(F, es). Inr (F, json_line F es)"
  "\<lambda>(F, ln). bindR (read_line F ln) (\<lambda>es. Inr (F, es))"
  by unfold_locales (auto simp: read_line_back)

lemma json_line_inj: "json_floats F \<Longrightarrow> json_line F es = json_line F es' \<Longrightarrow> es = es'"
  using log_lines.enc_inj [of "(F, es)" "(F, es')"] by simp

end
