(* ===== verification/Sql_Db_Props.thy ===== *)
theory Sql_Db_Props
  imports Sql_Db
begin

text \<open>
  The properties of the minisql database: what a failing statement leaves behind, constraints hold in every reachable
  database, and a rollback brings back the tables of \<open>BEGIN\<close>.
\<close>

section \<open>Constraints\<close>

definition sql_row_ok :: "'f coldef list \<Rightarrow> 'f val list \<Rightarrow> bool" where
  "sql_row_ok cols row \<longleftrightarrow> length row = length cols \<and> (\<forall>i < length cols. wants_value (cols ! i) \<longrightarrow> row ! i \<noteq> VNone)"

definition clash :: "'f pyf \<Rightarrow> nat \<Rightarrow> 'f val list \<Rightarrow> 'f val list \<Rightarrow> bool" where
  "clash F i r s \<longleftrightarrow> r ! i \<noteq> VNone \<and> s ! i \<noteq> VNone \<and> same_val F (r ! i) (s ! i)"

definition uniq_col :: "'f pyf \<Rightarrow> nat \<Rightarrow> 'f val list list \<Rightarrow> bool" where
  "uniq_col F i rows \<longleftrightarrow> sorted_wrt (\<lambda>r s. \<not> clash F i r s) rows"

definition table_ok :: "'f pyf \<Rightarrow> 'f sql_table \<Rightarrow> bool" where
  "table_ok F t \<longleftrightarrow> (\<forall>r \<in> set (tb_rows t). sql_row_ok (tb_cols t) r)
     \<and> (\<forall>i < length (tb_cols t). wants_unique (tb_cols t ! i) \<longrightarrow> uniq_col F i (tb_rows t))"

definition tables_ok :: "'f pyf \<Rightarrow> 'f sql_tables \<Rightarrow> bool" where
  "tables_ok F T \<longleftrightarrow> (\<forall>n t. T n = Some t \<longrightarrow> table_ok F t \<and> lower_text (tb_name t) = n
     \<and> distinct (map (\<lambda>c. lower_text (cd_name c)) (tb_cols t)))"

lemma same_val_sym: "same_val F a b = same_val F b a"
  by (auto simp: same_val_def cmp_val_def)

lemma clash_sym: "clash F i r s = clash F i s r"
  by (auto simp: clash_def same_val_sym)

lemma check_row_Inr:
  assumes "check_row F t row but = Inr u"
  shows "i < length (tb_cols t) \<Longrightarrow> wants_value (tb_cols t ! i) \<Longrightarrow> row ! i \<noteq> VNone"
    and "i < length (tb_cols t) \<Longrightarrow> wants_unique (tb_cols t ! i) \<Longrightarrow> j < length (tb_rows t) \<Longrightarrow> but \<noteq> Some j \<Longrightarrow>
      \<not> clash F i (tb_rows t ! j) row"
proof -
  from assms obtain us where m: "mapR (check_col F t row but) (enumerate 0 (tb_cols t)) = Inr us"
    by (auto simp: check_row_def bindR_eq_Inr)
  have c: "check_col F t row but (i, tb_cols t ! i) = Inr (us ! i)" if "i < length (tb_cols t)" for i
    using mapR_Inr [OF m] that by (auto simp: nth_enumerate_eq)
  show "i < length (tb_cols t) \<Longrightarrow> wants_value (tb_cols t ! i) \<Longrightarrow> row ! i \<noteq> VNone"
    using c [of i] by (auto simp: check_col_def split: if_splits)
  assume i: "i < length (tb_cols t)" "wants_unique (tb_cols t ! i)" and j: "j < length (tb_rows t)" "but \<noteq> Some j"
  have "(j, tb_rows t ! j) \<in> set (enumerate 0 (tb_rows t))"
    using j(1) by (auto simp: in_set_enumerate_eq)
  with c [OF i(1)] i j show "\<not> clash F i (tb_rows t ! j) row"
    by (auto simp: check_col_def clash_def list_ex_iff split: if_splits)
qed

lemma length_set_cols [simp]: "length (set_cols ivs row) = length row"
  unfolding set_cols_def by (induction ivs arbitrary: row) auto

lemma value_row_length: "value_row F t idx vals = Inr row \<Longrightarrow> length row = length (tb_cols t)"
  by (auto simp: value_row_def bindR_eq_Inr coerce_row_def fill_key_def dest!: mapR_Inr split: if_splits option.splits)

lemma uniq_col_append: "uniq_col F i rows \<Longrightarrow> (\<And>j. j < length rows \<Longrightarrow> \<not> clash F i (rows ! j) row) \<Longrightarrow> uniq_col F i (rows @ [row])"
  by (auto simp: uniq_col_def sorted_wrt_append in_set_conv_nth)

lemma uniq_col_update:
  assumes u: "uniq_col F i rows" and n: "\<And>k. k < length rows \<Longrightarrow> k \<noteq> j \<Longrightarrow> \<not> clash F i (rows ! k) row"
  shows "uniq_col F i (rows[j := row])"
  unfolding uniq_col_def sorted_wrt_iff_nth_less
proof (intro allI impI)
  fix a b assume ab: "a < b" "b < length (rows[j := row])"
  show "\<not> clash F i (rows[j := row] ! a) (rows[j := row] ! b)"
    using ab u n [of a] n [of b] clash_sym [of F i row]
    by (cases "a = j"; cases "b = j") (auto simp: uniq_col_def sorted_wrt_iff_nth_less)
qed

lemma uniq_col_filter: "uniq_col F i rows \<Longrightarrow> length bs = length rows \<Longrightarrow> uniq_col F i (map fst (filter snd (zip rows bs)))"
proof -
  assume u: "uniq_col F i rows" and l: "length bs = length rows"
  have "sorted_wrt (\<lambda>x y. \<not> clash F i (fst x) (fst y)) (zip rows bs)"
    using u l by (simp add: uniq_col_def sorted_wrt_iff_nth_less)
  then show ?thesis by (simp add: uniq_col_def sorted_wrt_map sorted_wrt_filter)
qed

lemma table_ok_append:
  assumes t: "table_ok F t" and len: "length row = length (tb_cols t)" and c: "check_row F t row None = Inr u"
  shows "table_ok F (t\<lparr>tb_rows := tb_rows t @ [row]\<rparr>)"
proof -
  have "uniq_col F i (tb_rows t @ [row])" if i: "i < length (tb_cols t)" "wants_unique (tb_cols t ! i)" for i
    using t i check_row_Inr(2) [OF c i] by (intro uniq_col_append) (simp_all add: table_ok_def)
  moreover have "sql_row_ok (tb_cols t) row" using len check_row_Inr(1) [OF c] by (simp add: sql_row_ok_def)
  ultimately show ?thesis using t by (simp add: table_ok_def)
qed

lemma table_ok_update:
  assumes t: "table_ok F t" and len: "length row = length (tb_cols t)" and c: "check_row F t row (Some j) = Inr u"
  shows "table_ok F (t\<lparr>tb_rows := (tb_rows t)[j := row]\<rparr>)"
proof -
  have "uniq_col F i ((tb_rows t)[j := row])" if i: "i < length (tb_cols t)" "wants_unique (tb_cols t ! i)" for i
    using t i check_row_Inr(2) [OF c i] by (intro uniq_col_update) (simp_all add: table_ok_def)
  moreover have "sql_row_ok (tb_cols t) row" using len check_row_Inr(1) [OF c] by (simp add: sql_row_ok_def)
  ultimately show ?thesis using t set_update_subset_insert [of "tb_rows t" j row] by (auto simp: table_ok_def)
qed

lemma get_table_Inr: "get_table T name = Inr t \<longleftrightarrow> T (lower_text name) = Some t"
  by (auto simp: get_table_def split: option.splits)

lemma put_rows_ok:
  "tables_ok F T \<Longrightarrow> get_table T name = Inr t \<Longrightarrow> table_ok F (t\<lparr>tb_rows := rows\<rparr>) \<Longrightarrow> tables_ok F (put_rows name t rows T)"
  by (auto simp: tables_ok_def put_rows_def get_table_Inr)

section \<open>Writing keeps the constraints\<close>

text \<open>A step keeps a property of the state, whether it raises or returns.\<close>

abbreviation keepP :: "('s \<Rightarrow> bool) \<Rightarrow> ('s, 'a) act \<Rightarrow> bool" where
  "keepP I \<equiv> stepsA (\<lambda>s t. I s \<longrightarrow> I t)"

lemma keepP_props: "reflp (\<lambda>s t. I s \<longrightarrow> I t)" "transp (\<lambda>s t. I s \<longrightarrow> I t)"
  by (auto simp: reflp_def transp_def)

lemmas keepP_base = stepsA_base [OF keepP_props(1)]
lemmas keepP_bind = stepsA_bind [OF keepP_props(2)]
lemmas keepP_mapA = stepsA_mapA [OF keepP_props]

lemma tables_ok_rows: "tables_ok F T \<Longrightarrow> get_table T name = Inr t \<Longrightarrow> table_ok F t"
  by (auto simp: tables_ok_def get_table_Inr)

lemma insert_row_ok: "keepP (tables_ok F) (insert_row F name idx vals)"
  unfolding stepsA_def
proof (intro allI impI)
  fix T assume T: "tables_ok F T"
  show "tables_ok F (snd (insert_row F name idx vals T))"
  proof (cases "get_table T name")
    case t: (Inr t)
    show ?thesis
    proof (cases "value_row F t idx vals")
      case r: (Inr row)
      show ?thesis
      proof (cases "check_row F t row None")
        case (Inr u)
        with t r T put_rows_ok [OF T t] table_ok_append [OF tables_ok_rows [OF T t] value_row_length [OF r] Inr]
        show ?thesis by (simp add: insert_row_def act_simps)
      qed (simp add: insert_row_def act_simps t r T)
    qed (simp add: insert_row_def act_simps t T)
  qed (simp add: insert_row_def act_simps T)
qed

lemma update_row_ok: "keepP (tables_ok F) (update_row F name idx hit)"
  unfolding stepsA_def
proof (intro allI impI)
  fix T assume T: "tables_ok F T"
  obtain j vals where h: "hit = (j, vals)" by force
  let ?ivs = "\<lambda>t. mapR (\<lambda>(i, v). bindR (coerce F (cd_type (tb_cols t ! i)) v) (\<lambda>w. Inr (i, w))) (zip idx vals)"
  show "tables_ok F (snd (update_row F name idx hit T))"
  proof (cases "get_table T name")
    case t: (Inr t)
    note ok = tables_ok_rows [OF T t]
    show ?thesis
    proof (cases "?ivs t")
      case r: (Inr ivs)
      let ?new = "set_cols ivs (tb_rows t ! j)"
      show ?thesis
      proof (cases "check_row F t ?new (Some j)")
        case (Inr u)
        have "table_ok F (t\<lparr>tb_rows := (tb_rows t)[j := ?new]\<rparr>)"
        proof (cases "j < length (tb_rows t)")
          case True
          then have "length ?new = length (tb_cols t)" using ok by (auto simp: table_ok_def sql_row_ok_def)
          from table_ok_update [OF ok this Inr] show ?thesis .
        qed (use ok in \<open>simp add: list_update_beyond\<close>)
        with put_rows_ok [OF T t] show ?thesis by (simp add: update_row_def act_simps h t r Inr Let_def)
      qed (simp add: update_row_def act_simps h t r T Let_def)
    qed (simp add: update_row_def act_simps h t T)
  qed (simp add: update_row_def act_simps h T)
qed

lemma filterR_subset: "filterR p xs = Inr ys \<Longrightarrow> \<exists>bs. length bs = length xs \<and> ys = map fst (filter snd (zip xs bs))"
proof -
  assume "filterR p xs = Inr ys"
  then obtain zs where z: "mapR (\<lambda>x. bindR (p x) (\<lambda>b. Inr (x, b))) xs = Inr zs" and y: "ys = map fst (filter snd zs)"
    by (auto simp: filterR_def bindR_eq_Inr)
  from mapR_Inr [OF z] have "zs = zip xs (map snd zs)"
    by (intro nth_equalityI) (auto simp: bindR_eq_Inr prod_eq_iff)
  with y mapR_Inr [OF z] show ?thesis by (intro exI [of _ "map snd zs"]) auto
qed

lemma table_ok_filter: "table_ok F t \<Longrightarrow> filterR p (tb_rows t) = Inr keep \<Longrightarrow> table_ok F (t\<lparr>tb_rows := keep\<rparr>)"
proof -
  assume t: "table_ok F t" and "filterR p (tb_rows t) = Inr keep"
  then obtain bs where b: "length bs = length (tb_rows t)" "keep = map fst (filter snd (zip (tb_rows t) bs))"
    using filterR_subset by blast
  have "set keep \<subseteq> set (tb_rows t)" by (auto simp: b(2) dest: set_zip_leftD)
  with t have "\<forall>r \<in> set keep. sql_row_ok (tb_cols t) r" unfolding table_ok_def by blast
  moreover have "uniq_col F i keep" if "i < length (tb_cols t)" "wants_unique (tb_cols t ! i)" for i
    using that t uniq_col_filter [OF _ b(1)] by (simp add: table_ok_def b(2))
  ultimately show ?thesis by (simp add: table_ok_def)
qed

lemma do_delete_ok: "keepP (tables_ok F) (do_delete F ps name w)"
  unfolding stepsA_def
proof (intro allI impI)
  fix T assume T: "tables_ok F T"
  show "tables_ok F (snd (do_delete F ps name w T))"
  proof (cases "get_table T name")
    case t: (Inr t)
    show ?thesis
    proof (cases "filterR (\<lambda>r. bindR (row_hit F T ps t w r) (\<lambda>hit. Inr (\<not> hit))) (tb_rows t)")
      case (Inr keep)
      with put_rows_ok [OF T t table_ok_filter [OF tables_ok_rows [OF T t] Inr]] t
      show ?thesis by (simp add: do_delete_def act_simps)
    qed (simp add: do_delete_def act_simps t T)
  qed (simp add: do_delete_def act_simps T)
qed

lemma do_create_ok: "keepP (tables_ok F) (do_create name cols ine)"
  unfolding do_create_def
  by (auto simp: stepsA_def act_simps tables_ok_def table_ok_def uniq_col_def)

lemma do_drop_ok: "keepP (tables_ok F) (do_drop name ie)"
  unfolding do_drop_def by (auto simp: stepsA_def act_simps tables_ok_def)

lemma do_write_ok: "keepP (tables_ok F) (do_write F ps node)"
proof -
  have "keepP (tables_ok F) (do_insert F ps name cols src)" for name cols src
    unfolding do_insert_def by (intro stepsA_flat keepP_bind keepP_base keepP_mapA insert_row_ok)
  moreover have "keepP (tables_ok F) (do_update F ps name sets w)" for name sets w
    unfolding do_update_def by (intro stepsA_flat keepP_bind keepP_base keepP_mapA update_row_ok)
  ultimately show ?thesis
    by (cases node) (simp_all add: do_write_def do_create_ok do_drop_ok do_delete_ok keepP_base)
qed

section \<open>Statements of the database\<close>

text \<open>A write either takes place or leaves the database as it was.\<close>

lemma guarded_write_run:
  "guarded_write F ps node s = (case do_write F ps node (db_tables s) of
     (Inl e, T) \<Rightarrow> (Inl e, s) | (Inr n, T) \<Rightarrow> (Inr n, s\<lparr>db_tables := T\<rparr>))"
  by (simp add: guarded_write_def act_simps catchA_def zoomA_def split: prod.split sum.split)

text \<open>A write of the log touches nothing but the file and its buffers.\<close>

lemma write_log_fields:
  assumes "write_log F io es s = (r, t)"
  shows "db_tables t = db_tables s" "db_in_txn t = db_in_txn s" "db_snap t = db_snap s" "db_pending t = db_pending s"
  using assms by (auto simp: write_log_def act_simps Let_def split: option.splits if_splits io.splits)

definition sql_ok :: "'f pyf \<Rightarrow> 'f sql_db \<Rightarrow> bool" where
  "sql_ok F s \<longleftrightarrow> tables_ok F (db_tables s) \<and> (\<forall>T. db_snap s = Some T \<longrightarrow> tables_ok F T)
     \<and> (db_in_txn s \<longleftrightarrow> db_snap s \<noteq> None) \<and> (\<not> db_in_txn s \<longrightarrow> db_pending s = [])"

lemma write_log_ok: "keepP (sql_ok F) (write_log F io es)"
  unfolding stepsA_def
proof (intro allI impI)
  fix s assume s: "sql_ok F s"
  obtain r t where w: "write_log F io es s = (r, t)" by force
  show "sql_ok F (snd (write_log F io es s))" using s by (simp add: sql_ok_def w write_log_fields [OF w])
qed

lemma guarded_write_ok: "keepP (sql_ok F) (guarded_write F ps node)"
  unfolding stepsA_def
proof (intro allI impI)
  fix s assume s: "sql_ok F s"
  obtain r T where w: "do_write F ps node (db_tables s) = (r, T)" by force
  have "tables_ok F T" using stepsA_D [OF do_write_ok, of F "db_tables s" ps node] s w by (simp add: sql_ok_def)
  with s w show "sql_ok F (snd (guarded_write F ps node s))" by (cases r) (simp_all add: guarded_write_run sql_ok_def)
qed

lemma pending_ok: "keepP (sql_ok F) (withA (\<lambda>s. if db_in_txn s then modA (\<lambda>s. s\<lparr>db_pending := db_pending s @ es\<rparr>) else write_log F io es))"
  unfolding stepsA_def
proof (intro allI impI)
  fix s assume s: "sql_ok F s"
  show "sql_ok F (snd (withA (\<lambda>s. if db_in_txn s then modA (\<lambda>s. s\<lparr>db_pending := db_pending s @ es\<rparr>) else write_log F io es) s))"
  proof (cases "db_in_txn s")
    case True
    with s show ?thesis by (simp add: withA_def modA_def sql_ok_def)
  next
    case False
    with stepsA_D [OF write_log_ok, of F s io es] s show ?thesis by (simp add: withA_def)
  qed
qed

lemma run_write_ok: "keepP (sql_ok F) (run_write F io sql ps log node)"
proof -
  have "withA (\<lambda>s. if \<not> log then retA () else if db_in_txn s then modA (\<lambda>s. s\<lparr>db_pending := db_pending s @ [(sql, ps)]\<rparr>)
       else write_log F io [(sql, ps)])
     = (if log then withA (\<lambda>s. if db_in_txn s then modA (\<lambda>s. s\<lparr>db_pending := db_pending s @ [(sql, ps)]\<rparr>)
       else write_log F io [(sql, ps)]) else retA ())"
    by (simp add: fun_eq_iff withA_def)
  then show ?thesis unfolding run_write_def
    by (simp only:) (intro keepP_bind guarded_write_ok stepsA_flat(3) pending_ok keepP_base)
qed

lemma begin_txn_ok: "keepP (sql_ok F) begin_txn"
  by (auto simp: stepsA_def begin_txn_def act_simps sql_ok_def)

lemma end_txn_ok: "keepP (sql_ok F) (end_txn F io commit log)"
  unfolding stepsA_def
proof (intro allI impI)
  fix s assume s: "sql_ok F s"
  have reset: "sql_ok F (t\<lparr>db_in_txn := False, db_snap := None, db_pending := []\<rparr>)" if "sql_ok F t" for t
    using that by (simp add: sql_ok_def)
  obtain r t where w: "write_log F io (db_pending s) s = (r, t)" by force
  have t: "sql_ok F t" using stepsA_D [OF write_log_ok, of F s io "db_pending s"] s w by simp
  show "sql_ok F (snd (end_txn F io commit log s))"
  proof (cases "db_in_txn s \<and> \<not> commit")
    case True
    then show ?thesis using s by (auto simp: end_txn_def act_simps sql_ok_def)
  next
    case False
    then show ?thesis using s t reset [OF t] reset [OF s] by (cases r) (simp_all add: end_txn_def act_simps w)
  qed
qed

lemma run_sql_ok: "keepP (sql_ok F) (run_sql F io sql ps log)"
proof -
  have q: "keepP (sql_ok F) (bindA (liftA (\<lambda>s. select F (db_tables s) ps sel [])) (\<lambda>(cols, rows).
      retA \<lparr>rs_rows = rows, rs_columns = cols, rs_rowcount = - 1\<rparr>))" for sel
    by (intro stepsA_flat keepP_bind keepP_base)
  show ?thesis unfolding run_sql_def
    by (intro keepP_bind keepP_base stepsA_flat)
      (auto split: stmt.split intro!: keepP_base begin_txn_ok end_txn_ok run_write_ok q)
qed

lemma replay_line_ok: "keepP (sql_ok F) (replay_line F ln)"
  unfolding replay_line_def replay_def replay_one_def
  by (intro keepP_bind keepP_base keepP_mapA stepsA_flat run_sql_ok)

inductive sql_reachable :: "'f pyf \<Rightarrow> 'f sql_db \<Rightarrow> bool" where
  in_memory: "sql_reachable F (new_db None)"
| opened: "open_db F content = (Inr (), s) \<Longrightarrow> sql_reachable F s"
| executed: "sql_reachable F s \<Longrightarrow> sql_reachable F (snd (execute F io sql ps s))"
| closed: "sql_reachable F s \<Longrightarrow> sql_reachable F (close_db s)"

lemma new_sql_ok: "sql_ok F (new_db content)"
  by (simp add: sql_ok_def new_db_def tables_ok_def)

lemma open_db_ok: "sql_ok F (snd (open_db F content))"
proof -
  have "keepP (sql_ok F) (bindA (mapA (replay_line F) ls) (\<lambda>_. modA (\<lambda>s. s\<lparr>db_log := c\<rparr>)))" for ls c
    by (intro keepP_bind keepP_mapA replay_line_ok stepsA_flat) (simp add: sql_ok_def)
  from stepsA_D [OF this, of "new_db None"] show ?thesis
    by (simp add: open_db_def Let_def new_sql_ok)
qed

lemma sql_reachable_ok: "sql_reachable F s \<Longrightarrow> sql_ok F s"
proof (induction rule: sql_reachable.induct)
  case (opened F content s)
  then show ?case using open_db_ok [of F content] by simp
next
  case (executed F s io sql ps)
  then show ?case using stepsA_D [OF run_sql_ok, of F s io sql ps True] by (simp add: execute_def)
qed (simp_all add: new_sql_ok, simp add: sql_ok_def close_db_def)

section \<open>Properties\<close>

text \<open>C31. In every reachable database, open transactions and replayed logs included, each table has its constraints: a row
  has a value per column, a \<open>NOT NULL\<close> or primary key column holds no null, and no two rows of a table hold equal
  values in a \<open>UNIQUE\<close> or primary key column.\<close>

theorem sql_constraints_hold:
  assumes "sql_reachable F s" and "db_tables s n = Some t"
  shows "(\<forall>row \<in> set (tb_rows t). length row = length (tb_cols t)
       \<and> (\<forall>i < length (tb_cols t). cd_notnull (tb_cols t ! i) \<or> cd_pk (tb_cols t ! i) \<longrightarrow> row ! i \<noteq> VNone))
     \<and> (\<forall>i < length (tb_cols t). cd_pk (tb_cols t ! i) \<or> cd_unique (tb_cols t ! i) \<longrightarrow>
          (\<forall>j k. j < k \<and> k < length (tb_rows t) \<and> tb_rows t ! j ! i \<noteq> VNone \<and> tb_rows t ! k ! i \<noteq> VNone
             \<longrightarrow> cmp_val F (tb_rows t ! j ! i) (tb_rows t ! k ! i) \<noteq> 0))"
proof -
  from sql_reachable_ok [OF assms(1)] assms(2) have "table_ok F t" by (auto simp: sql_ok_def tables_ok_def)
  then have rows: "\<forall>row \<in> set (tb_rows t). sql_row_ok (tb_cols t) row"
    and cols: "\<And>i. i < length (tb_cols t) \<Longrightarrow> cd_pk (tb_cols t ! i) \<or> cd_unique (tb_cols t ! i) \<Longrightarrow> uniq_col F i (tb_rows t)"
    by (auto simp: table_ok_def wants_unique_def)
  have "cmp_val F (tb_rows t ! j ! i) (tb_rows t ! k ! i) \<noteq> 0"
    if "uniq_col F i (tb_rows t)" "j < k" "k < length (tb_rows t)" "tb_rows t ! j ! i \<noteq> VNone" "tb_rows t ! k ! i \<noteq> VNone" for i j k
    using that unfolding uniq_col_def sorted_wrt_iff_nth_less clash_def same_val_def by blast
  with rows cols show ?thesis unfolding sql_row_ok_def wants_value_def by blast
qed

text \<open>C34. A statement that raises, with whatever exception and however far it had got, leaves tables, transaction, log and
  buffers as they were, and so does a query, unless the exception is that of the write of the log. The write is outside the
  guarded part: then exactly the text that got through is in the file and in the buffers, a statement outside a transaction
  has changed the tables as if it had been logged, and a commit has left its transaction open.\<close>

theorem raising_statement_outcome:
  assumes "execute F io sql ps s = (r, s')" and "(\<exists>e. r = Inl e) \<or> (\<exists>sel n. parse_sql F sql = Inr (StSelect sel, n))"
  shows "s' = s \<or> (\<exists>e n m c t r0 u. io = Failed e n m \<and> r = Inl e \<and> db_log s = Some c \<and>
     execute F Written sql ps s = (Inr r0, u) \<and> db_log u = Some (c @ t) \<and> t \<noteq> [] \<and>
     s' = (if db_in_txn s then s else u)\<lparr>db_log := Some (c @ take n t), db_buf := take m (drop n t)\<rparr>)"
proof (cases "parse_sql F sql")
  case (Inl e)
  with assms(1) show ?thesis by (simp add: execute_def run_sql_def act_simps)
next
  case (Inr p)
  obtain node n where p: "p = (node, n)" by force
  obtain w T where w: "do_write F ps node (db_tables s) = (w, T)" by force
  show ?thesis using assms w unfolding execute_def run_sql_def Inr p
    by (cases node; cases w; cases io; cases "db_log s")
      (auto simp: act_simps begin_txn_def end_txn_def run_write_def guarded_write_run write_log_def Let_def
        split: if_splits sum.splits prod.splits)
qed

definition ends_txn :: "'f pyf \<Rightarrow> string \<Rightarrow> bool" where
  "ends_txn F sql \<longleftrightarrow> (\<exists>n. parse_sql F sql = Inr (StCommit, n) \<or> parse_sql F sql = Inr (StRollback, n))"

definition exec_op :: "'f pyf \<Rightarrow> io \<times> 'f entry \<Rightarrow> ('f sql_db, 'f sql_result) act" where
  "exec_op F = (\<lambda>(io, sql, ps). execute F io sql ps)"

definition in_txn_of :: "'f sql_db \<Rightarrow> 'f sql_db \<Rightarrow> bool" where
  "in_txn_of s0 s \<longleftrightarrow> db_in_txn s \<and> db_snap s = Some (db_tables s0) \<and> db_log s = db_log s0 \<and> db_buf s = db_buf s0"

lemma in_txn_step: "in_txn_of s0 s \<Longrightarrow> \<not> ends_txn F sql \<Longrightarrow> in_txn_of s0 (snd (execute F io sql ps s))"
proof (cases "parse_sql F sql")
  case (Inr p)
  assume s: "in_txn_of s0 s" and e: "\<not> ends_txn F sql"
  obtain node n where p: "p = (node, n)" by force
  obtain w T where w: "do_write F ps node (db_tables s) = (w, T)" by force
  show ?thesis using s e w unfolding execute_def run_sql_def Inr p
    by (cases node; cases w)
      (auto simp: act_simps begin_txn_def run_write_def guarded_write_run in_txn_of_def ends_txn_def Inr p split: sum.splits prod.splits)
qed (simp add: execute_def run_sql_def act_simps)

text \<open>C35. \<open>ROLLBACK\<close> brings the database back to the moment of \<open>BEGIN\<close>, log and all, whatever statements ran in
  between, whether they failed and however writes of the log would have ended, as long as none of them ended the transaction.\<close>

theorem rollback_restores:
  assumes "sql_reachable F s" and "parse_sql F b = Inr (StBegin, 0)" and "execute F io b [] s = (Inr r, s1)"
    and "\<forall>(io, sql, ps) \<in> set ops. \<not> ends_txn F sql" and "parse_sql F q = Inr (StRollback, 0)"
  shows "execute F io' q [] (run_ops (exec_op F) ops s1) = (Inr (done_result 0), s)"
proof -
  note ok = sql_reachable_ok [OF assms(1)]
  have "in_txn_of s s1" and idle: "\<not> db_in_txn s"
    using assms(2,3) by (auto simp: execute_def run_sql_def act_simps begin_txn_def in_txn_of_def split: if_splits)
  then have "in_txn_of s (run_ops (exec_op F) ops s1)"
    using assms(4) by (intro run_ops_inv [where I = "in_txn_of s"]) (auto simp: exec_op_def intro: in_txn_step)
  moreover have "db_snap s = None" "db_pending s = []" using ok idle by (auto simp: sql_ok_def)
  ultimately show ?thesis using assms(5) idle
    by (cases s; cases "run_ops (exec_op F) ops s1") (simp add: execute_def run_sql_def act_simps end_txn_def in_txn_of_def)
qed

end
