(* ===== verification/Sql_Log.thy ===== *)
theory Sql_Log
  imports Sql_Json Sql_Db_Props
begin

text \<open>
  Durability of minisql: what a log holds, and that opening it again brings back the committed tables, also after a write
  that stopped anywhere in its last line.
\<close>

section \<open>Lines of a log\<close>

definition log_line :: "'f pyf \<Rightarrow> 'f entry list \<Rightarrow> string" where
  "log_line F es = json_line F es @ [newline]"

definition log_text :: "'f pyf \<Rightarrow> 'f entry list list \<Rightarrow> string" where
  "log_text F hist = HEADER @ newline # concat (map (log_line F) hist)"

lemma split_lines_ne: "split_lines s \<noteq> []"
  by (induction s) auto

lemma split_lines_plain: "newline \<notin> set s \<Longrightarrow> split_lines s = [s]"
  by (induction s) auto

lemma split_lines_cons: "newline \<notin> set s \<Longrightarrow> split_lines (s @ newline # r) = s # split_lines r"
  by (induction s) auto

lemma HEADER_newline: "newline \<notin> set HEADER"
  by (simp add: HEADER_def newline_def)

lemma split_lines_log:
  assumes "json_floats F" and "newline \<notin> set torn"
  shows "split_lines (log_text F hist @ torn) = HEADER # map (json_line F) hist @ [torn]"
proof -
  have "split_lines (concat (map (log_line F) h) @ torn) = map (json_line F) h @ [torn]" for h
    by (induction h) (simp_all add: split_lines_plain assms log_line_def split_lines_cons json_line_newline)
  then show ?thesis by (simp add: log_text_def split_lines_cons HEADER_newline)
qed

lemma log_text_snoc: "log_text F (hist @ [es]) = log_text F hist @ json_line F es @ [newline]"
  by (simp add: log_text_def log_line_def)

section \<open>Playing the entries of a log\<close>

definition writes :: "'f stmt \<Rightarrow> bool" where
  "writes node = (case node of StBegin \<Rightarrow> False | StCommit \<Rightarrow> False | StRollback \<Rightarrow> False | StSelect _ \<Rightarrow> False | _ \<Rightarrow> True)"

definition plays :: "'f pyf \<Rightarrow> 'f entry \<Rightarrow> 'f sql_tables \<Rightarrow> 'f sql_tables \<Rightarrow> bool" where
  "plays F e T T' \<longleftrightarrow> (\<exists>node k. parse_sql F (fst e) = Inr (node, length (snd e)) \<and> writes node
     \<and> do_write F (snd e) node T = (Inr k, T'))"

primrec plays_all :: "'f pyf \<Rightarrow> 'f entry list \<Rightarrow> 'f sql_tables \<Rightarrow> 'f sql_tables \<Rightarrow> bool" where
  "plays_all F [] T T' \<longleftrightarrow> T' = T"
| "plays_all F (e # es) T T' \<longleftrightarrow> (\<exists>U. plays F e T U \<and> plays_all F es U T')"

lemma plays_all_append: "plays_all F (xs @ ys) T T' \<longleftrightarrow> (\<exists>U. plays_all F xs T U \<and> plays_all F ys U T')"
  by (induction xs arbitrary: T) auto

lemma run_sql_write:
  "parse_sql F sql = Inr (node, length ps) \<Longrightarrow> writes node \<Longrightarrow> run_sql F io sql ps log = run_write F io sql ps log node"
  by (cases node) (simp_all add: run_sql_def writes_def fun_eq_iff act_simps)

lemma replay_one_plays:
  assumes "plays F e (db_tables s) T"
  shows "replay_one F (json_of_entry e) s = (Inr (), s\<lparr>db_tables := T\<rparr>)"
proof -
  obtain sql ps where e: "e = (sql, ps)" by force
  from assms obtain node k where p: "parse_sql F sql = Inr (node, length ps)" "writes node"
    and w: "do_write F ps node (db_tables s) = (Inr k, T)" by (auto simp: plays_def e)
  show ?thesis using w
    by (simp add: e json_of_entry_def replay_one_def act_simps json_two_def json_iter_def json_params_back json_sql_def
      run_sql_write [OF p] run_write_def guarded_write_run)
qed

lemma replay_entries_plays:
  "plays_all F es (db_tables s) T \<Longrightarrow>
    mapA (replay_one F) (map json_of_entry es) s = (Inr (replicate (length es) ()), s\<lparr>db_tables := T\<rparr>)"
proof (induction es arbitrary: s)
  case (Cons e es)
  then obtain U where "plays F e (db_tables s) U" and U: "plays_all F es U T" by auto
  then show ?case using Cons.IH [of "s\<lparr>db_tables := U\<rparr>"] by (simp add: act_simps replay_one_plays)
qed (simp add: act_simps)

lemma replay_line_plays:
  assumes "json_floats F" and "plays_all F es (db_tables s) T"
  shows "replay_line F (json_line F es) s = (Inr (), s\<lparr>db_tables := T\<rparr>)"
  using replay_entries_plays [OF assms(2)]
  by (simp add: replay_line_def json_line_back [OF assms(1)] replay_def json_txn_def json_iter_def act_simps)

lemma replay_lines_plays:
  assumes "json_floats F"
  shows "plays_all F (concat hist) (db_tables s) T \<Longrightarrow>
    mapA (replay_line F) (map (json_line F) hist) s = (Inr (replicate (length hist) ()), s\<lparr>db_tables := T\<rparr>)"
proof (induction hist arbitrary: s)
  case (Cons es hist)
  then obtain U where "plays_all F es (db_tables s) U" and U: "plays_all F (concat hist) U T" by (auto simp: plays_all_append)
  then show ?case using Cons.IH [of "s\<lparr>db_tables := U\<rparr>"] by (simp add: act_simps replay_line_plays [OF assms])
qed (simp add: act_simps)

definition opened_db :: "string \<Rightarrow> 'f sql_tables \<Rightarrow> 'f sql_db" where
  "opened_db c T = (new_db (Some c))\<lparr>db_tables := T\<rparr>"

lemma open_log:
  assumes "json_floats F" and "newline \<notin> set torn" and "plays_all F (concat hist) Map.empty T"
  shows "open_db F (log_text F hist @ torn) = (Inr (), opened_db (log_text F hist) T)"
proof -
  have "mapA (replay_line F) (map (json_line F) hist) (new_db None) = (Inr (replicate (length hist) ()), (new_db None)\<lparr>db_tables := T\<rparr>)"
    by (rule replay_lines_plays [OF assms(1)]) (simp add: new_db_def assms(3))
  moreover have "log_text F hist @ torn \<noteq> []" by (simp add: log_text_def)
  ultimately show ?thesis
    by (simp add: open_db_def Let_def split_lines_log [OF assms(1,2)] act_simps) (simp add: opened_db_def new_db_def)
qed

section \<open>Sessions on a log file\<close>

text \<open>Sessions in which the writes of the log succeed; after one that failed the process is taken to end, and its file to be
  opened again.\<close>

inductive file_db :: "'f pyf \<Rightarrow> 'f sql_db \<Rightarrow> bool" where
  fresh: "file_db F (snd (open_db F []))"
| ran: "file_db F s \<Longrightarrow> file_db F (snd (execute F Written sql ps s))"
| reopened: "file_db F s \<Longrightarrow> db_log s = Some c \<Longrightarrow> newline \<notin> set torn \<Longrightarrow> file_db F (snd (open_db F (c @ torn)))"

text \<open>The tables as of the last commit.\<close>

definition committed_tables :: "'f sql_db \<Rightarrow> 'f sql_tables" where
  "committed_tables s = (case db_snap s of None \<Rightarrow> db_tables s | Some T \<Rightarrow> T)"

definition logged :: "'f pyf \<Rightarrow> 'f sql_db \<Rightarrow> bool" where
  "logged F s \<longleftrightarrow> db_buf s = [] \<and> (\<exists>hist. db_log s = Some (log_text F hist) \<and> plays_all F (concat hist) Map.empty (committed_tables s))
     \<and> plays_all F (db_pending s) (committed_tables s) (db_tables s)
     \<and> (db_in_txn s \<longleftrightarrow> db_snap s \<noteq> None) \<and> (\<not> db_in_txn s \<longrightarrow> db_pending s = [])"

lemma logged_opened: "plays_all F (concat hist) Map.empty T \<Longrightarrow> logged F (opened_db (log_text F hist) T)"
  by (auto simp: logged_def opened_db_def new_db_def committed_tables_def)

lemma logged_txn:
  assumes "logged F s"
  shows "logged F (snd (begin_txn s))" and "logged F (snd (end_txn F Written commit True s))"
proof -
  from assms obtain hist where h: "db_log s = Some (log_text F hist)" "plays_all F (concat hist) Map.empty (committed_tables s)"
    and p: "plays_all F (db_pending s) (committed_tables s) (db_tables s)" and buf: "db_buf s = []" by (auto simp: logged_def)
  show "logged F (snd (begin_txn s))" using assms by (auto simp: begin_txn_def act_simps logged_def committed_tables_def)
  have c: "plays_all F (concat (hist @ [db_pending s])) Map.empty (db_tables s)" using h(2) p by (auto simp: plays_all_append)
  show "logged F (snd (end_txn F Written commit True s))"
  proof (cases "db_in_txn s")
    case True
    with assms obtain T where T: "db_snap s = Some T" "committed_tables s = T" by (auto simp: logged_def committed_tables_def)
    show ?thesis
    proof (cases "commit \<and> db_pending s \<noteq> []")
      case com: True
      then show ?thesis using True T c h(1) buf
        by (auto simp: end_txn_def act_simps write_log_def logged_def committed_tables_def log_text_snoc
            intro!: exI [of _ "hist @ [db_pending s]"])
    next
      case False
      then show ?thesis using True T h p buf by (auto simp: end_txn_def act_simps write_log_def logged_def committed_tables_def)
    qed
  qed (use assms in \<open>simp add: end_txn_def act_simps\<close>)
qed

lemma logged_write:
  assumes s: "logged F s" and p: "parse_sql F sql = Inr (node, length ps)" "writes node"
  shows "logged F (snd (run_write F Written sql ps True node s))"
proof -
  obtain w T where w: "do_write F ps node (db_tables s) = (w, T)" by force
  show ?thesis
  proof (cases w)
    case (Inr k)
    with p w have e: "plays F (sql, ps) (db_tables s) T" by (auto simp: plays_def)
    from s obtain hist where h: "db_log s = Some (log_text F hist)" "plays_all F (concat hist) Map.empty (committed_tables s)" by (auto simp: logged_def)
    show ?thesis
    proof (cases "db_in_txn s")
      case True
      with s e h w Inr show ?thesis
        by (auto simp: run_write_def act_simps guarded_write_run logged_def committed_tables_def plays_all_append)
    next
      case False
      with s have d: "committed_tables s = db_tables s" "db_snap s = None" "db_pending s = []" "db_buf s = []" by (auto simp: logged_def committed_tables_def)
      with h(2) e have "plays_all F (concat (hist @ [[(sql, ps)]])) Map.empty T" by (auto simp: plays_all_append)
      then show ?thesis using False d h(1) w Inr
        by (auto simp: run_write_def act_simps guarded_write_run logged_def committed_tables_def write_log_def log_text_snoc
          intro!: exI [of _ "hist @ [[(sql, ps)]]"])
    qed
  qed (use s w in \<open>simp add: run_write_def act_simps guarded_write_run\<close>)
qed

lemma logged_execute: "logged F s \<Longrightarrow> logged F (snd (execute F Written sql ps s))"
proof (cases "parse_sql F sql")
  case (Inr p)
  assume s: "logged F s"
  obtain node n where p: "p = (node, n)" by force
  show ?thesis
  proof (cases "n = length ps \<and> writes node")
    case True
    with Inr p s show ?thesis by (simp add: execute_def run_sql_write logged_write)
  next
    case False
    with Inr p s show ?thesis
      by (cases node) (auto simp: execute_def run_sql_def act_simps writes_def logged_txn split: sum.split)
  qed
qed (simp add: execute_def run_sql_def act_simps)

lemma reopen_logged:
  assumes "json_floats F" "logged F s" "db_log s = Some c" "newline \<notin> set torn"
  shows "open_db F (c @ torn) = (Inr (), opened_db c (committed_tables s))" and "logged F (snd (open_db F (c @ torn)))"
proof -
  from assms obtain hist where h: "c = log_text F hist" "plays_all F (concat hist) Map.empty (committed_tables s)" by (auto simp: logged_def)
  show o: "open_db F (c @ torn) = (Inr (), opened_db c (committed_tables s))" unfolding h(1) by (rule open_log [OF assms(1,4) h(2)])
  show "logged F (snd (open_db F (c @ torn)))" unfolding o using logged_opened [OF h(2)] by (simp add: h(1))
qed

lemma file_db_logged: "file_db F s \<Longrightarrow> json_floats F \<Longrightarrow> logged F s"
proof (induction rule: file_db.induct)
  case (fresh F)
  have "snd (open_db F []) = opened_db (log_text F []) Map.empty"
    by (simp add: open_db_def opened_db_def new_db_def log_text_def)
  then show ?case using logged_opened [of F "[]"] by simp
qed (simp_all add: logged_execute reopen_logged(2))

text \<open>A statement appends one line to the log, or nothing.\<close>

lemma execute_log:
  assumes "execute F Written sql ps s = (r, s')" and "db_buf s = []"
  shows "db_log s' = db_log s \<or> (\<exists>c es. db_log s = Some c \<and> db_log s' = Some (c @ json_line F es @ [newline]))"
proof (cases "parse_sql F sql")
  case (Inr p)
  obtain node n where p: "p = (node, n)" by force
  obtain w T where w: "do_write F ps node (db_tables s) = (w, T)" by force
  show ?thesis using assms w unfolding execute_def run_sql_def Inr p
    by (cases node; cases w; cases "db_log s")
      (auto simp: act_simps begin_txn_def end_txn_def run_write_def guarded_write_run write_log_def Let_def split: if_splits sum.splits prod.splits)
qed (use assms in \<open>simp add: execute_def run_sql_def act_simps\<close>)

text \<open>A write outside a transaction adds its own line.\<close>

lemma execute_logged:
  assumes "parse_sql F sql = Inr (node, length ps)" "writes node" "do_write F ps node T = (Inr k, T')"
  shows "execute F Written sql ps (opened_db (log_text F hist) T) = (Inr (done_result k), opened_db (log_text F (hist @ [[(sql, ps)]])) T')"
  using assms by (simp add: execute_def run_sql_write run_write_def guarded_write_run act_simps write_log_def opened_db_def
    new_db_def log_text_snoc)

lemma execute_unlogged:
  assumes "parse_sql F sql = Inr (node, length ps)" "writes node" "do_write F ps node T = (Inr k, T')"
  shows "execute F (Failed e n 0) sql ps (opened_db c T) = (Inl e, opened_db (c @ take n (json_line F [(sql, ps)] @ [newline])) T')"
  using assms by (simp add: execute_def run_sql_write run_write_def guarded_write_run act_simps write_log_def opened_db_def
    new_db_def Let_def del: take_append)

section \<open>Properties\<close>

text \<open>C33. Opening the log file of a session again, with any torn text behind its last newline, brings back exactly the
  tables of the last commit and cuts the torn text off; open transactions are gone. Floats are written and read back by
  the standard library.\<close>

theorem reopening_restores_commits:
  assumes "json_floats F" and "file_db F s" and "db_log s = Some c" and "newline \<notin> set torn"
  shows "open_db F (c @ torn) = (Inr (), \<lparr>db_tables = committed_tables s, db_in_txn = False, db_snap = None, db_pending = [], db_log = Some c, db_buf = []\<rparr>)"
  using reopen_logged(1) [OF assms(1) file_db_logged [OF assms(2,1)] assms(3,4)] by (simp add: opened_db_def new_db_def)

text \<open>C32. A statement is atomic on the file: when its write of the log stops after any number of bytes, opening the file
  gives the tables committed before it, and those committed after it only when the whole line is there.\<close>

theorem crash_is_atomic:
  assumes "json_floats F" and "file_db F s" and "db_log s = Some c"
    and "execute F Written sql ps s = (r, s')" and "db_log s' = Some c'" and "length c \<le> k" and "k \<le> length c'"
  shows "open_db F (take k c') = (Inr (), \<lparr>db_tables = committed_tables (if k = length c' then s' else s), db_in_txn = False, db_snap = None,
     db_pending = [], db_log = Some (if k = length c' then c' else c), db_buf = []\<rparr>)"
proof -
  note s = file_db_logged [OF assms(2,1)]
  have s': "logged F s'" using logged_execute [OF s, of sql ps] assms(4) by simp
  show ?thesis
  proof (cases "k = length c'")
    case True
    then show ?thesis using reopen_logged(1) [OF assms(1) s' assms(5), of "[]"] by (simp add: opened_db_def new_db_def)
  next
    case False
    with assms(6,7) have "c \<noteq> c'" by auto
    then obtain es where c': "c' = c @ json_line F es @ [newline]"
      using execute_log [OF assms(4)] s assms(3,5) by (auto simp: logged_def)
    let ?t = "take (k - length c) (json_line F es)"
    have "take k c' = c @ ?t" using False assms(6,7) by (simp add: c')
    moreover have "newline \<notin> set ?t" using json_line_newline [OF assms(1), of es] set_take_subset by fast
    ultimately show ?thesis using False reopen_logged(1) [OF assms(1) s assms(3), of ?t] by (simp add: opened_db_def new_db_def)
  qed
qed

end
