(* ===== verification/Sql_Query_Props.thy ===== *)
theory Sql_Query_Props
  imports Sql_Query "HOL-Library.Multiset"
begin

text \<open>
  The properties of queries: what \<open>ORDER BY\<close> and \<open>GROUP BY\<close> make of rows, what \<open>LIKE\<close> matches, and what \<open>IN\<close> means under
  three truth values. Python's comparison of numbers is a strict weak order, as long as no NaN takes part.
\<close>

section \<open>Stable sorting\<close>

definition weak_order :: "('k \<Rightarrow> 'k \<Rightarrow> bool) \<Rightarrow> bool" where
  "weak_order lt \<longleftrightarrow> (\<forall>a b. lt a b \<longrightarrow> \<not> lt b a) \<and> (\<forall>a b c. lt a c \<longrightarrow> lt a b \<or> lt b c)"

text \<open>Before by the key or, where the keys tie, by an earlier order.\<close>

definition then_by :: "('k \<Rightarrow> 'k \<Rightarrow> bool) \<Rightarrow> ('k \<times> 'x \<Rightarrow> 'k \<times> 'x \<Rightarrow> bool) \<Rightarrow> 'k \<times> 'x \<Rightarrow> 'k \<times> 'x \<Rightarrow> bool" where
  "then_by lt Q x y \<longleftrightarrow> lt (fst x) (fst y) \<or> \<not> lt (fst y) (fst x) \<and> Q x y"

lemma mset_insort [simp]: "mset (insort lt x xs) = add_mset x (mset xs)"
  by (induction xs) auto

lemma set_insort: "set (insort lt x xs) = insert x (set xs)"
  by (induction xs) auto

lemma mset_py_sort: "mset (py_sort lt xs) = mset xs"
  by (induction xs) (simp_all add: py_sort_def)

lemma mset_py_sorted: "mset (py_sorted lt desc xs) = mset xs"
  by (simp add: py_sorted_def mset_py_sort)

lemma insort_sorted:
  assumes w: "weak_order lt"
  shows "sorted_wrt (then_by lt Q) ys \<Longrightarrow> \<forall>y \<in> set ys. Q x y \<Longrightarrow> sorted_wrt (then_by lt Q) (insort lt x ys)"
proof (induction ys)
  case (Cons y ys)
  show ?case
  proof (cases "lt (fst y) (fst x)")
    case True
    then show ?thesis using Cons by (auto simp: set_insort then_by_def)
  next
    case False
    have "then_by lt Q x z" if "z \<in> set (y # ys)" for z
    proof -
      from that Cons.prems(1) have "z = y \<or> \<not> lt (fst z) (fst y)" using w unfolding weak_order_def by (auto simp: then_by_def)
      with False have "\<not> lt (fst z) (fst x)" using w unfolding weak_order_def by blast
      then show ?thesis using that Cons.prems(2) by (auto simp: then_by_def)
    qed
    then show ?thesis using False Cons.prems(1) by simp
  qed
qed simp

lemma py_sort_sorted:
  assumes "weak_order lt"
  shows "sorted_wrt Q xs \<Longrightarrow> sorted_wrt (then_by lt Q) (py_sort lt xs)"
proof (induction xs)
  case (Cons x xs)
  have "set (py_sort lt xs) = set xs" by (rule mset_eq_setD [OF mset_py_sort])
  with Cons.prems have "\<forall>y \<in> set (py_sort lt xs). Q x y" by simp
  from insort_sorted [OF assms Cons.IH this] Cons.prems show ?case by (simp add: py_sort_def)
qed (simp add: py_sort_def)

definition directed :: "bool \<Rightarrow> ('k \<Rightarrow> 'k \<Rightarrow> bool) \<Rightarrow> 'k \<Rightarrow> 'k \<Rightarrow> bool" where
  "directed desc lt a b = (if desc then lt b a else lt a b)"

lemma py_sorted_sorted:
  assumes "weak_order lt" and "sorted_wrt Q xs"
  shows "sorted_wrt (then_by (directed desc lt) Q) (py_sorted lt desc xs)"
proof (cases desc)
  case True
  have "sorted_wrt (\<lambda>x y. Q y x) (rev xs)" using assms(2) by (simp add: sorted_wrt_rev)
  from py_sort_sorted [OF assms(1) this]
  have "sorted_wrt (\<lambda>x y. then_by lt (\<lambda>x y. Q y x) y x) (rev (py_sort lt (rev xs)))" by (simp add: sorted_wrt_rev)
  moreover have "(\<lambda>x y. then_by lt (\<lambda>x y. Q y x) y x) = then_by (directed desc lt) Q"
    using True by (auto simp: fun_eq_iff then_by_def directed_def)
  ultimately show ?thesis using True by (simp add: py_sorted_def)
next
  case False
  have "directed desc lt = lt" using False by (simp add: fun_eq_iff directed_def)
  then show ?thesis using py_sort_sorted [OF assms] False by (simp add: py_sorted_def)
qed

text \<open>Sorting looks at the keys only.\<close>

lemma insort_map: "insort lt (map_prod (\<lambda>k. k) f x) (map (map_prod (\<lambda>k. k) f) ys) = map (map_prod (\<lambda>k. k) f) (insort lt x ys)"
  by (induction ys) auto

lemma py_sort_map: "py_sort lt (map (map_prod (\<lambda>k. k) f) xs) = map (map_prod (\<lambda>k. k) f) (py_sort lt xs)"
  by (induction xs) (simp_all add: py_sort_def insort_map)

lemma py_sorted_map: "py_sorted lt desc (map (map_prod (\<lambda>k. k) f) xs) = map (map_prod (\<lambda>k. k) f) (py_sorted lt desc xs)"
  by (simp add: py_sorted_def py_sort_map rev_map)

section \<open>Order\<close>

text \<open>Whether row \<open>i\<close> comes before row \<open>j\<close>: the first order term whose keys differ decides, in its direction; rows that tie
  keep their places.\<close>

fun row_before :: "'f pyf \<Rightarrow> (nat \<Rightarrow> 'f val) list \<Rightarrow> bool list \<Rightarrow> nat \<Rightarrow> nat \<Rightarrow> bool" where
  "row_before F (k # ks) (d # ds) i j \<longleftrightarrow> directed d (sk_lt F) (k i) (k j) \<or> \<not> directed d (sk_lt F) (k j) (k i) \<and> row_before F ks ds i j"
| "row_before F _ _ i j \<longleftrightarrow> i < j"

text \<open>The key of each row under each order term.\<close>

definition order_keys :: "string list \<Rightarrow> bool \<Rightarrow> ('f expr \<times> 'f den \<times> bool) list \<Rightarrow> 'f unit_row list \<Rightarrow> (nat \<Rightarrow> 'f val) list \<Rightarrow> bool" where
  "order_keys cols single order units ks \<longleftrightarrow> list_all2 (\<lambda>(e, d, desc) k. \<forall>i < length units.
     order_key cols single e d (units ! i) = Inr (k i)) order ks"

lemma order_all_sorted:
  assumes w: "weak_order (sk_lt F)"
  shows "order_all F cols single order units = Inr us \<Longrightarrow>
    \<exists>ks idx. order_keys cols single order units ks \<and> us = map ((!) units) idx \<and> mset idx = mset [0..<length units]
      \<and> sorted_wrt (row_before F ks (map (\<lambda>(e, d, desc). desc) order)) idx"
proof (induction order arbitrary: us)
  case Nil
  then show ?case
    by (intro exI [of _ "[]"] exI [of _ "[0..<length units]"]) (auto simp: order_keys_def map_nth sorted_wrt_upt)
next
  case (Cons o1 order)
  obtain e d desc where o1: "o1 = (e, d, desc)" by (cases o1)
  from Cons.prems obtain vs where vs: "order_all F cols single order units = Inr vs" and ord: "order_by F cols single o1 vs = Inr us"
    by (auto simp: bindR_eq_Inr)
  from Cons.IH [OF vs] obtain ks idx where ks: "order_keys cols single order units ks" and idx: "vs = map ((!) units) idx"
    "mset idx = mset [0..<length units]" "sorted_wrt (row_before F ks (map (\<lambda>(e, d, desc). desc) order)) idx" by blast
  let ?Q = "row_before F ks (map (\<lambda>(e, d, desc). desc) order)"
  from ord obtain kus where kus: "mapR (\<lambda>u. bindR (order_key cols single e d u) (\<lambda>k. Inr (k, u))) vs = Inr kus"
    and us: "us = map snd (py_sorted (sk_lt F) desc kus)" by (auto simp: order_by_def o1 bindR_eq_Inr)
  define k where "k i = projr (order_key cols single e d (units ! i))" for i
  have key: "order_key cols single e d (units ! i) = Inr (k i)" if "i \<in> set idx" for i
  proof -
    from that obtain m where "m < length idx" "idx ! m = i" by (auto simp: in_set_conv_nth)
    with mapR_Inr [OF kus] show ?thesis by (auto simp: idx(1) bindR_eq_Inr k_def)
  qed
  have set_idx: "set idx = {..<length units}" using mset_eq_setD [OF idx(2)] by (simp add: atLeast0LessThan)
  have "kus = map (map_prod (\<lambda>k. k) ((!) units)) (map (\<lambda>i. (k i, i)) idx)"
    using mapR_Inr [OF kus] by (intro nth_equalityI) (auto simp: idx(1) bindR_eq_Inr key)
  then have us': "us = map ((!) units) (map snd (py_sorted (sk_lt F) desc (map (\<lambda>i. (k i, i)) idx)))"
    by (simp only: us py_sorted_map) (simp add: o_def)
  let ?s = "py_sorted (sk_lt F) desc (map (\<lambda>i. (k i, i)) idx)"
  have ms: "mset ?s = mset (map (\<lambda>i. (k i, i)) idx)" by (rule mset_py_sorted)
  have "sorted_wrt (\<lambda>x y. ?Q (snd x) (snd y)) (map (\<lambda>i. (k i, i)) idx)" using idx(3) by (simp add: sorted_wrt_map)
  from py_sorted_sorted [OF w this] have "sorted_wrt (then_by (directed desc (sk_lt F)) (\<lambda>x y. ?Q (snd x) (snd y))) ?s" .
  moreover have "fst x = k (snd x)" if "x \<in> set ?s" for x
  proof -
    from that have "x \<in> set (map (\<lambda>i. (k i, i)) idx)" unfolding mset_eq_setD [OF ms] .
    then show ?thesis by auto
  qed
  ultimately have srt: "sorted_wrt (\<lambda>x y. row_before F (k # ks) (desc # map (\<lambda>(e, d, desc). desc) order) (snd x) (snd y)) ?s"
    by (elim sorted_wrt_mono_rel [rotated]) (simp add: then_by_def)
  have perm: "mset (map snd ?s) = mset idx"
    using arg_cong [OF ms, of "image_mset snd"] by (simp add: multiset.map_comp o_def)
  have "order_keys cols single (o1 # order) units (k # ks)" using ks key set_idx by (simp add: order_keys_def o1)
  moreover have "sorted_wrt (row_before F (k # ks) (map (\<lambda>(e, d, desc). desc) (o1 # order))) (map snd ?s)"
    using srt by (simp only: sorted_wrt_map o1 list.map prod.case)
  ultimately show ?case using us' perm idx(2) by (metis (no_types, lifting))
qed

section \<open>Groups\<close>

definition equivalence :: "('k \<Rightarrow> 'k \<Rightarrow> bool) \<Rightarrow> bool" where
  "equivalence eq \<longleftrightarrow> (\<forall>a. eq a a) \<and> (\<forall>a b. eq a b \<longrightarrow> eq b a) \<and> (\<forall>a b c. eq a b \<longrightarrow> eq b c \<longrightarrow> eq a c)"

lemma equivalenceD:
  assumes "equivalence eq"
  shows "eq a a" "eq a b \<Longrightarrow> eq b a" "eq a b \<Longrightarrow> eq b c \<Longrightarrow> eq a c"
proof -
  note e = assms [unfolded equivalence_def]
  show "eq a a" using conjunct1 [OF e] ..
  show "eq a b \<Longrightarrow> eq b a" using conjunct1 [OF conjunct2 [OF e]] by simp
  show "eq a b \<Longrightarrow> eq b c \<Longrightarrow> eq a c" using conjunct2 [OF conjunct2 [OF e], rule_format] .
qed

text \<open>The first keys, each with the elements whose keys equal it, in their order.\<close>

definition key_groups :: "('k \<Rightarrow> 'k \<Rightarrow> bool) \<Rightarrow> ('k \<times> 'e) list \<Rightarrow> ('k \<times> 'e list) list" where
  "key_groups eq kes = map (\<lambda>k. (k, map snd (filter (\<lambda>(k', e). eq k k') kes))) (dedup eq [] (map fst kes))"

lemma dedup_append: "dedup eq seen (xs @ ys) = dedup eq seen xs @ dedup eq (seen @ dedup eq seen xs) ys"
  by (induction xs arbitrary: seen) auto

lemma dedup_apart:
  assumes "equivalence eq"
  shows "(\<forall>x \<in> set (dedup eq seen xs). x \<in> set xs \<and> \<not> list_ex (eq x) seen) \<and> sorted_wrt (\<lambda>a b. \<not> eq a b) (dedup eq seen xs)"
proof (induction xs arbitrary: seen)
  case (Cons x xs)
  show ?case
  proof (cases "list_ex (eq x) seen")
    case True
    with Cons [of seen] show ?thesis by simp
  next
    case False
    have "\<not> eq x y" if "\<not> eq y x" for y using that equivalenceD(2) [OF assms] by blast
    with False Cons [of "seen @ [x]"] show ?thesis by simp
  qed
qed simp

lemma dedup_covers:
  assumes "equivalence eq" and "x \<in> set xs"
  shows "\<exists>y \<in> set (seen @ dedup eq seen xs). eq y x"
  using assms(2)
proof (induction xs arbitrary: seen)
  case (Cons a xs)
  show ?case
  proof (cases "x = a")
    case True
    then show ?thesis using equivalenceD(1,2) [OF assms(1)] by (auto simp: list_ex_iff)
  next
    case False
    then have "x \<in> set xs" using Cons.prems by simp
    from Cons.IH [OF this, of seen] Cons.IH [OF this, of "seen @ [a]"] show ?thesis by auto
  qed
qed simp

lemma add_group_apart:
  assumes "equivalence eq"
  shows "sorted_wrt (\<lambda>a b. \<not> eq a b) (map fst gs) \<Longrightarrow> add_group eq k e gs =
     (if list_ex (\<lambda>a. eq a k) (map fst gs) then map (\<lambda>(a, es). (a, if eq a k then es @ [e] else es)) gs else gs @ [(k, [e])])"
proof (induction gs)
  case (Cons g gs)
  obtain a es where g: "g = (a, es)" by force
  show ?case
  proof (cases "eq a k")
    case True
    have "\<not> eq b k" if "b \<in> set (map fst gs)" for b
    proof
      assume "eq b k"
      with True have "eq a b" using equivalenceD(2,3) [OF assms] by blast
      with that Cons.prems g show False by auto
    qed
    then have "map (\<lambda>(a, es). (a, if eq a k then es @ [e] else es)) gs = gs" by (intro map_idI) force
    with True g show ?thesis by simp
  next
    case False
    with Cons g show ?thesis by simp
  qed
qed simp

lemma key_groups_snoc:
  assumes "equivalence eq"
  shows "key_groups eq (kes @ [(k, e)]) = add_group eq k e (key_groups eq kes)"
proof -
  let ?ds = "dedup eq [] (map fst kes)"
  have keys: "map fst (key_groups eq kes) = ?ds" by (simp add: key_groups_def o_def)
  have apart: "sorted_wrt (\<lambda>a b. \<not> eq a b) ?ds" using dedup_apart [OF assms, of "[]" "map fst kes"] by blast
  have sym: "list_ex (eq k) ?ds \<longleftrightarrow> list_ex (\<lambda>a. eq a k) ?ds" using equivalenceD(2) [OF assms] by (auto simp: list_ex_iff)
  note add = add_group_apart [OF assms, of "key_groups eq kes" k e, unfolded keys, OF apart]
  show ?thesis
  proof (cases "list_ex (eq k) ?ds")
    case True
    then show ?thesis unfolding add using sym by (simp add: key_groups_def dedup_append)
  next
    case False
    then have no: "\<not> eq a k" if "a \<in> set ?ds" for a using that sym by (auto simp: list_ex_iff)
    have "\<not> eq k k'" if "(k', e') \<in> set kes" for k' e'
    proof
      assume "eq k k'"
      from that have "k' \<in> set (map fst kes)" by force
      from dedup_covers [OF assms this, of "[]"] obtain y where "y \<in> set ?ds" "eq y k'" by auto
      with \<open>eq k k'\<close> no show False using equivalenceD(2,3) [OF assms] by blast
    qed
    then have "filter (\<lambda>(k', e'). eq k k') kes = []" by (auto simp: filter_empty_conv)
    then show ?thesis unfolding add using sym False no equivalenceD(1) [OF assms, of k]
      by (auto simp: key_groups_def dedup_append)
  qed
qed

lemma group_by_groups: "equivalence eq \<Longrightarrow> group_by eq kes = map snd (key_groups eq kes)"
proof -
  assume eq: "equivalence eq"
  have "fold (\<lambda>(k, e) gs. add_group eq k e gs) kes [] = key_groups eq kes"
    by (induction kes rule: rev_induct) (auto simp: key_groups_snoc [OF eq], simp add: key_groups_def)
  then show ?thesis by (simp add: group_by_def)
qed

section \<open>Patterns\<close>

text \<open>A text cut in as many parts as the pattern has characters, each part matching its character.\<close>

definition part_ok :: "char \<Rightarrow> string \<Rightarrow> bool" where
  "part_ok p t \<longleftrightarrow> p = CHR ''%'' \<or> (\<exists>c. t = [c] \<and> (p = CHR ''_'' \<or> p = c))"

lemma like_chars_parts: "like_chars s p \<longleftrightarrow> (\<exists>ts. list_all2 part_ok p ts \<and> concat ts = s)"
proof (induction s p rule: like_chars.induct)
  case (1 s)
  then show ?case by auto
next
  case (2 s p ps)
  show ?case
  proof (cases "p = CHR ''%''")
    case True
    have "(\<exists>ts. list_all2 part_ok (p # ps) ts \<and> concat ts = s)
      \<longleftrightarrow> (\<exists>ts. list_all2 part_ok ps ts \<and> concat ts = s) \<or> (\<exists>c r ts. s = c # r \<and> list_all2 part_ok (p # ps) ts \<and> concat ts = r)"
      (is "?l \<longleftrightarrow> ?a \<or> ?b")
    proof
      assume ?l
      then obtain t ts where t: "list_all2 part_ok ps ts" "t @ concat ts = s" by (auto simp: list_all2_Cons1)
      show "?a \<or> ?b"
      proof (cases t)
        case (Cons c r)
        with t True have "list_all2 part_ok (p # ps) (r # ts)" "s = c # concat (r # ts)" by (auto simp: part_ok_def)
        then show ?thesis by blast
      qed (use t in auto)
    next
      assume "?a \<or> ?b"
      then show ?l
      proof
        assume ?a
        then obtain ts where "list_all2 part_ok ps ts" "concat ts = s" by blast
        with True show ?l by (intro exI [of _ "[] # ts"]) (simp add: part_ok_def)
      next
        assume ?b
        then obtain c t ts where "s = c # t @ concat ts" "list_all2 part_ok ps ts" by (auto simp: list_all2_Cons1)
        with True show ?l by (intro exI [of _ "(c # t) # ts"]) (simp add: part_ok_def)
      qed
    qed
    with 2 True show ?thesis by (auto split: list.splits)
  next
    case False
    have "(\<exists>ts. list_all2 part_ok (p # ps) ts \<and> concat ts = s)
      \<longleftrightarrow> (\<exists>c r ts. s = c # r \<and> (p = CHR ''_'' \<or> c = p) \<and> list_all2 part_ok ps ts \<and> concat ts = r)" (is "?l \<longleftrightarrow> ?r")
    proof
      assume ?l
      then obtain t ts where "part_ok p t" "list_all2 part_ok ps ts" "t @ concat ts = s" by (auto simp: list_all2_Cons1)
      with False show ?r by (auto simp: part_ok_def)
    next
      assume ?r
      then obtain c ts where "s = c # concat ts" "p = CHR ''_'' \<or> c = p" "list_all2 part_ok ps ts" by blast
      then show ?l by (intro exI [of _ "[c] # ts"]) (auto simp: part_ok_def)
    qed
    with 2 False show ?thesis by (cases s) auto
  qed
qed

section \<open>Groups hold every row once\<close>

lemma add_group_rows: "mset (concat (map snd (add_group eq k e gs))) = add_mset e (mset (concat (map snd gs)))"
  by (induction gs) auto

lemma add_group_filled: "list_all (\<lambda>g. snd g \<noteq> []) gs \<Longrightarrow> list_all (\<lambda>g. snd g \<noteq> []) (add_group eq k e gs)"
  by (induction gs) auto

lemma group_by_rows: "mset (concat (group_by eq kes)) = mset (map snd kes)" "[] \<notin> set (group_by eq kes)"
proof -
  have "mset (concat (map snd (fold (\<lambda>(k, e) gs. add_group eq k e gs) kes gs))) = mset (concat (map snd gs)) + mset (map snd kes)" for gs
    by (induction kes arbitrary: gs) (auto simp: add_group_rows)
  from this [of "[]"] show "mset (concat (group_by eq kes)) = mset (map snd kes)" by (simp add: group_by_def)
  have "list_all (\<lambda>g. snd g \<noteq> []) gs \<Longrightarrow> list_all (\<lambda>g. snd g \<noteq> []) (fold (\<lambda>(k, e) gs. add_group eq k e gs) kes gs)" for gs
    by (induction kes arbitrary: gs) (auto simp: add_group_filled)
  from this [of "[]"] show "[] \<notin> set (group_by eq kes)" by (auto simp: group_by_def list_all_iff)
qed

lemma row_eq_equivalence: "equivalence (sk_eq F) \<Longrightarrow> equivalence (row_eq F)"
proof -
  assume e: "equivalence (sk_eq F)"
  have "row_eq F a a" for a using equivalenceD(1) [OF e] by (simp add: row_eq_def list_all2_refl)
  moreover have "row_eq F a b \<Longrightarrow> row_eq F b a" for a b
    using equivalenceD(2) [OF e] by (simp add: row_eq_def list_all2_conv_all_nth)
  moreover have "row_eq F a b \<Longrightarrow> row_eq F b c \<Longrightarrow> row_eq F a c" for a b c
    unfolding row_eq_def by (rule list_all2_trans) (rule equivalenceD(3) [OF e])
  ultimately show ?thesis unfolding equivalence_def by blast
qed

section \<open>Truth values\<close>

lemma b3_of_bool3 [simp]: "b3 F (of_bool3 b) = b"
  by (cases b) (simp_all add: of_bool3_def b3_def nonzero_def)

lemma binop_eq: "binop F ''='' a b = Inr (of_bool3 (if a = VNone \<or> b = VNone then None else Some (cmp_val F a b = 0)))"
  by (simp add: binop_def COMPARISONS_def compare_def of_bool3_def)

definition or_chain :: "'f expr \<Rightarrow> 'f expr list \<Rightarrow> 'f expr" where
  "or_chain e es = foldr (\<lambda>x r. EOr (EBin ''='' e x) r) es (ELit (VInt 0))"

definition member3 :: "'f pyf \<Rightarrow> 'f val \<Rightarrow> 'f val list \<Rightarrow> bool option" where
  "member3 F v vals = foldr (\<lambda>x. or3 (if v = VNone \<or> x = VNone then None else Some (cmp_val F v x = 0))) vals (Some False)"

lemma or_chain_value:
  assumes v: "eval F T ps e env grp = Inr v"
  shows "mapR (\<lambda>x. eval F T ps x env grp) es = Inr vals \<Longrightarrow> eval F T ps (or_chain e es) env grp = Inr (of_bool3 (member3 F v vals))"
proof (induction es arbitrary: vals)
  case Nil
  then show ?case by (simp add: or_chain_def member3_def of_bool3_def)
next
  case (Cons x es)
  then obtain w ws where w: "eval F T ps x env grp = Inr w" "mapR (\<lambda>x. eval F T ps x env grp) es = Inr ws" "vals = w # ws"
    by (auto simp: bindR_eq_Inr)
  from Cons.IH [OF w(2)] show ?case
    by (simp add: or_chain_def member3_def w sem_or_def sem_bin_def v binop_eq) (simp add: or3_def of_bool3_def)
qed

lemma member3_in: "member3 F v vals = in_result F v vals"
  by (induction vals) (auto simp: member3_def in_result_def or3_def)

section \<open>Properties\<close>

text \<open>C37. \<open>ORDER BY\<close> of a simple query: the rows are those of the select core, each once, ordered by the first term whose keys
  differ, in the term's direction, and rows that tie keep their order; \<open>LIMIT\<close> and \<open>OFFSET\<close> cut the ordered list. Without
  a NaN, Python's comparison is a strict weak order.\<close>

theorem select_orders_rows:
  assumes "weak_order (sk_lt F)" and "select F T ps (Select [c] alls order lim off) env = Inr (cols, rows)"
  shows "\<exists>units ks idx. core F T ps c env = Inr (cols, units)
     \<and> list_all2 (\<lambda>(e, desc) k. \<forall>i < length units. order_key cols True e (eval F T ps e) (units ! i) = Inr (k i)) order ks
     \<and> mset idx = mset [0..<length units] \<and> sorted_wrt (row_before F ks (map snd order)) idx
     \<and> sem_limit (map_option (eval F T ps) lim) (map_option (eval F T ps) off) (map (\<lambda>i. unit_vals (units ! i)) idx) = Inr rows"
proof -
  have o: "map2 (\<lambda>(e, desc) d. (e, d, desc)) order (map (eval F T ps \<circ> fst) order)
      = map (\<lambda>(e, desc). (e, eval F T ps e, desc)) order"
    by (induction order) auto
  from assms(2) obtain units us where u: "core F T ps c env = Inr (cols, units)"
    and us: "order_all F cols True (map (\<lambda>(e, desc). (e, eval F T ps e, desc)) order) units = Inr us"
    and rows: "sem_limit (map_option (eval F T ps) lim) (map_option (eval F T ps) off) (map unit_vals us) = Inr rows"
    by (auto simp: sem_select_def sem_finish_def bindR_eq_Inr o)
  from order_all_sorted [OF assms(1) us] obtain ks idx
    where k: "order_keys cols True (map (\<lambda>(e, desc). (e, eval F T ps e, desc)) order) units ks" "us = map ((!) units) idx"
      "mset idx = mset [0..<length units]"
      "sorted_wrt (row_before F ks (map (\<lambda>(e, d, desc). desc) (map (\<lambda>(e, desc). (e, eval F T ps e, desc)) order))) idx" by blast
  have d: "map (\<lambda>(e, d, desc). desc) (map (\<lambda>(e, desc). (e, eval F T ps e, desc)) order) = map snd order"
    by (induction order) auto
  have "list_all2 (\<lambda>(e, desc) k. \<forall>i < length units. order_key cols True e (eval F T ps e) (units ! i) = Inr (k i)) order ks"
    using k(1) by (simp add: order_keys_def list_all2_map1 case_prod_unfold)
  then show ?thesis using u rows k(2,3) k(4) [unfolded d] by (intro exI [of _ units] exI [of _ ks] exI [of _ idx]) (simp add: o_def)
qed

text \<open>C38. \<open>GROUP BY\<close> puts every row that passed the filter into exactly one group, and no group is empty: there is a group
  for each first key, in the order of first occurrence, with the rows whose keys equal it, in their order.\<close>

theorem groups_partition_rows:
  assumes "equivalence (sk_eq F)" and "keys \<noteq> []" and "sem_groups F keys envs = Inr gs"
  shows "(\<exists>ks. mapR (\<lambda>e. mapR (\<lambda>d. d e None) keys) envs = Inr ks
       \<and> gs = map (\<lambda>k. map snd (filter (\<lambda>(k', e). row_eq F k k') (zip ks envs))) (dedup (row_eq F) [] ks))
     \<and> mset (concat gs) = mset envs \<and> [] \<notin> set gs"
proof -
  from assms(2,3) obtain kes where kes: "mapR (\<lambda>e. bindR (mapR (\<lambda>d. d e None) keys) (\<lambda>k. Inr (k, e))) envs = Inr kes"
    and gs: "gs = group_by (row_eq F) kes" by (auto simp: sem_groups_def bindR_eq_Inr)
  have z: "mapR (\<lambda>e. bindR (f e) (\<lambda>k. Inr (k, e))) xs = Inr kes \<Longrightarrow> mapR f xs = Inr (map fst kes) \<and> map snd kes = xs" for f xs kes
    by (induction xs arbitrary: kes) (auto simp: bindR_eq_Inr)
  note z = z [OF kes]
  have "zip (map fst kes) envs = kes" using z by (metis zip_map_fst_snd)
  then show ?thesis using z group_by_rows [of "row_eq F" kes] group_by_groups [OF row_eq_equivalence [OF assms(1)], of kes]
    by (intro conjI exI [of _ "map fst kes"]) (simp_all add: gs key_groups_def o_def)
qed

text \<open>C39. \<open>LIKE\<close> holds exactly when the text, in lower case, can be cut into as many parts as the pattern has characters, where
  \<open>%\<close> takes any part, \<open>_\<close> any one character and every other character itself.\<close>

theorem like_cuts_the_text:
  "like F s p \<longleftrightarrow> (\<exists>ts. concat ts = alower (totext F s)
     \<and> list_all2 (\<lambda>c t. c = CHR ''%'' \<or> (\<exists>x. t = [x] \<and> (c = CHR ''_'' \<or> c = x))) (alower (totext F p)) ts)"
  unfolding like_def like_chars_parts part_ok_def by blast

text \<open>C40. \<open>IN\<close> over a list is the disjunction of the equalities with its elements, and \<open>NOT IN\<close> its negation, under three
  truth values: nulls on either side make the result null unless an element is equal.\<close>

theorem in_list_is_disjunction:
  assumes "eval F T ps e env grp = Inr v" and "mapR (\<lambda>x. eval F T ps x env grp) es = Inr vals"
  shows "eval F T ps (EIn e (InList es) neg) env grp
     = eval F T ps (let d = foldr (\<lambda>x r. EOr (EBin ''='' e x) r) es (ELit (VInt 0)) in if neg then ENot d else d) env grp"
proof -
  have l: "sem_list (map (eval F T ps) es) env grp = Inr vals" using assms(2) 
    by (induction es arbitrary: vals) (auto simp: sem_list_def bindR_eq_Inr)
  from or_chain_value [OF assms] show ?thesis
    by (simp add: or_chain_def Let_def sem_in_def assms(1) l sem_not_def member3_in negated_def)
qed

end
