(* ===== verification/Sql_Parse_Props.thy ===== *)
theory Sql_Parse_Props
  imports Sql_Parse
begin

text \<open>
  The parser of minisql returns: the depth that bounds its recursion and the bounds of its loops are never reached, it never
  reads behind the last token, and a text that is no statement is a syntax error, apart from the three texts Python trips over.
\<close>

section \<open>Judgement\<close>

definition fine :: "py_error \<Rightarrow> bool" where
  "fine e \<longleftrightarrow> (\<exists>m. e = syntax_err m) \<or> e = TypeError ''bad operand type for unary -''"

text \<open>The tokens end with the only \<open>eof\<close>.\<close>

definition toks_ok :: "'f pst \<Rightarrow> bool" where
  "toks_ok st \<longleftrightarrow> ps_toks st \<noteq> [] \<and> fst (last (ps_toks st)) = TEof \<and> TEof \<notin> fst ` set (butlast (ps_toks st))"

abbreviation len :: "'f pst \<Rightarrow> nat" where "len st \<equiv> length (ps_toks st)"

definition live :: "'f pst \<Rightarrow> bool" where "live st \<longleftrightarrow> tok_kind st 0 \<noteq> TEof"
definition anywhere :: "'f pst \<Rightarrow> bool" where "anywhere st \<longleftrightarrow> True"

text \<open>The outcome of a parser that began at \<open>st\<close>: a result \<open>x\<close> has taken at least \<open>B x\<close> tokens.\<close>

definition okr :: "'f pst \<Rightarrow> ('x \<Rightarrow> nat) \<Rightarrow> ('x \<times> 'f pst) res \<Rightarrow> bool" where
  "okr st B r = (case r of Inl e \<Rightarrow> fine e | Inr (x, st') \<Rightarrow> toks_ok st' \<and> len st' + B x \<le> len st)"

definition goodp :: "nat \<Rightarrow> ('x \<Rightarrow> nat) \<Rightarrow> ('f, 'x) parser \<Rightarrow> bool" where
  "goodp n B p \<longleftrightarrow> (\<forall>st. toks_ok st \<and> len st \<le> n \<longrightarrow> okr st B (p st))"

definition goodw :: "('f pst \<Rightarrow> bool) \<Rightarrow> nat \<Rightarrow> ('x \<Rightarrow> nat) \<Rightarrow> ('f pst \<Rightarrow> ('f, 'x) parser) \<Rightarrow> bool" where
  "goodw h n B f \<longleftrightarrow> (\<forall>st. toks_ok st \<and> len st \<le> n \<and> h st \<longrightarrow> okr st B (f st st))"

abbreviation "none \<equiv> (\<lambda>_. 0 :: nat)"
abbreviation "one \<equiv> (\<lambda>_. Suc 0)"
abbreviation yes :: "bool \<Rightarrow> nat" where "yes \<equiv> (\<lambda>b. if b then Suc 0 else 0)"
abbreviation some1 :: "'x option \<Rightarrow> nat" where "some1 \<equiv> (\<lambda>x. case x of None \<Rightarrow> 0 | Some _ \<Rightarrow> Suc 0)"

lemma goodD: "goodp n B p \<Longrightarrow> toks_ok st \<Longrightarrow> len st \<le> n \<Longrightarrow> okr st B (p st)"
  by (simp add: goodp_def)

definition small :: "('x \<Rightarrow> nat) \<Rightarrow> bool" where "small B \<longleftrightarrow> (\<forall>x. B x \<le> 1)"

lemma small_intro: "small none" "small one" "small yes" "small some1"
  by (auto simp: small_def split: option.split)

lemma okr_mono: "okr st B r \<Longrightarrow> (\<And>x. C x \<le> B x) \<Longrightarrow> okr st C r"
  unfolding okr_def by (auto split: sum.splits) (meson add_left_mono le_trans)

lemma good_mono: "goodp n B p \<Longrightarrow> m \<le> n \<Longrightarrow> (\<And>x. C x \<le> B x) \<Longrightarrow> goodp m C p"
  unfolding goodp_def by (meson okr_mono le_trans)

lemma good_weak: "goodp n B p \<Longrightarrow> m \<le> n \<Longrightarrow> goodp m none p"
  by (rule good_mono) auto

lemma good_ret: "B x = 0 \<Longrightarrow> goodp n B (retP x)"
  by (simp add: goodp_def okr_def retP_def)

lemma fine_syntax: "fine (syntax_err m)"
  by (auto simp: fine_def)

lemma good_fail: "goodp n B (failP (syntax_err m))"
  by (simp add: goodp_def okr_def failP_def fine_syntax)

lemma okr_bind:
  assumes "okr st B (p st)" and "\<And>x st'. p st = Inr (x, st') \<Longrightarrow> toks_ok st' \<Longrightarrow> len st' + B x \<le> len st \<Longrightarrow> okr st' (D x) (k x st')"
    and "\<And>x y. C y \<le> B x + D x y"
  shows "okr st C (bindP p k st)"
proof (cases "p st")
  case (Inl e)
  then show ?thesis using assms(1) by (simp add: bindP_def okr_def)
next
  case (Inr q)
  obtain x st' where q: "q = (x, st')" by force
  from assms(1) Inr q have st': "toks_ok st'" "len st' + B x \<le> len st" by (auto simp: okr_def)
  with assms(2) Inr q have k: "okr st' (D x) (k x st')" by simp
  show ?thesis
  proof (cases "k x st'")
    case (Inl e)
    then show ?thesis using k by (simp add: bindP_def Inr q okr_def)
  next
    case r: (Inr q')
    obtain y st'' where q': "q' = (y, st'')" by force
    with k r have "toks_ok st''" "len st'' + D x y \<le> len st'" by (auto simp: okr_def)
    then show ?thesis using st'(2) assms(3) [of y x] by (simp add: bindP_def Inr q r q' okr_def)
  qed
qed

lemma good_bind:
  fixes p :: "('f, 'x) parser"
  assumes "goodp n B p" and "\<And>x. goodp (n - B x) (D x) (k x)" and "\<And>x y. C y \<le> B x + D x y"
  shows "goodp n C (bindP p k)"
  unfolding goodp_def
proof (intro allI impI)
  fix st :: "'f pst" assume st: "toks_ok st \<and> len st \<le> n"
  show "okr st C (bindP p k st)"
  proof (rule okr_bind [OF _ _ assms(3)])
    show "okr st B (p st)" using assms(1) st by (simp add: goodp_def)
  next
    fix x and st' :: "'f pst" assume "toks_ok st'" "len st' + B x \<le> len st"
    with st show "okr st' (D x) (k x st')" by (intro goodD [OF assms(2)]) auto
  qed
qed

lemma good_with: "goodw anywhere n B f \<Longrightarrow> goodp n B (withP f)"
  by (simp add: goodp_def goodw_def withP_def anywhere_def)

lemma goodw_const: "goodp n B p \<Longrightarrow> goodw h n B (\<lambda>st. p)"
  by (simp add: goodp_def goodw_def)

lemma goodw_if: "goodw h n B f \<Longrightarrow> goodw h n B g \<Longrightarrow> goodw h n B (\<lambda>st. if c st then f st else g st)"
  by (simp add: goodw_def)

lemma goodw_kw: "goodw live n B f \<Longrightarrow> goodw h n B g \<Longrightarrow> goodw h n B (\<lambda>st. if kw_at ks st then f st else g st)"
  by (auto simp: goodw_def live_def kw_at_def split: tkind.splits if_splits)

lemma goodw_op: "goodw live n B f \<Longrightarrow> goodw h n B g \<Longrightarrow> goodw h n B (\<lambda>st. if op_at ks st then f st else g st)"
  by (auto simp: goodw_def live_def op_at_def split: tkind.splits if_splits)

lemma goodw_name: "goodw live n B f \<Longrightarrow> goodw h n B g \<Longrightarrow> goodw h n B (\<lambda>st. if name_at st then f st else g st)"
  by (auto simp: goodw_def live_def name_at_def split: tkind.splits if_splits)

lemma toks_ok_next:
  assumes "toks_ok st" and "live st"
  obtains k a b ts where "ps_toks st = (k, a, b) # ts" "k \<noteq> TEof" "toks_ok (st\<lparr>ps_toks := ts, ps_last := b\<rparr>)"
proof -
  obtain k a b ts where t: "ps_toks st = (k, a, b) # ts" using assms(1) by (cases "ps_toks st") (auto simp: toks_ok_def)
  with assms have "k \<noteq> TEof" "ts \<noteq> []" by (auto simp: live_def tok_kind_def toks_ok_def)
  with t assms(1) show thesis by (intro that) (auto simp: toks_ok_def split: if_splits)
qed

lemma goodw_next:
  fixes q :: "'f tkind \<Rightarrow> ('f, 'x) parser"
  assumes "\<And>k. goodp (n - 1) none (q k)" and "small B"
  shows "goodw live n B (\<lambda>st. bindP next_tok q)"
  unfolding goodw_def
proof (intro allI impI, elim conjE)
  fix st :: "'f pst" assume st: "toks_ok st" "len st \<le> n" "live st"
  from st(1,3) obtain k a b ts where t: "ps_toks st = (k, a, b) # ts" "toks_ok (st\<lparr>ps_toks := ts, ps_last := b\<rparr>)"
    by (rule toks_ok_next)
  have "okr st one (next_tok st)" using t by (simp add: next_tok_def okr_def)
  then show "okr st B (bindP next_tok q st)"
  proof (rule okr_bind)
    fix x and st' :: "'f pst" assume "toks_ok st'" "len st' + Suc 0 \<le> len st"
    then show "okr st' none (q x st')" using st(2) by (intro goodD [OF assms(1)]) auto
  qed (use assms(2) in \<open>simp add: small_def\<close>)
qed

lemma bind_skip: "bindP skip q = bindP next_tok (\<lambda>_. q ())"
  by (auto simp: fun_eq_iff skip_def bindP_def retP_def bindR_def split: sum.splits)

lemma goodw_skip: "goodp (n - 1) none (q ()) \<Longrightarrow> small B \<Longrightarrow> goodw live n B (\<lambda>st. bindP skip q)"
  unfolding bind_skip by (rule goodw_next)

section \<open>Loops\<close>

lemma good_loop:
  assumes "\<And>x. goodp n some1 (body x)"
  shows "toks_ok st \<Longrightarrow> len st \<le> n \<Longrightarrow> len st < m \<Longrightarrow> okr st none (loopP m body x st)"
proof (induction m arbitrary: st x)
  case (Suc m)
  note b = goodD [OF assms [of x] Suc.prems(1,2)]
  show ?case
  proof (cases "body x st")
    case (Inr q)
    obtain r st' where q: "q = (r, st')" by force
    show ?thesis
    proof (cases r)
      case None
      with b Inr q show ?thesis by (simp add: okr_def)
    next
      case (Some y)
      with b Inr q have "toks_ok st'" "len st' + 1 \<le> len st" by (simp_all add: okr_def)
      with Suc.IH [of st' y] Suc.prems Inr q Some show ?thesis by (auto simp: okr_def split: sum.splits)
    qed
  qed (use b in \<open>simp add: okr_def\<close>)
qed simp

lemma good_many:
  assumes "\<And>x. goodp n some1 (body x)"
  shows "goodp n none (manyP body x)"
  unfolding goodp_def manyP_def using good_loop [of n body, OF assms] by blast

section \<open>Tokens\<close>

lemma good_accept: "goodp n yes (accept_kw w)" "goodp n yes (accept_op w)"
proof -
  have sk: "goodw live n yes (\<lambda>st. bindP skip (\<lambda>_. retP True))"
    by (rule goodw_skip) (simp_all add: good_ret small_intro)
  show "goodp n yes (accept_kw w)" unfolding accept_kw_def by (intro good_with goodw_kw goodw_const good_ret sk) simp
  show "goodp n yes (accept_op w)" unfolding accept_op_def by (intro good_with goodw_op goodw_const good_ret sk) simp
qed

text \<open>What follows an optional or an expected token, or a part that takes one.\<close>

lemma good_kw:
  assumes "goodp (n - 1) none (k True)" and "goodp n C (k False)" and "small C"
  shows "goodp n C (bindP (accept_kw w) k)" and "goodp n C (bindP (accept_op w) k)"
proof -
  have g: "goodp (n - yes b) (if b then none else C) (k b)" for b using assms by (cases b) simp_all
  have "C y \<le> yes b + (if b then none else C) y" for b y using assms(3) by (simp add: small_def)
  from good_bind [OF good_accept(1) g this] good_bind [OF good_accept(2) g this]
  show "goodp n C (bindP (accept_kw w) k)" "goodp n C (bindP (accept_op w) k)" by blast+
qed

lemma good_then:
  assumes "goodp n one p" and "\<And>x. goodp (n - 1) none (k x)" and "small C"
  shows "goodp n C (bindP p k)"
  using assms by (intro good_bind [where B = one and D = "\<lambda>_. none"]) (auto simp: small_def)

lemma good_then0:
  assumes "goodp n none p" and "\<And>x. goodp n C (k x)"
  shows "goodp n C (bindP p k)"
  using assms by (intro good_bind [where B = none and D = "\<lambda>_. C"]) auto

lemma good_expect: "goodp n one (expect_kw w)" "goodp n one (expect_op w)"
  unfolding expect_kw_def expect_op_def by (intro good_kw; simp add: good_fail good_ret small_intro)+

lemmas good_expecting = good_then [OF good_expect(1)] good_then [OF good_expect(2)]

lemma good_ident: "goodp n one (ident :: ('f, string) parser)"
  unfolding ident_def
proof (rule good_with, unfold goodw_def, intro allI impI, elim conjE)
  fix st :: "'f pst" assume st: "toks_ok st" "len st \<le> n"
  have "okr st one (bindP skip (\<lambda>_. retP v) st)" if "live st" for v :: string
    using goodw_skip [of n "\<lambda>_. (retP v :: ('f, string) parser)" one] st that by (simp add: goodw_def good_ret small_intro)
  moreover have "okr st one ((failP (syntax_err m) :: ('f, string) parser) st)" for m by (rule goodD [OF good_fail st])
  ultimately show "okr st one ((case tok_kind st 0 of TQid v \<Rightarrow> bindP skip (\<lambda>_. retP v)
      | TId v \<Rightarrow> if reserved v then failP (syntax_err ''expected identifier'') else bindP skip (\<lambda>_. retP v)
      | _ \<Rightarrow> failP (syntax_err ''expected identifier'')) st)"
    by (simp add: live_def split: tkind.split)
qed

lemma good_comma:
  assumes "goodp n one p"
  shows "goodp n one (commaP p)"
proof -
  have c: "goodp m none (bindP p (\<lambda>y. retP (Some (f y))))" if "m \<le> n" for m f
    by (intro good_then0 [OF good_weak [OF assms that]] good_ret) simp
  have "goodp (n - 1) none (manyP (\<lambda>xs. bindP (accept_op '','') (\<lambda>more.
     if more then bindP p (\<lambda>y. retP (Some (xs @ [y]))) else retP None)) [x])" for x
    unfolding if_distrib by (rule good_many, rule good_kw) (simp_all add: good_ret small_intro c)
  then show ?thesis unfolding commaP_def by (intro good_then [OF assms]) (simp_all add: small_intro)
qed

lemma good_opt:
  assumes "goodp (n - 1) none p"
  shows "goodp n none (optP w p)"
  unfolding optP_def using good_then0 [OF assms good_ret [of none]] by (intro good_kw) (simp_all add: good_ret small_intro)

section \<open>Expressions\<close>

definition dgood :: "nat \<Rightarrow> 'f deeper \<Rightarrow> bool" where
  "dgood n D \<longleftrightarrow> goodp n one (dp_expr D) \<and> goodp n one (dp_not D) \<and> goodp n one (dp_unary D) \<and> goodp n one (dp_select D)"

lemma dgood_one:
  assumes "dgood n D" and "m \<le> n"
  shows "goodp m one (dp_expr D)" "goodp m one (dp_not D)" "goodp m one (dp_unary D)" "goodp m one (dp_select D)"
  using assms by (auto simp: dgood_def intro: good_mono)

lemma dgood_none:
  assumes "dgood n D" and "m \<le> n"
  shows "goodp m none (dp_expr D)" "goodp m none (dp_not D)" "goodp m none (dp_unary D)" "goodp m none (dp_select D)"
  using dgood_one [OF assms] by (auto intro: good_weak)

lemma good_if: "goodp n B p \<Longrightarrow> goodp n B q \<Longrightarrow> goodp n B (if b then p else q)"
  by simp

lemma good_kw_if:
  assumes "goodp (n - 1) none p" and "goodp n C q" and "small C"
  shows "goodp n C (bindP (accept_kw w) (\<lambda>ok. if ok then p else q))" and "goodp n C (bindP (accept_op w) (\<lambda>ok. if ok then p else q))"
  using assms by (intro good_kw; simp)+

lemma good_case_option: "goodp n B p \<Longrightarrow> (\<And>x. goodp n B (q x)) \<Longrightarrow> goodp n B (case r of None \<Rightarrow> p | Some x \<Rightarrow> q x)"
  by (simp split: option.split)

lemma good_case_prod: "(\<And>x y. goodp n B (q x y)) \<Longrightarrow> goodp n B (case r of (x, y) \<Rightarrow> q x y)"
  by (simp split: prod.split)

lemma goodw_live: "(\<And>st. c st \<Longrightarrow> live st) \<Longrightarrow> goodw live n B f \<Longrightarrow> goodw h n B g \<Longrightarrow> goodw h n B (\<lambda>st. if c st then f st else g st)"
  by (auto simp: goodw_def)

lemma op_at_live: "op_at ks st \<Longrightarrow> live st" and kw_at_live: "kw_at ks st \<Longrightarrow> live st"
  by (auto simp: op_at_def kw_at_def live_def split: tkind.splits)

lemmas tok_none = good_accept [THEN good_weak, OF order_refl] good_expect [THEN good_weak, OF order_refl]
  good_ident [THEN good_weak, OF order_refl]

lemmas good_easy = good_kw_if good_then0 good_if good_ret good_fail good_with goodw_kw goodw_op goodw_name goodw_skip goodw_const
  good_case_option good_case_prod good_opt tok_none small_intro

lemma comma_none: "goodp n one p \<Longrightarrow> goodp n none (commaP p)"
  by (rule good_weak [OF good_comma order_refl])

lemma case_expr_good: "dgood n D \<Longrightarrow> goodw live (Suc n) one (\<lambda>st. case_expr D)"
  unfolding case_expr_def
  by (intro good_easy dgood_none good_many) (assumption | simp)+

lemma call_expr_good: "dgood n D \<Longrightarrow> goodw live n none (\<lambda>st. call_expr D v)"
  unfolding call_expr_def
  by (intro good_easy dgood_none goodw_if comma_none dgood_one) (assumption | simp)+

lemma name_expr_good: "dgood n D \<Longrightarrow> goodw live (Suc n) one (\<lambda>st. name_expr D v u)"
  unfolding name_expr_def
  by (intro goodw_skip good_with goodw_live call_expr_good good_easy dgood_none) (assumption | simp | blast dest: op_at_live)+

lemma good_param: "goodp n none new_param"
  by (auto simp: goodp_def okr_def new_param_def toks_ok_def)

lemma goodw_bad: "goodw h n B (\<lambda>st. failP (syntax_err m))"
  by (rule goodw_const [OF good_fail])

lemma goodw_tok:
  assumes "\<And>v. goodw live n B (a v)" "\<And>v. goodw live n B (b v)" "\<And>v. goodw live n B (c v)" "\<And>v. goodw live n B (d v)"
    "\<And>v. goodw live n B (e v)" "goodw anywhere n B f"
  shows "goodw anywhere n B (\<lambda>st. case tok_kind st 0 of TNum v \<Rightarrow> a v st | TStr v \<Rightarrow> b v st | TQid v \<Rightarrow> c v st
    | TId v \<Rightarrow> d v st | TOp v \<Rightarrow> e v st | TEof \<Rightarrow> f st)"
  using assms by (auto simp: goodw_def anywhere_def live_def split: tkind.split)

lemma primary_good: "dgood n D \<Longrightarrow> goodp (Suc n) one (primary D)"
  unfolding primary_def Let_def
  by (rule good_with, rule goodw_tok; intro case_expr_good name_expr_good goodw_bad goodw_if goodw_skip goodw_kw good_with
    goodw_const good_then0 good_param dgood_none good_ret tok_none small_intro) (assumption | simp)+

lemma unary_good: "dgood n D \<Longrightarrow> goodp (Suc n) one (unary D)"
  unfolding unary_def
  by (intro good_kw_if good_easy dgood_none primary_good) (assumption | simp)+

text \<open>A level of operators.\<close>

lemma goodw_next_op: "(\<And>k. goodp (n - 1) none (q k)) \<Longrightarrow> goodw live n some1 (\<lambda>st. bindP next_tok q)"
  by (intro goodw_next small_intro)

lemma level_good: "goodp n one p \<Longrightarrow> goodp n one (binary_level ops p)"
  unfolding binary_level_def
  by (rule good_then, assumption, rule good_many, intro good_with goodw_op goodw_next_op good_easy)
    (auto intro: good_weak small_intro)

lemma rel_good: "dgood n D \<Longrightarrow> goodp (Suc n) one (rel_expr D)"
  unfolding rel_expr_def add_expr_def mul_expr_def cat_expr_def by (intro level_good unary_good)

lemma rel_none: "dgood n D \<Longrightarrow> m \<le> Suc n \<Longrightarrow> goodp m none (rel_expr D)"
  by (rule good_weak [OF rel_good])

lemma in_tail_good: "dgood n D \<Longrightarrow> goodp (Suc n) none (in_tail D l neg)"
  unfolding in_tail_def
  by (intro good_expecting good_easy dgood_none comma_none dgood_one) (assumption | simp)+

text \<open>The turn of the loop that may give a \<open>NOT\<close> back, judged from where it began.\<close>

lemma okr_bind_from:
  fixes k :: "'x \<Rightarrow> ('f, 'y) parser"
  assumes "okr st1 B (p st1)" and "\<And>x st2. toks_ok st2 \<Longrightarrow> len st2 + B x \<le> len st1 \<Longrightarrow> okr st C (k x st2)"
  shows "okr st C (bindP p k st1)"
proof (cases "p st1")
  case (Inl e)
  then show ?thesis using assms(1) by (simp add: bindP_def okr_def)
next
  case (Inr q)
  obtain x st2 where q: "q = (x, st2)" by force
  from assms(1) Inr q have "toks_ok st2" "len st2 + B x \<le> len st1" by (auto simp: okr_def)
  with assms(2) Inr q show ?thesis by (simp add: bindP_def)
qed

lemma okr_accept_from:
  assumes "toks_ok st1" and "\<And>b st2. toks_ok st2 \<Longrightarrow> len st2 + yes b \<le> len st1 \<Longrightarrow> okr st C (k b st2)"
  shows "okr st C (bindP (accept_kw w) k st1)"
proof (rule okr_bind_from [where B = yes])
  show "okr st1 yes (accept_kw w st1)" by (rule goodD [OF good_accept(1) assms(1) order_refl])
qed (rule assms(2))

lemma okr_from:
  assumes "goodp n none q" "toks_ok st2" "len st2 \<le> n" "len st2 + 1 \<le> len st" "small C"
  shows "okr st C (q st2)"
proof (cases "q st2")
  case (Inl e)
  then show ?thesis using goodD [OF assms(1-3)] by (simp add: okr_def)
next
  case (Inr p)
  obtain x st3 where p: "p = (x, st3)" by force
  have "C x \<le> 1" using assms(5) by (simp add: small_def)
  then show ?thesis using goodD [OF assms(1-3)] assms(4) Inr p by (simp add: okr_def)
qed

text \<open>An optional word with a part behind it, and what is tried when the word is not there.\<close>

lemma okr_accept_if:
  fixes q :: "('f, 'x) parser"
  assumes "toks_ok st1" "len st1 \<le> len st" "len st \<le> n" "goodp n none p" "small C"
    and "\<And>st2. toks_ok st2 \<Longrightarrow> len st2 \<le> len st \<Longrightarrow> okr st C (q st2)"
  shows "okr st C (bindP (accept_kw w) (\<lambda>b. if b then p else q) st1)"
proof (rule okr_accept_from [OF assms(1)])
  fix b and st2 :: "'f pst" assume "toks_ok st2" "len st2 + yes b \<le> len st1"
  then show "okr st C ((if b then p else q) st2)"
    using assms(2,3,6) okr_from [OF assms(4) _ _ _ assms(5), of st2 st] by (cases b) auto
qed

lemma some_none: "goodp n none p \<Longrightarrow> goodp n none (bindP p (\<lambda>x. retP (Some (f x))))"
  by (intro good_then0 good_ret) simp_all

lemma eq_rest_good:
  assumes D: "dgood n D"
  shows "goodw anywhere (Suc n) some1 (\<lambda>st. bindP (accept_kw ''not'') (\<lambda>neg. bindP (accept_kw ''in'') (\<lambda>is_in.
       if is_in then bindP (in_tail D l neg) (\<lambda>e. retP (Some e))
       else bindP (accept_kw ''like'') (\<lambda>is_like.
         if is_like then bindP (rel_expr D) (\<lambda>p. retP (Some (ELike l p neg)))
         else bindP (accept_kw ''between'') (\<lambda>is_between.
           if is_between then bindP (rel_expr D) (\<lambda>lo. bindP (expect_kw ''and'') (\<lambda>_.
             bindP (rel_expr D) (\<lambda>hi. retP (Some (EBetween l lo hi neg)))))
           else (\<lambda>_. retP None st))))))"
  unfolding goodw_def
proof (intro allI impI, elim conjE)
  fix st :: "'a pst" assume st: "toks_ok st" "len st \<le> Suc n"
  have tail: "goodp (Suc n) none (bindP (in_tail D l neg) (\<lambda>e. retP (Some e)))" for neg
    by (rule some_none [OF in_tail_good [OF D]])
  have lik: "goodp (Suc n) none (bindP (rel_expr D) (\<lambda>p. retP (Some (ELike l p neg))))" for neg
    by (rule some_none [OF rel_none [OF D order_refl]])
  have btw: "goodp (Suc n) none (bindP (rel_expr D) (\<lambda>lo. bindP (expect_kw ''and'') (\<lambda>_.
             bindP (rel_expr D) (\<lambda>hi. retP (Some (EBetween l lo hi neg))))))" for neg
    by (intro good_then0 some_none rel_none [OF D] tok_none) simp_all
  show "okr st some1 ((bindP (accept_kw ''not'') (\<lambda>neg. bindP (accept_kw ''in'') (\<lambda>is_in.
       if is_in then bindP (in_tail D l neg) (\<lambda>e. retP (Some e))
       else bindP (accept_kw ''like'') (\<lambda>is_like.
         if is_like then bindP (rel_expr D) (\<lambda>p. retP (Some (ELike l p neg)))
         else bindP (accept_kw ''between'') (\<lambda>is_between.
           if is_between then bindP (rel_expr D) (\<lambda>lo. bindP (expect_kw ''and'') (\<lambda>_.
             bindP (rel_expr D) (\<lambda>hi. retP (Some (EBetween l lo hi neg)))))
           else (\<lambda>_. retP None st)))))) st)"
  proof (rule okr_accept_from [OF st(1)])
    fix neg and st1 :: "'a pst" assume "toks_ok st1" "len st1 + yes neg \<le> len st"
    then have st1: "toks_ok st1" "len st1 \<le> len st" by auto
    show "okr st some1 (bindP (accept_kw ''in'') (\<lambda>is_in.
       if is_in then bindP (in_tail D l neg) (\<lambda>e. retP (Some e))
       else bindP (accept_kw ''like'') (\<lambda>is_like.
         if is_like then bindP (rel_expr D) (\<lambda>p. retP (Some (ELike l p neg)))
         else bindP (accept_kw ''between'') (\<lambda>is_between.
           if is_between then bindP (rel_expr D) (\<lambda>lo. bindP (expect_kw ''and'') (\<lambda>_.
             bindP (rel_expr D) (\<lambda>hi. retP (Some (EBetween l lo hi neg)))))
           else (\<lambda>_. retP None st)))) st1)"
      by (rule okr_accept_if [OF st1 st(2) tail small_intro(4)], rule okr_accept_if [OF _ _ st(2) lik small_intro(4)], assumption+,
          rule okr_accept_if [OF _ _ st(2) btw small_intro(4)], assumption+) (simp add: retP_def okr_def st)
  qed
qed

lemma eq_turn_good: "dgood n D \<Longrightarrow> goodp (Suc n) some1 (eq_turn D l)"
  unfolding eq_turn_def
  by (intro good_with goodw_op goodw_kw eq_rest_good goodw_next_op goodw_skip some_none good_then0 rel_none tok_none small_intro) (assumption | simp)+

lemma eq_good: "dgood n D \<Longrightarrow> goodp (Suc n) one (eq_expr D)"
  unfolding eq_expr_def
  by (intro good_then rel_good good_many good_mono [OF eq_turn_good] small_intro) (assumption | simp)+

lemma not_good: "dgood n D \<Longrightarrow> goodp (Suc n) one (not_expr D)"
  unfolding not_expr_def
  by (intro good_kw_if eq_good good_then0 good_ret dgood_none small_intro) (assumption | simp)+

lemma chain_good:
  assumes "goodp n one p"
  shows "goodp n one (bindP p (manyP (\<lambda>l. bindP (accept_kw w) (\<lambda>ok. if ok then bindP p (\<lambda>r. retP (Some (f l r))) else retP None))))"
  by (intro good_then [OF assms] good_many good_kw_if some_none good_weak [OF assms] good_ret small_intro) simp_all

lemma or_good: "dgood n D \<Longrightarrow> goodp (Suc n) one (or_expr D)"
  unfolding or_expr_def and_expr_def by (intro chain_good not_good)

section \<open>Queries\<close>

lemma alias_good: "goodp n none aliasP"
  unfolding aliasP_def by (intro good_easy) simp_all

lemma source_good: "dgood n D \<Longrightarrow> goodp (Suc n) one (source D)"
  unfolding source_def
  by (intro good_kw_if good_then0 good_then [OF good_ident] dgood_none alias_good tok_none good_ret small_intro) (assumption | simp)+

lemma star_item_good:
  assumes "toks_ok st" and "star_at st"
  shows "okr st one (bindP ident (\<lambda>t. bindP skip (\<lambda>_. bindP skip (\<lambda>_. retP (ITable t)))) st)"
proof -
  have l: "2 < len st" using assms(2) by (auto simp: star_at_def tok_kind_def tok_text_def split: if_splits)
  then obtain a b c ts where t: "ps_toks st = a # b # c # ts" by (cases "ps_toks st"; cases "tl (ps_toks st)"; cases "tl (tl (ps_toks st))") auto
  have "fst c \<noteq> TEof" using assms(2) t by (auto simp: star_at_def tok_kind_def tok_text_def)
  then have "ts \<noteq> []" using assms(1) t by (auto simp: toks_ok_def)
  then show ?thesis using assms t
    by (cases a; cases b; cases c) (auto simp: ident_def withP_def bindP_def skip_def next_tok_def retP_def failP_def okr_def fine_syntax
      toks_ok_def tok_kind_def split: tkind.splits)
qed

lemma goodw_param: "(\<And>st. goodp n B (f st)) \<Longrightarrow> goodw h n B f"
  by (simp add: goodp_def goodw_def)

lemma item_good: "dgood n D \<Longrightarrow> goodp n one (select_item sql D)"
  unfolding select_item_def
proof (intro good_kw_if good_ret good_with small_intro)
  assume D: "dgood n D"
  have e: "goodp n one (bindP (dp_expr D) (\<lambda>e. withP (\<lambda>st'. bindP aliasP (\<lambda>a.
              retP (IExpr e (item_name sql e (tok_start st) (ps_last st') a))))))" for st
    by (intro good_then [OF dgood_one(1) [OF D]] good_with goodw_param good_then0 [OF alias_good] good_ret small_intro) simp_all
  show "goodw anywhere n one (\<lambda>st. if star_at st then bindP ident (\<lambda>t. bindP skip (\<lambda>_. bindP skip (\<lambda>_. retP (ITable t))))
       else bindP (dp_expr D) (\<lambda>e. withP (\<lambda>st'. bindP aliasP (\<lambda>a.
              retP (IExpr e (item_name sql e (tok_start st) (ps_last st') a))))))"
    using star_item_good goodD [OF e] by (auto simp: goodw_def)
qed simp

lemma join_good:
  assumes D: "dgood n D"
  shows "goodp n some1 (join_turn D js)"
proof -
  have src: "goodp n one (source D)" by (rule good_mono [OF source_good [OF D]]) simp_all
  show ?thesis unfolding join_turn_def
    by (rule good_then0 [OF tok_none(1)], rule good_then0 [where p = "if j then p else q" for j p q], intro good_easy, simp_all,
        intro good_case_option good_ret good_then [OF src] good_then0 tok_none dgood_none [OF D] small_intro) simp_all
qed

lemma core_good: "dgood n D \<Longrightarrow> goodp (Suc n) one (select_core sql D)"
  unfolding select_core_def
  by (intro good_expecting good_then0 good_if good_ret tok_none comma_none item_good good_many join_good good_opt dgood_none
      dgood_one small_intro good_case_prod good_weak [OF source_good]) (assumption | simp)+

lemma order_good: "dgood n D \<Longrightarrow> goodp n one (order_term D)"
  unfolding order_term_def
  by (intro good_then dgood_one good_kw_if good_ret good_then0 tok_none small_intro) (assumption | simp)+

lemma select_good:
  assumes D: "dgood n D"
  shows "goodp (Suc n) one (select_full sql D)"
proof -
  have core: "goodp m none (select_core sql D)" if "m \<le> Suc n" for m using good_weak [OF core_good [OF D] that] .
  have order: "goodp n none (commaP (order_term D))" by (intro comma_none order_good D)
  have order: "goodp m none (commaP (order_term D))" if "m \<le> n" for m by (rule good_weak [OF order that])
  show ?thesis unfolding select_full_def
  proof (rule good_then [OF core_good [OF D]])
    show "small one" by (rule small_intro)
  qed (intro good_kw_if good_then0 good_many good_case_prod good_if good_ret good_fail good_with goodw_kw goodw_const tok_none
        good_opt order core dgood_none [OF D] small_intro; simp)
qed

lemma good_0: "goodp 0 B p"
  by (auto simp: goodp_def toks_ok_def)

text \<open>The parsers of depth \<open>n\<close> are good for up to \<open>n\<close> tokens.\<close>

lemma parsers_good: "dgood n (parsers sql n)"
proof (induction n)
  case 0
  show ?case by (simp add: dgood_def good_0)
next
  case (Suc n)
  then show ?case by (simp add: dgood_def [of "Suc n"] Let_def or_good not_good unary_good select_good)
qed

section \<open>Statements\<close>

lemma type_good: "goodp n none col_type"
  unfolding col_type_def by (intro good_easy) simp_all

lemma okr_next:
  fixes q :: "'f tkind \<Rightarrow> ('f, 'x) parser"
  assumes "toks_ok st" "len st \<le> n" and "\<And>k. k \<noteq> TEof \<Longrightarrow> goodp n none (q k)" and "\<And>st. okr st none (q TEof st)"
  shows "okr st none (bindP next_tok q st)"
proof (cases "live st")
  case True
  from toks_ok_next [OF assms(1) True] obtain k a b ts
    where t: "ps_toks st = (k, a, b) # ts" "k \<noteq> TEof" "toks_ok (st\<lparr>ps_toks := ts, ps_last := b\<rparr>)" by metis
  then show ?thesis using goodD [OF assms(3) [OF t(2)] t(3)] assms(2)
    by (auto simp: bindP_def next_tok_def okr_def split: sum.splits)
next
  case False
  then obtain a b ts where "ps_toks st = (TEof, a, b) # ts"
    using assms(1) by (cases "ps_toks st") (auto simp: live_def tok_kind_def toks_ok_def)
  then show ?thesis using assms(4) [of "st\<lparr>ps_toks := ts, ps_last := b\<rparr>"]
    by (auto simp: bindP_def next_tok_def okr_def split: sum.splits)
qed

lemma default_good: "goodp n none (default_value F)"
proof -
  have fin: "goodp n none (\<lambda>st. bindR (neg_default F v) (\<lambda>w. Inr (w, st)))" "goodp n none (retP v)" for v :: "'a val" and n
    by (cases v) (auto simp: goodp_def okr_def neg_default_def fine_def retP_def)
  have "goodp m none (bindP next_tok (\<lambda>k.
     let fin = (\<lambda>v. if neg then (\<lambda>st. bindR (neg_default F v) (\<lambda>w. Inr (w, st))) else retP v) in
     case k of TNum v \<Rightarrow> fin v | TStr s \<Rightarrow> fin (VStr s)
     | TId v \<Rightarrow> if lower_text v = ''null'' then fin VNone else failP (syntax_err ''bad default'')
     | _ \<Rightarrow> failP (syntax_err ''bad default'')))" for neg m
    unfolding goodp_def Let_def
    by (intro allI impI, rule okr_next) (auto simp: fin good_fail fine_syntax failP_def okr_def split: tkind.split)
  then show ?thesis unfolding default_value_def by (rule good_then0 [OF tok_none(2)])
qed

lemma option_good: "goodp n some1 (col_option F c)"
  unfolding col_option_def
  by (intro good_kw_if good_then0 good_ret good_fail tok_none default_good small_intro) simp_all

lemma col_def_good: "goodp n one (col_def F)"
  unfolding col_def_def by (intro good_then [OF good_ident] good_then0 type_good good_many option_good small_intro)

lemma create_good: "goodw live n none (\<lambda>st. create_stmt F)"
  unfolding create_stmt_def
  by (intro goodw_skip good_then0 good_opt good_if good_ret good_fail tok_none comma_none col_def_good small_intro) simp_all

lemma insert_good:
  assumes "dgood n D"
  shows "goodw live n none (\<lambda>st. insert_stmt D)"
proof -
  have row: "goodp m one (bindP (expect_op ''('') (\<lambda>_. bindP (commaP (dp_expr D)) (\<lambda>r. bindP (expect_op '')'') (\<lambda>_. retP r))))" if "m \<le> n" for m
    using that by (intro good_expecting good_then0 comma_none dgood_one [OF assms] tok_none good_ret small_intro) simp_all
  show ?thesis unfolding insert_stmt_def
    by (intro goodw_skip good_easy comma_none row good_ident dgood_none [OF assms]) simp_all
qed

lemma update_good:
  assumes "dgood n D"
  shows "goodw live n none (\<lambda>st. update_stmt D)"
proof -
  have item: "goodp m one (bindP ident (\<lambda>c. bindP (expect_op ''='') (\<lambda>_. bindP (dp_expr D) (\<lambda>e. retP (c, e)))))" if "m \<le> n" for m
    using that by (intro good_then [OF good_ident] good_then0 dgood_none [OF assms] tok_none good_ret small_intro) simp_all
  show ?thesis unfolding update_stmt_def
    by (intro goodw_skip good_then0 comma_none item good_opt tok_none good_ret dgood_none [OF assms] small_intro) simp_all
qed

lemma delete_good: "dgood n D \<Longrightarrow> goodw live n none (\<lambda>st. delete_stmt D)"
  unfolding delete_stmt_def
  by (intro goodw_skip good_then0 good_opt tok_none good_ret dgood_none small_intro) (assumption | simp)+

lemma drop_good: "goodw live n none (\<lambda>st. drop_stmt)"
  unfolding drop_stmt_def
  by (intro goodw_skip good_then0 good_opt tok_none good_ret small_intro) simp_all

lemma statement_good: "dgood n D \<Longrightarrow> goodp n none (statement F D)"
  unfolding statement_def
  by (intro good_then0 good_with goodw_kw goodw_if create_good insert_good update_good delete_good drop_good goodw_skip goodw_const
    good_ret good_fail tok_none dgood_none small_intro) (assumption | simp)+

section \<open>Texts\<close>

definition lex_fine :: "py_error \<Rightarrow> bool" where
  "lex_fine e \<longleftrightarrow> fine e \<or> e = AttributeError ''NoneType has no attribute group''"

lemma lex_one_outcome: "lex_one F c r = Inl e \<Longrightarrow> lex_fine e" "lex_one F c r = Inr (Some k, n) \<Longrightarrow> k \<noteq> TEof"
  by (auto simp: lex_one_def lex_fine_def fine_syntax Let_def num_of_text_def split: if_splits option.splits prod.splits)

lemma lex_from_outcome:
  "case lex_from F i s of Inl e \<Rightarrow> lex_fine e | Inr toks \<Rightarrow> \<exists>ts j. toks = ts @ [(TEof, j, j)] \<and> TEof \<notin> fst ` set ts"
proof (induction F i s rule: lex_from.induct)
  case (2 F i c r)
  show ?case
  proof (cases "lex_one F c r")
    case (Inr p)
    obtain k n where p: "p = (k, n)" by force
    show ?thesis using 2 [of n] p Inr lex_one_outcome(2) [of F c r]
     
      by (auto simp: image_iff split: sum.splits option.splits)
  qed (use lex_one_outcome(1) in auto)
qed simp

lemma tokenize_ok: "tokenize F sql = Inr toks \<Longrightarrow> toks_ok \<lparr>ps_toks = toks, ps_last = a, ps_np = b\<rparr>"
  using lex_from_outcome [of F 0 sql] by (auto simp: tokenize_def toks_ok_def)

section \<open>Property\<close>

text \<open>C36. The parser returns on every text: the depth that bounds its recursion, one more than the number of tokens, and
  the bounds of its loops are never reached, and it never reads behind the last token. What it raises is a syntax error,
  the \<open>TypeError\<close> of a minus before a default text or null, or the \<open>AttributeError\<close> of a digit or letter outside ASCII.\<close>

theorem parse_returns:
  "case parse_sql F sql of Inr _ \<Rightarrow> True
   | Inl e \<Rightarrow> (\<exists>m. e = SqlError ''syntax'' m) \<or> e = TypeError ''bad operand type for unary -''
       \<or> e = AttributeError ''NoneType has no attribute group''"
proof (cases "tokenize F sql")
  case (Inl e)
  then show ?thesis using lex_from_outcome [of F 0 sql]
    by (auto simp: parse_sql_def tokenize_def lex_fine_def fine_def syntax_err_def)
next
  case (Inr toks)
  let ?st = "\<lparr>ps_toks = toks, ps_last = 0, ps_np = 0\<rparr>"
  have "okr ?st none (statement F (parsers sql (Suc (length toks))) ?st)"
    by (rule goodD [OF statement_good [OF parsers_good] tokenize_ok [OF Inr]]) simp
  then show ?thesis using Inr
    by (auto simp: parse_sql_def okr_def fine_def syntax_err_def bindR_def split: sum.splits)
qed

end
