(* ===== verification/Sql_Demo.thy ===== *)
theory Sql_Demo
  imports Sql_Log Sql_Query_Props Sql_Parse_Props
begin

text \<open>
  Runs of minisql on concrete statements, with floats that are whole numbers, and the witnesses of the properties of the
  database, its log and its queries.
\<close>

section \<open>Evaluation of parsers\<close>

text \<open>A parser is unfolded only when it meets its tokens, so that the parsers of all depths are never written out.\<close>

definition expr_at :: "string \<Rightarrow> nat \<Rightarrow> ('f, 'f expr) parser" where "expr_at sql n = dp_expr (parsers sql n)"
definition not_at :: "string \<Rightarrow> nat \<Rightarrow> ('f, 'f expr) parser" where "not_at sql n = dp_not (parsers sql n)"
definition unary_at :: "string \<Rightarrow> nat \<Rightarrow> ('f, 'f expr) parser" where "unary_at sql n = dp_unary (parsers sql n)"
definition select_at :: "string \<Rightarrow> nat \<Rightarrow> ('f, 'f sel) parser" where "select_at sql n = dp_select (parsers sql n)"

lemma parsers_code [code]:
  "parsers sql n = \<lparr>dp_expr = expr_at sql n, dp_not = not_at sql n, dp_unary = unary_at sql n, dp_select = select_at sql n\<rparr>"
  by (simp add: expr_at_def not_at_def unary_at_def select_at_def)

lemma at_code [code]:
  "expr_at sql 0 st = Inl out_of_fuel" "expr_at sql (Suc n) st = or_expr (parsers sql n) st"
  "not_at sql 0 st = Inl out_of_fuel" "not_at sql (Suc n) st = not_expr (parsers sql n) st"
  "unary_at sql 0 st = Inl out_of_fuel" "unary_at sql (Suc n) st = unary (parsers sql n) st"
  "select_at sql 0 st = Inl out_of_fuel" "select_at sql (Suc n) st = select_full sql (parsers sql n) st"
  by (simp_all add: expr_at_def not_at_def unary_at_def select_at_def failP_def Let_def)

lemmas parser_code [code] =
  skip_def [THEN fun_cong] accept_kw_def [THEN fun_cong] accept_op_def [THEN fun_cong] expect_kw_def [THEN fun_cong]
  expect_op_def [THEN fun_cong] ident_def [THEN fun_cong] commaP_def [THEN fun_cong] optP_def [THEN fun_cong]
  binary_level_def [THEN fun_cong] case_expr_def [THEN fun_cong] call_expr_def [THEN fun_cong] name_expr_def [THEN
  fun_cong] primary_def [THEN fun_cong] unary_def [THEN fun_cong] cat_expr_def [THEN fun_cong] mul_expr_def [THEN
  fun_cong] add_expr_def [THEN fun_cong] rel_expr_def [THEN fun_cong] in_tail_def [THEN fun_cong] eq_turn_def [THEN
  fun_cong] eq_expr_def [THEN fun_cong] not_expr_def [THEN fun_cong] and_expr_def [THEN fun_cong] or_expr_def [THEN
  fun_cong] aliasP_def [THEN fun_cong] source_def [THEN fun_cong] select_item_def [THEN fun_cong] join_turn_def [THEN
  fun_cong] select_core_def [THEN fun_cong] order_term_def [THEN fun_cong] select_full_def [THEN fun_cong] col_type_def
  [THEN fun_cong] default_value_def [THEN fun_cong] col_option_def [THEN fun_cong] col_def_def [THEN fun_cong]
  create_stmt_def [THEN fun_cong] insert_stmt_def [THEN fun_cong] update_stmt_def [THEN fun_cong] delete_stmt_def [THEN
  fun_cong] drop_stmt_def [THEN fun_cong] statement_def [THEN fun_cong]

section \<open>Runs\<close>

definition whole_fl :: "int pyf" where
  "whole_fl = \<lparr>fl_of_str = (\<lambda>s. int_of_text (takeWhile (\<lambda>c. c \<noteq> CHR ''.'') s)), fl_repr = (\<lambda>f. int_text f @ ''.0''),
     fl_json = (\<lambda>f. int_text f @ ''.0''), fl_of_int = (\<lambda>i. Inr i), fl_to_int = (\<lambda>f. Inr f), fl_add = (+), fl_sub = (-), fl_mul = (*),
     fl_div = (\<lambda>a b. a div b), fl_neg = uminus, fl_abs = abs, fl_lt = (<), fl_eq = (=), fl_lt_int = (<), fl_int_lt = (<),
     fl_eq_int = (=), fl_quot = (\<lambda>a b. Inr (a div b)), fl_total = (\<lambda>xs. Inr (sum_list (map (case_sum id id) xs))), fl_round = (\<lambda>x d. Inr x)\<rparr>"

lemma whole_json: "json_floats whole_fl"
proof -
  have "json_num_len (int_text i @ ''.0'') = length (int_text i @ ''.0'')" for i
  proof -
    have s: "json_int_len (int_text i @ ''.0'') = json_int_len (int_text i)" by (rule json_int_len_stop) (simp add: is_dec_def)
    show ?thesis using s int_text_num [of i] by (simp add: json_num_len_def Let_def json_frac_len_def scan_frac_def scan_exp_def decs_def is_dec_def)
  qed
  moreover have "takeWhile (\<lambda>c. c \<noteq> CHR ''.'') (int_text i @ ''.0'') = int_text i" for i
    using int_text_num [of i] by (auto simp: is_float_text_def list_ex_iff takeWhile_append)
  ultimately show ?thesis using int_text_num by (simp add: json_floats_def Let_def whole_fl_def is_float_text_def newline_def)
qed

abbreviation q_create :: string where "q_create \<equiv> ''create table t(id integer primary key, a text not null)''"
abbreviation q_insert :: string where "q_insert \<equiv> ''insert into t(a) values (?)''"
abbreviation q_dup :: string where "q_dup \<equiv> ''insert into t(id) values (1)''"

definition demo_cols :: "int coldef list" where
  "demo_cols = [\<lparr>cd_name = ''id'', cd_type = INTEGER, cd_pk = True, cd_notnull = False, cd_unique = False, cd_default = VNone\<rparr>,
     \<lparr>cd_name = ''a'', cd_type = TEXT, cd_pk = False, cd_notnull = True, cd_unique = False, cd_default = VNone\<rparr>]"

abbreviation n_create :: "int stmt" where "n_create \<equiv> StCreate ''t'' demo_cols False"
abbreviation n_insert :: "int stmt" where "n_insert \<equiv> StInsert ''t'' (Some [''a'']) (IValues [[EParam 0]])"
abbreviation n_dup :: "int stmt" where "n_dup \<equiv> StInsert ''t'' (Some [''id'']) (IValues [[ELit (VInt 1)]])"

lemma demo_parses:
  "parse_sql whole_fl ''begin'' = Inr (StBegin, 0)" "parse_sql whole_fl ''rollback'' = Inr (StRollback, 0)"
  "parse_sql whole_fl q_create = Inr (n_create, 0)" "parse_sql whole_fl q_insert = Inr (n_insert, 1)"
  "parse_sql whole_fl q_dup = Inr (n_dup, 0)"
  by code_simp+

text \<open>The tables after so many rows.\<close>

definition demo_tabs :: "int val list list \<Rightarrow> int sql_tables" where
  "demo_tabs rows = [''t'' \<mapsto> \<lparr>tb_name = ''t'', tb_cols = demo_cols, tb_rows = rows\<rparr>]"

lemma lower_t: "lower_text ''t'' = ''t''" "lower_text ''a'' = ''a''" "lower_text ''id'' = ''id''"
  by code_simp+

lemmas demo_write = do_write_def do_create_def do_insert_def insert_rows_def insert_row_def value_row_def coerce_row_def set_cols_def
  fill_key_def ipk_def check_row_def check_col_def get_table_def put_rows_def colnames_def col_index_def wants_value_def wants_unique_def
  sem_param_def coerce_def next_key_def is_num_def arith_def best_def same_val_def cmp_val_def cls_def
  act_simps demo_tabs_def demo_cols_def lower_t

lemma demo_creates: "do_write whole_fl [] n_create Map.empty = (Inr 0, demo_tabs [])"
  by (simp add: demo_write)

lemma demo_inserts:
  "do_write whole_fl [VStr x] n_insert (demo_tabs []) = (Inr 1, demo_tabs [[VInt 1, VStr x]])"
  "do_write whole_fl [VStr y] n_insert (demo_tabs [[VInt 1, VStr x]]) = (Inr 1, demo_tabs [[VInt 1, VStr x], [VInt 2, VStr y]])"
  "fst (do_write whole_fl [] n_dup (demo_tabs [[VInt 1, VStr x]])) = Inl (SqlError ''constraint'' ''UNIQUE t.id'')"
  by (simp_all add: demo_write)

abbreviation e_create :: "int entry" where "e_create \<equiv> (q_create, [])"
abbreviation e_insert :: "string \<Rightarrow> int entry" where "e_insert x \<equiv> (q_insert, [VStr x])"

definition demo0 :: "int sql_db" where "demo0 = opened_db (log_text whole_fl [[e_create]]) (demo_tabs [])"
definition demo1 :: "int sql_db" where
  "demo1 = opened_db (log_text whole_fl [[e_create], [e_insert ''x'']]) (demo_tabs [[VInt 1, VStr ''x'']])"
definition demo2 :: "int sql_db" where
  "demo2 = opened_db (log_text whole_fl [[e_create], [e_insert ''x''], [e_insert ''y'']]) (demo_tabs [[VInt 1, VStr ''x''], [VInt 2, VStr ''y'']])"

lemma demo_open: "open_db whole_fl [] = (Inr (), opened_db (log_text whole_fl []) Map.empty)"
  by (simp add: open_db_def opened_db_def log_text_def new_db_def)

lemma demo_runs:
  "execute whole_fl Written q_create [] (opened_db (log_text whole_fl []) Map.empty) = (Inr (done_result 0), demo0)"
  "execute whole_fl Written q_insert [VStr ''x''] demo0 = (Inr (done_result 1), demo1)"
  "execute whole_fl Written q_insert [VStr ''y''] demo1 = (Inr (done_result 1), demo2)"
  unfolding demo0_def demo1_def demo2_def
  using execute_logged [of whole_fl q_create n_create "[]" Map.empty 0 "demo_tabs []" "[]"] demo_creates
    execute_logged [of whole_fl q_insert n_insert "[VStr ''x'']" "demo_tabs []" 1 "demo_tabs [[VInt 1, VStr ''x'']]" "[[e_create]]"]
    execute_logged [of whole_fl q_insert n_insert "[VStr ''y'']" "demo_tabs [[VInt 1, VStr ''x'']]" 1
      "demo_tabs [[VInt 1, VStr ''x''], [VInt 2, VStr ''y'']]" "[[e_create], [e_insert ''x'']]"]
  by (simp_all add: writes_def demo_parses demo_inserts)

lemma demo_files: "file_db whole_fl demo1" "file_db whole_fl demo2"
proof -
  have "file_db whole_fl (opened_db (log_text whole_fl []) Map.empty)" using file_db.fresh [of whole_fl] by (simp add: demo_open)
  from file_db.ran [OF this, of q_create "[]"] have "file_db whole_fl demo0" by (simp add: demo_runs)
  from file_db.ran [OF this, of q_insert "[VStr ''x'']"] show d: "file_db whole_fl demo1" by (simp add: demo_runs)
  from file_db.ran [OF this, of q_insert "[VStr ''y'']"] show "file_db whole_fl demo2" by (simp add: demo_runs)
qed

lemma demo_reachable: "sql_reachable whole_fl demo2"
proof -
  have "sql_reachable whole_fl (opened_db (log_text whole_fl []) Map.empty)" using sql_reachable.opened [OF demo_open] .
  from sql_reachable.executed [OF this, of Written q_create "[]"] have "sql_reachable whole_fl demo0" by (simp add: demo_runs)
  from sql_reachable.executed [OF this, of Written q_insert "[VStr ''x'']"] have "sql_reachable whole_fl demo1" by (simp add: demo_runs)
  from sql_reachable.executed [OF this, of Written q_insert "[VStr ''y'']"] show ?thesis by (simp add: demo_runs)
qed

text \<open>An open transaction with one more row.\<close>

definition demo3 :: "int sql_db" where
  "demo3 = snd (execute whole_fl Written q_insert [VStr ''z''] (snd (execute whole_fl Written ''begin'' [] demo2)))"

lemma demo_begins: "execute whole_fl Written ''begin'' [] demo2
    = (Inr (done_result 0), demo2\<lparr>db_in_txn := True, db_snap := Some (db_tables demo2), db_pending := []\<rparr>)"
  by (simp add: execute_def run_sql_def demo_parses act_simps begin_txn_def) (simp add: demo2_def opened_db_def new_db_def)

section \<open>Witnesses\<close>

theorem sql_constraints_hold_witness:
  "\<exists>t. db_tables demo2 ''t'' = Some t \<and> length (tb_rows t) = 2
     \<and> cmp_val whole_fl (tb_rows t ! 0 ! 0) (tb_rows t ! 1 ! 0) \<noteq> 0 \<and> (\<forall>row \<in> set (tb_rows t). row ! 1 \<noteq> VNone)"
proof -
  obtain t where t: "db_tables demo2 ''t'' = Some t" "tb_rows t = [[VInt 1, VStr ''x''], [VInt 2, VStr ''y'']]" "tb_cols t = demo_cols"
    by (simp add: demo2_def opened_db_def demo_tabs_def)
  have "cmp_val whole_fl (tb_rows t ! 0 ! 0) (tb_rows t ! 1 ! 0) \<noteq> 0"
    using conjunct2 [OF sql_constraints_hold [OF demo_reachable t(1)], rule_format, of 0 0 1] by (simp add: t demo_cols_def)
  moreover from sql_constraints_hold [OF demo_reachable t(1)] have "\<forall>row \<in> set (tb_rows t). row ! 1 \<noteq> VNone"
    unfolding t(3) by (simp add: demo_cols_def)
  ultimately show ?thesis using t by (intro exI [of _ t]) simp
qed

theorem raising_statement_outcome_witness:
  "execute whole_fl Written q_dup [] demo1 = (Inl (SqlError ''constraint'' ''UNIQUE t.id''), demo1)
   \<and> (\<exists>s. execute whole_fl (Failed (OSError ''No space left'') 3 0) q_insert [VStr ''y''] demo1 = (Inl (OSError ''No space left''), s)
        \<and> db_tables s = db_tables demo2 \<and> length (the (db_log s)) = length (the (db_log demo1)) + 3)"
proof
  obtain r s where e: "execute whole_fl Written q_dup [] demo1 = (r, s)" by force
  obtain T where "do_write whole_fl [] n_dup (db_tables demo1) = (Inl (SqlError ''constraint'' ''UNIQUE t.id''), T)"
    using demo_inserts(3) [of "''x''"]
    by (cases "do_write whole_fl [] n_dup (db_tables demo1)") (simp add: demo1_def opened_db_def)
  with e have r: "r = Inl (SqlError ''constraint'' ''UNIQUE t.id'')"
    by (simp add: execute_def run_sql_def demo_parses act_simps run_write_def guarded_write_run)
  from raising_statement_outcome [OF e] r e show "execute whole_fl Written q_dup [] demo1 = (Inl (SqlError ''constraint'' ''UNIQUE t.id''), demo1)"
    by simp
next
  let ?io = "Failed (OSError ''No space left'') 3 0"
  obtain r s where e: "execute whole_fl ?io q_insert [VStr ''y''] demo1 = (r, s)" by force
  have "r = Inl (OSError ''No space left'') \<and> db_tables s = demo_tabs [[VInt 1, VStr ''x''], [VInt 2, VStr ''y'']]"
    using e execute_unlogged [OF _ _ demo_inserts(2) [of "''y''" "''x''"], of q_insert] demo_parses(4)
    by (auto simp: demo1_def writes_def opened_db_def)
  moreover have "db_tables demo1 = demo_tabs [[VInt 1, VStr ''x'']]" and d: "\<not> db_in_txn demo1"
    by (simp_all add: demo1_def opened_db_def new_db_def)
  moreover have "demo_tabs [[VInt 1, VStr ''x''], [VInt 2, VStr ''y'']] ''t'' \<noteq> demo_tabs [[VInt 1, VStr ''x'']] ''t''"
    by (simp add: demo_tabs_def)
  ultimately have r: "r = Inl (OSError ''No space left'')" and s: "s \<noteq> demo1" by auto
  have "\<exists>c t. db_log demo1 = Some c \<and> db_log demo2 = Some (c @ t) \<and> s = demo2\<lparr>db_log := Some (c @ take 3 t), db_buf := take 0 (drop 3 t)\<rparr>"
    using raising_statement_outcome [OF e] r s d demo_runs(3) by auto
  moreover have "length (the (db_log demo1)) + 3 \<le> length (the (db_log demo2))"
    by (simp add: demo1_def demo2_def opened_db_def new_db_def log_text_def log_line_def json_line_def)
  ultimately have "db_tables s = db_tables demo2" "length (the (db_log s)) = length (the (db_log demo1)) + 3" by auto
  with e r show "\<exists>s. execute whole_fl ?io q_insert [VStr ''y''] demo1 = (Inl (OSError ''No space left''), s)
        \<and> db_tables s = db_tables demo2 \<and> length (the (db_log s)) = length (the (db_log demo1)) + 3" by blast
qed

theorem rollback_restores_witness:
  "execute whole_fl Written ''rollback'' [] (run_ops (exec_op whole_fl) [(Written, e_insert ''z''), (Failed (OSError ''write'') 0 0, q_dup, [])] (snd (execute whole_fl Written ''begin'' [] demo2)))
     = (Inr (done_result 0), demo2)"
proof -
  have e: "execute whole_fl Written ''begin'' [] demo2 = (Inr (done_result 0), snd (execute whole_fl Written ''begin'' [] demo2))"
    by (simp add: demo_begins)
  have "\<forall>(io, sql, ps) \<in> set [(Written, e_insert ''z''), (Failed (OSError ''write'') 0 0, q_dup, [])]. \<not> ends_txn whole_fl sql"
    by (simp add: ends_txn_def demo_parses)
  from rollback_restores [OF demo_reachable demo_parses(1) e this demo_parses(2)] show ?thesis .
qed

theorem reopening_restores_commits_witness:
  "open_db whole_fl (the (db_log demo3) @ ''[1'') = (Inr (), \<lparr>db_tables = demo_tabs [[VInt 1, VStr ''x''], [VInt 2, VStr ''y'']],
     db_in_txn = False, db_snap = None, db_pending = [], db_log = db_log demo3, db_buf = []\<rparr>)"
proof -
  have p: "committed_tables demo3 = demo_tabs [[VInt 1, VStr ''x''], [VInt 2, VStr ''y'']] \<and> db_log demo3 \<noteq> None"
  proof -
    obtain r T where "do_write whole_fl [VStr ''z''] n_insert (db_tables demo2) = (r, T)" by force
    then show ?thesis unfolding demo3_def demo_begins snd_conv
      by (cases r) (simp_all add: execute_def run_sql_def demo_parses act_simps run_write_def
          guarded_write_run committed_tables_def, simp_all add: demo2_def opened_db_def new_db_def)
  qed
  then obtain c where l: "db_log demo3 = Some c" by auto
  have "newline \<notin> set ''[1''" by (simp add: newline_def)
  from reopening_restores_commits [OF whole_json _ l this] p l show ?thesis
    unfolding demo3_def using demo_files(2) by (simp add: file_db.ran)
qed

theorem crash_is_atomic_witness:
  "open_db whole_fl (take (length (the (db_log demo2)) - 1) (the (db_log demo2))) = (Inr (), demo1)"
proof -
  have l: "db_log demo1 = Some (the (db_log demo1))" "db_log demo2 = Some (the (db_log demo2))"
    by (simp_all add: demo1_def demo2_def opened_db_def new_db_def)
  have "length (the (db_log demo1)) \<le> length (the (db_log demo2)) - 1" "length (the (db_log demo2)) \<noteq> 0"
    by (simp_all add: demo1_def demo2_def opened_db_def new_db_def log_text_def log_line_def)
  note n = this
  from n(2) have k: "length (the (db_log demo2)) - 1 \<noteq> length (the (db_log demo2))" by linarith
  from crash_is_atomic [OF whole_json demo_files(1) l(1) demo_runs(3) l(2) n(1) diff_le_self] show ?thesis
    unfolding if_not_P [OF k] by (simp add: demo1_def opened_db_def new_db_def committed_tables_def)
qed

section \<open>Queries\<close>

lemma whole_order: "weak_order (sk_lt whole_fl)"
proof -
  have "sk_lt whole_fl a b \<Longrightarrow> \<not> sk_lt whole_fl b a" for a b :: "int val"
    by (cases a; cases b) (auto simp: whole_fl_def cls_def)
  moreover have "sk_lt whole_fl a c \<Longrightarrow> sk_lt whole_fl a b \<or> sk_lt whole_fl b c" for a b c :: "int val"
    by (cases a; cases b; cases c) (auto simp: whole_fl_def cls_def)
  ultimately show ?thesis unfolding weak_order_def by blast
qed

lemma whole_equal: "equivalence (sk_eq whole_fl)"
proof -
  have "sk_eq whole_fl a a" "sk_eq whole_fl a b \<Longrightarrow> sk_eq whole_fl b a" for a b :: "int val"
    by (cases a; cases b; simp add: whole_fl_def cls_def)+
  moreover have "sk_eq whole_fl a b \<Longrightarrow> sk_eq whole_fl b c \<Longrightarrow> sk_eq whole_fl a c" for a b c :: "int val"
    by (cases a; cases b; cases c) (auto simp: whole_fl_def cls_def)
  ultimately show ?thesis unfolding equivalence_def by blast
qed

text \<open>\<open>select a from t order by id desc\<close>.\<close>

abbreviation demo_core :: "int core" where
  "demo_core \<equiv> Core False [IExpr (ECol None ''a'') ''a''] (Some (STable ''t'' ''t'')) [] None [] None"

lemma demo_select: "select whole_fl (demo_tabs [[VInt 1, VStr ''x''], [VInt 2, VStr ''y'']]) []
    (Select [demo_core] [] [(ECol None ''id'', True)] None None) [] = Inr ([''a''], [[VStr ''y''], [VStr ''x'']])"
  by code_simp

theorem select_orders_rows_witness:
  "\<exists>units ks idx. core whole_fl (demo_tabs [[VInt 1, VStr ''x''], [VInt 2, VStr ''y'']]) [] demo_core [] = Inr ([''a''], units)
     \<and> mset idx = mset [0..<length units] \<and> sorted_wrt (row_before whole_fl ks [True]) idx
     \<and> map (\<lambda>i. unit_vals (units ! i)) idx = [[VStr ''y''], [VStr ''x'']]"
  using select_orders_rows [OF whole_order demo_select]
proof (elim exE conjE)
  fix units idx and ks :: "(nat \<Rightarrow> int val) list"
  let ?T = "demo_tabs [[VInt 1, VStr ''x''], [VInt 2, VStr ''y'']]"
  assume "core whole_fl ?T [] demo_core [] = Inr ([''a''], units)" "mset idx = mset [0..<length units]"
    "sorted_wrt (row_before whole_fl ks (map snd [(ECol None ''id'', True)])) idx"
    "sem_limit (map_option (eval whole_fl ?T []) None) (map_option (eval whole_fl ?T []) None) (map (\<lambda>i. unit_vals (units ! i)) idx)
       = Inr [[VStr ''y''], [VStr ''x'']]"
  then show ?thesis by (intro exI [of _ units] exI [of _ ks] exI [of _ idx]) (simp add: sem_limit_def del: core.simps)
qed

abbreviation demo_env :: "int \<Rightarrow> int env" where "demo_env n \<equiv> [[(''t'', [''n''], [VInt n])]]"
abbreviation demo_mod :: "int den" where "demo_mod \<equiv> eval whole_fl Map.empty [] (EBin ''%'' (ECol None ''n'') (ELit (VInt 2)))"

lemma demo_groups: "sem_groups whole_fl [demo_mod] [demo_env 1, demo_env 2, demo_env 3] = Inr [[demo_env 1, demo_env 3], [demo_env 2]]"
  by code_simp

theorem groups_partition_rows_witness:
  "(\<exists>ks. mapR (\<lambda>e. mapR (\<lambda>d. d e None) [demo_mod]) [demo_env 1, demo_env 2, demo_env 3] = Inr ks
       \<and> [[demo_env 1, demo_env 3], [demo_env 2]] = map (\<lambda>k. map snd (filter (\<lambda>(k', e). row_eq whole_fl k k')
           (zip ks [demo_env 1, demo_env 2, demo_env 3]))) (dedup (row_eq whole_fl) [] ks))"
  using groups_partition_rows [OF whole_equal _ demo_groups] by blast

theorem in_list_is_disjunction_witness:
  "eval whole_fl Map.empty [] (EIn (ELit (VInt 1)) (InList [ELit VNone, ELit (VInt 1)]) True) [] None
     = eval whole_fl Map.empty [] (ENot (EOr (EBin ''='' (ELit (VInt 1)) (ELit VNone))
         (EOr (EBin ''='' (ELit (VInt 1)) (ELit (VInt 1))) (ELit (VInt 0))))) [] None"
proof -
  have e: "eval whole_fl Map.empty [] (ELit (VInt 1)) [] None = Inr (VInt 1)" by simp
  have es: "mapR (\<lambda>x. eval whole_fl Map.empty [] x [] None) [ELit VNone, ELit (VInt 1)] = Inr [VNone, VInt 1]" by simp
  from in_list_is_disjunction [OF e es, of True] show ?thesis by (simp only: Let_def foldr.simps o_apply id_apply if_True)
qed

end
