(* ===== verification/Spec2Isabelle.thy ===== *)
theory Spec2Isabelle
  imports Kv_Layout Kv_Park Park_Index_Props Conv_Policy_Props Parking_Match Placement_Props Lowbit_Thms Qsa_Page_Thms Qsa_Layer_Run Ple_Block Kvd_Runs
    Sql_Cli Sql_Demo
begin

text \<open>
  A verification development for the core logic of an inference repository: a serving stack that keeps a
  large mixture-of-experts model on two small GPUs, and the reference programs it is measured with.
  Paths below are under \<open>src/\<close>.

  \<^bold>\<open>Parking conversations\<close> (\<open>vllm/flashnext/kvoffload\<close>). When a request finishes, the key-value blocks of its last
  tokens and its recurrent state are copied to host memory, so that the next turn of the conversation restarts
  there.
    \<^item> \<open>Kv_Layout\<close> is \<open>layout.py\<close> and the turn accounting of \<open>index.py\<close>: byte sizes, page scaling, the checkpoint
      boundary, pool size.
    \<^item> \<open>Kv_Park\<close> is \<open>park.py\<close>: whole snapshots under a slot count and a byte budget.
    \<^item> \<open>Park_Index\<close> is \<open>index.py\<close>, the index of conversation tails. Tail records are mutable and shared by three
      dictionaries, so they live in an object table and the dictionaries hold addresses. \<open>Park_Index_Inv\<close> has the
      invariant and what each operation does to it, \<open>Park_Index_Thms\<close> the lookups, \<open>Park_Index_Props\<close> the runs.
    \<^item> \<open>Conv_Policy\<close> is \<open>policy.py\<close>, eviction by whole conversations over a base policy of vLLM, which is a parameter;
      \<open>Conv_Policy_Props\<close> has its specification.
    \<^item> \<open>Parking\<close> is \<open>parking.py\<close> and \<open>connector.py\<close>: the scheduler that queues tails, pins blocks, stores and matches. It
      calls the index and the policy. \<open>Parking_Props\<close> and \<open>Parking_Match\<close> have its properties.

  \<^bold>\<open>Placing experts\<close> (\<open>vllm/flashnext/plugins/b70_ep_xpu/b70_ep_xpu/placement.py\<close>): \<open>Placement\<close> and \<open>Placement_Props\<close>,
  the profile reader, the snake deal over two cards, slot maps, linear split and plan cache.

  \<^bold>\<open>Low-bit weights\<close> (\<open>vllm/flashnext/plugins/b70_lowbit_xpu/b70_lowbit_xpu/format.py\<close>): \<open>Lowbit\<close>, \<open>Lowbit_Props\<close>,
  \<open>Lowbit_Thms\<close>, the bit planes, their strides, the AutoGPTQ bitstream and the expert repacks.

  \<^bold>\<open>Sparse attention\<close> (\<open>vllm/flashnext/flashnext_ref\<close>).
    \<^item> \<open>Tensor\<close> has integer dtypes and row-major views, \<open>Qsa_Ref\<close> the pure routines of \<open>qsa.py\<close> and \<open>qsa_layer.py\<close>,
      \<open>Qsa_Topk\<close> the two selections of the best cells.
    \<^item> \<open>Qsa_Page\<close>, \<open>Qsa_Page_Props\<close>, \<open>Qsa_Page_Thms\<close> are the byte layout of a page in \<open>qsa_cache.py\<close>, its copy in
      \<open>plugins/b70_qsa_xpu/b70_qsa_xpu/layout.py\<close>, and the packed union of selections.
    \<^item> \<open>Qsa_Cache\<close> is the class \<open>QsaPaged\<close>: a pool of byte pages, block tables, pooled rows, export and import.
      \<open>Qsa_Pool\<close>, \<open>Qsa_Cells\<close>, \<open>Qsa_Rows\<close>, \<open>Qsa_Cache_Props\<close> say what an operation writes and reads, \<open>Qsa_Cache_Thms\<close>
      what a sequence holds, \<open>Qsa_Move\<close> how it moves, \<open>Qsa_Progress\<close> that nothing raises.
    \<^item> \<open>Qsa_State\<close> is the single-sequence layer of \<open>qsa_layer.py\<close>; \<open>Qsa_State_Props\<close> and \<open>Qsa_State_Thms\<close> show that the
      paged cache refines it, \<open>Qsa_Prefill\<close> and \<open>Qsa_Layer_Run\<close> treat its prefills. \<open>Qsa_Witness\<close> is a concrete cache.

  \<^bold>\<open>Hashed embeddings\<close> (\<open>ple.py\<close> and \<open>geometry.py\<close> in \<open>vllm/flashnext/flashnext_ref\<close>): \<open>Ple\<close> has the n-gram hash in both
  transcriptions, the IQ4_NL rows, the gate and the dilated convolution, \<open>Ple_Thms\<close> the hash, \<open>Ple_Block\<close> the block
  behind its two projections, of which nothing is assumed: a product by a matrix need not treat a row alone as it treats the
  row in a batch.

  \<^bold>\<open>The kvd server\<close> (\<open>evals/abfast/longrun/tasks/re-proto/src/ref_kvd.py\<close>). \<open>Kvd_State\<close> has byte strings, the hash,
  objects and frames, \<open>Kvd_Ops\<close> the request handlers, \<open>Kvd_Loop\<close> the framing loop, the events and the reachable
  servers. \<open>Kvd_Spec\<close> is the abstract server: the effect of each request, who is permitted to make it, and a step relation
  labelled with the arrival, the departure or the requests of a connection; \<open>Kvd_Refine\<close> and \<open>Kvd_Sim\<close> show that every
  handler has the effect of its request, \<open>Kvd_Frames\<close> that the framing loop ends and does not depend on how the stream is cut,
  \<open>Kvd_Thms\<close> and \<open>Kvd_Runs\<close> have the properties and a concrete session.

  \<^bold>\<open>The minisql engine\<close> (\<open>evals/abfast/longrun/tasks/spec-sql/src/minisql.py\<close>, the class \<open>Database\<close> and what it uses).
    \<^item> \<open>Sql_Value\<close> has values, their order, their texts and column affinity; \<open>Sql_Parse\<close> the lexer and the class
      \<open>Parser\<close>; \<open>Sql_Parse_Props\<close> shows that it returns.
    \<^item> \<open>Sql_Eval\<close> is \<open>binop\<close>, \<open>func\<close> and the cases of \<open>eval\<close>, \<open>Sql_Query\<close> is \<open>core\<close>, \<open>select\<close> and \<open>finish\<close> with the evaluator,
      \<open>Sql_Query_Props\<close> their properties.
    \<^item> \<open>Sql_Db\<close> has \<open>insert\<close>, \<open>update\<close>, \<open>delete\<close>, the transactions of \<open>_run\<close>, and the log written by \<open>_write_log\<close> and read by
      \<open>_open_file\<close>; every statement takes as an argument how its write of the log ends. \<open>Sql_Db_Props\<close> has the constraints, \<open>Sql_Json\<close> the lines, \<open>Sql_Log\<close> durability. \<open>Sql_Cli\<close> is \<open>main\<close>, and
      \<open>Sql_Demo\<close> has concrete runs.
\<close>

text \<open>
  \<^bold>\<open>How the code is translated.\<close> An exception is a value: \<open>'a res\<close> is \<open>py_error + 'a\<close>, sequenced by \<open>bindR\<close>; a method
  of a mutable object is an \<open>act\<close>, which gives a result and the state it leaves also when it raises. \<open>Prelude\<close> has
  both, with Python indexing, slices and insertion-ordered dictionaries. Machine integers are words or integers with
  the wrap-around written out; Python integers are \<open>int\<close>. Floating-point operations, numpy products and conversions are
  fields of the record \<open>np\<close> (or single parameters), and no law of arithmetic is assumed of them; an entry of a product
  is a function of both whole operands and its position. The shapes numpy checks are checked: ragged rows, products and
  elementwise operations of unequal shapes raise. Where a property needs
  one (a 32-bit float survives its four bytes, a half float has two) the theorem names it as a hypothesis and
  its witness has an instance.

  \<^bold>\<open>Interfaces.\<close> \<open>bounded_count\<close> and \<open>bounded_store\<close> (a run of operations stays within a count, and a byte budget) are
  interpreted on the conversation index and the slot park; \<open>ordered_dict\<close> on the dictionaries; \<open>codec\<close> (what is written
  is read back) on packed planes, profile files, frames, little-endian integers and log lines; \<open>field_store\<close> (disjoint fields, so
  a write keeps every other) on one page and on the pool of pages; \<open>prefix_store\<close> (a query of a token does not see later
  appends, so a chunk is its tokens one by one) on the paged cache, and its extension \<open>prepared_store\<close> on the layer;
  \<open>simulation\<close> (a step of one system is a sequence of steps of another) on the kvd server; \<open>stepwise\<close> (a recurrence over
  tokens can be cut anywhere) on the two hash transcriptions and the convolution, and \<open>stepwise_pair\<close>, which relates two
  of them, on the transcriptions.

  \<^bold>\<open>Lemma groups.\<close> Each component has an invariant kept by every operation, then its functional properties on every
  branch, then the properties against a declarative specification: the shortest prefix an eviction takes, the longest
  tail a lookup finds, the bit slices a plane holds, the history a sequence holds, the abstract server a handler
  refines. The numbered texts name the properties; a theorem whose name ends in \<open>_witness\<close> applies one at a concrete
  input.

  \<^bold>\<open>Bounds, fuel and termination.\<close> Loops over data are structural, loops over indices are recursive functions with a
  measure. The framing loop of the kvd server is a partial function, and \<open>drain_loop_returns\<close> shows that it returns on
  every buffer, since a frame takes at least ten bytes. Two readers take their nesting depth as fuel: the parser of
  minisql, with one more than the number of tokens, which \<open>parse_returns\<close> shows to be enough since every call goes past a
  token, and the reader of JSON, with one more than the length of the text, each level taking a bracket. Positions of the paged cache stay
  below \<open>2 ^ 31\<close> and indices into sequences are nonnegative, as their callers ensure. A socket is the bytes it took and
  whether writing raises; what \<open>poll\<close> reports is a sequence of events. The texts of minisql hold code points below 256, and
  a log file is a text; a write of it may fail after any part of the text, while writing the header of a new file is taken
  to succeed. Python's float operations are fields of the record \<open>pyf\<close>; the order of values is taken without
  NaN, and the interpreter's limits on recursion and on the digits of an integer are not modelled.

  \<^bold>\<open>Not modelled.\<close> Of the modelled files: logging, environment variables, reading \<open>/proc/meminfo\<close>, command lines and
  socket set-up, random test weights, torch devices. Of the rest of the repository: the plugin service code, the
  patched copies of vLLM and SGLang and the quantisation drivers, which are calls into third-party packages and
  compiled operators whose source is not here; probes, benchmarks and report scripts, which measure rather than
  decide; and the remaining reference layers and evaluation programs, which are floating-point tensor code or drive
  processes and containers.
\<close>

end
